(* ===== verification/Prelude.thy ===== *)
theory Prelude
  imports Main "HOL-Library.Word"
begin

text \<open>
  What every component of the development shares: the machine types of the Rust code, the
  result monad that stands for \<open>Result<T, E>\<close> and the \<open>?\<close> operator, the byte-order
  conversions of the standard library (\<open>to_le_bytes\<close>, \<open>from_be_bytes\<close>, ...), slice
  access with a range (\<open>slice.get(a..b)\<close>), the UTF-8 check behind \<open>str::from_utf8\<close>,
  and the collections of rewrite rules that the component theories extend.

  The target is a 64-bit one: \<open>usize\<close> is 64 bits wide, so lengths and offsets are
  natural numbers, and the checks on them compare with \<open>usize_max\<close>.
\<close>

section \<open>Types\<close>

type_synonym u8 = "8 word"
type_synonym u16 = "16 word"
type_synonym u32 = "32 word"
type_synonym u64 = "64 word"
type_synonym i32 = "32 word"
type_synonym i64 = "64 word"
type_synonym f64 = "64 word"
type_synonym bytes = "8 word list"

text \<open>\<open>Result<T, E>\<close> is a sum; the abbreviations keep the names of the source.\<close>

abbreviation Ok :: "'a \<Rightarrow> 'e + 'a" where "Ok \<equiv> Inr"
abbreviation Err :: "'e \<Rightarrow> 'e + 'a" where "Err \<equiv> Inl"

named_theorems res_simps "rules that open a successful chain of results"
named_theorems byte_simps "rules about byte strings and byte order"

section \<open>Results\<close>

text \<open>\<open>let x = m?; f x\<close>: an error returns early.\<close>

definition rbind :: "'e + 'a \<Rightarrow> ('a \<Rightarrow> 'e + 'b) \<Rightarrow> 'e + 'b" where
  "rbind m f = (case m of Err e \<Rightarrow> Err e | Ok x \<Rightarrow> f x)"

text \<open>\<open>opt.ok_or(e)\<close>.\<close>

definition ok_or :: "'a option \<Rightarrow> 'e \<Rightarrow> 'e + 'a" where
  "ok_or m e = (case m of None \<Rightarrow> Err e | Some x \<Rightarrow> Ok x)"

text \<open>\<open>r.map_err(f)\<close>.\<close>

definition map_err :: "('e \<Rightarrow> 'f) \<Rightarrow> 'e + 'a \<Rightarrow> 'f + 'a" where
  "map_err f m = (case m of Err e \<Rightarrow> Err (f e) | Ok x \<Rightarrow> Ok x)"

text \<open>\<open>iter.find_map(f)\<close>: the first answer; \<open>List.map_filter\<close> is \<open>filter_map\<close>.\<close>

fun find_map :: "('a \<Rightarrow> 'b option) \<Rightarrow> 'a list \<Rightarrow> 'b option" where
  "find_map f [] = None"
| "find_map f (x # xs) = (case f x of None \<Rightarrow> find_map f xs | Some y \<Rightarrow> Some y)"

text \<open>\<open>iter.map(f).collect::<Result<Vec<_>>>()\<close>: the first error wins.\<close>

fun collect_results :: "('e + 'a) list \<Rightarrow> 'e + 'a list" where
  "collect_results [] = Ok []"
| "collect_results (Err e # rs) = Err e"
| "collect_results (Ok x # rs) = rbind (collect_results rs) (\<lambda>xs. Ok (x # xs))"

lemma rbind_simps [simp]:
  "rbind (Ok x) f = f x"
  "rbind (Err e) f = Err e"
  by (simp_all add: rbind_def)

lemma rbind_cong [fundef_cong]:
  "m = m' \<Longrightarrow> (\<And>x. m' = Ok x \<Longrightarrow> f x = f' x) \<Longrightarrow> rbind m f = rbind m' f'"
  by (auto simp: rbind_def split: sum.splits)

lemma rbind_Ok_iff [res_simps]:
  "rbind m f = Ok y \<longleftrightarrow> (\<exists>x. m = Ok x \<and> f x = Ok y)"
  by (cases m) auto

lemma rbind_Err_iff:
  "rbind m f = Err e \<longleftrightarrow> m = Err e \<or> (\<exists>x. m = Ok x \<and> f x = Err e)"
  by (cases m) auto

lemma rbind_assoc: "rbind (rbind m f) g = rbind m (\<lambda>x. rbind (f x) g)"
  by (cases m) auto

lemma rbind_split:
  "P (rbind m f) \<longleftrightarrow> (\<forall>e. m = Err e \<longrightarrow> P (Err e)) \<and> (\<forall>x. m = Ok x \<longrightarrow> P (f x))"
  by (cases m) auto

lemma ok_or_simps [simp]:
  "ok_or (Some x) e = Ok x"
  "ok_or None e = Err e"
  by (simp_all add: ok_or_def)

lemma ok_or_Ok_iff [res_simps]: "ok_or m e = Ok x \<longleftrightarrow> m = Some x"
  by (cases m) auto

lemma map_err_simps [simp]:
  "map_err f (Ok x) = Ok x"
  "map_err f (Err e) = Err (f e)"
  by (simp_all add: map_err_def)

lemma map_err_Ok_iff [res_simps]: "map_err f m = Ok x \<longleftrightarrow> m = Ok x"
  by (cases m) auto

lemma if_Ok_iff [res_simps]:
  "(if b then Err e else m) = Ok x \<longleftrightarrow> \<not> b \<and> m = Ok x"
  "(if b then m else Err e) = Ok x \<longleftrightarrow> b \<and> m = Ok x"
  by auto

lemma find_map_first: "f x = Some y \<Longrightarrow> \<forall>z \<in> set ys. f z = None \<Longrightarrow> find_map f (ys @ x # zs) = Some y"
  by (induction ys) auto

lemma find_map_SomeD:
  "find_map f xs = Some y \<Longrightarrow> \<exists>ys x zs. xs = ys @ x # zs \<and> f x = Some y \<and> (\<forall>z \<in> set ys. f z = None)"
proof (induction xs)
  case (Cons x xs)
  show ?case
  proof (cases "f x")
    case None
    with Cons obtain ys z zs where "xs = ys @ z # zs" "f z = Some y" "\<forall>z \<in> set ys. f z = None" by auto
    with None show ?thesis by (intro exI [of _ "x # ys"] exI [of _ z] exI [of _ zs]) simp
  next
    case (Some v)
    with Cons.prems show ?thesis by (intro exI [of _ "[]"] exI [of _ x] exI [of _ xs]) simp
  qed
qed simp

lemma find_map_None_iff: "find_map f xs = None \<longleftrightarrow> (\<forall>x \<in> set xs. f x = None)"
  by (induction xs) (auto split: option.splits)

lemma collect_results_Ok: "collect_results (map Ok xs) = Ok xs"
  by (induction xs) auto

text \<open>\<open>is_ok\<close> of a chain.\<close>

definition succeeds :: "'e + 'a \<Rightarrow> bool" where
  "succeeds m \<longleftrightarrow> (case m of Ok _ \<Rightarrow> True | Err _ \<Rightarrow> False)"

lemma succeeds_simps [simp]:
  "succeeds (Ok x)" "\<not> succeeds (Err e)" "succeeds (if b then m else m') = (if b then succeeds m else succeeds m')"
  by (simp_all add: succeeds_def)

lemma succeeds_iff: "succeeds m \<longleftrightarrow> (\<exists>r. m = Ok r)"
  by (cases m) auto

lemma succeeds_last:
  "succeeds (rbind m (\<lambda>x. Ok (g x))) = succeeds m"
  "succeeds (rbind n (\<lambda>(x, y). Ok (h x y))) = succeeds n"
  by (cases m; auto) (cases n; auto)

section \<open>Sizes\<close>

definition usize_max :: nat where
  "usize_max = 2 ^ 64 - 1"

definition checked_add :: "nat \<Rightarrow> nat \<Rightarrow> nat option" where
  "checked_add a b = (if a + b \<le> usize_max then Some (a + b) else None)"

definition saturating_add :: "nat \<Rightarrow> nat \<Rightarrow> nat" where
  "saturating_add a b = min usize_max (a + b)"

definition saturating_mul :: "nat \<Rightarrow> nat \<Rightarrow> nat" where
  "saturating_mul a b = min usize_max (a * b)"

lemma checked_add_Some_iff: "checked_add a b = Some c \<longleftrightarrow> c = a + b \<and> a + b \<le> usize_max"
  by (auto simp: checked_add_def)

section \<open>Slices\<close>

text \<open>\<open>slice.get(a..b)\<close> and \<open>slice.get(a..)\<close>.\<close>

definition get_range :: "'a list \<Rightarrow> nat \<Rightarrow> nat \<Rightarrow> 'a list option" where
  "get_range xs a b = (if a \<le> b \<and> b \<le> length xs then Some (take (b - a) (drop a xs)) else None)"

definition get_from :: "'a list \<Rightarrow> nat \<Rightarrow> 'a list option" where
  "get_from xs a = (if a \<le> length xs then Some (drop a xs) else None)"

text \<open>\<open>slice.get(i).copied()\<close>.\<close>

definition get_at :: "'a list \<Rightarrow> nat \<Rightarrow> 'a option" where
  "get_at xs i = (if i < length xs then Some (xs ! i) else None)"

lemma get_range_Some_iff [res_simps]:
  "get_range xs a b = Some ys \<longleftrightarrow> a \<le> b \<and> b \<le> length xs \<and> ys = take (b - a) (drop a xs)"
  by (auto simp: get_range_def)

lemma get_range_length: "get_range xs a b = Some ys \<Longrightarrow> length ys = b - a"
  by (auto simp: get_range_def split: if_splits)

lemma get_range_append:
  "get_range xs a b = Some ys \<Longrightarrow> get_range (xs @ zs) a b = Some ys"
  by (auto simp: get_range_def split: if_splits)

lemma get_range_mid:
  "length xs = a \<Longrightarrow> get_range (xs @ ys @ zs) a (a + length ys) = Some ys"
  by (auto simp: get_range_def)

lemma get_at_append: "get_at xs i = Some x \<Longrightarrow> get_at (xs @ ys) i = Some x"
  by (auto simp: get_at_def nth_append split: if_splits)

lemma get_at_mid: "length xs = a \<Longrightarrow> get_at (xs @ y # ys) a = Some y"
  by (auto simp: get_at_def)

section \<open>Byte order\<close>

text \<open>
  \<open>le_bytes k n\<close> is the first \<open>k\<close> bytes of \<open>n.to_le_bytes()\<close>; \<open>le_nat\<close>
  reads them back. The big-endian forms are the reversals.
\<close>

fun le_bytes :: "nat \<Rightarrow> nat \<Rightarrow> bytes" where
  "le_bytes 0 n = []"
| "le_bytes (Suc k) n = word_of_nat (n mod 256) # le_bytes k (n div 256)"

fun le_nat :: "bytes \<Rightarrow> nat" where
  "le_nat [] = 0"
| "le_nat (b # bs) = unat b + 256 * le_nat bs"

definition be_bytes :: "nat \<Rightarrow> nat \<Rightarrow> bytes" where
  "be_bytes k n = rev (le_bytes k n)"

definition be_nat :: "bytes \<Rightarrow> nat" where
  "be_nat bs = le_nat (rev bs)"

lemma unat_u8_bound: "unat (b :: u8) < 256"
  using unsigned_less [of b, where ?'a = nat] by simp

lemma unat_of_nat_u8: "unat (word_of_nat n :: u8) = n mod 256"
  by (simp add: unat_of_nat)

lemma length_le_bytes [simp]: "length (le_bytes k n) = k"
  by (induction k arbitrary: n) auto

lemma length_be_bytes [simp]: "length (be_bytes k n) = k"
  by (simp add: be_bytes_def)

lemma le_nat_le_bytes_mod: "le_nat (le_bytes k n) = n mod 256 ^ k"
proof (induction k arbitrary: n)
  case 0
  show ?case by simp
next
  case (Suc k)
  have "n mod 256 + 256 * (n div 256 mod 256 ^ k) = n mod (256 * 256 ^ k)"
    by (metis add.commute mod_mult2_eq)
  with Suc show ?case by (simp add: unat_of_nat_u8)
qed

lemma le_nat_le_bytes [byte_simps]: "n < 256 ^ k \<Longrightarrow> le_nat (le_bytes k n) = n"
  by (simp add: le_nat_le_bytes_mod)

lemma le_nat_bound: "le_nat bs < 256 ^ length bs"
proof (induction bs)
  case Nil
  show ?case by simp
next
  case (Cons b bs)
  have "unat b < 256" by (rule unat_u8_bound)
  with Cons show ?case by simp
qed

lemma le_bytes_le_nat: "le_bytes (length bs) (le_nat bs) = bs"
proof (induction bs)
  case Nil
  show ?case by simp
next
  case (Cons b bs)
  have "unat b < 256" by (rule unat_u8_bound)
  with Cons show ?case by simp
qed

lemma be_nat_be_bytes [byte_simps]: "n < 256 ^ k \<Longrightarrow> be_nat (be_bytes k n) = n"
  by (simp add: be_nat_def be_bytes_def le_nat_le_bytes)

lemma be_nat_bound: "be_nat bs < 256 ^ length bs"
  using le_nat_bound [of "rev bs"] by (simp add: be_nat_def)

lemma be_bytes_be_nat: "be_bytes (length bs) (be_nat bs) = bs"
  using le_bytes_le_nat [of "rev bs"] by (simp add: be_nat_def be_bytes_def)

lemma le_bytes_inj: "le_bytes k m = le_bytes k n \<Longrightarrow> m < 256 ^ k \<Longrightarrow> n < 256 ^ k \<Longrightarrow> m = n"
  by (metis le_nat_le_bytes)

lemma unat_u16_bound: "unat (w :: u16) < 65536"
  using unsigned_less [of w, where ?'a = nat] by simp

lemma unat_u32_bound: "unat (w :: u32) < 2 ^ 32"
  using unsigned_less [of w, where ?'a = nat] by simp

lemma unat_u64_bound: "unat (w :: u64) < 2 ^ 64"
  using unsigned_less [of w, where ?'a = nat] by simp

lemma le_nat_u64 [byte_simps]: "le_nat (le_bytes 8 (unat (w :: u64))) = unat w"
  using unat_u64_bound [of w] by (intro le_nat_le_bytes) simp

lemma be_nat_u16 [byte_simps]: "be_nat (be_bytes 2 (unat (w :: u16))) = unat w"
  using unat_u16_bound [of w] by (intro be_nat_be_bytes) simp

lemma be_nat_u32 [byte_simps]: "be_nat (be_bytes 4 (unat (w :: u32))) = unat w"
  using unat_u32_bound [of w] by (intro be_nat_be_bytes) simp

lemma be_nat_u64 [byte_simps]: "be_nat (be_bytes 8 (unat (w :: u64))) = unat w"
  using unat_u64_bound [of w] by (intro be_nat_be_bytes) simp

text \<open>The bytes of a literal length, for evaluation.\<close>

lemma le_bytes_numeral:
  "le_bytes (numeral k) n = word_of_nat (n mod 256) # le_bytes (pred_numeral k) (n div 256)"
  by (simp only: numeral_eq_Suc [of k] le_bytes.simps)

lemma replicate_eval: "replicate (numeral k) x = x # replicate (pred_numeral k) x"
  by (simp only: numeral_eq_Suc [of k] replicate.simps)

text \<open>\<open>as u8\<close> keeps the low byte; widening a byte keeps its value.\<close>

lemma unat_ucast_u8: "unat (ucast (w :: 'a::len word) :: u8) = unat w mod 256"
  by (simp add: unsigned_ucast_eq unsigned_take_bit_eq take_bit_eq_mod)

lemma unat_ucast_up [simp]:
  "unat (ucast (b :: u8) :: u16) = unat b"
  "unat (ucast (b :: u8) :: u32) = unat b"
  "unat (ucast (b :: u8) :: u64) = unat b"
  using unat_u8_bound [of b]
  by (simp_all add: unsigned_ucast_eq unsigned_take_bit_eq take_bit_eq_mod)

section \<open>Text\<close>

text \<open>
  A Rust \<open>str\<close> is its UTF-8 bytes. \<open>lit\<close> writes an ASCII literal; \<open>utf8_valid\<close>
  is the check of \<open>core::str::from_utf8\<close>: well-formed sequences only, so no overlong form,
  no surrogate and nothing above \<open>U+10FFFF\<close>.
\<close>

definition lit :: "string \<Rightarrow> bytes" where
  "lit s = map of_char s"

definition cont :: "u8 \<Rightarrow> bool" where
  "cont b \<longleftrightarrow> 0x80 \<le> b \<and> b \<le> 0xBF"

fun utf8_valid :: "bytes \<Rightarrow> bool" where
  "utf8_valid [] = True"
| "utf8_valid (a # bs) =
     (if a \<le> 0x7F then utf8_valid bs
      else if 0xC2 \<le> a \<and> a \<le> 0xDF then
        (case bs of b # rest \<Rightarrow> cont b \<and> utf8_valid rest | _ \<Rightarrow> False)
      else if 0xE0 \<le> a \<and> a \<le> 0xEF then
        (case bs of b # c # rest \<Rightarrow>
           cont b \<and> cont c \<and> (a = 0xE0 \<longrightarrow> 0xA0 \<le> b) \<and> (a = 0xED \<longrightarrow> b \<le> 0x9F) \<and> utf8_valid rest
         | _ \<Rightarrow> False)
      else if 0xF0 \<le> a \<and> a \<le> 0xF4 then
        (case bs of b # c # d # rest \<Rightarrow>
           cont b \<and> cont c \<and> cont d \<and> (a = 0xF0 \<longrightarrow> 0x90 \<le> b) \<and> (a = 0xF4 \<longrightarrow> b \<le> 0x8F)
           \<and> utf8_valid rest
         | _ \<Rightarrow> False)
      else False)"

definition ascii :: "bytes \<Rightarrow> bool" where
  "ascii bs \<longleftrightarrow> (\<forall>b \<in> set bs. b \<le> 0x7F)"

lemma utf8_valid_ascii: "ascii bs \<Longrightarrow> utf8_valid bs"
  by (induction bs) (auto simp: ascii_def)

lemma ascii_simps [simp]:
  "ascii []"
  "ascii (b # bs) \<longleftrightarrow> b \<le> 0x7F \<and> ascii bs"
  "ascii (xs @ ys) \<longleftrightarrow> ascii xs \<and> ascii ys"
  by (auto simp: ascii_def)

lemma lit_eval [simp]: "lit [] = []" "lit (c # s) = of_char c # lit s"
  by (simp_all add: lit_def)

lemma length_lit: "length (lit s) = length s"
  by (simp add: lit_def)

lemma unat_of_char: "unat (of_char c :: u8) = of_char c"
proof -
  have "unat (of_char c :: u8) = unat (word_of_nat (of_char c) :: u8)" by (simp only: of_nat_of_char)
  also have "\<dots> = of_char c mod 256" by (rule unat_of_nat_u8)
  finally show ?thesis by simp
qed

lemma lit_eq_iff: "lit s = lit t \<longleftrightarrow> s = t"
proof -
  have "inj (of_char :: char \<Rightarrow> u8)"
    by (rule injI) (metis unat_of_char of_char_eq_iff)
  then show ?thesis by (simp add: lit_def inj_map_eq_map)
qed

lemma ascii_lit: "ascii (lit s) \<longleftrightarrow> list_all (\<lambda>c. \<not> digit7 c) s"
proof -
  have "(of_char c :: u8) \<le> 0x7F \<longleftrightarrow> \<not> digit7 c" for c
    by (cases c) (simp add: word_le_nat_alt unat_of_char of_char_def)
  then show ?thesis by (simp add: ascii_def lit_def list_all_iff)
qed

text \<open>\<open>str::split\<close> on one character, \<open>slice::join\<close>, and \<open>to_ascii_lowercase\<close>.\<close>

fun split_on :: "'a \<Rightarrow> 'a list \<Rightarrow> 'a list list" where
  "split_on c [] = [[]]"
| "split_on c (x # xs) =
     (if x = c then [] # split_on c xs
      else case split_on c xs of [] \<Rightarrow> [[x]] | w # ws \<Rightarrow> (x # w) # ws)"

fun join :: "'a list \<Rightarrow> 'a list list \<Rightarrow> 'a list" where
  "join sep [] = []"
| "join sep [w] = w"
| "join sep (w # v # ws) = w @ sep @ join sep (v # ws)"

definition lower :: "u8 \<Rightarrow> u8" where
  "lower b = (if 65 \<le> b \<and> b \<le> 90 then b + 32 else b)"

definition ascii_lowercase :: "bytes \<Rightarrow> bytes" where
  "ascii_lowercase s = map lower s"

definition eq_ignore_ascii_case :: "bytes \<Rightarrow> bytes \<Rightarrow> bool" where
  "eq_ignore_ascii_case a b \<longleftrightarrow> ascii_lowercase a = ascii_lowercase b"

lemma split_on_not_Nil [simp]: "split_on c s \<noteq> []"
  by (cases s) (auto split: list.splits)

lemma join_Cons: "ws \<noteq> [] \<Longrightarrow> join sep (w # ws) = w @ sep @ join sep ws"
  by (cases ws) auto

lemma join_append: "xs \<noteq> [] \<Longrightarrow> ys \<noteq> [] \<Longrightarrow> join sep (xs @ ys) = join sep xs @ sep @ join sep ys"
proof (induction xs)
  case (Cons x xs)
  then show ?case by (cases "xs = []") (auto simp: join_Cons)
qed simp

lemma join_split [simp]: "join [c] (split_on c s) = s"
proof (induction s)
  case (Cons x xs)
  show ?case
  proof (cases "x = c")
    case True
    with Cons show ?thesis by (simp add: join_Cons)
  next
    case False
    obtain w ws where "split_on c xs = w # ws" by (cases "split_on c xs") auto
    with Cons False show ?thesis by (cases "ws = []") (auto simp: join_Cons)
  qed
qed simp

lemma split_no_sep: "w \<in> set (split_on c s) \<Longrightarrow> c \<notin> set w"
proof (induction s arbitrary: w)
  case (Cons x xs)
  show ?case
  proof (cases "split_on c xs")
    case (Cons v vs)
    with Cons.IH Cons.prems show ?thesis by (auto split: if_splits)
  qed simp
qed simp

lemma split_single: "c \<notin> set w \<Longrightarrow> split_on c w = [w]"
  by (induction w) auto

lemma split_append: "c \<notin> set w \<Longrightarrow> split_on c (w @ c # s) = w # split_on c s"
  by (induction w) auto

lemma split_join: "ws \<noteq> [] \<Longrightarrow> \<forall>w \<in> set ws. c \<notin> set w \<Longrightarrow> split_on c (join [c] ws) = ws"
proof (induction ws)
  case (Cons w ws)
  then show ?case by (cases "ws = []") (auto simp: join_Cons split_single split_append)
qed simp

lemma lower_lower [simp]: "lower (lower b) = lower b"
proof (cases "65 \<le> b \<and> b \<le> 90")
  case True
  then have "unat (b + 32) = unat b + 32" by (subst unat_word_ariths) (simp add: word_le_nat_alt)
  with True show ?thesis by (simp add: lower_def word_le_nat_alt)
qed (simp add: lower_def)

lemma ascii_lowercase_idem [simp]: "ascii_lowercase (ascii_lowercase s) = ascii_lowercase s"
  by (simp add: ascii_lowercase_def)

lemma ascii_lowercase_ascii: "ascii s \<Longrightarrow> ascii (ascii_lowercase s)"
proof -
  have "b \<le> 0x7F \<Longrightarrow> lower b \<le> 0x7F" for b
    by (cases "65 \<le> b \<and> b \<le> 90") (auto simp: lower_def word_le_nat_alt unat_word_ariths)
  then show "ascii s \<Longrightarrow> ascii (ascii_lowercase s)" by (auto simp: ascii_def ascii_lowercase_def)
qed

section \<open>Decimal numbers\<close>

text \<open>An integer as \<open>Display\<close> writes it, and the digits read back.\<close>

fun decimal :: "nat \<Rightarrow> bytes" where
  "decimal n = (if n < 10 then [word_of_nat (48 + n)] else decimal (n div 10) @ [word_of_nat (48 + n mod 10)])"

declare decimal.simps [simp del]

definition decimal_int :: "int \<Rightarrow> bytes" where
  "decimal_int i = (if i < 0 then 45 # decimal (nat (- i)) else decimal (nat i))"

definition is_digit :: "u8 \<Rightarrow> bool" where
  "is_digit b \<longleftrightarrow> 48 \<le> b \<and> b \<le> 57"

definition digits_value :: "bytes \<Rightarrow> nat" where
  "digits_value ds = foldl (\<lambda>n d. 10 * n + (unat d - 48)) 0 ds"

lemma digit_byte: "n < 10 \<Longrightarrow> unat (word_of_nat (48 + n) :: u8) = 48 + n"
  by (simp add: unat_of_nat_u8 del: of_nat_add)

lemma is_digit_byte: "n < 10 \<Longrightarrow> is_digit (word_of_nat (48 + n))"
  using digit_byte [of n] by (simp add: is_digit_def word_le_nat_alt del: of_nat_add)

lemma digits_value_snoc: "digits_value (ds @ [d]) = 10 * digits_value ds + (unat d - 48)"
  by (simp add: digits_value_def)

lemma decimal_value: "digits_value (decimal n) = n"
proof (induction n rule: decimal.induct)
  case (1 n)
  show ?case
  proof (cases "n < 10")
    case True
    then show ?thesis using digit_byte [of n] by (subst decimal.simps) (simp add: digits_value_def del: of_nat_add)
  next
    case False
    with 1 digit_byte [of "n mod 10"] show ?thesis
      by (subst decimal.simps) (simp add: digits_value_snoc del: of_nat_add)
  qed
qed

lemma decimal_digits: "list_all is_digit (decimal n)"
proof (induction n rule: decimal.induct)
  case (1 n)
  then show ?case
    by (subst decimal.simps) (auto simp: is_digit_byte simp del: of_nat_add)
qed

lemma decimal_not_Nil: "decimal n \<noteq> []"
  by (subst decimal.simps) simp

section \<open>Hexadecimal\<close>

text \<open>\<open>hex::encode\<close> and \<open>{:02x}\<close> write two lowercase digits a byte; \<open>hex_value\<close> reads a
  digit of either case back.\<close>

definition hex_lower :: "nat \<Rightarrow> u8" where
  "hex_lower n = word_of_nat (if n < 10 then 48 + n else 87 + n)"

definition hex_upper :: "nat \<Rightarrow> u8" where
  "hex_upper n = word_of_nat (if n < 10 then 48 + n else 55 + n)"

definition hex_encode :: "bytes \<Rightarrow> bytes" where
  "hex_encode bs = concat (map (\<lambda>b. [hex_lower (unat b div 16), hex_lower (unat b mod 16)]) bs)"

definition is_hexdigit :: "u8 \<Rightarrow> bool" where
  "is_hexdigit b \<longleftrightarrow> is_digit b \<or> 65 \<le> b \<and> b \<le> 70 \<or> 97 \<le> b \<and> b \<le> 102"

definition hex_value :: "u8 \<Rightarrow> nat" where
  "hex_value b = (if is_digit b then unat b - 48 else if b \<le> 70 then unat b - 55 else unat b - 87)"

lemma hex_lower_unat: "n < 16 \<Longrightarrow> unat (hex_lower n) = (if n < 10 then 48 + n else 87 + n)"
  by (simp add: hex_lower_def unat_of_nat_u8 del: of_nat_add)

lemma hex_upper_unat: "n < 16 \<Longrightarrow> unat (hex_upper n) = (if n < 10 then 48 + n else 55 + n)"
  by (simp add: hex_upper_def unat_of_nat_u8 del: of_nat_add)

lemma hex_lower_value: "n < 16 \<Longrightarrow> is_hexdigit (hex_lower n) \<and> hex_value (hex_lower n) = n"
  by (simp add: is_hexdigit_def is_digit_def hex_value_def word_le_nat_alt hex_lower_unat)

lemma hex_upper_value: "n < 16 \<Longrightarrow> is_hexdigit (hex_upper n) \<and> hex_value (hex_upper n) = n"
  by (simp add: is_hexdigit_def is_digit_def hex_value_def word_le_nat_alt hex_upper_unat)

lemma length_hex_encode [simp]: "length (hex_encode bs) = 2 * length bs"
  by (induction bs) (auto simp: hex_encode_def)

end
