(* ===== verification/Float32.thy ===== *)
theory Float32
  imports Prelude
begin

text \<open>
  Floats as their bit patterns, with the operations of Rust's \<open>f32\<close> the program uses (and the NaN test of \<open>f64\<close>):
  equality, order against constants, and the test of the listeners whether two levels differ by less than \<open>f32::EPSILON\<close>.
  \<open>f32_scaled\<close> is the value times \<open>2^149\<close>, an integer for every finite float.
\<close>

unbundle bit_operations_syntax

definition f32_is_nan :: "u32 \<Rightarrow> bool" where
  "f32_is_nan b \<longleftrightarrow> (b AND 0x7FFFFFFF) > 0x7F800000"

definition f32_eq :: "u32 \<Rightarrow> u32 \<Rightarrow> bool" where
  "f32_eq a b \<longleftrightarrow> \<not> f32_is_nan a \<and> \<not> f32_is_nan b \<and>
     (a = b \<or> (a AND 0x7FFFFFFF = 0 \<and> b AND 0x7FFFFFFF = 0))"

definition f64_is_nan :: "u64 \<Rightarrow> bool" where
  "f64_is_nan b \<longleftrightarrow> (b AND 0x7FFFFFFFFFFFFFFF) > 0x7FF0000000000000"

definition f32_exponent :: "u32 \<Rightarrow> nat" where
  "f32_exponent b = unat (drop_bit 23 b AND 0xFF)"

definition f32_mantissa :: "u32 \<Rightarrow> nat" where
  "f32_mantissa b = unat (b AND 0x7FFFFF)"

definition f32_negative :: "u32 \<Rightarrow> bool" where
  "f32_negative b \<longleftrightarrow> bit b 31"

definition f32_finite :: "u32 \<Rightarrow> bool" where
  "f32_finite b \<longleftrightarrow> f32_exponent b \<noteq> 255"

definition f32_infinite :: "u32 \<Rightarrow> bool" where
  "f32_infinite b \<longleftrightarrow> f32_exponent b = 255 \<and> f32_mantissa b = 0"

definition f32_scaled :: "u32 \<Rightarrow> int" where
  "f32_scaled b =
     (let m = (if f32_exponent b = 0 then int (f32_mantissa b)
               else (2 ^ 23 + int (f32_mantissa b)) * 2 ^ (f32_exponent b - 1))
      in if f32_negative b then - m else m)"

text \<open>
  \<open>(a - b).abs() < f32::EPSILON\<close>. The epsilon is \<open>2^(-23)\<close>, so \<open>2^126\<close> when scaled. The
  subtraction rounds to the nearest of 24 bits; a difference from \<open>2^126 - 2^101\<close> on rounds up to the epsilon.
  With an infinity or a NaN the difference is not a finite number and the test fails.
\<close>

definition f32_within_epsilon :: "u32 \<Rightarrow> u32 \<Rightarrow> bool" where
  "f32_within_epsilon a b \<longleftrightarrow>
     f32_finite a \<and> f32_finite b \<and> \<bar>f32_scaled a - f32_scaled b\<bar> < 2 ^ 126 - 2 ^ 101"

text \<open>\<open>(0.0..=100.0).contains(&v)\<close>: minus zero counts as zero, and \<open>100.0\<close> is \<open>0x42C80000\<close>.\<close>

definition in_volume_range :: "u32 \<Rightarrow> bool" where
  "in_volume_range b \<longleftrightarrow> b = 0x80000000 \<or> b \<le> 0x42C80000"

lemma f32_within_refl: "f32_finite a \<Longrightarrow> f32_within_epsilon a a"
  by (simp add: f32_within_epsilon_def)

lemma f32_within_sym: "f32_within_epsilon a b = f32_within_epsilon b a"
  by (auto simp: f32_within_epsilon_def abs_minus_commute)

lemma f32_eval:
  "f32_scaled 0 = 0" "f32_finite 0" "f32_scaled 0x3F800000 = 2 ^ 149" "f32_finite 0x3F800000"
  "f32_scaled 0x42C80000 = 100 * 2 ^ 149"
  by (simp_all add: f32_scaled_def f32_finite_def f32_exponent_def f32_mantissa_def f32_negative_def drop_bit_word_numeral)

end
