(* ===== verification/Opack_Value.thy ===== *)
theory Opack_Value
  imports Float32
begin

text \<open>
  The OPACK value model (\<open>crates/pyatv-opack/src/value.rs\<close>, \<open>tags.rs\<close>,
  \<open>error.rs\<close>, \<open>objects.rs\<close>): the recursive value type, the tag bytes, the
  errors of the codec, and the two back-reference tables, the encoder's (keyed by encoded bytes)
  and the decoder's (keyed by value, with hash buckets).

  A float is its IEEE-754 bit pattern; \<open>value_eq\<close> is the derived \<open>PartialEq\<close>, which
  compares floats as IEEE-754 does. A string is its UTF-8 bytes. The decoder's table hashes with a
  randomly keyed hasher, which is the parameter \<open>digest\<close> of the definitions that use it.
\<close>

unbundle bit_operations_syntax

section \<open>Tags\<close>

abbreviation TAG_TRUE :: u8 where "TAG_TRUE \<equiv> 0x01"
abbreviation TAG_FALSE :: u8 where "TAG_FALSE \<equiv> 0x02"
abbreviation TAG_TERMINATOR :: u8 where "TAG_TERMINATOR \<equiv> 0x03"
abbreviation TAG_NULL :: u8 where "TAG_NULL \<equiv> 0x04"
abbreviation TAG_UUID :: u8 where "TAG_UUID \<equiv> 0x05"
abbreviation TAG_ABSOLUTE_TIME :: u8 where "TAG_ABSOLUTE_TIME \<equiv> 0x06"
abbreviation SMALL_INT_BIAS :: u8 where "SMALL_INT_BIAS \<equiv> 0x08"
abbreviation SMALL_INT_MAX_TAG :: u8 where "SMALL_INT_MAX_TAG \<equiv> 0x2F"
abbreviation SMALL_INT_LIMIT :: u64 where "SMALL_INT_LIMIT \<equiv> 0x28"
abbreviation UINT_1 :: u8 where "UINT_1 \<equiv> 0x30"
abbreviation UINT_2 :: u8 where "UINT_2 \<equiv> 0x31"
abbreviation UINT_4 :: u8 where "UINT_4 \<equiv> 0x32"
abbreviation UINT_8 :: u8 where "UINT_8 \<equiv> 0x33"
abbreviation TAG_FLOAT32 :: u8 where "TAG_FLOAT32 \<equiv> 0x35"
abbreviation TAG_FLOAT64 :: u8 where "TAG_FLOAT64 \<equiv> 0x36"
abbreviation STRING_INLINE_BASE :: u8 where "STRING_INLINE_BASE \<equiv> 0x40"
abbreviation STRING_INLINE_MAX_LEN :: nat where "STRING_INLINE_MAX_LEN \<equiv> 0x20"
abbreviation STRING_INLINE_MAX_TAG :: u8 where "STRING_INLINE_MAX_TAG \<equiv> 0x60"
abbreviation STRING_LEN_BASE :: u8 where "STRING_LEN_BASE \<equiv> 0x60"
abbreviation STRING_LEN_MIN_TAG :: u8 where "STRING_LEN_MIN_TAG \<equiv> 0x61"
abbreviation STRING_LEN_MAX_TAG :: u8 where "STRING_LEN_MAX_TAG \<equiv> 0x64"
abbreviation DATA_INLINE_BASE :: u8 where "DATA_INLINE_BASE \<equiv> 0x70"
abbreviation DATA_INLINE_MAX_LEN :: nat where "DATA_INLINE_MAX_LEN \<equiv> 0x20"
abbreviation DATA_INLINE_MAX_TAG :: u8 where "DATA_INLINE_MAX_TAG \<equiv> 0x90"
abbreviation DATA_LEN_BASE :: u8 where "DATA_LEN_BASE \<equiv> 0x90"
abbreviation DATA_LEN_MIN_TAG :: u8 where "DATA_LEN_MIN_TAG \<equiv> 0x91"
abbreviation DATA_LEN_MAX_TAG :: u8 where "DATA_LEN_MAX_TAG \<equiv> 0x94"
abbreviation POINTER_INLINE_BASE :: u8 where "POINTER_INLINE_BASE \<equiv> 0xA0"
abbreviation POINTER_INLINE_MAX_INDEX :: nat where "POINTER_INLINE_MAX_INDEX \<equiv> 0x20"
abbreviation POINTER_INLINE_MAX_TAG :: u8 where "POINTER_INLINE_MAX_TAG \<equiv> 0xC0"
abbreviation POINTER_LEN_BASE :: u8 where "POINTER_LEN_BASE \<equiv> 0xC0"
abbreviation POINTER_LEN_MIN_TAG :: u8 where "POINTER_LEN_MIN_TAG \<equiv> 0xC1"
abbreviation POINTER_LEN_MAX_TAG :: u8 where "POINTER_LEN_MAX_TAG \<equiv> 0xC4"
abbreviation ARRAY_BASE :: u8 where "ARRAY_BASE \<equiv> 0xD0"
abbreviation ARRAY_MAX_TAG :: u8 where "ARRAY_MAX_TAG \<equiv> 0xDF"
abbreviation DICT_BASE :: u8 where "DICT_BASE \<equiv> 0xE0"
abbreviation CONTAINER_ENDLESS_COUNT :: nat where "CONTAINER_ENDLESS_COUNT \<equiv> 0x0F"
abbreviation UINT_TOO_WIDE_LOW :: u8 where "UINT_TOO_WIDE_LOW \<equiv> 0x34"
abbreviation UINT_TOO_WIDE_HIGH_FIRST :: u8 where "UINT_TOO_WIDE_HIGH_FIRST \<equiv> 0x37"
abbreviation UINT_TOO_WIDE_HIGH_LAST :: u8 where "UINT_TOO_WIDE_HIGH_LAST \<equiv> 0x3F"

section \<open>Errors\<close>

text \<open>
  The variants of \<open>opack::Error\<close>. \<open>OutOfFuel\<close> is the one addition: the decoder of
  the model recurses on a fuel, and \<open>unpack_total\<close> shows that its fuel is never exhausted.
\<close>

datatype opack_error =
    UnexpectedEof nat
  | UnknownTag u8 nat
  | UnpackOnlyTag u8
  | IntegerTooWide u8 nat
  | BadBackReference nat nat
  | InvalidUtf8 nat
  | LengthOverflow nat nat
  | BudgetExceeded nat nat
  | DepthLimitExceeded nat
  | ValueTooLong bytes nat
  | SizedIntegerOverflow u64 nat
  | OutOfFuel

definition MAX_DEPTH :: nat where
  "MAX_DEPTH = 32"

section \<open>Values\<close>

datatype uint_width = One | Two | Four | Eight

fun byte_count :: "uint_width \<Rightarrow> nat" where
  "byte_count One = 1"
| "byte_count Two = 2"
| "byte_count Four = 4"
| "byte_count Eight = 8"

fun width_tag :: "uint_width \<Rightarrow> u8" where
  "width_tag One = UINT_1"
| "width_tag Two = UINT_2"
| "width_tag Four = UINT_4"
| "width_tag Eight = UINT_8"

definition narrowest_for :: "u64 \<Rightarrow> uint_width" where
  "narrowest_for value =
     (if value \<le> 0xFF then One
      else if value \<le> 0xFFFF then Two
      else if value \<le> 0xFFFFFFFF then Four
      else Eight)"

definition width_from_tag :: "u8 \<Rightarrow> uint_width option" where
  "width_from_tag tag =
     (if tag = UINT_1 then Some One
      else if tag = UINT_2 then Some Two
      else if tag = UINT_4 then Some Four
      else if tag = UINT_8 then Some Eight
      else None)"

datatype opack_value =
    Null
  | Bool bool
  | Uint u64
  | SizedUint u64 uint_width
  | Float u64
  | Float32 u32
  | String bytes
  | Data bytes
  | Uuid bytes
  | AbsoluteTime u64
  | Array "opack_value list"
  | Dict "(opack_value \<times> opack_value) list"

text \<open>Typed equality: IEEE-754 equality on floats, structural equality on the rest.\<close>

definition f64_eq :: "u64 \<Rightarrow> u64 \<Rightarrow> bool" where
  "f64_eq a b \<longleftrightarrow> \<not> f64_is_nan a \<and> \<not> f64_is_nan b \<and>
     (a = b \<or> (a AND 0x7FFFFFFFFFFFFFFF = 0 \<and> b AND 0x7FFFFFFFFFFFFFFF = 0))"

function (sequential) value_eq :: "opack_value \<Rightarrow> opack_value \<Rightarrow> bool"
  and values_eq :: "opack_value list \<Rightarrow> opack_value list \<Rightarrow> bool"
  and entries_eq :: "(opack_value \<times> opack_value) list \<Rightarrow> (opack_value \<times> opack_value) list \<Rightarrow> bool"
where
  "value_eq v w =
     (case v of
        Float a \<Rightarrow> (case w of Float b \<Rightarrow> f64_eq a b | _ \<Rightarrow> False)
      | Float32 a \<Rightarrow> (case w of Float32 b \<Rightarrow> f32_eq a b | _ \<Rightarrow> False)
      | Array xs \<Rightarrow> (case w of Array ys \<Rightarrow> values_eq xs ys | _ \<Rightarrow> False)
      | Dict xs \<Rightarrow> (case w of Dict ys \<Rightarrow> entries_eq xs ys | _ \<Rightarrow> False)
      | _ \<Rightarrow> v = w)"
| "values_eq [] ys = (ys = [])"
| "values_eq (x # xs) ys = (case ys of [] \<Rightarrow> False | y # ys' \<Rightarrow> value_eq x y \<and> values_eq xs ys')"
| "entries_eq [] ys = (ys = [])"
| "entries_eq ((k, x) # xs) ys =
     (case ys of
        [] \<Rightarrow> False
      | (l, y) # ys' \<Rightarrow> value_eq k l \<and> value_eq x y \<and> entries_eq xs ys')"
  by pat_completeness auto
termination
  by (relation "measure (\<lambda>x. case x of
       Inl (v, _) \<Rightarrow> size v
     | Inr (Inl (vs, _)) \<Rightarrow> size_list size vs
     | Inr (Inr (es, _)) \<Rightarrow> size_list (size_prod size size) es)") auto

declare value_eq.simps [simp del]

definition as_u64 :: "opack_value \<Rightarrow> u64 option" where
  "as_u64 v = (case v of Uint n \<Rightarrow> Some n | SizedUint n _ \<Rightarrow> Some n | _ \<Rightarrow> None)"

definition as_str :: "opack_value \<Rightarrow> bytes option" where
  "as_str v = (case v of String s \<Rightarrow> Some s | _ \<Rightarrow> None)"

definition as_data :: "opack_value \<Rightarrow> bytes option" where
  "as_data v = (case v of Data s \<Rightarrow> Some s | _ \<Rightarrow> None)"

definition as_dict :: "opack_value \<Rightarrow> (opack_value \<times> opack_value) list option" where
  "as_dict v = (case v of Dict es \<Rightarrow> Some es | _ \<Rightarrow> None)"

text \<open>\<open>Value::get\<close>: the first entry in wire order whose key is that string.\<close>

definition value_get :: "opack_value \<Rightarrow> bytes \<Rightarrow> opack_value option" where
  "value_get v key =
     (case v of
        Dict es \<Rightarrow> map_option snd (find (\<lambda>e. as_str (fst e) = Some key) es)
      | _ \<Rightarrow> None)"

section \<open>Back-reference tables\<close>

text \<open>The encoder's table: a map from encodings to the order they were first emitted in.\<close>

record pack_table =
  indices :: "(bytes \<times> nat) list"

definition pack_table_new :: pack_table where
  "pack_table_new = \<lparr>indices = []\<rparr>"

definition pack_lookup :: "pack_table \<Rightarrow> bytes \<Rightarrow> nat option" where
  "pack_lookup t encoded = map_of (indices t) encoded"

definition pack_record :: "pack_table \<Rightarrow> bytes \<Rightarrow> pack_table" where
  "pack_record t encoded =
     (let next = length (indices t) in
      if map_of (indices t) encoded = None
      then t\<lparr>indices := indices t @ [(encoded, next)]\<rparr> else t)"

text \<open>The decoder's table: the values in the order they were first seen, and the hash buckets.\<close>

definition MAX_BUCKET :: nat where
  "MAX_BUCKET = 64"

record unpack_table =
  table_values :: "opack_value list"
  buckets :: "u64 \<Rightarrow> nat list"

definition unpack_table_new :: unpack_table where
  "unpack_table_new = \<lparr>table_values = [], buckets = (\<lambda>_. [])\<rparr>"

definition unpack_get :: "unpack_table \<Rightarrow> nat \<Rightarrow> opack_value option" where
  "unpack_get t i = get_at (table_values t) i"

definition unpack_record :: "(opack_value \<Rightarrow> u64) \<Rightarrow> unpack_table \<Rightarrow> opack_value \<Rightarrow> unpack_table" where
  "unpack_record digest t v =
     (let d = digest v; bucket = buckets t d in
      if length bucket < MAX_BUCKET \<and> (\<exists>i \<in> set bucket. value_eq (table_values t ! i) v)
      then t
      else t\<lparr>table_values := table_values t @ [v],
             buckets := (buckets t)(d := bucket @ [length (table_values t)])\<rparr>)"

subsection \<open>Lemmas\<close>

fun is_scalar :: "opack_value \<Rightarrow> bool" where
  "is_scalar (Array _) = False"
| "is_scalar (Dict _) = False"
| "is_scalar _ = True"

text \<open>Two scalars that compare equal are equal but for the sign of a floating-point zero.\<close>

lemma value_eq_scalar:
  "value_eq v w \<Longrightarrow> is_scalar v \<Longrightarrow>
     v = w \<or> (\<exists>a b. v = Float a \<and> w = Float b \<and> a AND 0x7FFFFFFFFFFFFFFF = 0
                   \<and> b AND 0x7FFFFFFFFFFFFFFF = 0)
           \<or> (\<exists>a b. v = Float32 a \<and> w = Float32 b \<and> a AND 0x7FFFFFFF = 0 \<and> b AND 0x7FFFFFFF = 0)"
  by (cases v; cases w) (auto simp: value_eq.simps f64_eq_def f32_eq_def)

lemma pack_lookup_new [simp]: "pack_lookup pack_table_new bs = None"
  by (simp add: pack_lookup_def pack_table_new_def)

lemma table_values_record:
  "table_values (unpack_record digest t v) = table_values t
   \<or> table_values (unpack_record digest t v) = table_values t @ [v]"
  by (auto simp: unpack_record_def Let_def)

lemma unpack_record_values:
  "x \<in> set (table_values (unpack_record digest t v)) \<Longrightarrow> x \<in> set (table_values t) \<or> x = v"
  using table_values_record [of digest t v] by auto

end
