(* ===== verification/Opack_Ser.thy ===== *)
theory Opack_Ser
  imports Opack_Value
begin

text \<open>
  The OPACK encoder (\<open>crates/pyatv-opack/src/ser.rs\<close>). The source appends to one buffer
  and truncates it back to a mark when a value turns out to have been emitted before; here each
  function returns the bytes it leaves behind the mark, with the interning table threaded through.
  The nesting depth, which the source increments and decrements around a container, is an argument.
\<close>

section \<open>Scalars\<close>

definition is_interned :: "opack_value \<Rightarrow> bool" where
  "is_interned v =
     (case v of
        Null \<Rightarrow> False | Bool _ \<Rightarrow> False | Array _ \<Rightarrow> False | Dict _ \<Rightarrow> False
      | Uint n \<Rightarrow> SMALL_INT_LIMIT \<le> n
      | _ \<Rightarrow> True)"

definition container_tag :: "u8 \<Rightarrow> nat \<Rightarrow> u8" where
  "container_tag base count = base + word_of_nat (min count CONTAINER_ENDLESS_COUNT)"

definition finish_container :: "nat \<Rightarrow> bytes" where
  "finish_container count = (if CONTAINER_ENDLESS_COUNT \<le> count then [TAG_TERMINATOR] else [])"

definition write_sized :: "u64 \<Rightarrow> uint_width \<Rightarrow> bytes" where
  "write_sized n w = width_tag w # le_bytes (byte_count w) (unat n)"

definition write_uint :: "u64 \<Rightarrow> bytes" where
  "write_uint n =
     (if n < SMALL_INT_LIMIT then [ucast n + SMALL_INT_BIAS] else write_sized n (narrowest_for n))"

definition write_sized_uint :: "u64 \<Rightarrow> uint_width \<Rightarrow> opack_error + bytes" where
  "write_sized_uint n w =
     (let k = byte_count w in
      if k < 8 \<and> 2 ^ (k * 8) \<le> unat n then Err (SizedIntegerOverflow n k)
      else Ok (write_sized n w))"

definition put_length :: "nat \<Rightarrow> nat \<Rightarrow> bytes" where
  "put_length len width = le_bytes width len"

definition write_string :: "bytes \<Rightarrow> opack_error + bytes" where
  "write_string text =
     (let len = length text in
      if len \<le> STRING_INLINE_MAX_LEN then Ok ((STRING_INLINE_BASE + word_of_nat len) # text)
      else if len \<le> 0xFF then Ok ((STRING_LEN_BASE + 1) # put_length len 1 @ text)
      else if len \<le> 0xFFFF then Ok ((STRING_LEN_BASE + 2) # put_length len 2 @ text)
      else if len \<le> 0xFFFFFF then Ok ((STRING_LEN_BASE + 3) # put_length len 3 @ text)
      else if len \<le> 0xFFFFFFFF then Ok ((STRING_LEN_BASE + 4) # put_length len 4 @ text)
      else Err (ValueTooLong (lit ''string'') len))"

definition write_data :: "bytes \<Rightarrow> bytes" where
  "write_data bs =
     (let len = length bs in
      if len \<le> DATA_INLINE_MAX_LEN then (DATA_INLINE_BASE + word_of_nat len) # bs
      else if len \<le> 0xFF then (DATA_LEN_BASE + 1) # put_length len 1 @ bs
      else if len \<le> 0xFFFF then (DATA_LEN_BASE + 2) # put_length len 2 @ bs
      else if len \<le> 0xFFFFFFFF then (DATA_LEN_BASE + 3) # put_length len 4 @ bs
      else (DATA_LEN_BASE + 4) # put_length len 8 @ bs)"

definition pointer_bytes :: "nat \<Rightarrow> bytes option" where
  "pointer_bytes index =
     (if index \<le> POINTER_INLINE_MAX_INDEX then Some [POINTER_INLINE_BASE + word_of_nat index]
      else if index \<le> 0xFF then Some ((POINTER_LEN_BASE + 1) # le_bytes 1 index)
      else if index \<le> 0xFFFF then Some ((POINTER_LEN_BASE + 2) # le_bytes 2 index)
      else None)"

section \<open>Values\<close>

text \<open>
  The step after a value's own bytes have been written: a back-reference if they were emitted
  before, else the bytes, recorded when the value is one that takes a slot.
\<close>

definition intern :: "opack_value \<Rightarrow> bytes \<times> pack_table \<Rightarrow> bytes \<times> pack_table" where
  "intern v = (\<lambda>(bs, t).
     case pack_lookup t bs of
       Some index \<Rightarrow> (case pointer_bytes index of Some p \<Rightarrow> (p, t) | None \<Rightarrow> (bs, t))
     | None \<Rightarrow> (bs, if is_interned v then pack_record t bs else t))"

text \<open>The bytes of a scalar, which need no table.\<close>

definition scalar_bytes :: "opack_value \<Rightarrow> opack_error + bytes" where
  "scalar_bytes v =
     (case v of
        Null \<Rightarrow> Ok [TAG_NULL]
      | Bool b \<Rightarrow> Ok [if b then TAG_TRUE else TAG_FALSE]
      | Uint n \<Rightarrow> Ok (write_uint n)
      | SizedUint n w \<Rightarrow> write_sized_uint n w
      | Float n \<Rightarrow> Ok (TAG_FLOAT64 # le_bytes 8 (unat n))
      | Float32 n \<Rightarrow> Ok (TAG_FLOAT32 # le_bytes 4 (unat n))
      | String text \<Rightarrow> write_string text
      | Data bs \<Rightarrow> Ok (write_data bs)
      | Uuid bs \<Rightarrow> Ok (TAG_UUID # bs)
      | _ \<Rightarrow> Err (UnpackOnlyTag TAG_ABSOLUTE_TIME))"

definition enter_container :: "nat \<Rightarrow> opack_error + nat" where
  "enter_container depth = (if MAX_DEPTH \<le> depth then Err (DepthLimitExceeded MAX_DEPTH) else Ok (depth + 1))"

function (sequential)
      enc_value :: "nat \<Rightarrow> pack_table \<Rightarrow> opack_value \<Rightarrow> opack_error + bytes \<times> pack_table"
  and enc_items :: "nat \<Rightarrow> pack_table \<Rightarrow> opack_value list \<Rightarrow> opack_error + bytes \<times> pack_table"
  and enc_entries :: "nat \<Rightarrow> pack_table \<Rightarrow> (opack_value \<times> opack_value) list
                      \<Rightarrow> opack_error + bytes \<times> pack_table"
where
  "enc_value depth t v =
     (case v of
        Array items \<Rightarrow>
          rbind (enter_container depth) (\<lambda>depth'.
          rbind (enc_items depth' t items) (\<lambda>(body, t').
          Ok (intern v (container_tag ARRAY_BASE (length items) # body
                        @ finish_container (length items), t'))))
      | Dict entries \<Rightarrow>
          rbind (enter_container depth) (\<lambda>depth'.
          rbind (enc_entries depth' t entries) (\<lambda>(body, t').
          Ok (intern v (container_tag DICT_BASE (length entries) # body
                        @ finish_container (length entries), t'))))
      | _ \<Rightarrow> rbind (scalar_bytes v) (\<lambda>bs. Ok (intern v (bs, t))))"
| "enc_items depth t [] = Ok ([], t)"
| "enc_items depth t (v # vs) =
     rbind (enc_value depth t v) (\<lambda>(b, t').
     rbind (enc_items depth t' vs) (\<lambda>(bs, t'').
     Ok (b @ bs, t'')))"
| "enc_entries depth t [] = Ok ([], t)"
| "enc_entries depth t ((k, v) # es) =
     rbind (enc_value depth t k) (\<lambda>(kb, t1).
     rbind (enc_value depth t1 v) (\<lambda>(vb, t2).
     rbind (enc_entries depth t2 es) (\<lambda>(bs, t3).
     Ok (kb @ vb @ bs, t3))))"
  by pat_completeness auto
termination
  by (relation "measure (\<lambda>x. case x of
       Inl (_, _, v) \<Rightarrow> size v
     | Inr (Inl (_, _, vs)) \<Rightarrow> size_list size vs
     | Inr (Inr (_, _, es)) \<Rightarrow> size_list (size_prod size size) es)") auto

declare enc_value.simps [simp del]

text \<open>\<open>pack\<close> into a fresh buffer, and \<open>encode\<close> onto the end of one.\<close>

definition pack :: "opack_value \<Rightarrow> opack_error + bytes" where
  "pack v = rbind (enc_value 0 pack_table_new v) (\<lambda>(bs, _). Ok bs)"

definition opack_encode :: "opack_value \<Rightarrow> bytes \<Rightarrow> opack_error + bytes" where
  "opack_encode v out = rbind (pack v) (\<lambda>bs. Ok (out @ bs))"

section \<open>Lemmas\<close>

lemma enc_value_scalar:
  "is_scalar v \<Longrightarrow> enc_value depth t v = rbind (scalar_bytes v) (\<lambda>bs. Ok (intern v (bs, t)))"
  by (cases v) (simp_all add: enc_value.simps)

lemma enc_value_Array:
  "enc_value depth t (Array items) =
     rbind (enter_container depth) (\<lambda>depth'.
     rbind (enc_items depth' t items) (\<lambda>(body, t').
     Ok (intern (Array items) (container_tag ARRAY_BASE (length items) # body
                        @ finish_container (length items), t'))))"
  by (simp add: enc_value.simps)

lemma enc_value_Dict:
  "enc_value depth t (Dict entries) =
     rbind (enter_container depth) (\<lambda>depth'.
     rbind (enc_entries depth' t entries) (\<lambda>(body, t').
     Ok (intern (Dict entries) (container_tag DICT_BASE (length entries) # body
                        @ finish_container (length entries), t'))))"
  by (simp add: enc_value.simps)

end
