(* ===== verification/Opack_De.thy ===== *)
theory Opack_De
  imports Opack_Value
begin

text \<open>
  The OPACK decoder (\<open>crates/pyatv-opack/src/de.rs\<close>). What the source keeps in
  \<open>Decoder\<close> and never changes (the input, the budget) is the environment \<open>denv\<close>,
  which also holds two things that are not the crate's own: \<open>de_cost\<close>, the size the
  compiler gives a \<open>Value\<close>, and \<open>de_digest\<close>, the randomly keyed hash. What changes is the
  record \<open>dec\<close>; the nesting depth is an argument.

  The recursion runs on a fuel. A value takes its tag byte before anything else, so a fuel of twice
  the bytes that remain, plus one, is enough; that is what \<open>unpack_with_budget\<close> supplies, and
  \<open>unpack_total\<close> proves that it never runs out.
\<close>

unbundle bit_operations_syntax

record denv =
  de_input :: bytes
  de_budget :: nat
  de_cost :: nat
  de_digest :: "opack_value \<Rightarrow> u64"

record dec =
  de_offset :: nat
  de_table :: unpack_table
  de_spent :: nat

definition MIN_BUDGET :: nat where
  "MIN_BUDGET = 64 * 1024"

definition MAX_BUDGET :: nat where
  "MAX_BUDGET = 16 * 1024 * 1024"

definition default_budget :: "nat \<Rightarrow> nat" where
  "default_budget input_len =
     (let scaled = saturating_mul input_len 4 in
      if scaled < MIN_BUDGET then MIN_BUDGET
      else if MAX_BUDGET < scaled then MAX_BUDGET
      else scaled)"

section \<open>Reading\<close>

definition dec_take :: "denv \<Rightarrow> nat \<Rightarrow> dec \<Rightarrow> opack_error + bytes \<times> dec" where
  "dec_take e count s =
     rbind (ok_or (checked_add (de_offset s) count) (UnexpectedEof (de_offset s))) (\<lambda>end'.
     rbind (ok_or (get_range (de_input e) (de_offset s) end') (UnexpectedEof (de_offset s))) (\<lambda>slice.
     Ok (slice, s\<lparr>de_offset := end'\<rparr>)))"

definition dec_tag :: "denv \<Rightarrow> dec \<Rightarrow> opack_error + u8 \<times> dec" where
  "dec_tag e s = rbind (dec_take e 1 s) (\<lambda>(bs, s'). Ok (hd bs, s'))"

definition dec_peek :: "denv \<Rightarrow> dec \<Rightarrow> opack_error + u8" where
  "dec_peek e s = ok_or (get_at (de_input e) (de_offset s)) (UnexpectedEof (de_offset s))"

definition dec_le_uint :: "denv \<Rightarrow> nat \<Rightarrow> dec \<Rightarrow> opack_error + nat \<times> dec" where
  "dec_le_uint e count s = rbind (dec_take e count s) (\<lambda>(bs, s'). Ok (le_nat bs, s'))"

definition dec_le_len :: "denv \<Rightarrow> nat \<Rightarrow> nat \<Rightarrow> dec \<Rightarrow> opack_error + nat \<times> dec" where
  "dec_le_len e count start s =
     rbind (dec_le_uint e count s) (\<lambda>(raw, s').
     if raw \<le> usize_max then Ok (raw, s') else Err (LengthOverflow raw start))"

definition dec_enter :: "nat \<Rightarrow> opack_error + nat" where
  "dec_enter depth = (if MAX_DEPTH \<le> depth then Err (DepthLimitExceeded MAX_DEPTH) else Ok (depth + 1))"

definition dec_charge :: "denv \<Rightarrow> nat \<Rightarrow> dec \<Rightarrow> opack_error + dec" where
  "dec_charge e n s =
     (let s' = s\<lparr>de_spent := saturating_add (de_spent s) n\<rparr> in
      if de_budget e < de_spent s' then Err (BudgetExceeded (de_budget e) (de_offset s')) else Ok s')"

section \<open>Scalars\<close>

definition dec_sized_uint :: "denv \<Rightarrow> u8 \<Rightarrow> dec \<Rightarrow> opack_error + opack_value \<times> dec" where
  "dec_sized_uint e tag s =
     (let width = (case width_from_tag tag of Some w \<Rightarrow> w | None \<Rightarrow> One) in
      rbind (dec_le_uint e (byte_count width) s) (\<lambda>(n, s').
      Ok (SizedUint (word_of_nat n) width, s')))"

definition dec_string :: "denv \<Rightarrow> nat \<Rightarrow> nat \<Rightarrow> dec \<Rightarrow> opack_error + opack_value \<times> dec" where
  "dec_string e len start s =
     rbind (dec_take e len s) (\<lambda>(bs, s').
     if utf8_valid bs then rbind (dec_charge e len s') (\<lambda>s''. Ok (String bs, s''))
     else Err (InvalidUtf8 start))"

definition dec_data :: "denv \<Rightarrow> nat \<Rightarrow> dec \<Rightarrow> opack_error + opack_value \<times> dec" where
  "dec_data e len s =
     rbind (dec_take e len s) (\<lambda>(bs, s').
     rbind (dec_charge e len s') (\<lambda>s''. Ok (Data bs, s'')))"

definition dec_back_reference :: "denv \<Rightarrow> nat \<Rightarrow> dec \<Rightarrow> opack_error + opack_value \<times> dec" where
  "dec_back_reference e index s =
     rbind (dec_charge e (de_cost e) s) (\<lambda>s'.
     rbind (ok_or (unpack_get (de_table s') index)
              (BadBackReference index (length (table_values (de_table s'))))) (\<lambda>v.
     Ok (v, s')))"

text \<open>The arms of the \<open>match\<close> on the tag byte, containers apart, each with its record flag.\<close>

definition flagged :: "bool \<Rightarrow> opack_error + opack_value \<times> dec \<Rightarrow> opack_error + (opack_value \<times> bool) \<times> dec" where
  "flagged b m = rbind m (\<lambda>(v, s). Ok ((v, b), s))"

definition dec_scalar :: "denv \<Rightarrow> u8 \<Rightarrow> nat \<Rightarrow> dec \<Rightarrow> opack_error + (opack_value \<times> bool) \<times> dec" where
  "dec_scalar e tag start s =
     (if tag = TAG_TRUE then Ok ((Bool True, False), s)
      else if tag = TAG_FALSE then Ok ((Bool False, False), s)
      else if tag = TAG_NULL then Ok ((Null, False), s)
      else if tag = TAG_UUID then
        rbind (dec_take e 16 s) (\<lambda>(bs, s'). Ok ((Uuid bs, True), s'))
      else if tag = TAG_ABSOLUTE_TIME then
        rbind (dec_le_uint e 8 s) (\<lambda>(n, s'). Ok ((AbsoluteTime (word_of_nat n), True), s'))
      else if SMALL_INT_BIAS \<le> tag \<and> tag \<le> SMALL_INT_MAX_TAG then
        Ok ((Uint (ucast (tag - SMALL_INT_BIAS)), False), s)
      else if UINT_1 \<le> tag \<and> tag \<le> UINT_8 then flagged True (dec_sized_uint e tag s)
      else if tag = UINT_TOO_WIDE_LOW
              \<or> UINT_TOO_WIDE_HIGH_FIRST \<le> tag \<and> tag \<le> UINT_TOO_WIDE_HIGH_LAST then
        Err (IntegerTooWide tag start)
      else if tag = TAG_FLOAT32 then
        rbind (dec_le_uint e 4 s) (\<lambda>(n, s'). Ok ((Float32 (word_of_nat n), True), s'))
      else if tag = TAG_FLOAT64 then
        rbind (dec_le_uint e 8 s) (\<lambda>(n, s'). Ok ((Float (word_of_nat n), True), s'))
      else if STRING_INLINE_BASE \<le> tag \<and> tag \<le> STRING_INLINE_MAX_TAG then
        flagged True (dec_string e (unat (tag - STRING_INLINE_BASE)) start s)
      else if STRING_LEN_MIN_TAG \<le> tag \<and> tag \<le> STRING_LEN_MAX_TAG then
        rbind (dec_le_len e (unat (tag AND 0x0F)) start s) (\<lambda>(len, s').
        flagged True (dec_string e len start s'))
      else if DATA_INLINE_BASE \<le> tag \<and> tag \<le> DATA_INLINE_MAX_TAG then
        flagged True (dec_data e (unat (tag - DATA_INLINE_BASE)) s)
      else if DATA_LEN_MIN_TAG \<le> tag \<and> tag \<le> DATA_LEN_MAX_TAG then
        rbind (dec_le_len e (2 ^ (unat (tag AND 0x0F) - 1)) start s) (\<lambda>(len, s').
        flagged True (dec_data e len s'))
      else if POINTER_INLINE_BASE \<le> tag \<and> tag \<le> POINTER_INLINE_MAX_TAG then
        flagged False (dec_back_reference e (unat (tag - POINTER_INLINE_BASE)) s)
      else if POINTER_LEN_MIN_TAG \<le> tag \<and> tag \<le> POINTER_LEN_MAX_TAG then
        rbind (dec_le_len e (unat (tag - POINTER_LEN_BASE)) start s) (\<lambda>(index, s').
        flagged False (dec_back_reference e index s'))
      else Err (UnknownTag tag start))"

definition record_if :: "denv \<Rightarrow> (opack_value \<times> bool) \<times> dec \<Rightarrow> opack_value \<times> dec" where
  "record_if e = (\<lambda>((v, rec), s).
     (v, if rec then s\<lparr>de_table := unpack_record (de_digest e) (de_table s) v\<rparr> else s))"

section \<open>Values\<close>

text \<open>
  \<open>dec_items\<close> and \<open>dec_entries\<close> are the two loops of \<open>array\<close> and \<open>dict\<close>: with a
  count, or, for \<open>None\<close>, until the terminator, which the last step skips.
\<close>

fun dec_value :: "denv \<Rightarrow> nat \<Rightarrow> nat \<Rightarrow> dec \<Rightarrow> opack_error + opack_value \<times> dec"
  and dec_items :: "denv \<Rightarrow> nat \<Rightarrow> nat \<Rightarrow> nat option \<Rightarrow> dec \<Rightarrow> opack_error + opack_value list \<times> dec"
  and dec_entries :: "denv \<Rightarrow> nat \<Rightarrow> nat \<Rightarrow> nat option \<Rightarrow> dec
                      \<Rightarrow> opack_error + (opack_value \<times> opack_value) list \<times> dec"
where
  "dec_value e 0 depth s = Err OutOfFuel"
| "dec_value e (Suc fuel) depth s =
     rbind (dec_tag e s) (\<lambda>(tag, s1).
     if ARRAY_BASE \<le> tag \<and> tag \<le> ARRAY_MAX_TAG then
       rbind (dec_enter depth) (\<lambda>depth'.
       let count = unat (tag - ARRAY_BASE) in
       rbind (dec_items e fuel depth' (if count = CONTAINER_ENDLESS_COUNT then None else Some count) s1)
         (\<lambda>(items, s2). Ok (Array items, s2)))
     else if tag AND 0xE0 = DICT_BASE then
       rbind (dec_enter depth) (\<lambda>depth'.
       let count = unat (tag AND 0x0F) in
       rbind (dec_entries e fuel depth' (if count = CONTAINER_ENDLESS_COUNT then None else Some count) s1)
         (\<lambda>(entries, s2). Ok (Dict entries, s2)))
     else rbind (dec_scalar e tag (de_offset s) s1) (\<lambda>r. Ok (record_if e r)))"
| "dec_items e 0 depth count s = Err OutOfFuel"
| "dec_items e (Suc fuel) depth (Some 0) s = Ok ([], s)"
| "dec_items e (Suc fuel) depth (Some (Suc n)) s =
     rbind (dec_charge e (de_cost e) s) (\<lambda>s1.
     rbind (dec_value e fuel depth s1) (\<lambda>(v, s2).
     rbind (dec_items e fuel depth (Some n) s2) (\<lambda>(vs, s3).
     Ok (v # vs, s3))))"
| "dec_items e (Suc fuel) depth None s =
     rbind (dec_peek e s) (\<lambda>tag.
     if tag = TAG_TERMINATOR then Ok ([], s\<lparr>de_offset := de_offset s + 1\<rparr>)
     else
       rbind (dec_charge e (de_cost e) s) (\<lambda>s1.
       rbind (dec_value e fuel depth s1) (\<lambda>(v, s2).
       rbind (dec_items e fuel depth None s2) (\<lambda>(vs, s3).
       Ok (v # vs, s3)))))"
| "dec_entries e 0 depth count s = Err OutOfFuel"
| "dec_entries e (Suc fuel) depth (Some 0) s = Ok ([], s)"
| "dec_entries e (Suc fuel) depth (Some (Suc n)) s =
     rbind (dec_charge e (2 * de_cost e) s) (\<lambda>s1.
     rbind (dec_value e fuel depth s1) (\<lambda>(k, s2).
     rbind (dec_value e fuel depth s2) (\<lambda>(v, s3).
     rbind (dec_entries e fuel depth (Some n) s3) (\<lambda>(vs, s4).
     Ok ((k, v) # vs, s4)))))"
| "dec_entries e (Suc fuel) depth None s =
     rbind (dec_peek e s) (\<lambda>tag.
     if tag = TAG_TERMINATOR then Ok ([], s\<lparr>de_offset := de_offset s + 1\<rparr>)
     else
       rbind (dec_charge e (2 * de_cost e) s) (\<lambda>s1.
       rbind (dec_value e fuel depth s1) (\<lambda>(k, s2).
       rbind (dec_value e fuel depth s2) (\<lambda>(v, s3).
       rbind (dec_entries e fuel depth None s3) (\<lambda>(vs, s4).
       Ok ((k, v) # vs, s4))))))"

definition dec_new :: dec where
  "dec_new = \<lparr>de_offset = 0, de_table = unpack_table_new, de_spent = 0\<rparr>"

definition unpack_with_budget :: "(opack_value \<Rightarrow> u64) \<Rightarrow> nat \<Rightarrow> bytes \<Rightarrow> nat \<Rightarrow> opack_error + opack_value \<times> nat" where
  "unpack_with_budget dig cost bs bud =
     (let e = \<lparr>de_input = bs, de_budget = bud, de_cost = cost, de_digest = dig\<rparr> in
      rbind (dec_value e (2 * length bs + 1) 0 dec_new) (\<lambda>(v, s). Ok (v, de_offset s)))"

definition unpack :: "(opack_value \<Rightarrow> u64) \<Rightarrow> nat \<Rightarrow> bytes \<Rightarrow> opack_error + opack_value \<times> nat" where
  "unpack dig cost bs = unpack_with_budget dig cost bs (default_budget (length bs))"

end
