(* ===== verification/Opack_Safety.thy ===== *)
theory Opack_Safety
  imports Opack_De
begin

text \<open>
  What the OPACK decoder guarantees on every input, hostile ones included: it terminates, it
  consumes at least one byte and never reads past the input, what it returns is well formed (UTF-8
  strings, sixteen-byte UUIDs, integers that fit their width), nests no deeper than the limit, and
  occupies no more value slots than the budget paid for.
\<close>

section \<open>Measures of a value\<close>

lemma size_prod_mem [termination_simp]:
  "(k, v) \<in> set es \<Longrightarrow> size k < Suc (size_list (size_prod size size) es)"
  "(k, v) \<in> set es \<Longrightarrow> size v < Suc (size_list (size_prod size size) es)"
  by (induction es) auto

fun wf_value :: "opack_value \<Rightarrow> bool" where
  "wf_value (String bs) = utf8_valid bs"
| "wf_value (Uuid bs) = (length bs = 16)"
| "wf_value (SizedUint n w) = (unat n < 256 ^ byte_count w)"
| "wf_value (Array xs) = (\<forall>x \<in> set xs. wf_value x)"
| "wf_value (Dict es) = (\<forall>(k, v) \<in> set es. wf_value k \<and> wf_value v)"
| "wf_value _ = True"

fun value_depth :: "opack_value \<Rightarrow> nat" where
  "value_depth (Array xs) = 1 + fold max (map value_depth xs) 0"
| "value_depth (Dict es) = 1 + fold max (map (\<lambda>(k, v). max (value_depth k) (value_depth v)) es) 0"
| "value_depth _ = 0"

text \<open>The value slots in the vectors a decoded value holds.\<close>

fun slots :: "opack_value \<Rightarrow> nat" where
  "slots (Array xs) = sum_list (map (\<lambda>x. 1 + slots x) xs)"
| "slots (Dict es) = sum_list (map (\<lambda>(k, v). 2 + slots k + slots v) es)"
| "slots _ = 0"

lemma fold_max_le_iff: "fold max xs a \<le> (n :: nat) \<longleftrightarrow> a \<le> n \<and> (\<forall>x \<in> set xs. x \<le> n)"
  by (induction xs arbitrary: a) auto

lemma value_depth_Array_le:
  "value_depth (Array xs) \<le> Suc n \<longleftrightarrow> (\<forall>x \<in> set xs. value_depth x \<le> n)"
  by (simp add: fold_max_le_iff)

lemma value_depth_Dict_le:
  "value_depth (Dict es) \<le> Suc n \<longleftrightarrow> (\<forall>(k, v) \<in> set es. value_depth k \<le> n \<and> value_depth v \<le> n)"
  by (auto simp add: fold_max_le_iff)

lemma scalar_measures: "is_scalar v \<Longrightarrow> slots v = 0 \<and> value_depth v = 0"
  by (cases v) auto

section \<open>Reads\<close>

lemma dec_take_Ok [res_simps]:
  "dec_take e n s = Ok (bs, s') \<longleftrightarrow>
     de_offset s + n \<le> usize_max \<and> de_offset s + n \<le> length (de_input e)
     \<and> bs = take n (drop (de_offset s) (de_input e)) \<and> s' = s\<lparr>de_offset := de_offset s + n\<rparr>"
  by (auto simp: dec_take_def rbind_Ok_iff ok_or_Ok_iff checked_add_Some_iff get_range_Some_iff)

lemma dec_tag_Ok [res_simps]:
  "dec_tag e s = Ok (tag, s') \<longleftrightarrow>
     de_offset s < usize_max \<and> de_offset s < length (de_input e)
     \<and> tag = de_input e ! de_offset s \<and> s' = s\<lparr>de_offset := de_offset s + 1\<rparr>"
  by (auto simp: dec_tag_def rbind_Ok_iff dec_take_Ok take_Suc_conv_app_nth hd_drop_conv_nth)

lemma dec_le_uint_Ok [res_simps]:
  "dec_le_uint e n s = Ok (r, s') \<longleftrightarrow> (\<exists>bs. dec_take e n s = Ok (bs, s') \<and> r = le_nat bs)"
  by (auto simp: dec_le_uint_def rbind_Ok_iff)

lemma dec_le_len_Ok [res_simps]:
  "dec_le_len e n start s = Ok (r, s') \<longleftrightarrow> dec_le_uint e n s = Ok (r, s') \<and> r \<le> usize_max"
  by (auto simp: dec_le_len_def rbind_Ok_iff split: if_splits)

lemma dec_charge_Ok [res_simps]:
  "dec_charge e n s = Ok s' \<longleftrightarrow>
     saturating_add (de_spent s) n \<le> de_budget e \<and> s' = s\<lparr>de_spent := saturating_add (de_spent s) n\<rparr>"
  by (auto simp: dec_charge_def Let_def)

lemma dec_enter_Ok [res_simps]: "dec_enter d = Ok d' \<longleftrightarrow> d < MAX_DEPTH \<and> d' = Suc d"
  by (auto simp: dec_enter_def)

lemma dec_peek_Ok [res_simps]:
  "dec_peek e s = Ok b \<longleftrightarrow> de_offset s < length (de_input e) \<and> b = de_input e ! de_offset s"
  by (auto simp: dec_peek_def get_at_def)

lemma flagged_Ok [res_simps]:
  "flagged b m = Ok ((v, b'), s) \<longleftrightarrow> m = Ok (v, s) \<and> b' = b"
  by (auto simp: flagged_def rbind_Ok_iff)

section \<open>The step relation of the decoder state\<close>

definition table_ok :: "unpack_table \<Rightarrow> bool" where
  "table_ok t \<longleftrightarrow> (\<forall>v \<in> set (table_values t). is_scalar v \<and> wf_value v)"

text \<open>What every part of the decoder does to the state, \<open>k\<close> being the bytes it must consume and
  \<open>c\<close> the charge it must make.\<close>

definition moves :: "denv \<Rightarrow> nat \<Rightarrow> nat \<Rightarrow> dec \<Rightarrow> dec \<Rightarrow> bool" where
  "moves e k c s s' \<longleftrightarrow>
     de_offset s + k \<le> de_offset s'
     \<and> (de_offset s \<le> length (de_input e) \<longrightarrow> de_offset s' \<le> length (de_input e))
     \<and> (de_budget e < usize_max \<longrightarrow> de_spent s + c \<le> de_spent s')
     \<and> (de_spent s \<le> de_budget e \<longrightarrow> de_spent s' \<le> de_budget e)
     \<and> (table_ok (de_table s) \<longrightarrow> table_ok (de_table s'))"

lemma moves_refl: "moves e 0 0 s s"
  by (simp add: moves_def)

lemma moves_trans: "moves e k c s s' \<Longrightarrow> moves e k' c' s' s'' \<Longrightarrow> moves e (k + k') (c + c') s s''"
  by (auto simp: moves_def)

lemma moves_weaken: "moves e k c s s' \<Longrightarrow> k' \<le> k \<Longrightarrow> c' \<le> c \<Longrightarrow> moves e k' c' s s'"
  by (auto simp: moves_def)

lemma moves_charge: "dec_charge e n s = Ok s' \<Longrightarrow> moves e 0 n s s' \<and> de_offset s' = de_offset s
    \<and> de_table s' = de_table s"
  by (auto simp: moves_def res_simps saturating_add_def)

lemma moves_take: "dec_take e n s = Ok (bs, s') \<Longrightarrow> moves e n 0 s s' \<and> de_table s' = de_table s
    \<and> length bs = n"
  by (auto simp: moves_def res_simps)

lemma take_moves: "dec_take e n s = Ok (bs, s') \<Longrightarrow> moves e 0 0 s s' \<and> de_table s' = de_table s
    \<and> length bs = n"
  using moves_take [of e n s bs s'] by (auto intro: moves_weaken)

lemma le_nat_fits: "length bs = k \<Longrightarrow> unat (word_of_nat (le_nat bs) :: u64) < 256 ^ k"
proof -
  assume "length bs = k"
  then have "le_nat bs < 256 ^ k" using le_nat_bound [of bs] by simp
  moreover have "unat (word_of_nat (le_nat bs) :: u64) \<le> le_nat bs"
    by (simp add: unat_of_nat)
  ultimately show ?thesis by linarith
qed

lemma dec_string_Ok:
  "dec_string e n start s = Ok (v, s') \<Longrightarrow>
     \<exists>bs. v = String bs \<and> utf8_valid bs \<and> moves e 0 0 s s' \<and> de_table s' = de_table s"
  by (auto simp: dec_string_def rbind_Ok_iff if_Ok_iff split: prod.splits
      dest!: moves_take moves_charge intro: moves_weaken [OF moves_trans])

lemma dec_data_Ok:
  "dec_data e n s = Ok (v, s') \<Longrightarrow>
     \<exists>bs. v = Data bs \<and> moves e 0 0 s s' \<and> de_table s' = de_table s"
  by (auto simp: dec_data_def rbind_Ok_iff split: prod.splits
      dest!: moves_take moves_charge intro: moves_weaken [OF moves_trans])

lemma dec_back_reference_Ok:
  "dec_back_reference e i s = Ok (v, s') \<Longrightarrow>
     v \<in> set (table_values (de_table s)) \<and> moves e 0 0 s s' \<and> de_table s' = de_table s"
  by (auto simp: dec_back_reference_def rbind_Ok_iff ok_or_Ok_iff unpack_get_def get_at_def
      split: prod.splits if_splits dest!: moves_charge intro: moves_weaken)

lemma dec_sized_uint_Ok:
  "dec_sized_uint e tag s = Ok (v, s') \<Longrightarrow>
     \<exists>n w. v = SizedUint n w \<and> unat n < 256 ^ byte_count w \<and> moves e 0 0 s s' \<and> de_table s' = de_table s"
  by (auto simp: dec_sized_uint_def Let_def rbind_Ok_iff dec_le_uint_Ok split: prod.splits
      dest!: moves_take intro: moves_weaken le_nat_fits)

lemma dec_le_len_moves: "dec_le_len e n start s = Ok (r, s') \<Longrightarrow> moves e 0 0 s s' \<and> de_table s' = de_table s"
  by (auto simp: dec_le_len_Ok dec_le_uint_Ok dest!: moves_take intro: moves_weaken)

lemma dec_le_uint_moves: "dec_le_uint e n s = Ok (r, s') \<Longrightarrow> moves e 0 0 s s' \<and> de_table s' = de_table s"
  by (auto simp: dec_le_uint_Ok dest!: moves_take intro: moves_weaken)

lemmas dec_part_moves = dec_string_Ok dec_data_Ok dec_back_reference_Ok dec_sized_uint_Ok
  dec_le_len_moves dec_le_uint_moves

lemma moves_trans0: "moves e 0 0 s s' \<Longrightarrow> moves e 0 0 s' s'' \<Longrightarrow> moves e 0 0 s s''"
  using moves_trans [of e 0 0 s s' 0 0 s''] by simp

text \<open>The fact about one arm of the match, and its composition over the chain of arms.\<close>

definition arm_ok :: "denv \<Rightarrow> dec \<Rightarrow> opack_error + (opack_value \<times> bool) \<times> dec \<Rightarrow> bool" where
  "arm_ok e s r \<longleftrightarrow> (\<forall>v b s'. r = Ok ((v, b), s') \<longrightarrow>
     moves e 0 0 s s' \<and> de_table s' = de_table s
     \<and> (b \<or> table_ok (de_table s) \<longrightarrow> is_scalar v \<and> wf_value v))"

lemma arm_ok_if: "arm_ok e s r \<Longrightarrow> arm_ok e s r' \<Longrightarrow> arm_ok e s (if c then r else r')"
  by simp

lemma arm_ok_Err: "arm_ok e s (Err x)"
  by (simp add: arm_ok_def)

lemma arm_ok_const: "is_scalar v \<Longrightarrow> wf_value v \<Longrightarrow> arm_ok e s (Ok ((v, b), s))"
  by (simp add: arm_ok_def moves_refl)

lemma arm_ok_bind:
  "(\<And>x s'. m = Ok (x, s') \<Longrightarrow> moves e 0 0 s s' \<and> de_table s' = de_table s \<and> arm_ok e s' (f (x, s')))
   \<Longrightarrow> arm_ok e s (rbind m f)"
  by (auto simp: arm_ok_def rbind_Ok_iff intro: moves_trans0)

lemma arm_ok_string: "arm_ok e s (flagged b (dec_string e n start s))"
  by (auto simp: arm_ok_def flagged_Ok dest!: dec_string_Ok)

lemma arm_ok_data: "arm_ok e s (flagged b (dec_data e n s))"
  by (auto simp: arm_ok_def flagged_Ok dest!: dec_data_Ok)

lemma arm_ok_sized: "arm_ok e s (flagged b (dec_sized_uint e tag s))"
  by (auto simp: arm_ok_def flagged_Ok dest!: dec_sized_uint_Ok)

lemma arm_ok_back: "arm_ok e s (flagged False (dec_back_reference e i s))"
  by (auto simp: arm_ok_def flagged_Ok table_ok_def dest!: dec_back_reference_Ok)

lemma dec_scalar_Ok:
  assumes "dec_scalar e tag start s = Ok ((v, b), s')"
  shows "moves e 0 0 s s' \<and> de_table s' = de_table s
         \<and> (b \<or> table_ok (de_table s) \<longrightarrow> is_scalar v \<and> wf_value v)"
proof -
  have "arm_ok e s (dec_scalar e tag start s)"
    unfolding dec_scalar_def
    by (intro arm_ok_if arm_ok_Err arm_ok_const arm_ok_bind arm_ok_string arm_ok_data arm_ok_sized
        arm_ok_back)
      (auto dest!: take_moves dec_le_len_moves dec_le_uint_moves
        intro: arm_ok_string arm_ok_data arm_ok_back arm_ok_const)
  with assms show ?thesis by (simp add: arm_ok_def)
qed


lemma table_ok_record: "table_ok t \<Longrightarrow> is_scalar v \<Longrightarrow> wf_value v \<Longrightarrow> table_ok (unpack_record dig t v)"
  by (auto simp: table_ok_def dest!: unpack_record_values)

lemma record_if_moves:
  assumes "record_if e ((v, b), s) = (v', s')" and "b \<or> table_ok (de_table s) \<longrightarrow> is_scalar v \<and> wf_value v"
  shows "v' = v \<and> moves e 0 0 s s'"
  using assms by (auto simp: record_if_def moves_def split: if_splits intro: table_ok_record)

section \<open>The decoder\<close>

lemma dec_tag_moves: "dec_tag e s = Ok (tag, s') \<Longrightarrow> moves e 1 0 s s' \<and> de_table s' = de_table s"
  by (auto simp: dec_tag_Ok moves_def)

definition value_ok :: "denv \<Rightarrow> nat \<Rightarrow> opack_value \<Rightarrow> bool" where
  "value_ok e d v \<longleftrightarrow> wf_value v \<and> d + value_depth v \<le> MAX_DEPTH"

definition items_cost :: "denv \<Rightarrow> opack_value list \<Rightarrow> nat" where
  "items_cost e vs = sum_list (map (\<lambda>x. de_cost e * (1 + slots x)) vs)"

definition entries_cost :: "denv \<Rightarrow> (opack_value \<times> opack_value) list \<Rightarrow> nat" where
  "entries_cost e es = sum_list (map (\<lambda>(k, v). de_cost e * (2 + slots k + slots v)) es)"

lemma items_cost_slots: "items_cost e vs = de_cost e * slots (Array vs)"
  by (induction vs) (auto simp: items_cost_def algebra_simps)

lemma entries_cost_slots: "entries_cost e es = de_cost e * slots (Dict es)"
  by (induction es) (auto simp: entries_cost_def algebra_simps)

lemma entries_cost_Cons:
  "entries_cost e ((k, v) # es) = 2 * de_cost e + (de_cost e * slots k + de_cost e * slots v) + entries_cost e es"
  by (simp add: entries_cost_def algebra_simps)

lemma value_ok_Array: "d < MAX_DEPTH \<Longrightarrow> \<forall>v \<in> set vs. value_ok e (Suc d) v \<Longrightarrow> value_ok e d (Array vs)"
  using value_depth_Array_le [of vs "MAX_DEPTH - Suc d"] by (auto simp: value_ok_def Suc_le_eq)

lemma value_ok_Dict:
  "d < MAX_DEPTH \<Longrightarrow> \<forall>(k, v) \<in> set es. value_ok e (Suc d) k \<and> value_ok e (Suc d) v \<Longrightarrow> value_ok e d (Dict es)"
  using value_depth_Dict_le [of es "MAX_DEPTH - Suc d"] by (auto simp: value_ok_def Suc_le_eq)

lemma moves_table: "moves e k c s s' \<Longrightarrow> table_ok (de_table s) \<Longrightarrow> table_ok (de_table s')"
  by (simp add: moves_def)

lemma moves_charged:
  "dec_charge e n s = Ok s1 \<Longrightarrow> moves e k a s1 s2 \<Longrightarrow> moves e k' b s2 s3 \<Longrightarrow> moves e 0 (n + a + b) s s3"
  using moves_charge [of e n s s1] moves_trans [of e 0 n s s1 k a s2] moves_trans [of e k "n + a" s s2 k' b s3]
  by (auto intro: moves_weaken)

lemma dec_good:
  shows "dec_value e f d s = Ok (v, s') \<Longrightarrow> table_ok (de_table s) \<Longrightarrow> d \<le> MAX_DEPTH \<Longrightarrow>
           moves e 1 (de_cost e * slots v) s s' \<and> value_ok e d v"
    and "dec_items e f d c s = Ok (vs, s') \<Longrightarrow> table_ok (de_table s) \<Longrightarrow> d \<le> MAX_DEPTH \<Longrightarrow>
           moves e 0 (items_cost e vs) s s' \<and> (\<forall>v \<in> set vs. value_ok e d v)"
    and "dec_entries e f d c s = Ok (es, s') \<Longrightarrow> table_ok (de_table s) \<Longrightarrow> d \<le> MAX_DEPTH \<Longrightarrow>
           moves e 0 (entries_cost e es) s s' \<and> (\<forall>(k, v) \<in> set es. value_ok e d k \<and> value_ok e d v)"
proof (induction e f d s and e f d c s and e f d c s arbitrary: v s' and vs s' and es s'
    rule: dec_value_dec_items_dec_entries.induct)
  case (1 e depth s)
  then show ?case by simp
next
  case (2 e fuel depth s)
  from "2.prems"(1) obtain tag s1 where tag: "dec_tag e s = Ok (tag, s1)"
    by (auto simp: rbind_Ok_iff)
  from dec_tag_moves [OF tag] have m1: "moves e 1 0 s s1" and t1: "table_ok (de_table s1)"
    using "2.prems"(2) by auto
  show ?case
  proof (cases "ARRAY_BASE \<le> tag \<and> tag \<le> ARRAY_MAX_TAG")
    case arr: True
    with "2.prems"(1) tag obtain c vs where d: "depth < MAX_DEPTH" and v: "v = Array vs"
      and it: "dec_items e fuel (Suc depth) c s1 = Ok (vs, s')"
      and c: "c = (if unat (tag - ARRAY_BASE) = CONTAINER_ENDLESS_COUNT then None else Some (unat (tag - ARRAY_BASE)))"
      by (auto simp: rbind_Ok_iff dec_enter_Ok Let_def)
    have "dec_enter depth = Ok (Suc depth)" using d by (simp add: dec_enter_Ok)
    from "2.IH"(1) [OF tag refl arr this refl, of vs s'] it c t1 d
    have "moves e 0 (items_cost e vs) s1 s'" and "\<forall>v \<in> set vs. value_ok e (Suc depth) v"
      by auto
    with m1 d v show ?thesis
      using moves_trans [of e 1 0 s s1 0 "items_cost e vs" s']
      by (simp only: items_cost_slots value_ok_Array) simp
  next
    case arr: False
    show ?thesis
    proof (cases "tag AND 0xE0 = DICT_BASE")
      case dict: True
      with "2.prems"(1) tag arr obtain c es where d: "depth < MAX_DEPTH" and v: "v = Dict es"
        and it: "dec_entries e fuel (Suc depth) c s1 = Ok (es, s')"
        and c: "c = (if unat (tag AND 0x0F) = CONTAINER_ENDLESS_COUNT then None else Some (unat (tag AND 0x0F)))"
        by (auto simp: rbind_Ok_iff dec_enter_Ok Let_def)
      have "dec_enter depth = Ok (Suc depth)" using d by (simp add: dec_enter_Ok)
      from "2.IH"(2) [OF tag refl arr dict this refl, of es s'] it c t1 d
      have "moves e 0 (entries_cost e es) s1 s'"
        and "\<forall>(k, v) \<in> set es. value_ok e (Suc depth) k \<and> value_ok e (Suc depth) v"
        by auto
      with m1 d v show ?thesis
        using moves_trans [of e 1 0 s s1 0 "entries_cost e es" s']
        by (simp only: entries_cost_slots value_ok_Dict) simp
    next
      case dict: False
      with "2.prems"(1) tag arr obtain w b s2 where sc: "dec_scalar e tag (de_offset s) s1 = Ok ((w, b), s2)"
        and r: "record_if e ((w, b), s2) = (v, s')"
        by (auto simp: rbind_Ok_iff)
      from dec_scalar_Ok [OF sc] t1 have w: "is_scalar w" "wf_value w" and m2: "moves e 0 0 s1 s2"
        by auto
      from record_if_moves [OF r] w have "v = w" and m3: "moves e 0 0 s2 s'" by auto
      with w m1 m2 m3 "2.prems"(3) show ?thesis
        using moves_trans [OF moves_trans [OF m1 m2] m3] by (simp add: value_ok_def scalar_measures)
    qed
  qed
next
  case (3 e depth count s)
  then show ?case by simp
next
  case (4 e fuel depth s)
  then show ?case by (simp add: moves_refl items_cost_def)
next
  case (5 e fuel depth n s)
  from "5.prems"(1) obtain s1 v s2 vs' where ch: "dec_charge e (de_cost e) s = Ok s1"
    and v: "dec_value e fuel depth s1 = Ok (v, s2)"
    and r: "dec_items e fuel depth (Some n) s2 = Ok (vs', s')" and vs: "vs = v # vs'"
    by (auto simp: rbind_Ok_iff)
  from ch "5.prems"(2) have t1: "table_ok (de_table s1)" by (auto dest: moves_charge)
  from "5.IH"(1) [OF ch v t1 "5.prems"(3)]
  have m: "moves e 1 (de_cost e * slots v) s1 s2" and ok: "value_ok e depth v" by auto
  from "5.IH"(2) [OF ch v refl r moves_table [OF m t1] "5.prems"(3)]
  show ?case using moves_charged [OF ch m] ok vs by (auto simp: items_cost_def)
next
  case (6 e fuel depth s)
  from "6.prems"(1) obtain tag where pk: "dec_peek e s = Ok tag" by (auto simp: rbind_Ok_iff)
  show ?case
  proof (cases "tag = TAG_TERMINATOR")
    case True
    with "6.prems" pk show ?thesis by (auto simp: dec_peek_Ok moves_def items_cost_def)
  next
    case False
    with "6.prems"(1) pk obtain s1 v s2 vs' where ch: "dec_charge e (de_cost e) s = Ok s1"
      and v: "dec_value e fuel depth s1 = Ok (v, s2)"
      and r: "dec_items e fuel depth None s2 = Ok (vs', s')" and vs: "vs = v # vs'"
      by (auto simp: rbind_Ok_iff)
    from ch "6.prems"(2) have t1: "table_ok (de_table s1)" by (auto dest: moves_charge)
    from "6.IH"(1) [OF pk False ch v t1 "6.prems"(3)]
    have m: "moves e 1 (de_cost e * slots v) s1 s2" and ok: "value_ok e depth v" by auto
    from "6.IH"(2) [OF pk False ch v refl r moves_table [OF m t1] "6.prems"(3)]
    show ?thesis using moves_charged [OF ch m] ok vs by (auto simp: items_cost_def)
  qed
next
  case (7 e depth count s)
  then show ?case by simp
next
  case (8 e fuel depth s)
  then show ?case by (simp add: moves_refl entries_cost_def)
next
  case (9 e fuel depth n s)
  from "9.prems"(1) obtain s1 k s2 v s3 es' where ch: "dec_charge e (2 * de_cost e) s = Ok s1"
    and k: "dec_value e fuel depth s1 = Ok (k, s2)" and v: "dec_value e fuel depth s2 = Ok (v, s3)"
    and r: "dec_entries e fuel depth (Some n) s3 = Ok (es', s')" and es: "es = (k, v) # es'"
    by (auto simp: rbind_Ok_iff)
  from ch "9.prems"(2) have t1: "table_ok (de_table s1)" by (auto dest: moves_charge)
  from "9.IH"(1) [OF ch k t1 "9.prems"(3)]
  have mk: "moves e 1 (de_cost e * slots k) s1 s2" and okk: "value_ok e depth k" by auto
  have t2: "table_ok (de_table s2)" by (rule moves_table [OF mk t1])
  from "9.IH"(2) [OF ch k refl v t2 "9.prems"(3)]
  have mv: "moves e 1 (de_cost e * slots v) s2 s3" and okv: "value_ok e depth v" by auto
  from "9.IH"(3) [OF ch k refl v refl r moves_table [OF mv t2] "9.prems"(3)]
  show ?case using moves_charged [OF ch moves_trans [OF mk mv]] okk okv es
    by (auto simp: entries_cost_Cons)
next
  case (10 e fuel depth s)
  from "10.prems"(1) obtain tag where pk: "dec_peek e s = Ok tag" by (auto simp: rbind_Ok_iff)
  show ?case
  proof (cases "tag = TAG_TERMINATOR")
    case True
    with "10.prems" pk show ?thesis by (auto simp: dec_peek_Ok moves_def entries_cost_def)
  next
    case False
    with "10.prems"(1) pk obtain s1 k s2 v s3 es' where ch: "dec_charge e (2 * de_cost e) s = Ok s1"
      and k: "dec_value e fuel depth s1 = Ok (k, s2)" and v: "dec_value e fuel depth s2 = Ok (v, s3)"
      and r: "dec_entries e fuel depth None s3 = Ok (es', s')" and es: "es = (k, v) # es'"
      by (auto simp: rbind_Ok_iff)
    from ch "10.prems"(2) have t1: "table_ok (de_table s1)" by (auto dest: moves_charge)
    from "10.IH"(1) [OF pk False ch k t1 "10.prems"(3)]
    have mk: "moves e 1 (de_cost e * slots k) s1 s2" and okk: "value_ok e depth k" by auto
    have t2: "table_ok (de_table s2)" by (rule moves_table [OF mk t1])
    from "10.IH"(2) [OF pk False ch k refl v t2 "10.prems"(3)]
    have mv: "moves e 1 (de_cost e * slots v) s2 s3" and okv: "value_ok e depth v" by auto
    from "10.IH"(3) [OF pk False ch k refl v refl r moves_table [OF mv t2] "10.prems"(3)]
    show ?thesis using moves_charged [OF ch moves_trans [OF mk mv]] okk okv es
      by (auto simp: entries_cost_Cons)
  qed
qed


section \<open>Termination: the fuel is enough\<close>

definition fueled :: "opack_error + 'a \<Rightarrow> bool" where
  "fueled m \<longleftrightarrow> m \<noteq> Err OutOfFuel"

lemma fueled_bind: "fueled m \<Longrightarrow> (\<And>x. m = Ok x \<Longrightarrow> fueled (f x)) \<Longrightarrow> fueled (rbind m f)"
  by (cases m) (auto simp: fueled_def)

lemma fueled_if: "fueled m \<Longrightarrow> fueled m' \<Longrightarrow> fueled (if b then m else m')"
  by simp

lemma fueled_Ok [simp]: "fueled (Ok x)"
  by (simp add: fueled_def)

lemma fueled_Err [simp]: "fueled (Err x) \<longleftrightarrow> x \<noteq> OutOfFuel"
  by (simp add: fueled_def)

lemma fueled_take [simp]: "fueled (dec_take e n s)"
  by (auto simp: fueled_def dec_take_def rbind_Err_iff ok_or_def split: option.splits)

lemma fueled_parts [simp]:
  "fueled (dec_tag e s)" "fueled (dec_peek e s)" "fueled (dec_le_uint e n s)"
  "fueled (dec_enter d)" "fueled (dec_charge e n s)"
  by (auto simp: dec_tag_def dec_le_uint_def dec_peek_def dec_enter_def dec_charge_def Let_def
      ok_or_def fueled_def split: option.splits intro!: fueled_bind [unfolded fueled_def])
     (auto simp: rbind_Err_iff fueled_take [unfolded fueled_def])

lemma fueled_len [simp]: "fueled (dec_le_len e n start s)"
  unfolding dec_le_len_def by (intro fueled_bind) auto

lemma fueled_flagged [simp]: "fueled m \<Longrightarrow> fueled (flagged b m)"
  unfolding flagged_def by (rule fueled_bind) auto

lemma fueled_scalars [simp]:
  "fueled (dec_string e n start s)" "fueled (dec_data e n s)"
  "fueled (dec_back_reference e i s)" "fueled (dec_sized_uint e tag s)"
  unfolding dec_string_def dec_data_def dec_back_reference_def dec_sized_uint_def Let_def
  by (auto intro!: fueled_bind simp: ok_or_def split: option.splits)

lemma fueled_scalar [simp]: "fueled (dec_scalar e tag start s)"
  unfolding dec_scalar_def
  by (intro fueled_if) (auto intro!: fueled_bind)

lemma dec_value_step:
  "dec_value e f d s = Ok (v, s') \<Longrightarrow> de_offset s \<le> length (de_input e) \<Longrightarrow> table_ok (de_table s) \<Longrightarrow>
   d \<le> MAX_DEPTH \<Longrightarrow> de_offset s < de_offset s' \<and> de_offset s' \<le> length (de_input e) \<and> table_ok (de_table s')"
  using dec_good(1) [of e f d s v s'] by (auto simp: moves_def)

lemma charge_step:
  "dec_charge e n s = Ok s' \<Longrightarrow> de_offset s' = de_offset s \<and> de_table s' = de_table s"
  by (auto dest: moves_charge)

lemma fueled_value_then:
  assumes "de_offset s \<le> length (de_input e)" "table_ok (de_table s)" "d \<le> MAX_DEPTH"
    and "fueled (dec_value e f d s)"
    and "\<And>v s'. dec_value e f d s = Ok (v, s') \<Longrightarrow> de_offset s < de_offset s' \<Longrightarrow>
           de_offset s' \<le> length (de_input e) \<Longrightarrow> table_ok (de_table s') \<Longrightarrow> fueled (g v s')"
  shows "fueled (rbind (dec_value e f d s) (\<lambda>(v, s'). g v s'))"
  using assms by (auto intro!: fueled_bind dest: dec_value_step)

lemma fueled_charge_then:
  assumes "\<And>s'. dec_charge e n s = Ok s' \<Longrightarrow> de_offset s' = de_offset s \<Longrightarrow> de_table s' = de_table s
             \<Longrightarrow> fueled (g s')"
  shows "fueled (rbind (dec_charge e n s) g)"
  using assms by (auto intro!: fueled_bind dest: charge_step)

lemma fueled_peek_then:
  assumes "\<And>tag. dec_peek e s = Ok tag \<Longrightarrow> tag \<noteq> TAG_TERMINATOR \<Longrightarrow> fueled h"
  shows "fueled (rbind (dec_peek e s) (\<lambda>tag. if tag = TAG_TERMINATOR then Ok r else h))"
  using assms by (auto intro!: fueled_bind)

lemma dec_fueled:
  shows "2 * (length (de_input e) - de_offset s) + 1 \<le> f \<Longrightarrow> de_offset s \<le> length (de_input e) \<Longrightarrow>
           table_ok (de_table s) \<Longrightarrow> d \<le> MAX_DEPTH \<Longrightarrow> fueled (dec_value e f d s)"
    and "2 * (length (de_input e) - de_offset s) + 2 \<le> f \<Longrightarrow> de_offset s \<le> length (de_input e) \<Longrightarrow>
           table_ok (de_table s) \<Longrightarrow> d \<le> MAX_DEPTH \<Longrightarrow> fueled (dec_items e f d c s)"
    and "2 * (length (de_input e) - de_offset s) + 2 \<le> f \<Longrightarrow> de_offset s \<le> length (de_input e) \<Longrightarrow>
           table_ok (de_table s) \<Longrightarrow> d \<le> MAX_DEPTH \<Longrightarrow> fueled (dec_entries e f d c s)"
proof (induction e f d s and e f d c s and e f d c s rule: dec_value_dec_items_dec_entries.induct)
  case (1 e depth s)
  then show ?case by simp
next
  case (2 e fuel depth s)
  show ?case
  proof (simp only: dec_value.simps, rule fueled_bind, simp, clarify)
    fix tag s1
    assume tag: "dec_tag e s = Ok (tag, s1)"
    then have s1: "de_offset s1 = Suc (de_offset s)" "de_table s1 = de_table s"
      "de_offset s < length (de_input e)"
      by (auto simp: dec_tag_Ok)
    have fuel: "2 * (length (de_input e) - de_offset s1) + 2 \<le> fuel" "de_offset s1 \<le> length (de_input e)"
      using s1 "2.prems"(1) by auto
    show "fueled (if ARRAY_BASE \<le> tag \<and> tag \<le> ARRAY_MAX_TAG then
       rbind (dec_enter depth) (\<lambda>depth'.
       let count = unat (tag - ARRAY_BASE) in
       rbind (dec_items e fuel depth' (if count = CONTAINER_ENDLESS_COUNT then None else Some count) s1)
         (\<lambda>(items, s2). Ok (Array items, s2)))
     else if tag AND 0xE0 = DICT_BASE then
       rbind (dec_enter depth) (\<lambda>depth'.
       let count = unat (tag AND 0x0F) in
       rbind (dec_entries e fuel depth' (if count = CONTAINER_ENDLESS_COUNT then None else Some count) s1)
         (\<lambda>(entries, s2). Ok (Dict entries, s2)))
     else rbind (dec_scalar e tag (de_offset s) s1) (\<lambda>r. Ok (record_if e r)))"
      using "2.IH"(1) [OF tag refl] "2.IH"(2) [OF tag refl] fuel s1 "2.prems"(3)
      by (auto simp: Let_def dec_enter_Ok intro!: fueled_bind)
  qed
next
  case (3 e depth count s)
  then show ?case by simp
next
  case (4 e fuel depth s)
  then show ?case by simp
next
  case (5 e fuel depth n s)
  show ?case
    unfolding dec_items.simps
    by (intro fueled_charge_then fueled_value_then "5.IH")
       (use "5.prems" in \<open>auto intro!: fueled_bind "5.IH"(2)\<close>)
next
  case (6 e fuel depth s)
  show ?case
    unfolding dec_items.simps
    by (intro fueled_peek_then fueled_charge_then fueled_value_then "6.IH")
       (use "6.prems" in \<open>auto intro!: fueled_bind "6.IH"(2)\<close>)
next
  case (7 e depth count s)
  then show ?case by simp
next
  case (8 e fuel depth s)
  then show ?case by simp
next
  case (9 e fuel depth n s)
  show ?case
    unfolding dec_entries.simps
    by (intro fueled_charge_then fueled_value_then "9.IH")
       (use "9.prems" in \<open>auto intro!: fueled_bind "9.IH"(3)\<close>)
next
  case (10 e fuel depth s)
  show ?case
    unfolding dec_entries.simps
    by (intro fueled_peek_then fueled_charge_then fueled_value_then "10.IH")
       (use "10.prems" in \<open>auto intro!: fueled_bind "10.IH"(3)\<close>)
qed

section \<open>Properties\<close>

lemma table_ok_new: "table_ok (de_table dec_new)"
  by (simp add: table_ok_def dec_new_def unpack_table_new_def)

lemma default_budget_max: "default_budget n \<le> MAX_BUDGET"
  by (simp add: default_budget_def Let_def MIN_BUDGET_def MAX_BUDGET_def)

lemma MAX_BUDGET_usize: "MAX_BUDGET < usize_max"
  by (simp add: MAX_BUDGET_def usize_max_def)

lemma unpack_with_budget_good:
  assumes "unpack_with_budget dig cost bs bud = Ok (v, n)" and "bud < usize_max"
  shows "0 < n \<and> n \<le> length bs \<and> wf_value v \<and> value_depth v \<le> MAX_DEPTH \<and> cost * slots v \<le> bud"
proof -
  let ?e = "\<lparr>de_input = bs, de_budget = bud, de_cost = cost, de_digest = dig\<rparr>"
  from assms(1) obtain s where d: "dec_value ?e (2 * length bs + 1) 0 dec_new = Ok (v, s)"
    and n: "n = de_offset s"
    by (auto simp: unpack_with_budget_def Let_def rbind_Ok_iff)
  from dec_good(1) [OF d table_ok_new] assms(2) show ?thesis
    by (auto simp: n moves_def value_ok_def dec_new_def)
qed

text \<open>
  C2: the decoder is total. Whatever the bytes, the fuel the model gives the recursion is never
  exhausted, so every call of \<open>unpack_with_budget\<close> ends in a value or in one of the source's errors.
\<close>

theorem unpack_total: "unpack_with_budget dig cost bs bud \<noteq> Err OutOfFuel"
proof -
  let ?e = "\<lparr>de_input = bs, de_budget = bud, de_cost = cost, de_digest = dig\<rparr>"
  have "fueled (dec_value ?e (2 * length bs + 1) 0 dec_new)"
    by (rule dec_fueled(1)) (simp_all add: table_ok_new, simp add: dec_new_def)
  then show ?thesis by (auto simp: unpack_with_budget_def Let_def rbind_Err_iff fueled_def)
qed

text \<open>
  What the decoder accepts is safe to hold. On any input, a decode that succeeds has consumed at
  least one byte and none beyond the input, and the value it returns is well formed (UTF-8 strings,
  sixteen-byte UUIDs, integers within their width), nests at most \<open>MAX_DEPTH\<close> deep, and fills value
  slots worth no more than the default budget, back-references included: a small hostile message
  cannot expand without bound.
\<close>

theorem unpack_safe:
  assumes "unpack dig cost bs = Ok (v, n)"
  shows "0 < n \<and> n \<le> length bs \<and> wf_value v \<and> value_depth v \<le> MAX_DEPTH
    \<and> cost * slots v \<le> default_budget (length bs)"
  using unpack_with_budget_good [OF assms [unfolded unpack_def]] default_budget_max [of "length bs"]
    MAX_BUDGET_usize
  by simp

text \<open>An array that names its first element twice more by back-reference.\<close>

definition repeated_bytes :: bytes where
  "repeated_bytes = [0xD3, 0x42, 0x68, 0x69, 0xA0, 0xA0, 0x77]"

lemmas dec_fuel_eval =
  dec_value.simps(2) [where fuel = "pred_numeral k" for k, folded numeral_eq_Suc]
  dec_items.simps(2,3,4) [where fuel = "pred_numeral k" for k, folded numeral_eq_Suc]
  dec_entries.simps(2,3,4) [where fuel = "pred_numeral k" for k, folded numeral_eq_Suc]
  dec_items.simps(3) [where fuel = "pred_numeral k" and n = "pred_numeral m" for k m, folded numeral_eq_Suc]
  dec_entries.simps(3) [where fuel = "pred_numeral k" and n = "pred_numeral m" for k m, folded numeral_eq_Suc]

lemmas unpack_eval = unpack_def unpack_with_budget_def dec_fuel_eval dec_tag_def dec_take_def dec_enter_def
  dec_charge_def dec_scalar_def dec_string_def dec_back_reference_def flagged_def record_if_def
  dec_new_def unpack_table_new_def unpack_record_def unpack_get_def get_at_def get_range_def
  checked_add_def saturating_add_def saturating_mul_def usize_max_def MAX_DEPTH_def MAX_BUCKET_def Let_def
  default_budget_def MIN_BUDGET_def MAX_BUDGET_def

lemma repeated_unpacks:
  "unpack (\<lambda>_. 0) 32 repeated_bytes =
     Ok (Array [String (lit ''hi''), String (lit ''hi''), String (lit ''hi'')], 6)"
  by (simp add: unpack_eval repeated_bytes_def lit_def)

theorem unpack_safe_witness:
  "0 < (6 :: nat) \<and> 6 \<le> length repeated_bytes
   \<and> wf_value (Array [String (lit ''hi''), String (lit ''hi''), String (lit ''hi'')])
   \<and> value_depth (Array [String (lit ''hi''), String (lit ''hi''), String (lit ''hi'')]) \<le> MAX_DEPTH
   \<and> 32 * slots (Array [String (lit ''hi''), String (lit ''hi''), String (lit ''hi'')])
       \<le> default_budget (length repeated_bytes)"
  by (rule unpack_safe [OF repeated_unpacks])

end
