(* ===== verification/Opack_Roundtrip.thy ===== *)
theory Opack_Roundtrip
  imports Opack_Ser Opack_Safety
begin

text \<open>
  The OPACK encoder and decoder against each other: a value that packs unpacks again, to its
  canonical form, with the two back-reference tables numbered alike all the way.
\<close>

unbundle bit_operations_syntax

section \<open>Canonical values\<close>

text \<open>
  What a round trip changes: an integer too large for the tag byte comes back pinned to the width
  it was written at.
\<close>

fun canon :: "opack_value \<Rightarrow> opack_value" where
  "canon (Uint n) = (if n < SMALL_INT_LIMIT then Uint n else SizedUint n (narrowest_for n))"
| "canon (Array xs) = Array (map canon xs)"
| "canon (Dict es) = Dict (map (\<lambda>(k, v). (canon k, canon v)) es)"
| "canon v = v"

text \<open>The most a decode of the value's encoding can charge.\<close>

fun decode_cost :: "nat \<Rightarrow> opack_value \<Rightarrow> nat" where
  "decode_cost c (Array xs) = sum_list (map (\<lambda>x. c + decode_cost c x) xs)"
| "decode_cost c (Dict es) = sum_list (map (\<lambda>(k, v). 2 * c + decode_cost c k + decode_cost c v) es)"
| "decode_cost c (String s) = c + length s"
| "decode_cost c (Data s) = c + length s"
| "decode_cost c _ = c"

text \<open>How many slots of the table the value can take.\<close>

fun leaves :: "opack_value \<Rightarrow> nat" where
  "leaves (Array xs) = sum_list (map leaves xs)"
| "leaves (Dict es) = sum_list (map (\<lambda>(k, v). leaves k + leaves v) es)"
| "leaves _ = 1"

lemma canon_scalar: "is_scalar v \<Longrightarrow> is_scalar (canon v)"
  by (cases v) auto

lemma unat_narrowest: "unat n < 256 ^ byte_count (narrowest_for n)"
  using unat_u64_bound [of n] by (auto simp: narrowest_for_def word_le_nat_alt)

lemma pow_bits: "(2 :: nat) ^ (k * 8) = 256 ^ k"
  using power_mult [of "2 :: nat" 8 k] by (simp add: mult.commute)

lemma scalar_bytes_canon: "is_scalar v \<Longrightarrow> scalar_bytes (canon v) = scalar_bytes v"
proof (cases v)
  case (Uint n)
  then show ?thesis
    using unat_narrowest [of n]
    by (auto simp: scalar_bytes_def write_uint_def write_sized_uint_def Let_def pow_bits)
qed (auto simp: scalar_bytes_def)

lemma is_interned_canon: "is_scalar v \<Longrightarrow> is_interned (canon v) = is_interned v"
  by (cases v) (auto simp: is_interned_def)

section \<open>Reading what was written\<close>

definition holds :: "denv \<Rightarrow> nat \<Rightarrow> bytes \<Rightarrow> bool" where
  "holds e off bs \<longleftrightarrow> off + length bs \<le> length (de_input e) \<and> take (length bs) (drop off (de_input e)) = bs"

lemma holds_append: "holds e off (a @ b) \<longleftrightarrow> holds e off a \<and> holds e (off + length a) b"
  by (auto simp: holds_def take_add add.commute add.left_commute)

lemma holds_Cons: "holds e off (x # b) \<longleftrightarrow> holds e off [x] \<and> holds e (Suc off) b"
  using holds_append [of e off "[x]" b] by simp

lemma holds_nth: "holds e off [x] \<Longrightarrow> off < length (de_input e) \<and> de_input e ! off = x"
  by (auto simp: holds_def take_Suc_conv_app_nth hd_drop_conv_nth take_Suc)

definition env_ok :: "denv \<Rightarrow> bool" where
  "env_ok e \<longleftrightarrow> length (de_input e) \<le> usize_max \<and> de_budget e \<le> usize_max"

lemma take_holds:
  "holds e (de_offset s) bs \<Longrightarrow> env_ok e \<Longrightarrow> n = length bs \<Longrightarrow>
     dec_take e n s = Ok (bs, s\<lparr>de_offset := de_offset s + n\<rparr>)"
  by (auto simp: dec_take_Ok holds_def env_ok_def)

lemma le_uint_holds:
  "holds e (de_offset s) bs \<Longrightarrow> env_ok e \<Longrightarrow> n = length bs \<Longrightarrow>
     dec_le_uint e n s = Ok (le_nat bs, s\<lparr>de_offset := de_offset s + n\<rparr>)"
  by (simp add: dec_le_uint_def take_holds)

lemma le_len_holds:
  "holds e (de_offset s) (le_bytes k n) \<Longrightarrow> env_ok e \<Longrightarrow> n < 256 ^ k \<Longrightarrow> n \<le> usize_max \<Longrightarrow>
     dec_le_len e k start s = Ok (n, s\<lparr>de_offset := de_offset s + k\<rparr>)"
  using le_uint_holds [of e s "le_bytes k n" k]
  by (simp add: dec_le_len_def le_nat_le_bytes)

lemma charge_fits:
  "env_ok e \<Longrightarrow> de_spent s + n \<le> de_budget e \<Longrightarrow> dec_charge e n s = Ok (s\<lparr>de_spent := de_spent s + n\<rparr>)"
  by (auto simp: dec_charge_Ok saturating_add_def env_ok_def)

lemma string_holds:
  "holds e (de_offset s) bs \<Longrightarrow> env_ok e \<Longrightarrow> utf8_valid bs \<Longrightarrow> n = length bs \<Longrightarrow>
   de_spent s + n \<le> de_budget e \<Longrightarrow>
   dec_string e n start s = Ok (String bs, s\<lparr>de_offset := de_offset s + n, de_spent := de_spent s + n\<rparr>)"
  by (simp add: dec_string_def take_holds charge_fits)

lemma data_holds:
  "holds e (de_offset s) bs \<Longrightarrow> env_ok e \<Longrightarrow> n = length bs \<Longrightarrow>
   de_spent s + n \<le> de_budget e \<Longrightarrow>
   dec_data e n s = Ok (Data bs, s\<lparr>de_offset := de_offset s + n, de_spent := de_spent s + n\<rparr>)"
  by (simp add: dec_data_def take_holds charge_fits)

section \<open>Dispatch on the tag byte\<close>

lemma unat_tag_add: "unat (b :: u8) + n < 256 \<Longrightarrow> unat (b + word_of_nat n) = unat b + n"
  by (simp add: unat_word_ariths unat_of_nat)

lemma dispatch_small:
  "n < 0x28 \<Longrightarrow> unat tag = 0x08 + n \<Longrightarrow> dec_scalar e tag start s = Ok ((Uint (word_of_nat n), False), s)"
proof -
  assume n: "n < 0x28" and t: "unat tag = 0x08 + n"
  then have "tag - SMALL_INT_BIAS = word_of_nat n"
    by (simp add: word_unat_eq_iff unat_sub_if_size word_size unat_of_nat)
  with n have u: "(ucast (tag - SMALL_INT_BIAS) :: u64) = word_of_nat n"
    by (simp add: word_unat_eq_iff unat_of_nat)
  show ?thesis
    unfolding dec_scalar_def
    using n t by (simp add: u word_le_nat_alt word_unat_eq_iff)
qed

lemma dispatch_string:
  "n \<le> 0x20 \<Longrightarrow> unat tag = 0x40 + n \<Longrightarrow> dec_scalar e tag start s = flagged True (dec_string e n start s)"
  unfolding dec_scalar_def
  by (simp add: word_le_nat_alt word_unat_eq_iff unat_sub_if_size word_size)

lemma dispatch_data:
  "n \<le> 0x20 \<Longrightarrow> unat tag = 0x70 + n \<Longrightarrow> dec_scalar e tag start s = flagged True (dec_data e n s)"
  unfolding dec_scalar_def
  by (simp add: word_le_nat_alt word_unat_eq_iff unat_sub_if_size word_size)

lemma dispatch_pointer:
  "n \<le> 0x20 \<Longrightarrow> unat tag = 0xA0 + n \<Longrightarrow>
     dec_scalar e tag start s = flagged False (dec_back_reference e n s)"
  unfolding dec_scalar_def
  by (simp add: word_le_nat_alt word_unat_eq_iff unat_sub_if_size word_size)


section \<open>A scalar written inline\<close>

text \<open>\<open>own_cost\<close> is what the bytes of a scalar cost when they are in the input.\<close>

fun own_cost :: "opack_value \<Rightarrow> nat" where
  "own_cost (String s) = length s"
| "own_cost (Data s) = length s"
| "own_cost _ = 0"

definition after :: "nat \<Rightarrow> opack_value \<Rightarrow> dec \<Rightarrow> dec" where
  "after n v s = s\<lparr>de_offset := de_offset s + n, de_spent := de_spent s + own_cost v\<rparr>"

definition reads :: "denv \<Rightarrow> opack_value \<Rightarrow> bytes \<Rightarrow> bool" where
  "reads e v bs \<longleftrightarrow> (\<exists>tag body. bs = tag # body \<and> tag \<noteq> TAG_TERMINATOR \<and> unat tag < 0xD0 \<and>
     (\<forall>s start. holds e (de_offset s) body \<longrightarrow> de_spent s + own_cost v \<le> de_budget e \<longrightarrow>
        dec_scalar e tag start s = Ok ((canon v, is_interned v), after (length body) v s)))"

lemma readsI:
  assumes "tag \<noteq> TAG_TERMINATOR" "unat tag < 0xD0"
    and "\<And>s start. holds e (de_offset s) body \<Longrightarrow> de_spent s + own_cost v \<le> de_budget e \<Longrightarrow>
        dec_scalar e tag start s = Ok ((canon v, is_interned v), after (length body) v s)"
  shows "reads e v (tag # body)"
  using assms by (auto simp: reads_def)

lemma readsD:
  "reads e v (tag # body) \<Longrightarrow> holds e (de_offset s) body \<Longrightarrow> de_spent s + own_cost v \<le> de_budget e \<Longrightarrow>
   dec_scalar e tag start s = Ok ((canon v, is_interned v), after (length body) v s)"
  by (simp add: reads_def)

lemma reads_SizedUint:
  assumes "env_ok e" and "unat n < 256 ^ byte_count w"
  shows "reads e (SizedUint n w) (write_sized n w)"
  unfolding write_sized_def
proof (rule readsI)
  fix s :: dec and start :: nat
  assume "holds e (de_offset s) (le_bytes (byte_count w) (unat n))"
  from le_uint_holds [OF this assms(1), of "byte_count w"] assms(2)
  have "dec_le_uint e (byte_count w) s = Ok (unat n, s\<lparr>de_offset := de_offset s + byte_count w\<rparr>)"
    by (simp add: le_nat_le_bytes)
  then show "dec_scalar e (width_tag w) start s =
      Ok ((canon (SizedUint n w), is_interned (SizedUint n w)),
          after (length (le_bytes (byte_count w) (unat n))) (SizedUint n w) s)"
    by (cases w) (simp_all add: dec_scalar_def dec_sized_uint_def width_from_tag_def flagged_def
        is_interned_def after_def)
qed (cases w, simp_all)+

lemma reads_Uint: "env_ok e \<Longrightarrow> reads e (Uint n) (write_uint n)"
proof (cases "n < SMALL_INT_LIMIT")
  case True
  then have n: "unat n < 0x28" by (simp add: word_less_nat_alt)
  have "unat (ucast n :: u8) = unat n" using n by (simp add: unat_ucast_u8)
  then have t: "unat ((ucast n :: u8) + SMALL_INT_BIAS) = 0x08 + unat n"
    using n by (simp add: unat_word_ariths)
  have "reads e (Uint n) [ucast n + SMALL_INT_BIAS]"
    using True n t dispatch_small [OF n t]
    by (intro readsI) (auto simp: word_unat_eq_iff is_interned_def after_def)
  with True show ?thesis by (simp add: write_uint_def)
next
  case False
  assume "env_ok e"
  from reads_SizedUint [OF this unat_narrowest, of n] False leI [OF False] show ?thesis
    by (simp add: reads_def write_uint_def is_interned_def after_def)
qed

text \<open>A tag with an explicit length: the tag fixes the width, the length follows, then the text.\<close>

lemma four_cases: "k \<in> {1, 2, 3, 4 :: nat} \<Longrightarrow> P 1 \<Longrightarrow> P 2 \<Longrightarrow> P 3 \<Longrightarrow> P 4 \<Longrightarrow> P k"
  by auto

lemma dispatch_string_len:
  assumes "k \<in> {1, 2, 3, 4 :: nat}"
  shows "dec_scalar e (STRING_LEN_BASE + word_of_nat k) start s =
     rbind (dec_le_len e k start s) (\<lambda>(len, s'). flagged True (dec_string e len start s'))"
  by (rule four_cases [OF assms]) (simp_all add: dec_scalar_def)

lemma dispatch_data_len:
  assumes "k \<in> {1, 2, 3, 4 :: nat}"
  shows "dec_scalar e (DATA_LEN_BASE + word_of_nat k) start s =
     rbind (dec_le_len e (2 ^ (k - 1)) start s) (\<lambda>(len, s'). flagged True (dec_data e len s'))"
  by (rule four_cases [OF assms]) (simp_all add: dec_scalar_def)

lemma len_tags:
  assumes "k \<in> {1, 2, 3, 4 :: nat}"
  shows "STRING_LEN_BASE + word_of_nat k \<noteq> TAG_TERMINATOR" "unat (STRING_LEN_BASE + word_of_nat k) < 0xD0"
    "DATA_LEN_BASE + word_of_nat k \<noteq> TAG_TERMINATOR" "unat (DATA_LEN_BASE + word_of_nat k) < 0xD0"
  by (rule four_cases [OF assms], simp_all)+

lemma len_body:
  assumes "holds e (de_offset s) (put_length (length bs) k @ bs)" and "env_ok e"
    and "length bs < 256 ^ k" and "length bs \<le> usize_max"
  shows "dec_le_len e k start s = Ok (length bs, s\<lparr>de_offset := de_offset s + k\<rparr>)"
    and "holds e (de_offset s + k) bs"
  using assms by (auto simp: put_length_def holds_append intro: le_len_holds)

lemma reads_string_len:
  assumes "env_ok e" and "utf8_valid bs" and k: "k \<in> {1, 2, 3, 4}" and "length bs < 256 ^ k"
    and "length bs \<le> usize_max"
  shows "reads e (String bs) ((STRING_LEN_BASE + word_of_nat k) # put_length (length bs) k @ bs)"
proof (rule readsI)
  fix s :: dec and start :: nat
  assume h: "holds e (de_offset s) (put_length (length bs) k @ bs)"
    and b: "de_spent s + own_cost (String bs) \<le> de_budget e"
  note l = len_body [OF h assms(1,4,5)]
  have t: "dec_string e (length bs) start (s\<lparr>de_offset := de_offset s + k\<rparr>) =
      Ok (String bs, s\<lparr>de_offset := de_offset s + k + length bs, de_spent := de_spent s + length bs\<rparr>)"
    using l(2) assms b string_holds [of e "s\<lparr>de_offset := de_offset s + k\<rparr>" bs "length bs" start]
    by simp
  show "dec_scalar e (STRING_LEN_BASE + word_of_nat k) start s =
      Ok ((canon (String bs), is_interned (String bs)),
          after (length (put_length (length bs) k @ bs)) (String bs) s)"
    by (simp add: dispatch_string_len [OF k] l(1) t flagged_def is_interned_def after_def
        put_length_def add.assoc)
qed (rule len_tags [OF k])+

lemma reads_String:
  assumes "env_ok e" and "utf8_valid text" and "write_string text = Ok bs"
  shows "reads e (String text) bs"
proof (cases "length text \<le> STRING_INLINE_MAX_LEN")
  case True
  have t: "unat (STRING_INLINE_BASE + word_of_nat (length text)) = 0x40 + length text"
    using True by (simp add: unat_tag_add)
  have "reads e (String text) ((STRING_INLINE_BASE + word_of_nat (length text)) # text)"
  proof (rule readsI)
    fix s :: dec and start :: nat
    assume "holds e (de_offset s) text" and "de_spent s + own_cost (String text) \<le> de_budget e"
    then show "dec_scalar e (STRING_INLINE_BASE + word_of_nat (length text)) start s =
        Ok ((canon (String text), is_interned (String text)), after (length text) (String text) s)"
      using dispatch_string [OF True t] string_holds [of e s "text" "length text" start] assms
      by (simp add: flagged_def is_interned_def after_def)
  qed (use t True in \<open>auto simp: word_unat_eq_iff\<close>)
  with True assms(3) show ?thesis by (simp add: write_string_def)
next
  case False
  with assms(3) obtain k where "k \<in> {1, 2, 3, 4}" "length text < 256 ^ k" "length text \<le> usize_max"
    "bs = (STRING_LEN_BASE + word_of_nat k) # put_length (length text) k @ text"
    by (force simp: write_string_def Let_def usize_max_def split: if_splits)
  with reads_string_len [OF assms(1,2)] show ?thesis by simp
qed

lemma reads_data_len:
  assumes "env_ok e" and k: "k \<in> {1, 2, 3, 4}" and "length bs < 256 ^ (2 ^ (k - 1))"
    and "length bs \<le> usize_max"
  shows "reads e (Data bs) ((DATA_LEN_BASE + word_of_nat k) # put_length (length bs) (2 ^ (k - 1)) @ bs)"
proof (rule readsI)
  let ?w = "2 ^ (k - 1) :: nat"
  fix s :: dec and start :: nat
  assume h: "holds e (de_offset s) (put_length (length bs) ?w @ bs)"
    and b: "de_spent s + own_cost (Data bs) \<le> de_budget e"
  note l = len_body [OF h assms(1,3,4)]
  have t: "dec_data e (length bs) (s\<lparr>de_offset := de_offset s + ?w\<rparr>) =
      Ok (Data bs, s\<lparr>de_offset := de_offset s + ?w + length bs, de_spent := de_spent s + length bs\<rparr>)"
    using l(2) assms b data_holds [of e "s\<lparr>de_offset := de_offset s + ?w\<rparr>" bs "length bs"]
    by simp
  show "dec_scalar e (DATA_LEN_BASE + word_of_nat k) start s =
      Ok ((canon (Data bs), is_interned (Data bs)),
          after (length (put_length (length bs) ?w @ bs)) (Data bs) s)"
    by (simp add: dispatch_data_len [OF k] l(1) [simplified] t [simplified] flagged_def is_interned_def after_def
        put_length_def add.assoc)
qed (rule len_tags [OF k])+

lemma reads_Data:
  assumes "env_ok e" and "length text \<le> usize_max"
  shows "reads e (Data text) (write_data text)"
proof (cases "length text \<le> DATA_INLINE_MAX_LEN")
  case True
  have t: "unat (DATA_INLINE_BASE + word_of_nat (length text)) = 0x70 + length text"
    using True by (simp add: unat_tag_add)
  have "reads e (Data text) ((DATA_INLINE_BASE + word_of_nat (length text)) # text)"
  proof (rule readsI)
    fix s :: dec and start :: nat
    assume "holds e (de_offset s) text" and "de_spent s + own_cost (Data text) \<le> de_budget e"
    then show "dec_scalar e (DATA_INLINE_BASE + word_of_nat (length text)) start s =
        Ok ((canon (Data text), is_interned (Data text)), after (length text) (Data text) s)"
      using dispatch_data [OF True t] data_holds [of e s "text" "length text"] assms
      by (simp add: flagged_def is_interned_def after_def)
  qed (use t True in \<open>auto simp: word_unat_eq_iff\<close>)
  with True show ?thesis by (simp add: write_data_def)
next
  case False
  then have "\<exists>k. k \<in> {1, 2, 3, 4} \<and> length text < 256 ^ (2 ^ (k - 1)) \<and>
    write_data text = (DATA_LEN_BASE + word_of_nat k) # put_length (length text) (2 ^ (k - 1)) @ text"
    using assms(2)
    by (force simp: write_data_def Let_def usize_max_def)
  with reads_data_len [OF assms(1) _ _ assms(2)] show ?thesis by metis
qed

text \<open>The rest of the scalars have one tag and a fixed length.\<close>

lemma reads_fixed:
  assumes "env_ok e" and "length bs = k"
  shows "k = 16 \<Longrightarrow> reads e (Uuid bs) (TAG_UUID # bs)"
    and "k = 8 \<Longrightarrow> bs = le_bytes 8 (unat n) \<Longrightarrow> reads e (Float n) (TAG_FLOAT64 # bs)"
    and "k = 4 \<Longrightarrow> bs = le_bytes 4 (unat m) \<Longrightarrow> reads e (Float32 m) (TAG_FLOAT32 # bs)"
  using assms le_nat_le_bytes [of "unat m" 4] unat_u32_bound [of m] le_nat_u64 [of n]
  by (auto intro!: readsI simp: dec_scalar_def is_interned_def after_def take_holds le_uint_holds)

lemma reads_constant:
  "reads e Null [TAG_NULL]" "reads e (Bool True) [TAG_TRUE]" "reads e (Bool False) [TAG_FALSE]"
  by (auto intro!: readsI simp: dec_scalar_def is_interned_def after_def)

definition scalar_ok :: "opack_value \<Rightarrow> bytes \<Rightarrow> bool" where
  "scalar_ok v bs \<longleftrightarrow> is_scalar v \<and> wf_value v \<and> scalar_bytes v = Ok bs \<and> length bs \<le> usize_max"

lemma write_data_longer: "length bs \<le> length (write_data bs)"
  by (auto simp: write_data_def Let_def)

lemma write_string_longer: "write_string bs = Ok out \<Longrightarrow> length bs \<le> length out"
  by (auto simp: write_string_def Let_def split: if_splits)

lemma own_cost_le: "scalar_bytes v = Ok bs \<Longrightarrow> own_cost v \<le> length bs"
  using write_data_longer write_string_longer
  by (cases v) (auto simp: scalar_bytes_def)

lemma reads_scalar:
  assumes "scalar_ok v bs" and "env_ok e"
  shows "reads e v bs"
proof (cases v)
  case (Data d)
  with assms write_data_longer [of d] show ?thesis
    by (auto simp: scalar_ok_def scalar_bytes_def intro: reads_Data)
qed (use assms in \<open>auto simp: scalar_ok_def scalar_bytes_def write_sized_uint_def Let_def
  intro: reads_constant
    reads_Uint reads_SizedUint reads_String reads_fixed split: if_splits\<close>)

text \<open>So the bytes of a scalar determine it, and whether it takes a slot.\<close>

lemma scalar_bytes_inj:
  assumes "scalar_ok v bs" and "scalar_ok w bs"
  shows "canon v = canon w \<and> is_interned v = is_interned w"
proof -
  let ?e = "\<lparr>de_input = bs, de_budget = usize_max, de_cost = 0, de_digest = (\<lambda>_. 0)\<rparr>"
  let ?s = "\<lparr>de_offset = 1, de_table = unpack_table_new, de_spent = 0\<rparr>"
  have e: "env_ok ?e" using assms by (simp add: env_ok_def scalar_ok_def)
  obtain tag body where bs: "bs = tag # body" using reads_scalar [OF assms(1) e] by (auto simp: reads_def)
  have h: "holds ?e (de_offset ?s) body" by (simp add: holds_def bs)
  have "own_cost v \<le> usize_max" "own_cost w \<le> usize_max"
    using assms own_cost_le [of v bs] own_cost_le [of w bs] by (auto simp: scalar_ok_def)
  with readsD [OF reads_scalar [OF assms(1) e, unfolded bs] h [unfolded bs]]
    readsD [OF reads_scalar [OF assms(2) e, unfolded bs] h [unfolded bs]]
  have "dec_scalar ?e tag 0 ?s = Ok ((canon v, is_interned v), after (length body) v ?s)"
    "dec_scalar ?e tag 0 ?s = Ok ((canon w, is_interned w), after (length body) w ?s)"
    by (auto simp: bs)
  then show ?thesis by simp
qed

section \<open>The two tables\<close>

text \<open>
  The one way the tables can drift: the encoder keys by bytes, so the two floating-point zeros are
  two entries, and the decoder compares with \<open>==\<close>, so they would be one if they fell in the same
  hash bucket. \<open>zero_sep\<close> says that the hash separates them, as the source hashes the bits.
\<close>

definition zero_sep :: "(opack_value \<Rightarrow> u64) \<Rightarrow> bool" where
  "zero_sep D \<longleftrightarrow> D (Float 0) \<noteq> D (Float 0x8000000000000000) \<and> D (Float32 0) \<noteq> D (Float32 0x80000000)"

definition in_sync :: "(opack_value \<Rightarrow> u64) \<Rightarrow> pack_table \<Rightarrow> unpack_table \<Rightarrow> bool" where
  "in_sync D T U \<longleftrightarrow>
     map snd (indices T) = [0..<length (indices T)]
     \<and> list_all2 (\<lambda>b u. scalar_ok u b \<and> canon u = u \<and> is_interned u) (map fst (indices T)) (table_values U)
     \<and> (\<forall>d. \<forall>j \<in> set (buckets U d). j < length (table_values U) \<and> D (table_values U ! j) = d)"

lemma in_sync_new: "in_sync D pack_table_new unpack_table_new"
  by (simp add: in_sync_def pack_table_new_def unpack_table_new_def)

lemma in_sync_lookup:
  assumes "in_sync D T U" and "pack_lookup T bs = Some i"
  shows "i < length (indices T) \<and> (\<exists>u. unpack_get U i = Some u \<and> scalar_ok u bs \<and> canon u = u \<and> is_interned u)"
proof -
  from assms(2) have "(bs, i) \<in> set (indices T)" by (auto simp: pack_lookup_def dest: map_of_SomeD)
  then obtain j where j: "j < length (indices T)" "indices T ! j = (bs, i)" by (auto simp: in_set_conv_nth)
  with assms(1) have "i = j"
    by (auto simp: in_sync_def dest!: arg_cong [where f = "\<lambda>xs. xs ! j"])
  with j assms(1) show ?thesis
    by (auto simp: in_sync_def unpack_get_def get_at_def list_all2_conv_all_nth)
qed

lemma canon_idem: "is_scalar v \<Longrightarrow> canon (canon v) = canon v"
  by (cases v) auto

lemma wf_value_canon_scalar: "is_scalar v \<Longrightarrow> wf_value v \<Longrightarrow> wf_value (canon v)"
  using unat_narrowest by (cases v) auto

lemma scalar_ok_canon: "scalar_ok v bs \<Longrightarrow> scalar_ok (canon v) bs"
  by (auto simp: scalar_ok_def canon_scalar scalar_bytes_canon wf_value_canon_scalar)

lemma low_bits_zero:
  "unat (a :: 'a::len word) mod 2 ^ n = 0 \<Longrightarrow> LENGTH('a) = Suc n \<Longrightarrow> unat a = 0 \<or> unat a = 2 ^ n"
  using unsigned_less [of a, where ?'a = nat]
  by (auto simp: mod_eq_0_iff_dvd elim!: dvdE)

lemma and_mask_zero64: "(a :: u64) AND 0x7FFFFFFFFFFFFFFF = 0 \<Longrightarrow> a = 0 \<or> a = 0x8000000000000000"
proof -
  assume "a AND 0x7FFFFFFFFFFFFFFF = 0"
  moreover have "(0x7FFFFFFFFFFFFFFF :: u64) = mask 63" by (simp add: mask_eq_exp_minus_1)
  ultimately have "unat (take_bit 63 a) = 0" by (simp add: take_bit_eq_mask)
  then have "unat a mod 2 ^ 63 = 0" by (metis take_bit_eq_mod unsigned_take_bit_eq)
  from low_bits_zero [OF this] show ?thesis by (auto simp: word_unat_eq_iff)
qed

lemma and_mask_zero32: "(a :: u32) AND 0x7FFFFFFF = 0 \<Longrightarrow> a = 0 \<or> a = 0x80000000"
proof -
  assume "a AND 0x7FFFFFFF = 0"
  moreover have "(0x7FFFFFFF :: u32) = mask 31" by (simp add: mask_eq_exp_minus_1)
  ultimately have "unat (take_bit 31 a) = 0" by (simp add: take_bit_eq_mask)
  then have "unat a mod 2 ^ 31 = 0" by (metis take_bit_eq_mod unsigned_take_bit_eq)
  from low_bits_zero [OF this] show ?thesis by (auto simp: word_unat_eq_iff)
qed

lemma value_eq_same_digest:
  assumes "zero_sep D" and "value_eq v w" and "is_scalar v" and "D v = D w"
  shows "v = w"
  using value_eq_scalar [OF assms(2,3)] assms(1,4)
  by (auto simp: zero_sep_def dest!: and_mask_zero64 and_mask_zero32)

lemma in_sync_record:
  assumes "in_sync D T U" and "zero_sep D" and "pack_lookup T bs = None" and "scalar_ok v bs"
    and "is_interned v"
  shows "in_sync D (pack_record T bs) (unpack_record D U (canon v))"
proof -
  have new: "\<not> (\<exists>i \<in> set (buckets U (D (canon v))). value_eq (table_values U ! i) (canon v))"
  proof
    assume "\<exists>i \<in> set (buckets U (D (canon v))). value_eq (table_values U ! i) (canon v)"
    then obtain i where i: "i \<in> set (buckets U (D (canon v)))" "value_eq (table_values U ! i) (canon v)"
      by auto
    with assms(1) have l: "i < length (table_values U)" "D (table_values U ! i) = D (canon v)"
      by (auto simp: in_sync_def)
    with assms(1) have ok: "scalar_ok (table_values U ! i) (fst (indices T ! i))" "i < length (indices T)"
      by (auto simp: in_sync_def list_all2_conv_all_nth)
    with i l assms(2) have "table_values U ! i = canon v"
      by (intro value_eq_same_digest [of D]) (auto simp: scalar_ok_def)
    with ok scalar_ok_canon [OF assms(4)] have "fst (indices T ! i) = bs" by (simp add: scalar_ok_def)
    with ok(2) have "bs \<in> fst ` set (indices T)" by force
    with assms(3) show False by (simp add: pack_lookup_def map_of_eq_None_iff)
  qed
  have len: "length (indices T) = length (table_values U)"
    using assms(1) by (auto simp: in_sync_def dest: list_all2_lengthD)
  have rec: "unpack_record D U (canon v) = U\<lparr>table_values := table_values U @ [canon v],
      buckets := (buckets U)(D (canon v) := buckets U (D (canon v)) @ [length (table_values U)])\<rparr>"
    using new by (auto simp: unpack_record_def Let_def)
  have "is_scalar v" using assms(4) by (simp add: scalar_ok_def)
  with assms(1,3,5) scalar_ok_canon [OF assms(4)] len show ?thesis
    by (auto simp: in_sync_def rec pack_record_def pack_lookup_def Let_def canon_idem is_interned_canon
        nth_append less_Suc_eq list_all2_appendI)
qed

section \<open>The simulation\<close>

definition ready :: "denv \<Rightarrow> pack_table \<Rightarrow> nat \<Rightarrow> nat \<Rightarrow> dec \<Rightarrow> bool" where
  "ready e T n c s \<longleftrightarrow> env_ok e \<and> zero_sep (de_digest e) \<and> in_sync (de_digest e) T (de_table s)
     \<and> length (indices T) + n \<le> 65536 \<and> de_spent s + c \<le> de_budget e"

definition arrived :: "denv \<Rightarrow> pack_table \<Rightarrow> pack_table \<Rightarrow> nat \<Rightarrow> nat \<Rightarrow> nat \<Rightarrow> dec \<Rightarrow> dec \<Rightarrow> bool" where
  "arrived e T T' k n c s s' \<longleftrightarrow> in_sync (de_digest e) T' (de_table s') \<and> de_offset s' = de_offset s + k
     \<and> length (indices T') \<le> length (indices T) + n \<and> de_spent s' \<le> de_spent s + c"

lemma ready_mono: "ready e T n c s \<Longrightarrow> n' \<le> n \<Longrightarrow> c' \<le> c \<Longrightarrow> ready e T n' c' s"
  by (auto simp: ready_def)

lemma ready_arrived: "ready e T (n + n') (c + c') s \<Longrightarrow> arrived e T T' k n c s s' \<Longrightarrow> ready e T' n' c' s'"
  by (auto simp: ready_def arrived_def)

lemma arrived_trans:
  "arrived e T T' k n c s s' \<Longrightarrow> arrived e T' T'' k' n' c' s' s'' \<Longrightarrow>
   arrived e T T'' (k + k') (n + n') (c + c') s s''"
  by (auto simp: arrived_def)

text \<open>A scalar: a back-reference, or its bytes.\<close>

definition mirrors :: "denv \<Rightarrow> opack_value \<Rightarrow> bool" where
  "mirrors e v \<longleftrightarrow> (\<forall>d T out T' s f.
     enc_value d T v = Ok (out, T') \<longrightarrow> ready e T (leaves v) (decode_cost (de_cost e) v) s \<longrightarrow>
     holds e (de_offset s) out \<longrightarrow> 2 * length out + 1 \<le> f \<longrightarrow>
     out \<noteq> [] \<and> hd out \<noteq> TAG_TERMINATOR \<and>
     (\<exists>s'. dec_value e f d s = Ok (canon v, s')
           \<and> arrived e T T' (length out) (leaves v) (decode_cost (de_cost e) v) s s'))"

lemma tag_holds:
  "holds e (de_offset s) (tag # body) \<Longrightarrow> env_ok e \<Longrightarrow>
   dec_tag e s = Ok (tag, s\<lparr>de_offset := Suc (de_offset s)\<rparr>) \<and> holds e (Suc (de_offset s)) body"
  using holds_Cons [of e "de_offset s" tag body] holds_nth [of e "de_offset s" tag]
  by (auto simp: dec_tag_Ok env_ok_def)

lemma not_container: "unat (tag :: u8) < 0xD0 \<Longrightarrow> \<not> ARRAY_BASE \<le> tag \<and> tag AND 0xE0 \<noteq> DICT_BASE"
proof -
  assume l: "unat tag < 0xD0"
  have "tag AND 0xE0 \<le> tag"
    by (metis and.commute word_and_le1)
  moreover have "tag < DICT_BASE" using l by (simp add: word_less_nat_alt)
  ultimately show ?thesis using l by (auto simp: word_le_nat_alt word_less_nat_alt)
qed

lemma dec_value_scalar:
  assumes "holds e (de_offset s) (tag # body)" and "env_ok e" and "unat tag < 0xD0" and "0 < f"
    and "\<And>start. dec_scalar e tag start (s\<lparr>de_offset := Suc (de_offset s)\<rparr>) = Ok r"
  shows "dec_value e f d s = Ok (record_if e r)"
proof -
  obtain g where "f = Suc g" using assms(4) by (cases f) auto
  with assms tag_holds [OF assms(1,2)] not_container [OF assms(3)] show ?thesis by simp
qed

lemma back_reference_holds:
  assumes "env_ok e" and "unpack_get (de_table s) i = Some u" and "de_spent s + de_cost e \<le> de_budget e"
  shows "flagged False (dec_back_reference e i s) = Ok ((u, False), s\<lparr>de_spent := de_spent s + de_cost e\<rparr>)"
  using assms by (simp add: flagged_def dec_back_reference_def charge_fits)

lemma dispatch_pointer_len:
  assumes "k \<in> {1, 2, 3, 4 :: nat}"
  shows "dec_scalar e (POINTER_LEN_BASE + word_of_nat k) start s =
     rbind (dec_le_len e k start s) (\<lambda>(i, s'). flagged False (dec_back_reference e i s'))"
  by (rule four_cases [OF assms]) (simp_all add: dec_scalar_def)

lemma pointer_dispatch:
  assumes h: "holds e (de_offset s) body" and env: "env_ok e" and p: "pointer_bytes i = Some (tag # body)"
    and u: "unpack_get (de_table s) i = Some u" and c: "de_spent s + de_cost e \<le> de_budget e"
  shows "tag \<noteq> TAG_TERMINATOR \<and> unat tag < 0xD0 \<and> dec_scalar e tag start s =
    Ok ((u, False), s\<lparr>de_offset := de_offset s + length body, de_spent := de_spent s + de_cost e\<rparr>)"
proof (cases "i \<le> POINTER_INLINE_MAX_INDEX")
  case True
  with p have t: "tag = POINTER_INLINE_BASE + word_of_nat i" "body = []" by (auto simp: pointer_bytes_def)
  from True have a: "unat tag = 0xA0 + i" by (simp add: t unat_tag_add)
  with True have "tag \<noteq> TAG_TERMINATOR" "unat tag < 0xD0" by (auto simp: word_unat_eq_iff)
  with dispatch_pointer [OF True a] back_reference_holds [OF env u c] t(2) show ?thesis by simp
next
  case False
  have "\<exists>k. (k = 1 \<or> k = 2) \<and> i < 256 ^ k \<and> tag = POINTER_LEN_BASE + word_of_nat k \<and> body = le_bytes k i"
  proof (cases "i \<le> 0xFF")
    case True
    with False p show ?thesis by (intro exI [of _ 1]) (auto simp: pointer_bytes_def)
  next
    case two: False
    with False p show ?thesis
      by (intro exI [of _ 2]) (auto simp: pointer_bytes_def split: if_splits)
  qed
  then obtain k where k: "k = 1 \<or> k = 2" "i < 256 ^ k" "tag = POINTER_LEN_BASE + word_of_nat k"
    "body = le_bytes k i" by blast
  have m: "k \<in> {1, 2, 3, 4}" using k(1) by auto
  have "i \<le> usize_max" using k(1,2) by (auto simp: usize_max_def)
  with h k env have "dec_le_len e k start s = Ok (i, s\<lparr>de_offset := de_offset s + k\<rparr>)"
    by (intro le_len_holds) auto
  with back_reference_holds [of e "s\<lparr>de_offset := de_offset s + k\<rparr>" i u] env u c k(1,3,4)
    dispatch_pointer_len [OF m, of e start s] show ?thesis
    by auto
qed

lemma pointer_holds:
  assumes h: "holds e (de_offset s) p" and env: "env_ok e" and p: "pointer_bytes i = Some p"
    and u: "unpack_get (de_table s) i = Some u" and c: "de_spent s + de_cost e \<le> de_budget e" and f: "0 < f"
  shows "p \<noteq> [] \<and> hd p \<noteq> TAG_TERMINATOR \<and> dec_value e f d s =
    Ok (u, s\<lparr>de_offset := de_offset s + length p, de_spent := de_spent s + de_cost e\<rparr>)"
proof -
  from p obtain tag body where t: "p = tag # body" by (auto simp: pointer_bytes_def split: if_splits)
  let ?s = "s\<lparr>de_offset := Suc (de_offset s)\<rparr>"
  from tag_holds [OF h [unfolded t] env] have "holds e (de_offset ?s) body" by simp
  from pointer_dispatch [OF this env p [unfolded t], of u] u c
  have d: "tag \<noteq> TAG_TERMINATOR" "unat tag < 0xD0"
    "\<And>start. dec_scalar e tag start ?s =
      Ok ((u, False), ?s\<lparr>de_offset := de_offset ?s + length body, de_spent := de_spent ?s + de_cost e\<rparr>)"
    by auto
  from dec_value_scalar [OF h [unfolded t] env d(2) f d(3)] d(1) show ?thesis
    by (simp add: t record_if_def)
qed

lemma mirrors_scalar:
  assumes "is_scalar v" and "wf_value v"
  shows "mirrors e v"
  unfolding mirrors_def
proof (intro allI impI)
  fix d T out T' s f
  assume enc: "enc_value d T v = Ok (out, T')" and rdy: "ready e T (leaves v) (decode_cost (de_cost e) v) s"
    and h: "holds e (de_offset s) out" and f: "2 * length out + 1 \<le> f"
  have lv: "leaves v = 1" and cost: "decode_cost (de_cost e) v = de_cost e + own_cost v"
    using assms(1) by (cases v; simp)+
  from rdy have env: "env_ok e" and sync: "in_sync (de_digest e) T (de_table s)"
    and spent: "de_spent s + de_cost e + own_cost v \<le> de_budget e" "length (indices T) < 65536"
    by (auto simp: ready_def lv cost)
  from enc assms(1) obtain bs where bs: "scalar_bytes v = Ok bs" and out: "(out, T') = intern v (bs, T)"
    by (auto simp: enc_value_scalar rbind_Ok_iff)
  show "out \<noteq> [] \<and> hd out \<noteq> TAG_TERMINATOR \<and>
     (\<exists>s'. dec_value e f d s = Ok (canon v, s')
           \<and> arrived e T T' (length out) (leaves v) (decode_cost (de_cost e) v) s s')"
  proof (cases "pack_lookup T bs")
    case None
    with out have o: "out = bs" and T': "T' = (if is_interned v then pack_record T bs else T)"
      by (auto simp: intern_def split: if_splits)
    from h o env have ok: "scalar_ok v bs"
      using assms bs by (auto simp: scalar_ok_def holds_def env_ok_def)
    from reads_scalar [OF ok env] obtain tag body where tag: "bs = tag # body" "tag \<noteq> TAG_TERMINATOR"
      "unat tag < 0xD0" and rd: "reads e v (tag # body)" by (auto simp: reads_def)
    let ?s = "s\<lparr>de_offset := Suc (de_offset s)\<rparr>"
    from tag_holds [of e s tag body] h o tag env have "holds e (de_offset ?s) body" by simp
    from readsD [OF rd this] spent
    have "dec_scalar e tag start ?s = Ok ((canon v, is_interned v), after (length body) v ?s)" for start
      by simp
    from dec_value_scalar [OF h [unfolded o tag(1)] env tag(3) _ this] f
    have dv: "dec_value e f d s = Ok (record_if e ((canon v, is_interned v), after (length body) v ?s))"
      by simp
    moreover have "arrived e T T' (length out) (leaves v) (decode_cost (de_cost e) v) s
        (snd (record_if e ((canon v, is_interned v), after (length body) v ?s)))"
      using sync in_sync_record [OF sync _ None ok] rdy
      by (auto simp: arrived_def record_if_def after_def T' o tag(1) lv cost ready_def pack_record_def Let_def)
    ultimately show ?thesis using o tag by (auto simp: record_if_def)
  next
    case (Some i)
    from in_sync_lookup [OF sync Some] obtain u where i: "i < length (indices T)"
      and u: "unpack_get (de_table s) i = Some u" "scalar_ok u bs" "canon u = u" "is_interned u" by auto
    from i spent have "pointer_bytes i \<noteq> None" by (simp add: pointer_bytes_def)
    then obtain p where p: "pointer_bytes i = Some p" by auto
    with Some out have o: "out = p" "T' = T" by (auto simp: intern_def)
    have "scalar_ok v bs" using assms bs u(2) by (simp add: scalar_ok_def)
    from scalar_bytes_inj [OF this u(2)] u(3) have "u = canon v" by simp
    with pointer_holds [OF h [unfolded o] env p u(1), of f d] spent f o sync show ?thesis
      by (auto simp: arrived_def lv cost)
  qed
qed

text \<open>The loops over the children, with a count or up to a terminator.\<close>

definition trailer :: "nat option \<Rightarrow> nat \<Rightarrow> bytes \<Rightarrow> bool" where
  "trailer c n t \<longleftrightarrow> c = Some n \<and> t = [] \<or> c = None \<and> t = [TAG_TERMINATOR]"

lemma terminator_holds:
  "holds e (de_offset s) [TAG_TERMINATOR] \<Longrightarrow> dec_peek e s = Ok TAG_TERMINATOR"
  by (auto simp: dec_peek_Ok dest: holds_nth)

lemma peek_holds: "holds e (de_offset s) bs \<Longrightarrow> bs \<noteq> [] \<Longrightarrow> dec_peek e s = Ok (hd bs)"
  using holds_Cons [of e "de_offset s" "hd bs" "tl bs"]
  by (auto simp: dec_peek_Ok dest: holds_nth)

lemma charge_ready:
  assumes "ready e T n (k + c) s"
  shows "\<exists>s1. dec_charge e k s = Ok s1 \<and> ready e T n c s1 \<and> de_offset s1 = de_offset s
     \<and> arrived e T T 0 0 k s s1"
  using assms charge_fits [of e s k] by (auto simp: ready_def arrived_def)

lemma items_mirror:
  assumes "\<And>v. v \<in> set vs \<Longrightarrow> mirrors e v"
    and "enc_items d T vs = Ok (body, T')" and "ready e T (leaves (Array vs)) (decode_cost (de_cost e) (Array vs)) s"
    and "holds e (de_offset s) (body @ t)" and "2 * length body + 2 \<le> f" and "trailer c (length vs) t"
  shows "\<exists>s'. dec_items e f d c s = Ok (map canon vs, s')
     \<and> arrived e T T' (length body + length t) (leaves (Array vs)) (decode_cost (de_cost e) (Array vs)) s s'"
  using assms
proof (induction vs arbitrary: T body s f c)
  case Nil
  then obtain g where "f = Suc g" by (cases f) auto
  with Nil terminator_holds [of e s] show ?case
    by (auto simp: trailer_def arrived_def ready_def)
next
  case (Cons v vs)
  let ?c = "de_cost e"
  from Cons.prems(2) obtain b T1 bs where ev: "enc_value d T v = Ok (b, T1)"
    and es: "enc_items d T1 vs = Ok (bs, T')" and body: "body = b @ bs"
    by (auto simp: rbind_Ok_iff)
  from Cons.prems(5) obtain g where g: "f = Suc g" by (cases f) auto
  have "ready e T (leaves v + leaves (Array vs)) (?c + (decode_cost ?c v + decode_cost ?c (Array vs))) s"
    using Cons.prems(3) by (simp add: add.assoc)
  from charge_ready [OF this] obtain s1 where ch: "dec_charge e ?c s = Ok s1"
    and r1: "ready e T (leaves v + leaves (Array vs)) (decode_cost ?c v + decode_cost ?c (Array vs)) s1"
    and o1: "de_offset s1 = de_offset s" and a1: "arrived e T T 0 0 ?c s s1" by blast
  from Cons.prems(4) o1 have h: "holds e (de_offset s1) b" "holds e (de_offset s1 + length b) (bs @ t)"
    by (auto simp: body holds_append add.assoc)
  have "mirrors e v" using Cons.prems(1) by simp
  moreover have "ready e T (leaves v) (decode_cost ?c v) s1" by (rule ready_mono [OF r1]) auto
  moreover have "2 * length b + 1 \<le> g" using Cons.prems(5) by (simp add: body g)
  ultimately have nz: "b \<noteq> []" "hd b \<noteq> TAG_TERMINATOR" and "\<exists>s2. dec_value e g d s1 = Ok (canon v, s2)
      \<and> arrived e T T1 (length b) (leaves v) (decode_cost ?c v) s1 s2"
    using ev h(1) unfolding mirrors_def by blast+
  then obtain s2 where v: "dec_value e g d s1 = Ok (canon v, s2)"
    and a2: "arrived e T T1 (length b) (leaves v) (decode_cost ?c v) s1 s2" by blast
  obtain c' where c': "trailer c' (length vs) t" "c = Some (Suc (length vs)) \<and> c' = Some (length vs) \<or> c = None \<and> c' = None"
    using Cons.prems(6) by (auto simp: trailer_def)
  have "holds e (de_offset s2) (bs @ t)" using a2 h(2) by (simp add: arrived_def)
  moreover have "2 * length bs + 2 \<le> g" using Cons.prems(5) nz(1) by (cases b) (auto simp: body g)
  ultimately obtain s3 where it: "dec_items e g d c' s2 = Ok (map canon vs, s3)"
    and a3: "arrived e T1 T' (length bs + length t) (leaves (Array vs)) (decode_cost ?c (Array vs)) s2 s3"
    using Cons.IH [OF _ es ready_arrived [OF r1 a2] _ _ c'(1)] Cons.prems(1) by auto
  have "dec_items e f d c s = Ok (map canon (v # vs), s3)"
    using c'(2) ch v it nz peek_holds [of e s b] h(1) o1 by (auto simp: g)
  with arrived_trans [OF a1 arrived_trans [OF a2 a3]] show ?case
    by (auto simp: body add.assoc)
qed

lemma entries_mirror:
  assumes "\<And>k v. (k, v) \<in> set es \<Longrightarrow> mirrors e k \<and> mirrors e v"
    and "enc_entries d T es = Ok (body, T')" and "ready e T (leaves (Dict es)) (decode_cost (de_cost e) (Dict es)) s"
    and "holds e (de_offset s) (body @ t)" and "2 * length body + 2 \<le> f" and "trailer c (length es) t"
  shows "\<exists>s'. dec_entries e f d c s = Ok (map (\<lambda>(k, v). (canon k, canon v)) es, s')
     \<and> arrived e T T' (length body + length t) (leaves (Dict es)) (decode_cost (de_cost e) (Dict es)) s s'"
  using assms
proof (induction es arbitrary: T body s f c)
  case Nil
  then obtain g where "f = Suc g" by (cases f) auto
  with Nil terminator_holds [of e s] show ?case
    by (auto simp: trailer_def arrived_def ready_def)
next
  case (Cons p es)
  obtain k v where p: "p = (k, v)" by (cases p)
  let ?c = "de_cost e"
  let ?D = "decode_cost ?c (Dict es)"
  from Cons.prems(2) obtain kb T1 vb T2 bs where ek: "enc_value d T k = Ok (kb, T1)"
    and ev: "enc_value d T1 v = Ok (vb, T2)" and es: "enc_entries d T2 es = Ok (bs, T')"
    and body: "body = kb @ vb @ bs"
    by (auto simp: rbind_Ok_iff p)
  from Cons.prems(5) obtain g where g: "f = Suc g" by (cases f) auto
  have "ready e T (leaves k + (leaves v + leaves (Dict es))) (2 * ?c + (decode_cost ?c k + (decode_cost ?c v + ?D))) s"
    using Cons.prems(3) by (simp add: p add.assoc)
  from charge_ready [OF this] obtain s1 where ch: "dec_charge e (2 * ?c) s = Ok s1"
    and r1: "ready e T (leaves k + (leaves v + leaves (Dict es))) (decode_cost ?c k + (decode_cost ?c v + ?D)) s1"
    and o1: "de_offset s1 = de_offset s" and a1: "arrived e T T 0 0 (2 * ?c) s s1" by blast
  from Cons.prems(4) o1 have h: "holds e (de_offset s1) kb" "holds e (de_offset s1 + length kb) vb"
    "holds e (de_offset s1 + length kb + length vb) (bs @ t)"
    by (auto simp: body holds_append add.assoc)
  have "mirrors e k" and mv: "mirrors e v" using Cons.prems(1) by (auto simp: p)
  moreover have "ready e T (leaves k) (decode_cost ?c k) s1" by (rule ready_mono [OF r1]) auto
  moreover have "2 * length kb + 1 \<le> g" using Cons.prems(5) by (simp add: body g)
  ultimately have nz: "kb \<noteq> []" "hd kb \<noteq> TAG_TERMINATOR" and "\<exists>s2. dec_value e g d s1 = Ok (canon k, s2)
      \<and> arrived e T T1 (length kb) (leaves k) (decode_cost ?c k) s1 s2"
    using ek h(1) unfolding mirrors_def by blast+
  then obtain s2 where k: "dec_value e g d s1 = Ok (canon k, s2)"
    and a2: "arrived e T T1 (length kb) (leaves k) (decode_cost ?c k) s1 s2" by blast
  note r2 = ready_arrived [OF r1 a2]
  have "holds e (de_offset s2) vb" using a2 h(2) by (simp add: arrived_def)
  moreover have "ready e T1 (leaves v) (decode_cost ?c v) s2" by (rule ready_mono [OF r2]) auto
  moreover have "2 * length vb + 1 \<le> g" using Cons.prems(5) by (simp add: body g)
  ultimately obtain s3 where v: "dec_value e g d s2 = Ok (canon v, s3)"
    and a3: "arrived e T1 T2 (length vb) (leaves v) (decode_cost ?c v) s2 s3"
    using ev mv unfolding mirrors_def by blast
  obtain c' where c': "trailer c' (length es) t" "c = Some (Suc (length es)) \<and> c' = Some (length es) \<or> c = None \<and> c' = None"
    using Cons.prems(6) by (auto simp: trailer_def)
  have "holds e (de_offset s3) (bs @ t)" using a2 a3 h(3) by (simp add: arrived_def)
  moreover have "2 * length bs + 2 \<le> g" using Cons.prems(5) nz(1) by (cases kb) (auto simp: body g)
  moreover have "mirrors e k \<and> mirrors e v" if "(k, v) \<in> set es" for k v
    using that by (intro Cons.prems(1)) simp
  ultimately obtain s4 where it: "dec_entries e g d c' s3 = Ok (map (\<lambda>(k, v). (canon k, canon v)) es, s4)"
    and a4: "arrived e T2 T' (length bs + length t) (leaves (Dict es)) ?D s3 s4"
    using Cons.IH [OF _ es ready_arrived [OF r2 a3] _ _ c'(1)] by blast
  have "dec_entries e f d c s = Ok (map (\<lambda>(k, v). (canon k, canon v)) (p # es), s4)"
    using c'(2) ch k v it nz peek_holds [of e s kb] h(1) o1 by (auto simp: g p)
  with arrived_trans [OF a1 arrived_trans [OF a2 arrived_trans [OF a3 a4]]] show ?case
    by (auto simp: body p add.assoc)
qed

text \<open>A container: its tag says whether the loop counts or looks for the terminator.\<close>

lemma container_trailer:
  "trailer (if n < CONTAINER_ENDLESS_COUNT then Some n else None) n (finish_container n)"
  by (simp add: trailer_def finish_container_def)

lemma below_16:
  "(m :: nat) \<le> 15 \<Longrightarrow> m = 0 \<or> m = 1 \<or> m = 2 \<or> m = 3 \<or> m = 4 \<or> m = 5 \<or> m = 6 \<or> m = 7 \<or> m = 8 \<or> m = 9
     \<or> m = 10 \<or> m = 11 \<or> m = 12 \<or> m = 13 \<or> m = 14 \<or> m = 15"
  by arith

lemma dict_tag:
  assumes "m \<le> 15"
  shows "(DICT_BASE + word_of_nat m) AND 0xE0 = DICT_BASE \<and> unat ((DICT_BASE + word_of_nat m) AND 0x0F) = m
    \<and> \<not> DICT_BASE + word_of_nat m \<le> ARRAY_MAX_TAG"
  using below_16 [OF assms] by (elim disjE) simp_all

lemma container_step:
  assumes h: "holds e (de_offset s) (tag # body)" and env: "env_ok e" and d: "d < MAX_DEPTH"
  shows "tag = container_tag ARRAY_BASE n \<Longrightarrow> dec_value e (Suc g) d s =
      rbind (dec_items e g (Suc d) (if n < CONTAINER_ENDLESS_COUNT then Some n else None)
        (s\<lparr>de_offset := Suc (de_offset s)\<rparr>)) (\<lambda>(items, s2). Ok (Array items, s2))"
    and "tag = container_tag DICT_BASE n \<Longrightarrow> dec_value e (Suc g) d s =
      rbind (dec_entries e g (Suc d) (if n < CONTAINER_ENDLESS_COUNT then Some n else None)
        (s\<lparr>de_offset := Suc (de_offset s)\<rparr>)) (\<lambda>(entries, s2). Ok (Dict entries, s2))"
proof -
  have m: "min n CONTAINER_ENDLESS_COUNT \<le> 15" by simp
  assume t: "tag = container_tag ARRAY_BASE n"
  then have "unat tag = 0xD0 + min n CONTAINER_ENDLESS_COUNT"
    by (simp add: container_tag_def unat_tag_add)
  with tag_holds [OF h env] d show "dec_value e (Suc g) d s =
      rbind (dec_items e g (Suc d) (if n < CONTAINER_ENDLESS_COUNT then Some n else None)
        (s\<lparr>de_offset := Suc (de_offset s)\<rparr>)) (\<lambda>(items, s2). Ok (Array items, s2))"
    by (auto simp: dec_enter_def word_le_nat_alt unat_sub_if_size word_size min_def)
next
  assume "tag = container_tag DICT_BASE n"
  with tag_holds [OF h env] d dict_tag [of "min n CONTAINER_ENDLESS_COUNT"] show "dec_value e (Suc g) d s =
      rbind (dec_entries e g (Suc d) (if n < CONTAINER_ENDLESS_COUNT then Some n else None)
        (s\<lparr>de_offset := Suc (de_offset s)\<rparr>)) (\<lambda>(entries, s2). Ok (Dict entries, s2))"
    by (auto simp: dec_enter_def container_tag_def min_def Let_def split: if_splits)
qed

lemma container_tag_high:
  "0xD0 \<le> unat (container_tag ARRAY_BASE n)" "0xD0 \<le> unat (container_tag DICT_BASE n)"
  by (simp_all add: container_tag_def unat_tag_add)

text \<open>No encoding in the table is a container's, whatever was encoded.\<close>

definition scalar_keys :: "pack_table \<Rightarrow> bool" where
  "scalar_keys T \<longleftrightarrow> (\<forall>b \<in> fst ` set (indices T). b \<noteq> [] \<and> unat (hd b) < 0xD0)"

lemma scalar_bytes_head: "scalar_bytes v = Ok bs \<Longrightarrow> bs \<noteq> [] \<and> unat (hd bs) < 0xD0"
proof (cases v)
  case (Uint n)
  moreover assume "scalar_bytes v = Ok bs"
  moreover have "n < SMALL_INT_LIMIT \<Longrightarrow> unat (ucast n + SMALL_INT_BIAS :: u8) < 0xD0"
    by (simp add: word_less_nat_alt unat_word_ariths unat_ucast_u8)
  moreover have "unat (width_tag w) < 0xD0" for w by (cases w) auto
  ultimately show ?thesis by (auto simp: scalar_bytes_def write_uint_def write_sized_def split: if_splits)
next
  case (SizedUint n w)
  moreover assume "scalar_bytes v = Ok bs"
  ultimately show ?thesis
    by (cases w) (auto simp: scalar_bytes_def write_sized_uint_def write_sized_def Let_def split: if_splits)
next
  case (String t)
  moreover assume "scalar_bytes v = Ok bs"
  ultimately show ?thesis
    by (auto simp: scalar_bytes_def write_string_def Let_def unat_tag_add split: if_splits)
next
  case (Data t)
  moreover assume "scalar_bytes v = Ok bs"
  ultimately show ?thesis
    by (auto simp: scalar_bytes_def write_data_def Let_def unat_tag_add split: if_splits)
qed (auto simp: scalar_bytes_def split: if_splits)

lemma scalar_keys_intern:
  "intern v (bs, T) = (out, T') \<Longrightarrow> scalar_keys T \<Longrightarrow> is_interned v \<longrightarrow> bs \<noteq> [] \<and> unat (hd bs) < 0xD0 \<Longrightarrow>
   scalar_keys T'"
  by (auto simp: intern_def scalar_keys_def pack_record_def Let_def split: option.splits if_splits)

lemma scalar_keys_skip:
  "intern (Array xs) (bs, T) = (out, T') \<Longrightarrow> scalar_keys T \<Longrightarrow> scalar_keys T'"
  "intern (Dict ys) (bs, T) = (out, T') \<Longrightarrow> scalar_keys T \<Longrightarrow> scalar_keys T'"
  by (auto simp: is_interned_def dest: scalar_keys_intern)

lemma scalar_keys_enc:
  shows "enc_value d T v = Ok (out, T') \<Longrightarrow> scalar_keys T \<Longrightarrow> scalar_keys T'"
    and "enc_items d T vs = Ok (out, T') \<Longrightarrow> scalar_keys T \<Longrightarrow> scalar_keys T'"
    and "enc_entries d T es = Ok (out, T') \<Longrightarrow> scalar_keys T \<Longrightarrow> scalar_keys T'"
proof (induction d T v and d T vs and d T es arbitrary: out T' and out T' and out T'
    rule: enc_value_enc_items_enc_entries.induct)
  case (1 depth t v)
  show ?case
  proof (cases "is_scalar v")
    case True
    with "1.prems" show ?thesis
      by (auto simp: enc_value_scalar rbind_Ok_iff) (metis scalar_bytes_head scalar_keys_intern)
  next
    case False
    then obtain vs es where "v = Array vs \<or> v = Dict es" by (cases v) auto
    with "1.prems" "1.IH" show ?thesis
      by (elim disjE) (auto simp: enc_value_Array enc_value_Dict rbind_Ok_iff intro: scalar_keys_skip)
  qed
next
  case (3 depth t v vs)
  then show ?case by (auto simp: rbind_Ok_iff)
next
  case (5 depth t k v es)
  then show ?case by (auto simp: rbind_Ok_iff)
qed auto

lemma scalar_keys_container:
  "scalar_keys T \<Longrightarrow> 0xD0 \<le> unat tag \<Longrightarrow> pack_lookup T (tag # body) = None"
  by (force simp: scalar_keys_def pack_lookup_def map_of_eq_None_iff)

lemma in_sync_keys: "in_sync D T U \<Longrightarrow> scalar_keys T"
  using scalar_bytes_head
  by (auto simp: in_sync_def scalar_keys_def scalar_ok_def list_all2_conv_all_nth in_set_conv_nth) force+

text \<open>What the two container cases share once the loop has run.\<close>

lemma container_out:
  assumes "scalar_keys T" and "0xD0 \<le> unat tag" and "\<not> is_interned v"
    and "(out, T') = intern v (tag # body, T)"
  shows "out = tag # body \<and> T' = T \<and> out \<noteq> [] \<and> hd out \<noteq> TAG_TERMINATOR"
  using scalar_keys_container [OF assms(1,2), of body] assms by (auto simp: intern_def)

lemma ready_tag: "ready e T n c s \<Longrightarrow> ready e T n c (s\<lparr>de_offset := k\<rparr>)"
  by (simp add: ready_def)

lemma mirrors_Array:
  assumes "\<And>v. v \<in> set vs \<Longrightarrow> mirrors e v"
  shows "mirrors e (Array vs)"
  unfolding mirrors_def
proof (intro allI impI)
  fix d T out T' f and s :: dec
  let ?n = "length vs" and ?tag = "container_tag ARRAY_BASE (length vs)" and ?v = "Array vs"
  let ?s = "s\<lparr>de_offset := Suc (de_offset s)\<rparr>" and ?t = "finish_container (length vs)"
  assume enc: "enc_value d T ?v = Ok (out, T')" and rdy: "ready e T (leaves ?v) (decode_cost (de_cost e) ?v) s"
    and h: "holds e (de_offset s) out" and f: "2 * length out + 1 \<le> f"
  from enc obtain body T1 where d: "d < MAX_DEPTH" and it: "enc_items (Suc d) T vs = Ok (body, T1)"
    and out: "(out, T') = intern ?v (?tag # body @ ?t, T1)"
    by (auto simp: enc_value_Array rbind_Ok_iff enter_container_def split: if_splits)
  from rdy have env: "env_ok e" and "scalar_keys T" by (auto simp: ready_def intro: in_sync_keys)
  from container_out [OF scalar_keys_enc(2) [OF it this(2)] container_tag_high(1) _ out]
  have o: "out = ?tag # body @ ?t" "T' = T1" "out \<noteq> []" "hd out \<noteq> TAG_TERMINATOR"
    by (auto simp: is_interned_def)
  from f obtain g where g: "f = Suc g" "2 * length body + 2 \<le> g" by (cases f) (auto simp: o)
  have h': "holds e (de_offset ?s) (body @ ?t)"
    using tag_holds [of e s ?tag "body @ ?t"] h env by (simp add: o)
  obtain s' where "dec_items e g (Suc d) (if ?n < CONTAINER_ENDLESS_COUNT then Some ?n else None) ?s
      = Ok (map canon vs, s')"
    and "arrived e T T1 (length body + length ?t) (leaves ?v) (decode_cost (de_cost e) ?v) ?s s'"
    using items_mirror [OF assms it ready_tag [OF rdy] h' g(2) container_trailer] by blast
  with container_step(1) [OF h [unfolded o(1)] env d refl, of g] o show "out \<noteq> [] \<and> hd out \<noteq> TAG_TERMINATOR \<and>
     (\<exists>s'. dec_value e f d s = Ok (canon ?v, s')
           \<and> arrived e T T' (length out) (leaves ?v) (decode_cost (de_cost e) ?v) s s')"
    by (auto simp: g arrived_def)
qed

lemma mirrors_Dict:
  assumes "\<And>k v. (k, v) \<in> set es \<Longrightarrow> mirrors e k \<and> mirrors e v"
  shows "mirrors e (Dict es)"
  unfolding mirrors_def
proof (intro allI impI)
  fix d T out T' f and s :: dec
  let ?n = "length es" and ?tag = "container_tag DICT_BASE (length es)" and ?v = "Dict es"
  let ?s = "s\<lparr>de_offset := Suc (de_offset s)\<rparr>" and ?t = "finish_container (length es)"
  assume enc: "enc_value d T ?v = Ok (out, T')" and rdy: "ready e T (leaves ?v) (decode_cost (de_cost e) ?v) s"
    and h: "holds e (de_offset s) out" and f: "2 * length out + 1 \<le> f"
  from enc obtain body T1 where d: "d < MAX_DEPTH" and it: "enc_entries (Suc d) T es = Ok (body, T1)"
    and out: "(out, T') = intern ?v (?tag # body @ ?t, T1)"
    by (auto simp: enc_value_Dict rbind_Ok_iff enter_container_def split: if_splits)
  from rdy have env: "env_ok e" and "scalar_keys T" by (auto simp: ready_def intro: in_sync_keys)
  from container_out [OF scalar_keys_enc(3) [OF it this(2)] container_tag_high(2) _ out]
  have o: "out = ?tag # body @ ?t" "T' = T1" "out \<noteq> []" "hd out \<noteq> TAG_TERMINATOR"
    by (auto simp: is_interned_def)
  from f obtain g where g: "f = Suc g" "2 * length body + 2 \<le> g" by (cases f) (auto simp: o)
  have h': "holds e (de_offset ?s) (body @ ?t)"
    using tag_holds [of e s ?tag "body @ ?t"] h env by (simp add: o)
  obtain s' where "dec_entries e g (Suc d) (if ?n < CONTAINER_ENDLESS_COUNT then Some ?n else None) ?s
      = Ok (map (\<lambda>(k, v). (canon k, canon v)) es, s')"
    and "arrived e T T1 (length body + length ?t) (leaves ?v) (decode_cost (de_cost e) ?v) ?s s'"
    using entries_mirror [OF assms it ready_tag [OF rdy] h' g(2) container_trailer] by blast
  with container_step(2) [OF h [unfolded o(1)] env d refl, of g] o show "out \<noteq> [] \<and> hd out \<noteq> TAG_TERMINATOR \<and>
     (\<exists>s'. dec_value e f d s = Ok (canon ?v, s')
           \<and> arrived e T T' (length out) (leaves ?v) (decode_cost (de_cost e) ?v) s s')"
    by (auto simp: g arrived_def)
qed

lemma mirrors_value: "wf_value v \<Longrightarrow> mirrors e v"
proof (induction v)
  case (Array vs)
  then show ?case by (intro mirrors_Array) auto
next
  case (Dict es)
  have "mirrors e k \<and> mirrors e v" if "(k, v) \<in> set es" for k v
    using Dict.IH [OF that] Dict.prems that by auto
  then show ?case by (rule mirrors_Dict)
qed (rule mirrors_scalar; simp)+

section \<open>The round trip\<close>

lemma roundtrip_prefix:
  assumes "pack v = Ok bs" and "wf_value v" and "zero_sep D" and "leaves v \<le> 65536"
    and "decode_cost cost v \<le> bud" and "bud \<le> usize_max" and "length (bs @ rest) \<le> usize_max"
  shows "unpack_with_budget D cost (bs @ rest) bud = Ok (canon v, length bs)"
proof -
  let ?e = "\<lparr>de_input = bs @ rest, de_budget = bud, de_cost = cost, de_digest = D\<rparr>"
  from assms(1) obtain T where enc: "enc_value 0 pack_table_new v = Ok (bs, T)"
    by (auto simp: pack_def rbind_Ok_iff)
  have "ready ?e pack_table_new (leaves v) (decode_cost (de_cost ?e) v) dec_new"
    using assms in_sync_new by (simp add: ready_def env_ok_def dec_new_def pack_table_new_def)
  moreover have "holds ?e (de_offset dec_new) bs" by (simp add: holds_def dec_new_def)
  moreover have "2 * length bs + 1 \<le> 2 * length (bs @ rest) + 1" by simp
  ultimately obtain s' where "dec_value ?e (2 * length (bs @ rest) + 1) 0 dec_new = Ok (canon v, s')"
    and "arrived ?e pack_table_new T (length bs) (leaves v) (decode_cost (de_cost ?e) v) dec_new s'"
    using mirrors_value [OF assms(2), of ?e] enc unfolding mirrors_def by blast
  then show ?thesis by (simp add: unpack_with_budget_def arrived_def dec_new_def)
qed

lemma intern_canon: "is_interned w = is_interned v \<Longrightarrow> intern w = intern v"
  by (rule ext) (simp add: intern_def split: prod.split)

lemma enc_canon_scalar: "is_scalar v \<Longrightarrow> enc_value d t (canon v) = enc_value d t v"
  by (simp add: enc_value_scalar canon_scalar scalar_bytes_canon intern_canon [OF is_interned_canon])

lemma enc_canon:
  "(\<forall>d t. enc_value d t (canon v) = enc_value d t v)"
proof (induction v)
  case (Array vs)
  then have "enc_items d t (map canon vs) = enc_items d t vs" for d t
    by (induction vs arbitrary: t) auto
  then show ?case by (simp add: enc_value_Array intern_canon [of "Array (map canon vs)" "Array vs"] is_interned_def)
next
  case (Dict es)
  then have "enc_entries d t (map (\<lambda>(k, v). (canon k, canon v)) es) = enc_entries d t es" for d t
  proof (induction es arbitrary: t)
    case (Cons p es)
    then show ?case by (cases p) fastforce
  qed simp
  then show ?case
    by (simp add: enc_value_Dict is_interned_def
        intern_canon [of "Dict (map (\<lambda>(k, v). (canon k, canon v)) es)" "Dict es"])
qed (intro allI enc_canon_scalar; simp)+

section \<open>Which values can be written\<close>

fun writable :: "opack_value \<Rightarrow> bool" where
  "writable (AbsoluteTime _) = False"
| "writable (SizedUint n w) = (unat n < 256 ^ byte_count w)"
| "writable (String s) = (length s \<le> 0xFFFFFFFF)"
| "writable (Array xs) = (\<forall>x \<in> set xs. writable x)"
| "writable (Dict es) = (\<forall>(k, v) \<in> set es. writable k \<and> writable v)"
| "writable _ = True"

lemma scalar_writable: "is_scalar v \<Longrightarrow> (\<exists>bs. scalar_bytes v = Ok bs) \<longleftrightarrow> writable v"
proof (cases v)
  case (SizedUint n w)
  then show ?thesis using unat_u64_bound [of n]
    by (cases w) (auto simp: scalar_bytes_def write_sized_uint_def Let_def)
qed (auto simp: scalar_bytes_def write_string_def Let_def)

definition packs :: "nat \<Rightarrow> opack_value \<Rightarrow> bool" where
  "packs d v \<longleftrightarrow> writable v \<and> d + value_depth v \<le> MAX_DEPTH"

lemma enc_items_succeeds:
  assumes "\<And>v t. v \<in> set vs \<Longrightarrow> succeeds (enc_value d t v) \<longleftrightarrow> packs d v"
  shows "succeeds (enc_items d t vs) \<longleftrightarrow> (\<forall>v \<in> set vs. packs d v)"
  using assms
proof (induction vs arbitrary: t)
  case (Cons v vs)
  have v: "succeeds (enc_value d t v) \<longleftrightarrow> packs d v" by (rule Cons.prems) simp
  have vs: "succeeds (enc_items d t' vs) \<longleftrightarrow> (\<forall>v \<in> set vs. packs d v)" for t'
    by (intro Cons.IH Cons.prems) simp
  from v show ?case
    by (cases "enc_value d t v") (auto simp: succeeds_last vs)
qed simp

lemma enc_entries_succeeds:
  assumes "\<And>k v t. (k, v) \<in> set es \<Longrightarrow> (succeeds (enc_value d t k) \<longleftrightarrow> packs d k)
             \<and> (succeeds (enc_value d t v) \<longleftrightarrow> packs d v)"
  shows "succeeds (enc_entries d t es) \<longleftrightarrow> (\<forall>(k, v) \<in> set es. packs d k \<and> packs d v)"
  using assms
proof (induction es arbitrary: t)
  case (Cons p es)
  obtain k v where p: "p = (k, v)" by (cases p)
  have k: "succeeds (enc_value d t' k) \<longleftrightarrow> packs d k" and v: "succeeds (enc_value d t' v) \<longleftrightarrow> packs d v" for t'
    using Cons.prems [of k v t'] by (simp_all add: p)
  have es: "succeeds (enc_entries d t' es) \<longleftrightarrow> (\<forall>(k, v) \<in> set es. packs d k \<and> packs d v)" for t'
    by (intro Cons.IH Cons.prems) simp
  show ?case
  proof (cases "enc_value d t k")
    case (Inr r)
    obtain b t1 where r: "r = (b, t1)" by (cases r)
    show ?thesis
      using k [of t] v [of t1] by (cases "enc_value d t1 v") (auto simp: Inr r p succeeds_last es)
  qed (use k [of t] in \<open>simp add: p\<close>)
qed simp

lemma packs_Array: "d < MAX_DEPTH \<Longrightarrow> packs d (Array vs) \<longleftrightarrow> (\<forall>v \<in> set vs. packs (Suc d) v)"
  using value_depth_Array_le [of vs "MAX_DEPTH - Suc d"] by (auto simp: packs_def Suc_le_eq)

lemma packs_Dict: "d < MAX_DEPTH \<Longrightarrow> packs d (Dict es) \<longleftrightarrow> (\<forall>(k, v) \<in> set es. packs (Suc d) k \<and> packs (Suc d) v)"
  using value_depth_Dict_le [of es "MAX_DEPTH - Suc d"] by (auto simp: packs_def Suc_le_eq)

lemma enc_scalar_succeeds:
  assumes "is_scalar v" and "d \<le> MAX_DEPTH"
  shows "succeeds (enc_value d t v) \<longleftrightarrow> packs d v"
  using scalar_writable [OF assms(1)] scalar_measures [OF assms(1)] assms
  by (simp add: enc_value_scalar succeeds_last packs_def succeeds_iff [of "scalar_bytes v"])

lemma enc_value_succeeds:
  "d \<le> MAX_DEPTH \<Longrightarrow> succeeds (enc_value d t v) \<longleftrightarrow> packs d v"
proof (induction v arbitrary: d t)
  case (Array vs)
  show ?case
  proof (cases "d < MAX_DEPTH")
    case True
    then have "succeeds (enc_items (Suc d) t vs) \<longleftrightarrow> (\<forall>v \<in> set vs. packs (Suc d) v)"
      using Array.IH by (intro enc_items_succeeds) simp
    with True show ?thesis
      by (auto simp add: enc_value_Array enter_container_def packs_Array succeeds_last)
  qed (use Array.prems in \<open>simp add: enc_value_Array enter_container_def packs_def\<close>)
next
  case (Dict es)
  show ?case
  proof (cases "d < MAX_DEPTH")
    case True
    have "succeeds (enc_value (Suc d) t k) = packs (Suc d) k \<and> succeeds (enc_value (Suc d) t v) = packs (Suc d) v"
      if "(k, v) \<in> set es" for k v t
      using Dict.IH [OF that] True by (simp add: Suc_le_eq)
    then have "succeeds (enc_entries (Suc d) t es) \<longleftrightarrow> (\<forall>(k, v) \<in> set es. packs (Suc d) k \<and> packs (Suc d) v)"
      by (rule enc_entries_succeeds)
    with True show ?thesis
      by (auto simp add: enc_value_Dict enter_container_def packs_Dict succeeds_last)
  qed (use Dict.prems in \<open>simp add: enc_value_Dict enter_container_def packs_def\<close>)
qed (rule enc_scalar_succeeds; simp)+

section \<open>Properties\<close>

text \<open>
  A message for the examples: a dictionary with a nested array that repeats two of its keys and
  values, so that back-references are exercised; and a hash that separates the zeros.
\<close>

definition bits_digest :: "opack_value \<Rightarrow> u64" where
  "bits_digest v = (case v of Float n \<Rightarrow> n | Float32 n \<Rightarrow> ucast n | _ \<Rightarrow> 0)"

definition sample_message :: opack_value where
  "sample_message = Dict
     [(String (lit ''_i''), String (lit ''_sys'')), (String (lit ''_x''), Uint 12356),
      (Uint 7, Array [Null, Uint 12356, String (lit ''_i''), Data [1, 2, 3], Bool True])]"

definition sample_bytes :: bytes where
  "sample_bytes = [227, 66, 95, 105, 68, 95, 115, 121, 115, 66, 95, 120, 0x31, 68, 48, 15, 213, 4,
     163, 160, 115, 1, 2, 3, 1]"

lemmas opack_eval = pack_def enc_value_Dict enc_value_Array enc_value_scalar enter_container_def
  MAX_DEPTH_def scalar_bytes_def write_string_def lit_def intern_def pack_table_new_def
  pack_lookup_def pack_record_def is_interned_def Let_def write_uint_def write_sized_def
  narrowest_for_def container_tag_def finish_container_def write_data_def pointer_bytes_def

lemma sample_packs: "pack sample_message = Ok sample_bytes"
  by (simp add: opack_eval sample_message_def sample_bytes_def le_bytes_numeral)

text \<open>
  C1: what \<open>pack\<close> writes, \<open>unpack\<close> reads back. Whatever the value (containers of any
  size, repeated leaves replaced by back-references on both sides), decoding its encoding, followed by
  any further bytes, consumes exactly the encoding and yields the value in canonical form. The
  hypotheses are the ones the code needs: strings are UTF-8 and UUIDs sixteen bytes (their Rust types
  say so), no more leaves than a two-byte back-reference can index, a budget that covers the value,
  and a hash that separates the two floating-point zeros.
\<close>

theorem opack_roundtrip:
  assumes "pack v = Ok bs" and "wf_value v" and "zero_sep D" and "leaves v \<le> 65536"
    and "decode_cost cost v \<le> bud" and "bud \<le> usize_max" and "length (bs @ rest) \<le> usize_max"
  shows "unpack_with_budget D cost (bs @ rest) bud = Ok (canon v, length bs)"
  by (rule roundtrip_prefix [OF assms])

theorem opack_roundtrip_witness:
  "unpack_with_budget bits_digest 32 (sample_bytes @ [9, 9]) 65536 = Ok (canon sample_message, length sample_bytes)"
  by (rule opack_roundtrip [OF sample_packs])
    (simp_all add: sample_message_def sample_bytes_def lit_def zero_sep_def bits_digest_def usize_max_def)

text \<open>
  The canonical form is a fixed point of the codec: encoding what a decode returns gives the same
  bytes again, so a value that is decoded and re-encoded is unchanged on the wire.
\<close>

theorem opack_repack: "pack (canon v) = pack v"
  by (simp add: pack_def enc_canon)

text \<open>
  \<open>pack\<close> succeeds on exactly the values that have an encoding: no absolute time, every sized
  integer within its width, every string at most \<open>2^32 - 1\<close> bytes, and nesting within the limit.
\<close>

theorem pack_succeeds_iff: "(\<exists>bs. pack v = Ok bs) \<longleftrightarrow> writable v \<and> value_depth v \<le> MAX_DEPTH"
  using enc_value_succeeds [of 0 pack_table_new v] by (simp add: pack_def succeeds_iff [symmetric] succeeds_last packs_def split_beta)

end
