(* ===== verification/Chacha.thy ===== *)
theory Chacha
  imports Prelude
begin

text \<open>
  The ChaCha20-Poly1305 channel (\<open>crates/pyatv-pairing/src/chacha.rs\<close>): the two nonce layouts,
  one counter per direction, and the calls that use and advance them. The AEAD itself is the crate
  \<open>chacha20poly1305\<close>, so it is a parameter: a record of the two functions \<open>encrypt\<close> and
  \<open>decrypt\<close> over key, nonce, message and associated data. \<open>aead_ok\<close> is the documented
  behaviour the code relies on: a sealed message is sixteen bytes longer and opens again under the
  same key, nonce and associated data.
\<close>

section \<open>The AEAD\<close>

record aead =
  aead_seal :: "bytes \<Rightarrow> bytes \<Rightarrow> bytes \<Rightarrow> bytes \<Rightarrow> bytes option"
  aead_open :: "bytes \<Rightarrow> bytes \<Rightarrow> bytes \<Rightarrow> bytes \<Rightarrow> bytes option"

definition NONCE_LENGTH :: nat where
  "NONCE_LENGTH = 12"

definition AUTH_TAG_LENGTH :: nat where
  "AUTH_TAG_LENGTH = 16"

definition aead_ok :: "aead \<Rightarrow> bool" where
  "aead_ok A \<longleftrightarrow> (\<forall>k n d a c. aead_seal A k n d a = Some c \<longrightarrow>
     aead_open A k n c a = Some d \<and> length c = length d + AUTH_TAG_LENGTH)"

text \<open>An instance for the examples: the tag repeats the nonce and binds the associated data.\<close>

definition toy_tag :: "bytes \<Rightarrow> bytes \<Rightarrow> bytes" where
  "toy_tag n a = take 16 (n @ a @ replicate 16 0)"

definition toy_aead :: aead where
  "toy_aead = \<lparr>
     aead_seal = (\<lambda>k n d a. Some (d @ toy_tag n a)),
     aead_open = (\<lambda>k n c a.
        if 16 \<le> length c \<and> drop (length c - 16) c = toy_tag n a
        then Some (take (length c - 16) c) else None)\<rparr>"

lemma length_toy_tag [simp]: "length (toy_tag n a) = 16"
  by (simp add: toy_tag_def)

lemma toy_aead_ok: "aead_ok toy_aead"
  by (simp add: aead_ok_def toy_aead_def AUTH_TAG_LENGTH_def)

section \<open>Nonces\<close>

datatype nonce_layout = PaddedCounter | BareCounter

fun zero_prefix_len :: "nonce_layout \<Rightarrow> nat" where
  "zero_prefix_len PaddedCounter = NONCE_LENGTH - 8"
| "zero_prefix_len BareCounter = 0"

definition counter_len :: "nonce_layout \<Rightarrow> nat" where
  "counter_len l = NONCE_LENGTH - zero_prefix_len l"

text \<open>Twelve zero bytes with the counter's eight written over them at the start of the counter.\<close>

definition nonce :: "nonce_layout \<Rightarrow> u64 \<Rightarrow> bytes" where
  "nonce l counter =
     (let zeros = replicate NONCE_LENGTH 0; start = zero_prefix_len l in
      take start zeros @ le_bytes 8 (unat counter) @ drop (start + 8) zeros)"

text \<open>\<open>fixed_nonce::pad\<close>: the zeros go in front.\<close>

definition pad_nonce :: "bytes \<Rightarrow> bytes" where
  "pad_nonce n = replicate (NONCE_LENGTH - length n) 0 @ n"

lemma length_nonce: "length (nonce l c) = NONCE_LENGTH"
  by (cases l) (simp_all add: nonce_def NONCE_LENGTH_def Let_def)

lemma nonce_inj: "nonce l c = nonce l d \<longleftrightarrow> c = d"
proof
  assume "nonce l c = nonce l d"
  then have "le_bytes 8 (unat c) = le_bytes 8 (unat d)" by (simp add: nonce_def Let_def)
  then have "unat c = unat d" by (metis le_nat_u64)
  then show "c = d" by (simp add: word_unat_eq_iff)
qed simp

section \<open>The channel\<close>

datatype pairing_error = AeadFailed bytes | CounterExhausted bytes

record cipher =
  out_key :: bytes
  in_key :: bytes
  out_counter :: u64
  in_counter :: u64
  layout :: nonce_layout

definition cipher_new :: "bytes \<Rightarrow> bytes \<Rightarrow> nonce_layout \<Rightarrow> cipher" where
  "cipher_new ok ik l = \<lparr>out_key = ok, in_key = ik, out_counter = 0, in_counter = 0, layout = l\<rparr>"

definition with_padded_counter :: "bytes \<Rightarrow> bytes \<Rightarrow> cipher" where
  "with_padded_counter ok ik = cipher_new ok ik PaddedCounter"

definition with_bare_counter :: "bytes \<Rightarrow> bytes \<Rightarrow> cipher" where
  "with_bare_counter ok ik = cipher_new ok ik BareCounter"

definition out_nonce :: "cipher \<Rightarrow> bytes" where
  "out_nonce c = nonce (layout c) (out_counter c)"

definition in_nonce :: "cipher \<Rightarrow> bytes" where
  "in_nonce c = nonce (layout c) (in_counter c)"

definition next_counter :: "u64 \<Rightarrow> bytes \<Rightarrow> pairing_error + u64" where
  "next_counter counter direction =
     (if counter = 0xFFFFFFFFFFFFFFFF then Err (CounterExhausted direction) else Ok (counter + 1))"

definition payload_aad :: "bytes option \<Rightarrow> bytes" where
  "payload_aad aad = (case aad of None \<Rightarrow> [] | Some a \<Rightarrow> a)"

definition seal :: "aead \<Rightarrow> bytes \<Rightarrow> bytes \<Rightarrow> bytes \<Rightarrow> bytes option \<Rightarrow> pairing_error + bytes" where
  "seal A key n data aad = ok_or (aead_seal A key n data (payload_aad aad)) (AeadFailed (lit ''encrypt''))"

definition unseal :: "aead \<Rightarrow> bytes \<Rightarrow> bytes \<Rightarrow> bytes \<Rightarrow> bytes option \<Rightarrow> pairing_error + bytes" where
  "unseal A key n data aad = ok_or (aead_open A key n data (payload_aad aad)) (AeadFailed (lit ''decrypt''))"

text \<open>The counter moves before the AEAD call, so a failed call has used its nonce up.\<close>

definition cipher_encrypt :: "aead \<Rightarrow> bytes \<Rightarrow> bytes option \<Rightarrow> cipher \<Rightarrow> (pairing_error + bytes) \<times> cipher" where
  "cipher_encrypt A data aad c =
     (let n = out_nonce c in
      case next_counter (out_counter c) (lit ''outbound'') of
        Err e \<Rightarrow> (Err e, c)
      | Ok k \<Rightarrow> (seal A (out_key c) n data aad, c\<lparr>out_counter := k\<rparr>))"

definition cipher_decrypt :: "aead \<Rightarrow> bytes \<Rightarrow> bytes option \<Rightarrow> cipher \<Rightarrow> (pairing_error + bytes) \<times> cipher" where
  "cipher_decrypt A data aad c =
     (let n = in_nonce c in
      case next_counter (in_counter c) (lit ''inbound'') of
        Err e \<Rightarrow> (Err e, c)
      | Ok k \<Rightarrow> (unseal A (in_key c) n data aad, c\<lparr>in_counter := k\<rparr>))"

definition encrypt_with_nonce :: "aead \<Rightarrow> bytes \<Rightarrow> bytes \<Rightarrow> bytes option \<Rightarrow> cipher \<Rightarrow> pairing_error + bytes" where
  "encrypt_with_nonce A data n aad c = seal A (out_key c) n data aad"

definition decrypt_with_nonce :: "aead \<Rightarrow> bytes \<Rightarrow> bytes \<Rightarrow> bytes option \<Rightarrow> cipher \<Rightarrow> pairing_error + bytes" where
  "decrypt_with_nonce A data n aad c = unseal A (in_key c) n data aad"

section \<open>Two ends of a channel\<close>

text \<open>What one end sends with is what the other end receives with.\<close>

definition facing :: "cipher \<Rightarrow> cipher \<Rightarrow> bool" where
  "facing c d \<longleftrightarrow> out_key c = in_key d \<and> out_counter c = in_counter d \<and> layout c = layout d"

lemma facing_new: "facing (cipher_new k1 k2 l) (cipher_new k2 k1 l)"
  by (simp add: facing_def cipher_new_def)

lemma decrypt_encrypted:
  assumes "aead_ok A" and "facing c d" and "cipher_encrypt A data aad c = (Ok ct, c')"
  shows "\<exists>d'. cipher_decrypt A ct aad d = (Ok data, d') \<and> facing c' d' \<and> length ct = length data + AUTH_TAG_LENGTH"
  using assms
  by (auto simp: cipher_encrypt_def cipher_decrypt_def Let_def facing_def in_nonce_def out_nonce_def
      next_counter_def seal_def unseal_def ok_or_Ok_iff aead_ok_def split: if_splits)

section \<open>Nonces are not reused\<close>

text \<open>Any calls on one cipher, and what its counter-based encryptions returned, in their order.\<close>

datatype cipher_call =
  Encrypt bytes "bytes option"
| EncryptWithNonce bytes bytes "bytes option"
| Decrypt bytes "bytes option"
| DecryptWithNonce bytes bytes "bytes option"

fun encrypt_results :: "aead \<Rightarrow> cipher \<Rightarrow> cipher_call list \<Rightarrow> (pairing_error + bytes) list" where
  "encrypt_results A c [] = []"
| "encrypt_results A c (Encrypt data aad # calls) =
     (case cipher_encrypt A data aad c of (r, c') \<Rightarrow> r # encrypt_results A c' calls)"
| "encrypt_results A c (EncryptWithNonce data n aad # calls) = encrypt_results A c calls"
| "encrypt_results A c (Decrypt data aad # calls) = encrypt_results A (snd (cipher_decrypt A data aad c)) calls"
| "encrypt_results A c (DecryptWithNonce data n aad # calls) = encrypt_results A c calls"

definition encrypt_inputs :: "cipher_call list \<Rightarrow> (bytes \<times> bytes option) list" where
  "encrypt_inputs calls = List.map_filter (\<lambda>call. case call of Encrypt data aad \<Rightarrow> Some (data, aad) | _ \<Rightarrow> None) calls"

lemma next_counter_Ok: "next_counter n d = Ok k \<longleftrightarrow> unat n < 2 ^ 64 - 1 \<and> k = n + 1"
  using unat_u64_bound [of n] by (auto simp: next_counter_def word_unat_eq_iff)

lemma unat_succ: "unat (n :: u64) < 2 ^ 64 - 1 \<Longrightarrow> unat (n + 1) = Suc (unat n)"
  by (simp add: unat_word_ariths)

lemma encrypt_counter:
  "snd (cipher_encrypt A data aad c) =
     (if unat (out_counter c) < 2 ^ 64 - 1 then c\<lparr>out_counter := out_counter c + 1\<rparr> else c)"
proof (cases "unat (out_counter c) < 2 ^ 64 - 1")
  case True
  then have "next_counter (out_counter c) d = Ok (out_counter c + 1)" for d by (simp add: next_counter_Ok)
  with True show ?thesis by (simp add: cipher_encrypt_def Let_def)
next
  case False
  then show ?thesis
    by (cases "next_counter (out_counter c) (lit ''outbound'')")
      (auto simp: next_counter_Ok cipher_encrypt_def Let_def)
qed

lemma encrypt_result:
  "fst (cipher_encrypt A data aad c) =
     (if unat (out_counter c) < 2 ^ 64 - 1 then seal A (out_key c) (nonce (layout c) (out_counter c)) data aad
      else Err (CounterExhausted (lit ''outbound'')))"
  using unat_u64_bound [of "out_counter c"]
  by (auto simp: cipher_encrypt_def Let_def next_counter_def out_nonce_def word_unat_eq_iff)

lemma decrypt_keeps: "\<exists>k. snd (cipher_decrypt A data aad c) = c\<lparr>in_counter := k\<rparr>"
proof (cases "next_counter (in_counter c) (lit ''inbound'')")
  case (Inl e)
  then show ?thesis by (intro exI [of _ "in_counter c"]) (simp add: cipher_decrypt_def Let_def)
next
  case (Inr k)
  then show ?thesis by (intro exI [of _ k]) (simp add: cipher_decrypt_def Let_def)
qed

text \<open>The counters a cipher has left, and the results of its encryptions in terms of them.\<close>

definition counters_from :: "u64 \<Rightarrow> nat \<Rightarrow> u64 list" where
  "counters_from k n = map word_of_nat [unat k..<unat k + min n (2 ^ 64 - 1 - unat k)]"

lemma length_counters: "length (counters_from k n) = min n (2 ^ 64 - 1 - unat k)"
  by (simp add: counters_from_def)

lemma counters_Suc: "unat k < 2 ^ 64 - 1 \<Longrightarrow> counters_from k (Suc n) = k # counters_from (k + 1) n"
proof -
  assume k: "unat k < 2 ^ 64 - 1"
  then have "min (Suc n) (2 ^ 64 - 1 - unat k) = Suc (min n (2 ^ 64 - 1 - unat (k + 1)))" by (simp add: unat_succ)
  then show ?thesis using k by (simp add: counters_from_def upt_conv_Cons unat_succ del: upt_Suc)
qed

lemma counters_exhausted: "\<not> unat k < 2 ^ 64 - 1 \<Longrightarrow> counters_from k n = []"
  by (simp add: counters_from_def)

lemma distinct_counters: "distinct (counters_from k n)"
proof -
  have "inj_on (word_of_nat :: nat \<Rightarrow> u64) {unat k..<unat k + min n (2 ^ 64 - 1 - unat k)}"
  proof (rule inj_onI)
    fix x y
    assume a: "x \<in> {unat k..<unat k + min n (2 ^ 64 - 1 - unat k)}" "y \<in> {unat k..<unat k + min n (2 ^ 64 - 1 - unat k)}"
      "(word_of_nat x :: u64) = word_of_nat y"
    then have "x < 2 ^ 64" "y < 2 ^ 64" using unat_u64_bound [of k] by (auto simp: min_def split: if_splits)
    with arg_cong [where f = unat, OF a(3)] show "x = y" by (simp add: unat_of_nat)
  qed
  then show ?thesis by (simp add: counters_from_def distinct_map)
qed

lemma encrypt_results_form:
  "encrypt_results A c calls =
     map (\<lambda>(k, data, aad). seal A (out_key c) (nonce (layout c) k) data aad)
       (zip (counters_from (out_counter c) (length (encrypt_inputs calls))) (encrypt_inputs calls))
     @ replicate (length (encrypt_inputs calls) - length (counters_from (out_counter c) (length (encrypt_inputs calls))))
         (Err (CounterExhausted (lit ''outbound'')))"
proof (induction A c calls rule: encrypt_results.induct)
  case (2 A c data aad calls)
  obtain r c' where e: "cipher_encrypt A data aad c = (r, c')" by fastforce
  with encrypt_result [of A data aad c] encrypt_counter [of A data aad c] 2 [OF e [symmetric]]
  show ?case by (cases "unat (out_counter c) < 2 ^ 64 - 1")
    (simp_all add: encrypt_inputs_def map_filter_simps counters_Suc counters_exhausted)
next
  case (4 A c data aad calls)
  obtain k where "snd (cipher_decrypt A data aad c) = c\<lparr>in_counter := k\<rparr>" using decrypt_keeps by blast
  with 4 show ?case by (simp add: encrypt_inputs_def map_filter_simps)
qed (simp_all add: encrypt_inputs_def map_filter_simps counters_from_def)

text \<open>
  C3: no nonce is used twice. The nonces of the counter-based encryptions are a list of pairwise different ones, fixed by
  the layout and the counter alone: with any AEAD, whatever other calls come in between, the i-th
  encryption returns what the AEAD seals its data to under the i-th nonce of the list and the outbound key, failures of the AEAD
  included; and when the counter is at its end, every further one is refused instead of wrapping. A call with a nonce of the
  caller's own neither uses nor moves the counter, and that nonce is the caller's concern.
\<close>

theorem nonces_distinct:
  "\<exists>ns. distinct ns \<and> length ns = min (length (encrypt_inputs calls)) (2 ^ 64 - 1 - unat (out_counter c))
     \<and> (\<forall>A. encrypt_results A c calls =
          map (\<lambda>(n, data, aad). seal A (out_key c) n data aad) (zip ns (encrypt_inputs calls))
          @ replicate (length (encrypt_inputs calls) - length ns) (Err (CounterExhausted (lit ''outbound''))))"
proof (intro exI conjI allI)
  let ?ks = "counters_from (out_counter c) (length (encrypt_inputs calls))"
  let ?ns = "map (nonce (layout c)) ?ks"
  show "distinct ?ns" using distinct_counters by (simp add: distinct_map inj_on_def nonce_inj)
  show "length ?ns = min (length (encrypt_inputs calls)) (2 ^ 64 - 1 - unat (out_counter c))" by (simp add: length_counters)
  fix A
  have "map (\<lambda>(k, data, aad). seal A (out_key c) (nonce (layout c) k) data aad) (zip ?ks (encrypt_inputs calls))
      = map (\<lambda>(n, data, aad). seal A (out_key c) n data aad) (zip ?ns (encrypt_inputs calls))"
    by (simp add: zip_map1 case_prod_beta comp_def)
  then show "encrypt_results A c calls = map (\<lambda>(n, data, aad). seal A (out_key c) n data aad) (zip ?ns (encrypt_inputs calls))
      @ replicate (length (encrypt_inputs calls) - length ?ns) (Err (CounterExhausted (lit ''outbound'')))"
    using encrypt_results_form [of A c calls] by simp
qed

text \<open>
  What one end encrypts the other decrypts. If the two ends face each other (one's outbound key,
  counter and layout are the other's inbound ones), a message sealed by one opens at the other to the
  same bytes under the same associated data, and the ends still face each other afterwards.
\<close>

theorem cipher_delivers:
  assumes "aead_ok A" and "facing c d" and "cipher_encrypt A data aad c = (Ok ct, c')"
  shows "fst (cipher_decrypt A ct aad d) = Ok data \<and> facing c' (snd (cipher_decrypt A ct aad d))
    \<and> length ct = length data + AUTH_TAG_LENGTH"
  using decrypt_encrypted [OF assms] by auto

theorem cipher_delivers_witness:
  "fst (cipher_decrypt toy_aead [104, 105, 0, 0, 0, 0, 0, 0, 0, 0, 0, 0, 0, 0, 7, 0, 0, 0] (Some [7])
      (with_padded_counter [2] [1])) = Ok [104, 105]"
proof -
  have "cipher_encrypt toy_aead [104, 105] (Some [7]) (with_padded_counter [1] [2]) =
      (Ok [104, 105, 0, 0, 0, 0, 0, 0, 0, 0, 0, 0, 0, 0, 7, 0, 0, 0],
       (with_padded_counter [1] [2])\<lparr>out_counter := 1\<rparr>)"
    by (simp add: cipher_encrypt_def with_padded_counter_def cipher_new_def next_counter_def out_nonce_def
        nonce_def Let_def NONCE_LENGTH_def seal_def toy_aead_def toy_tag_def payload_aad_def le_bytes_numeral replicate_eval)
  from cipher_delivers [OF toy_aead_ok _ this] show ?thesis
    by (simp add: with_padded_counter_def facing_new)
qed

end
