(* ===== verification/Framing.thy ===== *)
theory Framing
  imports Prelude
begin

text \<open>
  What the stream decoders of the repository share. Each of them keeps a buffer of received bytes
  and, whenever a transport read arrives, takes off every frame that is now complete: the HAP
  session (\<open>pyatv-pairing/src/session.rs\<close>), the Companion codec
  (\<open>pyatv-proto-companion/src/codec.rs\<close>), the direct MRP transport
  (\<open>pyatv-proto-mrp/src/connection/direct.rs\<close>) and the AirPlay data stream. A decoder is
  described here by one step on its buffer and by the loop that repeats it; the locale
  \<open>stream_codec\<close> states what the step must satisfy for the result not to depend on how the bytes
  were cut into reads, and \<open>framed_pair\<close> what a sender and a receiver must satisfy for every
  message to arrive. The components interpret both on their own definitions.
\<close>

section \<open>Steps and loops\<close>

text \<open>
  One look at the buffer: not enough bytes yet, a frame with the state after it and the bytes it
  took, or an error with the state it leaves behind.
\<close>

datatype ('e, 'a, 's) frame_step = More | Frame 'a 's nat | Bad 'e 's

text \<open>What a loop returns: the frames, the state, the bytes left over, and the error that ended it.\<close>

type_synonym ('e, 'a, 's) drained = "'a list \<times> 's \<times> bytes \<times> 'e option"

definition add_frame :: "'a \<Rightarrow> ('e, 'a, 's) drained \<Rightarrow> ('e, 'a, 's) drained" where
  "add_frame a r = (case r of (fs, rest) \<Rightarrow> (a # fs, rest))"

definition add_frames :: "'a list \<Rightarrow> ('e, 'a, 's) drained \<Rightarrow> ('e, 'a, 's) drained" where
  "add_frames as r = (case r of (fs, rest) \<Rightarrow> (as @ fs, rest))"

text \<open>A sequence of reads: each is appended to what was left, and an error ends the connection.\<close>

fun feed_chunks :: "('s \<Rightarrow> bytes \<Rightarrow> ('e, 'a, 's) drained) \<Rightarrow> 's \<Rightarrow> bytes \<Rightarrow> bytes list \<Rightarrow> ('e, 'a, 's) drained" where
  "feed_chunks loop s b [] = ([], s, b, None)"
| "feed_chunks loop s b (c # cs) =
     (case loop s (b @ c) of
        (fs, s', b', None) \<Rightarrow> add_frames fs (feed_chunks loop s' b' cs)
      | (fs, s', b', Some e) \<Rightarrow> (fs, s', b', Some e))"

text \<open>The frames, the state and the error; what an error leaves in the buffer does not matter.\<close>

definition outcome :: "('e, 'a, 's) drained \<Rightarrow> 'a list \<times> 's \<times> 'e option" where
  "outcome r = (case r of (fs, s, b, e) \<Rightarrow> (fs, s, e))"

lemma add_frame_simps [simp]:
  "add_frame a (fs, r) = (a # fs, r)"
  "add_frames as (fs, r) = (as @ fs, r)"
  "add_frames [] d = d"
  "add_frames (a # as) d = add_frame a (add_frames as d)"
  by (auto simp: add_frame_def add_frames_def split: prod.splits)

lemma outcome_simps [simp]: "outcome (fs, s, b, e) = (fs, s, e)"
  by (simp add: outcome_def)

section \<open>Decoders of a stream\<close>

locale stream_codec =
  fixes step :: "'s \<Rightarrow> bytes \<Rightarrow> ('e, 'a, 's) frame_step"
    and loop :: "'s \<Rightarrow> bytes \<Rightarrow> ('e, 'a, 's) drained"
  assumes progress: "step s b = Frame a s' n \<Longrightarrow> 0 < n \<and> n \<le> length b"
    and frame_stable: "step s b = Frame a s' n \<Longrightarrow> step s (b @ c) = Frame a s' n"
    and bad_stable: "step s b = Bad e s' \<Longrightarrow> step s (b @ c) = Bad e s'"
    and unfold: "loop s b =
      (case step s b of
         More \<Rightarrow> ([], s, b, None)
       | Bad e s' \<Rightarrow> ([], s', b, Some e)
       | Frame a s' n \<Rightarrow> add_frame a (loop s' (drop n b)))"
begin

lemma loop_More: "step s b = More \<Longrightarrow> loop s b = ([], s, b, None)"
  by (subst unfold) simp

lemma loop_Bad: "step s b = Bad e s' \<Longrightarrow> loop s b = ([], s', b, Some e)"
  by (subst unfold) simp

lemma loop_Frame: "step s b = Frame a s' n \<Longrightarrow> loop s b = add_frame a (loop s' (drop n b))"
  by (subst unfold) simp

lemma drain_induct [case_names More Bad Frame]:
  assumes "\<And>s b. step s b = More \<Longrightarrow> P s b" and "\<And>s b e s'. step s b = Bad e s' \<Longrightarrow> P s b"
    and "\<And>s b a s' n. step s b = Frame a s' n \<Longrightarrow> P s' (drop n b) \<Longrightarrow> P s b"
  shows "P s b"
proof (induction "length b" arbitrary: s b rule: less_induct)
  case less
  show ?case
  proof (cases "step s b")
    case (Frame a s' n)
    with progress [OF Frame] have "P s' (drop n b)" by (intro less) auto
    with Frame show ?thesis by (rule assms(3))
  qed (use assms in auto)
qed

text \<open>What is left over holds no complete frame.\<close>

lemma loop_rest: "loop s b = (fs, s', b', None) \<Longrightarrow> step s' b' = More"
proof (induction s b arbitrary: fs rule: drain_induct)
  case (Frame s b a s1 n)
  then show ?case by (cases "loop s1 (drop n b)") (auto simp: loop_Frame)
qed (auto simp: loop_More loop_Bad)

lemma loop_append_None:
  "loop s b = (fs, s', b', None) \<Longrightarrow> loop s (b @ c) = add_frames fs (loop s' (b' @ c))"
proof (induction s b arbitrary: fs rule: drain_induct)
  case (Frame s b a s1 n)
  from progress [OF Frame(1)] have "drop n (b @ c) = drop n b @ c" by simp
  with Frame frame_stable [OF Frame(1), of c] show ?case
    by (cases "loop s1 (drop n b)") (auto simp: loop_Frame)
qed (auto simp: loop_More loop_Bad)

lemma loop_append_Some:
  "loop s b = (fs, s', b', Some e) \<Longrightarrow> outcome (loop s (b @ c)) = (fs, s', Some e)"
proof (induction s b arbitrary: fs rule: drain_induct)
  case (Frame s b a s1 n)
  from progress [OF Frame(1)] have "drop n (b @ c) = drop n b @ c" by simp
  with Frame frame_stable [OF Frame(1), of c] show ?case
    by (cases "loop s1 (drop n b)"; cases "loop s1 (drop n b @ c)") (auto simp: loop_Frame)
next
  case (Bad s b e' s1)
  then show ?case using bad_stable [OF Bad(1), of c] by (auto simp: loop_Bad)
qed (auto simp: loop_More)

lemma loop_prefix:
  assumes "loop s (b @ c) = (fs, s', b', None)"
  shows "\<exists>fs1 s1 b1 fs2. loop s b = (fs1, s1, b1, None) \<and> loop s1 (b1 @ c) = (fs2, s', b', None) \<and> fs = fs1 @ fs2"
proof -
  obtain fs1 s1 b1 e where l: "loop s b = (fs1, s1, b1, e)" by (cases "loop s b") auto
  have "e = None" using loop_append_Some [of s b fs1 s1 b1 _ c] assms l by (cases e) auto
  with loop_append_None [of s b fs1 s1 b1 c] assms l show ?thesis by (cases "loop s1 (b1 @ c)") auto
qed

text \<open>The reads do not matter: feeding the chunks one by one is feeding their concatenation.\<close>

lemma feed_concat:
  assumes "step s b = More"
  shows "outcome (feed_chunks loop s b cs) = outcome (loop s (b @ concat cs))"
  using assms
proof (induction cs arbitrary: s b)
  case Nil
  then show ?case by (simp add: loop_More)
next
  case (Cons c cs)
  obtain fs s' b' e where l: "loop s (b @ c) = (fs, s', b', e)" by (cases "loop s (b @ c)") auto
  show ?case
  proof (cases e)
    case None
    with l Cons.IH [of s' b'] loop_rest [of s "b @ c"] loop_append_None [of s "b @ c" fs s' b' "concat cs"]
    show ?thesis
      by (cases "feed_chunks loop s' b' cs"; cases "loop s' (b' @ concat cs)") auto
  next
    case (Some x)
    with l loop_append_Some [of s "b @ c" fs s' b' x "concat cs"] show ?thesis by auto
  qed
qed

lemma feed_None:
  assumes "step s b = More" and "loop s (b @ concat cs) = (fs, s', b', None)"
  shows "feed_chunks loop s b cs = (fs, s', b', None)"
  using assms
proof (induction cs arbitrary: s b fs)
  case Nil
  then show ?case by (simp add: loop_More)
next
  case (Cons c cs)
  obtain gs s1 b1 e where l: "loop s (b @ c) = (gs, s1, b1, e)" by (cases "loop s (b @ c)") auto
  show ?case
  proof (cases e)
    case None
    with l have m: "step s1 b1 = More" and a: "loop s (b @ concat (c # cs)) = add_frames gs (loop s1 (b1 @ concat cs))"
      using loop_rest loop_append_None [of s "b @ c" gs s1 b1 "concat cs"] by auto
    obtain hs r where r: "loop s1 (b1 @ concat cs) = (hs, r)" by (cases "loop s1 (b1 @ concat cs)")
    with a Cons.prems(2) have "fs = gs @ hs" "r = (s', b', None)" by auto
    with Cons.IH [OF m, of hs] r l None show ?thesis by simp
  next
    case (Some x)
    with l loop_append_Some [of s "b @ c" gs s1 b1 x "concat cs"] Cons.prems(2) show ?thesis by auto
  qed
qed

end

section \<open>A sender and a receiver\<close>

fun send_all :: "('t \<Rightarrow> 'm \<Rightarrow> 'x + bytes \<times> 't) \<Rightarrow> 't \<Rightarrow> 'm list \<Rightarrow> 'x + bytes \<times> 't" where
  "send_all put t [] = Ok ([], t)"
| "send_all put t (m # ms) =
     rbind (put t m) (\<lambda>(bs, t'). rbind (send_all put t' ms) (\<lambda>(bs', t''). Ok (bs @ bs', t'')))"

text \<open>
  \<open>put\<close> writes one message with the sender's state, \<open>seen\<close> is the frame the receiver should
  make of it, \<open>paired\<close> relates the two states, and \<open>fits\<close> is the size limit the receiver sets.
\<close>

locale framed_pair = stream_codec step loop
  for step :: "'s \<Rightarrow> bytes \<Rightarrow> ('e, 'a, 's) frame_step" and loop +
  fixes put :: "'t \<Rightarrow> 'm \<Rightarrow> 'x + bytes \<times> 't"
    and seen :: "'m \<Rightarrow> 'a"
    and paired :: "'t \<Rightarrow> 's \<Rightarrow> bool"
    and fits :: "'m \<Rightarrow> bool"
  assumes received: "fits m \<Longrightarrow> put t m = Ok (bs, t') \<Longrightarrow> paired t s \<Longrightarrow>
      \<exists>s'. paired t' s' \<and> step s (bs @ rest) = Frame (seen m) s' (length bs)"
    and idle: "paired t s \<Longrightarrow> step s [] = More"
begin

lemma send_all_received:
  "send_all put t ms = Ok (bs, t') \<Longrightarrow> paired t s \<Longrightarrow> \<forall>m \<in> set ms. fits m \<Longrightarrow>
     \<exists>s'. paired t' s' \<and> loop s bs = (map seen ms, s', [], None)"
proof (induction ms arbitrary: t s bs)
  case Nil
  then show ?case using idle by (auto simp: loop_More)
next
  case (Cons m ms)
  then obtain b t1 bs' where p: "put t m = Ok (b, t1)" "send_all put t1 ms = Ok (bs', t')" "bs = b @ bs'"
    by (auto simp: rbind_Ok_iff)
  from received [OF _ p(1) Cons.prems(2), of bs'] Cons.prems(3) obtain s1 where s1: "paired t1 s1"
    "step s (b @ bs') = Frame (seen m) s1 (length b)" by auto
  from Cons.IH [OF p(2) s1(1)] Cons.prems(3) s1(2) show ?case by (auto simp: p(3) loop_Frame)
qed

text \<open>Every message arrives, in order, however the stream was cut into reads.\<close>

lemma delivered:
  assumes "send_all put t ms = Ok (bs, t')" and "paired t s" and "concat cs = bs" and "\<forall>m \<in> set ms. fits m"
  shows "\<exists>s'. paired t' s' \<and> feed_chunks loop s [] cs = (map seen ms, s', [], None)"
  using send_all_received [OF assms(1,2,4)] feed_None [OF idle [OF assms(2)], of cs] assms(3) by auto

end

end
