(* ===== verification/Ordered_Store.thy ===== *)
theory Ordered_Store
  imports Main
begin

text \<open>
  The interface of the two ordered tables of the program, the TLV8 message and the TXT map: a store
  that keeps the order in which its keys were first set. \<open>key\<close> is the form in which a key is
  compared: the key itself in \<open>Tlv8\<close>, the lowercased key in \<open>CaseInsensitiveMap\<close>.
\<close>

locale ordered_store =
  fixes key :: "'k \<Rightarrow> 'k" and put :: "'m \<Rightarrow> 'k \<Rightarrow> 'v \<Rightarrow> 'm" and lookup :: "'m \<Rightarrow> 'k \<Rightarrow> 'v option"
    and order :: "'m \<Rightarrow> 'k list"
  assumes lookup_put: "lookup (put m k v) l = (if key l = key k then Some v else lookup m l)"
    and order_put: "order (put m k v) = (if key k \<in> set (order m) then order m else order m @ [key k])"
begin

definition build :: "'m \<Rightarrow> ('k \<times> 'v) list \<Rightarrow> 'm" where
  "build m kvs = foldl (\<lambda>m (k, v). put m k v) m kvs"

lemma build_simps [simp]: "build m [] = m" "build m ((k, v) # kvs) = build (put m k v) kvs"
  by (simp_all add: build_def)

lemma distinct_put: "distinct (order m) \<Longrightarrow> distinct (order (put m k v))"
  by (simp add: order_put)

text \<open>The last value set wins; the order is the one of the first settings.\<close>

lemma lookup_build:
  "lookup (build m kvs) k =
     (case map_of (rev (map (\<lambda>kv. (key (fst kv), snd kv)) kvs)) (key k) of Some v \<Rightarrow> Some v | None \<Rightarrow> lookup m k)"
proof (induction kvs arbitrary: m)
  case (Cons p kvs)
  then show ?case by (cases p) (auto simp: lookup_put map_add_def split: option.splits)
qed simp

lemma set_order_build: "set (order (build m kvs)) = set (order m) \<union> (\<lambda>kv. key (fst kv)) ` set kvs"
proof (induction kvs arbitrary: m)
  case (Cons p kvs)
  then show ?case by (cases p) (auto simp: order_put)
qed simp

lemma distinct_build: "distinct (order m) \<Longrightarrow> distinct (order (build m kvs))"
proof (induction kvs arbitrary: m)
  case (Cons p kvs)
  then show ?case by (cases p) (auto intro: distinct_put)
qed simp

end

end
