(* ===== verification/Tlv8.thy ===== *)
theory Tlv8
  imports Prelude Ordered_Store
begin

text \<open>
  The TLV8 codec of the HAP pairing messages (\<open>crates/pyatv-pairing/src/tlv8.rs\<close>): an
  insertion-ordered list of tagged values, an encoder that splits long values into chunks of 255
  bytes, and a decoder that joins the entries of one tag. The two \<open>format!\<close> messages of
  \<open>Error::Tlv8\<close> are constructors that carry the numbers printed.
\<close>

section \<open>Tags and codes\<close>

datatype tlv_value =
    Method | Identifier | Salt | PublicKey | Proof | EncryptedData | SeqNo | TlvErrorTag | BackOff
  | Certificate | Signature | Permissions | FragmentData | FragmentLast | NameTag | FlagsTag

fun tlv_tag :: "tlv_value \<Rightarrow> u8" where
  "tlv_tag Method = 0x00"
| "tlv_tag Identifier = 0x01"
| "tlv_tag Salt = 0x02"
| "tlv_tag PublicKey = 0x03"
| "tlv_tag Proof = 0x04"
| "tlv_tag EncryptedData = 0x05"
| "tlv_tag SeqNo = 0x06"
| "tlv_tag TlvErrorTag = 0x07"
| "tlv_tag BackOff = 0x08"
| "tlv_tag Certificate = 0x09"
| "tlv_tag Signature = 0x0A"
| "tlv_tag Permissions = 0x0B"
| "tlv_tag FragmentData = 0x0C"
| "tlv_tag FragmentLast = 0x0D"
| "tlv_tag NameTag = 0x11"
| "tlv_tag FlagsTag = 0x13"

definition tlv_from_tag :: "u8 \<Rightarrow> tlv_value option" where
  "tlv_from_tag tag =
     (if tag = 0x00 then Some Method
      else if tag = 0x01 then Some Identifier
      else if tag = 0x02 then Some Salt
      else if tag = 0x03 then Some PublicKey
      else if tag = 0x04 then Some Proof
      else if tag = 0x05 then Some EncryptedData
      else if tag = 0x06 then Some SeqNo
      else if tag = 0x07 then Some TlvErrorTag
      else if tag = 0x08 then Some BackOff
      else if tag = 0x09 then Some Certificate
      else if tag = 0x0A then Some Signature
      else if tag = 0x0B then Some Permissions
      else if tag = 0x0C then Some FragmentData
      else if tag = 0x0D then Some FragmentLast
      else if tag = 0x11 then Some NameTag
      else if tag = 0x13 then Some FlagsTag
      else None)"

datatype error_code =
    ECUnknown | ECAuthentication | ECBackOff | ECMaxPeers | ECMaxTries | ECUnavailable | ECBusy

fun error_code_byte :: "error_code \<Rightarrow> u8" where
  "error_code_byte ECUnknown = 0x01"
| "error_code_byte ECAuthentication = 0x02"
| "error_code_byte ECBackOff = 0x03"
| "error_code_byte ECMaxPeers = 0x04"
| "error_code_byte ECMaxTries = 0x05"
| "error_code_byte ECUnavailable = 0x06"
| "error_code_byte ECBusy = 0x07"

definition error_code_from :: "u8 \<Rightarrow> error_code option" where
  "error_code_from code =
     (if code = 0x01 then Some ECUnknown
      else if code = 0x02 then Some ECAuthentication
      else if code = 0x03 then Some ECBackOff
      else if code = 0x04 then Some ECMaxPeers
      else if code = 0x05 then Some ECMaxTries
      else if code = 0x06 then Some ECUnavailable
      else if code = 0x07 then Some ECBusy
      else None)"

datatype tlv_error = TruncatedHeader nat | ShortValue u8 nat nat | MissingTlv tlv_value

section \<open>Messages\<close>

definition MAX_CHUNK :: nat where
  "MAX_CHUNK = 255"

type_synonym tlv8 = "(u8 \<times> bytes) list"

text \<open>\<open>set_raw\<close>: replace in place the first entry of the tag, else append.\<close>

fun set_raw :: "tlv8 \<Rightarrow> u8 \<Rightarrow> bytes \<Rightarrow> tlv8" where
  "set_raw [] tag v = [(tag, v)]"
| "set_raw ((t, w) # es) tag v = (if t = tag then (t, v) # es else (t, w) # set_raw es tag v)"

definition tlv_with :: "tlv8 \<Rightarrow> tlv_value \<Rightarrow> bytes \<Rightarrow> tlv8" where
  "tlv_with m tag v = set_raw m (tlv_tag tag) v"

definition with_byte :: "tlv8 \<Rightarrow> tlv_value \<Rightarrow> u8 \<Rightarrow> tlv8" where
  "with_byte m tag v = tlv_with m tag [v]"

fun get_raw :: "tlv8 \<Rightarrow> u8 \<Rightarrow> bytes option" where
  "get_raw [] tag = None"
| "get_raw ((t, v) # es) tag = (if t = tag then Some v else get_raw es tag)"

definition tlv_get :: "tlv8 \<Rightarrow> tlv_value \<Rightarrow> bytes option" where
  "tlv_get m tag = get_raw m (tlv_tag tag)"

definition require :: "tlv8 \<Rightarrow> tlv_value \<Rightarrow> tlv_error + bytes" where
  "require m tag = ok_or (tlv_get m tag) (MissingTlv tag)"

text \<open>\<open>get_uint\<close>: the first eight bytes, little-endian, the rest of the buffer zero.\<close>

definition get_uint :: "tlv8 \<Rightarrow> tlv_value \<Rightarrow> u64 option" where
  "get_uint m tag =
     (case tlv_get m tag of
        None \<Rightarrow> None
      | Some bs \<Rightarrow>
          let len = min (length bs) 8 in
          Some (word_of_nat (le_nat (take len bs @ replicate (8 - len) 0))))"

definition tlv_tags :: "tlv8 \<Rightarrow> u8 list" where
  "tlv_tags m = map fst m"

section \<open>Wire format\<close>

text \<open>\<open>slice::chunks\<close>.\<close>

function chunks :: "nat \<Rightarrow> 'a list \<Rightarrow> 'a list list" where
  "chunks n xs = (if xs = [] \<or> n = 0 then [] else take n xs # chunks n (drop n xs))"
  by pat_completeness auto
termination by (relation "measure (\<lambda>(n, xs). length xs)") auto

declare chunks.simps [simp del]

definition encode_entry :: "u8 \<times> bytes \<Rightarrow> bytes" where
  "encode_entry e =
     (case e of (tag, v) \<Rightarrow>
        if v = [] then [tag, 0]
        else concat (map (\<lambda>c. tag # word_of_nat (length c) # c) (chunks MAX_CHUNK v)))"

definition tlv_encode :: "tlv8 \<Rightarrow> bytes" where
  "tlv_encode m = concat (map encode_entry m)"

text \<open>The decoder's step on its entries: extend the first entry of the tag, else push one.\<close>

fun extend_entry :: "tlv8 \<Rightarrow> u8 \<Rightarrow> bytes \<Rightarrow> tlv8" where
  "extend_entry [] tag v = [(tag, v)]"
| "extend_entry ((t, w) # es) tag v =
     (if t = tag then (t, w @ v) # es else (t, w) # extend_entry es tag v)"

text \<open>The loop of \<open>decode\<close>, on the bytes from \<open>offset\<close> on.\<close>

function (sequential) decode_loop :: "nat \<Rightarrow> tlv8 \<Rightarrow> bytes \<Rightarrow> tlv_error + tlv8" where
  "decode_loop offset entries [] = Ok entries"
| "decode_loop offset entries [b] = Err (TruncatedHeader offset)"
| "decode_loop offset entries (tag # len # rest) =
     (if length rest < unat len then Err (ShortValue tag (unat len) (length rest))
      else decode_loop (offset + 2 + unat len) (extend_entry entries tag (take (unat len) rest))
             (drop (unat len) rest))"
  by pat_completeness auto
termination by (relation "measure (\<lambda>(_, _, bs). length bs)") auto

definition tlv_decode :: "bytes \<Rightarrow> tlv_error + tlv8" where
  "tlv_decode input = decode_loop 0 [] input"

section \<open>Lookup and update\<close>

lemma tlv_from_tag_Some [simp]: "tlv_from_tag (tlv_tag t) = Some t"
  by (cases t) (simp_all add: tlv_from_tag_def)

lemma tlv_tag_from: "tlv_from_tag b = Some t \<Longrightarrow> b = tlv_tag t"
  by (auto simp: tlv_from_tag_def split: if_splits)

lemma tlv_tag_inj: "tlv_tag s = tlv_tag t \<longleftrightarrow> s = t"
  by (metis option.inject tlv_from_tag_Some)

lemma error_code_byte_inv: "error_code_from b = Some c \<longleftrightarrow> b = error_code_byte c"
  by (cases c) (auto simp: error_code_from_def)

lemma get_raw_set_raw: "get_raw (set_raw m t v) u = (if u = t then Some v else get_raw m u)"
  by (induction m t v rule: set_raw.induct) auto

lemma tags_set_raw: "map fst (set_raw m t v) = (if t \<in> fst ` set m then map fst m else map fst m @ [t])"
  by (induction m t v rule: set_raw.induct) auto

lemma tags_extend: "map fst (extend_entry m t v) = (if t \<in> fst ` set m then map fst m else map fst m @ [t])"
  by (induction m t v rule: extend_entry.induct) auto

lemma get_raw_map_of: "get_raw m t = map_of m t"
  by (induction m t rule: get_raw.induct) auto

interpretation tlv: ordered_store "\<lambda>t. t" set_raw get_raw tlv_tags
  by unfold_locales (simp_all add: get_raw_set_raw tlv_tags_def tags_set_raw)

section \<open>Round trip\<close>

lemma concat_chunks: "0 < n \<Longrightarrow> concat (chunks n xs) = xs"
proof (induction n xs rule: chunks.induct)
  case (1 n xs)
  then show ?case by (subst chunks.simps) auto
qed

lemma chunks_bounds: "c \<in> set (chunks n xs) \<Longrightarrow> c \<noteq> [] \<and> length c \<le> n"
proof (induction n xs rule: chunks.induct)
  case (1 n xs)
  then show ?case by (subst (asm) (2) chunks.simps) (auto split: if_splits)
qed

lemma chunks_short: "xs \<noteq> [] \<Longrightarrow> length xs \<le> n \<Longrightarrow> chunks n xs = [xs]"
  by (subst chunks.simps) (cases xs; auto simp: chunks.simps)

definition wire_chunk :: "u8 \<Rightarrow> bytes \<Rightarrow> bytes" where
  "wire_chunk tag c = tag # word_of_nat (length c) # c"

lemma decode_chunk:
  "length c \<le> 255 \<Longrightarrow>
     decode_loop off es (wire_chunk tag c @ rest) = decode_loop (off + 2 + length c) (extend_entry es tag c) rest"
  by (simp add: wire_chunk_def unat_of_nat_u8)

lemma extend_extend: "extend_entry (extend_entry es tag v) tag w = extend_entry es tag (v @ w)"
  by (induction es tag v rule: extend_entry.induct) auto

lemma decode_chunks:
  "\<forall>c \<in> set cs. length c \<le> 255 \<Longrightarrow> cs \<noteq> [] \<Longrightarrow>
     \<exists>off'. decode_loop off es (concat (map (wire_chunk tag) cs) @ rest)
            = decode_loop off' (extend_entry es tag (concat cs)) rest"
proof (induction cs arbitrary: off es)
  case (Cons c cs)
  let ?off = "off + 2 + length c" and ?es = "extend_entry es tag c"
  have c: "decode_loop off es (concat (map (wire_chunk tag) (c # cs)) @ rest)
      = decode_loop ?off ?es (concat (map (wire_chunk tag) cs) @ rest)"
    using decode_chunk [of c off es tag "concat (map (wire_chunk tag) cs) @ rest"] Cons.prems(1) by simp
  show ?case
  proof (cases "cs = []")
    case True
    with c show ?thesis by auto
  next
    case False
    with Cons obtain off' where "decode_loop ?off ?es (concat (map (wire_chunk tag) cs) @ rest)
        = decode_loop off' (extend_entry ?es tag (concat cs)) rest"
      by (metis list.set_intros(2))
    with c show ?thesis by (auto simp: extend_extend)
  qed
qed simp

lemma decode_entry:
  "\<exists>off'. decode_loop off es (encode_entry (tag, v) @ rest) = decode_loop off' (extend_entry es tag v) rest"
proof (cases "v = []")
  case True
  then show ?thesis using decode_chunk [of "[]" off es tag rest] by (auto simp: encode_entry_def wire_chunk_def)
next
  case False
  then have "chunks MAX_CHUNK v \<noteq> []" by (subst chunks.simps) (simp add: MAX_CHUNK_def)
  moreover have "\<forall>c \<in> set (chunks MAX_CHUNK v). length c \<le> 255"
    using chunks_bounds [of _ MAX_CHUNK v] by (auto simp: MAX_CHUNK_def)
  ultimately show ?thesis
    using decode_chunks [of "chunks MAX_CHUNK v" off es tag rest] False
    by (simp add: encode_entry_def concat_chunks MAX_CHUNK_def wire_chunk_def [abs_def])
qed

lemma extend_new: "tag \<notin> fst ` set es \<Longrightarrow> extend_entry es tag v = es @ [(tag, v)]"
  by (induction es tag v rule: extend_entry.induct) auto

lemma decode_encode_append:
  "distinct (map fst (es @ m)) \<Longrightarrow> decode_loop off es (tlv_encode m) = Ok (es @ m)"
proof (induction m arbitrary: off es)
  case (Cons p m)
  obtain tag v where p: "p = (tag, v)" by (cases p)
  from decode_entry [of off es tag v "tlv_encode m"] obtain off'
    where "decode_loop off es (tlv_encode (p # m)) = decode_loop off' (extend_entry es tag v) (tlv_encode m)"
    by (auto simp: tlv_encode_def p)
  moreover have "extend_entry es tag v = es @ [(tag, v)]" using Cons.prems by (intro extend_new) (simp add: p)
  moreover have "distinct (map fst ((es @ [(tag, v)]) @ m))" using Cons.prems by (simp add: p)
  ultimately show ?case using Cons.IH [of "es @ [(tag, v)]" off'] by (simp add: p)
qed (simp add: tlv_encode_def)

lemma decode_loop_distinct:
  "decode_loop off es bs = Ok m \<Longrightarrow> distinct (map fst es) \<Longrightarrow> distinct (map fst m)"
proof (induction off es bs rule: decode_loop.induct)
  case (3 off es tag len rest)
  have "distinct (map fst (extend_entry es tag (take (unat len) rest)))"
    using "3.prems"(2) by (auto simp: tags_extend)
  with 3 show ?case by (auto split: if_splits)
qed auto

lemma tlv_encode_append: "tlv_encode (a @ b) = tlv_encode a @ tlv_encode b"
  by (simp add: tlv_encode_def)

section \<open>Properties\<close>

text \<open>
  A TLV8 message survives the wire. Decoding the encoding of a message with distinct tags gives the
  message back, entries in the same order, values of any length (split into chunks of 255 bytes and
  joined again) and empty values included.
\<close>

theorem tlv_roundtrip:
  assumes "distinct (tlv_tags m)"
  shows "tlv_decode (tlv_encode m) = Ok m"
  using decode_encode_append [of "[]" m 0] assms by (simp add: tlv_decode_def tlv_tags_def)

theorem tlv_roundtrip_witness:
  "tlv_decode (tlv_encode [(6, [1]), (3, replicate 300 7), (7, [])]) = Ok [(6, [1]), (3, replicate 300 7), (7, [])]"
  by (rule tlv_roundtrip) (simp add: tlv_tags_def)

text \<open>
  \<open>Tlv8\<close> is a keyed store that keeps the order of first insertion. Of a message built by any
  sequence of \<open>with\<close> calls, each tag reads back the last value set for it, and every tag stands
  once, so the message is one the round trip covers.
\<close>

theorem tlv_build:
  "get_raw (foldl (\<lambda>m (t, v). set_raw m t v) [] kvs) t = map_of (rev kvs) t
   \<and> distinct (tlv_tags (foldl (\<lambda>m (t, v). set_raw m t v) [] kvs))
   \<and> set (tlv_tags (foldl (\<lambda>m (t, v). set_raw m t v) [] kvs)) = fst ` set kvs"
  using tlv.lookup_build [of "[]" kvs t] tlv.distinct_build [of "[]" kvs] tlv.set_order_build [of "[]" kvs]
  by (simp add: tlv.build_def tlv_tags_def split: option.splits)

text \<open>
  What \<open>decode\<close> accepts has every tag once, whatever the entries on the wire, so decoding is
  idempotent: re-encoding a decoded message and decoding it again gives the same message.
\<close>

theorem tlv_decode_idem:
  assumes "tlv_decode bs = Ok m"
  shows "distinct (tlv_tags m) \<and> tlv_decode (tlv_encode m) = Ok m"
proof -
  have d: "distinct (map fst m)" using decode_loop_distinct [of 0 "[]" bs m] assms by (simp add: tlv_decode_def)
  then show ?thesis using decode_encode_append [of "[]" m 0] by (simp add: tlv_decode_def tlv_tags_def)
qed

theorem tlv_decode_idem_witness:
  "distinct (tlv_tags [(1, [5, 6]), (2, [])]) \<and> tlv_decode (tlv_encode [(1, [5, 6]), (2, [])]) = Ok [(1, [5, 6]), (2, [])]"
  by (rule tlv_decode_idem [of "[1, 1, 5, 2, 0, 1, 1, 6]"]) (simp add: tlv_decode_def)

end
