(* ===== verification/Hap_Session.thy ===== *)
theory Hap_Session
  imports Chacha Framing Tlv8
begin

text \<open>
  The AirPlay HAP channel (\<open>crates/pyatv-pairing/src/session.rs\<close>): plaintext in chunks of at
  most 1024 bytes, each sealed under its two-byte length; the receiving side buffers what it is given
  and opens every frame that is complete. \<open>hap_loop\<close> is the \<open>while\<close> loop of \<open>decrypt\<close>
  over the bytes after \<open>consumed\<close>.
\<close>

definition FRAME_LENGTH :: nat where
  "FRAME_LENGTH = 1024"

definition LENGTH_PREFIX_LEN :: nat where
  "LENGTH_PREFIX_LEN = 2"

record hap_session =
  hap_cipher :: cipher
  hap_buffer :: bytes

definition hap_new :: "bytes \<Rightarrow> bytes \<Rightarrow> hap_session" where
  "hap_new ok ik = \<lparr>hap_cipher = cipher_new ok ik PaddedCounter, hap_buffer = []\<rparr>"

text \<open>One turn of the loop of \<open>encrypt\<close>: \<open>u16::try_from(len).unwrap_or(u16::MAX)\<close>, little-endian.\<close>

definition hap_prefix :: "nat \<Rightarrow> bytes" where
  "hap_prefix len = le_bytes 2 (if len < 65536 then len else 65535)"

definition hap_put :: "aead \<Rightarrow> cipher \<Rightarrow> bytes \<Rightarrow> pairing_error \<times> cipher + bytes \<times> cipher" where
  "hap_put A c chunk =
     (case cipher_encrypt A chunk (Some (hap_prefix (length chunk))) c of
        (Err e, c') \<Rightarrow> Err (e, c')
      | (Ok frame, c') \<Rightarrow> Ok (hap_prefix (length chunk) @ frame, c'))"

text \<open>\<open>encrypt\<close>: the output of the chunks in order; an error returns at once, with the counters moved.\<close>

definition hap_encrypt :: "aead \<Rightarrow> bytes \<Rightarrow> hap_session \<Rightarrow> (pairing_error + bytes) \<times> hap_session" where
  "hap_encrypt A plaintext s =
     (case send_all (hap_put A) (hap_cipher s) (chunks FRAME_LENGTH plaintext) of
        Err (e, c) \<Rightarrow> (Err e, s\<lparr>hap_cipher := c\<rparr>)
      | Ok (out, c) \<Rightarrow> (Ok out, s\<lparr>hap_cipher := c\<rparr>))"

definition framed_len :: "nat \<Rightarrow> nat" where
  "framed_len n = n + ((n + FRAME_LENGTH - 1) div FRAME_LENGTH) * (LENGTH_PREFIX_LEN + AUTH_TAG_LENGTH)"

text \<open>One turn of the loop of \<open>decrypt\<close>.\<close>

definition hap_step :: "aead \<Rightarrow> cipher \<Rightarrow> bytes \<Rightarrow> (pairing_error, bytes, cipher) frame_step" where
  "hap_step A c rest =
     (case get_range rest 0 LENGTH_PREFIX_LEN of
        None \<Rightarrow> More
      | Some len \<Rightarrow>
          let block_length = le_nat len + AUTH_TAG_LENGTH in
          case get_range rest LENGTH_PREFIX_LEN (LENGTH_PREFIX_LEN + block_length) of
            None \<Rightarrow> More
          | Some block \<Rightarrow>
              (case cipher_decrypt A block (Some len) c of
                 (Err e, c') \<Rightarrow> Bad e c'
               | (Ok plain, c') \<Rightarrow> Frame plain c' (LENGTH_PREFIX_LEN + block_length)))"

lemma hap_step_Frame:
  "hap_step A c b = Frame a c' n \<Longrightarrow> 0 < n \<and> n \<le> length b"
  by (auto simp: hap_step_def Let_def get_range_def LENGTH_PREFIX_LEN_def split: if_splits prod.splits sum.splits)

function hap_loop :: "aead \<Rightarrow> cipher \<Rightarrow> bytes \<Rightarrow> (pairing_error, bytes, cipher) drained" where
  "hap_loop A c rest =
     (case hap_step A c rest of
        More \<Rightarrow> ([], c, rest, None)
      | Bad e c' \<Rightarrow> ([], c', rest, Some e)
      | Frame plain c' n \<Rightarrow> add_frame plain (hap_loop A c' (drop n rest)))"
  by pat_completeness auto
termination by (relation "measure (\<lambda>(_, _, b). length b)") (auto dest: hap_step_Frame)

declare hap_loop.simps [simp del]

text \<open>\<open>decrypt\<close>: on an error the buffer has not been drained and what had been opened is dropped.\<close>

definition hap_decrypt :: "aead \<Rightarrow> bytes \<Rightarrow> hap_session \<Rightarrow> (pairing_error + bytes) \<times> hap_session" where
  "hap_decrypt A ciphertext s =
     (let b = hap_buffer s @ ciphertext in
      case hap_loop A (hap_cipher s) b of
        (outs, c, rest, None) \<Rightarrow> (Ok (concat outs), \<lparr>hap_cipher = c, hap_buffer = rest\<rparr>)
      | (outs, c, rest, Some e) \<Rightarrow> (Err e, \<lparr>hap_cipher = c, hap_buffer = b\<rparr>))"

text \<open>A sequence of reads, each passed to \<open>decrypt\<close>; an error ends the connection.\<close>

fun hap_feed :: "aead \<Rightarrow> hap_session \<Rightarrow> bytes list \<Rightarrow> pairing_error + bytes \<times> hap_session" where
  "hap_feed A s [] = Ok ([], s)"
| "hap_feed A s (r # rs) =
     (case hap_decrypt A r s of
        (Err e, s') \<Rightarrow> Err e
      | (Ok out, s') \<Rightarrow> rbind (hap_feed A s' rs) (\<lambda>(out', s''). Ok (out @ out', s'')))"

section \<open>The codec's laws\<close>

lemma hap_step_More_bytes: "length b < 2 \<Longrightarrow> hap_step A c b = More"
  by (auto simp: hap_step_def get_range_def LENGTH_PREFIX_LEN_def)

lemma hap_step_stable:
  "hap_step A c b = r \<Longrightarrow> r \<noteq> More \<Longrightarrow> hap_step A c (b @ x) = r"
proof -
  assume r: "hap_step A c b = r" and "r \<noteq> More"
  then obtain len block where len: "get_range b 0 LENGTH_PREFIX_LEN = Some len"
    and "get_range b LENGTH_PREFIX_LEN (LENGTH_PREFIX_LEN + (le_nat len + AUTH_TAG_LENGTH)) = Some block"
    by (auto simp: hap_step_def Let_def split: option.splits)
  with r get_range_append [OF len, of x] get_range_append [OF this(2), of x] show ?thesis
    by (simp add: hap_step_def)
qed

interpretation hap: stream_codec "hap_step A" "hap_loop A" for A
proof unfold_locales
  show "hap_loop A s b =
      (case hap_step A s b of More \<Rightarrow> ([], s, b, None) | Bad e s' \<Rightarrow> ([], s', b, Some e)
       | Frame a s' n \<Rightarrow> add_frame a (hap_loop A s' (drop n b)))" for s b
    by (rule hap_loop.simps)
qed (auto dest: hap_step_Frame intro: hap_step_stable)

definition hap_fits :: "bytes \<Rightarrow> bool" where
  "hap_fits chunk \<longleftrightarrow> length chunk < 65536"

lemma hap_prefix_value: "hap_fits chunk \<Longrightarrow> le_nat (hap_prefix (length chunk)) = length chunk"
  by (simp add: hap_prefix_def hap_fits_def le_nat_le_bytes)

lemma length_hap_prefix [simp]: "length (hap_prefix n) = 2"
  by (simp add: hap_prefix_def)

lemma hap_received:
  assumes "aead_ok A" and "hap_fits chunk" and "hap_put A c chunk = Ok (bs, c')" and "facing c d"
  shows "\<exists>d'. facing c' d' \<and> hap_step A d (bs @ rest) = Frame chunk d' (length bs)"
proof -
  from assms(3) obtain ct where e: "cipher_encrypt A chunk (Some (hap_prefix (length chunk))) c = (Ok ct, c')"
    and bs: "bs = hap_prefix (length chunk) @ ct"
    by (auto simp: hap_put_def split: prod.splits sum.splits)
  from decrypt_encrypted [OF assms(1,4) e] obtain d' where
    d: "cipher_decrypt A ct (Some (hap_prefix (length chunk))) d = (Ok chunk, d')" "facing c' d'"
    "length ct = length chunk + AUTH_TAG_LENGTH" by blast
  have "get_range (bs @ rest) 0 2 = Some (hap_prefix (length chunk))" by (simp add: bs get_range_def)
  moreover have "get_range (bs @ rest) 2 (2 + (length chunk + AUTH_TAG_LENGTH)) = Some ct"
    by (simp add: bs get_range_def d(3))
  ultimately show ?thesis
    using d by (auto simp: hap_step_def hap_prefix_value [OF assms(2)] LENGTH_PREFIX_LEN_def Let_def bs)
qed

text \<open>With an AEAD that does what it documents, \<open>hap_put\<close> and the loop are a framed pair.\<close>

lemma hap_framed_pair: "aead_ok A \<Longrightarrow> framed_pair (hap_step A) (hap_loop A) (hap_put A) (\<lambda>m. m) facing hap_fits"
  by unfold_locales (auto intro: hap_received hap_step_More_bytes)

interpretation toy_hap: framed_pair "hap_step toy_aead" "hap_loop toy_aead" "hap_put toy_aead" "\<lambda>m. m" facing hap_fits
  by (rule hap_framed_pair [OF toy_aead_ok])

section \<open>Sessions\<close>

lemma hap_feed_chunks:
  assumes "feed_chunks (hap_loop A) (hap_cipher s) (hap_buffer s) rs = (outs, c, rest, None)"
  shows "hap_feed A s rs = Ok (concat outs, \<lparr>hap_cipher = c, hap_buffer = rest\<rparr>)"
  using assms
proof (induction rs arbitrary: s outs)
  case (Cons r rs)
  obtain fs c1 b1 e where l: "hap_loop A (hap_cipher s) (hap_buffer s @ r) = (fs, c1, b1, e)"
    by (cases "hap_loop A (hap_cipher s) (hap_buffer s @ r)") auto
  with Cons.prems have e: "e = None" by (cases e) auto
  obtain gs t where f: "feed_chunks (hap_loop A) c1 b1 rs = (gs, t)" by (cases "feed_chunks (hap_loop A) c1 b1 rs")
  with Cons.prems l e have "outs = fs @ gs" "t = (c, rest, None)" by auto
  with Cons.IH [of "\<lparr>hap_cipher = c1, hap_buffer = b1\<rparr>" gs] f l e show ?case
    by (simp add: hap_decrypt_def)
qed simp

text \<open>The plaintexts sent one after another: each is cut into chunks of its own.\<close>

fun hap_send :: "aead \<Rightarrow> hap_session \<Rightarrow> bytes list \<Rightarrow> pairing_error + bytes \<times> hap_session" where
  "hap_send A s [] = Ok ([], s)"
| "hap_send A s (p # ps) =
     (case hap_encrypt A p s of
        (Err e, s') \<Rightarrow> Err e
      | (Ok out, s') \<Rightarrow> rbind (hap_send A s' ps) (\<lambda>(out', s''). Ok (out @ out', s'')))"

lemma hap_send_append:
  "hap_send A s (ps @ qs) = rbind (hap_send A s ps) (\<lambda>(a, s'). rbind (hap_send A s' qs) (\<lambda>(b, s''). Ok (a @ b, s'')))"
proof (induction ps arbitrary: s)
  case Nil
  show ?case by (cases "hap_send A s qs") auto
next
  case (Cons p ps)
  show ?case
    by (cases "hap_encrypt A p s")
      (auto simp: Cons rbind_assoc split_beta split: sum.split intro!: rbind_cong)
qed

lemma send_all_append:
  "send_all put t (xs @ ys) =
     rbind (send_all put t xs) (\<lambda>(a, t'). rbind (send_all put t' ys) (\<lambda>(b, t''). Ok (a @ b, t'')))"
proof (induction xs arbitrary: t)
  case Nil
  show ?case by (cases "send_all put t ys") auto
next
  case (Cons x xs)
  show ?case
    by (cases "put t x") (auto simp: Cons rbind_assoc split_beta intro!: rbind_cong)
qed

lemma hap_send_chunks:
  "hap_send A s ps = Ok (out, s') \<Longrightarrow>
     send_all (hap_put A) (hap_cipher s) (concat (map (chunks FRAME_LENGTH) ps)) = Ok (out, hap_cipher s')"
proof (induction ps arbitrary: s out)
  case (Cons p ps)
  from Cons.prems obtain o1 s1 o2 where e: "hap_encrypt A p s = (Ok o1, s1)" and r: "hap_send A s1 ps = Ok (o2, s')"
    and o: "out = o1 @ o2"
    by (auto simp: rbind_Ok_iff split: prod.splits sum.splits)
  from e have "send_all (hap_put A) (hap_cipher s) (chunks FRAME_LENGTH p) = Ok (o1, hap_cipher s1)"
    by (auto simp: hap_encrypt_def split: sum.splits prod.splits)
  with Cons.IH [OF r] o show ?case by (simp add: send_all_append)
qed auto

lemma hap_chunks_fit: "\<forall>m \<in> set (chunks FRAME_LENGTH p). hap_fits m"
  using chunks_bounds [of _ FRAME_LENGTH p] by (fastforce simp: hap_fits_def FRAME_LENGTH_def)

lemma concat_map_chunks: "concat (concat (map (chunks FRAME_LENGTH) ps)) = concat ps"
  by (induction ps) (simp_all add: concat_chunks FRAME_LENGTH_def)

lemma hap_stream_delivers:
  assumes "aead_ok A" and "hap_send A s ps = Ok (out, s')" and "facing (hap_cipher s) (hap_cipher d)"
    and "hap_buffer d = []" and "concat reads = out"
  shows "\<exists>d'. hap_feed A d reads = Ok (concat ps, d') \<and> hap_buffer d' = [] \<and> facing (hap_cipher s') (hap_cipher d')"
proof -
  let ?ms = "concat (map (chunks FRAME_LENGTH) ps)"
  have "\<forall>m \<in> set ?ms. hap_fits m" using hap_chunks_fit by auto
  from framed_pair.delivered [OF hap_framed_pair [OF assms(1)] hap_send_chunks [OF assms(2)] assms(3,5) this]
  obtain c where "facing (hap_cipher s') c"
    "feed_chunks (hap_loop A) (hap_cipher d) [] reads = (?ms, c, [], None)" by auto
  with hap_feed_chunks [of A d reads ?ms c "[]"] assms(4) show ?thesis by (auto simp: concat_map_chunks)
qed

text \<open>
  C4: the HAP channel delivers. Whatever plaintexts a session encrypts, and however the transport
  cuts the bytes into reads, the peer session decrypts exactly the same plaintext, with nothing left in
  its buffer and its counters in step for what follows.
\<close>

theorem hap_delivers:
  assumes "aead_ok A" and "hap_send A s ps = Ok (out, s')" and "facing (hap_cipher s) (hap_cipher d)"
    and "hap_buffer d = []" and "concat reads = out"
  shows "\<exists>d'. hap_feed A d reads = Ok (concat ps, d') \<and> hap_buffer d' = [] \<and> facing (hap_cipher s') (hap_cipher d')"
  using assms by (rule hap_stream_delivers)

lemma toy_sends:
  "hap_send toy_aead (hap_new [1] [2]) [[104, 105]] =
     Ok ([2, 0, 104, 105] @ replicate 12 0 @ [2, 0, 0, 0],
         \<lparr>hap_cipher = (cipher_new [1] [2] PaddedCounter)\<lparr>out_counter := 1\<rparr>, hap_buffer = []\<rparr>)"
proof -
  have "chunks FRAME_LENGTH [104, 105 :: u8] = [[104, 105]]"
    by (rule chunks_short) (simp_all add: FRAME_LENGTH_def)
  then show ?thesis
    by (simp add: hap_encrypt_def hap_put_def hap_new_def cipher_new_def cipher_encrypt_def next_counter_def
        out_nonce_def nonce_def Let_def NONCE_LENGTH_def seal_def toy_aead_def toy_tag_def payload_aad_def
        le_bytes_numeral hap_prefix_def replicate_eval)
qed

theorem hap_delivers_witness:
  "\<exists>d'. hap_feed toy_aead (hap_new [2] [1]) [[2], [0, 104], [105] @ replicate 12 0 @ [2, 0, 0, 0]]
      = Ok ([104, 105], d') \<and> hap_buffer d' = []"
  using hap_delivers [OF toy_aead_ok toy_sends, of "hap_new [2] [1]"
      "[[2], [0, 104], [105] @ replicate 12 0 @ [2, 0, 0, 0]]"]
  by (auto simp: hap_new_def facing_new)

text \<open>
  Reads do not matter to the HAP receiver. On any bytes, well formed or not, feeding the reads one
  after another to a session with an idle buffer gives the frames, the counters and the error (if there
  is one) that feeding all the bytes at once gives.
\<close>

theorem hap_reads_irrelevant:
  assumes "hap_step A c b = More"
  shows "outcome (feed_chunks (hap_loop A) c b reads) = outcome (hap_loop A c (b @ concat reads))"
  using assms by (rule hap.feed_concat)

theorem hap_reads_irrelevant_witness:
  "outcome (feed_chunks (hap_loop toy_aead) (with_padded_counter [1] [2]) [9] [[1, 2], [3]])
   = outcome (hap_loop toy_aead (with_padded_counter [1] [2]) ([9] @ concat [[1, 2], [3]]))"
  by (rule hap_reads_irrelevant) (simp add: hap_step_More_bytes)

text \<open>The toy AEAD seals whatever fits a frame.\<close>

lemma toy_seals:
  "p \<noteq> [] \<Longrightarrow> length p \<le> 1024 \<Longrightarrow> out_counter (hap_cipher s) = 0 \<Longrightarrow> \<exists>out s'. hap_send toy_aead s [p] = Ok (out, s') \<and> out \<noteq> []"
  by (simp add: hap_encrypt_def chunks_short FRAME_LENGTH_def hap_put_def cipher_encrypt_def next_counter_def seal_def toy_aead_def
      ok_or_def Let_def hap_prefix_def)

end
