(* ===== verification/Companion_Frame.thy ===== *)
theory Companion_Frame
  imports Prelude
begin

text \<open>
  The header of a Companion frame (\<open>crates/pyatv-proto-companion/src/frame.rs\<close>): a type byte and
  a three-byte big-endian length.
\<close>

definition HEADER_LENGTH :: nat where
  "HEADER_LENGTH = 4"

definition MAX_ENCODABLE_PAYLOAD :: nat where
  "MAX_ENCODABLE_PAYLOAD = 0x00FFFFFF"

datatype frame_type =
    FT_Unknown | FT_NoOp | FT_PsStart | FT_PsNext | FT_PvStart | FT_PvNext | FT_UOpack | FT_EOpack
  | FT_POpack | FT_PaReq | FT_PaRsp | FT_SessionStartRequest | FT_SessionStartResponse
  | FT_SessionData | FT_FamilyIdentityRequest | FT_FamilyIdentityResponse | FT_FamilyIdentityUpdate

text \<open>\<open>frame_type as u8\<close>.\<close>

fun frame_byte :: "frame_type \<Rightarrow> u8" where
  "frame_byte FT_Unknown = 0"
| "frame_byte FT_NoOp = 1"
| "frame_byte FT_PsStart = 3"
| "frame_byte FT_PsNext = 4"
| "frame_byte FT_PvStart = 5"
| "frame_byte FT_PvNext = 6"
| "frame_byte FT_UOpack = 7"
| "frame_byte FT_EOpack = 8"
| "frame_byte FT_POpack = 9"
| "frame_byte FT_PaReq = 10"
| "frame_byte FT_PaRsp = 11"
| "frame_byte FT_SessionStartRequest = 16"
| "frame_byte FT_SessionStartResponse = 17"
| "frame_byte FT_SessionData = 18"
| "frame_byte FT_FamilyIdentityRequest = 32"
| "frame_byte FT_FamilyIdentityResponse = 33"
| "frame_byte FT_FamilyIdentityUpdate = 34"

definition frame_from_byte :: "u8 \<Rightarrow> frame_type option" where
  "frame_from_byte b =
     (if b = 0 then Some FT_Unknown
      else if b = 1 then Some FT_NoOp
      else if b = 3 then Some FT_PsStart
      else if b = 4 then Some FT_PsNext
      else if b = 5 then Some FT_PvStart
      else if b = 6 then Some FT_PvNext
      else if b = 7 then Some FT_UOpack
      else if b = 8 then Some FT_EOpack
      else if b = 9 then Some FT_POpack
      else if b = 10 then Some FT_PaReq
      else if b = 11 then Some FT_PaRsp
      else if b = 16 then Some FT_SessionStartRequest
      else if b = 17 then Some FT_SessionStartResponse
      else if b = 18 then Some FT_SessionData
      else if b = 32 then Some FT_FamilyIdentityRequest
      else if b = 33 then Some FT_FamilyIdentityResponse
      else if b = 34 then Some FT_FamilyIdentityUpdate
      else None)"

fun is_auth :: "frame_type \<Rightarrow> bool" where
  "is_auth FT_PsStart = True"
| "is_auth FT_PsNext = True"
| "is_auth FT_PvStart = True"
| "is_auth FT_PvNext = True"
| "is_auth _ = False"

fun is_opack :: "frame_type \<Rightarrow> bool" where
  "is_opack FT_UOpack = True"
| "is_opack FT_EOpack = True"
| "is_opack FT_POpack = True"
| "is_opack _ = False"

fun response_type :: "frame_type \<Rightarrow> frame_type" where
  "response_type FT_PsStart = FT_PsNext"
| "response_type FT_PvStart = FT_PvNext"
| "response_type other = other"

text \<open>The framing errors of this crate, one constructor per message.\<close>

datatype framing_error =
    PayloadTooLong nat
  | HeaderTooShort nat
  | UnknownFrameType u8
  | OutboundTooLong frame_type nat
  | InboundTooLong frame_type nat

record frame_header =
  fh_type :: frame_type
  fh_length :: nat

definition header_new :: "frame_type \<Rightarrow> nat \<Rightarrow> framing_error + frame_header" where
  "header_new ty len =
     (if MAX_ENCODABLE_PAYLOAD < len then Err (PayloadTooLong len)
      else Ok \<lparr>fh_type = ty, fh_length = len\<rparr>)"

text \<open>The length saturates to \<open>u32\<close> and its low three bytes are kept.\<close>

definition header_encode :: "frame_header \<Rightarrow> bytes" where
  "header_encode h =
     (let len = be_bytes 4 (if fh_length h < 2 ^ 32 then fh_length h else 2 ^ 32 - 1) in
      frame_byte (fh_type h) # drop 1 len)"

definition header_decode :: "bytes \<Rightarrow> framing_error + frame_header" where
  "header_decode input =
     rbind (ok_or (get_range input 0 HEADER_LENGTH) (HeaderTooShort (length input))) (\<lambda>b.
     rbind (ok_or (frame_from_byte (b ! 0)) (UnknownFrameType (b ! 0))) (\<lambda>ty.
     Ok \<lparr>fh_type = ty, fh_length = be_nat [b ! 1, b ! 2, b ! 3]\<rparr>))"

definition total_length :: "frame_header \<Rightarrow> nat" where
  "total_length h = HEADER_LENGTH + fh_length h"

definition encode_frame :: "frame_type \<Rightarrow> bytes \<Rightarrow> framing_error + bytes" where
  "encode_frame ty payload =
     rbind (header_new ty (length payload)) (\<lambda>h. Ok (header_encode h @ payload))"

section \<open>Lemmas\<close>

lemma frame_from_byte_iff: "frame_from_byte b = Some t \<longleftrightarrow> b = frame_byte t"
  by (cases t) (auto simp: frame_from_byte_def)

lemma response_type_idem: "response_type (response_type t) = response_type t"
  by (cases t) simp_all

lemma auth_opack_disjoint: "\<not> (is_auth t \<and> is_opack t)"
  by (cases t) simp_all

lemma length_header [simp]: "length (header_encode h) = HEADER_LENGTH"
  by (simp add: header_encode_def Let_def HEADER_LENGTH_def)

lemma be_bytes_drop: "drop 1 (be_bytes (Suc k) n) = be_bytes k n"
proof -
  have "le_bytes (Suc k) n = le_bytes k n @ [word_of_nat (n div 256 ^ k mod 256)]"
  proof (induction k arbitrary: n)
    case (Suc k)
    then show ?case by (simp add: div_mult2_eq)
  qed simp
  then show ?thesis by (simp add: be_bytes_def)
qed

lemma list3: "length xs = 3 \<Longrightarrow> [xs ! 0, xs ! 1, xs ! 2] = xs"
  by (cases xs; cases "tl xs"; cases "tl (tl xs)") auto

text \<open>The four bytes of a header read back as the header, whatever follows them.\<close>

lemma header_encode_small:
  "fh_length h \<le> MAX_ENCODABLE_PAYLOAD \<Longrightarrow> header_encode h = frame_byte (fh_type h) # be_bytes 3 (fh_length h)"
  using be_bytes_drop [of 3 "fh_length h"] by (simp add: header_encode_def MAX_ENCODABLE_PAYLOAD_def)

lemma header_decode_Cons:
  assumes "length l = 3"
  shows "header_decode (b # l @ rest) =
    rbind (ok_or (frame_from_byte b) (UnknownFrameType b)) (\<lambda>ty. Ok \<lparr>fh_type = ty, fh_length = be_nat l\<rparr>)"
proof -
  have "get_range (b # l @ rest) 0 HEADER_LENGTH = Some (b # l)"
    using assms by (simp add: get_range_def HEADER_LENGTH_def)
  moreover have "[(b # l) ! 1, (b # l) ! 2, (b # l) ! 3] = l" using list3 [OF assms] by simp
  ultimately show ?thesis by (simp only: header_decode_def ok_or_simps rbind_simps nth_Cons_0)
qed

lemma header_decode_encode:
  assumes "fh_length h \<le> MAX_ENCODABLE_PAYLOAD"
  shows "header_decode (header_encode h @ rest) = Ok h"
  using assms
  by (simp add: header_encode_small header_decode_Cons frame_from_byte_iff [THEN iffD2]
      be_nat_be_bytes MAX_ENCODABLE_PAYLOAD_def)

lemma header_decode_append:
  "HEADER_LENGTH \<le> length b \<Longrightarrow> header_decode (b @ c) = header_decode b"
  by (simp add: header_decode_def get_range_def)

lemma header_decode_take:
  "HEADER_LENGTH \<le> length b \<Longrightarrow> header_decode (take HEADER_LENGTH b) = header_decode b"
  by (simp add: header_decode_def get_range_def)

end
