(* ===== verification/Companion_Codec.thy ===== *)
theory Companion_Codec
  imports Companion_Frame Chacha Framing
begin

text \<open>
  The Companion frame codec (\<open>crates/pyatv-proto-companion/src/codec.rs\<close>): the length that
  counts the tag before it becomes associated data, the empty payload that is never sealed, the limit
  on a payload, and the inbound buffer. \<open>companion_step\<close> and \<open>companion_loop\<close> are
  \<open>next_frame\<close> as \<open>recv_frame\<close> of \<open>connection.rs\<close> calls it, between one read and the
  next.
\<close>

datatype companion_error = Framing framing_error | Pairing pairing_error

definition MAX_FRAME_PAYLOAD :: nat where
  "MAX_FRAME_PAYLOAD = 1024 * 1024"

record companion_frame =
  cf_type :: frame_type
  cf_payload :: bytes

record frame_codec =
  codec_buffer :: bytes
  codec_cipher :: "cipher option"

definition codec_new :: frame_codec where
  "codec_new = \<lparr>codec_buffer = [], codec_cipher = None\<rparr>"

definition enable_encryption :: "bytes \<Rightarrow> bytes \<Rightarrow> frame_codec \<Rightarrow> frame_codec" where
  "enable_encryption output_key input_key s = s\<lparr>codec_cipher := Some (with_bare_counter output_key input_key)\<rparr>"

definition is_encrypted :: "frame_codec \<Rightarrow> bool" where
  "is_encrypted s \<longleftrightarrow> codec_cipher s \<noteq> None"

definition pending_bytes :: "frame_codec \<Rightarrow> nat" where
  "pending_bytes s = length (codec_buffer s)"

definition codec_encode :: "aead \<Rightarrow> frame_type \<Rightarrow> bytes \<Rightarrow> frame_codec \<Rightarrow> (companion_error + bytes) \<times> frame_codec" where
  "codec_encode A ty payload s =
     (let sealed_length = (if codec_cipher s \<noteq> None \<and> payload \<noteq> [] then length payload + AUTH_TAG_LENGTH
                           else length payload) in
      if MAX_FRAME_PAYLOAD < sealed_length then (Err (Framing (OutboundTooLong ty sealed_length)), s)
      else
        case header_new ty sealed_length of
          Err e \<Rightarrow> (Err (Framing e), s)
        | Ok header \<Rightarrow>
            (case codec_cipher s of
               Some c \<Rightarrow>
                 if payload \<noteq> [] then
                   (case cipher_encrypt A payload (Some (header_encode header)) c of
                      (Err e, c') \<Rightarrow> (Err (Pairing e), s\<lparr>codec_cipher := Some c'\<rparr>)
                    | (Ok body, c') \<Rightarrow> (Ok (header_encode header @ body), s\<lparr>codec_cipher := Some c'\<rparr>))
                 else (Ok (header_encode header @ payload), s)
             | None \<Rightarrow> (Ok (header_encode header @ payload), s)))"

definition push :: "bytes \<Rightarrow> frame_codec \<Rightarrow> frame_codec" where
  "push bs s = s\<lparr>codec_buffer := codec_buffer s @ bs\<rparr>"

definition next_frame :: "aead \<Rightarrow> frame_codec \<Rightarrow> (companion_error + companion_frame option) \<times> frame_codec" where
  "next_frame A s =
     (if length (codec_buffer s) < HEADER_LENGTH then (Ok None, s)
      else
        case header_decode (take HEADER_LENGTH (codec_buffer s)) of
          Err e \<Rightarrow> (Err (Framing e), s)
        | Ok header \<Rightarrow>
            if MAX_FRAME_PAYLOAD < fh_length header then
              (Err (Framing (InboundTooLong (fh_type header) (fh_length header))), s)
            else if length (codec_buffer s) < total_length header then (Ok None, s)
            else
              let frame = take (total_length header) (codec_buffer s);
                  s' = s\<lparr>codec_buffer := drop (total_length header) (codec_buffer s)\<rparr>;
                  body = drop HEADER_LENGTH frame
              in case codec_cipher s of
                   Some c \<Rightarrow>
                     if body \<noteq> [] then
                       (case cipher_decrypt A body (Some (header_encode header)) c of
                          (Err e, c') \<Rightarrow> (Err (Pairing e), s'\<lparr>codec_cipher := Some c'\<rparr>)
                        | (Ok payload, c') \<Rightarrow>
                            (Ok (Some \<lparr>cf_type = fh_type header, cf_payload = payload\<rparr>),
                             s'\<lparr>codec_cipher := Some c'\<rparr>))
                     else (Ok (Some \<lparr>cf_type = fh_type header, cf_payload = body\<rparr>), s')
                 | None \<Rightarrow> (Ok (Some \<lparr>cf_type = fh_type header, cf_payload = body\<rparr>), s'))"

definition codec_clear :: "frame_codec \<Rightarrow> frame_codec" where
  "codec_clear s = s\<lparr>codec_buffer := []\<rparr>"

section \<open>The reader\<close>

definition companion_step ::
  "aead \<Rightarrow> cipher option \<Rightarrow> bytes \<Rightarrow> (companion_error, companion_frame, cipher option) frame_step" where
  "companion_step A c b =
     (case next_frame A \<lparr>codec_buffer = b, codec_cipher = c\<rparr> of
        (Err e, s) \<Rightarrow> Bad e (codec_cipher s)
      | (Ok None, s) \<Rightarrow> More
      | (Ok (Some f), s) \<Rightarrow> Frame f (codec_cipher s) (length b - length (codec_buffer s)))"

lemma companion_step_Frame: "companion_step A c b = Frame f c' n \<Longrightarrow> 0 < n \<and> n \<le> length b"
  by (auto simp: companion_step_def next_frame_def Let_def total_length_def HEADER_LENGTH_def
      split: if_splits sum.splits option.splits prod.splits)

function companion_loop ::
  "aead \<Rightarrow> cipher option \<Rightarrow> bytes \<Rightarrow> (companion_error, companion_frame, cipher option) drained" where
  "companion_loop A c b =
     (case companion_step A c b of
        More \<Rightarrow> ([], c, b, None)
      | Bad e c' \<Rightarrow> ([], c', b, Some e)
      | Frame f c' n \<Rightarrow> add_frame f (companion_loop A c' (drop n b)))"
  by pat_completeness auto
termination by (relation "measure (\<lambda>(_, _, b). length b)") (auto dest: companion_step_Frame)

declare companion_loop.simps [simp del]

text \<open>\<open>next_frame\<close> once a whole frame is in the buffer.\<close>

definition opens :: "aead \<Rightarrow> cipher option \<Rightarrow> frame_header \<Rightarrow> bytes \<Rightarrow> (companion_error, companion_frame, cipher option) frame_step" where
  "opens A c h body =
     (case c of
        Some ci \<Rightarrow>
          if body \<noteq> [] then
            (case cipher_decrypt A body (Some (header_encode h)) ci of
               (Err e, c') \<Rightarrow> Bad (Pairing e) (Some c')
             | (Ok payload, c') \<Rightarrow> Frame \<lparr>cf_type = fh_type h, cf_payload = payload\<rparr> (Some c') (total_length h))
          else Frame \<lparr>cf_type = fh_type h, cf_payload = body\<rparr> c (total_length h)
      | None \<Rightarrow> Frame \<lparr>cf_type = fh_type h, cf_payload = body\<rparr> c (total_length h))"

lemma companion_step_eq:
  "companion_step A c b =
     (if length b < HEADER_LENGTH then More
      else case header_decode b of
        Err e \<Rightarrow> Bad (Framing e) c
      | Ok h \<Rightarrow>
          if MAX_FRAME_PAYLOAD < fh_length h then Bad (Framing (InboundTooLong (fh_type h) (fh_length h))) c
          else if length b < total_length h then More
          else opens A c h (take (fh_length h) (drop HEADER_LENGTH b)))"
proof -
  have "drop HEADER_LENGTH (take (total_length h) b) = take (fh_length h) (drop HEADER_LENGTH b)" for h
    by (simp add: total_length_def drop_take)
  then show ?thesis
    by (auto simp: companion_step_def next_frame_def header_decode_take Let_def opens_def
        split: sum.splits option.splits prod.splits)
qed

lemma companion_step_stable:
  assumes "companion_step A c b = r" and "r \<noteq> More"
  shows "companion_step A c (b @ x) = r"
  using assms
  by (auto simp: companion_step_eq header_decode_append total_length_def split: if_splits sum.splits)

interpretation companion: stream_codec "companion_step A" "companion_loop A" for A
proof unfold_locales
  show "companion_loop A s b =
      (case companion_step A s b of More \<Rightarrow> ([], s, b, None) | Bad e s' \<Rightarrow> ([], s', b, Some e)
       | Frame a s' n \<Rightarrow> add_frame a (companion_loop A s' (drop n b)))" for s b
    by (rule companion_loop.simps)
qed (auto dest: companion_step_Frame intro: companion_step_stable)

section \<open>The writer\<close>

text \<open>One \<open>encode\<close> call, as a step on the cipher alone: the buffer plays no part in it.\<close>

definition companion_put ::
  "aead \<Rightarrow> cipher option \<Rightarrow> companion_frame \<Rightarrow> companion_error + bytes \<times> cipher option" where
  "companion_put A c f =
     (case codec_encode A (cf_type f) (cf_payload f) \<lparr>codec_buffer = [], codec_cipher = c\<rparr> of
        (Err e, s) \<Rightarrow> Err e
      | (Ok bs, s) \<Rightarrow> Ok (bs, codec_cipher s))"

definition codecs_facing :: "cipher option \<Rightarrow> cipher option \<Rightarrow> bool" where
  "codecs_facing c d \<longleftrightarrow>
     (case (c, d) of (None, None) \<Rightarrow> True | (Some c', Some d') \<Rightarrow> facing c' d' | _ \<Rightarrow> False)"

lemma plain_received:
  assumes "length payload \<le> MAX_FRAME_PAYLOAD" and "c = None \<or> payload = []"
  shows "companion_step A c (header_encode \<lparr>fh_type = ty, fh_length = length payload\<rparr> @ payload @ rest)
    = Frame \<lparr>cf_type = ty, cf_payload = payload\<rparr> c (HEADER_LENGTH + length payload)"
  using assms
  by (cases c) (auto simp: companion_step_eq header_decode_encode MAX_FRAME_PAYLOAD_def MAX_ENCODABLE_PAYLOAD_def
      total_length_def opens_def)

lemma sealed_received:
  assumes "cipher_decrypt A body (Some (header_encode h)) d = (Ok payload, d')" and "fh_length h = length body"
    and "length body \<le> MAX_FRAME_PAYLOAD" and "body \<noteq> []"
  shows "companion_step A (Some d) (header_encode h @ body @ rest)
    = Frame \<lparr>cf_type = fh_type h, cf_payload = payload\<rparr> (Some d') (HEADER_LENGTH + length body)"
  using assms
  by (auto simp: companion_step_eq header_decode_encode MAX_FRAME_PAYLOAD_def MAX_ENCODABLE_PAYLOAD_def
      total_length_def opens_def)

lemma companion_received:
  assumes A: "aead_ok A" and p: "companion_put A c f = Ok (bs, c')" and fc: "codecs_facing c d"
  shows "\<exists>d'. codecs_facing c' d' \<and> companion_step A d (bs @ rest) = Frame f d' (length bs)"
proof (cases "\<exists>ci. c = Some ci \<and> cf_payload f \<noteq> []")
  case True
  then obtain ci di where c: "c = Some ci" "cf_payload f \<noteq> []" and d: "d = Some di" "facing ci di"
    using fc by (auto simp: codecs_facing_def split: option.splits)
  let ?h = "\<lparr>fh_type = cf_type f, fh_length = length (cf_payload f) + AUTH_TAG_LENGTH\<rparr>"
  from p c obtain body ci' where e: "cipher_encrypt A (cf_payload f) (Some (header_encode ?h)) ci = (Ok body, ci')"
    and bs: "bs = header_encode ?h @ body" and c': "c' = Some ci'"
    and l: "length (cf_payload f) + AUTH_TAG_LENGTH \<le> MAX_FRAME_PAYLOAD"
    by (auto simp: companion_put_def codec_encode_def Let_def header_new_def MAX_FRAME_PAYLOAD_def
        split: if_splits sum.splits prod.splits)
  from decrypt_encrypted [OF A d(2) e] obtain di' where
    "cipher_decrypt A body (Some (header_encode ?h)) di = (Ok (cf_payload f), di')" "facing ci' di'"
    "length body = length (cf_payload f) + AUTH_TAG_LENGTH" by blast
  moreover from this(3) have "body \<noteq> []" by (auto simp: AUTH_TAG_LENGTH_def)
  ultimately have "companion_step A d (bs @ rest) = Frame f (Some di') (length bs)" "facing ci' di'"
    using sealed_received [of A body ?h di "cf_payload f" di' rest] l d(1) by (simp_all add: bs)
  then show ?thesis by (intro exI [of _ "Some di'"]) (simp add: c' codecs_facing_def)
next
  case False
  then have n: "c = None \<or> cf_payload f = []" "d = None \<or> cf_payload f = []"
    using fc by (auto simp: codecs_facing_def split: option.splits)
  with p have "bs = header_encode \<lparr>fh_type = cf_type f, fh_length = length (cf_payload f)\<rparr> @ cf_payload f"
    "c' = c" "length (cf_payload f) \<le> MAX_FRAME_PAYLOAD"
    by (auto simp: companion_put_def codec_encode_def Let_def header_new_def MAX_FRAME_PAYLOAD_def
        split: if_splits sum.splits prod.splits option.splits)
  with plain_received [of "cf_payload f" d A "cf_type f" rest] n(2) fc show ?thesis by auto
qed

lemma companion_idle: "companion_step A c [] = More"
  by (simp add: companion_step_eq HEADER_LENGTH_def)

lemma companion_framed_pair:
  "aead_ok A \<Longrightarrow> framed_pair (companion_step A) (companion_loop A) (companion_put A) (\<lambda>f. f) codecs_facing (\<lambda>_. True)"
  by unfold_locales (auto intro: companion_received companion_idle)

interpretation toy_companion: framed_pair "companion_step toy_aead" "companion_loop toy_aead"
  "companion_put toy_aead" "\<lambda>f. f" codecs_facing "\<lambda>_. True"
  by (rule companion_framed_pair [OF toy_aead_ok])

text \<open>What \<open>encode\<close> writes of an empty payload, and of one that is sealed.\<close>

lemma empty_written:
  assumes "cf_payload f = []"
  shows "companion_put A c f = Ok (header_encode \<lparr>fh_type = cf_type f, fh_length = 0\<rparr>, c)"
  using assms by (simp add: companion_put_def codec_encode_def header_new_def split: option.split)

lemma sealed_written:
  assumes "companion_put A (Some ci) f = Ok (bs, c')" and "cf_payload f \<noteq> []"
  shows "\<exists>body ci'. cipher_encrypt A (cf_payload f)
      (Some (header_encode \<lparr>fh_type = cf_type f, fh_length = length (cf_payload f) + AUTH_TAG_LENGTH\<rparr>)) ci = (Ok body, ci')
    \<and> c' = Some ci' \<and> bs = header_encode \<lparr>fh_type = cf_type f, fh_length = length (cf_payload f) + AUTH_TAG_LENGTH\<rparr> @ body"
  using assms by (auto simp: companion_put_def codec_encode_def Let_def header_new_def split: if_splits sum.splits prod.splits)

section \<open>Properties\<close>

text \<open>
  C5: the Companion connection delivers. Every sequence of frames a codec encodes, encrypted or not,
  arrives at a facing codec as the same sequence of types and payloads, however
  the transport cuts the bytes into reads, with an empty buffer and counters in step afterwards. An empty
  payload stays unsealed, with or without a cipher: its frame is the header with length zero, and no counter moves. Any
  other payload goes out under the cipher once there is one, behind a header that counts the tag and is the
  associated data.
\<close>

theorem companion_delivers:
  assumes "aead_ok A" and "codecs_facing c d" and "send_all (companion_put A) c frames = Ok (out, c')"
    and "concat reads = out"
  shows "(\<exists>d'. codecs_facing c' d' \<and> feed_chunks (companion_loop A) d [] reads = (frames, d', [], None))
    \<and> (\<forall>f ci. cf_payload f = [] \<longrightarrow> companion_put A ci f = Ok (header_encode \<lparr>fh_type = cf_type f, fh_length = 0\<rparr>, ci))
    \<and> (\<forall>f ci bs ci'. cf_payload f \<noteq> [] \<and> companion_put A (Some ci) f = Ok (bs, ci') \<longrightarrow>
        (\<exists>body ck. cipher_encrypt A (cf_payload f)
            (Some (header_encode \<lparr>fh_type = cf_type f, fh_length = length (cf_payload f) + AUTH_TAG_LENGTH\<rparr>)) ci = (Ok body, ck)
          \<and> ci' = Some ck \<and> bs = header_encode \<lparr>fh_type = cf_type f, fh_length = length (cf_payload f) + AUTH_TAG_LENGTH\<rparr> @ body))"
  using framed_pair.delivered [OF companion_framed_pair [OF assms(1)] assms(3,2,4)] empty_written sealed_written by simp

theorem companion_delivers_witness:
  "\<exists>d'. feed_chunks (companion_loop toy_aead) None [] [[8, 0], [0, 2, 104], [105, 1, 0, 0, 0]] =
     ([\<lparr>cf_type = FT_EOpack, cf_payload = [104, 105]\<rparr>, \<lparr>cf_type = FT_NoOp, cf_payload = []\<rparr>], d', [], None)"
proof -
  have "send_all (companion_put toy_aead) None
      [\<lparr>cf_type = FT_EOpack, cf_payload = [104, 105]\<rparr>, \<lparr>cf_type = FT_NoOp, cf_payload = []\<rparr>]
      = Ok ([8, 0, 0, 2, 104, 105, 1, 0, 0, 0], None)"
    by (simp add: companion_put_def codec_encode_def header_new_def header_encode_def Let_def be_bytes_def
        MAX_FRAME_PAYLOAD_def MAX_ENCODABLE_PAYLOAD_def le_bytes_numeral)
  from companion_delivers [OF toy_aead_ok _ this, of None "[[8, 0], [0, 2, 104], [105, 1, 0, 0, 0]]"]
  show ?thesis by (auto simp: codecs_facing_def)
qed

text \<open>
  A frame the Companion codec refuses cannot grow the buffer. What is left in the buffer when the
  reader waits for more is smaller than one frame of the largest size accepted.
\<close>

theorem companion_buffer_bound:
  assumes "companion_loop A c b = (frames, c', rest, None)"
  shows "length rest < HEADER_LENGTH + MAX_FRAME_PAYLOAD"
proof -
  from companion.loop_rest [OF assms] have "companion_step A c' rest = More" .
  then show ?thesis
    by (auto simp: companion_step_eq opens_def total_length_def HEADER_LENGTH_def MAX_FRAME_PAYLOAD_def
        split: if_splits sum.splits option.splits prod.splits)
qed

theorem companion_buffer_bound_witness: "length [8, 0, 0 :: u8] < HEADER_LENGTH + MAX_FRAME_PAYLOAD"
  by (rule companion_buffer_bound [of toy_aead None "[8, 0, 0]" "[]" None])
    (simp add: companion_loop.simps companion_step_eq HEADER_LENGTH_def)

text \<open>
  The header round trip. Every header \<open>FrameHeader::new\<close> makes decodes from the front of
  the bytes it encodes to as itself, and its four bytes, which double as the associated data, differ
  whenever the type or the length differs.
\<close>

theorem header_roundtrip:
  assumes "header_new ty len = Ok h" and "header_new ty' len' = Ok h'"
  shows "header_decode (header_encode h @ rest) = Ok h
    \<and> (header_encode h = header_encode h' \<longrightarrow> ty = ty' \<and> len = len')"
proof -
  from assms have h: "h = \<lparr>fh_type = ty, fh_length = len\<rparr>" "h' = \<lparr>fh_type = ty', fh_length = len'\<rparr>"
    and l: "len \<le> MAX_ENCODABLE_PAYLOAD" "len' \<le> MAX_ENCODABLE_PAYLOAD"
    by (auto simp: header_new_def split: if_splits)
  have d: "header_decode (header_encode h @ x) = Ok h" "header_decode (header_encode h' @ x) = Ok h'" for x
    using l by (simp_all add: h header_decode_encode)
  have "h = h'" if "header_encode h = header_encode h'"
    using d(1) [of "[]"] d(2) [of "[]"] that by simp
  with d(1) h show ?thesis by auto
qed

theorem header_roundtrip_witness:
  "header_decode (header_encode \<lparr>fh_type = FT_EOpack, fh_length = 66051\<rparr> @ [1])
     = Ok \<lparr>fh_type = FT_EOpack, fh_length = 66051\<rparr>"
  using header_roundtrip [of FT_EOpack 66051 "\<lparr>fh_type = FT_EOpack, fh_length = 66051\<rparr>" FT_NoOp 0
      "\<lparr>fh_type = FT_NoOp, fh_length = 0\<rparr>" "[1]"]
  by (simp add: header_new_def MAX_ENCODABLE_PAYLOAD_def)

end
