(* ===== verification/Companion_Message.thy ===== *)
theory Companion_Message
  imports Companion_Codec Opack_Roundtrip
begin

text \<open>
  The envelope of a Companion message (\<open>crates/pyatv-proto-companion/src/message.rs\<close>): the keys,
  the message types, the dictionary an envelope becomes and the envelope a dictionary is read as.
  The \<open>Debug\<close> text of an error message that is not a string is the argument \<open>dbg\<close>.
\<close>

definition KEY_IDENTIFIER :: bytes where "KEY_IDENTIFIER = lit ''_i''"
definition KEY_TYPE :: bytes where "KEY_TYPE = lit ''_t''"
definition KEY_XID :: bytes where "KEY_XID = lit ''_x''"
definition KEY_CONTENT :: bytes where "KEY_CONTENT = lit ''_c''"
definition KEY_ERROR_MESSAGE :: bytes where "KEY_ERROR_MESSAGE = lit ''_em''"
definition KEY_ERROR_CODE :: bytes where "KEY_ERROR_CODE = lit ''_ec''"
definition KEY_ERROR_DOMAIN :: bytes where "KEY_ERROR_DOMAIN = lit ''_ed''"

lemmas key_defs = KEY_IDENTIFIER_def KEY_TYPE_def KEY_XID_def KEY_CONTENT_def KEY_ERROR_MESSAGE_def
  KEY_ERROR_CODE_def KEY_ERROR_DOMAIN_def

datatype message_type = Mt_Event | Mt_Request | Mt_Response

fun message_code :: "message_type \<Rightarrow> u64" where
  "message_code Mt_Event = 1"
| "message_code Mt_Request = 2"
| "message_code Mt_Response = 3"

definition message_from_code :: "u64 \<Rightarrow> message_type option" where
  "message_from_code code =
     (if code = 1 then Some Mt_Event
      else if code = 2 then Some Mt_Request
      else if code = 3 then Some Mt_Response
      else None)"

record command_error =
  ce_message :: bytes
  ce_code :: "u64 option"
  ce_domain :: "bytes option"

record envelope =
  en_identifier :: "bytes option"
  en_type :: "message_type option"
  en_xid :: "u32 option"
  en_content :: opack_value
  en_error :: "command_error option"

text \<open>The variants of the crate's error that this layer and the protocol above it return.\<close>

datatype awaiting = Await_Auth frame_type | Await_Xid u32

datatype 'io protocol_error =
    Codec companion_error
  | Opack opack_error
  | Envelope_Error
  | Rejected bytes bytes "u64 option" "bytes option"
  | Timeout awaiting
  | Already_Started
  | Closed bool
  | Io 'io

definition outgoing :: "bytes \<Rightarrow> message_type \<Rightarrow> opack_value \<Rightarrow> envelope" where
  "outgoing identifier ty content =
     \<lparr>en_identifier = Some identifier, en_type = Some ty, en_xid = None, en_content = content, en_error = None\<rparr>"

definition request :: "bytes \<Rightarrow> opack_value \<Rightarrow> envelope" where
  "request identifier content = outgoing identifier Mt_Request content"

definition event :: "bytes \<Rightarrow> opack_value \<Rightarrow> envelope" where
  "event identifier content = outgoing identifier Mt_Event content"

definition u32_value :: "u32 \<Rightarrow> opack_value" where
  "u32_value x = Uint (ucast x)"

definition to_value :: "envelope \<Rightarrow> opack_value" where
  "to_value e = Dict
     ((case en_identifier e of None \<Rightarrow> [] | Some i \<Rightarrow> [(String KEY_IDENTIFIER, String i)])
      @ (case en_type e of None \<Rightarrow> [] | Some t \<Rightarrow> [(String KEY_TYPE, Uint (message_code t))])
      @ [(String KEY_CONTENT, en_content e)]
      @ (case en_xid e of None \<Rightarrow> [] | Some x \<Rightarrow> [(String KEY_XID, u32_value x)]))"

text \<open>\<open>u32::try_from(x).ok()\<close>.\<close>

definition u32_try_from :: "u64 \<Rightarrow> u32 option" where
  "u32_try_from x = (if unat x < 2 ^ 32 then Some (ucast x) else None)"

definition value_error :: "(opack_value \<Rightarrow> bytes) \<Rightarrow> opack_value \<Rightarrow> command_error option" where
  "value_error dbg v =
     map_option (\<lambda>m. \<lparr>ce_message = (case as_str m of Some s \<Rightarrow> s | None \<Rightarrow> dbg m),
                      ce_code = Option.bind (value_get v KEY_ERROR_CODE) as_u64,
                      ce_domain = Option.bind (value_get v KEY_ERROR_DOMAIN) as_str\<rparr>)
       (value_get v KEY_ERROR_MESSAGE)"

definition from_value :: "(opack_value \<Rightarrow> bytes) \<Rightarrow> opack_value \<Rightarrow> 'io protocol_error + envelope" where
  "from_value dbg v =
     (if as_dict v = None then Err Envelope_Error
      else Ok \<lparr>en_identifier = Option.bind (value_get v KEY_IDENTIFIER) as_str,
               en_type = Option.bind (Option.bind (value_get v KEY_TYPE) as_u64) message_from_code,
               en_xid = Option.bind (Option.bind (value_get v KEY_XID) as_u64) u32_try_from,
               en_content = (case value_get v KEY_CONTENT of Some c \<Rightarrow> c | None \<Rightarrow> Dict []),
               en_error = value_error dbg v\<rparr>)"

definition into_result :: "envelope \<Rightarrow> 'io protocol_error + envelope" where
  "into_result e =
     (case en_error e of
        None \<Rightarrow> Ok e
      | Some err \<Rightarrow> Err (Rejected (case en_identifier e of Some i \<Rightarrow> i | None \<Rightarrow> lit ''<unnamed>'')
                         (ce_message err) (ce_code err) (ce_domain err)))"

section \<open>Lemmas\<close>

lemma message_code_inv: "message_from_code (message_code t) = Some t"
  by (cases t) (simp_all add: message_from_code_def)

lemma u32_try_from_ucast: "u32_try_from (ucast x) = Some x"
proof -
  have u: "unat (ucast x :: u64) = unat x" using unat_u32_bound [of x] by (simp add: unsigned_ucast_eq take_bit_nat_eq_self)
  have "unat (ucast (ucast x :: u64) :: u32) = take_bit 32 (unat (ucast x :: u64))"
    by (subst unsigned_ucast_eq) (simp only: unsigned_take_bit_eq len_num1 len_bit0 mult_1_right, simp)
  with u have "(ucast (ucast x :: u64) :: u32) = x"
    using unat_u32_bound [of x] by (simp add: word_unat_eq_iff take_bit_nat_eq_self)
  with u show ?thesis using unat_u32_bound [of x] by (simp add: u32_try_from_def)
qed

lemma as_u64_canon: "as_u64 (canon v) = as_u64 v"
  by (cases v) (simp_all add: as_u64_def)

lemma as_str_canon: "as_str (canon v) = as_str v"
  by (cases v) (simp_all add: as_str_def)

lemma value_get_Dict_Cons:
  "value_get (Dict ((k, v) # es)) key = (if as_str k = Some key then Some v else value_get (Dict es) key)"
  by (simp add: value_get_def)

lemma value_get_Dict_Nil: "value_get (Dict []) key = None"
  by (simp add: value_get_def)

lemma value_get_canon: "value_get (canon v) key = map_option canon (value_get v key)"
proof (cases v)
  case (Dict es)
  have "value_get (Dict (map (\<lambda>(k, v). (canon k, canon v)) es)) key = map_option canon (value_get (Dict es) key)"
    by (induction es) (auto simp: value_get_Dict_Cons value_get_Dict_Nil as_str_canon)
  with Dict show ?thesis by simp
qed (simp_all add: value_get_def)

lemma as_dict_canon: "as_dict (canon v) = None \<longleftrightarrow> as_dict v = None"
  by (cases v) (simp_all add: as_dict_def)

text \<open>An envelope read from a decoded value is the envelope of the value that was encoded.\<close>

lemma from_value_canon:
  "en_error e = None \<Longrightarrow> (from_value dbg v :: 'io protocol_error + envelope) = Ok e \<Longrightarrow>
     (from_value dbg (canon v) :: 'io protocol_error + envelope) = Ok (e\<lparr>en_content := canon (en_content e)\<rparr>)"
  by (auto simp: from_value_def value_error_def value_get_canon as_dict_canon as_u64_canon as_str_canon
      Option.bind_map_option comp_def split: if_splits option.splits)

lemma from_to_value:
  assumes "en_error e = None"
  shows "from_value dbg (to_value e) = Ok e"
proof -
  have "from_value dbg (to_value e) = Ok (e\<lparr>en_error := None\<rparr>)"
    by (simp add: from_value_def to_value_def value_error_def value_get_Dict_Cons value_get_Dict_Nil as_dict_def as_str_def
        as_u64_def u32_value_def message_code_inv u32_try_from_ucast key_defs split: option.splits)
  with assms show ?thesis by (cases e) simp
qed

end
