(* ===== verification/Companion_Protocol.thy ===== *)
theory Companion_Protocol
  imports Companion_Message
begin

text \<open>
  The Companion protocol driver (\<open>crates/pyatv-proto-companion/src/protocol.rs\<close>) on its connection
  (\<open>connection.rs\<close>): transaction identifiers, the correlation of responses, the stash, the events.

  The socket is the list of what its reads will bring: bytes, a failure, or nothing before the caller
  gives up (\<open>Stalls\<close>, which is where a deadline strikes; a list that has run out stalls as well). A call
  that waits returns \<open>None\<close> when it is still waiting then. The outcomes of the writes are a list too,
  and a write past its end succeeds. \<open>proto_env\<close> holds what is not the crate's own: the AEAD, the size of a value and
  the hash of the OPACK decoder, and the \<open>Debug\<close> text of a value. What pair-verify returns is an argument of
  \<open>start\<close>.
\<close>

datatype 'io transport_read = Arrives bytes | Fails 'io | Stalls

record 'io connection =
  cn_codec :: frame_codec
  cn_reads :: "'io transport_read list"
  cn_writes :: "'io option list"
  cn_sent :: "bytes list"

record proto_env =
  pe_aead :: aead
  pe_digest :: "opack_value \<Rightarrow> u64"
  pe_cost :: nat
  pe_debug :: "opack_value \<Rightarrow> bytes"

section \<open>The connection\<close>

fun recv_loop ::
  "aead \<Rightarrow> frame_codec \<Rightarrow> 'io transport_read list
   \<Rightarrow> ('io protocol_error + companion_frame) option \<times> frame_codec \<times> 'io transport_read list" where
  "recv_loop A c ins =
     (case next_frame A c of
        (Err e, c') \<Rightarrow> (Some (Err (Codec e)), c', ins)
      | (Ok (Some f), c') \<Rightarrow> (Some (Ok f), c', ins)
      | (Ok None, c') \<Rightarrow>
          (case ins of
             [] \<Rightarrow> (None, c', [])
           | Stalls # ins' \<Rightarrow> (None, c', ins')
           | Fails e # ins' \<Rightarrow> (Some (Err (Io e)), c', ins')
           | Arrives b # ins' \<Rightarrow>
               if b = [] then (Some (Err (Closed (codec_buffer c' \<noteq> []))), c', ins')
               else recv_loop A (push b c') ins'))"

declare recv_loop.simps [simp del]

definition recv_frame :: "aead \<Rightarrow> 'io connection \<Rightarrow> ('io protocol_error + companion_frame) option \<times> 'io connection" where
  "recv_frame A cn =
     (let (res, c, ins) = recv_loop A (cn_codec cn) (cn_reads cn) in
      (res, cn\<lparr>cn_codec := c, cn_reads := ins\<rparr>))"

definition socket_write_all :: "bytes \<Rightarrow> 'io connection \<Rightarrow> ('io protocol_error + unit) \<times> 'io connection" where
  "socket_write_all bs cn =
     (case cn_writes cn of
        Some e # ws \<Rightarrow> (Err (Io e), cn\<lparr>cn_writes := ws\<rparr>)
      | None # ws \<Rightarrow> (Ok (), cn\<lparr>cn_writes := ws, cn_sent := cn_sent cn @ [bs]\<rparr>)
      | [] \<Rightarrow> (Ok (), cn\<lparr>cn_sent := cn_sent cn @ [bs]\<rparr>))"

definition send_frame :: "aead \<Rightarrow> frame_type \<Rightarrow> bytes \<Rightarrow> 'io connection \<Rightarrow> ('io protocol_error + unit) \<times> 'io connection" where
  "send_frame A ty payload cn =
     (case codec_encode A ty payload (cn_codec cn) of
        (Err e, c) \<Rightarrow> (Err (Codec e), cn\<lparr>cn_codec := c\<rparr>)
      | (Ok encoded, c) \<Rightarrow> socket_write_all encoded (cn\<lparr>cn_codec := c\<rparr>))"

definition connection_enable_encryption :: "bytes \<Rightarrow> bytes \<Rightarrow> 'io connection \<Rightarrow> 'io connection" where
  "connection_enable_encryption output_key input_key cn =
     cn\<lparr>cn_codec := enable_encryption output_key input_key (cn_codec cn)\<rparr>"

text \<open>\<open>shutdown\<close> is what the socket answers; one that is not connected any more counts as closed.\<close>

definition connection_close :: "('io \<Rightarrow> bool) \<Rightarrow> 'io option \<Rightarrow> 'io connection \<Rightarrow> ('io protocol_error + unit) \<times> 'io connection" where
  "connection_close not_connected shutdown cn =
     (case shutdown of
        None \<Rightarrow> Ok ()
      | Some e \<Rightarrow> if not_connected e then Ok () else Err (Io e),
      cn\<lparr>cn_codec := codec_clear (cn_codec cn)\<rparr>)"

section \<open>The protocol\<close>

definition MAX_OUTSTANDING :: nat where
  "MAX_OUTSTANDING = 16"

record companion_event =
  ev_name :: bytes
  ev_content :: opack_value

record 'io proto =
  pr_conn :: "'io connection"
  pr_xid :: u32
  pr_outstanding :: "u32 list"
  pr_stash :: "u32 \<rightharpoonup> opack_value"
  pr_events :: "companion_event list"
  pr_listening :: bool
  pr_started :: bool

definition with_xid :: "'io connection \<Rightarrow> u32 \<Rightarrow> 'io proto" where
  "with_xid cn xid =
     \<lparr>pr_conn = cn, pr_xid = xid, pr_outstanding = [], pr_stash = Map.empty, pr_events = [],
      pr_listening = True, pr_started = False\<rparr>"

definition next_xid :: "'io proto \<Rightarrow> u32 \<times> 'io proto" where
  "next_xid s = (pr_xid s, s\<lparr>pr_xid := pr_xid s + 1\<rparr>)"

fun evict :: "u32 list \<Rightarrow> (u32 \<rightharpoonup> opack_value) \<Rightarrow> u32 list \<times> (u32 \<rightharpoonup> opack_value)" where
  "evict [] stash = ([], stash)"
| "evict (x # xs) stash = (if MAX_OUTSTANDING \<le> length (x # xs) then evict xs (stash(x := None)) else (x # xs, stash))"

definition issue :: "u32 \<Rightarrow> 'io proto \<Rightarrow> 'io proto" where
  "issue xid s =
     (let (outstanding, stash) = evict (pr_outstanding s) (pr_stash s) in
      s\<lparr>pr_outstanding := outstanding @ [xid], pr_stash := stash\<rparr>)"

definition resolve :: "u32 \<Rightarrow> 'io proto \<Rightarrow> 'io proto" where
  "resolve xid s =
     s\<lparr>pr_outstanding := filter (\<lambda>x. x \<noteq> xid) (pr_outstanding s), pr_stash := (pr_stash s)(xid := None)\<rparr>"

definition has_xid :: "(opack_value \<times> opack_value) list \<Rightarrow> bool" where
  "has_xid entries = list_ex (\<lambda>(k, _). as_str k = Some KEY_XID) entries"

definition send_opack :: "proto_env \<Rightarrow> frame_type \<Rightarrow> opack_value \<Rightarrow> 'io proto \<Rightarrow> ('io protocol_error + unit) \<times> 'io proto" where
  "send_opack env ty payload s =
     (case payload of
        Dict entries \<Rightarrow>
          let (entries, s) =
                (if \<not> has_xid entries
                 then let (xid, s) = next_xid s in (entries @ [(String KEY_XID, u32_value xid)], s)
                 else (entries, s))
          in (case pack (Dict entries) of
                Err e \<Rightarrow> (Err (Opack e), s)
              | Ok packed \<Rightarrow>
                  let (res, cn) = send_frame (pe_aead env) ty packed (pr_conn s) in (res, s\<lparr>pr_conn := cn\<rparr>))
      | _ \<Rightarrow> (Err Envelope_Error, s))"

definition stash_response :: "envelope \<Rightarrow> opack_value \<Rightarrow> 'io proto \<Rightarrow> 'io proto" where
  "stash_response e v s =
     (case en_xid e of
        None \<Rightarrow> s
      | Some xid \<Rightarrow>
          if xid \<notin> set (pr_outstanding s) then s
          else s\<lparr>pr_stash := (pr_stash s)(xid \<mapsto> v)\<rparr>)"

definition dispatch_response :: "awaiting \<Rightarrow> envelope \<Rightarrow> opack_value \<Rightarrow> 'io proto \<Rightarrow> opack_value option \<times> 'io proto" where
  "dispatch_response aw e v s =
     (case en_xid e of
        None \<Rightarrow> (None, s)
      | Some xid \<Rightarrow>
          if (case aw of Await_Xid wanted \<Rightarrow> wanted = xid | _ \<Rightarrow> False) then (Some v, s)
          else (None, stash_response e v s))"

definition dispatch_event :: "envelope \<Rightarrow> 'io proto \<Rightarrow> 'io proto" where
  "dispatch_event e s =
     (case en_identifier e of
        None \<Rightarrow> s
      | Some name \<Rightarrow>
          if pr_listening s then s\<lparr>pr_events := pr_events s @ [\<lparr>ev_name = name, ev_content = en_content e\<rparr>]\<rparr> else s)"

text \<open>What \<open>read_and_dispatch\<close> does with a frame once it has been read.\<close>

definition dispatch_frame :: "proto_env \<Rightarrow> awaiting option \<Rightarrow> companion_frame \<Rightarrow> 'io proto \<Rightarrow> opack_value option \<times> 'io proto" where
  "dispatch_frame env aw f s =
     (if is_auth (cf_type f) \<or> is_opack (cf_type f) then
        (case unpack (pe_digest env) (pe_cost env) (cf_payload f) of
           Err e \<Rightarrow> (None, s)
         | Ok (v, _) \<Rightarrow>
             if is_auth (cf_type f) then
               (case aw of
                  Some (Await_Auth wanted) \<Rightarrow> (if wanted = cf_type f then Some v else None, s)
                | _ \<Rightarrow> (None, s))
             else
               (case (from_value (pe_debug env) v :: 'io protocol_error + envelope) of
                  Err e \<Rightarrow> (None, s)
                | Ok e \<Rightarrow>
                    (case en_type e of
                       Some Mt_Event \<Rightarrow> (None, dispatch_event e s)
                     | Some Mt_Response \<Rightarrow>
                         (case aw of
                            Some awaiting \<Rightarrow> dispatch_response awaiting e v s
                          | None \<Rightarrow> (None, stash_response e v s))
                     | Some Mt_Request \<Rightarrow> (None, s)
                     | None \<Rightarrow> (None, s))))
      else (None, s))"

definition read_and_dispatch ::
  "proto_env \<Rightarrow> awaiting option \<Rightarrow> 'io proto \<Rightarrow> ('io protocol_error + opack_value option) option \<times> 'io proto" where
  "read_and_dispatch env aw s =
     (case recv_frame (pe_aead env) (pr_conn s) of
        (None, cn) \<Rightarrow> (None, s\<lparr>pr_conn := cn\<rparr>)
      | (Some (Err e), cn) \<Rightarrow> (Some (Err e), s\<lparr>pr_conn := cn\<rparr>)
      | (Some (Ok f), cn) \<Rightarrow> (let (v, s') = dispatch_frame env aw f (s\<lparr>pr_conn := cn\<rparr>) in (Some (Ok v), s')))"

text \<open>What is still to be read, so that a loop of reads ends.\<close>

fun read_size :: "'io transport_read \<Rightarrow> nat" where
  "read_size (Arrives b) = length b"
| "read_size (Fails e) = 0"
| "read_size Stalls = 0"

definition unread :: "'io connection \<Rightarrow> nat" where
  "unread cn = length (codec_buffer (cn_codec cn)) + sum_list (map read_size (cn_reads cn))"

lemma next_frame_shrinks:
  "next_frame A c = (Ok (Some f), c') \<Longrightarrow> length (codec_buffer c') < length (codec_buffer c)"
  by (auto simp: next_frame_def Let_def total_length_def HEADER_LENGTH_def split: if_splits sum.splits option.splits prod.splits)

lemma next_frame_waits: "next_frame A c = (Ok None, c') \<Longrightarrow> c' = c"
  by (auto simp: next_frame_def Let_def split: if_splits sum.splits option.splits prod.splits)

lemma recv_loop_Frame: "next_frame A c = (Ok (Some f), c') \<Longrightarrow> recv_loop A c ins = (Some (Ok f), c', ins)"
  by (subst recv_loop.simps) simp

lemma recv_loop_read:
  assumes "next_frame A c = (Ok None, c')"
  shows "recv_loop A c ins =
    (case ins of
       [] \<Rightarrow> (None, c, [])
     | Stalls # ins' \<Rightarrow> (None, c, ins')
     | Fails e # ins' \<Rightarrow> (Some (Err (Io e)), c, ins')
     | Arrives b # ins' \<Rightarrow>
         if b = [] then (Some (Err (Closed (codec_buffer c \<noteq> []))), c, ins') else recv_loop A (push b c) ins')"
  using assms next_frame_waits [OF assms] by (subst recv_loop.simps) (simp split: list.splits transport_read.splits)

lemma recv_loop_shrinks:
  "recv_loop A c ins = (Some (Ok f), c', ins') \<Longrightarrow>
     length (codec_buffer c') + sum_list (map read_size ins') < length (codec_buffer c) + sum_list (map read_size ins)"
proof (induction ins arbitrary: c)
  case Nil
  obtain r c1 where n: "next_frame A c = (r, c1)" by (cases "next_frame A c")
  with Nil next_frame_shrinks [of A c _ c1] show ?case
    by (subst (asm) recv_loop.simps) (auto split: sum.splits option.splits)
next
  case (Cons i ins)
  obtain r c1 where n: "next_frame A c = (r, c1)" by (cases "next_frame A c")
  show ?case
  proof (cases "r = Ok None")
    case True
    with n have n': "next_frame A c = (Ok None, c1)" by simp
    from Cons.prems Cons.IH [of "push (case i of Arrives b \<Rightarrow> b) c"] show ?thesis
      by (simp add: recv_loop_read [OF n'] split: transport_read.splits if_splits) (simp add: push_def)
  next
    case False
    with n Cons.prems next_frame_shrinks [of A c _ c1] show ?thesis
      by (subst (asm) recv_loop.simps) (auto split: sum.splits option.splits)
  qed
qed

lemma recv_frame_shrinks: "recv_frame A cn = (Some (Ok f), cn') \<Longrightarrow> unread cn' < unread cn"
  using recv_loop_shrinks [of A "cn_codec cn" "cn_reads cn" f] by (auto simp: recv_frame_def unread_def split: prod.splits)

lemma dispatch_frame_conn: "dispatch_frame env aw f s = (v, s') \<Longrightarrow> pr_conn s' = pr_conn s"
  by (auto simp: dispatch_frame_def dispatch_event_def dispatch_response_def stash_response_def
      split: if_splits sum.splits option.splits message_type.splits awaiting.splits prod.splits)

function pump_inner_loop ::
  "proto_env \<Rightarrow> awaiting \<Rightarrow> 'io proto \<Rightarrow> ('io protocol_error + opack_value) option \<times> 'io proto" where
  "pump_inner_loop env aw s =
     (case read_and_dispatch env (Some aw) s of
        (None, s') \<Rightarrow> (None, s')
      | (Some (Err e), s') \<Rightarrow> (Some (Err e), s')
      | (Some (Ok (Some v)), s') \<Rightarrow> (Some (Ok v), s')
      | (Some (Ok None), s') \<Rightarrow> pump_inner_loop env aw s')"
  by pat_completeness auto
termination
proof (relation "measure (\<lambda>(_, _, s). unread (pr_conn s))")
  fix env aw and s s' :: "'io proto" and o' r m
  show "wf (measure (\<lambda>(_, _, s :: 'io proto). unread (pr_conn s)))" by simp
qed (auto simp: read_and_dispatch_def dest!: recv_frame_shrinks dispatch_frame_conn split: prod.splits sum.splits option.splits)

declare pump_inner_loop.simps [simp del]

definition pump_inner :: "proto_env \<Rightarrow> awaiting \<Rightarrow> 'io proto \<Rightarrow> ('io protocol_error + opack_value) option \<times> 'io proto" where
  "pump_inner env aw s =
     (case aw of
        Await_Xid xid \<Rightarrow>
          (case pr_stash s xid of
             Some v \<Rightarrow> (Some (Ok v), s\<lparr>pr_stash := (pr_stash s)(xid := None)\<rparr>)
           | None \<Rightarrow> pump_inner_loop env aw s)
      | _ \<Rightarrow> pump_inner_loop env aw s)"

definition pump :: "proto_env \<Rightarrow> awaiting \<Rightarrow> 'io proto \<Rightarrow> ('io protocol_error + opack_value) \<times> 'io proto" where
  "pump env aw s =
     (let (outcome, s1) = pump_inner env aw s;
          s2 = (case aw of Await_Xid xid \<Rightarrow> resolve xid s1 | _ \<Rightarrow> s1)
      in (case outcome of
            None \<Rightarrow> Err (Timeout aw)
          | Some (Err e) \<Rightarrow> Err e
          | Some (Ok v) \<Rightarrow> rbind (from_value (pe_debug env) v) (\<lambda>e. rbind (into_result e) (\<lambda>_. Ok v)),
          s2))"

section \<open>Operations\<close>

definition exchange_auth :: "proto_env \<Rightarrow> frame_type \<Rightarrow> opack_value \<Rightarrow> 'io proto \<Rightarrow> ('io protocol_error + opack_value) \<times> 'io proto" where
  "exchange_auth env ty payload s =
     (case send_opack env ty payload s of
        (Err e, s') \<Rightarrow> (Err e, s')
      | (Ok _, s') \<Rightarrow> pump env (Await_Auth (response_type ty)) s')"

definition stamp :: "(opack_value \<times> opack_value) list \<Rightarrow> u32 \<Rightarrow> opack_value" where
  "stamp entries xid =
     Dict (filter (\<lambda>(k, _). as_str k \<noteq> Some KEY_XID) entries @ [(String KEY_XID, u32_value xid)])"

definition exchange_opack :: "proto_env \<Rightarrow> frame_type \<Rightarrow> opack_value \<Rightarrow> 'io proto \<Rightarrow> ('io protocol_error + opack_value) \<times> 'io proto" where
  "exchange_opack env ty payload s =
     (case payload of
        Dict entries \<Rightarrow>
          let (xid, s1) = next_xid s;
              s2 = issue xid s1
          in (case send_opack env ty (stamp entries xid) s2 of
                (Err e, s3) \<Rightarrow> (Err e, s3)
              | (Ok _, s3) \<Rightarrow> pump env (Await_Xid xid) s3)
      | _ \<Rightarrow> (Err Envelope_Error, s))"

definition send_command :: "proto_env \<Rightarrow> bytes \<Rightarrow> opack_value \<Rightarrow> 'io proto \<Rightarrow> ('io protocol_error + envelope) \<times> 'io proto" where
  "send_command env identifier content s =
     (let (res, s') = exchange_opack env FT_EOpack (to_value (request identifier content)) s in
      (rbind res (from_value (pe_debug env)), s'))"

definition send_event :: "proto_env \<Rightarrow> bytes \<Rightarrow> opack_value \<Rightarrow> 'io proto \<Rightarrow> ('io protocol_error + unit) \<times> 'io proto" where
  "send_event env identifier content s = send_opack env FT_EOpack (to_value (event identifier content)) s"

definition poll_once :: "proto_env \<Rightarrow> 'io proto \<Rightarrow> ('io protocol_error + unit) option \<times> 'io proto" where
  "poll_once env s =
     (let (res, s') = read_and_dispatch env None s in (map_option (\<lambda>r. rbind r (\<lambda>_. Ok ())) res, s'))"

definition start ::
  "('c \<Rightarrow> 'io proto \<Rightarrow> ('io protocol_error + bytes \<times> bytes) \<times> 'io proto) \<Rightarrow> 'c option \<Rightarrow> 'io proto
   \<Rightarrow> ('io protocol_error + unit) \<times> 'io proto" where
  "start verify credentials s =
     (if pr_started s then (Err Already_Started, s)
      else let s1 = s\<lparr>pr_started := True\<rparr> in
        case credentials of
          None \<Rightarrow> (Ok (), s1)
        | Some c \<Rightarrow>
            (case verify c s1 of
               (Err e, s2) \<Rightarrow> (Err e, s2)
             | (Ok (output_key, input_key), s2) \<Rightarrow>
                 (Ok (), s2\<lparr>pr_conn := connection_enable_encryption output_key input_key (pr_conn s2)\<rparr>)))"

definition close :: "('io \<Rightarrow> bool) \<Rightarrow> 'io option \<Rightarrow> 'io proto \<Rightarrow> ('io protocol_error + unit) \<times> 'io proto" where
  "close not_connected shutdown s =
     (let (res, cn) = connection_close not_connected shutdown (pr_conn s) in
      (res, s\<lparr>pr_outstanding := [], pr_stash := Map.empty, pr_conn := cn\<rparr>))"

section \<open>The bookkeeping\<close>

text \<open>A value that is a response to a transaction.\<close>

definition answers :: "opack_value \<Rightarrow> u32 \<Rightarrow> bool" where
  "answers v x \<longleftrightarrow> as_dict v \<noteq> None
     \<and> Option.bind (Option.bind (value_get v KEY_TYPE) as_u64) message_from_code = Some Mt_Response
     \<and> Option.bind (Option.bind (value_get v KEY_XID) as_u64) u32_try_from = Some x"

definition book_ok :: "u32 list \<Rightarrow> (u32 \<rightharpoonup> opack_value) \<Rightarrow> bool" where
  "book_ok outstanding stash \<longleftrightarrow> length outstanding \<le> MAX_OUTSTANDING \<and> dom stash \<subseteq> set outstanding
     \<and> (\<forall>x v. stash x = Some v \<longrightarrow> answers v x)"

abbreviation proto_ok :: "'io proto \<Rightarrow> bool" where
  "proto_ok s \<equiv> book_ok (pr_outstanding s) (pr_stash s)"

lemma from_value_Ok:
  "from_value dbg v = Ok e \<longleftrightarrow> as_dict v \<noteq> None \<and> e =
     \<lparr>en_identifier = Option.bind (value_get v KEY_IDENTIFIER) as_str,
      en_type = Option.bind (Option.bind (value_get v KEY_TYPE) as_u64) message_from_code,
      en_xid = Option.bind (Option.bind (value_get v KEY_XID) as_u64) u32_try_from,
      en_content = (case value_get v KEY_CONTENT of Some c \<Rightarrow> c | None \<Rightarrow> Dict []),
      en_error = value_error dbg v\<rparr>"
  by (auto simp: from_value_def)

lemma evict_book:
  "evict xs stash = (ys, stash') \<Longrightarrow> dom stash \<subseteq> set xs \<Longrightarrow> \<forall>x v. stash x = Some v \<longrightarrow> answers v x \<Longrightarrow>
     length ys < MAX_OUTSTANDING \<and> dom stash' \<subseteq> set ys \<and> (\<forall>x v. stash' x = Some v \<longrightarrow> answers v x)"
proof (induction xs stash rule: evict.induct)
  case (1 stash)
  then show ?case by (simp add: MAX_OUTSTANDING_def)
next
  case (2 x xs stash)
  show ?case
  proof (cases "MAX_OUTSTANDING \<le> length (x # xs)")
    case True
    with "2.prems" have "evict xs (stash(x := None)) = (ys, stash')" "dom (stash(x := None)) \<subseteq> set xs"
      "\<forall>y v. (stash(x := None)) y = Some v \<longrightarrow> answers v y" by auto
    with True "2.IH" show ?thesis by blast
  next
    case False
    with "2.prems" show ?thesis by auto
  qed
qed

lemma issue_ok: "proto_ok s \<Longrightarrow> proto_ok (issue xid s) \<and> xid \<in> set (pr_outstanding (issue xid s))"
  using evict_book [of "pr_outstanding s" "pr_stash s"]
  by (fastforce simp: issue_def book_ok_def split: prod.splits)

lemma resolve_ok: "proto_ok s \<Longrightarrow> proto_ok (resolve xid s)"
  by (auto simp: resolve_def book_ok_def intro: order.trans [OF length_filter_le])

text \<open>What a dispatch keeps: the issued transactions, and a stash of responses to them.\<close>

definition dispatched :: "'io proto \<Rightarrow> 'io proto \<Rightarrow> bool" where
  "dispatched s s' \<longleftrightarrow> pr_outstanding s' = pr_outstanding s \<and> pr_xid s' = pr_xid s \<and> (proto_ok s \<longrightarrow> proto_ok s')"

lemma dispatched_refl [simp]: "dispatched s s" "dispatched s (s\<lparr>pr_conn := cn\<rparr>)"
  by (simp_all add: dispatched_def)

lemma dispatched_trans: "dispatched s s1 \<Longrightarrow> dispatched s1 s2 \<Longrightarrow> dispatched s s2"
  unfolding dispatched_def by metis

lemma event_dispatched [simp]: "dispatched s (dispatch_event e s)"
  by (simp add: dispatched_def dispatch_event_def split: option.splits)

lemma stash_dispatched:
  assumes "\<forall>x. en_xid e = Some x \<longrightarrow> answers v x"
  shows "dispatched s (stash_response e v s)"
proof (cases "en_xid e")
  case (Some x)
  with assms have "answers v x" by simp
  with Some show ?thesis by (auto simp: stash_response_def dispatched_def book_ok_def)
qed (simp add: stash_response_def)

lemma response_dispatched:
  assumes "\<forall>x. en_xid e = Some x \<longrightarrow> answers v x" and "dispatch_response aw e v s = (r, s')"
  shows "dispatched s s' \<and> (\<forall>x w. aw = Await_Xid x \<and> r = Some w \<longrightarrow> answers w x)"
  using assms(2) stash_dispatched [OF assms(1), where s = s] assms(1)
  by (cases aw) (auto simp: dispatch_response_def split: option.splits if_splits)

lemma dispatch_frame_ok:
  assumes "dispatch_frame env aw f s = (r, s')"
  shows "dispatched s s' \<and> (\<forall>x w. aw = Some (Await_Xid x) \<and> r = Some w \<longrightarrow> answers w x)"
proof -
  have "dispatched s s' \<and> (\<forall>x w. aw = Some (Await_Xid x) \<and> r = Some w \<longrightarrow> answers w x)"
    if u: "unpack (pe_digest env) (pe_cost env) (cf_payload f) = Ok (v, n)" and op: "is_opack (cf_type f)" "\<not> is_auth (cf_type f)"
      and e: "from_value (pe_debug env) v = (Ok e :: 'a protocol_error + envelope)" for v n e
  proof (cases "en_type e = Some Mt_Response")
    case True
    then have a: "\<forall>x. en_xid e = Some x \<longrightarrow> answers v x" using e by (auto simp: from_value_Ok answers_def)
    show ?thesis
    proof (cases aw)
      case None
      with assms u op e True stash_dispatched [OF a, where s = s] show ?thesis by (simp add: dispatch_frame_def)
    next
      case (Some w)
      with assms u op e True have "dispatch_response w e v s = (r, s')" by (simp add: dispatch_frame_def)
      from response_dispatched [OF a this] Some show ?thesis by simp
    qed
  next
    case False
    with assms u op e show ?thesis
      by (auto simp: dispatch_frame_def split: option.splits message_type.splits)
  qed
  then show ?thesis
    using assms by (auto simp: dispatch_frame_def split: if_splits sum.splits option.splits awaiting.splits)
qed

lemma read_ok:
  assumes "read_and_dispatch env aw s = (r, s')"
  shows "dispatched s s' \<and> (\<forall>x w. aw = Some (Await_Xid x) \<and> r = Some (Ok (Some w)) \<longrightarrow> answers w x)"
proof -
  obtain fr cn where f: "recv_frame (pe_aead env) (pr_conn s) = (fr, cn)" by (cases "recv_frame (pe_aead env) (pr_conn s)")
  show ?thesis
  proof (cases "\<exists>g. fr = Some (Ok g)")
    case True
    then obtain g where g: "fr = Some (Ok g)" ..
    obtain v s1 where d: "dispatch_frame env aw g (s\<lparr>pr_conn := cn\<rparr>) = (v, s1)" by (cases "dispatch_frame env aw g (s\<lparr>pr_conn := cn\<rparr>)")
    with assms f g have "r = Some (Ok v)" "s' = s1" by (simp_all add: read_and_dispatch_def)
    with dispatch_frame_ok [OF d] show ?thesis using dispatched_trans [OF dispatched_refl(2)] by blast
  next
    case False
    with assms f show ?thesis
      by (auto simp: read_and_dispatch_def split: option.splits sum.splits)
  qed
qed

lemma read_keeps: "read_and_dispatch env aw s = (r, s') \<Longrightarrow> proto_ok s \<Longrightarrow> proto_ok s'"
  unfolding dispatched_def by (blast dest: read_ok [unfolded dispatched_def])

lemma send_opack_ok:
  "send_opack env ty payload s = (r, s') \<Longrightarrow>
     pr_outstanding s' = pr_outstanding s \<and> pr_stash s' = pr_stash s"
  by (auto simp: send_opack_def Let_def next_xid_def split: opack_value.splits if_splits sum.splits prod.splits)

lemma pump_loop_ok:
  "pump_inner_loop env aw s = (r, s') \<Longrightarrow>
     dispatched s s' \<and> (\<forall>x v. aw = Await_Xid x \<and> r = Some (Ok v) \<longrightarrow> answers v x)"
proof (induction env aw s rule: pump_inner_loop.induct)
  case (1 env aw s)
  obtain res s1 where d: "read_and_dispatch env (Some aw) s = (res, s1)" by (cases "read_and_dispatch env (Some aw) s")
  note ok = read_ok [OF d]
  show ?case
  proof (cases "res = Some (Ok None)")
    case True
    with "1.prems" d have "pump_inner_loop env aw s1 = (r, s')" by (subst (asm) pump_inner_loop.simps) simp
    with "1.IH" [OF d [symmetric]] True ok show ?thesis by (blast intro: dispatched_trans)
  next
    case False
    with "1.prems" d ok show ?thesis
      by (subst (asm) pump_inner_loop.simps) (auto split: option.splits sum.splits)
  qed
qed

lemma pump_inner_ok:
  assumes "pump_inner env aw s = (r, s')" and "proto_ok s"
  shows "proto_ok s' \<and> pr_xid s' = pr_xid s \<and> (\<forall>x v. aw = Await_Xid x \<and> r = Some (Ok v) \<longrightarrow> answers v x)"
proof (cases "\<exists>x v. aw = Await_Xid x \<and> pr_stash s x = Some v")
  case True
  then obtain x v where x: "aw = Await_Xid x" "pr_stash s x = Some v" by blast
  with assms(1) have "r = Some (Ok v)" "s' = s\<lparr>pr_stash := (pr_stash s)(x := None)\<rparr>" by (simp_all add: pump_inner_def)
  with assms(2) x show ?thesis by (fastforce simp: book_ok_def dom_def)
next
  case False
  with assms(1) have "pump_inner_loop env aw s = (r, s')" by (cases aw) (auto simp: pump_inner_def)
  from pump_loop_ok [OF this] assms(2) show ?thesis unfolding dispatched_def by metis
qed

lemma pump_ok: "pump env aw s = (r, s') \<Longrightarrow> proto_ok s \<Longrightarrow> proto_ok s' \<and> pr_xid s' = pr_xid s"
  using pump_inner_ok [of env aw s] resolve_ok
  by (fastforce simp: pump_def Let_def resolve_def split: prod.splits awaiting.splits)

lemma pump_xid:
  assumes "pump env (Await_Xid x) s = (Ok v, s')" and "proto_ok s"
  shows "answers v x \<and> value_get v KEY_ERROR_MESSAGE = None"
  using assms pump_inner_ok [of env "Await_Xid x" s]
  by (auto simp: pump_def Let_def from_value_Ok into_result_def value_error_def res_simps
      split: prod.splits option.splits sum.splits)

lemma pump_resolves: "x \<notin> set (pr_outstanding (snd (pump env (Await_Xid x) s))) \<and> pr_stash (snd (pump env (Await_Xid x) s)) x = None"
  by (simp add: pump_def Let_def resolve_def split: prod.splits)

lemma stamp_has_xid: "\<exists>es. stamp entries xid = Dict es \<and> has_xid es"
  by (simp add: stamp_def has_xid_def as_str_def)

lemma send_stamped:
  assumes "send_opack env ty (stamp entries xid) s = (r, s')"
  shows "pr_xid s' = pr_xid s \<and> (r = Ok () \<longrightarrow> (\<exists>bs. cn_sent (pr_conn s') = cn_sent (pr_conn s) @ [bs]))"
proof -
  obtain es where es: "stamp entries xid = Dict es" "has_xid es" using stamp_has_xid by blast
  show ?thesis
  proof (cases "pack (Dict es)")
    case (Inl e)
    with assms es show ?thesis by (auto simp: send_opack_def)
  next
    case (Inr packed)
    with assms es show ?thesis
      by (auto simp: send_opack_def send_frame_def socket_write_all_def Let_def
          split: sum.splits prod.splits list.splits option.splits)
  qed
qed

lemma recv_frame_sent: "recv_frame A cn = (r, cn') \<Longrightarrow> cn_sent cn' = cn_sent cn"
  by (auto simp: recv_frame_def split: prod.splits)

lemma read_sent: "read_and_dispatch env aw s = (r, s') \<Longrightarrow> cn_sent (pr_conn s') = cn_sent (pr_conn s)"
  by (auto simp: read_and_dispatch_def dest!: recv_frame_sent dispatch_frame_conn split: prod.splits option.splits sum.splits)

lemma pump_loop_sent: "pump_inner_loop env aw s = (r, s') \<Longrightarrow> cn_sent (pr_conn s') = cn_sent (pr_conn s)"
proof (induction env aw s rule: pump_inner_loop.induct)
  case (1 env aw s)
  obtain res s1 where d: "read_and_dispatch env (Some aw) s = (res, s1)" by (cases "read_and_dispatch env (Some aw) s")
  note sent = read_sent [OF d]
  show ?case
  proof (cases "res = Some (Ok None)")
    case True
    with "1.prems" d have "pump_inner_loop env aw s1 = (r, s')" by (subst (asm) pump_inner_loop.simps) simp
    with "1.IH" [OF d [symmetric]] True sent show ?thesis by simp
  next
    case False
    with "1.prems" d sent show ?thesis
      by (subst (asm) pump_inner_loop.simps) (auto split: option.splits sum.splits)
  qed
qed

lemma pump_sent: "pump env aw s = (r, s') \<Longrightarrow> cn_sent (pr_conn s') = cn_sent (pr_conn s)"
  using pump_loop_sent [of env aw s]
  by (auto simp: pump_def pump_inner_def resolve_def Let_def split: prod.splits awaiting.splits option.splits)

lemma exchange_opack_cases:
  "exchange_opack env ty (Dict entries) s =
     (case send_opack env ty (stamp entries (pr_xid s)) (issue (pr_xid s) (s\<lparr>pr_xid := pr_xid s + 1\<rparr>)) of
        (Err e, s3) \<Rightarrow> (Err e, s3)
      | (Ok _, s3) \<Rightarrow> pump env (Await_Xid (pr_xid s)) s3)"
  by (simp add: exchange_opack_def next_xid_def)

lemma pump_any_ok: "proto_ok s \<Longrightarrow> proto_ok (snd (pump env aw s))"
  using pump_ok [of env aw s] by (cases "pump env aw s") simp

lemma send_proto_ok: "proto_ok s \<Longrightarrow> proto_ok (snd (send_opack env ty payload s))"
  using send_opack_ok [of env ty payload s] by (cases "send_opack env ty payload s") simp

lemma exchange_proto_ok:
  assumes "proto_ok s"
  shows "proto_ok (snd (exchange_opack env ty payload s))"
proof (cases payload)
  case (Dict entries)
  let ?i = "issue (pr_xid s) (s\<lparr>pr_xid := pr_xid s + 1\<rparr>)"
  have "proto_ok ?i" using issue_ok [of "s\<lparr>pr_xid := pr_xid s + 1\<rparr>"] assms by simp
  from send_proto_ok [OF this, of env ty "stamp entries (pr_xid s)"] Dict show ?thesis
    by (auto simp: exchange_opack_cases pump_any_ok split: prod.splits sum.splits)
qed (simp_all add: exchange_opack_def assms)

section \<open>The states a session can reach\<close>

inductive companion_reach :: "proto_env \<Rightarrow> 'io proto \<Rightarrow> bool" for env :: proto_env where
  reach_new: "companion_reach env (with_xid cn xid)"
| reach_send: "companion_reach env s \<Longrightarrow> companion_reach env (snd (send_opack env ty payload s))"
| reach_auth: "companion_reach env s \<Longrightarrow> companion_reach env (snd (exchange_auth env ty payload s))"
| reach_exchange: "companion_reach env s \<Longrightarrow> companion_reach env (snd (exchange_opack env ty payload s))"
| reach_command: "companion_reach env s \<Longrightarrow> companion_reach env (snd (send_command env identifier content s))"
| reach_poll: "companion_reach env s \<Longrightarrow> companion_reach env (snd (poll_once env s))"
| reach_listener_gone: "companion_reach env s \<Longrightarrow> companion_reach env (s\<lparr>pr_listening := False\<rparr>)"
| reach_started: "companion_reach env s \<Longrightarrow> companion_reach env (s\<lparr>pr_started := True\<rparr>)"
| reach_encrypted: "companion_reach env s \<Longrightarrow> companion_reach env (s\<lparr>pr_conn := connection_enable_encryption k k' (pr_conn s)\<rparr>)"
| reach_close: "companion_reach env s \<Longrightarrow> companion_reach env (snd (close not_connected shutdown s))"

lemma companion_reach_ok: "companion_reach env s \<Longrightarrow> proto_ok s"
proof (induction rule: companion_reach.induct)
  case (reach_auth s ty payload)
  from send_proto_ok [OF reach_auth.IH, of env ty payload] show ?case
    by (auto simp: exchange_auth_def pump_any_ok split: prod.splits sum.splits)
next
  case (reach_command s i c)
  from exchange_proto_ok [OF reach_command.IH, of env FT_EOpack "to_value (request i c)"] show ?case
    by (auto simp: send_command_def split: prod.splits)
next
  case (reach_poll s)
  obtain r s' where "read_and_dispatch env None s = (r, s')" by (cases "read_and_dispatch env None s")
  moreover from read_keeps [OF this reach_poll.IH] have "proto_ok s'" .
  ultimately show ?case by (simp add: poll_once_def)
next
  case (reach_close s not_connected shutdown)
  show ?case by (simp add: close_def book_ok_def split: prod.splits)
next
  case (reach_new cn xid)
  show ?case by (simp add: with_xid_def book_ok_def)
qed (simp_all add: send_proto_ok exchange_proto_ok)

section \<open>Frames that arrive\<close>

text \<open>The frames a connection will hand out, one \<open>recv_frame\<close> after the other.\<close>

inductive frames_arrive :: "aead \<Rightarrow> 'io connection \<Rightarrow> companion_frame list \<Rightarrow> bool" for A :: aead where
  arrive_Nil: "frames_arrive A cn []"
| arrive_Cons: "recv_frame A cn = (Some (Ok f), cn') \<Longrightarrow> frames_arrive A cn' fs \<Longrightarrow> frames_arrive A cn (f # fs)"

inductive_cases arrive_ConsE: "frames_arrive A cn (f # fs)"

lemma next_frame_step:
  "companion_step A c b = Frame f c' n \<Longrightarrow>
     next_frame A \<lparr>codec_buffer = b, codec_cipher = c\<rparr> = (Ok (Some f), \<lparr>codec_buffer = drop n b, codec_cipher = c'\<rparr>)"
  by (auto simp: companion_step_def next_frame_def Let_def total_length_def split: if_splits sum.splits option.splits prod.splits)

lemma next_frame_more:
  "companion_step A c b = More \<Longrightarrow>
     next_frame A \<lparr>codec_buffer = b, codec_cipher = c\<rparr> = (Ok None, \<lparr>codec_buffer = b, codec_cipher = c\<rparr>)"
  by (auto simp: companion_step_def next_frame_def Let_def split: if_splits sum.splits option.splits prod.splits)

text \<open>The reader hands out what the loop over the whole stream would, however the stream is cut.\<close>

lemma recv_loop_first:
  "companion_loop A c (b @ concat chunks) = (f # fs, c', b', None) \<Longrightarrow> [] \<notin> set chunks \<Longrightarrow>
     \<exists>c1 b1 chunks1. recv_loop A \<lparr>codec_buffer = b, codec_cipher = c\<rparr> (map Arrives chunks @ rest)
         = (Some (Ok f), \<lparr>codec_buffer = b1, codec_cipher = c1\<rparr>, map Arrives chunks1 @ rest)
       \<and> companion_loop A c1 (b1 @ concat chunks1) = (fs, c', b', None) \<and> [] \<notin> set chunks1"
proof (induction chunks arbitrary: b)
  case Nil
  then show ?case
  proof (cases "companion_step A c b")
    case (Frame g c1 n)
    with Nil companion.loop_Frame [OF Frame] next_frame_step [OF Frame] show ?thesis
      by (cases "companion_loop A c1 (drop n b)") (auto simp: recv_loop_Frame intro!: exI [of _ "[]"])
  qed (auto simp: companion.loop_More companion.loop_Bad)
next
  case (Cons r chunks)
  show ?case
  proof (cases "companion_step A c b")
    case (Frame g c1 n)
    have "companion_loop A c (b @ concat (r # chunks)) = add_frame g (companion_loop A c1 (drop n (b @ concat (r # chunks))))"
      by (rule companion.loop_Frame [OF companion.frame_stable [OF Frame]])
    moreover have "drop n (b @ concat (r # chunks)) = drop n b @ concat (r # chunks)"
      using companion_step_Frame [OF Frame] by simp
    ultimately have "g = f" "companion_loop A c1 (drop n b @ concat (r # chunks)) = (fs, c', b', None)"
      using Cons.prems(1) by (cases "companion_loop A c1 (drop n b @ concat (r # chunks))"; simp)+
    with next_frame_step [OF Frame] Cons.prems(2) show ?thesis
      by (intro exI [of _ c1] exI [of _ "drop n b"] exI [of _ "r # chunks"]) (simp add: recv_loop_Frame)
  next
    case More
    from Cons.IH [of "b @ r"] Cons.prems obtain c1 b1 chunks1 where
      "recv_loop A \<lparr>codec_buffer = b @ r, codec_cipher = c\<rparr> (map Arrives chunks @ rest)
         = (Some (Ok f), \<lparr>codec_buffer = b1, codec_cipher = c1\<rparr>, map Arrives chunks1 @ rest)"
      "companion_loop A c1 (b1 @ concat chunks1) = (fs, c', b', None)" "[] \<notin> set chunks1" by auto
    with Cons.prems(2) show ?thesis by (auto simp: recv_loop_read [OF next_frame_more [OF More]] push_def)
  next
    case (Bad e c1)
    with Cons.prems(1) companion.bad_stable [OF Bad, of "concat (r # chunks)"] show ?thesis by (simp add: companion.loop_Bad)
  qed
qed

lemma stream_arrives:
  "companion_loop A c (b @ concat chunks) = (fs, c', b', None) \<Longrightarrow> [] \<notin> set chunks \<Longrightarrow>
     cn_codec cn = \<lparr>codec_buffer = b, codec_cipher = c\<rparr> \<Longrightarrow> cn_reads cn = map Arrives chunks @ rest \<Longrightarrow>
     frames_arrive A cn fs"
proof (induction fs arbitrary: b c chunks cn)
  case Nil
  show ?case by (rule arrive_Nil)
next
  case (Cons f fs)
  from recv_loop_first [OF Cons.prems(1,2), of rest] obtain c1 b1 chunks1 where r:
    "recv_loop A (cn_codec cn) (cn_reads cn) = (Some (Ok f), \<lparr>codec_buffer = b1, codec_cipher = c1\<rparr>, map Arrives chunks1 @ rest)"
    "companion_loop A c1 (b1 @ concat chunks1) = (fs, c', b', None)" "[] \<notin> set chunks1"
    unfolding Cons.prems(3,4) by blast
  let ?cn = "cn\<lparr>cn_codec := \<lparr>codec_buffer = b1, codec_cipher = c1\<rparr>, cn_reads := map Arrives chunks1 @ rest\<rparr>"
  have "recv_frame A cn = (Some (Ok f), ?cn)" by (simp add: recv_frame_def r(1))
  moreover have "frames_arrive A ?cn fs" by (rule Cons.IH [OF r(2,3)]) simp_all
  ultimately show ?case by (rule arrive_Cons)
qed

text \<open>A frame that answers a transaction, and the reader that waits for one.\<close>

definition frame_answers :: "proto_env \<Rightarrow> companion_frame \<Rightarrow> u32 \<Rightarrow> opack_value \<Rightarrow> bool" where
  "frame_answers env f x v \<longleftrightarrow> is_opack (cf_type f)
     \<and> (\<exists>n. unpack (pe_digest env) (pe_cost env) (cf_payload f) = Ok (v, n)) \<and> answers v x"

lemma dispatch_answer: "frame_answers env f x v \<Longrightarrow> dispatch_frame env (Some (Await_Xid x)) f s = (Some v, s)"
  using auth_opack_disjoint [of "cf_type f"]
  by (auto simp: frame_answers_def dispatch_frame_def answers_def from_value_def dispatch_response_def)

lemma dispatch_other:
  assumes "\<not> (\<exists>v. frame_answers env f x v)" and "dispatch_frame env (Some (Await_Xid x)) f s = (r, s')"
  shows "r = None"
proof (rule ccontr)
  assume "r \<noteq> None"
  then obtain w where "r = Some w" by blast
  with assms(2) have "frame_answers env f x w"
    by (auto simp: dispatch_frame_def frame_answers_def answers_def from_value_Ok dispatch_response_def
        split: if_splits sum.splits option.splits message_type.splits awaiting.splits prod.splits)
  with assms(1) show False by blast
qed

lemma pump_loop_answered:
  "frames_arrive (pe_aead env) (pr_conn s) (fs @ [f]) \<Longrightarrow> \<forall>g \<in> set fs. \<not> (\<exists>v. frame_answers env g x v) \<Longrightarrow>
     frame_answers env f x v \<Longrightarrow> \<exists>s'. pump_inner_loop env (Await_Xid x) s = (Some (Ok v), s')"
proof (induction fs arbitrary: s)
  case Nil
  then obtain cn where "recv_frame (pe_aead env) (pr_conn s) = (Some (Ok f), cn)" by (auto elim: arrive_ConsE)
  then have "read_and_dispatch env (Some (Await_Xid x)) s = (Some (Ok (Some v)), s\<lparr>pr_conn := cn\<rparr>)"
    by (simp add: read_and_dispatch_def dispatch_answer [OF Nil.prems(3)])
  then show ?case by (subst pump_inner_loop.simps) simp
next
  case (Cons g fs)
  then obtain cn where r: "recv_frame (pe_aead env) (pr_conn s) = (Some (Ok g), cn)" "frames_arrive (pe_aead env) cn (fs @ [f])"
    by (auto elim: arrive_ConsE)
  obtain w s1 where d: "dispatch_frame env (Some (Await_Xid x)) g (s\<lparr>pr_conn := cn\<rparr>) = (w, s1)"
    by (cases "dispatch_frame env (Some (Await_Xid x)) g (s\<lparr>pr_conn := cn\<rparr>)")
  have w: "w = None" using dispatch_other [OF _ d] Cons.prems(2) by simp
  have "pr_conn s1 = cn" using dispatch_frame_conn [OF d] by simp
  with Cons.IH [of s1] r(2) Cons.prems(2,3) obtain s' where "pump_inner_loop env (Await_Xid x) s1 = (Some (Ok v), s')" by auto
  moreover have "read_and_dispatch env (Some (Await_Xid x)) s = (Some (Ok None), s1)"
    using r(1) d w by (simp add: read_and_dispatch_def)
  ultimately show ?case by (subst pump_inner_loop.simps) simp
qed

end
