(* ===== verification/Companion_Exchange.thy ===== *)
theory Companion_Exchange
  imports Companion_Protocol
begin

text \<open>
  What the Companion protocol driver promises (\<open>crates/pyatv-proto-companion/src/protocol.rs\<close>): the
  bookkeeping of transactions, what a successful exchange returns, when an exchange is answered, and
  what is left of a transaction afterwards.
\<close>

section \<open>An exchange\<close>

lemma send_stamped_frame:
  assumes "send_opack env ty (stamp entries xid) s = (Ok (), s')"
  shows "\<exists>packed bs c. pack (stamp entries xid) = Ok packed
    \<and> codec_encode (pe_aead env) ty packed (cn_codec (pr_conn s)) = (Ok bs, c)
    \<and> cn_codec (pr_conn s') = c \<and> cn_sent (pr_conn s') = cn_sent (pr_conn s) @ [bs]
    \<and> cn_reads (pr_conn s') = cn_reads (pr_conn s)"
proof -
  obtain es where es: "stamp entries xid = Dict es" "has_xid es" using stamp_has_xid by blast
  show ?thesis
  proof (cases "pack (Dict es)")
    case (Inl e)
    with assms es show ?thesis by (simp add: send_opack_def)
  next
    case (Inr packed)
    with assms es show ?thesis
      by (auto simp: send_opack_def send_frame_def socket_write_all_def Let_def
          split: sum.splits prod.splits list.splits option.splits)
  qed
qed

lemma issue_fields [simp]: "pr_conn (issue x s) = pr_conn s" "pr_xid (issue x s) = pr_xid s"
  by (simp_all add: issue_def split: prod.splits)

lemma evict_stash: "evict xs stash = (ys, stash') \<Longrightarrow> stash x = None \<Longrightarrow> stash' x = None"
  by (induction xs stash rule: evict.induct) (auto split: if_splits)

lemma issue_stash: "pr_stash s x = None \<Longrightarrow> pr_stash (issue y s) x = None"
  using evict_stash [of "pr_outstanding s" "pr_stash s"] by (auto simp: issue_def split: prod.splits)

lemma pump_answered:
  assumes "pr_stash s x = None" and "frames_arrive (pe_aead env) (pr_conn s) (fs @ [f])"
    and "\<forall>g \<in> set fs. \<not> (\<exists>v. frame_answers env g x v)" and "frame_answers env f x v"
    and "value_get v KEY_ERROR_MESSAGE = None"
  shows "\<exists>s'. pump env (Await_Xid x) s = (Ok v, s')"
proof -
  from pump_loop_answered [OF assms(2,3,4)] obtain s' where "pump_inner_loop env (Await_Xid x) s = (Some (Ok v), s')" ..
  with assms(1) have "pump_inner env (Await_Xid x) s = (Some (Ok v), s')" by (simp add: pump_inner_def)
  moreover have "as_dict v \<noteq> None" using assms(4) by (simp add: frame_answers_def answers_def)
  ultimately show ?thesis
    by (simp add: pump_def Let_def from_value_Ok [THEN iffD2, OF conjI, OF _ refl] into_result_def value_error_def assms(5))
qed

section \<open>Properties\<close>

text \<open>
  C6: the transactions a session keeps. However a session is driven, at most sixteen transactions are
  outstanding, every stashed response belongs to one of them, and it is a response to it. A peer can
  therefore not make the session keep anything by sending responses nobody asked for.
\<close>

theorem companion_bookkeeping:
  assumes "companion_reach env s"
  shows "length (pr_outstanding s) \<le> MAX_OUTSTANDING \<and> dom (pr_stash s) \<subseteq> set (pr_outstanding s)
    \<and> (\<forall>x v. pr_stash s x = Some v \<longrightarrow> answers v x)"
  using companion_reach_ok [OF assms] by (simp add: book_ok_def)

definition toy_env :: proto_env where
  "toy_env = \<lparr>pe_aead = toy_aead, pe_digest = (\<lambda>_. 0), pe_cost = 32, pe_debug = (\<lambda>_. [])\<rparr>"

definition toy_connection :: "bytes list \<Rightarrow> unit connection" where
  "toy_connection bss = \<lparr>cn_codec = codec_new, cn_reads = map Arrives bss, cn_writes = [], cn_sent = []\<rparr>"

definition toy_proto :: "bytes list \<Rightarrow> unit proto" where
  "toy_proto bss = with_xid (toy_connection bss) 5"

text \<open>A response to transaction 5, on the wire and as a value, and the request it answers.\<close>

definition answer_bytes :: bytes where
  "answer_bytes = [0xE2, 0x42, 0x5F, 0x74, 0x0B, 0x42, 0x5F, 0x78, 0x0D]"

definition answer_value :: opack_value where
  "answer_value = Dict [(String KEY_TYPE, Uint 3), (String KEY_XID, Uint 5)]"

lemma toy_unpacks: "unpack (pe_digest toy_env) (pe_cost toy_env) answer_bytes = Ok (answer_value, 9)"
  by (simp add: unpack_eval answer_bytes_def answer_value_def toy_env_def key_defs lit_def)

lemma toy_answers: "answers answer_value 5" "value_get answer_value KEY_ERROR_MESSAGE = None"
  using u32_try_from_ucast [of 5]
  by (simp_all add: answers_def answer_value_def value_get_def as_dict_def as_str_def as_u64_def message_from_code_def
      key_defs lit_def)

lemma toy_frame_answers: "frame_answers toy_env \<lparr>cf_type = FT_EOpack, cf_payload = answer_bytes\<rparr> 5 answer_value"
  using toy_unpacks toy_answers by (auto simp: frame_answers_def)

lemma toy_packs: "pack (stamp [] 5) = Ok [0xE1, 0x42, 0x5F, 0x78, 0x0D]"
  by (simp add: opack_eval stamp_def u32_value_def key_defs)

lemma toy_request_sent:
  "send_opack toy_env FT_EOpack (stamp [] 5) (issue 5 ((toy_proto bss)\<lparr>pr_xid := 6\<rparr>)) =
     (Ok (), (issue 5 ((toy_proto bss)\<lparr>pr_xid := 6\<rparr>))
        \<lparr>pr_conn := (toy_connection bss)\<lparr>cn_sent := [[8, 0, 0, 5, 0xE1, 0x42, 0x5F, 0x78, 0x0D]]\<rparr>\<rparr>)"
  using toy_packs
  by (simp add: send_opack_def stamp_def has_xid_def as_str_def send_frame_def socket_write_all_def codec_encode_def codec_new_def
      header_new_def header_encode_def Let_def be_bytes_def MAX_FRAME_PAYLOAD_def MAX_ENCODABLE_PAYLOAD_def le_bytes_numeral
      toy_env_def toy_proto_def toy_connection_def with_xid_def issue_def MAX_OUTSTANDING_def)

abbreviation answer_frame :: companion_frame where
  "answer_frame \<equiv> \<lparr>cf_type = FT_EOpack, cf_payload = answer_bytes\<rparr>"

lemma toy_puts:
  "send_all (companion_put toy_aead) None [\<lparr>cf_type = FT_NoOp, cf_payload = []\<rparr>, answer_frame]
     = Ok (concat [[1, 0], [0, 0, 8, 0, 0, 9, 0xE2, 0x42, 0x5F], [0x74, 0x0B, 0x42, 0x5F, 0x78, 0x0D]], None)"
  by (simp add: companion_put_def codec_encode_def header_new_def header_encode_def Let_def be_bytes_def answer_bytes_def
      MAX_FRAME_PAYLOAD_def MAX_ENCODABLE_PAYLOAD_def le_bytes_numeral)

lemma toy_frames: "frames_arrive toy_aead ((toy_connection [[8, 0], 0 # 9 # answer_bytes])\<lparr>cn_sent := x\<rparr>) [answer_frame]"
proof -
  have "send_all (companion_put toy_aead) None [answer_frame] = Ok (concat [[8, 0], 0 # 9 # answer_bytes], None)"
    by (simp add: companion_put_def codec_encode_def header_new_def header_encode_def Let_def be_bytes_def answer_bytes_def
        MAX_FRAME_PAYLOAD_def MAX_ENCODABLE_PAYLOAD_def le_bytes_numeral)
  from toy_companion.send_all_received [OF this, of None] obtain d where
    "companion_loop toy_aead None ([] @ concat [[8, 0], 0 # 9 # answer_bytes]) = ([answer_frame], d, [], None)"
    by (auto simp: codecs_facing_def)
  from stream_arrives [OF this, where rest = "[]" and cn = "(toy_connection [[8, 0], 0 # 9 # answer_bytes])\<lparr>cn_sent := x\<rparr>"]
  show ?thesis by (simp add: toy_connection_def codec_new_def)
qed

lemma toy_exchange:
  "\<exists>s'. exchange_opack toy_env FT_EOpack (Dict []) (toy_proto [[8, 0], 0 # 9 # answer_bytes]) = (Ok answer_value, s')"
proof -
  let ?p = "toy_proto [[8, 0], 0 # 9 # answer_bytes]"
  have x: "pr_xid ?p = 5" by (simp add: toy_proto_def with_xid_def)
  let ?s = "(issue 5 (?p\<lparr>pr_xid := 6\<rparr>))
    \<lparr>pr_conn := (toy_connection [[8, 0], 0 # 9 # answer_bytes])\<lparr>cn_sent := [[8, 0, 0, 5, 0xE1, 0x42, 0x5F, 0x78, 0x0D]]\<rparr>\<rparr>"
  have "pr_stash ?s 5 = None" using issue_stash [of "?p\<lparr>pr_xid := 6\<rparr>" 5 5] by (simp add: toy_proto_def with_xid_def)
  from pump_answered [OF this, of toy_env "[]" answer_frame answer_value] toy_frames toy_frame_answers toy_answers(2)
  obtain s' where "pump toy_env (Await_Xid 5) ?s = (Ok answer_value, s')" by (auto simp: toy_env_def)
  with toy_request_sent [of "[[8, 0], 0 # 9 # answer_bytes]"] x show ?thesis by (auto simp: exchange_opack_cases)
qed

definition toy_state :: "unit proto" where
  "toy_state = snd (send_command toy_env (lit ''_hidC'') Null (toy_proto [[8, 0, 0]]))"

theorem companion_bookkeeping_witness:
  "length (pr_outstanding toy_state) \<le> MAX_OUTSTANDING \<and> dom (pr_stash toy_state) \<subseteq> set (pr_outstanding toy_state)"
proof -
  have "companion_reach toy_env toy_state" unfolding toy_state_def toy_proto_def by (rule reach_command [OF reach_new])
  from companion_bookkeeping [OF this] show ?thesis by (elim conjE) (rule conjI)
qed

text \<open>
  What a successful exchange means. If \<open>exchange_opack\<close> returns a value, exactly one frame went out,
  the encoding of the entries with the session's next XID as their only \<open>_x\<close>; the value returned is a
  response carrying that XID and no error message; and the XID is neither outstanding nor stashed any more.
\<close>

theorem exchange_response:
  assumes "companion_reach env s" and "exchange_opack env ty (Dict entries) s = (Ok v, s')"
  shows "\<exists>packed bs c. pack (stamp entries (pr_xid s)) = Ok packed
    \<and> codec_encode (pe_aead env) ty packed (cn_codec (pr_conn s)) = (Ok bs, c)
    \<and> cn_sent (pr_conn s') = cn_sent (pr_conn s) @ [bs]
    \<and> answers v (pr_xid s) \<and> value_get v KEY_ERROR_MESSAGE = None \<and> pr_xid s' = pr_xid s + 1
    \<and> pr_xid s \<notin> set (pr_outstanding s') \<and> pr_stash s' (pr_xid s) = None"
proof -
  let ?s = "issue (pr_xid s) (s\<lparr>pr_xid := pr_xid s + 1\<rparr>)"
  have ok: "proto_ok ?s" using issue_ok [of "s\<lparr>pr_xid := pr_xid s + 1\<rparr>"] companion_reach_ok [OF assms(1)] by simp
  obtain s3 where sent: "send_opack env ty (stamp entries (pr_xid s)) ?s = (Ok (), s3)"
    and p: "pump env (Await_Xid (pr_xid s)) s3 = (Ok v, s')"
    using assms(2) by (auto simp: exchange_opack_cases split: prod.splits sum.splits)
  have ok3: "proto_ok s3" using ok send_opack_ok [OF sent] by simp
  show ?thesis
    using send_stamped_frame [OF sent] send_stamped [OF sent] pump_xid [OF p ok3] pump_ok [OF p ok3] pump_sent [OF p]
      pump_resolves [of "pr_xid s" env s3] p by auto
qed

theorem exchange_response_witness:
  "\<exists>s'. exchange_opack toy_env FT_EOpack (Dict []) (toy_proto [[8, 0], 0 # 9 # answer_bytes]) = (Ok answer_value, s')
     \<and> length (cn_sent (pr_conn s')) = 1 \<and> answers answer_value 5 \<and> pr_xid s' = 6 \<and> 5 \<notin> set (pr_outstanding s')"
proof -
  obtain s' where s': "exchange_opack toy_env FT_EOpack (Dict []) (toy_proto [[8, 0], 0 # 9 # answer_bytes]) = (Ok answer_value, s')"
    using toy_exchange ..
  have "companion_reach toy_env (toy_proto [[8, 0], 0 # 9 # answer_bytes])" unfolding toy_proto_def by (rule reach_new)
  from exchange_response [OF this s'] s' show ?thesis by (auto simp: toy_proto_def with_xid_def toy_connection_def)
qed

text \<open>
  C7: when an exchange is answered. Once the request is out, a facing peer encodes any frames that do not
  answer it (events, late or foreign responses, requests, pairing frames, frames that do not decode) and
  then one that does and carries no error. However the transport cuts the bytes into reads, and whatever
  comes after them, \<open>exchange_opack\<close> returns that answer.
\<close>

theorem exchange_answered:
  assumes "aead_ok (pe_aead env)" and "pr_stash s (pr_xid s) = None"
    and "send_opack env ty (stamp entries (pr_xid s)) (issue (pr_xid s) (s\<lparr>pr_xid := pr_xid s + 1\<rparr>)) = (Ok (), s3)"
    and "cn_codec (pr_conn s3) = \<lparr>codec_buffer = [], codec_cipher = d\<rparr>" and "codecs_facing c d"
    and "send_all (companion_put (pe_aead env)) c (others @ [f]) = Ok (concat chunks, c')" and "[] \<notin> set chunks"
    and "cn_reads (pr_conn s) = map Arrives chunks @ rest"
    and "\<forall>g \<in> set others. \<not> (\<exists>w. frame_answers env g (pr_xid s) w)"
    and "frame_answers env f (pr_xid s) v" and "value_get v KEY_ERROR_MESSAGE = None"
  shows "\<exists>s'. exchange_opack env ty (Dict entries) s = (Ok v, s')"
proof -
  let ?A = "pe_aead env"
  have reads: "cn_reads (pr_conn s3) = map Arrives chunks @ rest"
    using send_stamped_frame [OF assms(3)] assms(8) by auto
  have stash: "pr_stash s3 (pr_xid s) = None"
    using send_opack_ok [OF assms(3)] issue_stash [of "s\<lparr>pr_xid := pr_xid s + 1\<rparr>" "pr_xid s" "pr_xid s"] assms(2) by simp
  obtain d' where "companion_loop ?A d ([] @ concat chunks) = (others @ [f], d', [], None)"
    using framed_pair.send_all_received [OF companion_framed_pair [OF assms(1)] assms(6,5)]
      companion.loop_More [OF companion_idle] by auto
  from stream_arrives [OF this assms(7,4) reads] have "frames_arrive ?A (pr_conn s3) (others @ [f])" .
  from pump_answered [OF stash this assms(9,10,11)] assms(3) show ?thesis by (auto simp: exchange_opack_cases)
qed

theorem exchange_answered_witness:
  "\<exists>s'. exchange_opack toy_env FT_EOpack (Dict [])
     (toy_proto [[1, 0], [0, 0, 8, 0, 0, 9, 0xE2, 0x42, 0x5F], [0x74, 0x0B, 0x42, 0x5F, 0x78, 0x0D]]) = (Ok answer_value, s')"
proof -
  let ?cs = "[[1, 0], [0, 0, 8, 0, 0, 9, 0xE2, 0x42, 0x5F], [0x74, 0x0B, 0x42, 0x5F, 0x78, 0x0D]] :: bytes list"
  have x: "pr_xid (toy_proto ?cs) = 5" "pr_stash (toy_proto ?cs) = Map.empty" "cn_reads (pr_conn (toy_proto ?cs)) = map Arrives ?cs @ []"
    by (simp_all add: toy_proto_def with_xid_def toy_connection_def)
  from toy_request_sent [of ?cs] x(1) have sent: "send_opack toy_env FT_EOpack (stamp [] (pr_xid (toy_proto ?cs)))
      (issue (pr_xid (toy_proto ?cs)) ((toy_proto ?cs)\<lparr>pr_xid := pr_xid (toy_proto ?cs) + 1\<rparr>)) =
     (Ok (), (issue 5 ((toy_proto ?cs)\<lparr>pr_xid := 6\<rparr>))
        \<lparr>pr_conn := (toy_connection ?cs)\<lparr>cn_sent := [[8, 0, 0, 5, 0xE1, 0x42, 0x5F, 0x78, 0x0D]]\<rparr>\<rparr>)" by simp
  show ?thesis
    by (rule exchange_answered [OF _ _ sent, of None None "[\<lparr>cf_type = FT_NoOp, cf_payload = []\<rparr>]" answer_frame ?cs None "[]"])
      (use toy_puts toy_frame_answers toy_answers(2) toy_aead_ok x in
        \<open>simp_all add: toy_env_def toy_connection_def codec_new_def codecs_facing_def frame_answers_def\<close>)
qed

text \<open>
  An XID outlives its exchange exactly when the request could not be sent. The comment on \<open>resolve\<close> says
  an XID is forgotten however its exchange finished; a failing \<open>send_opack\<close> returns before it is called, so
  the XID stays outstanding and a response to it would be stashed.
\<close>

theorem exchange_xid_lifetime:
  fixes s :: "'io proto"
  shows "pr_xid s \<in> set (pr_outstanding (snd (exchange_opack env ty (Dict entries) s))) \<longleftrightarrow>
     (\<exists>e. fst (send_opack env ty (stamp entries (pr_xid s)) (issue (pr_xid s) (s\<lparr>pr_xid := pr_xid s + 1\<rparr>))) = Err e)"
proof -
  let ?s = "issue (pr_xid s) (s\<lparr>pr_xid := pr_xid s + 1\<rparr>)"
  obtain r s3 where sent: "send_opack env ty (stamp entries (pr_xid s)) ?s = (r, s3)"
    by (cases "send_opack env ty (stamp entries (pr_xid s)) ?s")
  have "pr_xid s \<in> set (pr_outstanding s3)"
    using send_opack_ok [OF sent] by (simp add: issue_def split: prod.splits)
  with sent pump_resolves [of "pr_xid s" env s3] show ?thesis
    by (cases r) (simp_all add: exchange_opack_cases split: prod.splits)
qed

text \<open>
  The envelope's round trip over the wire. An envelope without an error, whatever of its optional parts
  are there, that is encoded and decoded again is itself, with its content in canonical form.
\<close>

theorem envelope_wire:
  assumes "pack (to_value e) = Ok bs" and "en_error e = None" and "wf_value (to_value e)" and "zero_sep D"
    and "leaves (to_value e) \<le> 65536" and "decode_cost cost (to_value e) \<le> bud" and "bud \<le> usize_max"
    and "length bs \<le> usize_max"
  shows "rbind (map_sum Opack id (unpack_with_budget D cost bs bud)) (\<lambda>(v, n). from_value dbg v)
    = Ok (e\<lparr>en_content := canon (en_content e)\<rparr>)"
proof -
  from roundtrip_prefix [OF assms(1,3,4,5,6,7), of "[]"] assms(8)
  have "unpack_with_budget D cost bs bud = Ok (canon (to_value e), length bs)" by simp
  with from_value_canon [OF assms(2) from_to_value [OF assms(2)], of dbg] show ?thesis by simp
qed

theorem envelope_wire_witness:
  "rbind (map_sum Opack id (unpack_with_budget bits_digest 32 [0xE3, 0x42, 0x5F, 0x69, 0x41, 0x61, 0x42, 0x5F, 0x74, 0x0A, 0x42, 0x5F, 0x63, 0x04] 65536))
       (\<lambda>(v, n). from_value (\<lambda>_. []) v) = (Ok (request (lit ''a'') Null) :: unit protocol_error + envelope)"
proof -
  have p: "pack (to_value (request (lit ''a'') Null)) = Ok [0xE3, 0x42, 0x5F, 0x69, 0x41, 0x61, 0x42, 0x5F, 0x74, 0x0A, 0x42, 0x5F, 0x63, 0x04]"
    by (simp add: opack_eval to_value_def request_def outgoing_def key_defs)
  show ?thesis
    using envelope_wire [OF p, of bits_digest 32 65536 "\<lambda>_. []"]
    by (simp add: to_value_def request_def outgoing_def key_defs lit_def zero_sep_def bits_digest_def usize_max_def)
qed

end
