(* ===== verification/Mrp_Varint.thy ===== *)
theory Mrp_Varint
  imports Prelude
begin

text \<open>
  The base-128 varint of MRP (\<open>crates/pyatv-proto-mrp/src/variant.rs\<close>), which is both the
  length prefix of a direct connection and the integer encoding of the protobuf fields.
\<close>

unbundle bit_operations_syntax

definition VARINT_MAX_LEN :: nat where
  "VARINT_MAX_LEN = 10"

datatype varint_error = VarintTruncated nat | VarintTooLong

lemma unat_drop7: "unat (drop_bit 7 (v :: u64)) = unat v div 128"
  by (simp add: drop_bit_eq_div unat_div)

function variant_write :: "u64 \<Rightarrow> bytes" where
  "variant_write v =
     (let group = ucast (v AND 0x7F) :: u8; remaining = drop_bit 7 v in
      if remaining = 0 then [group] else (group OR 0x80) # variant_write remaining)"
  by pat_completeness auto
termination
proof (relation "measure unat", simp, clarify)
  fix v :: u64
  assume "drop_bit 7 v \<noteq> 0"
  then have "unat v div 128 \<noteq> 0" by (simp add: word_unat_eq_iff unat_drop7)
  then show "(drop_bit 7 v, v) \<in> measure unat" by (simp add: unat_drop7)
qed

declare variant_write.simps [simp del]

text \<open>The loop over the first ten bytes, from \<open>index\<close> on.\<close>

fun read_loop :: "nat \<Rightarrow> u64 \<Rightarrow> bytes \<Rightarrow> (u64 \<times> nat) option" where
  "read_loop index result [] = None"
| "read_loop index result (b # bs) =
     (let result' = result OR push_bit (7 * index) (ucast (b AND 0x7F)) in
      if b AND 0x80 = 0 then Some (result', index + 1) else read_loop (index + 1) result' bs)"

definition variant_read :: "bytes \<Rightarrow> varint_error + u64 \<times> nat" where
  "variant_read input =
     ok_or (read_loop 0 0 (take VARINT_MAX_LEN input))
       (if length input < VARINT_MAX_LEN then VarintTruncated (length input) else VarintTooLong)"

section \<open>Reading\<close>

lemma read_loop_bounds: "read_loop i r bs = Some (v, k) \<Longrightarrow> i < k \<and> k \<le> i + length bs"
  by (induction i r bs rule: read_loop.induct) (fastforce simp: Let_def split: if_splits)+

text \<open>Only the bytes of the varint are looked at.\<close>

lemma read_loop_prefix:
  "read_loop i r bs = Some (v, k) \<Longrightarrow> read_loop i r (take (k - i) bs @ rest) = Some (v, k)"
proof (induction i r bs rule: read_loop.induct)
  case (2 i r b bs)
  show ?case
  proof (cases "b AND 0x80 = 0")
    case True
    with 2 show ?thesis by (auto simp: Let_def)
  next
    case False
    with 2 have "read_loop (i + 1) (r OR push_bit (7 * i) (ucast (b AND 0x7F))) bs = Some (v, k)"
      by (simp add: Let_def)
    moreover from read_loop_bounds [OF this] have "k - i = Suc (k - (i + 1))" by linarith
    ultimately show ?thesis using "2.IH" [OF refl False] False by (simp add: Let_def)
  qed
qed simp

lemma read_loop_append: "read_loop i r bs = Some (v, k) \<Longrightarrow> read_loop i r (bs @ rest) = Some (v, k)"
  by (induction i r bs rule: read_loop.induct) (auto simp: Let_def split: if_splits)

lemma variant_read_Ok:
  "variant_read bs = Ok (v, k) \<longleftrightarrow> read_loop 0 0 (take VARINT_MAX_LEN bs) = Some (v, k)"
  by (auto simp: variant_read_def ok_or_Ok_iff)

lemma variant_read_bounds: "variant_read bs = Ok (v, k) \<Longrightarrow> 0 < k \<and> k \<le> length bs \<and> k \<le> VARINT_MAX_LEN"
  using read_loop_bounds [of 0 0 "take VARINT_MAX_LEN bs" v k] by (auto simp: variant_read_Ok)

lemma variant_read_prefix: "variant_read bs = Ok (v, k) \<Longrightarrow> variant_read (take k bs @ rest) = Ok (v, k)"
proof -
  assume r: "variant_read bs = Ok (v, k)"
  then have l: "read_loop 0 0 (take VARINT_MAX_LEN bs) = Some (v, k)" by (simp add: variant_read_Ok)
  from variant_read_bounds [OF r] have k: "k \<le> VARINT_MAX_LEN" "k \<le> length bs" by auto
  have "take VARINT_MAX_LEN (take k bs @ rest) = take k (take VARINT_MAX_LEN bs) @ take (VARINT_MAX_LEN - k) rest"
    using k by (simp add: min_def)
  with read_loop_prefix [OF l, of "take (VARINT_MAX_LEN - k) rest"] show ?thesis
    by (simp add: variant_read_Ok)
qed

lemma variant_read_append: "variant_read bs = Ok (v, k) \<Longrightarrow> variant_read (bs @ rest) = Ok (v, k)"
  by (metis append.assoc append_take_drop_id variant_read_prefix)

text \<open>Ten bytes that do not end a varint are an error whatever follows.\<close>

lemma variant_read_long: "variant_read bs = Err e \<Longrightarrow> VARINT_MAX_LEN \<le> length bs \<Longrightarrow> variant_read (bs @ rest) = Err e"
  by (simp add: variant_read_def split: if_splits)

section \<open>Round trip\<close>

lemma mask7: "(0x7F :: u64) = mask 7" "(0x7F :: u8) = mask 7"
  by (simp_all add: mask_eq_exp_minus_1)

lemma bit_0x80:
  "bit (0x80 :: u8) n \<longleftrightarrow> n = 7" "bit (0x80 :: int) n \<longleftrightarrow> n = 7" "bit (0x80 :: nat) n \<longleftrightarrow> n = 7"
proof -
  have "(0x80 :: u8) = 2 ^ 7" "(0x80 :: int) = 2 ^ 7" "(0x80 :: nat) = 2 ^ 7" by simp_all
  then show "bit (0x80 :: u8) n \<longleftrightarrow> n = 7" "bit (0x80 :: int) n \<longleftrightarrow> n = 7" "bit (0x80 :: nat) n \<longleftrightarrow> n = 7"
    by (simp_all only: bit_exp_iff) auto
qed

lemma group_value: "(ucast ((ucast (v AND 0x7F) :: u8) AND 0x7F) :: u64) = v AND 0x7F" for v :: u64
  unfolding mask7 by (rule bit_word_eqI) (auto simp: bit_simps)

lemma group_value_more: "(ucast (((ucast (v AND 0x7F) :: u8) OR 0x80) AND 0x7F) :: u64) = v AND 0x7F" for v :: u64
  unfolding mask7 by (rule bit_word_eqI) (auto simp: bit_simps bit_0x80)

lemma group_last: "(ucast (v AND 0x7F) :: u8) AND 0x80 = 0" for v :: u64
  unfolding mask7 by (rule bit_word_eqI) (auto simp: bit_simps bit_0x80)

lemma group_more: "((ucast (v AND 0x7F) :: u8) OR 0x80) AND 0x80 \<noteq> 0" for v :: u64
proof -
  have "bit (((ucast (v AND 0x7F) :: u8) OR 0x80) AND 0x80) 7" unfolding mask7 by (simp add: bit_simps bit_0x80)
  then show ?thesis by auto
qed

lemma split_word: "(v AND 0x7F) OR push_bit 7 (drop_bit 7 v) = (v :: u64)"
proof (rule bit_word_eqI)
  fix n
  assume "n < LENGTH(64)"
  then show "bit ((v AND 0x7F) OR push_bit 7 (drop_bit 7 v)) n = bit v n"
    unfolding mask7 by (cases "n < 7") (auto simp: bit_simps)
qed

lemma read_loop_write:
  "i < VARINT_MAX_LEN \<Longrightarrow> unat v < 2 ^ (64 - 7 * i) \<Longrightarrow>
     read_loop i r (variant_write v @ rest) = Some (r OR push_bit (7 * i) v, i + length (variant_write v))
     \<and> i + length (variant_write v) \<le> VARINT_MAX_LEN"
proof (induction v arbitrary: i r rule: variant_write.induct)
  case (1 v)
  let ?d = "drop_bit 7 v"
  show ?case
  proof (cases "?d = 0")
    case True
    with split_word [of v] have "v AND 0x7F = v" by simp
    moreover have "read_loop i r (variant_write v @ rest) = Some (r OR push_bit (7 * i) (v AND 0x7F), i + 1)"
      using True by (simp add: variant_write.simps [of v] Let_def group_value group_last)
    ultimately show ?thesis
      using True "1.prems"(1) by (simp add: variant_write.simps [of v])
  next
    case False
    then have "128 \<le> unat v" by (auto simp: word_unat_eq_iff unat_drop7)
    with "1.prems"(2) have "(2 :: nat) ^ 7 < 2 ^ (64 - 7 * i)" by simp
    then have i: "7 < 64 - 7 * i" by (simp only: power_strict_increasing_iff)
    then have e: "64 - 7 * i = (64 - 7 * (i + 1)) + 7" by simp
    have "unat v < 128 * 2 ^ (64 - 7 * (i + 1))" using "1.prems"(2) by (subst (asm) e) (simp only: power_add, simp)
    then have u: "unat ?d < 2 ^ (64 - 7 * (i + 1))" by (simp add: unat_drop7 less_mult_imp_div_less mult.commute)
    have "i + 1 < VARINT_MAX_LEN" using i by (simp add: VARINT_MAX_LEN_def)
    from "1.IH" [OF refl refl False this u, of "r OR push_bit (7 * i) (v AND 0x7F)"] False
    have "read_loop i r (variant_write v @ rest) =
        Some ((r OR push_bit (7 * i) (v AND 0x7F)) OR push_bit (7 * (i + 1)) ?d, i + length (variant_write v))"
      "i + length (variant_write v) \<le> VARINT_MAX_LEN"
      by (simp_all add: variant_write.simps [of v] Let_def group_value_more group_more)
    moreover have "(r OR push_bit (7 * i) (v AND 0x7F)) OR push_bit (7 * (i + 1)) ?d = r OR push_bit (7 * i) v"
    proof -
      have "push_bit (7 * (i + 1)) ?d = push_bit (7 * i) (push_bit 7 ?d)"
        by (simp only: push_bit_push_bit) (simp add: add.commute)
      then show ?thesis using split_word [of v] by (simp only: or.assoc push_bit_or [symmetric])
    qed
    ultimately show ?thesis by simp
  qed
qed

lemma variant_write_nonempty [simp]: "variant_write v \<noteq> []"
  by (subst variant_write.simps) (simp add: Let_def)

lemma length_variant_write: "length (variant_write v) \<le> VARINT_MAX_LEN"
  using read_loop_write [of 0 v 0 "[]"] unat_u64_bound [of v] by (simp add: VARINT_MAX_LEN_def)

lemma variant_read_write: "variant_read (variant_write v @ rest) = Ok (v, length (variant_write v))"
proof -
  have "read_loop 0 0 (variant_write v) = Some (v, length (variant_write v))"
    using read_loop_write [of 0 v 0 "[]"] unat_u64_bound [of v] by (simp add: VARINT_MAX_LEN_def)
  then have "variant_read (variant_write v) = Ok (v, length (variant_write v))"
    using length_variant_write [of v] by (simp add: variant_read_Ok)
  then show ?thesis by (rule variant_read_append)
qed

section \<open>Properties\<close>

text \<open>
  Varints round trip. Every 64-bit value, written and followed by any bytes, reads back as itself
  with the number of bytes it occupied, which is at most ten; so distinct values have encodings of which
  neither is a prefix of the other.
\<close>

theorem varint_roundtrip:
  "variant_read (variant_write v @ rest) = Ok (v, length (variant_write v))
   \<and> length (variant_write v) \<le> VARINT_MAX_LEN
   \<and> (variant_write v @ rest = variant_write w @ rest' \<longrightarrow> v = w)"
  using variant_read_write [of v rest] variant_read_write [of w rest'] length_variant_write [of v] by auto

theorem varint_roundtrip_witness: "variant_read (variant_write 300 @ [7]) = Ok (300, length (variant_write 300))"
  using varint_roundtrip [of 300 "[7]" 300 "[7]"] by simp

end
