(* ===== verification/Mrp_Direct.thy ===== *)
theory Mrp_Direct
  imports Mrp_Varint Chacha Framing
begin

text \<open>
  The direct MRP transport (\<open>crates/pyatv-proto-mrp/src/transport/direct.rs\<close>): a varint length,
  then the message, sealed as a whole and without associated data once encryption is on. The two
  halves of the socket are one state here each, the cipher, which the source keeps behind one lock;
  \<open>direct_step\<close> and \<open>direct_loop\<close> are what \<open>read_frame\<close> does with the bytes it has.
\<close>

datatype direct_error =
    DirectVarint varint_error
  | DirectFrameLength nat
  | DirectPartial nat
  | DirectPairing pairing_error

definition MAX_FRAME_LEN :: nat where
  "MAX_FRAME_LEN = 8 * 1024 * 1024"

definition take_frame :: "bytes \<Rightarrow> direct_error + (bytes \<times> bytes) option" where
  "take_frame buffer =
     (if buffer = [] then Ok None
      else
        case variant_read buffer of
          Err e \<Rightarrow> if length buffer < VARINT_MAX_LEN then Ok None else Err (DirectVarint e)
        | Ok (raw, consumed) \<Rightarrow>
            let len = unat raw in
            if MAX_FRAME_LEN < len then Err (DirectFrameLength len)
            else if length buffer < consumed + len then Ok None
            else Ok (Some (take len (drop consumed buffer), drop (consumed + len) buffer)))"

definition direct_seal :: "aead \<Rightarrow> bytes \<Rightarrow> cipher option \<Rightarrow> (direct_error + bytes) \<times> cipher option" where
  "direct_seal A payload c =
     (case c of
        Some ci \<Rightarrow> (case cipher_encrypt A payload None ci of (r, ci') \<Rightarrow> (map_err DirectPairing r, Some ci'))
      | None \<Rightarrow> (Ok payload, c))"

definition direct_open :: "aead \<Rightarrow> bytes \<Rightarrow> cipher option \<Rightarrow> (direct_error + bytes) \<times> cipher option" where
  "direct_open A payload c =
     (case c of
        Some ci \<Rightarrow> (case cipher_decrypt A payload None ci of (r, ci') \<Rightarrow> (map_err DirectPairing r, Some ci'))
      | None \<Rightarrow> (Ok payload, c))"

definition direct_enable_encryption :: "bytes \<Rightarrow> bytes \<Rightarrow> cipher option \<Rightarrow> cipher option" where
  "direct_enable_encryption output_key input_key c = Some (with_padded_counter output_key input_key)"

text \<open>\<open>write_frame\<close>: the prefix counts the bytes after sealing.\<close>

definition write_frame :: "aead \<Rightarrow> cipher option \<Rightarrow> bytes \<Rightarrow> direct_error + bytes \<times> cipher option" where
  "write_frame A c payload =
     (case direct_seal A payload c of
        (Err e, c') \<Rightarrow> Err e
      | (Ok sealed, c') \<Rightarrow> Ok (variant_write (word_of_nat (length sealed)) @ sealed, c'))"

definition direct_step :: "aead \<Rightarrow> cipher option \<Rightarrow> bytes \<Rightarrow> (direct_error, bytes, cipher option) frame_step" where
  "direct_step A c b =
     (case take_frame b of
        Err e \<Rightarrow> Bad e c
      | Ok None \<Rightarrow> More
      | Ok (Some (frame, rest)) \<Rightarrow>
          (case direct_open A frame c of
             (Err e, c') \<Rightarrow> Bad e c'
           | (Ok plain, c') \<Rightarrow> Frame plain c' (length b - length rest)))"

lemma take_frame_Some:
  "take_frame b = Ok (Some (frame, rest)) \<longleftrightarrow>
     (\<exists>raw k. variant_read b = Ok (raw, k) \<and> unat raw \<le> MAX_FRAME_LEN \<and> k + unat raw \<le> length b
        \<and> frame = take (unat raw) (drop k b) \<and> rest = drop (k + unat raw) b)"
  using variant_read_bounds [of b]
  by (auto simp: take_frame_def Let_def split: sum.splits)

lemma direct_step_Frame: "direct_step A c b = Frame a c' n \<Longrightarrow> 0 < n \<and> n \<le> length b"
  by (auto simp: direct_step_def take_frame_Some split: sum.splits option.splits prod.splits
      dest!: variant_read_bounds)

function direct_loop :: "aead \<Rightarrow> cipher option \<Rightarrow> bytes \<Rightarrow> (direct_error, bytes, cipher option) drained" where
  "direct_loop A c b =
     (case direct_step A c b of
        More \<Rightarrow> ([], c, b, None)
      | Bad e c' \<Rightarrow> ([], c', b, Some e)
      | Frame a c' n \<Rightarrow> add_frame a (direct_loop A c' (drop n b)))"
  by pat_completeness auto
termination by (relation "measure (\<lambda>(_, _, b). length b)") (auto dest: direct_step_Frame)

declare direct_loop.simps [simp del]

text \<open>The end of the stream: clean with nothing buffered, else an error.\<close>

definition direct_eof :: "bytes \<Rightarrow> direct_error + unit option" where
  "direct_eof buffer = (if buffer = [] then Ok None else Err (DirectPartial (length buffer)))"

section \<open>The laws\<close>

lemma take_frame_append:
  "take_frame b = Ok (Some (frame, rest)) \<Longrightarrow> take_frame (b @ x) = Ok (Some (frame, rest @ x))"
proof -
  assume "take_frame b = Ok (Some (frame, rest))"
  then obtain raw k where "variant_read b = Ok (raw, k)" "unat raw \<le> MAX_FRAME_LEN" "k + unat raw \<le> length b"
    "frame = take (unat raw) (drop k b)" "rest = drop (k + unat raw) b" by (auto simp: take_frame_Some)
  with variant_read_append [of b raw k x] show ?thesis by (auto simp: take_frame_Some)
qed

lemma take_frame_Err_append: "take_frame b = Err e \<Longrightarrow> take_frame (b @ x) = Err e"
  by (auto simp: take_frame_def Let_def variant_read_append variant_read_long
      split: if_splits sum.splits prod.splits)

lemma direct_step_stable:
  assumes "direct_step A c b = r" and "r \<noteq> More"
  shows "direct_step A c (b @ x) = r"
proof (cases "take_frame b")
  case (Inl e)
  with assms take_frame_Err_append [OF Inl, of x] show ?thesis by (simp add: direct_step_def)
next
  case (Inr p)
  with assms obtain frame rest where f: "take_frame b = Ok (Some (frame, rest))"
    by (auto simp: direct_step_def split: option.splits)
  then have "length rest \<le> length b" by (auto simp: take_frame_Some)
  with assms f take_frame_append [OF f, of x] show ?thesis
    by (auto simp: direct_step_def split: sum.splits prod.splits)
qed

interpretation direct: stream_codec "direct_step A" "direct_loop A" for A
proof unfold_locales
  show "direct_loop A s b =
      (case direct_step A s b of More \<Rightarrow> ([], s, b, None) | Bad e s' \<Rightarrow> ([], s', b, Some e)
       | Frame a s' n \<Rightarrow> add_frame a (direct_loop A s' (drop n b)))" for s b
    by (rule direct_loop.simps)
qed (auto dest: direct_step_Frame intro: direct_step_stable)

definition direct_facing :: "cipher option \<Rightarrow> cipher option \<Rightarrow> bool" where
  "direct_facing c d \<longleftrightarrow>
     (case (c, d) of (None, None) \<Rightarrow> True | (Some c', Some d') \<Rightarrow> facing c' d' | _ \<Rightarrow> False)"

definition direct_fits :: "bytes \<Rightarrow> bool" where
  "direct_fits m \<longleftrightarrow> length m + AUTH_TAG_LENGTH \<le> MAX_FRAME_LEN"

lemma direct_seal_open:
  assumes "aead_ok A" and "direct_seal A m c = (Ok sealed, c')" and "direct_facing c d"
  shows "\<exists>d'. direct_open A sealed d = (Ok m, d') \<and> direct_facing c' d' \<and> length sealed \<le> length m + AUTH_TAG_LENGTH"
proof (cases c)
  case None
  with assms show ?thesis by (auto simp: direct_seal_def direct_open_def direct_facing_def split: option.splits)
next
  case (Some ci)
  with assms(3) obtain di where d: "d = Some di" "facing ci di" by (auto simp: direct_facing_def split: option.splits)
  from Some assms(2) obtain ci' where e: "cipher_encrypt A m None ci = (Ok sealed, ci')" "c' = Some ci'"
    by (auto simp: direct_seal_def map_err_Ok_iff split: prod.splits)
  from decrypt_encrypted [OF assms(1) d(2) e(1)] d(1) e(2) show ?thesis
    by (auto simp: direct_open_def direct_facing_def)
qed

lemma direct_received:
  assumes A: "aead_ok A" and fits: "direct_fits m" and w: "write_frame A c m = Ok (bs, c')" and fc: "direct_facing c d"
  shows "\<exists>d'. direct_facing c' d' \<and> direct_step A d (bs @ rest) = Frame m d' (length bs)"
proof -
  from w obtain sealed where s: "direct_seal A m c = (Ok sealed, c')"
    and bs: "bs = variant_write (word_of_nat (length sealed)) @ sealed"
    by (auto simp: write_frame_def split: prod.splits sum.splits)
  from direct_seal_open [OF A s fc] obtain d' where
    o: "direct_open A sealed d = (Ok m, d')" "direct_facing c' d'" "length sealed \<le> length m + AUTH_TAG_LENGTH"
    by blast
  from o(3) fits have l: "length sealed \<le> MAX_FRAME_LEN" by (simp add: direct_fits_def)
  then have u: "unat (word_of_nat (length sealed) :: u64) = length sealed"
    by (simp add: unat_of_nat MAX_FRAME_LEN_def)
  have "take_frame (bs @ rest) = Ok (Some (sealed, rest))"
    using l by (auto simp: take_frame_Some bs variant_read_write u)
  with o show ?thesis by (auto simp: direct_step_def bs)
qed

lemma direct_idle: "direct_step A c [] = More"
  by (simp add: direct_step_def take_frame_def)

lemma direct_framed_pair:
  "aead_ok A \<Longrightarrow> framed_pair (direct_step A) (direct_loop A) (write_frame A) (\<lambda>m. m) direct_facing direct_fits"
  by unfold_locales (auto intro: direct_received direct_idle)

interpretation toy_direct: framed_pair "direct_step toy_aead" "direct_loop toy_aead" "write_frame toy_aead"
  "\<lambda>m. m" direct_facing direct_fits
  by (rule direct_framed_pair [OF toy_aead_ok])

section \<open>Properties\<close>

text \<open>
  C10: the direct MRP connection delivers. Messages written by one end, each at most
  \<open>MAX_FRAME_LEN\<close> with its tag, arrive at the other as the same messages in the same order, in the
  clear or sealed, however the socket cuts the bytes into reads; nothing is left over and the counters
  stay in step.
\<close>

theorem direct_delivers:
  assumes "aead_ok A" and "direct_facing c d" and "\<forall>m \<in> set ms. direct_fits m"
    and "send_all (write_frame A) c ms = Ok (out, c')" and "concat reads = out"
  shows "\<exists>d'. direct_facing c' d' \<and> feed_chunks (direct_loop A) d [] reads = (ms, d', [], None)"
  using framed_pair.delivered [OF direct_framed_pair [OF assms(1)] assms(4,2,5,3)] by simp

theorem direct_delivers_witness:
  "\<exists>d'. feed_chunks (direct_loop toy_aead) None [] [[2, 104], [105, 0, 1], [7]] = ([[104, 105], [], [7]], d', [], None)"
proof -
  have "send_all (write_frame toy_aead) None [[104, 105], [], [7]] = Ok ([2, 104, 105, 0, 1, 7], None)"
    by (simp add: write_frame_def direct_seal_def variant_write.simps Let_def)
  from direct_delivers [OF toy_aead_ok _ _ this, of None "[[2, 104], [105, 0, 1], [7]]"] show ?thesis
    by (auto simp: direct_facing_def direct_fits_def MAX_FRAME_LEN_def AUTH_TAG_LENGTH_def)
qed

text \<open>
  A length prefix cannot make the reader buffer without bound. When the reader goes back to the
  socket, it holds less than a prefix and a frame of the largest accepted size.
\<close>

theorem direct_buffer_bound:
  assumes "direct_loop A c b = (frames, c', rest, None)"
  shows "length rest < VARINT_MAX_LEN + MAX_FRAME_LEN"
proof -
  from direct.loop_rest [OF assms] have "direct_step A c' rest = More" .
  then show ?thesis
    using variant_read_bounds [of rest]
    by (force simp: direct_step_def take_frame_def Let_def VARINT_MAX_LEN_def MAX_FRAME_LEN_def
        split: if_splits sum.splits option.splits prod.splits)
qed

theorem direct_buffer_bound_witness: "length [0x80 :: u8] < VARINT_MAX_LEN + MAX_FRAME_LEN"
  by (rule direct_buffer_bound [of toy_aead None "[0x80]" "[]" None])
    (simp add: direct_loop.simps direct_step_def take_frame_def variant_read_def VARINT_MAX_LEN_def)

end
