(* ===== verification/Mrp_Players.thy ===== *)
theory Mrp_Players
  imports Float32
begin

text \<open>
  The now-playing bookkeeping of the MRP client (\<open>crates/pyatv-proto-mrp/src/player_state.rs\<close>): a
  manager of clients by bundle identifier, each with its players by identifier. The messages are the
  parts of the \<open>.proto\<close> files the code reads; of the metadata of an item they are the fields
  \<open>playing.rs\<close> reads, and the rest is the type \<open>'m\<close>. Not under \<open>src/\<close> is \<open>prost\<close>: what encoding a
  metadata message and merging it into another gives is the argument \<open>merge\<close>, and the empty message
  the argument \<open>blank\<close>. Enumerations are the integers the messages carry, as in the generated structs.

  A \<open>&mut\<close> that is handed out is a function on what it refers to: \<open>client_mut\<close> and \<open>player_mut\<close> take the
  update their caller makes.
\<close>

section \<open>Messages\<close>

datatype playback_state = Ps_Unknown | Ps_Playing | Ps_Paused | Ps_Stopped | Ps_Interrupted | Ps_Seeking

text \<open>The generated \<open>TryFrom<i32>\<close> of the enumeration.\<close>

definition playback_from_i32 :: "i32 \<Rightarrow> playback_state option" where
  "playback_from_i32 n =
     (if n = 0 then Some Ps_Unknown
      else if n = 1 then Some Ps_Playing
      else if n = 2 then Some Ps_Paused
      else if n = 3 then Some Ps_Stopped
      else if n = 4 then Some Ps_Interrupted
      else if n = 5 then Some Ps_Seeking
      else None)"

record 'm metadata =
  md_title :: "bytes option"
  md_artist :: "bytes option"
  md_album :: "bytes option"
  md_genre :: "bytes option"
  md_duration :: "f64 option"
  md_elapsed :: "f64 option"
  md_elapsed_timestamp :: "f64 option"
  md_rate :: "u32 option"
  md_season :: "i32 option"
  md_episode :: "i32 option"
  md_series :: "bytes option"
  md_content_identifier :: "bytes option"
  md_store_identifier :: "i64 option"
  md_media_type :: "i32 option"
  md_rest :: 'm

record 'm content_item =
  ci_identifier :: "bytes option"
  ci_metadata :: "'m metadata option"

record command_info =
  cmd_command :: "i32 option"
  cmd_enabled :: "bool option"
  cmd_shuffle :: "i32 option"
  cmd_repeat :: "i32 option"

record now_playing_client =
  np_bundle :: "bytes option"
  np_client_name :: "bytes option"

record now_playing_player =
  np_identifier :: "bytes option"
  np_player_name :: "bytes option"

record player_path =
  pp_client :: "now_playing_client option"
  pp_player :: "now_playing_player option"

record 'm playback_queue =
  pq_location :: "i32 option"
  pq_items :: "'m content_item list"

record 'm set_state_message =
  ss_playback_state :: "i32 option"
  ss_commands :: "command_info list option"
  ss_queue :: "'m playback_queue option"
  ss_path :: "player_path option"

definition blank_client :: now_playing_client where
  "blank_client = \<lparr>np_bundle = None, np_client_name = None\<rparr>"

definition blank_player :: now_playing_player where
  "blank_player = \<lparr>np_identifier = None, np_player_name = None\<rparr>"

abbreviation or_empty :: "bytes option \<Rightarrow> bytes" where
  "or_empty s \<equiv> case s of Some x \<Rightarrow> x | None \<Rightarrow> []"

section \<open>A player\<close>

definition DEFAULT_PLAYER_ID :: bytes where
  "DEFAULT_PLAYER_ID = lit ''MediaRemote-DefaultPlayer''"

record 'm player_state =
  ps_identifier :: bytes
  ps_display_name :: "bytes option"
  ps_raw_state :: "i32 option"
  ps_commands :: "command_info list"
  ps_items :: "'m content_item list"
  ps_location :: i32

definition player_default :: "'m player_state" where
  "player_default = \<lparr>ps_identifier = [], ps_display_name = None, ps_raw_state = None, ps_commands = [],
     ps_items = [], ps_location = 0\<rparr>"

definition queue_index :: "i32 \<Rightarrow> nat \<Rightarrow> nat option" where
  "queue_index location len =
     Option.bind (if 0 \<le> sint location then Some (nat (sint location))
                  else if nat (- sint location) \<le> len then Some (len - nat (- sint location)) else None)
       (\<lambda>index. if index < len then Some index else None)"

definition player_update :: "now_playing_player \<Rightarrow> 'm player_state \<Rightarrow> 'm player_state" where
  "player_update np s =
     (case np_player_name np of
        Some name \<Rightarrow> if name \<noteq> [] then s\<lparr>ps_display_name := Some name\<rparr> else s
      | None \<Rightarrow> s)"

definition player_new :: "now_playing_player \<Rightarrow> 'm player_state" where
  "player_new np = player_update np (player_default\<lparr>ps_identifier := or_empty (np_identifier np)\<rparr>)"

definition player_is_valid :: "'m player_state \<Rightarrow> bool" where
  "player_is_valid s \<longleftrightarrow> ps_identifier s \<noteq> []"

definition current_item :: "'m player_state \<Rightarrow> 'm content_item option" where
  "current_item s = Option.bind (queue_index (ps_location s) (length (ps_items s))) (get_at (ps_items s))"

definition player_metadata :: "'m player_state \<Rightarrow> 'm metadata option" where
  "player_metadata s = Option.bind (current_item s) ci_metadata"

definition player_item_identifier :: "'m player_state \<Rightarrow> bytes option" where
  "player_item_identifier s = Option.bind (current_item s) ci_identifier"

text \<open>
  \<open>is_close\<close> against zero and against one, on exact values scaled by \<open>2^149\<close>. The bound \<open>1e-9 * max(|a|, |b|)\<close> is
  below a difference of two distinct floats there (the nearest floats to one are \<open>2^-24\<close> away, and zero is close to
  itself alone), while an infinity is within an infinite bound of everything.
\<close>

definition close_to_zero :: "u32 \<Rightarrow> bool" where
  "close_to_zero b \<longleftrightarrow> f32_infinite b \<or> f32_eq b 0"

definition close_to_one :: "u32 \<Rightarrow> bool" where
  "close_to_one b \<longleftrightarrow> f32_infinite b \<or> f32_eq b 0x3F800000"

definition player_playback_state :: "'m player_state \<Rightarrow> playback_state option" where
  "player_playback_state s =
     Option.bind (Option.bind (ps_raw_state s) playback_from_i32) (\<lambda>raw.
       if raw = Ps_Paused then map_option (\<lambda>_. Ps_Paused) (player_metadata s)
       else if raw \<noteq> Ps_Playing then Some raw
       else case Option.bind (player_metadata s) md_rate of
              None \<Rightarrow> Some raw
            | Some rate \<Rightarrow>
                if close_to_zero rate \<or> close_to_one rate then Some Ps_Playing else Some Ps_Seeking)"

definition player_set_state :: "'m set_state_message \<Rightarrow> 'm player_state \<Rightarrow> 'm player_state" where
  "player_set_state m s =
     (let s1 = (case ss_playback_state m of Some st \<Rightarrow> s\<lparr>ps_raw_state := Some st\<rparr> | None \<Rightarrow> s);
          s2 = (case ss_commands m of Some cmds \<Rightarrow> s1\<lparr>ps_commands := cmds\<rparr> | None \<Rightarrow> s1)
      in case ss_queue m of
           Some q \<Rightarrow> s2\<lparr>ps_items := pq_items q, ps_location := (case pq_location q of Some l \<Rightarrow> l | None \<Rightarrow> 0)\<rparr>
         | None \<Rightarrow> s2)"

definition merge_item ::
  "('m metadata \<Rightarrow> 'm metadata \<Rightarrow> 'm metadata) \<Rightarrow> 'm metadata \<Rightarrow> 'm content_item \<Rightarrow> 'm content_item \<Rightarrow> 'm content_item" where
  "merge_item merge blank update existing =
     (case ci_metadata update of
        None \<Rightarrow> existing
      | Some md \<Rightarrow>
          if ci_identifier existing = ci_identifier update
          then existing\<lparr>ci_metadata := Some (merge (case ci_metadata existing of Some old \<Rightarrow> old | None \<Rightarrow> blank) md)\<rparr>
          else existing)"

definition player_content_update ::
  "('m metadata \<Rightarrow> 'm metadata \<Rightarrow> 'm metadata) \<Rightarrow> 'm metadata \<Rightarrow> 'm content_item list \<Rightarrow> 'm player_state \<Rightarrow> 'm player_state" where
  "player_content_update merge blank updates s =
     s\<lparr>ps_items := fold (\<lambda>u items. map (merge_item merge blank u) items) updates (ps_items s)\<rparr>"

section \<open>A client\<close>

record 'm client =
  cl_bundle :: bytes
  cl_display_name :: "bytes option"
  cl_commands :: "command_info list"
  cl_active :: "bytes option"
  cl_players :: "bytes \<rightharpoonup> 'm player_state"

definition client_default :: "'m client" where
  "client_default = \<lparr>cl_bundle = [], cl_display_name = None, cl_commands = [], cl_active = None, cl_players = Map.empty\<rparr>"

definition client_update :: "now_playing_client \<Rightarrow> 'm client \<Rightarrow> 'm client" where
  "client_update np c =
     (case np_client_name np of
        Some name \<Rightarrow> if name \<noteq> [] then c\<lparr>cl_display_name := Some name\<rparr> else c
      | None \<Rightarrow> c)"

definition client_new :: "now_playing_client \<Rightarrow> 'm client" where
  "client_new np = client_update np (client_default\<lparr>cl_bundle := or_empty (np_bundle np)\<rparr>)"

definition active_player_id :: "'m client \<Rightarrow> bytes option" where
  "active_player_id c =
     (case cl_active c of
        Some i \<Rightarrow> Some i
      | None \<Rightarrow> if cl_players c DEFAULT_PLAYER_ID \<noteq> None then Some DEFAULT_PLAYER_ID else None)"

text \<open>\<open>Client::player_mut\<close>: the entry for the identifier, a new player where there is none, updated.\<close>

definition client_player_mut ::
  "now_playing_player \<Rightarrow> ('m player_state \<Rightarrow> 'r \<times> 'm player_state) \<Rightarrow> 'm client \<Rightarrow> 'r \<times> 'm client" where
  "client_player_mut np f c =
     (let i = or_empty (np_identifier np);
          (r, s) = f (case cl_players c i of Some s \<Rightarrow> s | None \<Rightarrow> player_new np)
      in (r, c\<lparr>cl_players := (cl_players c)(i \<mapsto> s)\<rparr>))"

section \<open>The active player\<close>

record 'm active_player =
  ap_player :: "'m player_state option"
  ap_defaults :: "command_info list"

definition client_active_player :: "'m client \<Rightarrow> 'm active_player" where
  "client_active_player c = \<lparr>ap_player = Option.bind (active_player_id c) (cl_players c), ap_defaults = cl_commands c\<rparr>"

definition ap_identifier :: "'m active_player \<Rightarrow> bytes" where
  "ap_identifier a = (case ap_player a of Some s \<Rightarrow> ps_identifier s | None \<Rightarrow> [])"

definition ap_location :: "'m active_player \<Rightarrow> i32" where
  "ap_location a = (case ap_player a of Some s \<Rightarrow> ps_location s | None \<Rightarrow> 0)"

definition ap_metadata :: "'m active_player \<Rightarrow> 'm metadata option" where
  "ap_metadata a = Option.bind (ap_player a) player_metadata"

definition ap_item_identifier :: "'m active_player \<Rightarrow> bytes option" where
  "ap_item_identifier a = Option.bind (ap_player a) player_item_identifier"

definition ap_playback_state :: "'m active_player \<Rightarrow> playback_state option" where
  "ap_playback_state a = Option.bind (ap_player a) player_playback_state"

definition ap_command_info :: "i32 \<Rightarrow> 'm active_player \<Rightarrow> command_info option" where
  "ap_command_info command a =
     List.find (\<lambda>info. cmd_command info = Some command)
       ((case ap_player a of Some s \<Rightarrow> ps_commands s | None \<Rightarrow> []) @ ap_defaults a)"

section \<open>The manager\<close>

record changed =
  ch_client :: "bytes option"
  ch_player :: "bytes option"

record 'm players =
  mg_clients :: "bytes \<rightharpoonup> 'm client"
  mg_active :: "bytes option"

definition players_new :: "'m players" where
  "players_new = \<lparr>mg_clients = Map.empty, mg_active = None\<rparr>"

definition active_client :: "'m players \<Rightarrow> 'm client option" where
  "active_client m = Option.bind (mg_active m) (mg_clients m)"

definition now_playing :: "'m players \<Rightarrow> 'm active_player" where
  "now_playing m =
     (case active_client m of Some c \<Rightarrow> client_active_player c | None \<Rightarrow> \<lparr>ap_player = None, ap_defaults = []\<rparr>)"

definition client_mut ::
  "now_playing_client \<Rightarrow> ('m client \<Rightarrow> 'r \<times> 'm client) \<Rightarrow> 'm players \<Rightarrow> 'r \<times> 'm players" where
  "client_mut np f m =
     (let b = or_empty (np_bundle np);
          (r, c) = f (case mg_clients m b of Some c \<Rightarrow> c | None \<Rightarrow> client_new np)
      in (r, m\<lparr>mg_clients := (mg_clients m)(b \<mapsto> c)\<rparr>))"

abbreviation path_client :: "player_path \<Rightarrow> now_playing_client" where
  "path_client p \<equiv> case pp_client p of Some c \<Rightarrow> c | None \<Rightarrow> blank_client"

abbreviation path_player :: "player_path \<Rightarrow> now_playing_player" where
  "path_player p \<equiv> case pp_player p of Some c \<Rightarrow> c | None \<Rightarrow> blank_player"

definition player_mut ::
  "player_path \<Rightarrow> ('m player_state \<Rightarrow> 'r \<times> 'm player_state) \<Rightarrow> 'm players \<Rightarrow> 'r \<times> 'm players" where
  "player_mut path f m = client_mut (path_client path) (client_player_mut (path_player path) f) m"

definition should_notify :: "changed \<Rightarrow> 'm players \<Rightarrow> bool" where
  "should_notify ch m \<longleftrightarrow>
     ch_client ch = mg_active m
     \<or> (ch_player ch \<noteq> None \<and> ch_player ch = Some (ap_identifier (now_playing m)))
     \<or> (ch_client ch = None \<and> ch_player ch = None)"

definition set_now_playing_client :: "now_playing_client \<Rightarrow> 'm players \<Rightarrow> 'm players" where
  "set_now_playing_client np m =
     (let (b, m') = client_mut np (\<lambda>c. (cl_bundle c, c)) m in m'\<lparr>mg_active := Some b\<rparr>)"

definition set_now_playing_player :: "player_path \<Rightarrow> 'm players \<Rightarrow> bytes \<times> 'm players" where
  "set_now_playing_player path m =
     client_mut (path_client path)
       (\<lambda>c. let (i, c') = client_player_mut (path_player path) (\<lambda>s. (ps_identifier s, s)) c in
            (cl_bundle c', c'\<lparr>cl_active := Some i\<rparr>)) m"

definition set_default_supported_commands :: "player_path \<Rightarrow> command_info list \<Rightarrow> 'm players \<Rightarrow> 'm players" where
  "set_default_supported_commands path cmds m = snd (client_mut (path_client path) (\<lambda>c. ((), c\<lparr>cl_commands := cmds\<rparr>)) m)"

definition update_client :: "now_playing_client \<Rightarrow> 'm players \<Rightarrow> bytes \<times> 'm players" where
  "update_client np m = client_mut np (\<lambda>c. (cl_bundle c, client_update np c)) m"

definition remove_client :: "now_playing_client \<Rightarrow> 'm players \<Rightarrow> bool \<times> 'm players" where
  "remove_client np m =
     (let b = or_empty (np_bundle np) in
      if mg_clients m b = None then (False, m)
      else
        let m1 = m\<lparr>mg_clients := (mg_clients m)(b := None)\<rparr> in
        if mg_active m1 = Some b then (True, m1\<lparr>mg_active := None\<rparr>) else (False, m1))"

definition remove_player :: "player_path \<Rightarrow> 'm players \<Rightarrow> bytes option \<times> 'm players" where
  "remove_player path m =
     (case pp_player path of
        None \<Rightarrow> (None, m)
      | Some np \<Rightarrow>
          let i = or_empty (np_identifier np) in
          if i = [] then (None, m)
          else client_mut (path_client path)
                 (\<lambda>c. let c1 = c\<lparr>cl_players := (cl_players c)(i := None)\<rparr> in
                      if active_player_id c1 = Some i \<or> cl_active c1 = Some i
                      then (Some (cl_bundle c1), c1\<lparr>cl_active := None\<rparr>)
                      else (None, c1)) m)"

section \<open>Lemmas\<close>

text \<open>Every node is filed under its own identifier, and what is named active is there.\<close>

definition client_ok :: "'m client \<Rightarrow> bool" where
  "client_ok c \<longleftrightarrow> (\<forall>i s. cl_players c i = Some s \<longrightarrow> ps_identifier s = i)
     \<and> (\<forall>i. cl_active c = Some i \<longrightarrow> cl_players c i \<noteq> None)"

definition players_ok :: "'m players \<Rightarrow> bool" where
  "players_ok m \<longleftrightarrow> (\<forall>b c. mg_clients m b = Some c \<longrightarrow> cl_bundle c = b \<and> client_ok c)
     \<and> (\<forall>b. mg_active m = Some b \<longrightarrow> mg_clients m b \<noteq> None)"

text \<open>The client, and the player of a client, that a \<open>&mut\<close> refers to.\<close>

definition client_at :: "now_playing_client \<Rightarrow> 'm players \<Rightarrow> 'm client" where
  "client_at np m = (case mg_clients m (or_empty (np_bundle np)) of Some c \<Rightarrow> c | None \<Rightarrow> client_new np)"

definition player_at :: "now_playing_player \<Rightarrow> 'm client \<Rightarrow> 'm player_state" where
  "player_at np c = (case cl_players c (or_empty (np_identifier np)) of Some s \<Rightarrow> s | None \<Rightarrow> player_new np)"

lemma player_update_fields [simp]:
  "ps_identifier (player_update np s) = ps_identifier s" "ps_raw_state (player_update np s) = ps_raw_state s"
  "ps_commands (player_update np s) = ps_commands s" "ps_items (player_update np s) = ps_items s"
  "ps_location (player_update np s) = ps_location s"
  by (simp_all add: player_update_def split: option.splits)

lemma client_update_fields [simp]:
  "cl_bundle (client_update np c) = cl_bundle c" "cl_commands (client_update np c) = cl_commands c"
  "cl_active (client_update np c) = cl_active c" "cl_players (client_update np c) = cl_players c"
  by (simp_all add: client_update_def split: option.splits)

lemma new_fields [simp]:
  "ps_identifier (player_new np) = or_empty (np_identifier np)" "cl_bundle (client_new c) = or_empty (np_bundle c)"
  "cl_players (client_new c) = Map.empty" "cl_active (client_new c) = None" "cl_commands (client_new c) = []"
  by (simp_all add: player_new_def client_new_def client_default_def)

lemma set_state_identifier [simp]: "ps_identifier (player_set_state msg s) = ps_identifier s"
  by (simp add: player_set_state_def Let_def split: option.splits)

lemma content_update_identifier [simp]: "ps_identifier (player_content_update merge blank us s) = ps_identifier s"
  by (simp add: player_content_update_def)

lemma client_ok_new [simp]: "client_ok (client_new np)"
  by (simp add: client_ok_def)

lemma client_at_ok: "players_ok m \<Longrightarrow> client_ok (client_at np m) \<and> cl_bundle (client_at np m) = or_empty (np_bundle np)"
  by (auto simp: client_at_def players_ok_def split: option.splits)

lemma player_at_identifier: "client_ok c \<Longrightarrow> ps_identifier (player_at np c) = or_empty (np_identifier np)"
  by (auto simp: player_at_def client_ok_def split: option.splits)

lemma client_mut_eq:
  "client_mut np f m =
     (fst (f (client_at np m)), m\<lparr>mg_clients := (mg_clients m)(or_empty (np_bundle np) \<mapsto> snd (f (client_at np m)))\<rparr>)"
  by (simp add: client_mut_def client_at_def Let_def split: prod.splits)

lemma client_player_mut_eq:
  "client_player_mut np f c =
     (fst (f (player_at np c)), c\<lparr>cl_players := (cl_players c)(or_empty (np_identifier np) \<mapsto> snd (f (player_at np c)))\<rparr>)"
  by (simp add: client_player_mut_def player_at_def Let_def split: prod.splits)

lemma client_mut_ok:
  assumes "players_ok m"
    and "\<And>c. client_ok c \<Longrightarrow> cl_bundle c = or_empty (np_bundle np) \<Longrightarrow>
           client_ok (snd (f c)) \<and> cl_bundle (snd (f c)) = or_empty (np_bundle np)"
  shows "players_ok (snd (client_mut np f m))"
proof -
  have "client_ok (snd (f (client_at np m))) \<and> cl_bundle (snd (f (client_at np m))) = or_empty (np_bundle np)"
    using assms(2) client_at_ok [OF assms(1), of np] by blast
  with assms(1) show ?thesis by (auto simp: client_mut_eq players_ok_def)
qed

lemma client_player_mut_ok:
  assumes "client_ok c" and "\<And>s. ps_identifier (snd (f s)) = ps_identifier s"
  shows "client_ok (snd (client_player_mut np f c))"
  using assms player_at_identifier [OF assms(1), of np] by (auto simp: client_player_mut_eq client_ok_def)

lemma client_player_mut_bundle [simp]: "cl_bundle (snd (client_player_mut np f c)) = cl_bundle c"
  by (simp add: client_player_mut_eq)

lemma player_mut_ok:
  "players_ok m \<Longrightarrow> (\<And>s. ps_identifier (snd (f s)) = ps_identifier s) \<Longrightarrow> players_ok (snd (player_mut path f m))"
  unfolding player_mut_def by (rule client_mut_ok) (auto intro: client_player_mut_ok)

lemma players_ok_new [simp]: "players_ok players_new"
  by (simp add: players_ok_def players_new_def)

lemma set_client_ok:
  assumes "players_ok m"
  shows "players_ok (set_now_playing_client np m)"
proof -
  have "players_ok (snd (client_mut np (\<lambda>c. (cl_bundle c, c)) m))" by (rule client_mut_ok [OF assms]) simp_all
  moreover have "mg_clients (snd (client_mut np (\<lambda>c. (cl_bundle c, c)) m)) (or_empty (np_bundle np)) \<noteq> None"
    "fst (client_mut np (\<lambda>c. (cl_bundle c, c)) m) = or_empty (np_bundle np)"
    using client_at_ok [OF assms, of np] by (simp_all add: client_mut_eq)
  ultimately show ?thesis by (simp add: set_now_playing_client_def split_beta players_ok_def)
qed

lemma client_ok_activate:
  "client_ok c \<Longrightarrow> ps_identifier s = i \<Longrightarrow> client_ok (c\<lparr>cl_players := (cl_players c)(i \<mapsto> s), cl_active := Some i\<rparr>)"
  by (simp add: client_ok_def)

lemma set_player_ok:
  assumes "players_ok m"
  shows "players_ok (snd (set_now_playing_player path m))"
  unfolding set_now_playing_player_def
proof (rule client_mut_ok [OF assms], rule conjI)
  fix c :: "'a client"
  assume c: "client_ok c" "cl_bundle c = or_empty (np_bundle (path_client path))"
  note i = player_at_identifier [OF c(1), of "path_player path"]
  show "client_ok (snd (let (i, c') = client_player_mut (path_player path) (\<lambda>s. (ps_identifier s, s)) c in
      (cl_bundle c', c'\<lparr>cl_active := Some i\<rparr>)))"
    using client_ok_activate [OF c(1) i] by (simp only: client_player_mut_eq Let_def prod.case fst_conv snd_conv i)
  show "cl_bundle (snd (let (i, c') = client_player_mut (path_player path) (\<lambda>s. (ps_identifier s, s)) c in
      (cl_bundle c', c'\<lparr>cl_active := Some i\<rparr>))) = or_empty (np_bundle (path_client path))"
    using c(2) by (simp add: client_player_mut_eq)
qed

lemma set_commands_ok: "players_ok m \<Longrightarrow> players_ok (set_default_supported_commands path cmds m)"
  unfolding set_default_supported_commands_def by (rule client_mut_ok) (simp_all add: client_ok_def)

lemma update_client_ok: "players_ok m \<Longrightarrow> players_ok (snd (update_client np m))"
  unfolding update_client_def by (rule client_mut_ok) (simp_all add: client_ok_def)

lemma remove_client_ok: "players_ok m \<Longrightarrow> players_ok (snd (remove_client np m))"
  by (auto simp: remove_client_def Let_def players_ok_def)

lemma remove_player_ok:
  assumes "players_ok m"
  shows "players_ok (snd (remove_player path m))"
proof (cases "\<exists>np. pp_player path = Some np \<and> or_empty (np_identifier np) \<noteq> []")
  case True
  then obtain np where np: "pp_player path = Some np" "or_empty (np_identifier np) \<noteq> []" by blast
  let ?i = "or_empty (np_identifier np)"
  let ?f = "\<lambda>c :: 'a client. let c1 = c\<lparr>cl_players := (cl_players c)(?i := None)\<rparr> in
    if active_player_id c1 = Some ?i \<or> cl_active c1 = Some ?i then (Some (cl_bundle c1), c1\<lparr>cl_active := None\<rparr>) else (None, c1)"
  have "players_ok (snd (client_mut (path_client path) ?f m))"
    by (rule client_mut_ok [OF assms]) (auto simp: Let_def client_ok_def)
  with np show ?thesis by (simp add: remove_player_def Let_def)
qed (auto simp: remove_player_def Let_def assms split: option.splits)

text \<open>The active player is the one the active client's identifier names.\<close>

lemma now_playing_found:
  assumes "players_ok m" and "active_client m = Some c" and "active_player_id c = Some i"
  shows "\<exists>s. cl_players c i = Some s \<and> ps_identifier s = i \<and> now_playing m = \<lparr>ap_player = Some s, ap_defaults = cl_commands c\<rparr>"
proof -
  obtain b where b: "mg_active m = Some b" "mg_clients m b = Some c"
    using assms(2) by (cases "mg_active m") (auto simp: active_client_def)
  with assms(1) have c: "client_ok c" by (auto simp: players_ok_def)
  then have "cl_players c i \<noteq> None" using assms(3)
    by (auto simp: active_player_id_def client_ok_def split: option.splits if_splits)
  then obtain s where s: "cl_players c i = Some s" by blast
  with c have "ps_identifier s = i" by (simp add: client_ok_def)
  with s assms(2,3) show ?thesis by (simp add: now_playing_def client_active_player_def)
qed

end
