(* ===== verification/Float_Arith.thy ===== *)
theory Float_Arith
  imports Float32
begin

text \<open>
  The arithmetic of \<open>f32\<close> and \<open>f64\<close> the MRP client does, on bit patterns: every operation is the exact
  result rounded to the nearest float, ties to the even one. Rust does not say which NaN an operation
  gives; here it is the quiet one with an empty payload.
\<close>

unbundle bit_operations_syntax

section \<open>Rounding\<close>

fun bit_len :: "nat \<Rightarrow> nat" where
  "bit_len n = (if n = 0 then 0 else Suc (bit_len (n div 2)))"

declare bit_len.simps [simp del]

definition round_half_even :: "nat \<Rightarrow> nat \<Rightarrow> nat" where
  "round_half_even a b =
     (let q = a div b; r = a mod b in if 2 * r < b \<or> (2 * r = b \<and> even q) then q else Suc q)"

text \<open>
  The magnitude of the float of precision \<open>p\<close> nearest to \<open>a / b\<close> units, a unit being the smallest
  subnormal: \<open>s\<close> is what the exponent field exceeds its value for one, and a mantissa that rounds up to
  the next power of two carries into it. \<open>cap\<close> is the pattern of infinity.
\<close>

definition float_round :: "nat \<Rightarrow> nat \<Rightarrow> nat \<Rightarrow> nat \<Rightarrow> nat" where
  "float_round p cap a b =
     (let s = bit_len (a div b) - p in min cap (s * 2 ^ (p - 1) + round_half_even a (b * 2 ^ s)))"

section \<open>Single precision\<close>

definition f32_nan :: u32 where "f32_nan = 0x7FC00000"

definition f32_magnitude :: "u32 \<Rightarrow> nat" where
  "f32_magnitude x = nat \<bar>f32_scaled x\<bar>"

definition f32_signed :: "u32 \<Rightarrow> nat \<Rightarrow> u32" where
  "f32_signed x m = (x AND 0x80000000) OR word_of_nat m"

text \<open>\<open>x * k\<close> and \<open>x / k\<close> for a positive whole number \<open>k\<close>.\<close>

definition f32_mul_nat :: "u32 \<Rightarrow> nat \<Rightarrow> u32" where
  "f32_mul_nat x k =
     (if f32_is_nan x then f32_nan else if f32_infinite x then x
      else f32_signed x (float_round 24 0x7F800000 (f32_magnitude x * k) 1))"

definition f32_div_nat :: "u32 \<Rightarrow> nat \<Rightarrow> u32" where
  "f32_div_nat x k =
     (if f32_is_nan x then f32_nan else if f32_infinite x then x
      else f32_signed x (float_round 24 0x7F800000 (f32_magnitude x) k))"

text \<open>\<open>f32::round\<close>: the nearest whole number, ties away from zero; from \<open>2^23\<close> on every float is one.\<close>

definition f32_round :: "u32 \<Rightarrow> u32" where
  "f32_round x =
     (if f32_is_nan x then f32_nan else if f32_infinite x \<or> 2 ^ (149 + 23) \<le> f32_magnitude x then x
      else f32_signed x (float_round 24 0x7F800000 ((2 * f32_magnitude x + 2 ^ 149) div 2 ^ 150 * 2 ^ 149) 1))"

section \<open>Double precision\<close>

definition f64_infinite :: "f64 \<Rightarrow> bool" where
  "f64_infinite b \<longleftrightarrow> b AND 0x7FFFFFFFFFFFFFFF = 0x7FF0000000000000"

definition f64_negative :: "f64 \<Rightarrow> bool" where
  "f64_negative b \<longleftrightarrow> bit b 63"

definition f64_is_zero :: "f64 \<Rightarrow> bool" where
  "f64_is_zero b \<longleftrightarrow> b AND 0x7FFFFFFFFFFFFFFF = 0"

definition f64_nan :: f64 where "f64_nan = 0x7FF8000000000000"

text \<open>The value times \<open>2^1074\<close>, an integer for every finite double.\<close>

definition f64_scaled :: "f64 \<Rightarrow> int" where
  "f64_scaled b =
     (let e = unat (drop_bit 52 b AND 0x7FF); f = int (unat (b AND 0xFFFFFFFFFFFFF));
          m = (if e = 0 then f else (2 ^ 52 + f) * 2 ^ (e - 1))
      in if f64_negative b then - m else m)"

definition f64_of_scaled :: "int \<Rightarrow> f64" where
  "f64_of_scaled n =
     (if n < 0 then 0x8000000000000000 else 0) OR word_of_nat (float_round 53 0x7FF0000000000000 (nat \<bar>n\<bar>) 1)"

definition f64_neg :: "f64 \<Rightarrow> f64" where
  "f64_neg b = b XOR 0x8000000000000000"

definition f64_add :: "f64 \<Rightarrow> f64 \<Rightarrow> f64" where
  "f64_add a b =
     (if f64_is_nan a \<or> f64_is_nan b then f64_nan
      else if f64_infinite a then (if f64_infinite b \<and> f64_negative a \<noteq> f64_negative b then f64_nan else a)
      else if f64_infinite b then b
      else if f64_is_zero a \<and> f64_is_zero b then a AND b
      else f64_of_scaled (f64_scaled a + f64_scaled b))"

definition f64_sub :: "f64 \<Rightarrow> f64 \<Rightarrow> f64" where
  "f64_sub a b = f64_add a (f64_neg b)"

section \<open>Lemmas\<close>

lemma bit_len_zero [simp]: "bit_len 0 = 0"
  by (simp add: bit_len.simps)

lemma bit_len_bounds: "n < 2 ^ bit_len n \<and> (0 < n \<longrightarrow> 2 ^ (bit_len n - 1) \<le> n)"
proof (induction n rule: bit_len.induct)
  case (1 n)
  show ?case
  proof (cases "n = 0")
    case False
    with 1 have IH: "n div 2 < 2 ^ bit_len (n div 2)" "0 < n div 2 \<Longrightarrow> 2 ^ (bit_len (n div 2) - 1) \<le> n div 2" by simp_all
    have l: "bit_len n = Suc (bit_len (n div 2))" using False by (subst bit_len.simps) simp
    have "n < 2 * 2 ^ bit_len (n div 2)" using IH(1) by linarith
    moreover have "2 ^ bit_len (n div 2) \<le> n"
    proof (cases "n div 2 = 0")
      case True
      with False show ?thesis by simp
    next
      case False
      then have "bit_len (n div 2) = Suc (bit_len (n div 2) - 1)" by (subst bit_len.simps) (simp add: bit_len.simps [of "n div 2"])
      then have "(2 :: nat) ^ bit_len (n div 2) = 2 * 2 ^ (bit_len (n div 2) - 1)" by (metis power_Suc)
      with IH(2) False show ?thesis by linarith
    qed
    ultimately show ?thesis by (simp add: l)
  qed simp
qed

lemma bit_len_mono: "m \<le> n \<Longrightarrow> bit_len m \<le> bit_len n"
proof (rule ccontr)
  assume "m \<le> n" and "\<not> bit_len m \<le> bit_len n"
  then have l: "bit_len n \<le> bit_len m - 1" "0 < m" by (auto intro: Nat.gr0I)
  have "n < 2 ^ bit_len n" using bit_len_bounds by blast
  also have "\<dots> \<le> 2 ^ (bit_len m - 1)" using l(1) by (simp add: power_increasing)
  also have "\<dots> \<le> m" using bit_len_bounds l(2) by blast
  finally show False using \<open>m \<le> n\<close> by simp
qed

lemma round_half_even_bounds: "a div b \<le> round_half_even a b \<and> round_half_even a b \<le> Suc (a div b)"
  by (simp add: round_half_even_def Let_def)

lemma round_half_even_mono:
  assumes "0 < b" and "a \<le> a'"
  shows "round_half_even a b \<le> round_half_even a' b"
proof -
  have q: "a div b \<le> a' div b" using assms(2) by (rule div_le_mono)
  show ?thesis
  proof (cases "a div b = a' div b")
    case True
    then have "a mod b \<le> a' mod b" using assms(2) by (metis add_le_cancel_left mult_div_mod_eq)
    with True show ?thesis by (auto simp: round_half_even_def Let_def)
  next
    case False
    with q have "Suc (a div b) \<le> a' div b" by simp
    with round_half_even_bounds [of a b] round_half_even_bounds [of a' b] show ?thesis by linarith
  qed
qed

lemma float_round_mono:
  assumes "0 < p" and "0 < b" and "a \<le> a'"
  shows "float_round p cap a b \<le> float_round p cap a' b"
proof -
  let ?s = "\<lambda>a. bit_len (a div b) - p"
  let ?f = "\<lambda>a. ?s a * 2 ^ (p - 1) + round_half_even a (b * 2 ^ ?s a)"
  have q: "a div b \<le> a' div b" using assms(3) by (rule div_le_mono)
  from bit_len_mono [OF q] have s: "?s a \<le> ?s a'" by simp
  have "?f a \<le> ?f a'"
  proof (cases "?s a = ?s a'")
    case True
    with assms(2,3) show ?thesis by (simp add: round_half_even_mono)
  next
    case False
    with s have lt: "Suc (?s a) \<le> ?s a'" by simp
    have "bit_len (a div b) \<le> p + ?s a" by simp
    then have "a div b < 2 ^ (p + ?s a)"
      using bit_len_bounds [of "a div b"] by (meson less_le_trans one_le_numeral power_increasing)
    then have "a div (b * 2 ^ ?s a) < 2 ^ p"
      by (simp add: div_mult2_eq power_add less_mult_imp_div_less)
    then have le: "?f a \<le> ?s a * 2 ^ (p - 1) + 2 ^ p"
      using round_half_even_bounds [of a "b * 2 ^ ?s a"] by linarith
    have l': "bit_len (a' div b) = p + ?s a'" using lt by simp
    with assms(1) have "a' div b \<noteq> 0" by (metis bit_len_zero add_is_0 not_less0)
    then have "2 ^ (p + ?s a' - 1) \<le> a' div b" using bit_len_bounds [of "a' div b"] l' by simp
    moreover have "(2 :: nat) ^ (p + ?s a' - 1) = 2 ^ (p - 1) * 2 ^ ?s a'" using assms(1) by (simp add: power_add [symmetric])
    ultimately have "2 ^ (p - 1) \<le> a' div b div 2 ^ ?s a'" by (simp add: less_eq_div_iff_mult_less_eq)
    then have "2 ^ (p - 1) \<le> round_half_even a' (b * 2 ^ ?s a')"
      using round_half_even_bounds [of a' "b * 2 ^ ?s a'"] by (simp add: div_mult2_eq)
    moreover have "(2 :: nat) ^ p = 2 * 2 ^ (p - 1)" using assms(1) by (cases p) simp_all
    moreover have "Suc (?s a) * 2 ^ (p - 1) \<le> ?s a' * 2 ^ (p - 1)" using lt by (rule mult_le_mono1)
    ultimately show ?thesis using le by simp
  qed
  then show ?thesis by (simp add: float_round_def Let_def min_le_iff_disj)
qed

section \<open>Positive single-precision floats\<close>

lemma f32_exponent_nat: "f32_exponent x = unat x div 2 ^ 23 mod 2 ^ 8"
proof -
  have "drop_bit 23 x AND 0xFF = take_bit 8 (drop_bit 23 x)" by (simp add: take_bit_eq_mask mask_eq_exp_minus_1)
  then show ?thesis
    by (simp add: f32_exponent_def take_bit_eq_mod drop_bit_eq_div unat_div_distrib unat_mod_distrib)
qed

lemma f32_mantissa_nat: "f32_mantissa x = unat x mod 2 ^ 23"
proof -
  have "x AND 0x7FFFFF = take_bit 23 x" by (simp add: take_bit_eq_mask mask_eq_exp_minus_1)
  then show ?thesis by (simp add: f32_mantissa_def take_bit_eq_mod unat_mod_distrib)
qed

lemma f32_magnitude_nat:
  "f32_magnitude x = (if f32_exponent x = 0 then f32_mantissa x else (2 ^ 23 + f32_mantissa x) * 2 ^ (f32_exponent x - 1))"
proof -
  have "nat ((8388608 + int m) * 2 ^ k) = (8388608 + m) * 2 ^ k" for m k :: nat
    by (simp add: nat_mult_distrib nat_add_distrib nat_power_eq)
  then show ?thesis by (simp add: f32_magnitude_def f32_scaled_def Let_def abs_mult)
qed

text \<open>The magnitude as a function of a pattern with its sign cleared.\<close>

definition pattern_magnitude :: "nat \<Rightarrow> nat" where
  "pattern_magnitude n = (if n < 2 ^ 23 then n else (2 ^ 23 + n mod 2 ^ 23) * 2 ^ (n div 2 ^ 23 - 1))"

lemma pattern_magnitude_Suc: "pattern_magnitude n \<le> pattern_magnitude (Suc n)"
proof (cases "Suc n mod 2 ^ 23 = 0")
  case True
  then obtain k where k: "Suc n = 2 ^ 23 * k" by (auto simp: mod_eq_0_iff_dvd)
  then obtain j where j: "k = Suc j" by (cases k) auto
  have n: "n = 2 ^ 23 * j + (2 ^ 23 - 1)" using k j by simp
  have d: "n div 2 ^ 23 = j" "n mod 2 ^ 23 = 2 ^ 23 - 1" by (simp_all add: n)
  have m: "pattern_magnitude (Suc n) = 2 ^ 23 * 2 ^ j" using k j by (simp add: pattern_magnitude_def)
  show ?thesis
  proof (cases j)
    case 0
    then show ?thesis using n m by (simp add: pattern_magnitude_def)
  next
    case (Suc i)
    then have "pattern_magnitude n = (2 ^ 23 + (2 ^ 23 - 1)) * 2 ^ i" using d n by (simp add: pattern_magnitude_def)
    with m Suc show ?thesis by simp
  qed
next
  case False
  then have "Suc n mod 2 ^ 23 = Suc (n mod 2 ^ 23)" "Suc n div 2 ^ 23 = n div 2 ^ 23"
    by (simp_all add: mod_Suc div_Suc split: if_splits)
  moreover from False have "Suc n < 2 ^ 23 \<longleftrightarrow> n < 2 ^ 23" by (cases "Suc n = 2 ^ 23") auto
  ultimately show ?thesis by (simp add: pattern_magnitude_def)
qed

lemma pattern_magnitude_mono: "m \<le> n \<Longrightarrow> pattern_magnitude m \<le> pattern_magnitude n"
  by (rule lift_Suc_mono_le [of pattern_magnitude]) (rule pattern_magnitude_Suc)

lemma f32_magnitude_pattern: "unat x < 2 ^ 31 \<Longrightarrow> f32_magnitude x = pattern_magnitude (unat x)"
proof -
  assume "unat x < 2 ^ 31"
  then have "f32_exponent x = unat x div 2 ^ 23" by (simp add: f32_exponent_nat)
  then show ?thesis
    by (auto simp: f32_magnitude_nat f32_mantissa_nat pattern_magnitude_def div_eq_0_iff)
qed

lemma f32_positive:
  assumes "unat x < 0x7F800000"
  shows "\<not> f32_is_nan x \<and> \<not> f32_infinite x \<and> x AND 0x80000000 = 0"
proof -
  have "x AND 0x7FFFFFFF = take_bit 31 x" by (simp add: take_bit_eq_mask mask_eq_exp_minus_1)
  also have "take_bit 31 x = x"
    using assms by (simp add: word_unat_eq_iff unsigned_take_bit_eq take_bit_nat_eq_self)
  finally have m: "x AND 0x7FFFFFFF = x" .
  then have "\<not> f32_is_nan x" using assms by (simp add: f32_is_nan_def word_less_nat_alt)
  moreover have "f32_exponent x \<noteq> 255" using assms by (simp add: f32_exponent_nat)
  moreover have "x AND 0x80000000 = (x AND 0x7FFFFFFF) AND 0x80000000" by (simp only: m)
  then have "x AND 0x80000000 = 0" by (simp only: and.assoc) simp
  ultimately show ?thesis by (simp add: f32_infinite_def)
qed

lemma f32_signed_positive:
  assumes "unat x < 0x7F800000" and "m \<le> 0x7F800000"
  shows "unat (f32_signed x m) = m"
  using f32_positive [OF assms(1)] assms(2) by (simp add: f32_signed_def unat_of_nat take_bit_nat_eq_self)

lemma float_round_cap: "float_round p cap a b \<le> cap"
  by (simp add: float_round_def Let_def)

text \<open>An operation on a positive float is below what its bound gives.\<close>

lemma f32_mul_le:
  assumes "unat x \<le> c" and "c < 0x7F800000"
  shows "unat (f32_mul_nat x k) \<le> float_round 24 0x7F800000 (pattern_magnitude c * k) 1"
proof -
  have "f32_magnitude x * k \<le> pattern_magnitude c * k"
    using assms by (simp add: f32_magnitude_pattern pattern_magnitude_mono)
  with assms f32_positive [of x] show ?thesis
    by (simp add: f32_mul_nat_def f32_signed_positive float_round_cap float_round_mono)
qed

lemma f32_div_le:
  assumes "unat x \<le> c" and "c < 0x7F800000" and "0 < k"
  shows "unat (f32_div_nat x k) \<le> float_round 24 0x7F800000 (pattern_magnitude c) k"
proof -
  have "f32_magnitude x \<le> pattern_magnitude c"
    using assms by (simp add: f32_magnitude_pattern pattern_magnitude_mono)
  with assms f32_positive [of x] show ?thesis
    by (simp add: f32_div_nat_def f32_signed_positive float_round_cap float_round_mono)
qed

lemma f32_round_le:
  assumes "unat x \<le> c" and "pattern_magnitude c < 2 ^ (149 + 23)" and "c < 0x7F800000"
  shows "unat (f32_round x) \<le> float_round 24 0x7F800000 ((2 * pattern_magnitude c + 2 ^ 149) div 2 ^ 150 * 2 ^ 149) 1"
proof -
  have le: "f32_magnitude x \<le> pattern_magnitude c"
    using assms by (simp add: f32_magnitude_pattern pattern_magnitude_mono)
  with assms(2) have "\<not> 2 ^ (149 + 23) \<le> f32_magnitude x" by linarith
  moreover have "(2 * f32_magnitude x + 2 ^ 149) div 2 ^ 150 * 2 ^ 149
      \<le> (2 * pattern_magnitude c + 2 ^ 149) div 2 ^ 150 * 2 ^ 149"
    using le by (intro mult_le_mono1 div_le_mono) simp
  ultimately show ?thesis using assms(1,3) f32_positive [of x]
    by (simp add: f32_round_def f32_signed_positive float_round_cap float_round_mono del: power_add)
qed

end
