(* ===== verification/Playing_Model.thy ===== *)
theory Playing_Model
  imports Prelude
begin

text \<open>
  The snapshot every protocol reports (\<open>pyatv-core\<close>: \<open>models/playing.rs\<close> and the enums of
  \<open>consts.rs\<close> it uses). Its text form is not modelled.
\<close>

datatype media_type = Mt_Unknown | Mt_Video | Mt_Music | Mt_Tv
datatype device_state = Ds_Idle | Ds_Loading | Ds_Paused | Ds_Playing | Ds_Stopped | Ds_Seeking
datatype shuffle_state = Sh_Off | Sh_Albums | Sh_Songs
datatype repeat_state = Rp_Off | Rp_Track | Rp_All

record playing =
  pl_media_type :: media_type
  pl_device_state :: device_state
  pl_title :: "bytes option"
  pl_artist :: "bytes option"
  pl_album :: "bytes option"
  pl_genre :: "bytes option"
  pl_total_time :: "u32 option"
  pl_position :: "u32 option"
  pl_shuffle :: "shuffle_state option"
  pl_repeat :: "repeat_state option"
  pl_hash :: "bytes option"
  pl_series_name :: "bytes option"
  pl_season_number :: "u32 option"
  pl_episode_number :: "u32 option"
  pl_content_identifier :: "bytes option"
  pl_itunes_store_identifier :: "i64 option"

definition playing_default :: playing where
  "playing_default = \<lparr>pl_media_type = Mt_Unknown, pl_device_state = Ds_Idle, pl_title = None, pl_artist = None,
     pl_album = None, pl_genre = None, pl_total_time = None, pl_position = None, pl_shuffle = None, pl_repeat = None,
     pl_hash = None, pl_series_name = None, pl_season_number = None, pl_episode_number = None,
     pl_content_identifier = None, pl_itunes_store_identifier = None\<rparr>"

text \<open>The discriminants of \<open>RepeatState\<close>.\<close>

fun repeat_discriminant :: "repeat_state \<Rightarrow> nat" where
  "repeat_discriminant Rp_Off = 0"
| "repeat_discriminant Rp_Track = 1"
| "repeat_discriminant Rp_All = 2"

end
