(* ===== verification/Mrp_Playing.thy ===== *)
theory Mrp_Playing
  imports Mrp_Players Float_Arith Playing_Model
begin

text \<open>
  The snapshot of what is playing (\<open>crates/pyatv-proto-mrp/src/playing.rs\<close>), as a function of the active
  player and of the current time.
\<close>

unbundle bit_operations_syntax

text \<open>978307200.0.\<close>

definition COCOA_EPOCH_OFFSET :: f64 where
  "COCOA_EPOCH_OFFSET = 0x41CD27E440000000"

definition playing_media_type :: "'m active_player \<Rightarrow> media_type" where
  "playing_media_type a =
     (case Option.bind (ap_metadata a) md_media_type of
        Some v \<Rightarrow> if v = 1 then Mt_Music else if v = 2 then Mt_Video else Mt_Unknown
      | None \<Rightarrow> Mt_Unknown)"

definition playing_device_state :: "'m active_player \<Rightarrow> device_state" where
  "playing_device_state a =
     (case ap_playback_state a of
        None \<Rightarrow> Ds_Idle
      | Some Ps_Playing \<Rightarrow> Ds_Playing
      | Some Ps_Stopped \<Rightarrow> Ds_Stopped
      | Some Ps_Interrupted \<Rightarrow> Ds_Loading
      | Some Ps_Seeking \<Rightarrow> Ds_Seeking
      | Some Ps_Paused \<Rightarrow> Ds_Paused
      | Some Ps_Unknown \<Rightarrow> Ds_Paused)"

text \<open>
  \<open>f64::trunc\<close> and the range check against \<open>u32\<close>: of a finite double the magnitude without its fraction;
  a value above minus one truncates to a zero, which is in the range whatever its sign.
\<close>

definition truncate :: "f64 \<Rightarrow> u32 option" where
  "truncate v =
     (if f64_is_nan v \<or> f64_infinite v then None
      else let t = nat \<bar>f64_scaled v\<bar> div 2 ^ 1074 in
        if (f64_negative v \<and> t \<noteq> 0) \<or> 2 ^ 32 \<le> t then None else Some (word_of_nat t))"

definition total_time :: "'m active_player \<Rightarrow> u32 option" where
  "total_time a =
     Option.bind (Option.bind (ap_metadata a) md_duration) (\<lambda>d. if f64_is_nan d then None else truncate d)"

definition playing_position :: "'m active_player \<Rightarrow> device_state \<Rightarrow> f64 \<Rightarrow> u32 option" where
  "playing_position a st now =
     Option.bind (ap_metadata a) (\<lambda>md.
     Option.bind (Option.bind (md_elapsed_timestamp md) (\<lambda>t. if f64_is_zero t then None else Some t)) (\<lambda>timestamp.
       let elapsed = (case md_elapsed md of Some e \<Rightarrow> e | None \<Rightarrow> 0);
           rate = (case md_rate md of Some r \<Rightarrow> r | None \<Rightarrow> 0)
       in if st = Ds_Playing \<and> \<not> f32_eq rate 0
          then truncate (f64_add elapsed (f64_sub now (f64_add timestamp COCOA_EPOCH_OFFSET)))
          else truncate elapsed))"

text \<open>The commands are 47, \<open>ChangeShuffleMode\<close>, and 46, \<open>ChangeRepeatMode\<close>.\<close>

definition playing_shuffle :: "'m active_player \<Rightarrow> shuffle_state" where
  "playing_shuffle a =
     (case Option.bind (ap_command_info 47 a) cmd_shuffle of
        Some v \<Rightarrow> if v = 2 then Sh_Albums else if v = 3 then Sh_Songs else Sh_Off
      | None \<Rightarrow> Sh_Off)"

definition playing_repeat :: "'m active_player \<Rightarrow> repeat_state" where
  "playing_repeat a =
     (case Option.bind (ap_command_info 46 a) cmd_repeat of
        Some v \<Rightarrow> if v = 2 then Rp_Track else if v = 3 then Rp_All else Rp_Off
      | None \<Rightarrow> Rp_Off)"

text \<open>\<open>u32::try_from(n).ok()\<close>.\<close>

definition u32_from_i32 :: "i32 \<Rightarrow> u32 option" where
  "u32_from_i32 n = (if 0 \<le> sint n then Some n else None)"

definition build_playing_at :: "'m active_player \<Rightarrow> f64 \<Rightarrow> playing" where
  "build_playing_at a now =
     (let metadata = ap_metadata a; st = playing_device_state a in
      \<lparr>pl_media_type = playing_media_type a,
       pl_device_state = st,
       pl_title = Option.bind metadata md_title,
       pl_artist = Option.bind metadata md_artist,
       pl_album = Option.bind metadata md_album,
       pl_genre = Option.bind metadata md_genre,
       pl_total_time = total_time a,
       pl_position = playing_position a st now,
       pl_shuffle = Some (playing_shuffle a),
       pl_repeat = Some (playing_repeat a),
       pl_hash = ap_item_identifier a,
       pl_series_name = Option.bind metadata md_series,
       pl_season_number = Option.bind (Option.bind metadata md_season) u32_from_i32,
       pl_episode_number = Option.bind (Option.bind metadata md_episode) u32_from_i32,
       pl_content_identifier = Option.bind metadata md_content_identifier,
       pl_itunes_store_identifier = Option.bind metadata md_store_identifier\<rparr>)"

end
