(* ===== verification/Mrp_Wire.thy ===== *)
theory Mrp_Wire
  imports Mrp_Varint
begin

text \<open>
  The protobuf wire format as far as MRP needs it (\<open>crates/pyatv-proto-mrp/src/protobuf/wire.rs\<close>):
  a scan over the top-level fields of a message, the lookup of one length-delimited field and its
  insertion in tag order. The scanner's offset is an argument and a result.
\<close>

unbundle bit_operations_syntax

datatype wire_error = WireVarint varint_error | WireFormat nat string

datatype wire_type = WT_Varint | WT_Fixed64 | WT_LengthDelimited | WT_Fixed32

fun wire_code :: "wire_type \<Rightarrow> u64" where
  "wire_code WT_Varint = 0"
| "wire_code WT_Fixed64 = 1"
| "wire_code WT_LengthDelimited = 2"
| "wire_code WT_Fixed32 = 5"

definition wire_from_code :: "u64 \<Rightarrow> nat \<Rightarrow> wire_error + wire_type" where
  "wire_from_code code offset =
     (if code = 0 then Ok WT_Varint
      else if code = 1 then Ok WT_Fixed64
      else if code = 2 then Ok WT_LengthDelimited
      else if code = 5 then Ok WT_Fixed32
      else if code = 3 \<or> code = 4 then
        Err (WireFormat offset ''group wire types are not used by the MRP corpus'')
      else Err (WireFormat offset ''unknown wire type''))"

record wire_field =
  wf_number :: nat
  wf_type :: wire_type
  wf_value :: bytes
  wf_start :: nat
  wf_end :: nat

definition wire_take :: "bytes \<Rightarrow> nat \<Rightarrow> nat \<Rightarrow> nat \<Rightarrow> wire_error + bytes \<times> nat" where
  "wire_take buffer offset count start =
     rbind (ok_or (checked_add offset count) (WireFormat start ''field length overflows the buffer'')) (\<lambda>end'.
     rbind (ok_or (get_range buffer offset end') (WireFormat start ''field is truncated'')) (\<lambda>slice.
     Ok (slice, end')))"

definition wire_varint :: "bytes \<Rightarrow> nat \<Rightarrow> wire_error + u64 \<times> nat" where
  "wire_varint buffer offset = map_err WireVarint (variant_read (drop offset buffer))"

text \<open>The value of a field whose key has been read, by wire type.\<close>

definition field_value :: "bytes \<Rightarrow> wire_type \<Rightarrow> nat \<Rightarrow> nat \<Rightarrow> wire_error + bytes \<times> nat" where
  "field_value buffer t offset start =
     (case t of
        WT_Varint \<Rightarrow>
          rbind (wire_varint buffer offset) (\<lambda>(_, consumed). wire_take buffer offset consumed start)
      | WT_Fixed64 \<Rightarrow> wire_take buffer offset 8 start
      | WT_Fixed32 \<Rightarrow> wire_take buffer offset 4 start
      | WT_LengthDelimited \<Rightarrow>
          rbind (wire_varint buffer offset) (\<lambda>(len, consumed).
          wire_take buffer (offset + consumed) (unat len) start))"

definition next_field :: "bytes \<Rightarrow> nat \<Rightarrow> wire_error + (wire_field \<times> nat) option" where
  "next_field buffer offset =
     (if length buffer \<le> offset then Ok None
      else
        rbind (wire_varint buffer offset) (\<lambda>(key, consumed).
        let number = drop_bit 3 key in
        if 2 ^ 32 \<le> unat number then Err (WireFormat offset ''field number out of range'')
        else if number = 0 then Err (WireFormat offset ''field number zero is not valid'')
        else
          rbind (wire_from_code (key AND 0x07) offset) (\<lambda>t.
          rbind (field_value buffer t (offset + consumed) offset) (\<lambda>(value, end').
          Ok (Some (\<lparr>wf_number = unat number, wf_type = t, wf_value = value, wf_start = offset,
                     wf_end = end'\<rparr>, end'))))))"

lemma wire_varint_Ok: "wire_varint b off = Ok (v, k) \<longleftrightarrow> variant_read (drop off b) = Ok (v, k)"
  by (simp add: wire_varint_def map_err_Ok_iff)

lemma wire_take_Ok:
  "wire_take b off n start = Ok (bs, e) \<longleftrightarrow>
     e = off + n \<and> e \<le> usize_max \<and> e \<le> length b \<and> bs = take n (drop off b)"
  by (auto simp: wire_take_def rbind_Ok_iff ok_or_Ok_iff checked_add_Some_iff get_range_Some_iff)

lemma field_value_end: "field_value b t off start = Ok (value, e) \<Longrightarrow> off \<le> e \<and> e \<le> length b"
  by (cases t) (auto simp: field_value_def rbind_Ok_iff wire_take_Ok)

lemma next_field_Some:
  "next_field b off = Ok (Some (f, e)) \<longleftrightarrow>
     off < length b \<and> (\<exists>key k t value. variant_read (drop off b) = Ok (key, k)
       \<and> unat (drop_bit 3 key) < 2 ^ 32 \<and> drop_bit 3 key \<noteq> 0
       \<and> wire_from_code (key AND 0x07) off = Ok t \<and> field_value b t (off + k) off = Ok (value, e)
       \<and> f = \<lparr>wf_number = unat (drop_bit 3 key), wf_type = t, wf_value = value, wf_start = off, wf_end = e\<rparr>)"
  (is "?L = ?R")
proof
  assume ?L
  then show ?R by (auto simp: next_field_def Let_def rbind_Ok_iff wire_varint_Ok split: if_splits)
next
  assume ?R
  then obtain key k t v where "off < length b" "variant_read (drop off b) = Ok (key, k)"
    "unat (drop_bit 3 key) < 2 ^ 32" "drop_bit 3 key \<noteq> 0" "wire_from_code (key AND 0x07) off = Ok t"
    "field_value b t (off + k) off = Ok (v, e)"
    "f = \<lparr>wf_number = unat (drop_bit 3 key), wf_type = t, wf_value = v, wf_start = off, wf_end = e\<rparr>"
    by blast
  then show ?L by (simp add: next_field_def Let_def wire_varint_def)
qed

lemma next_field_end:
  "next_field b off = Ok (Some (f, e)) \<Longrightarrow> off < e \<and> e \<le> length b \<and> wf_start f = off \<and> wf_end f = e"
  by (auto simp: next_field_Some dest!: variant_read_bounds field_value_end)

section \<open>Lookup and insertion\<close>

function find_loop :: "bytes \<Rightarrow> nat \<Rightarrow> nat \<Rightarrow> bytes option \<Rightarrow> wire_error + bytes option" where
  "find_loop buffer number offset found =
     rbind (next_field buffer offset) (\<lambda>r.
     case r of
       None \<Rightarrow> Ok found
     | Some (field, offset') \<Rightarrow>
         if wf_number field \<noteq> number then find_loop buffer number offset' found
         else if wf_type field \<noteq> WT_LengthDelimited then
           Err (WireFormat (wf_start field) ''extension field is not length-delimited'')
         else find_loop buffer number offset' (Some (wf_value field)))"
  by pat_completeness auto
termination
  by (relation "measure (\<lambda>(b, _, off, _). length b - off)") (auto dest!: next_field_end)

declare find_loop.simps [simp del]

definition find_length_delimited :: "bytes \<Rightarrow> nat \<Rightarrow> wire_error + bytes option" where
  "find_length_delimited buffer number = find_loop buffer number 0 None"

definition write_length_delimited :: "nat \<Rightarrow> bytes \<Rightarrow> bytes" where
  "write_length_delimited number payload =
     variant_write (push_bit 3 (word_of_nat number) OR wire_code WT_LengthDelimited)
     @ variant_write (if length payload < 2 ^ 64 then word_of_nat (length payload) else 0xFFFFFFFFFFFFFFFF)
     @ payload"

function splice_loop :: "bytes \<Rightarrow> nat \<Rightarrow> bytes \<Rightarrow> nat \<Rightarrow> bool \<Rightarrow> bytes \<Rightarrow> wire_error + bytes" where
  "splice_loop buffer number payload offset written out =
     rbind (next_field buffer offset) (\<lambda>r.
     case r of
       None \<Rightarrow> Ok (if written then out else out @ write_length_delimited number payload)
     | Some (field, offset') \<Rightarrow>
         if wf_number field = number then splice_loop buffer number payload offset' written out
         else
           let raw = take (wf_end field - wf_start field) (drop (wf_start field) buffer) in
           if number < wf_number field \<and> \<not> written then
             splice_loop buffer number payload offset' True (out @ write_length_delimited number payload @ raw)
           else splice_loop buffer number payload offset' written (out @ raw))"
  by pat_completeness auto
termination
  by (relation "measure (\<lambda>(b, _, _, off, _). length b - off)") (auto dest!: next_field_end)

declare splice_loop.simps [simp del]

definition splice_length_delimited :: "bytes \<Rightarrow> nat \<Rightarrow> bytes \<Rightarrow> wire_error + bytes" where
  "splice_length_delimited buffer number payload = splice_loop buffer number payload 0 False []"

section \<open>Messages as lists of fields\<close>

text \<open>A field with its own bytes, which stand for it wherever they occur.\<close>

record item =
  it_raw :: bytes
  it_number :: nat
  it_type :: wire_type
  it_value :: bytes

definition item_ok :: "item \<Rightarrow> bool" where
  "item_ok i \<longleftrightarrow> it_raw i \<noteq> [] \<and> (\<forall>pre rest. length (pre @ it_raw i @ rest) \<le> usize_max \<longrightarrow>
     next_field (pre @ it_raw i @ rest) (length pre) =
       Ok (Some (\<lparr>wf_number = it_number i, wf_type = it_type i, wf_value = it_value i,
                  wf_start = length pre, wf_end = length pre + length (it_raw i)\<rparr>,
                 length pre + length (it_raw i))))"

definition items_bytes :: "item list \<Rightarrow> bytes" where
  "items_bytes is = concat (map it_raw is)"

lemma items_bytes_simps [simp]:
  "items_bytes [] = []" "items_bytes (i # is) = it_raw i @ items_bytes is"
  "items_bytes (is @ js) = items_bytes is @ items_bytes js"
  by (simp_all add: items_bytes_def)

text \<open>A field read out of a buffer is an item: its bytes are self-delimiting.\<close>

lemma field_value_moved:
  assumes v: "field_value b t off start = Ok (value, e)" and off: "off \<le> length b" "s \<le> off"
    and l: "length (pre @ take (e - s) (drop s b) @ rest) \<le> usize_max"
  shows "field_value (pre @ take (e - s) (drop s b) @ rest) t (length pre + (off - s)) start'
    = Ok (value, length pre + (e - s))"
proof -
  let ?b = "pre @ take (e - s) (drop s b) @ rest"
  have e: "off \<le> e" "e \<le> length b"
    using v by (auto simp: field_value_def rbind_Ok_iff wire_take_Ok split: wire_type.splits)
  have d: "drop (length pre + (off - s) + k) ?b = take (e - (off + k)) (drop (off + k) b) @ rest"
    if "off + k \<le> e" for k
    using off e that by (simp add: drop_take min_def add.commute)
  have tk: "wire_take b (off + k) n start = Ok (value, e) \<Longrightarrow>
      wire_take ?b (length pre + (off - s) + k) n start' = Ok (value, length pre + (e - s))" for k n
    using off e l d [of k] by (auto simp: wire_take_Ok)
  have vr: "variant_read (drop (length pre + (off - s)) ?b) = Ok (n, k)"
    if "variant_read (drop off b) = Ok (n, k)" "off + k \<le> e" for n k
  proof -
    have "drop (length pre + (off - s)) ?b = take k (drop off b) @ drop k (take (e - off) (drop off b)) @ rest"
      using d [of 0] that(2) e by (simp add: take_take [symmetric] min_def)
        (metis append_take_drop_id append.assoc add_diff_cancel_left' diff_le_mono le_add1 min.absorb_iff1 take_take)
    with variant_read_prefix [OF that(1)] show ?thesis by simp
  qed
  show ?thesis
  proof (cases t)
    case WT_Varint
    with v obtain n k where r: "variant_read (drop off b) = Ok (n, k)" "wire_take b off k start = Ok (value, e)"
      by (auto simp: field_value_def rbind_Ok_iff wire_varint_Ok)
    then have "off + k \<le> e" by (simp add: wire_take_Ok)
    from vr [OF r(1) this] tk [of 0 k] r(2) WT_Varint show ?thesis
      by (auto simp: field_value_def wire_varint_def)
  next
    case WT_LengthDelimited
    with v obtain n k where r: "variant_read (drop off b) = Ok (n, k)"
      "wire_take b (off + k) (unat n) start = Ok (value, e)"
      by (auto simp: field_value_def rbind_Ok_iff wire_varint_Ok)
    then have "off + k \<le> e" by (simp add: wire_take_Ok)
    from vr [OF r(1) this] tk [of k "unat n"] r(2) WT_LengthDelimited show ?thesis
      by (auto simp: field_value_def wire_varint_def)
  qed (use v tk [of 0] in \<open>auto simp: field_value_def\<close>)
qed

lemma wire_from_code_offset: "wire_from_code c off = Ok t \<Longrightarrow> wire_from_code c off' = Ok t"
  by (auto simp: wire_from_code_def split: if_splits)

definition item_of :: "bytes \<Rightarrow> wire_field \<Rightarrow> item" where
  "item_of b f = \<lparr>it_raw = take (wf_end f - wf_start f) (drop (wf_start f) b), it_number = wf_number f,
     it_type = wf_type f, it_value = wf_value f\<rparr>"

lemma next_field_item:
  assumes "next_field b off = Ok (Some (f, e))"
  shows "item_ok (item_of b f)"
proof -
  from assms obtain key k t vl where r: "variant_read (drop off b) = Ok (key, k)"
    and n: "unat (drop_bit 3 key) < 2 ^ 32" "drop_bit 3 key \<noteq> 0"
    and t: "wire_from_code (key AND 0x07) off = Ok t" and v: "field_value b t (off + k) off = Ok (vl, e)"
    and f: "f = \<lparr>wf_number = unat (drop_bit 3 key), wf_type = t, wf_value = vl, wf_start = off, wf_end = e\<rparr>"
    by (auto simp: next_field_Some)
  from variant_read_bounds [OF r] field_value_end [OF v] have k: "0 < k" "off + k \<le> e" "e \<le> length b"
    by auto
  let ?raw = "take (e - off) (drop off b)"
  have l: "length ?raw = e - off" "?raw \<noteq> []" using k by auto
  have "next_field (pre @ ?raw @ rest) (length pre) =
      Ok (Some (\<lparr>wf_number = unat (drop_bit 3 key), wf_type = t, wf_value = vl, wf_start = length pre,
                 wf_end = length pre + (e - off)\<rparr>, length pre + (e - off)))"
    if u: "length (pre @ ?raw @ rest) \<le> usize_max" for pre rest
  proof -
    have "?raw = take k (drop off b) @ take (e - off - k) (drop (off + k) b)"
      using k by (metis add.commute add_le_imp_le_diff drop_drop le_add_diff_inverse take_add)
    then have "variant_read (?raw @ rest) = Ok (key, k)" using variant_read_prefix [OF r] by simp
    moreover have "field_value (pre @ ?raw @ rest) t (length pre + k) (length pre) = Ok (vl, length pre + (e - off))"
      using field_value_moved [OF v _ _ u, of "length pre"] k by simp
    ultimately show ?thesis
      using n wire_from_code_offset [OF t, of "length pre"] l k(1,2) by (auto simp: next_field_Some)
  qed
  with l show ?thesis by (auto simp: item_ok_def item_of_def f)
qed

lemma item_okD:
  "item_ok i \<Longrightarrow> length (pre @ it_raw i @ rest) \<le> usize_max \<Longrightarrow>
   next_field (pre @ it_raw i @ rest) (length pre) =
     Ok (Some (\<lparr>wf_number = it_number i, wf_type = it_type i, wf_value = it_value i,
                wf_start = length pre, wf_end = length pre + length (it_raw i)\<rparr>,
               length pre + length (it_raw i)))"
  by (simp add: item_ok_def)

lemma next_field_None: "next_field b (length b) = Ok None"
  by (simp add: next_field_def)

text \<open>What the two loops do to a list of items.\<close>

fun find_item :: "nat \<Rightarrow> bytes option \<Rightarrow> nat \<Rightarrow> item list \<Rightarrow> wire_error + bytes option" where
  "find_item number found offset [] = Ok found"
| "find_item number found offset (i # is) =
     (if it_number i \<noteq> number then find_item number found (offset + length (it_raw i)) is
      else if it_type i \<noteq> WT_LengthDelimited then
        Err (WireFormat offset ''extension field is not length-delimited'')
      else find_item number (Some (it_value i)) (offset + length (it_raw i)) is)"

fun splice_items :: "nat \<Rightarrow> item \<Rightarrow> bool \<Rightarrow> item list \<Rightarrow> item list" where
  "splice_items number new written [] = (if written then [] else [new])"
| "splice_items number new written (i # is) =
     (if it_number i = number then splice_items number new written is
      else if number < it_number i \<and> \<not> written then new # i # splice_items number new True is
      else i # splice_items number new written is)"

lemma find_loop_items:
  "\<forall>i \<in> set is. item_ok i \<Longrightarrow> length (pre @ items_bytes is) \<le> usize_max \<Longrightarrow>
     find_loop (pre @ items_bytes is) number (length pre) found = find_item number found (length pre) is"
proof (induction "is" arbitrary: pre found)
  case Nil
  then show ?case by (simp add: find_loop.simps [of pre] next_field_None)
next
  case (Cons i "is")
  have "next_field (pre @ it_raw i @ items_bytes is) (length pre) =
      Ok (Some (\<lparr>wf_number = it_number i, wf_type = it_type i, wf_value = it_value i,
                wf_start = length pre, wf_end = length pre + length (it_raw i)\<rparr>,
               length pre + length (it_raw i)))"
    using Cons.prems by (intro item_okD) simp_all
  with Cons.IH [of "pre @ it_raw i"] Cons.prems show ?case
    by (simp add: find_loop.simps [of "pre @ it_raw i @ items_bytes is" _ "length pre"])
qed

lemma splice_loop_items:
  "\<forall>i \<in> set is. item_ok i \<Longrightarrow> length (pre @ items_bytes is) \<le> usize_max \<Longrightarrow>
     it_raw new = write_length_delimited number payload \<Longrightarrow>
     splice_loop (pre @ items_bytes is) number payload (length pre) written out
       = Ok (out @ items_bytes (splice_items number new written is))"
proof (induction "is" arbitrary: pre written out)
  case Nil
  then show ?case by (simp add: splice_loop.simps [of pre] next_field_None)
next
  case (Cons i "is")
  have "next_field (pre @ it_raw i @ items_bytes is) (length pre) =
      Ok (Some (\<lparr>wf_number = it_number i, wf_type = it_type i, wf_value = it_value i,
                wf_start = length pre, wf_end = length pre + length (it_raw i)\<rparr>,
               length pre + length (it_raw i)))"
    using Cons.prems by (intro item_okD) simp_all
  with Cons.IH [of "pre @ it_raw i"] Cons.prems show ?case
    by (simp add: splice_loop.simps [of "pre @ it_raw i @ items_bytes is" _ _ "length pre"] Let_def)
qed

text \<open>The field \<open>write_length_delimited\<close> writes is an item.\<close>

definition new_item :: "nat \<Rightarrow> bytes \<Rightarrow> item" where
  "new_item number payload = \<lparr>it_raw = write_length_delimited number payload, it_number = number,
     it_type = WT_LengthDelimited, it_value = payload\<rparr>"

lemma mask3: "(0x07 :: u64) = mask 3"
  by (simp add: mask_eq_exp_minus_1)

lemma key_word:
  assumes "number < 2 ^ 32"
  shows "push_bit 3 (word_of_nat number) OR (2 :: u64) = word_of_nat (8 * number + 2)"
proof -
  have "push_bit 3 (word_of_nat number) AND (2 :: u64) = 0"
  proof (rule bit_word_eqI)
    fix n assume "n < LENGTH(64)"
    have "bit ((2 :: u64) ^ 1) n \<longleftrightarrow> n = 1" by (simp only: bit_exp_iff) auto
    then have "bit (2 :: u64) n \<longleftrightarrow> n = 1" by simp
    then show "bit (push_bit 3 (word_of_nat number) AND (2 :: u64)) n = bit 0 n"
      by (auto simp: bit_simps)
  qed
  then have "push_bit 3 (word_of_nat number) OR (2 :: u64) = push_bit 3 (word_of_nat number) + 2"
    by (simp add: disjunctive_add_eq_or)
  then show ?thesis by (simp add: push_bit_eq_mult)
qed

lemma key_parts:
  assumes "number < 2 ^ 32"
  shows "unat (drop_bit 3 (push_bit 3 (word_of_nat number) OR (2 :: u64))) = number
    \<and> (push_bit 3 (word_of_nat number) OR 2) AND 0x07 = (2 :: u64)"
proof -
  let ?k = "word_of_nat (8 * number + 2) :: u64"
  have u: "unat ?k = 8 * number + 2" using assms by (simp only: unat_of_nat) simp
  have mod: "(8 * number + 2) mod 8 = 2" by presburger
  have "unat (drop_bit 3 ?k) = number" by (simp only: drop_bit_eq_div unat_div u) simp
  moreover have "?k AND 0x07 = 2"
    unfolding mask3 take_bit_eq_mask [symmetric] word_unat_eq_iff unsigned_take_bit_eq u
    using mod by (simp only: take_bit_eq_mod) simp
  ultimately show ?thesis using key_word [OF assms] by (simp only:)
qed

lemma new_item_ok:
  assumes n: "0 < number" "number < 2 ^ 32" and l: "length payload < 2 ^ 64"
  shows "item_ok (new_item number payload)"
proof -
  let ?key = "push_bit 3 (word_of_nat number) OR 2 :: u64"
  let ?kb = "variant_write ?key" and ?lb = "variant_write (word_of_nat (length payload))"
  let ?raw = "?kb @ ?lb @ payload"
  have raw: "it_raw (new_item number payload) = ?raw"
    using l by (simp add: new_item_def write_length_delimited_def)
  have u: "unat (word_of_nat (length payload) :: u64) = length payload"
    using l by (simp only: unat_of_nat) simp
  have "next_field (pre @ ?raw @ rest) (length pre) = Ok (Some (\<lparr>wf_number = number, wf_type = WT_LengthDelimited,
      wf_value = payload, wf_start = length pre, wf_end = length pre + length ?raw\<rparr>, length pre + length ?raw))"
    if "length (pre @ ?raw @ rest) \<le> usize_max" for pre rest
  proof -
    let ?b = "pre @ ?raw @ rest"
    have d: "drop (length pre) ?b = ?kb @ ?lb @ payload @ rest" by simp
    have d2: "drop (length pre + length ?kb) ?b = ?lb @ payload @ rest" by simp
    have k: "variant_read (drop (length pre) ?b) = Ok (?key, length ?kb)"
      unfolding d by (rule variant_read_write)
    have t: "wire_from_code (?key AND 0x07) (length pre) = Ok WT_LengthDelimited"
      using key_parts [OF n(2)] by (simp add: wire_from_code_def)
    have "wire_varint ?b (length pre + length ?kb) = Ok (word_of_nat (length payload), length ?lb)"
      unfolding wire_varint_Ok d2 by (rule variant_read_write)
    moreover have "wire_take ?b (length pre + length ?kb + length ?lb) (length payload) (length pre)
        = Ok (payload, length pre + length ?raw)"
      using that by (simp add: wire_take_Ok)
    ultimately have "field_value ?b WT_LengthDelimited (length pre + length ?kb) (length pre)
        = Ok (payload, length pre + length ?raw)"
      by (simp add: field_value_def u)
    moreover have "length pre < length ?b" by simp
    moreover have "unat (drop_bit 3 ?key) = number" "drop_bit 3 ?key \<noteq> 0"
      using key_parts [OF n(2)] n(1) by (auto simp: word_unat_eq_iff)
    ultimately show ?thesis
      using k t n(2) unfolding next_field_Some
      by (intro conjI exI [of _ ?key] exI [of _ "length ?kb"] exI [of _ WT_LengthDelimited] exI [of _ payload])
        (assumption | simp only:)+
  qed
  then show ?thesis by (simp add: item_ok_def raw) (simp add: new_item_def)
qed

text \<open>A buffer a scan gets through is a list of items.\<close>

lemma splice_loop_scans:
  "splice_loop buffer number payload off written out = Ok r \<Longrightarrow> off \<le> length buffer \<Longrightarrow>
     \<exists>its. (\<forall>i \<in> set its. item_ok i) \<and> drop off buffer = items_bytes its"
proof (induction buffer number payload off written out rule: splice_loop.induct)
  case (1 buffer number payload off written out)
  show ?case
  proof (cases "next_field buffer off")
    case (Inl e)
    with "1.prems"(1) show ?thesis by (subst (asm) splice_loop.simps) simp
  next
    case (Inr fo)
    show ?thesis
    proof (cases fo)
      case None
      with Inr have "length buffer \<le> off"
        by (auto simp: next_field_def Let_def rbind_Ok_iff split: if_splits)
      then show ?thesis by (intro exI [of _ "[]"]) simp
    next
      case (Some p)
      obtain f off' where p: "p = (f, off')" by (cases p)
      with Inr Some have nf: "next_field buffer off = Ok (Some (f, off'))" by simp
      from next_field_end [OF nf] have e: "off < off'" "off' \<le> length buffer" "wf_start f = off" "wf_end f = off'"
        by auto
      have "\<exists>its. (\<forall>i \<in> set its. item_ok i) \<and> drop off' buffer = items_bytes its"
        using "1.prems"(1) "1.IH" [OF nf refl] e nf
        by (subst (asm) splice_loop.simps) (simp add: Let_def split: if_splits)
      then obtain its where its: "\<forall>i \<in> set its. item_ok i" "drop off' buffer = items_bytes its" by blast
      have "drop off buffer = take (off' - off) (drop off buffer) @ drop off' buffer"
        using e(1) by (metis append_take_drop_id drop_drop le_add_diff_inverse2 less_imp_le)
      then have "drop off buffer = items_bytes (item_of buffer f # its)"
        using its(2) e by (simp add: item_of_def)
      with its(1) next_field_item [OF nf] show ?thesis by (intro exI [of _ "item_of buffer f # its"]) simp
    qed
  qed
qed

lemma find_item_splice_same:
  "find_item number found off (splice_items number (new_item number p) written is) = Ok (if written then found else Some p)"
  by (induction "is" arbitrary: off found written) (auto simp: new_item_def)

lemma find_item_splice_other:
  "m \<noteq> number \<Longrightarrow> find_item m found off is = Ok r \<Longrightarrow>
     find_item m found off' (splice_items number (new_item number p) written is) = Ok r"
  by (induction "is" arbitrary: off off' found written) (auto simp: new_item_def split: if_splits)

lemma splice_items_ok:
  "item_ok new \<Longrightarrow> \<forall>i \<in> set its. item_ok i \<Longrightarrow> \<forall>i \<in> set (splice_items number new written its). item_ok i"
  by (induction its arbitrary: written) auto

lemma splice_result:
  assumes "splice_length_delimited buffer number payload = Ok out" and "length buffer \<le> usize_max"
  shows "\<exists>its. (\<forall>i \<in> set its. item_ok i) \<and> buffer = items_bytes its
     \<and> out = items_bytes (splice_items number (new_item number payload) False its)"
proof -
  from splice_loop_scans [OF assms(1) [unfolded splice_length_delimited_def]] obtain its
    where its: "\<forall>i \<in> set its. item_ok i" "buffer = items_bytes its" by auto
  with splice_loop_items [of its "[]" "new_item number payload" number payload False "[]"] assms
  show ?thesis by (auto simp: splice_length_delimited_def new_item_def)
qed

lemma find_items:
  "\<forall>i \<in> set its. item_ok i \<Longrightarrow> length (items_bytes its) \<le> usize_max \<Longrightarrow>
     find_length_delimited (items_bytes its) number = find_item number None 0 its"
  using find_loop_items [of its "[]" number None] by (simp add: find_length_delimited_def)

lemma splice_keeps:
  assumes "splice_length_delimited buffer number payload = Ok out" and "0 < number" and "number < 2 ^ 32"
    and "length payload < 2 ^ 64" and "length buffer \<le> usize_max" and "length out \<le> usize_max"
  shows "find_length_delimited out number = Ok (Some payload)
    \<and> (m \<noteq> number \<longrightarrow> find_length_delimited buffer m = Ok r \<longrightarrow> find_length_delimited out m = Ok r)"
proof -
  from splice_result [OF assms(1,5)] obtain its where its: "\<forall>i \<in> set its. item_ok i" "buffer = items_bytes its"
    and out: "out = items_bytes (splice_items number (new_item number payload) False its)" by blast
  note ok = splice_items_ok [OF new_item_ok [OF assms(2-4)] its(1)]
  from assms(5,6) its(2) out have l: "length (items_bytes its) \<le> usize_max"
    "length (items_bytes (splice_items number (new_item number payload) False its)) \<le> usize_max" by auto
  show ?thesis
    using find_items [OF its(1) l(1)] find_items [OF ok l(2)] find_item_splice_same find_item_splice_other
    unfolding out its(2) by auto
qed

section \<open>Properties\<close>

text \<open>
  Inserting an extension. After \<open>splice_length_delimited\<close>, a lookup of the inserted field
  number returns exactly the payload, whatever the buffer held under that number before, and the lookup
  of every other field number returns what it returned on the original message.
\<close>

theorem splice_find:
  assumes "splice_length_delimited buffer number payload = Ok out" and "0 < number" and "number < 2 ^ 32"
    and "length payload < 2 ^ 64" and "length buffer \<le> usize_max" and "length out \<le> usize_max"
  shows "find_length_delimited out number = Ok (Some payload)
    \<and> (m \<noteq> number \<longrightarrow> find_length_delimited buffer m = Ok r \<longrightarrow> find_length_delimited out m = Ok r)"
  by (rule splice_keeps [OF assms])

theorem splice_find_witness:
  "find_length_delimited [8, 1, 50, 2, 8, 1, 208, 1, 5] 6 = Ok (Some [8, 1])"
proof -
  have "splice_length_delimited [8, 1, 208, 1, 5] 6 [8, 1] = Ok [8, 1, 50, 2, 8, 1, 208, 1, 5]"
    by (simp add: splice_length_delimited_def splice_loop.simps [of _ _ _ 0] splice_loop.simps [of _ _ _ "Suc (Suc 0)"]
        splice_loop.simps [of _ _ _ "Suc (Suc (Suc (Suc (Suc 0))))"] next_field_def wire_varint_def variant_read_def VARINT_MAX_LEN_def
        wire_from_code_def field_value_def wire_take_def checked_add_def usize_max_def get_range_def
        write_length_delimited_def variant_write.simps Let_def)
  from splice_find [OF this] show ?thesis by (simp add: usize_max_def)
qed

end
