(* ===== verification/Mrp_Message.thy ===== *)
theory Mrp_Message
  imports Mrp_Wire
begin

text \<open>
  An MRP message (\<open>crates/pyatv-proto-mrp/src/message.rs\<close> and the raw half of
  \<open>protobuf/extensions.rs\<close>): the decoded envelope next to the serialised bytes its extension
  lives in. The envelope is the declared part of \<open>ProtocolMessage.proto\<close>. Not under
  \<open>src/\<close> are \<open>prost\<close>, which serialises and parses the envelope, and the table from message
  types to extension numbers, which the build script generates; both are fields of the parameter
  \<open>prost_api\<close>. \<open>prost_ok\<close> is what the code relies on: an envelope serialises to a message
  that scans and carries none of the extension fields, and extension numbers are field numbers.
\<close>

record envelope =
  env_type :: "int option"
  env_identifier :: "bytes option"
  env_authentication_token :: "bytes option"
  env_error_code :: "int option"
  env_timestamp :: "u64 option"
  env_error_description :: "bytes option"
  env_unique_identifier :: "bytes option"

record prost_api =
  prost_encode :: "envelope \<Rightarrow> bytes"
  prost_decode :: "bytes \<Rightarrow> string + envelope"
  type_to_number :: "(int \<times> nat) list"

datatype mrp_error =
    MrpWire wire_error
  | UnhandledMessage int
  | MrpDecode string
  | MrpErrorCode int int

record mrp_message =
  msg_envelope :: envelope
  msg_encoded :: bytes

text \<open>The binary search of a table sorted by its keys is its lookup.\<close>

definition number_for_type :: "prost_api \<Rightarrow> int \<Rightarrow> nat option" where
  "number_for_type P t = map_of (type_to_number P) t"

definition raw_for_type :: "prost_api \<Rightarrow> bytes \<Rightarrow> int \<Rightarrow> mrp_error + bytes option" where
  "raw_for_type P envelope t =
     rbind (ok_or (number_for_type P t) (UnhandledMessage t)) (\<lambda>number.
     map_err MrpWire (find_length_delimited envelope number))"

definition msg_bare :: "prost_api \<Rightarrow> envelope \<Rightarrow> mrp_message" where
  "msg_bare P e = \<lparr>msg_envelope = e, msg_encoded = prost_encode P e\<rparr>"

text \<open>\<open>inner\<close> is the extension message, serialised.\<close>

definition with_extension :: "prost_api \<Rightarrow> envelope \<Rightarrow> nat \<Rightarrow> bytes \<Rightarrow> mrp_error + mrp_message" where
  "with_extension P e number inner =
     rbind (map_err MrpWire (splice_length_delimited (prost_encode P e) number inner)) (\<lambda>encoded.
     Ok \<lparr>msg_envelope = e, msg_encoded = encoded\<rparr>)"

definition msg_decode :: "prost_api \<Rightarrow> bytes \<Rightarrow> mrp_error + mrp_message" where
  "msg_decode P bs =
     rbind (map_err (\<lambda>e. MrpDecode (''ProtocolMessage: '' @ e)) (prost_decode P bs)) (\<lambda>e.
     Ok \<lparr>msg_envelope = e, msg_encoded = bs\<rparr>)"

definition message_type :: "mrp_message \<Rightarrow> int" where
  "message_type m = (case env_type (msg_envelope m) of Some t \<Rightarrow> t | None \<Rightarrow> 0)"

definition msg_identifier :: "mrp_message \<Rightarrow> bytes option" where
  "msg_identifier m = env_identifier (msg_envelope m)"

definition msg_error_code :: "mrp_message \<Rightarrow> int" where
  "msg_error_code m = (case env_error_code (msg_envelope m) of Some c \<Rightarrow> c | None \<Rightarrow> 0)"

definition raw_inner :: "prost_api \<Rightarrow> mrp_message \<Rightarrow> mrp_error + bytes option" where
  "raw_inner P m = raw_for_type P (msg_encoded m) (message_type m)"

text \<open>\<open>rebuild\<close>: the envelope is serialised again and the extension spliced back in.\<close>

definition msg_rebuild :: "prost_api \<Rightarrow> mrp_message \<Rightarrow> mrp_error + mrp_message" where
  "msg_rebuild P m =
     rbind (case number_for_type P (message_type m) of
              Some number \<Rightarrow>
                rbind (map_err MrpWire (find_length_delimited (msg_encoded m) number)) (\<lambda>payload.
                Ok (map_option (\<lambda>p. (number, p)) payload))
            | None \<Rightarrow> Ok None) (\<lambda>inner.
     let base = prost_encode P (msg_envelope m) in
     case inner of
       Some (number, payload) \<Rightarrow>
         rbind (map_err MrpWire (splice_length_delimited base number payload)) (\<lambda>encoded.
         Ok (m\<lparr>msg_encoded := encoded\<rparr>))
     | None \<Rightarrow> Ok (m\<lparr>msg_encoded := base\<rparr>))"

definition set_identifier :: "prost_api \<Rightarrow> bytes \<Rightarrow> mrp_message \<Rightarrow> mrp_error + mrp_message" where
  "set_identifier P i m =
     msg_rebuild P (m\<lparr>msg_envelope := (msg_envelope m)\<lparr>env_identifier := Some i\<rparr>\<rparr>)"

definition set_unique_identifier :: "prost_api \<Rightarrow> bytes \<Rightarrow> mrp_message \<Rightarrow> mrp_error + mrp_message" where
  "set_unique_identifier P i m =
     msg_rebuild P (m\<lparr>msg_envelope := (msg_envelope m)\<lparr>env_unique_identifier := Some i\<rparr>\<rparr>)"

definition correlation_key :: "mrp_message \<Rightarrow> bytes" where
  "correlation_key m =
     (case msg_identifier m of Some i \<Rightarrow> i | None \<Rightarrow> lit ''type_'' @ decimal_int (message_type m))"

definition check_error_code :: "mrp_message \<Rightarrow> mrp_error + unit" where
  "check_error_code m =
     (if msg_error_code m = 0 then Ok () else Err (MrpErrorCode (msg_error_code m) (message_type m)))"

section \<open>Lemmas\<close>

definition prost_ok :: "prost_api \<Rightarrow> bool" where
  "prost_ok P \<longleftrightarrow> (\<forall>t n. number_for_type P t = Some n \<longrightarrow> 0 < n \<and> n < 2 ^ 32
     \<and> (\<forall>e. length (prost_encode P e) \<le> usize_max \<and> find_length_delimited (prost_encode P e) n = Ok None))"

lemma field_value_length: "field_value b t off start = Ok (v, e) \<Longrightarrow> length v \<le> length b"
  by (cases t) (auto simp: field_value_def rbind_Ok_iff wire_take_Ok)

lemma find_length_bound:
  "find_length_delimited b n = Ok (Some p) \<Longrightarrow> length p \<le> length b"
proof -
  have "find_loop b n off found = Ok (Some p) \<Longrightarrow> (\<forall>q. found = Some q \<longrightarrow> length q \<le> length b) \<Longrightarrow> length p \<le> length b" for off found
  proof (induction b n off found rule: find_loop.induct)
    case (1 b n off found)
    show ?case
    proof (cases "next_field b off")
      case (Inl e)
      with "1.prems"(1) show ?thesis by (subst (asm) find_loop.simps) simp
    next
      case (Inr r)
      show ?thesis
      proof (cases r)
        case None
        with Inr 1 show ?thesis by (subst (asm) (3) find_loop.simps) auto
      next
        case (Some fo)
        obtain f off' where fo: "fo = (f, off')" by (cases fo)
        with Inr Some have nf: "next_field b off = Ok (Some (f, off'))" by simp
        then have v: "length (wf_value f) \<le> length b"
          by (auto simp: next_field_Some dest: field_value_length)
        show ?thesis
        proof (cases "wf_number f \<noteq> n")
          case True
          with "1.prems" "1.IH"(1) [OF nf refl] nf show ?thesis by (subst (asm) find_loop.simps) auto
        next
          case False
          with "1.prems"(1) nf have "wf_type f = WT_LengthDelimited" "find_loop b n off' (Some (wf_value f)) = Ok (Some p)"
            by (subst (asm) find_loop.simps, auto split: if_splits)+
          with "1.IH"(2) [OF nf refl] False v show ?thesis by auto
        qed
      qed
    qed
  qed
  then show "find_length_delimited b n = Ok (Some p) \<Longrightarrow> length p \<le> length b"
    by (auto simp: find_length_delimited_def)
qed

lemma rebuild_payload:
  assumes P: "prost_ok P" and r: "msg_rebuild P m = Ok m'"
    and l: "length (msg_encoded m) \<le> usize_max" "length (msg_encoded m') \<le> usize_max"
  shows "msg_envelope m' = msg_envelope m \<and> raw_inner P m' = raw_inner P m"
proof (cases "number_for_type P (message_type m)")
  case None
  with r show ?thesis by (auto simp: msg_rebuild_def Let_def raw_inner_def raw_for_type_def message_type_def)
next
  case (Some n)
  with r obtain payload where f: "find_length_delimited (msg_encoded m) n = Ok payload"
    by (auto simp: msg_rebuild_def Let_def rbind_Ok_iff map_err_Ok_iff)
  from P Some have n: "0 < n" "n < 2 ^ 32"
    and e: "length (prost_encode P (msg_envelope m)) \<le> usize_max"
      "find_length_delimited (prost_encode P (msg_envelope m)) n = Ok None"
    unfolding prost_ok_def by blast+
  have raw: "raw_inner P m = Ok payload" using Some f by (simp add: raw_inner_def raw_for_type_def)
  show ?thesis
  proof (cases payload)
    case None
    with r Some f have "m' = m\<lparr>msg_encoded := prost_encode P (msg_envelope m)\<rparr>"
      by (simp add: msg_rebuild_def Let_def)
    with raw None e(2) Some show ?thesis by (simp add: raw_inner_def raw_for_type_def message_type_def)
  next
    case (Some p)
    with r \<open>number_for_type P (message_type m) = Some n\<close> f obtain enc
      where s: "splice_length_delimited (prost_encode P (msg_envelope m)) n p = Ok enc"
      and m': "m' = m\<lparr>msg_encoded := enc\<rparr>"
      by (auto simp: msg_rebuild_def Let_def rbind_Ok_iff map_err_Ok_iff)
    have "length p < 2 ^ 64" using find_length_bound [OF f [unfolded Some]] l(1) by (simp add: usize_max_def)
    with splice_keeps [OF s n _ e(1)] l(2) have "find_length_delimited enc n = Ok (Some p)" by (simp add: m')
    with raw Some \<open>number_for_type P (message_type m) = Some n\<close> show ?thesis
      by (simp add: m' raw_inner_def raw_for_type_def message_type_def)
  qed
qed

section \<open>Properties\<close>

text \<open>
  Stamping an identifier loses nothing. When \<open>set_identifier\<close> succeeds, the message has the new
  identifier, the rest of its envelope and its type are unchanged, its extension payload reads exactly
  as before, and the identifier is the key its response will be matched by.
\<close>

theorem set_identifier_keeps:
  assumes "prost_ok P" and "set_identifier P i m = Ok m'"
    and "length (msg_encoded m) \<le> usize_max" and "length (msg_encoded m') \<le> usize_max"
  shows "raw_inner P m' = raw_inner P m \<and> message_type m' = message_type m \<and> correlation_key m' = i
    \<and> msg_envelope m' = (msg_envelope m)\<lparr>env_identifier := Some i\<rparr>"
  using rebuild_payload [OF assms(1) assms(2) [unfolded set_identifier_def]] assms(3,4)
  by (auto simp: raw_inner_def message_type_def correlation_key_def msg_identifier_def)

definition toy_prost :: prost_api where
  "toy_prost = \<lparr>prost_encode = (\<lambda>e. case env_identifier e of None \<Rightarrow> [8, 1] | Some _ \<Rightarrow> [8, 1, 16, 0]),
     prost_decode = (\<lambda>_. Err ''''), type_to_number = [(1, 6)]\<rparr>"

definition toy_envelope :: envelope where
  "toy_envelope = \<lparr>env_type = Some 1, env_identifier = None, env_authentication_token = None,
     env_error_code = None, env_timestamp = None, env_error_description = None, env_unique_identifier = None\<rparr>"

lemmas wire_eval = next_field_def wire_varint_def variant_read_def VARINT_MAX_LEN_def wire_from_code_def
  field_value_def wire_take_def checked_add_def usize_max_def get_range_def write_length_delimited_def
  variant_write.simps Let_def find_length_delimited_def splice_length_delimited_def
  find_loop.simps [of _ _ 0] find_loop.simps [of _ _ "Suc (Suc 0)"]
  find_loop.simps [of _ _ "Suc (Suc (Suc (Suc 0)))"] find_loop.simps [of _ _ "Suc (Suc (Suc (Suc (Suc 0))))"]
  splice_loop.simps [of _ _ _ 0] splice_loop.simps [of _ _ _ "Suc (Suc 0)"]
  splice_loop.simps [of _ _ _ "Suc (Suc (Suc (Suc 0)))"]

lemma toy_prost_ok: "prost_ok toy_prost"
proof -
  have "find_length_delimited [8, 1] 6 = Ok None" "find_length_delimited [8, 1, 16, 0] 6 = Ok None"
    by (simp_all add: wire_eval)
  then show ?thesis
    by (auto simp: prost_ok_def toy_prost_def number_for_type_def usize_max_def split: option.splits if_splits)
qed

theorem set_identifier_keeps_witness:
  "raw_inner toy_prost
     \<lparr>msg_envelope = toy_envelope\<lparr>env_identifier := Some [65]\<rparr>, msg_encoded = [8, 1, 16, 0, 50, 1, 7]\<rparr>
   = raw_inner toy_prost \<lparr>msg_envelope = toy_envelope, msg_encoded = [8, 1, 50, 1, 7]\<rparr>"
proof -
  have "set_identifier toy_prost [65] \<lparr>msg_envelope = toy_envelope, msg_encoded = [8, 1, 50, 1, 7]\<rparr>
      = Ok \<lparr>msg_envelope = toy_envelope\<lparr>env_identifier := Some [65]\<rparr>, msg_encoded = [8, 1, 16, 0, 50, 1, 7]\<rparr>"
    by (simp add: set_identifier_def msg_rebuild_def toy_prost_def toy_envelope_def number_for_type_def
        message_type_def wire_eval)
  from set_identifier_keeps [OF toy_prost_ok this] show ?thesis by (simp add: usize_max_def)
qed

end
