(* ===== verification/Features.thy ===== *)
theory Features
  imports Prelude
begin

text \<open>
  The vocabulary of the facade (\<open>crates/pyatv-core/src/features.rs\<close> and the protocols of
  \<open>consts.rs\<close>): the protocols, the features of a device in the order of the source, their
  names, and the availability a protocol reports. A constructor \<open>Fn_X\<close> is
  \<open>FeatureName::X\<close>; its string is a list of characters.
\<close>

datatype protocol = Dmap | Mrp | AirPlay | Companion | Raop

definition PROTOCOL_ALL :: "protocol list" where
  "PROTOCOL_ALL = [Dmap, Mrp, AirPlay, Companion, Raop]"

datatype feature_state = Unknown | Unsupported | Unavailable | Available

fun feature_state_str :: "feature_state \<Rightarrow> string" where
  "feature_state_str Unknown = ''Unknown''"
| "feature_state_str Unsupported = ''Unsupported''"
| "feature_state_str Unavailable = ''Unavailable''"
| "feature_state_str Available = ''Available''"

record feature_info =
  fi_state :: feature_state
  fi_reason :: "string option"

definition info_available :: feature_info where
  "info_available = \<lparr>fi_state = Available, fi_reason = None\<rparr>"

definition info_unsupported :: feature_info where
  "info_unsupported = \<lparr>fi_state = Unsupported, fi_reason = None\<rparr>"

definition info_unavailable :: feature_info where
  "info_unavailable = \<lparr>fi_state = Unavailable, fi_reason = None\<rparr>"

datatype (plugins only: size) feature_name =
    Fn_Up | Fn_Down | Fn_Left | Fn_Right | Fn_Play | Fn_PlayPause | Fn_Pause | Fn_Stop | Fn_Next
    | Fn_Previous | Fn_Select | Fn_Menu | Fn_VolumeUp | Fn_VolumeDown | Fn_Home | Fn_HomeHold
    | Fn_TopMenu | Fn_Suspend | Fn_WakeUp | Fn_SkipForward | Fn_SkipBackward | Fn_SetPosition
    | Fn_SetShuffle | Fn_SetRepeat | Fn_ChannelUp | Fn_ChannelDown | Fn_Title | Fn_Artist | Fn_Album
    | Fn_Genre | Fn_TotalTime | Fn_Position | Fn_Shuffle | Fn_Repeat | Fn_SeriesName
    | Fn_SeasonNumber | Fn_EpisodeNumber | Fn_ContentIdentifier | Fn_ItunesStoreIdentifier
    | Fn_AppList | Fn_LaunchApp | Fn_AccountList | Fn_SwitchAccount | Fn_Artwork | Fn_App
    | Fn_PushUpdates | Fn_PlayUrl | Fn_StreamFile | Fn_PowerState | Fn_Screensaver | Fn_TurnOn
    | Fn_TurnOff | Fn_Volume | Fn_SetVolume | Fn_OutputDevices | Fn_AddOutputDevices
    | Fn_RemoveOutputDevices | Fn_SetOutputDevices | Fn_TextFocusState | Fn_TextGet | Fn_TextClear
    | Fn_TextAppend | Fn_TextSet | Fn_Swipe | Fn_TouchAction | Fn_Click | Fn_Guide
    | Fn_ControlCenter

definition FEATURE_ALL :: "feature_name list" where
  "FEATURE_ALL =
     [Fn_Up, Fn_Down, Fn_Left, Fn_Right, Fn_Play, Fn_PlayPause, Fn_Pause, Fn_Stop, Fn_Next
      , Fn_Previous, Fn_Select, Fn_Menu, Fn_VolumeUp, Fn_VolumeDown, Fn_Home, Fn_HomeHold
      , Fn_TopMenu, Fn_Suspend, Fn_WakeUp, Fn_SkipForward, Fn_SkipBackward, Fn_SetPosition
      , Fn_SetShuffle, Fn_SetRepeat, Fn_ChannelUp, Fn_ChannelDown, Fn_Title, Fn_Artist, Fn_Album
      , Fn_Genre, Fn_TotalTime, Fn_Position, Fn_Shuffle, Fn_Repeat, Fn_SeriesName, Fn_SeasonNumber
      , Fn_EpisodeNumber, Fn_ContentIdentifier, Fn_ItunesStoreIdentifier, Fn_AppList, Fn_LaunchApp
      , Fn_AccountList, Fn_SwitchAccount, Fn_Artwork, Fn_App, Fn_PushUpdates, Fn_PlayUrl
      , Fn_StreamFile, Fn_PowerState, Fn_Screensaver, Fn_TurnOn, Fn_TurnOff, Fn_Volume, Fn_SetVolume
      , Fn_OutputDevices, Fn_AddOutputDevices, Fn_RemoveOutputDevices, Fn_SetOutputDevices
      , Fn_TextFocusState, Fn_TextGet, Fn_TextClear, Fn_TextAppend, Fn_TextSet, Fn_Swipe
      , Fn_TouchAction, Fn_Click, Fn_Guide, Fn_ControlCenter]"

definition FEATURE_COUNT :: nat where
  "FEATURE_COUNT = 68"

primrec feature_str :: "feature_name \<Rightarrow> string" where
  "feature_str Fn_Up = ''Up''"
| "feature_str Fn_Down = ''Down''"
| "feature_str Fn_Left = ''Left''"
| "feature_str Fn_Right = ''Right''"
| "feature_str Fn_Play = ''Play''"
| "feature_str Fn_PlayPause = ''PlayPause''"
| "feature_str Fn_Pause = ''Pause''"
| "feature_str Fn_Stop = ''Stop''"
| "feature_str Fn_Next = ''Next''"
| "feature_str Fn_Previous = ''Previous''"
| "feature_str Fn_Select = ''Select''"
| "feature_str Fn_Menu = ''Menu''"
| "feature_str Fn_VolumeUp = ''VolumeUp''"
| "feature_str Fn_VolumeDown = ''VolumeDown''"
| "feature_str Fn_Home = ''Home''"
| "feature_str Fn_HomeHold = ''HomeHold''"
| "feature_str Fn_TopMenu = ''TopMenu''"
| "feature_str Fn_Suspend = ''Suspend''"
| "feature_str Fn_WakeUp = ''WakeUp''"
| "feature_str Fn_SkipForward = ''SkipForward''"
| "feature_str Fn_SkipBackward = ''SkipBackward''"
| "feature_str Fn_SetPosition = ''SetPosition''"
| "feature_str Fn_SetShuffle = ''SetShuffle''"
| "feature_str Fn_SetRepeat = ''SetRepeat''"
| "feature_str Fn_ChannelUp = ''ChannelUp''"
| "feature_str Fn_ChannelDown = ''ChannelDown''"
| "feature_str Fn_Title = ''Title''"
| "feature_str Fn_Artist = ''Artist''"
| "feature_str Fn_Album = ''Album''"
| "feature_str Fn_Genre = ''Genre''"
| "feature_str Fn_TotalTime = ''TotalTime''"
| "feature_str Fn_Position = ''Position''"
| "feature_str Fn_Shuffle = ''Shuffle''"
| "feature_str Fn_Repeat = ''Repeat''"
| "feature_str Fn_SeriesName = ''SeriesName''"
| "feature_str Fn_SeasonNumber = ''SeasonNumber''"
| "feature_str Fn_EpisodeNumber = ''EpisodeNumber''"
| "feature_str Fn_ContentIdentifier = ''ContentIdentifier''"
| "feature_str Fn_ItunesStoreIdentifier = ''iTunesStoreIdentifier''"
| "feature_str Fn_AppList = ''AppList''"
| "feature_str Fn_LaunchApp = ''LaunchApp''"
| "feature_str Fn_AccountList = ''AccountList''"
| "feature_str Fn_SwitchAccount = ''SwitchAccount''"
| "feature_str Fn_Artwork = ''Artwork''"
| "feature_str Fn_App = ''App''"
| "feature_str Fn_PushUpdates = ''PushUpdates''"
| "feature_str Fn_PlayUrl = ''PlayUrl''"
| "feature_str Fn_StreamFile = ''StreamFile''"
| "feature_str Fn_PowerState = ''PowerState''"
| "feature_str Fn_Screensaver = ''Screensaver''"
| "feature_str Fn_TurnOn = ''TurnOn''"
| "feature_str Fn_TurnOff = ''TurnOff''"
| "feature_str Fn_Volume = ''Volume''"
| "feature_str Fn_SetVolume = ''SetVolume''"
| "feature_str Fn_OutputDevices = ''OutputDevices''"
| "feature_str Fn_AddOutputDevices = ''AddOutputDevices''"
| "feature_str Fn_RemoveOutputDevices = ''RemoveOutputDevices''"
| "feature_str Fn_SetOutputDevices = ''SetOutputDevices''"
| "feature_str Fn_TextFocusState = ''TextFocusState''"
| "feature_str Fn_TextGet = ''TextGet''"
| "feature_str Fn_TextClear = ''TextClear''"
| "feature_str Fn_TextAppend = ''TextAppend''"
| "feature_str Fn_TextSet = ''TextSet''"
| "feature_str Fn_Swipe = ''Swipe''"
| "feature_str Fn_TouchAction = ''Action''"
| "feature_str Fn_Click = ''Click''"
| "feature_str Fn_Guide = ''Guide''"
| "feature_str Fn_ControlCenter = ''ControlCenter''"

section \<open>Lemmas\<close>

lemma set_PROTOCOL_ALL: "set PROTOCOL_ALL = UNIV"
proof -
  have "p \<in> set PROTOCOL_ALL" for p by (cases p) (simp_all add: PROTOCOL_ALL_def)
  then show ?thesis by blast
qed

lemma mem_FEATURE_ALL: "f \<in> set FEATURE_ALL"
  by (cases f) (simp_all add: FEATURE_ALL_def)

lemma distinct_feature_strs: "distinct (map feature_str FEATURE_ALL)"
  by (simp add: FEATURE_ALL_def)

lemma length_FEATURE_ALL: "length FEATURE_ALL = FEATURE_COUNT"
  by (simp add: FEATURE_ALL_def FEATURE_COUNT_def)

lemma feature_str_inj: "feature_str f = feature_str g \<Longrightarrow> f = g"
  using distinct_feature_strs mem_FEATURE_ALL [of f] mem_FEATURE_ALL [of g]
  by (auto simp: distinct_map inj_on_def)

section \<open>The derived order\<close>

text \<open>\<open>#[derive(PartialOrd, Ord)]\<close> on an enum orders its variants as they are declared.\<close>

definition feature_rank :: "feature_name \<Rightarrow> nat" where
  "feature_rank f = length (takeWhile (\<lambda>g. g \<noteq> f) FEATURE_ALL)"

lemma rank_nth: "FEATURE_ALL ! feature_rank f = f"
proof -
  have "f \<in> set xs \<Longrightarrow> xs ! length (takeWhile (\<lambda>g. g \<noteq> f) xs) = f" for xs by (induction xs) auto
  from this [OF mem_FEATURE_ALL] show ?thesis by (simp add: feature_rank_def)
qed

lemma feature_rank_inj: "feature_rank f = feature_rank g \<longleftrightarrow> f = g"
  by (metis rank_nth)

instantiation feature_name :: linorder
begin

definition less_eq_feature_name :: "feature_name \<Rightarrow> feature_name \<Rightarrow> bool" where
  "less_eq_feature_name f g \<longleftrightarrow> feature_rank f \<le> feature_rank g"

definition less_feature_name :: "feature_name \<Rightarrow> feature_name \<Rightarrow> bool" where
  "less_feature_name f g \<longleftrightarrow> feature_rank f < feature_rank g"

instance
  by standard (auto simp: less_eq_feature_name_def less_feature_name_def feature_rank_inj)

end

lemma FEATURE_ALL_sorted: "sorted_wrt (<) FEATURE_ALL"
proof -
  have "distinct FEATURE_ALL" using distinct_feature_strs by (simp add: distinct_map)
  moreover have "distinct xs \<Longrightarrow> sorted_wrt (\<lambda>f g. length (takeWhile (\<lambda>h. h \<noteq> f) xs) < length (takeWhile (\<lambda>h. h \<noteq> g) xs)) xs" for xs :: "feature_name list"
  proof (induction xs)
    case (Cons x xs)
    then have "\<forall>g \<in> set xs. g \<noteq> x" by auto
    moreover have "sorted_wrt (\<lambda>f g. length (takeWhile (\<lambda>h. h \<noteq> f) (x # xs)) < length (takeWhile (\<lambda>h. h \<noteq> g) (x # xs))) xs"
      by (rule sorted_wrt_mono_rel [OF _ Cons.IH]) (use Cons.prems in auto)
    ultimately show ?case by auto
  qed simp
  moreover have "(<) = (\<lambda>f g. length (takeWhile (\<lambda>h. h \<noteq> f) FEATURE_ALL) < length (takeWhile (\<lambda>h. h \<noteq> g) FEATURE_ALL))"
    by (intro ext) (simp add: less_feature_name_def feature_rank_def)
  ultimately show ?thesis by presburger
qed

end
