(* ===== verification/Relayer.thy ===== *)
theory Relayer
  imports Features "HOL-Library.Multiset"
begin

text \<open>
  The selection of one implementation among several protocols
  (\<open>crates/pyatv-core/src/relayer.rs\<close>). An instance is an \<open>Arc<T>\<close>, an opaque value of the
  type \<open>'a\<close>; the lock makes every operation atomic, so each is a function on the record.
\<close>

record 'a registration =
  reg_instance :: 'a
  reg_declared :: "feature_name set"

record 'a relayer =
  priorities :: "protocol list"
  registered :: "protocol \<rightharpoonup> 'a registration"
  holder :: "protocol option"

datatype relay_error = Not_In_Priority_List protocol | Already_Taken protocol

definition relayer_new :: "protocol list \<Rightarrow> 'a relayer" where
  "relayer_new ps = \<lparr>priorities = ps, registered = Map.empty, holder = None\<rparr>"

definition register :: "'a relayer \<Rightarrow> protocol \<Rightarrow> 'a \<Rightarrow> feature_name set \<Rightarrow> relay_error + 'a relayer" where
  "register r p inst declared =
     (if p \<notin> set (priorities r) then Err (Not_In_Priority_List p)
      else Ok (r\<lparr>registered := (registered r)(p \<mapsto> \<lparr>reg_instance = inst, reg_declared = declared\<rparr>)\<rparr>))"

definition search_order :: "'a relayer \<Rightarrow> protocol option \<Rightarrow> protocol list" where
  "search_order r t = (case t of None \<Rightarrow> [] | Some p \<Rightarrow> [p]) @ filter (\<lambda>p. Some p \<noteq> t) (priorities r)"

definition main_instance :: "'a relayer \<Rightarrow> 'a option" where
  "main_instance r = map_option reg_instance (find_map (registered r) (search_order r (holder r)))"

definition instance_for :: "'a relayer \<Rightarrow> feature_name \<Rightarrow> 'a option" where
  "instance_for r f =
     map_option reg_instance
       (find (\<lambda>reg. f \<in> reg_declared reg) (List.map_filter (registered r) (search_order r (holder r))))"

definition main_protocol :: "'a relayer \<Rightarrow> protocol option" where
  "main_protocol r = find (\<lambda>p. registered r p \<noteq> None) (search_order r (holder r))"

definition relayer_get :: "'a relayer \<Rightarrow> protocol \<Rightarrow> 'a option" where
  "relayer_get r p = map_option reg_instance (registered r p)"

definition protocols :: "'a relayer \<Rightarrow> protocol list" where
  "protocols r = filter (\<lambda>p. registered r p \<noteq> None) (search_order r (holder r))"

definition instances :: "'a relayer \<Rightarrow> 'a list" where
  "instances r = map reg_instance (List.map_filter (registered r) (search_order r (holder r)))"

text \<open>The number of keys of the map, whose keys are protocols.\<close>

definition relayer_count :: "'a relayer \<Rightarrow> nat" where
  "relayer_count r = length (filter (\<lambda>p. registered r p \<noteq> None) PROTOCOL_ALL)"

definition relayer_is_empty :: "'a relayer \<Rightarrow> bool" where
  "relayer_is_empty r \<longleftrightarrow> list_all (\<lambda>p. registered r p = None) PROTOCOL_ALL"

definition takeover :: "'a relayer \<Rightarrow> protocol \<Rightarrow> relay_error + 'a relayer" where
  "takeover r p =
     (case holder r of
        Some q \<Rightarrow> Err (Already_Taken q)
      | None \<Rightarrow> Ok (r\<lparr>holder := Some p\<rparr>))"

definition release :: "'a relayer \<Rightarrow> 'a relayer" where
  "release r = r\<lparr>holder := None\<rparr>"

definition taken_over_by :: "'a relayer \<Rightarrow> protocol option" where
  "taken_over_by r = holder r"

section \<open>The order of selection\<close>

text \<open>
  What the priorities and a takeover mean, said without a search: the holder comes before everybody,
  nobody comes before the holder, and otherwise the list decides.
\<close>

definition position :: "protocol list \<Rightarrow> protocol \<Rightarrow> nat" where
  "position ps p = length (takeWhile (\<lambda>q. q \<noteq> p) ps)"

definition rank :: "'a relayer \<Rightarrow> protocol \<Rightarrow> nat" where
  "rank r p = (if holder r = Some p then 0 else Suc (position (priorities r) p))"

text \<open>What every relayer the facade builds satisfies, and every operation keeps.\<close>

definition relayer_ok :: "'a relayer \<Rightarrow> bool" where
  "relayer_ok r \<longleftrightarrow> distinct (priorities r) \<and> dom (registered r) \<subseteq> set (priorities r)"

lemma relayer_new_ok: "distinct ps \<Longrightarrow> relayer_ok (relayer_new ps)"
  by (simp add: relayer_ok_def relayer_new_def)

lemma register_ok: "relayer_ok r \<Longrightarrow> register r p inst declared = Ok r' \<Longrightarrow> relayer_ok r'"
  by (fastforce simp: relayer_ok_def register_def dom_def split: if_splits)

lemma takeover_ok: "relayer_ok r \<Longrightarrow> takeover r p = Ok r' \<Longrightarrow> relayer_ok r'"
  by (fastforce simp: relayer_ok_def takeover_def split: option.splits)

lemma release_ok: "relayer_ok r \<Longrightarrow> relayer_ok (release r)"
  by (simp add: relayer_ok_def release_def)

lemma sorted_position: "distinct ps \<Longrightarrow> sorted_wrt (\<lambda>p q. position ps p < position ps q) ps"
proof (induction ps)
  case (Cons a ps)
  have "sorted_wrt (\<lambda>p q. position (a # ps) p < position (a # ps) q) ps"
    by (rule sorted_wrt_mono_rel [OF _ Cons.IH]) (use Cons.prems in \<open>auto simp: position_def\<close>)
  then show ?case using Cons.prems by (auto simp: position_def)
qed simp

lemma search_sorted:
  assumes "relayer_ok r"
  shows "sorted_wrt (\<lambda>p q. rank r p < rank r q) (search_order r (holder r))"
proof -
  have "sorted_wrt (\<lambda>p q. rank r p < rank r q) (filter (\<lambda>p. Some p \<noteq> holder r) (priorities r))"
    by (rule sorted_wrt_mono_rel [OF _ sorted_wrt_filter [OF sorted_position]])
      (use assms in \<open>auto simp: rank_def relayer_ok_def\<close>)
  then show ?thesis by (cases "holder r") (simp_all add: search_order_def, simp add: rank_def)
qed

lemma registered_in_search: "relayer_ok r \<Longrightarrow> registered r p = Some reg \<Longrightarrow> p \<in> set (search_order r t)"
  by (auto simp: search_order_def relayer_ok_def dom_def split: option.splits)

lemma search_distinct: "relayer_ok r \<Longrightarrow> distinct (search_order r t)"
  by (auto simp: search_order_def relayer_ok_def split: option.splits)

text \<open>A search that stops at \<open>p\<close> has passed exactly the protocols of a smaller rank.\<close>

lemma search_before:
  assumes "relayer_ok r" and "search_order r (holder r) = ys @ p # zs" and "registered r q = Some reg"
  shows "q \<in> set ys \<longleftrightarrow> rank r q < rank r p"
proof -
  have "q \<in> set (ys @ p # zs)" using registered_in_search [OF assms(1,3), of "holder r"] assms(2) by simp
  moreover have "\<forall>x \<in> set ys. rank r x < rank r p" "\<forall>x \<in> set zs. rank r p < rank r x"
    using search_sorted [OF assms(1)] assms(2) by (auto simp: sorted_wrt_append)
  ultimately show ?thesis by auto
qed

section \<open>What is selected\<close>

lemma find_map_filter: "find P (List.map_filter m xs) = find_map (\<lambda>x. case m x of Some y \<Rightarrow> if P y then Some y else None | None \<Rightarrow> None) xs"
  by (induction xs) (auto simp: List.map_filter_simps split: option.splits)

text \<open>A selection in the search order picks the registration of the smallest rank that qualifies.\<close>

lemma picks_iff:
  assumes "relayer_ok r"
  shows "find_map (\<lambda>p. case registered r p of Some reg \<Rightarrow> if P reg then Some reg else None | None \<Rightarrow> None)
      (search_order r (holder r)) = Some reg
    \<longleftrightarrow> (\<exists>p. registered r p = Some reg \<and> P reg
          \<and> (\<forall>q reg'. registered r q = Some reg' \<and> P reg' \<longrightarrow> rank r p \<le> rank r q))"
    (is "find_map ?f ?xs = _ \<longleftrightarrow> ?R")
proof
  assume "find_map ?f ?xs = Some reg"
  then obtain ys p zs where s: "?xs = ys @ p # zs" "?f p = Some reg" "\<forall>z \<in> set ys. ?f z = None"
    by (blast dest: find_map_SomeD)
  have "rank r p \<le> rank r q" if "registered r q = Some reg'" "P reg'" for q reg'
    using search_before [OF assms s(1) that(1)] s(3) that by (fastforce simp: not_less [symmetric])
  with s(2) show ?R by (auto split: option.splits if_splits)
next
  assume ?R
  then obtain p where p: "registered r p = Some reg" "P reg"
    "\<And>q reg'. registered r q = Some reg' \<Longrightarrow> P reg' \<Longrightarrow> rank r p \<le> rank r q" by blast
  obtain ys zs where s: "?xs = ys @ p # zs" using registered_in_search [OF assms p(1)] by (meson split_list)
  have "?f z = None" if "z \<in> set ys" for z
    using search_before [OF assms s, of z] p(3) [of z] that by (fastforce split: option.splits)
  with s p show "find_map ?f ?xs = Some reg" by (simp add: find_map_first)
qed

lemma picks_None:
  assumes "relayer_ok r"
  shows "find_map (\<lambda>p. case registered r p of Some reg \<Rightarrow> if P reg then Some reg else None | None \<Rightarrow> None)
      (search_order r (holder r)) = None \<longleftrightarrow> (\<forall>q reg. registered r q = Some reg \<longrightarrow> \<not> P reg)"
  using registered_in_search [OF assms] by (fastforce simp: find_map_None_iff split: option.splits if_splits)

lemma instance_for_picks:
  "instance_for r f = map_option reg_instance
     (find_map (\<lambda>p. case registered r p of Some reg \<Rightarrow> if f \<in> reg_declared reg then Some reg else None | None \<Rightarrow> None)
       (search_order r (holder r)))"
  by (simp add: instance_for_def find_map_filter)

lemma relayer_picks:
  assumes "relayer_ok r"
  shows "instance_for r f = Some i \<longleftrightarrow>
      (\<exists>p reg. registered r p = Some reg \<and> f \<in> reg_declared reg \<and> reg_instance reg = i
        \<and> (\<forall>q reg'. registered r q = Some reg' \<and> f \<in> reg_declared reg' \<longrightarrow> rank r p \<le> rank r q))"
  by (simp only: instance_for_picks map_option_eq_Some picks_iff [OF assms]) blast

lemma main_instance_picks:
  "main_instance r = map_option reg_instance
     (find_map (\<lambda>p. case registered r p of Some reg \<Rightarrow> if True then Some reg else None | None \<Rightarrow> None)
       (search_order r (holder r)))"
proof -
  have "(\<lambda>p. case registered r p of Some reg \<Rightarrow> if True then Some reg else None | None \<Rightarrow> None) = registered r"
    by (auto split: option.splits)
  then show ?thesis by (simp only: main_instance_def)
qed

lemma find_map_find:
  "map_option g (find_map m xs) = Option.bind (find (\<lambda>p. m p \<noteq> None) xs) (\<lambda>p. map_option g (m p))"
  by (induction xs) (auto split: option.splits)

lemma length_instances: "length (instances r) = length (protocols r)"
proof -
  have "length (List.map_filter m xs) = length (filter (\<lambda>p. m p \<noteq> None) xs)" for m :: "protocol \<rightharpoonup> 'a registration" and xs
    by (induction xs) (auto simp: List.map_filter_simps split: option.splits)
  then show ?thesis by (simp add: instances_def protocols_def)
qed

lemma set_protocols: "relayer_ok r \<Longrightarrow> set (protocols r) = dom (registered r)"
  using registered_in_search [of r _ _ "holder r"] by (auto simp: protocols_def)

lemma relayer_count_card: "relayer_count r = card (dom (registered r))"
proof -
  have "distinct PROTOCOL_ALL" by (simp add: PROTOCOL_ALL_def)
  then have "relayer_count r = card (set (filter (\<lambda>p. registered r p \<noteq> None) PROTOCOL_ALL))"
    by (simp only: relayer_count_def distinct_card distinct_filter)
  also have "set (filter (\<lambda>p. registered r p \<noteq> None) PROTOCOL_ALL) = dom (registered r)"
    by (auto simp: set_PROTOCOL_ALL)
  finally show ?thesis .
qed

text \<open>Several registrations, one after the other.\<close>

fun register_all :: "'a relayer \<Rightarrow> (protocol \<times> 'a \<times> feature_name set) list \<Rightarrow> relay_error + 'a relayer" where
  "register_all r [] = Ok r"
| "register_all r ((p, inst, declared) # regs) = rbind (register r p inst declared) (\<lambda>r'. register_all r' regs)"

definition as_registration :: "protocol \<times> 'a \<times> feature_name set \<Rightarrow> protocol \<times> 'a registration" where
  "as_registration x = (fst x, \<lparr>reg_instance = fst (snd x), reg_declared = snd (snd x)\<rparr>)"

lemma register_all_Ok:
  "register_all r regs = Ok r' \<longleftrightarrow>
     fst ` set regs \<subseteq> set (priorities r)
     \<and> r' = r\<lparr>registered := registered r ++ map_of (rev (map as_registration regs))\<rparr>"
proof (induction regs arbitrary: r)
  case (Cons x regs)
  obtain p inst d where x: "x = (p, inst, d)" by (cases x)
  show ?case
    by (auto simp: x register_def Cons.IH as_registration_def map_add_def fun_eq_iff split: option.splits)
qed (simp add: eq_commute)

section \<open>The relayers a program can reach\<close>

inductive relayer_reach :: "'a relayer \<Rightarrow> bool" where
  reach_new: "distinct ps \<Longrightarrow> relayer_reach (relayer_new ps)"
| reach_register: "relayer_reach r \<Longrightarrow> register r p inst declared = Ok r' \<Longrightarrow> relayer_reach r'"
| reach_takeover: "relayer_reach r \<Longrightarrow> takeover r p = Ok r' \<Longrightarrow> relayer_reach r'"
| reach_release: "relayer_reach r \<Longrightarrow> relayer_reach (release r)"

lemma reach_ok: "relayer_reach r \<Longrightarrow> relayer_ok r"
  by (induction rule: relayer_reach.induct) (auto intro: relayer_new_ok register_ok takeover_ok release_ok)

section \<open>Properties\<close>

text \<open>
  The selection rule. The instance that answers a feature is the one of the registered protocol that
  declared it and ranks first: the holder of the takeover before everybody, then the position in
  the priorities; and no instance answers exactly when no registered protocol declared the feature.
\<close>

theorem relayer_selects:
  assumes "relayer_ok r"
  shows "(instance_for r f = Some i \<longleftrightarrow>
      (\<exists>p reg. registered r p = Some reg \<and> f \<in> reg_declared reg \<and> reg_instance reg = i
        \<and> (\<forall>q reg'. registered r q = Some reg' \<and> f \<in> reg_declared reg' \<longrightarrow> rank r p \<le> rank r q)))
    \<and> (instance_for r f = None \<longleftrightarrow> (\<forall>q reg. registered r q = Some reg \<longrightarrow> f \<notin> reg_declared reg))"
  using relayer_picks [OF assms] picks_None [OF assms, of "\<lambda>reg. f \<in> reg_declared reg"] by (simp add: instance_for_picks)

theorem relayer_selects_witness:
  "instance_for \<lparr>priorities = [AirPlay, Raop],
      registered = [AirPlay \<mapsto> \<lparr>reg_instance = 1 :: nat, reg_declared = {Fn_PlayUrl}\<rparr>,
                    Raop \<mapsto> \<lparr>reg_instance = 2, reg_declared = {Fn_StreamFile}\<rparr>],
      holder = None\<rparr> Fn_StreamFile = Some 2"
proof -
  let ?r = "\<lparr>priorities = [AirPlay, Raop],
      registered = [AirPlay \<mapsto> \<lparr>reg_instance = 1 :: nat, reg_declared = {Fn_PlayUrl}\<rparr>,
                    Raop \<mapsto> \<lparr>reg_instance = 2, reg_declared = {Fn_StreamFile}\<rparr>],
      holder = None\<rparr>"
  have "relayer_ok ?r" by (auto simp: relayer_ok_def)
  from relayer_selects [OF this, of Fn_StreamFile 2] show ?thesis by (auto simp: rank_def)
qed

text \<open>
  Selection does not depend on the order of registration. Registering the same implementations, one per
  protocol, in any other order gives the same relayer, and so the same answers.
\<close>

theorem registration_order_irrelevant:
  assumes "register_all r regs = Ok r'" and "mset regs' = mset regs" and "distinct (map fst regs)"
  shows "register_all r regs' = Ok r'"
proof -
  have m: "map fst (map as_registration xs) = map fst xs" for xs :: "(protocol \<times> 'a \<times> feature_name set) list"
    by (simp add: as_registration_def)
  have s: "set regs' = set regs" using assms(2) by (rule mset_eq_setD)
  have "mset (map fst regs') = mset (map fst regs)" using assms(2) by simp
  then have d: "distinct (map fst regs')" using assms(3) by (metis mset_eq_imp_distinct_iff)
  have "map_of (rev (map as_registration regs')) = map_of (rev (map as_registration regs))"
    by (rule map_of_inject_set [THEN iffD2]) (use s d assms(3) m in \<open>simp_all add: rev_map [symmetric] comp_def as_registration_def\<close>)
  with assms(1) s show ?thesis by (simp only: register_all_Ok)
qed

theorem registration_order_irrelevant_witness:
  "\<exists>r :: nat relayer. register_all (relayer_new [Mrp, Dmap]) [(Mrp, 1, {}), (Dmap, 2, {Fn_Up})] = Ok r
     \<and> register_all (relayer_new [Mrp, Dmap]) [(Dmap, 2, {Fn_Up}), (Mrp, 1, {})] = Ok r"
  using registration_order_irrelevant [of "relayer_new [Mrp, Dmap]" "[(Mrp, 1 :: nat, {}), (Dmap, 2, {Fn_Up})]" _
      "[(Dmap, 2, {Fn_Up}), (Mrp, 1, {})]"]
  by (fastforce simp: register_def relayer_new_def)

text \<open>
  Nothing registered is unreachable. In every relayer a program can build, the protocols of the search
  are exactly the registered ones, each listed once and in the order of their ranks, so the number of instances is the count,
  and there is a main instance, the one of the protocol \<open>main_protocol\<close> names, unless the relayer is empty.
\<close>

theorem relayer_complete:
  assumes "relayer_reach r"
  shows "set (protocols r) = dom (registered r) \<and> sorted_wrt (\<lambda>p q. rank r p < rank r q) (protocols r)
    \<and> length (instances r) = relayer_count r
    \<and> main_instance r = Option.bind (main_protocol r) (relayer_get r)
    \<and> (main_instance r = None \<longleftrightarrow> relayer_is_empty r)"
proof (intro conjI)
  have ok: "relayer_ok r" by (rule reach_ok [OF assms])
  show s: "set (protocols r) = dom (registered r)" by (rule set_protocols [OF ok])
  show "sorted_wrt (\<lambda>p q. rank r p < rank r q) (protocols r)"
    unfolding protocols_def by (rule sorted_wrt_filter [OF search_sorted [OF ok]])
  have "distinct (protocols r)" by (simp add: protocols_def search_distinct [OF ok])
  then show "length (instances r) = relayer_count r"
    using s by (metis distinct_card length_instances relayer_count_card)
  show "main_instance r = Option.bind (main_protocol r) (relayer_get r)"
    by (simp add: main_instance_def main_protocol_def find_map_find relayer_get_def [abs_def])
  have "main_instance r = None \<longleftrightarrow> (\<forall>q reg. registered r q \<noteq> Some reg)"
    by (simp only: main_instance_picks option.map_disc_iff picks_None [OF ok]) simp
  also have "\<dots> \<longleftrightarrow> relayer_is_empty r"
    by (auto simp: relayer_is_empty_def list_all_iff set_PROTOCOL_ALL)
  finally show "main_instance r = None \<longleftrightarrow> relayer_is_empty r" .
qed

theorem relayer_complete_witness:
  "protocols \<lparr>priorities = [Mrp, Dmap],
      registered = [Mrp \<mapsto> \<lparr>reg_instance = 1 :: nat, reg_declared = {}\<rparr>], holder = Some Dmap\<rparr> = [Mrp]"
proof -
  let ?r = "\<lparr>priorities = [Mrp, Dmap],
      registered = [Mrp \<mapsto> \<lparr>reg_instance = 1 :: nat, reg_declared = {}\<rparr>], holder = Some Dmap\<rparr>"
  have "relayer_reach ?r"
    by (rule reach_takeover [OF reach_register [OF reach_new [of "[Mrp, Dmap]"]], of Mrp 1 "{}"])
      (auto simp: relayer_new_def register_def takeover_def)
  from relayer_complete [OF this] have "set (protocols ?r) = {Mrp}" "length (protocols ?r) \<le> 1"
    by (auto simp: length_instances relayer_count_def PROTOCOL_ALL_def)
  then show ?thesis by (cases "protocols ?r") auto
qed

text \<open>
  A takeover redirects only what the holder declared. While a protocol holds a relayer, the features it declared there
  are answered by its instance and all others by the instance that answered them before; releasing restores the relayer.
\<close>

theorem takeover_redirects:
  assumes "relayer_ok r" and "takeover r p = Ok r'"
  shows "instance_for r' f =
      (case registered r p of
         Some reg \<Rightarrow> if f \<in> reg_declared reg then Some (reg_instance reg) else instance_for r f
       | None \<Rightarrow> instance_for r f)
    \<and> release r' = r"
proof -
  have h: "holder r = None" and r': "r' = r\<lparr>holder := Some p\<rparr>"
    using assms(2) by (auto simp: takeover_def split: option.splits)
  let ?f = "\<lambda>q. case registered r q of Some reg \<Rightarrow> if f \<in> reg_declared reg then Some reg else None | None \<Rightarrow> None"
  have skip: "find_map ?f (filter (\<lambda>q. q \<noteq> p) xs) = find_map ?f xs" if "?f p = None" for xs
    using that by (induction xs) (auto split: option.splits if_splits)
  have "instance_for r' f = map_option reg_instance
      (case ?f p of None \<Rightarrow> find_map ?f (filter (\<lambda>q. q \<noteq> p) (priorities r)) | Some reg \<Rightarrow> Some reg)"
    by (simp add: instance_for_picks r' search_order_def)
  moreover have "instance_for r f = map_option reg_instance (find_map ?f (priorities r))"
    by (simp add: instance_for_picks search_order_def h)
  ultimately have "instance_for r' f =
      (case registered r p of
         Some reg \<Rightarrow> if f \<in> reg_declared reg then Some (reg_instance reg) else instance_for r f
       | None \<Rightarrow> instance_for r f)"
    using skip by (auto split: option.splits)
  with h show ?thesis by (simp add: r' release_def)
qed

theorem takeover_redirects_witness:
  "instance_for \<lparr>priorities = [Mrp, Raop],
      registered = [Mrp \<mapsto> \<lparr>reg_instance = 1 :: nat, reg_declared = {Fn_Artwork}\<rparr>,
                    Raop \<mapsto> \<lparr>reg_instance = 2, reg_declared = {}\<rparr>], holder = Some Raop\<rparr> Fn_Artwork = Some 1"
proof -
  let ?r = "\<lparr>priorities = [Mrp, Raop],
      registered = [Mrp \<mapsto> \<lparr>reg_instance = 1 :: nat, reg_declared = {Fn_Artwork}\<rparr>,
                    Raop \<mapsto> \<lparr>reg_instance = 2, reg_declared = {}\<rparr>], holder = None\<rparr>"
  have "relayer_ok ?r" by (auto simp: relayer_ok_def)
  from takeover_redirects [OF this, of Raop] show ?thesis
    by (simp add: takeover_def instance_for_def search_order_def List.map_filter_simps)
qed

end
