(* ===== verification/Takeover.thy ===== *)
theory Takeover
  imports Relayer
begin

text \<open>
  Letting one protocol own an interface (\<open>crates/pyatv-core/src/facade/takeover.rs\<close>): the
  registry of claimable relayers, the claim that rolls back, and the guard that releases on drop.

  An \<open>Arc<dyn Claimable>\<close> is a handle into a store of relayers, so two interfaces may name the
  same relayer. The trait \<open>Claimable\<close> is the locale \<open>claimable\<close>; the loops take its two methods
  as arguments, as a call through \<open>dyn\<close> does.
\<close>

datatype interface =
    I_RemoteControl | I_Metadata | I_PushUpdater | I_Stream | I_Power
  | I_Apps | I_Audio | I_Keyboard | I_TouchGestures | I_UserAccounts

definition registry_insert :: "(interface \<rightharpoonup> 'h) \<Rightarrow> interface \<Rightarrow> 'h \<Rightarrow> (interface \<rightharpoonup> 'h)" where
  "registry_insert entries i h = entries(i \<mapsto> h)"

text \<open>\<open>TakeoverGuard::release_all\<close>, which is also what dropping a guard does.\<close>

fun release_all :: "('r \<Rightarrow> 'r) \<Rightarrow> 'h list \<Rightarrow> ('h \<Rightarrow> 'r) \<Rightarrow> ('h \<Rightarrow> 'r)" where
  "release_all drp [] st = st"
| "release_all drp (h # hs) st = release_all drp hs (st(h := drp (st h)))"

text \<open>The loop of \<open>claim\<close>; the early return drops the guard, with what it has taken so far.\<close>

fun claim_loop ::
  "('r \<Rightarrow> 'p \<Rightarrow> 'e + 'r) \<Rightarrow> ('r \<Rightarrow> 'r) \<Rightarrow> ('i \<rightharpoonup> 'h) \<Rightarrow> 'p \<Rightarrow> 'i list \<Rightarrow> 'h list \<Rightarrow> ('h \<Rightarrow> 'r)
   \<Rightarrow> (('i \<times> 'e) + 'h list) \<times> ('h \<Rightarrow> 'r)" where
  "claim_loop grab drp entries p [] taken st = (Ok taken, st)"
| "claim_loop grab drp entries p (i # is) taken st =
     (case entries i of
        None \<Rightarrow> claim_loop grab drp entries p is taken st
      | Some h \<Rightarrow>
          (case grab (st h) p of
             Err e \<Rightarrow> (Err (i, e), release_all drp taken st)
           | Ok r \<Rightarrow> claim_loop grab drp entries p is (taken @ [h]) (st(h := r))))"

definition claim ::
  "(interface \<rightharpoonup> 'h) \<Rightarrow> protocol \<Rightarrow> interface list \<Rightarrow> ('h \<Rightarrow> 'a relayer)
   \<Rightarrow> ((interface \<times> relay_error) + 'h list) \<times> ('h \<Rightarrow> 'a relayer)" where
  "claim entries p is st = claim_loop takeover release entries p is [] st"

definition guard_release :: "'h list \<Rightarrow> ('h \<Rightarrow> 'a relayer) \<Rightarrow> ('h \<Rightarrow> 'a relayer)" where
  "guard_release taken st = release_all release taken st"

text \<open>A registry bound to the protocol that claims through it.\<close>

record 'h facade_takeover =
  ft_registry :: "interface \<rightharpoonup> 'h"
  ft_protocol :: protocol

definition facade_claim ::
  "'h facade_takeover \<Rightarrow> interface list \<Rightarrow> ('h \<Rightarrow> 'a relayer)
   \<Rightarrow> ((interface \<times> relay_error) + 'h list) \<times> ('h \<Rightarrow> 'a relayer)" where
  "facade_claim t is st = claim (ft_registry t) (ft_protocol t) is st"

section \<open>The contract of a claimable\<close>

locale claimable =
  fixes who :: "'r \<Rightarrow> 'p option" and grab :: "'r \<Rightarrow> 'p \<Rightarrow> 'e + 'r" and drp :: "'r \<Rightarrow> 'r"
  assumes grab_free: "who r = None \<Longrightarrow> \<exists>r'. grab r p = Ok r' \<and> who r' = Some p \<and> drp r' = r"
    and grab_held: "who r = Some q \<Longrightarrow> \<exists>e. grab r p = Err e"
begin

text \<open>\<open>st\<close> is \<open>base\<close> with the free handles \<open>hs\<close> claimed for \<open>p\<close>.\<close>

definition owns :: "('h \<Rightarrow> 'r) \<Rightarrow> 'p \<Rightarrow> 'h list \<Rightarrow> ('h \<Rightarrow> 'r) \<Rightarrow> bool" where
  "owns base p hs st \<longleftrightarrow> distinct hs \<and>
     (\<forall>h. if h \<in> set hs then who (base h) = None \<and> grab (base h) p = Ok (st h) else st h = base h)"

lemma owns_Nil: "owns base p [] base"
  by (simp add: owns_def)

lemma grab_Ok_iff: "(\<exists>r'. grab r p = Ok r') \<longleftrightarrow> who r = None"
  using grab_free [of r p] grab_held [of r _ p] by (cases "who r") auto

lemma grab_Ok: "grab r p = Ok r' \<Longrightarrow> who r = None \<and> who r' = Some p \<and> drp r' = r"
  using grab_free [of r p] grab_Ok_iff [of r p] by auto

lemma owns_who: "owns base p hs st \<Longrightarrow> h \<in> set hs \<Longrightarrow> who (base h) = None \<and> who (st h) = Some p"
  unfolding owns_def by (meson grab_Ok)

lemma owns_snoc:
  assumes "owns base p hs st" and "grab (st h) p = Ok r"
  shows "owns base p (hs @ [h]) (st(h := r))"
proof -
  have "h \<notin> set hs" using owns_who [OF assms(1), of h] grab_Ok [OF assms(2)] by auto
  with assms grab_Ok [OF assms(2)] show ?thesis by (auto simp: owns_def)
qed

lemma release_owned: "owns base p hs st \<Longrightarrow> release_all drp hs st = base"
proof (induction hs arbitrary: st)
  case (Cons h hs)
  then have "drp (st h) = base h" unfolding owns_def by (metis grab_Ok list.set_intros(1))
  with Cons.prems have "owns base p hs (st(h := drp (st h)))" by (auto simp: owns_def)
  from Cons.IH [OF this] show ?case by (simp only: release_all.simps)
qed (auto simp: owns_def)

lemma claim_loop_result:
  assumes "owns base p taken st" and "claim_loop grab drp entries p is taken st = (res, st')"
  shows "case res of
      Err _ \<Rightarrow> st' = base \<and> \<not> (distinct (taken @ List.map_filter entries is) \<and> (\<forall>h \<in> set (List.map_filter entries is). who (base h) = None))
    | Ok hs \<Rightarrow> hs = taken @ List.map_filter entries is \<and> owns base p hs st'"
  using assms
proof (induction "is" arbitrary: taken st)
  case (Cons i "is")
  show ?case
  proof (cases "entries i")
    case None
    with Cons.IH [OF Cons.prems(1)] Cons.prems(2) show ?thesis by (simp add: List.map_filter_simps split: sum.splits)
  next
    case (Some h)
    show ?thesis
    proof (cases "grab (st h) p")
      case (Inl e)
      then have "who (st h) \<noteq> None" by (metis grab_Ok_iff Inl_Inr_False)
      then have "who (base h) \<noteq> None \<or> h \<in> set taken" using Cons.prems(1) by (auto simp: owns_def)
      with Cons.prems(2) Some Inl release_owned [OF Cons.prems(1)] show ?thesis
        by (auto simp: List.map_filter_simps)
    next
      case (Inr r)
      have o: "owns base p (taken @ [h]) (st(h := r))" by (rule owns_snoc [OF Cons.prems(1) Inr])
      have l: "claim_loop grab drp entries p is (taken @ [h]) (st(h := r)) = (res, st')"
        using Cons.prems(2) Some Inr by simp
      have "who (base h) = None" using owns_who [OF o, of h] by simp
      with Cons.IH [OF o l] Some show ?thesis by (auto simp: List.map_filter_simps split: sum.splits)
    qed
  qed
qed (auto simp: List.map_filter_simps split: sum.splits)

text \<open>A claim succeeds on free, different handles and only on those; otherwise nothing changes.\<close>

lemma claims:
  assumes "claim_loop grab drp entries p is [] st = (res, st')"
  defines "hs \<equiv> List.map_filter entries is"
  shows "(distinct hs \<and> (\<forall>h \<in> set hs. who (st h) = None)) \<longleftrightarrow> res = Ok hs"
    and "res = Ok hs' \<Longrightarrow> hs' = hs \<and> (\<forall>h. h \<in> set hs \<longrightarrow> who (st' h) = Some p) \<and> (\<forall>h. h \<notin> set hs \<longrightarrow> st' h = st h)
      \<and> release_all drp hs st' = st"
    and "res = Err e \<Longrightarrow> st' = st"
proof -
  note r = claim_loop_result [OF owns_Nil assms(1), simplified, folded hs_def]
  show "(distinct hs \<and> (\<forall>h \<in> set hs. who (st h) = None)) \<longleftrightarrow> res = Ok hs"
    using r owns_who [of st p hs st'] by (auto split: sum.splits simp: owns_def)
  show "res = Ok hs' \<Longrightarrow> hs' = hs \<and> (\<forall>h. h \<in> set hs \<longrightarrow> who (st' h) = Some p) \<and> (\<forall>h. h \<notin> set hs \<longrightarrow> st' h = st h)
      \<and> release_all drp hs st' = st"
    using r owns_who [of st p hs st'] release_owned [of st p hs st'] by (auto simp: owns_def)
  show "res = Err e \<Longrightarrow> st' = st" using r by simp
qed

end

lemma takeover_Ok_iff: "takeover r p = Ok r' \<longleftrightarrow> holder r = None \<and> r' = r\<lparr>holder := Some p\<rparr>"
  by (auto simp: takeover_def split: option.splits)

lemma takeover_Err_iff: "takeover r p = Err e \<longleftrightarrow> (\<exists>q. holder r = Some q \<and> e = Already_Taken q)"
  by (auto simp: takeover_def split: option.splits)

interpretation relayers: claimable holder takeover release
  by unfold_locales (auto simp: takeover_Ok_iff takeover_Err_iff release_def)

section \<open>Claims and guards that interleave\<close>

text \<open>
  Each relayer has a lock of its own, so between two iterations of one claim any other thread may claim or
  drop a guard. A task is a call of \<open>claim\<close> between two iterations (what is still to claim, what
  its guard holds), the guard it returned, or a guard that is being dropped; a step runs one task to
  its next lock, or registers an implementation.
\<close>

datatype 'h task =
    Claiming protocol "interface list" "'h list"
  | Holding protocol "'h list"
  | Dropping protocol "'h list"

fun task_protocol :: "'h task \<Rightarrow> protocol" where
  "task_protocol (Claiming p _ _) = p"
| "task_protocol (Holding p _) = p"
| "task_protocol (Dropping p _) = p"

fun task_handles :: "'h task \<Rightarrow> 'h list" where
  "task_handles (Claiming _ _ hs) = hs"
| "task_handles (Holding _ hs) = hs"
| "task_handles (Dropping _ hs) = hs"

type_synonym ('h, 'a) world = "('h \<Rightarrow> 'a relayer) \<times> 'h task list"

inductive takeover_step :: "(interface \<rightharpoonup> 'h) \<Rightarrow> ('h, 'a) world \<Rightarrow> ('h, 'a) world \<Rightarrow> bool"
  for entries :: "interface \<rightharpoonup> 'h" where
  step_begin: "takeover_step entries (st, ts) (st, ts @ [Claiming p is []])"
| step_skip: "entries i = None \<Longrightarrow>
    takeover_step entries (st, xs @ Claiming p (i # is) hs # ys) (st, xs @ Claiming p is hs # ys)"
| step_take: "entries i = Some h \<Longrightarrow> takeover (st h) p = Ok r \<Longrightarrow>
    takeover_step entries (st, xs @ Claiming p (i # is) hs # ys) (st(h := r), xs @ Claiming p is (hs @ [h]) # ys)"
| step_refuse: "entries i = Some h \<Longrightarrow> takeover (st h) p = Err e \<Longrightarrow>
    takeover_step entries (st, xs @ Claiming p (i # is) hs # ys) (st, xs @ Dropping p hs # ys)"
| step_return: "takeover_step entries (st, xs @ Claiming p [] hs # ys) (st, xs @ Holding p hs # ys)"
| step_drop: "takeover_step entries (st, xs @ Holding p hs # ys) (st, xs @ Dropping p hs # ys)"
| step_release: "takeover_step entries (st, xs @ Dropping p (h # hs) # ys) (st(h := release (st h)), xs @ Dropping p hs # ys)"
| step_gone: "takeover_step entries (st, xs @ Dropping p [] # ys) (st, xs @ ys)"
| step_register: "register (st h) q inst declared = Ok r \<Longrightarrow>
    takeover_step entries (st, ts) (st(h := r), ts)"

definition all_handles :: "'h task list \<Rightarrow> 'h list" where
  "all_handles ts = concat (map task_handles ts)"

text \<open>Every handle is held by at most one task, and its relayer says so.\<close>

definition guards_ok :: "('h, 'a) world \<Rightarrow> bool" where
  "guards_ok w \<longleftrightarrow> distinct (all_handles (snd w))
     \<and> (\<forall>t \<in> set (snd w). \<forall>h \<in> set (task_handles t). holder (fst w h) = Some (task_protocol t))
     \<and> (\<forall>h. h \<notin> set (all_handles (snd w)) \<longrightarrow> holder (fst w h) = None)"

lemma all_handles_simps [simp]:
  "all_handles [] = []" "all_handles (t # ts) = task_handles t @ all_handles ts"
  "all_handles (ts @ us) = all_handles ts @ all_handles us"
  by (simp_all add: all_handles_def)

lemma handle_of_task: "t \<in> set ts \<Longrightarrow> h \<in> set (task_handles t) \<Longrightarrow> h \<in> set (all_handles ts)"
  by (auto simp: all_handles_def)

lemma register_holder: "register r p inst declared = Ok r' \<Longrightarrow> holder r' = holder r"
  by (auto simp: register_def split: if_splits)

lemma guards_ok_step: "takeover_step entries w w' \<Longrightarrow> guards_ok w \<Longrightarrow> guards_ok w'"
proof (induction rule: takeover_step.induct)
  case (step_take i h st p r xs "is" hs ys)
  have h: "h \<notin> set (all_handles (xs @ Claiming p (i # is) hs # ys))" "holder r = Some p"
    using step_take handle_of_task [of _ "xs @ Claiming p (i # is) hs # ys" h]
    by (fastforce simp: guards_ok_def all_handles_def takeover_Ok_iff)+
  with step_take.prems show ?case
    by (auto simp: guards_ok_def dest: handle_of_task)
next
  case (step_release st xs p h hs ys)
  then have "h \<notin> set hs" "h \<notin> set (all_handles xs)" "h \<notin> set (all_handles ys)" by (auto simp: guards_ok_def)
  with step_release show ?case
    by (auto simp: guards_ok_def release_def dest: handle_of_task)
next
  case (step_register st h q inst declared r ts)
  then show ?case using register_holder [OF step_register.hyps] by (auto simp: guards_ok_def)
qed (auto simp: guards_ok_def)

lemma guards_ok_reach: "(takeover_step entries)\<^sup>*\<^sup>* w w' \<Longrightarrow> guards_ok w \<Longrightarrow> guards_ok w'"
  by (induction rule: rtranclp_induct) (auto intro: guards_ok_step)

text \<open>A call of \<open>claim\<close> is a run of its own task.\<close>

lemma release_steps:
  "(takeover_step entries)\<^sup>*\<^sup>* (st, ts @ [Dropping p hs]) (release_all release hs st, ts)"
proof (induction hs arbitrary: st)
  case Nil
  show ?case using step_gone [of entries st ts p "[]"] by auto
next
  case (Cons h hs)
  show ?case unfolding release_all.simps
    by (rule converse_rtranclp_into_rtranclp [OF step_release [of entries st ts p h hs "[]"] Cons.IH])
qed

lemma claim_steps:
  "claim_loop takeover release entries p is hs st = (res, st') \<Longrightarrow>
     (takeover_step entries)\<^sup>*\<^sup>* (st, ts @ [Claiming p is hs])
       (st', case res of Ok hs' \<Rightarrow> ts @ [Holding p hs'] | Err _ \<Rightarrow> ts)"
proof (induction "is" arbitrary: hs st)
  case Nil
  then show ?case using step_return [of entries st ts p hs "[]"] by auto
next
  case (Cons i "is")
  show ?case
  proof (cases "entries i")
    case None
    with Cons step_skip [of entries i st ts p "is" hs "[]"] show ?thesis
      by (auto intro: converse_rtranclp_into_rtranclp)
  next
    case (Some h)
    show ?thesis
    proof (cases "takeover (st h) p")
      case (Inl e)
      have "takeover_step entries (st, ts @ [Claiming p (i # is) hs]) (st, ts @ [Dropping p hs])"
        by (rule step_refuse) (use Some Inl in auto)
      moreover have "res = Err (i, e)" "st' = release_all release hs st" using Some Inl Cons.prems by auto
      ultimately show ?thesis
        using release_steps [of entries st ts p hs] by (auto intro: converse_rtranclp_into_rtranclp)
    next
      case (Inr r)
      have s: "takeover_step entries (st, ts @ [Claiming p (i # is) hs]) (st(h := r), ts @ [Claiming p is (hs @ [h])])"
        by (rule step_take) (use Some Inr in auto)
      have "claim_loop takeover release entries p is (hs @ [h]) (st(h := r)) = (res, st')"
        using Some Inr Cons.prems by simp
      from s Cons.IH [OF this] show ?thesis by (rule converse_rtranclp_into_rtranclp)
    qed
  qed
qed

section \<open>Properties\<close>

text \<open>
  A claim is all or nothing. It succeeds exactly when the named interfaces this facade has name different
  relayers, all of them free; then the protocol holds those and only those, and dropping the guard restores every relayer.
  When it fails, no relayer has changed: what was taken before the refusal has been rolled back.
\<close>

theorem claim_all_or_nothing:
  assumes "claim entries p is st = (res, st')"
  shows "(res = Ok (List.map_filter entries is) \<longleftrightarrow> distinct (List.map_filter entries is)
        \<and> (\<forall>h \<in> set (List.map_filter entries is). taken_over_by (st h) = None))
    \<and> (case res of
        Ok hs \<Rightarrow> hs = List.map_filter entries is \<and> guard_release hs st' = st
          \<and> (\<forall>h. taken_over_by (st' h) = (if h \<in> set hs then Some p else taken_over_by (st h)))
      | Err e \<Rightarrow> st' = st)"
  using relayers.claims [OF assms [unfolded claim_def]]
  by (auto simp: taken_over_by_def guard_release_def split: sum.splits)

theorem claim_all_or_nothing_witness:
  "claim [I_Stream \<mapsto> 0 :: nat, I_Audio \<mapsto> 1] Raop [I_Stream, I_Apps, I_Audio]
     ((\<lambda>_. relayer_new [Raop])(1 := \<lparr>priorities = [Raop], registered = Map.empty, holder = Some AirPlay\<rparr>))
   = (Err (I_Audio, Already_Taken AirPlay),
      (\<lambda>_. relayer_new [Raop] :: nat relayer)(1 := \<lparr>priorities = [Raop], registered = Map.empty, holder = Some AirPlay\<rparr>))"
    (is "claim ?m Raop ?is ?st = (_, ?st)")
proof -
  obtain st' where c: "claim ?m Raop ?is ?st = (Err (I_Audio, Already_Taken AirPlay), st')"
    by (simp add: claim_def takeover_def relayer_new_def)
  from claim_all_or_nothing [OF c] have "st' = ?st" by simp
  with c show ?thesis by simp
qed

text \<open>
  C8: a takeover is exclusive, however claims and drops of guards interleave. No two tasks ever hold the same
  relayer, the relayers a guard holds are taken over by its own protocol, so that dropping it never frees
  another one's claim, and a relayer that no task holds is free: nothing stays claimed when the guards are gone.
\<close>

theorem takeover_exclusive:
  assumes "(takeover_step entries)\<^sup>*\<^sup>* (\<lambda>h. relayer_new (prios h), []) (st, ts)"
  shows "distinct (all_handles ts)
    \<and> (\<forall>t \<in> set ts. \<forall>h \<in> set (task_handles t). taken_over_by (st h) = Some (task_protocol t))
    \<and> (\<forall>h. h \<notin> set (all_handles ts) \<longrightarrow> taken_over_by (st h) = None)"
  using guards_ok_reach [OF assms] by (simp add: guards_ok_def taken_over_by_def relayer_new_def)

theorem takeover_exclusive_witness:
  "taken_over_by (((\<lambda>_. relayer_new [Raop] :: nat relayer)(7 := \<lparr>priorities = [Raop], registered = Map.empty, holder = Some Raop\<rparr>)) (7 :: nat)) = Some Raop"
proof -
  let ?st = "\<lambda>_ :: nat. relayer_new [Raop] :: nat relayer"
  let ?r = "\<lparr>priorities = [Raop], registered = Map.empty, holder = Some Raop\<rparr> :: nat relayer"
  have "takeover_step [I_Audio \<mapsto> 7] (?st, []) (?st, [] @ [Claiming Raop [I_Audio] []])" by (rule step_begin)
  moreover have "takeover_step [I_Audio \<mapsto> 7] (?st, [] @ Claiming Raop [I_Audio] [] # []) (?st(7 := ?r), [] @ Claiming Raop [] ([] @ [7]) # [])"
    by (rule step_take) (simp_all add: takeover_def relayer_new_def)
  ultimately have "(takeover_step [I_Audio \<mapsto> 7])\<^sup>*\<^sup>* (?st, []) (?st(7 := ?r), [Claiming Raop [] [7]])" by auto
  from takeover_exclusive [OF this] show ?thesis by simp
qed

text \<open>
  The interleaving model refines the code's loop. A call of \<open>claim\<close>, from its first iteration to the guard
  or to the rolled back error, is a run of the steps of its own task, so the loop inherits what all runs satisfy.
\<close>

theorem claim_is_a_run:
  assumes "claim entries p is st = (res, st')"
  shows "(takeover_step entries)\<^sup>*\<^sup>* (st, ts) (st', case res of Ok hs \<Rightarrow> ts @ [Holding p hs] | Err _ \<Rightarrow> ts)"
  by (rule converse_rtranclp_into_rtranclp [OF step_begin claim_steps [OF assms [unfolded claim_def]]])

theorem claim_is_a_run_witness:
  "(takeover_step [I_Audio \<mapsto> 7])\<^sup>*\<^sup>* (\<lambda>_ :: nat. relayer_new [Raop] :: nat relayer, [])
     ((\<lambda>_. relayer_new [Raop])(7 := \<lparr>priorities = [Raop], registered = Map.empty, holder = Some Raop\<rparr>), [Holding Raop [7]])"
proof -
  have "claim [I_Audio \<mapsto> 7] Raop [I_Audio] (\<lambda>_ :: nat. relayer_new [Raop] :: nat relayer)
     = (Ok [7], (\<lambda>_. relayer_new [Raop])(7 := \<lparr>priorities = [Raop], registered = Map.empty, holder = Some Raop\<rparr>))"
    by (simp add: claim_def takeover_def relayer_new_def)
  from claim_is_a_run [OF this, of "[]"] show ?thesis by simp
qed

end
