(* ===== verification/Device_Info.thy ===== *)
theory Device_Info
  imports Prelude
begin

text \<open>
  What the program knows of a device (\<open>crates/pyatv-core/src/device_info/mod.rs\<close>,
  \<open>lookup.rs\<close> and the enums of \<open>consts.rs\<close>): the record of facts, the merge of the
  findings of several protocols, the derived accessors and the lookup tables. A string is its UTF-8
  bytes; the tables and the scanners only look at ASCII characters, which no other character's bytes contain.
\<close>

section \<open>Models and operating systems\<close>

datatype operating_system = OS_Unknown | OS_Legacy | OS_TvOs | OS_AirPortOs | OS_MacOs

datatype device_model =
    DM_Unknown | DM_Gen2 | DM_Gen3 | DM_Gen4 | DM_Gen4K | DM_HomePod | DM_HomePodMini
  | DM_AirPortExpress | DM_AirPortExpressGen2 | DM_AppleTv4KGen2 | DM_Music | DM_AppleTv4KGen3 | DM_HomePodGen2 | DM_AppleTvGen1

fun model_name :: "device_model \<Rightarrow> bytes" where
  "model_name DM_AppleTvGen1 = lit ''Apple TV 1''"
| "model_name DM_Gen2 = lit ''Apple TV 2''"
| "model_name DM_Gen3 = lit ''Apple TV 3''"
| "model_name DM_Gen4 = lit ''Apple TV 4''"
| "model_name DM_Gen4K = lit ''Apple TV 4K''"
| "model_name DM_HomePod = lit ''HomePod''"
| "model_name DM_HomePodMini = lit ''HomePod Mini''"
| "model_name DM_AirPortExpress = lit ''AirPort Express (gen 1)''"
| "model_name DM_AirPortExpressGen2 = lit ''AirPort Express (gen 2)''"
| "model_name DM_AppleTv4KGen2 = lit ''Apple TV 4K (gen 2)''"
| "model_name DM_Music = lit ''Music/iTunes''"
| "model_name DM_AppleTv4KGen3 = lit ''Apple TV 4K (gen 3)''"
| "model_name DM_HomePodGen2 = lit ''HomePod (gen 2)''"
| "model_name DM_Unknown = lit ''Unknown''"

section \<open>Lookup tables\<close>

definition unwrap_or_default :: "bytes option \<Rightarrow> bytes" where
  "unwrap_or_default s = (case s of None \<Rightarrow> [] | Some t \<Rightarrow> t)"

definition MODEL_ROWS :: "(bytes \<times> device_model) list" where
  "MODEL_ROWS =
     [(lit ''AirPort4,107'', DM_AirPortExpress), (lit ''AirPort10,115'', DM_AirPortExpressGen2),
      (lit ''AppleTV1,1'', DM_AppleTvGen1), (lit ''AppleTV2,1'', DM_Gen2),
      (lit ''AppleTV3,1'', DM_Gen3), (lit ''AppleTV3,2'', DM_Gen3), (lit ''AppleTV5,3'', DM_Gen4),
      (lit ''AppleTV6,2'', DM_Gen4K), (lit ''AppleTV11,1'', DM_AppleTv4KGen2),
      (lit ''AppleTV14,1'', DM_AppleTv4KGen3), (lit ''AudioAccessory1,1'', DM_HomePod),
      (lit ''AudioAccessory1,2'', DM_HomePod), (lit ''AudioAccessory5,1'', DM_HomePodMini),
      (lit ''AudioAccessorySingle5,1'', DM_HomePodMini),
      (lit ''AudioAccessory6,1'', DM_HomePodGen2)]"

definition lookup_model :: "bytes option \<Rightarrow> device_model" where
  "lookup_model identifier =
     (case map_of MODEL_ROWS (unwrap_or_default identifier) of Some m \<Rightarrow> m | None \<Rightarrow> DM_Unknown)"

definition INTERNAL_NAME_ROWS :: "(bytes \<times> device_model) list" where
  "INTERNAL_NAME_ROWS =
     [(lit ''K66AP'', DM_Gen2), (lit ''J33AP'', DM_Gen3), (lit ''J33IAP'', DM_Gen3),
      (lit ''J42dAP'', DM_Gen4), (lit ''J105aAP'', DM_Gen4K), (lit ''J305AP'', DM_AppleTv4KGen2),
      (lit ''J255AP'', DM_AppleTv4KGen3)]"

definition lookup_internal_name :: "bytes option \<Rightarrow> device_model" where
  "lookup_internal_name name =
     (case map_of INTERNAL_NAME_ROWS (unwrap_or_default name) of Some m \<Rightarrow> m | None \<Rightarrow> DM_Unknown)"

definition VERSION_ROWS :: "(bytes \<times> bytes) list" where
  "VERSION_ROWS =
     [(lit ''17J586'', lit ''13.0''), (lit ''17K82'', lit ''13.2''),
      (lit ''17K449'', lit ''13.3''), (lit ''17K795'', lit ''13.3.1''),
      (lit ''17L256'', lit ''13.4''), (lit ''17L562'', lit ''13.4.5''),
      (lit ''17L570'', lit ''13.4.6''), (lit ''17M61'', lit ''13.4.8''),
      (lit ''18J386'', lit ''14.0''), (lit ''18J400'', lit ''14.0.1''),
      (lit ''18J411'', lit ''14.0.2''), (lit ''18K57'', lit ''14.2''),
      (lit ''18K561'', lit ''14.3''), (lit ''18K802'', lit ''14.4''),
      (lit ''18L204'', lit ''14.5''), (lit ''18L569'', lit ''14.6''),
      (lit ''18M60'', lit ''14.7''), (lit ''19J346'', lit ''15.0''),
      (lit ''19J572'', lit ''15.1''), (lit ''19J581'', lit ''15.1.1''),
      (lit ''19K53'', lit ''15.2''), (lit ''19K547'', lit ''15.3''),
      (lit ''19L440'', lit ''15.4''), (lit ''19L452'', lit ''15.4.1''),
      (lit ''19L570'', lit ''15.5''), (lit ''19L580'', lit ''15.5.1''),
      (lit ''19M65'', lit ''15.6''), (lit ''20J373'', lit ''16.0''), (lit ''20K71'', lit ''16.1''),
      (lit ''20K80'', lit ''16.1.1''), (lit ''20K362'', lit ''16.2''),
      (lit ''20K650'', lit ''16.3''), (lit ''20K661'', lit ''16.3.1''),
      (lit ''20K672'', lit ''16.3.2''), (lit ''20K680'', lit ''16.3.3''),
      (lit ''20L497'', lit ''16.4''), (lit ''20L498'', lit ''16.4.1''),
      (lit ''20L563'', lit ''16.5''), (lit ''20M73'', lit ''16.6''),
      (lit ''22J354'', lit ''17.0''), (lit ''21K69'', lit ''17.1''),
      (lit ''21K365'', lit ''17.2''), (lit ''21K646'', lit ''17.3''),
      (lit ''21L227'', lit ''17.4''), (lit ''21L569'', lit ''17.5''),
      (lit ''21L580'', lit ''17.5.1''), (lit ''21M71'', lit ''17.6''),
      (lit ''21M80'', lit ''17.6.1''), (lit ''22J357'', lit ''18.0''),
      (lit ''22J580'', lit ''18.1'')]"

definition version_from_table :: "bytes \<Rightarrow> bytes option" where
  "version_from_table build = map_of VERSION_ROWS build"

definition is_ascii_uppercase :: "u8 \<Rightarrow> bool" where
  "is_ascii_uppercase b \<longleftrightarrow> 65 \<le> b \<and> b \<le> 90"

text \<open>\<open>str::parse::<i32>\<close> of a run of digits: it fails above \<open>i32::MAX\<close>.\<close>

definition parse_i32 :: "bytes \<Rightarrow> int option" where
  "parse_i32 ds = (if digits_value ds < 2 ^ 31 then Some (int (digits_value ds)) else None)"

definition lookup_version :: "bytes option \<Rightarrow> bytes option" where
  "lookup_version build =
     (case build of
        None \<Rightarrow> None
      | Some b \<Rightarrow>
          if b = [] then None
          else case version_from_table b of
            Some v \<Rightarrow> Some v
          | None \<Rightarrow>
              let digits = takeWhile is_digit b; rest = drop (length digits) b in
              if digits = [] \<or> \<not> (rest \<noteq> [] \<and> is_ascii_uppercase (hd rest)) then None
              else case parse_i32 digits of
                None \<Rightarrow> None
              | Some base \<Rightarrow> Some (decimal_int (base - 4) @ lit ''.x''))"

definition strip_prefix :: "bytes \<Rightarrow> bytes \<Rightarrow> bytes option" where
  "strip_prefix s p = (if take (length p) s = p then Some (drop (length p) s) else None)"

definition strip_ascii_digits :: "bytes \<Rightarrow> bytes option" where
  "strip_ascii_digits s =
     (let digits = takeWhile is_digit s in if digits = [] then None else Some (drop (length digits) s))"

definition matches_hardware_identifier :: "bytes \<Rightarrow> bytes \<Rightarrow> bool \<Rightarrow> bool" where
  "matches_hardware_identifier s p anchored_end =
     (case strip_prefix s p of
        None \<Rightarrow> False
      | Some rest \<Rightarrow> (case strip_ascii_digits rest of
          None \<Rightarrow> False
        | Some rest \<Rightarrow> (case strip_prefix rest (lit '','') of
            None \<Rightarrow> False
          | Some rest \<Rightarrow> (case strip_ascii_digits rest of
              None \<Rightarrow> False
            | Some rest \<Rightarrow> \<not> anchored_end \<or> rest = []))))"

definition MAC_PREFIXES :: "bytes list" where
  "MAC_PREFIXES = [lit ''MacBookAir'', lit ''iMac'', lit ''Macmini'', lit ''MacBookPro'', lit ''Mac'', lit ''MacPro'']"

definition lookup_os_from_identifier :: "bytes \<Rightarrow> operating_system" where
  "lookup_os_from_identifier identifier =
     (if list_ex (\<lambda>p. matches_hardware_identifier identifier p False) MAC_PREFIXES then OS_MacOs else OS_Unknown)"

fun lookup_os_from_model :: "device_model \<Rightarrow> operating_system" where
  "lookup_os_from_model DM_AirPortExpress = OS_AirPortOs"
| "lookup_os_from_model DM_AirPortExpressGen2 = OS_AirPortOs"
| "lookup_os_from_model DM_HomePod = OS_TvOs"
| "lookup_os_from_model DM_HomePodMini = OS_TvOs"
| "lookup_os_from_model DM_HomePodGen2 = OS_TvOs"
| "lookup_os_from_model DM_AppleTvGen1 = OS_Legacy"
| "lookup_os_from_model DM_Gen2 = OS_Legacy"
| "lookup_os_from_model DM_Gen3 = OS_Legacy"
| "lookup_os_from_model DM_Gen4 = OS_TvOs"
| "lookup_os_from_model DM_Gen4K = OS_TvOs"
| "lookup_os_from_model DM_AppleTv4KGen2 = OS_TvOs"
| "lookup_os_from_model DM_AppleTv4KGen3 = OS_TvOs"
| "lookup_os_from_model DM_Unknown = OS_Unknown"
| "lookup_os_from_model DM_Music = OS_Unknown"

section \<open>The facts of a device\<close>

record device_info =
  di_os :: operating_system
  di_version :: "bytes option"
  di_build :: "bytes option"
  di_model :: device_model
  di_raw_model :: "bytes option"
  di_mac :: "bytes option"
  di_output_device :: "bytes option"

definition device_info_default :: device_info where
  "device_info_default =
     \<lparr>di_os = OS_Unknown, di_version = None, di_build = None, di_model = DM_Unknown, di_raw_model = None,
      di_mac = None, di_output_device = None\<rparr>"

datatype device_info_value = DV_OperatingSystem operating_system | DV_Model device_model | DV_Text bytes

fun value_type_name :: "device_info_value \<Rightarrow> bytes" where
  "value_type_name (DV_OperatingSystem _) = lit ''OperatingSystem''"
| "value_type_name (DV_Model _) = lit ''DeviceModel''"
| "value_type_name (DV_Text _) = lit ''String''"

record type_mismatch =
  tm_field :: bytes
  tm_expected :: bytes
  tm_actual :: bytes

definition KEY_OS :: bytes where "KEY_OS = lit ''os''"
definition KEY_VERSION :: bytes where "KEY_VERSION = lit ''version''"
definition KEY_BUILD_NUMBER :: bytes where "KEY_BUILD_NUMBER = lit ''build_number''"
definition KEY_MODEL :: bytes where "KEY_MODEL = lit ''model''"
definition KEY_RAW_MODEL :: bytes where "KEY_RAW_MODEL = lit ''raw_model''"
definition KEY_MAC :: bytes where "KEY_MAC = lit ''mac''"
definition KEY_OUTPUT_DEVICE :: bytes where "KEY_OUTPUT_DEVICE = lit ''airplay_id''"

definition text_property :: "(bytes \<rightharpoonup> device_info_value) \<Rightarrow> bytes \<Rightarrow> type_mismatch + bytes option" where
  "text_property props field =
     (case props field of
        None \<Rightarrow> Ok None
      | Some (DV_Text t) \<Rightarrow> Ok (Some t)
      | Some v \<Rightarrow> Err \<lparr>tm_field = field, tm_expected = lit ''String'', tm_actual = value_type_name v\<rparr>)"

definition os_property :: "(bytes \<rightharpoonup> device_info_value) \<Rightarrow> type_mismatch + operating_system" where
  "os_property props =
     (case props KEY_OS of
        None \<Rightarrow> Ok OS_Unknown
      | Some (DV_OperatingSystem os) \<Rightarrow> Ok os
      | Some v \<Rightarrow> Err \<lparr>tm_field = KEY_OS, tm_expected = lit ''OperatingSystem'', tm_actual = value_type_name v\<rparr>)"

definition model_property :: "(bytes \<rightharpoonup> device_info_value) \<Rightarrow> type_mismatch + device_model" where
  "model_property props =
     (case props KEY_MODEL of
        None \<Rightarrow> Ok DM_Unknown
      | Some (DV_Model m) \<Rightarrow> Ok m
      | Some v \<Rightarrow> Err \<lparr>tm_field = KEY_MODEL, tm_expected = lit ''DeviceModel'', tm_actual = value_type_name v\<rparr>)"

definition from_properties :: "(bytes \<rightharpoonup> device_info_value) \<Rightarrow> type_mismatch + device_info" where
  "from_properties props =
     rbind (os_property props) (\<lambda>os.
     rbind (model_property props) (\<lambda>model.
     rbind (text_property props KEY_VERSION) (\<lambda>version.
     rbind (text_property props KEY_BUILD_NUMBER) (\<lambda>build.
     rbind (text_property props KEY_RAW_MODEL) (\<lambda>raw_model.
     rbind (text_property props KEY_MAC) (\<lambda>mac.
     rbind (text_property props KEY_OUTPUT_DEVICE) (\<lambda>output_device.
     Ok \<lparr>di_os = os, di_version = version, di_build = build, di_model = model, di_raw_model = raw_model,
         di_mac = mac, di_output_device = output_device\<rparr>)))))))"

text \<open>\<open>fill!\<close>: a field already set is kept.\<close>

definition fill :: "'a option \<Rightarrow> 'a option \<Rightarrow> 'a option" where
  "fill mine other = (if mine = None then other else mine)"

definition merge_from :: "device_info \<Rightarrow> device_info \<Rightarrow> device_info" where
  "merge_from d other =
     \<lparr>di_os = (if di_os d = OS_Unknown then di_os other else di_os d),
      di_version = fill (di_version d) (di_version other),
      di_build = fill (di_build d) (di_build other),
      di_model = (if di_model d = DM_Unknown then di_model other else di_model d),
      di_raw_model = fill (di_raw_model d) (di_raw_model other),
      di_mac = fill (di_mac d) (di_mac other),
      di_output_device = fill (di_output_device d) (di_output_device other)\<rparr>"

section \<open>Accessors\<close>

fun os_of_model :: "device_model \<Rightarrow> operating_system" where
  "os_of_model DM_AirPortExpress = OS_AirPortOs"
| "os_of_model DM_AirPortExpressGen2 = OS_AirPortOs"
| "os_of_model DM_HomePod = OS_TvOs"
| "os_of_model DM_HomePodMini = OS_TvOs"
| "os_of_model DM_Gen2 = OS_TvOs"
| "os_of_model DM_Gen3 = OS_TvOs"
| "os_of_model DM_Gen4 = OS_TvOs"
| "os_of_model DM_Gen4K = OS_TvOs"
| "os_of_model DM_AppleTv4KGen2 = OS_TvOs"
| "os_of_model DM_AppleTv4KGen3 = OS_TvOs"
| "os_of_model DM_Unknown = OS_Unknown"
| "os_of_model DM_HomePodGen2 = OS_Unknown"
| "os_of_model DM_AppleTvGen1 = OS_Unknown"
| "os_of_model DM_Music = OS_Unknown"

definition info_os :: "device_info \<Rightarrow> operating_system" where
  "info_os d = (if di_os d \<noteq> OS_Unknown then di_os d else os_of_model (di_model d))"

definition info_version :: "device_info \<Rightarrow> bytes option" where
  "info_version d =
     (case di_version d of
        Some v \<Rightarrow> if v \<noteq> [] then Some v else lookup_version (di_build d)
      | None \<Rightarrow> lookup_version (di_build d))"

definition info_model_str :: "device_info \<Rightarrow> bytes" where
  "info_model_str d =
     (case di_raw_model d of
        Some raw \<Rightarrow> if di_model d = DM_Unknown then raw else model_name (di_model d)
      | None \<Rightarrow> model_name (di_model d))"

fun os_display :: "operating_system \<Rightarrow> bytes" where
  "os_display OS_Legacy = lit ''ATV SW''"
| "os_display OS_TvOs = lit ''tvOS''"
| "os_display OS_AirPortOs = lit ''AirPortOS''"
| "os_display OS_MacOs = lit ''MacOS''"
| "os_display OS_Unknown = lit ''Unknown OS''"

definition show_device_info :: "device_info \<Rightarrow> bytes" where
  "show_device_info d =
     info_model_str d @ lit '', '' @ os_display (info_os d)
     @ (case info_version d of None \<Rightarrow> [] | Some v \<Rightarrow> lit '' '' @ v)
     @ (case di_build d of None \<Rightarrow> [] | Some b \<Rightarrow> lit '' build '' @ b)"

section \<open>Lemmas\<close>

lemma takeWhile_digits: "list_all is_digit ds \<Longrightarrow> \<not> is_digit u \<Longrightarrow> takeWhile is_digit (ds @ u # rest) = ds"
  by (induction ds) auto

lemma takeWhile_digits_end: "list_all is_digit ds \<Longrightarrow> takeWhile is_digit ds = ds"
  by (induction ds) auto

lemma takeWhile_all: "list_all P (takeWhile P xs)"
  by (induction xs) auto

lemma drop_takeWhile: "drop (length (takeWhile P xs)) xs = dropWhile P xs"
  by (induction xs) auto

lemma uppercase_not_digit: "is_ascii_uppercase u \<Longrightarrow> \<not> is_digit u"
  by (auto simp: is_ascii_uppercase_def is_digit_def word_le_nat_alt)

lemma strip_prefix_Some: "strip_prefix s p = Some rest \<longleftrightarrow> s = p @ rest"
  by (auto simp: strip_prefix_def) (metis append_take_drop_id)

text \<open>The scanner is greedy: what it leaves does not start with a digit.\<close>

lemma strip_digits_Some:
  "strip_ascii_digits s = Some rest \<longleftrightarrow>
     (\<exists>ds. s = ds @ rest \<and> ds \<noteq> [] \<and> list_all is_digit ds \<and> (rest \<noteq> [] \<longrightarrow> \<not> is_digit (hd rest)))"
proof
  assume "strip_ascii_digits s = Some rest"
  then have "takeWhile is_digit s \<noteq> []" "rest = dropWhile is_digit s"
    by (auto simp: strip_ascii_digits_def Let_def drop_takeWhile split: if_splits)
  then show "\<exists>ds. s = ds @ rest \<and> ds \<noteq> [] \<and> list_all is_digit ds \<and> (rest \<noteq> [] \<longrightarrow> \<not> is_digit (hd rest))"
    by (intro exI [of _ "takeWhile is_digit s"]) (auto simp: takeWhile_all hd_dropWhile)
next
  assume "\<exists>ds. s = ds @ rest \<and> ds \<noteq> [] \<and> list_all is_digit ds \<and> (rest \<noteq> [] \<longrightarrow> \<not> is_digit (hd rest))"
  then obtain ds where "s = ds @ rest" "ds \<noteq> []" "list_all is_digit ds" "rest \<noteq> [] \<longrightarrow> \<not> is_digit (hd rest)" by blast
  moreover from this have "takeWhile is_digit s = ds"
    by (cases rest) (auto simp: takeWhile_digits takeWhile_digits_end)
  ultimately show "strip_ascii_digits s = Some rest" by (simp add: strip_ascii_digits_def Let_def)
qed

lemma comma_not_digit: "\<not> is_digit 44"
  by (simp add: is_digit_def)

text \<open>The first value that is known.\<close>

definition first_known :: "'a \<Rightarrow> 'a list \<Rightarrow> 'a" where
  "first_known unknown xs = (case find (\<lambda>x. x \<noteq> unknown) xs of Some x \<Rightarrow> x | None \<Rightarrow> unknown)"

lemma first_known_simps [simp]:
  "first_known u [] = u" "first_known u (x # xs) = (if x = u then first_known u xs else x)"
  by (auto simp: first_known_def)

lemma first_known_None: "first_known None (x # xs) = fill x (first_known None xs)"
  by (cases x) (simp_all add: fill_def)

lemma fill_assoc: "fill (fill a b) c = fill a (fill b c)"
  by (cases a) (simp_all add: fill_def)

lemma keep_assoc:
  "(if (if a = u then b else a) = u then c else if a = u then b else a) = (if a = u then if b = u then c else b else a)"
  by simp

lemma merge_assoc: "merge_from (merge_from a b) c = merge_from a (merge_from b c)"
  by (simp only: merge_from_def device_info.select_convs fill_assoc keep_assoc)

lemma merge_default: "merge_from device_info_default d = d" "merge_from d device_info_default = d"
  by (simp_all add: merge_from_def fill_def device_info_default_def)

lemma merge_fold: "foldl merge_from d infos = merge_from d (foldl merge_from device_info_default infos)"
proof (induction infos arbitrary: d)
  case (Cons x infos)
  then show ?case by (metis (no_types, lifting) foldl_Cons merge_assoc merge_default(1))
qed (simp add: merge_default)

section \<open>Properties\<close>

text \<open>
  The first writer wins. Folding the findings of the protocols into a device gives, field by field, the first
  value any of them knows, and the unknown value only when none does; in particular no later protocol overwrites a fact.
\<close>

theorem merge_first_known:
  "foldl merge_from device_info_default infos =
     \<lparr>di_os = first_known OS_Unknown (map di_os infos),
      di_version = first_known None (map di_version infos),
      di_build = first_known None (map di_build infos),
      di_model = first_known DM_Unknown (map di_model infos),
      di_raw_model = first_known None (map di_raw_model infos),
      di_mac = first_known None (map di_mac infos),
      di_output_device = first_known None (map di_output_device infos)\<rparr>"
proof (induction infos)
  case (Cons x infos)
  have "foldl merge_from device_info_default (x # infos) = merge_from x (foldl merge_from device_info_default infos)"
    using merge_fold [of x infos] by (simp add: merge_default)
  then show ?case by (simp only: Cons.IH) (simp add: merge_from_def first_known_None [symmetric])
qed (simp add: device_info_default_def)

text \<open>
  The identifier matcher is its regular expression. It accepts exactly the strings the prefix followed by
  digits, a comma and digits starts, and with the end anchored exactly the strings of that form.
\<close>

theorem hardware_identifier_regex:
  "matches_hardware_identifier s p anchored \<longleftrightarrow>
     (\<exists>ds es rest. s = p @ ds @ [44] @ es @ rest \<and> ds \<noteq> [] \<and> list_all is_digit ds \<and> es \<noteq> [] \<and> list_all is_digit es
        \<and> (anchored \<longrightarrow> rest = []))" (is "_ \<longleftrightarrow> ?R")
proof
  assume "matches_hardware_identifier s p anchored"
  then obtain a b c d where "strip_prefix s p = Some a" "strip_ascii_digits a = Some b"
    "strip_prefix b [44] = Some c" "strip_ascii_digits c = Some d" "anchored \<longrightarrow> d = []"
    by (auto simp: matches_hardware_identifier_def split: option.splits)
  then show ?R by (auto simp: strip_prefix_Some strip_digits_Some)
next
  assume ?R
  then obtain ds es rest where s: "s = p @ ds @ [44] @ es @ rest" and ds: "ds \<noteq> []" "list_all is_digit ds"
    and es: "es \<noteq> []" "list_all is_digit es" and r: "anchored \<longrightarrow> rest = []" by blast
  have "strip_prefix s p = Some (ds @ 44 # es @ rest)" by (simp add: strip_prefix_Some s)
  moreover have "strip_ascii_digits (ds @ 44 # es @ rest) = Some (44 # es @ rest)"
    using ds comma_not_digit by (auto simp: strip_digits_Some)
  moreover have "strip_prefix (44 # es @ rest) [44] = Some (es @ rest)" by (simp add: strip_prefix_Some)
  moreover have "strip_ascii_digits (es @ rest) = Some (dropWhile is_digit rest)"
    using es by (auto simp: strip_digits_Some hd_dropWhile intro!: exI [of _ "es @ takeWhile is_digit rest"] takeWhile_all)
  ultimately show "matches_hardware_identifier s p anchored" using r by (simp add: matches_hardware_identifier_def)
qed

theorem hardware_identifier_regex_witness:
  "matches_hardware_identifier (lit ''AppleTV11,1'') (lit ''AppleTV'') True"
proof -
  have "lit ''AppleTV11,1'' = lit ''AppleTV'' @ [49, 49] @ [44] @ [49] @ []" by (simp add: lit_def)
  then show ?thesis
    using hardware_identifier_regex [of "lit ''AppleTV11,1''" "lit ''AppleTV''" True]
    by (intro iffD2 [OF hardware_identifier_regex]) (rule exI [of _ "[49, 49]"], rule exI [of _ "[49]"], simp add: is_digit_def)
qed

text \<open>
  The version of a build number. It is the row of the table, or, for a build that starts with a number below
  \<open>2^31\<close> and an upper-case letter, that number less four followed by \<open>.x\<close>, and nothing for any other build.
\<close>

theorem lookup_version_iff:
  "lookup_version (Some b) = Some v \<longleftrightarrow>
     version_from_table b = Some v
     \<or> version_from_table b = None
       \<and> (\<exists>ds u rest. b = ds @ u # rest \<and> ds \<noteq> [] \<and> list_all is_digit ds \<and> is_ascii_uppercase u
            \<and> digits_value ds < 2 ^ 31 \<and> v = decimal_int (int (digits_value ds) - 4) @ lit ''.x'')" (is "_ \<longleftrightarrow> _ \<or> _ \<and> ?R")
proof (cases "version_from_table b")
  case (Some w)
  moreover from this have "b \<noteq> []" by (auto simp: version_from_table_def VERSION_ROWS_def)
  ultimately show ?thesis by (simp add: lookup_version_def)
next
  case None
  have "lookup_version (Some b) = Some v \<longleftrightarrow> ?R"
  proof
    assume l: "lookup_version (Some b) = Some v"
    then obtain u rest where "drop (length (takeWhile is_digit b)) b = u # rest" "is_ascii_uppercase u"
      using None by (cases "drop (length (takeWhile is_digit b)) b") (auto simp: lookup_version_def Let_def split: if_splits)
    moreover from this have "b = takeWhile is_digit b @ u # rest" by (metis drop_takeWhile takeWhile_dropWhile_id)
    ultimately show ?R using l None
      by (intro exI [of _ "takeWhile is_digit b"] exI [of _ u] exI [of _ rest])
        (auto simp: lookup_version_def Let_def takeWhile_all parse_i32_def split: if_splits option.splits)
  next
    assume ?R
    then obtain ds u rest where b: "b = ds @ u # rest" "ds \<noteq> []" "list_all is_digit ds" "is_ascii_uppercase u"
      "digits_value ds < 2 ^ 31" "v = decimal_int (int (digits_value ds) - 4) @ lit ''.x''" by blast
    then have "takeWhile is_digit b = ds" by (simp add: takeWhile_digits uppercase_not_digit)
    with b None show "lookup_version (Some b) = Some v" by (simp add: lookup_version_def Let_def parse_i32_def)
  qed
  with None show ?thesis by simp
qed

text \<open>
  The two guesses of an operating system. The accessor of the device and the table of the models disagree on exactly
  four models: the second and third generation Apple TV, the first generation, and the second HomePod.
\<close>

theorem os_guesses_disagree:
  "lookup_os_from_model m \<noteq> info_os (device_info_default\<lparr>di_model := m\<rparr>)
     \<longleftrightarrow> m \<in> {DM_Gen2, DM_Gen3, DM_AppleTvGen1, DM_HomePodGen2}"
  by (cases m) (simp_all add: info_os_def device_info_default_def)

end
