(* ===== verification/Facade.thy ===== *)
theory Facade
  imports Takeover Device_Info
begin

text \<open>
  The facade that presents several protocol connections as one device
  (\<open>crates/pyatv-core/src/facade.rs\<close>, \<open>facade/features.rs\<close>, \<open>facade/setup.rs\<close>). The ten
  relayers are one function of the interface, and the ten optional handles of a \<open>SetupData\<close> as well;
  a handle of the takeover registry is the interface whose relayer it is. What a protocol hands over
  (an implementation, its feature reporting, its teardown hook) is an opaque value; asking a
  feature reporter is the argument \<open>ask\<close>, the answer of a teardown the argument \<open>closing\<close>.
  The listeners and the wrappers the facade keeps have theories of their own.
\<close>

definition DEFAULT_PRIORITIES :: "protocol list" where
  "DEFAULT_PRIORITIES = [Mrp, Dmap, Companion, AirPlay, Raop]"

definition POWER_PRIORITIES :: "protocol list" where
  "POWER_PRIORITIES = [Companion, Mrp, Dmap, AirPlay, Raop]"

section \<open>Which protocol reports a feature\<close>

record 'i facade_features =
  ff_owners :: "feature_name \<rightharpoonup> protocol \<times> 'i"
  ff_push_updates :: bool

definition facade_features_default :: "'i facade_features" where
  "facade_features_default = \<lparr>ff_owners = Map.empty, ff_push_updates = False\<rparr>"

definition priority_rank :: "protocol \<Rightarrow> nat" where
  "priority_rank p = (if p \<in> set DEFAULT_PRIORITIES then position DEFAULT_PRIORITIES p else usize_max)"

definition has_higher_priority :: "protocol \<Rightarrow> protocol \<Rightarrow> bool" where
  "has_higher_priority p q \<longleftrightarrow> priority_rank p < priority_rank q"

definition map_feature :: "protocol \<Rightarrow> 'i \<Rightarrow> (feature_name \<rightharpoonup> protocol \<times> 'i) \<Rightarrow> feature_name \<Rightarrow> (feature_name \<rightharpoonup> protocol \<times> 'i)" where
  "map_feature p inst owners f =
     (let replace = (case owners f of None \<Rightarrow> True | Some (incumbent, _) \<Rightarrow> has_higher_priority p incumbent) in
      if replace then owners(f \<mapsto> (p, inst)) else owners)"

text \<open>A \<open>BTreeSet\<close> iterates in the order of the enum.\<close>

definition add_mapping :: "'i facade_features \<Rightarrow> protocol \<Rightarrow> feature_name set \<Rightarrow> 'i \<Rightarrow> 'i facade_features" where
  "add_mapping s p features inst =
     s\<lparr>ff_owners := foldl (map_feature p inst) (ff_owners s) (filter (\<lambda>f. f \<in> features) FEATURE_ALL)\<rparr>"

definition set_push_updates :: "'i facade_features \<Rightarrow> bool \<Rightarrow> 'i facade_features" where
  "set_push_updates s available = s\<lparr>ff_push_updates := available\<rparr>"

definition feature_owner :: "'i facade_features \<Rightarrow> feature_name \<Rightarrow> protocol option" where
  "feature_owner s f = map_option fst (ff_owners s f)"

definition get_feature :: "('i \<Rightarrow> feature_name \<Rightarrow> feature_info) \<Rightarrow> 'i facade_features \<Rightarrow> feature_name \<Rightarrow> feature_info" where
  "get_feature ask s f =
     (if f = Fn_PushUpdates \<and> ff_push_updates s then info_available
      else case ff_owners s f of None \<Rightarrow> info_unsupported | Some (_, inst) \<Rightarrow> ask inst f)"

definition all_features :: "('i \<Rightarrow> feature_name \<Rightarrow> feature_info) \<Rightarrow> 'i facade_features \<Rightarrow> bool \<Rightarrow> (feature_name \<times> feature_info) list" where
  "all_features ask s include_unsupported =
     filter (\<lambda>(_, info). include_unsupported \<or> fi_state info \<noteq> Unsupported)
       (map (\<lambda>f. (f, get_feature ask s f)) FEATURE_ALL)"

section \<open>The facade\<close>

record ('a, 'i, 'c) setup_data =
  sd_protocol :: "protocol option"
  sd_features :: "feature_name set"
  sd_features_impl :: "'i option"
  sd_handle :: "'c option"
  sd_instance :: "interface \<Rightarrow> 'a option"
  sd_device_info :: device_info

record ('a, 'i, 'c) facade =
  fa_relayers :: "interface \<Rightarrow> 'a relayer"
  fa_features :: "'i facade_features"
  fa_takeover :: "interface \<rightharpoonup> interface"
  fa_handles :: "(protocol \<times> 'c) list"
  fa_device_info :: device_info

definition INTERFACES :: "interface list" where
  "INTERFACES =
     [I_RemoteControl, I_Metadata, I_PushUpdater, I_Stream, I_Power, I_Apps, I_Audio, I_Keyboard, I_TouchGestures, I_UserAccounts]"

definition priorities_of :: "interface \<Rightarrow> protocol list" where
  "priorities_of i = (if i = I_Power then POWER_PRIORITIES else DEFAULT_PRIORITIES)"

definition facade_new :: "('a, 'i, 'c) facade" where
  "facade_new =
     \<lparr>fa_relayers = (\<lambda>i. relayer_new (priorities_of i)),
      fa_features = facade_features_default,
      fa_takeover = foldl (\<lambda>m i. registry_insert m i i) Map.empty INTERFACES,
      fa_handles = [],
      fa_device_info = device_info_default\<rparr>"

text \<open>The macro \<open>register!\<close>: a refused registration is logged and leaves the relayer as it is.\<close>

definition register_capability ::
  "protocol \<Rightarrow> ('a, 'i, 'c) setup_data \<Rightarrow> (interface \<Rightarrow> 'a relayer) \<Rightarrow> interface \<Rightarrow> (interface \<Rightarrow> 'a relayer)" where
  "register_capability p data rs i =
     (case sd_instance data i of
        None \<Rightarrow> rs
      | Some inst \<Rightarrow>
          (case register (rs i) p inst (sd_features data) of
             Err e \<Rightarrow> rs
           | Ok r \<Rightarrow> rs(i := r)))"

definition add_protocol :: "('a, 'i, 'c) facade \<Rightarrow> ('a, 'i, 'c) setup_data \<Rightarrow> ('a, 'i, 'c) facade" where
  "add_protocol fa data =
     (case sd_protocol data of
        None \<Rightarrow> fa
      | Some p \<Rightarrow>
          let has_push_updater = (sd_instance data I_PushUpdater \<noteq> None);
              relayers = foldl (register_capability p data) (fa_relayers fa) INTERFACES;
              features = (case sd_features_impl data of
                  None \<Rightarrow> fa_features fa
                | Some inst \<Rightarrow> add_mapping (fa_features fa) p (sd_features data) inst);
              features' = (if has_push_updater then set_push_updates features True else features);
              handles = (case sd_handle data of
                  None \<Rightarrow> fa_handles fa
                | Some h \<Rightarrow> fa_handles fa @ [(p, h)])
          in fa\<lparr>fa_relayers := relayers, fa_features := features', fa_handles := handles,
                fa_device_info := merge_from (fa_device_info fa) (sd_device_info data)\<rparr>)"

definition takeover_handle :: "('a, 'i, 'c) facade \<Rightarrow> protocol \<Rightarrow> interface facade_takeover" where
  "takeover_handle fa p = \<lparr>ft_registry = fa_takeover fa, ft_protocol = p\<rparr>"

definition facade_takeover_claim ::
  "('a, 'i, 'c) facade \<Rightarrow> protocol \<Rightarrow> interface list \<Rightarrow> ((interface \<times> relay_error) + interface list) \<times> ('a, 'i, 'c) facade" where
  "facade_takeover_claim fa p is =
     (let (res, rs) = claim (fa_takeover fa) p is (fa_relayers fa) in (res, fa\<lparr>fa_relayers := rs\<rparr>))"

definition connected_protocols :: "('a, 'i, 'c) facade \<Rightarrow> protocol set" where
  "connected_protocols fa =
     foldl (\<lambda>ps i. ps \<union> set (protocols (fa_relayers fa i))) {} INTERFACES \<union> set (map fst (fa_handles fa))"

definition facade_is_empty :: "('a, 'i, 'c) facade \<Rightarrow> bool" where
  "facade_is_empty fa \<longleftrightarrow> fa_handles fa = [] \<and> connected_protocols fa = {}"

definition set_device_info :: "('a, 'i, 'c) facade \<Rightarrow> device_info \<Rightarrow> ('a, 'i, 'c) facade" where
  "set_device_info fa d = fa\<lparr>fa_device_info := d\<rparr>"

text \<open>The ten accessors of \<open>AppleTV\<close>: whether the caller is handed the wrapper of the interface.\<close>

definition offers :: "('a, 'i, 'c) facade \<Rightarrow> interface \<Rightarrow> bool" where
  "offers fa i \<longleftrightarrow> \<not> relayer_is_empty (fa_relayers fa i)"

text \<open>Everything is tried, in order, whatever the others answer, and the first failure is kept.\<close>

fun try_all :: "('x \<Rightarrow> 'e + unit) \<Rightarrow> 'x list \<Rightarrow> 'e option \<Rightarrow> 'x list \<times> 'e option" where
  "try_all act [] first_error = ([], first_error)"
| "try_all act (x # xs) first_error =
     (let first_error' = (case act x of
            Ok _ \<Rightarrow> first_error
          | Err e \<Rightarrow> (case first_error of None \<Rightarrow> Some e | Some e' \<Rightarrow> Some e'));
          (tried, res) = try_all act xs first_error'
      in (x # tried, res))"

definition facade_close :: "('c \<Rightarrow> 'e + unit) \<Rightarrow> ('a, 'i, 'c) facade \<Rightarrow> 'c list \<times> ('e + unit)" where
  "facade_close closing fa =
     (let (closed, first_error) = try_all closing (map snd (fa_handles fa)) None in
      (closed, case first_error of None \<Rightarrow> Ok () | Some e \<Rightarrow> Err e))"

section \<open>Lemmas\<close>

lemma try_all_result:
  "try_all act xs first_error =
     (xs, case first_error of Some e \<Rightarrow> Some e
          | None \<Rightarrow> find_map (\<lambda>x. case act x of Err e \<Rightarrow> Some e | Ok _ \<Rightarrow> None) xs)"
  by (induction xs arbitrary: first_error) (auto simp: Let_def split: sum.splits option.splits)

lemma mem_INTERFACES: "i \<in> set INTERFACES"
  by (cases i) (simp_all add: INTERFACES_def)

lemma distinct_INTERFACES: "distinct INTERFACES"
  by (simp add: INTERFACES_def)

lemma all_protocols_listed: "p \<in> set DEFAULT_PRIORITIES" "p \<in> set POWER_PRIORITIES" "p \<in> set (priorities_of i)"
  by (cases p; simp add: DEFAULT_PRIORITIES_def POWER_PRIORITIES_def priorities_of_def)+

lemma distinct_priorities: "distinct (priorities_of i)"
  by (simp add: priorities_of_def DEFAULT_PRIORITIES_def POWER_PRIORITIES_def)

lemma priority_rank_inj: "priority_rank p = priority_rank q \<Longrightarrow> p = q"
  by (cases p; cases q; simp add: priority_rank_def position_def DEFAULT_PRIORITIES_def)

lemma map_feature_other: "f \<notin> set fs \<Longrightarrow> foldl (map_feature p inst) owners fs f = owners f"
  by (induction fs arbitrary: owners) (auto simp: map_feature_def Let_def)

lemma map_feature_fold:
  "distinct fs \<Longrightarrow> foldl (map_feature p inst) owners fs f = (if f \<in> set fs then map_feature p inst owners f f else owners f)"
proof (induction fs arbitrary: owners)
  case (Cons g fs)
  then show ?case
    by (cases "f = g") (auto simp: map_feature_other, auto simp: map_feature_def Let_def)
qed simp

lemma distinct_FEATURE_ALL: "distinct FEATURE_ALL"
  using distinct_feature_strs by (simp add: distinct_map)

lemma add_mapping_owner:
  "ff_owners (add_mapping s p features inst) f =
     (if f \<in> features \<and> (case ff_owners s f of None \<Rightarrow> True | Some (q, _) \<Rightarrow> has_higher_priority p q)
      then Some (p, inst) else ff_owners s f)"
proof -
  have "distinct (filter (\<lambda>f. f \<in> features) FEATURE_ALL)" by (simp add: distinct_FEATURE_ALL)
  from map_feature_fold [OF this, of p inst "ff_owners s" f] mem_FEATURE_ALL [of f] show ?thesis
    by (simp add: add_mapping_def map_feature_def Let_def)
qed

text \<open>Every relayer of the facade keeps its priorities, so no registration is ever refused.\<close>

definition facade_ok :: "('a, 'i, 'c) facade \<Rightarrow> bool" where
  "facade_ok fa \<longleftrightarrow> (\<forall>i. priorities (fa_relayers fa i) = priorities_of i) \<and> fa_takeover fa = Some"

definition with_registration :: "'a relayer \<Rightarrow> protocol \<Rightarrow> 'a registration \<Rightarrow> 'a relayer" where
  "with_registration r p reg = r\<lparr>registered := (registered r)(p \<mapsto> reg)\<rparr>"

lemma registry_Some: "foldl (\<lambda>m i. registry_insert m i i) Map.empty INTERFACES = Some"
proof
  fix j
  have "foldl (\<lambda>m i. registry_insert m i i) m is j = (if j \<in> set is then Some j else m j)" for m and "is" :: "interface list"
    by (induction "is" arbitrary: m) (auto simp: registry_insert_def)
  then show "foldl (\<lambda>m i. registry_insert m i i) Map.empty INTERFACES j = Some j" by (simp add: mem_INTERFACES)
qed

lemma facade_new_ok: "facade_ok facade_new"
  by (simp add: facade_ok_def facade_new_def registry_Some) (simp add: relayer_new_def)

lemma register_capability_step:
  assumes "priorities (rs i) = priorities_of i"
  shows "register_capability p data rs i =
    (case sd_instance data i of None \<Rightarrow> rs
     | Some inst \<Rightarrow> rs(i := with_registration (rs i) p \<lparr>reg_instance = inst, reg_declared = sd_features data\<rparr>))"
  using assms all_protocols_listed(3) [of p i]
  by (simp add: register_capability_def register_def with_registration_def split: option.splits)

lemma register_fold:
  assumes "distinct is" and "\<forall>i. priorities (rs i) = priorities_of i"
  shows "foldl (register_capability p data) rs is i =
    (case sd_instance data i of
       Some inst \<Rightarrow> if i \<in> set is then with_registration (rs i) p \<lparr>reg_instance = inst, reg_declared = sd_features data\<rparr> else rs i
     | None \<Rightarrow> rs i)"
  using assms
proof (induction "is" arbitrary: rs)
  case (Cons j js)
  have "\<forall>i. priorities (register_capability p data rs j i) = priorities_of i"
    using Cons.prems(2) by (simp add: register_capability_step with_registration_def split: option.splits)
  from Cons.IH [OF _ this] Cons.prems show ?case
    by (auto simp: register_capability_step split: option.splits)
qed (simp split: option.splits)

lemma add_protocol_relayers:
  assumes "facade_ok fa"
  shows "fa_relayers (add_protocol fa data) i =
    (case (sd_protocol data, sd_instance data i) of
       (Some p, Some inst) \<Rightarrow> with_registration (fa_relayers fa i) p \<lparr>reg_instance = inst, reg_declared = sd_features data\<rparr>
     | _ \<Rightarrow> fa_relayers fa i)"
  using assms register_fold [OF distinct_INTERFACES, of "fa_relayers fa" _ data i] mem_INTERFACES [of i]
  by (auto simp: add_protocol_def Let_def facade_ok_def split: option.splits)

lemma add_protocol_ok: "facade_ok fa \<Longrightarrow> facade_ok (add_protocol fa data)"
proof -
  assume f: "facade_ok fa"
  have "fa_takeover (add_protocol fa data) = fa_takeover fa"
    by (simp add: add_protocol_def Let_def split: option.splits)
  with f show ?thesis
    by (simp add: facade_ok_def add_protocol_relayers [OF f] with_registration_def split: option.splits)
qed

lemma add_all_ok: "facade_ok (foldl add_protocol facade_new datas)"
  by (induction datas rule: rev_induct) (simp_all add: facade_new_ok add_protocol_ok)

text \<open>A setup that declares a feature and reports on it.\<close>

definition declares :: "('a, 'i, 'c) setup_data \<Rightarrow> protocol \<Rightarrow> feature_name \<Rightarrow> bool" where
  "declares d p f \<longleftrightarrow> sd_protocol d = Some p \<and> f \<in> sd_features d \<and> sd_features_impl d \<noteq> None"

lemma add_protocol_owner:
  "feature_owner (fa_features (add_protocol fa d)) f =
     (case sd_protocol d of
        Some p \<Rightarrow> if declares d p f \<and> (case feature_owner (fa_features fa) f of None \<Rightarrow> True | Some q \<Rightarrow> has_higher_priority p q)
                  then Some p else feature_owner (fa_features fa) f
      | None \<Rightarrow> feature_owner (fa_features fa) f)"
  by (auto simp: add_protocol_def Let_def feature_owner_def set_push_updates_def add_mapping_owner declares_def
      split: option.splits)

definition owner_ok :: "protocol option \<Rightarrow> ('a, 'i, 'c) setup_data list \<Rightarrow> feature_name \<Rightarrow> bool" where
  "owner_ok o' datas f \<longleftrightarrow>
     (case o' of
        None \<Rightarrow> \<forall>d \<in> set datas. \<forall>q. \<not> declares d q f
      | Some p \<Rightarrow> (\<exists>d \<in> set datas. declares d p f)
          \<and> (\<forall>d \<in> set datas. \<forall>q. declares d q f \<longrightarrow> priority_rank p \<le> priority_rank q))"

lemma owner_ok_add:
  assumes "owner_ok (feature_owner (fa_features fa) f) datas f"
  shows "owner_ok (feature_owner (fa_features (add_protocol fa d)) f) (datas @ [d]) f"
proof (cases "\<exists>q. declares d q f")
  case False
  with assms show ?thesis
    by (auto simp: owner_ok_def add_protocol_owner split: option.splits)
next
  case True
  then obtain q where q: "declares d q f" "sd_protocol d = Some q" by (auto simp: declares_def)
  then have dq: "declares d r f \<longleftrightarrow> r = q" for r by (auto simp: declares_def)
  show ?thesis
  proof (cases "feature_owner (fa_features fa) f")
    case None
    with assms q dq show ?thesis by (simp add: owner_ok_def add_protocol_owner)
  next
    case (Some r)
    show ?thesis
    proof (cases "priority_rank q < priority_rank r")
      case True
      with Some assms q dq show ?thesis
        by (fastforce simp: owner_ok_def add_protocol_owner has_higher_priority_def)
    next
      case False
      with Some assms q dq show ?thesis
        by (auto simp: owner_ok_def add_protocol_owner has_higher_priority_def)
    qed
  qed
qed

lemma owner_ok_all: "owner_ok (feature_owner (fa_features (foldl add_protocol facade_new datas)) f) datas f"
  by (induction datas rule: rev_induct)
    (simp_all add: owner_ok_add, simp add: owner_ok_def facade_new_def facade_features_default_def feature_owner_def)

text \<open>A setup that provides an interface and declares a feature.\<close>

definition provides :: "('a, 'i, 'c) setup_data \<Rightarrow> protocol \<Rightarrow> interface \<Rightarrow> 'a registration \<Rightarrow> bool" where
  "provides d p i reg \<longleftrightarrow> sd_protocol d = Some p \<and> sd_instance d i = Some (reg_instance reg) \<and> reg_declared reg = sd_features d"

lemma map_filter_append: "List.map_filter f (xs @ ys) = List.map_filter f xs @ List.map_filter f ys"
  by (induction xs) (auto simp: List.map_filter_simps split: option.splits)

lemma in_map_filter: "y \<in> set (List.map_filter f xs) \<longleftrightarrow> (\<exists>x \<in> set xs. f x = Some y)"
  by (induction xs) (auto simp: List.map_filter_simps split: option.splits)

lemma facade_registered:
  "distinct (List.map_filter sd_protocol datas) \<Longrightarrow>
     registered (fa_relayers (foldl add_protocol facade_new datas) i) p = Some reg
     \<longleftrightarrow> (\<exists>d \<in> set datas. provides d p i reg)"
proof (induction datas rule: rev_induct)
  case (snoc d datas)
  let ?fa = "foldl add_protocol facade_new datas"
  have n: "sd_protocol d = Some p \<Longrightarrow> \<not> (\<exists>d \<in> set datas. provides d p i reg)"
    using snoc.prems by (auto simp: map_filter_append List.map_filter_simps in_map_filter provides_def)
  have "distinct (List.map_filter sd_protocol datas)" using snoc.prems by (simp add: map_filter_append)
  note IH = snoc.IH [OF this]
  show ?case
    using n IH
    by (auto simp: add_protocol_relayers [OF add_all_ok] with_registration_def provides_def split: option.splits)
qed (simp add: facade_new_def relayer_new_def)

lemma facade_holder: "holder (fa_relayers (foldl add_protocol facade_new datas) i) = None"
  by (induction datas rule: rev_induct)
    (simp_all add: facade_new_def relayer_new_def add_protocol_relayers [OF add_all_ok, unfolded facade_new_def relayer_new_def] with_registration_def split: option.splits)

section \<open>Properties\<close>

text \<open>
  The report of a feature comes from its best protocol. After any sequence of protocols has been added, in
  whatever order, the protocol that reports a feature is the one of the highest default priority among those that declared it
  and can report on it.
\<close>

theorem feature_owner_best:
  "feature_owner (fa_features (foldl add_protocol facade_new datas)) f = Some p \<longleftrightarrow>
     (\<exists>d \<in> set datas. declares d p f)
     \<and> (\<forall>d \<in> set datas. \<forall>q. declares d q f \<longrightarrow> priority_rank p \<le> priority_rank q)"
proof -
  have ok: "owner_ok (feature_owner (fa_features (foldl add_protocol facade_new datas)) f) datas f" (is "owner_ok ?o _ _")
    by (rule owner_ok_all)
  show ?thesis
  proof
    assume "?o = Some p"
    with ok show "(\<exists>d \<in> set datas. declares d p f) \<and> (\<forall>d \<in> set datas. \<forall>q. declares d q f \<longrightarrow> priority_rank p \<le> priority_rank q)"
      by (simp add: owner_ok_def)
  next
    assume p: "(\<exists>d \<in> set datas. declares d p f) \<and> (\<forall>d \<in> set datas. \<forall>q. declares d q f \<longrightarrow> priority_rank p \<le> priority_rank q)"
    with ok obtain r where r: "?o = Some r" by (cases ?o) (auto simp: owner_ok_def)
    with ok p have "priority_rank p = priority_rank r" by (auto simp: owner_ok_def intro: order.antisym)
    with r show "?o = Some p" by (simp add: priority_rank_inj)
  qed
qed

text \<open>
  C9: every call reaches the best protocol that declared it. When each protocol is added once, in whatever order, the
  implementation that answers a feature of an interface is the one of the protocol highest in that interface's priorities
  among those that provide the interface and declare the feature; no registration is refused, and no call is answered
  by a protocol that did not declare it.
\<close>

theorem facade_routes:
  assumes "distinct (List.map_filter sd_protocol datas)"
  shows "instance_for (fa_relayers (foldl add_protocol facade_new datas) i) f = Some inst \<longleftrightarrow>
    (\<exists>d \<in> set datas. \<exists>p. sd_protocol d = Some p \<and> sd_instance d i = Some inst \<and> f \<in> sd_features d
       \<and> (\<forall>d' \<in> set datas. \<forall>q. sd_protocol d' = Some q \<and> sd_instance d' i \<noteq> None \<and> f \<in> sd_features d'
            \<longrightarrow> position (priorities_of i) p \<le> position (priorities_of i) q))"
  (is "?L \<longleftrightarrow> ?R")
proof -
  let ?r = "fa_relayers (foldl add_protocol facade_new datas) i"
  have pr: "priorities ?r = priorities_of i" using add_all_ok [of datas] by (auto simp: facade_ok_def)
  then have ok: "relayer_ok ?r" using all_protocols_listed(3) [of _ i] distinct_priorities [of i] by (auto simp: relayer_ok_def)
  have rank: "rank ?r p = Suc (position (priorities_of i) p)" for p by (simp add: rank_def facade_holder pr)
  have "?L \<longleftrightarrow> (\<exists>p reg. (\<exists>d \<in> set datas. provides d p i reg) \<and> f \<in> reg_declared reg \<and> reg_instance reg = inst
      \<and> (\<forall>q reg'. (\<exists>d \<in> set datas. provides d q i reg') \<and> f \<in> reg_declared reg'
           \<longrightarrow> position (priorities_of i) p \<le> position (priorities_of i) q))"
    using relayer_picks [OF ok, of f inst] by (simp add: facade_registered [OF assms] rank)
  also have "\<dots> \<longleftrightarrow> ?R"
  proof
    assume "\<exists>p reg. (\<exists>d \<in> set datas. provides d p i reg) \<and> f \<in> reg_declared reg \<and> reg_instance reg = inst
      \<and> (\<forall>q reg'. (\<exists>d \<in> set datas. provides d q i reg') \<and> f \<in> reg_declared reg'
           \<longrightarrow> position (priorities_of i) p \<le> position (priorities_of i) q)"
    then obtain p reg d where d: "d \<in> set datas" "provides d p i reg" "f \<in> reg_declared reg" "reg_instance reg = inst"
      and m: "\<And>q reg' d'. d' \<in> set datas \<Longrightarrow> provides d' q i reg' \<Longrightarrow> f \<in> reg_declared reg'
           \<Longrightarrow> position (priorities_of i) p \<le> position (priorities_of i) q" by blast
    have "position (priorities_of i) p \<le> position (priorities_of i) q"
      if "d' \<in> set datas" "sd_protocol d' = Some q" "sd_instance d' i = Some x" "f \<in> sd_features d'" for d' q x
      using m [OF that(1), of q "\<lparr>reg_instance = x, reg_declared = sd_features d'\<rparr>"] that by (simp add: provides_def)
    with d show ?R by (intro bexI [OF _ d(1)] exI [of _ p]) (auto simp: provides_def)
  next
    assume ?R
    then obtain d p where "d \<in> set datas" "sd_protocol d = Some p" "sd_instance d i = Some inst" "f \<in> sd_features d"
      "\<forall>d' \<in> set datas. \<forall>q. sd_protocol d' = Some q \<and> sd_instance d' i \<noteq> None \<and> f \<in> sd_features d'
            \<longrightarrow> position (priorities_of i) p \<le> position (priorities_of i) q" by blast
    then show "\<exists>p reg. (\<exists>d \<in> set datas. provides d p i reg) \<and> f \<in> reg_declared reg \<and> reg_instance reg = inst
      \<and> (\<forall>q reg'. (\<exists>d \<in> set datas. provides d q i reg') \<and> f \<in> reg_declared reg'
           \<longrightarrow> position (priorities_of i) p \<le> position (priorities_of i) q)"
      by (intro exI [of _ p] exI [of _ "\<lparr>reg_instance = inst, reg_declared = sd_features d\<rparr>"]) (fastforce simp: provides_def)
  qed
  finally show ?thesis .
qed

definition toy_setup :: "protocol \<Rightarrow> nat \<Rightarrow> feature_name set \<Rightarrow> (nat, nat, nat) setup_data" where
  "toy_setup p n fs =
     \<lparr>sd_protocol = Some p, sd_features = fs, sd_features_impl = Some n, sd_handle = None,
      sd_instance = (\<lambda>i. if i = I_Stream then Some n else None), sd_device_info = device_info_default\<rparr>"

theorem feature_owner_best_witness:
  "feature_owner (fa_features (foldl add_protocol facade_new
     [toy_setup Raop 2 {Fn_PlayUrl}, toy_setup AirPlay 1 {Fn_PlayUrl}])) Fn_PlayUrl = Some AirPlay"
  using feature_owner_best [of "[toy_setup Raop 2 {Fn_PlayUrl}, toy_setup AirPlay 1 {Fn_PlayUrl}]" Fn_PlayUrl AirPlay]
  by (auto simp: toy_setup_def declares_def priority_rank_def DEFAULT_PRIORITIES_def position_def)

theorem facade_routes_witness:
  "instance_for (fa_relayers (foldl add_protocol facade_new
      [toy_setup Raop 2 {Fn_StreamFile}, toy_setup AirPlay 1 {Fn_PlayUrl}]) I_Stream) Fn_StreamFile = Some 2"
  using facade_routes [of "[toy_setup Raop 2 {Fn_StreamFile}, toy_setup AirPlay 1 {Fn_PlayUrl}]" I_Stream Fn_StreamFile 2]
  by (simp add: toy_setup_def List.map_filter_simps)

text \<open>
  The report of the features is in the order of the enumeration, with each feature at most once, and holds a feature
  exactly when it is supported or everything is asked for.
\<close>

lemma all_features_ordered:
  "sorted_wrt (<) (map fst (all_features ask s u))
   \<and> (\<forall>f i. (f, i) \<in> set (all_features ask s u) \<longleftrightarrow> i = get_feature ask s f \<and> (u \<or> fi_state i \<noteq> Unsupported))"
proof
  have "map fst (all_features ask s u) = filter (\<lambda>f. u \<or> fi_state (get_feature ask s f) \<noteq> Unsupported) FEATURE_ALL"
    unfolding all_features_def filter_map comp_def by (simp add: comp_def)
  then show "sorted_wrt (<) (map fst (all_features ask s u))" by (simp add: sorted_wrt_filter FEATURE_ALL_sorted)
  show "\<forall>f i. (f, i) \<in> set (all_features ask s u) \<longleftrightarrow> i = get_feature ask s f \<and> (u \<or> fi_state i \<noteq> Unsupported)"
    using mem_FEATURE_ALL by (auto simp: all_features_def)
qed

end
