(* ===== verification/Facade_Calls.thy ===== *)
theory Facade_Calls
  imports Facade Float32
begin

text \<open>
  The wrappers a caller holds (\<open>crates/pyatv-core/src/facade/remote.rs\<close>, \<open>metadata.rs\<close>,
  \<open>stream.rs\<close>, \<open>device.rs\<close>, \<open>input.rs\<close>, \<open>audio.rs\<close>): each method looks up the
  instance that declared its feature and calls it, or reports that the feature is not supported. What
  the instance does, with the arguments the caller gave, is the argument \<open>call\<close>.
\<close>

datatype 'e facade_error =
    Not_Supported feature_name
  | No_Metadata_Protocol
  | Play_Url_Not_Supported
  | Volume_Out_Of_Range u32
  | Instance_Error 'e

definition target :: "'a relayer \<Rightarrow> feature_name \<Rightarrow> 'e facade_error + 'a" where
  "target r f = ok_or (instance_for r f) (Not_Supported f)"

definition relay :: "'a relayer \<Rightarrow> feature_name \<Rightarrow> ('a \<Rightarrow> 'e facade_error + 'b) \<Rightarrow> 'e facade_error + 'b" where
  "relay r f call = (case target r f of Err e \<Rightarrow> Err e | Ok inst \<Rightarrow> call inst)"

section \<open>Remote control\<close>

datatype remote_method =
    Rm_Up | Rm_Down | Rm_Left | Rm_Right | Rm_Select | Rm_Menu | Rm_Home | Rm_HomeHold | Rm_TopMenu
  | Rm_Guide | Rm_ControlCenter | Rm_Screensaver | Rm_Play | Rm_PlayPause | Rm_Pause | Rm_Stop | Rm_Next
  | Rm_Previous | Rm_SkipForward | Rm_SkipBackward | Rm_SetPosition | Rm_SetShuffle | Rm_SetRepeat
  | Rm_ChannelUp | Rm_ChannelDown

primrec remote_feature :: "remote_method \<Rightarrow> feature_name" where
  "remote_feature Rm_Up = Fn_Up"
| "remote_feature Rm_Down = Fn_Down"
| "remote_feature Rm_Left = Fn_Left"
| "remote_feature Rm_Right = Fn_Right"
| "remote_feature Rm_Select = Fn_Select"
| "remote_feature Rm_Menu = Fn_Menu"
| "remote_feature Rm_Home = Fn_Home"
| "remote_feature Rm_HomeHold = Fn_HomeHold"
| "remote_feature Rm_TopMenu = Fn_TopMenu"
| "remote_feature Rm_Guide = Fn_Guide"
| "remote_feature Rm_ControlCenter = Fn_ControlCenter"
| "remote_feature Rm_Screensaver = Fn_Screensaver"
| "remote_feature Rm_Play = Fn_Play"
| "remote_feature Rm_PlayPause = Fn_PlayPause"
| "remote_feature Rm_Pause = Fn_Pause"
| "remote_feature Rm_Stop = Fn_Stop"
| "remote_feature Rm_Next = Fn_Next"
| "remote_feature Rm_Previous = Fn_Previous"
| "remote_feature Rm_SkipForward = Fn_SkipForward"
| "remote_feature Rm_SkipBackward = Fn_SkipBackward"
| "remote_feature Rm_SetPosition = Fn_SetPosition"
| "remote_feature Rm_SetShuffle = Fn_SetShuffle"
| "remote_feature Rm_SetRepeat = Fn_SetRepeat"
| "remote_feature Rm_ChannelUp = Fn_ChannelUp"
| "remote_feature Rm_ChannelDown = Fn_ChannelDown"

definition remote_call :: "'a relayer \<Rightarrow> remote_method \<Rightarrow> ('a \<Rightarrow> 'e facade_error + 'b) \<Rightarrow> 'e facade_error + 'b" where
  "remote_call r m call = relay r (remote_feature m) call"

section \<open>Metadata\<close>

definition first_answer :: "'a relayer \<Rightarrow> ('a \<Rightarrow> 'b option) \<Rightarrow> 'b option" where
  "first_answer r read = find_map read (instances r)"

definition metadata_playing :: "'a relayer \<Rightarrow> ('a \<Rightarrow> 'e facade_error + 'b) \<Rightarrow> 'e facade_error + 'b" where
  "metadata_playing r call = (case main_instance r of Some inst \<Rightarrow> call inst | None \<Rightarrow> Err No_Metadata_Protocol)"

definition metadata_artwork :: "'a relayer \<Rightarrow> ('a \<Rightarrow> 'e facade_error + 'b) \<Rightarrow> 'e facade_error + 'b" where
  "metadata_artwork r call = relay r Fn_Artwork call"

definition metadata_app :: "'a relayer \<Rightarrow> ('a \<Rightarrow> 'b option) \<Rightarrow> 'b option" where
  "metadata_app r read = Option.bind (instance_for r Fn_App) read"

definition metadata_device_id :: "'a relayer \<Rightarrow> ('a \<Rightarrow> bytes option) \<Rightarrow> bytes option" where
  "metadata_device_id r read = first_answer r read"

definition metadata_artwork_id :: "'a relayer \<Rightarrow> ('a \<Rightarrow> bytes option) \<Rightarrow> bytes option" where
  "metadata_artwork_id r read = first_answer r read"

section \<open>Streaming\<close>

definition stream_play_url ::
  "('i \<Rightarrow> feature_name \<Rightarrow> feature_info) \<Rightarrow> 'i facade_features \<Rightarrow> 'a relayer \<Rightarrow> ('a \<Rightarrow> 'e facade_error + 'b) \<Rightarrow> 'e facade_error + 'b" where
  "stream_play_url ask s r call =
     (if fi_state (get_feature ask s Fn_PlayUrl) \<noteq> Available then Err Play_Url_Not_Supported
      else relay r Fn_PlayUrl call)"

definition stream_file :: "'a relayer \<Rightarrow> ('a \<Rightarrow> 'e facade_error + 'b) \<Rightarrow> 'e facade_error + 'b" where
  "stream_file r call = relay r Fn_StreamFile call"

text \<open>\<open>close\<close> goes to every instance: these, in order.\<close>

definition stream_close :: "'a relayer \<Rightarrow> 'a list" where
  "stream_close r = instances r"

section \<open>Power, apps and accounts\<close>

datatype power_state = PS_Unknown | PS_Off | PS_On

definition facade_power_state :: "'a relayer \<Rightarrow> ('a \<Rightarrow> power_state) \<Rightarrow> power_state" where
  "facade_power_state r read = (case instance_for r Fn_PowerState of Some inst \<Rightarrow> read inst | None \<Rightarrow> PS_Unknown)"

datatype power_method = Pm_TurnOn | Pm_TurnOff
datatype apps_method = Pa_AppList | Pa_LaunchApp
datatype accounts_method = Pu_AccountList | Pu_SwitchAccount

fun power_feature :: "power_method \<Rightarrow> feature_name" where
  "power_feature Pm_TurnOn = Fn_TurnOn"
| "power_feature Pm_TurnOff = Fn_TurnOff"

fun apps_feature :: "apps_method \<Rightarrow> feature_name" where
  "apps_feature Pa_AppList = Fn_AppList"
| "apps_feature Pa_LaunchApp = Fn_LaunchApp"

fun accounts_feature :: "accounts_method \<Rightarrow> feature_name" where
  "accounts_feature Pu_AccountList = Fn_AccountList"
| "accounts_feature Pu_SwitchAccount = Fn_SwitchAccount"

definition power_call :: "'a relayer \<Rightarrow> power_method \<Rightarrow> ('a \<Rightarrow> 'e facade_error + 'b) \<Rightarrow> 'e facade_error + 'b" where
  "power_call r m call = relay r (power_feature m) call"

definition apps_call :: "'a relayer \<Rightarrow> apps_method \<Rightarrow> ('a \<Rightarrow> 'e facade_error + 'b) \<Rightarrow> 'e facade_error + 'b" where
  "apps_call r m call = relay r (apps_feature m) call"

definition accounts_call :: "'a relayer \<Rightarrow> accounts_method \<Rightarrow> ('a \<Rightarrow> 'e facade_error + 'b) \<Rightarrow> 'e facade_error + 'b" where
  "accounts_call r m call = relay r (accounts_feature m) call"

section \<open>Keyboard and gestures\<close>

datatype focus_state = KF_Unknown | KF_Unfocused | KF_Focused

definition text_focus_state :: "'a relayer \<Rightarrow> ('a \<Rightarrow> focus_state) \<Rightarrow> focus_state" where
  "text_focus_state r read = (case instance_for r Fn_TextFocusState of Some inst \<Rightarrow> read inst | None \<Rightarrow> KF_Unknown)"

datatype keyboard_method = Km_TextGet | Km_TextSet | Km_TextAppend | Km_TextClear
datatype touch_method = Tm_Action | Tm_Swipe | Tm_Click

fun keyboard_feature :: "keyboard_method \<Rightarrow> feature_name" where
  "keyboard_feature Km_TextGet = Fn_TextGet"
| "keyboard_feature Km_TextSet = Fn_TextSet"
| "keyboard_feature Km_TextAppend = Fn_TextAppend"
| "keyboard_feature Km_TextClear = Fn_TextClear"

fun touch_feature :: "touch_method \<Rightarrow> feature_name" where
  "touch_feature Tm_Action = Fn_TouchAction"
| "touch_feature Tm_Swipe = Fn_Swipe"
| "touch_feature Tm_Click = Fn_Click"

definition keyboard_call :: "'a relayer \<Rightarrow> keyboard_method \<Rightarrow> ('a \<Rightarrow> 'e facade_error + 'b) \<Rightarrow> 'e facade_error + 'b" where
  "keyboard_call r m call = relay r (keyboard_feature m) call"

definition touch_call :: "'a relayer \<Rightarrow> touch_method \<Rightarrow> ('a \<Rightarrow> 'e facade_error + 'b) \<Rightarrow> 'e facade_error + 'b" where
  "touch_call r m call = relay r (touch_feature m) call"

section \<open>Audio\<close>

definition checked_volume :: "'a relayer \<Rightarrow> ('a \<Rightarrow> u32) \<Rightarrow> 'e facade_error + u32" where
  "checked_volume r read =
     rbind (target r Fn_Volume) (\<lambda>inst.
     if in_volume_range (read inst) then Ok (read inst) else Err (Volume_Out_Of_Range (read inst)))"

definition audio_volume :: "'a relayer \<Rightarrow> ('a \<Rightarrow> u32) \<Rightarrow> u32" where
  "audio_volume r read =
     (case (checked_volume r read :: unit facade_error + u32) of Ok v \<Rightarrow> v | Err e \<Rightarrow> 0)"

definition audio_set_volume :: "'a relayer \<Rightarrow> u32 \<Rightarrow> ('a \<Rightarrow> 'e facade_error + 'b) \<Rightarrow> 'e facade_error + 'b" where
  "audio_set_volume r level call =
     (if \<not> in_volume_range level then Err (Volume_Out_Of_Range level)
      else relay r Fn_SetVolume call)"

definition audio_output_devices :: "'a relayer \<Rightarrow> ('a \<Rightarrow> 'b list) \<Rightarrow> 'b list" where
  "audio_output_devices r read = (case instance_for r Fn_OutputDevices of Some inst \<Rightarrow> read inst | None \<Rightarrow> [])"

datatype audio_method = Am_VolumeUp | Am_VolumeDown | Am_AddOutputDevices | Am_RemoveOutputDevices | Am_SetOutputDevices

fun audio_feature :: "audio_method \<Rightarrow> feature_name" where
  "audio_feature Am_VolumeUp = Fn_VolumeUp"
| "audio_feature Am_VolumeDown = Fn_VolumeDown"
| "audio_feature Am_AddOutputDevices = Fn_AddOutputDevices"
| "audio_feature Am_RemoveOutputDevices = Fn_RemoveOutputDevices"
| "audio_feature Am_SetOutputDevices = Fn_SetOutputDevices"

definition audio_call :: "'a relayer \<Rightarrow> audio_method \<Rightarrow> ('a \<Rightarrow> 'e facade_error + 'b) \<Rightarrow> 'e facade_error + 'b" where
  "audio_call r m call = relay r (audio_feature m) call"

section \<open>Lemmas\<close>

lemma relay_cases:
  "relay r f call = (case instance_for r f of None \<Rightarrow> Err (Not_Supported f) | Some inst \<Rightarrow> call inst)"
  by (simp add: relay_def target_def split: option.splits)

lemma remote_feature_inj: "remote_feature m = remote_feature m' \<Longrightarrow> m = m'"
  by (cases m; cases m') simp_all

section \<open>Properties\<close>

text \<open>
  A volume outside the range never crosses the facade. Reading returns a level in the range whatever the device
  reports, setting refuses any other level, a NaN included, before an instance is looked up; a level in the range is passed on
  to the instance that declared the feature.
\<close>

theorem volume_guarded:
  "in_volume_range (audio_volume r read)
   \<and> (\<not> in_volume_range level \<longrightarrow> audio_set_volume r level call = Err (Volume_Out_Of_Range level))
   \<and> (in_volume_range level \<longrightarrow> audio_set_volume r level call =
        (case instance_for r Fn_SetVolume of None \<Rightarrow> Err (Not_Supported Fn_SetVolume) | Some inst \<Rightarrow> call inst))"
  by (auto simp: audio_volume_def checked_volume_def audio_set_volume_def relay_cases rbind_def in_volume_range_def
      split: sum.splits)

theorem volume_guarded_witness:
  "audio_set_volume (relayer_new [Mrp] :: nat relayer) 0x7FC00000 (\<lambda>_. Ok ()) = (Err (Volume_Out_Of_Range 0x7FC00000) :: nat facade_error + unit)"
  using volume_guarded [of "relayer_new [Mrp] :: nat relayer" "\<lambda>_. 0" "0x7FC00000" "\<lambda>_. Ok () :: nat facade_error + unit"]
  by (simp add: in_volume_range_def)

end
