(* ===== verification/Listener_Hub.thy ===== *)
theory Listener_Hub
  imports Facade_Calls
begin

text \<open>
  Where protocols report and callers subscribe (\<open>crates/pyatv-core/src/facade/listeners.rs\<close>) and the
  push updater of the facade (\<open>facade/playback.rs\<close>). A listener is an opaque value, held weakly:
  \<open>alive\<close> says which are still there when a handler runs. A handler returns the hub and the calls
  it makes, in order. The relayers of the filters are handles into the store of \<open>Takeover\<close>, which is \<open>None\<close> for one that
  has been dropped. Every lock is taken without failing: no code that runs under one can panic.
\<close>

record output_device =
  od_identifier :: bytes
  od_name :: "bytes option"
  od_volume :: u32

definition output_device_new :: "bytes \<Rightarrow> output_device" where
  "output_device_new identifier = \<lparr>od_identifier = identifier, od_name = None, od_volume = 0\<rparr>"

definition with_volume :: "output_device \<Rightarrow> u32 \<Rightarrow> output_device" where
  "with_volume d v = d\<lparr>od_volume := v\<rparr>"

definition output_device_eq :: "output_device \<Rightarrow> output_device \<Rightarrow> bool" where
  "output_device_eq a b \<longleftrightarrow>
     od_identifier a = od_identifier b \<and> od_name a = od_name b \<and> f32_eq (od_volume a) (od_volume b)"

record tracked =
  tr_volume :: u32
  tr_output_devices :: "output_device list"
  tr_focus :: focus_state

definition tracked_default :: tracked where
  "tracked_default = \<lparr>tr_volume = 0, tr_output_devices = [], tr_focus = KF_Unknown\<rparr>"

record ('l, 'h) hub =
  hub_devices :: "'l list"
  hub_power :: "'l list"
  hub_audio :: "'l list"
  hub_keyboard :: "'l list"
  hub_tracked :: tracked
  hub_keyboard_relayer :: "'h option"
  hub_power_relayer :: "'h option"

definition hub_default :: "('l, 'h) hub" where
  "hub_default =
     \<lparr>hub_devices = [], hub_power = [], hub_audio = [], hub_keyboard = [], hub_tracked = tracked_default,
      hub_keyboard_relayer = None, hub_power_relayer = None\<rparr>"

datatype notice =
    Connection_Lost bytes
  | Connection_Closed
  | Power_Changed power_state power_state
  | Volume_Changed u32 u32
  | Devices_Changed "output_device list" "output_device list"
  | Device_Volume_Changed output_device u32 u32
  | Focus_Changed focus_state focus_state

definition is_main :: "('h \<Rightarrow> 'a relayer option) \<Rightarrow> 'h option \<Rightarrow> protocol \<Rightarrow> bool" where
  "is_main store slot p \<longleftrightarrow>
     (case Option.bind (Option.bind slot store) main_protocol of None \<Rightarrow> True | Some main \<Rightarrow> main = p)"

definition subscribe :: "('l \<Rightarrow> bool) \<Rightarrow> 'l list \<Rightarrow> 'l \<Rightarrow> 'l list" where
  "subscribe alive ls l = filter alive ls @ [l]"

definition awake :: "('l \<Rightarrow> bool) \<Rightarrow> 'l list \<Rightarrow> 'l list" where
  "awake alive ls = filter alive ls"

definition notify :: "('l \<Rightarrow> bool) \<Rightarrow> 'l list \<Rightarrow> notice \<Rightarrow> ('l \<times> notice) list" where
  "notify alive ls n = map (\<lambda>l. (l, n)) (awake alive ls)"

section \<open>Subscribing\<close>

definition add_listener :: "('l \<Rightarrow> bool) \<Rightarrow> ('l, 'h) hub \<Rightarrow> 'l \<Rightarrow> ('l, 'h) hub" where
  "add_listener alive hub l = hub\<lparr>hub_devices := subscribe alive (hub_devices hub) l\<rparr>"

definition add_power_listener :: "('l \<Rightarrow> bool) \<Rightarrow> ('l, 'h) hub \<Rightarrow> 'l \<Rightarrow> ('l, 'h) hub" where
  "add_power_listener alive hub l = hub\<lparr>hub_power := subscribe alive (hub_power hub) l\<rparr>"

definition add_audio_listener :: "('l \<Rightarrow> bool) \<Rightarrow> ('l, 'h) hub \<Rightarrow> 'l \<Rightarrow> ('l, 'h) hub" where
  "add_audio_listener alive hub l = hub\<lparr>hub_audio := subscribe alive (hub_audio hub) l\<rparr>"

definition add_keyboard_listener :: "('l \<Rightarrow> bool) \<Rightarrow> ('l, 'h) hub \<Rightarrow> 'l \<Rightarrow> ('l, 'h) hub" where
  "add_keyboard_listener alive hub l = hub\<lparr>hub_keyboard := subscribe alive (hub_keyboard hub) l\<rparr>"

text \<open>\<open>OnceLock::set\<close>: only the first call has an effect.\<close>

definition set_keyboard_relayer :: "('l, 'h) hub \<Rightarrow> 'h \<Rightarrow> ('l, 'h) hub" where
  "set_keyboard_relayer hub h =
     hub\<lparr>hub_keyboard_relayer := (case hub_keyboard_relayer hub of None \<Rightarrow> Some h | Some h' \<Rightarrow> Some h')\<rparr>"

definition set_power_relayer :: "('l, 'h) hub \<Rightarrow> 'h \<Rightarrow> ('l, 'h) hub" where
  "set_power_relayer hub h =
     hub\<lparr>hub_power_relayer := (case hub_power_relayer hub of None \<Rightarrow> Some h | Some h' \<Rightarrow> Some h')\<rparr>"

section \<open>Reporting\<close>

definition power_state_changed_from ::
  "('l \<Rightarrow> bool) \<Rightarrow> ('h \<Rightarrow> 'a relayer option) \<Rightarrow> ('l, 'h) hub \<Rightarrow> protocol option \<Rightarrow> power_state \<Rightarrow> power_state \<Rightarrow> ('l \<times> notice) list" where
  "power_state_changed_from alive store hub reporter old_state new_state =
     (if (case reporter of None \<Rightarrow> False | Some p \<Rightarrow> \<not> is_main store (hub_power_relayer hub) p) then []
      else notify alive (hub_power hub) (Power_Changed old_state new_state))"

definition connection_lost :: "('l \<Rightarrow> bool) \<Rightarrow> ('l, 'h) hub \<Rightarrow> bytes \<Rightarrow> ('l \<times> notice) list" where
  "connection_lost alive hub reason = notify alive (hub_devices hub) (Connection_Lost reason)"

definition connection_closed :: "('l \<Rightarrow> bool) \<Rightarrow> ('l, 'h) hub \<Rightarrow> ('l \<times> notice) list" where
  "connection_closed alive hub = notify alive (hub_devices hub) Connection_Closed"

definition volume_updated :: "('l \<Rightarrow> bool) \<Rightarrow> ('l, 'h) hub \<Rightarrow> u32 \<Rightarrow> ('l, 'h) hub \<times> ('l \<times> notice) list" where
  "volume_updated alive hub level =
     (let old_level = tr_volume (hub_tracked hub) in
      if f32_within_epsilon old_level level then (hub, [])
      else (hub\<lparr>hub_tracked := (hub_tracked hub)\<lparr>tr_volume := level\<rparr>\<rparr>,
            notify alive (hub_audio hub) (Volume_Changed old_level level)))"

definition output_devices_updated ::
  "('l \<Rightarrow> bool) \<Rightarrow> ('l, 'h) hub \<Rightarrow> output_device list \<Rightarrow> ('l, 'h) hub \<times> ('l \<times> notice) list" where
  "output_devices_updated alive hub devices =
     (let old_devices = tr_output_devices (hub_tracked hub) in
      if list_all2 output_device_eq old_devices devices then (hub, [])
      else (hub\<lparr>hub_tracked := (hub_tracked hub)\<lparr>tr_output_devices := devices\<rparr>\<rparr>,
            notify alive (hub_audio hub) (Devices_Changed old_devices devices)))"

text \<open>The first device of that identifier, with its volume replaced in the list.\<close>

fun update_device :: "output_device list \<Rightarrow> bytes \<Rightarrow> u32 \<Rightarrow> (output_device \<times> u32) option \<times> output_device list" where
  "update_device [] identifier volume = (None, [])"
| "update_device (d # ds) identifier volume =
     (if od_identifier d = identifier
      then (Some (d\<lparr>od_volume := volume\<rparr>, od_volume d), d\<lparr>od_volume := volume\<rparr> # ds)
      else let (found, ds') = update_device ds identifier volume in (found, d # ds'))"

definition output_device_volume_updated ::
  "('l \<Rightarrow> bool) \<Rightarrow> ('l, 'h) hub \<Rightarrow> bytes \<Rightarrow> u32 \<Rightarrow> ('l, 'h) hub \<times> ('l \<times> notice) list" where
  "output_device_volume_updated alive hub identifier volume =
     (let (found, devices) = update_device (tr_output_devices (hub_tracked hub)) identifier volume;
          hub' = hub\<lparr>hub_tracked := (hub_tracked hub)\<lparr>tr_output_devices := devices\<rparr>\<rparr>;
          (device, old_volume) = (case found of
              Some (d, old) \<Rightarrow> (d, old)
            | None \<Rightarrow> (with_volume (output_device_new identifier) volume, 0))
      in if f32_within_epsilon old_volume volume then (hub', [])
         else (hub', notify alive (hub_audio hub) (Device_Volume_Changed device old_volume volume)))"

definition keyboard_focus_updated ::
  "('l \<Rightarrow> bool) \<Rightarrow> ('h \<Rightarrow> 'a relayer option) \<Rightarrow> ('l, 'h) hub \<Rightarrow> protocol \<Rightarrow> focus_state \<Rightarrow> ('l, 'h) hub \<times> ('l \<times> notice) list" where
  "keyboard_focus_updated alive store hub p st =
     (if \<not> is_main store (hub_keyboard_relayer hub) p then (hub, [])
      else let old_state = tr_focus (hub_tracked hub) in
        if old_state = st then (hub, [])
        else (hub\<lparr>hub_tracked := (hub_tracked hub)\<lparr>tr_focus := st\<rparr>\<rparr>,
              notify alive (hub_keyboard hub) (Focus_Changed old_state st)))"

section \<open>The push updater\<close>

record 'l push_facade =
  pf_listener :: "'l option"
  pf_shims :: "protocol list"

definition push_new :: "'l push_facade" where
  "push_new = \<lparr>pf_listener = None, pf_shims = []\<rparr>"

definition push_set_listener :: "'l push_facade \<Rightarrow> 'l \<Rightarrow> 'l push_facade" where
  "push_set_listener pf l = pf\<lparr>pf_listener := Some l\<rparr>"

definition push_listener :: "('l \<Rightarrow> bool) \<Rightarrow> 'l push_facade \<Rightarrow> 'l option" where
  "push_listener alive pf =
     (case pf_listener pf of None \<Rightarrow> None | Some l \<Rightarrow> if alive l then Some l else None)"

definition push_attach :: "'a relayer \<Rightarrow> 'l push_facade \<Rightarrow> 'l push_facade" where
  "push_attach r pf = pf\<lparr>pf_shims := filter (\<lambda>p. relayer_get r p \<noteq> None) (protocols r)\<rparr>"

definition push_detach :: "'l push_facade \<Rightarrow> 'l push_facade" where
  "push_detach pf = pf\<lparr>pf_shims := []\<rparr>"

text \<open>The listener a shim forwards to.\<close>

definition shim_interested :: "('l \<Rightarrow> bool) \<Rightarrow> 'a relayer \<Rightarrow> 'l push_facade \<Rightarrow> protocol \<Rightarrow> 'l option" where
  "shim_interested alive r pf p = (if main_protocol r \<noteq> Some p then None else push_listener alive pf)"

text \<open>
  An update, or an error, that the updater of \<open>p\<close> pushes: the instance holds its shim weakly, so there is a shim to
  call only as long as the facade owns it.
\<close>

definition push_event :: "('l \<Rightarrow> bool) \<Rightarrow> 'a relayer \<Rightarrow> 'l push_facade \<Rightarrow> protocol \<Rightarrow> 'l option" where
  "push_event alive r pf p = (if p \<in> set (pf_shims pf) then shim_interested alive r pf p else None)"

definition push_active :: "'a relayer \<Rightarrow> ('a \<Rightarrow> bool) \<Rightarrow> bool" where
  "push_active r active = (case main_instance r of None \<Rightarrow> False | Some inst \<Rightarrow> active inst)"

definition push_start :: "'a relayer \<Rightarrow> ('a \<Rightarrow> 'e + unit) \<Rightarrow> 'l push_facade \<Rightarrow> 'l push_facade \<times> 'a list \<times> ('e + unit)" where
  "push_start r start pf =
     (let (started, first_error) = try_all start (instances r) None in
      (push_attach r pf, started, case first_error of None \<Rightarrow> Ok () | Some e \<Rightarrow> Err e))"

definition push_stop :: "'a relayer \<Rightarrow> 'l push_facade \<Rightarrow> 'l push_facade \<times> 'a list" where
  "push_stop r pf = (push_detach pf, instances r)"

section \<open>Runs\<close>

text \<open>A run of reports, each with the listeners alive and the relayers as they are when it arrives.\<close>

datatype update =
    Up_Volume u32
  | Up_Devices "output_device list"
  | Up_Device_Volume bytes u32
  | Up_Focus protocol focus_state

fun hub_handle ::
  "('l, 'h) hub \<Rightarrow> ('l \<Rightarrow> bool) \<times> ('h \<Rightarrow> 'a relayer option) \<times> update \<Rightarrow> ('l, 'h) hub \<times> ('l \<times> notice) list" where
  "hub_handle hub (alive, store, Up_Volume level) = volume_updated alive hub level"
| "hub_handle hub (alive, store, Up_Devices ds) = output_devices_updated alive hub ds"
| "hub_handle hub (alive, store, Up_Device_Volume identifier v) = output_device_volume_updated alive hub identifier v"
| "hub_handle hub (alive, store, Up_Focus p st) = keyboard_focus_updated alive store hub p st"

fun hub_run ::
  "('l, 'h) hub \<Rightarrow> (('l \<Rightarrow> bool) \<times> ('h \<Rightarrow> 'a relayer option) \<times> update) list \<Rightarrow> ('l, 'h) hub \<times> ('l \<times> notice) list" where
  "hub_run hub [] = (hub, [])"
| "hub_run hub (u # us) = (let (hub', ns) = hub_handle hub u; (hub'', ns') = hub_run hub' us in (hub'', ns @ ns'))"

text \<open>What one listener hears of one kind, and a chain of changes from one value to another.\<close>

definition heard :: "(notice \<Rightarrow> 'v option) \<Rightarrow> 'l \<Rightarrow> ('l \<times> notice) list \<Rightarrow> 'v list" where
  "heard pick l ns = List.map_filter (\<lambda>(l', n). if l' = l then pick n else None) ns"

fun pick_volume :: "notice \<Rightarrow> (u32 \<times> u32) option" where
  "pick_volume (Volume_Changed a b) = Some (a, b)"
| "pick_volume _ = None"

fun pick_focus :: "notice \<Rightarrow> (focus_state \<times> focus_state) option" where
  "pick_focus (Focus_Changed a b) = Some (a, b)"
| "pick_focus _ = None"

fun chain :: "('v \<Rightarrow> 'v \<Rightarrow> bool) \<Rightarrow> 'v \<Rightarrow> ('v \<times> 'v) list \<Rightarrow> 'v \<Rightarrow> bool" where
  "chain same a [] b \<longleftrightarrow> a = b"
| "chain same a ((old, new) # cs) b \<longleftrightarrow> old = a \<and> \<not> same old new \<and> chain same new cs b"

lemma heard_append [simp]: "heard pick l (ns @ ms) = heard pick l ns @ heard pick l ms"
  by (simp add: heard_def map_filter_append)

lemma heard_Nil [simp]: "heard pick l [] = []"
  by (simp add: heard_def List.map_filter_simps)

lemma heard_notify:
  "alive l \<Longrightarrow> heard pick l (notify alive ls n) = (case pick n of None \<Rightarrow> [] | Some v \<Rightarrow> replicate (count_list ls l) v)"
  by (induction ls) (auto simp: heard_def notify_def awake_def List.map_filter_simps split: option.splits)

lemma chain_append: "chain same a cs b \<Longrightarrow> chain same b ds c \<Longrightarrow> chain same a (cs @ ds) c"
  by (induction same a cs b rule: chain.induct) auto

lemma hub_handle_lists:
  "hub_handle hub u = (hub', ns) \<Longrightarrow> hub_audio hub' = hub_audio hub \<and> hub_keyboard hub' = hub_keyboard hub"
  by (induction hub u rule: hub_handle.induct)
    (auto simp: volume_updated_def output_devices_updated_def output_device_volume_updated_def keyboard_focus_updated_def
      Let_def split: if_splits prod.splits option.splits)

lemma hub_handle_volume:
  assumes "hub_handle hub u = (hub', ns)" and "fst u l" and "count_list (hub_audio hub) l = 1"
  shows "chain f32_within_epsilon (tr_volume (hub_tracked hub)) (heard pick_volume l ns) (tr_volume (hub_tracked hub'))"
  using assms
  by (induction hub u rule: hub_handle.induct)
    (auto simp: volume_updated_def output_devices_updated_def output_device_volume_updated_def keyboard_focus_updated_def
      Let_def heard_notify split: if_splits prod.splits option.splits)

lemma hub_handle_focus:
  assumes "hub_handle hub u = (hub', ns)" and "fst u l" and "count_list (hub_keyboard hub) l = 1"
  shows "chain (=) (tr_focus (hub_tracked hub)) (heard pick_focus l ns) (tr_focus (hub_tracked hub'))"
  using assms
  by (induction hub u rule: hub_handle.induct)
    (auto simp: volume_updated_def output_devices_updated_def output_device_volume_updated_def keyboard_focus_updated_def
      Let_def heard_notify split: if_splits prod.splits option.splits)

section \<open>Properties\<close>

text \<open>
  A listener never misses or repeats a change. Over any run of reports, from any protocols, with takeovers between them, what a
  subscribed listener hears of the volume, and of the keyboard focus, is a chain: each notice starts at the value the
  previous one ended with, none reports a value that has not changed, and the last one ends at the value the hub keeps.
\<close>

theorem listener_follows:
  assumes "hub_run hub us = (hub', ns)" and "\<forall>u \<in> set us. fst u l"
    and "count_list (hub_audio hub) l = 1" and "count_list (hub_keyboard hub) l = 1"
  shows "chain f32_within_epsilon (tr_volume (hub_tracked hub)) (heard pick_volume l ns) (tr_volume (hub_tracked hub'))
    \<and> chain (=) (tr_focus (hub_tracked hub)) (heard pick_focus l ns) (tr_focus (hub_tracked hub'))"
  using assms
proof (induction us arbitrary: hub ns)
  case (Cons u us)
  obtain h1 n1 where h1: "hub_handle hub u = (h1, n1)" by (cases "hub_handle hub u")
  obtain n2 where n2: "hub_run h1 us = (hub', n2)" "ns = n1 @ n2"
    using Cons.prems(1) h1 by (auto simp: Let_def split: prod.splits)
  have l: "count_list (hub_audio h1) l = 1" "count_list (hub_keyboard h1) l = 1"
    using hub_handle_lists [OF h1] Cons.prems by simp_all
  show ?case
    using Cons.IH [OF n2(1) _ l] hub_handle_volume [OF h1 _ Cons.prems(3)] hub_handle_focus [OF h1 _ Cons.prems(4)] Cons.prems(2)
    by (auto simp: n2(2) intro: chain_append)
qed simp

theorem listener_follows_witness:
  "chain f32_within_epsilon 0
     (heard pick_volume (5 :: nat) (snd (hub_run (add_keyboard_listener (\<lambda>_. True) (add_audio_listener (\<lambda>_. True) (hub_default :: (nat, nat) hub) 5) 5)
       [(\<lambda>_. True, \<lambda>_. None :: nat relayer option, Up_Volume 0x3F800000), (\<lambda>_. True, \<lambda>_. None, Up_Volume 0x3F800000)])))
     0x3F800000"
proof -
  let ?hub = "add_keyboard_listener (\<lambda>_. True) (add_audio_listener (\<lambda>_. True) (hub_default :: (nat, nat) hub) 5) 5"
  let ?us = "[(\<lambda>_. True, \<lambda>_. None :: nat relayer option, Up_Volume 0x3F800000), (\<lambda>_. True, \<lambda>_. None, Up_Volume 0x3F800000)]"
  have r: "hub_run ?hub ?us = (?hub\<lparr>hub_tracked := tracked_default\<lparr>tr_volume := 0x3F800000\<rparr>\<rparr>, [(5, Volume_Changed 0 0x3F800000)])"
    by (simp add: add_keyboard_listener_def add_audio_listener_def hub_default_def subscribe_def volume_updated_def tracked_default_def
        notify_def awake_def Let_def f32_within_epsilon_def f32_eval)
  from listener_follows [OF r, of 5] show ?thesis
    unfolding r by (simp add: add_keyboard_listener_def add_audio_listener_def hub_default_def subscribe_def tracked_default_def)
qed

text \<open>
  Push updates come from the main protocol and only from it. After \<open>start\<close>, as long as the same protocols are
  registered, and whatever takeovers happen, the update of a protocol is forwarded exactly when it is the main one and the
  caller's listener is alive, and all instances have been started; after \<open>stop\<close> nothing is forwarded.
\<close>

theorem push_updates_main_only:
  assumes "relayer_ok r" and "push_start r start pf = (pf', started, res)"
    and "relayer_ok r'" and "dom (registered r') = dom (registered r)"
  shows "push_event alive r' pf' p = (if main_protocol r' = Some p then push_listener alive pf else None)
    \<and> started = instances r \<and> (res = Ok () \<longleftrightarrow> (\<forall>inst \<in> set (instances r). start inst = Ok ()))
    \<and> push_event alive r' (fst (push_stop r' pf')) p = None"
proof -
  have pf': "pf' = push_attach r pf" and st: "started = instances r"
    and res: "res = (case find_map (\<lambda>x. case start x of Err e \<Rightarrow> Some e | Ok _ \<Rightarrow> None) (instances r) of None \<Rightarrow> Ok () | Some e \<Rightarrow> Err e)"
    using assms(2) by (auto simp: push_start_def try_all_result)
  have shims: "set (pf_shims pf') = dom (registered r)"
    using set_protocols [OF assms(1)] by (auto simp: pf' push_attach_def relayer_get_def)
  have l: "push_listener alive pf' = push_listener alive pf" by (simp add: pf' push_attach_def push_listener_def)
  have "p \<in> dom (registered r')" if "main_protocol r' = Some p"
    using that by (auto simp: main_protocol_def find_Some_iff)
  with shims assms(4) l have "push_event alive r' pf' p = (if main_protocol r' = Some p then push_listener alive pf else None)"
    by (auto simp: push_event_def shim_interested_def)
  moreover have "start inst = Ok () \<longleftrightarrow> (case start inst of Err e \<Rightarrow> Some e | Ok _ \<Rightarrow> None) = None" for inst
    by (cases "start inst") auto
  then have "res = Ok () \<longleftrightarrow> (\<forall>inst \<in> set (instances r). start inst = Ok ())"
    by (simp add: res find_map_None_iff [symmetric] split: option.splits)
  moreover have "push_event alive r' (fst (push_stop r' pf')) p = None"
    by (simp add: push_stop_def push_detach_def push_event_def)
  ultimately show ?thesis using st by blast
qed

theorem push_updates_main_only_witness:
  "push_event (\<lambda>_. True) \<lparr>priorities = [Mrp, Raop],
      registered = [Mrp \<mapsto> \<lparr>reg_instance = 1 :: nat, reg_declared = {}\<rparr>, Raop \<mapsto> \<lparr>reg_instance = 2, reg_declared = {}\<rparr>], holder = Some Raop\<rparr>
     \<lparr>pf_listener = Some (9 :: nat), pf_shims = [Mrp, Raop]\<rparr> Raop = Some 9"
proof -
  let ?m = "[Mrp \<mapsto> \<lparr>reg_instance = 1 :: nat, reg_declared = {}\<rparr>, Raop \<mapsto> \<lparr>reg_instance = 2, reg_declared = {}\<rparr>]"
  let ?r = "\<lparr>priorities = [Mrp, Raop], registered = ?m, holder = None\<rparr>"
  let ?r' = "\<lparr>priorities = [Mrp, Raop], registered = ?m, holder = Some Raop\<rparr>"
  have ok: "relayer_ok ?r" "relayer_ok ?r'" by (auto simp: relayer_ok_def)
  have "push_start ?r (\<lambda>_. Ok () :: nat + unit) \<lparr>pf_listener = Some (9 :: nat), pf_shims = []\<rparr>
     = (\<lparr>pf_listener = Some 9, pf_shims = [Mrp, Raop]\<rparr>, [1, 2], Ok ())"
    by (simp add: push_start_def push_attach_def protocols_def search_order_def relayer_get_def instances_def
        List.map_filter_simps Let_def)
  from push_updates_main_only [OF ok(1) this ok(2), of "\<lambda>_. True" Raop] show ?thesis
    by (simp add: main_protocol_def search_order_def push_listener_def)
qed

end
