(* ===== verification/Mrp_State.thy ===== *)
theory Mrp_State
  imports Mrp_Playing Mrp_Message Listener_Hub
begin

text \<open>
  What the MRP client knows of the device, and whom it tells (\<open>crates/pyatv-proto-mrp/src/state.rs\<close> with
  \<open>state/notify.rs\<close>, \<open>state/power.rs\<close> and \<open>state/volume.rs\<close>): every inbound message is one step of the
  state, which queues callbacks, and the notifier delivers them one by one. The typed half of
  \<open>protobuf/extensions.rs\<close> is here too: a message is decoded from the extension field it travels in.

  Not under \<open>src/\<close> are the decoders of \<open>prost\<close>, gathered in \<open>mrp_api\<close> with its merge. The time of
  the snapshot is an argument. Listeners are opaque; \<open>alive\<close> says which of the weak references still lead to one. A
  lock is never poisoned: nothing panics while it is held.
\<close>

unbundle bit_operations_syntax

section \<open>Messages\<close>

record 'm content_update_message =
  uc_items :: "'m content_item list"
  uc_path :: "player_path option"

record client_message =
  cm_client :: "now_playing_client option"

record path_message =
  pm_path :: "player_path option"

record default_commands_message =
  dc_commands :: "command_info list option"
  dc_path :: "player_path option"

record device_info_message =
  dim_unique_identifier :: "bytes option"
  dim_name :: bytes
  dim_device_uid :: "bytes option"
  dim_cluster_id :: "bytes option"
  dim_logical_count :: "u32 option"
  dim_proxy :: "bool option"
  dim_leader :: "bool option"
  dim_grouped :: "(bytes option \<times> bytes) list"

record volume_availability =
  va_available :: "bool option"
  va_capabilities :: "i32 option"

record volume_capabilities_message =
  vc_capabilities :: "volume_availability option"
  vc_device :: "bytes option"

record volume_change_message =
  vd_volume :: "u32 option"
  vd_device :: "bytes option"

definition blank_path :: player_path where
  "blank_path = \<lparr>pp_client = None, pp_player = None\<rparr>"

definition blank_set_state :: "'m set_state_message" where
  "blank_set_state = \<lparr>ss_playback_state = None, ss_commands = None, ss_queue = None, ss_path = None\<rparr>"

definition blank_device_info :: device_info_message where
  "blank_device_info = \<lparr>dim_unique_identifier = None, dim_name = [], dim_device_uid = None, dim_cluster_id = None,
     dim_logical_count = None, dim_proxy = None, dim_leader = None, dim_grouped = []\<rparr>"

definition blank_availability :: volume_availability where
  "blank_availability = \<lparr>va_available = None, va_capabilities = None\<rparr>"

record 'm mrp_api =
  decode_set_state :: "bytes \<Rightarrow> string + 'm set_state_message"
  decode_content_update :: "bytes \<Rightarrow> string + 'm content_update_message"
  decode_now_playing_client :: "bytes \<Rightarrow> string + client_message"
  decode_now_playing_player :: "bytes \<Rightarrow> string + path_message"
  decode_update_client :: "bytes \<Rightarrow> string + client_message"
  decode_remove_client :: "bytes \<Rightarrow> string + client_message"
  decode_remove_player :: "bytes \<Rightarrow> string + path_message"
  decode_default_commands :: "bytes \<Rightarrow> string + default_commands_message"
  decode_device_info :: "bytes \<Rightarrow> string + device_info_message"
  decode_volume_availability :: "bytes \<Rightarrow> string + volume_availability"
  decode_volume_capabilities :: "bytes \<Rightarrow> string + volume_capabilities_message"
  decode_volume_change :: "bytes \<Rightarrow> string + volume_change_message"
  merge_metadata :: "'m metadata \<Rightarrow> 'm metadata \<Rightarrow> 'm metadata"
  blank_metadata :: "'m metadata"

text \<open>\<open>MessageExtension::decode\<close>, for the field called \<open>name\<close> with the number \<open>number\<close>, and \<open>MrpMessage::inner\<close>.\<close>

definition extension_decode :: "string \<Rightarrow> nat \<Rightarrow> (bytes \<Rightarrow> string + 'a) \<Rightarrow> bytes \<Rightarrow> mrp_error + 'a option" where
  "extension_decode name number decode envelope =
     rbind (map_err MrpWire (find_length_delimited envelope number)) (\<lambda>found.
     case found of
       None \<Rightarrow> Ok None
     | Some payload \<Rightarrow> rbind (map_err (\<lambda>e. MrpDecode (name @ '': '' @ e)) (decode payload)) (\<lambda>v. Ok (Some v)))"

definition msg_inner :: "string \<Rightarrow> nat \<Rightarrow> (bytes \<Rightarrow> string + 'a) \<Rightarrow> 'a \<Rightarrow> mrp_message \<Rightarrow> mrp_error + 'a" where
  "msg_inner name number decode blank m =
     rbind (extension_decode name number decode (msg_encoded m)) (\<lambda>v. Ok (case v of Some x \<Rightarrow> x | None \<Rightarrow> blank))"

section \<open>The state\<close>

definition QUEUE_DEPTH :: nat where
  "QUEUE_DEPTH = 64"

datatype 'e notification =
    N_Playing playing
  | N_Playback_Error 'e
  | N_Power power_state power_state
  | N_Volume u32
  | N_Device_Volume bytes u32
  | N_Devices "output_device list"

record volume_state =
  vs_available :: bool
  vs_absolute :: bool
  vs_relative :: bool
  vs_level :: u32
  vs_devices :: "output_device list"

datatype inbox = Inbox_Waiting | Inbox_Taken | Inbox_Gone

record ('m, 'e, 'l, 'p, 'd) mrp_state =
  st_players :: "'m players"
  st_device_info :: "device_info_message option"
  st_volume :: volume_state
  st_volume_wakes :: nat
  st_devices_wakes :: nat
  st_power :: power_state
  st_push_listener :: "'l option"
  st_push_active :: bool
  st_power_listener :: "'p option"
  st_dispatcher :: "'d option"
  st_queue :: "'e notification list"
  st_inbox :: inbox

definition mrp_state_new :: "('m, 'e, 'l, 'p, 'd) mrp_state" where
  "mrp_state_new =
     \<lparr>st_players = players_new, st_device_info = None,
      st_volume = \<lparr>vs_available = False, vs_absolute = False, vs_relative = False, vs_level = 0, vs_devices = []\<rparr>,
      st_volume_wakes = 0, st_devices_wakes = 0, st_power = PS_Unknown,
      st_push_listener = None, st_push_active = False, st_power_listener = None, st_dispatcher = None,
      st_queue = [], st_inbox = Inbox_Waiting\<rparr>"

definition start_notifier :: "('m, 'e, 'l, 'p, 'd) mrp_state \<Rightarrow> bool \<times> ('m, 'e, 'l, 'p, 'd) mrp_state" where
  "start_notifier s = (if st_inbox s = Inbox_Waiting then (True, s\<lparr>st_inbox := Inbox_Taken\<rparr>) else (False, s))"

definition post :: "'e notification \<Rightarrow> ('m, 'e, 'l, 'p, 'd) mrp_state \<Rightarrow> ('m, 'e, 'l, 'p, 'd) mrp_state" where
  "post n s =
     (if st_inbox s = Inbox_Gone then s
      else if QUEUE_DEPTH \<le> length (st_queue s) then s
      else s\<lparr>st_queue := st_queue s @ [n]\<rparr>)"

definition state_playing :: "f64 \<Rightarrow> ('m, 'e, 'l, 'p, 'd) mrp_state \<Rightarrow> playing" where
  "state_playing now s = build_playing_at (now_playing (st_players s)) now"

definition state_app :: "('m, 'e, 'l, 'p, 'd) mrp_state \<Rightarrow> (bytes \<times> bytes) option" where
  "state_app s =
     map_option (\<lambda>c. (case cl_display_name c of Some n \<Rightarrow> n | None \<Rightarrow> cl_bundle c, cl_bundle c)) (active_client (st_players s))"

definition post_update :: "f64 \<Rightarrow> ('m, 'e, 'l, 'p, 'd) mrp_state \<Rightarrow> ('m, 'e, 'l, 'p, 'd) mrp_state" where
  "post_update now s = (if \<not> st_push_active s then s else post (N_Playing (state_playing now s)) s)"

definition post_error :: "'e \<Rightarrow> ('m, 'e, 'l, 'p, 'd) mrp_state \<Rightarrow> ('m, 'e, 'l, 'p, 'd) mrp_state" where
  "post_error e s = post (N_Playback_Error e) s"

section \<open>The players\<close>

record owned_change =
  oc_client :: "bytes option"
  oc_player :: "bytes option"
  oc_silent :: bool

definition change_always :: owned_change where
  "change_always = \<lparr>oc_client = None, oc_player = None, oc_silent = False\<rparr>"

definition change_player :: "bytes \<Rightarrow> owned_change" where
  "change_player i = change_always\<lparr>oc_player := Some i\<rparr>"

definition change_client :: "bytes \<Rightarrow> owned_change" where
  "change_client i = change_always\<lparr>oc_client := Some i\<rparr>"

definition change_silent :: owned_change where
  "change_silent = change_always\<lparr>oc_silent := True\<rparr>"

definition mutate ::
  "f64 \<Rightarrow> ('m players \<Rightarrow> owned_change \<times> 'm players) \<Rightarrow> ('m, 'e, 'l, 'p, 'd) mrp_state \<Rightarrow> ('m, 'e, 'l, 'p, 'd) mrp_state" where
  "mutate now apply s =
     (let (ch, m) = apply (st_players s);
          s1 = s\<lparr>st_players := m\<rparr>
      in if \<not> oc_silent ch \<and> should_notify \<lparr>ch_client = oc_client ch, ch_player = oc_player ch\<rparr> m
         then post_update now s1 else s1)"

abbreviation path_of :: "player_path option \<Rightarrow> player_path" where
  "path_of p \<equiv> case p of Some x \<Rightarrow> x | None \<Rightarrow> blank_path"

abbreviation client_of :: "now_playing_client option \<Rightarrow> now_playing_client" where
  "client_of p \<equiv> case p of Some x \<Rightarrow> x | None \<Rightarrow> blank_client"

text \<open>The closures the handlers hand to \<open>mutate\<close>.\<close>

definition apply_set_state :: "'m set_state_message \<Rightarrow> 'm players \<Rightarrow> owned_change \<times> 'm players" where
  "apply_set_state i m =
     (let (identifier, m') = player_mut (path_of (ss_path i)) (\<lambda>p. (ps_identifier p, player_set_state i p)) m in
      (change_player identifier, m'))"

definition apply_content_update :: "'m mrp_api \<Rightarrow> 'm content_update_message \<Rightarrow> 'm players \<Rightarrow> owned_change \<times> 'm players" where
  "apply_content_update api i m =
     (let (identifier, m') = player_mut (path_of (uc_path i))
            (\<lambda>p. (ps_identifier p, player_content_update (merge_metadata api) (blank_metadata api) (uc_items i) p)) m in
      (change_player identifier, m'))"

definition apply_now_playing_client :: "client_message \<Rightarrow> 'm players \<Rightarrow> owned_change \<times> 'm players" where
  "apply_now_playing_client i m = (change_always, set_now_playing_client (client_of (cm_client i)) m)"

definition apply_now_playing_player :: "path_message \<Rightarrow> 'm players \<Rightarrow> owned_change \<times> 'm players" where
  "apply_now_playing_player i m = (let (b, m') = set_now_playing_player (path_of (pm_path i)) m in (change_client b, m'))"

definition apply_update_client :: "client_message \<Rightarrow> 'm players \<Rightarrow> owned_change \<times> 'm players" where
  "apply_update_client i m = (let (b, m') = update_client (client_of (cm_client i)) m in (change_client b, m'))"

definition apply_remove_client :: "client_message \<Rightarrow> 'm players \<Rightarrow> owned_change \<times> 'm players" where
  "apply_remove_client i m =
     (let (active, m') = remove_client (client_of (cm_client i)) m in
      (if active then change_always else change_silent, m'))"

definition apply_remove_player :: "path_message \<Rightarrow> 'm players \<Rightarrow> owned_change \<times> 'm players" where
  "apply_remove_player i m =
     (let (b, m') = remove_player (path_of (pm_path i)) m in
      (case b of Some x \<Rightarrow> change_client x | None \<Rightarrow> change_silent, m'))"

definition apply_default_commands :: "default_commands_message \<Rightarrow> 'm players \<Rightarrow> owned_change \<times> 'm players" where
  "apply_default_commands i m =
     (change_always, set_default_supported_commands (path_of (dc_path i)) (case dc_commands i of Some c \<Rightarrow> c | None \<Rightarrow> []) m)"

section \<open>Power\<close>

definition from_device_info :: "device_info_message \<Rightarrow> power_state" where
  "from_device_info i = (if 1 \<le> (case dim_logical_count i of Some n \<Rightarrow> n | None \<Rightarrow> 0) then PS_On else PS_Off)"

definition update_power :: "power_state \<Rightarrow> ('m, 'e, 'l, 'p, 'd) mrp_state \<Rightarrow> ('m, 'e, 'l, 'p, 'd) mrp_state" where
  "update_power new s = (if st_power s = new then s else post (N_Power (st_power s) new) (s\<lparr>st_power := new\<rparr>))"

section \<open>Volume and output devices\<close>

definition state_device_uid :: "('m, 'e, 'l, 'p, 'd) mrp_state \<Rightarrow> bytes option" where
  "state_device_uid s =
     map_option (\<lambda>i. case dim_cluster_id i of
         Some c \<Rightarrow> if c \<noteq> [] then c else or_empty (dim_device_uid i)
       | None \<Rightarrow> or_empty (dim_device_uid i)) (st_device_info s)"

definition volume_available :: "('m, 'e, 'l, 'p, 'd) mrp_state \<Rightarrow> bool" where
  "volume_available s \<longleftrightarrow> vs_available (st_volume s) \<and> state_device_uid s \<noteq> None"

definition device_identifiers :: "volume_state \<Rightarrow> bytes list" where
  "device_identifiers v = map od_identifier (vs_devices v)"

text \<open>The capabilities are 1, relative, 2, absolute, and 3, both.\<close>

definition apply_volume_capabilities ::
  "volume_availability \<Rightarrow> ('m, 'e, 'l, 'p, 'd) mrp_state \<Rightarrow> ('m, 'e, 'l, 'p, 'd) mrp_state" where
  "apply_volume_capabilities i s =
     s\<lparr>st_volume := (st_volume s)
        \<lparr>vs_available := (case va_available i of Some b \<Rightarrow> b | None \<Rightarrow> False),
         vs_absolute := va_capabilities i = Some 2 \<or> va_capabilities i = Some 3,
         vs_relative := va_capabilities i = Some 1 \<or> va_capabilities i = Some 3\<rparr>\<rparr>"

definition round_to_tenth :: "u32 \<Rightarrow> u32" where
  "round_to_tenth v = f32_div_nat (f32_round (f32_mul_nat v 10)) 10"

definition handle_volume_change ::
  "volume_change_message \<Rightarrow> ('m, 'e, 'l, 'p, 'd) mrp_state \<Rightarrow> ('m, 'e, 'l, 'p, 'd) mrp_state" where
  "handle_volume_change i s =
     (let level = round_to_tenth (f32_mul_nat (case vd_volume i of Some v \<Rightarrow> v | None \<Rightarrow> 0) 100);
          uid = or_empty (vd_device i);
          s1 = (if uid = or_empty (state_device_uid s)
                then post (N_Volume level) (s\<lparr>st_volume := (st_volume s)\<lparr>vs_level := level\<rparr>\<rparr>)
                else post (N_Device_Volume uid level) s)
      in s1\<lparr>st_volume_wakes := st_volume_wakes s1 + 1\<rparr>)"

definition group_of :: "device_info_message \<Rightarrow> output_device list" where
  "group_of i =
     (if dim_leader i = Some True \<and> dim_proxy i \<noteq> Some True
      then [(output_device_new (or_empty (dim_unique_identifier i)))\<lparr>od_name := Some (dim_name i)\<rparr>] else [])
     @ map (\<lambda>(uid, name). (output_device_new (or_empty uid))\<lparr>od_name := Some name\<rparr>) (dim_grouped i)"

definition update_output_devices ::
  "device_info_message \<Rightarrow> ('m, 'e, 'l, 'p, 'd) mrp_state \<Rightarrow> ('m, 'e, 'l, 'p, 'd) mrp_state" where
  "update_output_devices i s =
     post (N_Devices (group_of i))
       (s\<lparr>st_volume := (st_volume s)\<lparr>vs_devices := group_of i\<rparr>, st_devices_wakes := st_devices_wakes s + 1\<rparr>)"

definition handle_device_info :: "device_info_message \<Rightarrow> ('m, 'e, 'l, 'p, 'd) mrp_state \<Rightarrow> ('m, 'e, 'l, 'p, 'd) mrp_state" where
  "handle_device_info i s = update_power (from_device_info i) (update_output_devices i (s\<lparr>st_device_info := Some i\<rparr>))"

definition handle_volume_capabilities ::
  "volume_capabilities_message \<Rightarrow> ('m, 'e, 'l, 'p, 'd) mrp_state \<Rightarrow> ('m, 'e, 'l, 'p, 'd) mrp_state" where
  "handle_volume_capabilities i s =
     (if or_empty (vc_device i) \<noteq> or_empty (state_device_uid s) then s
      else apply_volume_capabilities (case vc_capabilities i of Some c \<Rightarrow> c | None \<Rightarrow> blank_availability) s)"

section \<open>Messages and callbacks\<close>

definition decoded ::
  "mrp_error + 'i \<Rightarrow> ('i \<Rightarrow> ('m, 'e, 'l, 'p, 'd) mrp_state \<Rightarrow> ('m, 'e, 'l, 'p, 'd) mrp_state)
   \<Rightarrow> ('m, 'e, 'l, 'p, 'd) mrp_state \<Rightarrow> (mrp_error + unit) \<times> ('m, 'e, 'l, 'p, 'd) mrp_state" where
  "decoded r f s = (case r of Err e \<Rightarrow> (Err e, s) | Ok i \<Rightarrow> (Ok (), f i s))"

text \<open>The numbers are those of \<open>ProtocolMessage.Type\<close> and of the extension fields in the \<open>.proto\<close> files.\<close>

definition mrp_handle ::
  "'m mrp_api \<Rightarrow> f64 \<Rightarrow> mrp_message \<Rightarrow> ('m, 'e, 'l, 'p, 'd) mrp_state
   \<Rightarrow> (mrp_error + unit) \<times> ('m, 'e, 'l, 'p, 'd) mrp_state" where
  "mrp_handle api now msg s =
     (let t = message_type msg in
      if t = 15 \<or> t = 37 then
        decoded (msg_inner ''deviceInfoMessage'' 20 (decode_device_info api) blank_device_info msg) handle_device_info s
      else if t = 17 then
        decoded (msg_inner ''volumeControlAvailabilityMessage'' 22 (decode_volume_availability api) blank_availability msg)
          apply_volume_capabilities s
      else if t = 64 then
        decoded (msg_inner ''volumeControlCapabilitiesDidChangeMessage'' 68 (decode_volume_capabilities api)
                   \<lparr>vc_capabilities = None, vc_device = None\<rparr> msg) handle_volume_capabilities s
      else if t = 52 then
        decoded (msg_inner ''volumeDidChangeMessage'' 56 (decode_volume_change api)
                   \<lparr>vd_volume = None, vd_device = None\<rparr> msg) handle_volume_change s
      else if t = 4 then
        decoded (msg_inner ''setStateMessage'' 9 (decode_set_state api) blank_set_state msg)
          (\<lambda>i. mutate now (apply_set_state i)) s
      else if t = 56 then
        decoded (msg_inner ''updateContentItemMessage'' 60 (decode_content_update api) \<lparr>uc_items = [], uc_path = None\<rparr> msg)
          (\<lambda>i. mutate now (apply_content_update api i)) s
      else if t = 46 then
        decoded (msg_inner ''setNowPlayingClientMessage'' 50 (decode_now_playing_client api) \<lparr>cm_client = None\<rparr> msg)
          (\<lambda>i. mutate now (apply_now_playing_client i)) s
      else if t = 47 then
        decoded (msg_inner ''setNowPlayingPlayerMessage'' 51 (decode_now_playing_player api) \<lparr>pm_path = None\<rparr> msg)
          (\<lambda>i. mutate now (apply_now_playing_player i)) s
      else if t = 55 then
        decoded (msg_inner ''updateClientMessage'' 59 (decode_update_client api) \<lparr>cm_client = None\<rparr> msg)
          (\<lambda>i. mutate now (apply_update_client i)) s
      else if t = 53 then
        decoded (msg_inner ''removeClientMessage'' 57 (decode_remove_client api) \<lparr>cm_client = None\<rparr> msg)
          (\<lambda>i. mutate now (apply_remove_client i)) s
      else if t = 54 then
        decoded (msg_inner ''removePlayerMessage'' 58 (decode_remove_player api) \<lparr>pm_path = None\<rparr> msg)
          (\<lambda>i. mutate now (apply_remove_player i)) s
      else if t = 72 then
        decoded (msg_inner ''setDefaultSupportedCommandsMessage'' 75 (decode_default_commands api)
                   \<lparr>dc_commands = None, dc_path = None\<rparr> msg)
          (\<lambda>i. mutate now (apply_default_commands i)) s
      else (Ok (), s))"

datatype ('e, 'l, 'p, 'd) callback =
    Playstatus_Update 'l playing
  | Playstatus_Error 'l 'e
  | Power_State_Changed 'p power_state power_state
  | Volume_Updated 'd u32
  | Device_Volume_Updated 'd bytes u32
  | Devices_Updated 'd "output_device list"

definition live_push_listener ::
  "('l \<Rightarrow> bool) \<Rightarrow> ('m, 'e, 'l, 'p, 'd) mrp_state \<Rightarrow> 'l option \<times> ('m, 'e, 'l, 'p, 'd) mrp_state" where
  "live_push_listener alive s =
     (case st_push_listener s of
        Some l \<Rightarrow> if alive l then (Some l, s) else (None, s\<lparr>st_push_listener := None\<rparr>)
      | None \<Rightarrow> (None, s\<lparr>st_push_listener := None\<rparr>))"

definition deliver ::
  "('l \<Rightarrow> bool) \<Rightarrow> 'e notification \<Rightarrow> ('m, 'e, 'l, 'p, 'd) mrp_state
   \<Rightarrow> ('e, 'l, 'p, 'd) callback list \<times> ('m, 'e, 'l, 'p, 'd) mrp_state" where
  "deliver alive n s =
     (case n of
        N_Playing pl \<Rightarrow>
          let (l, s') = live_push_listener alive s in (case l of Some x \<Rightarrow> [Playstatus_Update x pl] | None \<Rightarrow> [], s')
      | N_Playback_Error e \<Rightarrow>
          let (l, s') = live_push_listener alive s in (case l of Some x \<Rightarrow> [Playstatus_Error x e] | None \<Rightarrow> [], s')
      | N_Power a b \<Rightarrow> (case st_power_listener s of Some p \<Rightarrow> [Power_State_Changed p a b] | None \<Rightarrow> [], s)
      | N_Volume v \<Rightarrow> (case st_dispatcher s of Some d \<Rightarrow> [Volume_Updated d v] | None \<Rightarrow> [], s)
      | N_Device_Volume i v \<Rightarrow> (case st_dispatcher s of Some d \<Rightarrow> [Device_Volume_Updated d i v] | None \<Rightarrow> [], s)
      | N_Devices ds \<Rightarrow> (case st_dispatcher s of Some d \<Rightarrow> [Devices_Updated d ds] | None \<Rightarrow> [], s))"

text \<open>One turn of the notifier task.\<close>

definition notifier_turn ::
  "('l \<Rightarrow> bool) \<Rightarrow> ('m, 'e, 'l, 'p, 'd) mrp_state
   \<Rightarrow> ('e, 'l, 'p, 'd) callback list \<times> ('m, 'e, 'l, 'p, 'd) mrp_state" where
  "notifier_turn alive s =
     (if st_inbox s \<noteq> Inbox_Taken then ([], s)
      else case st_queue s of
             [] \<Rightarrow> ([], s)
           | n # ns \<Rightarrow> deliver alive n (s\<lparr>st_queue := ns\<rparr>))"

section \<open>The states a session can reach\<close>

inductive mrp_reach :: "'m mrp_api \<Rightarrow> ('m, 'e, 'l, 'p, 'd) mrp_state \<Rightarrow> bool" for api :: "'m mrp_api" where
  mreach_new: "mrp_reach api mrp_state_new"
| mreach_handle: "mrp_reach api s \<Longrightarrow> mrp_reach api (snd (mrp_handle api now msg s))"
| mreach_update: "mrp_reach api s \<Longrightarrow> mrp_reach api (post_update now s)"
| mreach_error: "mrp_reach api s \<Longrightarrow> mrp_reach api (post_error e s)"
| mreach_notifier: "mrp_reach api s \<Longrightarrow> mrp_reach api (snd (start_notifier s))"
| mreach_turn: "mrp_reach api s \<Longrightarrow> mrp_reach api (snd (notifier_turn alive s))"
| mreach_stopped: "mrp_reach api s \<Longrightarrow> mrp_reach api (s\<lparr>st_inbox := Inbox_Gone\<rparr>)"
| mreach_push_listener: "mrp_reach api s \<Longrightarrow> mrp_reach api (s\<lparr>st_push_listener := Some l\<rparr>)"
| mreach_push_active: "mrp_reach api s \<Longrightarrow> mrp_reach api (s\<lparr>st_push_active := b\<rparr>)"
| mreach_power_listener: "mrp_reach api s \<Longrightarrow> mrp_reach api (s\<lparr>st_power_listener := p\<rparr>)"
| mreach_dispatcher: "mrp_reach api s \<Longrightarrow> mrp_reach api (s\<lparr>st_dispatcher := d\<rparr>)"

text \<open>What the state derives from the last device information, and the bounds of its queue.\<close>

definition derived_power :: "device_info_message option \<Rightarrow> power_state" where
  "derived_power i = (case i of None \<Rightarrow> PS_Unknown | Some d \<Rightarrow> from_device_info d)"

definition derived_group :: "device_info_message option \<Rightarrow> output_device list" where
  "derived_group i = (case i of None \<Rightarrow> [] | Some d \<Rightarrow> group_of d)"

lemma derived_simps [simp]:
  "derived_power None = PS_Unknown" "derived_power (Some d) = from_device_info d"
  "derived_group None = []" "derived_group (Some d) = group_of d"
  by (simp_all add: derived_power_def derived_group_def)

definition derived_ok :: "('m, 'e, 'l, 'p, 'd) mrp_state \<Rightarrow> bool" where
  "derived_ok s \<longleftrightarrow> length (st_queue s) \<le> QUEUE_DEPTH \<and> st_power s = derived_power (st_device_info s)
     \<and> vs_devices (st_volume s) = derived_group (st_device_info s)"

definition state_ok :: "('m, 'e, 'l, 'p, 'd) mrp_state \<Rightarrow> bool" where
  "state_ok s \<longleftrightarrow> players_ok (st_players s) \<and> derived_ok s"

lemma post_fields [simp]:
  "st_players (post n s) = st_players s" "st_device_info (post n s) = st_device_info s"
  "st_volume (post n s) = st_volume s" "st_power (post n s) = st_power s"
  "st_push_active (post n s) = st_push_active s" "st_inbox (post n s) = st_inbox s"
  by (simp_all add: post_def)

lemma post_length: "length (st_queue s) \<le> QUEUE_DEPTH \<Longrightarrow> length (st_queue (post n s)) \<le> QUEUE_DEPTH"
  by (auto simp: post_def)

lemma post_ok [simp]: "state_ok s \<Longrightarrow> state_ok (post n s)"
  using post_length [of s n] by (simp add: state_ok_def derived_ok_def)

lemma post_update_ok [simp]: "state_ok s \<Longrightarrow> state_ok (post_update now s)"
  by (simp add: post_update_def)

lemma mutate_ok:
  assumes "state_ok s" and "\<And>m. players_ok m \<Longrightarrow> players_ok (snd (apply m))"
  shows "state_ok (mutate now apply s)"
proof -
  obtain ch m where a: "apply (st_players s) = (ch, m)" by (cases "apply (st_players s)")
  with assms(1) assms(2) [of "st_players s"] have "state_ok (s\<lparr>st_players := m\<rparr>)" by (simp add: state_ok_def derived_ok_def)
  with a show ?thesis by (simp add: mutate_def Let_def)
qed

lemma apply_ok:
  assumes "players_ok m"
  shows "players_ok (snd (apply_set_state ss m))" "players_ok (snd (apply_content_update api uc m))"
    "players_ok (snd (apply_now_playing_client cm m))" "players_ok (snd (apply_now_playing_player pm m))"
    "players_ok (snd (apply_update_client cm m))" "players_ok (snd (apply_remove_client cm m))"
    "players_ok (snd (apply_remove_player pm m))" "players_ok (snd (apply_default_commands dc m))"
proof -
  have "players_ok (snd (player_mut p (\<lambda>q. (ps_identifier q, player_set_state ss q)) m))" for p
    by (rule player_mut_ok [OF assms]) simp
  then show "players_ok (snd (apply_set_state ss m))" by (simp add: apply_set_state_def split_beta)
  have "players_ok (snd (player_mut p (\<lambda>q. (ps_identifier q, player_content_update f b us q)) m))" for p f b us
    by (rule player_mut_ok [OF assms]) simp
  then show "players_ok (snd (apply_content_update api uc m))" by (simp add: apply_content_update_def split_beta)
qed (use assms in \<open>simp_all add: apply_now_playing_client_def apply_now_playing_player_def apply_update_client_def
    apply_remove_client_def apply_remove_player_def apply_default_commands_def split_beta
    set_client_ok set_player_ok update_client_ok remove_client_ok remove_player_ok set_commands_ok\<close>)

lemma decoded_ok: "state_ok s \<Longrightarrow> (\<And>i. state_ok (f i s)) \<Longrightarrow> state_ok (snd (decoded r f s))"
  by (simp add: decoded_def split: sum.splits)

lemma power_ok:
  "state_ok (update_power (from_device_info i) (update_output_devices i (s\<lparr>st_device_info := Some i\<rparr>)))"
  if "players_ok (st_players s)" "length (st_queue s) \<le> QUEUE_DEPTH"
  using that
  by (auto simp: update_power_def update_output_devices_def state_ok_def derived_ok_def intro!: post_length)

lemma device_handlers_ok:
  assumes "state_ok s"
  shows "state_ok (handle_device_info di s)" "state_ok (apply_volume_capabilities va s)"
    "state_ok (handle_volume_capabilities vc s)" "state_ok (handle_volume_change vd s)"
proof -
  have caps: "state_ok (apply_volume_capabilities va s)" for va
    using assms by (simp add: apply_volume_capabilities_def state_ok_def derived_ok_def split: option.splits)
  show "state_ok (handle_device_info di s)"
    using power_ok [of s di] assms by (simp add: handle_device_info_def state_ok_def derived_ok_def)
  show "state_ok (apply_volume_capabilities va s)" "state_ok (handle_volume_capabilities vc s)"
    using caps assms by (simp_all add: handle_volume_capabilities_def)
  have level: "state_ok (s\<lparr>st_volume := (st_volume s)\<lparr>vs_level := l\<rparr>\<rparr>)" for l
    using assms by (simp add: state_ok_def derived_ok_def split: option.splits)
  have wake: "state_ok (t\<lparr>st_volume_wakes := n\<rparr>)" if "state_ok t" for t :: "('a, 'b, 'c, 'd, 'e) mrp_state" and n
    using that by (simp add: state_ok_def derived_ok_def)
  show "state_ok (handle_volume_change vd s)"
    using assms level by (simp add: handle_volume_change_def Let_def wake)
qed

lemma handle_ok: "state_ok s \<Longrightarrow> state_ok (snd (mrp_handle api now msg s))"
  by (simp add: mrp_handle_def Let_def decoded_ok device_handlers_ok mutate_ok apply_ok)

lemma notifier_turn_ok: "state_ok s \<Longrightarrow> state_ok (snd (notifier_turn alive s))"
  by (auto simp: notifier_turn_def deliver_def live_push_listener_def state_ok_def derived_ok_def Let_def
      split: list.splits notification.splits option.splits)

lemma mrp_reach_ok: "mrp_reach api s \<Longrightarrow> state_ok s"
proof (induction rule: mrp_reach.induct)
  case mreach_new
  show ?case by (simp add: mrp_state_new_def state_ok_def derived_ok_def)
qed (simp_all add: handle_ok notifier_turn_ok post_error_def, simp_all add: start_notifier_def state_ok_def derived_ok_def)

end
