(* ===== verification/Mrp_Updates.thy ===== *)
theory Mrp_Updates
  imports Mrp_State
begin

text \<open>
  What the MRP client promises about what is playing (\<open>player_state.rs\<close>, \<open>playing.rs\<close>, \<open>state.rs\<close>): its
  state is consistent, a change of what is playing is pushed, a queue index is Python's, the reported state
  and position are what the device says, and a level stays a percentage.
\<close>

section \<open>Changes and notifications\<close>

text \<open>A closure handed to \<open>mutate\<close> is reported when it asks for a notification in the state it leaves.\<close>

definition reports :: "owned_change \<times> 'm players \<Rightarrow> bool" where
  "reports r \<longleftrightarrow> \<not> oc_silent (fst r) \<and> should_notify \<lparr>ch_client = oc_client (fst r), ch_player = oc_player (fst r)\<rparr> (snd r)"

lemma reports_always [simp]: "reports (change_always, m)"
  by (simp add: reports_def change_always_def should_notify_def)

lemma reports_client [simp]: "reports (change_client b, m) \<longleftrightarrow> mg_active m = Some b"
  by (auto simp: reports_def change_client_def change_always_def should_notify_def)

lemma reports_silent [simp]: "\<not> reports (change_silent, m)"
  by (simp add: reports_def change_silent_def)

lemma reports_player: "ap_identifier (now_playing m) = i \<Longrightarrow> reports (change_player i, m)"
  by (simp add: reports_def change_player_def change_always_def should_notify_def)

text \<open>Only the active client matters to what is playing.\<close>

lemma playing_elsewhere:
  "mg_active m \<noteq> Some b \<Longrightarrow> now_playing (m\<lparr>mg_clients := (mg_clients m)(b := x)\<rparr>) = now_playing m"
  by (auto simp: now_playing_def active_client_def Option.bind_eq_None_conv split: option.splits bind_splits)

lemma playing_here:
  "mg_active m = Some b \<Longrightarrow> now_playing (m\<lparr>mg_clients := (mg_clients m)(b \<mapsto> c)\<rparr>) = client_active_player c"
  by (simp add: now_playing_def active_client_def)

lemma active_known:
  assumes "players_ok m" and "mg_active m = Some (or_empty (np_bundle np))"
  shows "active_client m = Some (client_at np m) \<and> client_ok (client_at np m) \<and> now_playing m = client_active_player (client_at np m)"
proof -
  obtain c where c: "mg_clients m (or_empty (np_bundle np)) = Some c" using assms by (auto simp: players_ok_def)
  with assms show ?thesis by (auto simp: client_at_def active_client_def now_playing_def players_ok_def)
qed

lemma player_update_reports:
  assumes ok: "players_ok m" and f: "\<And>s. ps_identifier (snd (f s)) = ps_identifier s" "\<And>s. fst (f s) = ps_identifier s"
    and r: "player_mut path f m = (i, m')" and ch: "now_playing m' \<noteq> now_playing m"
  shows "reports (change_player i, m')"
proof -
  let ?np = "path_client path" and ?pl = "path_player path"
  let ?c = "client_at ?np m" and ?b = "or_empty (np_bundle (path_client path))" and ?i = "or_empty (np_identifier (path_player path))"
  let ?p = "snd (f (player_at ?pl ?c))"
  let ?c' = "?c\<lparr>cl_players := (cl_players ?c)(?i \<mapsto> ?p)\<rparr>"
  have m': "m' = m\<lparr>mg_clients := (mg_clients m)(?b \<mapsto> ?c')\<rparr>" and i: "i = ps_identifier (player_at ?pl ?c)"
    using r by (auto simp: player_mut_def client_mut_eq client_player_mut_eq f(2))
  have a: "mg_active m = Some ?b" using ch playing_elsewhere [of m ?b "Some ?c'"] m' by blast
  note known = active_known [OF ok a]
  have i': "i = ?i" and p: "ps_identifier ?p = ?i"
    using known player_at_identifier [of ?c ?pl] f(1) i by auto
  have now: "now_playing m' = client_active_player ?c'" "now_playing m = client_active_player ?c"
    using playing_here [OF a] known m' by auto
  have "active_player_id ?c' = Some ?i"
  proof (rule ccontr)
    assume n: "active_player_id ?c' \<noteq> Some ?i"
    then have "active_player_id ?c' = active_player_id ?c" "cl_active ?c \<noteq> Some ?i"
      by (auto simp: active_player_id_def split: option.splits if_splits)
    with n have "client_active_player ?c' = client_active_player ?c"
      by (cases "active_player_id ?c") (auto simp: client_active_player_def)
    with now ch show False by simp
  qed
  then have "ap_identifier (now_playing m') = ?i" using p now(1) by (simp add: client_active_player_def ap_identifier_def)
  with i' show ?thesis by (simp add: reports_player)
qed

lemma client_update_reports:
  assumes ok: "players_ok m" and r: "client_mut np f m = (b, m')" and ch: "now_playing m' \<noteq> now_playing m"
    and f: "\<And>c. fst (f c) = cl_bundle c"
  shows "reports (change_client b, m')"
proof -
  let ?b = "or_empty (np_bundle np)"
  have m': "m' = m\<lparr>mg_clients := (mg_clients m)(?b \<mapsto> snd (f (client_at np m)))\<rparr>" and b: "b = cl_bundle (client_at np m)"
    using r f by (auto simp: client_mut_eq)
  have "mg_active m = Some ?b" using ch playing_elsewhere [of m ?b] m' by blast
  with m' b client_at_ok [OF ok, of np] show ?thesis by simp
qed

lemma set_state_reports:
  "players_ok m \<Longrightarrow> now_playing (snd (apply_set_state i m)) \<noteq> now_playing m \<Longrightarrow> reports (apply_set_state i m)"
  using player_update_reports [of m "\<lambda>p. (ps_identifier p, player_set_state i p)" "path_of (ss_path i)"]
  by (cases "player_mut (path_of (ss_path i)) (\<lambda>p. (ps_identifier p, player_set_state i p)) m") (simp add: apply_set_state_def)

lemma content_update_reports:
  "players_ok m \<Longrightarrow> now_playing (snd (apply_content_update api i m)) \<noteq> now_playing m \<Longrightarrow> reports (apply_content_update api i m)"
  using player_update_reports [of m
      "\<lambda>p. (ps_identifier p, player_content_update (merge_metadata api) (blank_metadata api) (uc_items i) p)" "path_of (uc_path i)"]
  by (cases "player_mut (path_of (uc_path i))
      (\<lambda>p. (ps_identifier p, player_content_update (merge_metadata api) (blank_metadata api) (uc_items i) p)) m")
    (simp add: apply_content_update_def)

lemma now_playing_player_reports:
  assumes "players_ok m" and "now_playing (snd (apply_now_playing_player i m)) \<noteq> now_playing m"
  shows "reports (apply_now_playing_player i m)"
proof (cases "set_now_playing_player (path_of (pm_path i)) m")
  case (Pair b m')
  with assms have "now_playing m' \<noteq> now_playing m" by (simp add: apply_now_playing_player_def)
  from client_update_reports [OF assms(1) Pair [unfolded set_now_playing_player_def] this] Pair
  show ?thesis by (simp add: apply_now_playing_player_def split_beta)
qed

lemma update_client_reports:
  assumes "players_ok m" and "now_playing (snd (apply_update_client i m)) \<noteq> now_playing m"
  shows "reports (apply_update_client i m)"
proof (cases "update_client (client_of (cm_client i)) m")
  case (Pair b m')
  with assms have "now_playing m' \<noteq> now_playing m" by (simp add: apply_update_client_def)
  from client_update_reports [OF assms(1) Pair [unfolded update_client_def] this] Pair
  show ?thesis by (simp add: apply_update_client_def)
qed

lemma remove_client_reports:
  assumes "now_playing (snd (apply_remove_client i m)) \<noteq> now_playing m"
  shows "reports (apply_remove_client i m)"
  using assms playing_elsewhere [of m "or_empty (np_bundle (client_of (cm_client i)))" None]
  by (auto simp: apply_remove_client_def remove_client_def Let_def split: if_splits)

lemma remove_player_reports:
  assumes ok: "players_ok m" and act: "active_client m = Some c" "cl_active c \<noteq> None"
    and ch: "now_playing (snd (apply_remove_player i m)) \<noteq> now_playing m"
  shows "reports (apply_remove_player i m)"
proof -
  let ?path = "path_of (pm_path i)"
  have "\<exists>np. pp_player ?path = Some np \<and> or_empty (np_identifier np) \<noteq> []"
    using ch by (auto simp: apply_remove_player_def remove_player_def Let_def split: option.splits if_splits)
  then obtain np where np: "pp_player ?path = Some np" "or_empty (np_identifier np) \<noteq> []" by blast
  let ?i = "or_empty (np_identifier np)" and ?b = "or_empty (np_bundle (path_client ?path))"
  let ?c = "client_at (path_client ?path) m"
  let ?c1 = "?c\<lparr>cl_players := (cl_players ?c)(?i := None)\<rparr>"
  have r: "remove_player ?path m =
      (if active_player_id ?c1 = Some ?i \<or> cl_active ?c1 = Some ?i
       then (Some (cl_bundle ?c), m\<lparr>mg_clients := (mg_clients m)(?b \<mapsto> ?c1\<lparr>cl_active := None\<rparr>)\<rparr>)
       else (None, m\<lparr>mg_clients := (mg_clients m)(?b \<mapsto> ?c1)\<rparr>))"
    using np by (simp add: remove_player_def Let_def client_mut_eq)
  have a: "mg_active m = Some ?b"
    using ch playing_elsewhere [of m ?b] r by (auto simp: apply_remove_player_def split: if_splits)
  from active_known [OF ok a] act have c: "?c = c" "now_playing m = client_active_player c" "cl_bundle c = ?b"
    using client_at_ok [OF ok, of "path_client ?path"] by auto
  show ?thesis
  proof (cases "cl_active c = Some ?i")
    case True
    with r c a show ?thesis by (simp add: apply_remove_player_def)
  next
    case False
    with act(2) obtain j where j: "cl_active c = Some j" "j \<noteq> ?i" by auto
    then have "client_active_player ?c1 = client_active_player c"
      using c(1) by (simp add: client_active_player_def active_player_id_def)
    with ch r c(1,2) j playing_here [OF a] show ?thesis by (simp add: apply_remove_player_def active_player_id_def)
  qed
qed

lemma mutate_pushes:
  assumes "reports (apply (st_players s))" and "st_push_active s" and "st_inbox s \<noteq> Inbox_Gone"
    and "length (st_queue s) < QUEUE_DEPTH"
  shows "st_queue (mutate now apply s) = st_queue s @ [N_Playing (state_playing now (mutate now apply s))]"
  using assms by (cases "apply (st_players s)") (simp add: mutate_def reports_def post_update_def post_def state_playing_def)

lemma mutate_players: "st_players (mutate now apply s) = snd (apply (st_players s))"
  by (simp add: mutate_def post_update_def Let_def split: prod.splits)

lemma decoded_playing:
  assumes "decoded r f s = (res, s')" and "st_players s' \<noteq> st_players s"
  shows "\<exists>i. r = Ok i \<and> s' = f i s"
  using assms by (cases r) (auto simp: decoded_def)

lemma decoded_mutate:
  assumes "decoded r (\<lambda>i. mutate now (apply i)) s = (res, s')" and "now_playing (st_players s') \<noteq> now_playing (st_players s)"
    and "\<And>i. now_playing (snd (apply i (st_players s))) \<noteq> now_playing (st_players s) \<Longrightarrow> reports (apply i (st_players s))"
    and "st_push_active s" and "st_inbox s \<noteq> Inbox_Gone" and "length (st_queue s) < QUEUE_DEPTH"
  shows "st_queue s' = st_queue s @ [N_Playing (state_playing now s')]"
proof -
  from assms(1,2) obtain i where s': "s' = mutate now (apply i) s" by (cases r) (auto simp: decoded_def)
  with assms(2) have "reports (apply i (st_players s))" by (intro assms(3)) (simp add: mutate_players)
  from mutate_pushes [of "apply i" s, OF this assms(4-6)] s' show ?thesis by simp
qed

lemma device_handlers_players [simp]:
  "st_players (handle_device_info di s) = st_players s" "st_players (apply_volume_capabilities va s) = st_players s"
  "st_players (handle_volume_capabilities vc s) = st_players s" "st_players (handle_volume_change vd s) = st_players s"
  by (simp_all add: handle_device_info_def update_power_def update_output_devices_def apply_volume_capabilities_def
      handle_volume_capabilities_def handle_volume_change_def Let_def)

lemma decoded_keeps: "(\<And>i. st_players (f i s) = st_players s) \<Longrightarrow> st_players (snd (decoded r f s)) = st_players s"
  by (cases r) (simp_all add: decoded_def)

section \<open>A session\<close>

text \<open>Messages without their extension field, which decode as blank, and an API no decoder of which is used.\<close>

definition toy_api :: "unit mrp_api" where
  "toy_api = \<lparr>decode_set_state = (\<lambda>_. Err []), decode_content_update = (\<lambda>_. Err []),
     decode_now_playing_client = (\<lambda>_. Err []), decode_now_playing_player = (\<lambda>_. Err []), decode_update_client = (\<lambda>_. Err []),
     decode_remove_client = (\<lambda>_. Err []), decode_remove_player = (\<lambda>_. Err []), decode_default_commands = (\<lambda>_. Err []),
     decode_device_info = (\<lambda>_. Err []), decode_volume_availability = (\<lambda>_. Err []), decode_volume_capabilities = (\<lambda>_. Err []),
     decode_volume_change = (\<lambda>_. Err []), merge_metadata = (\<lambda>a b. b),
     blank_metadata = \<lparr>md_title = None, md_artist = None, md_album = None, md_genre = None, md_duration = None, md_elapsed = None,
       md_elapsed_timestamp = None, md_rate = None, md_season = None, md_episode = None, md_series = None,
       md_content_identifier = None, md_store_identifier = None, md_media_type = None, md_rest = ()\<rparr>\<rparr>"

definition toy_message :: "int \<Rightarrow> mrp_message" where
  "toy_message t = \<lparr>msg_envelope = \<lparr>env_type = Some t, env_identifier = None, env_authentication_token = None, env_error_code = None,
     env_timestamp = None, env_error_description = None, env_unique_identifier = None\<rparr>, msg_encoded = []\<rparr>"

definition toy_client_active :: "(unit, unit, unit, unit, unit) mrp_state" where
  "toy_client_active = snd (mrp_handle toy_api 0 (toy_message 46) (mrp_state_new\<lparr>st_push_active := True\<rparr>))"

definition toy_player_active :: "(unit, unit, unit, unit, unit) mrp_state" where
  "toy_player_active = snd (mrp_handle toy_api 0 (toy_message 47) toy_client_active)"

lemma toy_inner: "msg_inner name number decode blank (toy_message t) = Ok blank"
  by (simp add: msg_inner_def extension_decode_def toy_message_def find_length_delimited_def find_loop.simps next_field_def)

lemma toy_type: "message_type (toy_message t) = t"
  by (simp add: message_type_def toy_message_def)

lemma toy_reach: "mrp_reach toy_api toy_client_active" "mrp_reach toy_api toy_player_active"
proof -
  show "mrp_reach toy_api toy_client_active"
    unfolding toy_client_active_def by (rule mreach_handle [OF mreach_push_active [OF mreach_new]])
  then show "mrp_reach toy_api toy_player_active" unfolding toy_player_active_def by (rule mreach_handle)
qed

lemma toy_client_state:
  "st_players toy_client_active = \<lparr>mg_clients = [[] \<mapsto> client_new blank_client], mg_active = Some []\<rparr>"
  "st_push_active toy_client_active" "st_inbox toy_client_active = Inbox_Waiting" "length (st_queue toy_client_active) = 1"
  by (simp_all add: toy_client_active_def mrp_handle_def toy_type toy_inner decoded_def mutate_def apply_now_playing_client_def
      set_now_playing_client_def client_mut_def mrp_state_new_def players_new_def blank_client_def post_update_def post_def
      change_always_def should_notify_def QUEUE_DEPTH_def)

lemma toy_player_state: "ap_player (now_playing (st_players toy_player_active)) = Some (player_new blank_player)"
  by (simp add: toy_player_active_def mrp_handle_def toy_type toy_inner decoded_def mutate_players toy_client_state
      apply_now_playing_player_def set_now_playing_player_def client_mut_eq client_player_mut_eq client_at_def player_at_def
      blank_path_def blank_client_def blank_player_def now_playing_def active_client_def client_active_player_def active_player_id_def)

section \<open>Properties\<close>

text \<open>
  C12: what the client knows is consistent. However a session is driven, every client and player is filed under its
  own identifier, the client and the players named active are there, the power state and the output devices are those of the
  last device information, and at most 64 callbacks wait.
\<close>

theorem mrp_state_consistent:
  assumes "mrp_reach api s"
  shows "players_ok (st_players s) \<and> st_power s = derived_power (st_device_info s)
    \<and> vs_devices (st_volume s) = derived_group (st_device_info s) \<and> length (st_queue s) \<le> QUEUE_DEPTH"
  using mrp_reach_ok [OF assms] by (simp add: state_ok_def derived_ok_def)

theorem mrp_state_consistent_witness:
  "players_ok (st_players toy_player_active) \<and> st_power toy_player_active = derived_power (st_device_info toy_player_active)
    \<and> vs_devices (st_volume toy_player_active) = derived_group (st_device_info toy_player_active)
    \<and> length (st_queue toy_player_active) \<le> QUEUE_DEPTH"
  by (rule mrp_state_consistent [OF toy_reach(2)])

text \<open>
  C11: no change of what is playing is lost. While push updates are on and the queue has room, handling any message
  that changes the active player, its commands or its items queues the snapshot of the new state as the last
  callback. The one exception is the removal of the player that is active only for want of another.
\<close>

theorem playing_changes_pushed:
  assumes "mrp_reach api s" and h: "mrp_handle api now msg s = (r, s')"
    and ch: "now_playing (st_players s') \<noteq> now_playing (st_players s)"
    and q: "st_push_active s" "st_inbox s \<noteq> Inbox_Gone" "length (st_queue s) < QUEUE_DEPTH"
    and rm: "message_type msg = 54 \<Longrightarrow> active_client (st_players s) = Some c \<and> cl_active c \<noteq> None"
  shows "st_queue s' = st_queue s @ [N_Playing (state_playing now s')]"
proof -
  have ok: "players_ok (st_players s)" using mrp_reach_ok [OF assms(1)] by (simp add: state_ok_def)
  note push = decoded_mutate [OF _ ch _ q]
  have "message_type msg \<notin> {15, 37, 17, 64, 52}"
  proof
    assume "message_type msg \<in> {15, 37, 17, 64, 52}"
    then have "st_players (snd (mrp_handle api now msg s)) = st_players s"
      by (auto simp: mrp_handle_def decoded_keeps)
    with h ch show False by simp
  qed
  moreover have "message_type msg \<in> {15, 37, 17, 64, 52, 4, 56, 46, 47, 55, 53, 54, 72}" (is ?known)
  proof (rule ccontr)
    assume "\<not> ?known"
    with h ch show False by (simp add: mrp_handle_def)
  qed
  ultimately consider "message_type msg = 4" | "message_type msg = 56" | "message_type msg = 46" | "message_type msg = 47"
    | "message_type msg = 55" | "message_type msg = 53" | "message_type msg = 54" | "message_type msg = 72" by auto
  then show ?thesis
  proof cases
    case 1
    with h obtain d where "decoded d (\<lambda>i. mutate now (apply_set_state i)) s = (r, s')" by (auto simp: mrp_handle_def)
    then show ?thesis by (rule push) (rule set_state_reports [OF ok])
  next
    case 2
    with h obtain d where "decoded d (\<lambda>i. mutate now (apply_content_update api i)) s = (r, s')" by (auto simp: mrp_handle_def)
    then show ?thesis by (rule push) (rule content_update_reports [OF ok])
  next
    case 3
    with h obtain d where "decoded d (\<lambda>i. mutate now (apply_now_playing_client i)) s = (r, s')" by (auto simp: mrp_handle_def)
    then show ?thesis by (rule push) (simp add: apply_now_playing_client_def)
  next
    case 4
    with h obtain d where "decoded d (\<lambda>i. mutate now (apply_now_playing_player i)) s = (r, s')" by (auto simp: mrp_handle_def)
    then show ?thesis by (rule push) (rule now_playing_player_reports [OF ok])
  next
    case 5
    with h obtain d where "decoded d (\<lambda>i. mutate now (apply_update_client i)) s = (r, s')" by (auto simp: mrp_handle_def)
    then show ?thesis by (rule push) (rule update_client_reports [OF ok])
  next
    case 6
    with h obtain d where "decoded d (\<lambda>i. mutate now (apply_remove_client i)) s = (r, s')" by (auto simp: mrp_handle_def)
    then show ?thesis by (rule push) (rule remove_client_reports)
  next
    case 7
    with h obtain d where "decoded d (\<lambda>i. mutate now (apply_remove_player i)) s = (r, s')" by (auto simp: mrp_handle_def)
    then show ?thesis by (rule push) (use rm [OF 7] in \<open>blast intro: remove_player_reports [OF ok]\<close>)
  next
    case 8
    with h obtain d where "decoded d (\<lambda>i. mutate now (apply_default_commands i)) s = (r, s')" by (auto simp: mrp_handle_def)
    then show ?thesis by (rule push) (simp add: apply_default_commands_def)
  qed
qed

theorem playing_changes_pushed_witness:
  "st_queue toy_player_active = st_queue toy_client_active @ [N_Playing (state_playing 0 toy_player_active)]"
proof (rule playing_changes_pushed [OF toy_reach(1)])
  show "mrp_handle toy_api 0 (toy_message 47) toy_client_active
      = (fst (mrp_handle toy_api 0 (toy_message 47) toy_client_active), toy_player_active)"
    by (simp add: toy_player_active_def)
  have "ap_player (now_playing (st_players toy_client_active)) = None"
    by (simp add: toy_client_state now_playing_def active_client_def client_active_player_def active_player_id_def)
  with toy_player_state show "now_playing (st_players toy_player_active) \<noteq> now_playing (st_players toy_client_active)" by auto
qed (simp_all add: toy_client_state toy_type QUEUE_DEPTH_def)

text \<open>
  C13: removing the player that is active only for want of another is not reported. A client without an active
  player plays its default player; when that one is removed \<open>remove_player\<close> returns nothing to notify for, although
  its comment promises the bundle of the client whose active player was removed, and nothing plays any more.
\<close>

theorem default_removal_unreported:
  assumes "players_ok m" and "active_client m = Some c" and "cl_active c = None" and "cl_players c DEFAULT_PLAYER_ID = Some p"
    and "pp_player path = Some np" and "np_identifier np = Some DEFAULT_PLAYER_ID"
    and "or_empty (np_bundle (path_client path)) = cl_bundle c"
  shows "fst (remove_player path m) = None \<and> ap_player (now_playing m) = Some p
    \<and> ap_player (now_playing (snd (remove_player path m))) = None"
proof -
  have d: "DEFAULT_PLAYER_ID \<noteq> []" by (simp add: DEFAULT_PLAYER_ID_def lit_def)
  obtain b where b: "mg_active m = Some b" "mg_clients m b = Some c"
    using assms(2) by (cases "mg_active m") (auto simp: active_client_def)
  with assms(1,7) have "mg_active m = Some (or_empty (np_bundle (path_client path)))" by (auto simp: players_ok_def)
  from active_known [OF assms(1) this] assms(2) have a: "client_at (path_client path) m = c" "now_playing m = client_active_player c"
    by auto
  show ?thesis
    using assms d a playing_here [OF \<open>mg_active m = Some (or_empty (np_bundle (path_client path)))\<close>]
    by (simp add: remove_player_def client_mut_eq active_player_id_def client_active_player_def)
qed

theorem default_removal_unreported_witness:
  "fst (remove_player \<lparr>pp_client = None, pp_player = Some \<lparr>np_identifier = Some DEFAULT_PLAYER_ID, np_player_name = None\<rparr>\<rparr>
     \<lparr>mg_clients = [[] \<mapsto> (client_new blank_client)
        \<lparr>cl_players := [DEFAULT_PLAYER_ID \<mapsto> (player_default :: unit player_state)\<lparr>ps_identifier := DEFAULT_PLAYER_ID\<rparr>]\<rparr>],
      mg_active = Some []\<rparr>) = None"
  by (rule default_removal_unreported [THEN conjunct1])
    (auto simp: players_ok_def client_ok_def active_client_def blank_client_def)

text \<open>
  The index of the item that plays is Python's. \<open>queue_index\<close> finds an item exactly where subscripting a
  list of that length with the location would, counting from the end for a negative one, and nothing anywhere else, the
  least \<open>i32\<close> included.
\<close>

theorem queue_index_python:
  "queue_index location len = Some k \<longleftrightarrow>
     int k = (if sint location < 0 then sint location + int len else sint location) \<and> k < len"
  by (auto simp: queue_index_def bind_eq_Some_conv split: if_splits)

text \<open>
  When a player counts as playing. A player is reported as playing exactly when it said so and its item's
  playback rate is missing, zero, one or infinite. For an infinite rate Python's \<open>math.isclose\<close>, which
  \<open>is_close\<close> is said to spell out, answers no, and pyatv reports seeking.
\<close>

theorem reported_playing:
  "player_playback_state s = Some Ps_Playing \<longleftrightarrow>
     ps_raw_state s = Some 1 \<and>
     (Option.bind (player_metadata s) md_rate = None \<or>
      (\<exists>r. Option.bind (player_metadata s) md_rate = Some r \<and> (f32_eq r 0 \<or> f32_eq r 0x3F800000 \<or> f32_infinite r)))"
proof -
  have raw: "playback_from_i32 n = Some Ps_Playing \<longleftrightarrow> n = 1" for n
    by (simp add: playback_from_i32_def)
  have "player_playback_state s = Some Ps_Playing \<longleftrightarrow>
      Option.bind (ps_raw_state s) playback_from_i32 = Some Ps_Playing \<and>
      (case Option.bind (player_metadata s) md_rate of None \<Rightarrow> True | Some r \<Rightarrow> close_to_zero r \<or> close_to_one r)"
    by (cases "Option.bind (ps_raw_state s) playback_from_i32")
      (auto simp: player_playback_state_def split: option.splits)
  then show ?thesis
    by (cases "ps_raw_state s") (auto simp: raw close_to_zero_def close_to_one_def split: option.splits)
qed

text \<open>
  The snapshot follows the clock only while the device plays. If the device state is anything but playing, or
  the item does not move, or says nothing of its position, the snapshot is the same at every time.
\<close>

theorem snapshot_static:
  assumes "playing_device_state a \<noteq> Ds_Playing \<or> Option.bind (ap_metadata a) md_rate = None
    \<or> Option.bind (ap_metadata a) md_rate = Some 0 \<or> Option.bind (ap_metadata a) md_elapsed_timestamp = None"
  shows "build_playing_at a now = build_playing_at a now'"
proof -
  have "playing_position a (playing_device_state a) now = playing_position a (playing_device_state a) now'"
    using assms by (cases "ap_metadata a") (auto simp: playing_position_def Let_def f32_eq_def f32_is_nan_def split: option.splits)
  then show ?thesis by (simp add: build_playing_at_def Let_def)
qed

theorem snapshot_static_witness:
  "build_playing_at (now_playing (st_players toy_player_active)) 0 = build_playing_at (now_playing (st_players toy_player_active)) 1"
  by (rule snapshot_static)
    (simp add: playing_device_state_def ap_playback_state_def toy_player_state player_playback_state_def player_new_def
      player_default_def player_update_def blank_player_def)

text \<open>
  A level is a percentage. When the device reports a volume between zero and one, whatever the rounding of
  the four floating-point operations, the level stored lies between 0 and 100, which is what the facade lets through.
\<close>

theorem level_in_range:
  assumes "vd_volume i = Some v" and "v \<le> 0x3F800000" and "or_empty (vd_device i) = or_empty (state_device_uid s)"
  shows "in_volume_range (vs_level (st_volume (handle_volume_change i s)))"
proof -
  have "unat v \<le> 0x3F800000" using assms(2) by (simp add: word_le_nat_alt)
  from f32_mul_le [OF this, of 100] have a: "unat (f32_mul_nat v 100) \<le> 0x42C80000"
    by (simp add: pattern_magnitude_def float_round_def bit_len.simps round_half_even_def)
  from f32_mul_le [OF a, of 10] have b: "unat (f32_mul_nat (f32_mul_nat v 100) 10) \<le> 0x447A0000"
    by (simp add: pattern_magnitude_def float_round_def bit_len.simps round_half_even_def)
  from f32_round_le [OF b] have c: "unat (f32_round (f32_mul_nat (f32_mul_nat v 100) 10)) \<le> 0x447A0000"
    by (simp add: pattern_magnitude_def float_round_def bit_len.simps round_half_even_def)
  from f32_div_le [OF c, of 10] have "unat (round_to_tenth (f32_mul_nat v 100)) \<le> 0x42C80000"
    by (simp add: round_to_tenth_def pattern_magnitude_def float_round_def bit_len.simps round_half_even_def)
  then show ?thesis
    using assms(1,3) by (simp add: handle_volume_change_def Let_def in_volume_range_def word_le_nat_alt)
qed

theorem level_in_range_witness:
  "in_volume_range (vs_level (st_volume (handle_volume_change \<lparr>vd_volume = Some 0x3F000000, vd_device = None\<rparr>
     (mrp_state_new :: (unit, unit, unit, unit, unit) mrp_state))))"
  using level_in_range [where i = "\<lparr>vd_volume = Some 0x3F000000, vd_device = None\<rparr>" and v = "0x3F000000"
      and s = "mrp_state_new :: (unit, unit, unit, unit, unit) mrp_state"]
  by (simp add: state_device_uid_def mrp_state_new_def)

end
