(* ===== verification/Dns_Reader.thy ===== *)
theory Dns_Reader
  imports Prelude
begin

text \<open>
  The errors of the DNS codec (\<open>crates/pyatv-mdns/src/dns/mod.rs\<close>) and its cursor over a whole
  message (\<open>dns/reader.rs\<close>). A read returns the value and the moved cursor; every caller passes
  an error on with \<open>?\<close>, so the cursor of a failed read is not kept.
\<close>

datatype dns_error =
    DnsUnexpectedEof nat nat
  | OffsetOutOfBounds nat nat
  | CompressionLoop
  | ReservedLabelType u8
  | LabelNotUtf8 bytes
  | InvalidPunycode bytes
  | NotAServiceName bytes
  | RdataLengthMismatch nat nat
  | InvalidAddressLength u16 nat nat
  | TxtChunkOverrunsRecord nat nat
  | NonAsciiTxtKey bytes

record reader =
  rd_data :: bytes
  rd_pos :: nat

definition reader_new :: "bytes \<Rightarrow> reader" where
  "reader_new data = \<lparr>rd_data = data, rd_pos = 0\<rparr>"

definition seek :: "nat \<Rightarrow> reader \<Rightarrow> dns_error + reader" where
  "seek pos r =
     (if length (rd_data r) < pos then Err (OffsetOutOfBounds pos (length (rd_data r)))
      else Ok (r\<lparr>rd_pos := pos\<rparr>))"

definition remaining :: "reader \<Rightarrow> nat" where
  "remaining r = length (rd_data r) - rd_pos r"

definition read_slice :: "nat \<Rightarrow> reader \<Rightarrow> dns_error + bytes \<times> reader" where
  "read_slice count r =
     rbind (ok_or (checked_add (rd_pos r) count) (DnsUnexpectedEof count (remaining r))) (\<lambda>end.
     if length (rd_data r) < end then Err (DnsUnexpectedEof count (remaining r))
     else Ok (take count (drop (rd_pos r) (rd_data r)), r\<lparr>rd_pos := end\<rparr>))"

definition read_u8 :: "reader \<Rightarrow> dns_error + u8 \<times> reader" where
  "read_u8 r = rbind (read_slice 1 r) (\<lambda>(bs, r'). Ok (bs ! 0, r'))"

definition read_u16 :: "reader \<Rightarrow> dns_error + u16 \<times> reader" where
  "read_u16 r = rbind (read_slice 2 r) (\<lambda>(bs, r'). Ok (word_of_nat (be_nat bs), r'))"

definition read_u32 :: "reader \<Rightarrow> dns_error + u32 \<times> reader" where
  "read_u32 r = rbind (read_slice 4 r) (\<lambda>(bs, r'). Ok (word_of_nat (be_nat bs), r'))"

section \<open>What a read does\<close>

text \<open>
  A cursor is good when it is inside a message that fits in memory. \<open>reads r v r'\<close> is the
  shape of every successful read: same message, the cursor moved over exactly the bytes \<open>v\<close>.
\<close>

definition reader_ok :: "reader \<Rightarrow> bool" where
  "reader_ok r \<longleftrightarrow> rd_pos r \<le> length (rd_data r) \<and> length (rd_data r) \<le> usize_max"

definition advanced :: "reader \<Rightarrow> reader \<Rightarrow> bool" where
  "advanced r r' \<longleftrightarrow> rd_data r' = rd_data r \<and> rd_pos r < rd_pos r' \<and> rd_pos r' \<le> length (rd_data r)"

lemma reader_new_ok: "length data \<le> usize_max \<Longrightarrow> reader_ok (reader_new data)"
  by (simp add: reader_ok_def reader_new_def)

lemma read_slice_Ok:
  "read_slice n r = Ok (bs, r') \<Longrightarrow>
     rd_pos r + n \<le> length (rd_data r) \<and> bs = take n (drop (rd_pos r) (rd_data r)) \<and> length bs = n
     \<and> r' = r\<lparr>rd_pos := rd_pos r + n\<rparr>"
  by (auto simp: read_slice_def res_simps checked_add_Some_iff split: if_splits)

lemma advancedI: "read_slice n r = Ok (bs, r') \<Longrightarrow> 0 < n \<Longrightarrow> advanced r r'"
  by (auto simp: advanced_def dest!: read_slice_Ok)

lemma read_advanced:
  "read_u8 r = Ok (b, r') \<Longrightarrow> advanced r r'"
  "read_u16 r = Ok (h, r') \<Longrightarrow> advanced r r'"
  "read_u32 r = Ok (w, r') \<Longrightarrow> advanced r r'"
  by (auto simp: read_u8_def read_u16_def read_u32_def res_simps intro: advancedI)

lemma read_moves:
  "read_u8 r = Ok (b, r') \<Longrightarrow> r' = r\<lparr>rd_pos := rd_pos r + 1\<rparr> \<and> rd_pos r < length (rd_data r) \<and> b = rd_data r ! rd_pos r"
  "read_u16 r = Ok (h, r') \<Longrightarrow> r' = r\<lparr>rd_pos := rd_pos r + 2\<rparr> \<and> rd_pos r + 2 \<le> length (rd_data r)"
  "read_u32 r = Ok (w, r') \<Longrightarrow> r' = r\<lparr>rd_pos := rd_pos r + 4\<rparr> \<and> rd_pos r + 4 \<le> length (rd_data r)"
  by (auto simp: read_u8_def read_u16_def read_u32_def res_simps dest!: read_slice_Ok)

lemma advanced_trans: "advanced r s \<Longrightarrow> advanced s t \<Longrightarrow> advanced r t"
  by (auto simp: advanced_def)

lemma advanced_ok: "advanced r r' \<Longrightarrow> reader_ok r \<Longrightarrow> reader_ok r'"
  by (auto simp: advanced_def reader_ok_def)

lemma advanced_remaining: "advanced r r' \<Longrightarrow> remaining r' < remaining r"
  by (auto simp: advanced_def remaining_def)

lemma seek_Ok: "seek p r = Ok r' \<longleftrightarrow> p \<le> length (rd_data r) \<and> r' = r\<lparr>rd_pos := p\<rparr>"
  by (auto simp: seek_def)

lemma length_prefix_remaining:
  assumes "read_u8 r = Ok (len, r1)" and "read_slice n r1 = Ok (raw, r2)"
  shows "remaining r2 < remaining r"
  using read_moves(1) [OF assms(1)] read_slice_Ok [OF assms(2)] by (auto simp: remaining_def)

section \<open>Reading what was written\<close>

lemma read_slice_mid:
  assumes "reader_ok r" and "rd_data r = pre @ bs @ post" and "rd_pos r = length pre"
  shows "read_slice (length bs) r = Ok (bs, r\<lparr>rd_pos := length (pre @ bs)\<rparr>)"
  using assms by (auto simp: read_slice_def checked_add_def reader_ok_def)

lemma read_u8_mid:
  assumes "reader_ok r" and "rd_data r = pre @ b # post" and "rd_pos r = length pre"
  shows "read_u8 r = Ok (b, r\<lparr>rd_pos := Suc (length pre)\<rparr>)"
  using read_slice_mid [of r pre "[b]" post] assms by (simp add: read_u8_def)

lemma read_u16_mid:
  assumes "reader_ok r" and "rd_data r = pre @ be_bytes 2 (unat w) @ post" and "rd_pos r = length pre"
  shows "read_u16 r = Ok (w, r\<lparr>rd_pos := length pre + 2\<rparr>)"
  using read_slice_mid [OF assms] by (simp add: read_u16_def be_nat_u16)

lemma read_u32_mid:
  assumes "reader_ok r" and "rd_data r = pre @ be_bytes 4 (unat w) @ post" and "rd_pos r = length pre"
  shows "read_u32 r = Ok (w, r\<lparr>rd_pos := length pre + 4\<rparr>)"
  using read_slice_mid [OF assms] by (simp add: read_u32_def be_nat_u32)

end
