(* ===== verification/Punycode.thy ===== *)
theory Punycode
  imports Prelude
begin

text \<open>
  The Punycode decoder behind \<open>xn--\<close> labels (\<open>crates/pyatv-mdns/src/dns/punycode.rs\<close>). The
  \<open>u32\<close> values are natural numbers below \<open>2 ^ 32\<close>: \<open>checked32\<close> is what
  \<open>checked_add\<close> and \<open>checked_mul\<close> return, and the unchecked operations of the source are
  proved to stay in range where that is not evident. A \<open>String\<close> is its UTF-8 bytes.
\<close>

definition BASE :: nat where "BASE = 36"
definition TMIN :: nat where "TMIN = 1"
definition TMAX :: nat where "TMAX = 26"
definition SKEW :: nat where "SKEW = 38"
definition DAMP :: nat where "DAMP = 700"
definition INITIAL_BIAS :: nat where "INITIAL_BIAS = 72"
definition INITIAL_N :: nat where "INITIAL_N = 128"
definition DELIMITER :: u8 where "DELIMITER = 45"

definition ACE_PREFIX :: bytes where
  "ACE_PREFIX = lit ''xn--''"

lemmas punycode_constants = BASE_def TMIN_def TMAX_def SKEW_def DAMP_def INITIAL_BIAS_def INITIAL_N_def DELIMITER_def

definition checked32 :: "nat \<Rightarrow> nat option" where
  "checked32 n = (if n < 2 ^ 32 then Some n else None)"

definition decode_digit :: "u8 \<Rightarrow> nat option" where
  "decode_digit cp =
     (if 48 \<le> cp \<and> cp \<le> 57 then Some (unat (cp - 48) + 26)
      else if 65 \<le> cp \<and> cp \<le> 90 then Some (unat (cp - 65))
      else if 97 \<le> cp \<and> cp \<le> 122 then Some (unat (cp - 97))
      else None)"

text \<open>\<open>adapt\<close>: the \<open>while\<close> loop, then the fraction.\<close>

function adapt_loop :: "nat \<Rightarrow> nat \<Rightarrow> nat \<times> nat" where
  "adapt_loop delta k =
     (if ((BASE - TMIN) * TMAX) div 2 < delta then adapt_loop (delta div (BASE - TMIN)) (k + BASE) else (delta, k))"
  by pat_completeness auto
termination by (relation "measure fst") (auto simp: punycode_constants)

declare adapt_loop.simps [simp del]

definition adapt :: "nat \<Rightarrow> nat \<Rightarrow> bool \<Rightarrow> nat" where
  "adapt delta numpoints firsttime =
     (let delta = (if firsttime then delta div DAMP else delta div 2);
          delta = delta + delta div numpoints
      in case adapt_loop delta 0 of (delta, k) \<Rightarrow> k + ((BASE - TMIN + 1) * delta) div (delta + SKEW))"

text \<open>
  The inner loop of \<open>decode\<close>: one generalized variable-length integer, read from the bytes left.
  It returns \<open>i\<close> and the rest.
\<close>

definition threshold :: "nat \<Rightarrow> nat \<Rightarrow> nat" where
  "threshold k bias = (if k \<le> bias then TMIN else if bias + TMAX \<le> k then TMAX else k - bias)"

fun read_delta :: "nat \<Rightarrow> nat \<Rightarrow> nat \<Rightarrow> nat \<Rightarrow> bytes \<Rightarrow> (nat \<times> bytes) option" where
  "read_delta bias i w k [] = None"
| "read_delta bias i w k (cp # rest) =
     (case decode_digit cp of
        None \<Rightarrow> None
      | Some digit \<Rightarrow>
          (case checked32 (digit * w) of
             None \<Rightarrow> None
           | Some d \<Rightarrow>
               (case checked32 (i + d) of
                  None \<Rightarrow> None
                | Some i' \<Rightarrow>
                    let t = threshold k bias in
                    if digit < t then Some (i', rest)
                    else
                      case checked32 (w * (BASE - t)) of
                        None \<Rightarrow> None
                      | Some w' \<Rightarrow> read_delta bias i' w' (k + BASE) rest)))"

lemma read_delta_shorter: "read_delta bias i w k bs = Some (i', rest) \<Longrightarrow> length rest < length bs"
  by (induction bias i w k bs arbitrary: i' rest rule: read_delta.induct)
     (auto simp: Let_def split: option.splits if_splits, fastforce)

text \<open>\<open>char::from_u32\<close>: a Unicode scalar value, or nothing.\<close>

definition char_from_u32 :: "nat \<Rightarrow> nat option" where
  "char_from_u32 n = (if n < 0xD800 \<or> (0xE000 \<le> n \<and> n < 0x110000) then Some n else None)"

definition insert_at :: "nat \<Rightarrow> 'a \<Rightarrow> 'a list \<Rightarrow> 'a list" where
  "insert_at i x xs = take i xs @ x # drop i xs"

text \<open>The outer loop: \<open>output\<close> as the list of its scalar values.\<close>

function decode_points :: "nat \<Rightarrow> nat \<Rightarrow> nat \<Rightarrow> nat list \<Rightarrow> bytes \<Rightarrow> nat list option" where
  "decode_points n i bias output bs =
     (if bs = [] then Some output
      else
        case read_delta bias i 1 BASE bs of
          None \<Rightarrow> None
        | Some (i', rest) \<Rightarrow>
            (case checked32 (length output + 1) of
               None \<Rightarrow> None
             | Some out_plus_one \<Rightarrow>
                 let bias' = adapt (i' - i) out_plus_one (i = 0) in
                 case checked32 (n + i' div out_plus_one) of
                   None \<Rightarrow> None
                 | Some n' \<Rightarrow>
                     let j = i' mod out_plus_one in
                     case char_from_u32 n' of
                       None \<Rightarrow> None
                     | Some c \<Rightarrow> decode_points n' (j + 1) bias' (insert_at j c output) rest))"
  by pat_completeness auto
termination by (relation "measure (\<lambda>(_, _, _, _, bs). length bs)") (auto dest: read_delta_shorter)

declare decode_points.simps [simp del]

text \<open>\<open>char\<close> to UTF-8, as \<open>collect::<String>()\<close> writes it.\<close>

definition utf8_char :: "nat \<Rightarrow> bytes" where
  "utf8_char n =
     map word_of_nat
       (if n < 0x80 then [n]
        else if n < 0x800 then [0xC0 + n div 64, 0x80 + n mod 64]
        else if n < 0x10000 then [0xE0 + n div 4096, 0x80 + n div 64 mod 64, 0x80 + n mod 64]
        else [0xF0 + n div 262144, 0x80 + n div 4096 mod 64, 0x80 + n div 64 mod 64, 0x80 + n mod 64])"

text \<open>\<open>rposition(|cp| cp == DELIMITER).unwrap_or(0)\<close>.\<close>

definition basic_len :: "bytes \<Rightarrow> nat" where
  "basic_len input =
     (if DELIMITER \<in> set input
      then length input - 1 - length (takeWhile (\<lambda>cp. cp \<noteq> DELIMITER) (rev input)) else 0)"

definition punycode_decode :: "bytes \<Rightarrow> bytes option" where
  "punycode_decode input =
     (let b = basic_len input in
      if \<not> ascii (take b input) then None
      else
        map_option (\<lambda>cs. concat (map utf8_char cs))
          (decode_points INITIAL_N 0 INITIAL_BIAS (map unat (take b input))
             (drop (if 0 < b then b + 1 else 0) input)))"

section \<open>The output is text\<close>

lemma u8_range:
  "m < 256 \<Longrightarrow> ((word_of_nat m :: u8) \<le> numeral k) = (m \<le> unat (numeral k :: u8))"
  "m < 256 \<Longrightarrow> (numeral k \<le> (word_of_nat m :: u8)) = (unat (numeral k :: u8) \<le> m)"
  "m < 256 \<Longrightarrow> ((word_of_nat m :: u8) = numeral k) = (m = unat (numeral k :: u8))"
  by (simp_all add: word_le_nat_alt unat_of_nat_u8 word_unat_eq_iff)

lemma scalar_iff: "char_from_u32 n = Some c \<longleftrightarrow> c = n \<and> (n < 0xD800 \<or> (0xE000 \<le> n \<and> n < 0x110000))"
  by (auto simp: char_from_u32_def)

lemma split_64: "n = 4096 * (n div 4096) + 64 * (n div 64 mod 64) + n mod (64 :: nat)"
proof -
  have "n = 64 * (n div 64) + n mod 64" "n div 64 = 64 * (n div 64 div 64) + n div 64 mod 64"
    by (simp_all only: mult_div_mod_eq)
  moreover have "n div 64 div 64 = n div 4096" using div_mult2_eq [of n 64 64] by simp
  ultimately show ?thesis by linarith
qed

lemma split_step: "n = 64 * q + d \<Longrightarrow> q = 4096 * a + 64 * b + c \<Longrightarrow> n = 262144 * a + 4096 * b + 64 * c + (d :: nat)"
  by simp

lemma utf8_char_valid:
  assumes "char_from_u32 n = Some n"
  shows "utf8_valid (utf8_char n @ bs) = utf8_valid bs"
proof -
  from assms have n: "n < 0x110000" "\<not> (0xD800 \<le> n \<and> n < 0xE000)" by (auto simp: scalar_iff)
  consider "n < 0x80" | "0x80 \<le> n" "n < 0x800" | "0x800 \<le> n" "n < 0x10000" | "0x10000 \<le> n" by linarith
  then show ?thesis
  proof cases
    case 1
    then show ?thesis by (simp add: utf8_char_def u8_range)
  next
    case 2
    define a b where ab: "a = n div 64" "b = n mod 64"
    from 2 have l: "2 \<le> a" "a < 32" "b < 64" by (auto simp: ab)
    have "utf8_char n = map word_of_nat [192 + a, 128 + b]" using 2 by (simp add: utf8_char_def ab)
    with l show ?thesis by (auto simp: cont_def u8_range simp del: of_nat_add)
  next
    case 3
    define a b c where abc: "a = n div 4096" "b = n div 64 mod 64" "c = n mod 64"
    from 3 have l: "a < 16" "b < 64" "c < 64" by (auto simp: abc)
    have e: "n = 4096 * a + 64 * b + c" using split_64 [of n] by (simp add: abc)
    have m: "a = 0 \<longrightarrow> 32 \<le> b" "a = 13 \<longrightarrow> b < 32" using 3 n l e by auto
    have "utf8_char n = map word_of_nat [224 + a, 128 + b, 128 + c]" using 3 by (simp add: utf8_char_def abc)
    with l m show ?thesis by (auto simp: cont_def u8_range simp del: of_nat_add)
  next
    case 4
    define a b c d where abc: "a = n div 262144" "b = n div 4096 mod 64" "c = n div 64 mod 64" "d = n mod 64"
    from n(1) have l: "a < 5" "b < 64" "c < 64" "d < 64" by (auto simp: abc)
    have e: "n = 262144 * a + 4096 * b + 64 * c + d"
    proof -
      have "n = 64 * (n div 64) + d" "n div 64 = 4096 * a + 64 * b + c"
        using split_64 [of "n div 64"] div_mult2_eq [of n 64 4096] div_mult2_eq [of n 64 64] by (simp_all add: abc)
      then show ?thesis by (rule split_step)
    qed
    have m: "a = 0 \<longrightarrow> 16 \<le> b" "a = 4 \<longrightarrow> b < 16" using 4 n l e by auto
    have "utf8_char n = map word_of_nat [240 + a, 128 + b, 128 + c, 128 + d]" using 4 by (simp add: utf8_char_def abc)
    with l m show ?thesis by (auto simp: cont_def u8_range simp del: of_nat_add)
  qed
qed

definition scalar :: "nat \<Rightarrow> bool" where
  "scalar n \<longleftrightarrow> char_from_u32 n = Some n"

lemma utf8_chars_valid: "\<forall>c \<in> set cs. scalar c \<Longrightarrow> utf8_valid (concat (map utf8_char cs))"
  by (induction cs) (auto simp: utf8_char_valid scalar_def)

lemma length_utf8_char: "length (utf8_char n) \<le> 4"
  by (simp add: utf8_char_def)

lemma length_utf8_chars: "length (concat (map utf8_char cs)) \<le> 4 * length cs"
proof (induction cs)
  case (Cons c cs)
  with length_utf8_char [of c] show ?case by simp
qed simp

text \<open>Every point is a scalar value, and each one costs at least a byte of the input.\<close>

lemma decode_points_ok:
  "decode_points n i bias outp bs = Some cs \<Longrightarrow> \<forall>c \<in> set outp. scalar c \<Longrightarrow>
     (\<forall>c \<in> set cs. scalar c) \<and> length cs \<le> length outp + length bs"
proof (induction n i bias outp bs rule: decode_points.induct)
  case (1 n i bias outp bs)
  show ?case
  proof (cases "bs = []")
    case True
    with 1 show ?thesis by (simp add: decode_points.simps [of n i bias outp "[]"])
  next
    case False
    with 1(2) obtain i' rest o1 n' c where r: "read_delta bias i 1 BASE bs = Some (i', rest)"
      and o1: "checked32 (length outp + 1) = Some o1" and n': "checked32 (n + i' div o1) = Some n'"
      and c: "char_from_u32 n' = Some c"
      and d: "decode_points n' (i' mod o1 + 1) (adapt (i' - i) o1 (i = 0)) (insert_at (i' mod o1) c outp) rest = Some cs"
      by (subst (asm) decode_points.simps) (auto simp: Let_def split: option.splits)
    have c': "scalar c" using c by (auto simp: scalar_def char_from_u32_def split: if_splits)
    with 1(3) have s: "\<forall>x \<in> set (insert_at (i' mod o1) c outp). scalar x"
      by (auto simp: insert_at_def dest: in_set_takeD in_set_dropD)
    have l: "length (insert_at (i' mod o1) c outp) = length outp + 1" by (simp add: insert_at_def)
    from 1(1) [OF False r refl o1 refl n' refl c d s] l read_delta_shorter [OF r] show ?thesis by auto
  qed
qed

lemma ascii_scalar: "ascii bs \<Longrightarrow> \<forall>c \<in> set (map unat bs). scalar c"
  by (auto simp: ascii_def scalar_def char_from_u32_def word_le_nat_alt)

lemma basic_len_le: "basic_len input \<le> length input"
  by (simp add: basic_len_def)

lemma punycode_decode_ok:
  assumes "punycode_decode input = Some s"
  shows "utf8_valid s \<and> length s \<le> 4 * length input"
proof -
  let ?b = "basic_len input"
  from assms obtain cs where a: "ascii (take ?b input)"
    and d: "decode_points INITIAL_N 0 INITIAL_BIAS (map unat (take ?b input)) (drop (if 0 < ?b then ?b + 1 else 0) input) = Some cs"
    and s: "s = concat (map utf8_char cs)"
    by (auto simp: punycode_decode_def Let_def split: if_splits)
  from decode_points_ok [OF d ascii_scalar [OF a]] basic_len_le [of input]
  have c: "\<forall>c \<in> set cs. scalar c" and "length cs \<le> length input" by (auto split: if_splits)
  with utf8_chars_valid [OF c] length_utf8_chars [of cs] show ?thesis by (simp add: s)
qed

section \<open>The unchecked arithmetic of \<open>adapt\<close> stays in 32 bits\<close>

lemma adapt_loop_bounds:
  "delta \<le> 455 * 35 ^ m \<Longrightarrow> adapt_loop delta k = (d, k') \<Longrightarrow> d \<le> 455 \<and> k' \<le> k + 36 * m"
proof (induction m arbitrary: delta k)
  case 0
  then show ?case by (subst (asm) adapt_loop.simps) (simp add: punycode_constants)
next
  case (Suc m)
  show ?case
  proof (cases "delta \<le> 455")
    case True
    with Suc.prems(2) show ?thesis by (subst (asm) adapt_loop.simps) (simp add: punycode_constants)
  next
    case False
    with Suc.prems(2) have "adapt_loop (delta div 35) (k + 36) = (d, k')"
      by (subst (asm) adapt_loop.simps) (simp add: punycode_constants)
    moreover have "delta div 35 \<le> 455 * 35 ^ m" using Suc.prems(1) by simp
    ultimately show ?thesis using Suc.IH by fastforce
  qed
qed

lemma adapt_sum_fits: "(delta :: nat) < 2 ^ 32 \<Longrightarrow> delta div 2 + delta div 2 div numpoints < 2 ^ 32"
  using div_le_dividend [of "delta div 2" numpoints] by linarith

lemma adapt_bound:
  assumes "delta < 2 ^ 32"
  shows "adapt delta numpoints first \<le> 5 * 36 + 36"
proof -
  define q where "q = (if first then delta div DAMP else delta div 2)"
  let ?d = q
  have "?d \<le> delta div 2" by (simp add: q_def DAMP_def) linarith
  moreover have "?d div numpoints \<le> ?d" by (rule div_le_dividend)
  moreover have "delta div 2 < 2147483648" using assms by simp
  ultimately have "?d + ?d div numpoints \<le> 4294967296" by linarith
  then have s: "?d + ?d div numpoints \<le> 455 * 35 ^ 5" by (rule order_trans) simp
  obtain d k where l: "adapt_loop (?d + ?d div numpoints) 0 = (d, k)" by fastforce
  have "(36 * d) div (d + 38) < 37" by (rule less_mult_imp_div_less) simp
  with adapt_loop_bounds [OF s l] l show ?thesis
    by (simp add: adapt_def Let_def BASE_def TMIN_def SKEW_def q_def [symmetric])
qed

end
