(* ===== verification/Rust_Str.thy ===== *)
theory Rust_Str
  imports Prelude "HOL-Library.Sublist"
begin

text \<open>
  What the text protocols use of \<open>str\<close> and \<open>slice\<close>: searching and splitting on a substring,
  \<open>trim\<close>, \<open>parse\<close> and \<open>from_str_radix\<close> of unsigned integers, and their printers.
\<close>

section \<open>Searching\<close>

text \<open>\<open>data.windows(n).position(|w| w == pat)\<close>, which is also \<open>str::find\<close>.\<close>

fun find_sub :: "bytes \<Rightarrow> bytes \<Rightarrow> nat option" where
  "find_sub pat [] = (if pat = [] then Some 0 else None)"
| "find_sub pat (b # bs) = (if prefix pat (b # bs) then Some 0 else map_option Suc (find_sub pat bs))"

definition crlf :: bytes where
  "crlf = [13, 10]"

definition crlf2 :: bytes where
  "crlf2 = [13, 10, 13, 10]"

lemma find_sub_Some:
  "find_sub pat s = Some i \<Longrightarrow> i + length pat \<le> length s \<and> prefix pat (drop i s)"
proof (induction s arbitrary: i)
  case Nil
  then show ?case by (simp split: if_splits)
next
  case (Cons b bs)
  then show ?case by (auto split: if_splits dest: prefix_length_le)
qed

lemma prefix_append_long: "length pat \<le> length s \<Longrightarrow> prefix pat (s @ t) \<longleftrightarrow> prefix pat s"
  by (auto simp: prefix_def append_eq_append_conv2)

lemma find_sub_append: "find_sub pat s = Some i \<Longrightarrow> find_sub pat (s @ t) = Some i"
proof (induction s arbitrary: i)
  case Nil
  then show ?case by (cases t) (auto split: if_splits)
next
  case (Cons b bs)
  show ?case
  proof (cases "prefix pat (b # bs)")
    case True
    then have "prefix pat ((b # bs) @ t)" by (rule prefix_prefix)
    with True Cons.prems show ?thesis by simp
  next
    case False
    with Cons.prems obtain j where j: "find_sub pat bs = Some j" "i = Suc j" by auto
    then have "length pat \<le> length (b # bs)" using find_sub_Some [of pat bs j] by simp
    with False have "\<not> prefix pat ((b # bs) @ t)" using prefix_append_long [of pat "b # bs" t] by blast
    with j Cons.IH show ?thesis by simp
  qed
qed

lemma find_sub_here: "pat \<noteq> [] \<Longrightarrow> find_sub pat (pat @ s) = Some 0"
  by (cases pat) auto

lemma find_sub_skip:
  assumes "hd pat \<notin> set w" "pat \<noteq> []"
  shows "find_sub pat (w @ pat @ s) = Some (length w)"
  using assms
proof (induction w)
  case Nil
  then show ?case by (simp add: find_sub_here)
next
  case (Cons b w)
  then have "\<not> prefix pat ((b # w) @ pat @ s)" by (cases pat) auto
  with Cons show ?case by simp
qed

lemma find_sub_None: "hd pat \<notin> set s \<Longrightarrow> pat \<noteq> [] \<Longrightarrow> find_sub pat s = None"
  by (induction s) (auto simp: prefix_def Cons_eq_append_conv)

section \<open>Splitting\<close>

text \<open>\<open>s.split(pat)\<close> for a non-empty pattern, \<open>s.replace(pat, to)\<close>, \<open>s.split_once(c)\<close>.\<close>

function split_sub :: "bytes \<Rightarrow> bytes \<Rightarrow> bytes list" where
  "split_sub pat s = (if pat = [] then [s] else
     (case find_sub pat s of None \<Rightarrow> [s] | Some i \<Rightarrow> take i s # split_sub pat (drop (i + length pat) s)))"
  by pat_completeness auto
termination
proof (relation "measure (\<lambda>(_, s). length s)")
  fix pat s :: bytes and i
  assume "pat \<noteq> []" "find_sub pat s = Some i"
  then show "((pat, drop (i + length pat) s), (pat, s)) \<in> measure (\<lambda>(_, s). length s)"
    using find_sub_Some [of pat s i] by (cases pat) auto
qed simp

declare split_sub.simps [simp del]

definition replace_sub :: "bytes \<Rightarrow> bytes \<Rightarrow> bytes \<Rightarrow> bytes" where
  "replace_sub pat to s = join to (split_sub pat s)"

fun split_once :: "u8 \<Rightarrow> bytes \<Rightarrow> (bytes \<times> bytes) option" where
  "split_once c [] = None"
| "split_once c (b # bs) = (if b = c then Some ([], bs) else map_option (\<lambda>(x, y). (b # x, y)) (split_once c bs))"

definition strip_pre :: "bytes \<Rightarrow> bytes \<Rightarrow> bytes option" where
  "strip_pre pat s = (if prefix pat s then Some (drop (length pat) s) else None)"

lemma split_sub_last: "hd pat \<notin> set w \<Longrightarrow> pat \<noteq> [] \<Longrightarrow> split_sub pat w = [w]"
  by (subst split_sub.simps) (simp add: find_sub_None)

lemma split_sub_cons:
  "hd pat \<notin> set w \<Longrightarrow> pat \<noteq> [] \<Longrightarrow> split_sub pat (w @ pat @ s) = w # split_sub pat s"
  by (subst split_sub.simps) (simp add: find_sub_skip)

lemma split_sub_join:
  "pat \<noteq> [] \<Longrightarrow> ws \<noteq> [] \<Longrightarrow> \<forall>w \<in> set ws. hd pat \<notin> set w \<Longrightarrow> split_sub pat (join pat ws) = ws"
proof (induction ws)
  case (Cons w ws)
  then show ?case by (cases "ws = []") (auto simp: join_Cons split_sub_last split_sub_cons)
qed simp

lemma split_once_first: "c \<notin> set w \<Longrightarrow> split_once c (w @ c # s) = Some (w, s)"
  by (induction w) auto

lemma split_once_None: "split_once c s = None \<longleftrightarrow> c \<notin> set s"
  by (induction s) auto

section \<open>Trimming\<close>

text \<open>\<open>str::trim\<close> removes the characters of the Unicode property \<open>White_Space\<close>, written here by
  their UTF-8 encodings.\<close>

definition white_space :: "bytes list" where
  "white_space = [[9], [10], [11], [12], [13], [32], [0xC2, 0x85], [0xC2, 0xA0], [0xE1, 0x9A, 0x80]]
     @ map (\<lambda>b. [0xE2, 0x80, b]) [0x80, 0x81, 0x82, 0x83, 0x84, 0x85, 0x86, 0x87, 0x88, 0x89, 0x8A, 0xA8, 0xA9, 0xAF]
     @ [[0xE2, 0x81, 0x9F], [0xE3, 0x80, 0x80]]"

function trim_with :: "bytes list \<Rightarrow> bytes \<Rightarrow> bytes" where
  "trim_with ws s = (case find (\<lambda>w. w \<noteq> [] \<and> prefix w s) ws of None \<Rightarrow> s | Some w \<Rightarrow> trim_with ws (drop (length w) s))"
  by pat_completeness auto
termination
proof (relation "measure (\<lambda>(_, s). length s)")
  fix ws s w
  assume "find (\<lambda>w. w \<noteq> [] \<and> prefix w s) ws = Some (w :: bytes)"
  then have "w \<noteq> []" "prefix w s" by (auto simp: find_Some_iff)
  then show "((ws, drop (length w) s), (ws, s)) \<in> measure (\<lambda>(_, s). length s)"
    by (cases w) (auto simp: prefix_def)
qed simp

declare trim_with.simps [simp del]

definition trim_start :: "bytes \<Rightarrow> bytes" where
  "trim_start s = trim_with white_space s"

definition trim_end :: "bytes \<Rightarrow> bytes" where
  "trim_end s = rev (trim_with (map rev white_space) (rev s))"

definition trim :: "bytes \<Rightarrow> bytes" where
  "trim s = trim_end (trim_start s)"

lemma trim_with_id: "\<forall>w \<in> set ws. w \<noteq> [] \<longrightarrow> \<not> prefix w s \<Longrightarrow> trim_with ws s = s"
  by (subst trim_with.simps) (auto split: option.split simp: find_Some_iff)

definition printable :: "u8 \<Rightarrow> bool" where
  "printable b \<longleftrightarrow> 0x21 \<le> b \<and> b \<le> 0x7E"

lemma white_space_ends:
  "w \<in> set white_space \<Longrightarrow> w \<noteq> [] \<and> \<not> printable (hd w) \<and> \<not> printable (last w)"
  by (auto simp: white_space_def printable_def)

lemma trim_id: "s = [] \<or> printable (hd s) \<and> printable (last s) \<Longrightarrow> trim s = s"
proof -
  assume a: "s = [] \<or> printable (hd s) \<and> printable (last s)"
  have 1: "trim_with white_space s = s"
    using a white_space_ends by (intro trim_with_id) (fastforce simp: prefix_def)
  have "\<not> prefix w (rev s)" if "w \<in> set (map rev white_space)" for w
  proof
    assume "prefix w (rev s)"
    then obtain t where t: "rev s = w @ t" by (auto simp: prefix_def)
    from that obtain v where v: "w = rev v" "v \<in> set white_space" by auto
    with white_space_ends have "v \<noteq> []" "\<not> printable (last v)" by blast+
    moreover from t v have "s = rev t @ v" by (metis rev_append rev_rev_ident)
    ultimately show False using a by (auto simp: last_append)
  qed
  then have "trim_with (map rev white_space) (rev s) = rev s" by (intro trim_with_id) blast
  with 1 show ?thesis by (simp add: trim_def trim_start_def trim_end_def)
qed

section \<open>Integers as text\<close>

text \<open>\<open>str::parse\<close> and \<open>from_str_radix\<close> of an unsigned type whose largest value is \<open>largest\<close>: a
  leading \<open>+\<close> is allowed, at least one digit is needed, and the value must fit.\<close>

definition digit_ok :: "nat \<Rightarrow> u8 \<Rightarrow> bool" where
  "digit_ok radix b \<longleftrightarrow> is_hexdigit b \<and> hex_value b < radix"

definition radix_value :: "nat \<Rightarrow> bytes \<Rightarrow> nat" where
  "radix_value radix ds = foldl (\<lambda>n d. radix * n + hex_value d) 0 ds"

definition parse_radix :: "nat \<Rightarrow> nat \<Rightarrow> bytes \<Rightarrow> nat option" where
  "parse_radix radix largest s =
     (let ds = (if s \<noteq> [] \<and> hd s = 43 then tl s else s)
      in if ds \<noteq> [] \<and> list_all (digit_ok radix) ds \<and> radix_value radix ds \<le> largest
         then Some (radix_value radix ds) else None)"

definition parse_usize :: "bytes \<Rightarrow> nat option" where
  "parse_usize s = parse_radix 10 usize_max s"

fun hex_of :: "nat \<Rightarrow> bytes" where
  "hex_of n = (if n < 16 then [hex_lower n] else hex_of (n div 16) @ [hex_lower (n mod 16)])"

declare hex_of.simps [simp del]

lemma radix_value_snoc: "radix_value r (ds @ [d]) = r * radix_value r ds + hex_value d"
  by (simp add: radix_value_def)

lemma hex_of_ok: "hex_of n \<noteq> [] \<and> list_all (digit_ok 16) (hex_of n) \<and> radix_value 16 (hex_of n) = n"
proof (induction n rule: hex_of.induct)
  case (1 n)
  show ?case
  proof (cases "n < 16")
    case True
    with hex_lower_value [of n] show ?thesis
      by (subst (1 2 3) hex_of.simps) (simp add: digit_ok_def radix_value_def)
  next
    case False
    have "digit_ok 16 (hex_lower (n mod 16))" using hex_lower_value [of "n mod 16"] by (simp add: digit_ok_def)
    with False 1 hex_lower_value [of "n mod 16"] show ?thesis
      by (subst (1 2 3) hex_of.simps) (simp add: radix_value_snoc)
  qed
qed

lemma digit_ok_printable: "digit_ok r b \<Longrightarrow> printable b \<and> b \<noteq> 43 \<and> b \<noteq> 59 \<and> b \<noteq> 13 \<and> b \<noteq> 10 \<and> b \<le> 0x7F"
  by (auto simp: digit_ok_def is_hexdigit_def is_digit_def printable_def word_le_nat_alt)

lemma parse_radix_digits:
  "ds \<noteq> [] \<Longrightarrow> list_all (digit_ok r) ds \<Longrightarrow> radix_value r ds \<le> largest \<Longrightarrow> parse_radix r largest ds = Some (radix_value r ds)"
  by (cases ds) (auto simp: parse_radix_def dest: digit_ok_printable)

lemma parse_radix_hex: "n \<le> largest \<Longrightarrow> parse_radix 16 largest (hex_of n) = Some n"
  using hex_of_ok [of n] by (simp add: parse_radix_digits)

lemma decimal_radix: "list_all (digit_ok 10) (decimal n) \<and> radix_value 10 (decimal n) = n"
proof -
  have d: "is_digit b \<Longrightarrow> digit_ok 10 b \<and> hex_value b = unat b - 48" for b
    by (auto simp: digit_ok_def is_hexdigit_def hex_value_def is_digit_def word_le_nat_alt)
  have "list_all is_digit ds \<Longrightarrow> radix_value 10 ds = digits_value ds" for ds
    by (induction ds rule: rev_induct) (auto simp: radix_value_snoc digits_value_snoc d radix_value_def digits_value_def)
  with decimal_digits [of n] decimal_value [of n] d show ?thesis by (auto simp: list_all_iff)
qed

lemma parse_decimal: "n \<le> largest \<Longrightarrow> parse_radix 10 largest (decimal n) = Some n"
  using decimal_radix [of n] decimal_not_Nil [of n] by (simp add: parse_radix_digits)

lemma parse_radix_bound: "parse_radix r largest s = Some n \<Longrightarrow> n \<le> largest"
  by (auto simp: parse_radix_def Let_def split: if_splits)

section \<open>Lines and text\<close>

text \<open>The end of a block of lines is found where the block ends.\<close>

lemma find_crlf2_skip: "13 \<notin> set w \<Longrightarrow> find_sub crlf2 (w @ s) = map_option (\<lambda>i. length w + i) (find_sub crlf2 s)"
proof (induction w)
  case Nil
  then show ?case by (cases "find_sub crlf2 s") auto
next
  case (Cons b w)
  then have "\<not> prefix crlf2 ((b # w) @ s)" by (auto simp: crlf2_def)
  with Cons show ?case by (cases "find_sub crlf2 s") auto
qed

lemma find_crlf2_line: "b \<noteq> 13 \<Longrightarrow> find_sub crlf2 (crlf @ b # s) = map_option (\<lambda>i. 2 + i) (find_sub crlf2 (b # s))"
  by (cases "find_sub crlf2 (b # s)") (auto simp: crlf_def crlf2_def)

lemma find_head_end_lines:
  "ws \<noteq> [] \<Longrightarrow> \<forall>w \<in> set ws. w \<noteq> [] \<and> 13 \<notin> set w
   \<Longrightarrow> find_sub crlf2 (join crlf ws @ crlf2 @ s) = Some (length (join crlf ws))"
proof (induction ws)
  case (Cons w ws)
  show ?case
  proof (cases ws)
    case Nil
    with Cons.prems find_sub_skip [of crlf2 w s] show ?thesis by (simp add: crlf2_def)
  next
    case (Cons v vs)
    with Cons.prems obtain b v' where v: "v = b # v'" "b \<noteq> 13" by (cases v) auto
    obtain t where t: "join crlf ws = b # t" using Cons v by (cases vs) auto
    have "find_sub crlf2 (join crlf ws @ crlf2 @ s) = Some (length (join crlf ws))"
      using Cons.IH Cons.prems Cons by simp
    with t have "find_sub crlf2 (crlf @ join crlf ws @ crlf2 @ s) = Some (2 + length (join crlf ws))"
      using find_crlf2_line [OF v(2), of "t @ crlf2 @ s"] by simp
    moreover have "join crlf (w # ws) = w @ crlf @ join crlf ws" using Cons by simp
    ultimately show ?thesis using Cons.prems by (simp add: find_crlf2_skip crlf_def)
  qed
qed simp

lemma utf8_valid_append: "utf8_valid a \<Longrightarrow> utf8_valid (a @ z) = utf8_valid z"
proof (induction a rule: utf8_valid.induct)
  case (2 x xs)
  note H = 2
  consider "x \<le> 0x7F" | "\<not> x \<le> 0x7F" "0xC2 \<le> x \<and> x \<le> 0xDF" | "\<not> x \<le> 0x7F" "\<not> (0xC2 \<le> x \<and> x \<le> 0xDF)" "0xE0 \<le> x \<and> x \<le> 0xEF"
    | "\<not> x \<le> 0x7F" "\<not> (0xC2 \<le> x \<and> x \<le> 0xDF)" "\<not> (0xE0 \<le> x \<and> x \<le> 0xEF)" "0xF0 \<le> x \<and> x \<le> 0xF4"
    | "\<not> x \<le> 0x7F" "\<not> (0xC2 \<le> x \<and> x \<le> 0xDF)" "\<not> (0xE0 \<le> x \<and> x \<le> 0xEF)" "\<not> (0xF0 \<le> x \<and> x \<le> 0xF4)" by blast
  then show ?case
  proof cases
    case 1
    with H show ?thesis by simp
  next
    case c: 2
    have v: "utf8_valid (x # zs) = (case zs of b # rest \<Rightarrow> cont b \<and> utf8_valid rest | _ \<Rightarrow> False)" for zs
      by (simp only: utf8_valid.simps(2) c if_True if_False simp_thms)
    with H(5) obtain b ys where xs: "xs = b # ys" by (cases xs) simp_all
    with H(2) [OF c xs] H(5) show ?thesis by (simp add: v del: utf8_valid.simps)
  next
    case c: 3
    have v: "utf8_valid (x # zs) = (case zs of b # c # rest \<Rightarrow>
           cont b \<and> cont c \<and> (x = 0xE0 \<longrightarrow> 0xA0 \<le> b) \<and> (x = 0xED \<longrightarrow> b \<le> 0x9F) \<and> utf8_valid rest
         | _ \<Rightarrow> False)" for zs
      by (simp only: utf8_valid.simps(2) c if_True if_False simp_thms)
    with H(5) obtain b d ys where xs: "xs = b # d # ys" by (simp split: list.splits del: utf8_valid.simps)
    with H(3) [OF c xs refl] H(5) show ?thesis by (simp add: v del: utf8_valid.simps)
  next
    case c: 4
    have v: "utf8_valid (x # zs) = (case zs of b # c # d # rest \<Rightarrow>
           cont b \<and> cont c \<and> cont d \<and> (x = 0xF0 \<longrightarrow> 0x90 \<le> b) \<and> (x = 0xF4 \<longrightarrow> b \<le> 0x8F)
           \<and> utf8_valid rest
         | _ \<Rightarrow> False)" for zs
      by (simp only: utf8_valid.simps(2) c if_True if_False simp_thms)
    with H(5) obtain b d f ys where xs: "xs = b # d # f # ys" by (simp split: list.splits del: utf8_valid.simps)
    with H(4) [OF c xs refl refl] H(5) show ?thesis by (simp add: v del: utf8_valid.simps)
  next
    case c: 5
    with H(5) show ?thesis by (simp only: utf8_valid.simps(2) c if_False)
  qed
qed simp

end
