(* ===== verification/Dns_Name.thy ===== *)
theory Dns_Name
  imports Dns_Reader Punycode Rust_Str
begin

unbundle bit_operations_syntax

text \<open>
  Domain names of the mDNS codec (\<open>crates/pyatv-mdns/src/dns/name.rs\<close>): the DNS-SD split of a
  name, the encoder without and with compression, and the parser that follows compression pointers.
  Strings are their UTF-8 bytes. The NFC normalisation is the crate \<open>unicode-normalization\<close>'s:
  the parameter \<open>nfc\<close>. The encoders return the bytes they append; of the buffer they append to
  the code reads only the length, which is an argument.
\<close>

definition MAX_LABEL_LENGTH :: nat where "MAX_LABEL_LENGTH = 63"
definition MAX_POINTER_JUMPS :: nat where "MAX_POINTER_JUMPS = 64"
definition LABEL_FLAG_MASK :: u8 where "LABEL_FLAG_MASK = 0xC0"
definition LABEL_FLAG_POINTER :: u8 where "LABEL_FLAG_POINTER = 0xC0"
definition MAX_POINTER_OFFSET :: nat where "MAX_POINTER_OFFSET = 0x3FFF"

abbreviation dot :: u8 where "dot \<equiv> 46"

section \<open>Service names\<close>

record service_name =
  sn_instance :: "bytes option"
  sn_service :: bytes
  sn_domain :: bytes

text \<open>The scan of \<open>split_name\<close> for a service label and its protocol; \<open>before\<close> holds the labels passed.\<close>

fun service_pair :: "bytes list \<Rightarrow> bytes list \<Rightarrow> (bytes list \<times> bytes \<times> bytes \<times> bytes list) option" where
  "service_pair before (label # nxt # rest) =
     (if label \<noteq> [] \<and> hd label = 95
         \<and> (eq_ignore_ascii_case nxt (lit ''_tcp'') \<or> eq_ignore_ascii_case nxt (lit ''_udp''))
      then Some (before, label, nxt, rest)
      else service_pair (before @ [label]) (nxt # rest))"
| "service_pair before labels = None"

definition split_name :: "bytes \<Rightarrow> dns_error + service_name" where
  "split_name name =
     (let labels = split_on dot name in
      if length labels < 2 then Err (NotAServiceName name)
      else
        case service_pair [] labels of
          None \<Rightarrow> Err (NotAServiceName name)
        | Some (before, label, nxt, rest) \<Rightarrow>
            let inst = join [dot] before in
            Ok \<lparr>sn_instance = (if inst = [] then None else Some inst),
                sn_service = label @ [dot] @ nxt, sn_domain = join [dot] rest\<rparr>)"

definition ptr_name :: "service_name \<Rightarrow> bytes" where
  "ptr_name s = sn_service s @ [dot] @ sn_domain s"

text \<open>\<open>Display\<close>: the parts that are not empty.\<close>

definition show_service :: "service_name \<Rightarrow> bytes" where
  "show_service s =
     join [dot] (filter (\<lambda>p. p \<noteq> [])
       [case sn_instance s of None \<Rightarrow> [] | Some i \<Rightarrow> i, sn_service s, sn_domain s])"

definition name_to_labels :: "bytes \<Rightarrow> bytes list" where
  "name_to_labels name =
     (let labels =
        (case split_name name of
           Ok s \<Rightarrow> (case sn_instance s of None \<Rightarrow> [] | Some i \<Rightarrow> [i]) @ split_on dot (ptr_name s)
         | Err _ \<Rightarrow> split_on dot name)
      in if labels = [] \<or> last labels \<noteq> [] then labels @ [[]] else labels)"

section \<open>Encoding\<close>

text \<open>\<open>is_char_boundary\<close>, and the loop that lowers \<open>end\<close> to one.\<close>

definition char_boundary :: "bytes \<Rightarrow> nat \<Rightarrow> bool" where
  "char_boundary s i \<longleftrightarrow> i = 0 \<or> i = length s \<or> (i < length s \<and> \<not> cont (s ! i))"

fun char_floor :: "bytes \<Rightarrow> nat \<Rightarrow> nat" where
  "char_floor s 0 = 0"
| "char_floor s (Suc n) = (if char_boundary s (Suc n) then Suc n else char_floor s n)"

definition encode_label :: "(bytes \<Rightarrow> bytes) \<Rightarrow> bytes \<Rightarrow> bytes \<times> bool" where
  "encode_label nfc label =
     (let normalised = nfc label;
          encoded = (if MAX_LABEL_LENGTH < length normalised
                     then take (char_floor normalised MAX_LABEL_LENGTH) normalised else normalised)
      in ((if length encoded \<le> 255 then word_of_nat (length encoded) else 0) # encoded, encoded = []))"

fun encode_name_labels :: "(bytes \<Rightarrow> bytes) \<Rightarrow> bytes list \<Rightarrow> bytes" where
  "encode_name_labels nfc [] = [0]"
| "encode_name_labels nfc (l # ls) =
     (case encode_label nfc l of (bs, stop) \<Rightarrow> if stop then bs else bs @ encode_name_labels nfc ls)"

definition encode_name :: "(bytes \<Rightarrow> bytes) \<Rightarrow> bytes \<Rightarrow> bytes" where
  "encode_name nfc name = encode_name_labels nfc (name_to_labels name)"

text \<open>\<open>NameCompressor\<close>: the offset of every suffix written, keyed by its labels joined with NUL.\<close>

type_synonym compressor = "bytes \<Rightarrow> u16 option"

definition compressor_new :: compressor where
  "compressor_new = (\<lambda>_. None)"

fun compress_labels :: "(bytes \<Rightarrow> bytes) \<Rightarrow> compressor \<Rightarrow> nat \<Rightarrow> bytes list \<Rightarrow> compressor \<times> bytes" where
  "compress_labels nfc offsets out_len [] = (offsets, [0])"
| "compress_labels nfc offsets out_len (l # ls) =
     (if l = [] then (offsets, [0])
      else
        let suffix = join [0] (l # ls) in
        case offsets suffix of
          Some offset \<Rightarrow> (offsets, be_bytes 2 (unat (push_bit 8 (ucast LABEL_FLAG_POINTER) OR offset)))
        | None \<Rightarrow>
            let offsets' = (if out_len \<le> MAX_POINTER_OFFSET then offsets(suffix \<mapsto> word_of_nat out_len) else offsets);
                bs = fst (encode_label nfc l)
            in case compress_labels nfc offsets' (out_len + length bs) ls of
                 (offsets'', rest) \<Rightarrow> (offsets'', bs @ rest))"

definition compress_name :: "(bytes \<Rightarrow> bytes) \<Rightarrow> compressor \<Rightarrow> nat \<Rightarrow> bytes \<Rightarrow> compressor \<times> bytes" where
  "compress_name nfc offsets out_len name = compress_labels nfc offsets out_len (name_to_labels name)"

section \<open>Parsing\<close>

definition decode_label :: "bytes \<Rightarrow> dns_error + bytes" where
  "decode_label label =
     (if take (length ACE_PREFIX) label = ACE_PREFIX then
        let ace = drop (length ACE_PREFIX) label in
        if \<not> utf8_valid ace then Err (LabelNotUtf8 label)
        else ok_or (punycode_decode ace) (InvalidPunycode label)
      else if utf8_valid label then Ok label
      else Err (LabelNotUtf8 label))"

text \<open>The loop of \<open>parse_name\<close>: the labels so far, where to resume, the jumps made, the cursor.\<close>

function parse_loop :: "bytes list \<Rightarrow> nat option \<Rightarrow> nat \<Rightarrow> reader \<Rightarrow> dns_error + bytes list \<times> nat option \<times> reader" where
  "parse_loop labels resume jumps r =
     rbind (read_u8 r) (\<lambda>(len, r1).
     if len = 0 then Ok (labels, resume, r1)
     else if len AND LABEL_FLAG_MASK = 0 then
       rbind (read_slice (unat len) r1) (\<lambda>(raw, r2).
       rbind (decode_label raw) (\<lambda>l. parse_loop (labels @ [l]) resume jumps r2))
     else if len AND LABEL_FLAG_MASK = LABEL_FLAG_POINTER then
       rbind (read_u8 r1) (\<lambda>(low, r2).
       if MAX_POINTER_JUMPS < jumps + 1 then Err CompressionLoop
       else
         rbind (seek (be_nat [len AND NOT LABEL_FLAG_MASK, low]) r2) (\<lambda>r3.
         parse_loop labels (case resume of None \<Rightarrow> Some (rd_pos r2) | Some p \<Rightarrow> Some p) (jumps + 1) r3))
     else Err (ReservedLabelType (drop_bit 6 (len AND LABEL_FLAG_MASK))))"
  by pat_completeness auto
termination
  by (relation "measures [\<lambda>(_, _, jumps, _). MAX_POINTER_JUMPS - jumps, \<lambda>(_, _, _, r). remaining r]")
     (auto dest: length_prefix_remaining)

declare parse_loop.simps [simp del]

definition parse_name :: "reader \<Rightarrow> dns_error + bytes \<times> reader" where
  "parse_name r =
     rbind (parse_loop [] None 0 r) (\<lambda>(labels, resume, r1).
     rbind (case resume of None \<Rightarrow> Ok r1 | Some p \<Rightarrow> seek p r1) (\<lambda>r2.
     Ok (join [dot] labels, r2)))"

definition parse_character_string :: "reader \<Rightarrow> dns_error + bytes \<times> reader" where
  "parse_character_string r = rbind (read_u8 r) (\<lambda>(len, r1). read_slice (unat len) r1)"

section \<open>What a name on the wire spells\<close>

text \<open>
  The reader's grammar, as a relation: at \<open>pos\<close> of the message \<open>d\<close> stands a name with
  the raw labels \<open>ls\<close>, reached over \<open>j\<close> pointers, whose encoding at \<open>pos\<close> ends at
  \<open>e\<close>. It has the labels and pointers of RFC 1035, section 4.1.4, but a pointer may lead anywhere in the
  message, forwards too, and a name may be longer than 255 octets.
\<close>

inductive spells :: "bytes \<Rightarrow> nat \<Rightarrow> bytes list \<Rightarrow> nat \<Rightarrow> nat \<Rightarrow> bool" where
  Root: "pos < length d \<Longrightarrow> d ! pos = 0 \<Longrightarrow> spells d pos [] 0 (pos + 1)"
| Label: "pos < length d \<Longrightarrow> d ! pos = word_of_nat (length l) \<Longrightarrow> 0 < length l \<Longrightarrow> length l \<le> 63
    \<Longrightarrow> get_range d (pos + 1) (pos + 1 + length l) = Some l \<Longrightarrow> spells d (pos + 1 + length l) ls j e
    \<Longrightarrow> spells d pos (l # ls) j e"
| Pointer: "pos + 1 < length d \<Longrightarrow> d ! pos = word_of_nat (192 + off div 256) \<Longrightarrow> d ! (pos + 1) = word_of_nat (off mod 256)
    \<Longrightarrow> off < 2 ^ 14 \<Longrightarrow> off \<le> length d \<Longrightarrow> spells d off ls j e
    \<Longrightarrow> spells d pos ls (j + 1) (pos + 2)"

text \<open>The two kinds of length byte, as the masks of the source tell them apart.\<close>

lemma mask6: "LABEL_FLAG_MASK = NOT (mask 6)"
  by (simp add: LABEL_FLAG_MASK_def mask_eq_exp_minus_1)

lemma high_bits: "(b :: u8) AND NOT (mask 6) = push_bit 6 (drop_bit 6 b)"
  by (rule bit_eqI) (auto simp: bit_simps)

lemma unat_flags: "unat (b AND LABEL_FLAG_MASK) = 64 * (unat b div 64)"
proof -
  have "unat b div 64 * 64 < 256" using unat_u8_bound [of b] div_times_less_eq_dividend [of "unat b" 64] by linarith
  then have "unat (b div 64 * 64) = 64 * (unat b div 64)" by (simp add: unat_word_ariths(2) unat_div_distrib)
  then show ?thesis by (simp add: mask6 high_bits push_bit_eq_mult drop_bit_eq_div)
qed

lemma label_byte: "b AND LABEL_FLAG_MASK = 0 \<longleftrightarrow> unat b < 64"
  by (auto simp: word_unat_eq_iff unat_flags div_eq_0_iff)

lemma pointer_byte: "b AND LABEL_FLAG_MASK = LABEL_FLAG_POINTER \<longleftrightarrow> 192 \<le> unat b"
proof -
  have "64 * (unat b div 64) = 192 \<longleftrightarrow> 192 \<le> unat b" using unat_u8_bound [of b] by auto
  then show ?thesis by (simp add: word_unat_eq_iff unat_flags LABEL_FLAG_POINTER_def)
qed

lemma pointer_flag [simp]: "LABEL_FLAG_POINTER \<noteq> 0"
  by (simp add: LABEL_FLAG_POINTER_def)

lemma top_bits: "192 \<le> n \<Longrightarrow> n < 256 \<Longrightarrow> 192 + n mod 64 = (n :: nat)"
proof -
  assume "192 \<le> n" "n < 256"
  then obtain k where "n = 192 + k" "k < 64" using le_Suc_ex [of 192 n] by auto
  then show ?thesis using mod_mult_self3 [of 3 64 k] by simp
qed

lemma pointer_low: "unat (b AND NOT LABEL_FLAG_MASK) = unat b mod 64"
  by (simp add: mask6 take_bit_eq_mask [symmetric] take_bit_eq_mod unat_mod_distrib)

lemma spells_end: "spells d pos ls j e \<Longrightarrow> pos < e \<and> e \<le> length d"
  by (induction rule: spells.induct) (auto simp: get_range_def split: if_splits)

lemma spells_append: "spells d pos ls j e \<Longrightarrow> spells (d @ x) pos ls j e"
proof (induction rule: spells.induct)
  case (Root pos d)
  then show ?case by (intro spells.Root) (auto simp: nth_append)
next
  case (Label pos d l ls j e)
  then show ?case by (intro spells.Label) (auto simp: nth_append get_range_append)
next
  case (Pointer pos d off ls j e)
  then show ?case by (intro spells.Pointer) (auto simp: nth_append)
qed

lemma be_nat_pair: "be_nat [a, b] = 256 * unat a + unat b"
  by (simp add: be_nat_def)

lemma read_u8_at: "rd_pos r < length (rd_data r) \<Longrightarrow> length (rd_data r) \<le> usize_max
    \<Longrightarrow> read_u8 r = Ok (rd_data r ! rd_pos r, r\<lparr>rd_pos := rd_pos r + 1\<rparr>)"
  by (simp add: read_u8_def read_slice_def checked_add_def)

lemma read_slice_at: "get_range (rd_data r) (rd_pos r) (rd_pos r + n) = Some bs \<Longrightarrow> length (rd_data r) \<le> usize_max
    \<Longrightarrow> read_slice n r = Ok (bs, r\<lparr>rd_pos := rd_pos r + n\<rparr>)"
  by (auto simp: read_slice_def checked_add_def get_range_def split: if_splits)

text \<open>Where the cursor ends: at the resume position when there is one.\<close>

definition ends_at :: "nat option \<Rightarrow> nat \<Rightarrow> nat" where
  "ends_at resume e = (case resume of None \<Rightarrow> e | Some p \<Rightarrow> p)"

lemma ends_at_simps [simp]: "ends_at None e = e" "ends_at (Some p) e = p"
  by (simp_all add: ends_at_def)

lemma ends_at_pointer: "ends_at (case resume of None \<Rightarrow> Some p | Some q \<Rightarrow> Some q) e = ends_at resume p"
  by (cases resume) auto

lemma spells_parse:
  "spells d pos ls j e \<Longrightarrow> rd_data r = d \<Longrightarrow> rd_pos r = pos \<Longrightarrow> length d \<le> usize_max \<Longrightarrow> jumps + j \<le> MAX_POINTER_JUMPS
    \<Longrightarrow> collect_results (map decode_label ls) = Ok ds
    \<Longrightarrow> \<exists>q r'. parse_loop acc resume jumps r = Ok (acc @ ds, q, r') \<and> rd_data r' = d
          \<and> ends_at q (rd_pos r') = ends_at resume e"
proof (induction arbitrary: r jumps acc resume ds rule: spells.induct)
  case (Root pos d)
  then show ?case by (subst parse_loop.simps) (simp add: read_u8_at)
next
  case (Label pos d l ls j e)
  have n: "unat (word_of_nat (length l) :: u8) = length l" using Label.hyps(4) by (simp add: unat_of_nat_u8)
  let ?r1 = "r\<lparr>rd_pos := pos + 1\<rparr>"
  from Label.prems(5) obtain dl ds' where dl: "decode_label l = Ok dl" "collect_results (map decode_label ls) = Ok ds'" "ds = dl # ds'"
    by (cases "decode_label l") (auto simp: rbind_Ok_iff)
  have u: "read_u8 r = Ok (word_of_nat (length l), ?r1)" using Label.hyps(1,2) Label.prems(1-3) by (simp add: read_u8_at)
  have s: "read_slice (length l) ?r1 = Ok (l, r\<lparr>rd_pos := pos + 1 + length l\<rparr>)"
    using read_slice_at [of ?r1 "length l" l] Label.hyps(5) Label.prems(1,3) by simp
  have z: "(word_of_nat (length l) :: u8) AND LABEL_FLAG_MASK = 0" "(word_of_nat (length l) :: u8) \<noteq> 0"
    using n Label.hyps(3,4) by (simp add: label_byte) (use n Label.hyps(3) in \<open>auto simp: word_unat_eq_iff\<close>)
  have "parse_loop acc resume jumps r = parse_loop (acc @ [dl]) resume jumps (r\<lparr>rd_pos := pos + 1 + length l\<rparr>)"
    by (subst parse_loop.simps) (simp add: u z n s [simplified] dl(1))
  with Label.IH [of "r\<lparr>rd_pos := pos + 1 + length l\<rparr>" jumps ds' "acc @ [dl]" resume] Label.prems dl(2,3)
  show ?case by simp
next
  case (Pointer pos d off ls j e)
  let ?b = "word_of_nat (192 + off div 256) :: u8" and ?c = "word_of_nat (off mod 256) :: u8"
  let ?r2 = "r\<lparr>rd_pos := Suc (Suc pos)\<rparr>"
  have o: "off div 256 < 64" using Pointer.hyps(4) by simp
  then have n: "unat ?b = 192 + off div 256" "unat ?c = off mod 256"
    by (simp_all only: unat_of_nat_u8) simp_all
  then have off: "be_nat [?b AND NOT LABEL_FLAG_MASK, ?c] = off"
    using o div_mult_mod_eq [of off 256] by (simp only: be_nat_pair pointer_low) (simp add: mod_add_left_eq [symmetric])
  have z: "?b \<noteq> 0" "?b AND LABEL_FLAG_MASK \<noteq> 0" "?b AND LABEL_FLAG_MASK = LABEL_FLAG_POINTER"
    using n(1) by (auto simp only: label_byte pointer_byte word_unat_eq_iff [of ?b 0] unat_0)
  have u: "read_u8 r = Ok (?b, r\<lparr>rd_pos := Suc pos\<rparr>)" "read_u8 (r\<lparr>rd_pos := Suc pos\<rparr>) = Ok (?c, ?r2)"
    using read_u8_at [of r] read_u8_at [of "r\<lparr>rd_pos := Suc pos\<rparr>"] Pointer.hyps(1-3) Pointer.prems(1-3) by simp_all
  have sk: "seek off ?r2 = Ok (r\<lparr>rd_pos := off\<rparr>)" using Pointer.hyps(5) Pointer.prems(1) by (simp add: seek_Ok)
  let ?res = "case resume of None \<Rightarrow> Some (Suc (Suc pos)) | Some p \<Rightarrow> Some p"
  have "parse_loop acc resume jumps r = parse_loop acc ?res (jumps + 1) (r\<lparr>rd_pos := off\<rparr>)"
    using Pointer.prems(4) by (subst parse_loop.simps) (simp add: u z off sk del: of_nat_add cong: option.case_cong)
  with Pointer.IH [of "r\<lparr>rd_pos := off\<rparr>" "jumps + 1" ds acc ?res] Pointer.prems
  show ?case by (simp add: ends_at_pointer)
qed

lemma parse_spells:
  "parse_loop acc resume jumps r = Ok (out, q, r') \<Longrightarrow> jumps \<le> MAX_POINTER_JUMPS \<Longrightarrow> reader_ok r
    \<Longrightarrow> \<exists>ls j e ds. spells (rd_data r) (rd_pos r) ls j e \<and> jumps + j \<le> MAX_POINTER_JUMPS
          \<and> collect_results (map decode_label ls) = Ok ds \<and> out = acc @ ds \<and> rd_data r' = rd_data r
          \<and> ends_at q (rd_pos r') = ends_at resume e"
proof (induction acc resume jumps r arbitrary: out q r' rule: parse_loop.induct)
  case (1 acc resume jumps r)
  note H = 1
  from H(3) obtain len r1 where u: "read_u8 r = Ok (len, r1)" by (subst (asm) parse_loop.simps) (auto simp: rbind_Ok_iff)
  note m = read_moves(1) [OF u]
  have ok: "reader_ok r1" and fits: "length (rd_data r) \<le> usize_max" using m H(5) by (auto simp: reader_ok_def)
  consider "len = 0" | "len \<noteq> 0" "unat len < 64" | "len \<noteq> 0" "192 \<le> unat len" "\<not> unat len < 64"
    | "len \<noteq> 0" "\<not> unat len < 64" "\<not> 192 \<le> unat len" by linarith
  then show ?case
  proof cases
    case 1
    with H(3) u have "out = acc" "q = resume" "r' = r1" by (subst (asm) parse_loop.simps; simp)+
    moreover have "spells (rd_data r) (rd_pos r) [] 0 (rd_pos r + 1)" using 1 m by (intro spells.Root) auto
    ultimately show ?thesis using m H(4) by (intro exI [of _ "[]"] exI [of _ 0] exI [of _ "rd_pos r + 1"]) simp
  next
    case 2
    then have z: "len AND LABEL_FLAG_MASK = 0" by (simp add: label_byte)
    from H(3) obtain raw r2 l where s: "read_slice (unat len) r1 = Ok (raw, r2)" and l: "decode_label raw = Ok l"
      and p: "parse_loop (acc @ [l]) resume jumps r2 = Ok (out, q, r')"
      by (subst (asm) parse_loop.simps) (auto simp: u z 2 rbind_Ok_iff)
    note m2 = read_slice_Ok [OF s]
    have "reader_ok r2" using m2 ok by (auto simp: reader_ok_def)
    from H(1) [OF u refl 2(1) z s refl l p H(4) this] m2 m obtain ls j e ds where
      sp: "spells (rd_data r) (rd_pos r + 1 + unat len) ls j e" and j: "jumps + j \<le> MAX_POINTER_JUMPS"
      and c: "collect_results (map decode_label ls) = Ok ds" and o: "out = acc @ [l] @ ds" "rd_data r' = rd_data r"
        "ends_at q (rd_pos r') = ends_at resume e"
      by auto
    have raw: "length raw = unat len" "0 < unat len" using m2 2(1) by (auto simp: unat_gt_0)
    then have "get_range (rd_data r) (rd_pos r + 1) (rd_pos r + 1 + length raw) = Some raw"
      using m m2 by (simp add: get_range_def)
    with m raw 2(2) sp have "spells (rd_data r) (rd_pos r) (raw # ls) j e" by (intro spells.Label) simp_all
    with j c o l show ?thesis by (intro exI [of _ "raw # ls"] exI [of _ j] exI [of _ e] exI [of _ "l # ds"]) simp
  next
    case 3
    then have z: "len AND LABEL_FLAG_MASK \<noteq> 0" "len AND LABEL_FLAG_MASK = LABEL_FLAG_POINTER"
      by (simp_all only: label_byte pointer_byte not_False_eq_True)
    from H(3) obtain low r2 r3 where s: "read_u8 r1 = Ok (low, r2)" and k: "\<not> MAX_POINTER_JUMPS < jumps + 1"
      and sk: "seek (be_nat [len AND NOT LABEL_FLAG_MASK, low]) r2 = Ok r3"
      and p: "parse_loop acc (case resume of None \<Rightarrow> Some (rd_pos r2) | Some p \<Rightarrow> Some p) (jumps + 1) r3 = Ok (out, q, r')"
      by (subst (asm) parse_loop.simps) (auto simp: u z 3 rbind_Ok_iff split: if_splits)
    let ?off = "be_nat [len AND NOT LABEL_FLAG_MASK, low]"
    note m2 = read_moves(1) [OF s]
    have r3: "r3 = r2\<lparr>rd_pos := ?off\<rparr>" "?off \<le> length (rd_data r)" using sk m m2 by (auto simp: seek_Ok)
    have "reader_ok r3" using r3 m m2 fits by (simp add: reader_ok_def)
    from H(2) [OF u refl 3(1) z s refl k sk p _ this] k r3 m2 m obtain ls j e ds where
      sp: "spells (rd_data r) ?off ls j e" and j: "jumps + 1 + j \<le> MAX_POINTER_JUMPS"
      and c: "collect_results (map decode_label ls) = Ok ds" "out = acc @ ds" "rd_data r' = rd_data r"
      and e: "ends_at q (rd_pos r') = ends_at (case resume of None \<Rightarrow> Some (rd_pos r2) | Some p \<Rightarrow> Some p) e"
      by auto
    have off: "?off = 256 * (unat len mod 64) + unat low" by (simp only: be_nat_pair pointer_low)
    have d: "?off div 256 = unat len mod 64" "?off mod 256 = unat low" using unat_u8_bound [of low] by (simp_all add: off)
    have small: "?off < 2 ^ 14" using unat_u8_bound [of low] mod_less_divisor [of 64 "unat len"] by (simp add: off)
    have "192 + unat len mod 64 = unat len" using 3(2) unat_u8_bound [of len] by (rule top_bits)
    then have w: "word_of_nat (192 + ?off div 256) = len" "word_of_nat (?off mod 256) = low"
      by (simp_all only: d) simp_all
    have "spells (rd_data r) (rd_pos r) ls (j + 1) (rd_pos r + 2)"
      using m m2 w r3(2) sp small by (intro spells.Pointer [of _ _ ?off]) auto
    with j c e m m2 show ?thesis
      by (intro exI [of _ ls] exI [of _ "j + 1"] exI [of _ "rd_pos r + 2"] exI [of _ ds]) (simp add: ends_at_pointer)
  next
    case 4
    then have "len AND LABEL_FLAG_MASK \<noteq> 0" "len AND LABEL_FLAG_MASK \<noteq> LABEL_FLAG_POINTER"
      by (simp_all only: label_byte pointer_byte not_False_eq_True)
    with H(3) 4 u show ?thesis by (subst (asm) parse_loop.simps) simp
  qed
qed

lemma parse_name_iff:
  assumes "reader_ok r"
  shows "parse_name r = Ok (s, r') \<longleftrightarrow>
    (\<exists>ls j e ds. spells (rd_data r) (rd_pos r) ls j e \<and> j \<le> MAX_POINTER_JUMPS
       \<and> collect_results (map decode_label ls) = Ok ds \<and> s = join [dot] ds \<and> r' = r\<lparr>rd_pos := e\<rparr>)"
proof
  assume "parse_name r = Ok (s, r')"
  then obtain ds q r1 where p: "parse_loop [] None 0 r = Ok (ds, q, r1)" and s: "s = join [dot] ds"
    and r': "(case q of None \<Rightarrow> Ok r1 | Some p \<Rightarrow> seek p r1) = Ok r'"
    by (auto simp: parse_name_def rbind_Ok_iff)
  from parse_spells [OF p _ assms] obtain ls j e where "spells (rd_data r) (rd_pos r) ls j e" "j \<le> MAX_POINTER_JUMPS"
    "collect_results (map decode_label ls) = Ok ds" and e: "rd_data r1 = rd_data r" "ends_at q (rd_pos r1) = e" by auto
  moreover have "r' = r\<lparr>rd_pos := e\<rparr>" using e r' by (cases q) (auto simp: seek_Ok)
  ultimately show "\<exists>ls j e ds. spells (rd_data r) (rd_pos r) ls j e \<and> j \<le> MAX_POINTER_JUMPS
       \<and> collect_results (map decode_label ls) = Ok ds \<and> s = join [dot] ds \<and> r' = r\<lparr>rd_pos := e\<rparr>"
    using s by blast
next
  assume "\<exists>ls j e ds. spells (rd_data r) (rd_pos r) ls j e \<and> j \<le> MAX_POINTER_JUMPS
       \<and> collect_results (map decode_label ls) = Ok ds \<and> s = join [dot] ds \<and> r' = r\<lparr>rd_pos := e\<rparr>"
  then obtain ls j e ds where sp: "spells (rd_data r) (rd_pos r) ls j e" "j \<le> MAX_POINTER_JUMPS"
    and c: "collect_results (map decode_label ls) = Ok ds" and s: "s = join [dot] ds" and r': "r' = r\<lparr>rd_pos := e\<rparr>" by blast
  from spells_parse [OF sp(1) refl refl _ _ c, of 0 "[]" None] sp(2) assms obtain q r1 where
    "parse_loop [] None 0 r = Ok (ds, q, r1)" "rd_data r1 = rd_data r" "ends_at q (rd_pos r1) = e"
    by (auto simp: reader_ok_def)
  with s r' spells_end [OF sp(1)] show "parse_name r = Ok (s, r')" by (cases q) (auto simp: parse_name_def seek_def)
qed

lemma decode_label_utf8: "decode_label l = Ok s \<Longrightarrow> utf8_valid s"
  using punycode_decode_ok by (auto simp: decode_label_def Let_def res_simps split: if_splits)

lemma utf8_valid_join: "\<forall>w \<in> set ws. utf8_valid w \<Longrightarrow> utf8_valid (join [dot] ws)"
proof (induction ws)
  case (Cons w ws)
  then show ?case by (cases "ws = []") (auto simp: join_Cons utf8_valid_append)
qed simp

lemma collect_results_all: "collect_results ms = Ok xs \<Longrightarrow> x \<in> set xs \<Longrightarrow> Ok x \<in> set ms"
  by (induction ms arbitrary: xs rule: collect_results.induct) (auto simp: rbind_Ok_iff)

lemma parse_name_safe:
  assumes "reader_ok r" and "parse_name r = Ok (s, r')"
  shows "advanced r r' \<and> utf8_valid s"
proof -
  from assms obtain ls j e ds where sp: "spells (rd_data r) (rd_pos r) ls j e" and c: "collect_results (map decode_label ls) = Ok ds"
    and s: "s = join [dot] ds" and r': "r' = r\<lparr>rd_pos := e\<rparr>" by (auto simp: parse_name_iff)
  have "\<forall>w \<in> set ds. utf8_valid w" using collect_results_all [OF c] decode_label_utf8 by fastforce
  with utf8_valid_join s r' spells_end [OF sp] show ?thesis by (auto simp: advanced_def)
qed

section \<open>The names of RFC 1035\<close>

text \<open>
  RFC 1035 itself: a pointer leads to a prior occurrence, and a name has at most 255 octets when it is written
  out in full (sections 4.1.4 and 2.3.4).
\<close>

inductive rfc_spells :: "bytes \<Rightarrow> nat \<Rightarrow> bytes list \<Rightarrow> nat \<Rightarrow> nat \<Rightarrow> bool" where
  Rfc_Root: "pos < length d \<Longrightarrow> d ! pos = 0 \<Longrightarrow> rfc_spells d pos [] 0 (pos + 1)"
| Rfc_Label: "pos < length d \<Longrightarrow> d ! pos = word_of_nat (length l) \<Longrightarrow> 0 < length l \<Longrightarrow> length l \<le> 63
    \<Longrightarrow> get_range d (pos + 1) (pos + 1 + length l) = Some l \<Longrightarrow> rfc_spells d (pos + 1 + length l) ls j e
    \<Longrightarrow> rfc_spells d pos (l # ls) j e"
| Rfc_Pointer: "pos + 1 < length d \<Longrightarrow> d ! pos = word_of_nat (192 + off div 256) \<Longrightarrow> d ! (pos + 1) = word_of_nat (off mod 256)
    \<Longrightarrow> off < 2 ^ 14 \<Longrightarrow> off < pos \<Longrightarrow> rfc_spells d off ls j e
    \<Longrightarrow> rfc_spells d pos ls (j + 1) (pos + 2)"

definition rfc_name :: "bytes \<Rightarrow> nat \<Rightarrow> bytes list \<Rightarrow> nat \<Rightarrow> nat \<Rightarrow> bool" where
  "rfc_name d pos ls j e \<longleftrightarrow> rfc_spells d pos ls j e \<and> sum_list (map (\<lambda>l. length l + 1) ls) + 1 \<le> 255"

lemma rfc_spells: "rfc_spells d pos ls j e \<Longrightarrow> spells d pos ls j e"
proof (induction rule: rfc_spells.induct)
  case (Rfc_Root pos d)
  then show ?case by (rule spells.Root)
next
  case (Rfc_Label pos d l ls j e)
  then show ?case by (blast intro: spells.Label)
next
  case (Rfc_Pointer pos d off ls j e)
  moreover from this have "off \<le> length d" by linarith
  ultimately show ?case by (blast intro: spells.Pointer)
qed

section \<open>Properties\<close>

text \<open>
  C15: \<open>parse_name\<close> reads exactly its grammar. It accepts the names the relation \<open>spells\<close>
  describes whose pointer chain has at most 64 links and whose labels all decode, as UTF-8 or as Punycode behind \<open>xn--\<close>,
  and no others; it returns their labels joined with dots and leaves the cursor where the name ended at its original position.
  Every name of RFC 1035 under the same two conditions, on the chain and on the labels, is among them and is read so. The
  converse does not hold: the grammar lets a pointer lead forwards and a name grow past 255 octets.
\<close>

theorem parse_name_correct:
  assumes "reader_ok r"
  shows "(parse_name r = Ok (s, r') \<longleftrightarrow>
    (\<exists>ls j e ds. spells (rd_data r) (rd_pos r) ls j e \<and> j \<le> MAX_POINTER_JUMPS
       \<and> collect_results (map decode_label ls) = Ok ds \<and> s = join [dot] ds \<and> r' = r\<lparr>rd_pos := e\<rparr>))
    \<and> (\<forall>ls j e ds. rfc_name (rd_data r) (rd_pos r) ls j e \<and> j \<le> MAX_POINTER_JUMPS \<and> collect_results (map decode_label ls) = Ok ds \<longrightarrow>
         parse_name r = Ok (join [dot] ds, r\<lparr>rd_pos := e\<rparr>))"
proof (intro conjI allI impI)
  show "parse_name r = Ok (s, r') \<longleftrightarrow>
    (\<exists>ls j e ds. spells (rd_data r) (rd_pos r) ls j e \<and> j \<le> MAX_POINTER_JUMPS
       \<and> collect_results (map decode_label ls) = Ok ds \<and> s = join [dot] ds \<and> r' = r\<lparr>rd_pos := e\<rparr>)"
    by (rule parse_name_iff [OF assms])
  fix ls j e ds
  assume "rfc_name (rd_data r) (rd_pos r) ls j e \<and> j \<le> MAX_POINTER_JUMPS \<and> collect_results (map decode_label ls) = Ok ds"
  then have "spells (rd_data r) (rd_pos r) ls j e" "j \<le> MAX_POINTER_JUMPS" "collect_results (map decode_label ls) = Ok ds"
    by (auto simp: rfc_name_def intro: rfc_spells)
  then show "parse_name r = Ok (join [dot] ds, r\<lparr>rd_pos := e\<rparr>)"
    by (subst parse_name_iff [OF assms]) blast
qed

text \<open>A forward pointer, which the RFC does not have, is followed: a name the RFC does not describe is accepted.\<close>

lemma forward_pointer_read:
  "parse_name \<lparr>rd_data = [192, 2, 0], rd_pos = 0\<rparr> = Ok ([], \<lparr>rd_data = [192, 2, 0], rd_pos = 2\<rparr>)"
  "\<not> rfc_name [192, 2, 0] 0 ls j e"
proof -
  let ?d = "[192, 2, 0] :: bytes"
  have a: "spells ?d 2 [] 0 3" using spells.Root [of 2 ?d] by simp
  have "spells ?d 0 [] (0 + 1) (0 + 2)" by (rule spells.Pointer [OF _ _ _ _ _ a]) simp_all
  then have "spells ?d 0 [] 1 2" by (simp only: add_0)
  moreover have "reader_ok \<lparr>rd_data = ?d, rd_pos = 0\<rparr>" by (simp add: reader_ok_def usize_max_def)
  ultimately show "parse_name \<lparr>rd_data = ?d, rd_pos = 0\<rparr> = Ok ([], \<lparr>rd_data = ?d, rd_pos = 2\<rparr>)"
    by (subst parse_name_iff)
      (simp_all only:, rule exI [of _ "[]"], rule exI [of _ 1], rule exI [of _ 2], rule exI [of _ "[]"], simp add: MAX_POINTER_JUMPS_def)
  show "\<not> rfc_name ?d 0 ls j e"
  proof
    assume "rfc_name ?d 0 ls j e"
    then have "rfc_spells ?d 0 ls j e" by (simp add: rfc_name_def)
    then show False
    proof cases
      case (Rfc_Label l ls')
      then have "unat (word_of_nat (length l) :: u8) = 192" by simp
      with Rfc_Label(5) show False by (simp add: unat_of_nat take_bit_nat_def)
    qed simp_all
  qed
qed

theorem parse_name_correct_witness:
  "parse_name \<lparr>rd_data = [1, 97, 0, 1, 98, 192, 0], rd_pos = 3\<rparr>
   = Ok ([98, 46, 97], \<lparr>rd_data = [1, 97, 0, 1, 98, 192, 0], rd_pos = 7\<rparr>)"
proof -
  let ?d = "[1, 97, 0, 1, 98, 192, 0] :: bytes"
  have a: "spells ?d 0 [[97]] 0 3"
    using spells.Label [of 0 ?d "[97]" "[]" 0 3] spells.Root [of 2 ?d] by (simp add: get_range_def eval_nat_numeral)
  have "spells ?d 5 [[97]] 1 7" using spells.Pointer [of 5 ?d 0, OF _ _ _ _ _ a] by simp
  then have "spells ?d 3 [[98], [97]] 1 7"
    using spells.Label [of 3 ?d "[98]" "[[97]]" 1 7] by (simp add: get_range_def eval_nat_numeral)
  moreover have "collect_results (map decode_label [[98], [97]]) = Ok [[98], [97]]"
    by (simp add: decode_label_def ACE_PREFIX_def)
  ultimately have "\<exists>ls j e ds. spells ?d 3 ls j e \<and> j \<le> MAX_POINTER_JUMPS \<and> collect_results (map decode_label ls) = Ok ds
      \<and> [98, 46, 97] = join [dot] ds \<and> \<lparr>rd_data = ?d, rd_pos = 7\<rparr> = \<lparr>rd_data = ?d, rd_pos = 3\<rparr>\<lparr>rd_pos := e\<rparr>"
    by (intro exI [of _ "[[98], [97]]"] exI [of _ "1 :: nat"] exI [of _ "7 :: nat"] conjI; simp add: MAX_POINTER_JUMPS_def)
  then show ?thesis using parse_name_correct [of "\<lparr>rd_data = ?d, rd_pos = 3\<rparr>"] by (simp add: reader_ok_def usize_max_def)
qed

text \<open>
  No name, however hostile, moves the parser outside the message: a successful parse advances the
  cursor, keeps it inside the message, and returns valid UTF-8, whether or not labels were Punycode.
\<close>

theorem parse_name_in_bounds:
  assumes "reader_ok r" and "parse_name r = Ok (s, r')"
  shows "rd_data r' = rd_data r \<and> rd_pos r < rd_pos r' \<and> rd_pos r' \<le> length (rd_data r) \<and> utf8_valid s"
  using parse_name_safe [OF assms] by (auto simp: advanced_def)

theorem parse_name_in_bounds_witness: "utf8_valid [98 :: u8]"
proof -
  have "parse_name \<lparr>rd_data = [1, 98, 0], rd_pos = 0\<rparr> = Ok ([98], \<lparr>rd_data = [1, 98, 0], rd_pos = 3\<rparr>)"
    by (simp add: parse_name_def parse_loop.simps read_u8_def
        read_slice_def checked_add_def usize_max_def LABEL_FLAG_MASK_def decode_label_def ACE_PREFIX_def)
  from parse_name_in_bounds [OF _ this] show ?thesis by (simp add: reader_ok_def usize_max_def)
qed

end
