(* ===== verification/Dns_Written.thy ===== *)
theory Dns_Written
  imports Dns_Name
begin

unbundle bit_operations_syntax

text \<open>
  What the name encoders of \<open>Dns_Name\<close> write, with and without compression, and that the
  parser reads it back. The two encoders satisfy the interface \<open>wire_codec\<close>, on which the
  message codec rests.
\<close>

section \<open>What the encoders write\<close>

text \<open>
  A label the encoder keeps as it is: in normal form and at most 63 bytes long. An empty label ends
  the name, so what is written of a list is its \<open>visible\<close> part.
\<close>

definition label_ok :: "(bytes \<Rightarrow> bytes) \<Rightarrow> bytes \<Rightarrow> bool" where
  "label_ok nfc l \<longleftrightarrow> nfc l = l \<and> length l \<le> MAX_LABEL_LENGTH"

definition visible :: "bytes list \<Rightarrow> bytes list" where
  "visible ls = takeWhile (\<lambda>l. l \<noteq> []) ls"

lemma visible_simps [simp]:
  "visible [] = []" "visible ([] # ls) = []" "l \<noteq> [] \<Longrightarrow> visible (l # ls) = l # visible ls"
  by (simp_all add: visible_def)

lemma encode_label_ok: "label_ok nfc l \<Longrightarrow> encode_label nfc l = (word_of_nat (length l) # l, l = [])"
  by (simp add: label_ok_def encode_label_def Let_def MAX_LABEL_LENGTH_def)

lemma spells_label:
  assumes "l \<noteq> []" and "length l \<le> 63" and "length p = pos"
    and "spells (p @ word_of_nat (length l) # l @ x) (pos + 1 + length l) ls j e"
  shows "spells (p @ word_of_nat (length l) # l @ x) pos (l # ls) j e"
  using assms by (intro spells.Label) (auto simp: nth_append get_range_def)

lemma spells_root: "length p = pos \<Longrightarrow> spells (p @ 0 # x) pos [] 0 (pos + 1)"
  by (intro spells.Root) (auto simp: nth_append)

lemma encode_labels_spell:
  "\<forall>l \<in> set ls. label_ok nfc l \<Longrightarrow>
     spells (p @ encode_name_labels nfc ls @ x) (length p) (visible ls) 0 (length p + length (encode_name_labels nfc ls))"
proof (induction ls arbitrary: p)
  case Nil
  show ?case using spells_root [of p "length p" x] by simp
next
  case (Cons l ls)
  then have l: "label_ok nfc l" by simp
  show ?case
  proof (cases "l = []")
    case True
    with l spells_root [of p "length p" x] show ?thesis by (simp add: encode_label_ok)
  next
    case False
    from Cons.IH [of "p @ word_of_nat (length l) # l"] Cons.prems
    have "spells (p @ word_of_nat (length l) # l @ encode_name_labels nfc ls @ x) (length p + 1 + length l) (visible ls) 0
        (length p + length (encode_name_labels nfc (l # ls)))"
      using False by (simp add: encode_label_ok add.assoc)
    from spells_label [OF False _ refl this] l False show ?thesis
      by (simp add: encode_label_ok add.assoc) (simp add: label_ok_def MAX_LABEL_LENGTH_def)
  qed
qed

section \<open>The compressor's table\<close>

lemma pointer_word: "unat off \<le> MAX_POINTER_OFFSET \<Longrightarrow>
  unat (push_bit 8 (ucast LABEL_FLAG_POINTER) OR (off :: u16)) = 192 * 256 + unat off"
proof -
  assume off: "unat off \<le> MAX_POINTER_OFFSET"
  then have t: "off = take_bit 14 off"
    by (simp add: word_unat_eq_iff unsigned_take_bit_eq take_bit_eq_mod MAX_POINTER_OFFSET_def unat_mod_distrib)
  have "push_bit 14 x AND take_bit 14 off = 0" for x :: u16 by (rule bit_eqI) (auto simp: bit_simps)
  from this [of 3] have d: "(0xC000 :: u16) AND off = 0" by (simp add: t [symmetric])
  have "push_bit 8 (ucast LABEL_FLAG_POINTER) OR off = 0xC000 + off"
    using disjunctive_add_eq_or [OF d] by (simp add: LABEL_FLAG_POINTER_def)
  moreover have "unat (0xC000 + off) = 192 * 256 + unat off"
    using off by (simp add: unat_word_ariths MAX_POINTER_OFFSET_def)
  ultimately show ?thesis by simp
qed

lemma be_bytes_2: "be_bytes 2 n = [word_of_nat (n div 256 mod 256), word_of_nat (n mod 256)]"
  by (simp add: be_bytes_def le_bytes_numeral)

lemma pointer_bytes: "unat off \<le> MAX_POINTER_OFFSET \<Longrightarrow>
  be_bytes 2 (unat (push_bit 8 (ucast LABEL_FLAG_POINTER) OR (off :: u16)))
    = [word_of_nat (192 + unat off div 256), word_of_nat (unat off mod 256)]"
proof -
  assume off: "unat off \<le> MAX_POINTER_OFFSET"
  have "(192 * 256 + unat off) div 256 = 192 + unat off div 256" "(192 * 256 + unat off) mod 256 = unat off mod 256"
    by (simp_all only: div_mult_self3 mod_mult_self3 zero_neq_numeral not_False_eq_True simp_thms)
  moreover have "(192 + unat off div 256) mod 256 = 192 + unat off div 256"
    using off by (simp add: MAX_POINTER_OFFSET_def)
  ultimately show ?thesis by (simp only: pointer_word [OF off] be_bytes_2)
qed

text \<open>A written suffix: the key's labels are spelled at the offset, over fewer pointers than labels.\<close>

definition plain_labels :: "(bytes \<Rightarrow> bytes) \<Rightarrow> bytes list \<Rightarrow> bool" where
  "plain_labels nfc ls \<longleftrightarrow> (\<forall>l \<in> set ls. label_ok nfc l \<and> 0 \<notin> set l)"

definition suffix_at :: "(bytes \<Rightarrow> bytes) \<Rightarrow> bytes \<Rightarrow> bytes list \<Rightarrow> u16 \<Rightarrow> bool" where
  "suffix_at nfc out ls off \<longleftrightarrow> unat off \<le> MAX_POINTER_OFFSET \<and> ls \<noteq> [] \<and> plain_labels nfc ls
     \<and> (\<exists>j e. spells out (unat off) (visible ls) j e \<and> j < length (visible ls))"

definition table_ok :: "(bytes \<Rightarrow> bytes) \<Rightarrow> bytes set \<Rightarrow> compressor \<Rightarrow> bytes \<Rightarrow> bool" where
  "table_ok nfc pending offsets out \<longleftrightarrow>
     (\<forall>k off. k \<notin> pending \<longrightarrow> offsets k = Some off \<longrightarrow> (\<exists>ls. k = join [0] ls \<and> suffix_at nfc out ls off))"

lemma suffix_at_append: "suffix_at nfc out ls off \<Longrightarrow> suffix_at nfc (out @ x) ls off"
  by (auto simp: suffix_at_def intro: spells_append)

lemma table_ok_append: "table_ok nfc P offsets out \<Longrightarrow> table_ok nfc P offsets (out @ x)"
  unfolding table_ok_def by (blast intro: suffix_at_append)

lemma comp_table_new: "table_ok nfc P compressor_new out"
  by (simp add: table_ok_def compressor_new_def)

lemma join_inj: "plain_labels nfc xs \<Longrightarrow> plain_labels nfc ys \<Longrightarrow> xs \<noteq> [] \<Longrightarrow> ys \<noteq> [] \<Longrightarrow> join [0] xs = join [0] ys \<Longrightarrow> xs = ys"
  by (metis split_join plain_labels_def)

lemma spells_pointer:
  assumes "unat off \<le> MAX_POINTER_OFFSET" and "spells out (unat off) ls j e"
  shows "spells (out @ be_bytes 2 (unat (push_bit 8 (ucast LABEL_FLAG_POINTER) OR (off :: u16)))) (length out) ls (j + 1) (length out + 2)"
proof -
  have "unat off \<le> length out" using spells_end [OF assms(2)] by simp
  with assms(1) spells_append [OF assms(2)] show ?thesis
    unfolding pointer_bytes [OF assms(1)]
    by (intro spells.Pointer [where off = "unat off"]) (simp_all add: nth_append MAX_POINTER_OFFSET_def del: of_nat_add)
qed

text \<open>
  While a name is being written, the suffixes begun and not finished are in the table already;
  they are \<open>pending\<close>, longer than the labels to come, and so not looked up.
\<close>

lemma compress_labels_spell:
  "plain_labels nfc ls \<Longrightarrow> table_ok nfc P offsets out
    \<Longrightarrow> (\<forall>k \<in> P. \<exists>ms. plain_labels nfc ms \<and> length ls < length ms \<and> k = join [0] ms)
    \<Longrightarrow> compress_labels nfc offsets (length out) ls = (offsets', bs)
    \<Longrightarrow> (\<exists>j. spells (out @ bs) (length out) (visible ls) j (length (out @ bs)) \<and> j \<le> length (visible ls))
      \<and> table_ok nfc P offsets' (out @ bs) \<and> (\<forall>k \<in> P. offsets' k = offsets k)"
proof (induction ls arbitrary: P offsets out offsets' bs)
  case Nil
  from Nil.prems spells_root [of out "length out" "[]"] table_ok_append [of nfc P offsets out "[0]"] show ?case by auto
next
  case (Cons l ls)
  let ?key = "join [0] (l # ls)"
  have l: "label_ok nfc l" "plain_labels nfc ls" using Cons.prems(1) by (auto simp: plain_labels_def)
  have fresh: "?key \<notin> P"
  proof
    assume "?key \<in> P"
    with Cons.prems(3) obtain ms where ms: "plain_labels nfc ms" "length (l # ls) < length ms" "?key = join [0] ms" by metis
    from ms(2) have "ms \<noteq> []" by auto
    from join_inj [OF Cons.prems(1) ms(1) _ this ms(3)] ms(2) show False by simp
  qed
  show ?case
  proof (cases "l = []")
    case True
    from Cons.prems True spells_root [of out "length out" "[]"] table_ok_append [of nfc P offsets out "[0]"] show ?thesis by auto
  next
    case False
    show ?thesis
    proof (cases "offsets ?key")
      case (Some off)
      with Cons.prems(2) fresh obtain ms where ms: "?key = join [0] ms" "suffix_at nfc out ms off" by (auto simp: table_ok_def)
      have "plain_labels nfc ms" "ms \<noteq> []" using ms(2) by (simp_all add: suffix_at_def)
      from join_inj [OF Cons.prems(1) this(1) _ this(2) ms(1)] have "ms = l # ls" by simp
      with ms(2) obtain j e where off: "unat off \<le> MAX_POINTER_OFFSET" and sp: "spells out (unat off) (visible (l # ls)) j e"
        and j: "j < length (visible (l # ls))" by (auto simp: suffix_at_def)
      from Cons.prems(4) False Some have "offsets' = offsets"
        "bs = be_bytes 2 (unat (push_bit 8 (ucast LABEL_FLAG_POINTER) OR off))" by simp_all
      with spells_pointer [OF off sp] j table_ok_append [OF Cons.prems(2)] show ?thesis
        by (auto intro!: exI [of _ "Suc j"])
    next
      case None
      let ?w = "word_of_nat (length l) # l"
      let ?t = "if length out \<le> MAX_POINTER_OFFSET then offsets(?key \<mapsto> word_of_nat (length out)) else offsets"
      obtain t' rest where r: "compress_labels nfc ?t (length (out @ ?w)) ls = (t', rest)" by fastforce
      with Cons.prems(4) False None have o: "offsets' = t'" "bs = ?w @ rest" by (simp_all add: encode_label_ok [OF l(1)] Let_def)
      have t: "table_ok nfc (insert ?key P) ?t (out @ ?w)"
        using table_ok_append [OF Cons.prems(2), of ?w] by (auto simp: table_ok_def)
      have pend: "\<forall>k \<in> insert ?key P. \<exists>ms. plain_labels nfc ms \<and> length ls < length ms \<and> k = join [0] ms"
        using Cons.prems(1,3) by (auto intro: exI [of _ "l # ls"]) (meson Suc_lessD)
      from Cons.IH [OF l(2) t pend r] obtain j where
        sp: "spells (out @ ?w @ rest) (length (out @ ?w)) (visible ls) j (length (out @ ?w @ rest))" and j: "j \<le> length (visible ls)"
        and t': "table_ok nfc (insert ?key P) t' (out @ ?w @ rest)" and keep: "\<forall>k \<in> insert ?key P. t' k = ?t k"
        by auto
      have spl: "spells (out @ bs) (length out) (visible (l # ls)) j (length (out @ bs))"
        using spells_label [OF False _ refl, of out rest "visible ls" j "length (out @ bs)"] sp l(1) False o(2)
        by (simp add: label_ok_def MAX_LABEL_LENGTH_def)
      have "\<exists>ms. ?key = join [0] ms \<and> suffix_at nfc (out @ bs) ms off" if "t' ?key = Some off" for off
      proof -
        from that keep None have off: "length out \<le> MAX_POINTER_OFFSET" "off = word_of_nat (length out)"
          by (auto split: if_splits)
        then have "unat off = length out" by (simp add: unat_of_nat MAX_POINTER_OFFSET_def)
        moreover have "\<exists>j e. spells (out @ bs) (length out) (visible (l # ls)) j e \<and> j < length (visible (l # ls))"
          using spl j False by (intro exI [of _ j] exI [of _ "length (out @ bs)"]) simp
        ultimately show ?thesis using off(1) Cons.prems(1) by (intro exI [of _ "l # ls"]) (simp add: suffix_at_def)
      qed
      with t' have "table_ok nfc P t' (out @ bs)" unfolding table_ok_def o(2) by (metis insert_iff append_assoc)
      moreover have "\<forall>k \<in> P. t' k = offsets k" using keep fresh by auto
      ultimately show ?thesis using spl j False o(1) by (auto intro!: exI [of _ j])
    qed
  qed
qed

section \<open>Names as strings\<close>

lemma service_pair_Some:
  "service_pair before labels = Some (b, l, n, rest) \<Longrightarrow> before @ labels = b @ l # n # rest \<and> l \<noteq> []"
  by (induction before labels arbitrary: b l n rest rule: service_pair.induct) (auto split: if_splits)

lemma last_split: "last (split_on c s) = [] \<longleftrightarrow> s = [] \<or> last s = c"
proof (induction s)
  case (Cons x xs)
  obtain w ws where w: "split_on c xs = w # ws" by (cases "split_on c xs") auto
  have "c \<notin> set xs" if "ws = []" using that w join_split [of c xs] split_no_sep [of w c xs] by simp
  then have "\<not> (xs \<noteq> [] \<and> last xs = c)" if "ws = []" using that last_in_set [of xs] by blast
  with w Cons show ?case by auto
qed simp

lemma join_Nil_iff: "ws \<noteq> [] \<Longrightarrow> join [c] ws = [] \<longleftrightarrow> ws = [[]]"
proof (cases ws)
  case (Cons w vs)
  then show ?thesis by (cases vs) auto
qed simp

lemma name_labels_join:
  assumes "s \<noteq> []" and "hd s \<noteq> dot" and "last s \<noteq> dot"
  shows "\<exists>ls. name_to_labels s = ls @ [[]] \<and> join [dot] ls = s"
proof (cases "split_name s")
  case (Inl e)
  have "last (split_on dot s) \<noteq> []" using assms by (simp add: last_split)
  with Inl show ?thesis by (simp add: name_to_labels_def)
next
  case (Inr sn)
  then obtain b l n rest where p: "service_pair [] (split_on dot s) = Some (b, l, n, rest)"
    and sn: "sn = \<lparr>sn_instance = (if join [dot] b = [] then None else Some (join [dot] b)),
                sn_service = l @ [dot] @ n, sn_domain = join [dot] rest\<rparr>"
    by (auto simp: split_name_def Let_def split: if_splits option.splits)
  from service_pair_Some [OF p] have sp: "split_on dot s = b @ l # n # rest" and "l \<noteq> []" by auto
  then have s: "s = join [dot] (b @ l # n # rest)" by (metis join_split)
  have free: "\<forall>w \<in> set (b @ l # n # rest). dot \<notin> set w" using split_no_sep [of _ dot s] sp by auto
  have inst: "sn_instance sn = (if join [dot] b = [] then None else Some (join [dot] b))" using sn by simp
  let ?t = "l # n # (if rest = [] then [[]] else rest)"
  have ptr: "ptr_name sn = join [dot] ?t" using sn by (simp add: ptr_name_def join_Cons)
  have t: "split_on dot (ptr_name sn) = ?t" unfolding ptr using free by (intro split_join) auto
  have last: "rest \<noteq> [] \<Longrightarrow> last rest \<noteq> []"
    using last_split [of dot s] sp assms by simp
  have b: "b \<noteq> [] \<Longrightarrow> join [dot] b \<noteq> []"
  proof
    assume "b \<noteq> []" "join [dot] b = []"
    then have "b = [[]]" by (simp add: join_Nil_iff)
    with s assms(2) show False by simp
  qed
  have "name_to_labels s = (if b = [] then [] else [join [dot] b]) @ l # n # rest @ [[]]"
    unfolding name_to_labels_def Let_def Inr using b last inst by (simp add: t)
  moreover have "join [dot] ((if b = [] then [] else [join [dot] b]) @ l # n # rest) = s"
    using s join_append [of b "l # n # rest" "[dot]"] by (simp add: join_Cons)
  ultimately show ?thesis by (metis append_Cons append_assoc)
qed

text \<open>
  The names that are written and read back unchanged. The last two conditions matter to the
  compressor alone: no NUL, and at most as many labels as the parser follows pointers.
\<close>

definition name_ok :: "(bytes \<Rightarrow> bytes) \<Rightarrow> bytes \<Rightarrow> bool" where
  "name_ok nfc s \<longleftrightarrow>
     (s \<noteq> [] \<longrightarrow> hd s \<noteq> dot \<and> last s \<noteq> dot)
     \<and> (\<forall>l \<in> set (butlast (name_to_labels s)). l \<noteq> [] \<and> utf8_valid l \<and> take 4 l \<noteq> ACE_PREFIX)
     \<and> (\<forall>l \<in> set (name_to_labels s). nfc l = l \<and> length l \<le> MAX_LABEL_LENGTH \<and> 0 \<notin> set l)
     \<and> length (name_to_labels s) \<le> MAX_POINTER_JUMPS + 1"

lemma visible_all: "\<forall>l \<in> set ls. l \<noteq> [] \<Longrightarrow> visible (ls @ [[]]) = ls"
  by (induction ls) (auto simp: visible_def)

lemma decode_label_plain: "utf8_valid l \<Longrightarrow> take 4 l \<noteq> ACE_PREFIX \<Longrightarrow> decode_label l = Ok l"
proof -
  have "length ACE_PREFIX = 4" by (simp add: ACE_PREFIX_def)
  then show "utf8_valid l \<Longrightarrow> take 4 l \<noteq> ACE_PREFIX \<Longrightarrow> decode_label l = Ok l" by (simp add: decode_label_def)
qed

lemma name_ok_labels:
  assumes "name_ok nfc s"
  shows "plain_labels nfc (name_to_labels s) \<and> length (visible (name_to_labels s)) \<le> MAX_POINTER_JUMPS
    \<and> collect_results (map decode_label (visible (name_to_labels s))) = Ok (visible (name_to_labels s))
    \<and> join [dot] (visible (name_to_labels s)) = s"
proof -
  obtain ls where ls: "name_to_labels s = ls @ [[]]" "join [dot] ls = s"
  proof (cases "s = []")
    case True
    with that [of "[]"] show thesis by (simp add: name_to_labels_def split_name_def)
  next
    case False
    with assms name_labels_join [of s] that show thesis by (auto simp: name_ok_def)
  qed
  with assms have v: "visible (name_to_labels s) = ls" by (simp add: name_ok_def visible_all)
  have "map decode_label ls = map Ok ls" using assms ls by (auto simp: name_ok_def decode_label_plain)
  then have "collect_results (map decode_label ls) = Ok ls" by (simp only: collect_results_Ok)
  with assms ls v show ?thesis by (simp add: name_ok_def plain_labels_def label_ok_def)
qed

section \<open>Writers of names\<close>

text \<open>
  The \<open>match compressor\<close> of \<open>DnsQuestion::write\<close> and \<open>DnsResource::write\<close>: with a
  compressor when there is one, in full otherwise.
\<close>

definition write_name :: "(bytes \<Rightarrow> bytes) \<Rightarrow> compressor option \<Rightarrow> nat \<Rightarrow> bytes \<Rightarrow> compressor option \<times> bytes" where
  "write_name nfc c out_len name =
     (case c of
        Some offsets \<Rightarrow> (case compress_name nfc offsets out_len name of (offsets', bs) \<Rightarrow> (Some offsets', bs))
      | None \<Rightarrow> (None, encode_name nfc name))"

text \<open>
  The loops of \<open>pack_inner\<close> and \<open>DnsMessage::unpack\<close>: items written one after the other, and
  as many read as the header announces.
\<close>

fun write_all :: "('t \<Rightarrow> nat \<Rightarrow> 'a \<Rightarrow> 't \<times> bytes) \<Rightarrow> 't \<Rightarrow> nat \<Rightarrow> 'a list \<Rightarrow> 't \<times> bytes" where
  "write_all put t out_len [] = (t, [])"
| "write_all put t out_len (a # as) =
     (case put t out_len a of (t', w) \<Rightarrow>
        case write_all put t' (out_len + length w) as of (t'', v) \<Rightarrow> (t'', w @ v))"

fun read_many :: "(reader \<Rightarrow> dns_error + 'a \<times> reader) \<Rightarrow> nat \<Rightarrow> reader \<Rightarrow> dns_error + 'a list \<times> reader" where
  "read_many get 0 r = Ok ([], r)"
| "read_many get (Suc n) r =
     rbind (get r) (\<lambda>(a, r'). rbind (read_many get n r') (\<lambda>(as, r''). Ok (a # as, r'')))"

text \<open>
  The contract of a writer and its reader, which names, questions and records share: an item written
  at the end of a buffer reads back there as \<open>seen\<close> tells, whatever follows it, and the writer's state
  stays in step with the buffer, whatever else is appended.
\<close>

locale wire_codec =
  fixes put :: "'t \<Rightarrow> nat \<Rightarrow> 'a \<Rightarrow> 't \<times> bytes" and get :: "reader \<Rightarrow> dns_error + 'b \<times> reader"
    and inv :: "'t \<Rightarrow> bytes \<Rightarrow> bool" and ok :: "'a \<Rightarrow> bool" and seen :: "'a \<Rightarrow> 'b"
  assumes put_get: "inv t out \<Longrightarrow> ok a \<Longrightarrow> put t (length out) a = (t', w) \<Longrightarrow> reader_ok r
      \<Longrightarrow> rd_data r = out @ w @ x \<Longrightarrow> rd_pos r = length out
      \<Longrightarrow> get r = Ok (seen a, r\<lparr>rd_pos := length (out @ w)\<rparr>)"
    and put_inv: "inv t out \<Longrightarrow> ok a \<Longrightarrow> put t (length out) a = (t', w) \<Longrightarrow> inv t' (out @ w)"
    and inv_append: "inv t out \<Longrightarrow> inv t (out @ x)"
begin

lemma all_inv:
  "inv t out \<Longrightarrow> \<forall>a \<in> set as. ok a \<Longrightarrow> write_all put t (length out) as = (t', w) \<Longrightarrow> inv t' (out @ w)"
proof (induction as arbitrary: t out t' w)
  case (Cons a as)
  obtain t1 w1 where w1: "put t (length out) a = (t1, w1)" by fastforce
  with Cons.prems(3) obtain w2 where w2: "write_all put t1 (length (out @ w1)) as = (t', w2)" "w = w1 @ w2"
    by (auto split: prod.splits)
  from Cons.IH [OF put_inv [OF Cons.prems(1) _ w1] _ w2(1)] Cons.prems(2) w2(2) show ?case by simp
qed simp

lemma all_read:
  "inv t out \<Longrightarrow> \<forall>a \<in> set as. ok a \<Longrightarrow> write_all put t (length out) as = (t', w) \<Longrightarrow> reader_ok r
    \<Longrightarrow> rd_data r = out @ w @ x \<Longrightarrow> rd_pos r = length out
    \<Longrightarrow> read_many get (length as) r = Ok (map seen as, r\<lparr>rd_pos := length (out @ w)\<rparr>)"
proof (induction as arbitrary: t out t' w r)
  case (Cons a as)
  obtain t1 w1 where w1: "put t (length out) a = (t1, w1)" by fastforce
  with Cons.prems(3) obtain w2 where w2: "write_all put t1 (length (out @ w1)) as = (t', w2)" "w = w1 @ w2"
    by (auto split: prod.splits)
  have ok: "ok a" "\<forall>a \<in> set as. ok a" using Cons.prems(2) by auto
  let ?r = "r\<lparr>rd_pos := length (out @ w1)\<rparr>"
  have g: "get r = Ok (seen a, ?r)"
    using put_get [OF Cons.prems(1) ok(1) w1 Cons.prems(4)] Cons.prems(5,6) w2(2) by simp
  have "read_many get (length as) ?r = Ok (map seen as, ?r\<lparr>rd_pos := length ((out @ w1) @ w2)\<rparr>)"
    using Cons.IH [OF put_inv [OF Cons.prems(1) ok(1) w1] ok(2) w2(1)] Cons.prems(4,5) w2(2)
    by (simp add: reader_ok_def)
  with g w2(2) show ?case by simp
qed simp

text \<open>Any one item, at the place where it was written.\<close>

lemma one_read:
  assumes "inv t out" and "\<forall>a \<in> set as. ok a" and "write_all put t (length out) as = (t', w)"
    and "length (out @ w @ x) \<le> usize_max" and "a \<in> set as"
  shows "\<exists>pos e. length out \<le> pos \<and> e \<le> length (out @ w)
    \<and> get \<lparr>rd_data = out @ w @ x, rd_pos = pos\<rparr> = Ok (seen a, \<lparr>rd_data = out @ w @ x, rd_pos = e\<rparr>)"
  using assms
proof (induction as arbitrary: t out t' w)
  case (Cons b as)
  obtain t1 w1 where w1: "put t (length out) b = (t1, w1)" by fastforce
  with Cons.prems(3) obtain w2 where w2: "write_all put t1 (length (out @ w1)) as = (t', w2)" "w = w1 @ w2"
    by (auto split: prod.splits)
  have ok: "ok b" "\<forall>a \<in> set as. ok a" using Cons.prems(2) by auto
  show ?case
  proof (cases "a = b")
    case True
    let ?r = "\<lparr>rd_data = out @ w @ x, rd_pos = length out\<rparr>"
    have "reader_ok ?r" using Cons.prems(4) by (simp add: reader_ok_def)
    from put_get [OF Cons.prems(1) ok(1) w1 this, of "w2 @ x"] w2(2) True
    have "get ?r = Ok (seen a, ?r\<lparr>rd_pos := length (out @ w1)\<rparr>)" by simp
    with w2(2) show ?thesis by (intro exI [of _ "length out"] exI [of _ "length (out @ w1)"]) simp
  next
    case False
    with Cons.prems(5) have "a \<in> set as" by simp
    from Cons.IH [OF put_inv [OF Cons.prems(1) ok(1) w1] ok(2) w2(1) _ this] Cons.prems(4) w2(2) obtain pos e where
      q: "length (out @ w1) \<le> pos" and e: "e \<le> length (out @ w)"
      "get \<lparr>rd_data = out @ w @ x, rd_pos = pos\<rparr> = Ok (seen a, \<lparr>rd_data = out @ w @ x, rd_pos = e\<rparr>)" by auto
    from q have "length out \<le> pos" by simp
    with e show ?thesis by blast
  qed
qed simp

end

definition writer_ok :: "(bytes \<Rightarrow> bytes) \<Rightarrow> compressor option \<Rightarrow> bytes \<Rightarrow> bool" where
  "writer_ok nfc c out \<longleftrightarrow> (case c of None \<Rightarrow> True | Some offsets \<Rightarrow> table_ok nfc {} offsets out)"

lemma spells_name:
  assumes "name_ok nfc s" and "reader_ok r" and "rd_data r = d" and "rd_pos r = pos"
    and "spells d pos (visible (name_to_labels s)) j e" and "j \<le> MAX_POINTER_JUMPS"
  shows "parse_name r = Ok (s, r\<lparr>rd_pos := e\<rparr>)"
  using name_ok_labels [OF assms(1)] assms(3-6) by (subst parse_name_iff [OF assms(2)]) metis

interpretation names: wire_codec "write_name nfc" parse_name "writer_ok nfc" "name_ok nfc" "\<lambda>s. s" for nfc
proof
  fix t out s t' w r x
  assume a: "writer_ok nfc t out" "name_ok nfc s" "write_name nfc t (length out) s = (t', w)" "reader_ok r"
    "rd_data r = out @ w @ x" "rd_pos r = length out"
  note l = name_ok_labels [OF a(2)]
  show "parse_name r = Ok (s, r\<lparr>rd_pos := length (out @ w)\<rparr>)"
  proof (cases t)
    case None
    with a(3) have "w = encode_name_labels nfc (name_to_labels s)" by (simp add: write_name_def encode_name_def)
    moreover have "\<forall>l \<in> set (name_to_labels s). label_ok nfc l" using l by (simp add: plain_labels_def)
    from encode_labels_spell [OF this, of out x] show ?thesis
      using calculation a by (intro spells_name [OF a(2,4,5,6), where j = 0]) simp_all
  next
    case (Some offsets)
    with a(3) obtain o' where "compress_labels nfc offsets (length out) (name_to_labels s) = (o', w)"
      by (auto simp: write_name_def compress_name_def split: prod.splits)
    from compress_labels_spell [OF _ _ _ this, of "{}"] l a(1) Some obtain j where
      "spells (out @ w) (length out) (visible (name_to_labels s)) j (length (out @ w))" "j \<le> MAX_POINTER_JUMPS"
      by (auto simp: writer_ok_def)
    with spells_append [of "out @ w" _ _ _ _ x] show ?thesis by (intro spells_name [OF a(2,4,5,6)]) auto
  qed
next
  fix t out s t' w
  assume a: "writer_ok nfc t out" "name_ok nfc s" "write_name nfc t (length out) s = (t', w)"
  note l = name_ok_labels [OF a(2)]
  show "writer_ok nfc t' (out @ w)"
  proof (cases t)
    case (Some offsets)
    with a(3) obtain o' where c: "compress_labels nfc offsets (length out) (name_to_labels s) = (o', w)" and "t' = Some o'"
      by (auto simp: write_name_def compress_name_def split: prod.splits)
    with compress_labels_spell [OF _ _ _ c, of "{}"] l a(1) Some show ?thesis by (simp add: writer_ok_def)
  qed (use a in \<open>simp add: write_name_def writer_ok_def\<close>)
next
  fix t out x
  assume "writer_ok nfc t out"
  then show "writer_ok nfc t (out @ x)" by (auto simp: writer_ok_def table_ok_append split: option.splits)
qed

section \<open>Properties\<close>

text \<open>
  Compression loses nothing. Write any sequence of names with one compressor, or without one, at
  the end of any buffer; whatever is appended later, every one of them reads back from where it was
  written, although all but the first may be pointers into the names before.
\<close>

theorem names_read_back:
  assumes "write_all (write_name nfc) c (length out) ss = (c', w)" and "writer_ok nfc c out"
    and "\<forall>s \<in> set ss. name_ok nfc s" and "length (out @ w @ x) \<le> usize_max" and "s \<in> set ss"
  shows "\<exists>pos e. length out \<le> pos \<and> e \<le> length (out @ w)
    \<and> parse_name \<lparr>rd_data = out @ w @ x, rd_pos = pos\<rparr> = Ok (s, \<lparr>rd_data = out @ w @ x, rd_pos = e\<rparr>)"
  using assms by (intro names.one_read)

text \<open>
  Two names of which the second is a suffix of the first: \<open>"b.a"\<close> and \<open>"a"\<close>.
\<close>

lemma toy_labels: "name_to_labels [97] = [[97], []]" "name_to_labels [98, 46, 97] = [[98], [97], []]"
  by (simp_all add: name_to_labels_def split_name_def Let_def)

lemma toy_names_ok: "name_ok (\<lambda>l. l) [97]" "name_ok (\<lambda>l. l) [98, 46, 97]"
  by (simp_all add: name_ok_def toy_labels MAX_LABEL_LENGTH_def MAX_POINTER_JUMPS_def ACE_PREFIX_def)

lemma toy_compressed:
  "write_all (write_name (\<lambda>l. l)) (Some compressor_new) 0 [[98, 46, 97], [97]]
   = (Some (compressor_new([98, 0, 97, 0] \<mapsto> 0, [97, 0] \<mapsto> 2)), [1, 98, 1, 97, 0, 192, 2])"
  by (simp add: write_name_def compress_name_def toy_labels compressor_new_def encode_label_def MAX_LABEL_LENGTH_def
      MAX_POINTER_OFFSET_def Let_def LABEL_FLAG_POINTER_def be_bytes_def le_bytes_numeral)

theorem names_read_back_witness:
  "\<exists>pos e. parse_name \<lparr>rd_data = [1, 98, 1, 97, 0, 192, 2], rd_pos = pos\<rparr>
     = Ok ([97], \<lparr>rd_data = [1, 98, 1, 97, 0, 192, 2], rd_pos = e\<rparr>)"
  using names_read_back [of "\<lambda>l. l" "Some compressor_new" "[]" "[[98, 46, 97], [97]]" _ _ "[]" "[97]"] toy_compressed toy_names_ok
  by (auto simp: writer_ok_def comp_table_new usize_max_def)

text \<open>
  The table's key joins labels with NUL, and a label may hold a NUL. After the one label
  \<open>"a\0b"\<close> has been written, the two labels \<open>"a"\<close>, \<open>"b"\<close> share its key, so the compressor
  points at the wrong name, which no other condition of \<open>name_ok\<close> excludes.
\<close>

theorem nul_label_confuses_compressor:
  "write_all (write_name (\<lambda>l. l)) (Some compressor_new) 0 [[97, 0, 98], [97, 46, 98]]
     = (Some (compressor_new([97, 0, 98, 0] \<mapsto> 0)), [3, 97, 0, 98, 0, 192, 0])
   \<and> parse_name \<lparr>rd_data = [3, 97, 0, 98, 0, 192, 0], rd_pos = 5\<rparr>
     = Ok ([97, 0, 98], \<lparr>rd_data = [3, 97, 0, 98, 0, 192, 0], rd_pos = 7\<rparr>)"
proof
  have l: "name_to_labels [97, 0, 98] = [[97, 0, 98], []]" "name_to_labels [97, 46, 98] = [[97], [98], []]"
    by (simp_all add: name_to_labels_def split_name_def Let_def)
  show "write_all (write_name (\<lambda>l. l)) (Some compressor_new) 0 [[97, 0, 98], [97, 46, 98]]
     = (Some (compressor_new([97, 0, 98, 0] \<mapsto> 0)), [3, 97, 0, 98, 0, 192, 0])"
    by (simp add: write_name_def compress_name_def l compressor_new_def encode_label_def MAX_LABEL_LENGTH_def
      MAX_POINTER_OFFSET_def Let_def LABEL_FLAG_POINTER_def be_bytes_def le_bytes_numeral)
  let ?d = "[3, 97, 0, 98, 0, 192, 0] :: bytes"
  have "spells ?d 0 [[97, 0, 98]] 0 5"
    using spells.Label [of 0 ?d "[97, 0, 98]" "[]" 0 5] spells.Root [of 4 ?d] by (simp add: get_range_def eval_nat_numeral)
  from spells.Pointer [of 5 ?d 0, OF _ _ _ _ _ this] have "spells ?d 5 [[97, 0, 98]] 1 7" by simp
  moreover have "collect_results (map decode_label [[97, 0, 98]]) = Ok [[97, 0, 98]]"
    by (simp add: decode_label_def ACE_PREFIX_def)
  ultimately have "\<exists>ls j e ds. spells ?d 5 ls j e \<and> j \<le> MAX_POINTER_JUMPS \<and> collect_results (map decode_label ls) = Ok ds
      \<and> [97, 0, 98] = join [dot] ds \<and> \<lparr>rd_data = ?d, rd_pos = 7\<rparr> = \<lparr>rd_data = ?d, rd_pos = 5\<rparr>\<lparr>rd_pos := e\<rparr>"
    by (intro exI [of _ "[[97, 0, 98]]"] exI [of _ "1 :: nat"] exI [of _ "7 :: nat"] conjI; simp add: MAX_POINTER_JUMPS_def)
  then show "parse_name \<lparr>rd_data = ?d, rd_pos = 5\<rparr> = Ok ([97, 0, 98], \<lparr>rd_data = ?d, rd_pos = 7\<rparr>)"
    by (subst parse_name_iff) (simp_all add: reader_ok_def usize_max_def)
qed

end
