(* ===== verification/Dns_Txt.thy ===== *)
theory Dns_Txt
  imports Dns_Reader Ordered_Store
begin

unbundle bit_operations_syntax

text \<open>
  DNS-SD TXT records (\<open>crates/pyatv-mdns/src/dns/txt.rs\<close>): the ordered map with
  case-insensitive keys, the parser and the encoder of the RDATA, and the decoding of values to text.
  A map is the list of its entries; \<open>ci_insert\<close> returns the replaced value and the map.
\<close>

type_synonym 'v ci_map = "(bytes \<times> 'v) list"

fun ci_slot :: "'v ci_map \<Rightarrow> bytes \<Rightarrow> 'v \<Rightarrow> 'v option \<times> 'v ci_map" where
  "ci_slot [] key v = (None, [(key, v)])"
| "ci_slot ((k, w) # es) key v =
     (if k = key then (Some w, (k, v) # es)
      else case ci_slot es key v of (old, es') \<Rightarrow> (old, (k, w) # es'))"

definition ci_insert :: "'v ci_map \<Rightarrow> bytes \<Rightarrow> 'v \<Rightarrow> 'v option \<times> 'v ci_map" where
  "ci_insert m key v = ci_slot m (ascii_lowercase key) v"

fun ci_find :: "'v ci_map \<Rightarrow> bytes \<Rightarrow> 'v option" where
  "ci_find [] key = None"
| "ci_find ((k, v) # es) key = (if k = key then Some v else ci_find es key)"

definition ci_get :: "'v ci_map \<Rightarrow> bytes \<Rightarrow> 'v option" where
  "ci_get m key = ci_find m (ascii_lowercase key)"

definition ci_contains_key :: "'v ci_map \<Rightarrow> bytes \<Rightarrow> bool" where
  "ci_contains_key m key \<longleftrightarrow> ci_get m key \<noteq> None"

definition ci_from_iter :: "(bytes \<times> 'v) list \<Rightarrow> 'v ci_map" where
  "ci_from_iter kvs = foldl (\<lambda>m (k, v). snd (ci_insert m k v)) [] kvs"

section \<open>Parsing\<close>

text \<open>One chunk of the record; 61 is \<open>'='\<close>.\<close>

definition txt_chunk :: "bytes ci_map \<Rightarrow> bytes \<Rightarrow> dns_error + bytes ci_map" where
  "txt_chunk out chunk =
     (if 61 \<notin> set chunk then
        if utf8_valid chunk \<and> ascii chunk then Ok (snd (ci_insert out chunk [])) else Err (NonAsciiTxtKey chunk)
      else
        let key = takeWhile (\<lambda>b. b \<noteq> 61) chunk; v = drop (length key + 1) chunk in
        if key = [] then Ok out
        else if utf8_valid key \<and> ascii key then Ok (snd (ci_insert out key v))
        else Ok out)"

function txt_loop :: "nat \<Rightarrow> bytes ci_map \<Rightarrow> reader \<Rightarrow> dns_error + bytes ci_map \<times> reader" where
  "txt_loop stop out r =
     (if rd_pos r < stop then
        rbind (read_u8 r) (\<lambda>(len, r1).
        if stop < rd_pos r1 + unat len then Err (TxtChunkOverrunsRecord (unat len) (stop - rd_pos r1))
        else
          rbind (read_slice (unat len) r1) (\<lambda>(chunk, r2).
          rbind (txt_chunk out chunk) (\<lambda>out'. txt_loop stop out' r2)))
      else Ok (out, r))"
  by pat_completeness auto
termination
  by (relation "measure (\<lambda>(_, _, r). remaining r)") (auto dest: length_prefix_remaining)

declare txt_loop.simps [simp del]

definition parse_txt :: "reader \<Rightarrow> nat \<Rightarrow> dns_error + bytes ci_map \<times> reader" where
  "parse_txt r len =
     (case checked_add (rd_pos r) len of
        None \<Rightarrow> Err (DnsUnexpectedEof len (remaining r))
      | Some stop \<Rightarrow>
          if stop \<le> length (rd_data r) then txt_loop stop [] r
          else Err (DnsUnexpectedEof len (remaining r)))"

section \<open>Encoding\<close>

text \<open>\<open>encode\<close> skips an entry whose chunk would pass 255 bytes.\<close>

definition txt_entry :: "bytes \<times> bytes \<Rightarrow> bytes" where
  "txt_entry e =
     (case e of (key, v) \<Rightarrow>
        let len = length key + 1 + length v in
        if 255 < len then [] else word_of_nat len # key @ [61] @ v)"

definition txt_encode :: "bytes ci_map \<Rightarrow> bytes" where
  "txt_encode m = concat (map txt_entry m)"

section \<open>Values as text\<close>

definition hex_digit :: "u8 \<Rightarrow> u8" where
  "hex_digit n = lit ''0123456789abcdef'' ! unat n"

definition repr_byte :: "u8 \<Rightarrow> u8 \<Rightarrow> bytes" where
  "repr_byte quote b =
     (if b = 92 then [92, 92]
      else if b = 9 then [92, 116]
      else if b = 10 then [92, 110]
      else if b = 13 then [92, 114]
      else if b = quote then [92, b]
      else if 0x20 \<le> b \<and> b \<le> 0x7E then [b]
      else [92, 120, hex_digit (drop_bit 4 b), hex_digit (b AND 0x0F)])"

definition python_bytes_repr :: "bytes \<Rightarrow> bytes" where
  "python_bytes_repr v =
     (let quote = (if 39 \<in> set v \<and> 34 \<notin> set v then 34 else 39) in
      [98, quote] @ concat (map (repr_byte quote) v) @ [quote])"

fun replace_nbsp :: "bytes \<Rightarrow> bytes" where
  "replace_nbsp (a # b # rest) =
     (if (a = 0xC2 \<or> a = 0) \<and> b = 0xA0 then 32 # replace_nbsp rest else a # replace_nbsp (b # rest))"
| "replace_nbsp bs = bs"

definition decode_txt_value :: "bytes \<Rightarrow> bytes" where
  "decode_txt_value v = (let replaced = replace_nbsp v in if utf8_valid replaced then replaced else python_bytes_repr v)"

definition decode_properties :: "bytes ci_map \<Rightarrow> bytes ci_map" where
  "decode_properties m = ci_from_iter (map (\<lambda>(k, v). (k, decode_txt_value v)) m)"

section \<open>The map\<close>

lemma ci_find_slot: "ci_find (snd (ci_slot m k v)) l = (if l = k then Some v else ci_find m l)"
  by (induction m k v rule: ci_slot.induct) (auto split: prod.splits)

lemma ci_slot_old: "fst (ci_slot m k v) = ci_find m k"
  by (induction m k v rule: ci_slot.induct) (auto split: prod.splits)

lemma ci_slot_keys: "map fst (snd (ci_slot m k v)) = (if k \<in> fst ` set m then map fst m else map fst m @ [k])"
  by (induction m k v rule: ci_slot.induct) (auto split: prod.splits, (metis fst_conv image_eqI)+)

lemma ci_slot_set: "e \<in> set (snd (ci_slot m k v)) \<Longrightarrow> e \<in> set m \<or> e = (k, v)"
  by (induction m k v rule: ci_slot.induct) (auto split: prod.splits if_splits)

lemma ci_slot_new: "k \<notin> fst ` set m \<Longrightarrow> ci_slot m k v = (None, m @ [(k, v)])"
  by (induction m k v rule: ci_slot.induct) auto

interpretation ci: ordered_store ascii_lowercase "\<lambda>m k v. snd (ci_insert m k v)" ci_get "map fst"
  by unfold_locales (simp_all add: ci_insert_def ci_get_def ci_find_slot ci_slot_keys)

section \<open>What the parser returns\<close>

definition txt_ok :: "bytes ci_map \<Rightarrow> bool" where
  "txt_ok m \<longleftrightarrow> distinct (map fst m) \<and> (\<forall>(k, v) \<in> set m. ascii k \<and> ascii_lowercase k = k \<and> 61 \<notin> set k)"

text \<open>The entries that survive a trip through \<open>encode\<close>.\<close>

definition survives :: "bytes \<times> bytes \<Rightarrow> bool" where
  "survives e \<longleftrightarrow> fst e \<noteq> [] \<and> length (fst e) + 1 + length (snd e) \<le> 255"

lemma lower_eqs: "lower b = 61 \<longleftrightarrow> b = 61"
proof (cases "65 \<le> b \<and> b \<le> 90")
  case True
  then have "unat (b + 32) = unat b + 32" by (subst unat_word_ariths) (simp add: word_le_nat_alt)
  with True show ?thesis by (auto simp: lower_def word_le_nat_alt word_unat_eq_iff)
qed (auto simp: lower_def)

lemma txt_ok_insert:
  assumes "txt_ok m" and "ascii k" and "61 \<notin> set k"
  shows "txt_ok (snd (ci_insert m k v))"
proof -
  have "61 \<notin> set (ascii_lowercase k)" using assms(3) lower_eqs by (fastforce simp: ascii_lowercase_def)
  moreover have "distinct (map fst (snd (ci_insert m k v)))"
    using assms(1) ci.distinct_put [of m k v] by (simp add: txt_ok_def)
  ultimately show ?thesis using assms ascii_lowercase_ascii [OF assms(2)]
    unfolding txt_ok_def ci_insert_def by (auto dest!: ci_slot_set)
qed

lemma takeWhile_no_eq: "61 \<notin> set (takeWhile (\<lambda>b. b \<noteq> 61) (c :: bytes))"
  by (auto dest: set_takeWhileD)

lemma txt_chunk_ok: "txt_chunk out c = Ok out' \<Longrightarrow> txt_ok out \<Longrightarrow> txt_ok out'"
  using takeWhile_no_eq [of c] by (auto simp: txt_chunk_def Let_def txt_ok_insert split: if_splits)

lemma txt_loop_ok:
  "txt_loop stop out r = Ok (m, r') \<Longrightarrow> txt_ok out \<Longrightarrow> rd_pos r \<le> stop \<Longrightarrow>
     txt_ok m \<and> r' = r\<lparr>rd_pos := stop\<rparr>"
proof (induction stop out r arbitrary: m r' rule: txt_loop.induct)
  case (1 stop out r)
  show ?case
  proof (cases "rd_pos r < stop")
    case True
    with "1.prems"(1) obtain len r1 chunk r2 out' where u: "read_u8 r = Ok (len, r1)" and k: "\<not> stop < rd_pos r1 + unat len"
      and sl: "read_slice (unat len) r1 = Ok (chunk, r2)" and c: "txt_chunk out chunk = Ok out'"
      and l: "txt_loop stop out' r2 = Ok (m, r')"
      by (subst (asm) txt_loop.simps) (auto simp: rbind_Ok_iff split: if_splits)
    have r2: "rd_pos r2 \<le> stop" "r2\<lparr>rd_pos := stop\<rparr> = r\<lparr>rd_pos := stop\<rparr>"
      using k read_slice_Ok [OF sl] read_moves(1) [OF u] by auto
    from "1.IH" [OF True u refl k sl refl c l txt_chunk_ok [OF c "1.prems"(2)] r2(1)] r2(2) show ?thesis by simp
  next
    case False
    with "1.prems" show ?thesis by (subst (asm) txt_loop.simps) simp
  qed
qed

lemma parse_txt_ok:
  assumes "parse_txt r n = Ok (m, r')"
  shows "txt_ok m \<and> r' = r\<lparr>rd_pos := rd_pos r + n\<rparr> \<and> rd_pos r + n \<le> length (rd_data r)"
proof -
  from assms have "txt_loop (rd_pos r + n) [] r = Ok (m, r')" "rd_pos r + n \<le> length (rd_data r)"
    by (auto simp: parse_txt_def checked_add_def split: if_splits)
  with txt_loop_ok [OF this(1)] show ?thesis by (simp add: txt_ok_def)
qed

section \<open>Reading an encoded map\<close>

lemma txt_chunk_entry:
  assumes "ascii k" and "61 \<notin> set k"
  shows "txt_chunk out (k @ 61 # v) = Ok (if k = [] then out else snd (ci_insert out k v))"
proof -
  have "takeWhile (\<lambda>b. b \<noteq> 61) (k @ 61 # v) = k"
    using assms(2) by (subst takeWhile_append2) auto
  with assms utf8_valid_ascii show ?thesis by (simp add: txt_chunk_def)
qed

lemma txt_loop_entries:
  "\<forall>e \<in> set m. ascii (fst e) \<and> 61 \<notin> set (fst e) \<Longrightarrow> reader_ok r \<Longrightarrow> rd_data r = pre @ txt_encode m @ x \<Longrightarrow> rd_pos r = length pre
    \<Longrightarrow> txt_loop (length pre + length (txt_encode m)) out r
        = Ok (ci.build out (filter survives m), r\<lparr>rd_pos := length pre + length (txt_encode m)\<rparr>)"
proof (induction m arbitrary: out r pre)
  case Nil
  then show ?case by (subst txt_loop.simps) (simp add: txt_encode_def)
next
  case (Cons e m)
  obtain k v where e: "e = (k, v)" by fastforce
  let ?n = "length k + 1 + length v"
  have k: "ascii k" "61 \<notin> set k" and ok: "\<forall>e \<in> set m. ascii (fst e) \<and> 61 \<notin> set (fst e)"
    using Cons.prems(1) by (auto simp: e)
  show ?case
  proof (cases "255 < ?n")
    case True
    then have "txt_encode (e # m) = txt_encode m" "\<not> survives e" by (simp_all add: txt_encode_def txt_entry_def e survives_def)
    with Cons.IH [OF ok Cons.prems(2)] Cons.prems(3,4) show ?thesis by simp
  next
    case False
    let ?c = "k @ 61 # v"
    have enc: "txt_encode (e # m) = word_of_nat (length ?c) # ?c @ txt_encode m"
      using False by (simp add: txt_encode_def txt_entry_def e)
    have n: "unat (word_of_nat (length ?c) :: u8) = length ?c" using False by (subst unat_of_nat_u8) simp
    let ?r1 = "r\<lparr>rd_pos := Suc (length pre)\<rparr>" and ?r2 = "r\<lparr>rd_pos := length pre + 1 + length ?c\<rparr>"
    let ?out = "if k = [] then out else snd (ci_insert out k v)" and ?stop = "length pre + length (txt_encode (e # m))"
    have u: "read_u8 r = Ok (word_of_nat (length ?c), ?r1)"
      using read_u8_mid [OF Cons.prems(2), of pre _ "?c @ txt_encode m @ x"] Cons.prems(3,4) enc by simp
    have sl: "read_slice (length ?c) ?r1 = Ok (?c, ?r2)"
      using read_slice_mid [of ?r1 "pre @ [word_of_nat (length ?c)]" ?c "txt_encode m @ x"] Cons.prems(2-4) enc
      by (simp add: reader_ok_def)
    note c = txt_chunk_entry [OF k, of out v]
    have step: "txt_loop ?stop out r = txt_loop ?stop ?out ?r2"
      using Cons.prems(4) enc by (subst txt_loop.simps) (simp add: u n [simplified] sl [simplified] c [simplified])
    have "filter survives (e # m) = (if k = [] then [] else [(k, v)]) @ filter survives m"
      using False by (simp add: survives_def e)
    with Cons.IH [OF ok, of ?r2 "pre @ word_of_nat (length ?c) # ?c" ?out] Cons.prems(2-4) enc step show ?thesis
      by (cases "k = []") (simp_all add: reader_ok_def add.assoc)
  qed
qed

lemma parse_txt_entries:
  assumes "\<forall>e \<in> set m. ascii (fst e) \<and> 61 \<notin> set (fst e)" and "reader_ok r" and "rd_data r = pre @ txt_encode m @ x" and "rd_pos r = length pre"
  shows "parse_txt r (length (txt_encode m)) = Ok (ci_from_iter (filter survives m), r\<lparr>rd_pos := length (pre @ txt_encode m)\<rparr>)"
  using txt_loop_entries [OF assms, of "[]"] assms by (simp add: parse_txt_def checked_add_def reader_ok_def ci_from_iter_def ci.build_def)

text \<open>A map with keys as the parser leaves them is read back entry for entry.\<close>

lemma ci_build_new:
  "txt_ok (out @ m) \<Longrightarrow> ci.build out m = out @ m"
proof (induction m arbitrary: out)
  case (Cons e m)
  obtain k v where e: "e = (k, v)" by fastforce
  with Cons.prems have "snd (ci_insert out k v) = out @ [e]" by (auto simp: txt_ok_def ci_insert_def ci_slot_new)
  with Cons.IH [of "out @ [e]"] Cons.prems e show ?case by simp
qed simp

lemma parse_txt_encode:
  assumes "txt_ok m" and "reader_ok r" and "rd_data r = pre @ txt_encode m @ x" and "rd_pos r = length pre"
  shows "parse_txt r (length (txt_encode m)) = Ok (filter survives m, r\<lparr>rd_pos := length (pre @ txt_encode m)\<rparr>)"
proof -
  have "txt_ok (filter survives m)" using assms(1) by (auto simp: txt_ok_def distinct_map_filter)
  then have "ci_from_iter (filter survives m) = filter survives m"
    using ci_build_new [of "[]"] by (simp add: ci_from_iter_def ci.build_def)
  moreover have "\<forall>e \<in> set m. ascii (fst e) \<and> 61 \<notin> set (fst e)" using assms(1) by (fastforce simp: txt_ok_def)
  ultimately show ?thesis using parse_txt_entries [OF _ assms(2-4)] by simp
qed

section \<open>Text values\<close>

lemma hex_digit_ascii: "unat n < 16 \<Longrightarrow> hex_digit n \<le> 0x7F"
proof -
  have "ascii (lit ''0123456789abcdef'')" "length (lit ''0123456789abcdef'') = 16" by simp_all
  then show "unat n < 16 \<Longrightarrow> hex_digit n \<le> 0x7F" unfolding hex_digit_def ascii_def by (metis nth_mem)
qed

lemma nibbles: "unat (drop_bit 4 b) < 16" "unat (b AND 0x0F :: u8) < 16"
proof -
  show "unat (drop_bit 4 b) < 16" using unat_u8_bound [of b]
    by (simp add: drop_bit_eq_div unat_div_distrib less_mult_imp_div_less)
  have "b AND 0x0F = take_bit 4 b" by (simp add: take_bit_eq_mask mask_eq_exp_minus_1)
  then show "unat (b AND 0x0F) < 16" by (simp add: take_bit_eq_mod unat_mod_distrib)
qed

lemma repr_byte_ascii: "quote \<le> 0x7F \<Longrightarrow> ascii (repr_byte quote b)"
  using hex_digit_ascii nibbles [of b] by (auto simp: repr_byte_def word_le_nat_alt)

lemma ascii_concat: "\<forall>x \<in> set xs. ascii (f x) \<Longrightarrow> ascii (concat (map f xs))"
  by (induction xs) auto

lemma python_bytes_repr_ascii: "ascii (python_bytes_repr v)"
  by (simp add: python_bytes_repr_def Let_def ascii_concat repr_byte_ascii)

section \<open>Properties\<close>

text \<open>
  What \<open>encode\<close> writes of a map that \<open>parse_txt\<close> returned reads back: the same entries in the
  same order, less those that have no wire form, the empty key and a chunk over 255 bytes. The parser
  consumes exactly its record.
\<close>

theorem txt_reencode:
  assumes "parse_txt r0 n = Ok (m, r1)" and "reader_ok r" and "rd_data r = pre @ txt_encode m @ x"
    and "rd_pos r = length pre"
  shows "parse_txt r (length (txt_encode m)) = Ok (filter survives m, r\<lparr>rd_pos := length (pre @ txt_encode m)\<rparr>)
    \<and> rd_pos r1 = rd_pos r0 + n"
  using parse_txt_ok [OF assms(1)] parse_txt_encode [OF _ assms(2-4)] by simp

lemma toy_txt: "parse_txt (reader_new [3, 75, 61, 49, 1, 97]) 6 = Ok ([([107], [49]), ([97], [])], \<lparr>rd_data = [3, 75, 61, 49, 1, 97], rd_pos = 6\<rparr>)"
  by (simp add: parse_txt_def reader_new_def checked_add_def usize_max_def txt_loop.simps [of 6 _ "\<lparr>rd_data = _, rd_pos = _\<rparr>"]
      read_u8_def read_slice_def txt_chunk_def ci_insert_def ascii_lowercase_def lower_def)

theorem txt_reencode_witness:
  "parse_txt (reader_new [3, 107, 61, 49, 2, 97, 61]) 7
   = Ok ([([107], [49]), ([97], [])], \<lparr>rd_data = [3, 107, 61, 49, 2, 97, 61], rd_pos = 7\<rparr>)"
proof -
  let ?m = "[([107], [49]), ([97], [])] :: bytes ci_map" and ?r = "reader_new [3, 107, 61, 49, 2, 97, 61]"
  have e: "txt_encode ?m = [3, 107, 61, 49, 2, 97, 61]" by (simp add: txt_encode_def txt_entry_def)
  then have l: "length (txt_encode ?m) = 7" by simp
  have "reader_ok ?r" "rd_data ?r = [] @ txt_encode ?m @ []" "rd_pos ?r = length []"
    using e by (simp_all add: reader_new_def reader_ok_def usize_max_def)
  from txt_reencode [OF toy_txt this] l show ?thesis by (simp add: reader_new_def survives_def)
qed

text \<open>
  The properties a scan reports. Of a map built from any entries, a key looked up in any case gives
  the last value set under it in any case, each key stands once and lowercased, and every value the
  decoding of TXT bytes gives is valid UTF-8, the Python rendering of undecodable bytes included.
\<close>

theorem txt_properties:
  "ci_get (ci_from_iter kvs) k = map_of (rev (map (\<lambda>kv. (ascii_lowercase (fst kv), snd kv)) kvs)) (ascii_lowercase k)
   \<and> distinct (map fst (ci_from_iter kvs)) \<and> utf8_valid (decode_txt_value v)"
proof -
  have b: "ci_from_iter kvs = ci.build [] kvs" by (simp add: ci_from_iter_def ci.build_def)
  have "ci_get ([] :: 'a ci_map) k = None" by (simp add: ci_get_def)
  with ci.lookup_build [of "[]" kvs k] ci.distinct_build [of "[]" kvs] utf8_valid_ascii [OF python_bytes_repr_ascii [of v]]
  show ?thesis unfolding b by (simp add: decode_txt_value_def Let_def split: option.splits)
qed

end
