(* ===== verification/Dns_Record.thy ===== *)
theory Dns_Record
  imports Dns_Written Dns_Txt
begin

unbundle bit_operations_syntax

text \<open>
  Questions, resource records and their RDATA (\<open>crates/pyatv-mdns/src/dns/record.rs\<close>). A query
  type is its 16-bit value. The writers return the bytes they append to a buffer whose length they are
  given; \<open>write_with_length\<close> writes the payload after the two length bytes and then fills them in.
\<close>

definition CLASS_IN :: u16 where "CLASS_IN = 0x0001"
definition UNICAST_RESPONSE :: u16 where "UNICAST_RESPONSE = 0x8000"
definition QCLASS_IN_UNICAST :: u16 where "QCLASS_IN_UNICAST = CLASS_IN OR UNICAST_RESPONSE"

definition QT_A :: u16 where "QT_A = 0x0001"
definition QT_PTR :: u16 where "QT_PTR = 0x000C"
definition QT_TXT :: u16 where "QT_TXT = 0x0010"
definition QT_AAAA :: u16 where "QT_AAAA = 0x001C"
definition QT_SRV :: u16 where "QT_SRV = 0x0021"
definition QT_ANY :: u16 where "QT_ANY = 0x00FF"

lemmas query_types = QT_A_def QT_PTR_def QT_TXT_def QT_AAAA_def QT_SRV_def QT_ANY_def

definition query_type_name :: "u16 \<Rightarrow> bytes option" where
  "query_type_name t =
     (if t = QT_A then Some (lit ''A'') else if t = QT_PTR then Some (lit ''PTR'')
      else if t = QT_TXT then Some (lit ''TXT'') else if t = QT_AAAA then Some (lit ''AAAA'')
      else if t = QT_SRV then Some (lit ''SRV'') else if t = QT_ANY then Some (lit ''ANY'') else None)"

record srv_data =
  srv_priority :: u16
  srv_weight :: u16
  srv_port :: u16
  srv_target :: bytes

text \<open>The addresses of \<open>A\<close> and \<open>Aaaa\<close> are their octets.\<close>

datatype record_data =
    RD_A bytes
  | RD_Aaaa bytes
  | RD_Ptr bytes
  | RD_Txt "bytes ci_map"
  | RD_Srv srv_data
  | RD_Other bytes

fun as_srv :: "record_data \<Rightarrow> srv_data option" where
  "as_srv (RD_Srv s) = Some s" | "as_srv _ = None"

fun as_txt :: "record_data \<Rightarrow> bytes ci_map option" where
  "as_txt (RD_Txt m) = Some m" | "as_txt _ = None"

fun as_ptr_name :: "record_data \<Rightarrow> bytes option" where
  "as_ptr_name (RD_Ptr n) = Some n" | "as_ptr_name _ = None"

fun as_ip_addr :: "record_data \<Rightarrow> bytes option" where
  "as_ip_addr (RD_A a) = Some a" | "as_ip_addr (RD_Aaaa a) = Some a" | "as_ip_addr _ = None"

text \<open>The payload \<open>write_with_length\<close> appends after the length field.\<close>

fun rdata_payload :: "(bytes \<Rightarrow> bytes) \<Rightarrow> compressor option \<Rightarrow> nat \<Rightarrow> record_data \<Rightarrow> compressor option \<times> bytes" where
  "rdata_payload nfc c out_len (RD_A a) = (c, a)"
| "rdata_payload nfc c out_len (RD_Aaaa a) = (c, a)"
| "rdata_payload nfc c out_len (RD_Ptr target) = write_name nfc c out_len target"
| "rdata_payload nfc c out_len (RD_Txt m) = (c, txt_encode m)"
| "rdata_payload nfc c out_len (RD_Srv s) =
     (c, be_bytes 2 (unat (srv_priority s)) @ be_bytes 2 (unat (srv_weight s)) @ be_bytes 2 (unat (srv_port s))
         @ encode_name nfc (srv_target s))"
| "rdata_payload nfc c out_len (RD_Other bs) = (c, bs)"

definition write_with_length :: "(bytes \<Rightarrow> bytes) \<Rightarrow> compressor option \<Rightarrow> nat \<Rightarrow> record_data \<Rightarrow> compressor option \<times> bytes" where
  "write_with_length nfc c out_len rd =
     (case rdata_payload nfc c (out_len + 2) rd of
        (c', payload) \<Rightarrow> (c', be_bytes 2 (if length payload \<le> 65535 then length payload else 65535) @ payload))"

section \<open>Questions\<close>

record question =
  q_name :: bytes
  q_type :: u16
  q_class :: u16

definition question_new :: "bytes \<Rightarrow> u16 \<Rightarrow> question" where
  "question_new name t = \<lparr>q_name = name, q_type = t, q_class = QCLASS_IN_UNICAST\<rparr>"

definition wants_unicast_response :: "question \<Rightarrow> bool" where
  "wants_unicast_response q \<longleftrightarrow> q_class q AND UNICAST_RESPONSE \<noteq> 0"

definition question_class :: "question \<Rightarrow> u16" where
  "question_class q = q_class q AND NOT UNICAST_RESPONSE"

definition question_unpack :: "reader \<Rightarrow> dns_error + question \<times> reader" where
  "question_unpack r =
     rbind (parse_name r) (\<lambda>(name, r1).
     rbind (read_u16 r1) (\<lambda>(t, r2).
     rbind (read_u16 r2) (\<lambda>(c, r3).
     Ok (\<lparr>q_name = name, q_type = t, q_class = c\<rparr>, r3))))"

definition write_question :: "(bytes \<Rightarrow> bytes) \<Rightarrow> compressor option \<Rightarrow> nat \<Rightarrow> question \<Rightarrow> compressor option \<times> bytes" where
  "write_question nfc c out_len q =
     (case write_name nfc c out_len (q_name q) of
        (c', w) \<Rightarrow> (c', w @ be_bytes 2 (unat (q_type q)) @ be_bytes 2 (unat (q_class q))))"

section \<open>Resource records\<close>

record resource =
  rr_name :: bytes
  rr_type :: u16
  rr_class :: u16
  rr_ttl :: u32
  rr_rd :: record_data

definition read_address :: "reader \<Rightarrow> nat \<Rightarrow> nat \<Rightarrow> dns_error + bytes \<times> reader" where
  "read_address r rd_length expected =
     (if rd_length \<noteq> expected
      then Err (InvalidAddressLength (if expected = 4 then QT_A else QT_AAAA) expected rd_length)
      else read_slice expected r)"

definition parse_rdata :: "reader \<Rightarrow> u16 \<Rightarrow> nat \<Rightarrow> dns_error + record_data \<times> reader" where
  "parse_rdata r t rd_length =
     (if t = QT_A then rbind (read_address r rd_length 4) (\<lambda>(a, r'). Ok (RD_A a, r'))
      else if t = QT_AAAA then rbind (read_address r rd_length 16) (\<lambda>(a, r'). Ok (RD_Aaaa a, r'))
      else if t = QT_PTR then rbind (parse_name r) (\<lambda>(n, r'). Ok (RD_Ptr n, r'))
      else if t = QT_TXT then rbind (parse_txt r rd_length) (\<lambda>(m, r'). Ok (RD_Txt m, r'))
      else if t = QT_SRV then
        rbind (read_u16 r) (\<lambda>(priority, r1).
        rbind (read_u16 r1) (\<lambda>(weight, r2).
        rbind (read_u16 r2) (\<lambda>(port, r3).
        rbind (parse_name r3) (\<lambda>(target, r4).
        Ok (RD_Srv \<lparr>srv_priority = priority, srv_weight = weight, srv_port = port, srv_target = target\<rparr>, r4)))))
      else rbind (read_slice rd_length r) (\<lambda>(bs, r'). Ok (RD_Other bs, r')))"

definition resource_unpack :: "reader \<Rightarrow> dns_error + resource \<times> reader" where
  "resource_unpack r =
     rbind (parse_name r) (\<lambda>(name, r1).
     rbind (read_u16 r1) (\<lambda>(t, r2).
     rbind (read_u16 r2) (\<lambda>(c, r3).
     rbind (read_u32 r3) (\<lambda>(ttl, r4).
     rbind (read_u16 r4) (\<lambda>(n, r5).
     rbind (parse_rdata r5 t (unat n)) (\<lambda>(rd, r6).
     let consumed = rd_pos r6 - rd_pos r5 in
     if consumed \<noteq> unat n then Err (RdataLengthMismatch (unat n) consumed)
     else Ok (\<lparr>rr_name = name, rr_type = t, rr_class = c, rr_ttl = ttl, rr_rd = rd\<rparr>, r6)))))))"

definition write_resource :: "(bytes \<Rightarrow> bytes) \<Rightarrow> compressor option \<Rightarrow> nat \<Rightarrow> resource \<Rightarrow> compressor option \<times> bytes" where
  "write_resource nfc c out_len a =
     (case write_name nfc c out_len (rr_name a) of
        (c1, w) \<Rightarrow>
          let fixed = w @ be_bytes 2 (unat (rr_type a)) @ be_bytes 2 (unat (rr_class a)) @ be_bytes 4 (unat (rr_ttl a)) in
          case write_with_length nfc c1 (out_len + length fixed) (rr_rd a) of
            (c2, d) \<Rightarrow> (c2, fixed @ d))"

section \<open>How long a written name can be\<close>

lemma char_floor_le: "char_floor s n \<le> n"
  by (induction s n rule: char_floor.induct) auto

lemma encode_label_length: "length (fst (encode_label nfc l)) \<le> 64"
  using char_floor_le [of "nfc l" 63] by (auto simp: encode_label_def Let_def MAX_LABEL_LENGTH_def)

lemma encode_labels_length: "length (encode_name_labels nfc ls) \<le> 64 * length ls + 1"
proof (induction ls)
  case (Cons l ls)
  then show ?case using encode_label_length [of nfc l] by (auto split: prod.splits)
qed simp

lemma compress_labels_length: "compress_labels nfc c n ls = (c', w) \<Longrightarrow> length w \<le> 64 * length ls + 2"
proof (induction nfc c n ls arbitrary: c' w rule: compress_labels.induct)
  case (2 nfc offsets n l ls)
  show ?case
  proof (cases "l = [] \<or> offsets (join [0] (l # ls)) \<noteq> None")
    case True
    with 2(2) show ?thesis by (auto simp: Let_def split: if_splits option.splits)
  next
    case False
    let ?off = "if n \<le> MAX_POINTER_OFFSET then offsets(join [0] (l # ls) \<mapsto> word_of_nat n) else offsets"
    obtain c1 w1 where r: "compress_labels nfc ?off (n + length (fst (encode_label nfc l))) ls = (c1, w1)" by fastforce
    with 2(2) False have "w = fst (encode_label nfc l) @ w1" by (auto simp: Let_def)
    with 2(1) [OF _ refl _ refl refl r] False encode_label_length [of nfc l] show ?thesis by auto
  qed
qed auto

lemma write_name_length:
  assumes "name_ok nfc s" and "write_name nfc c n s = (c', w)"
  shows "length w \<le> 65535 - 6"
proof -
  have "length (name_to_labels s) \<le> 65" using assms(1) by (simp add: name_ok_def MAX_POINTER_JUMPS_def)
  moreover have "length w \<le> 64 * length (name_to_labels s) + 2"
    using assms(2) encode_labels_length [of nfc "name_to_labels s"] compress_labels_length
    by (auto simp: write_name_def encode_name_def compress_name_def split: option.splits prod.splits)
  ultimately show ?thesis by simp
qed

section \<open>Written questions and records read back\<close>

text \<open>\<open>placed r out w x\<close>: the cursor stands before \<open>w\<close> in \<open>out @ w @ x\<close>.\<close>

definition placed :: "reader \<Rightarrow> bytes \<Rightarrow> bytes \<Rightarrow> bytes \<Rightarrow> bool" where
  "placed r out w x \<longleftrightarrow> reader_ok r \<and> rd_data r = out @ w @ x \<and> rd_pos r = length out"

lemma placed_name:
  "writer_ok nfc c out \<Longrightarrow> name_ok nfc s \<Longrightarrow> write_name nfc c (length out) s = (c', w) \<Longrightarrow> placed r out (w @ v) x
    \<Longrightarrow> parse_name r = Ok (s, r\<lparr>rd_pos := length (out @ w)\<rparr>) \<and> placed (r\<lparr>rd_pos := length (out @ w)\<rparr>) (out @ w) v x"
  using names.put_get [of nfc c out s c' w r "v @ x"] by (auto simp: placed_def reader_ok_def)

lemma placed_u16:
  "placed r out (be_bytes 2 (unat w) @ v) x \<Longrightarrow>
     read_u16 r = Ok (w, r\<lparr>rd_pos := length out + 2\<rparr>) \<and> placed (r\<lparr>rd_pos := length out + 2\<rparr>) (out @ be_bytes 2 (unat w)) v x"
  using read_u16_mid [of r out w "v @ x"] by (auto simp: placed_def reader_ok_def)

lemma placed_u32:
  "placed r out (be_bytes 4 (unat w) @ v) x \<Longrightarrow>
     read_u32 r = Ok (w, r\<lparr>rd_pos := length out + 4\<rparr>) \<and> placed (r\<lparr>rd_pos := length out + 4\<rparr>) (out @ be_bytes 4 (unat w)) v x"
  using read_u32_mid [of r out w "v @ x"] by (auto simp: placed_def reader_ok_def)

lemma placed_slice: "placed r out w x \<Longrightarrow> read_slice (length w) r = Ok (w, r\<lparr>rd_pos := length (out @ w)\<rparr>)"
  using read_slice_mid [of r out w x] by (auto simp: placed_def)

definition question_ok :: "(bytes \<Rightarrow> bytes) \<Rightarrow> question \<Rightarrow> bool" where
  "question_ok nfc q \<longleftrightarrow> name_ok nfc (q_name q)"

interpretation questions: wire_codec "write_question nfc" question_unpack "writer_ok nfc" "question_ok nfc" "\<lambda>q. q" for nfc
proof
  fix c out q c' w r x
  assume a: "writer_ok nfc c out" "question_ok nfc q" "write_question nfc c (length out) q = (c', w)" "reader_ok r"
    "rd_data r = out @ w @ x" "rd_pos r = length out"
  obtain c1 n where n: "write_name nfc c (length out) (q_name q) = (c1, n)" by fastforce
  with a(3) have w: "w = n @ be_bytes 2 (unat (q_type q)) @ be_bytes 2 (unat (q_class q)) @ []"
    by (simp add: write_question_def)
  from a(2) have ok: "name_ok nfc (q_name q)" by (simp add: question_ok_def)
  from a(4-6) w have "placed r out (n @ be_bytes 2 (unat (q_type q)) @ be_bytes 2 (unat (q_class q)) @ []) x"
    by (simp add: placed_def)
  from placed_name [OF a(1) ok n this] obtain r1 where r1: "parse_name r = Ok (q_name q, r1)" "r1 = r\<lparr>rd_pos := length (out @ n)\<rparr>"
    "placed r1 (out @ n) (be_bytes 2 (unat (q_type q)) @ be_bytes 2 (unat (q_class q)) @ []) x" by blast
  note t = placed_u16 [OF r1(3)]
  note k = placed_u16 [OF conjunct2 [OF t]]
  show "question_unpack r = Ok (q, r\<lparr>rd_pos := length (out @ w)\<rparr>)"
    using r1(1,2) t k w by (simp add: question_unpack_def)
next
  fix c out q c' w
  assume a: "writer_ok nfc c out" "question_ok nfc q" "write_question nfc c (length out) q = (c', w)"
  obtain c1 n where n: "write_name nfc c (length out) (q_name q) = (c1, n)" by fastforce
  from names.put_inv [OF a(1) _ n] a(2,3) n
  show "writer_ok nfc c' (out @ w)"
    using names.inv_append [of nfc c1 "out @ n"] by (auto simp: question_ok_def write_question_def)
qed (rule names.inv_append)

definition rdata_ok :: "(bytes \<Rightarrow> bytes) \<Rightarrow> u16 \<Rightarrow> record_data \<Rightarrow> bool" where
  "rdata_ok nfc t rd =
     (case rd of
        RD_A a \<Rightarrow> t = QT_A \<and> length a = 4
      | RD_Aaaa a \<Rightarrow> t = QT_AAAA \<and> length a = 16
      | RD_Ptr n \<Rightarrow> t = QT_PTR \<and> name_ok nfc n
      | RD_Txt m \<Rightarrow> t = QT_TXT \<and> txt_ok m \<and> (\<forall>e \<in> set m. survives e) \<and> length (txt_encode m) \<le> 65535
      | RD_Srv s \<Rightarrow> t = QT_SRV \<and> name_ok nfc (srv_target s)
      | RD_Other bs \<Rightarrow> t \<notin> {QT_A, QT_AAAA, QT_PTR, QT_TXT, QT_SRV} \<and> length bs \<le> 65535)"

lemma rdata_reads:
  assumes "rdata_ok nfc t rd" and "writer_ok nfc c out" and "rdata_payload nfc c (length out) rd = (c', p)" and "placed r out p x"
  shows "parse_rdata r t (length p) = Ok (rd, r\<lparr>rd_pos := length (out @ p)\<rparr>) \<and> length p \<le> 65535"
proof (cases rd)
  case (RD_A a)
  with assms show ?thesis using placed_slice [OF assms(4)]
    by (simp add: parse_rdata_def read_address_def rdata_ok_def)
next
  case (RD_Aaaa a)
  with assms show ?thesis using placed_slice [OF assms(4)]
    by (simp add: parse_rdata_def read_address_def rdata_ok_def query_types)
next
  case (RD_Ptr n)
  with assms(1,3) have ok: "name_ok nfc n" "t = QT_PTR" and w: "write_name nfc c (length out) n = (c', p)" by (simp_all add: rdata_ok_def)
  from placed_name [OF assms(2) ok(1) w, of r "[]" x] assms(4) write_name_length [OF ok(1) w] RD_Ptr ok(2)
  show ?thesis by (simp add: parse_rdata_def query_types)
next
  case (RD_Txt m)
  with assms(1,3) have ok: "txt_ok m" "filter survives m = m" "t = QT_TXT" "length p \<le> 65535" and p: "p = txt_encode m"
    by (simp_all add: rdata_ok_def filter_id_conv)
  from parse_txt_encode [OF ok(1), of r out x] assms(4) p ok(2-4) RD_Txt
  show ?thesis by (simp add: parse_rdata_def query_types placed_def)
next
  case (RD_Srv s)
  let ?n = "encode_name nfc (srv_target s)"
  from RD_Srv assms(1,3) have ok: "name_ok nfc (srv_target s)" "t = QT_SRV"
    and p: "p = be_bytes 2 (unat (srv_priority s)) @ be_bytes 2 (unat (srv_weight s)) @ be_bytes 2 (unat (srv_port s)) @ ?n @ []"
    by (simp_all add: rdata_ok_def)
  note a = placed_u16 [OF assms(4) [unfolded p]]
  note b = placed_u16 [OF conjunct2 [OF a]]
  note d = placed_u16 [OF conjunct2 [OF b]]
  have n: "write_name nfc None k (srv_target s) = (None, ?n)" for k by (simp add: write_name_def)
  have "writer_ok nfc None z" for z by (simp add: writer_ok_def)
  from placed_name [OF this ok(1) n conjunct2 [OF d]] a b d ok write_name_length [OF ok(1) n] RD_Srv p
  show ?thesis by (simp add: parse_rdata_def query_types)
next
  case (RD_Other bs)
  with assms show ?thesis using placed_slice [OF assms(4)] by (simp add: parse_rdata_def rdata_ok_def)
qed

lemma rdata_inv:
  assumes "rdata_ok nfc t rd" and "writer_ok nfc c out" and "rdata_payload nfc c (length out) rd = (c', p)"
  shows "writer_ok nfc c' (out @ p)"
  using assms names.put_inv [of nfc c out] names.inv_append [of nfc c out]
  by (cases rd) (auto simp: rdata_ok_def)

text \<open>
  A TXT payload can also be written as raw bytes, as the responder does to keep the case of its keys. It reads back
  as the map its bytes are parsed to, wherever they stand.
\<close>

definition txt_reads :: "bytes \<Rightarrow> bytes ci_map \<Rightarrow> bool" where
  "txt_reads bs m \<longleftrightarrow> (\<forall>r out x. placed r out bs x \<longrightarrow> parse_txt r (length bs) = Ok (m, r\<lparr>rd_pos := length (out @ bs)\<rparr>))"

definition seen_txt :: "bytes \<Rightarrow> bytes ci_map" where
  "seen_txt bs = (case parse_txt (reader_new bs) (length bs) of Ok (m, _) \<Rightarrow> m | Err _ \<Rightarrow> [])"

definition rdata_wire :: "(bytes \<Rightarrow> bytes) \<Rightarrow> u16 \<Rightarrow> record_data \<Rightarrow> bool" where
  "rdata_wire nfc t rd \<longleftrightarrow> rdata_ok nfc t rd
     \<or> t = QT_TXT \<and> (\<exists>bs m. rd = RD_Other bs \<and> length bs \<le> 65535 \<and> txt_reads bs m)"

definition rdata_seen :: "u16 \<Rightarrow> record_data \<Rightarrow> record_data" where
  "rdata_seen t rd = (case rd of RD_Other bs \<Rightarrow> if t = QT_TXT then RD_Txt (seen_txt bs) else rd | _ \<Rightarrow> rd)"

lemma rdata_ok_seen: "rdata_ok nfc t rd \<Longrightarrow> rdata_seen t rd = rd"
  by (auto simp: rdata_ok_def rdata_seen_def split: record_data.splits)

lemma txt_reads_seen: "txt_reads bs m \<Longrightarrow> length bs \<le> 65535 \<Longrightarrow> seen_txt bs = m"
proof -
  assume "txt_reads bs m" "length bs \<le> 65535"
  moreover from this(2) have "placed (reader_new bs) [] bs []" by (simp add: placed_def reader_new_def reader_ok_def usize_max_def)
  ultimately have "parse_txt (reader_new bs) (length bs) = Ok (m, (reader_new bs)\<lparr>rd_pos := length ([] @ bs)\<rparr>)"
    unfolding txt_reads_def by blast
  then show ?thesis by (simp add: seen_txt_def)
qed

lemma wire_reads:
  assumes "rdata_wire nfc t rd" and "writer_ok nfc c out" and "rdata_payload nfc c (length out) rd = (c', p)" and "placed r out p x"
  shows "parse_rdata r t (length p) = Ok (rdata_seen t rd, r\<lparr>rd_pos := length (out @ p)\<rparr>) \<and> length p \<le> 65535"
proof (cases "rdata_ok nfc t rd")
  case True
  with rdata_reads [OF this assms(2-4)] show ?thesis by (simp add: rdata_ok_seen)
next
  case False
  with assms(1) obtain bs m where b: "t = QT_TXT" "rd = RD_Other bs" "length bs \<le> 65535" "txt_reads bs m"
    by (auto simp: rdata_wire_def)
  with assms(3) have p: "p = bs" by simp
  from b(4) assms(4) have "parse_txt r (length bs) = Ok (m, r\<lparr>rd_pos := length (out @ bs)\<rparr>)"
    unfolding txt_reads_def p by blast
  with b p txt_reads_seen [OF b(4,3)] show ?thesis by (simp add: parse_rdata_def query_types rdata_seen_def)
qed

lemma wire_inv:
  "rdata_wire nfc t rd \<Longrightarrow> writer_ok nfc c out \<Longrightarrow> rdata_payload nfc c (length out) rd = (c', p) \<Longrightarrow> writer_ok nfc c' (out @ p)"
  using rdata_inv [of nfc t rd c out c' p] names.inv_append [of nfc c out p] by (auto simp: rdata_wire_def)

definition resource_ok :: "(bytes \<Rightarrow> bytes) \<Rightarrow> resource \<Rightarrow> bool" where
  "resource_ok nfc a \<longleftrightarrow> name_ok nfc (rr_name a) \<and> rdata_ok nfc (rr_type a) (rr_rd a)"

definition resource_wire :: "(bytes \<Rightarrow> bytes) \<Rightarrow> resource \<Rightarrow> bool" where
  "resource_wire nfc a \<longleftrightarrow> name_ok nfc (rr_name a) \<and> rdata_wire nfc (rr_type a) (rr_rd a)"

definition resource_seen :: "resource \<Rightarrow> resource" where
  "resource_seen a = a\<lparr>rr_rd := rdata_seen (rr_type a) (rr_rd a)\<rparr>"

lemma resource_ok_wire: "resource_ok nfc a \<Longrightarrow> resource_wire nfc a \<and> resource_seen a = a"
  using rdata_ok_seen [of nfc "rr_type a" "rr_rd a"] by (simp add: resource_ok_def resource_wire_def rdata_wire_def resource_seen_def)

lemma unat_u16_len: "n \<le> 65535 \<Longrightarrow> unat (word_of_nat n :: u16) = n"
  by (simp add: unat_of_nat)

text \<open>The pieces of a written record, and the state they leave.\<close>

lemma write_resource_parts:
  assumes "writer_ok nfc c out" and "resource_wire nfc a" and "write_resource nfc c (length out) a = (c', w)"
  obtains c1 n p where "write_name nfc c (length out) (rr_name a) = (c1, n)"
    and "rdata_payload nfc c1 (length (out @ n) + 10) (rr_rd a) = (c', p)"
    and "w = n @ be_bytes 2 (unat (rr_type a)) @ be_bytes 2 (unat (rr_class a)) @ be_bytes 4 (unat (rr_ttl a))
      @ be_bytes 2 (if length p \<le> 65535 then length p else 65535) @ p"
    and "\<And>z. writer_ok nfc c1 (out @ n @ z)"
proof -
  obtain c1 n where n: "write_name nfc c (length out) (rr_name a) = (c1, n)" by fastforce
  obtain c2 p where p: "rdata_payload nfc c1 (length (out @ n) + 10) (rr_rd a) = (c2, p)" by fastforce
  have i: "writer_ok nfc c1 (out @ n @ z)" for z
    using names.inv_append [OF names.put_inv [OF assms(1) _ n], of z] assms(2) by (simp add: resource_wire_def)
  let ?fixed = "n @ be_bytes 2 (unat (rr_type a)) @ be_bytes 2 (unat (rr_class a)) @ be_bytes 4 (unat (rr_ttl a))"
  have "length out + length ?fixed + 2 = length (out @ n) + 10" by simp
  with p have e: "rdata_payload nfc c1 (length out + length ?fixed + 2) (rr_rd a) = (c2, p)" by metis
  from assms(3) have "c' = c2" and w: "w = n @ be_bytes 2 (unat (rr_type a)) @ be_bytes 2 (unat (rr_class a)) @ be_bytes 4 (unat (rr_ttl a))
      @ be_bytes 2 (if length p \<le> 65535 then length p else 65535) @ p"
    unfolding write_resource_def write_with_length_def Let_def n prod.case e by simp_all
  with that [OF n] p i show thesis by blast
qed

interpretation resources: wire_codec "write_resource nfc" resource_unpack "writer_ok nfc" "resource_wire nfc" resource_seen for nfc
proof
  fix c out a c' w r x
  assume A: "writer_ok nfc c out" "resource_wire nfc a" "write_resource nfc c (length out) a = (c', w)" "reader_ok r"
    "rd_data r = out @ w @ x" "rd_pos r = length out"
  from write_resource_parts [OF A(1-3)] obtain c1 n p where n: "write_name nfc c (length out) (rr_name a) = (c1, n)"
    and p: "rdata_payload nfc c1 (length (out @ n) + 10) (rr_rd a) = (c', p)"
    and w: "w = n @ be_bytes 2 (unat (rr_type a)) @ be_bytes 2 (unat (rr_class a)) @ be_bytes 4 (unat (rr_ttl a))
      @ be_bytes 2 (if length p \<le> 65535 then length p else 65535) @ p"
    and i: "\<And>z. writer_ok nfc c1 (out @ n @ z)" by blast
  let ?f = "be_bytes 2 (unat (rr_type a)) @ be_bytes 2 (unat (rr_class a)) @ be_bytes 4 (unat (rr_ttl a))"
  let ?l = "if length p \<le> 65535 then length p else 65535"
  from A(2) have ok: "name_ok nfc (rr_name a)" "rdata_wire nfc (rr_type a) (rr_rd a)" by (simp_all add: resource_wire_def)
  have l: "unat (word_of_nat ?l :: u16) = ?l" by (rule unat_u16_len) simp
  from A(4-6) w have "placed r out (n @ be_bytes 2 (unat (rr_type a)) @ be_bytes 2 (unat (rr_class a)) @ be_bytes 4 (unat (rr_ttl a))
      @ be_bytes 2 (unat (word_of_nat ?l :: u16)) @ p) x"
    unfolding l by (simp add: placed_def)
  from placed_name [OF A(1) ok(1) n this] obtain r1 where r1: "parse_name r = Ok (rr_name a, r1)" "r1 = r\<lparr>rd_pos := length (out @ n)\<rparr>"
    and s1: "placed r1 (out @ n) (be_bytes 2 (unat (rr_type a)) @ be_bytes 2 (unat (rr_class a)) @ be_bytes 4 (unat (rr_ttl a))
      @ be_bytes 2 (unat (word_of_nat ?l :: u16)) @ p) x" by blast
  from placed_u16 [OF s1] obtain r2 where r2: "read_u16 r1 = Ok (rr_type a, r2)" "r2 = r1\<lparr>rd_pos := length (out @ n) + 2\<rparr>"
    and s2: "placed r2 ((out @ n) @ be_bytes 2 (unat (rr_type a))) (be_bytes 2 (unat (rr_class a)) @ be_bytes 4 (unat (rr_ttl a))
      @ be_bytes 2 (unat (word_of_nat ?l :: u16)) @ p) x" by blast
  from placed_u16 [OF s2] obtain r3 where r3: "read_u16 r2 = Ok (rr_class a, r3)" "\<exists>k. r3 = r2\<lparr>rd_pos := k\<rparr>"
    and s3: "placed r3 (((out @ n) @ be_bytes 2 (unat (rr_type a))) @ be_bytes 2 (unat (rr_class a))) (be_bytes 4 (unat (rr_ttl a))
      @ be_bytes 2 (unat (word_of_nat ?l :: u16)) @ p) x" by blast
  from placed_u32 [OF s3] obtain r4 where r4: "read_u32 r3 = Ok (rr_ttl a, r4)" "\<exists>k. r4 = r3\<lparr>rd_pos := k\<rparr>"
    and s4: "placed r4 ((((out @ n) @ be_bytes 2 (unat (rr_type a))) @ be_bytes 2 (unat (rr_class a))) @ be_bytes 4 (unat (rr_ttl a)))
      (be_bytes 2 (unat (word_of_nat ?l :: u16)) @ p) x" by blast
  let ?out = "((((out @ n) @ be_bytes 2 (unat (rr_type a))) @ be_bytes 2 (unat (rr_class a))) @ be_bytes 4 (unat (rr_ttl a)))
      @ be_bytes 2 (unat (word_of_nat ?l :: u16))"
  from placed_u16 [OF s4] obtain r5 where r5: "read_u16 r4 = Ok (word_of_nat ?l, r5)" "\<exists>k. r5 = r4\<lparr>rd_pos := k\<rparr>"
    and s5: "placed r5 ?out p x" by blast
  have "length ?out = length (out @ n) + 10" by simp
  with p have p': "rdata_payload nfc c1 (length ?out) (rr_rd a) = (c', p)" by metis
  have i': "writer_ok nfc c1 ?out" using i by simp
  note rd = wire_reads [OF ok(2) i' p' s5]
  then have l': "unat (word_of_nat ?l :: u16) = length p" using l by simp
  have pos: "rd_pos r5 + length p = length (out @ w)" using s5 w rd by (simp add: placed_def)
  have "r5\<lparr>rd_pos := length (?out @ p)\<rparr> = r\<lparr>rd_pos := length (out @ w)\<rparr>"
    using r1(2) r2(2) r3(2) r4(2) r5(2) s5 pos by (auto simp: placed_def)
  moreover have "length (out @ w) - rd_pos r5 = length p" using pos by simp
  ultimately show "resource_unpack r = Ok (resource_seen a, r\<lparr>rd_pos := length (out @ w)\<rparr>)"
    using conjunct1 [OF rd] unfolding resource_unpack_def r1(1) r2(1) r3(1) r4(1) r5(1) rbind_simps prod.case l' Let_def by (simp add: resource_seen_def)
next
  fix c out a c' w
  assume A: "writer_ok nfc c out" "resource_wire nfc a" "write_resource nfc c (length out) a = (c', w)"
  from write_resource_parts [OF A] obtain c1 n p where
    p: "rdata_payload nfc c1 (length (out @ n) + 10) (rr_rd a) = (c', p)"
    and w: "w = n @ be_bytes 2 (unat (rr_type a)) @ be_bytes 2 (unat (rr_class a)) @ be_bytes 4 (unat (rr_ttl a))
      @ be_bytes 2 (if length p \<le> 65535 then length p else 65535) @ p"
    and i: "\<And>z. writer_ok nfc c1 (out @ n @ z)" by blast
  let ?z = "be_bytes 2 (unat (rr_type a)) @ be_bytes 2 (unat (rr_class a)) @ be_bytes 4 (unat (rr_ttl a))
      @ be_bytes 2 (if length p \<le> 65535 then length p else 65535)"
  have "length (out @ n @ ?z) = length (out @ n) + 10" by simp
  with p have z: "rdata_payload nfc c1 (length (out @ n @ ?z)) (rr_rd a) = (c', p)" by metis
  from A(2) have "rdata_wire nfc (rr_type a) (rr_rd a)" by (simp add: resource_wire_def)
  from wire_inv [OF this i z] show "writer_ok nfc c' (out @ w)" unfolding w append_assoc .
qed (rule names.inv_append)

section \<open>Hostile records\<close>

text \<open>A successful read of a question or a record has moved the cursor over at least its fixed fields.\<close>

lemma parse_name_advances: "reader_ok r \<Longrightarrow> parse_name r = Ok (s, r') \<Longrightarrow> reader_ok r' \<and> rd_data r' = rd_data r \<and> rd_pos r < rd_pos r'"
  using parse_name_safe [of r s r'] by (auto simp: advanced_def reader_ok_def)

lemma question_advances:
  assumes "reader_ok r" and "question_unpack r = Ok (q, r')"
  shows "reader_ok r' \<and> rd_data r' = rd_data r \<and> rd_pos r + 5 \<le> rd_pos r' \<and> utf8_valid (q_name q)"
proof -
  from assms(2) obtain name r1 t r2 c where p: "parse_name r = Ok (name, r1)" and t: "read_u16 r1 = Ok (t, r2)"
    and c: "read_u16 r2 = Ok (c, r')" and q: "q_name q = name" by (auto simp: question_unpack_def rbind_Ok_iff)
  from parse_name_advances [OF assms(1) p] parse_name_safe [OF assms(1) p] read_moves(2) [OF t] read_moves(2) [OF c] q
  show ?thesis by (auto simp: reader_ok_def)
qed

lemma parse_rdata_moves:
  assumes "reader_ok r" and "parse_rdata r t n = Ok (rd, r')"
  shows "reader_ok r' \<and> rd_data r' = rd_data r \<and> rd_pos r \<le> rd_pos r'"
proof -
  consider (addr) k where "read_address r n k = Ok (case rd of RD_A a \<Rightarrow> a | RD_Aaaa a \<Rightarrow> a, r')"
    | (ptr) s where "parse_name r = Ok (s, r')" | (tx) m where "parse_txt r n = Ok (m, r')"
    | (srv) a r1 b r2 c r3 s where "read_u16 r = Ok (a, r1)" "read_u16 r1 = Ok (b, r2)" "read_u16 r2 = Ok (c, r3)" "parse_name r3 = Ok (s, r')"
    | (other) bs where "read_slice n r = Ok (bs, r')"
    using assms(2) by (auto simp: parse_rdata_def rbind_Ok_iff split: if_splits)
  then show ?thesis
  proof cases
    case addr
    with assms(1) show ?thesis by (auto simp: read_address_def reader_ok_def split: if_splits dest!: read_slice_Ok)
  next
    case ptr
    with parse_name_advances [OF assms(1)] show ?thesis by auto
  next
    case tx
    with parse_txt_ok [OF tx] assms(1) show ?thesis by (auto simp: reader_ok_def)
  next
    case srv
    have "reader_ok r3" using assms(1) srv(1-3) by (auto simp: reader_ok_def dest!: read_moves(2))
    from parse_name_advances [OF this srv(4)] srv(1-3) show ?thesis by (auto dest!: read_moves(2))
  next
    case other
    with assms(1) show ?thesis by (auto simp: reader_ok_def dest!: read_slice_Ok)
  qed
qed

lemma resource_advances:
  assumes "reader_ok r" and "resource_unpack r = Ok (a, r')"
  shows "reader_ok r' \<and> rd_data r' = rd_data r \<and> rd_pos r + 11 \<le> rd_pos r' \<and> utf8_valid (rr_name a)"
proof -
  from assms(2) obtain name r1 t r2 c r3 ttl r4 n r5 rd where p: "parse_name r = Ok (name, r1)" and t: "read_u16 r1 = Ok (t, r2)"
    and c: "read_u16 r2 = Ok (c, r3)" and l: "read_u32 r3 = Ok (ttl, r4)" and n: "read_u16 r4 = Ok (n, r5)"
    and rd: "parse_rdata r5 t (unat n) = Ok (rd, r')" and q: "rr_name a = name"
    by (auto simp: resource_unpack_def rbind_Ok_iff Let_def split: if_splits)
  note m = parse_name_advances [OF assms(1) p] read_moves(2) [OF t] read_moves(2) [OF c] read_moves(3) [OF l] read_moves(2) [OF n]
  then have "reader_ok r5" by (auto simp: reader_ok_def)
  from parse_rdata_moves [OF this rd] m parse_name_safe [OF assms(1) p] q show ?thesis by auto
qed

end
