(* ===== verification/Dns_Message.thy ===== *)
theory Dns_Message
  imports Dns_Record
begin

unbundle bit_operations_syntax

text \<open>
  The DNS message and its header (\<open>crates/pyatv-mdns/src/dns/message.rs\<close>): parsing, and packing
  with and without name compression.
\<close>

definition DEFAULT_FLAGS :: u16 where "DEFAULT_FLAGS = 0x0120"
definition DEFAULT_QUERY_ID :: u16 where "DEFAULT_QUERY_ID = 0x35FF"

record dns_header =
  dh_id :: u16
  dh_flags :: u16
  dh_qdcount :: u16
  dh_ancount :: u16
  dh_nscount :: u16
  dh_arcount :: u16

definition dns_header_unpack :: "reader \<Rightarrow> dns_error + dns_header \<times> reader" where
  "dns_header_unpack r =
     rbind (read_u16 r) (\<lambda>(i, r1).
     rbind (read_u16 r1) (\<lambda>(f, r2).
     rbind (read_u16 r2) (\<lambda>(qd, r3).
     rbind (read_u16 r3) (\<lambda>(an, r4).
     rbind (read_u16 r4) (\<lambda>(ns, r5).
     rbind (read_u16 r5) (\<lambda>(ar, r6).
     Ok (\<lparr>dh_id = i, dh_flags = f, dh_qdcount = qd, dh_ancount = an, dh_nscount = ns, dh_arcount = ar\<rparr>, r6)))))))"

definition dns_header_pack :: "dns_header \<Rightarrow> bytes" where
  "dns_header_pack h =
     be_bytes 2 (unat (dh_id h)) @ be_bytes 2 (unat (dh_flags h)) @ be_bytes 2 (unat (dh_qdcount h))
     @ be_bytes 2 (unat (dh_ancount h)) @ be_bytes 2 (unat (dh_nscount h)) @ be_bytes 2 (unat (dh_arcount h))"

definition is_response :: "dns_header \<Rightarrow> bool" where
  "is_response h \<longleftrightarrow> dh_flags h AND 0x8000 \<noteq> 0"

record dns_message =
  dm_id :: u16
  dm_flags :: u16
  dm_questions :: "question list"
  dm_answers :: "resource list"
  dm_authorities :: "resource list"
  dm_resources :: "resource list"

definition dns_message_new :: "u16 \<Rightarrow> dns_message" where
  "dns_message_new i = \<lparr>dm_id = i, dm_flags = DEFAULT_FLAGS, dm_questions = [], dm_answers = [], dm_authorities = [],
     dm_resources = []\<rparr>"

definition dns_query :: "u16 \<Rightarrow> bytes list \<Rightarrow> u16 \<Rightarrow> dns_message" where
  "dns_query i names t = (dns_message_new i)\<lparr>dm_questions := map (\<lambda>n. question_new n t) names\<rparr>"

definition truncating_count :: "nat \<Rightarrow> u16" where
  "truncating_count len = (if len \<le> 65535 then word_of_nat len else 0xFFFF)"

definition message_header :: "dns_message \<Rightarrow> dns_header" where
  "message_header m =
     \<lparr>dh_id = dm_id m, dh_flags = dm_flags m, dh_qdcount = truncating_count (length (dm_questions m)),
      dh_ancount = truncating_count (length (dm_answers m)), dh_nscount = truncating_count (length (dm_authorities m)),
      dh_arcount = truncating_count (length (dm_resources m))\<rparr>"

definition dns_unpack :: "bytes \<Rightarrow> dns_error + dns_message" where
  "dns_unpack msg =
     rbind (dns_header_unpack (reader_new msg)) (\<lambda>(h, r1).
     rbind (read_many question_unpack (unat (dh_qdcount h)) r1) (\<lambda>(qs, r2).
     rbind (read_many resource_unpack (unat (dh_ancount h)) r2) (\<lambda>(ans, r3).
     rbind (read_many resource_unpack (unat (dh_nscount h)) r3) (\<lambda>(nss, r4).
     rbind (read_many resource_unpack (unat (dh_arcount h)) r4) (\<lambda>(ars, r5).
     Ok \<lparr>dm_id = dh_id h, dm_flags = dh_flags h, dm_questions = qs, dm_answers = ans, dm_authorities = nss,
         dm_resources = ars\<rparr>)))))"

definition pack_inner :: "(bytes \<Rightarrow> bytes) \<Rightarrow> compressor option \<Rightarrow> dns_message \<Rightarrow> bytes" where
  "pack_inner nfc c m =
     (let h = dns_header_pack (message_header m) in
      case write_all (write_question nfc) c (length h) (dm_questions m) of
        (c', q) \<Rightarrow>
          case write_all (write_resource nfc) c' (length (h @ q)) (dm_answers m @ dm_authorities m @ dm_resources m) of
            (c'', a) \<Rightarrow> h @ q @ a)"

definition dns_pack :: "(bytes \<Rightarrow> bytes) \<Rightarrow> dns_message \<Rightarrow> bytes" where
  "dns_pack nfc m = pack_inner nfc None m"

definition pack_compressed :: "(bytes \<Rightarrow> bytes) \<Rightarrow> dns_message \<Rightarrow> bytes" where
  "pack_compressed nfc m = pack_inner nfc (Some compressor_new) m"

section \<open>The header and the sections\<close>

lemma header_reads:
  assumes "reader_ok r" and "rd_data r = dns_header_pack h @ x" and "rd_pos r = 0"
  shows "dns_header_unpack r = Ok (h, r\<lparr>rd_pos := 12\<rparr>)"
proof -
  from assms have "placed r [] (be_bytes 2 (unat (dh_id h)) @ be_bytes 2 (unat (dh_flags h)) @ be_bytes 2 (unat (dh_qdcount h))
     @ be_bytes 2 (unat (dh_ancount h)) @ be_bytes 2 (unat (dh_nscount h)) @ be_bytes 2 (unat (dh_arcount h)) @ []) x"
    by (simp add: placed_def dns_header_pack_def)
  note a = placed_u16 [OF this]
  note b = placed_u16 [OF conjunct2 [OF a]]
  note c = placed_u16 [OF conjunct2 [OF b]]
  note d = placed_u16 [OF conjunct2 [OF c]]
  note e = placed_u16 [OF conjunct2 [OF d]]
  note f = placed_u16 [OF conjunct2 [OF e]]
  show ?thesis using a b c d e f by (simp add: dns_header_unpack_def eval_nat_numeral)
qed

lemma read_many_append:
  "read_many get m r = Ok (xs, r1) \<Longrightarrow> read_many get n r1 = Ok (ys, r2) \<Longrightarrow> read_many get (m + n) r = Ok (xs @ ys, r2)"
  by (induction get m r arbitrary: xs rule: read_many.induct) (auto simp: rbind_Ok_iff)

text \<open>Reading a count of items and then another count is reading their sum, and conversely.\<close>

lemma read_many_split:
  "read_many get (m + n) r = Ok (zs, r2) \<Longrightarrow>
     \<exists>xs ys r1. zs = xs @ ys \<and> length xs = m \<and> read_many get m r = Ok (xs, r1) \<and> read_many get n r1 = Ok (ys, r2)"
proof (induction m arbitrary: r zs)
  case (Suc m)
  then obtain z zs' r0 where "get r = Ok (z, r0)" "read_many get (m + n) r0 = Ok (zs', r2)" "zs = z # zs'"
    by (auto simp: rbind_Ok_iff)
  with Suc.IH [OF this(2)] show ?case by (fastforce simp: rbind_Ok_iff)
qed simp

lemma read_many_length: "read_many get n r = Ok (xs, r') \<Longrightarrow> length xs = n"
  by (induction get n r arbitrary: xs rule: read_many.induct) (auto simp: rbind_Ok_iff)

text \<open>What can be packed: names and records that have a wire form, and counts that fit their fields.\<close>

definition message_ok :: "(bytes \<Rightarrow> bytes) \<Rightarrow> dns_message \<Rightarrow> bool" where
  "message_ok nfc m \<longleftrightarrow>
     length (dm_questions m) \<le> 65535 \<and> length (dm_answers m) \<le> 65535 \<and> length (dm_authorities m) \<le> 65535
     \<and> length (dm_resources m) \<le> 65535 \<and> (\<forall>q \<in> set (dm_questions m). question_ok nfc q)
     \<and> (\<forall>a \<in> set (dm_answers m @ dm_authorities m @ dm_resources m). resource_ok nfc a)"

text \<open>What a message reads back as when its TXT payloads may be raw.\<close>

definition message_wire :: "(bytes \<Rightarrow> bytes) \<Rightarrow> dns_message \<Rightarrow> bool" where
  "message_wire nfc m \<longleftrightarrow>
     length (dm_questions m) \<le> 65535 \<and> length (dm_answers m) \<le> 65535 \<and> length (dm_authorities m) \<le> 65535
     \<and> length (dm_resources m) \<le> 65535 \<and> (\<forall>q \<in> set (dm_questions m). question_ok nfc q)
     \<and> (\<forall>a \<in> set (dm_answers m @ dm_authorities m @ dm_resources m). resource_wire nfc a)"

definition message_seen :: "dns_message \<Rightarrow> dns_message" where
  "message_seen m = m\<lparr>dm_answers := map resource_seen (dm_answers m), dm_authorities := map resource_seen (dm_authorities m),
     dm_resources := map resource_seen (dm_resources m)\<rparr>"

lemma message_ok_wire:
  assumes "message_ok nfc m"
  shows "message_wire nfc m \<and> message_seen m = m"
proof -
  have "map resource_seen as = as" if "\<forall>a \<in> set as. resource_ok nfc a" for as
    using that resource_ok_wire by (induction as) auto
  with assms resource_ok_wire show ?thesis by (auto simp: message_ok_def message_wire_def message_seen_def)
qed

lemma unat_truncating: "n \<le> 65535 \<Longrightarrow> unat (truncating_count n) = n"
  by (simp add: truncating_count_def unat_u16_len)

lemma sections_read:
  assumes "read_many get (length (as @ bs @ cs)) r = Ok (as @ bs @ cs, r')"
  shows "\<exists>r1 r2. read_many get (length as) r = Ok (as, r1) \<and> read_many get (length bs) r1 = Ok (bs, r2)
    \<and> read_many get (length cs) r2 = Ok (cs, r')"
proof -
  from assms have "read_many get (length as + (length bs + length cs)) r = Ok (as @ bs @ cs, r')" by (simp add: add.assoc)
  from read_many_split [OF this] obtain xs ys r1 where a: "as @ bs @ cs = xs @ ys" "length xs = length as"
    "read_many get (length as) r = Ok (xs, r1)" "read_many get (length bs + length cs) r1 = Ok (ys, r')" by blast
  then have "xs = as" "ys = bs @ cs" by auto
  with a read_many_split [OF a(4)] show ?thesis by auto
qed

text \<open>What is packed fits the address space: a name, a question and a record are short, and a section holds at most 65535.\<close>

lemma write_all_length:
  "(\<And>t n a t' w. a \<in> set as \<Longrightarrow> put t n a = (t', w) \<Longrightarrow> length w \<le> k) \<Longrightarrow> write_all put t n as = (t', v) \<Longrightarrow> length v \<le> k * length as"
proof (induction as arbitrary: t n t' v)
  case (Cons a as)
  obtain t1 w where w: "put t n a = (t1, w)" by fastforce
  obtain t2 u where u: "write_all put t1 (n + length w) as = (t2, u)" by fastforce
  with Cons.prems(2) w have "v = w @ u" by simp
  moreover have "length w \<le> k" using Cons.prems(1) w by (meson list.set_intros(1))
  moreover have "length u \<le> k * length as" using Cons.IH [OF _ u] Cons.prems(1) by (meson list.set_intros(2))
  ultimately show ?case by simp
qed simp

lemma question_short: "question_ok nfc q \<Longrightarrow> write_question nfc c n q = (c', w) \<Longrightarrow> length w \<le> 70000"
  using write_name_length [of nfc "q_name q" c n] by (fastforce simp: question_ok_def write_question_def split: prod.splits)

lemma payload_short: "rdata_wire nfc t rd \<Longrightarrow> rdata_payload nfc c n rd = (c', p) \<Longrightarrow> length p \<le> 65535"
proof (cases rd)
  case (RD_Srv s)
  moreover assume "rdata_wire nfc t rd" "rdata_payload nfc c n rd = (c', p)"
  ultimately show ?thesis using write_name_length [of nfc "srv_target s" None n None "encode_name nfc (srv_target s)"]
    by (auto simp: rdata_wire_def rdata_ok_def write_name_def)
next
  case (RD_Ptr s)
  moreover assume "rdata_wire nfc t rd" "rdata_payload nfc c n rd = (c', p)"
  ultimately show ?thesis using write_name_length [of nfc s c n c' p] by (auto simp: rdata_wire_def rdata_ok_def)
qed (auto simp: rdata_wire_def rdata_ok_def)

lemma resource_short:
  assumes "resource_wire nfc a" and "write_resource nfc c n a = (c', w)"
  shows "length w \<le> 140000"
proof -
  obtain c1 u where u: "write_name nfc c n (rr_name a) = (c1, u)" by fastforce
  obtain c2 p where p: "rdata_payload nfc c1 (n + length u + 8 + 2) (rr_rd a) = (c2, p)" by fastforce
  from assms(2) u p have "length w = length u + 10 + length p"
    by (auto simp: write_resource_def write_with_length_def Let_def add.assoc)
  moreover have "length u \<le> 65535" using write_name_length [OF _ u] assms(1) by (fastforce simp: resource_wire_def)
  moreover have "length p \<le> 65535" using assms(1) by (intro payload_short [OF _ p, of "rr_type a"]) (simp add: resource_wire_def)
  ultimately show ?thesis by simp
qed

lemma pack_fits:
  assumes "message_wire nfc m"
  shows "length (pack_inner nfc c m) \<le> usize_max"
proof -
  let ?h = "dns_header_pack (message_header m)" and ?rs = "dm_answers m @ dm_authorities m @ dm_resources m"
  obtain c1 q where q: "write_all (write_question nfc) c (length ?h) (dm_questions m) = (c1, q)" by fastforce
  obtain c2 a where a: "write_all (write_resource nfc) c1 (length (?h @ q)) ?rs = (c2, a)" by fastforce
  have "length q \<le> 70000 * length (dm_questions m)"
    by (rule write_all_length [OF _ q], erule question_short [rotated]) (use assms in \<open>auto simp: message_wire_def\<close>)
  moreover have "length a \<le> 140000 * length ?rs"
    by (rule write_all_length [OF _ a], erule resource_short [rotated]) (use assms in \<open>auto simp: message_wire_def\<close>)
  moreover have "length (dm_questions m) \<le> 65535" "length ?rs \<le> 3 * 65535" using assms by (auto simp: message_wire_def)
  moreover have "pack_inner nfc c m = ?h @ q @ a" using q a by (simp add: pack_inner_def Let_def)
  ultimately show ?thesis by (simp add: usize_max_def dns_header_pack_def)
qed

lemma pack_reads:
  assumes "message_wire nfc m" and "writer_ok nfc c (dns_header_pack (message_header m))"
  shows "dns_unpack (pack_inner nfc c m) = Ok (message_seen m)"
proof -
  let ?h = "dns_header_pack (message_header m)" and ?rs = "dm_answers m @ dm_authorities m @ dm_resources m"
  obtain c1 q where q: "write_all (write_question nfc) c (length ?h) (dm_questions m) = (c1, q)" by fastforce
  obtain c2 a where a: "write_all (write_resource nfc) c1 (length (?h @ q)) ?rs = (c2, a)" by fastforce
  have p: "pack_inner nfc c m = ?h @ q @ a" using q a by (simp add: pack_inner_def Let_def)
  let ?r = "reader_new (pack_inner nfc c m)"
  have ok: "reader_ok ?r" "rd_data ?r = ?h @ q @ a" "rd_pos ?r = 0"
    using pack_fits [OF assms(1), of c] p by (simp_all add: reader_new_def reader_ok_def)
  have len: "length ?h = 12" by (simp add: dns_header_pack_def)
  let ?r1 = "?r\<lparr>rd_pos := 12\<rparr>" and ?r2 = "?r\<lparr>rd_pos := length (?h @ q)\<rparr>"
  have h: "dns_header_unpack ?r = Ok (message_header m, ?r1)" using header_reads [of ?r _ "q @ a"] ok by simp
  have m: "\<forall>x \<in> set (dm_questions m). question_ok nfc x" "\<forall>x \<in> set ?rs. resource_wire nfc x"
    using assms(1) by (simp_all add: message_wire_def)
  have ok1: "reader_ok ?r1" "rd_data ?r1 = ?h @ q @ a" "rd_pos ?r1 = length ?h" using ok len by (simp_all add: reader_ok_def)
  from questions.all_read [OF assms(2) m(1) q ok1]
  have qs: "read_many question_unpack (length (dm_questions m)) ?r1 = Ok (dm_questions m, ?r2)" by simp
  have ok2: "reader_ok ?r2" "rd_data ?r2 = (?h @ q) @ a @ []" "rd_pos ?r2 = length (?h @ q)" using ok by (simp_all add: reader_ok_def)
  from resources.all_read [OF questions.all_inv [OF assms(2) m(1) q] m(2) a ok2]
  have "read_many resource_unpack (length (map resource_seen (dm_answers m) @ map resource_seen (dm_authorities m) @ map resource_seen (dm_resources m))) ?r2
      = Ok (map resource_seen (dm_answers m) @ map resource_seen (dm_authorities m) @ map resource_seen (dm_resources m), ?r2\<lparr>rd_pos := length (?h @ q @ a)\<rparr>)"
    by simp
  from sections_read [OF this] obtain r3 r4 r5 where "read_many resource_unpack (length (dm_answers m)) ?r2 = Ok (map resource_seen (dm_answers m), r3)"
    "read_many resource_unpack (length (dm_authorities m)) r3 = Ok (map resource_seen (dm_authorities m), r4)"
    "read_many resource_unpack (length (dm_resources m)) r4 = Ok (map resource_seen (dm_resources m), r5)"
    by auto
  with h qs assms(1) show ?thesis
    by (simp add: dns_unpack_def message_header_def unat_truncating message_wire_def message_seen_def)
qed

section \<open>Hostile messages\<close>

lemma read_many_bounds:
  assumes "\<And>r x r'. reader_ok r \<Longrightarrow> get r = Ok (x, r') \<Longrightarrow> reader_ok r' \<and> rd_data r' = rd_data r \<and> rd_pos r + k \<le> rd_pos r' \<and> P x"
  shows "reader_ok r \<Longrightarrow> read_many get n r = Ok (xs, r') \<Longrightarrow>
    reader_ok r' \<and> rd_data r' = rd_data r \<and> rd_pos r + k * n \<le> rd_pos r' \<and> (\<forall>x \<in> set xs. P x)"
proof (induction n arbitrary: r xs)
  case (Suc n)
  then obtain x r1 ys where g: "get r = Ok (x, r1)" and y: "read_many get n r1 = Ok (ys, r')" and xs: "xs = x # ys"
    by (auto simp: rbind_Ok_iff)
  note a = assms [OF Suc.prems(1) g]
  with Suc.IH [OF _ y] xs show ?case by auto
qed simp

lemma questions_bounds:
  "reader_ok r \<Longrightarrow> read_many question_unpack n r = Ok (qs, r') \<Longrightarrow>
    reader_ok r' \<and> rd_data r' = rd_data r \<and> rd_pos r + 5 * n \<le> rd_pos r' \<and> (\<forall>q \<in> set qs. utf8_valid (q_name q))"
  by (rule read_many_bounds [where get = question_unpack]) (use question_advances in blast)+

lemma resources_bounds:
  "reader_ok r \<Longrightarrow> read_many resource_unpack n r = Ok (rs, r') \<Longrightarrow>
    reader_ok r' \<and> rd_data r' = rd_data r \<and> rd_pos r + 11 * n \<le> rd_pos r' \<and> (\<forall>a \<in> set rs. utf8_valid (rr_name a))"
  by (rule read_many_bounds [where get = resource_unpack]) (use resource_advances in blast)+

lemma header_moves: "reader_ok r \<Longrightarrow> dns_header_unpack r = Ok (h, r') \<Longrightarrow> reader_ok r' \<and> rd_data r' = rd_data r \<and> rd_pos r' = rd_pos r + 12"
  by (auto simp: dns_header_unpack_def rbind_Ok_iff reader_ok_def dest!: read_moves(2))

lemma unpack_bounds:
  assumes "dns_unpack msg = Ok m" and "length msg \<le> usize_max"
  shows "12 + 5 * length (dm_questions m) + 11 * length (dm_answers m @ dm_authorities m @ dm_resources m) \<le> length msg
    \<and> (\<forall>q \<in> set (dm_questions m). utf8_valid (q_name q))
    \<and> (\<forall>a \<in> set (dm_answers m @ dm_authorities m @ dm_resources m). utf8_valid (rr_name a))"
proof -
  from assms(1) obtain h r1 r2 r3 r4 r5 where h: "dns_header_unpack (reader_new msg) = Ok (h, r1)"
    and q: "read_many question_unpack (unat (dh_qdcount h)) r1 = Ok (dm_questions m, r2)"
    and a: "read_many resource_unpack (unat (dh_ancount h)) r2 = Ok (dm_answers m, r3)"
    and b: "read_many resource_unpack (unat (dh_nscount h)) r3 = Ok (dm_authorities m, r4)"
    and c: "read_many resource_unpack (unat (dh_arcount h)) r4 = Ok (dm_resources m, r5)"
    by (auto simp: dns_unpack_def rbind_Ok_iff)
  from header_moves [OF reader_new_ok [OF assms(2)] h]
  have h': "reader_ok r1" "rd_data r1 = msg" "rd_pos r1 = 12" by (simp_all add: reader_new_def)
  note q' = questions_bounds [OF h'(1) q]
  note a' = resources_bounds [OF conjunct1 [OF q'] a]
  note b' = resources_bounds [OF conjunct1 [OF a'] b]
  note c' = resources_bounds [OF conjunct1 [OF b'] c]
  from c' have "rd_pos r5 \<le> length (rd_data r5)" unfolding reader_ok_def by blast
  with h' q' a' b' c' read_many_length [OF q] read_many_length [OF a] read_many_length [OF b] read_many_length [OF c]
  show ?thesis by auto
qed

section \<open>Properties\<close>

text \<open>
  C14: a message reads back from its packed form, compressed or not. Unpacking what \<open>pack\<close> or
  \<open>pack_compressed\<close> writes of any message that has a wire form gives the message, every name in
  it written out in full or as a pointer, every kind of record data included.
\<close>

theorem dns_roundtrip:
  assumes "message_ok nfc m"
  shows "dns_unpack (dns_pack nfc m) = Ok m \<and> dns_unpack (pack_compressed nfc m) = Ok m"
proof -
  have "writer_ok nfc None h" "writer_ok nfc (Some compressor_new) h" for h
    by (simp_all add: writer_ok_def comp_table_new)
  with pack_reads [of nfc m] message_ok_wire [OF assms] show ?thesis by (simp add: dns_pack_def pack_compressed_def)
qed

definition toy_message :: dns_message where
  "toy_message = (dns_query 0x35FF [[98, 46, 97]] QT_PTR)\<lparr>dm_answers :=
     [\<lparr>rr_name = [97], rr_type = QT_PTR, rr_class = CLASS_IN, rr_ttl = 10, rr_rd = RD_Ptr [98, 46, 97]\<rparr>]\<rparr>"

theorem dns_roundtrip_witness: "dns_unpack (pack_compressed (\<lambda>l. l) toy_message) = Ok toy_message"
proof -
  have ok: "message_ok (\<lambda>l. l) toy_message"
    using toy_names_ok by (simp add: message_ok_def toy_message_def dns_query_def dns_message_new_def question_new_def
        question_ok_def resource_ok_def rdata_ok_def)
  from dns_roundtrip [OF ok] show ?thesis by simp
qed

text \<open>
  What a hostile datagram can cost. The counts in the header are the sender's, but every question
  of a parsed message took at least 5 of its bytes and every record 11, so the message held is bounded
  by the datagram; and every owner name in it is valid UTF-8.
\<close>

theorem dns_unpack_bounded:
  assumes "dns_unpack msg = Ok m" and "length msg \<le> usize_max"
  shows "12 + 5 * length (dm_questions m) + 11 * length (dm_answers m @ dm_authorities m @ dm_resources m) \<le> length msg
    \<and> (\<forall>q \<in> set (dm_questions m). utf8_valid (q_name q))
    \<and> (\<forall>a \<in> set (dm_answers m @ dm_authorities m @ dm_resources m). utf8_valid (rr_name a))"
  by (rule unpack_bounds [OF assms])

theorem dns_unpack_bounded_witness:
  "12 + 5 * length (dm_questions (dns_message_new 7)) \<le> length (0 # 7 # 1 # 0x20 # replicate 8 (0 :: u8))"
proof -
  have "dns_unpack (0 # 7 # 1 # 0x20 # replicate 8 0) = Ok (dns_message_new 7)"
    by (simp add: dns_unpack_def dns_header_unpack_def reader_new_def read_u16_def read_slice_def checked_add_def
        usize_max_def be_nat_def replicate_eval dns_message_new_def DEFAULT_FLAGS_def)
  from dns_unpack_bounded [OF this] show ?thesis by (simp add: usize_max_def)
qed

end
