(* ===== verification/Dmap_Tags.thy ===== *)
theory Dmap_Tags
  imports Prelude
begin

text \<open>
  The DMAP tag table and the tag writers (\<open>pyatv-proto-dmap\<close>: \<open>tags.rs\<close>,
  \<open>tags/write.rs\<close>). The wire carries no types: a tag is four key bytes, a big-endian length
  and the data, and the table says how the data of each key is read.
\<close>

section \<open>The table\<close>

datatype tag_type =
  TagContainer | TagUint | TagBool | TagString | TagBytes | TagBplist | TagIgnore | TagUnknown

record tag_definition =
  tag_type :: tag_type
  tag_name :: bytes

fun display_tag_type :: "tag_type \<Rightarrow> bytes" where
  "display_tag_type TagContainer = lit ''container''"
| "display_tag_type TagUint = lit ''uint''"
| "display_tag_type TagBool = lit ''bool''"
| "display_tag_type TagString = lit ''str''"
| "display_tag_type TagBytes = lit ''bytes''"
| "display_tag_type TagBplist = lit ''bplist''"
| "display_tag_type TagIgnore = lit ''ignore''"
| "display_tag_type TagUnknown = lit ''unknown''"

definition display_tag :: "tag_definition \<Rightarrow> bytes" where
  "display_tag d = lit ''['' @ display_tag_type (tag_type d) @ lit '', '' @ tag_name d @ lit '']''"

definition tag_def :: "tag_type \<Rightarrow> string \<Rightarrow> tag_definition" where
  "tag_def t n = \<lparr>tag_type = t, tag_name = lit n\<rparr>"

definition UNKNOWN_TAG :: tag_definition where
  "UNKNOWN_TAG = tag_def TagUnknown ''unknown tag''"

text \<open>The rows of the \<open>tag_table!\<close> invocation, and the constant the macro makes of them.\<close>

definition tag_table :: "(string \<times> tag_type \<times> string) list" where
  "tag_table = [
    (''aelb'', TagBool, ''com.apple.itunes.like-button''),
    (''aels'', TagUint, ''com.apple.itunes.liked-state''),
    (''aeFP'', TagUint, ''com.apple.itunes.req-fplay''),
    (''aeGs'', TagBool, ''com.apple.itunes.can-be-genius-seed''),
    (''aeSV'', TagUint, ''com.apple.itunes.music-sharing-version''),
    (''apro'', TagUint, ''daap.protocolversion''),
    (''asai'', TagUint, ''daap.songalbumid''),
    (''asal'', TagString, ''daap.songalbum''),
    (''asar'', TagString, ''daap.songartist''),
    (''asgr'', TagUint, ''com.apple.itunes.gapless-resy''),
    (''astm'', TagUint, ''daap.songtime''),
    (''ated'', TagBool, ''daap.supportsextradata''),
    (''caar'', TagUint, ''dacp.albumrepeat''),
    (''caas'', TagUint, ''dacp.albumshuffle''),
    (''caci'', TagContainer, ''dacp.controlint''),
    (''cafe'', TagBool, ''dacp.fullscreenenabled''),
    (''cafs'', TagUint, ''dacp.fullscreen''),
    (''cana'', TagString, ''daap.nowplayingartist''),
    (''cang'', TagString, ''dacp.nowplayinggenre''),
    (''canl'', TagString, ''daap.nowplayingalbum''),
    (''cann'', TagString, ''daap.nowplayingtrack''),
    (''canp'', TagBytes, ''daap.nowplayingid''),
    (''cant'', TagUint, ''dacp.remainingtime''),
    (''capr'', TagUint, ''dacp.protocolversion''),
    (''caps'', TagUint, ''dacp.playstatus''),
    (''carp'', TagUint, ''dacp.repeatstate''),
    (''cash'', TagUint, ''dacp.shufflestate''),
    (''cast'', TagUint, ''dacp.tracklength''),
    (''casu'', TagUint, ''dacp.su''),
    (''cavc'', TagBool, ''dacp.volumecontrollable''),
    (''cave'', TagBool, ''dacp.dacpvisualizerenabled''),
    (''cavs'', TagUint, ''dacp.visualizer''),
    (''ceGS'', TagString, ''com.apple.itunes.genius-selectable''),
    (''ceQR'', TagContainer, ''com.apple.itunes.playqueue-contents-response''),
    (''ceSD'', TagBplist, ''playing metadata''),
    (''cmcp'', TagContainer, ''dmcp.controlprompt''),
    (''cmmk'', TagUint, ''dmcp.mediakind''),
    (''cmnm'', TagString, ''dacp.devicename''),
    (''cmpa'', TagContainer, ''dacp.pairinganswer''),
    (''cmpg'', TagUint, ''dacp.pairingguid''),
    (''cmpr'', TagUint, ''dmcp.protocolversion''),
    (''cmsr'', TagUint, ''dmcp.serverrevision''),
    (''cmst'', TagContainer, ''dmcp.playstatus''),
    (''cmty'', TagString, ''dacp.devicetype''),
    (''mdcl'', TagContainer, ''dmap.dictionary''),
    (''miid'', TagUint, ''dmap.itemid''),
    (''minm'', TagString, ''dmap.itemname''),
    (''mlcl'', TagContainer, ''dmap.listing''),
    (''mlid'', TagUint, ''dmap.sessionid''),
    (''mlit'', TagContainer, ''dmap.listingitem''),
    (''mlog'', TagContainer, ''dmap.loginresponse''),
    (''mpro'', TagUint, ''dmap.protocolversion''),
    (''mrco'', TagUint, ''dmap.returnedcount''),
    (''msal'', TagBool, ''dmap.supportsautologout''),
    (''msbr'', TagBool, ''dmap.supportsbrowse''),
    (''msdc'', TagUint, ''dmap.databasescount''),
    (''msed'', TagBool, ''dmap.supportsedit''),
    (''msex'', TagBool, ''dmap.supportsextensions''),
    (''msix'', TagBool, ''dmap.supportsindex''),
    (''mslr'', TagBool, ''dmap.loginrequired''),
    (''mspi'', TagBool, ''dmap.supportspersistentids''),
    (''msqy'', TagBool, ''dmap.supportsquery''),
    (''msrv'', TagContainer, ''dmap.serverinforesponse''),
    (''mstc'', TagUint, ''dmap.utctime''),
    (''mstm'', TagUint, ''dmap.timeoutinterval''),
    (''msto'', TagUint, ''dmap.utcoffset''),
    (''mstt'', TagUint, ''dmap.status''),
    (''msup'', TagBool, ''dmap.supportsupdate''),
    (''mtco'', TagUint, ''dmap.containercount''),
    (''aead'', TagBytes, ''unknown tag''),
    (''aeFR'', TagUint, ''unknown tag''),
    (''aeSX'', TagUint, ''unknown tag''),
    (''asse'', TagUint, ''unknown tag''),
    (''atCV'', TagUint, ''unknown tag''),
    (''atSV'', TagUint, ''unknown tag''),
    (''caks'', TagUint, ''unknown tag''),
    (''caov'', TagUint, ''unknown tag''),
    (''capl'', TagBytes, ''unknown tag''),
    (''casa'', TagUint, ''unknown tag''),
    (''casc'', TagUint, ''unknown tag''),
    (''cass'', TagUint, ''unknown tag''),
    (''ceQA'', TagUint, ''unknown tag''),
    (''ceQU'', TagBool, ''unknown tag''),
    (''ceMQ'', TagBool, ''unknown tag''),
    (''ceNQ'', TagUint, ''unknown tag''),
    (''ceNR'', TagBytes, ''unknown tag''),
    (''ceQu'', TagBool, ''unknown tag''),
    (''cmbe'', TagString, ''unknown tag''),
    (''cmcc'', TagString, ''unknown tag''),
    (''cmce'', TagString, ''unknown tag''),
    (''cmcv'', TagIgnore, ''unknown tag''),
    (''cmik'', TagUint, ''unknown tag''),
    (''cmsb'', TagUint, ''unknown tag''),
    (''cmsc'', TagUint, ''unknown tag''),
    (''cmsp'', TagUint, ''unknown tag''),
    (''cmsv'', TagUint, ''unknown tag''),
    (''cmte'', TagString, ''unknown tag''),
    (''mscu'', TagUint, ''unknown tag'')]"

definition TAGS :: "(bytes \<times> tag_definition) list" where
  "TAGS = map (\<lambda>(k, t, n). (lit k, tag_def t n)) tag_table"

text \<open>\<open>TAGS.iter().find(...)\<close> is the first row with the key.\<close>

definition lookup_row :: "bytes \<Rightarrow> tag_definition option" where
  "lookup_row key = map_of TAGS key"

definition lookup_tag :: "bytes \<Rightarrow> tag_definition" where
  "lookup_tag key = (case lookup_row key of None \<Rightarrow> UNKNOWN_TAG | Some d \<Rightarrow> d)"

definition is_container :: "bytes \<Rightarrow> bool" where
  "is_container key \<longleftrightarrow> tag_type (lookup_tag key) = TagContainer"

section \<open>The writers\<close>

text \<open>
  The length field saturates: \<open>u32::try_from(len).unwrap_or(u32::MAX)\<close>. The integer writers
  differ only in the width they reserve.
\<close>

definition raw_tag :: "bytes \<Rightarrow> bytes \<Rightarrow> bytes" where
  "raw_tag key v = key @ be_bytes 4 (if length v < 2 ^ 32 then length v else 2 ^ 32 - 1) @ v"

definition container_tag :: "bytes \<Rightarrow> bytes \<Rightarrow> bytes" where
  "container_tag key data = raw_tag key data"

definition string_tag :: "bytes \<Rightarrow> bytes \<Rightarrow> bytes" where
  "string_tag key v = raw_tag key v"

definition uint8_tag :: "bytes \<Rightarrow> u8 \<Rightarrow> bytes" where
  "uint8_tag key v = raw_tag key (be_bytes 1 (unat v))"

definition uint16_tag :: "bytes \<Rightarrow> u16 \<Rightarrow> bytes" where
  "uint16_tag key v = raw_tag key (be_bytes 2 (unat v))"

definition uint32_tag :: "bytes \<Rightarrow> u32 \<Rightarrow> bytes" where
  "uint32_tag key v = raw_tag key (be_bytes 4 (unat v))"

definition uint64_tag :: "bytes \<Rightarrow> u64 \<Rightarrow> bytes" where
  "uint64_tag key v = raw_tag key (be_bytes 8 (unat v))"

definition bool_tag :: "bytes \<Rightarrow> bool \<Rightarrow> bytes" where
  "bool_tag key v = uint8_tag key (if v then 1 else 0)"

section \<open>Facts about the table\<close>

text \<open>No row shadows another, so the order of the rows does not matter, and every key fills the
  four bytes the wire has for it.\<close>

definition wire_key :: "bytes \<Rightarrow> bool" where
  "wire_key key \<longleftrightarrow> length key = 4 \<and> utf8_valid key"

lemma table_distinct: "distinct (map fst tag_table)"
  by code_simp

lemma table_rows:
  "list_all (\<lambda>(k, t, n). length k = 4 \<and> list_all (\<lambda>c. \<not> digit7 c) k \<and> t \<noteq> TagUnknown) tag_table"
  by code_simp

lemma tags_distinct: "distinct (map fst TAGS)"
proof -
  have "map fst TAGS = map lit (map fst tag_table)" by (simp add: TAGS_def split_beta)
  moreover have "inj_on lit A" for A by (simp add: inj_on_def lit_eq_iff)
  ultimately show ?thesis using table_distinct by (simp only: distinct_map simp_thms)
qed

lemma tags_keys:
  assumes "(k, d) \<in> set TAGS"
  shows "wire_key k \<and> ascii k \<and> tag_type d \<noteq> TagUnknown"
proof -
  from assms obtain s t n where r: "(s, t, n) \<in> set tag_table" "k = lit s" "d = tag_def t n"
    by (auto simp: TAGS_def)
  with table_rows have "length s = 4" "list_all (\<lambda>c. \<not> digit7 c) s" "t \<noteq> TagUnknown"
    by (auto simp: list_all_iff)
  with r ascii_lit [of s] show ?thesis by (simp add: wire_key_def utf8_valid_ascii tag_def_def lit_def)
qed

lemma lookup_row_lit: "lookup_row (lit k) = map_option (\<lambda>(t, n). tag_def t n) (map_of tag_table k)"
proof -
  have "map_of (map (\<lambda>(k, t, n). (lit k, tag_def t n)) xs) (lit k)
      = map_option (\<lambda>(t, n). tag_def t n) (map_of xs k)" for xs
    by (induction xs) (auto simp: lit_eq_iff)
  then show ?thesis by (simp add: lookup_row_def TAGS_def)
qed

lemma lookup_row_iff: "lookup_row key = Some d \<longleftrightarrow> (key, d) \<in> set TAGS"
  using tags_distinct by (simp add: lookup_row_def)

lemma lookup_tag_unknown: "tag_type (lookup_tag key) = TagUnknown \<longleftrightarrow> key \<notin> fst ` set TAGS"
proof (cases "lookup_row key")
  case None
  then have "key \<notin> fst ` set TAGS" by (simp add: lookup_row_def map_of_eq_None_iff)
  with None show ?thesis by (simp add: lookup_tag_def UNKNOWN_TAG_def tag_def_def)
next
  case (Some d)
  then have m: "(key, d) \<in> set TAGS" by (simp add: lookup_row_iff)
  then have "tag_type d \<noteq> TagUnknown" by (simp add: tags_keys)
  with m Some show ?thesis by (force simp: lookup_tag_def)
qed

lemma raw_tag_short: "length v < 2 ^ 32 \<Longrightarrow> raw_tag key v = key @ be_bytes 4 (length v) @ v"
  by (simp add: raw_tag_def)

lemma length_raw_tag: "length (raw_tag key v) = length key + 4 + length v"
  by (simp add: raw_tag_def)

end
