(* ===== verification/Dmap_Parser.thy ===== *)
theory Dmap_Parser
  imports Dmap_Tags
begin

text \<open>
  The DMAP parser (\<open>pyatv-proto-dmap\<close>: \<open>parser.rs\<close>, \<open>error.rs\<close>). The property list
  decoder of the \<open>plist\<close> crate is the argument \<open>plist\<close>, which answers a value or the text
  of its error; the tag table is the argument \<open>L\<close>, as in \<open>parse_with\<close>.
\<close>

section \<open>Errors\<close>

datatype io_kind = TimedOut | UnexpectedEof | OtherIo

datatype dmap_error =
  DMalformed bytes
| DTypeMismatch bytes bytes nat
| DHttp bytes
| DNotSupported
| DAuthentication nat
| DInvalidCredentials bytes
| DUnknownMediaKind u64
| DUnknownPlayState u64
| DPairing bytes
| DIo io_kind bytes

text \<open>The classes of \<open>pyatv_core::Error\<close> the conversion can reach, and its catch-all.\<close>

datatype dmap_core_error =
  CoreIo io_kind bytes | CorePairing bytes | CoreNotSupported bytes | CoreAuthentication bytes
| CoreInvalidCredentials bytes | CoreInvalidResponse bytes

fun display_dmap_error :: "dmap_error \<Rightarrow> bytes" where
  "display_dmap_error (DMalformed m) = lit ''malformed DMAP payload: '' @ m"
| "display_dmap_error (DTypeMismatch k t n) =
     lit ''tag '' @ k @ lit '' declared as '' @ t @ lit '' could not be read from '' @ decimal n @ lit '' bytes''"
| "display_dmap_error (DHttp m) = lit ''bad HTTP response: '' @ m"
| "display_dmap_error DNotSupported = lit ''command not supported at this stage''"
| "display_dmap_error (DAuthentication s) = lit ''failed to login: '' @ decimal s"
| "display_dmap_error (DInvalidCredentials c) = lit ''invalid credentials: '' @ c"
| "display_dmap_error (DUnknownMediaKind k) = lit ''unknown media kind: '' @ decimal (unat k)"
| "display_dmap_error (DUnknownPlayState s) = lit ''unknown playstate: '' @ decimal (unat s)"
| "display_dmap_error (DPairing m) = lit ''DMAP pairing failed: '' @ m"
| "display_dmap_error (DIo _ m) = m"

fun core_error_of :: "dmap_error \<Rightarrow> dmap_core_error" where
  "core_error_of (DIo k m) = CoreIo k m"
| "core_error_of (DPairing m) = CorePairing m"
| "core_error_of DNotSupported = CoreNotSupported (lit ''DMAP: command not supported at this stage'')"
| "core_error_of (DAuthentication s) = CoreAuthentication (lit ''failed to login: '' @ decimal s)"
| "core_error_of (DInvalidCredentials c) = CoreInvalidCredentials c"
| "core_error_of e = CoreInvalidResponse (display_dmap_error e)"

section \<open>Values\<close>

datatype (plugins only: size) 'p dmap_value =
  Container "'p dmap_entry list"
| Uint u64
| BoolV bool
| StringV bytes
| BytesV bytes
| Bplist 'p
| NoneV
and 'p dmap_entry = Entry (entry_key: bytes) (entry_value: "'p dmap_value")

fun as_uint :: "'p dmap_value \<Rightarrow> u64 option" where
  "as_uint (Uint v) = Some v"
| "as_uint _ = None"

fun as_bool :: "'p dmap_value \<Rightarrow> bool option" where
  "as_bool (BoolV v) = Some v"
| "as_bool _ = None"

fun as_str :: "'p dmap_value \<Rightarrow> bytes option" where
  "as_str (StringV v) = Some v"
| "as_str (BytesV v) = Some v"
| "as_str _ = None"

fun as_container :: "'p dmap_value \<Rightarrow> 'p dmap_entry list option" where
  "as_container (Container es) = Some es"
| "as_container _ = None"

fun as_plist :: "'p dmap_value \<Rightarrow> 'p option" where
  "as_plist (Bplist v) = Some v"
| "as_plist _ = None"

fun value_is_none :: "'p dmap_value \<Rightarrow> bool" where
  "value_is_none NoneV = True"
| "value_is_none _ = False"

section \<open>Reading values\<close>

definition KEY_LEN :: nat where "KEY_LEN = 4"
definition LENGTH_LEN :: nat where "LENGTH_LEN = 4"
definition HEADER_LEN :: nat where "HEADER_LEN = KEY_LEN + LENGTH_LEN"
definition MAX_DEPTH :: nat where "MAX_DEPTH = 32"

definition fold_uint :: "bytes \<Rightarrow> u64" where
  "fold_uint payload = foldl (\<lambda>acc b. or (push_bit 8 acc) (ucast b)) 0 payload"

definition read_uint :: "bytes \<Rightarrow> bytes \<Rightarrow> dmap_error + u64" where
  "read_uint key payload =
     (if length payload > 8 then Err (DTypeMismatch key (lit ''uint'') (length payload))
      else Ok (fold_uint payload))"

definition hex_string :: "bytes \<Rightarrow> bytes" where
  "hex_string payload = lit ''0x'' @ hex_encode payload"

definition bad_text :: "bytes \<Rightarrow> dmap_error" where
  "bad_text key = DMalformed (lit ''tag '' @ key @ lit '' is not valid UTF-8'')"

definition bad_plist :: "bytes \<Rightarrow> bytes \<Rightarrow> dmap_error" where
  "bad_plist key m = DMalformed (lit ''tag '' @ key @ lit '' is not a decodable property list: '' @ m)"

definition read_value ::
    "(bytes \<Rightarrow> bytes + 'p) \<Rightarrow> (bytes \<Rightarrow> dmap_error + 'p dmap_entry list) \<Rightarrow> bytes \<Rightarrow> tag_type \<Rightarrow> bytes
     \<Rightarrow> dmap_error + 'p dmap_value" where
  "read_value plist nested key t payload = (case t of
     TagContainer \<Rightarrow> rbind (nested payload) (\<lambda>es. Ok (Container es))
   | TagUint \<Rightarrow> rbind (read_uint key payload) (\<lambda>v. Ok (Uint v))
   | TagBool \<Rightarrow> rbind (read_uint key payload) (\<lambda>v. Ok (BoolV (v = 1)))
   | TagString \<Rightarrow>
       if utf8_valid payload then Ok (StringV payload) else Err (bad_text key)
   | TagBytes \<Rightarrow> Ok (BytesV (hex_string payload))
   | TagBplist \<Rightarrow>
       rbind (map_err (bad_plist key) (plist payload)) (\<lambda>v. Ok (Bplist v))
   | _ \<Rightarrow> Ok NoneV)"

lemma read_value_cong [fundef_cong]:
  "plist = plist' \<Longrightarrow> key = key' \<Longrightarrow> t = t' \<Longrightarrow> payload = payload' \<Longrightarrow> nested payload' = nested' payload'
   \<Longrightarrow> read_value plist nested key t payload = read_value plist' nested' key' t' payload'"
  by (cases t') (simp_all add: read_value_def)

section \<open>The parser\<close>

text \<open>
  \<open>parse_entries\<close> is the loop of \<open>parse_level\<close> at one offset, with the entries read so far.
  The recursion of the source is bounded by \<open>MAX_DEPTH\<close> on its stack, but it ends in any case:
  a payload is shorter than the level it comes from.
\<close>

definition too_deep :: dmap_error where
  "too_deep = DMalformed (lit ''DMAP nesting deeper than '' @ decimal MAX_DEPTH @ lit '' levels'')"

definition truncated_header :: "nat \<Rightarrow> dmap_error" where
  "truncated_header offset = DMalformed (lit ''truncated header at offset '' @ decimal offset)"

definition bad_key :: "nat \<Rightarrow> dmap_error" where
  "bad_key offset = DMalformed (lit ''non-UTF-8 tag key at offset '' @ decimal offset)"

definition overrun :: "bytes \<Rightarrow> nat \<Rightarrow> nat \<Rightarrow> dmap_error" where
  "overrun key n left = DMalformed (lit ''tag '' @ key @ lit '' claims '' @ decimal n
     @ lit '' bytes but only '' @ decimal left @ lit '' remain'')"

function parse_level ::
      "(bytes \<Rightarrow> bytes + 'p) \<Rightarrow> (bytes \<Rightarrow> tag_definition) \<Rightarrow> nat \<Rightarrow> bytes \<Rightarrow> dmap_error + 'p dmap_entry list"
  and parse_entries ::
      "(bytes \<Rightarrow> bytes + 'p) \<Rightarrow> (bytes \<Rightarrow> tag_definition) \<Rightarrow> nat \<Rightarrow> bytes \<Rightarrow> nat \<Rightarrow> 'p dmap_entry list
       \<Rightarrow> dmap_error + 'p dmap_entry list" where
  "parse_level plist L depth data =
     (if depth > MAX_DEPTH then Err too_deep else parse_entries plist L depth data 0 [])"
| "parse_entries plist L depth data offset entries =
     (if offset < length data then
        rbind (ok_or (get_range data offset (offset + HEADER_LEN)) (truncated_header offset)) (\<lambda>header.
        let key = take KEY_LEN header; n = be_nat (drop KEY_LEN header); start = offset + HEADER_LEN in
        if \<not> utf8_valid key then Err (bad_key offset)
        else rbind (ok_or (get_range data start (start + n)) (overrun key n (length data - start))) (\<lambda>payload.
        rbind (read_value plist (parse_level plist L (depth + 1)) key (tag_type (L key)) payload) (\<lambda>v.
        parse_entries plist L depth data (start + n) (entries @ [Entry key v]))))
      else Ok entries)"
  by pat_completeness auto

termination
proof (relation "measures [\<lambda>x. case x of Inl (_, _, _, d) \<Rightarrow> length d | Inr (_, _, _, d, _, _) \<Rightarrow> length d,
    \<lambda>x. case x of Inl (_, _, _, d) \<Rightarrow> Suc (length d) | Inr (_, _, _, d, p, _) \<Rightarrow> length d - p]", goal_cases)
  case (3 plist L depth data offset entries header key n start payload)
  then show ?case by (auto simp: res_simps HEADER_LEN_def KEY_LEN_def LENGTH_LEN_def)
qed (auto simp: res_simps HEADER_LEN_def KEY_LEN_def LENGTH_LEN_def)

declare parse_level.simps [simp del] parse_entries.simps [simp del]

definition parse_with ::
    "(bytes \<Rightarrow> bytes + 'p) \<Rightarrow> bytes \<Rightarrow> (bytes \<Rightarrow> tag_definition) \<Rightarrow> dmap_error + 'p dmap_entry list" where
  "parse_with plist data L = parse_level plist L 0 data"

definition parse_dmap :: "(bytes \<Rightarrow> bytes + 'p) \<Rightarrow> bytes \<Rightarrow> dmap_error + 'p dmap_entry list" where
  "parse_dmap plist data = parse_with plist data lookup_tag"

section \<open>Lookups and printing\<close>

fun first :: "'p dmap_entry list \<Rightarrow> bytes list \<Rightarrow> 'p dmap_value option" where
  "first entries [] = None"
| "first entries (head # rest) =
     (case find (\<lambda>e. entry_key e = head) entries of
        None \<Rightarrow> None
      | Some e \<Rightarrow>
          if rest = [] then Some (entry_value e)
          else (case entry_value e of Container nested \<Rightarrow> first nested rest | leaf \<Rightarrow> Some leaf))"

definition first_uint :: "'p dmap_entry list \<Rightarrow> bytes list \<Rightarrow> u64 option" where
  "first_uint entries path = Option.bind (first entries path) as_uint"

definition first_bool :: "'p dmap_entry list \<Rightarrow> bytes list \<Rightarrow> bool option" where
  "first_bool entries path = Option.bind (first entries path) as_bool"

definition first_str :: "'p dmap_entry list \<Rightarrow> bytes list \<Rightarrow> bytes option" where
  "first_str entries path = Option.bind (first entries path) as_str"

text \<open>The derived debug forms of a container and of a property list are the arguments
  \<open>dbg_es\<close> and \<open>dbg_p\<close>.\<close>

fun display_value :: "('p dmap_entry list \<Rightarrow> bytes) \<Rightarrow> ('p \<Rightarrow> bytes) \<Rightarrow> 'p dmap_value \<Rightarrow> bytes" where
  "display_value dbg_es dbg_p (Container es) = dbg_es es"
| "display_value dbg_es dbg_p (Uint v) = decimal (unat v)"
| "display_value dbg_es dbg_p (BoolV b) = (if b then lit ''True'' else lit ''False'')"
| "display_value dbg_es dbg_p (StringV s) = s"
| "display_value dbg_es dbg_p (BytesV s) = s"
| "display_value dbg_es dbg_p (Bplist p) = dbg_p p"
| "display_value dbg_es dbg_p NoneV = lit ''None''"

fun pprint_level ::
    "('p dmap_value \<Rightarrow> bytes) \<Rightarrow> (bytes \<Rightarrow> tag_definition) \<Rightarrow> nat \<Rightarrow> 'p dmap_entry list \<Rightarrow> bytes" where
  "pprint_level show_v L indent [] = []"
| "pprint_level show_v L indent (Entry key (Container nested) # es) =
     replicate indent 32 @ key @ lit '': '' @ display_tag (L key) @ [10]
     @ pprint_level show_v L (indent + 2) nested @ pprint_level show_v L indent es"
| "pprint_level show_v L indent (Entry key v # es) =
     replicate indent 32 @ key @ lit '': '' @ show_v v @ lit '' '' @ display_tag (L key) @ [10]
     @ pprint_level show_v L indent es"

definition pprint ::
    "('p dmap_entry list \<Rightarrow> bytes) \<Rightarrow> ('p \<Rightarrow> bytes) \<Rightarrow> 'p dmap_entry list \<Rightarrow> (bytes \<Rightarrow> tag_definition) \<Rightarrow> bytes" where
  "pprint dbg_es dbg_p entries L = pprint_level (display_value dbg_es dbg_p) L 0 entries"

end
