(* ===== verification/Dmap_Response.thy ===== *)
theory Dmap_Response
  imports Dmap_Parser Rust_Str
begin

text \<open>
  Response heads, body framing and the incremental chunked decoder of the DAAP client
  (\<open>pyatv-proto-dmap\<close>: \<open>http/response.rs\<close>). The gzip decoder of the \<open>flate2\<close> crate is an
  argument.
\<close>

section \<open>Limits and errors\<close>

definition MAX_HEAD_LEN :: nat where "MAX_HEAD_LEN = 16 * 1024"
definition MAX_BODY_LEN :: nat where "MAX_BODY_LEN = 8 * 1024 * 1024"
definition MAX_CHUNK_FRAMING_LEN :: nat where "MAX_CHUNK_FRAMING_LEN = 1024 * 1024"
definition MAX_CHUNKED_RAW_LEN :: nat where "MAX_CHUNKED_RAW_LEN = MAX_BODY_LEN + MAX_CHUNK_FRAMING_LEN"
definition MAX_CHUNK_LINE_LEN :: nat where "MAX_CHUNK_LINE_LEN = 4 * 1024"
definition MAX_TRAILER_LEN :: nat where "MAX_TRAILER_LEN = 8 * 1024"

definition is_success :: "nat \<Rightarrow> bool" where
  "is_success status \<longleftrightarrow> 200 \<le> status \<and> status < 300"

definition body_too_large :: "nat \<Rightarrow> dmap_error" where
  "body_too_large n = DHttp (lit ''response body of at least '' @ decimal n @ lit '' bytes exceeds the ''
     @ decimal MAX_BODY_LEN @ lit ''-byte cap'')"

definition framing_too_large :: "string \<Rightarrow> nat \<Rightarrow> nat \<Rightarrow> dmap_error" where
  "framing_too_large region n cap = DHttp (lit region @ lit '' of at least '' @ decimal n @ lit '' bytes exceeds the ''
     @ decimal cap @ lit ''-byte cap'')"

text \<open>The remaining messages of the module, with the texts of its \<open>format!\<close> calls.\<close>

definition http_err :: "string \<Rightarrow> bytes \<Rightarrow> dmap_error" where
  "http_err msg arg = DHttp (lit msg @ arg)"

section \<open>Heads\<close>

record head =
  status :: nat
  headers :: "(bytes \<times> bytes) list"

datatype framing = FLength nat | FChunked | FToEof

definition header :: "head \<Rightarrow> string \<Rightarrow> bytes option" where
  "header h name = map_option snd (find (\<lambda>(candidate, _). eq_ignore_ascii_case candidate (lit name)) (headers h))"

definition head_is_success :: "head \<Rightarrow> bool" where
  "head_is_success h \<longleftrightarrow> is_success (status h)"

definition head_framing :: "head \<Rightarrow> dmap_error + framing" where
  "head_framing h =
     rbind (case header h ''Transfer-Encoding'' of
         None \<Rightarrow> Ok False
       | Some coding \<Rightarrow>
           if eq_ignore_ascii_case coding (lit ''chunked'') then Ok True
           else Err (http_err ''unsupported transfer coding: '' coding)) (\<lambda>chunked.
     case (chunked, header h ''Content-Length'') of
       (True, Some _) \<Rightarrow> Err (http_err ''response carries both Transfer-Encoding and Content-Length'' [])
     | (True, None) \<Rightarrow> Ok FChunked
     | (False, Some v) \<Rightarrow>
         map_err (\<lambda>_. http_err ''unparseable Content-Length: '' v) (ok_or (map_option FLength (parse_usize (trim v))) ())
     | (False, None) \<Rightarrow> Ok FToEof)"

definition decode_body :: "(bytes \<Rightarrow> bytes + bytes) \<Rightarrow> head \<Rightarrow> bytes \<Rightarrow> dmap_error + bytes" where
  "decode_body gunzip h body = (case header h ''Content-Encoding'' of
     None \<Rightarrow> Ok body
   | Some coding \<Rightarrow>
       if eq_ignore_ascii_case coding (lit ''identity'') then Ok body
       else if eq_ignore_ascii_case coding (lit ''gzip'')
         then map_err (\<lambda>m. http_err ''undecodable gzip body: '' m) (gunzip body)
       else Err (http_err ''unsupported content coding: '' coding))"

definition find_head_end :: "bytes \<Rightarrow> nat option" where
  "find_head_end buffer = map_option (\<lambda>start. start + 4) (find_sub crlf2 buffer)"

text \<open>\<open>split(' ')\<close> always yields a first part; the second is the code.\<close>

definition parse_status_line :: "bytes \<Rightarrow> dmap_error + nat" where
  "parse_status_line line = (let parts = split_on 32 line in
     if \<not> prefix (lit ''HTTP/'') (hd parts) then Err (http_err ''not an HTTP status line: '' line)
     else case tl parts of
       [] \<Rightarrow> Err (http_err ''status line has no code: '' line)
     | code # _ \<Rightarrow>
         ok_or (parse_radix 10 65535 code)
           (DHttp (lit ''unparseable status code in '' @ hd parts @ lit '' response: '' @ code)))"

definition parse_header_line :: "bytes \<Rightarrow> dmap_error + bytes \<times> bytes" where
  "parse_header_line line =
     rbind (ok_or (split_once 58 line) (http_err ''header line without a colon: '' line))
       (\<lambda>(name, v). Ok (trim name, trim v))"

definition parse_head :: "bytes \<Rightarrow> dmap_error + (head \<times> nat) option" where
  "parse_head buffer = (case find_head_end buffer of
     None \<Rightarrow>
       if length buffer > MAX_HEAD_LEN
       then Err (DHttp (lit ''response head exceeds '' @ decimal MAX_HEAD_LEN @ lit '' bytes'')) else Ok None
   | Some end_pos \<Rightarrow>
       if \<not> utf8_valid (take end_pos buffer) then Err (http_err ''response head is not valid UTF-8'' [])
       else (let lines = split_sub crlf (take end_pos buffer) in
         rbind (parse_status_line (hd lines)) (\<lambda>st.
         rbind (collect_results (map parse_header_line (filter (\<lambda>l. l \<noteq> []) (tl lines)))) (\<lambda>hs.
         Ok (Some (\<lparr>status = st, headers = hs\<rparr>, end_pos))))))"

section \<open>The chunked decoder\<close>

text \<open>The decoder is handed the whole chunked region each time, grown since the last call, so
  \<open>consumed\<close> is a position in it (\<open>chunked_ok\<close>); slicing past its end would panic.\<close>

record chunked =
  ck_body :: bytes
  ck_consumed :: nat

definition chunked_new :: chunked where
  "chunked_new = \<lparr>ck_body = [], ck_consumed = 0\<rparr>"

definition chunked_ok :: "chunked \<Rightarrow> bytes \<Rightarrow> bool" where
  "chunked_ok d data \<longleftrightarrow> ck_consumed d \<le> length data"

definition find_head_end_after_chunks :: "bytes \<Rightarrow> nat option" where
  "find_head_end_after_chunks data = (if prefix crlf data then Some 2 else find_head_end data)"

definition chunk_size_text :: "bytes \<Rightarrow> bytes" where
  "chunk_size_text line = trim (hd (split_on 59 line))"

function feed :: "chunked \<Rightarrow> bytes \<Rightarrow> (dmap_error + nat option) \<times> chunked" where
  "feed d data = (let offset = ck_consumed d in case find_sub crlf (drop offset data) of
     None \<Rightarrow>
       (let pending = length data - offset in
        if pending > MAX_CHUNK_LINE_LEN
        then (Err (framing_too_large ''chunk size line'' pending MAX_CHUNK_LINE_LEN), d) else (Ok None, d))
   | Some line_end \<Rightarrow>
       (let line = take line_end (drop offset data); start = offset + line_end + 2 in
        if \<not> utf8_valid line then (Err (http_err ''chunk size line is not valid UTF-8'' []), d)
        else case parse_radix 16 usize_max (chunk_size_text line) of
          None \<Rightarrow> (Err (http_err ''unparseable chunk size: '' (chunk_size_text line)), d)
        | Some n \<Rightarrow>
            if n = 0 then
              (case find_head_end_after_chunks (drop start data) of
                 None \<Rightarrow>
                   (let pending = length data - start in
                    if pending > MAX_TRAILER_LEN
                    then (Err (framing_too_large ''chunk trailer section'' pending MAX_TRAILER_LEN), d)
                    else (Ok None, d))
               | Some e \<Rightarrow> (Ok (Some (start + e)), d\<lparr>ck_consumed := start + e\<rparr>))
            else if saturating_add (length (ck_body d)) n > MAX_BODY_LEN
              then (Err (body_too_large (saturating_add (length (ck_body d)) n)), d)
            else case get_range data start (start + n) of
              None \<Rightarrow> (Ok None, d)
            | Some chunk \<Rightarrow>
                (case get_range data (start + n) (start + n + 2) of
                   None \<Rightarrow> (Ok None, d)
                 | Some separator \<Rightarrow>
                     if separator = crlf
                     then feed (d\<lparr>ck_body := ck_body d @ chunk, ck_consumed := start + n + 2\<rparr>) data
                     else (Err (http_err ''chunk is not CRLF-terminated'' []), d))))"
  by pat_completeness auto
termination
  by (relation "measure (\<lambda>(d, data). length data - ck_consumed d)") (auto simp: get_range_Some_iff)

declare feed.simps [simp del]

definition decode_chunked :: "bytes \<Rightarrow> dmap_error + (bytes \<times> nat) option" where
  "decode_chunked data = (case feed chunked_new data of
     (Err e, _) \<Rightarrow> Err e
   | (Ok None, _) \<Rightarrow> Ok None
   | (Ok (Some n), d) \<Rightarrow> Ok (Some (ck_body d, n)))"

section \<open>One chunk at a time\<close>

text \<open>\<open>chunk_done\<close>: a whole data chunk stands at the position of the decoder, and the state after
  it. \<open>last_chunk\<close>: the terminating chunk and its trailers stand there, and where they end.\<close>

definition chunk_line :: "chunked \<Rightarrow> bytes \<Rightarrow> nat \<Rightarrow> nat \<Rightarrow> bool" where
  "chunk_line d data start n \<longleftrightarrow> (\<exists>k. find_sub crlf (drop (ck_consumed d) data) = Some k
     \<and> utf8_valid (take k (drop (ck_consumed d) data))
     \<and> parse_radix 16 usize_max (chunk_size_text (take k (drop (ck_consumed d) data))) = Some n
     \<and> start = ck_consumed d + k + 2)"

definition chunk_done :: "chunked \<Rightarrow> bytes \<Rightarrow> chunked \<Rightarrow> bool" where
  "chunk_done d data d2 \<longleftrightarrow> (\<exists>start n chunk. chunk_line d data start n \<and> n \<noteq> 0
     \<and> saturating_add (length (ck_body d)) n \<le> MAX_BODY_LEN
     \<and> get_range data start (start + n) = Some chunk \<and> get_range data (start + n) (start + n + 2) = Some crlf
     \<and> d2 = d\<lparr>ck_body := ck_body d @ chunk, ck_consumed := start + n + 2\<rparr>)"

definition last_chunk :: "chunked \<Rightarrow> bytes \<Rightarrow> nat \<Rightarrow> bool" where
  "last_chunk d data e \<longleftrightarrow> (\<exists>start k. chunk_line d data start 0
     \<and> find_head_end_after_chunks (drop start data) = Some k \<and> e = start + k)"

lemma trailer_end:
  assumes "find_head_end_after_chunks s = Some k"
  shows "0 < k \<and> k \<le> length s" and "find_head_end_after_chunks (s @ q) = Some k"
proof -
  have "0 < k \<and> k \<le> length s \<and> find_head_end_after_chunks (s @ q) = Some k"
  proof (cases "prefix crlf s")
    case True
    then have "prefix crlf (s @ q)" by (rule prefix_prefix)
    with True assms show ?thesis
      by (auto simp: find_head_end_after_chunks_def crlf_def dest: prefix_length_le)
  next
    case False
    with assms obtain i where i: "find_sub crlf2 s = Some i" "k = i + 4"
      by (auto simp: find_head_end_after_chunks_def find_head_end_def)
    from find_sub_Some [OF i(1)] have l: "i + 4 \<le> length s" by (simp add: crlf2_def)
    then have "\<not> prefix crlf (s @ q)" using False prefix_append_long [of crlf s q] by (simp add: crlf_def)
    with i l find_sub_append [OF i(1), of q] show ?thesis
      by (simp add: find_head_end_after_chunks_def find_head_end_def)
  qed
  then show "0 < k \<and> k \<le> length s" "find_head_end_after_chunks (s @ q) = Some k" by blast+
qed

lemma chunk_line_bound: "chunk_line d data start n \<Longrightarrow> ck_consumed d + 2 \<le> start \<and> start \<le> length data"
  by (auto simp: chunk_line_def crlf_def dest!: find_sub_Some)

lemma chunk_done_bound:
  "chunk_done d data d2 \<Longrightarrow> ck_consumed d < ck_consumed d2 \<and> ck_consumed d2 \<le> length data"
  by (auto simp: chunk_done_def get_range_Some_iff dest!: chunk_line_bound)

lemma feed_done: "chunk_done d data d2 \<Longrightarrow> feed d data = feed d2 data"
  by (subst feed.simps) (auto simp: chunk_done_def chunk_line_def Let_def)

lemma feed_last: "last_chunk d data e \<Longrightarrow> feed d data = (Ok (Some e), d\<lparr>ck_consumed := e\<rparr>)"
  by (subst feed.simps) (auto simp: last_chunk_def chunk_line_def Let_def)

lemma feed_cases:
  obtains (step) d2 where "chunk_done d data d2" "feed d data = feed d2 data"
    | (last) e where "last_chunk d data e" "feed d data = (Ok (Some e), d\<lparr>ck_consumed := e\<rparr>)"
    | (wait) "feed d data = (Ok None, d)"
    | (bad) e where "feed d data = (Err e, d)"
proof (cases "\<exists>start n. chunk_line d data start n")
  case False
  then have "feed d data = (Ok None, d) \<or> (\<exists>e. feed d data = (Err e, d))"
    by (subst (1 2) feed.simps) (auto simp: chunk_line_def Let_def split: option.split)
  then show ?thesis using wait bad by blast
next
  case True
  then obtain start n where c: "chunk_line d data start n" by blast
  show ?thesis
  proof (cases "(\<exists>d2. chunk_done d data d2) \<or> (\<exists>e. last_chunk d data e)")
    case True
    then show ?thesis using step last feed_done feed_last by blast
  next
    case False
    with c have "feed d data = (Ok None, d) \<or> (\<exists>e. feed d data = (Err e, d))"
      by (subst (1 2) feed.simps)
        (auto simp: chunk_line_def chunk_done_def last_chunk_def Let_def split: option.split)
    then show ?thesis using wait bad by blast
  qed
qed

lemma feed_induct [consumes 1, case_names step last wait bad]:
  assumes "chunked_ok d data"
    and "\<And>d d2. chunked_ok d data \<Longrightarrow> chunk_done d data d2 \<Longrightarrow> feed d data = feed d2 data \<Longrightarrow> chunked_ok d2 data
      \<Longrightarrow> P d2 \<Longrightarrow> P d"
    and "\<And>d e. chunked_ok d data \<Longrightarrow> last_chunk d data e \<Longrightarrow> feed d data = (Ok (Some e), d\<lparr>ck_consumed := e\<rparr>) \<Longrightarrow> P d"
    and "\<And>d. chunked_ok d data \<Longrightarrow> feed d data = (Ok None, d) \<Longrightarrow> P d"
    and "\<And>d e. chunked_ok d data \<Longrightarrow> feed d data = (Err e, d) \<Longrightarrow> P d"
  shows "P d"
  using assms(1)
proof (induction "length data - ck_consumed d" arbitrary: d rule: less_induct)
  case less
  show ?case
  proof (cases rule: feed_cases [of d data])
    case (step d2)
    with chunk_done_bound [of d data d2] less show ?thesis
      by (intro assms(2) [of d d2]) (auto simp: chunked_ok_def)
  qed (use less assms in blast)+
qed

lemma chunk_line_append: "chunk_line d p start n \<Longrightarrow> chunk_line d (p @ q) start n"
proof -
  assume c: "chunk_line d p start n"
  then obtain k where k: "find_sub crlf (drop (ck_consumed d) p) = Some k"
    "utf8_valid (take k (drop (ck_consumed d) p))"
    "parse_radix 16 usize_max (chunk_size_text (take k (drop (ck_consumed d) p))) = Some n"
    "start = ck_consumed d + k + 2"
    unfolding chunk_line_def by blast
  from chunk_line_bound [OF c] have o: "drop (ck_consumed d) (p @ q) = drop (ck_consumed d) p @ q" by simp
  from find_sub_Some [OF k(1)] have "take k (drop (ck_consumed d) p @ q) = take k (drop (ck_consumed d) p)" by simp
  with k find_sub_append [OF k(1), of q] show ?thesis
    unfolding chunk_line_def o by auto
qed

lemma chunk_done_append: "chunk_done d p d2 \<Longrightarrow> chunk_done d (p @ q) d2"
  unfolding chunk_done_def using chunk_line_append get_range_append by blast

lemma last_chunk_append: "last_chunk d p e \<Longrightarrow> last_chunk d (p @ q) e"
proof -
  assume "last_chunk d p e"
  then obtain start k where c: "chunk_line d p start 0" "find_head_end_after_chunks (drop start p) = Some k" "e = start + k"
    unfolding last_chunk_def by blast
  from chunk_line_bound [OF c(1)] have o: "drop start (p @ q) = drop start p @ q" by simp
  from trailer_end(2) [OF c(2)] have "find_head_end_after_chunks (drop start p @ q) = Some k" .
  with c chunk_line_append [OF c(1)] o show ?thesis
    unfolding last_chunk_def by (intro exI [of _ start] exI [of _ k]) simp
qed

section \<open>What the decoder keeps\<close>

definition decoder_inv :: "chunked \<Rightarrow> bytes \<Rightarrow> bool" where
  "decoder_inv d data \<longleftrightarrow> ck_consumed d \<le> length data \<and> length (ck_body d) \<le> MAX_BODY_LEN
     \<and> length (ck_body d) \<le> ck_consumed d"

lemma chunk_done_inv: "chunk_done d data d2 \<Longrightarrow> decoder_inv d data \<Longrightarrow> decoder_inv d2 data"
  using chunk_done_bound [of d data d2]
  by (auto simp: chunk_done_def decoder_inv_def saturating_add_def usize_max_def MAX_BODY_LEN_def
      get_range_Some_iff dest!: chunk_line_bound)

lemma last_chunk_bound: "last_chunk d data e \<Longrightarrow> ck_consumed d < e \<and> e \<le> length data"
  unfolding last_chunk_def by (fastforce dest: chunk_line_bound trailer_end(1))

lemma feed_inv: "decoder_inv d data \<Longrightarrow> decoder_inv (snd (feed d data)) data"
proof -
  assume i: "decoder_inv d data"
  then have "chunked_ok d data" by (simp add: decoder_inv_def chunked_ok_def)
  then show ?thesis using i
  proof (induction rule: feed_induct)
    case (last d e)
    with last_chunk_bound [of d data e] show ?case by (auto simp: decoder_inv_def)
  qed (auto dest: chunk_done_inv)
qed

section \<open>Incremental decoding\<close>

lemma feed_resume:
  "chunked_ok d p \<Longrightarrow> feed d p = (Ok None, d') \<Longrightarrow> chunked_ok d' p \<and> feed d (p @ q) = feed d' (p @ q)"
proof (induction rule: feed_induct)
  case (step d d2)
  then show ?case using feed_done [OF chunk_done_append] by simp
qed auto

lemma feed_final: "chunked_ok d p \<Longrightarrow> feed d p = (Ok (Some e), d') \<Longrightarrow> feed d (p @ q) = (Ok (Some e), d')"
proof (induction rule: feed_induct)
  case (step d d2)
  then show ?case using feed_done [OF chunk_done_append] by simp
next
  case (last d k)
  then show ?case using feed_last [OF last_chunk_append] by simp
qed auto

end
