(* ===== verification/Dmap_Client.thy ===== *)
theory Dmap_Client
  imports Dmap_Response
begin

text \<open>
  The HTTP client of DAAP (\<open>pyatv-proto-dmap\<close>: \<open>http.rs\<close>): building a request, and reading a
  response off a connection. A connection is the list of what its reads return (bytes, or an I/O error);
  a read of no bytes and the end of the list are the end of the stream. The \<open>{:?}\<close> form of a string
  is the argument \<open>dbg\<close>. Deadlines and the TCP handshake are not modelled.
\<close>

section \<open>Requests\<close>

definition READ_CHUNK :: nat where "READ_CHUNK = 16 * 1024"

datatype http_method = Get | Post

fun method_str :: "http_method \<Rightarrow> bytes" where
  "method_str Get = lit ''GET''"
| "method_str Post = lit ''POST''"

record http_request =
  rq_method :: http_method
  rq_path :: bytes
  rq_headers :: "(bytes \<times> bytes) list"
  rq_body :: "bytes option"

record http_response =
  rs_status :: nat
  rs_body :: bytes

definition is_target_byte :: "u8 \<Rightarrow> bool" where
  "is_target_byte b \<longleftrightarrow> 0x21 \<le> b \<and> b \<le> 0x7E"

definition is_alphanumeric :: "u8 \<Rightarrow> bool" where
  "is_alphanumeric b \<longleftrightarrow> 48 \<le> b \<and> b \<le> 57 \<or> 65 \<le> b \<and> b \<le> 90 \<or> 97 \<le> b \<and> b \<le> 122"

definition is_token_byte :: "u8 \<Rightarrow> bool" where
  "is_token_byte b \<longleftrightarrow> is_alphanumeric b \<or> b \<in> set (lit ''!#$%&'' @ [39] @ lit ''*+-.^_`|~'')"

definition check_request_target :: "(bytes \<Rightarrow> bytes) \<Rightarrow> bytes \<Rightarrow> dmap_error + unit" where
  "check_request_target dbg path = (case find (\<lambda>b. \<not> is_target_byte b) path of
     None \<Rightarrow> Ok ()
   | Some b \<Rightarrow> Err (DHttp (lit ''request path contains 0x'' @ [hex_upper (unat b div 16), hex_upper (unat b mod 16)]
       @ lit '', which cannot appear in a request target: '' @ dbg path)))"

definition check_header :: "(bytes \<Rightarrow> bytes) \<Rightarrow> bytes \<times> bytes \<Rightarrow> dmap_error + unit" where
  "check_header dbg h = (case h of (name, v) \<Rightarrow>
     if name = [] \<or> \<not> list_all is_token_byte name then Err (http_err ''header name is not a token: '' (dbg name))
     else if list_ex (\<lambda>b. b < 0x20 \<or> b = 0x7F) v
       then Err (DHttp (lit ''header '' @ name @ lit '' carries a control byte in its value: '' @ dbg v))
     else Ok ())"

definition header_line :: "bytes \<times> bytes \<Rightarrow> bytes" where
  "header_line h = fst h @ lit '': '' @ snd h"

text \<open>The header loop of \<open>encode\<close>: check, then write.\<close>

fun encode_headers :: "(bytes \<Rightarrow> bytes) \<Rightarrow> (bytes \<times> bytes) list \<Rightarrow> bytes \<Rightarrow> dmap_error + bytes" where
  "encode_headers dbg [] out = Ok out"
| "encode_headers dbg (h # hs) out =
     rbind (check_header dbg h) (\<lambda>_. encode_headers dbg hs (out @ header_line h @ crlf))"

definition encode_request :: "(bytes \<Rightarrow> bytes) \<Rightarrow> bytes \<Rightarrow> http_request \<Rightarrow> dmap_error + bytes" where
  "encode_request dbg host rq =
     rbind (check_request_target dbg (rq_path rq)) (\<lambda>_.
     let out = method_str (rq_method rq) @ lit '' /'' @ rq_path rq @ lit '' HTTP/1.1'' @ crlf;
         out = out @ lit ''Host: '' @ host @ crlf in
     rbind (encode_headers dbg (rq_headers rq) out) (\<lambda>out.
     let out = (if rq_method rq = Post
                then out @ lit ''Content-Length: ''
                       @ decimal (case rq_body rq of None \<Rightarrow> 0 | Some b \<Rightarrow> length b) @ crlf
                else out);
         out = out @ lit ''Connection: close'' @ crlf2 in
     Ok (case rq_body rq of None \<Rightarrow> out | Some b \<Rightarrow> out @ b)))"

section \<open>Responses\<close>

type_synonym reads = "(dmap_error + bytes) list"

definition closed :: "bytes \<Rightarrow> dmap_error" where
  "closed place = DIo UnexpectedEof (lit ''connection closed '' @ place)"

definition closed_head :: dmap_error where
  "closed_head = closed (lit ''before the response head was complete'')"

definition closed_length :: "nat \<Rightarrow> nat \<Rightarrow> dmap_error" where
  "closed_length got len = closed (lit ''after '' @ decimal got @ lit '' of '' @ decimal len @ lit '' body bytes'')"

definition closed_chunked :: dmap_error where
  "closed_chunked = closed (lit ''inside a chunked body'')"

fun read_head :: "bytes \<Rightarrow> reads \<Rightarrow> dmap_error + head \<times> nat \<times> bytes \<times> reads" where
  "read_head buffer [] = rbind (parse_head buffer) (\<lambda>p. case p of
     Some (h, n) \<Rightarrow> Ok (h, n, buffer, []) | None \<Rightarrow> Err closed_head)"
| "read_head buffer (r # rs) = rbind (parse_head buffer) (\<lambda>p. case p of
     Some (h, n) \<Rightarrow> Ok (h, n, buffer, r # rs)
   | None \<Rightarrow> rbind r (\<lambda>bs. if bs = [] then Err closed_head else read_head (buffer @ bs) rs))"

fun read_length :: "nat \<Rightarrow> nat \<Rightarrow> bytes \<Rightarrow> reads \<Rightarrow> dmap_error + bytes" where
  "read_length head_len len buffer [] =
     (if length buffer - head_len < len then Err (closed_length (length buffer - head_len) len)
      else Ok (take len (drop head_len buffer)))"
| "read_length head_len len buffer (r # rs) =
     (if length buffer - head_len < len
      then rbind r (\<lambda>bs. if bs = [] then Err (closed_length (length buffer - head_len) len)
                         else read_length head_len len (buffer @ bs) rs)
      else Ok (take len (drop head_len buffer)))"

fun read_chunked :: "nat \<Rightarrow> chunked \<Rightarrow> bytes \<Rightarrow> reads \<Rightarrow> dmap_error + bytes" where
  "read_chunked head_len d buffer [] = (case feed d (drop head_len buffer) of
     (Err e, _) \<Rightarrow> Err e
   | (Ok (Some _), d') \<Rightarrow> Ok (ck_body d')
   | (Ok None, d') \<Rightarrow>
       if length buffer - head_len > MAX_CHUNKED_RAW_LEN
       then Err (framing_too_large ''chunked response'' (length buffer - head_len) MAX_CHUNKED_RAW_LEN)
       else Err closed_chunked)"
| "read_chunked head_len d buffer (r # rs) = (case feed d (drop head_len buffer) of
     (Err e, _) \<Rightarrow> Err e
   | (Ok (Some _), d') \<Rightarrow> Ok (ck_body d')
   | (Ok None, d') \<Rightarrow>
       if length buffer - head_len > MAX_CHUNKED_RAW_LEN
       then Err (framing_too_large ''chunked response'' (length buffer - head_len) MAX_CHUNKED_RAW_LEN)
       else rbind r (\<lambda>bs. if bs = [] then Err closed_chunked else read_chunked head_len d' (buffer @ bs) rs))"

fun read_to_eof :: "nat \<Rightarrow> bytes \<Rightarrow> reads \<Rightarrow> dmap_error + bytes" where
  "read_to_eof head_len buffer [] = Ok (drop head_len buffer)"
| "read_to_eof head_len buffer (r # rs) = rbind r (\<lambda>bs.
     if bs = [] then Ok (drop head_len buffer)
     else if length (buffer @ bs) - head_len > MAX_BODY_LEN
       then Err (body_too_large (length (buffer @ bs) - head_len))
     else read_to_eof head_len (buffer @ bs) rs)"

definition read_body :: "head \<Rightarrow> nat \<Rightarrow> bytes \<Rightarrow> reads \<Rightarrow> dmap_error + bytes" where
  "read_body h head_len buffer rs = rbind (head_framing h) (\<lambda>f. case f of
     FLength len \<Rightarrow>
       if len > MAX_BODY_LEN then Err (body_too_large len) else read_length head_len len buffer rs
   | FChunked \<Rightarrow> read_chunked head_len chunked_new buffer rs
   | FToEof \<Rightarrow> read_to_eof head_len buffer rs)"

definition read_response :: "(bytes \<Rightarrow> bytes + bytes) \<Rightarrow> reads \<Rightarrow> dmap_error + http_response" where
  "read_response gunzip rs = rbind (read_head [] rs) (\<lambda>(h, head_len, buffer, rest).
     rbind (read_body h head_len buffer rest) (\<lambda>body.
     rbind (decode_body gunzip h body) (\<lambda>body. Ok \<lparr>rs_status = status h, rs_body = body\<rparr>)))"

section \<open>The chunked coding round trip\<close>

definition encode_chunk :: "bytes \<Rightarrow> bytes" where
  "encode_chunk c = hex_of (length c) @ crlf @ c @ crlf"

definition encode_chunked :: "bytes list \<Rightarrow> bytes" where
  "encode_chunked cs = concat (map encode_chunk cs) @ lit ''0'' @ crlf2"

lemma hex_line:
  "13 \<notin> set (hex_of n)" "utf8_valid (hex_of n)" "chunk_size_text (hex_of n) = hex_of n"
proof -
  have h: "\<forall>b \<in> set (hex_of n). printable b \<and> b \<noteq> 59 \<and> b \<noteq> 13 \<and> b \<le> 0x7F"
    using hex_of_ok [of n] digit_ok_printable by (auto simp: list_all_iff)
  then show "13 \<notin> set (hex_of n)" by blast
  from h show "utf8_valid (hex_of n)" by (intro utf8_valid_ascii) (simp add: ascii_def)
  have "split_on 59 (hex_of n) = [hex_of n]" using h by (intro split_single) blast
  moreover have "trim (hex_of n) = hex_of n"
    using h hex_of_ok [of n] by (intro trim_id) (simp add: hd_in_set last_in_set)
  ultimately show "chunk_size_text (hex_of n) = hex_of n" by (simp add: chunk_size_text_def)
qed

lemma encode_chunk_line:
  assumes "ck_consumed d = length pre" "n \<le> usize_max"
  shows "chunk_line d (pre @ hex_of n @ crlf @ s) (length pre + length (hex_of n) + 2) n"
  using assms find_sub_skip [of crlf "hex_of n" s] hex_line [of n] parse_radix_hex [of n usize_max]
  by (auto simp: chunk_line_def crlf_def)

lemma encode_chunk_done:
  assumes "ck_consumed d = length pre" "c \<noteq> []" "length (ck_body d) + length c \<le> MAX_BODY_LEN"
  shows "chunk_done d (pre @ encode_chunk c @ s)
    (d\<lparr>ck_body := ck_body d @ c, ck_consumed := length (pre @ encode_chunk c)\<rparr>)"
proof -
  let ?a = "pre @ hex_of (length c) @ crlf" and ?n = "length c"
  let ?start = "length ?a"
  have t: "pre @ encode_chunk c @ s = ?a @ c @ crlf @ s" by (simp add: encode_chunk_def)
  have u: "?n \<le> usize_max" using assms(3) by (simp add: usize_max_def MAX_BODY_LEN_def)
  have st: "length pre + length (hex_of ?n) + 2 = ?start" by (simp add: crlf_def)
  have l: "chunk_line d (pre @ encode_chunk c @ s) ?start ?n"
    using encode_chunk_line [OF assms(1) u, of "c @ crlf @ s"] by (simp only: t st append_assoc)
  have g: "get_range (pre @ encode_chunk c @ s) ?start (?start + ?n) = Some c"
    unfolding t by (rule get_range_mid) simp
  have "get_range ((?a @ c) @ crlf @ s) (?start + ?n) (?start + ?n + length crlf) = Some crlf"
    by (rule get_range_mid) simp
  then have g2: "get_range (pre @ encode_chunk c @ s) (?start + ?n) (?start + ?n + 2) = Some crlf"
    unfolding t by (simp add: crlf_def)
  have e: "length (pre @ encode_chunk c) = ?start + ?n + 2" by (simp add: encode_chunk_def crlf_def)
  from l g g2 assms(2,3) show ?thesis
    unfolding chunk_done_def e by (intro exI [of _ ?start] exI [of _ ?n] exI [of _ c])
      (simp add: saturating_add_def del: length_append)
qed

lemma feed_chunks:
  "list_all (\<lambda>c. c \<noteq> []) cs \<Longrightarrow> ck_consumed d = length pre \<Longrightarrow> length (ck_body d) + length (concat cs) \<le> MAX_BODY_LEN
   \<Longrightarrow> feed d (pre @ encode_chunked cs @ s)
     = (Ok (Some (length pre + length (encode_chunked cs))),
        \<lparr>ck_body = ck_body d @ concat cs, ck_consumed = length pre + length (encode_chunked cs)\<rparr>)"
proof (induction cs arbitrary: d pre)
  case Nil
  have "hex_of 0 = lit ''0''" by (subst hex_of.simps) (simp add: hex_lower_def)
  then have "chunk_line d (pre @ lit ''0'' @ crlf @ crlf @ s) (length pre + 3) 0"
    using encode_chunk_line [OF Nil.prems(2), of 0 "crlf @ s"] by (simp add: eval_nat_numeral)
  moreover have "find_head_end_after_chunks (drop (length pre + 3) (pre @ lit ''0'' @ crlf @ crlf @ s)) = Some 2"
    by (simp add: find_head_end_after_chunks_def crlf_def)
  ultimately have "last_chunk d (pre @ lit ''0'' @ crlf @ crlf @ s) (length pre + 3 + 2)"
    unfolding last_chunk_def by blast
  from feed_last [OF this] show ?case by (simp add: encode_chunked_def crlf_def crlf2_def)
next
  case (Cons c cs)
  have "feed d (pre @ encode_chunk c @ encode_chunked cs @ s)
      = feed (d\<lparr>ck_body := ck_body d @ c, ck_consumed := length (pre @ encode_chunk c)\<rparr>)
          ((pre @ encode_chunk c) @ encode_chunked cs @ s)"
    using Cons.prems by (subst feed_done [OF encode_chunk_done]) auto
  also have "\<dots> = (Ok (Some (length (pre @ encode_chunk c) + length (encode_chunked cs))),
        \<lparr>ck_body = (ck_body d @ c) @ concat cs, ck_consumed = length (pre @ encode_chunk c) + length (encode_chunked cs)\<rparr>)"
    using Cons.prems by (subst Cons.IH) auto
  finally show ?case by (simp add: encode_chunked_def add.assoc)
qed

text \<open>A body cut into any non-empty chunks decodes to itself, and the decoder stops exactly at the
  end of the coding, whatever follows.\<close>

theorem chunked_roundtrip:
  assumes "list_all (\<lambda>c. c \<noteq> []) cs" "length (concat cs) \<le> MAX_BODY_LEN"
  shows "decode_chunked (encode_chunked cs @ rest) = Ok (Some (concat cs, length (encode_chunked cs)))"
  using feed_chunks [of cs chunked_new "[]" rest] assms by (simp add: decode_chunked_def chunked_new_def)

lemma chunked_roundtrip_witness:
  "decode_chunked (encode_chunked [lit ''ab'', lit ''c''] @ lit ''xyz'')
   = Ok (Some (lit ''abc'', length (encode_chunked [lit ''ab'', lit ''c''])))"
  by (subst chunked_roundtrip) (simp_all add: MAX_BODY_LEN_def)

section \<open>How a response is cut into reads does not matter\<close>

text \<open>The bytes a connection delivers before it ends or fails, and the response a complete string of
  bytes stands for.\<close>

fun delivered :: "reads \<Rightarrow> bytes" where
  "delivered [] = []"
| "delivered (Err e # rs) = []"
| "delivered (Ok bs # rs) = (if bs = [] then [] else bs @ delivered rs)"

fun body_of :: "framing \<Rightarrow> bytes \<Rightarrow> bytes option" where
  "body_of (FLength len) s = (if len \<le> MAX_BODY_LEN \<and> len \<le> length s then Some (take len s) else None)"
| "body_of FChunked s = (case decode_chunked s of Ok (Some (body, _)) \<Rightarrow> Some body | _ \<Rightarrow> None)"
| "body_of FToEof s = Some s"

definition whole_response :: "(bytes \<Rightarrow> bytes + bytes) \<Rightarrow> bytes \<Rightarrow> http_response option" where
  "whole_response gunzip data = (case parse_head data of
     Ok (Some (h, n)) \<Rightarrow> (case head_framing h of
        Ok f \<Rightarrow> (case body_of f (drop n data) of
           Some body \<Rightarrow> (case decode_body gunzip h body of
              Ok decoded \<Rightarrow> Some \<lparr>rs_status = status h, rs_body = decoded\<rparr> | Err _ \<Rightarrow> None)
         | None \<Rightarrow> None)
      | Err _ \<Rightarrow> None)
   | _ \<Rightarrow> None)"

lemma parse_head_append:
  assumes "parse_head p = Ok (Some (h, n))"
  shows "n \<le> length p \<and> parse_head (p @ q) = Ok (Some (h, n))"
proof -
  from assms obtain i where i: "find_sub crlf2 p = Some i" "n = i + 4"
    by (auto simp: parse_head_def find_head_end_def res_simps Let_def split: option.splits if_splits)
  from find_sub_Some [OF i(1)] i(2) have l: "n \<le> length p" by (simp add: crlf2_def)
  have e: "find_head_end p = Some n" "find_head_end (p @ q) = Some n"
    using i find_sub_append [OF i(1), of q] by (simp_all add: find_head_end_def)
  with assms l show ?thesis by (auto simp: parse_head_def Let_def split: if_splits)
qed

lemma read_head_spec:
  "read_head buffer rs = Ok (h, n, buffer', rs')
   \<Longrightarrow> parse_head buffer' = Ok (Some (h, n)) \<and> buffer' @ delivered rs' = buffer @ delivered rs"
proof (induction buffer rs rule: read_head.induct)
  case (2 buffer r rs)
  from 2(2) obtain x where "parse_head buffer = Ok x" by (auto simp: res_simps)
  with 2 show ?case by (cases x; cases r) (auto split: if_splits)
qed (auto simp: res_simps split: option.splits)

lemma read_length_spec:
  "read_length n len buffer rs = Ok body \<Longrightarrow> n \<le> length buffer
   \<Longrightarrow> len \<le> length (drop n (buffer @ delivered rs)) \<and> body = take len (drop n (buffer @ delivered rs))"
proof (induction n len buffer rs rule: read_length.induct)
  case (2 n len buffer r rs)
  then show ?case by (cases r) (auto split: if_splits)
qed (auto split: if_splits)

lemma read_to_eof_spec:
  "read_to_eof n buffer rs = Ok body \<Longrightarrow> body = drop n (buffer @ delivered rs)"
proof (induction n buffer rs rule: read_to_eof.induct)
  case (2 n buffer r rs)
  then show ?case by (cases r) (auto split: if_splits)
qed auto

lemma read_chunked_spec:
  "read_chunked n d buffer rs = Ok body \<Longrightarrow> n \<le> length buffer \<Longrightarrow> chunked_ok d (drop n buffer)
   \<Longrightarrow> \<exists>e d'. feed d (drop n (buffer @ delivered rs)) = (Ok (Some e), d') \<and> body = ck_body d'"
proof (induction n d buffer rs rule: read_chunked.induct)
  case (1 n d buffer)
  then show ?case by (auto split: prod.splits sum.splits option.splits if_splits)
next
  case (2 n d buffer r rs)
  let ?s = "drop n buffer"
  have a: "drop n (buffer @ delivered (r # rs)) = ?s @ delivered (r # rs)" using 2 by simp
  from 2 consider (final) e d' where "feed d ?s = (Ok (Some e), d')" "body = ck_body d'"
    | (more) d' bs where "feed d ?s = (Ok None, d')" "\<not> length buffer - n > MAX_CHUNKED_RAW_LEN" "r = Ok bs" "bs \<noteq> []"
        "read_chunked n d' (buffer @ bs) rs = Ok body"
    by (auto simp: res_simps split: prod.splits sum.splits option.splits if_splits)
  then show ?case
  proof cases
    case final
    with feed_final [OF 2(4) final(1), of "delivered (r # rs)"] show ?thesis unfolding a by blast
  next
    case more
    from feed_resume [OF 2(4) more(1)] have ok: "chunked_ok d' ?s"
      and r: "feed d (?s @ delivered (r # rs)) = feed d' (?s @ delivered (r # rs))" by blast+
    from ok have "chunked_ok d' (drop n (buffer @ bs))" by (simp add: chunked_ok_def)
    with 2(1) [OF more(1) [symmetric] refl refl more(2) more(3,4,5)] 2(3)
    have "\<exists>e d''. feed d' (drop n ((buffer @ bs) @ delivered rs)) = (Ok (Some e), d'') \<and> body = ck_body d''" by simp
    with more 2(3) show ?thesis unfolding a r by simp
  qed
qed

text \<open>C18: a response that is read successfully is the one its bytes stand for, however the network
  cut them into reads: the incremental reader refines parsing the whole string.\<close>

theorem response_fragmentation:
  assumes "read_response gunzip rs = Ok r"
  shows "whole_response gunzip (delivered rs) = Some r"
proof -
  from assms obtain h n buffer rest body decoded where
    1: "read_head [] rs = Ok (h, n, buffer, rest)" and 2: "read_body h n buffer rest = Ok body" and
    3: "decode_body gunzip h body = Ok decoded" "r = \<lparr>rs_status = status h, rs_body = decoded\<rparr>"
    by (auto simp: read_response_def res_simps)
  from read_head_spec [OF 1] have d: "delivered rs = buffer @ delivered rest"
    and p: "parse_head buffer = Ok (Some (h, n))" by simp_all
  note l = parse_head_append [OF p, of "delivered rest"]
  from 2 obtain f where f: "head_framing h = Ok f" by (auto simp: read_body_def res_simps)
  have "body_of f (drop n (delivered rs)) = Some body"
  proof (cases f)
    case (FLength len)
    with 2 f l read_length_spec [of n len buffer rest body] show ?thesis
      by (auto simp: read_body_def d split: if_splits)
  next
    case FChunked
    with 2 f have "read_chunked n chunked_new buffer rest = Ok body" by (simp add: read_body_def)
    from read_chunked_spec [OF this] l FChunked show ?thesis
      by (auto simp: d decode_chunked_def chunked_ok_def chunked_new_def)
  next
    case FToEof
    with 2 f read_to_eof_spec [of n buffer rest body] show ?thesis by (simp add: read_body_def d)
  qed
  with l f 3 show ?thesis by (simp add: whole_response_def d)
qed

lemma response_fragmentation_witness:
  "whole_response Inr (delivered [Ok (lit ''HTTP/1.1 204'' @ [13]), Ok [10, 13, 10], Ok []])
   = Some \<lparr>rs_status = 204, rs_body = []\<rparr>"
proof (rule response_fragmentation)
  show "read_response Inr [Ok (lit ''HTTP/1.1 204'' @ [13]), Ok [10, 13, 10], Ok []] = Ok \<lparr>rs_status = 204, rs_body = []\<rparr>"
    by (simp add: read_response_def parse_head_def find_head_end_def crlf2_def crlf_def MAX_HEAD_LEN_def
        split_sub.simps parse_status_line_def parse_radix_def digit_ok_def is_hexdigit_def is_digit_def hex_value_def radix_value_def
        Let_def read_body_def head_framing_def header_def decode_body_def)
qed

section \<open>Bounds\<close>

text \<open>Reads of the client are at most \<open>READ_CHUNK\<close> bytes. \<open>busy\<close> reads deliver something.\<close>

definition busy :: "reads \<Rightarrow> bool" where
  "busy rs \<longleftrightarrow> (\<forall>r \<in> set rs. \<exists>bs. r = Ok bs \<and> bs \<noteq> [] \<and> length bs \<le> READ_CHUNK)"

definition RESPONSE_LIMIT :: nat where
  "RESPONSE_LIMIT = MAX_HEAD_LEN + READ_CHUNK + MAX_CHUNKED_RAW_LEN"

lemma busy_simps [simp]:
  "busy []"
  "busy (r # rs) \<longleftrightarrow> (\<exists>bs. r = Ok bs \<and> bs \<noteq> [] \<and> length bs \<le> READ_CHUNK) \<and> busy rs"
  by (auto simp: busy_def)

lemma read_head_settles:
  "busy rs \<Longrightarrow> length buffer + length (delivered rs) > MAX_HEAD_LEN \<Longrightarrow> length buffer \<le> MAX_HEAD_LEN + READ_CHUNK
   \<Longrightarrow> (\<exists>e. \<forall>x. read_head buffer (rs @ x) = Err e)
     \<or> (\<exists>h n buffer' rs'. (\<forall>x. read_head buffer (rs @ x) = Ok (h, n, buffer', rs' @ x)) \<and> busy rs'
          \<and> n \<le> length buffer' \<and> length buffer' \<le> MAX_HEAD_LEN + READ_CHUNK
          \<and> length buffer' + length (delivered rs') = length buffer + length (delivered rs))"
proof (induction rs arbitrary: buffer)
  case Nil
  show ?case
  proof (cases "parse_head buffer")
    case (Inl e)
    then have "read_head buffer ([] @ x) = Err e" for x by (cases x) auto
    then show ?thesis by blast
  next
    case (Inr x)
    show ?thesis
    proof (cases x)
      case None
      with Inr Nil.prems show ?thesis
        by (auto simp: parse_head_def res_simps Let_def split: option.splits if_splits)
    next
      case (Some p)
      obtain h n where p: "p = (h, n)" by (cases p)
      from Inr Some p have "read_head buffer ([] @ y) = Ok (h, n, buffer, [] @ y)" for y by (cases y) auto
      moreover from Inr Some p parse_head_append [of buffer h n "[]"] have "n \<le> length buffer" by simp
      ultimately show ?thesis using Nil.prems
        by (intro disjI2 exI [of _ h] exI [of _ n] exI [of _ buffer] exI [of _ "[]"]) auto
    qed
  qed
next
  case (Cons r rs)
  from Cons.prems(1) obtain bs where r: "r = Ok bs" "bs \<noteq> []" "length bs \<le> READ_CHUNK" and b: "busy rs" by auto
  show ?case
  proof (cases "parse_head buffer")
    case (Inl e)
    then show ?thesis by auto
  next
    case (Inr x)
    show ?thesis
    proof (cases x)
      case (Some p)
      obtain h n where p: "p = (h, n)" by (cases p)
      from Inr Some p parse_head_append [of buffer h n "[]"] have "n \<le> length buffer" by simp
      with Inr Some p Cons.prems r show ?thesis
        by (intro disjI2 exI [of _ h] exI [of _ n] exI [of _ buffer] exI [of _ "r # rs"]) auto
    next
      case None
      with Inr have "length buffer \<le> MAX_HEAD_LEN"
        by (auto simp: parse_head_def res_simps Let_def split: option.splits if_splits)
      with Cons.IH [OF b, of "buffer @ bs"] Cons.prems r Inr None show ?thesis by (simp add: add.assoc)
    qed
  qed
qed

lemma read_length_settles:
  "busy rs \<Longrightarrow> len \<le> length buffer - n + length (delivered rs) \<Longrightarrow> n \<le> length buffer
   \<Longrightarrow> \<exists>r. \<forall>x. read_length n len buffer (rs @ x) = r"
proof (induction rs arbitrary: buffer)
  case Nil
  then have "read_length n len buffer ([] @ x) = Ok (take len (drop n buffer))" for x by (cases x) auto
  then show ?case by blast
next
  case (Cons r rs)
  from Cons.prems(1) obtain bs where r: "r = Ok bs" "bs \<noteq> []" and b: "busy rs" by auto
  from Cons.IH [OF b, of "buffer @ bs"] Cons.prems r
  have "\<exists>r. \<forall>x. read_length n len (buffer @ bs) (rs @ x) = r" by simp
  with r show ?case by (cases "length buffer - n < len") auto
qed

lemma read_to_eof_settles:
  "busy rs \<Longrightarrow> length buffer - n + length (delivered rs) > MAX_BODY_LEN \<Longrightarrow> n \<le> length buffer
   \<Longrightarrow> length buffer - n \<le> MAX_BODY_LEN \<Longrightarrow> \<exists>r. \<forall>x. read_to_eof n buffer (rs @ x) = r"
proof (induction rs arbitrary: buffer)
  case (Cons r rs)
  from Cons.prems(1) obtain bs where r: "r = Ok bs" "bs \<noteq> []" and b: "busy rs" by auto
  show ?case
  proof (cases "length (buffer @ bs) - n > MAX_BODY_LEN")
    case False
    with Cons.IH [OF b, of "buffer @ bs"] Cons.prems r show ?thesis by simp
  qed (use r in auto)
qed simp

lemma read_chunked_settles:
  "busy rs \<Longrightarrow> length buffer - n + length (delivered rs) > MAX_CHUNKED_RAW_LEN \<Longrightarrow> n \<le> length buffer
   \<Longrightarrow> \<exists>r. \<forall>x. read_chunked n d buffer (rs @ x) = r"
proof (induction rs arbitrary: buffer d)
  case Nil
  obtain r d' where f: "feed d (drop n buffer) = (r, d')" by (cases "feed d (drop n buffer)")
  with Nil.prems have "read_chunked n d buffer ([] @ x) = read_chunked n d buffer []" for x
    by (cases x) (auto split: sum.split option.split)
  then show ?case by blast
next
  case (Cons r rs)
  from Cons.prems(1) obtain bs where r: "r = Ok bs" "bs \<noteq> []" and b: "busy rs" by auto
  obtain q d' where f: "feed d (drop n buffer) = (q, d')" by (cases "feed d (drop n buffer)")
  from Cons.IH [OF b, of "buffer @ bs" d'] Cons.prems r
  have "\<exists>r. \<forall>x. read_chunked n d' (buffer @ bs) (rs @ x) = r" by simp
  with f r show ?case by (auto split: sum.split option.split)
qed

text \<open>A device cannot make the client read without end: once \<open>RESPONSE_LIMIT\<close> bytes have come, the
  outcome is settled and nothing that would follow is read.\<close>

theorem reading_bounded:
  assumes "busy rs" "length (delivered rs) > RESPONSE_LIMIT"
  shows "read_response gunzip (rs @ after) = read_response gunzip (rs @ other)"
proof -
  from read_head_settles [OF assms(1), of "[]"] assms(2) consider
      e where "\<And>x. read_head [] (rs @ x) = Err e"
    | h n buffer rs' where "\<And>x. read_head [] (rs @ x) = Ok (h, n, buffer, rs' @ x)" "busy rs'" "n \<le> length buffer"
        "length buffer \<le> MAX_HEAD_LEN + READ_CHUNK" "length buffer + length (delivered rs') = length (delivered rs)"
    by (auto simp: RESPONSE_LIMIT_def)
  then show ?thesis
  proof cases
    case (2 h n buffer rs')
    then have m: "length buffer - n + length (delivered rs') > MAX_CHUNKED_RAW_LEN"
      using assms(2) by (simp add: RESPONSE_LIMIT_def)
    moreover have "MAX_BODY_LEN \<le> MAX_CHUNKED_RAW_LEN" "MAX_HEAD_LEN + READ_CHUNK \<le> MAX_BODY_LEN"
      by (simp_all add: MAX_CHUNKED_RAW_LEN_def MAX_BODY_LEN_def MAX_HEAD_LEN_def READ_CHUNK_def)
    ultimately have l: "len \<le> MAX_BODY_LEN \<Longrightarrow> \<exists>r. \<forall>x. read_length n len buffer (rs' @ x) = r"
      and t: "\<exists>r. \<forall>x. read_to_eof n buffer (rs' @ x) = r"
      and c: "\<exists>r. \<forall>x. read_chunked n chunked_new buffer (rs' @ x) = r" for len
      using read_length_settles [OF 2(2), of len buffer n] read_to_eof_settles [OF 2(2), of buffer n]
        read_chunked_settles [OF 2(2) m 2(3), of chunked_new] 2 by simp_all
    have "\<exists>r. \<forall>x. read_body h n buffer (rs' @ x) = r"
    proof (cases "head_framing h")
      case (Inr f)
      then show ?thesis
      proof (cases f)
        case (FLength len)
        with Inr l [of len] show ?thesis by (cases "len \<le> MAX_BODY_LEN") (auto simp: read_body_def)
      qed (use c t in \<open>simp_all add: read_body_def\<close>)
    qed (simp add: read_body_def)
    then obtain r where "\<And>x. read_body h n buffer (rs' @ x) = r" by blast
    with 2(1) show ?thesis by (simp add: read_response_def)
  qed (simp add: read_response_def)
qed

lemma reading_bounded_witness:
  "read_response Inr (replicate 600 (Ok (replicate 16384 0)) @ [Ok [1]])
   = read_response Inr (replicate 600 (Ok (replicate 16384 0)) @ [])"
proof (rule reading_bounded)
  have "length (delivered (replicate k (Ok (replicate 16384 (0 :: u8))))) = 16384 * k" for k
    by (induction k) (auto)
  then show "RESPONSE_LIMIT < length (delivered (replicate 600 (Ok (replicate 16384 0))))"
    by (simp add: RESPONSE_LIMIT_def MAX_HEAD_LEN_def READ_CHUNK_def MAX_CHUNKED_RAW_LEN_def MAX_BODY_LEN_def
        MAX_CHUNK_FRAMING_LEN_def)
  show "busy (replicate 600 (Ok (replicate 16384 0)))"
    by (auto simp: busy_def READ_CHUNK_def)
qed

definition small :: "reads \<Rightarrow> bool" where
  "small rs \<longleftrightarrow> list_all (\<lambda>r. case r of Ok bs \<Rightarrow> length bs \<le> READ_CHUNK | Err _ \<Rightarrow> True) rs"

lemma read_head_small:
  "read_head buffer rs = Ok (h, n, buffer', rs') \<Longrightarrow> small rs \<Longrightarrow> length buffer \<le> MAX_HEAD_LEN + READ_CHUNK
   \<Longrightarrow> length buffer' \<le> MAX_HEAD_LEN + READ_CHUNK"
proof (induction buffer rs rule: read_head.induct)
  case (2 buffer r rs)
  from 2(2) obtain x where x: "parse_head buffer = Ok x" by (auto simp: res_simps)
  show ?case
  proof (cases x)
    case None
    with x have "length buffer \<le> MAX_HEAD_LEN"
      by (auto simp: parse_head_def res_simps Let_def split: option.splits if_splits)
    with 2 x None show ?thesis by (cases r) (auto simp: small_def split: if_splits)
  qed (use 2 x in auto)
qed (auto simp: res_simps split: option.splits)

lemma read_to_eof_small:
  "read_to_eof n buffer rs = Ok body \<Longrightarrow> length buffer - n \<le> MAX_BODY_LEN \<Longrightarrow> length body \<le> MAX_BODY_LEN"
proof (induction n buffer rs rule: read_to_eof.induct)
  case (2 n buffer r rs)
  then show ?case by (cases r) (auto split: if_splits)
qed auto

lemma read_body_small:
  assumes "read_body h n buffer rs = Ok body" "n \<le> length buffer" "length buffer \<le> MAX_HEAD_LEN + READ_CHUNK"
  shows "length body \<le> MAX_BODY_LEN"
proof -
  have m: "MAX_HEAD_LEN + READ_CHUNK \<le> MAX_BODY_LEN"
    by (simp add: MAX_BODY_LEN_def MAX_HEAD_LEN_def READ_CHUNK_def)
  from assms(1) obtain f where f: "head_framing h = Ok f" by (auto simp: read_body_def res_simps)
  show ?thesis
  proof (cases f)
    case (FLength len)
    with assms f read_length_spec [of n len buffer rs body] show ?thesis
      by (auto simp: read_body_def split: if_splits)
  next
    case FChunked
    with assms f have "read_chunked n chunked_new buffer rs = Ok body" by (simp add: read_body_def)
    from read_chunked_spec [OF this] assms(2) obtain e d' where
      "feed chunked_new (drop n (buffer @ delivered rs)) = (Ok (Some e), d')" "body = ck_body d'"
      by (auto simp: chunked_ok_def chunked_new_def)
    moreover have "decoder_inv chunked_new (drop n (buffer @ delivered rs))"
      by (simp add: decoder_inv_def chunked_new_def)
    note feed_inv [OF this]
    ultimately show ?thesis by (simp add: decoder_inv_def)
  next
    case FToEof
    with assms f m read_to_eof_small [of n buffer rs body] show ?thesis by (simp add: read_body_def)
  qed
qed

text \<open>Before the content coding is undone, a body that is accepted is at most \<open>MAX_BODY_LEN\<close>
  bytes long; the result is that body, or whatever the gzip decoder makes of it, which nothing bounds.\<close>

theorem body_bounded:
  assumes "read_response gunzip rs = Ok r" "small rs"
  shows "length (rs_body r) \<le> MAX_BODY_LEN
    \<or> (\<exists>raw. length raw \<le> MAX_BODY_LEN \<and> gunzip raw = Ok (rs_body r))"
proof -
  from assms obtain h n buffer rest body decoded where
    1: "read_head [] rs = Ok (h, n, buffer, rest)" and 2: "read_body h n buffer rest = Ok body" and
    3: "decode_body gunzip h body = Ok (rs_body r)"
    by (auto simp: read_response_def res_simps)
  from read_head_spec [OF 1] parse_head_append [of buffer h n "[]"] have "n \<le> length buffer" by simp
  with read_body_small [OF 2] read_head_small [OF 1 assms(2)] have "length body \<le> MAX_BODY_LEN" by simp
  with 3 show ?thesis by (auto simp: decode_body_def res_simps split: option.splits if_splits)
qed

lemma body_bounded_witness:
  "length [7::u8, 8] \<le> MAX_BODY_LEN \<or> (\<exists>raw. length raw \<le> MAX_BODY_LEN \<and> Ok raw = Ok [7::u8, 8])"
proof -
  define rs :: reads where "rs = [Ok (lit ''HTTP/1.1 200'' @ [13]), Ok [10, 13, 10, 7], Ok [8], Ok []]"
  have 1: "read_response Inr rs = Ok \<lparr>rs_status = 200, rs_body = [7, 8]\<rparr>"
    by (simp add: rs_def read_response_def parse_head_def find_head_end_def crlf2_def crlf_def MAX_HEAD_LEN_def
        split_sub.simps parse_status_line_def parse_radix_def digit_ok_def is_hexdigit_def is_digit_def hex_value_def radix_value_def
        Let_def read_body_def head_framing_def header_def decode_body_def MAX_BODY_LEN_def)
  have 2: "small rs" by (simp add: rs_def small_def READ_CHUNK_def)
  from body_bounded [OF 1 2] show ?thesis by simp
qed

section \<open>No request splitting\<close>

text \<open>The lines of a request head, before they are joined.\<close>

definition request_lines :: "bytes \<Rightarrow> http_request \<Rightarrow> bytes list" where
  "request_lines host rq =
     [method_str (rq_method rq) @ lit '' /'' @ rq_path rq @ lit '' HTTP/1.1'', lit ''Host: '' @ host]
     @ map header_line (rq_headers rq)
     @ (if rq_method rq = Post
        then [lit ''Content-Length: '' @ decimal (case rq_body rq of None \<Rightarrow> 0 | Some b \<Rightarrow> length b)] else [])
     @ [lit ''Connection: close'']"

lemma encode_headers_Ok:
  "encode_headers dbg hs out = Ok out' \<longleftrightarrow>
     list_all (\<lambda>h. check_header dbg h = Ok ()) hs \<and> out' = out @ concat (map (\<lambda>h. header_line h @ crlf) hs)"
  by (induction hs arbitrary: out) (auto simp: res_simps)

lemma join_crlf: "ws \<noteq> [] \<Longrightarrow> join crlf ws @ crlf = concat (map (\<lambda>w. w @ crlf) ws)"
proof (induction ws)
  case (Cons w ws)
  then show ?case by (cases "ws = []") (auto simp: join_Cons)
qed simp

lemma encode_request_Ok:
  assumes "encode_request dbg host rq = Ok out"
  shows "out = join crlf (request_lines host rq) @ crlf2 @ (case rq_body rq of None \<Rightarrow> [] | Some b \<Rightarrow> b)"
    and "check_request_target dbg (rq_path rq) = Ok ()"
    and "list_all (\<lambda>h. check_header dbg h = Ok ()) (rq_headers rq)"
proof -
  have c: "crlf2 = crlf @ crlf" by (simp add: crlf_def crlf2_def)
  have "request_lines host rq \<noteq> []" by (simp add: request_lines_def)
  note j = join_crlf [OF this]
  from assms show "check_request_target dbg (rq_path rq) = Ok ()"
    and "list_all (\<lambda>h. check_header dbg h = Ok ()) (rq_headers rq)"
    by (auto simp: encode_request_def res_simps encode_headers_Ok Let_def)
  from assms have "out = concat (map (\<lambda>w. w @ crlf) (request_lines host rq)) @ crlf
      @ (case rq_body rq of None \<Rightarrow> [] | Some b \<Rightarrow> b)"
    by (auto simp: encode_request_def res_simps encode_headers_Ok Let_def request_lines_def c comp_def
        simp del: lit_eval split: option.splits)
  with j show "out = join crlf (request_lines host rq) @ crlf2 @ (case rq_body rq of None \<Rightarrow> [] | Some b \<Rightarrow> b)"
    by (simp add: c flip: append_assoc)
qed

lemma request_lines_clean:
  assumes "encode_request dbg host rq = Ok out" "13 \<notin> set host"
  shows "\<forall>w \<in> set (request_lines host rq). w \<noteq> [] \<and> 13 \<notin> set w"
proof -
  note e = encode_request_Ok [OF assms(1)]
  have "list_all is_target_byte (rq_path rq)"
    using e(2) by (auto simp: check_request_target_def find_None_iff list_all_iff split: option.splits)
  then have p: "13 \<notin> set (rq_path rq)" by (auto simp: list_all_iff is_target_byte_def)
  have tb: "\<not> is_token_byte 13" by (simp add: is_token_byte_def is_alphanumeric_def)
  have h: "13 \<notin> set n \<and> 13 \<notin> set v" if "(n, v) \<in> set (rq_headers rq)" for n v
  proof -
    from e(3) that have "check_header dbg (n, v) = Ok ()" by (auto simp: list_all_iff)
    with tb show ?thesis by (auto simp: check_header_def list_all_iff list_ex_iff split: if_splits)
  qed
  have d: "13 \<notin> set (decimal n)" for n
    using decimal_digits [of n] by (auto simp: list_all_iff is_digit_def)
  have m: "13 \<notin> set (method_str x)" for x by (cases x) simp_all
  show ?thesis
    using p h d m assms(2) by (auto simp: request_lines_def header_line_def split: if_splits)
qed

text \<open>C19: a request that is encoded at all is exactly one request: its head ends where the encoder ended
  it, splits into the lines the encoder meant and no others, and the body follows; no path or header value
  can inject a line.\<close>

theorem no_request_splitting:
  assumes "encode_request dbg host rq = Ok out" "13 \<notin> set host"
  shows "\<exists>n. find_head_end out = Some n
    \<and> split_sub crlf (take (n - 4) out) = request_lines host rq
    \<and> drop n out = (case rq_body rq of None \<Rightarrow> [] | Some b \<Rightarrow> b)"
proof -
  let ?ws = "request_lines host rq" and ?body = "case rq_body rq of None \<Rightarrow> [] | Some b \<Rightarrow> b"
  note o = encode_request_Ok(1) [OF assms(1)] and c = request_lines_clean [OF assms]
  have ne: "?ws \<noteq> []" by (simp add: request_lines_def)
  have "find_head_end out = Some (length (join crlf ?ws) + 4)"
    using find_head_end_lines [OF ne c, of ?body] by (simp add: find_head_end_def o)
  moreover have "split_sub crlf (join crlf ?ws) = ?ws"
    using c ne by (intro split_sub_join) (auto simp: crlf_def)
  ultimately show ?thesis by (simp add: o crlf2_def)
qed

lemma no_request_splitting_witness:
  "let rq = \<lparr>rq_method = Get, rq_path = lit ''login?x'', rq_headers = [(lit ''A'', lit ''b'')], rq_body = None\<rparr>;
       bad = rq\<lparr>rq_path := lit ''login?x'' @ crlf @ lit ''X: 1''\<rparr>
   in (\<exists>out n. encode_request id (lit ''h'') rq = Ok out \<and> find_head_end out = Some n
         \<and> split_sub crlf (take (n - 4) out) = request_lines (lit ''h'') rq \<and> drop n out = [])
    \<and> \<not> succeeds (encode_request id (lit ''h'') bad)"
proof -
  let ?rq = "\<lparr>rq_method = Get, rq_path = lit ''login?x'', rq_headers = [(lit ''A'', lit ''b'')], rq_body = None\<rparr>"
  obtain out where o: "encode_request id (lit ''h'') ?rq = Ok out"
    by (simp add: encode_request_def check_request_target_def is_target_byte_def check_header_def is_token_byte_def
        is_alphanumeric_def)
  have "13 \<notin> set (lit ''h'')" by simp
  from no_request_splitting [OF o this] o show ?thesis
    by (auto simp: encode_request_def check_request_target_def is_target_byte_def crlf_def)
qed

end
