(* ===== verification/Dmap_Grammar.thy ===== *)
theory Dmap_Grammar
  imports Dmap_Parser
begin

text \<open>
  What the DMAP parser accepts (\<open>pyatv-proto-dmap\<close>: \<open>parser.rs\<close>), as a grammar: a level is a
  sequence of complete tags, and the table decides what the data of each one is. The parser answers
  exactly the derivations of the grammar; the round trip of the writers and the nesting bound are read
  off it.
\<close>

section \<open>The grammar\<close>

inductive tag_seq ::
      "(bytes \<Rightarrow> bytes + 'p) \<Rightarrow> (bytes \<Rightarrow> tag_definition) \<Rightarrow> nat \<Rightarrow> bytes \<Rightarrow> 'p dmap_entry list \<Rightarrow> bool"
  and tag_val :: "(bytes \<Rightarrow> bytes + 'p) \<Rightarrow> (bytes \<Rightarrow> tag_definition) \<Rightarrow> nat \<Rightarrow> tag_type \<Rightarrow> bytes \<Rightarrow> 'p dmap_value \<Rightarrow> bool"
  for plist L where
  seq_nil: "tag_seq plist L d [] []"
| seq_cons: "wire_key k \<Longrightarrow> length p < 2 ^ 32 \<Longrightarrow> tag_val plist L d (tag_type (L k)) p v
    \<Longrightarrow> tag_seq plist L d rest es \<Longrightarrow> tag_seq plist L d (raw_tag k p @ rest) (Entry k v # es)"
| val_container: "d < MAX_DEPTH \<Longrightarrow> tag_seq plist L (d + 1) p es \<Longrightarrow> tag_val plist L d TagContainer p (Container es)"
| val_uint: "length p \<le> 8 \<Longrightarrow> tag_val plist L d TagUint p (Uint (word_of_nat (be_nat p)))"
| val_bool: "length p \<le> 8 \<Longrightarrow> tag_val plist L d TagBool p (BoolV (be_nat p = 1))"
| val_string: "utf8_valid p \<Longrightarrow> tag_val plist L d TagString p (StringV p)"
| val_bytes: "tag_val plist L d TagBytes p (BytesV (hex_string p))"
| val_bplist: "plist p = Ok v \<Longrightarrow> tag_val plist L d TagBplist p (Bplist v)"
| val_ignore: "tag_val plist L d TagIgnore p NoneV"
| val_unknown: "tag_val plist L d TagUnknown p NoneV"

inductive_cases tag_seq_ConsE: "tag_seq plist L d data (e # es)"
inductive_cases tag_seq_NilE: "tag_seq plist L d data []"
inductive_simps tag_val_simps:
  "tag_val plist L d TagContainer p v" "tag_val plist L d TagUint p v" "tag_val plist L d TagBool p v"
  "tag_val plist L d TagString p v" "tag_val plist L d TagBytes p v" "tag_val plist L d TagBplist p v"
  "tag_val plist L d TagIgnore p v" "tag_val plist L d TagUnknown p v"

section \<open>Integers\<close>

lemma or_push_byte: "or (push_bit 8 acc) (ucast (b :: u8)) = 256 * acc + (ucast b :: u64)"
proof -
  have "push_bit 8 acc + (ucast b :: u64) = or (push_bit 8 acc) (ucast b)"
    by (rule disjunctive_add) (auto simp: bit_simps dest: bit_imp_le_length)
  then show ?thesis by (simp add: push_bit_eq_mult mult.commute)
qed

lemma be_nat_snoc: "be_nat (bs @ [b]) = 256 * be_nat bs + unat b"
  by (simp add: be_nat_def)

lemma fold_uint_be_nat: "fold_uint p = word_of_nat (be_nat p)"
proof (induction p rule: rev_induct)
  case Nil
  show ?case by (simp add: fold_uint_def be_nat_def)
next
  case (snoc b bs)
  have "(ucast b :: u64) = word_of_nat (unat b)" by (simp add: unsigned_ucast_eq)
  with snoc show ?case by (simp add: fold_uint_def be_nat_snoc or_push_byte)
qed

lemma be_nat_u64_bound: "length p \<le> 8 \<Longrightarrow> be_nat p < 2 ^ 64"
proof -
  assume "length p \<le> 8"
  then have "(256::nat) ^ length p \<le> 256 ^ 8" by (rule power_increasing) simp
  with be_nat_bound [of p] show ?thesis by simp
qed

lemma read_uint_Ok: "read_uint k p = Ok v \<longleftrightarrow> length p \<le> 8 \<and> v = word_of_nat (be_nat p)"
  by (auto simp: read_uint_def fold_uint_be_nat)

lemma read_bool_value: "length p \<le> 8 \<Longrightarrow> (word_of_nat (be_nat p) = (1::u64)) \<longleftrightarrow> be_nat p = 1"
proof -
  assume "length p \<le> 8"
  then have "unat (word_of_nat (be_nat p) :: u64) = be_nat p"
    using be_nat_u64_bound [of p] by (simp add: unat_of_nat)
  then show ?thesis by (metis unat_1 of_nat_1)
qed

section \<open>The parser answers the grammar\<close>

lemma read_value_Ok:
  "read_value plist nested k t p = Ok v \<longleftrightarrow> (case t of
     TagContainer \<Rightarrow> (\<exists>es. nested p = Ok es \<and> v = Container es)
   | TagUint \<Rightarrow> length p \<le> 8 \<and> v = Uint (word_of_nat (be_nat p))
   | TagBool \<Rightarrow> length p \<le> 8 \<and> v = BoolV (be_nat p = 1)
   | TagString \<Rightarrow> utf8_valid p \<and> v = StringV p
   | TagBytes \<Rightarrow> v = BytesV (hex_string p)
   | TagBplist \<Rightarrow> (\<exists>x. plist p = Ok x \<and> v = Bplist x)
   | _ \<Rightarrow> v = NoneV)"
  by (cases t) (auto simp: read_value_def res_simps read_uint_Ok read_bool_value)

lemma parse_level_Ok:
  "parse_level plist L d data = Ok es \<longleftrightarrow> d \<le> MAX_DEPTH \<and> parse_entries plist L d data 0 [] = Ok es"
  by (subst parse_level.simps) auto

lemma parse_entries_done: "parse_entries plist L d data (length data) acc = Ok acc"
  by (subst parse_entries.simps) simp

lemma raw_tag_split:
  assumes "wire_key k" "length p < 2 ^ 32"
  shows "length (raw_tag k p) = HEADER_LEN + length p"
    and "take KEY_LEN (raw_tag k p) = k"
    and "be_nat (drop KEY_LEN (take HEADER_LEN (raw_tag k p))) = length p"
    and "drop HEADER_LEN (raw_tag k p) = p"
  using assms by (simp_all add: raw_tag_def wire_key_def HEADER_LEN_def KEY_LEN_def LENGTH_LEN_def be_nat_be_bytes)

lemma parse_entries_step:
  assumes w: "wire_key k" "length p < 2 ^ 32"
    and v: "read_value plist (parse_level plist L (d + 1)) k (tag_type (L k)) p = Ok v"
  shows "parse_entries plist L d (pre @ raw_tag k p @ rest) (length pre) acc
    = parse_entries plist L d (pre @ raw_tag k p @ rest) (length (pre @ raw_tag k p)) (acc @ [Entry k v])"
proof -
  note f = raw_tag_split [OF w]
  have l: "HEADER_LEN \<le> length (raw_tag k p)" using f(1) by simp
  have h: "get_range (pre @ raw_tag k p @ rest) (length pre) (length pre + HEADER_LEN)
      = Some (take HEADER_LEN (raw_tag k p))"
    using l by (simp add: get_range_def)
  have b: "get_range (pre @ raw_tag k p @ rest) (length pre + HEADER_LEN) (length pre + HEADER_LEN + length p) = Some p"
    using f(1) f(4) by (simp add: get_range_def)
  have t: "take (min KEY_LEN HEADER_LEN) (raw_tag k p) = k"
    using f(2) by (simp add: HEADER_LEN_def min_def)
  have "length pre < length (pre @ raw_tag k p @ rest)" using f(1) by (simp add: HEADER_LEN_def KEY_LEN_def)
  moreover have "utf8_valid k" using w by (simp add: wire_key_def)
  ultimately show ?thesis
    using v f(1) by (subst parse_entries.simps) (simp add: h b t f(3) Let_def flip: add.assoc)
qed

lemma grammar_parses:
  "tag_seq plist L d data es
     \<Longrightarrow> \<forall>pre acc. parse_entries plist L d (pre @ data) (length pre) acc = Ok (acc @ es)"
  "tag_val plist L d t p v \<Longrightarrow> \<forall>k. read_value plist (parse_level plist L (d + 1)) k t p = Ok v"
proof (induction rule: tag_seq_tag_val.inducts)
  case (seq_nil d)
  show ?case by (simp add: parse_entries_done)
next
  case (seq_cons k p d v rest es)
  show ?case
  proof (intro allI)
    fix pre acc
    from seq_cons.IH(2) have v: "read_value plist (parse_level plist L (d + 1)) k (tag_type (L k)) p = Ok v" by blast
    from seq_cons.IH(4) [rule_format, of "pre @ raw_tag k p" "acc @ [Entry k v]"]
    show "parse_entries plist L d (pre @ raw_tag k p @ rest) (length pre) acc = Ok (acc @ Entry k v # es)"
      by (simp add: parse_entries_step [OF seq_cons.hyps(1,2) v])
  qed
next
  case (val_container d p es)
  from val_container.IH(2) [rule_format, of "[]" "[]"] val_container.hyps show ?case
    by (simp add: read_value_Ok parse_level_Ok)
qed (auto simp: read_value_Ok)

lemma drop_tag:
  assumes "get_range data off (off + HEADER_LEN) = Some header"
    and "get_range data (off + HEADER_LEN) (off + HEADER_LEN + be_nat (drop KEY_LEN header)) = Some p"
    and "utf8_valid (take KEY_LEN header)"
  shows "wire_key (take KEY_LEN header)" "length p < 2 ^ 32"
    "drop off data = raw_tag (take KEY_LEN header) p @ drop (off + HEADER_LEN + length p) data"
proof -
  let ?n = "be_nat (drop KEY_LEN header)"
  from assms(1) have h: "length header = HEADER_LEN" "header = take HEADER_LEN (drop off data)"
    by (auto simp: res_simps)
  from assms(2) have p: "length p = ?n" "p = take ?n (drop (off + HEADER_LEN) data)"
    by (auto simp: res_simps)
  from h(1) show "wire_key (take KEY_LEN header)"
    using assms(3) by (simp add: wire_key_def HEADER_LEN_def KEY_LEN_def LENGTH_LEN_def)
  have l4: "length (drop KEY_LEN header) = 4" using h(1) by (simp add: HEADER_LEN_def KEY_LEN_def LENGTH_LEN_def)
  then show lp: "length p < 2 ^ 32" using be_nat_bound [of "drop KEY_LEN header"] p(1) by simp
  have "be_bytes 4 (length p) = drop KEY_LEN header" using be_bytes_be_nat [of "drop KEY_LEN header"] l4 p(1) by simp
  then have "raw_tag (take KEY_LEN header) p = header @ p"
    using lp by (simp add: raw_tag_short flip: append_assoc)
  moreover have "drop off data = header @ p @ drop (off + HEADER_LEN + length p) data"
    using h(2) p by (metis append_take_drop_id drop_drop add.commute)
  ultimately show "drop off data = raw_tag (take KEY_LEN header) p @ drop (off + HEADER_LEN + length p) data"
    by simp
qed

lemma parses_grammar:
  "parse_level plist L d data = Ok es \<Longrightarrow> tag_seq plist L d data es"
  "parse_entries plist L d data off acc = Ok es' \<Longrightarrow> off \<le> length data
     \<Longrightarrow> \<exists>es. es' = acc @ es \<and> tag_seq plist L d (drop off data) es"
proof (induction plist L d data and plist L d data off acc arbitrary: es and es' rule: parse_level_parse_entries.induct)
  case (1 plist L d data)
  then show ?case by (auto simp: parse_level_Ok)
next
  case (2 plist L d data off acc)
  show ?case
  proof (cases "off < length data")
    case False
    with 2(3,4) show ?thesis by (subst (asm) parse_entries.simps) (auto intro: seq_nil)
  next
    case True
    note ih = 2
    let ?k = "\<lambda>h. take KEY_LEN h"
    from 2(3) True obtain h p v where
      h: "get_range data off (off + HEADER_LEN) = Some h" and u: "utf8_valid (?k h)" and
      p: "get_range data (off + HEADER_LEN) (off + HEADER_LEN + be_nat (drop KEY_LEN h)) = Some p" and
      v: "read_value plist (parse_level plist L (d + 1)) (?k h) (tag_type (L (?k h))) p = Ok v" and
      r: "parse_entries plist L d data (off + HEADER_LEN + be_nat (drop KEY_LEN h)) (acc @ [Entry (?k h) v]) = Ok es'"
      by (subst (asm) parse_entries.simps) (auto simp: res_simps Let_def split: if_splits)
    note dt = drop_tag [OF h p u]
    have lp: "be_nat (drop KEY_LEN h) = length p" using p by (auto simp: res_simps)
    have le: "off + HEADER_LEN + be_nat (drop KEY_LEN h) \<le> length data" using p by (auto simp: res_simps)
    have tv: "tag_val plist L d (tag_type (L (?k h))) p v"
      using v 2(1) [OF True _ refl refl refl, of h p] h p u
      by (cases "tag_type (L (?k h))") (auto simp: read_value_Ok parse_level_Ok tag_val_simps)
    from 2(2) [OF True _ refl refl refl, of h p v] h p u v r le obtain es where
      "es' = (acc @ [Entry (?k h) v]) @ es" "tag_seq plist L d (drop (off + HEADER_LEN + length p) data) es"
      by (auto simp: lp)
    with seq_cons [OF dt(1,2) tv] dt(3) show ?thesis by auto
  qed
qed

lemma parse_iff_seq: "parse_with plist data L = Ok es \<longleftrightarrow> tag_seq plist L 0 data es"
proof
  show "parse_with plist data L = Ok es \<Longrightarrow> tag_seq plist L 0 data es"
    unfolding parse_with_def by (rule parses_grammar)
next
  assume "tag_seq plist L 0 data es"
  from grammar_parses(1) [OF this, rule_format, of "[]" "[]"] show "parse_with plist data L = Ok es"
    by (simp add: parse_with_def parse_level_Ok)
qed

text \<open>C16: the parser accepts exactly the byte strings of the grammar and answers their derivation.\<close>

theorem parse_grammar: "parse_with plist data L = Ok es \<longleftrightarrow> tag_seq plist L 0 data es"
  by (rule parse_iff_seq)

section \<open>Round trip\<close>

text \<open>A tag as a caller writes it, with the writer it uses, and what is read back for it. \<open>writable\<close>
  says that the key fills its four bytes, the table agrees with the writer, the length field can hold
  the length, and containers nest at most so deep.\<close>

datatype dtag =
  TRaw bytes bytes | TCont bytes "dtag list" | TStr bytes bytes
| TU8 bytes u8 | TU16 bytes u16 | TU32 bytes u32 | TU64 bytes u64 | TBool bytes bool

fun write_tag :: "dtag \<Rightarrow> bytes" where
  "write_tag (TRaw k p) = raw_tag k p"
| "write_tag (TCont k ts) = container_tag k (concat (map write_tag ts))"
| "write_tag (TStr k s) = string_tag k s"
| "write_tag (TU8 k v) = uint8_tag k v"
| "write_tag (TU16 k v) = uint16_tag k v"
| "write_tag (TU32 k v) = uint32_tag k v"
| "write_tag (TU64 k v) = uint64_tag k v"
| "write_tag (TBool k b) = bool_tag k b"

definition write_tags :: "dtag list \<Rightarrow> bytes" where
  "write_tags ts = concat (map write_tag ts)"

fun read_back :: "(bytes \<Rightarrow> tag_definition) \<Rightarrow> dtag \<Rightarrow> 'p dmap_entry" where
  "read_back L (TRaw k p) = Entry k (if tag_type (L k) = TagBytes then BytesV (hex_string p) else NoneV)"
| "read_back L (TCont k ts) = Entry k (Container (map (read_back L) ts))"
| "read_back L (TStr k s) = Entry k (StringV s)"
| "read_back L (TU8 k v) = Entry k (Uint (ucast v))"
| "read_back L (TU16 k v) = Entry k (Uint (ucast v))"
| "read_back L (TU32 k v) = Entry k (Uint (ucast v))"
| "read_back L (TU64 k v) = Entry k (Uint v)"
| "read_back L (TBool k b) = Entry k (BoolV b)"

fun writable :: "(bytes \<Rightarrow> tag_definition) \<Rightarrow> nat \<Rightarrow> dtag \<Rightarrow> bool" where
  "writable L n (TRaw k p) \<longleftrightarrow>
     wire_key k \<and> length p < 2 ^ 32 \<and> tag_type (L k) \<in> {TagBytes, TagIgnore, TagUnknown}"
| "writable L n (TCont k ts) \<longleftrightarrow>
     wire_key k \<and> tag_type (L k) = TagContainer \<and> length (write_tags ts) < 2 ^ 32 \<and> 0 < n
     \<and> list_all (writable L (n - 1)) ts"
| "writable L n (TStr k s) \<longleftrightarrow> wire_key k \<and> length s < 2 ^ 32 \<and> utf8_valid s \<and> tag_type (L k) = TagString"
| "writable L n (TBool k b) \<longleftrightarrow> wire_key k \<and> tag_type (L k) = TagBool"
| "writable L n (TU8 k v) \<longleftrightarrow> wire_key k \<and> tag_type (L k) = TagUint"
| "writable L n (TU16 k v) \<longleftrightarrow> wire_key k \<and> tag_type (L k) = TagUint"
| "writable L n (TU32 k v) \<longleftrightarrow> wire_key k \<and> tag_type (L k) = TagUint"
| "writable L n (TU64 k v) \<longleftrightarrow> wire_key k \<and> tag_type (L k) = TagUint"

lemma uint_val:
  "length p \<le> 8 \<Longrightarrow> be_nat p = n \<Longrightarrow> tag_val plist L d TagUint p (Uint (word_of_nat n))"
  using val_uint by blast

lemma write_tag_seq:
  assumes "writable L n t" "d + n = MAX_DEPTH" "tag_seq plist L d rest es"
  shows "tag_seq plist L d (write_tag t @ rest) (read_back L t # es)"
  using assms
proof (induction t arbitrary: n d rest es)
  case (TCont k ts)
  have "list_all (writable L (n - 1)) us \<Longrightarrow> set us \<subseteq> set ts
      \<Longrightarrow> tag_seq plist L (d + 1) (write_tags us) (map (read_back L) us)" for us
  proof (induction us)
    case Nil
    then show ?case by (simp add: write_tags_def seq_nil)
  next
    case (Cons u us)
    with TCont.IH [of u "n - 1" "d + 1" "write_tags us" "map (read_back L) us"] TCont.prems(1,2)
    show ?case by (auto simp: write_tags_def)
  qed
  then have "tag_seq plist L (d + 1) (write_tags ts) (map (read_back L) ts)" using TCont.prems(1) by simp
  with TCont.prems(1,2) have "tag_val plist L d TagContainer (write_tags ts) (Container (map (read_back L) ts))"
    by (intro val_container) auto
  with TCont.prems show ?case
    using seq_cons [of k "write_tags ts" plist L d] by (simp add: container_tag_def write_tags_def)
next
  case (TU8 k v)
  then show ?case
    using seq_cons [of k "be_bytes 1 (unat v)" plist L d "Uint (ucast v)" rest es]
      uint_val [of "be_bytes 1 (unat v)" "unat v" plist L d] unat_u8_bound [of v]
    by (simp add: uint8_tag_def be_nat_be_bytes unsigned_ucast_eq)
next
  case (TU16 k v)
  then show ?case
    using seq_cons [of k "be_bytes 2 (unat v)" plist L d "Uint (ucast v)" rest es]
      uint_val [of "be_bytes 2 (unat v)" "unat v" plist L d]
    by (simp add: uint16_tag_def byte_simps)
next
  case (TU32 k v)
  then show ?case
    using seq_cons [of k "be_bytes 4 (unat v)" plist L d "Uint (ucast v)" rest es]
      uint_val [of "be_bytes 4 (unat v)" "unat v" plist L d]
    by (simp add: uint32_tag_def byte_simps)
next
  case (TU64 k v)
  then show ?case
    using seq_cons [of k "be_bytes 8 (unat v)" plist L d "Uint v" rest es]
      uint_val [of "be_bytes 8 (unat v)" "unat v" plist L d]
    by (simp add: uint64_tag_def byte_simps)
next
  case (TBool k b)
  have "be_nat (be_bytes 1 (unat (if b then 1 else 0 :: u8))) = (if b then 1 else 0)"
    by (simp add: be_nat_be_bytes)
  with TBool show ?case
    using seq_cons [of k "be_bytes 1 (unat (if b then 1 else 0 :: u8))" plist L d "BoolV b" rest es]
      val_bool [of "be_bytes 1 (unat (if b then 1 else 0 :: u8))" plist L d]
    by (cases b) (simp_all add: bool_tag_def uint8_tag_def)
qed (auto simp: string_tag_def intro!: seq_cons tag_seq_tag_val.intros)

lemma write_tags_seq:
  "list_all (writable L n) ts \<Longrightarrow> d + n = MAX_DEPTH
   \<Longrightarrow> tag_seq plist L d (write_tags ts) (map (read_back L) ts)"
  by (induction ts) (auto simp: write_tags_def seq_nil intro: write_tag_seq)

lemma parse_written:
  "list_all (writable L MAX_DEPTH) ts \<Longrightarrow> parse_with plist (write_tags ts) L = Ok (map (read_back L) ts)"
  using write_tags_seq [of L MAX_DEPTH ts 0 plist] grammar_parses(1) [of plist L 0 "write_tags ts"]
  by (fastforce simp: parse_with_def parse_level_Ok dest: spec [of _ "[]"])

text \<open>C17: what the writers build, the parser reads back: every tag in order, with the value it was
  written from, whatever width an integer was given and however containers nest (up to
  \<open>MAX_DEPTH\<close>).\<close>

theorem dmap_roundtrip:
  assumes "list_all (writable L MAX_DEPTH) ts"
  shows "parse_with plist (write_tags ts) L = Ok (map (read_back L) ts)"
  using assms by (rule parse_written)

theorem dmap_roundtrip_witness:
  "parse_with (\<lambda>_. Err []) (write_tags [TCont (lit ''cmst'') [TU32 (lit ''caps'') 4, TBool (lit ''cavc'') True, TStr (lit ''cann'') (lit ''x'')],
      TRaw (lit ''zzzz'') [1]]) lookup_tag
   = Ok [Entry (lit ''cmst'') (Container [Entry (lit ''caps'') (Uint 4), Entry (lit ''cavc'') (BoolV True),
         Entry (lit ''cann'') (StringV (lit ''x''))]), Entry (lit ''zzzz'') (NoneV :: unit dmap_value)]"
proof -
  have t: "tag_type (lookup_tag (lit ''cmst'')) = TagContainer" "tag_type (lookup_tag (lit ''caps'')) = TagUint"
    "tag_type (lookup_tag (lit ''cavc'')) = TagBool" "tag_type (lookup_tag (lit ''cann'')) = TagString"
    "tag_type (lookup_tag (lit ''zzzz'')) = TagUnknown"
    unfolding lookup_tag_def lookup_row_lit tag_table_def by (simp_all add: UNKNOWN_TAG_def tag_def_def del: lit_eval)
  have w: "wire_key (lit ''cmst'')" "wire_key (lit ''caps'')" "wire_key (lit ''cavc'')" "wire_key (lit ''cann'')"
    "wire_key (lit ''zzzz'')" by (simp_all add: wire_key_def)
  have u: "utf8_valid (lit ''x'')" by simp
  show ?thesis
    by (subst dmap_roundtrip)
      (simp_all add: t w u write_tags_def container_tag_def string_tag_def uint32_tag_def bool_tag_def uint8_tag_def
        length_raw_tag MAX_DEPTH_def length_lit del: lit_eval)
qed

section \<open>Nesting\<close>

fun level_depth :: "'p dmap_entry list \<Rightarrow> nat" where
  "level_depth [] = 0"
| "level_depth (Entry k (Container nested) # es) = max (Suc (level_depth nested)) (level_depth es)"
| "level_depth (Entry k v # es) = level_depth es"

fun nested_payload :: "bytes \<Rightarrow> nat \<Rightarrow> bytes" where
  "nested_payload k 0 = []"
| "nested_payload k (Suc n) = container_tag k (nested_payload k n)"

lemma seq_depth:
  "tag_seq plist L d data es \<Longrightarrow> d \<le> MAX_DEPTH \<Longrightarrow> d + level_depth es \<le> MAX_DEPTH"
  "tag_val plist L d t p v \<Longrightarrow> d + level_depth [Entry k v] \<le> MAX_DEPTH \<or> MAX_DEPTH < d"
proof (induction rule: tag_seq_tag_val.inducts)
  case (seq_cons k p d v rest es)
  then show ?case by (cases v) auto
qed auto

lemma raw_tag_inj:
  assumes "wire_key k" "wire_key k'" "length p < 2 ^ 32" "length p' < 2 ^ 32"
    and "raw_tag k p = raw_tag k' p' @ rest"
  shows "k = k' \<and> p = p' \<and> rest = []"
proof -
  from assms have "k @ be_bytes 4 (length p) @ p = k' @ be_bytes 4 (length p') @ p' @ rest"
    by (simp add: raw_tag_short)
  moreover have "length k = length k'" using assms(1,2) by (simp add: wire_key_def)
  ultimately have k: "k = k'" and r: "be_bytes 4 (length p) @ p = be_bytes 4 (length p') @ p' @ rest"
    by (metis append_eq_append_conv)+
  then have b: "be_bytes 4 (length p) = be_bytes 4 (length p')" and p: "p = p' @ rest"
    by (metis append_eq_append_conv length_be_bytes)+
  have "be_nat (be_bytes 4 (length p)) = be_nat (be_bytes 4 (length p'))" by (simp only: b)
  with assms(3,4) have "length p = length p'" by (simp add: be_nat_be_bytes)
  with k p show ?thesis by simp
qed

lemma container_seq:
  assumes "wire_key k" "tag_type (L k) = TagContainer" "length p < 2 ^ 32"
  shows "(\<exists>es. tag_seq plist L d (container_tag k p) es)
    \<longleftrightarrow> d < MAX_DEPTH \<and> (\<exists>es. tag_seq plist L (d + 1) p es)"
proof
  assume "\<exists>es. tag_seq plist L d (container_tag k p) es"
  then obtain es where s: "tag_seq plist L d (raw_tag k p) es" by (auto simp: container_tag_def)
  have "raw_tag k p \<noteq> []" by (simp add: raw_tag_def be_bytes_def le_bytes_numeral)
  with s obtain e es' where "es = e # es'" by (cases es) (auto elim: tag_seq_NilE)
  with s obtain k' p' v rest where "raw_tag k p = raw_tag k' p' @ rest" "wire_key k'" "length p' < 2 ^ 32"
    "tag_val plist L d (tag_type (L k')) p' v"
    by (auto elim!: tag_seq_ConsE)
  moreover from this raw_tag_inj [OF assms(1), of k' p p' rest] assms(3) have "k = k'" "p = p'" by simp_all
  ultimately show "d < MAX_DEPTH \<and> (\<exists>es. tag_seq plist L (d + 1) p es)"
    using assms(2) by (auto simp: tag_val_simps)
next
  assume "d < MAX_DEPTH \<and> (\<exists>es. tag_seq plist L (d + 1) p es)"
  then obtain es where "tag_val plist L d (tag_type (L k)) p (Container es)"
    using assms(2) by (auto simp: tag_val_simps)
  from seq_cons [OF assms(1,3) this seq_nil]
  have "tag_seq plist L d (container_tag k p) [Entry k (Container es)]" by (simp add: container_tag_def)
  then show "\<exists>es. tag_seq plist L d (container_tag k p) es" ..
qed

lemma nested_payload_seq:
  "wire_key k \<Longrightarrow> tag_type (L k) = TagContainer \<Longrightarrow> length (nested_payload k n) < 2 ^ 32
   \<Longrightarrow> (\<exists>es. tag_seq plist L d (nested_payload k n) es) \<longleftrightarrow> n = 0 \<or> d + n \<le> MAX_DEPTH"
proof (induction n arbitrary: d)
  case 0
  show ?case by (auto intro: seq_nil)
next
  case (Suc n)
  from Suc.prems(3) have l: "length (nested_payload k n) < 2 ^ 32" by (simp add: container_tag_def length_raw_tag)
  from Suc.IH [OF Suc.prems(1,2) l, of "d + 1"] container_seq [of k L, OF Suc.prems(1,2) l, of plist d]
  show ?case by auto
qed

text \<open>No result nests deeper than \<open>MAX_DEPTH\<close>, and the bound is exact: containers nested \<open>n\<close>
  deep are accepted for \<open>n \<le> MAX_DEPTH\<close> and refused beyond it.\<close>

theorem dmap_depth:
  assumes "wire_key k" "tag_type (L k) = TagContainer" "length (nested_payload k n) < 2 ^ 32"
    and "parse_with plist data L = Ok es"
  shows "level_depth es \<le> MAX_DEPTH
    \<and> (succeeds (parse_with plist (nested_payload k n) L) \<longleftrightarrow> n \<le> MAX_DEPTH)"
  using seq_depth(1) [of plist L 0 data es] nested_payload_seq [of k L n plist 0] assms
  by (auto simp: succeeds_iff parse_iff_seq)

lemma dmap_depth_witness:
  "\<not> succeeds (parse_with (\<lambda>_. Err [] :: bytes + unit) (nested_payload (lit ''mlcl'') 33) lookup_tag)"
proof -
  have t: "tag_type (lookup_tag (lit ''mlcl'')) = TagContainer"
    unfolding lookup_tag_def lookup_row_lit tag_table_def by (simp add: tag_def_def del: lit_eval)
  have w: "wire_key (lit ''mlcl'')" by (simp add: wire_key_def)
  have "length (nested_payload (lit ''mlcl'') n) = 8 * n" for n
    by (induction n) (simp_all add: container_tag_def length_raw_tag)
  then have l: "length (nested_payload (lit ''mlcl'') 33) < 2 ^ 32" by simp
  have e: "parse_with (\<lambda>_. Err [] :: bytes + unit) [] lookup_tag = Ok []"
    by (simp add: parse_iff_seq seq_nil)
  from dmap_depth [OF w t l e] show ?thesis by (simp add: MAX_DEPTH_def)
qed

end
