(* ===== verification/Dmap_Playing.thy ===== *)
theory Dmap_Playing
  imports Dmap_Grammar Playing_Model Features
begin

text \<open>
  From a \<open>playstatusupdate\<close> response to what is playing, and to the features it makes available
  (\<open>pyatv-proto-dmap\<close>: \<open>daap/convert.rs\<close>, \<open>playing.rs\<close>, \<open>facade/features.rs\<close>). SHA-256 is the
  argument \<open>sha\<close>.
\<close>

section \<open>Conversions\<close>

definition INVALID_TIME_MS :: u64 where
  "INVALID_TIME_MS = 0xFFFFFFFF"

definition media_kind :: "u64 \<Rightarrow> dmap_error + media_type" where
  "media_kind kind =
     (if kind = 1 \<or> kind = 32770 then Ok Mt_Unknown
      else if kind = 3 \<or> kind = 7 \<or> (11 \<le> kind \<and> kind \<le> 13) \<or> kind = 18 \<or> kind = 32 then Ok Mt_Video
      else if kind = 2 \<or> kind = 4 \<or> kind = 10 \<or> kind = 14 \<or> kind = 17 \<or> kind = 21 \<or> kind = 36 then Ok Mt_Music
      else if kind = 8 \<or> kind = 64 then Ok Mt_Tv
      else Err (DUnknownMediaKind kind))"

definition playstate :: "u64 option \<Rightarrow> dmap_error + device_state" where
  "playstate st = (case st of None \<Rightarrow> Ok Ds_Idle | Some s \<Rightarrow>
     if s = 0 then Ok Ds_Idle else if s = 1 then Ok Ds_Loading else if s = 2 then Ok Ds_Stopped
     else if s = 3 then Ok Ds_Paused else if s = 4 then Ok Ds_Playing
     else if s = 5 \<or> s = 6 then Ok Ds_Seeking else Err (DUnknownPlayState s))"

text \<open>The final \<open>u32::try_from\<close> keeps the value: see \<open>ms_to_s_fits\<close>.\<close>

definition ms_to_s :: "u64 option \<Rightarrow> u32" where
  "ms_to_s time = (case time of None \<Rightarrow> 0 | Some t \<Rightarrow>
     if t \<ge> INVALID_TIME_MS then 0
     else let seconds = t div 1000; remainder = t mod 1000;
              round_up = (if remainder < 500 then False else if remainder > 500 then True else seconds mod 2 = 1);
              rounded = seconds + (if round_up then 1 else 0)
          in if unat rounded < 2 ^ 32 then ucast rounded else - 1)"

section \<open>The snapshot\<close>

definition status_path :: "string \<Rightarrow> bytes list" where
  "status_path key = [lit ''cmst'', lit key]"

definition dmap_media_type :: "'p dmap_entry list \<Rightarrow> bytes option \<Rightarrow> bytes option \<Rightarrow> dmap_error + media_type" where
  "dmap_media_type playstatus artist album =
     (if (case first_uint playstatus (status_path ''caps'') of None \<Rightarrow> 0 | Some v \<Rightarrow> v) = 0 then Ok Mt_Unknown
      else case first_uint playstatus (status_path ''cmmk'') of
        Some kind \<Rightarrow> media_kind kind
      | None \<Rightarrow>
          let has_text = (\<lambda>v. case v of None \<Rightarrow> False | Some s \<Rightarrow> s \<noteq> []) in
          Ok (if has_text artist \<or> has_text album then Mt_Music else Mt_Video))"

definition dmap_position :: "u32 \<Rightarrow> u32 \<Rightarrow> u32 option" where
  "dmap_position tt remaining =
     (if tt = 0 \<or> remaining = 0 then None else Some (if remaining \<le> tt then tt - remaining else 0))"

definition dmap_shuffle :: "u64 option \<Rightarrow> shuffle_state" where
  "dmap_shuffle st = (if st = None \<or> st = Some 0 then Sh_Off else Sh_Songs)"

definition dmap_repeat :: "u64 option \<Rightarrow> dmap_error + repeat_state" where
  "dmap_repeat st = (case st of None \<Rightarrow> Ok Rp_Off | Some s \<Rightarrow>
     if s = 0 then Ok Rp_Off else if s = 1 then Ok Rp_Track else if s = 2 then Ok Rp_All
     else Err (DMalformed (lit ''unknown repeat state: '' @ decimal (unat s))))"

definition content_hash :: "(bytes \<Rightarrow> bytes) \<Rightarrow> playing \<Rightarrow> bytes" where
  "content_hash sha p = (let optional = (\<lambda>v. case v of None \<Rightarrow> lit ''None'' | Some s \<Rightarrow> s) in
     hex_encode (sha (optional (pl_title p) @ optional (pl_artist p) @ optional (pl_album p)
       @ decimal (case pl_total_time p of None \<Rightarrow> 0 | Some t \<Rightarrow> unat t))))"

definition build_playing_instance ::
    "(bytes \<Rightarrow> bytes) \<Rightarrow> 'p dmap_entry list \<Rightarrow> dmap_error + playing" where
  "build_playing_instance sha playstatus =
     (let title = first_str playstatus (status_path ''cann'');
          artist = first_str playstatus (status_path ''cana'');
          album = first_str playstatus (status_path ''canl'');
          genre = first_str playstatus (status_path ''cang'');
          tt = ms_to_s (first_uint playstatus (status_path ''cast''));
          remaining = ms_to_s (first_uint playstatus (status_path ''cant''))
      in rbind (dmap_media_type playstatus artist album) (\<lambda>mt.
         rbind (playstate (first_uint playstatus (status_path ''caps''))) (\<lambda>ds.
         rbind (dmap_repeat (first_uint playstatus (status_path ''carp''))) (\<lambda>rp.
         let p = playing_default\<lparr>pl_media_type := mt, pl_device_state := ds, pl_title := title, pl_artist := artist,
                   pl_album := album, pl_genre := genre, pl_total_time := Some tt,
                   pl_position := dmap_position tt remaining,
                   pl_shuffle := Some (dmap_shuffle (first_uint playstatus (status_path ''cash''))),
                   pl_repeat := Some rp\<rparr>
         in Ok (p\<lparr>pl_hash := Some (content_hash sha p)\<rparr>)))))"

section \<open>Features\<close>

definition DMAP_AVAILABLE_FEATURES :: "feature_name list" where
  "DMAP_AVAILABLE_FEATURES = [Fn_Down, Fn_Left, Fn_Menu, Fn_Right, Fn_Select, Fn_TopMenu, Fn_Up]"

definition DMAP_UNKNOWN_FEATURES :: "feature_name list" where
  "DMAP_UNKNOWN_FEATURES = [Fn_Artwork, Fn_Next, Fn_Pause, Fn_Play, Fn_PlayPause, Fn_Previous, Fn_SetPosition, Fn_SetRepeat, Fn_SetShuffle,
     Fn_Stop, Fn_SkipForward, Fn_SkipBackward]"

definition FIELD_FEATURES :: "(feature_name \<times> bytes list) list" where
  "FIELD_FEATURES = [
     (Fn_Title, status_path ''caps''), (Fn_Artist, status_path ''cana''), (Fn_Album, status_path ''canl''),
     (Fn_Genre, status_path ''cang''), (Fn_TotalTime, status_path ''cast''), (Fn_Position, status_path ''cant''),
     (Fn_Shuffle, status_path ''cash''), (Fn_Repeat, status_path ''carp'')]"

definition VOLUME_FIELD :: "bytes list" where
  "VOLUME_FIELD = status_path ''cavc''"

definition dmap_is_available :: "'p dmap_entry list option \<Rightarrow> bytes list \<Rightarrow> bool option \<Rightarrow> feature_state" where
  "dmap_is_available playstatus path expected = (case playstatus of None \<Rightarrow> Unavailable | Some ps \<Rightarrow>
     (case first ps path of None \<Rightarrow> Unavailable | Some v \<Rightarrow>
        if value_is_none v then Unavailable
        else case expected of None \<Rightarrow> Available
        | Some e \<Rightarrow> if as_bool v = Some e then Available else Unavailable))"

definition dmap_get_feature :: "'p dmap_entry list option \<Rightarrow> feature_name \<Rightarrow> feature_info" where
  "dmap_get_feature playstatus f =
     (if f \<in> set DMAP_AVAILABLE_FEATURES then info_available
      else if f \<in> set DMAP_UNKNOWN_FEATURES then \<lparr>fi_state = Unknown, fi_reason = None\<rparr>
      else case map_of FIELD_FEATURES f of
        Some path \<Rightarrow> \<lparr>fi_state = dmap_is_available playstatus path None, fi_reason = None\<rparr>
      | None \<Rightarrow>
          if f = Fn_VolumeUp \<or> f = Fn_VolumeDown
          then \<lparr>fi_state = dmap_is_available playstatus VOLUME_FIELD (Some True), fi_reason = None\<rparr>
          else info_unsupported)"

definition dmap_all_features :: "'p dmap_entry list option \<Rightarrow> bool \<Rightarrow> (feature_name \<times> feature_info) list" where
  "dmap_all_features playstatus include_unsupported =
     filter (\<lambda>(_, i). include_unsupported \<or> fi_state i \<noteq> Unsupported)
       (map (\<lambda>f. (f, dmap_get_feature playstatus f)) FEATURE_ALL)"

section \<open>Milliseconds to seconds\<close>

definition even_round :: "nat \<Rightarrow> nat \<Rightarrow> bool" where
  "even_round t s \<longleftrightarrow> \<bar>1000 * int s - int t\<bar> \<le> 500 \<and> (\<bar>1000 * int s - int t\<bar> = 500 \<longrightarrow> even s)"

lemma even_round_unique: "even_round t s \<Longrightarrow> even_round t s' \<Longrightarrow> s = s'"
proof -
  assume a: "even_round t s" "even_round t s'"
  then have "\<bar>int s - int s'\<bar> \<le> 1" by (auto simp: even_round_def)
  then consider "s = s'" | "s = Suc s'" | "s' = Suc s" by linarith
  then show ?thesis
  proof cases
    case 2
    with a have "1000 * int s' - int t = - 500" by (auto simp: even_round_def)
    with a 2 show ?thesis by (auto simp: even_round_def)
  next
    case 3
    with a have "1000 * int s - int t = - 500" by (auto simp: even_round_def)
    with a 3 show ?thesis by (auto simp: even_round_def)
  qed simp
qed

lemma ms_to_s_some:
  assumes "t < INVALID_TIME_MS"
  shows "unat (ms_to_s (Some t)) =
    (let s = unat t div 1000; r = unat t mod 1000 in if r > 500 \<or> r = 500 \<and> odd s then s + 1 else s)"
proof -
  let ?s = "t div 1000" and ?r = "t mod 1000"
  have s: "unat ?s = unat t div 1000" and r: "unat ?r = unat t mod 1000" by (simp_all add: unat_div unat_mod)
  have t: "unat t < 2 ^ 32" using assms by (simp add: INVALID_TIME_MS_def word_less_nat_alt)
  then have sb: "unat ?s \<le> 4294967" by (simp add: s)
  let ?up = "if ?r < 500 then False else if ?r > 500 then True else ?s mod 2 = 1"
  have odd: "?s mod 2 = 1 \<longleftrightarrow> odd (unat ?s)"
    by (simp add: word_unat_eq_iff unat_mod odd_iff_mod_2_eq_one)
  have up: "?up \<longleftrightarrow> unat t mod 1000 > 500 \<or> unat t mod 1000 = 500 \<and> odd (unat t div 1000)"
    using odd by (auto simp: word_less_nat_alt r s)
  have a: "unat (?s + (if ?up then 1 else 0)) = unat ?s + (if ?up then 1 else 0)"
    using sb by (simp add: unat_word_ariths)
  have "ms_to_s (Some t) = (if unat (?s + (if ?up then 1 else 0)) < 2 ^ 32 then ucast (?s + (if ?up then 1 else 0)) else - 1)"
    using assms unfolding ms_to_s_def Let_def by (simp only: option.case not_le [symmetric] if_False)
  moreover have "unat (?s + (if ?up then 1 else 0)) < 2 ^ 32" using a sb by simp
  ultimately have "ms_to_s (Some t) = ucast (?s + (if ?up then 1 else 0))" by simp
  then have "unat (ms_to_s (Some t)) = unat ?s + (if ?up then 1 else 0)"
    using a sb by (simp add: unsigned_ucast_eq unsigned_take_bit_eq take_bit_eq_mod)
  then show ?thesis using up s by (simp add: Let_def)
qed

text \<open>A time below the sentinel becomes the number of seconds nearest to it, and of two equally near
  ones the even one, as Python's \<open>round\<close> does; it always fits.\<close>

theorem ms_to_s_rounds:
  assumes "t < INVALID_TIME_MS"
  shows "even_round (unat t) s \<longleftrightarrow> s = unat (ms_to_s (Some t))"
proof -
  let ?t = "unat t"
  have "even_round ?t (let s = ?t div 1000; r = ?t mod 1000 in if r > 500 \<or> r = 500 \<and> odd s then s + 1 else s)"
  proof -
    have "int ?t = 1000 * int (?t div 1000) + int (?t mod 1000)"
      by (metis mult_div_mod_eq of_nat_add of_nat_mult of_nat_numeral)
    moreover have "?t mod 1000 < 1000" by simp
    ultimately show ?thesis by (auto simp: even_round_def Let_def)
  qed
  then have "even_round ?t (unat (ms_to_s (Some t)))" by (simp only: ms_to_s_some [OF assms])
  then show ?thesis using even_round_unique by blast
qed

lemma ms_to_s_rounds_witness: "even_round 2500 s \<longleftrightarrow> s = unat (ms_to_s (Some 2500))"
  using ms_to_s_rounds [of 2500 s] by (simp add: INVALID_TIME_MS_def)

section \<open>From a status payload to the snapshot\<close>

text \<open>A playing song as a device reports it.\<close>

definition song_status :: "u32 \<Rightarrow> bytes \<Rightarrow> bytes \<Rightarrow> u32 \<Rightarrow> u32 \<Rightarrow> bool \<Rightarrow> dtag list" where
  "song_status caps name artist duration left shuffled = [TCont (lit ''cmst'')
     [TU32 (lit ''caps'') caps, TStr (lit ''cann'') name, TStr (lit ''cana'') artist,
      TU32 (lit ''cast'') duration, TU32 (lit ''cant'') left, TU8 (lit ''cash'') (if shuffled then 1 else 0)]]"


lemma song_tags:
  "tag_type (lookup_tag (lit ''cmst'')) = TagContainer" "tag_type (lookup_tag (lit ''caps'')) = TagUint"
  "tag_type (lookup_tag (lit ''cann'')) = TagString" "tag_type (lookup_tag (lit ''cana'')) = TagString"
  "tag_type (lookup_tag (lit ''cast'')) = TagUint" "tag_type (lookup_tag (lit ''cant'')) = TagUint"
  "tag_type (lookup_tag (lit ''cash'')) = TagUint"
  unfolding lookup_tag_def lookup_row_lit tag_table_def by (simp_all add: tag_def_def del: lit_eval)

lemma song_keys:
  "wire_key (lit ''cmst'')" "wire_key (lit ''caps'')" "wire_key (lit ''cann'')" "wire_key (lit ''cana'')"
  "wire_key (lit ''cast'')" "wire_key (lit ''cant'')" "wire_key (lit ''cash'')"
  by (simp_all add: wire_key_def)

lemma song_parses:
  assumes "utf8_valid name" "utf8_valid artist" "length name + length artist < 2 ^ 31"
  shows "parse_dmap plist (write_tags (song_status caps name artist duration left shuffled))
    = Ok [Entry (lit ''cmst'') (Container
        [Entry (lit ''caps'') (Uint (ucast caps)), Entry (lit ''cann'') (StringV name),
         Entry (lit ''cana'') (StringV artist), Entry (lit ''cast'') (Uint (ucast duration)),
         Entry (lit ''cant'') (Uint (ucast left)), Entry (lit ''cash'') (Uint (if shuffled then 1 else 0))])]"
proof -
  have "list_all (writable lookup_tag MAX_DEPTH) (song_status caps name artist duration left shuffled)"
    using assms by (simp add: song_status_def song_tags song_keys write_tags_def uint32_tag_def uint8_tag_def
        string_tag_def length_raw_tag MAX_DEPTH_def length_lit del: lit_eval)
  from parse_written [OF this, of plist] show ?thesis
    by (simp add: parse_dmap_def song_status_def del: lit_eval)
qed

text \<open>The snapshot of a playing song is what the device reported: its text fields as written, the
  play state by its number, the duration and position in seconds, the position as what is left taken from
  the duration, and the hash over exactly these fields.\<close>

theorem song_snapshot:
  assumes "utf8_valid name" "utf8_valid artist" "length name + length artist < 2 ^ 31"
    and "artist \<noteq> []" "1 \<le> caps" "playstate (Some (ucast caps)) = Ok ds"
  shows "rbind (parse_dmap plist (write_tags (song_status caps name artist duration left shuffled)))
      (build_playing_instance sha)
    = Ok (let d = ms_to_s (Some (ucast duration)); l = ms_to_s (Some (ucast left)) in
        playing_default\<lparr>pl_media_type := Mt_Music, pl_device_state := ds, pl_title := Some name, pl_artist := Some artist,
          pl_total_time := Some d, pl_position := (if d = 0 \<or> l = 0 then None else Some (if l \<le> d then d - l else 0)),
          pl_shuffle := Some (if shuffled then Sh_Songs else Sh_Off), pl_repeat := Some Rp_Off,
          pl_hash := Some (hex_encode (sha (name @ artist @ lit ''None'' @ decimal (unat d))))\<rparr>)"
proof -
  have c: "(ucast caps :: u64) \<noteq> 0"
    using assms(5) unat_u32_bound [of caps]
    by (auto simp: word_le_nat_alt word_unat_eq_iff unsigned_ucast_eq unsigned_take_bit_eq take_bit_eq_mod)
  show ?thesis
    by (simp add: song_parses [OF assms(1-3)] build_playing_instance_def dmap_media_type_def status_path_def
        first_uint_def first_str_def c assms(4,6) dmap_shuffle_def dmap_repeat_def dmap_position_def content_hash_def
        playing_default_def lit_eq_iff Let_def del: lit_eval)
qed

lemma song_snapshot_witness:
  "rbind (parse_dmap (\<lambda>_. Err [] :: bytes + unit) (write_tags (song_status 4 (lit ''t'') (lit ''a'') 200000 150000 True)))
      (build_playing_instance id)
   = Ok (let d = ms_to_s (Some (ucast (200000 :: u32))); l = ms_to_s (Some (ucast (150000 :: u32))) in
        playing_default\<lparr>pl_media_type := Mt_Music, pl_device_state := Ds_Playing, pl_title := Some (lit ''t''),
          pl_artist := Some (lit ''a''), pl_total_time := Some d,
          pl_position := (if d = 0 \<or> l = 0 then None else Some (if l \<le> d then d - l else 0)),
          pl_shuffle := Some Sh_Songs, pl_repeat := Some Rp_Off,
          pl_hash := Some (hex_encode (lit ''t'' @ lit ''a'' @ lit ''None'' @ decimal (unat d)))\<rparr>)"
  by (subst song_snapshot [where ds = Ds_Playing]) (simp_all add: playstate_def)

section \<open>Features follow the response\<close>

lemma dmap_groups_disjoint:
  "set DMAP_AVAILABLE_FEATURES \<inter> set DMAP_UNKNOWN_FEATURES = {}"
  "(set DMAP_AVAILABLE_FEATURES \<union> set DMAP_UNKNOWN_FEATURES) \<inter> fst ` set FIELD_FEATURES = {}"
  by (simp_all add: DMAP_AVAILABLE_FEATURES_def DMAP_UNKNOWN_FEATURES_def FIELD_FEATURES_def)

lemma field_features_distinct: "distinct (map fst FIELD_FEATURES)"
  by (simp add: FIELD_FEATURES_def)

text \<open>Which features depend on the device: a feature of a field is available exactly when the field
  has a value in the last response, the volume buttons exactly when \<open>cavc\<close> is true there, and every
  other feature answers the same whatever the device said.\<close>

theorem dmap_features_follow:
  "((f, path) \<in> set FIELD_FEATURES \<longrightarrow> fi_state (dmap_get_feature ps f) =
      (if \<exists>es v. ps = Some es \<and> first es path = Some v \<and> v \<noteq> NoneV then Available else Unavailable))
   \<and> (f \<in> {Fn_VolumeUp, Fn_VolumeDown} \<longrightarrow> fi_state (dmap_get_feature ps f) =
      (if \<exists>es. ps = Some es \<and> first_bool es VOLUME_FIELD = Some True then Available else Unavailable))
   \<and> (f \<notin> fst ` set FIELD_FEATURES \<union> {Fn_VolumeUp, Fn_VolumeDown} \<longrightarrow> dmap_get_feature ps f = dmap_get_feature None f)"
proof (intro conjI impI)
  have v: "value_is_none v \<longleftrightarrow> v = NoneV" for v :: "'a dmap_value" by (cases v) auto
  assume p: "(f, path) \<in> set FIELD_FEATURES"
  then have "map_of FIELD_FEATURES f = Some path" by (rule map_of_is_SomeI [OF field_features_distinct])
  moreover have "f \<notin> set DMAP_AVAILABLE_FEATURES" "f \<notin> set DMAP_UNKNOWN_FEATURES"
    using p dmap_groups_disjoint(2) imageI [OF p, of fst] by auto
  ultimately show "fi_state (dmap_get_feature ps f) =
      (if \<exists>es v. ps = Some es \<and> first es path = Some v \<and> v \<noteq> NoneV then Available else Unavailable)"
    by (auto simp: dmap_get_feature_def dmap_is_available_def v split: option.split)
next
  have n: "as_bool v \<noteq> None \<Longrightarrow> \<not> value_is_none v" for v :: "'a dmap_value" by (cases v) auto
  assume f: "f \<in> {Fn_VolumeUp, Fn_VolumeDown}"
  then have m: "map_of FIELD_FEATURES f = None" "f \<notin> set DMAP_AVAILABLE_FEATURES" "f \<notin> set DMAP_UNKNOWN_FEATURES"
    by (auto simp: FIELD_FEATURES_def DMAP_AVAILABLE_FEATURES_def DMAP_UNKNOWN_FEATURES_def)
  have g: "dmap_get_feature ps f = \<lparr>fi_state = dmap_is_available ps VOLUME_FIELD (Some True), fi_reason = None\<rparr>"
    using f by (auto simp: dmap_get_feature_def m)
  show "fi_state (dmap_get_feature ps f) =
      (if \<exists>es. ps = Some es \<and> first_bool es VOLUME_FIELD = Some True then Available else Unavailable)"
  proof (cases ps)
    case (Some es)
    show ?thesis
    proof (cases "first es VOLUME_FIELD")
      case v: (Some v)
      with g Some n [of v] show ?thesis by (auto simp: dmap_is_available_def first_bool_def)
    qed (use g Some in \<open>simp add: dmap_is_available_def first_bool_def\<close>)
  qed (use g in \<open>simp add: dmap_is_available_def\<close>)
next
  assume a: "f \<notin> fst ` set FIELD_FEATURES \<union> {Fn_VolumeUp, Fn_VolumeDown}"
  then have "map_of FIELD_FEATURES f = None" by (auto simp: map_of_eq_None_iff)
  with a show "dmap_get_feature ps f = dmap_get_feature None f" by (simp add: dmap_get_feature_def)
qed

lemma dmap_features_follow_witness:
  "fi_state (dmap_get_feature (Some [Entry (lit ''cmst'') (Container [Entry (lit ''caps'') (Uint 4)])]) Fn_Title) = Available
   \<and> fi_state (dmap_get_feature (Some [Entry (lit ''cmst'') (Container [Entry (lit ''caps'') (Uint 4)])]) Fn_VolumeUp) = Unavailable"
  using dmap_features_follow [of Fn_Title "status_path ''caps''" "Some [Entry (lit ''cmst'') (Container [Entry (lit ''caps'') (Uint 4)])]"]
    dmap_features_follow [of Fn_VolumeUp "[]" "Some [Entry (lit ''cmst'') (Container [Entry (lit ''caps'') (Uint 4)])]"]
  by (auto simp: FIELD_FEATURES_def VOLUME_FIELD_def status_path_def first_bool_def lit_eq_iff simp del: lit_eval)

end
