(* ===== verification/Daap.thy ===== *)
theory Daap
  imports Dmap_Client Dmap_Playing
begin

text \<open>
  The DAAP requester and the client on top of it (\<open>pyatv-proto-dmap\<close>: \<open>daap/url.rs\<close>,
  \<open>daap.rs\<close>, \<open>pairing/code.rs\<close>, \<open>client.rs\<close>, \<open>facade/updates.rs\<close>, \<open>facade/metadata.rs\<close>). The
  state of a requester is its session id and the network: what each exchange to come will answer, and, for
  the statements, the requests put on the wire so far. Requests run one at a time here; the race of two
  logins is the subject of \<open>Daap_Relogin\<close>.
\<close>

section \<open>Credentials and URLs\<close>

definition LOGIN_CMD :: bytes where
  "LOGIN_CMD = lit ''login?[AUTH]&hasFP=1''"

definition AUTH_PLACEHOLDER :: bytes where
  "AUTH_PLACEHOLDER = lit ''[AUTH]''"

datatype credential = PairingGuid | HomeSharing

fun credential_parameter :: "credential \<Rightarrow> bytes" where
  "credential_parameter PairingGuid = lit ''pairing-guid''"
| "credential_parameter HomeSharing = lit ''hsgid''"

definition is_pairing_guid :: "bytes \<Rightarrow> bool" where
  "is_pairing_guid c = (case strip_pre (lit ''0x'') c of None \<Rightarrow> False
     | Some digits \<Rightarrow> 16 \<le> length digits \<and> list_all is_hexdigit (take 16 digits))"

fun guid_groups :: "bool \<Rightarrow> nat list \<Rightarrow> nat \<Rightarrow> bytes \<Rightarrow> bool" where
  "guid_groups first_group [] offset bs = True"
| "guid_groups first_group (width # ws) offset bs =
     (if \<not> first_group \<and> get_at bs offset \<noteq> Some 45 then False
      else let offset = (if first_group then offset else offset + 1) in
        (case get_range bs offset (offset + width) of None \<Rightarrow> False
         | Some g \<Rightarrow> if \<not> list_all is_hexdigit g then False else guid_groups False ws (offset + width) bs))"

definition is_home_sharing_id :: "bytes \<Rightarrow> bool" where
  "is_home_sharing_id c = guid_groups True [8, 4, 4, 4, 12] 0 c"

definition classify :: "bytes \<Rightarrow> dmap_error + credential" where
  "classify c = (if is_pairing_guid c then Ok PairingGuid
     else if is_home_sharing_id c then Ok HomeSharing else Err (DInvalidCredentials c))"

definition mkurl :: "bytes \<Rightarrow> bytes \<Rightarrow> u64 \<Rightarrow> bool \<Rightarrow> bool \<Rightarrow> dmap_error + bytes" where
  "mkurl command cred session_id session login_id =
     rbind (if login_id
            then rbind (classify cred) (\<lambda>kind. Ok [credential_parameter kind @ lit ''='' @ cred]) else Ok [])
       (\<lambda>params. let params = (if session then (lit ''session-id='' @ decimal (unat session_id)) # params else params) in
          Ok (replace_sub AUTH_PLACEHOLDER (join (lit ''&'') params) command))"

section \<open>Pairing codes\<close>

text \<open>\<open>to_uppercase\<close> outside ASCII is the argument \<open>uni\<close>, MD5 the argument \<open>md5\<close>.\<close>

definition PAIRING_GUID_DIGITS :: nat where "PAIRING_GUID_DIGITS = 16"
definition RESPONSE_DEVICE_TYPE :: bytes where "RESPONSE_DEVICE_TYPE = lit ''iPhone''"

definition upper :: "u8 \<Rightarrow> u8" where
  "upper b = (if 97 \<le> b \<and> b \<le> 122 then b - 32 else b)"

definition to_uppercase :: "(bytes \<Rightarrow> bytes) \<Rightarrow> bytes \<Rightarrow> bytes" where
  "to_uppercase uni s = (if ascii s then map upper s else uni s)"

fun hex_digits :: "nat \<Rightarrow> nat \<Rightarrow> bytes" where
  "hex_digits 0 v = []"
| "hex_digits (Suc k) v = hex_digits k (v div 16) @ [hex_upper (v mod 16)]"

definition pairing_guid_from :: "u64 \<Rightarrow> bytes" where
  "pairing_guid_from v = hex_digits PAIRING_GUID_DIGITS (unat v)"

definition normalise_pairing_guid :: "(bytes \<Rightarrow> bytes) \<Rightarrow> bytes \<Rightarrow> bytes" where
  "normalise_pairing_guid uni g = to_uppercase uni
     (case strip_pre (lit ''0x'') g of Some r \<Rightarrow> r
      | None \<Rightarrow> (case strip_pre (lit ''0X'') g of Some r \<Rightarrow> r | None \<Rightarrow> g))"

definition credentials :: "(bytes \<Rightarrow> bytes) \<Rightarrow> bytes \<Rightarrow> bytes" where
  "credentials uni g = lit ''0x'' @ normalise_pairing_guid uni g"

definition pad4 :: "bytes \<Rightarrow> bytes" where
  "pad4 ds = replicate (4 - length ds) 48 @ ds"

definition expected_code :: "(bytes \<Rightarrow> bytes) \<Rightarrow> (bytes \<Rightarrow> bytes) \<Rightarrow> bytes \<Rightarrow> u32 \<Rightarrow> bytes" where
  "expected_code uni md5 g pin = hex_encode (md5
     (normalise_pairing_guid uni g @ concat (map (\<lambda>d. [d, 0]) (pad4 (decimal (unat pin))))))"

definition verify_code :: "(bytes \<Rightarrow> bytes) \<Rightarrow> (bytes \<Rightarrow> bytes) \<Rightarrow> bytes \<Rightarrow> u32 option \<Rightarrow> bytes \<Rightarrow> bool" where
  "verify_code uni md5 g pin received = (case pin of None \<Rightarrow> True
     | Some p \<Rightarrow> eq_ignore_ascii_case received (expected_code uni md5 g p))"

section \<open>The requester\<close>

definition DMAP_HEADERS :: "(bytes \<times> bytes) list" where
  "DMAP_HEADERS = map (\<lambda>(n, v). (lit n, lit v)) [
     (''Accept'', ''*/*''), (''Accept-Encoding'', ''gzip''), (''Client-DAAP-Version'', ''3.13''),
     (''Client-ATV-Sharing-Version'', ''1.2''), (''Client-iTunes-Sharing-Version'', ''3.15''),
     (''User-Agent'', ''Remote/1021''), (''Viewer-Only-Client'', ''1'')]"

definition POST_CONTENT_TYPE :: "bytes \<times> bytes" where
  "POST_CONTENT_TYPE = (lit ''Content-Type'', lit ''application/x-www-form-urlencoded'')"

definition NO_SESSION :: u64 where "NO_SESSION = 0"

text \<open>What a requester is built with, and the library functions its calls use.\<close>

record 'p daap_env =
  en_host :: bytes
  en_credential :: bytes
  en_dbg :: "bytes \<Rightarrow> bytes"
  en_gunzip :: "bytes \<Rightarrow> bytes + bytes"
  en_plist :: "bytes \<Rightarrow> bytes + 'p"
  en_sha :: "bytes \<Rightarrow> bytes"

text \<open>An exchange that cannot be connected or written fails; otherwise the connection answers its reads.
  No exchange left means the device is gone.\<close>

record daap =
  da_session :: u64
  da_net :: "(dmap_error + reads) list"
  da_sent :: "bytes list"

definition unreachable :: dmap_error where
  "unreachable = DIo OtherIo (lit ''unreachable'')"

type_synonym 'a act = "daap \<Rightarrow> (dmap_error + 'a) \<times> daap"

definition ret :: "'a \<Rightarrow> 'a act" where
  "ret x = (\<lambda>s. (Ok x, s))"

definition fail :: "dmap_error \<Rightarrow> 'a act" where
  "fail e = (\<lambda>s. (Err e, s))"

definition sbind :: "'a act \<Rightarrow> ('a \<Rightarrow> 'b act) \<Rightarrow> 'b act" where
  "sbind m f = (\<lambda>s. case m s of (Err e, s') \<Rightarrow> (Err e, s') | (Ok x, s') \<Rightarrow> f x s')"

definition lift :: "(dmap_error + 'a) \<Rightarrow> 'a act" where
  "lift r = (\<lambda>s. (r, s))"

definition http_send :: "'p daap_env \<Rightarrow> http_request \<Rightarrow> http_response act" where
  "http_send env rq = (\<lambda>s. case encode_request (en_dbg env) (en_host env) rq of
     Err e \<Rightarrow> (Err e, s)
   | Ok out \<Rightarrow> (let s = s\<lparr>da_sent := da_sent s @ [out]\<rparr> in case da_net s of
       [] \<Rightarrow> (Err unreachable, s)
     | x # xs \<Rightarrow> (rbind x (read_response (en_gunzip env)), s\<lparr>da_net := xs\<rparr>)))"

record action =
  ac_method :: http_method
  ac_command :: bytes
  ac_body :: "bytes option"
  ac_session :: bool
  ac_login_id :: bool

definition action_request :: "action \<Rightarrow> bytes \<Rightarrow> http_request" where
  "action_request a url = \<lparr>rq_method = ac_method a, rq_path = url,
     rq_headers = (if ac_method a = Post then DMAP_HEADERS @ [POST_CONTENT_TYPE] else DMAP_HEADERS),
     rq_body = ac_body a\<rparr>"

definition attempt :: "'p daap_env \<Rightarrow> action \<Rightarrow> (nat \<times> bytes) act" where
  "attempt env a = (\<lambda>s.
     sbind (lift (mkurl (ac_command a) (en_credential env) (da_session s) (ac_session a) (ac_login_id a))) (\<lambda>url.
     sbind (http_send env (action_request a url)) (\<lambda>r. ret (rs_status r, rs_body r))) s)"

definition login_action :: action where
  "login_action = \<lparr>ac_method = Get, ac_command = LOGIN_CMD, ac_body = None, ac_session = False, ac_login_id = True\<rparr>"

definition session_of :: "'p daap_env \<Rightarrow> bytes \<Rightarrow> dmap_error + u64" where
  "session_of env body = rbind (parse_dmap (en_plist env) body) (\<lambda>parsed.
     ok_or (first_uint parsed [lit ''mlog'', lit ''mlid'']) (DMalformed (lit ''login response carries no mlog.mlid'')))"

text \<open>The loops of \<open>login_locked\<close> and \<open>perform\<close>; the argument is how many retries are left,
  one at the start.\<close>

fun login_loop :: "'p daap_env \<Rightarrow> nat \<Rightarrow> u64 act" where
  "login_loop env retries = sbind (attempt env login_action) (\<lambda>(st, body).
     if is_success st then
       sbind (lift (session_of env body)) (\<lambda>session. \<lambda>s. (Ok session, s\<lparr>da_session := session\<rparr>))
     else if st = 500 then fail DNotSupported
     else (case retries of Suc n \<Rightarrow> login_loop env n | 0 \<Rightarrow> fail (DAuthentication st)))"

definition login_locked :: "'p daap_env \<Rightarrow> u64 act" where
  "login_locked env = login_loop env 1"

definition login :: "'p daap_env \<Rightarrow> u64 act" where
  "login env = login_locked env"

definition assure_logged_in :: "'p daap_env \<Rightarrow> unit act" where
  "assure_logged_in env = (\<lambda>s. if da_session s \<noteq> NO_SESSION then (Ok (), s) else sbind (login env) (\<lambda>_. ret ()) s)"

text \<open>With no other task running, the session id that \<open>relogin\<close> reads cannot change while it waits
  for the lock.\<close>

definition relogin :: "'p daap_env \<Rightarrow> unit act" where
  "relogin env = (\<lambda>s. let stale = da_session s in
     if da_session s \<noteq> stale then (Ok (), s) else sbind (login_locked env) (\<lambda>_. ret ()) s)"

fun perform_loop :: "'p daap_env \<Rightarrow> action \<Rightarrow> nat \<Rightarrow> bytes act" where
  "perform_loop env a retries = sbind (attempt env a) (\<lambda>(st, body).
     if is_success st then ret body
     else if st = 500 then fail DNotSupported
     else sbind (relogin env) (\<lambda>_.
       case retries of Suc n \<Rightarrow> perform_loop env a n | 0 \<Rightarrow> fail (DAuthentication st)))"

definition perform :: "'p daap_env \<Rightarrow> action \<Rightarrow> bytes act" where
  "perform env a = perform_loop env a 1"

definition get_action :: "bytes \<Rightarrow> action" where
  "get_action command = \<lparr>ac_method = Get, ac_command = command, ac_body = None, ac_session = True, ac_login_id = False\<rparr>"

definition post_action :: "bytes \<Rightarrow> bytes option \<Rightarrow> action" where
  "post_action command body =
     \<lparr>ac_method = Post, ac_command = command, ac_body = body, ac_session = True, ac_login_id = False\<rparr>"

definition daap_get :: "'p daap_env \<Rightarrow> bytes \<Rightarrow> bytes act" where
  "daap_get env command = sbind (assure_logged_in env) (\<lambda>_. perform env (get_action command))"

definition get_daap :: "'p daap_env \<Rightarrow> bytes \<Rightarrow> 'p dmap_entry list act" where
  "get_daap env command = sbind (daap_get env command) (\<lambda>body. lift (parse_dmap (en_plist env) body))"

definition daap_post :: "'p daap_env \<Rightarrow> bytes \<Rightarrow> bytes option \<Rightarrow> 'p dmap_entry list act" where
  "daap_post env command body = sbind (assure_logged_in env) (\<lambda>_.
     sbind (perform env (post_action command body)) (\<lambda>raw. lift (parse_dmap (en_plist env) raw)))"

declare login_loop.simps [simp del] perform_loop.simps [simp del]

section \<open>How many requests a call sends\<close>

text \<open>\<open>sends k m\<close>: the call only appends to the log of requests, at most \<open>k\<close> of them.\<close>

definition sends :: "nat \<Rightarrow> 'a act \<Rightarrow> bool" where
  "sends k m \<longleftrightarrow> (\<forall>s. \<exists>ws. da_sent (snd (m s)) = da_sent s @ ws \<and> length ws \<le> k)"

named_theorems sends_intros "request counts of the calls"

lemma sends_basic [sends_intros]:
  "sends 0 (ret x)" "sends 0 (fail e)" "sends 0 (lift r)" "sends 0 (\<lambda>s. (Ok y, s\<lparr>da_session := z\<rparr>))"
  by (simp_all add: sends_def ret_def fail_def lift_def)

lemma sends_mono: "sends i m \<Longrightarrow> i \<le> k \<Longrightarrow> sends k m"
  by (fastforce simp: sends_def)

lemma sends_sbind:
  assumes "sends i m" "\<And>x. sends j (f x)"
  shows "sends (i + j) (sbind m f)"
  unfolding sends_def
proof
  fix s
  obtain r s1 where m: "m s = (r, s1)" by (cases "m s")
  with assms(1) obtain ws where w: "da_sent s1 = da_sent s @ ws" "length ws \<le> i" by (auto simp: sends_def dest: spec [of _ s])
  show "\<exists>ws. da_sent (snd (sbind m f s)) = da_sent s @ ws \<and> length ws \<le> i + j"
  proof (cases r)
    case (Inl e)
    with m w show ?thesis by (intro exI [of _ ws]) (simp add: sbind_def)
  next
    case (Inr x)
    obtain vs where "da_sent (snd (f x s1)) = da_sent s1 @ vs" "length vs \<le> j"
      using assms(2) [of x] by (auto simp: sends_def)
    with Inr m w show ?thesis by (intro exI [of _ "ws @ vs"]) (simp add: sbind_def)
  qed
qed

lemma sends_http [sends_intros]: "sends 1 (http_send env rq)"
  by (auto simp: sends_def http_send_def Let_def split: sum.split list.split)

lemma sends_state: "(\<And>t. sends k (\<lambda>s. m t s)) \<Longrightarrow> sends k (\<lambda>s. m s s)"
  by (simp add: sends_def)

lemma sends_attempt [sends_intros]: "sends 1 (attempt env a)"
  unfolding attempt_def
  by (rule sends_state, rule sends_mono [OF sends_sbind [OF sends_basic(3) sends_sbind [OF sends_http]]])
    (auto intro: sends_intros)

lemma sends_login_loop: "sends (Suc n) (login_loop env n)"
proof (induction n)
  case 0
  show ?case
    by (subst login_loop.simps, rule sends_mono [OF sends_sbind [OF sends_attempt, where j = 0]])
      (auto intro: sends_intros sends_mono [OF sends_sbind [OF sends_basic(3)]] split: prod.split)
next
  case (Suc n)
  have "sends (Suc n) (sbind (lift (session_of env body)) (\<lambda>session s. (Ok session, s\<lparr>da_session := session\<rparr>)))" for body
    by (rule sends_mono [OF sends_sbind [OF sends_basic(3), where j = 0]]) (auto intro: sends_intros)
  moreover have "sends (Suc n) (fail e)" for e :: dmap_error
    by (rule sends_mono [OF sends_basic(2)]) simp
  ultimately show ?case
    using Suc by (subst login_loop.simps, intro sends_mono [OF sends_sbind [OF sends_attempt, where j = "Suc n"]])
      (auto split: prod.split)
qed

lemma sends_login [sends_intros]: "sends 2 (login_locked env)"
  using sends_login_loop [of 1 env] by (simp add: login_locked_def numeral_2_eq_2)

lemma sends_relogin [sends_intros]: "sends 2 (relogin env)"
proof -
  have "sends 2 (sbind (login_locked env) (\<lambda>_. ret ()))"
    by (rule sends_mono [OF sends_sbind [OF sends_login sends_basic(1)]]) simp
  then show ?thesis by (simp add: relogin_def)
qed

lemma sends_assure [sends_intros]: "sends 2 (assure_logged_in env)"
proof -
  have "sends 2 (sbind (login_locked env) (\<lambda>_. ret ()))"
    by (rule sends_mono [OF sends_sbind [OF sends_login sends_basic(1)]]) simp
  then show ?thesis by (auto simp: assure_logged_in_def login_def sends_def)
qed

lemma sends_perform_loop: "sends (3 * Suc n) (perform_loop env a n)"
proof (induction n)
  case 0
  have "sends 2 (sbind (relogin env) (\<lambda>_. fail e))" for e :: dmap_error
    by (rule sends_mono [OF sends_sbind [OF sends_relogin sends_basic(2)]]) simp
  moreover have "sends 2 (ret x)" "sends 2 (fail e)" for x :: bytes and e :: dmap_error
    by (rule sends_mono [OF sends_basic(1)], simp, rule sends_mono [OF sends_basic(2)], simp)
  ultimately show ?case
    by (subst perform_loop.simps, intro sends_mono [OF sends_sbind [OF sends_attempt, where j = 2]])
      (auto split: prod.split)
next
  case (Suc n)
  let ?j = "2 + 3 * Suc n"
  have "sends ?j (sbind (relogin env) (\<lambda>_. perform_loop env a n))"
    by (rule sends_sbind [OF sends_relogin Suc])
  moreover have "sends ?j (ret x)" "sends ?j (fail e)" for x :: bytes and e :: dmap_error
    by (rule sends_mono [OF sends_basic(1)], simp, rule sends_mono [OF sends_basic(2)], simp)
  ultimately show ?case
    by (subst perform_loop.simps, intro sends_mono [OF sends_sbind [OF sends_attempt, where j = ?j]])
      (auto split: prod.split)
qed

lemma sends_perform [sends_intros]: "sends 6 (perform env a)"
  using sends_perform_loop [of 1 env a] by (simp add: perform_def)

lemma sends_get [sends_intros]: "sends 8 (daap_get env c)"
  unfolding daap_get_def by (rule sends_mono [OF sends_sbind [OF sends_assure sends_perform]]) simp

lemma sends_post [sends_intros]: "sends 8 (daap_post env c b)"
  unfolding daap_post_def
  by (rule sends_mono [OF sends_sbind [OF sends_assure sends_sbind [OF sends_perform sends_basic(3)]]]) simp

text \<open>C20: whatever the device answers, a call ends after at most eight requests: the initial login and the
  two re-logins take at most two each, and the request itself is sent at most twice.\<close>

theorem requests_bounded:
  "(\<exists>ws. da_sent (snd (daap_get env c s)) = da_sent s @ ws \<and> length ws \<le> 8)
   \<and> (\<exists>ws. da_sent (snd (daap_post env c b s)) = da_sent s @ ws \<and> length ws \<le> 8)"
  using sends_get [of env c] sends_post [of env c b] by (simp add: sends_def)

section \<open>What a call does with the answers\<close>

text \<open>The bytes of a request built with a session id, and what an exchange answers.\<close>

definition wire :: "'p daap_env \<Rightarrow> action \<Rightarrow> u64 \<Rightarrow> dmap_error + bytes" where
  "wire env a sid = rbind (mkurl (ac_command a) (en_credential env) sid (ac_session a) (ac_login_id a))
     (\<lambda>url. encode_request (en_dbg env) (en_host env) (action_request a url))"

definition answers :: "'p daap_env \<Rightarrow> dmap_error + reads \<Rightarrow> nat \<Rightarrow> bytes \<Rightarrow> bool" where
  "answers env x st body \<longleftrightarrow> rbind x (read_response (en_gunzip env)) = Ok \<lparr>rs_status = st, rs_body = body\<rparr>"

lemma attempt_answers:
  assumes "wire env a (da_session s) = Ok out" "da_net s = x # xs" "answers env x st body"
  shows "attempt env a s = (Ok (st, body), s\<lparr>da_sent := da_sent s @ [out], da_net := xs\<rparr>)"
  using assms by (auto simp: wire_def answers_def res_simps attempt_def sbind_def lift_def http_send_def ret_def Let_def)

lemma login_wire: "wire env login_action sid = wire env login_action sid'"
  by (simp add: wire_def login_action_def mkurl_def)

lemma login_answers:
  assumes "wire env login_action sid = Ok out" "da_net s = x # xs" "answers env x st body" "is_success st"
    and "session_of env body = Ok sid'"
  shows "login_locked env s = (Ok sid', s\<lparr>da_sent := da_sent s @ [out], da_net := xs, da_session := sid'\<rparr>)"
proof -
  from assms(1) have w: "wire env login_action (da_session s) = Ok out" by (metis login_wire)
  show ?thesis
    using assms(4,5) by (simp add: login_locked_def login_loop.simps [of env "Suc 0"] sbind_def lift_def
        attempt_answers [OF w assms(2,3)])
qed

text \<open>A request the device refuses with anything but 500 is sent again after one login, with the new
  session id, and the caller gets the second answer: the requests on the wire are the old one, the login
  and the new one.\<close>

theorem refused_then_retried:
  assumes "da_session s \<noteq> NO_SESSION" "da_net s = x1 # x2 # x3 # rest"
    and "wire env (get_action c) (da_session s) = Ok q1" "answers env x1 st1 b1" "\<not> is_success st1" "st1 \<noteq> 500"
    and "wire env login_action 0 = Ok ql" "answers env x2 st2 b2" "is_success st2" "session_of env b2 = Ok sid"
    and "wire env (get_action c) sid = Ok q2" "answers env x3 st3 b3" "is_success st3"
  shows "daap_get env c s
    = (Ok b3, s\<lparr>da_session := sid, da_net := rest, da_sent := da_sent s @ [q1, ql, q2]\<rparr>)"
proof -
  let ?s1 = "s\<lparr>da_sent := da_sent s @ [q1], da_net := x2 # x3 # rest\<rparr>"
  let ?s2 = "s\<lparr>da_sent := da_sent s @ [q1, ql], da_net := x3 # rest, da_session := sid\<rparr>"
  have 1: "attempt env (get_action c) s = (Ok (st1, b1), ?s1)"
    by (rule attempt_answers) (use assms in simp_all)
  have 2: "login_locked env ?s1 = (Ok sid, ?s2)"
    using login_answers [of env 0 ql ?s1 x2 "x3 # rest" st2 b2 sid] assms by simp
  have 3: "attempt env (get_action c) ?s2 = (Ok (st3, b3), s\<lparr>da_sent := da_sent s @ [q1, ql, q2], da_net := rest, da_session := sid\<rparr>)"
    using attempt_answers [of env "get_action c" ?s2 q2 x3 rest st3 b3] assms by simp
  show ?thesis
    using assms(1,5,6,13) by (simp add: daap_get_def assure_logged_in_def perform_def perform_loop.simps sbind_def
        1 2 3 relogin_def ret_def)
qed

text \<open>A 500 ends the call at once: one request, no login, the session kept.\<close>

theorem not_supported_is_final:
  assumes "da_session s \<noteq> NO_SESSION" "da_net s = x # rest"
    and "wire env (get_action c) (da_session s) = Ok q" "answers env x 500 b"
  shows "daap_get env c s = (Err DNotSupported, s\<lparr>da_net := rest, da_sent := da_sent s @ [q]\<rparr>)"
proof -
  have "attempt env (get_action c) s = (Ok (500, b), s\<lparr>da_sent := da_sent s @ [q], da_net := rest\<rparr>)"
    by (rule attempt_answers) (use assms in simp_all)
  then show ?thesis
    using assms(1) by (simp add: daap_get_def assure_logged_in_def perform_def perform_loop.simps sbind_def fail_def
        is_success_def)
qed

section \<open>Pairing GUIDs are valid credentials\<close>

lemma hex_digits_props:
  "length (hex_digits k v) = k \<and> list_all (\<lambda>b. \<exists>n < 16. b = hex_upper n) (hex_digits k v)
   \<and> radix_value 16 (hex_digits k v) = v mod 16 ^ k"
proof (induction k arbitrary: v)
  case 0
  show ?case by (simp add: radix_value_def)
next
  case (Suc k)
  have "radix_value 16 (hex_digits (Suc k) v) = 16 * (v div 16 mod 16 ^ k) + v mod 16"
    using Suc [of "v div 16"] hex_upper_value [of "v mod 16"] by (simp add: radix_value_snoc)
  also have "\<dots> = v mod (16 * 16 ^ k)" by (metis add.commute mod_mult2_eq)
  finally show ?case using Suc [of "v div 16"] by (auto intro!: exI [of _ "v mod 16"])
qed

lemma hex_upper_byte:
  "n < 16 \<Longrightarrow> hex_upper n \<le> 0x7F \<and> upper (hex_upper n) = hex_upper n \<and> is_hexdigit (hex_upper n)
     \<and> hex_upper n \<noteq> 120 \<and> hex_upper n \<noteq> 88"
  using hex_upper_unat [of n] hex_upper_value [of n]
  by (auto simp: upper_def word_le_nat_alt word_unat_eq_iff split: if_splits)

text \<open>Every 64-bit value yields a GUID that, stored as a credential, the login accepts as a pairing
  GUID, and that still names the value.\<close>

theorem pairing_guid_usable:
  "classify (credentials uni (pairing_guid_from v)) = Ok PairingGuid
   \<and> radix_value 16 (pairing_guid_from v) = unat v"
proof -
  let ?g = "pairing_guid_from v"
  from hex_digits_props [of 16 "unat v"] have g: "length ?g = 16" "list_all (\<lambda>b. \<exists>n < 16. b = hex_upper n) ?g"
    "radix_value 16 ?g = unat v mod 16 ^ 16"
    by (simp_all add: pairing_guid_from_def PAIRING_GUID_DIGITS_def)
  have b: "ascii ?g" "map upper ?g = ?g" "list_all is_hexdigit ?g" "120 \<notin> set ?g" "88 \<notin> set ?g"
    using g(2) hex_upper_byte by (fastforce simp: ascii_def list_all_iff intro: map_idI)+
  have "strip_pre (lit ''0x'') ?g = None" "strip_pre (lit ''0X'') ?g = None"
    using b(4,5) by (auto simp: strip_pre_def prefix_def)
  then have "normalise_pairing_guid uni ?g = ?g" using b by (simp add: normalise_pairing_guid_def to_uppercase_def)
  then have "is_pairing_guid (credentials uni ?g)"
    using g(1) b(3) by (simp add: credentials_def is_pairing_guid_def strip_pre_def)
  moreover have "radix_value 16 ?g = unat v" using g(3) unat_u64_bound [of v] by simp
  ultimately show ?thesis by (simp add: classify_def)
qed

section \<open>The scenarios can happen\<close>


definition demo_env :: "unit daap_env" where
  "demo_env = \<lparr>en_host = lit ''h'', en_credential = lit ''0x0000000000000001'', en_dbg = id, en_gunzip = Inr,
     en_plist = (\<lambda>_. Err []), en_sha = id\<rparr>"

definition demo_head :: "string \<Rightarrow> bytes" where
  "demo_head code = lit ''HTTP/1.1 '' @ lit code @ lit '' X'' @ crlf2"

definition demo_login :: bytes where
  "demo_login = write_tags [TCont (lit ''mlog'') [TU32 (lit ''mlid'') 7]]"

lemma demo_head_parses:
  "parse_head (demo_head ''200'') = Ok (Some (\<lparr>status = 200, headers = []\<rparr>, 18))"
  "parse_head (demo_head ''403'') = Ok (Some (\<lparr>status = 403, headers = []\<rparr>, 18))"
  "parse_head (demo_head ''500'') = Ok (Some (\<lparr>status = 500, headers = []\<rparr>, 18))"
  by (simp_all add: demo_head_def parse_head_def find_head_end_def crlf2_def crlf_def split_sub.simps
      parse_status_line_def parse_radix_def digit_ok_def is_hexdigit_def is_digit_def hex_value_def radix_value_def Let_def)

lemma demo_answers:
  assumes "parse_head (demo_head code) = Ok (Some (\<lparr>status = st, headers = []\<rparr>, 18))" "length body \<le> 100" "length code = 3"
  shows "answers demo_env (Ok [Ok (demo_head code), Ok body]) st body"
proof -
  have "demo_head code \<noteq> []" by (simp add: demo_head_def)
  moreover have "parse_head [] = Ok None" by (simp add: parse_head_def find_head_end_def crlf2_def MAX_HEAD_LEN_def)
  moreover have "length (demo_head code) = 18"
    using assms(3) by (simp add: demo_head_def crlf2_def length_lit del: lit_eval)
  ultimately show ?thesis using assms
    by (simp add: answers_def demo_env_def read_response_def read_body_def head_framing_def header_def decode_body_def MAX_BODY_LEN_def)
qed

lemma demo_session: "session_of demo_env demo_login = Ok 7"
proof -
  have t: "tag_type (lookup_tag (lit ''mlog'')) = TagContainer" "tag_type (lookup_tag (lit ''mlid'')) = TagUint"
    unfolding lookup_tag_def lookup_row_lit tag_table_def by (simp_all add: tag_def_def del: lit_eval)
  have w: "wire_key (lit ''mlog'')" "wire_key (lit ''mlid'')" by (simp_all add: wire_key_def)
  have "list_all (writable lookup_tag MAX_DEPTH) [TCont (lit ''mlog'') [TU32 (lit ''mlid'') 7]]"
    by (simp add: t w write_tags_def uint32_tag_def length_raw_tag MAX_DEPTH_def length_lit del: lit_eval)
  from parse_written [OF this, of "\<lambda>_. Err [] :: bytes + unit"] show ?thesis
    by (simp add: session_of_def demo_env_def demo_login_def parse_dmap_def first_uint_def del: lit_eval)
qed

lemma dmap_headers_ok: "list_all (\<lambda>h. check_header dbg h = Ok ()) (DMAP_HEADERS @ [POST_CONTENT_TYPE])"
  by (simp add: DMAP_HEADERS_def POST_CONTENT_TYPE_def check_header_def is_token_byte_def is_alphanumeric_def)

lemma wire_succeeds:
  assumes "mkurl (ac_command a) (en_credential env) sid (ac_session a) (ac_login_id a) = Ok url"
    and "list_all is_target_byte url"
  shows "succeeds (wire env a sid)"
proof -
  have "check_request_target (en_dbg env) url = Ok ()"
    using assms(2) by (auto simp: check_request_target_def list_all_iff find_None_iff split: option.split)
  moreover have "encode_headers (en_dbg env) (rq_headers (action_request a url)) out
      = Ok (out @ concat (map (\<lambda>h. header_line h @ crlf) (rq_headers (action_request a url))))" for out
    using dmap_headers_ok [of "en_dbg env"] by (simp add: encode_headers_Ok action_request_def)
  moreover have "rq_path (action_request a url) = url" by (simp add: action_request_def)
  ultimately show ?thesis using assms(1) by (simp add: wire_def encode_request_def Let_def)
qed

lemma demo_wires:
  "succeeds (wire demo_env (get_action (lit ''p?[AUTH]'')) 5)"
  "succeeds (wire demo_env (get_action (lit ''p?[AUTH]'')) 7)"
  "succeeds (wire demo_env login_action 0)"
proof -
  have d: "decimal 5 = [53]" "decimal 7 = [55]" by (subst decimal.simps, simp)+
  have r: "replace_sub AUTH_PLACEHOLDER x (lit ''p?[AUTH]'') = lit ''p?'' @ x"
    "replace_sub AUTH_PLACEHOLDER x LOGIN_CMD = lit ''login?'' @ x @ lit ''&hasFP=1''" for x
    by (simp_all add: replace_sub_def AUTH_PLACEHOLDER_def LOGIN_CMD_def split_sub.simps)
  have c: "classify (lit ''0x0000000000000001'') = Ok PairingGuid"
    by (simp add: classify_def is_pairing_guid_def strip_pre_def is_hexdigit_def is_digit_def)
  have "mkurl (lit ''p?[AUTH]'') (en_credential demo_env) 5 True False = Ok (lit ''p?session-id=5'')"
    "mkurl (lit ''p?[AUTH]'') (en_credential demo_env) 7 True False = Ok (lit ''p?session-id=7'')"
    "mkurl LOGIN_CMD (en_credential demo_env) 0 False True = Ok (lit ''login?pairing-guid=0x0000000000000001&hasFP=1'')"
    by (simp_all add: mkurl_def r [simplified] demo_env_def d c [simplified])
  then show "succeeds (wire demo_env (get_action (lit ''p?[AUTH]'')) 5)"
    "succeeds (wire demo_env (get_action (lit ''p?[AUTH]'')) 7)" "succeeds (wire demo_env login_action 0)"
    by (auto intro!: wire_succeeds simp: get_action_def login_action_def is_target_byte_def)
qed

lemma refused_then_retried_witness:
  "\<exists>q1 ql q2. daap_get demo_env (lit ''p?[AUTH]'') \<lparr>da_session = 5, da_net =
      [Ok [Ok (demo_head ''403''), Ok []], Ok [Ok (demo_head ''200''), Ok demo_login], Ok [Ok (demo_head ''200''), Ok [1, 2]]],
      da_sent = []\<rparr> = (Ok [1, 2], \<lparr>da_session = 7, da_net = [], da_sent = [q1, ql, q2]\<rparr>)"
proof -
  obtain q1 q2 ql where w: "wire demo_env (get_action (lit ''p?[AUTH]'')) 5 = Ok q1"
    "wire demo_env (get_action (lit ''p?[AUTH]'')) 7 = Ok q2" "wire demo_env login_action 0 = Ok ql"
    using demo_wires by (auto simp: succeeds_iff)
  have l: "length demo_login \<le> 100"
    by (simp add: demo_login_def write_tags_def container_tag_def uint32_tag_def length_raw_tag)
  show ?thesis
    using refused_then_retried [where env = demo_env and c = "lit ''p?[AUTH]''" and sid = 7 and rest = "[]"
        and s = "\<lparr>da_session = 5, da_net =
          [Ok [Ok (demo_head ''403''), Ok []], Ok [Ok (demo_head ''200''), Ok demo_login], Ok [Ok (demo_head ''200''), Ok [1, 2]]],
          da_sent = []\<rparr>", OF _ _ _ demo_answers [OF demo_head_parses(2)] _ _ w(3)
        demo_answers [OF demo_head_parses(1) l] _ demo_session w(2) demo_answers [OF demo_head_parses(1)]] w(1)
    by (simp add: NO_SESSION_def is_success_def)
qed

lemma not_supported_is_final_witness:
  "\<exists>q. daap_get demo_env (lit ''p?[AUTH]'') \<lparr>da_session = 5, da_net = [Ok [Ok (demo_head ''500''), Ok []]], da_sent = []\<rparr>
   = (Err DNotSupported, \<lparr>da_session = 5, da_net = [], da_sent = [q]\<rparr>)"
proof -
  obtain q where w: "wire demo_env (get_action (lit ''p?[AUTH]'')) 5 = Ok q"
    using demo_wires(1) by (auto simp: succeeds_iff)
  show ?thesis
    using not_supported_is_final [where env = demo_env and c = "lit ''p?[AUTH]''" and rest = "[]"
        and s = "\<lparr>da_session = 5, da_net = [Ok [Ok (demo_head ''500''), Ok []]], da_sent = []\<rparr>",
        OF _ _ _ demo_answers [OF demo_head_parses(3)]] w
    by (simp add: NO_SESSION_def)
qed

end
