(* ===== verification/Daap_Client.thy ===== *)
theory Daap_Client
  imports Daap Float32
begin

text \<open>
  The Apple TV client over DAAP (\<open>pyatv-proto-dmap\<close>: \<open>client.rs\<close>, \<open>facade/remote.rs\<close>,
  \<open>facade/audio.rs\<close>, \<open>facade/updates.rs\<close>, \<open>facade/metadata.rs\<close>): the session state, the
  commands, the synthetic drags, seeking, the artwork cache and the push loop. Machine arithmetic wraps, as
  in a release build.
\<close>

section \<open>The client\<close>

definition PSU_CMD :: bytes where
  "PSU_CMD = lit ''ctrl-int/1/playstatusupdate?[AUTH]&revision-number=''"

definition ARTWORK_CMD :: bytes where
  "ARTWORK_CMD = lit ''ctrl-int/1/nowplayingartwork''"

definition CTRL_PROMPT_CMD :: bytes where
  "CTRL_PROMPT_CMD = lit ''ctrl-int/1/controlpromptentry?[AUTH]&prompt-id=0''"

record 'p client_state =
  cs_revision :: u64
  cs_playstatus :: "'p dmap_entry list option"
  cs_playing :: "playing option"
  cs_hash :: "bytes option"

definition client_state_default :: "'p client_state" where
  "client_state_default = \<lparr>cs_revision = 0, cs_playstatus = None, cs_playing = None, cs_hash = None\<rparr>"

text \<open>A client is its state beside the state of its requester.\<close>

type_synonym 'p tv = "'p client_state \<times> daap"
type_synonym ('p, 'a) tv_act = "'p tv \<Rightarrow> (dmap_error + 'a) \<times> 'p tv"

definition on_daap :: "'a act \<Rightarrow> ('p, 'a) tv_act" where
  "on_daap m = (\<lambda>(c, d). case m d of (r, d') \<Rightarrow> (r, c, d'))"

definition tv_bind :: "('p, 'a) tv_act \<Rightarrow> ('a \<Rightarrow> ('p, 'b) tv_act) \<Rightarrow> ('p, 'b) tv_act" where
  "tv_bind m f = (\<lambda>t. case m t of (Err e, t') \<Rightarrow> (Err e, t') | (Ok x, t') \<Rightarrow> f x t')"

definition tv_ret :: "'a \<Rightarrow> ('p, 'a) tv_act" where
  "tv_ret x = (\<lambda>t. (Ok x, t))"

definition reset_revision :: "'p tv \<Rightarrow> 'p tv" where
  "reset_revision t = ((fst t)\<lparr>cs_revision := 0\<rparr>, snd t)"

definition playstatus :: "'p daap_env \<Rightarrow> bool \<Rightarrow> ('p, playing) tv_act" where
  "playstatus env use_revision = (\<lambda>t.
     let revision = (if use_revision then cs_revision (fst t) else 0) in
     tv_bind (on_daap (get_daap env (PSU_CMD @ decimal (unat revision)))) (\<lambda>response t.
       case build_playing_instance (en_sha env) response of
         Err e \<Rightarrow> (Err e, t)
       | Ok p \<Rightarrow> (Ok p, (fst t)\<lparr>cs_revision := (case first_uint response [lit ''cmst'', lit ''cmsr''] of None \<Rightarrow> 0 | Some v \<Rightarrow> v),
            cs_hash := pl_hash p, cs_playing := Some p, cs_playstatus := Some response\<rparr>, snd t)) t)"

definition artwork_bytes :: "'p daap_env \<Rightarrow> u32 option \<Rightarrow> u32 option \<Rightarrow> ('p, bytes option) tv_act" where
  "artwork_bytes env width height =
     tv_bind (on_daap (daap_get env (ARTWORK_CMD @ lit ''?mw='' @ decimal (case width of None \<Rightarrow> 0 | Some w \<Rightarrow> unat w)
        @ lit ''&mh='' @ decimal (case height of None \<Rightarrow> 0 | Some h \<Rightarrow> unat h) @ lit ''&[AUTH]'')))
       (\<lambda>body. tv_ret (if body = [] then None else Some body))"

definition ctrl_int_cmd :: "'p daap_env \<Rightarrow> bytes \<Rightarrow> ('p, unit) tv_act" where
  "ctrl_int_cmd env command = tv_bind (on_daap (daap_post env
     (lit ''ctrl-int/1/'' @ command @ lit ''?[AUTH]&prompt-id=0'') None)) (\<lambda>_. tv_ret ())"

definition controlprompt_data :: "'p daap_env \<Rightarrow> bytes \<Rightarrow> ('p, unit) tv_act" where
  "controlprompt_data env data = tv_bind (on_daap (daap_post env CTRL_PROMPT_CMD (Some data))) (\<lambda>_. tv_ret ())"

definition controlprompt_cmd :: "'p daap_env \<Rightarrow> bytes \<Rightarrow> ('p, unit) tv_act" where
  "controlprompt_cmd env command =
     controlprompt_data env (string_tag (lit ''cmbe'') command @ uint8_tag (lit ''cmcc'') 0)"

definition set_property :: "'p daap_env \<Rightarrow> bytes \<Rightarrow> i64 \<Rightarrow> ('p, unit) tv_act" where
  "set_property env property v = tv_bind (on_daap (daap_post env
     (lit ''ctrl-int/1/setproperty?'' @ property @ lit ''='' @ decimal_int (sint v) @ lit ''&[AUTH]'') None))
     (\<lambda>_. tv_ret ())"

section \<open>The remote control\<close>

definition DEFAULT_SKIP_TIME :: i64 where "DEFAULT_SKIP_TIME = 10"
definition GESTURE_MARKER :: u8 where "GESTURE_MARKER = 0x30"

type_synonym drag_step = "string \<times> nat \<times> nat \<times> nat"

definition DRAG_UP :: "drag_step list" where
  "DRAG_UP = [(''Down'', 0, 20, 275), (''Move'', 1, 20, 270), (''Move'', 2, 20, 265), (''Move'', 3, 20, 260),
     (''Move'', 4, 20, 255), (''Move'', 5, 20, 250), (''Up'', 6, 20, 250)]"

definition DRAG_DOWN :: "drag_step list" where
  "DRAG_DOWN = [(''Down'', 0, 20, 250), (''Move'', 1, 20, 255), (''Move'', 2, 20, 260), (''Move'', 3, 20, 265),
     (''Move'', 4, 20, 270), (''Move'', 5, 20, 275), (''Up'', 6, 20, 275)]"

definition DRAG_LEFT :: "drag_step list" where
  "DRAG_LEFT = [(''Down'', 0, 75, 100), (''Move'', 1, 70, 100), (''Move'', 3, 65, 100), (''Move'', 4, 60, 100),
     (''Move'', 5, 55, 100), (''Move'', 6, 50, 100), (''Up'', 7, 50, 100)]"

definition DRAG_RIGHT :: "drag_step list" where
  "DRAG_RIGHT = [(''Down'', 0, 50, 100), (''Move'', 1, 55, 100), (''Move'', 3, 60, 100), (''Move'', 4, 65, 100),
     (''Move'', 5, 70, 100), (''Move'', 6, 75, 100), (''Up'', 7, 75, 100)]"

definition move_body :: "drag_step \<Rightarrow> bytes" where
  "move_body st = (case st of (direction, time, x, y) \<Rightarrow>
     uint8_tag (lit ''cmcc'') GESTURE_MARKER
     @ string_tag (lit ''cmbe'') (lit ''touch'' @ lit direction @ lit ''&time='' @ decimal time
         @ lit ''&point='' @ decimal x @ lit '','' @ decimal y))"

fun drag :: "'p daap_env \<Rightarrow> drag_step list \<Rightarrow> ('p, unit) tv_act" where
  "drag env [] = tv_ret ()"
| "drag env (st # steps) = tv_bind (controlprompt_data env (move_body st)) (\<lambda>_. drag env steps)"

text \<open>\<open>value as i64\<close> of an \<open>f32\<close>: towards zero, saturating, and zero for a NaN. \<open>f32_scaled\<close> is the value
  in units of \<open>2 ^ -149\<close>.\<close>

definition truncate_toward_zero :: "u32 \<Rightarrow> i64" where
  "truncate_toward_zero v =
     (if f32_is_nan v then 0
      else if f32_infinite v then (if f32_negative v then 0x8000000000000000 else 0x7FFFFFFFFFFFFFFF)
      else let t = \<bar>f32_scaled v\<bar> div 2 ^ 149; i = (if f32_negative v then - t else t) in
        if i \<ge> 2 ^ 63 then 0x7FFFFFFFFFFFFFFF else if i < - (2 ^ 63) then 0x8000000000000000 else word_of_int i)"

definition f32_positive_value :: "u32 \<Rightarrow> bool" where
  "f32_positive_value v \<longleftrightarrow> \<not> f32_is_nan v \<and> (if f32_infinite v then \<not> f32_negative v else f32_scaled v > 0)"

definition set_position_inner :: "'p daap_env \<Rightarrow> i64 \<Rightarrow> ('p, unit) tv_act" where
  "set_position_inner env position = set_property env (lit ''dacp.playingtime'') (position * 1000)"

definition skip_target :: "u32 \<Rightarrow> u32 \<Rightarrow> bool \<Rightarrow> i64" where
  "skip_target position interval forward =
     (let step = (if f32_positive_value interval then truncate_toward_zero interval else DEFAULT_SKIP_TIME) in
      if forward then ucast position + step else ucast position - step)"

definition skip :: "'p daap_env \<Rightarrow> u32 \<Rightarrow> bool \<Rightarrow> ('p, unit) tv_act" where
  "skip env interval forward = tv_bind (playstatus env False) (\<lambda>p. case pl_position p of
     None \<Rightarrow> tv_ret ()
   | Some position \<Rightarrow>
       if 0 < position then set_position_inner env (skip_target position interval forward) else tv_ret ())"

definition set_position :: "'p daap_env \<Rightarrow> u32 \<Rightarrow> ('p, unit) tv_act" where
  "set_position env position = set_position_inner env (truncate_toward_zero position)"

definition set_shuffle :: "'p daap_env \<Rightarrow> shuffle_state \<Rightarrow> ('p, unit) tv_act" where
  "set_shuffle env st = set_property env (lit ''dacp.shufflestate'') (if st \<noteq> Sh_Off then 1 else 0)"

definition set_repeat :: "'p daap_env \<Rightarrow> repeat_state \<Rightarrow> ('p, unit) tv_act" where
  "set_repeat env st = set_property env (lit ''dacp.repeatstate'') (word_of_nat (repeat_discriminant st))"

text \<open>The buttons that send one command, by the method of the trait.\<close>

datatype button = B_up | B_down | B_left | B_right | B_select | B_menu | B_top_menu | B_play | B_play_pause
  | B_pause | B_stop | B_next | B_previous | B_volume_up | B_volume_down

fun press :: "'p daap_env \<Rightarrow> button \<Rightarrow> ('p, unit) tv_act" where
  "press env B_up = drag env DRAG_UP"
| "press env B_down = drag env DRAG_DOWN"
| "press env B_left = drag env DRAG_LEFT"
| "press env B_right = drag env DRAG_RIGHT"
| "press env B_select = controlprompt_cmd env (lit ''select'')"
| "press env B_menu = controlprompt_cmd env (lit ''menu'')"
| "press env B_top_menu = controlprompt_cmd env (lit ''topmenu'')"
| "press env B_play = ctrl_int_cmd env (lit ''play'')"
| "press env B_play_pause = ctrl_int_cmd env (lit ''playpause'')"
| "press env B_pause = ctrl_int_cmd env (lit ''pause'')"
| "press env B_stop = ctrl_int_cmd env (lit ''stop'')"
| "press env B_next = ctrl_int_cmd env (lit ''nextitem'')"
| "press env B_previous = ctrl_int_cmd env (lit ''previtem'')"
| "press env B_volume_up = ctrl_int_cmd env (lit ''volumeup'')"
| "press env B_volume_down = ctrl_int_cmd env (lit ''volumedown'')"

section \<open>The artwork cache\<close>

definition ARTWORK_CACHE_LIMIT :: nat where "ARTWORK_CACHE_LIMIT = 4"

text \<open>An image is its bytes; the MIME type is fixed and the dimensions are never known.\<close>

type_synonym artwork_cache = "(bytes \<times> bytes) list"

definition cache_get :: "artwork_cache \<Rightarrow> bytes \<Rightarrow> bytes option" where
  "cache_get c key = map_option snd (find (\<lambda>(candidate, _). candidate = key) c)"

definition cache_put :: "artwork_cache \<Rightarrow> bytes \<Rightarrow> bytes \<Rightarrow> artwork_cache" where
  "cache_put c key info = (let c = filter (\<lambda>(candidate, _). candidate \<noteq> key) c;
       c = (if length c \<ge> ARTWORK_CACHE_LIMIT then tl c else c) in c @ [(key, info)])"

definition artwork_inner ::
    "'p daap_env \<Rightarrow> u32 option \<Rightarrow> u32 option \<Rightarrow> artwork_cache \<Rightarrow> ('p, bytes option \<times> artwork_cache) tv_act" where
  "artwork_inner env width height cache = tv_bind (playstatus env False) (\<lambda>p.
     let identifier = pl_hash p in
     case Option.bind identifier (cache_get cache) of
       Some cached \<Rightarrow> tv_ret (Some cached, cache)
     | None \<Rightarrow> tv_bind (artwork_bytes env width height) (\<lambda>b. case b of
         None \<Rightarrow> tv_ret (None, cache)
       | Some info \<Rightarrow> tv_ret (Some info, case identifier of None \<Rightarrow> cache | Some key \<Rightarrow> cache_put cache key info)))"

section \<open>The push loop\<close>

definition MIN_BACKOFF :: nat where "MIN_BACKOFF = 1000"
definition MAX_BACKOFF :: nat where "MAX_BACKOFF = 30000"

text \<open>Durations are milliseconds; \<open>Duration::saturating_mul\<close> stops at \<open>Duration::MAX\<close>, far above both.\<close>

definition backoff :: "nat \<Rightarrow> nat" where
  "backoff failures = (let doublings = min (failures - 1) 31 in min (MIN_BACKOFF * 2 ^ doublings) MAX_BACKOFF)"

text \<open>One turn of the loop: what the listeners are told, the failure count, and how long it sleeps; \<open>None\<close>
  when it ends.\<close>

datatype push_event = PlaystatusUpdate playing | PlaystatusError dmap_core_error | ConnectionLost bytes

definition saturating_inc32 :: "nat \<Rightarrow> nat" where
  "saturating_inc32 n = min (2 ^ 32 - 1) (n + 1)"

definition poll_turn ::
    "'p daap_env \<Rightarrow> nat \<Rightarrow> nat \<Rightarrow> 'p tv \<Rightarrow> push_event \<times> (nat \<times> nat) option \<times> 'p tv" where
  "poll_turn env initial_delay failures t = (case playstatus env True t of
     (Ok p, t') \<Rightarrow> (PlaystatusUpdate p, Some (0, 0), t')
   | (Err (DIo k m), t') \<Rightarrow> (ConnectionLost m, None, t')
   | (Err e, t') \<Rightarrow> (let n = saturating_inc32 failures in
       (PlaystatusError (core_error_of e), Some (n, max initial_delay (backoff n)), reset_revision t')))"

text \<open>A given number of turns: the events in order, and the milliseconds slept.\<close>

fun poll :: "'p daap_env \<Rightarrow> nat \<Rightarrow> nat \<Rightarrow> nat \<Rightarrow> 'p tv \<Rightarrow> (push_event \<times> nat) list \<times> 'p tv" where
  "poll env initial_delay 0 failures t = ([], t)"
| "poll env initial_delay (Suc k) failures t = (case poll_turn env initial_delay failures t of
     (e, None, t') \<Rightarrow> ([(e, 0)], t')
   | (e, Some (n, d), t') \<Rightarrow> (case poll env initial_delay k n t' of (es, t'') \<Rightarrow> ((e, d) # es, t'')))"

definition push_start :: "'p daap_env \<Rightarrow> nat \<Rightarrow> nat \<Rightarrow> 'p tv \<Rightarrow> (push_event \<times> nat) list \<times> 'p tv" where
  "push_start env initial_delay turns t = poll env initial_delay turns 0 (reset_revision t)"

section \<open>The artwork cache keeps the newest images\<close>

definition cache_inv :: "artwork_cache \<Rightarrow> bool" where
  "cache_inv c \<longleftrightarrow> distinct (map fst c) \<and> length c \<le> ARTWORK_CACHE_LIMIT"

fun put_all :: "(bytes \<times> bytes) list \<Rightarrow> artwork_cache \<Rightarrow> artwork_cache" where
  "put_all [] c = c"
| "put_all ((k, v) # kvs) c = put_all kvs (cache_put c k v)"

lemma cache_get_map_of: "cache_get c k = map_of c k"
  by (induction c) (auto simp: cache_get_def)

lemma cache_put_inv: "cache_inv c \<Longrightarrow> cache_inv (cache_put c k v)"
proof -
  let ?f = "filter (\<lambda>(candidate, _). candidate \<noteq> k) c"
  assume i: "cache_inv c"
  then have d: "distinct (map fst ?f)" "k \<notin> fst ` set ?f" by (auto simp: cache_inv_def distinct_map_filter)
  moreover have "distinct (map fst (tl ?f))" using d(1) by (simp add: map_tl distinct_tl)
  moreover have "k \<notin> fst ` set (tl ?f)" using d(2) by (cases ?f) auto
  moreover have "length ?f \<le> ARTWORK_CACHE_LIMIT"
    using i le_trans [OF length_filter_le] by (auto simp: cache_inv_def)
  ultimately show ?thesis by (auto simp: cache_inv_def cache_put_def Let_def ARTWORK_CACHE_LIMIT_def)
qed

lemma cache_put_get: "cache_get (cache_put c k v) k = Some v"
proof -
  let ?f = "filter (\<lambda>(candidate, _). candidate \<noteq> k) c"
  have n: "k \<notin> fst ` set ?f" by auto
  then have "map_of ?f k = None" by (simp only: map_of_eq_None_iff not_False_eq_True)
  moreover have "k \<notin> fst ` set (tl ?f)" using n by (cases ?f) auto
  then have "map_of (tl ?f) k = None" by (simp only: map_of_eq_None_iff not_False_eq_True)
  ultimately show ?thesis by (auto simp: cache_get_map_of cache_put_def Let_def map_add_def)
qed

text \<open>However images are put into it, the cache holds at most four, one for each key, and the image
  last put is there.\<close>

theorem artwork_cache_bounded:
  "cache_inv (put_all kvs []) \<and> cache_get (put_all (kvs @ [(k, v)]) []) k = Some v"
proof -
  have "cache_inv c \<Longrightarrow> cache_inv (put_all xs c)" for xs c
    by (induction xs c rule: put_all.induct) (auto intro: cache_put_inv)
  moreover have "put_all (xs @ [(k, v)]) c = cache_put (put_all xs c) k v" for xs c
    by (induction xs c rule: put_all.induct) auto
  ultimately show ?thesis by (simp add: cache_put_get cache_inv_def)
qed

section \<open>The push loop is paced\<close>

lemma backoff_bounds: "MIN_BACKOFF \<le> backoff n \<and> backoff n \<le> MAX_BACKOFF"
  by (simp add: backoff_def Let_def MIN_BACKOFF_def MAX_BACKOFF_def)

fun paced :: "nat \<Rightarrow> (push_event \<times> nat) list \<Rightarrow> bool" where
  "paced initial_delay [] = True"
| "paced initial_delay ((PlaystatusUpdate p, d) # es) \<longleftrightarrow> d = 0 \<and> paced initial_delay es"
| "paced initial_delay ((PlaystatusError e, d) # es) \<longleftrightarrow>
     max initial_delay MIN_BACKOFF \<le> d \<and> d \<le> max initial_delay MAX_BACKOFF \<and> paced initial_delay es"
| "paced initial_delay ((ConnectionLost m, d) # es) \<longleftrightarrow> es = []"

lemma poll_turn_cases:
  obtains (update) p t' where "poll_turn env initial_delay n t = (PlaystatusUpdate p, Some (0, 0), t')"
    | (error) e m d t' where "poll_turn env initial_delay n t = (PlaystatusError e, Some (m, d), t')"
        "max initial_delay MIN_BACKOFF \<le> d" "d \<le> max initial_delay MAX_BACKOFF"
    | (lost) msg t' where "poll_turn env initial_delay n t = (ConnectionLost msg, None, t')"
proof -
  obtain r t' where p: "playstatus env True t = (r, t')" by (cases "playstatus env True t")
  have b: "max initial_delay MIN_BACKOFF \<le> max initial_delay (backoff m)"
    "max initial_delay (backoff m) \<le> max initial_delay MAX_BACKOFF" for m
    using backoff_bounds [of m] by auto
  show ?thesis
  proof (cases r)
    case (Inr x)
    with p show ?thesis by (intro update) (simp add: poll_turn_def)
  next
    case (Inl e)
    show ?thesis
    proof (cases "\<exists>k m. e = DIo k m")
      case True
      with p Inl show ?thesis by (auto intro: lost simp: poll_turn_def)
    next
      case False
      then have "poll_turn env initial_delay n t = (PlaystatusError (core_error_of e),
          Some (saturating_inc32 n, max initial_delay (backoff (saturating_inc32 n))), reset_revision t')"
        using p Inl by (cases e) (simp_all add: poll_turn_def Let_def)
      from error [OF this b] show ?thesis .
    qed
  qed
qed

lemma poll_paced:
  "paced initial_delay (fst (poll env initial_delay k n t))
   \<and> (length (fst (poll env initial_delay k n t)) = k
      \<or> (\<exists>es m. fst (poll env initial_delay k n t) = es @ [(ConnectionLost m, 0)]))"
proof (induction k arbitrary: n t)
  case (Suc k)
  show ?case
  proof (cases rule: poll_turn_cases [of env initial_delay n t])
    case (update p t')
    with Suc [of 0 t'] show ?thesis by (auto split: prod.splits)
  next
    case (error e m d t')
    with Suc [of m t'] show ?thesis by (auto split: prod.splits)
  qed simp
qed simp

text \<open>The push loop never runs hot: after an update it asks again at once, after an error it sleeps
  at least a second and at most the cap (or the delay it was started with), and only the loss of the
  connection ends it.\<close>

theorem push_loop_paced:
  "paced initial_delay (fst (push_start env initial_delay turns t))
   \<and> (length (fst (push_start env initial_delay turns t)) = turns
      \<or> (\<exists>es m. fst (push_start env initial_delay turns t) = es @ [(ConnectionLost m, 0)]))"
  unfolding push_start_def by (rule poll_paced)

section \<open>Seeking\<close>

lemma sint_mult_exact:
  fixes p q :: i64
  shows "sint (p * q) = sint p * sint q \<longleftrightarrow> - (2 ^ 63) \<le> sint p * sint q \<and> sint p * sint q < 2 ^ 63"
proof -
  have s: "sint (p * q) = signed_take_bit 63 (sint p * sint q)"
    by (simp add: sint_word_ariths)
  show ?thesis unfolding s by (simp add: signed_take_bit_int_eq_self_iff)
qed

text \<open>A seek sends the milliseconds of the position exactly when they fit in 64 bits; an infinite
  position saturates to the largest second and its milliseconds wrap around to minus one second.\<close>

theorem seek_milliseconds:
  "(sint (truncate_toward_zero v * 1000) = 1000 * sint (truncate_toward_zero v)
     \<longleftrightarrow> - (2 ^ 63) \<le> 1000 * sint (truncate_toward_zero v) \<and> 1000 * sint (truncate_toward_zero v) < 2 ^ 63)
   \<and> sint (truncate_toward_zero 0x7F800000 * 1000) = - 1000"
proof
  show "sint (truncate_toward_zero v * 1000) = 1000 * sint (truncate_toward_zero v)
     \<longleftrightarrow> - (2 ^ 63) \<le> 1000 * sint (truncate_toward_zero v) \<and> 1000 * sint (truncate_toward_zero v) < 2 ^ 63"
    using sint_mult_exact [of "truncate_toward_zero v" 1000] by (simp add: mult.commute)
  show "sint (truncate_toward_zero 0x7F800000 * 1000) = - 1000"
    by (simp add: truncate_toward_zero_def f32_is_nan_def f32_infinite_def f32_negative_def f32_exponent_def f32_mantissa_def)
qed

end
