(* ===== verification/Daap_Relogin.thy ===== *)
theory Daap_Relogin
  imports Prelude
begin

text \<open>
  Several requests in flight at once, refused, and logging in again (\<open>pyatv-proto-dmap\<close>:
  \<open>daap.rs\<close>): the interleavings of the tasks that share one \<open>DaapRequester\<close>. Every access to the session id, every
  await and every change of the lock is a step of its own, and a task may be dropped at any of them. The
  device may hand out any session id, one it has used before included.
\<close>

section \<open>One task\<close>

text \<open>
  What a task wants the lock for: \<open>login\<close>, \<open>assure_logged_in\<close>, or \<open>relogin\<close> with the \<open>retry\<close> of its
  \<open>perform\<close>, the id its request was built with, the number of logins completed when it read the id it found
  stale, and that id.
\<close>

datatype purpose = ByLogin | ByFirst | ByRelogin bool u64 nat u64

text \<open>
  Where a task is: outside; about to build its request, with what is left of its \<open>retry\<close>; waiting for the
  answer to a request built with an id; refused; waiting for the lock; holding it before the ids are compared;
  waiting for the answer to a login request, which may be repeated once; and about to release the lock.
\<close>

datatype relogin_task =
  Outside
| Ready bool
| InFlight bool u64
| Refused bool u64
| Waiting purpose
| Holding purpose
| LoggingIn purpose bool
| Leaving purpose bool

text \<open>The session id, the task that holds \<open>login_lock\<close>, and the logins completed, each with the id it stored.\<close>

type_synonym shared = "u64 \<times> nat option \<times> (purpose \<times> u64) list"

text \<open>How a task goes on after \<open>login\<close> or \<open>relogin\<close> has returned: \<open>?\<close> passes an error on.\<close>

fun after_login :: "purpose \<Rightarrow> bool \<Rightarrow> relogin_task" where
  "after_login p False = Outside"
| "after_login ByLogin True = Outside"
| "after_login ByFirst True = Ready True"
| "after_login (ByRelogin retry built n stale) True = (if retry then Ready False else Outside)"

inductive task_step :: "nat \<Rightarrow> shared \<Rightarrow> relogin_task \<Rightarrow> shared \<Rightarrow> relogin_task \<Rightarrow> bool" for i where
  call: "c \<noteq> 0 \<Longrightarrow> task_step i (c, l, g) Outside (c, l, g) (Ready True)"
| assure: "task_step i (0, l, g) Outside (0, l, g) (Waiting ByFirst)"
| login: "task_step i (c, l, g) Outside (c, l, g) (Waiting ByLogin)"
| build: "task_step i (c, l, g) (Ready r) (c, l, g) (InFlight r c)"
| answered: "task_step i (c, l, g) (InFlight r b) (c, l, g) Outside"
| refused: "task_step i (c, l, g) (InFlight r b) (c, l, g) (Refused r b)"
| read_stale: "task_step i (c, l, g) (Refused r b) (c, l, g) (Waiting (ByRelogin r b (length g) c))"
| acquire: "task_step i (c, None, g) (Waiting p) (c, Some i, g) (Holding p)"
| moved_on: "c \<noteq> st \<Longrightarrow> task_step i (c, l, g) (Holding (ByRelogin r b n st)) (c, l, g) (Leaving (ByRelogin r b n st) True)"
| still_stale: "c = st \<Longrightarrow> task_step i (c, l, g) (Holding (ByRelogin r b n st)) (c, l, g) (LoggingIn (ByRelogin r b n st) True)"
| first_login: "p = ByLogin \<or> p = ByFirst \<Longrightarrow> task_step i (c, l, g) (Holding p) (c, l, g) (LoggingIn p True)"
| login_refused: "task_step i (c, l, g) (LoggingIn p True) (c, l, g) (LoggingIn p False)"
| logged_in: "task_step i (c, l, g) (LoggingIn p r) (sid, l, g @ [(p, sid)]) (Leaving p True)"
| login_failed: "task_step i (c, l, g) (LoggingIn p r) (c, l, g) (Leaving p False)"
| leave: "task_step i (c, l, g) (Leaving p ok) (c, None, g) (after_login p ok)"
| dropped: "task_step i (c, l, g) t (c, if l = Some i then None else l, g) Outside"

section \<open>All tasks\<close>

inductive relogin_step :: "shared \<times> (nat \<Rightarrow> relogin_task) \<Rightarrow> shared \<times> (nat \<Rightarrow> relogin_task) \<Rightarrow> bool" where
  "task_step i s (ts i) s' t \<Longrightarrow> relogin_step (s, ts) (s', ts(i := t))"

definition relogin_init :: "u64 \<Rightarrow> shared \<times> (nat \<Rightarrow> relogin_task)" where
  "relogin_init sid = ((sid, None, []), \<lambda>_. Outside)"

abbreviation relogin_reach :: "shared \<times> (nat \<Rightarrow> relogin_task) \<Rightarrow> shared \<times> (nat \<Rightarrow> relogin_task) \<Rightarrow> bool" where
  "relogin_reach \<equiv> relogin_step\<^sup>*\<^sup>*"

text \<open>The ids in force so far, the \<open>n\<close>-th one after \<open>n\<close> logins.\<close>

definition session_ids :: "u64 \<Rightarrow> (purpose \<times> u64) list \<Rightarrow> u64 list" where
  "session_ids sid g = sid # map snd g"

section \<open>What the lock and the comparison give\<close>

fun locked :: "relogin_task \<Rightarrow> bool" where
  "locked (Holding p) = True"
| "locked (LoggingIn p r) = True"
| "locked (Leaving p ok) = True"
| "locked _ = False"

text \<open>The purposes a task carries agree with the ids there have been; while it logs in, its stale id is the one in force.\<close>

definition read_from :: "u64 \<Rightarrow> (purpose \<times> u64) list \<Rightarrow> purpose \<Rightarrow> bool" where
  "read_from sid g p = (case p of ByRelogin r b n st \<Rightarrow> n \<le> length g \<and> session_ids sid g ! n = st | _ \<Rightarrow> True)"

definition in_force :: "u64 \<Rightarrow> purpose \<Rightarrow> bool" where
  "in_force c p = (case p of ByRelogin r b n st \<Rightarrow> c = st | _ \<Rightarrow> True)"

fun task_ok :: "u64 \<Rightarrow> u64 \<Rightarrow> (purpose \<times> u64) list \<Rightarrow> relogin_task \<Rightarrow> bool" where
  "task_ok sid c g (Waiting p) = read_from sid g p"
| "task_ok sid c g (Holding p) = read_from sid g p"
| "task_ok sid c g (LoggingIn p r) = (read_from sid g p \<and> in_force c p)"
| "task_ok sid c g (Leaving p ok) = read_from sid g p"
| "task_ok sid c g _ = True"

text \<open>The logins completed: each was made by the id in force when it was stored, which is the id found stale.\<close>

definition logins_ok :: "u64 \<Rightarrow> (purpose \<times> u64) list \<Rightarrow> bool" where
  "logins_ok sid g \<longleftrightarrow> (\<forall>m < length g. read_from sid (take m g) (fst (g ! m)) \<and> in_force (session_ids sid g ! m) (fst (g ! m)))"

definition relogin_inv :: "u64 \<Rightarrow> shared \<times> (nat \<Rightarrow> relogin_task) \<Rightarrow> bool" where
  "relogin_inv sid = (\<lambda>((c, l, g), ts). c = session_ids sid g ! length g \<and> logins_ok sid g
     \<and> (\<forall>i. locked (ts i) \<longleftrightarrow> l = Some i) \<and> (\<forall>i. task_ok sid c g (ts i)))"

lemma session_ids_append: "session_ids sid (g @ [e]) = session_ids sid g @ [snd e]"
  by (simp add: session_ids_def)

lemma length_session_ids: "length (session_ids sid g) = Suc (length g)"
  by (simp add: session_ids_def)

lemma read_from_append: "read_from sid g p \<Longrightarrow> read_from sid (g @ [e]) p"
  by (auto simp: read_from_def session_ids_append nth_append length_session_ids split: purpose.splits)

lemma task_ok_append: "\<not> locked t \<Longrightarrow> task_ok sid c g t \<Longrightarrow> task_ok sid c' (g @ [e]) t"
  by (cases t) (auto intro: read_from_append)

lemma logins_ok_append:
  assumes "logins_ok sid g" and "read_from sid g p" and "in_force (session_ids sid g ! length g) p"
  shows "logins_ok sid (g @ [(p, new)])"
  using assms by (auto simp: logins_ok_def nth_append session_ids_append length_session_ids less_Suc_eq)

lemma relogin_inv_step:
  assumes "relogin_step x y" and "relogin_inv sid x"
  shows "relogin_inv sid y"
  using assms(1)
proof cases
  case (1 i s ts s' t)
  obtain c l g where s: "s = (c, l, g)" by (cases s)
  have c: "c = session_ids sid g ! length g" and lg: "logins_ok sid g"
    and lk: "\<And>j. locked (ts j) \<longleftrightarrow> l = Some j" and tk: "\<And>j. task_ok sid c g (ts j)"
    using assms(2) unfolding relogin_inv_def 1(1) s prod.case by blast+
  note have_i = lk [of i] tk [of i]
  let ?goal = "relogin_inv sid (s', ts(i := t))"
  from 1(3) [unfolded s] have ?goal
  proof cases
    case (logged_in p r new)
    then have l: "l = Some i" using have_i by simp
    with lk have "\<not> locked (ts j)" if "j \<noteq> i" for j using that by simp
    then have o: "task_ok sid new (g @ [(p, new)]) (ts j)" if "j \<noteq> i" for j using that tk task_ok_append by blast
    have "logins_ok sid (g @ [(p, new)])" using logged_in have_i lg c by (intro logins_ok_append) simp_all
    moreover have "read_from sid (g @ [(p, new)]) p" using logged_in have_i by (intro read_from_append) simp
    ultimately show ?goal using logged_in o lk l
      by (auto simp: relogin_inv_def session_ids_append nth_append length_session_ids)
  next
    case read_stale
    with have_i lk tk c lg show ?goal by (auto simp: relogin_inv_def read_from_def)
  next
    case (leave p ok)
    have "\<not> locked (after_login p ok)" "task_ok sid c g (after_login p ok)" by (cases "(p, ok)" rule: after_login.cases; simp)+
    with leave have_i lk tk c lg show ?goal by (auto simp: relogin_inv_def)
  next
    case moved_on
    with have_i lk tk c lg show ?goal by (auto simp: relogin_inv_def)
  next
    case still_stale
    with have_i lk tk c lg show ?goal by (auto simp: relogin_inv_def in_force_def)
  next
    case first_login
    with have_i lk tk c lg show ?goal by (auto simp: relogin_inv_def in_force_def)
  next
    case acquire
    with have_i lk tk c lg show ?goal by (auto simp: relogin_inv_def)
  next
    case dropped
    with lk tk c lg show ?goal by (auto simp: relogin_inv_def)
  qed (use have_i lk tk c lg in \<open>auto simp: relogin_inv_def read_from_def\<close>)
  with 1(2) show ?thesis by simp
qed

lemma relogin_inv_reach: "relogin_reach (relogin_init sid) x \<Longrightarrow> relogin_inv sid x"
proof (induction rule: rtranclp_induct)
  case base
  show ?case by (simp add: relogin_inv_def relogin_init_def session_ids_def logins_ok_def)
qed (rule relogin_inv_step)

text \<open>
  C21: what the lock of \<open>relogin\<close> is for. However the requests of any number of tasks interleave, are refused or
  dropped, and whatever session ids the device hands out: at most one task is between taking the lock and its release; a
  task that logs in again does so while the id it found stale is still in force, from its comparison to the answer; and
  so every completed login of \<open>relogin\<close> replaces the very id found stale. If a login came in between, the device
  had handed that id out again; as long as it hands out no id twice, nobody logged in between a task's
  reading of the stale id and its own login, and no two logins replace one reading.
\<close>

theorem one_login_per_stale_id:
  assumes "relogin_reach (relogin_init sid) ((c, l, g), ts)"
  shows "(\<forall>i j. locked (ts i) \<and> locked (ts j) \<longrightarrow> i = j)
    \<and> (\<forall>i r b n st again. ts i = LoggingIn (ByRelogin r b n st) again \<longrightarrow> c = st)
    \<and> (\<forall>m r b n st. m < length g \<and> fst (g ! m) = ByRelogin r b n st \<longrightarrow>
        n \<le> m \<and> session_ids sid g ! n = st \<and> session_ids sid g ! m = st \<and> (distinct (session_ids sid g) \<longrightarrow> n = m))"
proof (intro conjI allI impI; (elim conjE)?)
  have I: "logins_ok sid g" "\<And>j. locked (ts j) \<longleftrightarrow> l = Some j" "\<And>j. task_ok sid c g (ts j)"
    using relogin_inv_reach [OF assms] unfolding relogin_inv_def prod.case by blast+
  show "i = j" if "locked (ts i)" "locked (ts j)" for i j using that I(2) by simp
  show "c = st" if "ts i = LoggingIn (ByRelogin r b n st) again" for i r b n st again
    using I(3) [of i] that by (simp add: in_force_def)
  fix m r b n st
  assume m: "m < length g" "fst (g ! m) = ByRelogin r b n st"
  with I(1) have "read_from sid (take m g) (ByRelogin r b n st)" and f: "in_force (session_ids sid g ! m) (ByRelogin r b n st)"
    by (auto simp: logins_ok_def)
  then have n: "n \<le> m" "session_ids sid (take m g) ! n = st" using m(1) by (simp_all add: read_from_def)
  show "n \<le> m" by (rule n(1))
  have "session_ids sid (take m g) = take (Suc m) (session_ids sid g)" by (simp add: session_ids_def take_map)
  with n show e: "session_ids sid g ! n = st" by simp
  show e': "session_ids sid g ! m = st" using f by (simp add: in_force_def)
  show "n = m" if "distinct (session_ids sid g)"
    using nth_eq_iff_index_eq [OF that, of n m] e e' n(1) m(1) by (simp add: length_session_ids)
qed

section \<open>Two runs\<close>

definition two :: "relogin_task \<Rightarrow> relogin_task \<Rightarrow> nat \<Rightarrow> relogin_task" where
  "two a b = (\<lambda>_. Outside)(0 := a, 1 := b)"

lemma two_start: "relogin_reach (relogin_init sid) ((sid, None, []), two Outside Outside)"
  by (simp add: relogin_init_def two_def fun_upd_idem)

lemma two_steps:
  "relogin_reach x (s, two a b) \<Longrightarrow> task_step 0 s a s' a' \<Longrightarrow> relogin_reach x (s', two a' b)"
  "relogin_reach x (s, two a b) \<Longrightarrow> task_step 1 s b s' b' \<Longrightarrow> relogin_reach x (s', two a b')"
  using relogin_step.intros [of 0 s "two a b" s' a'] relogin_step.intros [of 1 s "two a b" s' b']
  by (auto simp: two_def fun_upd_twist elim: rtranclp.rtrancl_into_rtrancl)

lemmas first_task = two_steps(1)
lemmas second_task = two_steps(2)

text \<open>Two requests built with id 5. The first is refused and logs in; the second is refused afterwards, finds id 6 and logs in.\<close>

lemma late_refusal_run:
  "relogin_reach (relogin_init 5)
     ((7, None, [(ByRelogin True 5 0 5, 6), (ByRelogin True 5 1 6, 7)]), two (Ready False) (Ready False))"
proof -
  note h0 = two_start [of 5]
  note h1 = first_task [OF h0 task_step.call, simplified]
  note h2 = second_task [OF h1 task_step.call, simplified]
  note h3 = first_task [OF h2 task_step.build]
  note h4 = second_task [OF h3 task_step.build]
  note h5 = first_task [OF h4 task_step.refused]
  note h6 = first_task [OF h5 task_step.read_stale]
  note h7 = first_task [OF h6 task_step.acquire]
  note h8 = first_task [OF h7 task_step.still_stale [OF refl]]
  note h9 = first_task [OF h8 task_step.logged_in [where sid = 6]]
  note h10 = first_task [OF h9 task_step.leave]
  note h11 = second_task [OF h10 task_step.refused]
  note h12 = second_task [OF h11 task_step.read_stale]
  note h13 = second_task [OF h12 task_step.acquire]
  note h14 = second_task [OF h13 task_step.still_stale [OF refl]]
  note h15 = second_task [OF h14 task_step.logged_in [where sid = 7]]
  note h16 = second_task [OF h15 task_step.leave]
  from h16 show ?thesis by simp
qed

theorem one_login_per_stale_id_witness:
  "distinct (session_ids 5 [(ByRelogin True 5 0 5, 6), (ByRelogin True 5 1 6, 7)])
   \<and> session_ids 5 [(ByRelogin True 5 0 5, 6), (ByRelogin True 5 1 6, 7)] ! 1 = 6"
proof -
  have "session_ids 5 [(ByRelogin True 5 0 5, 6), (ByRelogin True 5 1 6, 7)] ! 1 = 6"
    using one_login_per_stale_id [OF late_refusal_run] by force
  then show ?thesis by (simp add: session_ids_def)
qed

text \<open>
  The id a refused request was built with is not what decides: two requests built with the same
  session id can cause two logins, because \<open>relogin\<close> reads the id to compare with only after the refusal.
\<close>

theorem late_refusal_logs_in_again:
  "\<exists>s ts new new'. relogin_reach (relogin_init 5) ((s, None, [(ByRelogin True 5 0 5, new), (ByRelogin True 5 1 new, new')]), ts) \<and> new \<noteq> 5"
  using late_refusal_run by (intro exI conjI) (assumption, simp)

text \<open>
  A device that hands the refused id out again defeats the comparison: both tasks have read id 5 as stale, the first logs
  in and gets 5, and the second logs in all the same.
\<close>

theorem reissued_id_logs_in_again:
  "\<exists>s ts. relogin_reach (relogin_init 5) ((s, None, [(ByRelogin True 5 0 5, 5), (ByRelogin True 5 0 5, 6)]), ts)"
proof -
  note h0 = two_start [of 5]
  note h1 = first_task [OF h0 task_step.call, simplified]
  note h2 = second_task [OF h1 task_step.call, simplified]
  note h3 = first_task [OF h2 task_step.build]
  note h4 = second_task [OF h3 task_step.build]
  note h5 = first_task [OF h4 task_step.refused]
  note h6 = second_task [OF h5 task_step.refused]
  note h7 = first_task [OF h6 task_step.read_stale]
  note h8 = second_task [OF h7 task_step.read_stale]
  note h9 = first_task [OF h8 task_step.acquire]
  note h10 = first_task [OF h9 task_step.still_stale [OF refl]]
  note h11 = first_task [OF h10 task_step.logged_in [where sid = 5]]
  note h12 = first_task [OF h11 task_step.leave]
  note h13 = second_task [OF h12 task_step.acquire]
  note h14 = second_task [OF h13 task_step.still_stale [OF refl]]
  note h15 = second_task [OF h14 task_step.logged_in [where sid = 6]]
  note h16 = second_task [OF h15 task_step.leave]
  from h16 show ?thesis by auto
qed

end
