(* ===== verification/Pairing_Crypto.thy ===== *)
theory Pairing_Crypto
  imports Tlv8 Chacha Rust_Str
begin

text \<open>
  What the HAP pairing state machines of \<open>pyatv-pairing\<close> share: the errors (\<open>error.rs\<close>), the key
  derivation (\<open>hkdf_derive.rs\<close>), the handshake's sealed boxes (\<open>srp_hap/handshake.rs\<close>), the
  Ed25519 and X25519 wrappers (\<open>srp_hap/keys.rs\<close>) and the SRP client (\<open>srp_hap/client.rs\<close>). The
  primitives come from other crates; they are the fields of the record \<open>crypto\<close>, an argument of every
  definition that uses them, and \<open>crypto_ok\<close> states what the code relies on. Random draws are arguments.
\<close>

section \<open>Errors\<close>

datatype hap_error =
  HTlv tlv_error
| HapErrorCode error_code
| UnexpectedState u8 u8
| ProofMismatch
| HAead bytes
| HInvalidCredentials bytes
| HMalformedResponse bytes
| HKeyLength nat nat
| UnknownHapError u8
| SrpPublicKey bytes
| OutOfOrder bytes
| MissingPin
| InvalidKey bytes
| SetupSignature
| VerifySignature
| IdentifierMismatch bytes bytes

primrec debug_error_code :: "error_code \<Rightarrow> bytes" where
  "debug_error_code ECUnknown = lit ''Unknown''"
| "debug_error_code ECAuthentication = lit ''Authentication''"
| "debug_error_code ECBackOff = lit ''BackOff''"
| "debug_error_code ECMaxPeers = lit ''MaxPeers''"
| "debug_error_code ECMaxTries = lit ''MaxTries''"
| "debug_error_code ECUnavailable = lit ''Unavailable''"
| "debug_error_code ECBusy = lit ''Busy''"

primrec debug_tlv_value :: "tlv_value \<Rightarrow> bytes" where
  "debug_tlv_value Method = lit ''Method''"
| "debug_tlv_value Identifier = lit ''Identifier''"
| "debug_tlv_value Salt = lit ''Salt''"
| "debug_tlv_value PublicKey = lit ''PublicKey''"
| "debug_tlv_value Proof = lit ''Proof''"
| "debug_tlv_value EncryptedData = lit ''EncryptedData''"
| "debug_tlv_value SeqNo = lit ''SeqNo''"
| "debug_tlv_value TlvErrorTag = lit ''Error''"
| "debug_tlv_value BackOff = lit ''BackOff''"
| "debug_tlv_value Certificate = lit ''Certificate''"
| "debug_tlv_value Signature = lit ''Signature''"
| "debug_tlv_value Permissions = lit ''Permissions''"
| "debug_tlv_value FragmentData = lit ''FragmentData''"
| "debug_tlv_value FragmentLast = lit ''FragmentLast''"
| "debug_tlv_value NameTag = lit ''Name''"
| "debug_tlv_value FlagsTag = lit ''Flags''"

definition hex_byte :: "u8 \<Rightarrow> bytes" where
  "hex_byte b = lit ''0x'' @ hex_encode [b]"

primrec display_tlv_error :: "tlv_error \<Rightarrow> bytes" where
  "display_tlv_error (TruncatedHeader off) =
     lit ''malformed TLV8 payload: truncated entry header at offset '' @ decimal off"
| "display_tlv_error (ShortValue tag want have) =
     lit ''malformed TLV8 payload: entry with tag '' @ hex_byte tag @ lit '' claims '' @ decimal want
       @ lit '' bytes but only '' @ decimal have @ lit '' remain''"
| "display_tlv_error (MissingTlv t) =
     lit ''required TLV entry '' @ debug_tlv_value t @ lit '' missing from device response''"

primrec display_hap_error :: "hap_error \<Rightarrow> bytes" where
  "display_hap_error (HTlv e) = display_tlv_error e"
| "display_hap_error (HapErrorCode c) = lit ''device reported HAP error '' @ debug_error_code c"
| "display_hap_error (UnexpectedState e a) =
     lit ''unexpected pairing state: expected M'' @ decimal (unat e) @ lit '', got M'' @ decimal (unat a)"
| "display_hap_error ProofMismatch = lit ''SRP proof did not verify''"
| "display_hap_error (HAead operation) = operation @ lit '' failed: authentication tag did not verify''"
| "display_hap_error (HInvalidCredentials m) = lit ''invalid credentials: '' @ m"
| "display_hap_error (HMalformedResponse m) = lit ''malformed device response: '' @ m"
| "display_hap_error (HKeyLength e a) = lit ''expected '' @ decimal e @ lit '' bytes of key material, got '' @ decimal a"
| "display_hap_error (UnknownHapError b) = lit ''device reported unknown HAP error code '' @ hex_byte b"
| "display_hap_error (SrpPublicKey peer) = lit ''invalid SRP public value from '' @ peer"
| "display_hap_error (OutOfOrder m) = lit ''pairing step out of order: '' @ m"
| "display_hap_error MissingPin = lit ''no PIN has been supplied''"
| "display_hap_error (InvalidKey kind) = lit ''invalid '' @ kind @ lit '' key material''"
| "display_hap_error SetupSignature = lit ''accessory signature in pair-setup M6 did not verify''"
| "display_hap_error VerifySignature = lit ''accessory signature in pair-verify M2 did not verify''"
| "display_hap_error (IdentifierMismatch e a) =
     lit ''accessory identifier mismatch: credentials name '' @ e @ lit '', device sent '' @ a"

text \<open>The errors of the record cipher are two of these.\<close>

primrec hap_of_pairing :: "pairing_error \<Rightarrow> hap_error" where
  "hap_of_pairing (AeadFailed operation) = HAead operation"
| "hap_of_pairing (CounterExhausted direction) = HMalformedResponse (lit ''the '' @ direction
     @ lit '' ChaCha20 message counter is exhausted; the session must be torn down rather than reuse a nonce'')"

text \<open>The classes of \<open>pyatv_core::Error\<close> a pairing error becomes.\<close>

datatype hap_core_error = HapAuthentication bytes | HapInvalidCredentials bytes | HapPairing bytes

text \<open>The peer is not who the credentials say, or does not accept who we say we are.\<close>

definition identity_rejected :: "hap_error \<Rightarrow> bool" where
  "identity_rejected e = (case e of
     ProofMismatch \<Rightarrow> True | HAead _ \<Rightarrow> True | SetupSignature \<Rightarrow> True | VerifySignature \<Rightarrow> True
   | IdentifierMismatch _ _ \<Rightarrow> True | HapErrorCode c \<Rightarrow> c = ECAuthentication | _ \<Rightarrow> False)"

definition hap_core_of :: "hap_error \<Rightarrow> hap_core_error" where
  "hap_core_of e =
     (if identity_rejected e then HapAuthentication (display_hap_error e)
      else case e of HInvalidCredentials m \<Rightarrow> HapInvalidCredentials m | _ \<Rightarrow> HapPairing (display_hap_error e))"

section \<open>The primitives\<close>

text \<open>
  \<open>cr_hkdf salt info ikm\<close> is the 32-byte expansion, \<open>cr_srp_reply secret user pin salt B\<close> the raw
  premaster secret, \<open>cr_srp_server_reply user salt seed verifier A\<close> the session key, the proof the
  server expects of the client, and its own.
\<close>

record crypto =
  cr_aead :: aead
  cr_hkdf :: "bytes \<Rightarrow> bytes \<Rightarrow> bytes \<Rightarrow> bytes option"
  cr_ed_public :: "bytes \<Rightarrow> bytes"
  cr_ed_sign :: "bytes \<Rightarrow> bytes \<Rightarrow> bytes"
  cr_ed_verify :: "bytes \<Rightarrow> bytes \<Rightarrow> bytes \<Rightarrow> bool"
  cr_x25519 :: "bytes \<Rightarrow> bytes \<Rightarrow> bytes"
  cr_basepoint :: bytes
  cr_sha512 :: "bytes \<Rightarrow> bytes"
  cr_srp_public :: "bytes \<Rightarrow> bytes"
  cr_srp_reply :: "bytes \<Rightarrow> bytes \<Rightarrow> bytes \<Rightarrow> bytes \<Rightarrow> bytes \<Rightarrow> bytes option"
  cr_srp_m1 :: "bytes \<Rightarrow> bytes \<Rightarrow> bytes \<Rightarrow> bytes \<Rightarrow> bytes \<Rightarrow> bytes"
  cr_srp_m2 :: "bytes \<Rightarrow> bytes \<Rightarrow> bytes \<Rightarrow> bytes"
  cr_srp_verifier :: "bytes \<Rightarrow> bytes \<Rightarrow> bytes \<Rightarrow> bytes"
  cr_srp_server_public :: "bytes \<Rightarrow> bytes \<Rightarrow> bytes"
  cr_srp_server_reply :: "bytes \<Rightarrow> bytes \<Rightarrow> bytes \<Rightarrow> bytes \<Rightarrow> bytes \<Rightarrow> (bytes \<times> bytes \<times> bytes) option"

section \<open>Key derivation\<close>

definition HKDF_KEY_LEN :: nat where
  "HKDF_KEY_LEN = 32"

definition hkdf_refused :: "bytes \<Rightarrow> bytes" where
  "hkdf_refused info = lit ''HKDF-SHA512 refused a '' @ decimal HKDF_KEY_LEN @ lit ''-byte expansion for info '' @ [34] @ info @ [34]"

text \<open>The information strings are ASCII without quotes, so their debug form is the string in quotes.\<close>

definition expand :: "crypto \<Rightarrow> bytes \<Rightarrow> bytes \<Rightarrow> bytes \<Rightarrow> hap_error + bytes" where
  "expand C salt info ikm = ok_or (cr_hkdf C salt info ikm) (HMalformedResponse (hkdf_refused info))"

definition CONTROLLER_SIGN_SALT :: bytes where "CONTROLLER_SIGN_SALT = lit ''Pair-Setup-Controller-Sign-Salt''"
definition CONTROLLER_SIGN_INFO :: bytes where "CONTROLLER_SIGN_INFO = lit ''Pair-Setup-Controller-Sign-Info''"
definition ACCESSORY_SIGN_SALT :: bytes where "ACCESSORY_SIGN_SALT = lit ''Pair-Setup-Accessory-Sign-Salt''"
definition ACCESSORY_SIGN_INFO :: bytes where "ACCESSORY_SIGN_INFO = lit ''Pair-Setup-Accessory-Sign-Info''"
definition SETUP_ENCRYPT_SALT :: bytes where "SETUP_ENCRYPT_SALT = lit ''Pair-Setup-Encrypt-Salt''"
definition SETUP_ENCRYPT_INFO :: bytes where "SETUP_ENCRYPT_INFO = lit ''Pair-Setup-Encrypt-Info''"
definition VERIFY_ENCRYPT_SALT :: bytes where "VERIFY_ENCRYPT_SALT = lit ''Pair-Verify-Encrypt-Salt''"
definition VERIFY_ENCRYPT_INFO :: bytes where "VERIFY_ENCRYPT_INFO = lit ''Pair-Verify-Encrypt-Info''"

record transport_keys =
  tk_salt :: bytes
  tk_write_info :: bytes
  tk_read_info :: bytes

definition MRP_KEYS :: transport_keys where
  "MRP_KEYS = \<lparr>tk_salt = lit ''MediaRemote-Salt'', tk_write_info = lit ''MediaRemote-Write-Encryption-Key'',
     tk_read_info = lit ''MediaRemote-Read-Encryption-Key''\<rparr>"

definition COMPANION_KEYS :: transport_keys where
  "COMPANION_KEYS = \<lparr>tk_salt = [], tk_write_info = lit ''ClientEncrypt-main'', tk_read_info = lit ''ServerEncrypt-main''\<rparr>"

definition AIRPLAY_CONTROL :: transport_keys where
  "AIRPLAY_CONTROL = \<lparr>tk_salt = lit ''Control-Salt'', tk_write_info = lit ''Control-Write-Encryption-Key'',
     tk_read_info = lit ''Control-Read-Encryption-Key''\<rparr>"

definition AIRPLAY_EVENTS :: transport_keys where
  "AIRPLAY_EVENTS = \<lparr>tk_salt = lit ''Events-Salt'', tk_write_info = lit ''Events-Write-Encryption-Key'',
     tk_read_info = lit ''Events-Read-Encryption-Key''\<rparr>"

definition AIRPLAY_DATA_STREAM :: transport_keys where
  "AIRPLAY_DATA_STREAM = \<lparr>tk_salt = lit ''DataStream-Salt'', tk_write_info = lit ''DataStream-Output-Encryption-Key'',
     tk_read_info = lit ''DataStream-Input-Encryption-Key''\<rparr>"

definition data_stream_salt :: "u64 \<Rightarrow> bytes" where
  "data_stream_salt seed = tk_salt AIRPLAY_DATA_STREAM @ decimal (unat seed)"

record session_keys =
  sk_shared_secret :: bytes
  sk_output_key :: bytes
  sk_input_key :: bytes

section \<open>Sealed boxes\<close>

definition PAIR_SETUP_M5_NONCE :: bytes where "PAIR_SETUP_M5_NONCE = lit ''PS-Msg05''"
definition PAIR_SETUP_M6_NONCE :: bytes where "PAIR_SETUP_M6_NONCE = lit ''PS-Msg06''"
definition PAIR_VERIFY_M2_NONCE :: bytes where "PAIR_VERIFY_M2_NONCE = lit ''PV-Msg02''"
definition PAIR_VERIFY_M3_NONCE :: bytes where "PAIR_VERIFY_M3_NONCE = lit ''PV-Msg03''"

definition handshake_nonce :: "bytes \<Rightarrow> bytes" where
  "handshake_nonce label = replicate 4 0 @ label"

definition seal_box :: "crypto \<Rightarrow> bytes \<Rightarrow> bytes \<Rightarrow> bytes \<Rightarrow> hap_error + bytes" where
  "seal_box C key label plaintext =
     ok_or (aead_seal (cr_aead C) key (handshake_nonce label) plaintext []) (HAead (lit ''encrypt''))"

definition open_box :: "crypto \<Rightarrow> bytes \<Rightarrow> bytes \<Rightarrow> bytes \<Rightarrow> hap_error + bytes" where
  "open_box C key label ciphertext =
     ok_or (aead_open (cr_aead C) key (handshake_nonce label) ciphertext []) (HAead (lit ''decrypt''))"

section \<open>Keys\<close>

definition X25519_LEN :: nat where "X25519_LEN = 32"
definition SEED_LEN :: nat where "SEED_LEN = 32"

definition verify_signature :: "crypto \<Rightarrow> bytes \<Rightarrow> bytes \<Rightarrow> bytes \<Rightarrow> bool" where
  "verify_signature C public_key message signature \<longleftrightarrow>
     length public_key = 32 \<and> length signature = 64 \<and> cr_ed_verify C public_key message signature"

definition x25519_public_key :: "crypto \<Rightarrow> bytes \<Rightarrow> bytes" where
  "x25519_public_key C scalar = cr_x25519 C scalar (cr_basepoint C)"

text \<open>\<open>EphemeralExchange::exchange\<close>; the exchange is its scalar.\<close>

definition ephemeral_exchange :: "crypto \<Rightarrow> bytes \<Rightarrow> bytes \<Rightarrow> hap_error + bytes" where
  "ephemeral_exchange C scalar peer =
     (if length peer = X25519_LEN then Ok (cr_x25519 C scalar peer)
      else Err (InvalidKey (lit ''peer X25519 public'')))"

section \<open>The SRP client\<close>

definition PAIR_SETUP_USERNAME :: bytes where "PAIR_SETUP_USERNAME = lit ''Pair-Setup''"
definition MODULUS_LEN :: nat where "MODULUS_LEN = 384"

definition minimal_be :: "bytes \<Rightarrow> bytes" where
  "minimal_be bs = (case dropWhile (\<lambda>b. b = 0) bs of [] \<Rightarrow> [0] | rest \<Rightarrow> rest)"

record srp_exchange =
  ex_session_key :: bytes
  ex_client_proof :: bytes
  ex_device_proof :: bytes

record srp_client =
  srp_pin :: bytes
  srp_secret :: bytes
  srp_public :: bytes
  srp_exchanged :: "srp_exchange option"

text \<open>\<open>{pin:04}\<close>.\<close>

definition pad_pin :: "nat \<Rightarrow> bytes" where
  "pad_pin pin = (let d = decimal pin in replicate (4 - length d) 48 @ d)"

definition srp_with_pin :: "crypto \<Rightarrow> bytes \<Rightarrow> bytes \<Rightarrow> srp_client" where
  "srp_with_pin C pin secret =
     \<lparr>srp_pin = pin, srp_secret = secret, srp_public = minimal_be (cr_srp_public C secret), srp_exchanged = None\<rparr>"

definition srp_new :: "crypto \<Rightarrow> nat \<Rightarrow> bytes \<Rightarrow> srp_client" where
  "srp_new C pin secret = srp_with_pin C (pad_pin pin) secret"

definition process_challenge :: "crypto \<Rightarrow> bytes \<Rightarrow> bytes \<Rightarrow> srp_client \<Rightarrow> (hap_error + bytes) \<times> srp_client" where
  "process_challenge C salt device_key s =
     (let B = minimal_be device_key in
      if length B > MODULUS_LEN then (Err (SrpPublicKey (lit ''accessory'')), s)
      else case cr_srp_reply C (srp_secret s) PAIR_SETUP_USERNAME (srp_pin s) salt B of
             None \<Rightarrow> (Err (SrpPublicKey (lit ''accessory'')), s)
           | Some premaster \<Rightarrow>
               (let K = cr_sha512 C premaster;
                    m1 = cr_srp_m1 C PAIR_SETUP_USERNAME salt (srp_public s) B K;
                    m2 = cr_srp_m2 C (srp_public s) m1 K in
                (Ok m1, s\<lparr>srp_exchanged := Some \<lparr>ex_session_key = K, ex_client_proof = m1, ex_device_proof = m2\<rparr>\<rparr>)))"

definition verify_device_proof :: "bytes \<Rightarrow> srp_client \<Rightarrow> hap_error + unit" where
  "verify_device_proof proof s =
     rbind (ok_or (srp_exchanged s) (OutOfOrder (lit ''SRP challenge has not been processed''))) (\<lambda>ex.
       if ex_device_proof ex = proof then Ok () else Err ProofMismatch)"

definition srp_session_key :: "srp_client \<Rightarrow> bytes option" where
  "srp_session_key s = map_option ex_session_key (srp_exchanged s)"

definition srp_client_proof :: "srp_client \<Rightarrow> bytes option" where
  "srp_client_proof s = map_option ex_client_proof (srp_exchanged s)"

section \<open>Responses\<close>

text \<open>\<open>State::Mn as u8\<close> is \<open>n\<close>.\<close>

definition tlv_decoded :: "bytes \<Rightarrow> hap_error + tlv8" where
  "tlv_decoded bs = map_err HTlv (tlv_decode bs)"

definition require_owned :: "tlv8 \<Rightarrow> tlv_value \<Rightarrow> hap_error + bytes" where
  "require_owned m t = map_err HTlv (require m t)"

definition seq_no_width :: "nat \<Rightarrow> bytes" where
  "seq_no_width n = lit ''SeqNo is '' @ decimal n @ lit '' bytes, expected exactly 1''"

definition decode_response :: "bytes \<Rightarrow> u8 \<Rightarrow> hap_error + tlv8" where
  "decode_response payload expected = rbind (tlv_decoded payload) (\<lambda>tlv.
     case tlv_get tlv TlvErrorTag of
       Some v \<Rightarrow> (let code = (case v of [] \<Rightarrow> 0 | b # _ \<Rightarrow> b) in
         Err (case error_code_from code of None \<Rightarrow> UnknownHapError code | Some c \<Rightarrow> HapErrorCode c))
     | None \<Rightarrow> rbind (require_owned tlv SeqNo) (\<lambda>seq_no.
         case seq_no of
           [actual] \<Rightarrow> if actual = expected then Ok tlv else Err (UnexpectedState expected actual)
         | _ \<Rightarrow> Err (HMalformedResponse (seq_no_width (length seq_no)))))"

text \<open>\<open>random_pairing_id\<close>: a version 4 UUID over sixteen random bytes.\<close>

definition random_pairing_id :: "bytes \<Rightarrow> bytes" where
  "random_pairing_id seed = (let
     bs = take 16 seed;
     bs = bs[6 := or (and (bs ! 6) 0x0F) 0x40];
     bs = bs[8 := or (and (bs ! 8) 0x3F) 0x80];
     hex = hex_encode bs in
     take 8 hex @ [45] @ take 4 (drop 8 hex) @ [45] @ take 4 (drop 12 hex) @ [45] @ take 4 (drop 16 hex) @ [45]
       @ take 12 (drop 20 hex))"

end
