(* ===== verification/Hap_Credentials.thy ===== *)
theory Hap_Credentials
  imports Pairing_Crypto
begin

text \<open>
  Stored credentials and their text form (\<open>pyatv-pairing\<close>: \<open>credentials.rs\<close>). \<open>unhex\<close> stands for
  \<open>hex::decode\<close>, which answers the bytes or the text of its error; \<open>unhex_ok\<close> is its documented
  inverse law.
\<close>

datatype authentication_type = AuthNull | AuthLegacy | AuthHap | AuthTransient

definition TRANSIENT_SENTINEL :: bytes where "TRANSIENT_SENTINEL = lit ''transient''"

record hap_credentials =
  ltpk :: bytes
  ltsk :: bytes
  atv_id :: bytes
  client_id :: bytes

definition credentials_null :: hap_credentials where
  "credentials_null = \<lparr>ltpk = [], ltsk = [], atv_id = [], client_id = []\<rparr>"

definition credentials_transient :: hap_credentials where
  "credentials_transient = credentials_null\<lparr>ltpk := TRANSIENT_SENTINEL\<rparr>"

definition populated :: "bytes \<Rightarrow> bytes" where
  "populated f = (if f = [] then lit ''empty'' else lit ''set'')"

definition no_such_shape :: "hap_credentials \<Rightarrow> bytes" where
  "no_such_shape c = lit ''no authentication type has this shape: ltpk '' @ populated (ltpk c) @ lit '', ltsk ''
     @ populated (ltsk c) @ lit '', atv_id '' @ populated (atv_id c) @ lit '', client_id '' @ populated (client_id c)"

definition try_authentication_type :: "hap_credentials \<Rightarrow> hap_error + authentication_type" where
  "try_authentication_type c =
     (if ltpk c = [] \<and> ltsk c = [] \<and> atv_id c = [] \<and> client_id c = [] then Ok AuthNull
      else if ltpk c = TRANSIENT_SENTINEL then Ok AuthTransient
      else if ltpk c = [] \<and> ltsk c \<noteq> [] \<and> atv_id c = [] \<and> client_id c \<noteq> [] then Ok AuthLegacy
      else if ltpk c \<noteq> [] \<and> ltsk c \<noteq> [] \<and> atv_id c \<noteq> [] \<and> client_id c \<noteq> [] then Ok AuthHap
      else Err (HInvalidCredentials (no_such_shape c)))"

definition authentication_type_of :: "hap_credentials \<Rightarrow> authentication_type" where
  "authentication_type_of c = (case try_authentication_type c of Ok t \<Rightarrow> t | Err _ \<Rightarrow> AuthNull)"

definition bad_hex :: "bytes \<Rightarrow> bytes" where
  "bad_hex e = lit ''field is not valid hex: '' @ e"

definition bad_fields :: "nat \<Rightarrow> bytes" where
  "bad_fields n = lit ''expected 2 or 4 colon-separated fields, got '' @ decimal n"

definition decode_field :: "(bytes \<Rightarrow> bytes + bytes) \<Rightarrow> bytes \<Rightarrow> hap_error + bytes" where
  "decode_field unhex f = map_err (\<lambda>e. HInvalidCredentials (bad_hex e)) (unhex f)"

definition parse_credentials :: "(bytes \<Rightarrow> bytes + bytes) \<Rightarrow> bytes \<Rightarrow> hap_error + hap_credentials" where
  "parse_credentials unhex input = (case split_on 58 input of
     [a, b, c, d] \<Rightarrow>
       rbind (decode_field unhex a) (\<lambda>pk. rbind (decode_field unhex b) (\<lambda>sk.
       rbind (decode_field unhex c) (\<lambda>i. rbind (decode_field unhex d) (\<lambda>j.
       Ok \<lparr>ltpk = pk, ltsk = sk, atv_id = i, client_id = j\<rparr>))))
   | [a, b] \<Rightarrow>
       rbind (decode_field unhex b) (\<lambda>sk. rbind (decode_field unhex a) (\<lambda>j.
       Ok \<lparr>ltpk = [], ltsk = sk, atv_id = [], client_id = j\<rparr>))
   | other \<Rightarrow> Err (HInvalidCredentials (bad_fields (length other))))"

definition display_credentials :: "hap_credentials \<Rightarrow> bytes" where
  "display_credentials c = hex_encode (ltpk c) @ [58] @ hex_encode (ltsk c) @ [58] @ hex_encode (atv_id c) @ [58]
     @ hex_encode (client_id c)"

section \<open>The text form\<close>

definition unhex_ok :: "(bytes \<Rightarrow> bytes + bytes) \<Rightarrow> bool" where
  "unhex_ok unhex \<longleftrightarrow> (\<forall>bs. unhex (hex_encode bs) = Ok bs)"

text \<open>A decoder that has the law.\<close>

fun toy_unhex :: "bytes \<Rightarrow> bytes + bytes" where
  "toy_unhex [] = Ok []"
| "toy_unhex [b] = Err (lit ''Odd number of digits'')"
| "toy_unhex (a # b # bs) =
     (if is_hexdigit a \<and> is_hexdigit b
      then rbind (toy_unhex bs) (\<lambda>xs. Ok (word_of_nat (16 * hex_value a + hex_value b) # xs))
      else Err (lit ''Invalid character''))"

lemma toy_unhex_ok: "unhex_ok toy_unhex"
proof -
  have "toy_unhex (hex_encode bs) = Ok bs" for bs
  proof (induction bs)
    case (Cons b bs)
    have "unat b < 256" by (rule unat_u8_bound)
    then have "unat b div 16 < 16" by simp
    moreover have "16 * (unat b div 16) + unat b mod 16 = unat b" by simp
    ultimately show ?case using Cons hex_lower_value [of "unat b div 16"] hex_lower_value [of "unat b mod 16"]
      by (simp add: hex_encode_def)
  qed (simp add: hex_encode_def)
  then show ?thesis by (simp add: unhex_ok_def)
qed

lemma hex_no_colon: "58 \<notin> set (hex_encode bs)"
proof -
  have "hex_lower n \<noteq> 58" if "n < 16" for n
  proof -
    from hex_lower_unat [OF that] that have "unat (hex_lower n) \<noteq> 58" by (auto split: if_splits)
    then show ?thesis by auto
  qed
  moreover have "unat (b :: u8) div 16 < 16" for b using unat_u8_bound [of b] by simp
  ultimately show ?thesis by (force simp: hex_encode_def)
qed

lemma split_fields:
  "split_on 58 (hex_encode a @ 58 # hex_encode b @ 58 # hex_encode c @ 58 # hex_encode d)
   = [hex_encode a, hex_encode b, hex_encode c, hex_encode d]"
  using hex_no_colon by (simp add: split_append split_single)

text \<open>
  Credentials survive storage. What \<open>Display\<close> writes for any credentials, of whatever shape, \<open>parse\<close>
  reads back unchanged, and the compact legacy form \<open>client_id:ltsk\<close> reads to the same value as the
  four-field form written for it; so the type of the credentials is kept too.
\<close>

theorem credentials_roundtrip:
  assumes "unhex_ok unhex"
  shows "parse_credentials unhex (display_credentials c) = Ok c
    \<and> parse_credentials unhex (hex_encode (client_id c) @ 58 # hex_encode (ltsk c)) = Ok (c\<lparr>ltpk := [], atv_id := []\<rparr>)"
  using assms hex_no_colon
  by (simp add: parse_credentials_def display_credentials_def split_fields decode_field_def unhex_ok_def
      split_append split_single)

lemma credentials_roundtrip_witness:
  "parse_credentials toy_unhex (display_credentials \<lparr>ltpk = [1], ltsk = [0xAB], atv_id = [], client_id = [255, 0]\<rparr>)
     = Ok \<lparr>ltpk = [1], ltsk = [0xAB], atv_id = [], client_id = [255, 0]\<rparr>
   \<and> parse_credentials toy_unhex (hex_encode [255, 0] @ 58 # hex_encode [0xAB])
     = Ok \<lparr>ltpk = [], ltsk = [0xAB], atv_id = [], client_id = [255, 0]\<rparr>"
  using credentials_roundtrip [OF toy_unhex_ok, of "\<lparr>ltpk = [1], ltsk = [0xAB], atv_id = [], client_id = [255, 0]\<rparr>"]
  by simp

end
