(* ===== verification/Pair_Setup.thy ===== *)
theory Pair_Setup
  imports Hap_Credentials
begin

text \<open>
  The controller's side of HAP pair-setup (\<open>pyatv-pairing\<close>: \<open>pairing/pair_setup.rs\<close>) and of the
  transient variant (\<open>pairing/transient.rs\<close>). Each handler answers a result and the state it leaves.
\<close>

datatype setup_phase = SetupM2 | SetupM4 | SetupM6 | SetupComplete

record setup_options =
  so_pin :: "nat option"
  so_name :: "bytes option"
  so_additional :: "(u8 \<times> bytes) list"

record pair_setup =
  ps_options :: setup_options
  ps_seed :: bytes
  ps_client_id :: bytes
  ps_srp :: "srp_client option"
  ps_key :: "bytes option"
  ps_phase :: setup_phase

definition setup_options_default :: setup_options where
  "setup_options_default = \<lparr>so_pin = None, so_name = None, so_additional = []\<rparr>"

definition setup_start_with :: "setup_options \<Rightarrow> bytes \<Rightarrow> bytes \<Rightarrow> pair_setup \<times> bytes" where
  "setup_start_with options seed cid =
     (\<lparr>ps_options = options, ps_seed = seed, ps_client_id = cid, ps_srp = None, ps_key = None, ps_phase = SetupM2\<rparr>,
      tlv_encode (with_byte (with_byte [] Method 0) SeqNo 1))"

text \<open>\<open>start\<close>: the seed and the pairing identifier are two random draws.\<close>

definition setup_start :: "nat option \<Rightarrow> bytes \<Rightarrow> bytes \<Rightarrow> pair_setup \<times> bytes" where
  "setup_start pin seed id_seed =
     setup_start_with (setup_options_default\<lparr>so_pin := pin\<rparr>) seed (random_pairing_id id_seed)"

definition set_pin :: "nat \<Rightarrow> pair_setup \<Rightarrow> pair_setup" where
  "set_pin pin s = s\<lparr>ps_options := (ps_options s)\<lparr>so_pin := Some pin\<rparr>\<rparr>"

definition SETUP_M2_DONE :: hap_error where "SETUP_M2_DONE = OutOfOrder (lit ''pair-setup M2 has already been handled'')"
definition SETUP_M2_MISSING :: hap_error where "SETUP_M2_MISSING = OutOfOrder (lit ''pair-setup M2 has not been handled'')"
definition SETUP_M4_DONE :: hap_error where "SETUP_M4_DONE = OutOfOrder (lit ''pair-setup M4 has already been handled'')"
definition SETUP_M4_MISSING :: hap_error where "SETUP_M4_MISSING = OutOfOrder (lit ''pair-setup M4 has not been handled'')"
definition SETUP_DONE :: hap_error where "SETUP_DONE = OutOfOrder (lit ''pair-setup is already complete'')"
definition NO_SESSION_KEY :: hap_error where "NO_SESSION_KEY = OutOfOrder (lit ''SRP session key is not available'')"

text \<open>The challenge of M2, worked: the proof to send and the SRP session.\<close>

definition setup_challenge :: "crypto \<Rightarrow> bytes \<Rightarrow> pair_setup \<Rightarrow> hap_error + bytes \<times> srp_client" where
  "setup_challenge C payload s =
     rbind (decode_response payload 2) (\<lambda>response.
     rbind (require_owned response Salt) (\<lambda>salt.
     rbind (require_owned response PublicKey) (\<lambda>device_key.
     rbind (ok_or (so_pin (ps_options s)) MissingPin) (\<lambda>pin.
     case process_challenge C salt device_key (srp_new C pin (ps_seed s)) of (r, srp) \<Rightarrow>
       rbind r (\<lambda>proof. Ok (proof, srp))))))"

definition setup_handle_m2 :: "crypto \<Rightarrow> bytes \<Rightarrow> pair_setup \<Rightarrow> (hap_error + bytes) \<times> pair_setup" where
  "setup_handle_m2 C payload s =
     (if ps_phase s \<noteq> SetupM2 then (Err SETUP_M2_DONE, s)
      else case setup_challenge C payload s of
        Err e \<Rightarrow> (Err e, s)
      | Ok (proof, srp) \<Rightarrow>
          (Ok (tlv_encode (tlv_with (tlv_with (with_byte [] SeqNo 3) PublicKey (srp_public srp)) Proof proof)),
           s\<lparr>ps_srp := Some srp, ps_phase := SetupM4\<rparr>))"

text \<open>The controller's inner message of M5, signed over its derived value, identifier and public key.\<close>

definition setup_m5_inner :: "crypto \<Rightarrow> pair_setup \<Rightarrow> bytes \<Rightarrow> tlv8" where
  "setup_m5_inner C s controller_x = (let
     public_key = cr_ed_public C (ps_seed s);
     signature = cr_ed_sign C (ps_seed s) (controller_x @ ps_client_id s @ public_key);
     inner = tlv_with (tlv_with (tlv_with [] Identifier (ps_client_id s)) PublicKey public_key) Signature signature;
     inner = (case so_name (ps_options s) of None \<Rightarrow> inner | Some name \<Rightarrow> tlv_with inner NameTag name) in
     foldl (\<lambda>m (tag, v). set_raw m tag v) inner (so_additional (ps_options s)))"

definition setup_m5 :: "crypto \<Rightarrow> bytes \<Rightarrow> pair_setup \<Rightarrow> srp_client \<Rightarrow> hap_error + bytes \<times> bytes" where
  "setup_m5 C payload s srp =
     rbind (decode_response payload 4) (\<lambda>response.
     rbind (require_owned response Proof) (\<lambda>proof.
     rbind (verify_device_proof proof srp) (\<lambda>_.
     rbind (ok_or (srp_session_key srp) NO_SESSION_KEY) (\<lambda>K.
     rbind (expand C CONTROLLER_SIGN_SALT CONTROLLER_SIGN_INFO K) (\<lambda>controller_x.
     rbind (expand C SETUP_ENCRYPT_SALT SETUP_ENCRYPT_INFO K) (\<lambda>key.
     rbind (seal_box C key PAIR_SETUP_M5_NONCE (tlv_encode (setup_m5_inner C s controller_x))) (\<lambda>encrypted.
     Ok (tlv_encode (tlv_with (with_byte [] SeqNo 5) EncryptedData encrypted), key))))))))"

definition setup_handle_m4 :: "crypto \<Rightarrow> bytes \<Rightarrow> pair_setup \<Rightarrow> (hap_error + bytes) \<times> pair_setup" where
  "setup_handle_m4 C payload s = (case ps_phase s of
     SetupM2 \<Rightarrow> (Err SETUP_M2_MISSING, s)
   | SetupM6 \<Rightarrow> (Err SETUP_M4_DONE, s)
   | SetupComplete \<Rightarrow> (Err SETUP_M4_DONE, s)
   | SetupM4 \<Rightarrow> (case rbind (ok_or (ps_srp s) SETUP_M2_MISSING) (setup_m5 C payload s) of
       Err e \<Rightarrow> (Err e, s)
     | Ok (request, key) \<Rightarrow> (Ok request, s\<lparr>ps_key := Some key, ps_phase := SetupM6\<rparr>)))"

definition setup_credentials :: "crypto \<Rightarrow> bytes \<Rightarrow> pair_setup \<Rightarrow> hap_error + hap_credentials" where
  "setup_credentials C payload s =
     rbind (ok_or (ps_key s) SETUP_M4_MISSING) (\<lambda>key.
     rbind (ok_or (Option.bind (ps_srp s) srp_session_key) NO_SESSION_KEY) (\<lambda>K.
     rbind (decode_response payload 6) (\<lambda>response.
     rbind (require_owned response EncryptedData) (\<lambda>encrypted.
     rbind (open_box C key PAIR_SETUP_M6_NONCE encrypted) (\<lambda>plain.
     rbind (tlv_decoded plain) (\<lambda>inner.
     rbind (require_owned inner Identifier) (\<lambda>device_id.
     rbind (require_owned inner PublicKey) (\<lambda>device_ltpk.
     rbind (require_owned inner Signature) (\<lambda>signature.
     rbind (expand C ACCESSORY_SIGN_SALT ACCESSORY_SIGN_INFO K) (\<lambda>accessory_x.
     if verify_signature C device_ltpk (accessory_x @ device_id @ device_ltpk) signature
     then Ok \<lparr>ltpk = device_ltpk, ltsk = ps_seed s, atv_id = device_id, client_id = ps_client_id s\<rparr>
     else Err SetupSignature))))))))))"

definition setup_handle_m6 :: "crypto \<Rightarrow> bytes \<Rightarrow> pair_setup \<Rightarrow> (hap_error + hap_credentials) \<times> pair_setup" where
  "setup_handle_m6 C payload s = (case ps_phase s of
     SetupM2 \<Rightarrow> (Err SETUP_M4_MISSING, s)
   | SetupM4 \<Rightarrow> (Err SETUP_M4_MISSING, s)
   | SetupComplete \<Rightarrow> (Err SETUP_DONE, s)
   | SetupM6 \<Rightarrow> (case setup_credentials C payload s of
       Err e \<Rightarrow> (Err e, s)
     | Ok c \<Rightarrow> (Ok c, s\<lparr>ps_phase := SetupComplete\<rparr>)))"

section \<open>Transient pairing\<close>

definition TRANSIENT_PIN :: nat where "TRANSIENT_PIN = 3939"
definition FLAG_TRANSIENT_PAIRING :: u8 where "FLAG_TRANSIENT_PAIRING = 0x10"

record transient_setup =
  ts_srp :: srp_client
  ts_verified :: bool

definition transient_start_with :: "crypto \<Rightarrow> bytes \<Rightarrow> transient_setup \<times> bytes" where
  "transient_start_with C secret =
     (\<lparr>ts_srp = srp_new C TRANSIENT_PIN secret, ts_verified = False\<rparr>,
      tlv_encode (with_byte (with_byte (with_byte [] Method 0) SeqNo 1) FlagsTag FLAG_TRANSIENT_PAIRING))"

definition transient_handle_m2 :: "crypto \<Rightarrow> bytes \<Rightarrow> transient_setup \<Rightarrow> (hap_error + bytes) \<times> transient_setup" where
  "transient_handle_m2 C payload t =
     (case rbind (decode_response payload 2) (\<lambda>response.
           rbind (require_owned response Salt) (\<lambda>salt.
           rbind (require_owned response PublicKey) (\<lambda>device_key. Ok (salt, device_key)))) of
        Err e \<Rightarrow> (Err e, t)
      | Ok (salt, device_key) \<Rightarrow> (case process_challenge C salt device_key (ts_srp t) of
          (Err e, srp) \<Rightarrow> (Err e, t\<lparr>ts_srp := srp\<rparr>)
        | (Ok proof, srp) \<Rightarrow>
            (Ok (tlv_encode (tlv_with (tlv_with (with_byte [] SeqNo 3) PublicKey (srp_public srp)) Proof proof)),
             t\<lparr>ts_srp := srp\<rparr>)))"

definition transient_handle_m4 :: "bytes \<Rightarrow> transient_setup \<Rightarrow> (hap_error + unit) \<times> transient_setup" where
  "transient_handle_m4 payload t =
     (case rbind (decode_response payload 4) (\<lambda>response.
           rbind (require_owned response Proof) (\<lambda>proof. verify_device_proof proof (ts_srp t))) of
        Err e \<Rightarrow> (Err e, t)
      | Ok _ \<Rightarrow> (Ok (), t\<lparr>ts_verified := True\<rparr>))"

definition transient_encryption_keys ::
    "crypto \<Rightarrow> bytes \<Rightarrow> bytes \<Rightarrow> bytes \<Rightarrow> transient_setup \<Rightarrow> hap_error + session_keys" where
  "transient_encryption_keys C salt output_info input_info t =
     (if \<not> ts_verified t then Err (OutOfOrder (lit ''transient pair-setup has not completed''))
      else rbind (ok_or (srp_session_key (ts_srp t)) NO_SESSION_KEY) (\<lambda>K.
        rbind (expand C salt output_info K) (\<lambda>output_key.
        rbind (expand C salt input_info K) (\<lambda>input_key.
        Ok \<lparr>sk_shared_secret = K, sk_output_key = output_key, sk_input_key = input_key\<rparr>))))"

end
