(* ===== verification/Pair_Verify.thy ===== *)
theory Pair_Verify
  imports Pair_Setup
begin

text \<open>
  The controller's side of HAP pair-verify (\<open>pyatv-pairing\<close>: \<open>pairing/pair_verify.rs\<close>). The ephemeral
  exchange is its scalar, a random draw; it is taken out of the machine before M2 is looked at.
\<close>

datatype verify_phase = VerifyM2 | VerifyM4 | VerifyComplete

record pair_verify =
  pv_credentials :: hap_credentials
  pv_exchange :: "bytes option"
  pv_public_key :: bytes
  pv_shared_secret :: "bytes option"
  pv_phase :: verify_phase

definition verify_start :: "crypto \<Rightarrow> hap_credentials \<Rightarrow> bytes \<Rightarrow> pair_verify \<times> bytes" where
  "verify_start C c scalar = (let public_key = x25519_public_key C scalar in
     (\<lparr>pv_credentials = c, pv_exchange = Some scalar, pv_public_key = public_key, pv_shared_secret = None,
       pv_phase = VerifyM2\<rparr>,
      tlv_encode (tlv_with (with_byte [] SeqNo 1) PublicKey public_key)))"

definition VERIFY_M2_DONE :: hap_error where "VERIFY_M2_DONE = OutOfOrder (lit ''pair-verify M2 has already been handled'')"
definition VERIFY_M2_MISSING :: hap_error where "VERIFY_M2_MISSING = OutOfOrder (lit ''pair-verify M2 has not been handled'')"
definition VERIFY_M4_DONE :: hap_error where "VERIFY_M4_DONE = OutOfOrder (lit ''pair-verify M4 has already been handled'')"

text \<open>What M2 is answered with, and the shared secret.\<close>

definition verify_m3 :: "crypto \<Rightarrow> bytes \<Rightarrow> pair_verify \<Rightarrow> bytes \<Rightarrow> hap_error + bytes \<times> bytes" where
  "verify_m3 C payload v scalar = (let c = pv_credentials v in
     rbind (decode_response payload 2) (\<lambda>response.
     rbind (require_owned response PublicKey) (\<lambda>accessory_key.
     rbind (require_owned response EncryptedData) (\<lambda>encrypted.
     rbind (ephemeral_exchange C scalar accessory_key) (\<lambda>shared.
     rbind (expand C VERIFY_ENCRYPT_SALT VERIFY_ENCRYPT_INFO shared) (\<lambda>session_key.
     rbind (open_box C session_key PAIR_VERIFY_M2_NONCE encrypted) (\<lambda>plain.
     rbind (tlv_decoded plain) (\<lambda>inner.
     rbind (require_owned inner Identifier) (\<lambda>identifier.
     rbind (require_owned inner Signature) (\<lambda>signature.
     if identifier \<noteq> atv_id c then Err (IdentifierMismatch (hex_encode (atv_id c)) (hex_encode identifier))
     else if \<not> verify_signature C (ltpk c) (accessory_key @ identifier @ pv_public_key v) signature then Err VerifySignature
     else if length (ltsk c) \<noteq> 32 then Err (InvalidKey (lit ''controller Ed25519 seed''))
     else rbind (seal_box C session_key PAIR_VERIFY_M3_NONCE (tlv_encode (tlv_with (tlv_with [] Identifier (client_id c))
              Signature (cr_ed_sign C (ltsk c) (pv_public_key v @ client_id c @ accessory_key))))) (\<lambda>sealed.
       Ok (tlv_encode (tlv_with (with_byte [] SeqNo 3) EncryptedData sealed), shared))))))))))))"

definition verify_handle_m2 :: "crypto \<Rightarrow> bytes \<Rightarrow> pair_verify \<Rightarrow> (hap_error + bytes) \<times> pair_verify" where
  "verify_handle_m2 C payload v =
     (if pv_phase v \<noteq> VerifyM2 then (Err VERIFY_M2_DONE, v)
      else case pv_exchange v of
        None \<Rightarrow> (Err VERIFY_M2_DONE, v)
      | Some scalar \<Rightarrow> (let v = v\<lparr>pv_exchange := None\<rparr> in
          case verify_m3 C payload v scalar of
            Err e \<Rightarrow> (Err e, v)
          | Ok (request, shared) \<Rightarrow> (Ok request, v\<lparr>pv_shared_secret := Some shared, pv_phase := VerifyM4\<rparr>)))"

definition verify_handle_m4 :: "bytes \<Rightarrow> pair_verify \<Rightarrow> (hap_error + unit) \<times> pair_verify" where
  "verify_handle_m4 payload v = (case pv_phase v of
     VerifyM2 \<Rightarrow> (Err VERIFY_M2_MISSING, v)
   | VerifyComplete \<Rightarrow> (Err VERIFY_M4_DONE, v)
   | VerifyM4 \<Rightarrow> (case decode_response payload 4 of
       Err e \<Rightarrow> (Err e, v)
     | Ok _ \<Rightarrow> (Ok (), v\<lparr>pv_phase := VerifyComplete\<rparr>)))"

definition verify_encryption_keys ::
    "crypto \<Rightarrow> bytes \<Rightarrow> bytes \<Rightarrow> bytes \<Rightarrow> pair_verify \<Rightarrow> hap_error + session_keys" where
  "verify_encryption_keys C salt output_info input_info v =
     rbind (ok_or (pv_shared_secret v) VERIFY_M2_MISSING) (\<lambda>shared.
     rbind (expand C salt output_info shared) (\<lambda>output_key.
     rbind (expand C salt input_info shared) (\<lambda>input_key.
     Ok \<lparr>sk_shared_secret = shared, sk_output_key = output_key, sk_input_key = input_key\<rparr>)))"

end
