(* ===== verification/Pair_Accessory.thy ===== *)
theory Pair_Accessory
  imports Pair_Verify
begin

text \<open>
  The accessory's side of both pairing procedures (\<open>pyatv-pairing\<close>: \<open>server/mod.rs\<close>,
  \<open>server/setup.rs\<close>, \<open>server/verify.rs\<close>), the peer the controller's machines are tested against.
\<close>

definition ACCESSORY_PIN :: nat where "ACCESSORY_PIN = 1111"
definition SERVER_IDENTIFIER :: bytes where "SERVER_IDENTIFIER = lit ''5D797FD3-3538-427E-A47B-A32FC6CF3A6A''"
definition PRIVATE_KEY :: bytes where "PRIVATE_KEY = replicate 32 0xAA"

record setup_session =
  ss_salt :: bytes
  ss_verifier :: bytes
  ss_transient :: bool
  ss_session_key :: "bytes option"

record accessory =
  acc_identifier :: bytes
  acc_pin :: nat
  acc_seed :: bytes
  acc_signing_seed :: bytes
  acc_setup :: "setup_session option"
  acc_pairings :: "(bytes \<times> bytes) list"
  acc_shared :: "bytes option"
  acc_client_key :: "bytes option"

definition accessory_with_pin :: "nat \<Rightarrow> accessory" where
  "accessory_with_pin pin = \<lparr>acc_identifier = SERVER_IDENTIFIER, acc_pin = pin, acc_seed = PRIVATE_KEY,
     acc_signing_seed = PRIVATE_KEY, acc_setup = None, acc_pairings = [], acc_shared = None, acc_client_key = None\<rparr>"

definition accessory_new :: accessory where
  "accessory_new = accessory_with_pin ACCESSORY_PIN"

definition register_pairing :: "bytes \<Rightarrow> bytes \<Rightarrow> accessory \<Rightarrow> accessory" where
  "register_pairing cid pk a = a\<lparr>acc_pairings := acc_pairings a @ [(cid, pk)]\<rparr>"

definition corrupt_signatures :: "bool \<Rightarrow> accessory \<Rightarrow> accessory" where
  "corrupt_signatures corrupt a = a\<lparr>acc_signing_seed := (if corrupt then replicate 32 0 else acc_seed a)\<rparr>"

definition acc_public_key :: "crypto \<Rightarrow> accessory \<Rightarrow> bytes" where
  "acc_public_key C a = cr_ed_public C (acc_seed a)"

definition SETUP_M3_MISSING :: hap_error where "SETUP_M3_MISSING = OutOfOrder (lit ''pair-setup M3 has not been accepted'')"

definition accessory_setup_key :: "crypto \<Rightarrow> accessory \<Rightarrow> hap_error + bytes" where
  "accessory_setup_key C a =
     rbind (ok_or (Option.bind (acc_setup a) ss_session_key) SETUP_M3_MISSING)
       (expand C SETUP_ENCRYPT_SALT SETUP_ENCRYPT_INFO)"

definition accessory_encryption_keys ::
    "crypto \<Rightarrow> bytes \<Rightarrow> bytes \<Rightarrow> bytes \<Rightarrow> accessory \<Rightarrow> hap_error + session_keys" where
  "accessory_encryption_keys C salt output_info input_info a =
     rbind (ok_or (acc_shared a) (OutOfOrder (lit ''no exchange has completed''))) (\<lambda>shared.
     rbind (expand C salt output_info shared) (\<lambda>output_key.
     rbind (expand C salt input_info shared) (\<lambda>input_key.
     Ok \<lparr>sk_shared_secret = shared, sk_output_key = output_key, sk_input_key = input_key\<rparr>)))"

definition state_of :: "tlv8 \<Rightarrow> hap_error + nat" where
  "state_of m = rbind (ok_or (case tlv_get m SeqNo of Some (b # _) \<Rightarrow> Some b | _ \<Rightarrow> None) (HTlv (MissingTlv SeqNo))) (\<lambda>b.
     if 1 \<le> b \<and> b \<le> 6 then Ok (unat b)
     else Err (HMalformedResponse (lit ''unknown pairing state '' @ decimal (unat b))))"

definition error_response :: "u8 \<Rightarrow> error_code \<Rightarrow> bytes" where
  "error_response st code = tlv_encode (with_byte (with_byte [] SeqNo st) TlvErrorTag (error_code_byte code))"

section \<open>Pair-setup\<close>

text \<open>The salt is sixteen random bytes.\<close>

definition accessory_setup_m1 :: "crypto \<Rightarrow> bytes \<Rightarrow> tlv8 \<Rightarrow> accessory \<Rightarrow> bytes \<times> accessory" where
  "accessory_setup_m1 C random m a = (let
     transient = (case tlv_get m FlagsTag of Some (f # _) \<Rightarrow> and f FLAG_TRANSIENT_PAIRING \<noteq> 0 | _ \<Rightarrow> False);
     pin = (if transient then TRANSIENT_PIN else acc_pin a);
     salt = take 16 random;
     verifier = cr_srp_verifier C PAIR_SETUP_USERNAME (pad_pin pin) salt in
     (tlv_encode (tlv_with (tlv_with (with_byte [] SeqNo 2) Salt salt) PublicKey (cr_srp_server_public C (acc_seed a) verifier)),
      a\<lparr>acc_setup := Some \<lparr>ss_salt = salt, ss_verifier = verifier, ss_transient = transient, ss_session_key = None\<rparr>\<rparr>))"

definition accessory_setup_m3 :: "crypto \<Rightarrow> tlv8 \<Rightarrow> accessory \<Rightarrow> (hap_error + bytes) \<times> accessory" where
  "accessory_setup_m3 C m a = (case acc_setup a of
     None \<Rightarrow> (Err (OutOfOrder (lit ''pair-setup M1 has not been handled'')), a)
   | Some session \<Rightarrow>
       (case rbind (require_owned m PublicKey) (\<lambda>key. let A = minimal_be key in
          if length A > MODULUS_LEN then Err (SrpPublicKey (lit ''controller''))
          else rbind (require_owned m Proof) (\<lambda>client_proof.
            rbind (ok_or (cr_srp_server_reply C PAIR_SETUP_USERNAME (ss_salt session) (acc_seed a) (ss_verifier session) A)
                     (SrpPublicKey (lit ''controller''))) (\<lambda>(K, m1, m2). Ok (client_proof, K, m1, m2)))) of
          Err e \<Rightarrow> (Err e, a)
        | Ok (client_proof, K, m1, m2) \<Rightarrow>
            if client_proof \<noteq> m1 then (Ok (error_response 4 ECAuthentication), a\<lparr>acc_setup := None\<rparr>)
            else (let a = a\<lparr>acc_setup := Some (session\<lparr>ss_session_key := Some K\<rparr>)\<rparr>;
                      a = (if ss_transient session then a\<lparr>acc_shared := Some K\<rparr> else a) in
              (Ok (tlv_encode (tlv_with (with_byte [] SeqNo 4) Proof m2)), a))))"

definition accessory_m6 :: "crypto \<Rightarrow> accessory \<Rightarrow> bytes \<Rightarrow> bytes \<Rightarrow> hap_error + bytes" where
  "accessory_m6 C a K key =
     rbind (expand C ACCESSORY_SIGN_SALT ACCESSORY_SIGN_INFO K) (\<lambda>accessory_x.
     rbind (seal_box C key PAIR_SETUP_M6_NONCE (tlv_encode (tlv_with (tlv_with (tlv_with [] Identifier (acc_identifier a))
              PublicKey (acc_public_key C a))
              Signature (cr_ed_sign C (acc_signing_seed a) (accessory_x @ acc_identifier a @ acc_public_key C a))))) (\<lambda>sealed.
     Ok (tlv_encode (tlv_with (with_byte [] SeqNo 6) EncryptedData sealed))))"

definition accessory_setup_m5 :: "crypto \<Rightarrow> tlv8 \<Rightarrow> accessory \<Rightarrow> (hap_error + bytes) \<times> accessory" where
  "accessory_setup_m5 C m a =
     (case rbind (ok_or (Option.bind (acc_setup a) ss_session_key) SETUP_M3_MISSING) (\<lambda>K.
           rbind (expand C SETUP_ENCRYPT_SALT SETUP_ENCRYPT_INFO K) (\<lambda>key.
           rbind (require_owned m EncryptedData) (\<lambda>encrypted.
           rbind (open_box C key PAIR_SETUP_M5_NONCE encrypted) (\<lambda>plain.
           rbind (tlv_decoded plain) (\<lambda>inner.
           rbind (require_owned inner Identifier) (\<lambda>cid.
           rbind (require_owned inner PublicKey) (\<lambda>pk.
           rbind (require_owned inner Signature) (\<lambda>signature.
           rbind (expand C CONTROLLER_SIGN_SALT CONTROLLER_SIGN_INFO K) (\<lambda>controller_x.
           Ok (K, key, cid, pk, verify_signature C pk (controller_x @ cid @ pk) signature)))))))))) of
        Err e \<Rightarrow> (Err e, a)
      | Ok (K, key, cid, pk, valid) \<Rightarrow>
          if \<not> valid then (Ok (error_response 6 ECAuthentication), a)
          else (let a = register_pairing cid pk a in (accessory_m6 C a K key, a)))"

definition unexpected_state :: "nat \<Rightarrow> hap_error" where
  "unexpected_state n = UnexpectedState 1 (word_of_nat n)"

definition handle_pair_setup :: "crypto \<Rightarrow> bytes \<Rightarrow> bytes \<Rightarrow> accessory \<Rightarrow> (hap_error + bytes) \<times> accessory" where
  "handle_pair_setup C random payload a =
     (case rbind (tlv_decoded payload) (\<lambda>m. rbind (state_of m) (\<lambda>n. Ok (m, n))) of
        Err e \<Rightarrow> (Err e, a)
      | Ok (m, n) \<Rightarrow>
          if n = 1 then (case accessory_setup_m1 C random m a of (r, a') \<Rightarrow> (Ok r, a'))
          else if n = 3 then accessory_setup_m3 C m a
          else if n = 5 then accessory_setup_m5 C m a
          else (Err (unexpected_state n), a))"

section \<open>Pair-verify\<close>

definition accessory_verify_m1 :: "crypto \<Rightarrow> tlv8 \<Rightarrow> accessory \<Rightarrow> (hap_error + bytes) \<times> accessory" where
  "accessory_verify_m1 C m a =
     (case rbind (require_owned m PublicKey) (\<lambda>client_key.
           if length client_key \<noteq> 32 then Err (InvalidKey (lit ''controller X25519 public''))
           else let shared = cr_x25519 C (acc_seed a) client_key in
             rbind (expand C VERIFY_ENCRYPT_SALT VERIFY_ENCRYPT_INFO shared) (\<lambda>session_key. Ok (client_key, shared, session_key))) of
        Err e \<Rightarrow> (Err e, a)
      | Ok (client_key, shared, session_key) \<Rightarrow> (let
          public_key = x25519_public_key C (acc_seed a);
          inner = tlv_with (tlv_with [] Identifier (acc_identifier a)) Signature
            (cr_ed_sign C (acc_signing_seed a) (public_key @ acc_identifier a @ client_key));
          a = a\<lparr>acc_shared := Some shared, acc_client_key := Some client_key\<rparr> in
          (rbind (seal_box C session_key PAIR_VERIFY_M2_NONCE (tlv_encode inner)) (\<lambda>sealed.
             Ok (tlv_encode (tlv_with (tlv_with (with_byte [] SeqNo 2) PublicKey public_key) EncryptedData sealed))), a)))"

definition accessory_verify_m3 :: "crypto \<Rightarrow> tlv8 \<Rightarrow> accessory \<Rightarrow> hap_error + bytes" where
  "accessory_verify_m3 C m a =
     rbind (ok_or (acc_shared a) (OutOfOrder (lit ''pair-verify M1 has not been handled''))) (\<lambda>shared.
     rbind (expand C VERIFY_ENCRYPT_SALT VERIFY_ENCRYPT_INFO shared) (\<lambda>session_key.
     rbind (require_owned m EncryptedData) (\<lambda>encrypted.
     rbind (open_box C session_key PAIR_VERIFY_M3_NONCE encrypted) (\<lambda>plain.
     rbind (tlv_decoded plain) (\<lambda>inner.
     rbind (require_owned inner Identifier) (\<lambda>cid.
     rbind (require_owned inner Signature) (\<lambda>signature.
     case find (\<lambda>(i, _). i = cid) (acc_pairings a) of
       None \<Rightarrow> Ok (error_response 4 ECAuthentication)
     | Some (_, pk) \<Rightarrow>
         rbind (ok_or (acc_client_key a) (OutOfOrder (lit ''pair-verify M1 has not been handled''))) (\<lambda>client_key.
         if \<not> verify_signature C pk (client_key @ cid @ x25519_public_key C (acc_seed a)) signature
         then Ok (error_response 4 ECAuthentication)
         else Ok (tlv_encode (with_byte [] SeqNo 4))))))))))"

definition handle_pair_verify :: "crypto \<Rightarrow> bytes \<Rightarrow> accessory \<Rightarrow> (hap_error + bytes) \<times> accessory" where
  "handle_pair_verify C payload a =
     (case rbind (tlv_decoded payload) (\<lambda>m. rbind (state_of m) (\<lambda>n. Ok (m, n))) of
        Err e \<Rightarrow> (Err e, a)
      | Ok (m, n) \<Rightarrow>
          if n = 1 then accessory_verify_m1 C m a
          else if n = 3 then (accessory_verify_m3 C m a, a)
          else (Err (unexpected_state n), a))"

end
