(* ===== verification/Pairing_Run.thy ===== *)
theory Pairing_Run
  imports Pair_Accessory Hap_Session
begin

text \<open>
  The controller's and the accessory's machines run against each other. \<open>crypto_ok\<close> states what is
  relied on of the primitives, \<open>toy_crypto\<close> is an instance of it.
\<close>

section \<open>Messages\<close>

named_theorems pair_simps "one message of a pairing exchange, written and read"

lemma tlv_get_with [pair_simps]: "tlv_get (tlv_with m t v) u = (if u = t then Some v else tlv_get m u)"
  by (simp add: tlv_get_def tlv_with_def get_raw_set_raw tlv_tag_inj)

lemma tlv_get_byte [pair_simps]: "tlv_get (with_byte m t b) u = (if u = t then Some [b] else tlv_get m u)"
  by (simp add: with_byte_def tlv_get_with)

lemma tlv_get_Nil [pair_simps]: "tlv_get [] t = None"
  by (simp add: tlv_get_def)

lemma distinct_set_raw: "distinct (map fst m) \<Longrightarrow> distinct (map fst (set_raw m t v))"
  by (simp add: tags_set_raw)

lemma distinct_with [pair_simps]:
  "distinct (map fst m) \<Longrightarrow> distinct (map fst (tlv_with m t v))"
  "distinct (map fst m) \<Longrightarrow> distinct (map fst (with_byte m t b))"
  by (simp_all add: tlv_with_def with_byte_def distinct_set_raw)

lemma tlv_decoded_encode [pair_simps]: "distinct (map fst m) \<Longrightarrow> tlv_decoded (tlv_encode m) = Ok m"
  using decode_encode_append [of "[]" m 0] by (simp add: tlv_decoded_def tlv_decode_def)

lemma require_owned_get [pair_simps]: "require_owned m t = ok_or (tlv_get m t) (HTlv (MissingTlv t))"
  by (cases "tlv_get m t") (simp_all add: require_owned_def require_def)

lemma decode_response_encode [pair_simps]:
  "distinct (map fst m) \<Longrightarrow> tlv_get m TlvErrorTag = None \<Longrightarrow> tlv_get m SeqNo = Some [n]
   \<Longrightarrow> decode_response (tlv_encode m) n = Ok m"
  by (simp add: decode_response_def pair_simps)

lemma error_code_from_byte: "error_code_from (error_code_byte c) = Some c"
  by (simp add: error_code_byte_inv)

lemma decode_response_error:
  "distinct (map fst m) \<Longrightarrow> tlv_get m TlvErrorTag = Some [error_code_byte c]
   \<Longrightarrow> decode_response (tlv_encode m) n = Err (HapErrorCode c)"
  by (simp add: decode_response_def pair_simps error_code_from_byte Let_def)

lemma state_of_get [pair_simps]: "tlv_get m SeqNo = Some [b] \<Longrightarrow> 1 \<le> b \<Longrightarrow> b \<le> 6 \<Longrightarrow> state_of m = Ok (unat b)"
  by (simp add: state_of_def)

section \<open>The laws\<close>

definition tlv_size :: "tlv8 \<Rightarrow> nat" where
  "tlv_size m = (\<Sum>(t, v) \<leftarrow> m. 2 + 3 * length v)"

definition aead_total :: "aead \<Rightarrow> bool" where
  "aead_total A \<longleftrightarrow> (\<forall>k n d. length d < 2 ^ 32 \<longrightarrow> aead_seal A k n d [] \<noteq> None)"

definition ed_ok :: "crypto \<Rightarrow> bool" where
  "ed_ok C \<longleftrightarrow> (\<forall>seed m. length seed = 32 \<longrightarrow> length (cr_ed_public C seed) = 32 \<and> length (cr_ed_sign C seed m) = 64
     \<and> cr_ed_verify C (cr_ed_public C seed) m (cr_ed_sign C seed m))"

definition x25519_ok :: "crypto \<Rightarrow> bool" where
  "x25519_ok C \<longleftrightarrow> (\<forall>a b p. length (cr_x25519 C a p) = 32
     \<and> cr_x25519 C a (cr_x25519 C b (cr_basepoint C)) = cr_x25519 C b (cr_x25519 C a (cr_basepoint C)))"

definition hkdf_ok :: "crypto \<Rightarrow> bool" where
  "hkdf_ok C \<longleftrightarrow> (\<forall>s i k. \<exists>out. cr_hkdf C s i k = Some out \<and> length out = 32)"

text \<open>
  SRP: when the client accepts the server's public value made from the verifier of the same PIN and salt,
  the server reaches the client's session key and expects the proof the client sends.
\<close>

definition srp_ok :: "crypto \<Rightarrow> bool" where
  "srp_ok C \<longleftrightarrow> (\<forall>secret seed user pin salt S.
     (let v = cr_srp_verifier C user pin salt; B = minimal_be (cr_srp_server_public C seed v);
          A = minimal_be (cr_srp_public C secret); K = cr_sha512 C S; m1 = cr_srp_m1 C user salt A B K in
      length A \<le> MODULUS_LEN \<and> length B \<le> MODULUS_LEN \<and>
      (cr_srp_reply C secret user pin salt B = Some S \<longrightarrow>
         cr_srp_server_reply C user salt seed v A = Some (K, m1, cr_srp_m2 C A m1 K))))"

definition crypto_ok :: "crypto \<Rightarrow> bool" where
  "crypto_ok C \<longleftrightarrow> aead_ok (cr_aead C) \<and> aead_total (cr_aead C) \<and> ed_ok C \<and> x25519_ok C \<and> hkdf_ok C \<and> srp_ok C"

section \<open>Driving both ends\<close>

type_synonym ('c, 'a) exchange = "'c \<times> accessory \<Rightarrow> (hap_error + 'a) \<times> 'c \<times> accessory"

definition step_bind :: "('c, 'a) exchange \<Rightarrow> ('a \<Rightarrow> ('c, 'b) exchange) \<Rightarrow> ('c, 'b) exchange" where
  "step_bind m f st = (case m st of (Err e, st') \<Rightarrow> (Err e, st') | (Ok x, st') \<Rightarrow> f x st')"

definition on_client :: "('c \<Rightarrow> (hap_error + 'a) \<times> 'c) \<Rightarrow> ('c, 'a) exchange" where
  "on_client f st = (case f (fst st) of (r, c) \<Rightarrow> (r, c, snd st))"

definition on_accessory :: "(accessory \<Rightarrow> (hap_error + 'a) \<times> accessory) \<Rightarrow> ('c, 'a) exchange" where
  "on_accessory f st = (case f (snd st) of (r, a) \<Rightarrow> (r, fst st, a))"

lemma drive_simps [pair_simps]:
  "step_bind m f st = (case m st of (Err e, st') \<Rightarrow> (Err e, st') | (Ok x, st') \<Rightarrow> f x st')"
  "on_client g (c, a) = (case g c of (r, c') \<Rightarrow> (r, c', a))"
  "on_accessory h (c, a) = (case h a of (r, a') \<Rightarrow> (r, c, a'))"
  by (simp_all add: step_bind_def on_client_def on_accessory_def)

text \<open>The six messages of pair-setup: the requests posted to the accessory, its replies handed to the client.\<close>

definition setup_messages :: "crypto \<Rightarrow> bytes \<Rightarrow> bytes \<Rightarrow> (pair_setup, hap_credentials) exchange" where
  "setup_messages C random m1 =
     step_bind (on_accessory (handle_pair_setup C random m1)) (\<lambda>m2.
     step_bind (on_client (setup_handle_m2 C m2)) (\<lambda>m3.
     step_bind (on_accessory (handle_pair_setup C random m3)) (\<lambda>m4.
     step_bind (on_client (setup_handle_m4 C m4)) (\<lambda>m5.
     step_bind (on_accessory (handle_pair_setup C random m5)) (\<lambda>m6.
     on_client (setup_handle_m6 C m6))))))"

definition pair_setup_run ::
    "crypto \<Rightarrow> setup_options \<Rightarrow> bytes \<Rightarrow> bytes \<Rightarrow> bytes \<Rightarrow> accessory \<Rightarrow> (hap_error + hap_credentials) \<times> pair_setup \<times> accessory" where
  "pair_setup_run C options seed cid random a = (case setup_start_with options seed cid of
     (s, m1) \<Rightarrow> setup_messages C random m1 (s, a))"

definition verify_messages :: "crypto \<Rightarrow> bytes \<Rightarrow> (pair_verify, unit) exchange" where
  "verify_messages C m1 =
     step_bind (on_accessory (handle_pair_verify C m1)) (\<lambda>m2.
     step_bind (on_client (verify_handle_m2 C m2)) (\<lambda>m3.
     step_bind (on_accessory (handle_pair_verify C m3)) (\<lambda>m4.
     on_client (verify_handle_m4 m4))))"

definition pair_verify_run ::
    "crypto \<Rightarrow> hap_credentials \<Rightarrow> bytes \<Rightarrow> accessory \<Rightarrow> (hap_error + unit) \<times> pair_verify \<times> accessory" where
  "pair_verify_run C c scalar a = (case verify_start C c scalar of (v, m1) \<Rightarrow> verify_messages C m1 (v, a))"

definition transient_messages :: "crypto \<Rightarrow> bytes \<Rightarrow> bytes \<Rightarrow> (transient_setup, unit) exchange" where
  "transient_messages C random m1 =
     step_bind (on_accessory (handle_pair_setup C random m1)) (\<lambda>m2.
     step_bind (on_client (transient_handle_m2 C m2)) (\<lambda>m3.
     step_bind (on_accessory (handle_pair_setup C random m3)) (\<lambda>m4.
     on_client (transient_handle_m4 m4))))"

definition transient_run :: "crypto \<Rightarrow> bytes \<Rightarrow> bytes \<Rightarrow> accessory \<Rightarrow> (hap_error + unit) \<times> transient_setup \<times> accessory" where
  "transient_run C secret random a = (case transient_start_with C secret of
     (t, m1) \<Rightarrow> transient_messages C random m1 (t, a))"

section \<open>Sizes\<close>

lemma sum_two: "(\<Sum>c \<leftarrow> cs. 2 + length c) = 2 * length cs + length (concat cs)"
  by (induction cs) auto

lemma length_cuts: "\<forall>c \<in> set cs. c \<noteq> [] \<Longrightarrow> length cs \<le> length (concat cs)"
proof (induction cs)
  case (Cons c cs)
  then show ?case by (cases c) auto
qed simp

lemma length_encode_entry: "length (encode_entry (t, v)) \<le> 2 + 3 * length v"
proof (cases "v = []")
  case False
  let ?cs = "chunks MAX_CHUNK v"
  have "length ?cs \<le> length (concat ?cs)" using chunks_bounds [of _ MAX_CHUNK v] by (intro length_cuts) blast
  moreover have "length (concat ?cs) = length v" by (simp add: concat_chunks MAX_CHUNK_def)
  moreover have "length (encode_entry (t, v)) = (\<Sum>c \<leftarrow> ?cs. 2 + length c)"
    using False by (simp add: encode_entry_def length_concat comp_def)
  ultimately show ?thesis using sum_two [of ?cs] by linarith
qed (simp add: encode_entry_def)

lemma length_tlv_encode: "length (tlv_encode m) \<le> tlv_size m"
proof (induction m)
  case (Cons e m)
  then show ?case using length_encode_entry [of "fst e" "snd e"]
    by (cases e) (auto simp: tlv_encode_def tlv_size_def)
qed (simp add: tlv_encode_def)

lemma tlv_size_Nil [simp]: "tlv_size [] = 0"
  by (simp add: tlv_size_def)

lemma tlv_size_set_raw: "tlv_size (set_raw m t v) \<le> tlv_size m + 2 + 3 * length v"
  by (induction m t v rule: set_raw.induct) (auto simp: tlv_size_def)

lemma tlv_size_with: "tlv_size (tlv_with m t v) \<le> tlv_size m + 2 + 3 * length v"
  using tlv_size_set_raw [of m "tlv_tag t" v] by (simp add: tlv_with_def)

lemma tlv_size_fold: "tlv_size (foldl (\<lambda>m (t, v). set_raw m t v) m kvs) \<le> tlv_size m + tlv_size kvs"
proof (induction kvs arbitrary: m)
  case (Cons e kvs)
  obtain t v where "e = (t, v)" by (cases e)
  with Cons.IH [of "set_raw m t v"] tlv_size_set_raw [of m t v] show ?case by (simp add: tlv_size_def)
qed simp

section \<open>Consequences of the laws\<close>

lemma seal_open_box:
  assumes "crypto_ok C" "length d < 2 ^ 32"
  shows "\<exists>c. seal_box C k l d = Ok c \<and> open_box C k l c = Ok d"
proof -
  from assms have "aead_seal (cr_aead C) k (handshake_nonce l) d [] \<noteq> None"
    unfolding crypto_ok_def aead_total_def by blast
  then obtain c where "aead_seal (cr_aead C) k (handshake_nonce l) d [] = Some c" by auto
  moreover from this assms have "aead_open (cr_aead C) k (handshake_nonce l) c [] = Some d"
    by (simp add: crypto_ok_def aead_ok_def)
  ultimately show ?thesis by (simp add: seal_box_def open_box_def)
qed

lemma expand_some:
  assumes "crypto_ok C"
  shows "\<exists>out. expand C s i k = Ok out \<and> length out = 32"
proof -
  from assms obtain out where "cr_hkdf C s i k = Some out" "length out = 32"
    unfolding crypto_ok_def hkdf_ok_def by blast
  then show ?thesis by (simp add: expand_def)
qed

lemma signed_verifies:
  "crypto_ok C \<Longrightarrow> length seed = 32 \<Longrightarrow> verify_signature C (cr_ed_public C seed) m (cr_ed_sign C seed m)"
  by (simp add: crypto_ok_def ed_ok_def verify_signature_def)

lemma exchange_agrees:
  "crypto_ok C \<Longrightarrow> cr_x25519 C a (x25519_public_key C b) = cr_x25519 C b (x25519_public_key C a)"
  "crypto_ok C \<Longrightarrow> length (x25519_public_key C a) = 32"
  by (simp_all add: crypto_ok_def x25519_ok_def x25519_public_key_def)

section \<open>Pair-setup runs\<close>

text \<open>The accessory's SRP values for a salt, and what the client makes of them.\<close>

definition acc_verifier :: "crypto \<Rightarrow> nat \<Rightarrow> bytes \<Rightarrow> bytes" where
  "acc_verifier C pin random = cr_srp_verifier C PAIR_SETUP_USERNAME (pad_pin pin) (take 16 random)"

definition acc_srp_public :: "crypto \<Rightarrow> nat \<Rightarrow> bytes \<Rightarrow> accessory \<Rightarrow> bytes" where
  "acc_srp_public C pin random a = cr_srp_server_public C (acc_seed a) (acc_verifier C pin random)"

definition premaster :: "crypto \<Rightarrow> nat \<Rightarrow> nat \<Rightarrow> bytes \<Rightarrow> bytes \<Rightarrow> accessory \<Rightarrow> bytes option" where
  "premaster C pin dpin secret random a =
     cr_srp_reply C secret PAIR_SETUP_USERNAME (pad_pin pin) (take 16 random) (minimal_be (acc_srp_public C dpin random a))"

definition acc_session :: "crypto \<Rightarrow> nat \<Rightarrow> bytes \<Rightarrow> bool \<Rightarrow> setup_session" where
  "acc_session C pin random transient =
     \<lparr>ss_salt = take 16 random, ss_verifier = acc_verifier C pin random, ss_transient = transient, ss_session_key = None\<rparr>"

definition m2_of :: "crypto \<Rightarrow> nat \<Rightarrow> bytes \<Rightarrow> accessory \<Rightarrow> bytes" where
  "m2_of C pin random a =
     tlv_encode (tlv_with (tlv_with (with_byte [] SeqNo 2) Salt (take 16 random)) PublicKey (acc_srp_public C pin random a))"

lemma setup_m1_reply:
  "handle_pair_setup C random (tlv_encode (with_byte (with_byte [] Method 0) SeqNo 1)) a
   = (Ok (m2_of C (acc_pin a) random a), a\<lparr>acc_setup := Some (acc_session C (acc_pin a) random False)\<rparr>)"
  by (simp add: handle_pair_setup_def pair_simps accessory_setup_m1_def m2_of_def acc_session_def acc_verifier_def
      acc_srp_public_def Let_def)

lemma transient_m1_reply:
  "handle_pair_setup C random
     (tlv_encode (with_byte (with_byte (with_byte [] Method 0) SeqNo 1) FlagsTag FLAG_TRANSIENT_PAIRING)) a
   = (Ok (m2_of C TRANSIENT_PIN random a), a\<lparr>acc_setup := Some (acc_session C TRANSIENT_PIN random True)\<rparr>)"
  by (simp add: handle_pair_setup_def pair_simps accessory_setup_m1_def m2_of_def acc_session_def acc_verifier_def
      acc_srp_public_def Let_def FLAG_TRANSIENT_PAIRING_def)

text \<open>Both sides' view of a challenge: the session key and the two proofs.\<close>

definition srp_key_of :: "crypto \<Rightarrow> bytes \<Rightarrow> bytes" where
  "srp_key_of C S = cr_sha512 C S"

definition proof_of :: "crypto \<Rightarrow> nat \<Rightarrow> bytes \<Rightarrow> bytes \<Rightarrow> accessory \<Rightarrow> bytes \<Rightarrow> bytes" where
  "proof_of C dpin secret random a S = cr_srp_m1 C PAIR_SETUP_USERNAME (take 16 random)
     (minimal_be (cr_srp_public C secret)) (minimal_be (acc_srp_public C dpin random a)) (srp_key_of C S)"

definition device_proof_of :: "crypto \<Rightarrow> nat \<Rightarrow> bytes \<Rightarrow> bytes \<Rightarrow> accessory \<Rightarrow> bytes \<Rightarrow> bytes" where
  "device_proof_of C dpin secret random a S =
     cr_srp_m2 C (minimal_be (cr_srp_public C secret)) (proof_of C dpin secret random a S) (srp_key_of C S)"

definition challenged :: "crypto \<Rightarrow> nat \<Rightarrow> nat \<Rightarrow> bytes \<Rightarrow> bytes \<Rightarrow> accessory \<Rightarrow> bytes \<Rightarrow> srp_client" where
  "challenged C pin dpin secret random a S = (srp_new C pin secret)\<lparr>srp_exchanged := Some
     \<lparr>ex_session_key = srp_key_of C S, ex_client_proof = proof_of C dpin secret random a S,
      ex_device_proof = device_proof_of C dpin secret random a S\<rparr>\<rparr>"

lemma minimal_be_idem: "minimal_be (minimal_be bs) = minimal_be bs"
proof (cases "dropWhile (\<lambda>b. b = 0) bs")
  case (Cons b r)
  then have "b \<noteq> 0" using hd_dropWhile [of "\<lambda>b. b = 0" bs] by auto
  with Cons show ?thesis by (simp add: minimal_be_def)
qed (simp add: minimal_be_def del: dropWhile_eq_Nil_conv)

lemma challenge_agrees:
  assumes "crypto_ok C" "premaster C pin dpin secret random a = Some S"
  shows "process_challenge C (take 16 random) (acc_srp_public C dpin random a) (srp_new C pin secret)
    = (Ok (proof_of C dpin secret random a S), challenged C pin dpin secret random a S)"
proof -
  have "length (minimal_be (acc_srp_public C dpin random a)) \<le> MODULUS_LEN"
    using assms(1) unfolding crypto_ok_def srp_ok_def acc_srp_public_def acc_verifier_def Let_def by blast
  with assms(2) show ?thesis
    by (simp add: process_challenge_def premaster_def challenged_def proof_of_def device_proof_of_def srp_key_of_def
        srp_new_def srp_with_pin_def Let_def)
qed

lemma server_agrees:
  assumes "crypto_ok C" "premaster C pin pin secret random a = Some S"
  shows "cr_srp_server_reply C PAIR_SETUP_USERNAME (take 16 random) (acc_seed a) (acc_verifier C pin random)
      (minimal_be (cr_srp_public C secret))
    = Some (srp_key_of C S, proof_of C pin secret random a S, device_proof_of C pin secret random a S)"
    and "length (minimal_be (cr_srp_public C secret)) \<le> MODULUS_LEN"
  using assms unfolding crypto_ok_def srp_ok_def premaster_def acc_srp_public_def acc_verifier_def Let_def
    proof_of_def device_proof_of_def srp_key_of_def by blast+

definition m3_of :: "crypto \<Rightarrow> bytes \<Rightarrow> bytes \<Rightarrow> bytes" where
  "m3_of C secret proof =
     tlv_encode (tlv_with (tlv_with (with_byte [] SeqNo 3) PublicKey (minimal_be (cr_srp_public C secret))) Proof proof)"

definition m4_of :: "bytes \<Rightarrow> bytes" where
  "m4_of proof = tlv_encode (tlv_with (with_byte [] SeqNo 4) Proof proof)"

lemma srp_public_new [simp]: "srp_public (srp_new C pin secret) = minimal_be (cr_srp_public C secret)"
  by (simp add: srp_new_def srp_with_pin_def)

lemma challenged_simps [simp]:
  "srp_public (challenged C pin dpin secret random a S) = minimal_be (cr_srp_public C secret)"
  "srp_session_key (challenged C pin dpin secret random a S) = Some (srp_key_of C S)"
  "verify_device_proof p (challenged C pin dpin secret random a S)
     = (if p = device_proof_of C dpin secret random a S then Ok () else Err ProofMismatch)"
  by (simp_all add: challenged_def srp_session_key_def verify_device_proof_def)

lemma client_m3:
  assumes "crypto_ok C" "premaster C pin dpin (ps_seed s) random a = Some S"
    "so_pin (ps_options s) = Some pin" "ps_phase s = SetupM2"
  shows "setup_handle_m2 C (m2_of C dpin random a) s =
    (Ok (m3_of C (ps_seed s) (proof_of C dpin (ps_seed s) random a S)),
     s\<lparr>ps_srp := Some (challenged C pin dpin (ps_seed s) random a S), ps_phase := SetupM4\<rparr>)"
  by (simp add: setup_handle_m2_def setup_challenge_def m2_of_def pair_simps challenge_agrees [OF assms(1,2)] assms(3,4) m3_of_def)

lemma accessory_m4:
  assumes "crypto_ok C" "premaster C pin pin secret random a = Some S" "acc_seed a' = acc_seed a"
    "acc_setup a' = Some (acc_session C pin random transient)"
  shows "handle_pair_setup C random' (m3_of C secret (proof_of C pin secret random a S)) a'
    = (Ok (m4_of (device_proof_of C pin secret random a S)),
       (let a1 = a'\<lparr>acc_setup := Some ((acc_session C pin random transient)\<lparr>ss_session_key := Some (srp_key_of C S)\<rparr>)\<rparr>
        in if transient then a1\<lparr>acc_shared := Some (srp_key_of C S)\<rparr> else a1))"
  using server_agrees [OF assms(1,2)] assms(3,4)
  by (simp add: handle_pair_setup_def m3_of_def pair_simps accessory_setup_m3_def acc_session_def minimal_be_idem
      Let_def m4_of_def)

text \<open>A proof the accessory does not expect is refused, and the session is dropped.\<close>

lemma accessory_refuses:
  assumes "acc_setup a = Some session" "length (minimal_be (cr_srp_public C secret)) \<le> MODULUS_LEN"
    "cr_srp_server_reply C PAIR_SETUP_USERNAME (ss_salt session) (acc_seed a) (ss_verifier session)
       (minimal_be (cr_srp_public C secret)) = Some (K, m1, m2)" "proof \<noteq> m1"
  shows "handle_pair_setup C random (m3_of C secret proof) a
    = (Ok (error_response 4 ECAuthentication), a\<lparr>acc_setup := None\<rparr>)"
  using assms by (simp add: handle_pair_setup_def m3_of_def pair_simps accessory_setup_m3_def minimal_be_idem Let_def)

text \<open>
  The tags a caller adds to M5 must leave the three the accessory reads alone, and everything must fit
  the AEAD; an accessory signs with its own key unless a test corrupts it.
\<close>

definition options_ok :: "setup_options \<Rightarrow> bytes \<Rightarrow> bool" where
  "options_ok options cid \<longleftrightarrow>
     list_all (\<lambda>(t, v). t \<noteq> tlv_tag Identifier \<and> t \<noteq> tlv_tag PublicKey \<and> t \<noteq> tlv_tag Signature) (so_additional options)
     \<and> length cid + length (case so_name options of None \<Rightarrow> [] | Some n \<Rightarrow> n) + tlv_size (so_additional options) < 2 ^ 28"

definition accessory_ok :: "accessory \<Rightarrow> bool" where
  "accessory_ok a \<longleftrightarrow> length (acc_seed a) = 32 \<and> acc_signing_seed a = acc_seed a \<and> length (acc_identifier a) < 2 ^ 28"

lemma get_fold_other:
  "list_all (\<lambda>(t, v). t \<noteq> tlv_tag u) kvs \<Longrightarrow> tlv_get (foldl (\<lambda>m (t, v). set_raw m t v) m kvs) u = tlv_get m u"
  by (induction kvs arbitrary: m) (auto simp: tlv_get_def get_raw_set_raw)

lemma distinct_fold: "distinct (map fst m) \<Longrightarrow> distinct (map fst (foldl (\<lambda>m (t, v). set_raw m t v) m kvs))"
  by (induction kvs arbitrary: m) (auto simp: distinct_set_raw)

lemma m5_inner:
  assumes "options_ok (ps_options s) (ps_client_id s)"
  shows "tlv_get (setup_m5_inner C s x) Identifier = Some (ps_client_id s)"
    and "tlv_get (setup_m5_inner C s x) PublicKey = Some (cr_ed_public C (ps_seed s))"
    and "tlv_get (setup_m5_inner C s x) Signature
      = Some (cr_ed_sign C (ps_seed s) (x @ ps_client_id s @ cr_ed_public C (ps_seed s)))"
    and "distinct (map fst (setup_m5_inner C s x))"
proof -
  have g: "tlv_get (foldl (\<lambda>m (t, v). set_raw m t v) m (so_additional (ps_options s))) u = tlv_get m u"
    if "u \<in> {Identifier, PublicKey, Signature}" for u m
    by (rule get_fold_other) (use assms that in \<open>auto simp: options_ok_def list_all_iff\<close>)
  show "tlv_get (setup_m5_inner C s x) Identifier = Some (ps_client_id s)"
    by (simp add: setup_m5_inner_def Let_def g pair_simps split: option.split)
  show "tlv_get (setup_m5_inner C s x) PublicKey = Some (cr_ed_public C (ps_seed s))"
    by (simp add: setup_m5_inner_def Let_def g pair_simps split: option.split)
  show "tlv_get (setup_m5_inner C s x) Signature
      = Some (cr_ed_sign C (ps_seed s) (x @ ps_client_id s @ cr_ed_public C (ps_seed s)))"
    by (simp add: setup_m5_inner_def Let_def g pair_simps split: option.split)
  show "distinct (map fst (setup_m5_inner C s x))"
    by (auto simp: setup_m5_inner_def Let_def intro!: distinct_fold distinct_with split: option.split)
qed

lemma m5_inner_size:
  assumes "crypto_ok C" "length (ps_seed s) = 32" "options_ok (ps_options s) (ps_client_id s)"
  shows "length (tlv_encode (setup_m5_inner C s x)) < 2 ^ 32"
proof -
  let ?pk = "cr_ed_public C (ps_seed s)" and ?sg = "cr_ed_sign C (ps_seed s) (x @ ps_client_id s @ cr_ed_public C (ps_seed s))"
  let ?m = "tlv_with (tlv_with (tlv_with [] Identifier (ps_client_id s)) PublicKey ?pk) Signature ?sg"
  let ?n = "case so_name (ps_options s) of None \<Rightarrow> ?m | Some name \<Rightarrow> tlv_with ?m NameTag name"
  have l: "length ?pk = 32" "length ?sg = 64" using assms by (simp_all add: crypto_ok_def ed_ok_def)
  have "tlv_size ?m \<le> 6 + 3 * (length (ps_client_id s) + 96)"
    using tlv_size_with [of "[]" Identifier "ps_client_id s"]
      tlv_size_with [of "tlv_with [] Identifier (ps_client_id s)" PublicKey ?pk]
      tlv_size_with [of "tlv_with (tlv_with [] Identifier (ps_client_id s)) PublicKey ?pk" Signature ?sg] l by simp
  moreover have "tlv_size ?n \<le> tlv_size ?m + 2 + 3 * length (case so_name (ps_options s) of None \<Rightarrow> [] | Some n \<Rightarrow> n)"
    using tlv_size_with [of ?m NameTag] by (simp split: option.split)
  moreover have "tlv_size (setup_m5_inner C s x) \<le> tlv_size ?n + tlv_size (so_additional (ps_options s))"
    unfolding setup_m5_inner_def Let_def by (rule tlv_size_fold)
  moreover have "length (ps_client_id s) + length (case so_name (ps_options s) of None \<Rightarrow> [] | Some n \<Rightarrow> n)
      + tlv_size (so_additional (ps_options s)) < 2 ^ 28" using assms(3) by (simp add: options_ok_def)
  ultimately have "tlv_size (setup_m5_inner C s x) < 2 ^ 32" by simp
  with length_tlv_encode [of "setup_m5_inner C s x"] show ?thesis by simp
qed

lemma client_m5:
  assumes "crypto_ok C" "length (ps_seed s) = 32" "options_ok (ps_options s) (ps_client_id s)" "ps_phase s = SetupM4"
    "ps_srp s = Some (challenged C pin dpin (ps_seed s) random a S)"
  obtains x key sealed where
    "expand C CONTROLLER_SIGN_SALT CONTROLLER_SIGN_INFO (srp_key_of C S) = Ok x"
    "expand C SETUP_ENCRYPT_SALT SETUP_ENCRYPT_INFO (srp_key_of C S) = Ok key"
    "open_box C key PAIR_SETUP_M5_NONCE sealed = Ok (tlv_encode (setup_m5_inner C s x))"
    "setup_handle_m4 C (m4_of (device_proof_of C dpin (ps_seed s) random a S)) s
      = (Ok (tlv_encode (tlv_with (with_byte [] SeqNo 5) EncryptedData sealed)), s\<lparr>ps_key := Some key, ps_phase := SetupM6\<rparr>)"
proof -
  from expand_some [OF assms(1)] obtain x key where
    x: "expand C CONTROLLER_SIGN_SALT CONTROLLER_SIGN_INFO (srp_key_of C S) = Ok x" and
    k: "expand C SETUP_ENCRYPT_SALT SETUP_ENCRYPT_INFO (srp_key_of C S) = Ok key" by blast
  from seal_open_box [OF assms(1) m5_inner_size [OF assms(1-3)]] obtain sealed where
    b: "seal_box C key PAIR_SETUP_M5_NONCE (tlv_encode (setup_m5_inner C s x)) = Ok sealed"
      "open_box C key PAIR_SETUP_M5_NONCE sealed = Ok (tlv_encode (setup_m5_inner C s x))" by blast
  have "setup_handle_m4 C (m4_of (device_proof_of C dpin (ps_seed s) random a S)) s
      = (Ok (tlv_encode (tlv_with (with_byte [] SeqNo 5) EncryptedData sealed)), s\<lparr>ps_key := Some key, ps_phase := SetupM6\<rparr>)"
    by (simp add: setup_handle_m4_def assms(4,5) setup_m5_def m4_of_def pair_simps x k b)
  with x k b(2) show thesis by (rule that)
qed

lemma accessory_m6_reply:
  assumes "crypto_ok C" "accessory_ok a" "options_ok (ps_options s) (ps_client_id s)" "length (ps_seed s) = 32"
    "acc_setup a = Some session" "ss_session_key session = Some K"
    "expand C CONTROLLER_SIGN_SALT CONTROLLER_SIGN_INFO K = Ok x"
    "expand C SETUP_ENCRYPT_SALT SETUP_ENCRYPT_INFO K = Ok key"
    "open_box C key PAIR_SETUP_M5_NONCE sealed = Ok (tlv_encode (setup_m5_inner C s x))"
  obtains ax m6 where
    "handle_pair_setup C random (tlv_encode (tlv_with (with_byte [] SeqNo 5) EncryptedData sealed)) a
      = (Ok (tlv_encode (tlv_with (with_byte [] SeqNo 6) EncryptedData m6)),
         register_pairing (ps_client_id s) (cr_ed_public C (ps_seed s)) a)"
    "expand C ACCESSORY_SIGN_SALT ACCESSORY_SIGN_INFO K = Ok ax"
    "open_box C key PAIR_SETUP_M6_NONCE m6 = Ok (tlv_encode (tlv_with (tlv_with (tlv_with [] Identifier (acc_identifier a))
       PublicKey (cr_ed_public C (acc_seed a)))
       Signature (cr_ed_sign C (acc_seed a) (ax @ acc_identifier a @ cr_ed_public C (acc_seed a)))))"
proof -
  from expand_some [OF assms(1)] obtain ax where ax: "expand C ACCESSORY_SIGN_SALT ACCESSORY_SIGN_INFO K = Ok ax" by blast
  let ?pk = "cr_ed_public C (acc_seed a)" and ?sg = "cr_ed_sign C (acc_seed a) (ax @ acc_identifier a @ cr_ed_public C (acc_seed a))"
  let ?m = "tlv_with (tlv_with (tlv_with [] Identifier (acc_identifier a)) PublicKey ?pk) Signature ?sg"
  have l: "length ?pk = 32" "length ?sg = 64" using assms(1,2) by (simp_all add: crypto_ok_def ed_ok_def accessory_ok_def)
  have "tlv_size ?m \<le> 6 + 3 * (length (acc_identifier a) + 96)"
    using tlv_size_with [of "[]" Identifier "acc_identifier a"]
      tlv_size_with [of "tlv_with [] Identifier (acc_identifier a)" PublicKey ?pk]
      tlv_size_with [of "tlv_with (tlv_with [] Identifier (acc_identifier a)) PublicKey ?pk" Signature ?sg] l by simp
  with assms(2) length_tlv_encode [of ?m] have "length (tlv_encode ?m) < 2 ^ 32" by (simp add: accessory_ok_def)
  from seal_open_box [OF assms(1) this] obtain m6 where
    m6: "seal_box C key PAIR_SETUP_M6_NONCE (tlv_encode ?m) = Ok m6" "open_box C key PAIR_SETUP_M6_NONCE m6 = Ok (tlv_encode ?m)"
    by blast
  have "handle_pair_setup C random (tlv_encode (tlv_with (with_byte [] SeqNo 5) EncryptedData sealed)) a
      = (Ok (tlv_encode (tlv_with (with_byte [] SeqNo 6) EncryptedData m6)),
         register_pairing (ps_client_id s) (cr_ed_public C (ps_seed s)) a)"
    using assms(2) by (simp add: handle_pair_setup_def pair_simps accessory_setup_m5_def assms(5-9) m5_inner [OF assms(3)]
        signed_verifies [OF assms(1,4)] accessory_m6_def ax m6(1) acc_public_key_def register_pairing_def accessory_ok_def)
  with ax m6(2) show thesis by (intro that)
qed

definition agreed_credentials :: "crypto \<Rightarrow> bytes \<Rightarrow> bytes \<Rightarrow> accessory \<Rightarrow> hap_credentials" where
  "agreed_credentials C seed cid a =
     \<lparr>ltpk = cr_ed_public C (acc_seed a), ltsk = seed, atv_id = acc_identifier a, client_id = cid\<rparr>"

lemma client_m6:
  assumes "crypto_ok C" "accessory_ok a" "ps_phase s = SetupM6" "ps_key s = Some key"
    "ps_srp s = Some srp" "srp_session_key srp = Some K"
    "expand C ACCESSORY_SIGN_SALT ACCESSORY_SIGN_INFO K = Ok ax"
    "open_box C key PAIR_SETUP_M6_NONCE m6 = Ok (tlv_encode (tlv_with (tlv_with (tlv_with [] Identifier (acc_identifier a))
       PublicKey (cr_ed_public C (acc_seed a)))
       Signature (cr_ed_sign C (acc_seed a) (ax @ acc_identifier a @ cr_ed_public C (acc_seed a)))))"
  shows "setup_handle_m6 C (tlv_encode (tlv_with (with_byte [] SeqNo 6) EncryptedData m6)) s
    = (Ok (agreed_credentials C (ps_seed s) (ps_client_id s) a), s\<lparr>ps_phase := SetupComplete\<rparr>)"
  using signed_verifies [OF assms(1), of "acc_seed a" "ax @ acc_identifier a @ cr_ed_public C (acc_seed a)"] assms(2-8)
  by (simp add: setup_handle_m6_def setup_credentials_def pair_simps agreed_credentials_def accessory_ok_def)

lemma setup_run_ok:
  assumes "crypto_ok C" "accessory_ok a" "options_ok options cid" "length seed = 32" "so_pin options = Some (acc_pin a)"
    "premaster C (acc_pin a) (acc_pin a) seed random a = Some S"
  shows "\<exists>s' session. pair_setup_run C options seed cid random a
    = (Ok (agreed_credentials C seed cid a), s', register_pairing cid (cr_ed_public C seed) (a\<lparr>acc_setup := Some session\<rparr>))"
proof -
  define s where "s = fst (setup_start_with options seed cid)"
  have s: "ps_options s = options" "ps_seed s = seed" "ps_client_id s = cid" "ps_phase s = SetupM2"
    by (simp_all add: s_def setup_start_with_def)
  define srp where "srp = challenged C (acc_pin a) (acc_pin a) seed random a S"
  define s4 where "s4 = s\<lparr>ps_srp := Some srp, ps_phase := SetupM4\<rparr>"
  define session where "session = (acc_session C (acc_pin a) random False)\<lparr>ss_session_key := Some (srp_key_of C S)\<rparr>"
  define a4 where "a4 = a\<lparr>acc_setup := Some session\<rparr>"
  have s4: "length (ps_seed s4) = 32" "options_ok (ps_options s4) (ps_client_id s4)" "ps_phase s4 = SetupM4"
    "ps_srp s4 = Some (challenged C (acc_pin a) (acc_pin a) (ps_seed s4) random a S)"
    using assms(3,4) by (simp_all add: s4_def s srp_def)
  obtain x key sealed where x: "expand C CONTROLLER_SIGN_SALT CONTROLLER_SIGN_INFO (srp_key_of C S) = Ok x"
    and k: "expand C SETUP_ENCRYPT_SALT SETUP_ENCRYPT_INFO (srp_key_of C S) = Ok key"
    and o: "open_box C key PAIR_SETUP_M5_NONCE sealed = Ok (tlv_encode (setup_m5_inner C s4 x))"
    and m5: "setup_handle_m4 C (m4_of (device_proof_of C (acc_pin a) (ps_seed s4) random a S)) s4
      = (Ok (tlv_encode (tlv_with (with_byte [] SeqNo 5) EncryptedData sealed)), s4\<lparr>ps_key := Some key, ps_phase := SetupM6\<rparr>)"
    by (rule client_m5 [OF assms(1) s4])
  have c4: "ps_client_id s4 = cid" "ps_seed s4 = seed" by (simp_all add: s4_def s)
  have a4: "accessory_ok a4" "acc_setup a4 = Some session" "ss_session_key session = Some (srp_key_of C S)"
    using assms(2) by (simp_all add: a4_def accessory_ok_def session_def)
  obtain ax m6 where m6: "handle_pair_setup C random (tlv_encode (tlv_with (with_byte [] SeqNo 5) EncryptedData sealed)) a4
      = (Ok (tlv_encode (tlv_with (with_byte [] SeqNo 6) EncryptedData m6)),
         register_pairing (ps_client_id s4) (cr_ed_public C (ps_seed s4)) a4)"
    and ax: "expand C ACCESSORY_SIGN_SALT ACCESSORY_SIGN_INFO (srp_key_of C S) = Ok ax"
    and om: "open_box C key PAIR_SETUP_M6_NONCE m6 = Ok (tlv_encode (tlv_with (tlv_with (tlv_with [] Identifier (acc_identifier a4))
       PublicKey (cr_ed_public C (acc_seed a4)))
       Signature (cr_ed_sign C (acc_seed a4) (ax @ acc_identifier a4 @ cr_ed_public C (acc_seed a4)))))"
    by (rule accessory_m6_reply [OF assms(1) a4(1) s4(2,1) a4(2,3) x k o])
  have f: "setup_handle_m6 C (tlv_encode (tlv_with (with_byte [] SeqNo 6) EncryptedData m6)) (s4\<lparr>ps_key := Some key, ps_phase := SetupM6\<rparr>)
    = (Ok (agreed_credentials C seed cid a), s4\<lparr>ps_key := Some key, ps_phase := SetupComplete\<rparr>)"
    using client_m6 [OF assms(1) a4(1), of "s4\<lparr>ps_key := Some key, ps_phase := SetupM6\<rparr>" key srp _ ax m6] ax om
    by (simp add: s4_def s srp_def agreed_credentials_def a4_def)
  have m3: "setup_handle_m2 C (m2_of C (acc_pin a) random a) s = (Ok (m3_of C seed (proof_of C (acc_pin a) seed random a S)), s4)"
    using client_m3 [OF assms(1), of "acc_pin a" "acc_pin a" s random a S] assms(5,6) by (simp add: s s4_def srp_def)
  have m4: "handle_pair_setup C random (m3_of C seed (proof_of C (acc_pin a) seed random a S))
      (a\<lparr>acc_setup := Some (acc_session C (acc_pin a) random False)\<rparr>) = (Ok (m4_of (device_proof_of C (acc_pin a) seed random a S)), a4)"
    using accessory_m4 [OF assms(1,6), of "a\<lparr>acc_setup := Some (acc_session C (acc_pin a) random False)\<rparr>" False random]
    by (simp add: a4_def session_def)
  have m5': "setup_handle_m4 C (m4_of (device_proof_of C (acc_pin a) seed random a S)) s4
      = (Ok (tlv_encode (tlv_with (with_byte [] SeqNo 5) EncryptedData sealed)), s4\<lparr>ps_key := Some key, ps_phase := SetupM6\<rparr>)"
    using m5 by (simp add: s4_def s)
  have st: "setup_start_with options seed cid = (s, tlv_encode (with_byte (with_byte [] Method 0) SeqNo 1))"
    by (simp add: s_def setup_start_with_def)
  have "pair_setup_run C options seed cid random a
    = (Ok (agreed_credentials C seed cid a), s4\<lparr>ps_key := Some key, ps_phase := SetupComplete\<rparr>,
       register_pairing cid (cr_ed_public C seed) a4)"
    by (simp add: pair_setup_run_def st setup_messages_def drive_simps setup_m1_reply m3 m4 m5' m6 f c4)
  then show ?thesis unfolding a4_def by blast
qed

section \<open>Pair-verify runs\<close>

definition knows_accessory :: "crypto \<Rightarrow> hap_credentials \<Rightarrow> accessory \<Rightarrow> bool" where
  "knows_accessory C c a \<longleftrightarrow> atv_id c = acc_identifier a \<and> ltpk c = cr_ed_public C (acc_seed a) \<and> length (ltsk c) = 32
     \<and> length (client_id c) < 2 ^ 28
     \<and> find (\<lambda>(i, _). i = client_id c) (acc_pairings a) = Some (client_id c, cr_ed_public C (ltsk c))"

lemma identity_box:
  assumes "crypto_ok C" "length i < 2 ^ 28" "length sg = 64"
  shows "\<exists>b. seal_box C k l (tlv_encode (tlv_with (tlv_with [] Identifier i) Signature sg)) = Ok b
    \<and> open_box C k l b = Ok (tlv_encode (tlv_with (tlv_with [] Identifier i) Signature sg))"
proof -
  have "tlv_size (tlv_with (tlv_with [] Identifier i) Signature sg) \<le> 4 + 3 * (length i + 64)"
    using tlv_size_with [of "[]" Identifier i] tlv_size_with [of "tlv_with [] Identifier i" Signature sg] assms(3) by simp
  with assms(2) length_tlv_encode [of "tlv_with (tlv_with [] Identifier i) Signature sg"]
  have "length (tlv_encode (tlv_with (tlv_with [] Identifier i) Signature sg)) < 2 ^ 32" by simp
  with assms(1) show ?thesis by (rule seal_open_box)
qed

lemma verify_run_ok:
  assumes "crypto_ok C" "accessory_ok a" "knows_accessory C c a"
  shows "\<exists>v' client_key. pair_verify_run C c scalar a = (Ok (), v', a\<lparr>acc_shared := pv_shared_secret v', acc_client_key := Some client_key\<rparr>)
    \<and> pv_phase v' = VerifyComplete \<and> pv_shared_secret v' = Some (cr_x25519 C scalar (x25519_public_key C (acc_seed a)))"
proof -
  let ?ck = "x25519_public_key C scalar" and ?ak = "x25519_public_key C (acc_seed a)" and ?i = "acc_identifier a"
  let ?shared = "cr_x25519 C scalar ?ak"
  have sh: "cr_x25519 C (acc_seed a) ?ck = ?shared" using exchange_agrees(1) [OF assms(1)] by metis
  have l: "length ?ck = 32" "length ?ak = 32" using exchange_agrees(2) [OF assms(1)] by simp_all
  from expand_some [OF assms(1)] obtain sk where sk: "expand C VERIFY_ENCRYPT_SALT VERIFY_ENCRYPT_INFO ?shared = Ok sk" by blast
  let ?asg = "cr_ed_sign C (acc_seed a) (?ak @ ?i @ ?ck)" and ?csg = "cr_ed_sign C (ltsk c) (?ck @ client_id c @ ?ak)"
  have al: "length ?asg = 64" "length ?csg = 64" "length ?i < 2 ^ 28" "length (client_id c) < 2 ^ 28"
    "acc_signing_seed a = acc_seed a" "length (acc_seed a) = 32" "length (ltsk c) = 32"
    using assms by (simp_all add: crypto_ok_def ed_ok_def accessory_ok_def knows_accessory_def)
  from identity_box [OF assms(1) al(3,1)] obtain b2 where
    b2: "seal_box C sk PAIR_VERIFY_M2_NONCE (tlv_encode (tlv_with (tlv_with [] Identifier ?i) Signature ?asg)) = Ok b2"
      "open_box C sk PAIR_VERIFY_M2_NONCE b2 = Ok (tlv_encode (tlv_with (tlv_with [] Identifier ?i) Signature ?asg))" by blast
  from identity_box [OF assms(1) al(4,2)] obtain b3 where
    b3: "seal_box C sk PAIR_VERIFY_M3_NONCE (tlv_encode (tlv_with (tlv_with [] Identifier (client_id c)) Signature ?csg)) = Ok b3"
      "open_box C sk PAIR_VERIFY_M3_NONCE b3 = Ok (tlv_encode (tlv_with (tlv_with [] Identifier (client_id c)) Signature ?csg))" by blast
  let ?a = "a\<lparr>acc_shared := Some ?shared, acc_client_key := Some ?ck\<rparr>"
  let ?m2 = "tlv_encode (tlv_with (tlv_with (with_byte [] SeqNo 2) PublicKey ?ak) EncryptedData b2)"
  let ?m3 = "tlv_encode (tlv_with (with_byte [] SeqNo 3) EncryptedData b3)"
  obtain v m1 where st: "verify_start C c scalar = (v, m1)" by (cases "verify_start C c scalar")
  then have v: "pv_credentials v = c" "pv_exchange v = Some scalar" "pv_public_key v = ?ck" "pv_phase v = VerifyM2"
    and m1: "m1 = tlv_encode (tlv_with (with_byte [] SeqNo 1) PublicKey ?ck)"
    by (auto simp: verify_start_def Let_def)
  have 2: "handle_pair_verify C m1 a = (Ok ?m2, ?a)"
    by (simp add: m1 handle_pair_verify_def pair_simps accessory_verify_m1_def l sh sk Let_def al(5) b2)
  have 3: "verify_handle_m2 C ?m2 v = (Ok ?m3, v\<lparr>pv_exchange := None, pv_shared_secret := Some ?shared, pv_phase := VerifyM4\<rparr>)"
    using assms(3) signed_verifies [OF assms(1) al(6), of "?ak @ ?i @ ?ck"] al(7)
    by (simp add: verify_handle_m2_def v verify_m3_def Let_def pair_simps ephemeral_exchange_def l X25519_LEN_def sk b2 b3
        knows_accessory_def)
  have 4: "handle_pair_verify C ?m3 ?a = (Ok (tlv_encode (with_byte [] SeqNo 4)), ?a)"
    using assms(3) signed_verifies [OF assms(1) al(7), of "?ck @ client_id c @ ?ak"]
    by (simp add: handle_pair_verify_def pair_simps accessory_verify_m3_def sk b3 knows_accessory_def)
  have "pair_verify_run C c scalar a
    = (Ok (), v\<lparr>pv_exchange := None, pv_shared_secret := Some ?shared, pv_phase := VerifyComplete\<rparr>, ?a)"
    by (simp add: pair_verify_run_def st verify_messages_def drive_simps 2 3 4 verify_handle_m4_def pair_simps)
  then show ?thesis
    by (intro exI [of _ "v\<lparr>pv_exchange := None, pv_shared_secret := Some ?shared, pv_phase := VerifyComplete\<rparr>"] exI [of _ ?ck]) simp
qed

end
