(* ===== verification/Pairing_Agreement.thy ===== *)
theory Pairing_Agreement
  imports Pairing_Run
begin

text \<open>
  What pairing achieves: credentials both sides accept afterwards, session keys that face each other, and
  the refusal of a wrong PIN.
\<close>

section \<open>An instance of the laws\<close>

definition toy_x25519 :: "bytes \<Rightarrow> bytes \<Rightarrow> bytes" where
  "toy_x25519 a p = map (\<lambda>i. (if i < length a then a ! i else 0) + (if i < length p then p ! i else 0)) [0 ..< 32]"

definition toy_crypto :: crypto where
  "toy_crypto = \<lparr>cr_aead = toy_aead, cr_hkdf = (\<lambda>s i k. Some (take 32 (k @ replicate 32 0))),
     cr_ed_public = (\<lambda>seed. seed), cr_ed_sign = (\<lambda>seed m. seed @ replicate 32 0),
     cr_ed_verify = (\<lambda>pk m sg. sg = pk @ replicate 32 0), cr_x25519 = toy_x25519, cr_basepoint = [],
     cr_sha512 = (\<lambda>bs. bs), cr_srp_public = (\<lambda>s. [1]),
     cr_srp_reply = (\<lambda>secret user pin salt B. Some (user @ pin @ salt)),
     cr_srp_m1 = (\<lambda>user salt A B K. K), cr_srp_m2 = (\<lambda>A m1 K. m1),
     cr_srp_verifier = (\<lambda>user pin salt. user @ pin @ salt), cr_srp_server_public = (\<lambda>seed v. [1]),
     cr_srp_server_reply = (\<lambda>user salt seed v A. Some (v, v, v))\<rparr>"

lemma toy_x25519_agrees: "toy_x25519 a (toy_x25519 b []) = toy_x25519 b (toy_x25519 a [])"
  by (simp add: toy_x25519_def)

lemma toy_aead_total: "aead_total toy_aead"
  by (simp add: aead_total_def toy_aead_def)

lemma toy_ed_ok: "ed_ok toy_crypto"
  by (simp add: ed_ok_def toy_crypto_def)

lemma toy_x25519_ok: "x25519_ok toy_crypto"
  by (simp add: x25519_ok_def toy_crypto_def toy_x25519_agrees) (simp add: toy_x25519_def)

lemma toy_hkdf_ok: "hkdf_ok toy_crypto"
  by (auto simp add: hkdf_ok_def toy_crypto_def min_def)

lemma toy_srp_ok: "srp_ok toy_crypto"
  by (simp add: srp_ok_def toy_crypto_def minimal_be_def MODULUS_LEN_def)

lemma toy_crypto_ok: "crypto_ok toy_crypto"
  using toy_aead_ok toy_aead_total toy_ed_ok toy_x25519_ok toy_hkdf_ok toy_srp_ok
  by (simp add: crypto_ok_def) (simp add: toy_crypto_def)

section \<open>Pairing, then verifying\<close>

lemma find_registered:
  "cid \<notin> fst ` set ps \<Longrightarrow> find (\<lambda>(i, _). i = cid) (ps @ [(cid, pk)]) = Some (cid, pk)"
  by (induction ps) auto

text \<open>
  C22: Pairing works end to end. With the accessory's PIN, pair-setup against an accessory ends with
  credentials that name the accessory and its key, and the accessory has registered the controller. With
  those credentials and any later scalar, pair-verify against it then succeeds, and the keys the two sides
  derive for a channel are each other's mirror image, so that their HAP sessions face each other both ways.
\<close>

theorem paired_devices_verify:
  assumes "crypto_ok C" and "accessory_ok a" and "options_ok options cid" and "length seed = 32"
    and "so_pin options = Some (acc_pin a)" and "premaster C (acc_pin a) (acc_pin a) seed random a = Some S"
    and "cid \<notin> fst ` set (acc_pairings a)"
  shows "\<exists>s a1 v a2 kc ka.
      pair_setup_run C options seed cid random a = (Ok (agreed_credentials C seed cid a), s, a1)
    \<and> acc_pairings a1 = acc_pairings a @ [(cid, cr_ed_public C seed)]
    \<and> pair_verify_run C (agreed_credentials C seed cid a) scalar a1 = (Ok (), v, a2)
    \<and> verify_encryption_keys C salt out_info in_info v = Ok kc
    \<and> accessory_encryption_keys C salt in_info out_info a2 = Ok ka
    \<and> (let client = hap_new (sk_output_key kc) (sk_input_key kc); server = hap_new (sk_output_key ka) (sk_input_key ka) in
        facing (hap_cipher client) (hap_cipher server) \<and> facing (hap_cipher server) (hap_cipher client))"
proof -
  let ?c = "agreed_credentials C seed cid a"
  from setup_run_ok [OF assms(1-6)] obtain s session where
    s: "pair_setup_run C options seed cid random a
      = (Ok ?c, s, register_pairing cid (cr_ed_public C seed) (a\<lparr>acc_setup := Some session\<rparr>))" by blast
  define a1 where "a1 = register_pairing cid (cr_ed_public C seed) (a\<lparr>acc_setup := Some session\<rparr>)"
  have "accessory_ok a1" using assms(2) by (simp add: a1_def accessory_ok_def register_pairing_def)
  moreover have "knows_accessory C ?c a1"
    using assms(3,4,7) by (simp add: a1_def knows_accessory_def agreed_credentials_def register_pairing_def find_registered options_ok_def)
  ultimately obtain v ck where v: "pair_verify_run C ?c scalar a1 = (Ok (), v, a1\<lparr>acc_shared := pv_shared_secret v, acc_client_key := Some ck\<rparr>)"
    "pv_shared_secret v = Some (cr_x25519 C scalar (x25519_public_key C (acc_seed a1)))"
    using verify_run_ok [OF assms(1)] by blast
  let ?shared = "cr_x25519 C scalar (x25519_public_key C (acc_seed a1))"
  from expand_some [OF assms(1)] obtain ko where ko: "expand C salt out_info ?shared = Ok ko" by blast
  from expand_some [OF assms(1)] obtain ki where ki: "expand C salt in_info ?shared = Ok ki" by blast
  have "verify_encryption_keys C salt out_info in_info v = Ok \<lparr>sk_shared_secret = ?shared, sk_output_key = ko, sk_input_key = ki\<rparr>"
    "accessory_encryption_keys C salt in_info out_info (a1\<lparr>acc_shared := pv_shared_secret v, acc_client_key := Some ck\<rparr>)
      = Ok \<lparr>sk_shared_secret = ?shared, sk_output_key = ki, sk_input_key = ko\<rparr>"
    by (simp_all add: verify_encryption_keys_def accessory_encryption_keys_def v(2) ko ki)
  moreover have "acc_pairings a1 = acc_pairings a @ [(cid, cr_ed_public C seed)]" by (simp add: a1_def register_pairing_def)
  moreover have "facing (hap_cipher (hap_new k k')) (hap_cipher (hap_new k' k))" for k k'
    by (simp add: hap_new_def facing_new)
  ultimately show ?thesis using s v(1) unfolding a1_def Let_def by (metis session_keys.select_convs(2,3))
qed

definition toy_options :: setup_options where
  "toy_options = \<lparr>so_pin = Some 1111, so_name = Some (lit ''pyatv''), so_additional = [(0x20, [1, 2])]\<rparr>"

lemma toy_accessory_ok: "accessory_ok accessory_new"
  by (simp add: accessory_ok_def accessory_new_def accessory_with_pin_def PRIVATE_KEY_def SERVER_IDENTIFIER_def)

lemma toy_options_ok: "options_ok toy_options (lit ''id'')"
  by (simp add: options_ok_def toy_options_def tlv_size_def)

lemma paired_devices_verify_witness:
  "\<exists>s a1 v a2. pair_setup_run toy_crypto toy_options (replicate 32 7) (lit ''id'') (replicate 32 9) accessory_new
      = (Ok (agreed_credentials toy_crypto (replicate 32 7) (lit ''id'') accessory_new), s, a1)
    \<and> pair_verify_run toy_crypto (agreed_credentials toy_crypto (replicate 32 7) (lit ''id'') accessory_new) [5] a1 = (Ok (), v, a2)"
proof -
  have "length (replicate 32 (7 :: u8)) = 32" "so_pin toy_options = Some (acc_pin accessory_new)"
    "lit ''id'' \<notin> fst ` set (acc_pairings accessory_new)"
    by (simp_all add: toy_options_def accessory_new_def accessory_with_pin_def ACCESSORY_PIN_def)
  moreover have "\<exists>S. premaster toy_crypto (acc_pin accessory_new) (acc_pin accessory_new) (replicate 32 7) (replicate 32 9) accessory_new = Some S"
    by (simp add: premaster_def toy_crypto_def)
  ultimately show ?thesis
    using paired_devices_verify [OF toy_crypto_ok toy_accessory_ok toy_options_ok, where scalar = "[5]"] by blast
qed

section \<open>A wrong PIN\<close>

lemma client_refused:
  "ps_phase s = SetupM4 \<Longrightarrow> ps_srp s = Some srp
   \<Longrightarrow> setup_handle_m4 C (error_response 4 ECAuthentication) s = (Err (HapErrorCode ECAuthentication), s)"
  by (simp add: setup_handle_m4_def setup_m5_def error_response_def decode_response_error pair_simps del: error_code_byte.simps)

text \<open>
  C23: A wrong PIN is refused on both sides. When the controller's proof is not the one the accessory expects,
  the accessory drops the session and registers nothing, and the controller ends with the device's own
  authentication error, which callers see as a rejected identity rather than a broken exchange.
\<close>

theorem wrong_pin_refused:
  assumes "crypto_ok C" and "so_pin options = Some pin" and "premaster C pin (acc_pin a) seed random a = Some S"
    and "cr_srp_server_reply C PAIR_SETUP_USERNAME (take 16 random) (acc_seed a) (acc_verifier C (acc_pin a) random)
      (minimal_be (cr_srp_public C seed)) = Some (K, m1, m2)"
    and "proof_of C (acc_pin a) seed random a S \<noteq> m1"
  shows "\<exists>s a'. pair_setup_run C options seed cid random a = (Err (HapErrorCode ECAuthentication), s, a')
    \<and> acc_pairings a' = acc_pairings a \<and> acc_setup a' = None
    \<and> hap_core_of (HapErrorCode ECAuthentication) = HapAuthentication (lit ''device reported HAP error Authentication'')"
proof -
  obtain s where st: "setup_start_with options seed cid = (s, tlv_encode (with_byte (with_byte [] Method 0) SeqNo 1))"
    and s: "ps_options s = options" "ps_seed s = seed" "ps_phase s = SetupM2"
    by (simp add: setup_start_with_def)
  let ?srp = "challenged C pin (acc_pin a) seed random a S" and ?proof = "proof_of C (acc_pin a) seed random a S"
  have 3: "setup_handle_m2 C (m2_of C (acc_pin a) random a) s = (Ok (m3_of C seed ?proof), s\<lparr>ps_srp := Some ?srp, ps_phase := SetupM4\<rparr>)"
    using client_m3 [OF assms(1), of pin "acc_pin a" s random a S] assms(2,3) by (simp add: s)
  have "length (minimal_be (cr_srp_public C seed)) \<le> MODULUS_LEN"
    using assms(1) unfolding crypto_ok_def srp_ok_def Let_def by blast
  then have 4: "handle_pair_setup C random (m3_of C seed ?proof) (a\<lparr>acc_setup := Some (acc_session C (acc_pin a) random False)\<rparr>)
      = (Ok (error_response 4 ECAuthentication), a\<lparr>acc_setup := None\<rparr>)"
    using accessory_refuses [of "a\<lparr>acc_setup := Some (acc_session C (acc_pin a) random False)\<rparr>"
        "acc_session C (acc_pin a) random False" C seed K m1 m2 ?proof random] assms(4,5)
    by (simp add: acc_session_def)
  have "pair_setup_run C options seed cid random a
    = (Err (HapErrorCode ECAuthentication), s\<lparr>ps_srp := Some ?srp, ps_phase := SetupM4\<rparr>, a\<lparr>acc_setup := None\<rparr>)"
    by (simp add: pair_setup_run_def st setup_messages_def drive_simps setup_m1_reply 3 4 client_refused)
  moreover have "hap_core_of (HapErrorCode ECAuthentication) = HapAuthentication (lit ''device reported HAP error Authentication'')"
    by (simp add: hap_core_of_def identity_rejected_def)
  ultimately show ?thesis by simp
qed

lemma wrong_pin_refused_witness:
  "\<exists>s a'. pair_setup_run toy_crypto (toy_options\<lparr>so_pin := Some 42\<rparr>) (replicate 32 7) (lit ''id'') (replicate 16 9) accessory_new
      = (Err (HapErrorCode ECAuthentication), s, a') \<and> acc_pairings a' = acc_pairings accessory_new"
proof -
  have "premaster toy_crypto 42 (acc_pin accessory_new) (replicate 32 7) (replicate 16 9) accessory_new
      = Some (PAIR_SETUP_USERNAME @ pad_pin 42 @ replicate 16 9)"
    by (simp add: premaster_def toy_crypto_def)
  moreover have "proof_of toy_crypto (acc_pin accessory_new) (replicate 32 7) (replicate 16 9) accessory_new
        (PAIR_SETUP_USERNAME @ pad_pin 42 @ replicate 16 9)
      \<noteq> acc_verifier toy_crypto (acc_pin accessory_new) (replicate 16 9)"
    by (simp add: proof_of_def toy_crypto_def srp_key_of_def acc_verifier_def accessory_new_def accessory_with_pin_def
        ACCESSORY_PIN_def pad_pin_def decimal.simps Let_def)
  moreover have "cr_srp_server_reply toy_crypto u s e v A = Some (v, v, v)" for u s e v A
    by (simp add: toy_crypto_def)
  ultimately show ?thesis
    using wrong_pin_refused [OF toy_crypto_ok, of "toy_options\<lparr>so_pin := Some 42\<rparr>" 42 accessory_new "replicate 32 7" "replicate 16 9"]
    by (fastforce simp: toy_options_def)
qed

section \<open>Transient pairing\<close>

text \<open>
  Transient pairing keys the transport: against an accessory, with the fixed PIN on both sides, the
  exchange succeeds and both derive the same keys, mirrored, from the SRP session key itself.
\<close>

theorem transient_agrees:
  assumes "crypto_ok C" and "premaster C TRANSIENT_PIN TRANSIENT_PIN secret random a = Some S"
  shows "\<exists>t a' kc ka. transient_run C secret random a = (Ok (), t, a')
    \<and> transient_encryption_keys C salt out_info in_info t = Ok kc
    \<and> accessory_encryption_keys C salt in_info out_info a' = Ok ka
    \<and> sk_shared_secret kc = sk_shared_secret ka \<and> sk_output_key kc = sk_input_key ka \<and> sk_input_key kc = sk_output_key ka"
proof -
  let ?K = "srp_key_of C S" and ?srp = "challenged C TRANSIENT_PIN TRANSIENT_PIN secret random a S"
  let ?p = "proof_of C TRANSIENT_PIN secret random a S" and ?a = "a\<lparr>acc_setup := Some (acc_session C TRANSIENT_PIN random True)\<rparr>"
  obtain t where st: "transient_start_with C secret
      = (t, tlv_encode (with_byte (with_byte (with_byte [] Method 0) SeqNo 1) FlagsTag FLAG_TRANSIENT_PAIRING))"
    and t: "ts_srp t = srp_new C TRANSIENT_PIN secret" by (simp add: transient_start_with_def)
  have 3: "transient_handle_m2 C (m2_of C TRANSIENT_PIN random a) t = (Ok (m3_of C secret ?p), t\<lparr>ts_srp := ?srp\<rparr>)"
    by (simp add: transient_handle_m2_def m2_of_def pair_simps t challenge_agrees [OF assms] m3_of_def)
  obtain a' where 4: "handle_pair_setup C random (m3_of C secret ?p) ?a = (Ok (m4_of (device_proof_of C TRANSIENT_PIN secret random a S)), a')"
    "acc_shared a' = Some ?K" using accessory_m4 [OF assms, of ?a True random] by (simp add: Let_def)
  have "transient_run C secret random a = (Ok (), t\<lparr>ts_srp := ?srp, ts_verified := True\<rparr>, a')"
    by (simp add: transient_run_def st transient_messages_def drive_simps transient_m1_reply 3 4
        transient_handle_m4_def m4_of_def pair_simps)
  moreover from expand_some [OF assms(1)] obtain ko ki where "expand C salt out_info ?K = Ok ko" "expand C salt in_info ?K = Ok ki" by blast
  then have "transient_encryption_keys C salt out_info in_info (t\<lparr>ts_srp := ?srp, ts_verified := True\<rparr>)
      = Ok \<lparr>sk_shared_secret = ?K, sk_output_key = ko, sk_input_key = ki\<rparr>"
    "accessory_encryption_keys C salt in_info out_info a' = Ok \<lparr>sk_shared_secret = ?K, sk_output_key = ki, sk_input_key = ko\<rparr>"
    by (simp_all add: transient_encryption_keys_def accessory_encryption_keys_def 4(2))
  ultimately show ?thesis by (metis session_keys.select_convs)
qed

lemma transient_agrees_witness:
  "\<exists>t a'. transient_run toy_crypto (replicate 32 7) (replicate 32 9) accessory_new = (Ok (), t, a')"
proof -
  have "\<exists>S. premaster toy_crypto TRANSIENT_PIN TRANSIENT_PIN (replicate 32 7) (replicate 32 9) accessory_new = Some S"
    by (simp add: premaster_def toy_crypto_def)
  then show ?thesis using transient_agrees [OF toy_crypto_ok] by blast
qed

end
