(* ===== verification/Pairing_Order.thy ===== *)
theory Pairing_Order
  imports Pairing_Agreement
begin

text \<open>
  The controller's machines called in any order with any payload: what must have been received before they
  give keys or credentials. Each machine is a step relation that keeps the calls it accepted.
\<close>

section \<open>Pair-verify in any order\<close>

datatype verify_call = VerifyCallM2 bytes | VerifyCallM4 bytes

inductive verify_reaches :: "crypto \<Rightarrow> hap_credentials \<Rightarrow> bytes \<Rightarrow> verify_call list \<Rightarrow> pair_verify \<Rightarrow> bool"
  for C :: crypto and c :: hap_credentials and scalar :: bytes where
  verify_started: "verify_reaches C c scalar [] (fst (verify_start C c scalar))"
| verify_called_m2: "verify_reaches C c scalar calls v \<Longrightarrow> verify_handle_m2 C payload v = (r, v')
    \<Longrightarrow> verify_reaches C c scalar (calls @ [VerifyCallM2 payload]) v'"
| verify_called_m4: "verify_reaches C c scalar calls v \<Longrightarrow> verify_handle_m4 payload v = (r, v')
    \<Longrightarrow> verify_reaches C c scalar (calls @ [VerifyCallM4 payload]) v'"

text \<open>
  An authentic M2: from the device the credentials name, over both ephemeral keys. Its secret is the exchange
  with the key it carries.
\<close>

definition authentic_m2 :: "crypto \<Rightarrow> hap_credentials \<Rightarrow> bytes \<Rightarrow> bytes \<Rightarrow> bytes \<Rightarrow> bool" where
  "authentic_m2 C c scalar payload shared \<longleftrightarrow>
     (\<exists>response accessory_key sealed key plain inner signature.
        decode_response payload 2 = Ok response \<and> tlv_get response PublicKey = Some accessory_key
      \<and> tlv_get response EncryptedData = Some sealed \<and> shared = cr_x25519 C scalar accessory_key
      \<and> expand C VERIFY_ENCRYPT_SALT VERIFY_ENCRYPT_INFO shared = Ok key
      \<and> open_box C key PAIR_VERIFY_M2_NONCE sealed = Ok plain \<and> tlv_decode plain = Ok inner
      \<and> tlv_get inner Identifier = Some (atv_id c) \<and> tlv_get inner Signature = Some signature
      \<and> verify_signature C (ltpk c) (accessory_key @ atv_id c @ x25519_public_key C scalar) signature)"

lemma verify_m3_authentic:
  assumes "verify_m3 C payload v scalar = Ok (request, shared)" "pv_credentials v = c" "pv_public_key v = x25519_public_key C scalar"
  shows "authentic_m2 C c scalar payload shared"
  using assms unfolding verify_m3_def Let_def authentic_m2_def
  by (auto simp: rbind_Ok_iff ok_or_Ok_iff map_err_Ok_iff require_owned_get ephemeral_exchange_def tlv_decoded_def split: if_splits)

lemma verify_reaches_inv:
  "verify_reaches C c scalar calls v \<Longrightarrow>
     pv_credentials v = c \<and> pv_public_key v = x25519_public_key C scalar
   \<and> (pv_exchange v = None \<or> pv_exchange v = Some scalar) \<and> (pv_phase v = VerifyM2 \<longleftrightarrow> pv_shared_secret v = None)
   \<and> (\<forall>shared. pv_shared_secret v = Some shared \<longrightarrow>
        (\<exists>payload. VerifyCallM2 payload \<in> set calls \<and> authentic_m2 C c scalar payload shared))"
proof (induction rule: verify_reaches.induct)
  case verify_started
  then show ?case by (simp add: verify_start_def Let_def)
next
  case (verify_called_m2 calls v payload r v')
  then show ?case
    using verify_m3_authentic [of C payload "v\<lparr>pv_exchange := None\<rparr>" scalar _ _ c]
    by (auto simp: verify_handle_m2_def Let_def split: if_splits option.splits sum.splits)
next
  case (verify_called_m4 calls v payload r v')
  then show ?case
    by (auto simp: verify_handle_m4_def split: verify_phase.splits sum.splits)
qed

text \<open>
  C24: Pair-verify authenticates before it keys. However the machine was called, and whatever it was sent, it
  gives transport keys only if one of the M2 messages it received was authentic: it opened under the key
  derived from the exchange, it named the accessory of the credentials, and its signature by the accessory's
  long-term key covers both ephemeral keys. The keys come from that very exchange.
\<close>

theorem keys_only_after_authentication:
  assumes "verify_reaches C c scalar calls v" and "verify_encryption_keys C salt out_info in_info v = Ok keys"
  shows "\<exists>payload. VerifyCallM2 payload \<in> set calls \<and> authentic_m2 C c scalar payload (sk_shared_secret keys)
    \<and> expand C salt out_info (sk_shared_secret keys) = Ok (sk_output_key keys)
    \<and> expand C salt in_info (sk_shared_secret keys) = Ok (sk_input_key keys)"
  using verify_reaches_inv [OF assms(1)] assms(2)
  by (auto simp: verify_encryption_keys_def rbind_Ok_iff ok_or_Ok_iff)

lemma verify_run_reaches: "pair_verify_run C c scalar a = (r, v, a') \<Longrightarrow> \<exists>calls. verify_reaches C c scalar calls v"
proof -
  assume run: "pair_verify_run C c scalar a = (r, v, a')"
  obtain v0 m1 where st: "verify_start C c scalar = (v0, m1)" by (cases "verify_start C c scalar")
  then have r0: "verify_reaches C c scalar [] v0" using verify_started [of C c scalar] by simp
  obtain q1 a1 where 1: "handle_pair_verify C m1 a = (q1, a1)" by (cases "handle_pair_verify C m1 a")
  show ?thesis
  proof (cases q1)
    case (Inl e)
    with run r0 show ?thesis by (auto simp: pair_verify_run_def st verify_messages_def drive_simps 1)
  next
    case m2: (Inr m2)
    obtain q2 v2 where 2: "verify_handle_m2 C m2 v0 = (q2, v2)" by (cases "verify_handle_m2 C m2 v0")
    then have r2: "verify_reaches C c scalar ([] @ [VerifyCallM2 m2]) v2" by (rule verify_called_m2 [OF r0])
    then show ?thesis using run verify_called_m4 [OF r2]
      by (fastforce simp: pair_verify_run_def st verify_messages_def drive_simps 1 2 m2 split: sum.splits prod.splits)
  qed
qed

definition toy_credentials :: hap_credentials where
  "toy_credentials = agreed_credentials toy_crypto (replicate 32 7) (lit ''id'') accessory_new"

definition toy_registered :: accessory where
  "toy_registered = register_pairing (lit ''id'') (cr_ed_public toy_crypto (replicate 32 7)) accessory_new"

lemma toy_known: "knows_accessory toy_crypto toy_credentials toy_registered" "accessory_ok toy_registered"
  using toy_accessory_ok by (simp_all add: knows_accessory_def toy_credentials_def toy_registered_def agreed_credentials_def
      register_pairing_def accessory_new_def accessory_with_pin_def accessory_ok_def)

lemma keys_only_after_authentication_witness:
  "\<exists>payload shared. authentic_m2 toy_crypto toy_credentials [5] payload shared"
proof -
  from verify_run_ok [OF toy_crypto_ok toy_known(2,1)] obtain v a' where
    v: "pair_verify_run toy_crypto toy_credentials [5] toy_registered = (Ok (), v, a')" and s: "pv_shared_secret v \<noteq> None" by blast
  then obtain shared where s: "pv_shared_secret v = Some shared" by auto
  from expand_some [OF toy_crypto_ok] obtain k1 k2 where "expand toy_crypto [] [1] shared = Ok k1" "expand toy_crypto [] [2] shared = Ok k2"
    by blast
  then obtain keys where "verify_encryption_keys toy_crypto [] [1] [2] v = Ok keys" by (simp add: verify_encryption_keys_def s)
  with verify_run_reaches [OF v] keys_only_after_authentication show ?thesis by blast
qed

section \<open>Pair-setup in any order\<close>

datatype setup_call = SetupCallPin nat | SetupCallM2 bytes | SetupCallM4 bytes | SetupCallM6 bytes

inductive setup_reaches :: "crypto \<Rightarrow> setup_options \<Rightarrow> bytes \<Rightarrow> bytes \<Rightarrow> setup_call list \<Rightarrow> pair_setup \<Rightarrow> bool"
  for C :: crypto and options :: setup_options and seed :: bytes and cid :: bytes where
  setup_started: "setup_reaches C options seed cid [] (fst (setup_start_with options seed cid))"
| setup_pinned: "setup_reaches C options seed cid calls s
    \<Longrightarrow> setup_reaches C options seed cid (calls @ [SetupCallPin pin]) (set_pin pin s)"
| setup_called_m2: "setup_reaches C options seed cid calls s \<Longrightarrow> setup_handle_m2 C payload s = (r, s')
    \<Longrightarrow> setup_reaches C options seed cid (calls @ [SetupCallM2 payload]) s'"
| setup_called_m4: "setup_reaches C options seed cid calls s \<Longrightarrow> setup_handle_m4 C payload s = (r, s')
    \<Longrightarrow> setup_reaches C options seed cid (calls @ [SetupCallM4 payload]) s'"
| setup_called_m6: "setup_reaches C options seed cid calls s \<Longrightarrow> setup_handle_m6 C payload s = (r6, s')
    \<Longrightarrow> setup_reaches C options seed cid (calls @ [SetupCallM6 payload]) s'"

text \<open>The challenge of an M2 as the client works it with a PIN: session key and the proof it awaits.\<close>

definition challenge_of :: "crypto \<Rightarrow> bytes \<Rightarrow> bytes \<Rightarrow> nat \<Rightarrow> srp_client \<Rightarrow> bool" where
  "challenge_of C seed payload pin srp \<longleftrightarrow>
     (\<exists>response salt device_key proof. decode_response payload 2 = Ok response \<and> tlv_get response Salt = Some salt
      \<and> tlv_get response PublicKey = Some device_key
      \<and> process_challenge C salt device_key (srp_new C pin seed) = (Ok proof, srp))"

definition proves :: "bytes \<Rightarrow> srp_client \<Rightarrow> bool" where
  "proves payload srp \<longleftrightarrow> (\<exists>response ex. decode_response payload 4 = Ok response \<and> srp_exchanged srp = Some ex
     \<and> tlv_get response Proof = Some (ex_device_proof ex))"

text \<open>An authentic M6: sealed under the session's key, its identity signed by the key it carries.\<close>

definition authentic_m6 :: "crypto \<Rightarrow> bytes \<Rightarrow> bytes \<Rightarrow> bytes \<Rightarrow> bytes \<Rightarrow> bool" where
  "authentic_m6 C K payload device_id device_ltpk \<longleftrightarrow>
     (\<exists>response sealed key plain inner signature x.
        decode_response payload 6 = Ok response \<and> tlv_get response EncryptedData = Some sealed
      \<and> expand C SETUP_ENCRYPT_SALT SETUP_ENCRYPT_INFO K = Ok key
      \<and> open_box C key PAIR_SETUP_M6_NONCE sealed = Ok plain \<and> tlv_decode plain = Ok inner
      \<and> tlv_get inner Identifier = Some device_id \<and> tlv_get inner PublicKey = Some device_ltpk
      \<and> tlv_get inner Signature = Some signature \<and> expand C ACCESSORY_SIGN_SALT ACCESSORY_SIGN_INFO K = Ok x
      \<and> verify_signature C device_ltpk (x @ device_id @ device_ltpk) signature)"

definition setup_proved :: "crypto \<Rightarrow> bytes \<Rightarrow> setup_call list \<Rightarrow> bytes \<Rightarrow> bool" where
  "setup_proved C seed calls K \<longleftrightarrow> (\<exists>m2 m4 pin srp. SetupCallM2 m2 \<in> set calls \<and> SetupCallM4 m4 \<in> set calls
     \<and> challenge_of C seed m2 pin srp \<and> srp_session_key srp = Some K \<and> proves m4 srp)"

definition setup_inv :: "crypto \<Rightarrow> bytes \<Rightarrow> bytes \<Rightarrow> setup_call list \<Rightarrow> pair_setup \<Rightarrow> bool" where
  "setup_inv C seed cid calls s \<longleftrightarrow> ps_seed s = seed \<and> ps_client_id s = cid
     \<and> (ps_phase s = SetupM2 \<longrightarrow> ps_srp s = None \<and> ps_key s = None)
     \<and> (ps_phase s \<noteq> SetupM2 \<longrightarrow> (\<exists>srp m2 pin K. ps_srp s = Some srp \<and> SetupCallM2 m2 \<in> set calls
          \<and> challenge_of C seed m2 pin srp \<and> srp_session_key srp = Some K))
     \<and> (ps_phase s = SetupM4 \<longrightarrow> ps_key s = None)
     \<and> (ps_phase s \<in> {SetupM6, SetupComplete} \<longrightarrow> (\<exists>srp K key. ps_srp s = Some srp \<and> srp_session_key srp = Some K
          \<and> ps_key s = Some key \<and> expand C SETUP_ENCRYPT_SALT SETUP_ENCRYPT_INFO K = Ok key \<and> setup_proved C seed calls K))"

lemma setup_proved_mono: "setup_proved C seed calls K \<Longrightarrow> setup_proved C seed (calls @ more_calls) K"
  unfolding setup_proved_def by auto

lemma setup_inv_grow: "setup_inv C seed cid calls s \<Longrightarrow> setup_inv C seed cid (calls @ [c]) s"
  unfolding setup_inv_def using setup_proved_mono by (metis UnI1 set_append)

lemma process_challenge_key:
  "process_challenge C salt B s = (Ok proof, srp) \<Longrightarrow> \<exists>K. srp_session_key srp = Some K"
  by (auto simp: process_challenge_def srp_session_key_def Let_def split: if_splits option.splits)

lemma setup_challenge_Ok:
  assumes "setup_challenge C payload s = Ok (proof, srp)"
  shows "\<exists>pin K. so_pin (ps_options s) = Some pin \<and> challenge_of C (ps_seed s) payload pin srp \<and> srp_session_key srp = Some K"
proof -
  from assms obtain m salt B pin where
    "decode_response payload 2 = Ok m" "tlv_get m Salt = Some salt" "tlv_get m PublicKey = Some B"
    "so_pin (ps_options s) = Some pin" and "fst (process_challenge C salt B (srp_new C pin (ps_seed s))) = Ok proof"
    "snd (process_challenge C salt B (srp_new C pin (ps_seed s))) = srp"
    by (auto simp: setup_challenge_def res_simps require_owned_get case_prod_beta)
  moreover from this have p: "process_challenge C salt B (srp_new C pin (ps_seed s)) = (Ok proof, srp)" by (simp add: prod_eq_iff)
  moreover from p have "\<exists>K. srp_session_key srp = Some K" by (rule process_challenge_key)
  ultimately show ?thesis unfolding challenge_of_def by blast
qed

lemma setup_m2_challenge:
  assumes "setup_handle_m2 C payload s = (Ok request, s')"
  shows "\<exists>srp pin K. s' = s\<lparr>ps_srp := Some srp, ps_phase := SetupM4\<rparr> \<and> ps_phase s = SetupM2
    \<and> so_pin (ps_options s) = Some pin \<and> challenge_of C (ps_seed s) payload pin srp \<and> srp_session_key srp = Some K"
proof -
  from assms obtain pf srp where "setup_challenge C payload s = Ok (pf, srp)"
    "s' = s\<lparr>ps_srp := Some srp, ps_phase := SetupM4\<rparr>" "ps_phase s = SetupM2"
    by (auto simp: setup_handle_m2_def split: if_splits sum.splits)
  with setup_challenge_Ok show ?thesis by blast
qed

lemma setup_m2_refused: "setup_handle_m2 C payload s = (Err e, s') \<Longrightarrow> s' = s"
  by (auto simp: setup_handle_m2_def split: if_splits sum.splits)

lemma setup_m4_refused: "setup_handle_m4 C payload s = (Err e, s') \<Longrightarrow> s' = s"
  by (auto simp: setup_handle_m4_def split: setup_phase.splits sum.splits)

lemma setup_m4_proved:
  assumes "setup_handle_m4 C payload s = (Ok request, s')"
  shows "\<exists>srp K key. s' = s\<lparr>ps_key := Some key, ps_phase := SetupM6\<rparr> \<and> ps_phase s = SetupM4 \<and> ps_srp s = Some srp
    \<and> srp_session_key srp = Some K \<and> proves payload srp \<and> expand C SETUP_ENCRYPT_SALT SETUP_ENCRYPT_INFO K = Ok key"
  using assms unfolding setup_handle_m4_def proves_def
  by (auto simp: setup_m5_def rbind_Ok_iff ok_or_Ok_iff require_owned_get verify_device_proof_def
      split: setup_phase.splits sum.splits if_splits)

lemma setup_reaches_inv: "setup_reaches C options seed cid calls s \<Longrightarrow> setup_inv C seed cid calls s"
proof (induction rule: setup_reaches.induct)
  case setup_started
  then show ?case by (simp add: setup_inv_def setup_start_with_def)
next
  case (setup_pinned calls s pin)
  then have "setup_inv C seed cid (calls @ [SetupCallPin pin]) s" by (intro setup_inv_grow)
  then show ?case by (simp add: setup_inv_def set_pin_def)
next
  case (setup_called_m2 calls s payload r s')
  show ?case
  proof (cases r)
    case (Inl e)
    with setup_called_m2 setup_m2_refused show ?thesis by (metis setup_inv_grow)
  next
    case (Inr request)
    with setup_m2_challenge setup_called_m2 show ?thesis unfolding setup_inv_def by fastforce
  qed
next
  case (setup_called_m4 calls s payload r s')
  show ?case
  proof (cases r)
    case (Inl e)
    with setup_called_m4 setup_m4_refused show ?thesis by (metis setup_inv_grow)
  next
    case (Inr request)
    with setup_m4_proved [of C payload s request s'] setup_called_m4 show ?thesis
      unfolding setup_inv_def setup_proved_def by fastforce
  qed
next
  case (setup_called_m6 calls s payload r6 s')
  then have "setup_inv C seed cid (calls @ [SetupCallM6 payload]) s" by (intro setup_inv_grow)
  with setup_called_m6(2) show ?case
    unfolding setup_handle_m6_def setup_inv_def by (fastforce split: setup_phase.splits sum.splits)
qed

lemma setup_credentials_authentic:
  assumes "setup_credentials C payload s = Ok creds" "ps_srp s = Some srp" "srp_session_key srp = Some K"
    "ps_key s = Some key" "expand C SETUP_ENCRYPT_SALT SETUP_ENCRYPT_INFO K = Ok key"
  shows "creds = \<lparr>ltpk = ltpk creds, ltsk = ps_seed s, atv_id = atv_id creds, client_id = ps_client_id s\<rparr>
    \<and> authentic_m6 C K payload (atv_id creds) (ltpk creds)"
  using assms unfolding setup_credentials_def authentic_m6_def
  by (auto simp: rbind_Ok_iff ok_or_Ok_iff map_err_Ok_iff require_owned_get tlv_decoded_def split: if_splits)

text \<open>
  C25: Pair-setup authenticates both ways before it answers credentials. However the machine was called, it gives
  credentials only if it was sent an M2 whose challenge it worked with a PIN, an M4 with the proof of that
  very session key, and an M6 sealed under it in which the accessory signs its identity with the key it
  presents. The credentials pair that identity with the controller's own seed and identifier.
\<close>

theorem credentials_only_after_proof:
  assumes "setup_reaches C options seed cid calls s" and "setup_handle_m6 C payload s = (Ok creds, s')"
  shows "\<exists>K. setup_proved C seed calls K \<and> authentic_m6 C K payload (atv_id creds) (ltpk creds)
    \<and> creds = \<lparr>ltpk = ltpk creds, ltsk = seed, atv_id = atv_id creds, client_id = cid\<rparr>"
proof -
  from assms(2) have "ps_phase s = SetupM6" and c: "setup_credentials C payload s = Ok creds"
    by (auto simp: setup_handle_m6_def split: setup_phase.splits sum.splits)
  with setup_reaches_inv [OF assms(1)] obtain srp K key where
    "ps_srp s = Some srp" "srp_session_key srp = Some K" "ps_key s = Some key"
    "expand C SETUP_ENCRYPT_SALT SETUP_ENCRYPT_INFO K = Ok key" "setup_proved C seed calls K"
    "ps_seed s = seed" "ps_client_id s = cid" unfolding setup_inv_def by blast
  with setup_credentials_authentic [OF c] show ?thesis by blast
qed

lemma setup_run_reaches:
  assumes "pair_setup_run C options seed cid random a = (Ok creds, s, a')"
  shows "\<exists>calls s0 payload. setup_reaches C options seed cid calls s0 \<and> setup_handle_m6 C payload s0 = (Ok creds, s)"
proof -
  obtain s0 m1 where st: "setup_start_with options seed cid = (s0, m1)" by (cases "setup_start_with options seed cid")
  then have r0: "setup_reaches C options seed cid [] s0" using setup_started [of C options seed cid] by simp
  from assms obtain m2 a1 m3 s1 m4 a2 m5 s2 m6 where "setup_handle_m2 C m2 s0 = (Ok m3, s1)"
    "setup_handle_m4 C m4 s1 = (Ok m5, s2)" "setup_handle_m6 C m6 s2 = (Ok creds, s)"
    by (auto simp: pair_setup_run_def st setup_messages_def drive_simps split: sum.splits prod.splits)
  with r0 show ?thesis by (meson setup_called_m2 setup_called_m4)
qed

lemma credentials_only_after_proof_witness:
  "\<exists>calls K payload. setup_proved toy_crypto (replicate 32 7) calls K
    \<and> authentic_m6 toy_crypto K payload (atv_id toy_credentials) (ltpk toy_credentials)"
proof -
  have "length (replicate 32 (7 :: u8)) = 32" "so_pin toy_options = Some (acc_pin accessory_new)"
    by (simp_all add: toy_options_def accessory_new_def accessory_with_pin_def ACCESSORY_PIN_def)
  moreover obtain S where "premaster toy_crypto (acc_pin accessory_new) (acc_pin accessory_new) (replicate 32 7) (replicate 32 9) accessory_new = Some S"
    by (simp add: premaster_def toy_crypto_def)
  ultimately obtain s a' where
    "pair_setup_run toy_crypto toy_options (replicate 32 7) (lit ''id'') (replicate 32 9) accessory_new = (Ok toy_credentials, s, a')"
    unfolding toy_credentials_def using setup_run_ok [OF toy_crypto_ok toy_accessory_ok toy_options_ok] by blast
  then obtain calls s0 payload where
    "setup_reaches toy_crypto toy_options (replicate 32 7) (lit ''id'') calls s0"
    "setup_handle_m6 toy_crypto payload s0 = (Ok toy_credentials, s)" by (meson setup_run_reaches)
  from credentials_only_after_proof [OF this] show ?thesis by blast
qed

section \<open>Transient pairing in any order\<close>

inductive transient_reaches :: "crypto \<Rightarrow> bytes \<Rightarrow> setup_call list \<Rightarrow> transient_setup \<Rightarrow> bool"
  for C :: crypto and secret :: bytes where
  transient_started: "transient_reaches C secret [] (fst (transient_start_with C secret))"
| transient_called_m2: "transient_reaches C secret calls t \<Longrightarrow> transient_handle_m2 C payload t = (r, t')
    \<Longrightarrow> transient_reaches C secret (calls @ [SetupCallM2 payload]) t'"
| transient_called_m4: "transient_reaches C secret calls t \<Longrightarrow> transient_handle_m4 payload t = (r4, t')
    \<Longrightarrow> transient_reaches C secret (calls @ [SetupCallM4 payload]) t'"

lemma transient_m4_verified:
  "transient_handle_m4 payload t = (Ok (), t') \<Longrightarrow> t' = t\<lparr>ts_verified := True\<rparr> \<and> proves payload (ts_srp t)"
  by (auto simp: transient_handle_m4_def proves_def verify_device_proof_def rbind_Ok_iff ok_or_Ok_iff require_owned_get
      split: sum.splits if_splits)

lemma transient_verified_once:
  "transient_reaches C secret calls t \<Longrightarrow> ts_verified t \<Longrightarrow> \<exists>payload. SetupCallM4 payload \<in> set calls"
proof (induction rule: transient_reaches.induct)
  case (transient_called_m2 calls t payload r t')
  then have "ts_verified t' = ts_verified t" by (auto simp: transient_handle_m2_def split: sum.splits prod.splits)
  with transient_called_m2 show ?case by auto
qed (auto simp: transient_start_with_def)

text \<open>
  C26: The transient machine has no phase of its own, and its guard on the keys only asks whether a proof was
  ever verified. Once it was, any further M2 the SRP accepts replaces the session key, and the machine gives
  the keys of that new, unproved exchange.
\<close>

theorem transient_rekeyed_unverified:
  assumes "ts_verified t" and "decode_response payload 2 = Ok response" and "tlv_get response Salt = Some salt"
    and "tlv_get response PublicKey = Some device_key" and "length (minimal_be device_key) \<le> MODULUS_LEN"
    and "cr_srp_reply C (srp_secret (ts_srp t)) PAIR_SETUP_USERNAME (srp_pin (ts_srp t)) salt (minimal_be device_key) = Some S"
    and "expand C keys_salt out_info (cr_sha512 C S) = Ok okey" and "expand C keys_salt in_info (cr_sha512 C S) = Ok ikey"
  shows "\<exists>m3 t'. transient_handle_m2 C payload t = (Ok m3, t')
    \<and> transient_encryption_keys C keys_salt out_info in_info t'
      = Ok \<lparr>sk_shared_secret = cr_sha512 C S, sk_output_key = okey, sk_input_key = ikey\<rparr>"
  using assms by (simp add: transient_handle_m2_def require_owned_get process_challenge_def Let_def
      transient_encryption_keys_def srp_session_key_def)

text \<open>After a completed run with the accessory, a second M2 from another peer is taken.\<close>

lemma transient_rekeyed_unverified_witness:
  "\<exists>t t' m3 keys. ts_verified t \<and> transient_handle_m2 toy_crypto (tlv_encode (tlv_with (tlv_with (with_byte [] SeqNo 2) Salt [3]) PublicKey [9])) t
      = (Ok m3, t') \<and> transient_encryption_keys toy_crypto [] [1] [2] t' = Ok keys \<and> sk_shared_secret keys \<noteq> []"
proof -
  let ?m = "tlv_with (tlv_with (with_byte [] SeqNo 2) Salt [3]) PublicKey [9 :: u8]"
  let ?t = "\<lparr>ts_srp = srp_new toy_crypto TRANSIENT_PIN (replicate 32 7), ts_verified = True\<rparr>"
  have "decode_response (tlv_encode ?m) 2 = Ok ?m" "tlv_get ?m Salt = Some [3]" "tlv_get ?m PublicKey = Some [9]"
    "length (minimal_be [9 :: u8]) \<le> MODULUS_LEN" by (simp_all add: pair_simps minimal_be_def MODULUS_LEN_def)
  moreover from expand_some [OF toy_crypto_ok] obtain k1 k2 where
    "expand toy_crypto [] [1] (PAIR_SETUP_USERNAME @ pad_pin TRANSIENT_PIN @ [3]) = Ok k1"
    "expand toy_crypto [] [2] (PAIR_SETUP_USERNAME @ pad_pin TRANSIENT_PIN @ [3]) = Ok k2" by blast
  moreover have "cr_srp_reply toy_crypto (srp_secret (ts_srp ?t)) PAIR_SETUP_USERNAME (srp_pin (ts_srp ?t)) [3] (minimal_be [9])
      = Some (PAIR_SETUP_USERNAME @ pad_pin TRANSIENT_PIN @ [3])" "\<And>x. cr_sha512 toy_crypto x = x"
    by (simp_all add: toy_crypto_def srp_new_def srp_with_pin_def)
  ultimately obtain m3 t' where "transient_handle_m2 toy_crypto (tlv_encode ?m) ?t = (Ok m3, t')"
    "transient_encryption_keys toy_crypto [] [1] [2] t'
      = Ok \<lparr>sk_shared_secret = PAIR_SETUP_USERNAME @ pad_pin TRANSIENT_PIN @ [3], sk_output_key = k1, sk_input_key = k2\<rparr>"
    using transient_rekeyed_unverified [of ?t "tlv_encode ?m" ?m "[3]" "[9]" toy_crypto
        "PAIR_SETUP_USERNAME @ pad_pin TRANSIENT_PIN @ [3]" "[]" "[1]" k1 "[2]" k2] by auto
  moreover have "ts_verified ?t" "PAIR_SETUP_USERNAME @ pad_pin TRANSIENT_PIN @ [3] \<noteq> []" by simp_all
  ultimately show ?thesis by (metis session_keys.select_convs(1))
qed

end
