(* ===== verification/Airplay_Error.thy ===== *)
theory Airplay_Error
  imports Pairing_Crypto
begin

text \<open>
  The error of the AirPlay client (\<open>pyatv-proto-airplay\<close>: \<open>error.rs\<close>) and what it becomes in
  \<open>pyatv-core\<close>. The text of an I/O or property list error is carried as it is.
\<close>

datatype audio_failure = FormatFailure | SourceFailure

datatype airplay_io = ATimedOut | AUnexpectedEof | ABrokenPipe | AConnectionRefused | AOtherIo

datatype airplay_error =
  AMalformed bytes
| AStatus u16 bytes
| ANotAuthenticated u16
| APlist bytes
| APairing hap_error
| ANotStarted bytes
| AUnsupportedAuthentication bytes
| ANoEncryptionKeys bytes
| APasswordRequired
| APlayback bytes
| AAudio audio_failure bytes
| AInvalidState bytes
| AIo airplay_io bytes

primrec display_airplay_error :: "airplay_error \<Rightarrow> bytes" where
  "display_airplay_error (AMalformed m) = lit ''malformed RTSP/HTTP message: '' @ m"
| "display_airplay_error (AStatus s r) = lit ''device returned '' @ decimal (unat s) @ lit '' '' @ r"
| "display_airplay_error (ANotAuthenticated s) =
     lit ''device rejected the request as unauthenticated ('' @ decimal (unat s) @ lit '')''"
| "display_airplay_error (APlist m) = lit ''could not decode plist body: '' @ m"
| "display_airplay_error (APairing e) = display_hap_error e"
| "display_airplay_error (ANotStarted m) = m @ lit '' has not been started''"
| "display_airplay_error (AUnsupportedAuthentication t) =
     lit ''authentication type '' @ t @ lit '' does not support pair-setup''"
| "display_airplay_error (ANoEncryptionKeys m) = m @ lit '' derives no encryption keys''"
| "display_airplay_error APasswordRequired = lit ''device requires a password''"
| "display_airplay_error (APlayback m) = m"
| "display_airplay_error (AAudio k m) = lit ''audio source error: '' @ m"
| "display_airplay_error (AInvalidState m) = lit ''invalid state: '' @ m"
| "display_airplay_error (AIo k m) = m"

datatype airplay_core_error =
  ACoreHap hap_core_error
| ACoreIo airplay_io bytes
| ACoreAuthentication bytes
| ACorePairing bytes
| ACoreNotSupported bytes
| ACoreCommand bytes bytes
| ACoreInvalidResponse bytes

fun airplay_core_of :: "airplay_error \<Rightarrow> airplay_core_error" where
  "airplay_core_of (APairing e) = ACoreHap (hap_core_of e)"
| "airplay_core_of (AIo k m) = ACoreIo k m"
| "airplay_core_of APasswordRequired = ACoreAuthentication (display_airplay_error APasswordRequired)"
| "airplay_core_of (ANotAuthenticated s) = ACoreAuthentication (display_airplay_error (ANotAuthenticated s))"
| "airplay_core_of (ANotStarted m) = ACorePairing (display_airplay_error (ANotStarted m))"
| "airplay_core_of (AUnsupportedAuthentication t) = ACorePairing (display_airplay_error (AUnsupportedAuthentication t))"
| "airplay_core_of (ANoEncryptionKeys m) = ACoreNotSupported (display_airplay_error (ANoEncryptionKeys m))"
| "airplay_core_of (AAudio FormatFailure m) = ACoreNotSupported (display_airplay_error (AAudio FormatFailure m))"
| "airplay_core_of (AAudio SourceFailure m) =
     ACoreCommand (lit ''stream_file'') (display_airplay_error (AAudio SourceFailure m))"
| "airplay_core_of (AInvalidState m) = ACoreCommand (lit ''stream_file'') (display_airplay_error (AInvalidState m))"
| "airplay_core_of (APlayback m) = ACoreCommand (lit ''play_url'') (display_airplay_error (APlayback m))"
| "airplay_core_of (AMalformed m) = ACoreInvalidResponse (display_airplay_error (AMalformed m))"
| "airplay_core_of (AStatus s r) = ACoreInvalidResponse (display_airplay_error (AStatus s r))"
| "airplay_core_of (APlist m) = ACoreInvalidResponse (display_airplay_error (APlist m))"

end
