(* ===== verification/Raop_Packets.thy ===== *)
theory Raop_Packets
  imports Airplay_Error
begin

text \<open>
  The packets of RAOP's three UDP channels (\<open>pyatv-proto-airplay\<close>: \<open>raop/packets.rs\<close>) and the bounded
  backlog of sent audio packets (\<open>raop/fifo.rs\<close>).
\<close>

section \<open>Packets\<close>

definition RTP_HEADER_LEN :: nat where "RTP_HEADER_LEN = 4"
definition AUDIO_HEADER_LEN :: nat where "AUDIO_HEADER_LEN = 12"
definition TIMING_PACKET_LEN :: nat where "TIMING_PACKET_LEN = 32"
definition SYNC_PACKET_LEN :: nat where "SYNC_PACKET_LEN = 20"
definition RETRANSMIT_REQUEST_LEN :: nat where "RETRANSMIT_REQUEST_LEN = 8"
definition PROTO_NORMAL :: u8 where "PROTO_NORMAL = 0x80"
definition PROTO_MARKER :: u8 where "PROTO_MARKER = 0x90"
definition PAYLOAD_TYPE_AUDIO :: u8 where "PAYLOAD_TYPE_AUDIO = 0x60"
definition PAYLOAD_TYPE_AUDIO_FIRST :: u8 where "PAYLOAD_TYPE_AUDIO_FIRST = 0xE0"
definition PAYLOAD_TYPE_TIMING_RESPONSE :: u8 where "PAYLOAD_TYPE_TIMING_RESPONSE = 0xD3"
definition PAYLOAD_TYPE_SYNC :: u8 where "PAYLOAD_TYPE_SYNC = 0xD4"
definition PAYLOAD_TYPE_RETRANSMIT_REQUEST :: u8 where "PAYLOAD_TYPE_RETRANSMIT_REQUEST = 0x55"
definition RETRANSMIT_RESPONSE_PREFIX :: bytes where "RETRANSMIT_RESPONSE_PREFIX = [0x80, 0xD6]"
definition SYNC_SEQNO :: u16 where "SYNC_SEQNO = 0x0007"
definition TIMING_RESPONSE_SEQNO :: u16 where "TIMING_RESPONSE_SEQNO = 7"

abbreviation be16 :: "u16 \<Rightarrow> bytes" where "be16 w \<equiv> be_bytes 2 (unat w)"
abbreviation be32 :: "u32 \<Rightarrow> bytes" where "be32 w \<equiv> be_bytes 4 (unat w)"

text \<open>\<open>u16::from_be_bytes\<close> and \<open>read_u32\<close> of a field.\<close>

definition read_be16 :: "bytes \<Rightarrow> nat \<Rightarrow> u16" where
  "read_be16 bs off = word_of_nat (be_nat (take 2 (drop off bs)))"

definition read_be32 :: "bytes \<Rightarrow> nat \<Rightarrow> u32" where
  "read_be32 bs off = word_of_nat (be_nat (take 4 (drop off bs)))"

record rtp_header =
  rh_proto :: u8
  rh_type :: u8
  rh_seqno :: u16

definition rtp_encode :: "rtp_header \<Rightarrow> bytes" where
  "rtp_encode h = [rh_proto h, rh_type h] @ be16 (rh_seqno h)"

definition rtp_decode :: "bytes \<Rightarrow> airplay_error + rtp_header" where
  "rtp_decode data = rbind (ok_or (get_range data 0 RTP_HEADER_LEN) (AMalformed (lit ''RTP packet is shorter than its header'')))
     (\<lambda>bs. Ok \<lparr>rh_proto = bs ! 0, rh_type = bs ! 1, rh_seqno = read_be16 bs 2\<rparr>)"

definition masked_type :: "rtp_header \<Rightarrow> u8" where
  "masked_type h = and (rh_type h) 0x7F"

record audio_header =
  ah_header :: rtp_header
  ah_timestamp :: u32
  ah_ssrc :: u32

definition audio_header_new :: "bool \<Rightarrow> u16 \<Rightarrow> u32 \<Rightarrow> u32 \<Rightarrow> audio_header" where
  "audio_header_new first seqno timestamp ssrc =
     \<lparr>ah_header = \<lparr>rh_proto = PROTO_NORMAL, rh_type = (if first then PAYLOAD_TYPE_AUDIO_FIRST else PAYLOAD_TYPE_AUDIO),
        rh_seqno = seqno\<rparr>, ah_timestamp = timestamp, ah_ssrc = ssrc\<rparr>"

definition audio_header_encode :: "audio_header \<Rightarrow> bytes" where
  "audio_header_encode h = rtp_encode (ah_header h) @ be32 (ah_timestamp h) @ be32 (ah_ssrc h)"

definition additional_data :: "audio_header \<Rightarrow> bytes" where
  "additional_data h = take 8 (drop 4 (audio_header_encode h))"

record sync_packet =
  sy_proto :: u8
  sy_now_without_latency :: u32
  sy_last_sync_sec :: u32
  sy_last_sync_frac :: u32
  sy_now :: u32

definition sync_encode :: "sync_packet \<Rightarrow> bytes" where
  "sync_encode p =
     rtp_encode \<lparr>rh_proto = sy_proto p, rh_type = PAYLOAD_TYPE_SYNC, rh_seqno = SYNC_SEQNO\<rparr>
     @ be32 (sy_now_without_latency p) @ be32 (sy_last_sync_sec p) @ be32 (sy_last_sync_frac p) @ be32 (sy_now p)"

definition sync_decode :: "bytes \<Rightarrow> airplay_error + sync_packet" where
  "sync_decode data =
     (if length data \<noteq> SYNC_PACKET_LEN then Err (AMalformed (lit ''a sync packet is 20 bytes, got '' @ decimal (length data)))
      else Ok \<lparr>sy_proto = data ! 0, sy_now_without_latency = read_be32 data 4, sy_last_sync_sec = read_be32 data 8,
        sy_last_sync_frac = read_be32 data 12, sy_now = read_be32 data 16\<rparr>)"

record timing_packet =
  tp_header :: rtp_header
  tp_padding :: u32
  tp_reftime_sec :: u32
  tp_reftime_frac :: u32
  tp_recvtime_sec :: u32
  tp_recvtime_frac :: u32
  tp_sendtime_sec :: u32
  tp_sendtime_frac :: u32

definition timing_encode :: "timing_packet \<Rightarrow> bytes" where
  "timing_encode p = rtp_encode (tp_header p) @ concat (map be32
     [tp_padding p, tp_reftime_sec p, tp_reftime_frac p, tp_recvtime_sec p, tp_recvtime_frac p,
      tp_sendtime_sec p, tp_sendtime_frac p])"

definition timing_decode :: "bytes \<Rightarrow> airplay_error + timing_packet" where
  "timing_decode data =
     (if length data \<noteq> TIMING_PACKET_LEN then Err (AMalformed (lit ''a timing packet is 32 bytes, got '' @ decimal (length data)))
      else rbind (rtp_decode data) (\<lambda>h. Ok \<lparr>tp_header = h, tp_padding = read_be32 data 4,
        tp_reftime_sec = read_be32 data 8, tp_reftime_frac = read_be32 data 12,
        tp_recvtime_sec = read_be32 data 16, tp_recvtime_frac = read_be32 data 20,
        tp_sendtime_sec = read_be32 data 24, tp_sendtime_frac = read_be32 data 28\<rparr>))"

definition timing_respond :: "timing_packet \<Rightarrow> u32 \<Rightarrow> u32 \<Rightarrow> timing_packet" where
  "timing_respond p now_sec now_frac =
     \<lparr>tp_header = \<lparr>rh_proto = rh_proto (tp_header p), rh_type = PAYLOAD_TYPE_TIMING_RESPONSE, rh_seqno = TIMING_RESPONSE_SEQNO\<rparr>,
      tp_padding = 0, tp_reftime_sec = tp_sendtime_sec p, tp_reftime_frac = tp_sendtime_frac p,
      tp_recvtime_sec = now_sec, tp_recvtime_frac = now_frac, tp_sendtime_sec = now_sec, tp_sendtime_frac = now_frac\<rparr>"

record retransmit_request =
  rr_header :: rtp_header
  rr_lost_seqno :: u16
  rr_lost_packets :: u16

definition retransmit_encode :: "retransmit_request \<Rightarrow> bytes" where
  "retransmit_encode r = rtp_encode (rr_header r) @ be16 (rr_lost_seqno r) @ be16 (rr_lost_packets r)"

definition retransmit_decode :: "bytes \<Rightarrow> airplay_error + retransmit_request" where
  "retransmit_decode data =
     (if length data \<noteq> RETRANSMIT_REQUEST_LEN
      then Err (AMalformed (lit ''a retransmit request is 8 bytes, got '' @ decimal (length data)))
      else rbind (rtp_decode data) (\<lambda>h. Ok \<lparr>rr_header = h, rr_lost_seqno = read_be16 data 4, rr_lost_packets = read_be16 data 6\<rparr>))"

definition retransmit_response :: "bytes \<Rightarrow> airplay_error + bytes" where
  "retransmit_response packet =
     rbind (ok_or (get_range packet 2 4) (AMalformed (lit ''cached packet has no sequence number'')))
       (\<lambda>seqno. Ok (RETRANSMIT_RESPONSE_PREFIX @ seqno @ packet))"

section \<open>The backlog\<close>

definition PACKET_BACKLOG_SIZE :: nat where "PACKET_BACKLOG_SIZE = 1000"

record packet_fifo =
  pf_items :: "u16 \<rightharpoonup> bytes"
  pf_order :: "u16 list"
  pf_limit :: nat

definition fifo_new :: "nat \<Rightarrow> packet_fifo" where
  "fifo_new limit = \<lparr>pf_items = Map.empty, pf_order = [], pf_limit = limit\<rparr>"

definition fifo_len :: "packet_fifo \<Rightarrow> nat" where
  "fifo_len f = card (dom (pf_items f))"

definition fifo_evict :: "packet_fifo \<Rightarrow> packet_fifo" where
  "fifo_evict f = (if fifo_len f + 1 > pf_limit f
     then case pf_order f of [] \<Rightarrow> f | oldest # rest \<Rightarrow> f\<lparr>pf_items := (pf_items f)(oldest := None), pf_order := rest\<rparr>
     else f)"

definition fifo_insert :: "u16 \<Rightarrow> bytes \<Rightarrow> packet_fifo \<Rightarrow> bool \<times> packet_fifo" where
  "fifo_insert seqno packet f =
     (if pf_items f seqno \<noteq> None then (False, f)
      else if pf_limit f = 0 then (False, f)
      else let f = fifo_evict f in
        (True, f\<lparr>pf_order := pf_order f @ [seqno], pf_items := (pf_items f)(seqno \<mapsto> packet)\<rparr>))"

definition fifo_get :: "u16 \<Rightarrow> packet_fifo \<Rightarrow> bytes option" where
  "fifo_get seqno f = pf_items f seqno"

definition fifo_clear :: "packet_fifo \<Rightarrow> packet_fifo" where
  "fifo_clear f = f\<lparr>pf_items := Map.empty, pf_order := []\<rparr>"

section \<open>Round trips\<close>

lemma word_be16 [simp]: "word_of_nat (be_nat (be16 w)) = w"
  by (simp add: be_nat_u16)

lemma word_be32 [simp]: "word_of_nat (be_nat (be32 w)) = w"
  by (simp add: be_nat_u32)

lemma length_rtp [simp]: "length (rtp_encode h) = 4"
  by (simp add: rtp_encode_def)

lemma rtp_decode_encode [simp]: "rtp_decode (rtp_encode h @ rest) = Ok h"
  by (simp add: rtp_decode_def rtp_encode_def get_range_def RTP_HEADER_LEN_def read_be16_def)

lemma rtp_decode_encode' [simp]: "rtp_decode (rtp_encode h) = Ok h"
  using rtp_decode_encode [of h "[]"] by simp

lemma read_be32_skip: "length pre = off \<Longrightarrow> read_be32 (pre @ be32 w @ rest) off = w"
  by (simp add: read_be32_def)

lemma read_be16_skip: "length pre = off \<Longrightarrow> read_be16 (pre @ be16 w @ rest) off = w"
  by (simp add: read_be16_def)

text \<open>
  Every RAOP datagram reads back as the packet it was written from: sync and timing packets and
  retransmit requests by their decoders, and of an audio packet its header whatever payload follows.
\<close>

theorem raop_packets_roundtrip:
  "sync_decode (sync_encode sy) = Ok sy
   \<and> timing_decode (timing_encode tp) = Ok tp
   \<and> retransmit_decode (retransmit_encode rr) = Ok rr
   \<and> rtp_decode (audio_header_encode ah @ payload) = Ok (ah_header ah)"
proof (intro conjI)
  show "sync_decode (sync_encode sy) = Ok sy"
    by (simp add: sync_decode_def sync_encode_def SYNC_PACKET_LEN_def read_be32_def rtp_encode_def)
  show "timing_decode (timing_encode tp) = Ok tp"
    by (simp add: timing_decode_def timing_encode_def TIMING_PACKET_LEN_def read_be32_def)
  show "retransmit_decode (retransmit_encode rr) = Ok rr"
    by (simp add: retransmit_decode_def retransmit_encode_def RETRANSMIT_REQUEST_LEN_def read_be16_def)
  show "rtp_decode (audio_header_encode ah @ payload) = Ok (ah_header ah)"
    by (simp add: audio_header_encode_def)
qed

text \<open>
  The backlog of sent packets against its abstract specification, the last packets of a list.
\<close>

section \<open>The specification\<close>

definition recent :: "nat \<Rightarrow> 'a list \<Rightarrow> 'a list" where
  "recent n xs = drop (length xs - n) xs"

lemma length_recent [simp]: "length (recent n xs) = min n (length xs)"
  by (simp add: recent_def)

lemma recent_0 [simp]: "recent 0 xs = []"
  by (simp add: recent_def)

lemma recent_Nil [simp]: "recent n [] = []"
  by (simp add: recent_def)

lemma recent_snoc:
  "recent n (xs @ [x]) = (if n = 0 then [] else if length xs < n then recent n xs @ [x] else tl (recent n xs) @ [x])"
proof (cases "length xs < n")
  case True
  then show ?thesis by (simp add: recent_def)
next
  case False
  then have "Suc (length xs) - n = Suc (length xs - n)" by simp
  with False show ?thesis by (simp add: recent_def drop_Suc tl_drop)
qed

lemma set_recent: "set (recent n xs) \<subseteq> set xs"
  by (simp add: recent_def set_drop_subset)

text \<open>What is called on a backlog, and the log of what it accepted since it was last cleared.\<close>

datatype fifo_call = FifoInsert u16 bytes | FifoClear

definition fifo_call :: "fifo_call \<Rightarrow> packet_fifo \<Rightarrow> bool \<times> packet_fifo" where
  "fifo_call c f = (case c of FifoInsert seqno packet \<Rightarrow> fifo_insert seqno packet f | FifoClear \<Rightarrow> (True, fifo_clear f))"

definition spec_call :: "nat \<Rightarrow> fifo_call \<Rightarrow> (u16 \<times> bytes) list \<Rightarrow> bool \<times> (u16 \<times> bytes) list" where
  "spec_call limit c log = (case c of
     FifoInsert seqno packet \<Rightarrow>
       (if limit = 0 \<or> seqno \<in> fst ` set (recent limit log) then (False, log) else (True, log @ [(seqno, packet)]))
   | FifoClear \<Rightarrow> (True, []))"

definition fifo_shows :: "packet_fifo \<Rightarrow> (u16 \<times> bytes) list \<Rightarrow> bool" where
  "fifo_shows f log \<longleftrightarrow> distinct (map fst (recent (pf_limit f) log)) \<and> pf_order f = map fst (recent (pf_limit f) log)
     \<and> pf_items f = map_of (recent (pf_limit f) log)"

lemma fifo_new_shows: "fifo_shows (fifo_new limit) []"
  by (simp add: fifo_shows_def fifo_new_def)

lemma fifo_new_limit: "pf_limit (fifo_new limit) = limit"
  by (simp add: fifo_new_def)

lemma shows_len: "fifo_shows f log \<Longrightarrow> fifo_len f = min (pf_limit f) (length log)"
proof -
  assume s: "fifo_shows f log"
  then have "dom (pf_items f) = set (map fst (recent (pf_limit f) log))" by (simp add: fifo_shows_def dom_map_of_conv_image_fst)
  with s show ?thesis unfolding fifo_len_def by (simp add: fifo_shows_def distinct_card del: set_map)
qed

lemma map_of_snoc: "k \<notin> fst ` set xs \<Longrightarrow> map_of (xs @ [(k, v)]) = (map_of xs)(k \<mapsto> v)"
  by (rule ext) (simp add: map_add_def map_of_eq_None_iff [symmetric] split: option.split)

lemma map_of_tl: "distinct (map fst ((k, v) # xs)) \<Longrightarrow> map_of xs = (map_of ((k, v) # xs))(k := None)"
  by (auto simp: fun_eq_iff map_of_eq_None_iff)

lemma evict_shows:
  assumes "fifo_shows f log" "pf_limit f \<noteq> 0"
  shows "pf_order (fifo_evict f) = map fst (if length log < pf_limit f then recent (pf_limit f) log else tl (recent (pf_limit f) log))"
    "pf_items (fifo_evict f) = map_of (if length log < pf_limit f then recent (pf_limit f) log else tl (recent (pf_limit f) log))"
    "pf_limit (fifo_evict f) = pf_limit f"
proof -
  have l: "fifo_len f = min (pf_limit f) (length log)" by (rule shows_len [OF assms(1)])
  show "pf_limit (fifo_evict f) = pf_limit f" by (simp add: fifo_evict_def split: list.splits)
  show "pf_order (fifo_evict f) = map fst (if length log < pf_limit f then recent (pf_limit f) log else tl (recent (pf_limit f) log))"
    using assms l by (cases "recent (pf_limit f) log") (auto simp: fifo_evict_def fifo_shows_def)
  show "pf_items (fifo_evict f) = map_of (if length log < pf_limit f then recent (pf_limit f) log else tl (recent (pf_limit f) log))"
  proof (cases "length log < pf_limit f")
    case True
    with assms l show ?thesis by (simp add: fifo_evict_def fifo_shows_def)
  next
    case False
    with assms(2) have "length (recent (pf_limit f) log) \<noteq> 0" by simp
    then obtain k v xs where r: "recent (pf_limit f) log = (k, v) # xs" by (cases "recent (pf_limit f) log") auto
    with assms(1) False l map_of_tl [of k v xs] show ?thesis
      by (simp add: fifo_evict_def fifo_shows_def)
  qed
qed

lemma fifo_insert_spec:
  assumes "fifo_shows f log"
  shows "fst (fifo_insert k v f) = fst (spec_call (pf_limit f) (FifoInsert k v) log)
    \<and> fifo_shows (snd (fifo_insert k v f)) (snd (spec_call (pf_limit f) (FifoInsert k v) log))
    \<and> pf_limit (snd (fifo_insert k v f)) = pf_limit f"
proof -
  let ?r = "recent (pf_limit f) log"
  have m: "pf_items f k \<noteq> None \<longleftrightarrow> k \<in> fst ` set ?r"
    using assms by (simp add: fifo_shows_def map_of_eq_None_iff)
  show ?thesis
  proof (cases "pf_limit f = 0 \<or> k \<in> fst ` set ?r")
    case True
    with m assms show ?thesis by (auto simp: fifo_insert_def spec_call_def)
  next
    case False
    let ?r' = "if length log < pf_limit f then ?r else tl ?r"
    have r: "recent (pf_limit f) (log @ [(k, v)]) = ?r' @ [(k, v)]" using False by (simp add: recent_snoc)
    have "set ?r' \<subseteq> set ?r" by (cases ?r) auto
    with False have n: "k \<notin> fst ` set ?r'" by auto
    have d: "distinct (map fst ?r')" using assms by (simp add: fifo_shows_def distinct_tl map_tl)
    from False m have "fifo_insert k v f = (True, (fifo_evict f)\<lparr>pf_order := pf_order (fifo_evict f) @ [k], pf_items := (pf_items (fifo_evict f))(k \<mapsto> v)\<rparr>)"
      by (simp add: fifo_insert_def Let_def)
    with False n d r evict_shows [OF assms] map_of_snoc [OF n] show ?thesis
      by (simp add: spec_call_def fifo_shows_def)
  qed
qed

lemma fifo_call_spec:
  assumes "fifo_shows f log"
  shows "fst (fifo_call c f) = fst (spec_call (pf_limit f) c log)
    \<and> fifo_shows (snd (fifo_call c f)) (snd (spec_call (pf_limit f) c log)) \<and> pf_limit (snd (fifo_call c f)) = pf_limit f"
proof (cases c)
  case (FifoInsert k v)
  with fifo_insert_spec [OF assms, of k v] show ?thesis by (simp add: fifo_call_def)
qed (simp add: fifo_call_def spec_call_def fifo_shows_def fifo_clear_def)

text \<open>The answers of a run of calls and the state it ends in, for any machine.\<close>

fun run_calls :: "('c \<Rightarrow> 's \<Rightarrow> 'r \<times> 's) \<Rightarrow> 'c list \<Rightarrow> 's \<Rightarrow> 'r list \<times> 's" where
  "run_calls step [] s = ([], s)"
| "run_calls step (c # cs) s = (case step c s of (r, s') \<Rightarrow> case run_calls step cs s' of (rs, s'') \<Rightarrow> (r # rs, s''))"

lemma fifo_run_spec:
  "fifo_shows f log \<Longrightarrow> fst (run_calls fifo_call cs f) = fst (run_calls (spec_call (pf_limit f)) cs log)
    \<and> fifo_shows (snd (run_calls fifo_call cs f)) (snd (run_calls (spec_call (pf_limit f)) cs log))
    \<and> pf_limit (snd (run_calls fifo_call cs f)) = pf_limit f"
proof (induction cs arbitrary: f log)
  case (Cons c cs)
  obtain r f' where f: "fifo_call c f = (r, f')" by (cases "fifo_call c f")
  obtain r' log' where l: "spec_call (pf_limit f) c log = (r', log')" by (cases "spec_call (pf_limit f) c log")
  from fifo_call_spec [OF Cons.prems, of c] f l have "r = r'" "fifo_shows f' log'" "pf_limit f' = pf_limit f" by auto
  with Cons.IH [of f' log'] f l show ?case by (auto simp: case_prod_beta)
qed simp

text \<open>
  The backlog is the last packets accepted. However insertions and clears follow one another, the hash
  map and the queue answer as the list of what was accepted since the last clear does: an insertion is
  refused exactly when its sequence number is among the last \<open>limit\<close> of them, a lookup finds exactly
  those packets, and no more than \<open>limit\<close> are held.
\<close>

theorem backlog_refines_log:
  "(let run = run_calls fifo_call calls (fifo_new limit); spec = run_calls (spec_call limit) calls [] in
     fst run = fst spec
   \<and> fifo_get seqno (snd run) = map_of (recent limit (snd spec)) seqno
   \<and> distinct (map fst (recent limit (snd spec)))
   \<and> fifo_len (snd run) = min limit (length (snd spec)))"
proof -
  let ?f = "snd (run_calls fifo_call calls (fifo_new limit))" and ?log = "snd (run_calls (spec_call limit) calls [])"
  have "fst (run_calls fifo_call calls (fifo_new limit)) = fst (run_calls (spec_call limit) calls [])"
    "fifo_shows ?f ?log" "pf_limit ?f = limit"
    using fifo_run_spec [OF fifo_new_shows, of calls limit] by (simp_all add: fifo_new_limit)
  then show ?thesis using shows_len [of ?f ?log] by (simp add: Let_def fifo_get_def fifo_shows_def)
qed

section \<open>A stream's packets\<close>

text \<open>Packets under consecutive sequence numbers, wrapping at sixteen bits.\<close>

definition numbered :: "u16 \<Rightarrow> bytes list \<Rightarrow> (u16 \<times> bytes) list" where
  "numbered start ps = map (\<lambda>k. (start + word_of_nat k, ps ! k)) [0 ..< length ps]"

lemma length_numbered [simp]: "length (numbered start ps) = length ps"
  by (simp add: numbered_def)

lemma numbered_snoc: "numbered start (ps @ [p]) = numbered start ps @ [(start + word_of_nat (length ps), p)]"
  by (simp add: numbered_def nth_append)

lemma recent_numbered:
  "recent n (numbered start ps) = map (\<lambda>k. (start + word_of_nat k, ps ! k)) [length ps - n ..< length ps]"
  by (simp add: recent_def numbered_def drop_map drop_upt)

lemma mod_window: "j mod n = k mod n \<Longrightarrow> j < k + n \<Longrightarrow> k < j + n \<Longrightarrow> j = k" for j k n :: nat
proof (induction j k rule: linorder_wlog)
  case (le j k)
  then have "n dvd k - j" by (metis mod_eq_dvd_iff_nat)
  with le show ?case by (auto dest: dvd_imp_le)
next
  case (sym j k)
  then show ?case by auto
qed

lemma u16_offset_inj: "(word_of_nat j :: u16) = word_of_nat k \<Longrightarrow> j < k + 65536 \<Longrightarrow> k < j + 65536 \<Longrightarrow> j = k"
proof -
  assume "(word_of_nat j :: u16) = word_of_nat k" and b: "j < k + 65536" "k < j + 65536"
  then have "unat (word_of_nat j :: u16) = unat (word_of_nat k :: u16)" by simp
  then have "j mod 65536 = k mod 65536" by (simp add: unat_of_nat)
  from mod_window [OF this b] show ?thesis .
qed

lemma distinct_recent_numbered: "n \<le> 65536 \<Longrightarrow> distinct (map fst (recent n (numbered start ps)))"
  unfolding recent_numbered map_map comp_def fst_conv distinct_map
  by (auto intro!: inj_onI u16_offset_inj)

lemma map_of_numbered:
  assumes "n \<le> 65536" "length ps - n \<le> k" "k < length ps"
  shows "map_of (recent n (numbered start ps)) (start + word_of_nat k) = Some (ps ! k)"
  using assms distinct_recent_numbered [OF assms(1), of start ps]
  by (intro map_of_is_SomeI) (auto simp: recent_numbered)

text \<open>Fewer than a wrap's worth held, the next number is always new, so every packet of a stream is kept.\<close>

lemma fifo_insert_numbered:
  assumes "fifo_shows f (numbered start ps)" "pf_limit f < 65536" "pf_limit f \<noteq> 0"
  shows "fst (fifo_insert (start + word_of_nat (length ps)) p f)
    \<and> fifo_shows (snd (fifo_insert (start + word_of_nat (length ps)) p f)) (numbered start (ps @ [p]))
    \<and> pf_limit (snd (fifo_insert (start + word_of_nat (length ps)) p f)) = pf_limit f"
proof -
  have "start + word_of_nat (length ps) \<notin> fst ` set (recent (pf_limit f) (numbered start ps))"
    using assms(2) by (auto simp: recent_numbered image_iff dest!: u16_offset_inj)
  with fifo_insert_spec [OF assms(1), of "start + word_of_nat (length ps)" p] assms(3) show ?thesis
    by (simp add: spec_call_def numbered_snoc)
qed

end
