(* ===== verification/Raop_Clock.thy ===== *)
theory Raop_Clock
  imports Raop_Packets Float_Arith
begin

text \<open>
  The clocks of a RAOP session: NTP and RTP time (\<open>raop/timing.rs\<close>), the negotiated audio format
  (\<open>raop.rs\<close>), the session's state (\<open>raop/context.rs\<close>), the sync packet made of it
  (\<open>raop/net/control.rs\<close>) and the bookkeeping the sender paces itself with (\<open>raop/pacing.rs\<close>). Clock
  readings and random draws are arguments; durations are whole nanoseconds.
\<close>

section \<open>Double precision\<close>

text \<open>Conversions and the quotient of two floats that are not negative, as Rust's \<open>as\<close> and \<open>/\<close> do them.\<close>

definition f64_of_nat :: "nat \<Rightarrow> f64" where
  "f64_of_nat n = f64_of_scaled (int n * 2 ^ 1074)"

definition f64_magnitude :: "f64 \<Rightarrow> nat" where
  "f64_magnitude x = nat \<bar>f64_scaled x\<bar>"

definition f64_quot :: "f64 \<Rightarrow> f64 \<Rightarrow> f64" where
  "f64_quot x y =
     (if f64_is_nan x \<or> f64_is_nan y then f64_nan
      else if f64_is_zero y then (if f64_is_zero x then f64_nan else 0x7FF0000000000000)
      else if f64_infinite y then (if f64_infinite x then f64_nan else 0)
      else if f64_infinite x then x
      else word_of_nat (float_round 53 0x7FF0000000000000 (f64_magnitude x * 2 ^ 1074) (f64_magnitude y)))"

definition f64_to_u64 :: "f64 \<Rightarrow> u64" where
  "f64_to_u64 x =
     (if f64_is_nan x then 0
      else if f64_negative x then 0
      else if f64_infinite x then 0xFFFFFFFFFFFFFFFF
      else word_of_nat (min (2 ^ 64 - 1) (f64_magnitude x div 2 ^ 1074)))"

definition f64_positive :: "f64 \<Rightarrow> bool" where
  "f64_positive x \<longleftrightarrow> \<not> f64_is_nan x \<and> \<not> f64_negative x \<and> \<not> f64_is_zero x"

section \<open>NTP and RTP time\<close>

definition NTP_UNIX_OFFSET :: u64 where "NTP_UNIX_OFFSET = 0x83AA7E80"

definition ntp_from_unix_micros :: "u64 \<Rightarrow> u64" where
  "ntp_from_unix_micros now_us =
     or (push_bit 32 (now_us div 1000000 + NTP_UNIX_OFFSET)) (push_bit 32 (now_us mod 1000000) div 1000000)"

text \<open>\<open>ntp_now\<close>, on the microseconds since the Unix epoch, zero for a clock set before it.\<close>

definition ntp_now :: "nat \<Rightarrow> u64" where
  "ntp_now micros = ntp_from_unix_micros (word_of_nat (min micros (2 ^ 64 - 1)))"

definition ntp2parts :: "u64 \<Rightarrow> u32 \<times> u32" where
  "ntp2parts ntp = (ucast (drop_bit 32 ntp), ucast (and ntp 0xFFFFFFFF))"

definition ntp2ts :: "u64 \<Rightarrow> u32 \<Rightarrow> u64" where
  "ntp2ts ntp rate = (let scaled = unat (drop_bit 16 ntp) * unat rate div 2 ^ 16 in word_of_nat (min scaled (2 ^ 64 - 1)))"

definition ts2ntp :: "u64 \<Rightarrow> u32 \<Rightarrow> u64" where
  "ts2ntp timestamp rate =
     push_bit 16 (f64_to_u64 (f64_quot (f64_of_nat (unat (push_bit 16 timestamp))) (f64_of_nat (unat rate))))"

definition ntp2ms :: "u64 \<Rightarrow> u64" where
  "ntp2ms ntp = (let scaled = unat (drop_bit 10 ntp) * 1000 div 2 ^ 22 in word_of_nat (min scaled (2 ^ 64 - 1)))"

definition ts2ms :: "u64 \<Rightarrow> u32 \<Rightarrow> u64" where
  "ts2ms timestamp rate = ntp2ms (ts2ntp timestamp rate)"

section \<open>The audio format\<close>

record audio_properties =
  ap_sample_rate :: u32
  ap_channels :: u8
  ap_sample_size :: u8

definition audio_properties_default :: audio_properties where
  "audio_properties_default = \<lparr>ap_sample_rate = 44100, ap_channels = 2, ap_sample_size = 16\<rparr>"

text \<open>\<open>str::parse\<close> of an unsigned integer type with that largest value.\<close>

definition read_property :: "(bytes \<rightharpoonup> bytes) \<Rightarrow> bytes \<Rightarrow> nat \<Rightarrow> nat option" where
  "read_property properties key largest = Option.bind (properties key) (parse_radix 10 largest)"

definition audio_from_properties :: "(bytes \<rightharpoonup> bytes) \<Rightarrow> audio_properties" where
  "audio_from_properties properties = (let d = audio_properties_default in
     \<lparr>ap_sample_rate = (case read_property properties (lit ''sr'') (2 ^ 32 - 1) of Some n \<Rightarrow> word_of_nat n | None \<Rightarrow> ap_sample_rate d),
      ap_channels = (case read_property properties (lit ''ch'') 255 of Some n \<Rightarrow> word_of_nat n | None \<Rightarrow> ap_channels d),
      ap_sample_size = (case read_property properties (lit ''ss'') 255 of Some n \<Rightarrow> word_of_nat n | None \<Rightarrow> ap_sample_size d)\<rparr>)"

section \<open>The session\<close>

definition FRAMES_PER_PACKET :: nat where "FRAMES_PER_PACKET = 352"

definition latency_for :: "u32 \<Rightarrow> u32" where
  "latency_for sample_rate = 22050 + sample_rate"

record stream_context =
  sc_audio :: audio_properties
  sc_latency :: u32
  sc_rtpseq :: u16
  sc_start_ts :: u64
  sc_head_ts :: u64
  sc_padding_sent :: u32
  sc_server_port :: u16
  sc_control_port :: u16
  sc_timing_port :: u16
  sc_rtsp_session :: u32
  sc_ssrc :: u32
  sc_volume :: "u32 option"

definition context_default :: stream_context where
  "context_default = \<lparr>sc_audio = audio_properties_default, sc_latency = latency_for (ap_sample_rate audio_properties_default),
     sc_rtpseq = 0, sc_start_ts = 0, sc_head_ts = 0, sc_padding_sent = 0, sc_server_port = 0, sc_control_port = 0,
     sc_timing_port = 0, sc_rtsp_session = 0, sc_ssrc = 0, sc_volume = None\<rparr>"

text \<open>\<open>reset\<close>, with the random sequence number and the NTP time read.\<close>

definition context_reset :: "u16 \<Rightarrow> u64 \<Rightarrow> stream_context \<Rightarrow> stream_context" where
  "context_reset seq now c = (let start = ntp2ts now (ap_sample_rate (sc_audio c)) in
     c\<lparr>sc_rtpseq := seq, sc_start_ts := start, sc_head_ts := start,
       sc_latency := latency_for (ap_sample_rate (sc_audio c)), sc_padding_sent := 0\<rparr>)"

definition elapsed_ts :: "stream_context \<Rightarrow> u64" where
  "elapsed_ts c = (if sc_head_ts c \<le> sc_start_ts c then 0 else sc_head_ts c - sc_start_ts c)"

definition rtptime :: "stream_context \<Rightarrow> u32" where
  "rtptime c = ucast (elapsed_ts c + ucast (sc_latency c))"

definition rtptime_without_latency :: "stream_context \<Rightarrow> u32" where
  "rtptime_without_latency c = rtptime c - sc_latency c"

definition context_position :: "stream_context \<Rightarrow> f64" where
  "context_position c = f64_quot (f64_of_nat (unat (ts2ms (elapsed_ts c) (ap_sample_rate (sc_audio c))))) (f64_of_nat 1000)"

definition context_frame_size :: "stream_context \<Rightarrow> nat" where
  "context_frame_size c = unat (ap_channels (sc_audio c)) * (unat (ap_sample_size (sc_audio c)) div 8)"

definition packet_size :: "stream_context \<Rightarrow> nat" where
  "packet_size c = FRAMES_PER_PACKET * context_frame_size c"

definition context_advance :: "u32 \<Rightarrow> stream_context \<Rightarrow> stream_context" where
  "context_advance frames c = c\<lparr>sc_rtpseq := sc_rtpseq c + 1, sc_head_ts := sc_head_ts c + ucast frames\<rparr>"

definition padding_complete :: "stream_context \<Rightarrow> bool" where
  "padding_complete c \<longleftrightarrow> sc_padding_sent c \<ge> sc_latency c"

definition sync_packet_of :: "stream_context \<Rightarrow> bool \<Rightarrow> sync_packet" where
  "sync_packet_of c first = (case ntp2parts (ts2ntp (sc_head_ts c) (ap_sample_rate (sc_audio c))) of (sec, frac) \<Rightarrow>
     \<lparr>sy_proto = (if first then PROTO_MARKER else PROTO_NORMAL), sy_now_without_latency = rtptime_without_latency c,
      sy_last_sync_sec = sec, sy_last_sync_frac = frac, sy_now = rtptime c\<rparr>)"

text \<open>\<open>sync_loop\<close>: one packet a second, on the contexts it reads.\<close>

fun sync_loop :: "bool \<Rightarrow> stream_context list \<Rightarrow> bytes list" where
  "sync_loop first [] = []"
| "sync_loop first (c # cs) = sync_encode (sync_packet_of c first) # sync_loop False cs"

section \<open>Pacing\<close>

definition MAX_PACKETS_COMPENSATE :: nat where "MAX_PACKETS_COMPENSATE = 3"
definition SLOW_WARNING_THRESHOLD :: nat where "SLOW_WARNING_THRESHOLD = 5"

text \<open>\<open>x.max(1)\<close> on the sample rate.\<close>

definition rate_divisor :: "u32 \<Rightarrow> nat" where
  "rate_divisor rate = max (unat rate) 1"

definition expected_frames :: "nat \<Rightarrow> u32 \<Rightarrow> u64" where
  "expected_frames elapsed_nanos sample_rate =
     f64_to_u64 (f64_quot (f64_of_nat elapsed_nanos) (f64_quot (f64_of_nat 1000000000) (f64_of_nat (rate_divisor sample_rate))))"

record statistics =
  st_sample_rate :: u32
  st_start :: nat
  st_interval_start :: nat
  st_total_frames :: u64
  st_interval_frames :: u64

definition statistics_new :: "u32 \<Rightarrow> nat \<Rightarrow> statistics" where
  "statistics_new rate now = \<lparr>st_sample_rate = rate, st_start = now, st_interval_start = now, st_total_frames = 0, st_interval_frames = 0\<rparr>"

definition expected_frame_count :: "nat \<Rightarrow> statistics \<Rightarrow> u64" where
  "expected_frame_count now s = expected_frames (now - st_start s) (st_sample_rate s)"

definition frames_behind :: "nat \<Rightarrow> statistics \<Rightarrow> u64" where
  "frames_behind now s = (let e = expected_frame_count now s in
     if e \<le> st_total_frames s then 0 else e - st_total_frames s)"

definition compensation_packets :: "nat \<Rightarrow> statistics \<Rightarrow> nat" where
  "compensation_packets now s = (let behind = unat (frames_behind now s) in
     if behind < FRAMES_PER_PACKET then 0
     else min (if behind div FRAMES_PER_PACKET < 2 ^ 32 then behind div FRAMES_PER_PACKET else MAX_PACKETS_COMPENSATE)
            MAX_PACKETS_COMPENSATE)"

definition stats_tick :: "u32 \<Rightarrow> statistics \<Rightarrow> statistics" where
  "stats_tick frames s = s\<lparr>st_total_frames := st_total_frames s + ucast frames, st_interval_frames := st_interval_frames s + ucast frames\<rparr>"

definition interval_completed :: "statistics \<Rightarrow> bool" where
  "interval_completed s \<longleftrightarrow> st_interval_frames s \<ge> ucast (st_sample_rate s)"

text \<open>\<open>as_secs_f64\<close>, and \<open>new_interval\<close> with what it answers.\<close>

definition secs_f64 :: "nat \<Rightarrow> f64" where
  "secs_f64 nanos = f64_add (f64_of_nat (nanos div 1000000000)) (f64_quot (f64_of_nat (nanos mod 1000000000)) (f64_of_nat 1000000000))"

definition new_interval :: "nat \<Rightarrow> statistics \<Rightarrow> (f64 \<times> u64) \<times> statistics" where
  "new_interval now s = ((secs_f64 (now - st_interval_start s), st_interval_frames s),
     s\<lparr>st_interval_start := now, st_interval_frames := 0\<rparr>)"

text \<open>\<open>sleep_for\<close>: the seconds slept.\<close>

definition sleep_for :: "nat \<Rightarrow> statistics \<Rightarrow> f64 option" where
  "sleep_for now s = (let
     audio_seconds = f64_quot (f64_of_nat (unat (st_total_frames s))) (f64_of_nat (rate_divisor (st_sample_rate s)));
     difference = f64_sub audio_seconds (secs_f64 (now - st_start s)) in
     if f64_positive difference then Some difference else None)"

record slow_counter =
  sl_previous :: "u16 option"
  sl_consecutive :: nat

definition slow_default :: slow_counter where
  "slow_default = \<lparr>sl_previous = None, sl_consecutive = 0\<rparr>"

definition slow_on_time :: "slow_counter \<Rightarrow> slow_counter" where
  "slow_on_time s = s\<lparr>sl_consecutive := 0\<rparr>"

definition slow_late :: "u16 \<Rightarrow> slow_counter \<Rightarrow> bool \<times> slow_counter" where
  "slow_late seqno s = (let
     s = (if sl_previous s = Some (seqno - 1) then s\<lparr>sl_consecutive := sl_consecutive s + 1\<rparr> else s);
     s = s\<lparr>sl_previous := Some seqno\<rparr> in
     (sl_consecutive s \<ge> SLOW_WARNING_THRESHOLD, s))"

end
