(* ===== verification/Raop_Stream.thy ===== *)
theory Raop_Stream
  imports Raop_Clock
begin

text \<open>
  The streaming loop of a RAOP session (\<open>raop/stream/data.rs\<close>), the audio source it reads
  (\<open>audio.rs\<close>), the packets the two protocol versions make (\<open>raop/protocol.rs\<close>,
  \<open>raop/protocol_v1.rs\<close>, \<open>raop/protocol_v2.rs\<close>), and the two receive loops of the controller's
  sockets (\<open>raop/net/control.rs\<close>, \<open>raop/net/timing_server.rs\<close>). What a UDP send answers and the
  clock readings are arguments; the datagrams sent are collected in order.
\<close>

section \<open>The audio source\<close>

record pcm_format =
  pcm_sample_rate :: u32
  pcm_channels :: u8
  pcm_bytes_per_sample :: u8

definition pcm_frame_size :: "pcm_format \<Rightarrow> nat" where
  "pcm_frame_size f = unat (pcm_channels f) * unat (pcm_bytes_per_sample f)"

record audio_source =
  as_samples :: bytes
  as_position :: nat
  as_format :: pcm_format

definition source_frame_size :: "audio_source \<Rightarrow> nat" where
  "source_frame_size src = max (pcm_frame_size (as_format src)) 1"

definition source_from_pcm :: "bytes \<Rightarrow> pcm_format \<Rightarrow> audio_source" where
  "source_from_pcm samples f = \<lparr>as_samples = samples, as_position = 0, as_format = f\<rparr>"

text \<open>The duration \<open>from_pcm\<close> records.\<close>

definition source_duration :: "bytes \<Rightarrow> pcm_format \<Rightarrow> f64" where
  "source_duration samples f =
     f64_quot (f64_of_nat (length samples div max (pcm_frame_size f) 1)) (f64_of_nat (rate_divisor (pcm_sample_rate f)))"

definition remaining_frames :: "audio_source \<Rightarrow> nat" where
  "remaining_frames src = (length (as_samples src) - as_position src) div source_frame_size src"

definition read_frames :: "nat \<Rightarrow> audio_source \<Rightarrow> bytes \<times> audio_source" where
  "read_frames frames src = (let
     wanted = frames * source_frame_size src;
     finish = min (as_position src + wanted) (length (as_samples src)) in
     (take (finish - as_position src) (drop (as_position src) (as_samples src)), src\<lparr>as_position := finish\<rparr>))"

section \<open>Audio packets of the two protocol versions\<close>

datatype stream_protocol = ProtocolV1 | ProtocolV2 "cipher option"

definition v1_audio_packet :: "bytes \<Rightarrow> bytes \<Rightarrow> bytes" where
  "v1_audio_packet header audio = header @ audio"

definition v2_audio_packet :: "aead \<Rightarrow> bytes \<Rightarrow> bytes \<Rightarrow> bytes \<Rightarrow> cipher option \<Rightarrow> (airplay_error + bytes) \<times> cipher option" where
  "v2_audio_packet A header audio aad c = (case c of
     None \<Rightarrow> (Err (ANotStarted (lit ''the AirPlay 2 audio stream'')), c)
   | Some ci \<Rightarrow> (let nonce = out_nonce ci in
       case cipher_encrypt A audio (Some aad) ci of
         (Err e, ci') \<Rightarrow> (Err (APairing (hap_of_pairing e)), Some ci')
       | (Ok encrypted, ci') \<Rightarrow> (Ok (header @ encrypted @ drop (length nonce - 8) nonce), Some ci')))"

definition audio_packet :: "aead \<Rightarrow> audio_header \<Rightarrow> bytes \<Rightarrow> stream_protocol \<Rightarrow> (airplay_error + bytes) \<times> stream_protocol" where
  "audio_packet A h audio p = (case p of
     ProtocolV1 \<Rightarrow> (Ok (v1_audio_packet (audio_header_encode h) audio), p)
   | ProtocolV2 c \<Rightarrow> (case v2_audio_packet A (audio_header_encode h) audio (additional_data h) c of
       (r, c') \<Rightarrow> (r, ProtocolV2 c')))"

section \<open>Sending\<close>

record stream_state =
  ss_context :: stream_context
  ss_source :: audio_source
  ss_protocol :: stream_protocol
  ss_backlog :: "packet_fifo option"
  ss_sent :: "bytes list"

text \<open>\<open>resize(n, 0)\<close>.\<close>

definition resize_zero :: "nat \<Rightarrow> bytes \<Rightarrow> bytes" where
  "resize_zero n bs = take n bs @ replicate (n - length bs) 0"

text \<open>
  \<open>send_packet\<close>: the frames sent, zero when the padding is complete. \<open>io\<close> is the error of the UDP
  send, if it fails. The control client holds the backlog; without one nothing is remembered.
\<close>

definition send_packet :: "aead \<Rightarrow> airplay_error option \<Rightarrow> bool \<Rightarrow> stream_state \<Rightarrow> (airplay_error + u32) \<times> stream_state" where
  "send_packet A io first s = (let c = ss_context s in
     if padding_complete c then (Ok 0, s)
     else case read_frames FRAMES_PER_PACKET (ss_source s) of (chunk, src) \<Rightarrow>
       (let padding = (chunk = []);
            frames = (if chunk = [] then replicate (packet_size c) 0
                      else if length chunk \<noteq> packet_size c then resize_zero (packet_size c) chunk else chunk);
            count = length frames div max (context_frame_size c) 1;
            sent_frames = (if count < 2 ^ 32 then word_of_nat count else 0);
            header = audio_header_new first (sc_rtpseq c) (rtptime c) (sc_ssrc c);
            s = s\<lparr>ss_source := src\<rparr> in
        case audio_packet A header frames (ss_protocol s) of
          (Err e, p) \<Rightarrow> (Err e, s\<lparr>ss_protocol := p\<rparr>)
        | (Ok packet, p) \<Rightarrow> (case io of
            Some e \<Rightarrow> (Err e, s\<lparr>ss_protocol := p\<rparr>)
          | None \<Rightarrow> (let c = (if padding then c\<lparr>sc_padding_sent := sc_padding_sent c + sent_frames\<rparr> else c) in
              (Ok sent_frames,
               s\<lparr>ss_protocol := p, ss_sent := ss_sent s @ [packet],
                 ss_backlog := map_option (\<lambda>f. snd (fifo_insert (sc_rtpseq c) packet f)) (ss_backlog s),
                 ss_context := context_advance sent_frames c\<rparr>)))))"

text \<open>
  The catch-up packets of one turn: all sent, or the source ran dry. A turn of the loop reads the clock
  three times, and the environment gives each reading, the sends' errors and the playing flag.
\<close>

fun compensate :: "aead \<Rightarrow> airplay_error option list \<Rightarrow> nat \<Rightarrow> statistics \<Rightarrow> stream_state
    \<Rightarrow> (airplay_error + bool) \<times> statistics \<times> stream_state" where
  "compensate A ios 0 st s = (Ok False, st, s)"
| "compensate A ios (Suc k) st s = (case send_packet A (case ios of [] \<Rightarrow> None | io # _ \<Rightarrow> io) False s of
     (Err e, s') \<Rightarrow> (Err e, st, s')
   | (Ok sent, s') \<Rightarrow> (let st' = stats_tick sent st in
       if sent = 0 then (Ok True, st', s') else compensate A (tl ios) k st' s'))"

record turn_env =
  te_playing :: bool
  te_send :: "airplay_error option"
  te_behind :: nat
  te_sends :: "airplay_error option list"
  te_interval :: nat
  te_sleep :: nat

datatype turn_end = TurnStopped | TurnExhausted | TurnFailed airplay_error | TurnGoesOn "f64 option" bool

definition stream_turn :: "aead \<Rightarrow> turn_env \<Rightarrow> statistics \<times> slow_counter \<times> stream_state
    \<Rightarrow> turn_end \<times> statistics \<times> slow_counter \<times> stream_state" where
  "stream_turn A env = (\<lambda>(st, slow, s).
     if \<not> te_playing env then (TurnStopped, st, slow, s)
     else let current_seqno = sc_rtpseq (ss_context s) - 1 in
       case send_packet A (te_send env) (st_total_frames st = 0) s of
         (Err e, s') \<Rightarrow> (TurnFailed e, st, slow, s')
       | (Ok sent, s') \<Rightarrow>
           if sent = 0 then (TurnExhausted, st, slow, s')
           else let st' = stats_tick sent st in
             case compensate A (te_sends env) (compensation_packets (te_behind env) st') st' s' of
               (Err e, st'', s'') \<Rightarrow> (TurnFailed e, st'', slow, s'')
             | (Ok True, st'', s'') \<Rightarrow> (TurnExhausted, st'', slow, s'')
             | (Ok False, st'', s'') \<Rightarrow>
                 (let st'' = (if interval_completed st'' then snd (new_interval (te_interval env) st'') else st'') in
                  case sleep_for (te_sleep env) st'' of
                    Some d \<Rightarrow> (TurnGoesOn (Some d) False, st'', slow_on_time slow, s'')
                  | None \<Rightarrow> (case slow_late current_seqno slow of
                      (warn, slow') \<Rightarrow> (TurnGoesOn None warn, st'', slow', s''))))"

text \<open>The loop over the turns the environment gives; \<open>None\<close> when they run out before it ends.\<close>

fun stream_turns :: "aead \<Rightarrow> turn_env list \<Rightarrow> statistics \<times> slow_counter \<times> stream_state
    \<Rightarrow> turn_end option \<times> stream_state" where
  "stream_turns A [] (st, slow, s) = (None, s)"
| "stream_turns A (env # envs) (st, slow, s) = (case stream_turn A env (st, slow, s) of
     (TurnGoesOn d w, st', slow', s') \<Rightarrow> stream_turns A envs (st', slow', s')
   | (r, st', slow', s') \<Rightarrow> (Some r, s'))"

definition stream_data :: "aead \<Rightarrow> nat \<Rightarrow> turn_env list \<Rightarrow> stream_state \<Rightarrow> (airplay_error + unit) option \<times> stream_state" where
  "stream_data A now envs s =
     (case stream_turns A envs (statistics_new (ap_sample_rate (sc_audio (ss_context s))) now, slow_default, s) of
        (None, s') \<Rightarrow> (None, s')
      | (Some (TurnFailed e), s') \<Rightarrow> (Some (Err e), s')
      | (Some _, s') \<Rightarrow> (Some (Ok ()), s'))"

section \<open>The receive loops\<close>

definition DATAGRAM_LIMIT :: nat where "DATAGRAM_LIMIT = 2048"
definition MAX_RETRANSMIT_RESPONSES :: nat where "MAX_RETRANSMIT_RESPONSES = PACKET_BACKLOG_SIZE"

text \<open>An address is a host and a port.\<close>

type_synonym 'h address = "'h \<times> u16"

definition is_from_receiver :: "'h address \<Rightarrow> 'h \<Rightarrow> bool" where
  "is_from_receiver from receiver \<longleftrightarrow> fst from = receiver"

text \<open>What one datagram on the control socket is answered with; \<open>recv_from\<close> cuts it to the buffer.\<close>

definition control_received :: "packet_fifo \<Rightarrow> 'h \<Rightarrow> 'h address \<Rightarrow> bytes \<Rightarrow> bytes list" where
  "control_received backlog receiver from datagram = (let data = take DATAGRAM_LIMIT datagram in
     if \<not> is_from_receiver from receiver then []
     else case rtp_decode data of
       Err _ \<Rightarrow> []
     | Ok header \<Rightarrow>
         if masked_type header \<noteq> PAYLOAD_TYPE_RETRANSMIT_REQUEST then []
         else case retransmit_decode data of
           Err _ \<Rightarrow> []
         | Ok request \<Rightarrow>
             List.map_filter (\<lambda>offset.
               case fifo_get (rr_lost_seqno request + word_of_nat offset) backlog of
                 None \<Rightarrow> None
               | Some cached \<Rightarrow> (case retransmit_response cached of Err _ \<Rightarrow> None | Ok response \<Rightarrow> Some response))
               [0 ..< min (unat (rr_lost_packets request)) MAX_RETRANSMIT_RESPONSES])"

definition timing_received :: "nat \<Rightarrow> 'h \<Rightarrow> 'h address \<Rightarrow> bytes \<Rightarrow> bytes option" where
  "timing_received micros receiver from datagram = (let data = take DATAGRAM_LIMIT datagram in
     if \<not> is_from_receiver from receiver then None
     else case timing_decode data of
       Err _ \<Rightarrow> None
     | Ok request \<Rightarrow> (case ntp2parts (ntp_now micros) of
         (now_sec, now_frac) \<Rightarrow> Some (timing_encode (timing_respond request now_sec now_frac))))"

end
