(* ===== verification/Raop_Session.thy ===== *)
theory Raop_Session
  imports Raop_Stream
begin

text \<open>
  What a receiver gets from a RAOP session: the packets of any run of the sender, their sequence numbers
  and timestamps, the retransmissions, and the end of the stream.
\<close>

section \<open>One packet\<close>

text \<open>The audio of the next packet: what is read of the source, filled up, or silence.\<close>

definition stream_frames :: "stream_state \<Rightarrow> bytes" where
  "stream_frames s = (let chunk = fst (read_frames FRAMES_PER_PACKET (ss_source s)); n = packet_size (ss_context s) in
     if chunk = [] then replicate n 0 else resize_zero n chunk)"

definition frames_counted :: "stream_state \<Rightarrow> u32" where
  "frames_counted s = (let count = packet_size (ss_context s) div max (context_frame_size (ss_context s)) 1 in
     if count < 2 ^ 32 then word_of_nat count else 0)"

definition stream_header :: "bool \<Rightarrow> stream_state \<Rightarrow> audio_header" where
  "stream_header first s = (let c = ss_context s in audio_header_new first (sc_rtpseq c) (rtptime c) (sc_ssrc c))"

definition after_packet :: "bytes \<Rightarrow> stream_protocol \<Rightarrow> stream_state \<Rightarrow> stream_state" where
  "after_packet packet p s = (let c = ss_context s; chunk = fst (read_frames FRAMES_PER_PACKET (ss_source s));
     c' = (if chunk = [] then c\<lparr>sc_padding_sent := sc_padding_sent c + frames_counted s\<rparr> else c) in
     s\<lparr>ss_source := snd (read_frames FRAMES_PER_PACKET (ss_source s)), ss_protocol := p, ss_sent := ss_sent s @ [packet],
       ss_backlog := map_option (\<lambda>f. snd (fifo_insert (sc_rtpseq c) packet f)) (ss_backlog s),
       ss_context := context_advance (frames_counted s) c'\<rparr>)"

lemma length_resize [simp]: "length (resize_zero n bs) = n"
  by (simp add: resize_zero_def)

lemma resize_same: "length bs = n \<Longrightarrow> resize_zero n bs = bs"
  by (simp add: resize_zero_def)

lemma length_stream_frames [simp]: "length (stream_frames s) = packet_size (ss_context s)"
  by (simp add: stream_frames_def Let_def)

lemma send_packet_eq:
  "send_packet A io first s =
     (if padding_complete (ss_context s) then (Ok 0, s)
      else case audio_packet A (stream_header first s) (stream_frames s) (ss_protocol s) of
        (Err e, p) \<Rightarrow> (Err e, s\<lparr>ss_source := snd (read_frames FRAMES_PER_PACKET (ss_source s)), ss_protocol := p\<rparr>)
      | (Ok packet, p) \<Rightarrow> (case io of
          Some e \<Rightarrow> (Err e, s\<lparr>ss_source := snd (read_frames FRAMES_PER_PACKET (ss_source s)), ss_protocol := p\<rparr>)
        | None \<Rightarrow> (Ok (frames_counted s), after_packet packet p s)))"
proof -
  obtain chunk src where r: "read_frames FRAMES_PER_PACKET (ss_source s) = (chunk, src)"
    by (cases "read_frames FRAMES_PER_PACKET (ss_source s)")
  let ?n = "packet_size (ss_context s)"
  have f: "(if chunk = [] then replicate ?n 0 else if length chunk \<noteq> ?n then resize_zero ?n chunk else chunk) = stream_frames s"
    by (simp add: stream_frames_def r resize_same)
  show ?thesis
    unfolding send_packet_def Let_def r prod.case f
    by (simp add: stream_header_def frames_counted_def after_packet_def r Let_def split: sum.split option.split prod.split)
qed

section \<open>Runs\<close>

text \<open>
  What calls of \<open>send_packet\<close> can lead to, in any number, with any errors of the socket. The list is the
  audio that went into the packets sent.
\<close>

inductive stream_reaches :: "aead \<Rightarrow> stream_state \<Rightarrow> bytes list \<Rightarrow> stream_state \<Rightarrow> bool"
  for A :: aead and s0 :: stream_state where
  stream_started: "stream_reaches A s0 [] s0"
| stream_sends: "stream_reaches A s0 audio s \<Longrightarrow> send_packet A io first s = (r, s')
    \<Longrightarrow> stream_reaches A s0 (if ss_sent s' = ss_sent s then audio else audio @ [stream_frames s]) s'"

text \<open>Sending a packet or not, as the invariants see it.\<close>

lemma send_packet_cases [consumes 1, case_names kept failed sent]:
  assumes "send_packet A io first s = (r, s')"
  obtains "r = Ok 0" "s' = s" "padding_complete (ss_context s)"
  | e p x where "r = Err e" "s' = s\<lparr>ss_source := snd (read_frames FRAMES_PER_PACKET (ss_source s)), ss_protocol := p\<rparr>"
      "audio_packet A (stream_header first s) (stream_frames s) (ss_protocol s) = (x, p)" "\<not> padding_complete (ss_context s)"
  | packet p where "r = Ok (frames_counted s)" "s' = after_packet packet p s"
      "audio_packet A (stream_header first s) (stream_frames s) (ss_protocol s) = (Ok packet, p)"
      "\<not> padding_complete (ss_context s)"
  using assms that by (auto simp: send_packet_eq split: if_splits prod.splits sum.splits option.splits)

lemma sent_grows [simp]: "ss_sent (after_packet packet p s) \<noteq> ss_sent s" "ss_sent (after_packet packet p s) = ss_sent s @ [packet]"
  by (simp_all add: after_packet_def Let_def)

text \<open>An invariant of runs only has to survive the three outcomes.\<close>

lemma stream_reaches_inv [consumes 1, case_names start failed sent]:
  assumes "stream_reaches A s0 audio s" and "P [] s0"
    and "\<And>audio s first x p. P audio s \<Longrightarrow> audio_packet A (stream_header first s) (stream_frames s) (ss_protocol s) = (x, p)
      \<Longrightarrow> P audio (s\<lparr>ss_source := snd (read_frames FRAMES_PER_PACKET (ss_source s)), ss_protocol := p\<rparr>)"
    and "\<And>audio s first packet p. P audio s \<Longrightarrow> \<not> padding_complete (ss_context s)
      \<Longrightarrow> audio_packet A (stream_header first s) (stream_frames s) (ss_protocol s) = (Ok packet, p)
      \<Longrightarrow> P (audio @ [stream_frames s]) (after_packet packet p s)"
  shows "P audio s"
  using assms(1)
proof induction
  case (stream_sends audio s io first r s')
  from stream_sends(2) show ?case
    by (cases rule: send_packet_cases) (use stream_sends(3) assms(3,4) in auto)
qed (rule assms(2))

lemma packet_header:
  "audio_packet A h audio p = (Ok packet, p') \<Longrightarrow> \<exists>rest. packet = audio_header_encode h @ rest"
  by (auto simp: audio_packet_def v1_audio_packet_def v2_audio_packet_def Let_def
      split: stream_protocol.splits option.splits prod.splits sum.splits)

lemma length_audio_header [simp]: "length (audio_header_encode h) = 12"
  by (simp add: audio_header_encode_def)

text \<open>The loop only makes such runs.\<close>

lemma reaches_send: "stream_reaches A s0 audio s \<Longrightarrow> send_packet A io first s = (r, s') \<Longrightarrow> \<exists>audio'. stream_reaches A s0 audio' s'"
  using stream_sends by blast

lemma reaches_compensate:
  "stream_reaches A s0 audio s \<Longrightarrow> compensate A ios k st s = (r, st', s') \<Longrightarrow> \<exists>audio'. stream_reaches A s0 audio' s'"
proof (induction A ios k st s arbitrary: audio rule: compensate.induct)
  case (2 A ios k st s)
  obtain x s1 where p: "send_packet A (case ios of [] \<Rightarrow> None | io # _ \<Rightarrow> io) False s = (x, s1)"
    by (cases "send_packet A (case ios of [] \<Rightarrow> None | io # _ \<Rightarrow> io) False s")
  with "2.prems"(1) obtain audio1 where "stream_reaches A s0 audio1 s1" using reaches_send by blast
  with 2 p show ?case by (auto simp: Let_def split: sum.splits if_splits)
qed auto

lemma reaches_turn:
  "stream_reaches A s0 audio s \<Longrightarrow> stream_turn A env (st, slow, s) = (r, st', slow', s') \<Longrightarrow> \<exists>audio'. stream_reaches A s0 audio' s'"
proof -
  assume r0: "stream_reaches A s0 audio s" and t: "stream_turn A env (st, slow, s) = (r, st', slow', s')"
  obtain x s1 where p: "send_packet A (te_send env) (st_total_frames st = 0) s = (x, s1)"
    by (cases "send_packet A (te_send env) (st_total_frames st = 0) s")
  with r0 obtain audio1 where r1: "stream_reaches A s0 audio1 s1" using reaches_send by blast
  show ?thesis
  proof (cases x)
    case (Inl e)
    with t p r0 r1 show ?thesis by (auto simp: stream_turn_def split: if_splits)
  next
    case (Inr sent)
    let ?st = "stats_tick sent st"
    obtain y st2 s2 where c: "compensate A (te_sends env) (compensation_packets (te_behind env) ?st) ?st s1 = (y, st2, s2)"
      by (cases "compensate A (te_sends env) (compensation_packets (te_behind env) ?st) ?st s1")
    with r1 obtain audio2 where r2: "stream_reaches A s0 audio2 s2" using reaches_compensate by blast
    from t p Inr c have "s' = s \<or> s' = s1 \<or> s' = s2"
      by (auto simp: stream_turn_def Let_def split: if_splits sum.splits bool.splits option.splits prod.splits)
    with r0 r1 r2 show ?thesis by auto
  qed
qed

lemma reaches_turns:
  "stream_reaches A s0 audio s \<Longrightarrow> stream_turns A envs (st, slow, s) = (r, s') \<Longrightarrow> \<exists>audio'. stream_reaches A s0 audio' s'"
proof (induction envs arbitrary: st slow s audio)
  case (Cons env envs)
  obtain x st1 slow1 s1 where t: "stream_turn A env (st, slow, s) = (x, st1, slow1, s1)"
    by (cases "stream_turn A env (st, slow, s)") auto
  with Cons.prems(1) obtain audio1 where "stream_reaches A s0 audio1 s1" using reaches_turn by blast
  with Cons t show ?case by (auto split: turn_end.splits)
qed auto

end
