(* ===== verification/Raop_Receiver.thy ===== *)
theory Raop_Receiver
  imports Raop_Session
begin

text \<open>
  The receiver's view of a RAOP session: the numbering of the packets, the sync packets, the packets sent
  again, and the packets of the second protocol version opened one by one.
\<close>

section \<open>Numbering\<close>

lemma context_after_packet:
  "ss_context (after_packet packet p s) = (let c = context_advance (frames_counted s) (ss_context s) in
     if fst (read_frames FRAMES_PER_PACKET (ss_source s)) = [] then c\<lparr>sc_padding_sent := sc_padding_sent c + frames_counted s\<rparr> else c)"
  by (simp add: after_packet_def context_advance_def Let_def)

lemma frames_counted_full: "0 < context_frame_size (ss_context s) \<Longrightarrow> frames_counted s = 352"
proof -
  assume p: "0 < context_frame_size (ss_context s)"
  then have "max (context_frame_size (ss_context s)) 1 = context_frame_size (ss_context s)" by simp
  with p show ?thesis by (simp add: frames_counted_def packet_size_def FRAMES_PER_PACKET_def)
qed

text \<open>The context after a number of packets, but for the padding sent.\<close>

definition context_at :: "stream_context \<Rightarrow> nat \<Rightarrow> stream_context \<Rightarrow> bool" where
  "context_at c0 n c \<longleftrightarrow> sc_audio c = sc_audio c0 \<and> sc_latency c = sc_latency c0 \<and> sc_ssrc c = sc_ssrc c0
     \<and> sc_start_ts c = sc_start_ts c0 \<and> sc_rtpseq c = sc_rtpseq c0 + word_of_nat n \<and> sc_head_ts c = sc_head_ts c0 + word_of_nat (352 * n)"

definition numbered_headers :: "stream_context \<Rightarrow> bytes list \<Rightarrow> bool" where
  "numbered_headers c0 sent \<longleftrightarrow> (\<forall>k < length sent. \<exists>first rest c. context_at c0 k c
     \<and> sent ! k = audio_header_encode (audio_header_new first (sc_rtpseq c) (rtptime c) (sc_ssrc c)) @ rest)"

lemma head_next: "a + word_of_nat (352 * n) + 352 = a + (word_of_nat (352 * Suc n) :: u64)"
  by (simp add: ac_simps)

lemma seq_next: "a + word_of_nat n + 1 = a + (word_of_nat (Suc n) :: u16)"
  by (simp add: ac_simps)

lemma frames_u64: "(ucast (352 :: u32) :: u64) = 352"
  by code_simp

lemma context_at_next:
  assumes "context_at c0 n c"
  shows "context_at c0 (Suc n) (context_advance 352 c)" "context_at c0 n (c\<lparr>sc_padding_sent := x\<rparr>)"
proof -
  have "sc_head_ts c + 352 = sc_head_ts c0 + word_of_nat (352 * Suc n)" "sc_rtpseq c + 1 = sc_rtpseq c0 + word_of_nat (Suc n)"
    using assms head_next [of "sc_head_ts c0" n] seq_next [of "sc_rtpseq c0" n] unfolding context_at_def by auto
  then show "context_at c0 (Suc n) (context_advance 352 c)"
    using assms unfolding context_at_def context_advance_def frames_u64 by simp
  show "context_at c0 n (c\<lparr>sc_padding_sent := x\<rparr>)" using assms by (simp add: context_at_def)
qed

lemma frame_size_at: "context_at c0 n c \<Longrightarrow> context_frame_size c = context_frame_size c0"
  by (simp add: context_at_def context_frame_size_def)

lemma numbered_headers_snoc:
  "numbered_headers c0 sent \<Longrightarrow> context_at c0 (length sent) c
   \<Longrightarrow> packet = audio_header_encode (audio_header_new first (sc_rtpseq c) (rtptime c) (sc_ssrc c)) @ rest
   \<Longrightarrow> numbered_headers c0 (sent @ [packet])"
  unfolding numbered_headers_def by (auto simp: nth_append less_Suc_eq)

lemma run_numbered:
  assumes "stream_reaches A s0 audio s" "ss_sent s0 = []" "0 < context_frame_size (ss_context s0)"
  shows "context_at (ss_context s0) (length (ss_sent s)) (ss_context s) \<and> numbered_headers (ss_context s0) (ss_sent s)"
  using assms(1)
proof (induction rule: stream_reaches_inv)
  case start
  then show ?case by (simp add: assms(2) context_at_def numbered_headers_def)
next
  case (failed audio s first x p)
  then show ?case by simp
next
  case (sent audio s first packet p)
  let ?c0 = "ss_context s0"
  have c: "context_at ?c0 (length (ss_sent s)) (ss_context s)" and h: "numbered_headers ?c0 (ss_sent s)" using sent by simp_all
  have f: "frames_counted s = 352" using assms(3) frame_size_at [OF c] frames_counted_full by simp
  from packet_header [OF sent(3)] obtain rest where "packet = audio_header_encode (stream_header first s) @ rest" by blast
  then have "numbered_headers ?c0 (ss_sent s @ [packet])"
    using h c by (auto simp: stream_header_def Let_def intro: numbered_headers_snoc)
  moreover have "context_at ?c0 (Suc (length (ss_sent s))) (ss_context (after_packet packet p s))"
    using context_at_next [OF context_at_next(1) [OF c]] context_at_next(1) [OF c] by (simp add: context_after_packet f Let_def context_at_next)
  ultimately show ?case by simp
qed

lemma ucast_sum: "(ucast (a + b :: u64) :: u32) = ucast a + ucast b"
proof (transfer, goal_cases)
  case (1 a b)
  have "take_bit 32 (take_bit 64 a + take_bit 64 b) = take_bit 32 (take_bit 32 (take_bit 64 a) + take_bit 32 (take_bit 64 b))"
    by (simp only: take_bit_add)
  also have "\<dots> = take_bit 32 (a + b)" by (simp add: take_bit_take_bit take_bit_add)
  finally show ?case by simp
qed

lemma ucast_same: "(ucast (ucast (l :: u32) :: u64) :: u32) = l"
  by (rule bit_word_eqI) (simp add: bit_simps)

lemma ucast_nat: "(ucast (word_of_nat m :: u64) :: u32) = word_of_nat m"
  by transfer (simp add: take_bit_take_bit)

lemma ucast_timestamp: "ucast (word_of_nat m + ucast l :: u64) = l + (word_of_nat m :: u32)" for l :: u32
  by (simp only: ucast_sum ucast_same ucast_nat add.commute)

lemma rtptime_at:
  assumes "context_at (context_reset seq now c) n c'" "unat (ntp2ts now (ap_sample_rate (sc_audio c))) + 352 * n < 2 ^ 64"
  shows "rtptime c' = latency_for (ap_sample_rate (sc_audio c)) + word_of_nat (352 * n)"
    "rtptime_without_latency c' = word_of_nat (352 * n)"
proof -
  let ?start = "ntp2ts now (ap_sample_rate (sc_audio c))"
  have h: "sc_start_ts c' = ?start" "sc_head_ts c' = ?start + word_of_nat (352 * n)"
    "sc_latency c' = latency_for (ap_sample_rate (sc_audio c))"
    using assms(1) by (simp_all add: context_at_def context_reset_def Let_def)
  have w: "unat (word_of_nat (352 * n) :: u64) = 352 * n"
    unfolding unat_of_nat by (rule mod_less) (use assms(2) in simp)
  with assms(2) have "unat (?start + word_of_nat (352 * n)) = unat ?start + 352 * n"
    using unat_add_lem [of ?start "word_of_nat (352 * n)"] by simp
  then have "sc_head_ts c' \<le> sc_start_ts c' \<Longrightarrow> word_of_nat (352 * n) = (0 :: u64)"
    using w unfolding h word_le_nat_alt word_unat_eq_iff by simp
  then have e: "elapsed_ts c' = word_of_nat (352 * n)" unfolding elapsed_ts_def h(1,2) by auto
  show r: "rtptime c' = latency_for (ap_sample_rate (sc_audio c)) + word_of_nat (352 * n)"
    by (simp only: rtptime_def e h ucast_timestamp)
  show "rtptime_without_latency c' = word_of_nat (352 * n)" by (simp add: rtptime_without_latency_def r h)
qed

text \<open>
  C27: The stream is continuous. From a reset context, whatever the socket does to single sends, the packets
  that go out carry consecutive sequence numbers modulo 2^16 from the random start, and timestamps that grow
  by 352 frames a packet from the latency, modulo 2^32; and a sync packet made at any point announces the
  timestamp of the packet that goes out next, with and without the latency.
\<close>

theorem packets_continuous:
  assumes "stream_reaches A s0 audio s" and "ss_sent s0 = []" and "ss_context s0 = context_reset seq now c"
    and "0 < context_frame_size c"
    and "unat (ntp2ts now (ap_sample_rate (sc_audio c))) + 352 * length (ss_sent s) < 2 ^ 64" and "k < length (ss_sent s)"
  shows "(\<exists>first. take 12 (ss_sent s ! k) = audio_header_encode (audio_header_new first (seq + word_of_nat k)
        (latency_for (ap_sample_rate (sc_audio c)) + word_of_nat (352 * k)) (sc_ssrc c)))
    \<and> sy_now (sync_packet_of (ss_context s) first) = latency_for (ap_sample_rate (sc_audio c)) + word_of_nat (352 * length (ss_sent s))
    \<and> sy_now_without_latency (sync_packet_of (ss_context s) first) = word_of_nat (352 * length (ss_sent s))"
proof -
  have "0 < context_frame_size (ss_context s0)" using assms(3,4) by (simp add: context_reset_def context_frame_size_def Let_def)
  from run_numbered [OF assms(1,2) this] have
    n: "context_at (context_reset seq now c) (length (ss_sent s)) (ss_context s)"
    and h: "numbered_headers (context_reset seq now c) (ss_sent s)" by (simp_all add: assms(3))
  from h assms(6) obtain fst' rest ck where ck: "context_at (context_reset seq now c) k ck"
    "ss_sent s ! k = audio_header_encode (audio_header_new fst' (sc_rtpseq ck) (rtptime ck) (sc_ssrc ck)) @ rest"
    unfolding numbered_headers_def by blast
  have "unat (ntp2ts now (ap_sample_rate (sc_audio c))) + 352 * k < 2 ^ 64" using assms(5,6) by linarith
  with rtptime_at(1) [OF ck(1)] ck have "take 12 (ss_sent s ! k) = audio_header_encode (audio_header_new fst' (seq + word_of_nat k)
        (latency_for (ap_sample_rate (sc_audio c)) + word_of_nat (352 * k)) (sc_ssrc c))"
    by (simp add: context_at_def context_reset_def Let_def)
  moreover from rtptime_at [OF n assms(5)] have
    "sy_now (sync_packet_of (ss_context s) first) = latency_for (ap_sample_rate (sc_audio c)) + word_of_nat (352 * length (ss_sent s))"
    "sy_now_without_latency (sync_packet_of (ss_context s) first) = word_of_nat (352 * length (ss_sent s))"
    by (simp_all add: sync_packet_of_def split: prod.split)
  ultimately show ?thesis by blast
qed

section \<open>Retransmission\<close>

lemma run_backlog:
  assumes "stream_reaches A s0 audio s" "ss_sent s0 = []" "ss_backlog s0 = Some (fifo_new PACKET_BACKLOG_SIZE)"
  shows "sc_rtpseq (ss_context s) = sc_rtpseq (ss_context s0) + word_of_nat (length (ss_sent s))
    \<and> (\<forall>packet \<in> set (ss_sent s). 12 \<le> length packet)
    \<and> (\<exists>f. ss_backlog s = Some f \<and> fifo_shows f (numbered (sc_rtpseq (ss_context s0)) (ss_sent s)) \<and> pf_limit f = PACKET_BACKLOG_SIZE)"
  using assms(1)
proof (induction rule: stream_reaches_inv)
  case start
  then show ?case using fifo_new_shows by (simp add: assms(2,3) numbered_def fifo_new_limit)
next
  case (failed audio s first x p)
  then show ?case by simp
next
  case (sent audio s first packet p)
  let ?seq = "sc_rtpseq (ss_context s0)"
  from sent(1) obtain f where f: "ss_backlog s = Some f" "fifo_shows f (numbered ?seq (ss_sent s))" "pf_limit f = PACKET_BACKLOG_SIZE"
    and q: "sc_rtpseq (ss_context s) = ?seq + word_of_nat (length (ss_sent s))" by blast
  from packet_header [OF sent(3)] have "12 \<le> length packet" by auto
  moreover have "sc_rtpseq (ss_context (after_packet packet p s)) = ?seq + word_of_nat (Suc (length (ss_sent s)))"
    using q by (simp add: context_after_packet context_advance_def Let_def)
  moreover have "ss_backlog (after_packet packet p s) = Some (snd (fifo_insert (?seq + word_of_nat (length (ss_sent s))) packet f))"
    using f(1) q by (simp add: after_packet_def Let_def)
  ultimately show ?case
    using sent(1) fifo_insert_numbered [OF f(2), of packet] f(3) by (simp add: PACKET_BACKLOG_SIZE_def)
qed

definition resent :: "bytes \<Rightarrow> bytes" where
  "resent packet = RETRANSMIT_RESPONSE_PREFIX @ take 2 (drop 2 packet) @ packet"

lemma retransmit_response_ok: "12 \<le> length packet \<Longrightarrow> retransmit_response packet = Ok (resent packet)"
  by (simp add: retransmit_response_def get_range_def resent_def)

lemma set_filtered: "y \<in> set (List.map_filter f xs) \<longleftrightarrow> (\<exists>x \<in> set xs. f x = Some y)"
  by (induction xs) (auto simp: map_filter_simps split: option.split)

lemma map_filter_total: "\<forall>x \<in> set xs. f x = Some (g x) \<Longrightarrow> List.map_filter f xs = map g xs"
  by (induction xs) (simp_all add: map_filter_simps)

text \<open>
  C28: Lost packets are sent again. When the receiver's host asks for packets that are among the last thousand
  sent, across any wrap of the sequence numbers, it is answered each of them, in order and unchanged, under
  the retransmission prefix and its own sequence number.
\<close>

theorem lost_packets_resent:
  assumes "stream_reaches A s0 audio s" and "ss_sent s0 = []" and "ss_backlog s0 = Some (fifo_new PACKET_BACKLOG_SIZE)"
    and "ss_backlog s = Some backlog" and "fst from = receiver" and "masked_type (rr_header r) = PAYLOAD_TYPE_RETRANSMIT_REQUEST"
    and "rr_lost_seqno r = sc_rtpseq (ss_context s0) + word_of_nat k" and "k + unat (rr_lost_packets r) \<le> length (ss_sent s)"
    and "length (ss_sent s) \<le> k + PACKET_BACKLOG_SIZE"
  shows "control_received backlog receiver from (retransmit_encode r)
    = map (\<lambda>j. resent (ss_sent s ! j)) [k ..< k + unat (rr_lost_packets r)]"
proof -
  let ?seq = "sc_rtpseq (ss_context s0)" and ?n = "unat (rr_lost_packets r)"
  from run_backlog [OF assms(1-3)] assms(4) have f: "fifo_shows backlog (numbered ?seq (ss_sent s))" "pf_limit backlog = PACKET_BACKLOG_SIZE"
    and l: "\<forall>packet \<in> set (ss_sent s). 12 \<le> length packet" by auto
  have get: "fifo_get (?seq + word_of_nat (k + j)) backlog = Some (ss_sent s ! (k + j))" if "j < ?n" for j
    using map_of_numbered [of PACKET_BACKLOG_SIZE "ss_sent s" "k + j" ?seq] f assms(8,9) that
    by (simp add: fifo_get_def fifo_shows_def PACKET_BACKLOG_SIZE_def)
  have "?n \<le> 1000" using assms(8,9) by (simp add: PACKET_BACKLOG_SIZE_def)
  then have m: "min ?n MAX_RETRANSMIT_RESPONSES = ?n" by (simp add: MAX_RETRANSMIT_RESPONSES_def PACKET_BACKLOG_SIZE_def)
  have e: "length (retransmit_encode r) = 8" by (simp add: retransmit_encode_def)
  have "rtp_decode (retransmit_encode r) = Ok (rr_header r)" "retransmit_decode (retransmit_encode r) = Ok r"
    by (simp_all add: retransmit_encode_def retransmit_decode_def RETRANSMIT_REQUEST_LEN_def read_be16_def)
  moreover have "List.map_filter (\<lambda>offset. case fifo_get (?seq + word_of_nat k + word_of_nat offset) backlog of None \<Rightarrow> None
        | Some cached \<Rightarrow> (case retransmit_response cached of Err _ \<Rightarrow> None | Ok response \<Rightarrow> Some response)) [0 ..< ?n]
      = map (\<lambda>j. resent (ss_sent s ! (k + j))) [0 ..< ?n]"
    using get l assms(8) by (intro map_filter_total) (auto simp: retransmit_response_ok add.assoc)
  moreover have "map (\<lambda>j. resent (ss_sent s ! (k + j))) [0 ..< ?n] = map (\<lambda>j. resent (ss_sent s ! j)) [k ..< k + ?n]"
    by (rule nth_equalityI) simp_all
  ultimately show ?thesis
    using assms(5-7) by (simp add: control_received_def is_from_receiver_def DATAGRAM_LIMIT_def e m)
qed

text \<open>
  The control socket cannot be turned on others. Whatever datagram arrives on it, it is answered only if
  it comes from the receiver's host, with at most a thousand datagrams, each of them a packet that was sent,
  behind four bytes.
\<close>

theorem control_answers_bounded:
  assumes "stream_reaches A s0 audio s" and "ss_sent s0 = []" and "ss_backlog s0 = Some (fifo_new PACKET_BACKLOG_SIZE)"
    and "ss_backlog s = Some backlog"
  shows "(fst from \<noteq> receiver \<longrightarrow> control_received backlog receiver from datagram = [])
    \<and> length (control_received backlog receiver from datagram) \<le> 1000
    \<and> set (control_received backlog receiver from datagram) \<subseteq> resent ` set (ss_sent s)"
proof -
  from run_backlog [OF assms(1-3)] assms(4) have f: "fifo_shows backlog (numbered (sc_rtpseq (ss_context s0)) (ss_sent s))"
    and l: "\<forall>packet \<in> set (ss_sent s). 12 \<le> length packet" by auto
  have known: "packet \<in> set (ss_sent s)" if "fifo_get q backlog = Some packet" for q packet
  proof -
    from that f have "(q, packet) \<in> set (recent (pf_limit backlog) (numbered (sc_rtpseq (ss_context s0)) (ss_sent s)))"
      by (auto simp: fifo_get_def fifo_shows_def dest: map_of_SomeD)
    then show ?thesis using set_recent by (fastforce simp: numbered_def)
  qed
  have filter_length: "length (List.map_filter g xs) \<le> length xs" for g :: "nat \<Rightarrow> bytes option" and xs
    by (induction xs) (auto simp: map_filter_simps split: option.split)
  have "length (List.map_filter g [0 ..< min m MAX_RETRANSMIT_RESPONSES]) \<le> 1000" for g :: "nat \<Rightarrow> bytes option" and m
    using filter_length [of g "[0 ..< min m MAX_RETRANSMIT_RESPONSES]"]
    by (simp add: MAX_RETRANSMIT_RESPONSES_def PACKET_BACKLOG_SIZE_def)
  then have "length (control_received backlog receiver from datagram) \<le> 1000"
    by (simp add: control_received_def Let_def split: sum.split)
  moreover have "set (control_received backlog receiver from datagram) \<subseteq> resent ` set (ss_sent s)"
    using known l by (auto simp: control_received_def Let_def set_filtered retransmit_response_ok split: sum.splits if_splits option.splits)
  moreover have "fst from \<noteq> receiver \<Longrightarrow> control_received backlog receiver from datagram = []"
    by (simp add: control_received_def is_from_receiver_def Let_def)
  ultimately show ?thesis by blast
qed

section \<open>The second protocol version\<close>

text \<open>
  A receiver opens a packet of its own, with the nonce that travels at its end and the timestamp and source
  of its header as associated data.
\<close>

definition v2_open :: "aead \<Rightarrow> bytes \<Rightarrow> bytes \<Rightarrow> bytes option" where
  "v2_open A key packet = aead_open A key (replicate 4 0 @ drop (length packet - 8) packet)
     (take (length packet - 20) (drop 12 packet)) (take 8 (drop 4 packet))"

definition packet_nonce :: "bytes \<Rightarrow> bytes" where
  "packet_nonce packet = drop (length packet - 8) packet"

definition v2_run :: "aead \<Rightarrow> bytes \<Rightarrow> bytes list \<Rightarrow> stream_state \<Rightarrow> bool" where
  "v2_run A key audio s \<longleftrightarrow> map (v2_open A key) (ss_sent s) = map Some audio
     \<and> (\<exists>ci. ss_protocol s = ProtocolV2 (Some ci) \<and> out_key ci = key \<and> layout ci = PaddedCounter
        \<and> (\<forall>packet \<in> set (ss_sent s). \<exists>n < unat (out_counter ci). packet_nonce packet = le_bytes 8 n)
        \<and> distinct (map packet_nonce (ss_sent s)))"

lemma encrypt_Ok:
  assumes "cipher_encrypt A data (Some aad) ci = (Ok ct, ci')"
  shows "aead_seal A (out_key ci) (out_nonce ci) data aad = Some ct"
    "unat (out_counter ci') = Suc (unat (out_counter ci))"
  using assms by (auto simp: cipher_encrypt_def Let_def seal_def payload_aad_def ok_or_Ok_iff next_counter_Ok unat_succ split: sum.splits)

lemma encrypt_keeps:
  assumes "cipher_encrypt A data aad ci = (r, ci')"
  shows "out_key ci' = out_key ci" "layout ci' = layout ci" "unat (out_counter ci) \<le> unat (out_counter ci')"
  using assms encrypt_counter [of A data aad ci] unat_succ [of "out_counter ci"] by (auto split: if_splits)

lemma v2_packet:
  assumes "audio_packet A h audio (ProtocolV2 (Some ci)) = (Ok packet, p)" "layout ci = PaddedCounter" "aead_ok A"
  shows "v2_open A (out_key ci) packet = Some audio" "packet_nonce packet = le_bytes 8 (unat (out_counter ci))"
    "\<exists>ci'. p = ProtocolV2 (Some ci') \<and> out_key ci' = out_key ci \<and> layout ci' = PaddedCounter \<and> unat (out_counter ci') = Suc (unat (out_counter ci))"
proof -
  from assms(1) obtain ct ci' where e: "cipher_encrypt A audio (Some (additional_data h)) ci = (Ok ct, ci')"
    and p: "p = ProtocolV2 (Some ci')" "packet = audio_header_encode h @ ct @ drop (length (out_nonce ci) - 8) (out_nonce ci)"
    by (auto simp: audio_packet_def v2_audio_packet_def Let_def split: prod.splits sum.splits)
  have n: "out_nonce ci = replicate 4 0 @ le_bytes 8 (unat (out_counter ci))"
    by (simp add: out_nonce_def assms(2) nonce_def NONCE_LENGTH_def)
  then have k: "packet = audio_header_encode h @ ct @ le_bytes 8 (unat (out_counter ci))" by (simp add: p(2))
  from encrypt_Ok(1) [OF e] assms(3) have "aead_open A (out_key ci) (out_nonce ci) ct (additional_data h) = Some audio"
    unfolding aead_ok_def by blast
  then show "v2_open A (out_key ci) packet = Some audio"
    by (simp add: v2_open_def k n additional_data_def)
  show "packet_nonce packet = le_bytes 8 (unat (out_counter ci))" by (simp add: packet_nonce_def k)
  show "\<exists>ci'. p = ProtocolV2 (Some ci') \<and> out_key ci' = out_key ci \<and> layout ci' = PaddedCounter \<and> unat (out_counter ci') = Suc (unat (out_counter ci))"
    using p(1) encrypt_keeps [OF e] encrypt_Ok(2) [OF e] assms(2) by auto
qed

lemma v2_refused:
  assumes "audio_packet A h audio (ProtocolV2 (Some ci)) = (x, p)"
  shows "\<exists>ci'. p = ProtocolV2 (Some ci') \<and> out_key ci' = out_key ci \<and> layout ci' = layout ci \<and> unat (out_counter ci) \<le> unat (out_counter ci')"
  using assms encrypt_keeps [of A audio "Some (additional_data h)" ci]
  by (auto simp: audio_packet_def v2_audio_packet_def Let_def split: prod.splits sum.splits)

lemma counter_inj:
  assumes "n < 2 ^ 64" "m < 2 ^ 64" "le_bytes 8 n = le_bytes 8 m"
  shows "n = m"
proof -
  have "le_nat (le_bytes 8 n) = n" "le_nat (le_bytes 8 m) = m" using assms(1,2) by (intro le_nat_le_bytes; simp)+
  with assms(3) show ?thesis by metis
qed

lemma v2_run_step:
  assumes "v2_run A key audio s" "aead_ok A"
    "audio_packet A (stream_header first s) (stream_frames s) (ss_protocol s) = (Ok packet, p)"
  shows "v2_run A key (audio @ [stream_frames s]) (after_packet packet p s)"
proof -
  from assms(1) obtain ci where ci: "ss_protocol s = ProtocolV2 (Some ci)" "out_key ci = key" "layout ci = PaddedCounter"
    and m: "map (v2_open A key) (ss_sent s) = map Some audio" "distinct (map packet_nonce (ss_sent s))"
    and b: "\<forall>q \<in> set (ss_sent s). \<exists>n < unat (out_counter ci). packet_nonce q = le_bytes 8 n"
    unfolding v2_run_def by blast
  note v = v2_packet [OF assms(3) [unfolded ci(1)] ci(3) assms(2)]
  from v(3) obtain ci' where ci': "p = ProtocolV2 (Some ci')" "out_key ci' = key" "layout ci' = PaddedCounter"
    "unat (out_counter ci') = Suc (unat (out_counter ci))" using ci(2) by blast
  have "packet_nonce packet \<notin> packet_nonce ` set (ss_sent s)"
  proof
    assume "packet_nonce packet \<in> packet_nonce ` set (ss_sent s)"
    then obtain q where q: "q \<in> set (ss_sent s)" "packet_nonce q = packet_nonce packet" by auto
    from b q(1) obtain n where n: "n < unat (out_counter ci)" "packet_nonce q = le_bytes 8 n" by blast
    then have e: "le_bytes 8 n = le_bytes 8 (unat (out_counter ci))" using q(2) v(2) by simp
    have "n < 2 ^ 64" "unat (out_counter ci) < 2 ^ 64" using n(1) unat_u64_bound [of "out_counter ci"] by simp_all
    from counter_inj [OF this e] n(1) show False by blast
  qed
  moreover have "\<forall>q \<in> set (ss_sent s @ [packet]). \<exists>n < unat (out_counter ci'). packet_nonce q = le_bytes 8 n"
    using b v(2) by (auto simp: ci'(4) less_Suc_eq)
  moreover have "ss_protocol (after_packet packet p s) = p" by (simp add: after_packet_def Let_def)
  moreover have "map (v2_open A key) (ss_sent s @ [packet]) = map Some (audio @ [stream_frames s])" using m(1) v(1) ci(2) by simp
  moreover have "distinct (map packet_nonce (ss_sent s @ [packet])) \<longleftrightarrow> packet_nonce packet \<notin> packet_nonce ` set (ss_sent s)"
    using m(2) by simp
  ultimately show ?thesis unfolding v2_run_def sent_grows(2)
    by (intro conjI exI [of _ ci']) (simp_all only: ci'(1-3) simp_thms)
qed

text \<open>
  Every packet of the second version opens by itself. Whatever was lost, repeated or reordered on the way,
  and however sends failed, a receiver that holds the stream's key opens each packet that was sent to the
  audio that went into it, from the packet alone; and no two packets were sealed under the same nonce.
\<close>

theorem v2_packets_open:
  assumes "stream_reaches A s0 audio s" and "aead_ok A" and "ss_sent s0 = []"
    and "ss_protocol s0 = ProtocolV2 (Some (with_padded_counter key key))"
  shows "map (v2_open A key) (ss_sent s) = map Some audio \<and> distinct (map packet_nonce (ss_sent s))"
proof -
  from assms(1) have "v2_run A key audio s"
  proof (induction rule: stream_reaches_inv)
    case start
    show ?case by (simp add: v2_run_def assms(3,4) with_padded_counter_def cipher_new_def)
  next
    case (failed audio s first x p)
    from failed(1) obtain ci where ci: "ss_protocol s = ProtocolV2 (Some ci)" "out_key ci = key" "layout ci = PaddedCounter"
      and b: "\<forall>q \<in> set (ss_sent s). \<exists>n < unat (out_counter ci). packet_nonce q = le_bytes 8 n"
      unfolding v2_run_def by blast
    from v2_refused [OF failed(2) [unfolded ci(1)]] obtain ci' where "p = ProtocolV2 (Some ci')" "out_key ci' = key"
      "layout ci' = PaddedCounter" "unat (out_counter ci) \<le> unat (out_counter ci')" using ci(2,3) by auto
    moreover from this b have "\<forall>q \<in> set (ss_sent s). \<exists>n < unat (out_counter ci'). packet_nonce q = le_bytes 8 n"
      by (meson order_less_le_trans)
    ultimately show ?case using failed(1) by (auto simp: v2_run_def)
  next
    case (sent audio s first packet p)
    then show ?case by (intro v2_run_step assms(2))
  qed
  then show ?thesis unfolding v2_run_def by blast
qed

section \<open>Examples\<close>

definition demo_stream :: "stream_protocol \<Rightarrow> stream_state" where
  "demo_stream p = \<lparr>ss_context = context_reset 0xFFFF 0 context_default,
     ss_source = source_from_pcm [1, 2] \<lparr>pcm_sample_rate = 44100, pcm_channels = 2, pcm_bytes_per_sample = 2\<rparr>,
     ss_protocol = p, ss_backlog = Some (fifo_new PACKET_BACKLOG_SIZE), ss_sent = []\<rparr>"

lemma demo_padding: "\<not> padding_complete (ss_context (demo_stream p))"
  by (simp add: demo_stream_def context_reset_def context_default_def padding_complete_def latency_for_def
      audio_properties_default_def Let_def)

lemma demo_run:
  assumes "audio_packet A (stream_header True (demo_stream p)) (stream_frames (demo_stream p)) p = (Ok packet, p')"
  shows "stream_reaches A (demo_stream p) [stream_frames (demo_stream p)] (after_packet packet p' (demo_stream p))"
proof -
  have "ss_protocol (demo_stream p) = p" by (simp add: demo_stream_def)
  with assms demo_padding have "send_packet A None True (demo_stream p) = (Ok (frames_counted (demo_stream p)), after_packet packet p' (demo_stream p))"
    by (simp add: send_packet_eq)
  from stream_sends [OF stream_started this] show ?thesis by simp
qed

lemmas demo_run_v1 = demo_run [of toy_aead ProtocolV1, unfolded audio_packet_def stream_protocol.case, OF refl]

lemma demo_start [simp]:
  "ss_sent (demo_stream p) = []" "ss_protocol (demo_stream p) = p"
  "ss_backlog (demo_stream p) = Some (fifo_new PACKET_BACKLOG_SIZE)" "ss_context (demo_stream p) = context_reset 0xFFFF 0 context_default"
  by (simp_all add: demo_stream_def)

lemma packets_continuous_witness:
  "\<exists>audio s first. stream_reaches toy_aead (demo_stream ProtocolV1) audio s \<and> length (ss_sent s) = 1
    \<and> take 12 (ss_sent s ! 0) = audio_header_encode (audio_header_new first 0xFFFF 66150 0)"
proof -
  let ?s = "after_packet (v1_audio_packet (audio_header_encode (stream_header True (demo_stream ProtocolV1)))
      (stream_frames (demo_stream ProtocolV1))) ProtocolV1 (demo_stream ProtocolV1)"
  have "0 < context_frame_size context_default" "unat (ntp2ts 0 (ap_sample_rate (sc_audio context_default))) + 352 * length (ss_sent ?s) < 2 ^ 64"
    "0 < length (ss_sent ?s)"
    by (simp_all add: context_default_def context_frame_size_def audio_properties_default_def ntp2ts_def)
  from packets_continuous [OF demo_run_v1 demo_start(1,4) this] demo_run_v1 show ?thesis
    by (intro exI [of _ "[stream_frames (demo_stream ProtocolV1)]"] exI [of _ ?s])
      (auto simp: context_default_def latency_for_def audio_properties_default_def)
qed

lemma demo_backlog:
  assumes "stream_reaches A (demo_stream p) audio s"
  shows "\<exists>backlog. ss_backlog s = Some backlog"
  using run_backlog [OF assms] by (auto simp: demo_stream_def)

lemma lost_packets_resent_witness:
  "\<exists>audio s backlog. stream_reaches toy_aead (demo_stream ProtocolV1) audio s \<and> ss_backlog s = Some backlog
    \<and> control_received backlog (7 :: nat) (7, 6001) (retransmit_encode \<lparr>rr_header = \<lparr>rh_proto = 0x80, rh_type = 0xD5, rh_seqno = 1\<rparr>,
        rr_lost_seqno = 0xFFFF, rr_lost_packets = 1\<rparr>) = [resent (ss_sent s ! 0)]"
proof -
  let ?s = "after_packet (v1_audio_packet (audio_header_encode (stream_header True (demo_stream ProtocolV1)))
      (stream_frames (demo_stream ProtocolV1))) ProtocolV1 (demo_stream ProtocolV1)"
  let ?r = "\<lparr>rr_header = \<lparr>rh_proto = 0x80, rh_type = 0xD5, rh_seqno = 1\<rparr>, rr_lost_seqno = 0xFFFF, rr_lost_packets = 1\<rparr>"
  obtain backlog where b: "ss_backlog ?s = Some backlog" using demo_backlog [OF demo_run_v1] by blast
  have "masked_type (rr_header ?r) = PAYLOAD_TYPE_RETRANSMIT_REQUEST"
    "rr_lost_seqno ?r = sc_rtpseq (ss_context (demo_stream ProtocolV1)) + word_of_nat 0"
    "0 + unat (rr_lost_packets ?r) \<le> length (ss_sent ?s)" "length (ss_sent ?s) \<le> 0 + PACKET_BACKLOG_SIZE"
    by (simp_all add: PACKET_BACKLOG_SIZE_def masked_type_def PAYLOAD_TYPE_RETRANSMIT_REQUEST_def context_reset_def Let_def)
  from lost_packets_resent [OF demo_run_v1 demo_start(1,3) b _ this, of "(7, 6001)" 7] demo_run_v1 b show ?thesis
    by (intro exI [of _ "[stream_frames (demo_stream ProtocolV1)]"] exI [of _ ?s] exI [of _ backlog]) simp
qed

lemma control_answers_bounded_witness:
  "\<exists>backlog. ss_backlog (demo_stream ProtocolV1) = Some backlog \<and> length (control_received backlog (7 :: nat) (7, 6001) [0x80, 0x55]) \<le> 1000"
proof -
  obtain backlog where b: "ss_backlog (demo_stream ProtocolV1) = Some backlog"
    using demo_backlog [OF stream_started] by blast
  from control_answers_bounded [OF stream_started demo_start(1,3) b, of "(7, 6001)" 7 "[0x80, 0x55]"]
  have "length (control_received backlog (7 :: nat) (7, 6001) [0x80, 0x55]) \<le> 1000" by blast
  with b show ?thesis by (intro exI [of _ backlog] conjI)
qed

lemma v2_packets_open_witness:
  "\<exists>audio (s :: stream_state). length (ss_sent s) = 1 \<and> map (v2_open toy_aead [1]) (ss_sent s) = map Some audio"
proof -
  let ?p = "ProtocolV2 (Some (with_padded_counter [1] [1]))"
  have "\<exists>packet p'. audio_packet toy_aead (stream_header True (demo_stream ?p)) (stream_frames (demo_stream ?p)) ?p = (Ok packet, p')"
    by (simp add: audio_packet_def v2_audio_packet_def cipher_encrypt_def with_padded_counter_def cipher_new_def
        next_counter_def seal_def toy_aead_def Let_def)
  then obtain packet p' where "audio_packet toy_aead (stream_header True (demo_stream ?p)) (stream_frames (demo_stream ?p)) ?p = (Ok packet, p')"
    by blast
  from v2_packets_open [OF demo_run [OF this] toy_aead_ok demo_start(1,2)]
  have "map (v2_open toy_aead [1]) (ss_sent (after_packet packet p' (demo_stream ?p))) = map Some [stream_frames (demo_stream ?p)]" ..
  moreover have "length (ss_sent (after_packet packet p' (demo_stream ?p))) = 1" by simp
  ultimately show ?thesis by blast
qed

end
