(* ===== verification/Raop_Ending.thy ===== *)
theory Raop_Ending
  imports Raop_Receiver
begin

text \<open>
  A stream over sockets that work ends by itself, after exactly the packets its audio and the latency take,
  and what went out is the audio followed by silence.
\<close>

section \<open>Counting packets\<close>

definition ceil_div :: "nat \<Rightarrow> nat \<Rightarrow> nat" where
  "ceil_div n b = (n + b - 1) div b"

lemma ceil_div_0 [simp]: "0 < b \<Longrightarrow> ceil_div 0 b = 0"
  by (simp add: ceil_div_def)

lemma ceil_div_pos: "0 < b \<Longrightarrow> ceil_div n b = 0 \<longleftrightarrow> n = 0"
  by (auto simp: ceil_div_def div_eq_0_iff)

lemma ceil_div_step: "0 < b \<Longrightarrow> ceil_div (n - b) b = ceil_div n b - 1"
proof (cases "n \<le> b")
  case True
  assume b: "0 < b"
  show ?thesis
  proof (cases "n = 0")
    case False
    with True b have "(n + b - 1) div b = 1" by (intro div_nat_eqI) auto
    with True b show ?thesis by (simp add: ceil_div_def)
  qed (use b in simp)
next
  case False
  assume b: "0 < b"
  from False have e: "n + b - 1 = (n - b + b - 1) + b" by simp
  have "ceil_div n b = ((n - b + b - 1) + b) div b" unfolding ceil_div_def by (rule arg_cong [OF e])
  also have "\<dots> = Suc (ceil_div (n - b) b)" using b by (simp only: ceil_div_def div_add_self2)
  finally show ?thesis by simp
qed

definition audio_left :: "stream_state \<Rightarrow> nat" where
  "audio_left s = length (as_samples (ss_source s)) - as_position (ss_source s)"

definition packets_left :: "stream_state \<Rightarrow> nat" where
  "packets_left s = ceil_div (audio_left s) (packet_size (ss_context s))
     + ceil_div (unat (sc_latency (ss_context s)) - unat (sc_padding_sent (ss_context s))) 352"

text \<open>
  A plain stream in progress: the source is in the format of the session, the padding has not begun before the
  audio is out, and what went out is the audio read so far, filled up only at its end.
\<close>

definition sound_stream :: "stream_state \<Rightarrow> bool" where
  "sound_stream s \<longleftrightarrow> ss_protocol s = ProtocolV1 \<and> 0 < context_frame_size (ss_context s)
     \<and> pcm_frame_size (as_format (ss_source s)) = context_frame_size (ss_context s)
     \<and> as_position (ss_source s) \<le> length (as_samples (ss_source s))
     \<and> 0 < sc_latency (ss_context s) \<and> unat (sc_latency (ss_context s)) + 352 \<le> 2 ^ 32
     \<and> unat (sc_padding_sent (ss_context s)) < unat (sc_latency (ss_context s)) + 352
     \<and> (0 < audio_left s \<longrightarrow> sc_padding_sent (ss_context s) = 0)
     \<and> (\<exists>z. concat (map (drop 12) (ss_sent s)) = take (as_position (ss_source s)) (as_samples (ss_source s)) @ replicate z 0
          \<and> (0 < audio_left s \<longrightarrow> z = 0))
     \<and> (\<forall>packet \<in> set (ss_sent s). length (drop 12 packet) = packet_size (ss_context s))"

lemma source_size: "sound_stream s \<Longrightarrow> FRAMES_PER_PACKET * source_frame_size (ss_source s) = packet_size (ss_context s)"
  by (simp add: sound_stream_def source_frame_size_def packet_size_def)

lemma sound_read:
  assumes "sound_stream s"
  shows "fst (read_frames FRAMES_PER_PACKET (ss_source s))
      = take (packet_size (ss_context s)) (drop (as_position (ss_source s)) (as_samples (ss_source s)))"
    "snd (read_frames FRAMES_PER_PACKET (ss_source s)) = (ss_source s)\<lparr>as_position :=
      min (as_position (ss_source s) + packet_size (ss_context s)) (length (as_samples (ss_source s)))\<rparr>"
proof -
  let ?p = "as_position (ss_source s)" and ?xs = "as_samples (ss_source s)" and ?n = "packet_size (ss_context s)"
  have "take (min (?p + ?n) (length ?xs) - ?p) (drop ?p ?xs) = take ?n (drop ?p ?xs)"
    by (cases "?p + ?n \<le> length ?xs") (simp_all add: min_def)
  then show "fst (read_frames FRAMES_PER_PACKET (ss_source s)) = take ?n (drop ?p ?xs)"
    by (simp add: read_frames_def Let_def source_size [OF assms])
  show "snd (read_frames FRAMES_PER_PACKET (ss_source s)) = (ss_source s)\<lparr>as_position := min (?p + ?n) (length ?xs)\<rparr>"
    by (simp add: read_frames_def Let_def source_size [OF assms])
qed

lemma packet_size_pos: "sound_stream s \<Longrightarrow> 0 < packet_size (ss_context s)"
  by (simp add: sound_stream_def packet_size_def FRAMES_PER_PACKET_def)

lemma padding_complete_iff:
  assumes "sound_stream s"
  shows "padding_complete (ss_context s) \<longleftrightarrow> packets_left s = 0"
proof -
  let ?c = "ss_context s"
  have "padding_complete ?c \<longleftrightarrow> unat (sc_latency ?c) - unat (sc_padding_sent ?c) = 0"
    by (auto simp: padding_complete_def word_le_nat_alt)
  moreover have "0 < audio_left s \<Longrightarrow> unat (sc_latency ?c) - unat (sc_padding_sent ?c) \<noteq> 0"
    using assms by (auto simp: sound_stream_def word_less_nat_alt)
  ultimately show ?thesis
    by (auto simp: packets_left_def ceil_div_pos packet_size_pos [OF assms])
qed

text \<open>One packet of it.\<close>

definition v1_sent :: "bool \<Rightarrow> stream_state \<Rightarrow> stream_state" where
  "v1_sent first s = after_packet (v1_audio_packet (audio_header_encode (stream_header first s)) (stream_frames s)) ProtocolV1 s"

lemma sound_send:
  assumes "sound_stream s"
  shows "send_packet A None first s = (if packets_left s = 0 then (Ok 0, s) else (Ok 352, v1_sent first s))"
  using assms padding_complete_iff [OF assms] frames_counted_full [of s]
  by (simp add: send_packet_eq sound_stream_def audio_packet_def v1_sent_def)

lemma unat_pad: "unat (p :: u32) < m \<Longrightarrow> m + 352 \<le> 2 ^ 32 \<Longrightarrow> unat (p + 352) = unat p + 352"
  using unat_add_lem [of p 352] by simp

lemma v1_sent_simps:
  assumes "sound_stream s"
  shows "ss_protocol (v1_sent first s) = ProtocolV1" "sc_audio (ss_context (v1_sent first s)) = sc_audio (ss_context s)"
    "sc_latency (ss_context (v1_sent first s)) = sc_latency (ss_context s)"
    "as_format (ss_source (v1_sent first s)) = as_format (ss_source s)" "as_samples (ss_source (v1_sent first s)) = as_samples (ss_source s)"
    "as_position (ss_source (v1_sent first s)) = min (as_position (ss_source s) + packet_size (ss_context s)) (length (as_samples (ss_source s)))"
    "ss_sent (v1_sent first s) = ss_sent s @ [v1_audio_packet (audio_header_encode (stream_header first s)) (stream_frames s)]"
    "sc_padding_sent (ss_context (v1_sent first s)) = (if audio_left s = 0 then sc_padding_sent (ss_context s) + 352 else sc_padding_sent (ss_context s))"
  using assms packet_size_pos [OF assms]
  by (auto simp: v1_sent_def after_packet_def context_advance_def Let_def sound_read [OF assms] audio_left_def
      frames_counted_full sound_stream_def)

lemma sizes_kept:
  assumes "sound_stream s"
  shows "context_frame_size (ss_context (v1_sent first s)) = context_frame_size (ss_context s)"
    "packet_size (ss_context (v1_sent first s)) = packet_size (ss_context s)"
  by (simp_all add: context_frame_size_def packet_size_def v1_sent_simps [OF assms])

lemma audio_left_sent: "sound_stream s \<Longrightarrow> audio_left (v1_sent first s) = audio_left s - packet_size (ss_context s)"
  by (simp add: audio_left_def v1_sent_simps min_def)

text \<open>What the packet carries, after what the others carried.\<close>

lemma stream_frames_sound:
  assumes "sound_stream s"
  shows "stream_frames s = take (packet_size (ss_context s)) (drop (as_position (ss_source s)) (as_samples (ss_source s)))
    @ replicate (packet_size (ss_context s) - audio_left s) 0"
  using packet_size_pos [OF assms]
  by (auto simp: stream_frames_def sound_read [OF assms] Let_def resize_zero_def audio_left_def min_def)

lemma sent_content:
  assumes "sound_stream s"
  shows "\<exists>z. concat (map (drop 12) (ss_sent (v1_sent first s)))
      = take (as_position (ss_source (v1_sent first s))) (as_samples (ss_source s)) @ replicate z 0
    \<and> (0 < audio_left (v1_sent first s) \<longrightarrow> z = 0)"
proof -
  let ?p = "as_position (ss_source s)" and ?xs = "as_samples (ss_source s)" and ?n = "packet_size (ss_context s)"
  from assms obtain z where z: "concat (map (drop 12) (ss_sent s)) = take ?p ?xs @ replicate z 0" "0 < audio_left s \<longrightarrow> z = 0"
    by (auto simp: sound_stream_def)
  have c: "concat (map (drop 12) (ss_sent (v1_sent first s))) = take ?p ?xs @ replicate z 0 @ stream_frames s"
    by (simp add: v1_sent_simps [OF assms] z(1) v1_audio_packet_def)
  have f: "stream_frames s = take ?n (drop ?p ?xs) @ replicate (?n - audio_left s) 0"
    by (rule stream_frames_sound [OF assms])
  have pos: "as_position (ss_source (v1_sent first s)) = min (?p + ?n) (length ?xs)" by (rule v1_sent_simps(6) [OF assms])
  show ?thesis
  proof (cases "audio_left s = 0")
    case True
    then have p: "?p = length ?xs" using assms by (simp add: audio_left_def sound_stream_def)
    have "stream_frames s = replicate ?n 0" by (simp add: f p True)
    then have "concat (map (drop 12) (ss_sent (v1_sent first s))) = ?xs @ replicate (z + ?n) 0"
      by (simp only: c p replicate_add take_all order_refl)
    moreover have "as_position (ss_source (v1_sent first s)) = length ?xs" by (simp only: pos p min_def) simp
    moreover have "audio_left (v1_sent first s) = 0" by (simp add: audio_left_sent [OF assms] True)
    ultimately show ?thesis by (intro exI [of _ "z + ?n"]) simp
  next
    case False
    with z have "z = 0" by simp
    then have "concat (map (drop 12) (ss_sent (v1_sent first s))) = take (?p + ?n) ?xs @ replicate (?n - audio_left s) 0"
      by (simp only: c f take_add replicate_0 append_assoc append_Nil)
    moreover have "take (min (?p + ?n) (length ?xs)) ?xs = take (?p + ?n) ?xs" by (simp add: min_def)
    ultimately show ?thesis
      by (intro exI [of _ "?n - audio_left s"]) (simp add: pos audio_left_sent [OF assms])
  qed
qed

lemma sound_sent:
  assumes "sound_stream s" "packets_left s \<noteq> 0"
  shows "sound_stream (v1_sent first s)"
proof -
  let ?c = "ss_context s"
  have p: "unat (sc_padding_sent ?c) < unat (sc_latency ?c)"
    using padding_complete_iff [OF assms(1)] assms(2) by (simp add: padding_complete_def word_le_nat_alt)
  moreover have l: "unat (sc_latency ?c) + 352 \<le> 2 ^ 32" "0 < sc_latency ?c" using assms(1) by (simp_all add: sound_stream_def)
  ultimately have "unat (sc_padding_sent (ss_context (v1_sent first s))) < unat (sc_latency ?c) + 352"
    using unat_pad by (simp add: v1_sent_simps [OF assms(1)])
  moreover have "0 < audio_left (v1_sent first s) \<Longrightarrow> sc_padding_sent (ss_context (v1_sent first s)) = 0"
    using assms(1) by (simp add: audio_left_sent [OF assms(1)] v1_sent_simps [OF assms(1)] sound_stream_def)
  moreover have "\<forall>packet \<in> set (ss_sent (v1_sent first s)). length (drop 12 packet) = packet_size ?c"
    using assms(1) by (simp add: v1_sent_simps [OF assms(1)] sound_stream_def v1_audio_packet_def)
  ultimately show ?thesis
    using assms(1) l sent_content [OF assms(1), of first] unfolding sound_stream_def [of "v1_sent first s"]
    by (simp add: v1_sent_simps [OF assms(1)] sizes_kept [OF assms(1)] sound_stream_def [of s])
qed

lemma left_sent:
  assumes "sound_stream s" "packets_left s \<noteq> 0"
  shows "packets_left s = Suc (packets_left (v1_sent first s))"
proof -
  let ?c = "ss_context s"
  have p: "unat (sc_padding_sent ?c) < unat (sc_latency ?c)"
    using padding_complete_iff [OF assms(1)] assms(2) by (simp add: padding_complete_def word_le_nat_alt)
  have u: "unat (sc_padding_sent ?c + 352) = unat (sc_padding_sent ?c) + 352"
    using assms(1) by (intro unat_pad [OF p]) (simp add: sound_stream_def)
  show ?thesis
  proof (cases "audio_left s = 0")
    case True
    let ?l = "unat (sc_latency ?c) - unat (sc_padding_sent ?c)"
    from p have "ceil_div ?l 352 \<noteq> 0" by (simp add: ceil_div_pos)
    moreover have "ceil_div (?l - 352) 352 = ceil_div ?l 352 - 1" by (rule ceil_div_step) simp
    ultimately show ?thesis
      using True by (simp add: packets_left_def audio_left_sent [OF assms(1)] v1_sent_simps [OF assms(1)] sizes_kept [OF assms(1)] u
          packet_size_pos [OF assms(1)])
  next
    case False
    then have "ceil_div (audio_left s) (packet_size ?c) \<noteq> 0" by (simp add: ceil_div_pos packet_size_pos [OF assms(1)])
    with False ceil_div_step [OF packet_size_pos [OF assms(1)], of "audio_left s"] show ?thesis
      by (simp add: packets_left_def audio_left_sent [OF assms(1)] v1_sent_simps [OF assms(1)] sizes_kept [OF assms(1)])
  qed
qed

section \<open>The loop\<close>

text \<open>The environment of a stream nothing stops: no send fails, and it stays playing.\<close>

definition undisturbed :: "turn_env \<Rightarrow> bool" where
  "undisturbed env \<longleftrightarrow> te_playing env \<and> te_send env = None \<and> list_all (\<lambda>io. io = None) (te_sends env)"

text \<open>What stays true of such a stream: it is sound, and its source, format and packet count in all are the same.\<close>

definition same_stream :: "stream_state \<Rightarrow> stream_state \<Rightarrow> bool" where
  "same_stream s s' \<longleftrightarrow> sound_stream s' \<and> as_samples (ss_source s') = as_samples (ss_source s)
     \<and> packet_size (ss_context s') = packet_size (ss_context s)
     \<and> length (ss_sent s') + packets_left s' = length (ss_sent s) + packets_left s"

lemma same_stream_trans: "same_stream s s1 \<Longrightarrow> same_stream s1 s2 \<Longrightarrow> same_stream s s2"
  by (simp add: same_stream_def)

lemma same_sent: "sound_stream s \<Longrightarrow> packets_left s \<noteq> 0 \<Longrightarrow> same_stream s (v1_sent first s)"
  using left_sent [of s first] by (simp add: same_stream_def sound_sent sizes_kept v1_sent_simps)

lemma compensate_sound:
  "sound_stream s \<Longrightarrow> list_all (\<lambda>io. io = None) ios \<Longrightarrow>
   \<exists>b st' s'. compensate A ios k st s = (Ok b, st', s') \<and> same_stream s s' \<and> packets_left s' \<le> packets_left s
     \<and> (b \<longrightarrow> packets_left s' = 0)"
proof (induction k arbitrary: ios st s)
  case 0
  then show ?case by (intro exI [of _ False] exI [of _ st] exI [of _ s]) (simp add: same_stream_def)
next
  case (Suc k)
  have io: "(case ios of [] \<Rightarrow> None | io # _ \<Rightarrow> io) = None" "list_all (\<lambda>io. io = None) (tl ios)"
    using Suc.prems(2) by (cases ios; simp)+
  show ?case
  proof (cases "packets_left s = 0")
    case True
    with Suc.prems(1) show ?thesis
      by (intro exI [of _ True] exI [of _ "stats_tick 0 st"] exI [of _ s]) (simp add: io sound_send same_stream_def Let_def)
  next
    case False
    let ?s = "v1_sent False s"
    from Suc.IH [OF sound_sent [OF Suc.prems(1) False, of False] io(2), of "stats_tick 352 st"] obtain b st' s' where
      "compensate A (tl ios) k (stats_tick 352 st) ?s = (Ok b, st', s')" "same_stream ?s s'" "packets_left s' \<le> packets_left ?s"
      "b \<longrightarrow> packets_left s' = 0" by blast
    with False same_sent [OF Suc.prems(1) False, of False] left_sent [OF Suc.prems(1) False, of False] show ?thesis
      by (auto simp: io sound_send [OF Suc.prems(1)] Let_def intro: same_stream_trans)
  qed
qed

lemma turn_sound:
  assumes "sound_stream s" "undisturbed env"
  shows "\<exists>r st' slow' s'. stream_turn A env (st, slow, s) = (r, st', slow', s') \<and> same_stream s s'
    \<and> (r = TurnExhausted \<and> packets_left s' = 0 \<or> (\<exists>d w. r = TurnGoesOn d w) \<and> packets_left s' < packets_left s)"
proof (cases "packets_left s = 0")
  case True
  with assms show ?thesis by (simp add: stream_turn_def undisturbed_def sound_send same_stream_def Let_def)
next
  case False
  let ?first = "st_total_frames st = 0"
  let ?s = "v1_sent ?first s" and ?st = "stats_tick 352 st"
  from assms(2) have io: "list_all (\<lambda>io. io = None) (te_sends env)" by (simp add: undisturbed_def)
  from compensate_sound [OF sound_sent [OF assms(1) False, of ?first] io, of A "compensation_packets (te_behind env) ?st" ?st]
  obtain b st' s' where c: "compensate A (te_sends env) (compensation_packets (te_behind env) ?st) ?st ?s = (Ok b, st', s')"
    "same_stream ?s s'" "packets_left s' \<le> packets_left ?s" "b \<longrightarrow> packets_left s' = 0" by blast
  have "same_stream s s'" using same_stream_trans same_sent [OF assms(1) False] c(2) by blast
  moreover have "packets_left s' < packets_left s" using left_sent [OF assms(1) False, of ?first] c(3) by simp
  ultimately show ?thesis
    using assms False c by (cases b) (auto simp: stream_turn_def undisturbed_def sound_send Let_def split: option.splits prod.splits)
qed

lemma turns_sound:
  "sound_stream s \<Longrightarrow> list_all undisturbed envs \<Longrightarrow> packets_left s < length envs \<Longrightarrow>
   \<exists>s'. stream_turns A envs (st, slow, s) = (Some TurnExhausted, s') \<and> same_stream s s' \<and> packets_left s' = 0"
proof (induction envs arbitrary: st slow s)
  case (Cons env envs)
  from Cons.prems(2) have u: "undisturbed env" "list_all undisturbed envs" by simp_all
  from turn_sound [OF Cons.prems(1) u(1), of A st slow] obtain r st' slow' s' where
    t: "stream_turn A env (st, slow, s) = (r, st', slow', s')" "same_stream s s'"
    and r: "r = TurnExhausted \<and> packets_left s' = 0 \<or> (\<exists>d w. r = TurnGoesOn d w) \<and> packets_left s' < packets_left s" by blast
  from r show ?case
  proof
    assume "r = TurnExhausted \<and> packets_left s' = 0"
    with t show ?thesis by simp
  next
    assume g: "(\<exists>d w. r = TurnGoesOn d w) \<and> packets_left s' < packets_left s"
    with Cons.prems(3) have "packets_left s' < length envs" by simp
    from Cons.IH [OF _ u(2) this, of st' slow'] t(2) obtain s'' where
      "stream_turns A envs (st', slow', s') = (Some TurnExhausted, s'')" "same_stream s' s''" "packets_left s'' = 0"
      by (auto simp: same_stream_def)
    with g t show ?thesis by (auto intro: same_stream_trans)
  qed
qed simp

lemma length_concat_same: "\<forall>x \<in> set xs. length (f x) = n \<Longrightarrow> length (concat (map f xs)) = n * length xs"
  by (induction xs) simp_all

text \<open>
  C29: A stream ends, and it plays everything. When no send fails and nobody stops it, the pacing loop of a plain
  stream returns without an error once it has had one turn more than there are packets to send, whatever the
  clock reads; it has then sent exactly the packets the audio takes and the packets of silence the latency
  takes, and their payloads are the audio followed by zeros.
\<close>

theorem stream_ends:
  assumes "sound_stream s" and "ss_sent s = []" and "as_position (ss_source s) = 0" and "sc_padding_sent (ss_context s) = 0"
    and "list_all undisturbed envs"
    and "ceil_div (length (as_samples (ss_source s))) (packet_size (ss_context s))
      + ceil_div (unat (sc_latency (ss_context s))) 352 < length envs"
  shows "\<exists>s'. stream_data A now envs s = (Some (Ok ()), s')
    \<and> length (ss_sent s') = ceil_div (length (as_samples (ss_source s))) (packet_size (ss_context s))
        + ceil_div (unat (sc_latency (ss_context s))) 352
    \<and> concat (map (drop 12) (ss_sent s')) = as_samples (ss_source s)
        @ replicate (packet_size (ss_context s) * length (ss_sent s') - length (as_samples (ss_source s))) 0"
proof -
  have l: "packets_left s = ceil_div (length (as_samples (ss_source s))) (packet_size (ss_context s))
      + ceil_div (unat (sc_latency (ss_context s))) 352" by (simp add: packets_left_def audio_left_def assms(3,4))
  let ?st = "statistics_new (ap_sample_rate (sc_audio (ss_context s))) now"
  from turns_sound [OF assms(1,5) assms(6) [folded l], of A ?st slow_default] obtain s' where
    t: "stream_turns A envs (?st, slow_default, s) = (Some TurnExhausted, s')" "same_stream s s'" "packets_left s' = 0" by blast
  from t(2) have k: "sound_stream s'" "as_samples (ss_source s') = as_samples (ss_source s)"
    "packet_size (ss_context s') = packet_size (ss_context s)" and n: "length (ss_sent s') = packets_left s"
    using t(3) assms(2) by (simp_all add: same_stream_def)
  from t(3) have "audio_left s' = 0" by (simp add: packets_left_def ceil_div_pos packet_size_pos [OF k(1)])
  then have "as_position (ss_source s') = length (as_samples (ss_source s))"
    using k by (simp add: audio_left_def sound_stream_def)
  with k obtain z where c: "concat (map (drop 12) (ss_sent s')) = as_samples (ss_source s) @ replicate z 0"
    unfolding sound_stream_def by auto
  have sz: "\<forall>packet \<in> set (ss_sent s'). length (drop 12 packet) = packet_size (ss_context s)" using k by (simp add: sound_stream_def)
  then have "length (concat (map (drop 12) (ss_sent s'))) = packet_size (ss_context s) * length (ss_sent s')"
    by (rule length_concat_same)
  with c have "z = packet_size (ss_context s) * length (ss_sent s') - length (as_samples (ss_source s))" by simp
  then show ?thesis using t(1) c n l by (simp add: stream_data_def)
qed

lemma demo_sound: "sound_stream (demo_stream ProtocolV1)"
  by (simp add: sound_stream_def audio_left_def demo_stream_def context_reset_def context_default_def latency_for_def
      audio_properties_default_def context_frame_size_def pcm_frame_size_def source_from_pcm_def Let_def)

definition calm_turn :: turn_env where
  "calm_turn = \<lparr>te_playing = True, te_send = None, te_behind = 0, te_sends = [], te_interval = 0, te_sleep = 0\<rparr>"

lemma stream_ends_witness:
  "\<exists>s'. stream_data toy_aead 0 (replicate 190 calm_turn) (demo_stream ProtocolV1) = (Some (Ok ()), s') \<and> length (ss_sent s') = 189"
proof -
  have "as_position (ss_source (demo_stream ProtocolV1)) = 0" "sc_padding_sent (ss_context (demo_stream ProtocolV1)) = 0"
    "list_all undisturbed (replicate 190 calm_turn)"
    "ceil_div (length (as_samples (ss_source (demo_stream ProtocolV1)))) (packet_size (ss_context (demo_stream ProtocolV1))) = 1"
    "ceil_div (unat (sc_latency (ss_context (demo_stream ProtocolV1)))) 352 = 188"
    by (simp_all add: demo_stream_def source_from_pcm_def context_reset_def Let_def undisturbed_def calm_turn_def list_all_iff
        ceil_div_def packet_size_def context_frame_size_def context_default_def audio_properties_default_def FRAMES_PER_PACKET_def
        latency_for_def)
  with stream_ends [OF demo_sound demo_start(1), of "replicate 190 calm_turn" toy_aead 0] show ?thesis by auto
qed

text \<open>
  The latency is the sum of 22050 and the receiver's sample rate in 32 bits. A rate of 2^32 - 22050 wraps it to
  zero, and the stream is over before its first packet, as a success.
\<close>

lemma wrapped_latency_plays_nothing:
  assumes "ss_context s = context_reset seq now c" "ap_sample_rate (sc_audio c) = 4294945246" "te_playing env"
  shows "stream_data A start (env # envs) s = (Some (Ok ()), s)"
  using assms by (simp add: stream_data_def stream_turn_def send_packet_eq padding_complete_def context_reset_def latency_for_def Let_def)

end
