(* ===== verification/Data_Payload.thy ===== *)
theory Data_Payload
  imports Mrp_Varint Airplay_Error
begin

text \<open>
  What travels in the \<open>data\<close> field of the AirPlay 2 data stream: messages behind their lengths
  (\<open>pyatv-proto-airplay\<close>: \<open>ap2/data_stream/payload.rs\<close>), and the copy of the same framing that the
  MRP tunnel keeps (\<open>pyatv-proto-mrp\<close>: \<open>transport/tunnel.rs\<close>). The binary property list of the
  \<open>plist\<close> crate is a parameter, with the law that it reads what it wrote.
\<close>

unbundle bit_operations_syntax

section \<open>Varints\<close>

definition AP_VARINT_MAX_LEN :: nat where "AP_VARINT_MAX_LEN = 10"
definition MAX_MESSAGE_LEN :: nat where "MAX_MESSAGE_LEN = 8 * 1024 * 1024"
definition PROTOCOL_MESSAGE_TAG :: u8 where "PROTOCOL_MESSAGE_TAG = 0x08"

function write_groups :: "u64 \<Rightarrow> bytes \<Rightarrow> bytes" where
  "write_groups v out =
     (let group = ucast (v AND 0x7F) :: u8; remaining = drop_bit 7 v in
      if remaining = 0 then out @ [group] else write_groups remaining (out @ [group OR 0x80]))"
  by pat_completeness auto
termination
proof (relation "measure (unat o fst)", simp, clarify)
  fix v :: u64 and out
  assume "drop_bit 7 v \<noteq> 0"
  then have "unat v div 128 \<noteq> 0" by (simp add: word_unat_eq_iff unat_drop7)
  then show "((drop_bit 7 v, out @ [(ucast (v AND 0x7F) :: u8) OR 0x80]), v, out) \<in> measure (unat o fst)"
    by (simp add: unat_drop7)
qed

declare write_groups.simps [simp del]

definition write_variant :: "u64 \<Rightarrow> bytes" where
  "write_variant v = write_groups v []"

text \<open>The loop over the enumerated bytes; \<open>wrapping_shl\<close> takes its amount modulo the width.\<close>

fun read_groups :: "(nat \<times> u8) list \<Rightarrow> u64 \<Rightarrow> (u64 \<times> nat) option" where
  "read_groups [] result = None"
| "read_groups ((index, byte) # rest) result =
     (let result = result OR push_bit ((7 * index) mod 64) (ucast (byte AND 0x7F)) in
      if byte AND 0x80 = 0 then Some (result, index + 1) else read_groups rest result)"

definition read_variant :: "bytes \<Rightarrow> airplay_error + u64 \<times> nat" where
  "read_variant input =
     (case read_groups (enumerate 0 (take AP_VARINT_MAX_LEN input)) 0 of
        Some r \<Rightarrow> Ok r
      | None \<Rightarrow> Err (AMalformed (if length input < AP_VARINT_MAX_LEN
          then lit ''varint truncated after '' @ decimal (length input) @ lit '' bytes''
          else lit ''varint longer than '' @ decimal AP_VARINT_MAX_LEN @ lit '' bytes'')))"

section \<open>Messages\<close>

definition encode_messages :: "bytes list \<Rightarrow> bytes" where
  "encode_messages messages = concat (map (\<lambda>m. write_variant (word_of_nat (length m)) @ m) messages)"

text \<open>The first message of \<open>rest\<close>, and what is left.\<close>

definition take_message :: "bytes \<Rightarrow> airplay_error + bytes \<times> bytes" where
  "take_message rest =
     (if get_at rest 0 = Some PROTOCOL_MESSAGE_TAG then Ok (rest, [])
      else rbind (read_variant rest) (\<lambda>(len, consumed).
        if unat len > MAX_MESSAGE_LEN
        then Err (AMalformed (lit ''message length '' @ decimal (unat len) @ lit '' exceeds '' @ decimal MAX_MESSAGE_LEN))
        else case checked_add consumed (unat len) of
          None \<Rightarrow> Err (AMalformed (lit ''message length '' @ decimal (unat len) @ lit '' overflows''))
        | Some finish \<Rightarrow> (case get_range rest consumed finish of
            None \<Rightarrow> Err (AMalformed (lit ''message claims '' @ decimal (unat len) @ lit '' bytes, ''
              @ decimal (length rest - consumed) @ lit '' remain''))
          | Some body \<Rightarrow> Ok (body, drop finish rest))))"

lemma read_groups_loop: "i + length bs \<le> 10 \<Longrightarrow> read_groups (enumerate i bs) r = read_loop i r bs"
  by (induction bs arbitrary: i r) (simp_all add: Let_def)

lemma read_variant_Ok: "read_variant bs = Ok r \<longleftrightarrow> variant_read bs = Ok r"
  using read_groups_loop [of 0 "take 10 bs" 0]
  by (cases r) (auto simp: read_variant_def variant_read_Ok AP_VARINT_MAX_LEN_def VARINT_MAX_LEN_def split: option.splits)

lemma take_message_shorter: "take_message rest = Ok (m, rest') \<Longrightarrow> rest \<noteq> [] \<Longrightarrow> length rest' < length rest"
  by (auto simp: take_message_def rbind_Ok_iff read_variant_Ok checked_add_def get_range_def split: if_splits option.splits
      dest!: variant_read_bounds)

function decode_messages :: "bytes \<Rightarrow> airplay_error + bytes list" where
  "decode_messages rest =
     (if rest = [] then Ok []
      else case take_message rest of
        Err e \<Rightarrow> Err e
      | Ok (message, rest') \<Rightarrow>
          if get_at message 0 \<noteq> Some PROTOCOL_MESSAGE_TAG
          then Err (AMalformed (lit ''message does not start with the type tag 0x08''))
          else (case decode_messages rest' of Err e \<Rightarrow> Err e | Ok messages \<Rightarrow> Ok (message # messages)))"
  by pat_completeness auto
termination by (relation "measure length") (auto dest: take_message_shorter)

declare decode_messages.simps [simp del]

section \<open>The copy in the tunnel\<close>

definition TUNNEL_MAX_MESSAGE_LEN :: nat where "TUNNEL_MAX_MESSAGE_LEN = 8 * 1024 * 1024"
definition UNPREFIXED_MESSAGE_MARKER :: u8 where "UNPREFIXED_MESSAGE_MARKER = 0x08"

datatype tunnel_error = TunnelVarint varint_error | TunnelFraming bytes

definition encode_payload :: "bytes \<Rightarrow> bytes" where
  "encode_payload message = variant_write (word_of_nat (length message)) @ message"

definition take_tunnelled :: "bytes \<Rightarrow> tunnel_error + bytes \<times> bytes" where
  "take_tunnelled data =
     (if get_at data 0 = Some UNPREFIXED_MESSAGE_MARKER then Ok (data, [])
      else rbind (map_err TunnelVarint (variant_read data)) (\<lambda>(len, consumed).
        if unat len > TUNNEL_MAX_MESSAGE_LEN
        then Err (TunnelFraming (lit ''tunnelled message length '' @ decimal (unat len) @ lit '' exceeds '' @ decimal TUNNEL_MAX_MESSAGE_LEN))
        else let rest = drop consumed data in
          if length rest < unat len
          then Err (TunnelFraming (lit ''tunnelled message claims '' @ decimal (unat len) @ lit '' bytes but only ''
            @ decimal (length rest) @ lit '' are present''))
          else Ok (take (unat len) rest, drop (unat len) rest)))"

lemma map_err_Ok: "map_err f r = Ok x \<longleftrightarrow> r = Ok x"
  by (cases r) (simp_all add: map_err_def)

lemma take_tunnelled_shorter: "take_tunnelled data = Ok (m, rest') \<Longrightarrow> data \<noteq> [] \<Longrightarrow> length rest' < length data"
  by (auto simp: take_tunnelled_def rbind_Ok_iff map_err_Ok Let_def split: if_splits dest!: variant_read_bounds)

function decode_payload :: "bytes \<Rightarrow> tunnel_error + bytes list" where
  "decode_payload data =
     (if data = [] then Ok []
      else case take_tunnelled data of
        Err e \<Rightarrow> Err e
      | Ok (message, rest) \<Rightarrow>
          if get_at message 0 \<noteq> Some UNPREFIXED_MESSAGE_MARKER
          then Err (TunnelFraming (lit ''tunnelled message does not start with the ProtocolMessage.type tag''))
          else (case decode_payload rest of Err e \<Rightarrow> Err e | Ok messages \<Rightarrow> Ok (message # messages)))"
  by pat_completeness auto
termination by (relation "measure length") (auto dest: take_tunnelled_shorter)

declare decode_payload.simps [simp del]

section \<open>The envelope\<close>

datatype plist_value =
  PlDictionary "(bytes \<times> plist_value) list"
| PlArray "plist_value list"
| PlData bytes
| PlString bytes
| PlInteger int
| PlBoolean bool
| PlOther

record plist_api =
  plist_write :: "plist_value \<Rightarrow> bytes option"
  plist_read :: "bytes \<Rightarrow> plist_value option"

definition plist_ok :: "plist_api \<Rightarrow> bool" where
  "plist_ok L \<longleftrightarrow> (\<forall>v bs. plist_write L v = Some bs \<longrightarrow> plist_read L bs = Some v \<and> bs \<noteq> [])"

text \<open>\<open>as_dictionary\<close> then \<open>get\<close>, and \<open>as_data\<close>.\<close>

definition plist_get :: "bytes \<Rightarrow> plist_value \<Rightarrow> plist_value option" where
  "plist_get key v = (case v of PlDictionary entries \<Rightarrow> map_of entries key | _ \<Rightarrow> None)"

definition plist_data :: "plist_value \<Rightarrow> bytes option" where
  "plist_data v = (case v of PlData bs \<Rightarrow> Some bs | _ \<Rightarrow> None)"

text \<open>The error of the serialiser is its text.\<close>

definition encode_envelope :: "plist_api \<Rightarrow> bytes \<Rightarrow> airplay_error + bytes" where
  "encode_envelope L data =
     ok_or (plist_write L (PlDictionary [(lit ''params'', PlDictionary [(lit ''data'', PlData data)])])) (APlist [])"

definition decode_envelope :: "plist_api \<Rightarrow> bytes \<Rightarrow> bytes option" where
  "decode_envelope L payload =
     Option.bind (plist_read L payload) (\<lambda>v.
     Option.bind (plist_get (lit ''params'') v) (\<lambda>p.
     Option.bind (plist_get (lit ''data'') p) plist_data))"

lemma envelope_opens: "plist_ok L \<Longrightarrow> encode_envelope L data = Ok bs \<Longrightarrow> decode_envelope L bs = Some data \<and> bs \<noteq> []"
  by (auto simp: encode_envelope_def ok_or_Ok_iff decode_envelope_def plist_ok_def plist_get_def plist_data_def)

section \<open>Round trip\<close>

lemma write_groups_variant: "write_groups v out = out @ variant_write v"
proof (induction v out rule: write_groups.induct)
  case (1 v out)
  then show ?case by (subst write_groups.simps, subst variant_write.simps) (simp add: Let_def)
qed

lemma write_variant_eq: "write_variant v = variant_write v"
  by (simp add: write_variant_def write_groups_variant)

text \<open>A length reads as the tag when it is eight, and only then.\<close>

lemma variant_write_hd: "get_at (variant_write v @ rest) 0 = Some 8 \<longleftrightarrow> v = 8"
proof (cases "drop_bit 7 v = 0")
  case True
  with split_word [of v] have v: "v AND 0x7F = v" by simp
  have "get_at (variant_write v @ rest) 0 = Some (ucast (v AND 0x7F) :: u8)"
    by (simp add: variant_write.simps [of v] True Let_def get_at_def)
  moreover have "(ucast (v AND 0x7F) :: u8) = 8 \<longleftrightarrow> v = 8"
  proof
    assume "(ucast (v AND 0x7F) :: u8) = 8"
    then have "v AND 0x7F = (8 :: u64) AND 0x7F"
      using group_value [of v] by simp
    with v show "v = 8" by simp
  qed simp
  ultimately show ?thesis by simp
next
  case False
  have "(8 :: u8) AND 0x80 = 0" by simp
  with group_more [of v] have "(ucast (v AND 0x7F) :: u8) OR 0x80 \<noteq> 8" by metis
  moreover have "get_at (variant_write v @ rest) 0 = Some ((ucast (v AND 0x7F) :: u8) OR 0x80)"
    using False by (simp add: variant_write.simps [of v] Let_def get_at_def)
  moreover have "v \<noteq> 8" using False by auto
  ultimately show ?thesis by simp
qed

lemma length_word: "length m \<le> MAX_MESSAGE_LEN \<Longrightarrow> unat (word_of_nat (length m) :: u64) = length m"
  unfolding unat_of_nat by (rule mod_less) (simp add: MAX_MESSAGE_LEN_def)

lemma word_eight: "length m \<le> MAX_MESSAGE_LEN \<Longrightarrow> (word_of_nat (length m) :: u64) = 8 \<longleftrightarrow> length m = 8"
  using length_word [of m] by (auto simp: word_unat_eq_iff)

lemma take_message_prefixed:
  assumes "length m \<le> MAX_MESSAGE_LEN" "length m \<noteq> 8"
  shows "take_message (write_variant (word_of_nat (length m)) @ m @ rest) = Ok (m, rest)"
proof -
  let ?w = "word_of_nat (length m) :: u64"
  let ?v = "variant_write ?w"
  have "get_at (?v @ m @ rest) 0 \<noteq> Some 8" using assms by (simp add: variant_write_hd word_eight)
  moreover have "read_variant (?v @ m @ rest) = Ok (?w, length ?v)"
    by (simp add: read_variant_Ok variant_read_write)
  moreover have "checked_add (length ?v) (length m) = Some (length ?v + length m)"
    using assms(1) length_variant_write [of ?w] by (simp add: checked_add_def usize_max_def MAX_MESSAGE_LEN_def VARINT_MAX_LEN_def)
  ultimately show ?thesis
    using assms(1) by (simp add: take_message_def write_variant_eq PROTOCOL_MESSAGE_TAG_def length_word get_range_mid)
qed

lemma take_message_tagged: "get_at rest 0 = Some PROTOCOL_MESSAGE_TAG \<Longrightarrow> decode_messages rest = Ok [rest]"
  by (subst decode_messages.simps) (simp add: take_message_def decode_messages.simps [of "[]"] get_at_def split: if_splits)

lemma encode_messages_Cons: "encode_messages (m # ms) = write_variant (word_of_nat (length m)) @ m @ encode_messages ms"
  by (simp add: encode_messages_def)

lemma messages_decode:
  assumes "\<forall>m \<in> set ms. get_at m 0 = Some PROTOCOL_MESSAGE_TAG \<and> length m \<le> MAX_MESSAGE_LEN"
  shows "decode_messages (encode_messages ms) = Ok ms \<longleftrightarrow> (\<forall>m \<in> set ms. length m \<noteq> 8)"
  using assms
proof (induction ms)
  case Nil
  show ?case by (simp add: encode_messages_def decode_messages.simps)
next
  case (Cons m ms)
  then have m: "get_at m 0 = Some PROTOCOL_MESSAGE_TAG" "length m \<le> MAX_MESSAGE_LEN" by simp_all
  let ?w = "word_of_nat (length m) :: u64"
  show ?case
  proof (cases "length m = 8")
    case True
    have "get_at (encode_messages (m # ms)) 0 = Some PROTOCOL_MESSAGE_TAG"
      using True variant_write_hd [of ?w] m(2)
      by (simp add: encode_messages_Cons write_variant_eq word_eight PROTOCOL_MESSAGE_TAG_def)
    from take_message_tagged [OF this] have "decode_messages (encode_messages (m # ms)) = Ok [encode_messages (m # ms)]" .
    moreover have "length (encode_messages (m # ms)) > length m" by (simp add: encode_messages_Cons write_variant_eq)
    ultimately show ?thesis using True by auto
  next
    case False
    have "encode_messages (m # ms) \<noteq> []" by (simp add: encode_messages_Cons write_variant_eq)
    with False m show ?thesis
      using Cons.IH Cons.prems take_message_prefixed [OF m(2) False, of "encode_messages ms"]
      by (subst decode_messages.simps) (auto simp: encode_messages_Cons split: sum.splits)
  qed
qed

text \<open>
  C33: Messages survive the data field, all but those of eight bytes. Of messages that begin with the tag and keep
  to the limit, decoding gives back what was encoded exactly when none of them is eight bytes long: the length
  of such a message reads as the tag of an unprefixed one, which takes the rest of the field for itself.
\<close>

theorem messages_roundtrip:
  assumes "\<forall>m \<in> set ms. get_at m 0 = Some PROTOCOL_MESSAGE_TAG \<and> length m \<le> MAX_MESSAGE_LEN"
  shows "decode_messages (encode_messages ms) = Ok ms \<longleftrightarrow> (\<forall>m \<in> set ms. length m \<noteq> 8)"
  using assms by (rule messages_decode)

lemma messages_roundtrip_witness:
  "decode_messages (encode_messages [[8, 1], [8, 2, 3]]) = Ok [[8, 1], [8, 2, 3]]
   \<and> decode_messages (encode_messages [[8, 0, 0, 0, 0, 0, 0, 0]]) \<noteq> Ok [[8, 0, 0, 0, 0, 0, 0, 0]]"
proof -
  have "\<forall>m \<in> set [[8, 1], [8, 2, 3]]. get_at m 0 = Some PROTOCOL_MESSAGE_TAG \<and> length m \<le> MAX_MESSAGE_LEN"
    "\<forall>m \<in> set [[8, 0, 0, 0, 0, 0, 0, 0]]. get_at m 0 = Some PROTOCOL_MESSAGE_TAG \<and> length m \<le> MAX_MESSAGE_LEN"
    by (simp_all add: get_at_def PROTOCOL_MESSAGE_TAG_def MAX_MESSAGE_LEN_def)
  from this [THEN messages_roundtrip] show ?thesis by simp
qed

section \<open>The two copies\<close>

lemma takes_agree: "take_message data = Ok r \<longleftrightarrow> take_tunnelled data = Ok r"
proof (cases "get_at data 0 = Some 8")
  case False
  show ?thesis
  proof (cases "variant_read data")
    case (Inl e)
    with False show ?thesis
      by (cases "read_variant data") (simp_all add: take_message_def take_tunnelled_def PROTOCOL_MESSAGE_TAG_def
          UNPREFIXED_MESSAGE_MARKER_def map_err_def, use Inl read_variant_Ok [of data] in auto)
  next
    case (Inr p)
    then obtain len consumed where p: "variant_read data = Ok (len, consumed)" by (cases p) auto
    then have r: "read_variant data = Ok (len, consumed)" by (simp add: read_variant_Ok)
    from variant_read_bounds [OF p] have b: "consumed \<le> 10" "consumed \<le> length data" by (simp_all add: VARINT_MAX_LEN_def)
    show ?thesis
    proof (cases "unat len > MAX_MESSAGE_LEN")
      case True
      with False p r show ?thesis
        by (simp add: take_message_def take_tunnelled_def PROTOCOL_MESSAGE_TAG_def UNPREFIXED_MESSAGE_MARKER_def map_err_def
            MAX_MESSAGE_LEN_def TUNNEL_MAX_MESSAGE_LEN_def)
    next
      case small: False
      with b have "checked_add consumed (unat len) = Some (consumed + unat len)"
        by (simp add: checked_add_def usize_max_def MAX_MESSAGE_LEN_def)
      with False small p r b show ?thesis
        by (auto simp: take_message_def take_tunnelled_def PROTOCOL_MESSAGE_TAG_def UNPREFIXED_MESSAGE_MARKER_def map_err_def
            MAX_MESSAGE_LEN_def TUNNEL_MAX_MESSAGE_LEN_def Let_def get_range_def add.commute)
    qed
  qed
qed (simp add: take_message_def take_tunnelled_def PROTOCOL_MESSAGE_TAG_def UNPREFIXED_MESSAGE_MARKER_def)

text \<open>
  The two copies of the framing agree. The AirPlay crate and the MRP crate each have their own varints and
  their own splitting of the data field; they write the same bytes for a message, and each accepts exactly the
  fields the other accepts, with the same messages.
\<close>

theorem framings_agree:
  "encode_messages [m] = encode_payload m \<and> (decode_messages data = Ok ms \<longleftrightarrow> decode_payload data = Ok ms)"
proof
  show "encode_messages [m] = encode_payload m" by (simp add: encode_messages_def encode_payload_def write_variant_eq)
  show "decode_messages data = Ok ms \<longleftrightarrow> decode_payload data = Ok ms"
  proof (induction "length data" arbitrary: data ms rule: less_induct)
    case less
    show ?case
    proof (cases "take_message data")
      case (Inl e)
      with takes_agree [of data] show ?thesis
        by (subst decode_messages.simps, subst decode_payload.simps) (cases "take_tunnelled data"; force)
    next
      case (Inr p)
      then obtain x rest where p: "take_message data = Ok (x, rest)" "take_tunnelled data = Ok (x, rest)"
        using takes_agree [of data p] by (cases p) auto
      show ?thesis
      proof (cases "data = []")
        case False
        have "decode_messages rest = Ok xs \<longleftrightarrow> decode_payload rest = Ok xs" for xs
          by (rule less) (rule take_message_shorter [OF p(1) False])
        then show ?thesis
          by (subst decode_messages.simps, subst decode_payload.simps)
            (cases "decode_messages rest"; cases "decode_payload rest"; force simp: p False PROTOCOL_MESSAGE_TAG_def UNPREFIXED_MESSAGE_MARKER_def)
      qed (simp add: decode_messages.simps decode_payload.simps)
    qed
  qed
qed

end
