(* ===== verification/Data_Stream.thy ===== *)
theory Data_Stream
  imports Data_Payload Hap_Session
begin

text \<open>
  The AirPlay 2 data stream channel (\<open>pyatv-proto-airplay\<close>: \<open>ap2/data_stream/frame.rs\<close>,
  \<open>ap2/data_stream.rs\<close>, \<open>ap2/channel.rs\<close>): the 32-byte frame header, the decoder that takes
  complete frames off the decrypted bytes, and the task that acknowledges and dispatches them. The task is a
  step per event of its \<open>select!\<close>; the two bounded queues are lists, and the errors of the socket's
  writes are a list the environment gives.
\<close>

section \<open>Frames\<close>

definition DATA_HEADER_LEN :: nat where "DATA_HEADER_LEN = 32"
definition DATA_MAX_FRAME_LEN :: nat where "DATA_MAX_FRAME_LEN = 8 * 1024 * 1024"
definition DATA_PADDING :: u32 where "DATA_PADDING = 0"
definition MESSAGE_TYPE_SYNC :: bytes where "MESSAGE_TYPE_SYNC = lit ''sync'' @ replicate 8 0"
definition MESSAGE_TYPE_REPLY :: bytes where "MESSAGE_TYPE_REPLY = lit ''rply'' @ replicate 8 0"
definition COMMAND_COMM :: bytes where "COMMAND_COMM = lit ''comm''"
definition COMMAND_NONE :: bytes where "COMMAND_NONE = replicate 4 0"
definition SYNC_PREFIX :: bytes where "SYNC_PREFIX = lit ''sync''"

record data_header =
  dh_frame_size :: u32
  dh_message_type :: bytes
  dh_command :: bytes
  dh_seqno :: u64
  dh_padding :: u32

definition data_header_encode :: "data_header \<Rightarrow> bytes" where
  "data_header_encode h = be_bytes 4 (unat (dh_frame_size h)) @ dh_message_type h @ dh_command h
     @ be_bytes 8 (unat (dh_seqno h)) @ be_bytes 4 (unat (dh_padding h))"

definition data_header_decode :: "bytes \<Rightarrow> airplay_error + data_header" where
  "data_header_decode input =
     (case get_range input 0 DATA_HEADER_LEN of
        None \<Rightarrow> Err (AMalformed (lit ''data frame header is '' @ decimal (length input) @ lit '' bytes''))
      | Some cursor \<Rightarrow>
          let h = \<lparr>dh_frame_size = word_of_nat (be_nat (take 4 cursor)), dh_message_type = take 12 (drop 4 cursor),
                   dh_command = take 4 (drop 16 cursor), dh_seqno = word_of_nat (be_nat (take 8 (drop 20 cursor))),
                   dh_padding = word_of_nat (be_nat (take 4 (drop 28 cursor)))\<rparr> in
          if unat (dh_frame_size h) < DATA_HEADER_LEN
          then Err (AMalformed (lit ''data frame claims '' @ decimal (unat (dh_frame_size h)) @ lit '' bytes, under the ''
            @ decimal DATA_HEADER_LEN @ lit ''-byte header''))
          else if unat (dh_frame_size h) > DATA_MAX_FRAME_LEN
          then Err (AMalformed (lit ''data frame claims '' @ decimal (unat (dh_frame_size h)) @ lit '' bytes, over the ''
            @ decimal DATA_MAX_FRAME_LEN @ lit ''-byte cap''))
          else Ok h)"

definition wants_reply :: "data_header \<Rightarrow> bool" where
  "wants_reply h \<longleftrightarrow> take (length SYNC_PREFIX) (dh_message_type h) = SYNC_PREFIX"

record data_message =
  dm_header :: data_header
  dm_payload :: bytes

definition data_frame_size :: "nat \<Rightarrow> u32" where
  "data_frame_size payload_len =
     (if DATA_HEADER_LEN + payload_len < 2 ^ 32 then word_of_nat (DATA_HEADER_LEN + payload_len) else 0xFFFFFFFF)"

definition data_encode :: "data_header \<Rightarrow> bytes \<Rightarrow> bytes" where
  "data_encode h payload = data_header_encode h @ payload"

definition sync_header :: "u64 \<Rightarrow> bytes \<Rightarrow> data_header" where
  "sync_header seqno payload = \<lparr>dh_frame_size = data_frame_size (length payload), dh_message_type = MESSAGE_TYPE_SYNC,
     dh_command = COMMAND_COMM, dh_seqno = seqno, dh_padding = DATA_PADDING\<rparr>"

definition encode_sync :: "u64 \<Rightarrow> bytes \<Rightarrow> bytes" where
  "encode_sync seqno payload = data_encode (sync_header seqno payload) payload"

definition reply_header :: "u64 \<Rightarrow> data_header" where
  "reply_header seqno = \<lparr>dh_frame_size = data_frame_size 0, dh_message_type = MESSAGE_TYPE_REPLY,
     dh_command = COMMAND_NONE, dh_seqno = seqno, dh_padding = DATA_PADDING\<rparr>"

definition data_reply :: "u64 \<Rightarrow> bytes" where
  "data_reply seqno = data_encode (reply_header seqno) []"

text \<open>\<open>decode\<close>: the frame and what is left of the buffer.\<close>

definition data_decode :: "bytes \<Rightarrow> airplay_error + (data_message \<times> bytes) option" where
  "data_decode buffer =
     (if length buffer < DATA_HEADER_LEN then Ok None
      else rbind (data_header_decode buffer) (\<lambda>h.
        if length buffer < unat (dh_frame_size h) then Ok None
        else Ok (Some (\<lparr>dm_header = h, dm_payload = drop DATA_HEADER_LEN (take (unat (dh_frame_size h)) buffer)\<rparr>,
          drop (unat (dh_frame_size h)) buffer))))"

section \<open>The channel\<close>

definition INBOUND_QUEUE_DEPTH :: nat where "INBOUND_QUEUE_DEPTH = 64"
definition OUTBOUND_QUEUE_DEPTH :: nat where "OUTBOUND_QUEUE_DEPTH = 64"

datatype seqno_policy = SeqnoFixed | SeqnoIncrement

record data_channel =
  dc_reader :: hap_session
  dc_writer :: hap_session
  dc_buffer :: bytes
  dc_inbound :: "bytes list"
  dc_outbound :: "bytes list"
  dc_pending :: "bytes list"
  dc_seqno :: u64
  dc_policy :: seqno_policy
  dc_open :: bool
  dc_written :: "bytes list"
  dc_faults :: "airplay_error option list"

text \<open>
  \<open>HapWriter::send\<close>: the plaintext is sealed, then written; the next element of \<open>dc_faults\<close> is the
  error of the write, if it fails.
\<close>

definition writer_send :: "aead \<Rightarrow> bytes \<Rightarrow> data_channel \<Rightarrow> (airplay_error + unit) \<times> data_channel" where
  "writer_send A plaintext ch = (case hap_encrypt A plaintext (dc_writer ch) of
     (Err e, w) \<Rightarrow> (Err (APairing (hap_of_pairing e)), ch\<lparr>dc_writer := w\<rparr>)
   | (Ok framed, w) \<Rightarrow> (case dc_faults ch of
       Some e # faults \<Rightarrow> (Err e, ch\<lparr>dc_writer := w, dc_faults := faults\<rparr>)
     | faults \<Rightarrow> (Ok (), ch\<lparr>dc_writer := w, dc_faults := tl faults, dc_written := dc_written ch @ [framed]\<rparr>)))"

text \<open>\<open>dispatch\<close>: offered without waiting, and lost when the queue is full.\<close>

definition dispatch :: "plist_api \<Rightarrow> data_message \<Rightarrow> data_channel \<Rightarrow> data_channel" where
  "dispatch L m ch = (case decode_envelope L (dm_payload m) of
     None \<Rightarrow> ch
   | Some data \<Rightarrow> if length (dc_inbound ch) < INBOUND_QUEUE_DEPTH then ch\<lparr>dc_inbound := dc_inbound ch @ [data]\<rparr> else ch)"

lemma writer_send_buffer: "writer_send A p ch = (r, ch') \<Longrightarrow> dc_buffer ch' = dc_buffer ch"
  by (auto simp: writer_send_def split: prod.splits sum.splits list.splits option.splits)

lemma dispatch_buffer [simp]: "dc_buffer (dispatch L m ch) = dc_buffer ch"
  by (simp add: dispatch_def split: option.split)

lemma data_decode_Some:
  "data_decode b = Ok (Some (m, rest)) \<Longrightarrow>
     32 \<le> unat (dh_frame_size (dm_header m)) \<and> unat (dh_frame_size (dm_header m)) \<le> length b
     \<and> rest = drop (unat (dh_frame_size (dm_header m))) b"
  by (auto simp: data_decode_def rbind_Ok_iff data_header_decode_def Let_def DATA_HEADER_LEN_def split: if_splits option.splits)

function drain :: "plist_api \<Rightarrow> aead \<Rightarrow> data_channel \<Rightarrow> (airplay_error + unit) \<times> data_channel" where
  "drain L A ch =
     (case data_decode (dc_buffer ch) of
        Err e \<Rightarrow> (Err e, ch)
      | Ok None \<Rightarrow> (Ok (), ch)
      | Ok (Some (m, rest)) \<Rightarrow>
          (case (if wants_reply (dm_header m) then writer_send A (data_reply (dh_seqno (dm_header m))) (ch\<lparr>dc_buffer := rest\<rparr>)
                 else (Ok (), ch\<lparr>dc_buffer := rest\<rparr>)) of
             (Err e, ch') \<Rightarrow> (Err e, ch')
           | (Ok _, ch') \<Rightarrow> drain L A (if dm_payload m \<noteq> [] then dispatch L m ch' else ch')))"
  by pat_completeness auto
termination
  by (relation "measure (\<lambda>(_, _, ch). length (dc_buffer ch))")
    (auto split: if_splits dest!: data_decode_Some writer_send_buffer [OF sym])

declare drain.simps [simp del]

text \<open>
  The events of the task's loop, and the consumer's: a frame of the outbound queue is written, a read
  arrives, the peer closes, the read fails, or the channel is closed.
\<close>

datatype channel_event = WriteNext | Segment bytes | PeerClosed | ReadFailed | CloseCalled

definition channel_event :: "plist_api \<Rightarrow> aead \<Rightarrow> channel_event \<Rightarrow> data_channel \<Rightarrow> data_channel" where
  "channel_event L A ev ch =
     (if \<not> dc_open ch then ch
      else case ev of
        WriteNext \<Rightarrow> (case dc_outbound ch of
            [] \<Rightarrow> ch
          | frame # rest \<Rightarrow> (case writer_send A frame (ch\<lparr>dc_outbound := rest\<rparr>) of
              (Err e, ch') \<Rightarrow> ch'\<lparr>dc_open := False\<rparr>
            | (Ok _, ch') \<Rightarrow> ch'))
      | Segment bs \<Rightarrow> (case hap_decrypt A bs (dc_reader ch) of
            (Err e, r) \<Rightarrow> ch\<lparr>dc_reader := r, dc_open := False\<rparr>
          | (Ok plaintext, r) \<Rightarrow> (case drain L A (ch\<lparr>dc_reader := r, dc_buffer := dc_buffer ch @ plaintext\<rparr>) of
              (Err e, ch') \<Rightarrow> ch'\<lparr>dc_open := False\<rparr>
            | (Ok _, ch') \<Rightarrow> ch'))
      | _ \<Rightarrow> ch\<lparr>dc_open := False\<rparr>)"

definition next_seqno :: "data_channel \<Rightarrow> u64 \<times> data_channel" where
  "next_seqno ch = (case dc_policy ch of
     SeqnoFixed \<Rightarrow> (dc_seqno ch, ch)
   | SeqnoIncrement \<Rightarrow> (dc_seqno ch, ch\<lparr>dc_seqno := dc_seqno ch + 1\<rparr>))"

text \<open>
  \<open>send_payload\<close>: \<open>room\<close> tells whether the queue has room before the deadline. A closed channel has
  dropped its end of the queue.
\<close>

definition send_payload :: "plist_api \<Rightarrow> bool \<Rightarrow> bytes \<Rightarrow> data_channel \<Rightarrow> (airplay_error + unit) \<times> data_channel" where
  "send_payload L room data ch = (case encode_envelope L data of
     Err e \<Rightarrow> (Err e, ch)
   | Ok envelope \<Rightarrow> (case next_seqno ch of (seqno, ch') \<Rightarrow>
       if \<not> dc_open ch' then (Err (AIo ABrokenPipe (lit ''data channel is closed'')), ch')
       else if \<not> room then (Err (AIo ATimedOut (lit ''data channel did not drain'')), ch')
       else (Ok (), ch'\<lparr>dc_outbound := dc_outbound ch' @ [encode_sync seqno envelope]\<rparr>)))"

definition send_message :: "plist_api \<Rightarrow> bool \<Rightarrow> bytes \<Rightarrow> data_channel \<Rightarrow> (airplay_error + unit) \<times> data_channel" where
  "send_message L room message ch = send_payload L room (encode_messages [message]) ch"

text \<open>\<open>recv\<close>; \<open>None\<close> when it has to wait.\<close>

function channel_recv :: "data_channel \<Rightarrow> (airplay_error + bytes) option \<times> data_channel" where
  "channel_recv ch = (case dc_pending ch of
     message # rest \<Rightarrow> (Some (Ok message), ch\<lparr>dc_pending := rest\<rparr>)
   | [] \<Rightarrow> (case dc_inbound ch of
       [] \<Rightarrow> (if dc_open ch then None else Some (Err (AIo AUnexpectedEof (lit ''data channel is closed''))), ch)
     | data # rest \<Rightarrow> (case decode_messages data of
         Err e \<Rightarrow> (Some (Err e), ch\<lparr>dc_inbound := rest\<rparr>)
       | Ok messages \<Rightarrow> channel_recv (ch\<lparr>dc_inbound := rest, dc_pending := messages\<rparr>))))"
  by pat_completeness auto
termination by (relation "measures [\<lambda>ch. length (dc_inbound ch)]") auto

declare channel_recv.simps [simp del]

end
