(* ===== verification/Data_Tunnel.thy ===== *)
theory Data_Tunnel
  imports Data_Stream
begin

text \<open>
  The laws of the data stream: its frames do not depend on how the bytes arrive, every frame that asks for it is
  acknowledged whether or not anything reads the payloads, the memory a peer can claim is bounded, and the
  messages a peer puts in its frames come out at the consumer.
\<close>

section \<open>The decoder\<close>

definition data_step :: "unit \<Rightarrow> bytes \<Rightarrow> (airplay_error, data_message, unit) frame_step" where
  "data_step u b = (case data_decode b of
     Err e \<Rightarrow> Bad e ()
   | Ok None \<Rightarrow> More
   | Ok (Some (m, rest)) \<Rightarrow> Frame m () (unat (dh_frame_size (dm_header m))))"

lemma data_step_Frame: "data_step u b = Frame m u' n \<Longrightarrow> 0 < n \<and> n \<le> length b"
  by (auto simp: data_step_def split: sum.splits option.splits prod.splits dest!: data_decode_Some)

function data_loop :: "unit \<Rightarrow> bytes \<Rightarrow> (airplay_error, data_message, unit) drained" where
  "data_loop () b = (case data_step () b of
     More \<Rightarrow> ([], (), b, None)
   | Bad e u' \<Rightarrow> ([], u', b, Some e)
   | Frame m u' n \<Rightarrow> add_frame m (data_loop u' (drop n b)))"
  by pat_completeness auto
termination by (relation "measure (\<lambda>(_, b). length b)") (auto dest: data_step_Frame)

declare data_loop.simps [simp del]

lemma data_header_append: "DATA_HEADER_LEN \<le> length b \<Longrightarrow> data_header_decode (b @ x) = data_header_decode b"
  by (simp add: data_header_decode_def get_range_def)

lemma data_step_stable: "data_step u b = r \<Longrightarrow> r \<noteq> More \<Longrightarrow> data_step u (b @ x) = r"
  by (auto simp: data_step_def data_decode_def data_header_append rbind_def split: if_splits sum.splits)

interpretation data: stream_codec data_step data_loop
proof unfold_locales
  show "data_loop s b = (case data_step s b of More \<Rightarrow> ([], s, b, None) | Bad e s' \<Rightarrow> ([], s', b, Some e)
       | Frame a s' n \<Rightarrow> add_frame a (data_loop s' (drop n b)))" for s b
    by (cases s) (simp only: data_loop.simps [of b])
qed (auto dest: data_step_Frame intro: data_step_stable)

text \<open>A frame on the wire: its tags have their widths, and its size is the frame's.\<close>

definition data_fits :: "data_message \<Rightarrow> bool" where
  "data_fits m \<longleftrightarrow> length (dh_message_type (dm_header m)) = 12 \<and> length (dh_command (dm_header m)) = 4
     \<and> unat (dh_frame_size (dm_header m)) = DATA_HEADER_LEN + length (dm_payload m)
     \<and> unat (dh_frame_size (dm_header m)) \<le> DATA_MAX_FRAME_LEN"

definition data_put :: "unit \<Rightarrow> data_message \<Rightarrow> unit + bytes \<times> unit" where
  "data_put u m = Ok (data_encode (dm_header m) (dm_payload m), ())"

lemma length_data_header: "data_fits m \<Longrightarrow> length (data_header_encode (dm_header m)) = 32"
  by (simp add: data_fits_def data_header_encode_def)

lemma data_header_decodes:
  assumes "data_fits m"
  shows "data_header_decode (data_header_encode (dm_header m) @ rest) = Ok (dm_header m)"
proof -
  have "length (dh_message_type (dm_header m)) = 12" "length (dh_command (dm_header m)) = 4"
    "\<not> unat (dh_frame_size (dm_header m)) < DATA_HEADER_LEN" "\<not> unat (dh_frame_size (dm_header m)) > DATA_MAX_FRAME_LEN"
    using assms by (simp_all add: data_fits_def)
  then have "data_header_decode (data_header_encode (dm_header m)) = Ok (dm_header m)"
    using length_data_header [OF assms]
    by (simp add: data_header_decode_def get_range_def DATA_HEADER_LEN_def data_header_encode_def be_nat_u32 be_nat_u64)
  then show ?thesis using length_data_header [OF assms] by (simp add: data_header_append DATA_HEADER_LEN_def)
qed

lemma data_received:
  assumes "data_fits m"
  shows "data_step u (data_encode (dm_header m) (dm_payload m) @ rest) = Frame m () (length (data_encode (dm_header m) (dm_payload m)))"
  using assms length_data_header [OF assms] data_header_decodes [OF assms, of "dm_payload m @ rest"]
  by (simp add: data_step_def data_decode_def data_encode_def data_fits_def DATA_HEADER_LEN_def)

interpretation data_pair: framed_pair data_step data_loop data_put "\<lambda>m. m" "\<lambda>_ _. True" data_fits
  by unfold_locales (auto simp: data_put_def data_received, simp add: data_step_def data_decode_def DATA_HEADER_LEN_def)

section \<open>What the task does with the frames\<close>

definition acks :: "data_message list \<Rightarrow> bytes list" where
  "acks ms = map (\<lambda>m. data_reply (dh_seqno (dm_header m))) (filter (wants_reply o dm_header) ms)"

definition payloads :: "plist_api \<Rightarrow> data_message list \<Rightarrow> bytes list" where
  "payloads L ms = List.map_filter (\<lambda>m. if dm_payload m = [] then None else decode_envelope L (dm_payload m)) ms"

definition queued :: "bytes list \<Rightarrow> bytes list \<Rightarrow> bytes list" where
  "queued q ps = q @ take (INBOUND_QUEUE_DEPTH - length q) ps"

fun handle_frames :: "plist_api \<Rightarrow> aead \<Rightarrow> data_message list \<Rightarrow> data_channel \<Rightarrow> (airplay_error + unit) \<times> data_channel" where
  "handle_frames L A [] ch = (Ok (), ch)"
| "handle_frames L A (m # ms) ch =
     (case (if wants_reply (dm_header m) then writer_send A (data_reply (dh_seqno (dm_header m))) ch else (Ok (), ch)) of
        (Err e, ch') \<Rightarrow> (Err e, ch')
      | (Ok _, ch') \<Rightarrow> handle_frames L A ms (if dm_payload m \<noteq> [] then dispatch L m ch' else ch'))"

lemma writer_send_buf: "writer_send A p (ch\<lparr>dc_buffer := b\<rparr>) = apsnd (\<lambda>c. c\<lparr>dc_buffer := b\<rparr>) (writer_send A p ch)"
  by (simp add: writer_send_def split: prod.split sum.split list.split option.split)

lemma dispatch_buf: "dispatch L m (ch\<lparr>dc_buffer := b\<rparr>) = (dispatch L m ch)\<lparr>dc_buffer := b\<rparr>"
  by (simp add: dispatch_def split: option.split)

lemma handle_buf: "handle_frames L A ms (ch\<lparr>dc_buffer := b\<rparr>) = apsnd (\<lambda>c. c\<lparr>dc_buffer := b\<rparr>) (handle_frames L A ms ch)"
proof (induction ms arbitrary: ch)
  case (Cons m ms)
  let ?send = "\<lambda>ch. if wants_reply (dm_header m) then writer_send A (data_reply (dh_seqno (dm_header m))) ch else (Ok (), ch)"
  obtain r c where w: "?send ch = (r, c)" by (cases "?send ch")
  then have "?send (ch\<lparr>dc_buffer := b\<rparr>) = (r, c\<lparr>dc_buffer := b\<rparr>)"
    by (auto simp: writer_send_buf split: if_splits)
  moreover have "(if dm_payload m \<noteq> [] then dispatch L m (c\<lparr>dc_buffer := b\<rparr>) else c\<lparr>dc_buffer := b\<rparr>)
      = (if dm_payload m \<noteq> [] then dispatch L m c else c)\<lparr>dc_buffer := b\<rparr>"
    by (simp add: dispatch_buf)
  ultimately show ?case by (cases r) (simp_all only: handle_frames.simps w Cons prod.case sum.case apsnd_conv)
qed simp

lemma drain_handles:
  "data_loop () (dc_buffer ch) = (ms, (), rest, None) \<Longrightarrow> handle_frames L A ms ch = (Ok (), ch')
   \<Longrightarrow> drain L A ch = (Ok (), ch'\<lparr>dc_buffer := rest\<rparr>)"
proof (induction ms arbitrary: ch ch')
  case Nil
  have "data_step () (dc_buffer ch) = More \<and> rest = dc_buffer ch"
  proof (cases "data_step () (dc_buffer ch)")
    case More
    with Nil(1) show ?thesis by (simp add: data.loop_More)
  next
    case (Frame m u n)
    with Nil(1) show ?thesis by (cases "data_loop u (drop n (dc_buffer ch))") (simp add: data.loop_Frame [OF Frame])
  next
    case (Bad e u)
    with Nil(1) show ?thesis by (simp add: data.loop_Bad [OF Bad])
  qed
  with Nil(2) show ?case
    by (subst drain.simps) (auto simp: data_step_def split: sum.splits option.splits)
next
  case (Cons m ms)
  obtain n where s: "data_step () (dc_buffer ch) = Frame m () n" and l: "data_loop () (drop n (dc_buffer ch)) = (ms, (), rest, None)"
  proof (cases "data_step () (dc_buffer ch)")
    case More
    with Cons.prems(1) show ?thesis by (simp add: data.loop_More)
  next
    case (Frame x u n)
    with Cons.prems(1) that show ?thesis by (cases "data_loop u (drop n (dc_buffer ch))") (simp add: data.loop_Frame [OF Frame])
  next
    case (Bad e u)
    with Cons.prems(1) show ?thesis by (simp add: data.loop_Bad [OF Bad])
  qed
  let ?b = "drop n (dc_buffer ch)"
  from s have d: "data_decode (dc_buffer ch) = Ok (Some (m, ?b))"
    by (auto simp: data_step_def split: sum.splits option.splits prod.splits dest: data_decode_Some)
  from Cons.prems(2) obtain ch1 where w: "(if wants_reply (dm_header m) then writer_send A (data_reply (dh_seqno (dm_header m))) ch else (Ok (), ch)) = (Ok (), ch1)"
    and h: "handle_frames L A ms (if dm_payload m \<noteq> [] then dispatch L m ch1 else ch1) = (Ok (), ch')"
    by (auto split: prod.splits sum.splits)
  let ?ch = "if dm_payload m \<noteq> [] then dispatch L m ch1 else ch1"
  from w have "(if wants_reply (dm_header m) then writer_send A (data_reply (dh_seqno (dm_header m))) (ch\<lparr>dc_buffer := ?b\<rparr>) else (Ok (), ch\<lparr>dc_buffer := ?b\<rparr>))
      = (Ok (), ch1\<lparr>dc_buffer := ?b\<rparr>)"
    by (auto simp: writer_send_buf split: if_splits)
  moreover have "(if dm_payload m \<noteq> [] then dispatch L m (ch1\<lparr>dc_buffer := ?b\<rparr>) else ch1\<lparr>dc_buffer := ?b\<rparr>) = ?ch\<lparr>dc_buffer := ?b\<rparr>"
    by (simp add: dispatch_buf)
  moreover have "drain L A (?ch\<lparr>dc_buffer := ?b\<rparr>) = (Ok (), ch'\<lparr>dc_buffer := ?b\<rparr>\<lparr>dc_buffer := rest\<rparr>)"
    using l h by (intro Cons.IH) (simp, simp only: handle_buf apsnd_conv)
  ultimately show ?case by (subst drain.simps) (simp add: d)
qed

lemma queued_append: "queued (queued q ps) ps' = queued q (ps @ ps')"
  by (cases "length ps \<le> INBOUND_QUEUE_DEPTH - length q") (simp_all add: queued_def)

lemma dispatch_queued:
  "(if dm_payload m \<noteq> [] then dispatch L m ch else ch) = ch\<lparr>dc_inbound := queued (dc_inbound ch) (payloads L [m])\<rparr>"
  by (auto simp: dispatch_def payloads_def queued_def map_filter_simps split: option.split)

lemma writer_sends:
  "dc_faults ch = [] \<Longrightarrow> hap_encrypt A p (dc_writer ch) = (Ok out, w) \<Longrightarrow>
   writer_send A p ch = (Ok (), ch\<lparr>dc_writer := w, dc_written := dc_written ch @ [out]\<rparr>)"
  by (simp add: writer_send_def)

lemma handle_frames_works:
  "dc_faults ch = [] \<Longrightarrow> hap_send A (dc_writer ch) (acks ms) = Ok (out, w) \<Longrightarrow>
   \<exists>outs. concat outs = out \<and> handle_frames L A ms ch = (Ok (), ch\<lparr>dc_writer := w, dc_written := dc_written ch @ outs,
     dc_inbound := queued (dc_inbound ch) (payloads L ms)\<rparr>)"
proof (induction ms arbitrary: ch out)
  case Nil
  then show ?case by (intro exI [of _ "[]"]) (simp add: acks_def payloads_def queued_def map_filter_simps)
next
  case (Cons m ms)
  have ps: "payloads L (m # ms) = payloads L [m] @ payloads L ms" by (simp add: payloads_def map_filter_simps split: option.split)
  show ?case
  proof (cases "wants_reply (dm_header m)")
    case True
    let ?r = "data_reply (dh_seqno (dm_header m))"
    from True Cons.prems(2) obtain o1 w1 o2 where e: "hap_encrypt A ?r (dc_writer ch) = (Ok o1, w1)"
      and s: "hap_send A w1 (acks ms) = Ok (o2, w)" and o: "out = o1 @ o2"
      by (auto simp: acks_def rbind_Ok_iff split: prod.splits sum.splits)
    let ?ch = "ch\<lparr>dc_writer := w1, dc_written := dc_written ch @ [o1], dc_inbound := queued (dc_inbound ch) (payloads L [m])\<rparr>"
    from Cons.IH [of ?ch o2] s Cons.prems(1) obtain outs where
      "concat outs = o2" "handle_frames L A ms ?ch = (Ok (), ?ch\<lparr>dc_writer := w, dc_written := dc_written ?ch @ outs,
        dc_inbound := queued (dc_inbound ?ch) (payloads L ms)\<rparr>)" by auto
    with True o writer_sends [OF Cons.prems(1) e] show ?thesis
      by (intro exI [of _ "o1 # outs"]) (simp add: dispatch_queued queued_append ps)
  next
    case False
    let ?ch = "ch\<lparr>dc_inbound := queued (dc_inbound ch) (payloads L [m])\<rparr>"
    from False Cons.prems(2) have "hap_send A (dc_writer ?ch) (acks ms) = Ok (out, w)" by (simp add: acks_def)
    from Cons.IH [OF _ this] Cons.prems(1) obtain outs where
      "concat outs = out" "handle_frames L A ms ?ch = (Ok (), ?ch\<lparr>dc_writer := w, dc_written := dc_written ?ch @ outs,
        dc_inbound := queued (dc_inbound ?ch) (payloads L ms)\<rparr>)" by auto
    with False show ?thesis by (intro exI [of _ outs]) (simp add: dispatch_queued queued_append ps)
  qed
qed

text \<open>
  What comes out of a data stream whose bytes arrive in any cuts: the acknowledgements, the payloads, and the
  messages in them.
\<close>

section \<open>Reads\<close>

definition channel_run :: "plist_api \<Rightarrow> aead \<Rightarrow> channel_event list \<Rightarrow> data_channel \<Rightarrow> data_channel" where
  "channel_run L A evs ch = fold (channel_event L A) evs ch"

lemma acks_append: "acks (ms @ ns) = acks ms @ acks ns"
  by (simp add: acks_def)

lemma payloads_append: "payloads L (ms @ ns) = payloads L ms @ payloads L ns"
  by (induction ms) (simp_all add: payloads_def map_filter_simps split: option.split)

lemma reads_handled:
  assumes "dc_open ch" "dc_faults ch = []" "data_step () (dc_buffer ch) = More"
    and "hap_feed A (dc_reader ch) reads = Ok (plain, r)" "data_loop () (dc_buffer ch @ plain) = (ms, (), rest, None)"
    and "hap_send A (dc_writer ch) (acks ms) = Ok (out, w)"
  shows "\<exists>outs. concat outs = out \<and> channel_run L A (map Segment reads) ch = ch\<lparr>dc_reader := r, dc_buffer := rest, dc_writer := w,
    dc_written := dc_written ch @ outs, dc_inbound := queued (dc_inbound ch) (payloads L ms)\<rparr>"
  using assms
proof (induction reads arbitrary: ch plain ms out)
  case Nil
  then have "plain = []" "r = dc_reader ch" "ms = []" "rest = dc_buffer ch" by (simp_all add: data.loop_More)
  with Nil show ?case
    by (intro exI [of _ "[]"]) (simp add: channel_run_def acks_def payloads_def queued_def map_filter_simps)
next
  case (Cons bs reads)
  from Cons.prems(4) obtain p1 r1 p2 where d: "hap_decrypt A bs (dc_reader ch) = (Ok p1, r1)"
    and f: "hap_feed A r1 reads = Ok (p2, r)" and p: "plain = p1 @ p2"
    by (auto simp: rbind_Ok_iff split: prod.splits sum.splits)
  from data.loop_prefix [OF Cons.prems(5) [unfolded p append_assoc [symmetric]]] obtain ms1 b1 ms2 where
    l1: "data_loop () (dc_buffer ch @ p1) = (ms1, (), b1, None)" and l2: "data_loop () (b1 @ p2) = (ms2, (), rest, None)" and ms: "ms = ms1 @ ms2"
    by auto
  from Cons.prems(6) obtain o1 w1 o2 where s1: "hap_send A (dc_writer ch) (acks ms1) = Ok (o1, w1)"
    and s2: "hap_send A w1 (acks ms2) = Ok (o2, w)" and o: "out = o1 @ o2"
    by (auto simp: ms acks_append hap_send_append rbind_Ok_iff)
  let ?c = "ch\<lparr>dc_reader := r1, dc_buffer := dc_buffer ch @ p1\<rparr>"
  from handle_frames_works [of ?c A ms1 o1 w1 L] Cons.prems(2) s1 obtain outs1 where o1: "concat outs1 = o1"
    and h: "handle_frames L A ms1 ?c = (Ok (), ?c\<lparr>dc_writer := w1, dc_written := dc_written ?c @ outs1,
      dc_inbound := queued (dc_inbound ?c) (payloads L ms1)\<rparr>)" by auto
  let ?c1 = "ch\<lparr>dc_reader := r1, dc_buffer := b1, dc_writer := w1, dc_written := dc_written ch @ outs1,
    dc_inbound := queued (dc_inbound ch) (payloads L ms1)\<rparr>"
  have "drain L A ?c = (Ok (), ?c1)" using drain_handles [of ?c ms1 b1 L A, OF _ h] l1 by simp
  then have e: "channel_event L A (Segment bs) ch = ?c1" using d Cons.prems(1) by (simp add: channel_event_def)
  have "data_step () b1 = More" using data.loop_rest [OF l1] .
  with Cons.IH [of ?c1 p2 ms2 o2] Cons.prems(1,2) f l2 s2 obtain outs2 where "concat outs2 = o2"
    "channel_run L A (map Segment reads) ?c1 = ?c1\<lparr>dc_reader := r, dc_buffer := rest, dc_writer := w,
      dc_written := dc_written ?c1 @ outs2, dc_inbound := queued (dc_inbound ?c1) (payloads L ms2)\<rparr>" by auto
  with e o o1 show ?case
    by (intro exI [of _ "outs1 @ outs2"]) (simp add: channel_run_def ms payloads_append queued_append)
qed

text \<open>
  C31: Acknowledgements never wait. Whatever frames the peer's bytes hold and however they arrive, each frame that
  asks for a reply is answered with its own sequence number, once and in order, and the channel stays open, even
  when nobody reads the payloads: of those the queue takes what it has room for, in order, and loses the rest.
\<close>

theorem acks_never_wait:
  assumes "dc_open ch" and "dc_faults ch = []" and "dc_buffer ch = []"
    and "hap_feed A (dc_reader ch) reads = Ok (plain, r)" and "data_loop () plain = (ms, (), rest, None)"
    and "hap_send A (dc_writer ch) (map (\<lambda>m. data_reply (dh_seqno (dm_header m))) (filter (wants_reply o dm_header) ms)) = Ok (out, w)"
  shows "\<exists>outs. concat outs = out
    \<and> dc_written (channel_run L A (map Segment reads) ch) = dc_written ch @ outs
    \<and> dc_inbound (channel_run L A (map Segment reads) ch)
        = dc_inbound ch @ take (64 - length (dc_inbound ch)) (payloads L ms)
    \<and> dc_open (channel_run L A (map Segment reads) ch)"
proof -
  have "data_step () (dc_buffer ch) = More" using assms(3) by (simp add: data_step_def data_decode_def DATA_HEADER_LEN_def)
  moreover have "data_loop () (dc_buffer ch @ plain) = (ms, (), rest, None)" using assms(3,5) by simp
  moreover have "hap_send A (dc_writer ch) (acks ms) = Ok (out, w)" using assms(6) by (simp add: acks_def)
  ultimately obtain outs where "concat outs = out"
    "channel_run L A (map Segment reads) ch = ch\<lparr>dc_reader := r, dc_buffer := rest, dc_writer := w,
      dc_written := dc_written ch @ outs, dc_inbound := queued (dc_inbound ch) (payloads L ms)\<rparr>"
    using reads_handled [OF assms(1,2) _ assms(4)] by blast
  then show ?thesis using assms(1) by (intro exI [of _ outs]) (simp add: queued_def INBOUND_QUEUE_DEPTH_def)
qed

section \<open>Messages\<close>

fun recv_many :: "nat \<Rightarrow> data_channel \<Rightarrow> (airplay_error + bytes) option list" where
  "recv_many 0 ch = []"
| "recv_many (Suc n) ch = (case channel_recv ch of (r, ch') \<Rightarrow> r # recv_many n ch')"

lemma recv_pending:
  "dc_pending ch = ms @ ps \<Longrightarrow> recv_many (length ms + n) ch = map (Some o Ok) ms @ recv_many n (ch\<lparr>dc_pending := ps\<rparr>)"
proof (induction ms arbitrary: ch)
  case (Cons m ms)
  then have "channel_recv ch = (Some (Ok m), ch\<lparr>dc_pending := ms @ ps\<rparr>)" by (subst channel_recv.simps) simp
  with Cons.IH [of "ch\<lparr>dc_pending := ms @ ps\<rparr>"] show ?case by simp
next
  case Nil
  then have "ch\<lparr>dc_pending := ps\<rparr> = ch" by (cases ch) simp
  then show ?case by simp
qed

lemma recv_inbound:
  "dc_pending ch = [] \<Longrightarrow> dc_inbound ch = map f xs \<Longrightarrow> \<forall>x \<in> set xs. decode_messages (f x) = Ok (g x) \<Longrightarrow>
   recv_many (length (concat (map g xs))) ch = map (Some o Ok) (concat (map g xs))"
proof (induction xs arbitrary: ch)
  case (Cons x xs)
  let ?ch = "ch\<lparr>dc_inbound := map f xs\<rparr>"
  have one: "channel_recv ch = channel_recv (?ch\<lparr>dc_pending := g x\<rparr>)"
    using Cons.prems by (subst channel_recv.simps) simp
  then have "recv_many n ch = recv_many n (?ch\<lparr>dc_pending := g x\<rparr>)" for n by (cases n) simp_all
  moreover have "?ch\<lparr>dc_pending := g x\<rparr>\<lparr>dc_pending := []\<rparr> = ?ch" using Cons.prems(1) by (cases ch) simp
  moreover have "recv_many (length (concat (map g xs))) ?ch = map (Some o Ok) (concat (map g xs))"
    by (rule Cons.IH) (use Cons.prems in simp_all)
  ultimately show ?case
    using recv_pending [of "?ch\<lparr>dc_pending := g x\<rparr>" "g x" "[]" "length (concat (map g xs))"] by simp
qed simp

text \<open>The frames of a peer that sends groups of messages: a sequence number, the messages and their envelope.\<close>

type_synonym parcel = "u64 \<times> bytes list \<times> bytes"

definition good_parcel :: "plist_api \<Rightarrow> parcel \<Rightarrow> bool" where
  "good_parcel L = (\<lambda>(seqno, ms, env). encode_envelope L (encode_messages ms) = Ok env
     \<and> DATA_HEADER_LEN + length env \<le> DATA_MAX_FRAME_LEN
     \<and> (\<forall>m \<in> set ms. get_at m 0 = Some PROTOCOL_MESSAGE_TAG \<and> length m \<le> MAX_MESSAGE_LEN \<and> length m \<noteq> 8))"

definition parcel_message :: "parcel \<Rightarrow> data_message" where
  "parcel_message = (\<lambda>(seqno, ms, env). \<lparr>dm_header = sync_header seqno env, dm_payload = env\<rparr>)"

definition parcel_frame :: "parcel \<Rightarrow> bytes" where
  "parcel_frame = (\<lambda>(seqno, ms, env). encode_sync seqno env)"

lemma unat_frame_size: "DATA_HEADER_LEN + n \<le> DATA_MAX_FRAME_LEN \<Longrightarrow> unat (data_frame_size n) = DATA_HEADER_LEN + n"
proof -
  assume "DATA_HEADER_LEN + n \<le> DATA_MAX_FRAME_LEN"
  then have l: "DATA_HEADER_LEN + n < 2 ^ 32" by (simp add: DATA_MAX_FRAME_LEN_def)
  then have "data_frame_size n = word_of_nat (DATA_HEADER_LEN + n)" by (simp only: data_frame_size_def if_True)
  moreover have "unat (word_of_nat (DATA_HEADER_LEN + n) :: u32) = DATA_HEADER_LEN + n"
    unfolding unat_of_nat by (rule mod_less) (use l in simp)
  ultimately show ?thesis by simp
qed

lemma parcel_fits: "good_parcel L p \<Longrightarrow> data_fits (parcel_message p)"
  by (auto simp: good_parcel_def data_fits_def parcel_message_def sync_header_def unat_frame_size MESSAGE_TYPE_SYNC_def
      COMMAND_COMM_def lit_def split: prod.splits)

lemma parcels_decode:
  "list_all (good_parcel L) ps \<Longrightarrow> data_loop () (concat (map parcel_frame ps)) = (map parcel_message ps, (), [], None)"
proof -
  assume g: "list_all (good_parcel L) ps"
  have "send_all data_put () (map parcel_message ps) = Ok (concat (map parcel_frame ps), ())"
    by (induction ps) (auto simp: data_put_def parcel_message_def parcel_frame_def encode_sync_def)
  from data_pair.send_all_received [OF this] g show ?thesis by (auto simp: list_all_iff intro: parcel_fits)
qed

lemma parcel_acks: "acks (map parcel_message ps) = map (data_reply o fst) ps"
  by (induction ps) (auto simp: acks_def parcel_message_def sync_header_def wants_reply_def SYNC_PREFIX_def MESSAGE_TYPE_SYNC_def lit_def)

lemma parcel_payloads:
  "plist_ok L \<Longrightarrow> list_all (good_parcel L) ps \<Longrightarrow> payloads L (map parcel_message ps) = map (encode_messages o fst o snd) ps"
  by (induction ps) (auto simp: payloads_def map_filter_simps good_parcel_def parcel_message_def dest!: envelope_opens)

text \<open>
  C30: The tunnel delivers. A peer that faces the channel seals any groups of messages, each in an envelope of its
  own, no more than the queue holds, and the network cuts the bytes as it likes: then the consumer receives
  exactly these messages in order, each frame is acknowledged by its sequence number, and the channel stays open.
\<close>

theorem tunnel_delivers:
  assumes "aead_ok A" and "plist_ok L" and "list_all (good_parcel L) ps" and "length ps \<le> 64"
    and "hap_send A peer (map (\<lambda>(seqno, ms, env). encode_sync seqno env) ps) = Ok (wire, peer')" and "concat reads = wire"
    and "facing (hap_cipher peer) (hap_cipher (dc_reader ch))" and "hap_buffer (dc_reader ch) = []"
    and "dc_open ch" and "dc_faults ch = []" and "dc_buffer ch = []" and "dc_pending ch = []" and "dc_inbound ch = []"
    and "hap_send A (dc_writer ch) (map (\<lambda>(seqno, ms, env). data_reply seqno) ps) = Ok (out, w)"
  shows "recv_many (length (concat (map (\<lambda>(seqno, ms, env). ms) ps))) (channel_run L A (map Segment reads) ch)
      = map (Some o Ok) (concat (map (\<lambda>(seqno, ms, env). ms) ps))
    \<and> (\<exists>outs. concat outs = out \<and> dc_written (channel_run L A (map Segment reads) ch) = dc_written ch @ outs)
    \<and> dc_open (channel_run L A (map Segment reads) ch)"
proof -
  let ?msgs = "\<lambda>(seqno, ms, env). ms" and ?ch = "channel_run L A (map Segment reads) ch"
  have s: "hap_send A peer (map parcel_frame ps) = Ok (wire, peer')" using assms(5) by (simp add: parcel_frame_def)
  from hap_stream_delivers [OF assms(1) s assms(7,8,6)] obtain r where f: "hap_feed A (dc_reader ch) reads = Ok (concat (map parcel_frame ps), r)" by auto
  have o: "hap_send A (dc_writer ch) (acks (map parcel_message ps)) = Ok (out, w)"
    using assms(14) by (simp add: parcel_acks comp_def case_prod_unfold)
  have "data_step () (dc_buffer ch) = More" using assms(11) by (simp add: data_step_def data_decode_def DATA_HEADER_LEN_def)
  from reads_handled [OF assms(9,10) this f _ o, of "[]" L] obtain outs where
    c: "concat outs = out" "?ch = ch\<lparr>dc_reader := r, dc_buffer := [], dc_writer := w, dc_written := dc_written ch @ outs,
      dc_inbound := queued (dc_inbound ch) (payloads L (map parcel_message ps))\<rparr>"
    using parcels_decode [OF assms(3)] assms(11) by auto
  have q: "queued [] (payloads L (map parcel_message ps)) = map (encode_messages o fst o snd) ps"
    using assms(4) by (simp add: parcel_payloads [OF assms(2,3)] queued_def INBOUND_QUEUE_DEPTH_def)
  have d: "\<forall>p \<in> set ps. decode_messages ((encode_messages o fst o snd) p) = Ok (?msgs p)"
    using assms(3) messages_decode by (fastforce simp: list_all_iff good_parcel_def split_beta)
  have "recv_many (length (concat (map ?msgs ps))) ?ch = map (Some o Ok) (concat (map ?msgs ps))"
    by (rule recv_inbound [OF _ _ d]) (simp_all add: c(2) assms(12,13) q)
  with c assms(9) show ?thesis by auto
qed

text \<open>The memory a peer of the data stream can claim, and examples of the stream's properties.\<close>

section \<open>Bounds\<close>

lemma decode_None_bound: "data_decode b = Ok None \<Longrightarrow> length b < DATA_MAX_FRAME_LEN"
  by (auto simp: data_decode_def data_header_decode_def rbind_Ok_iff Let_def DATA_MAX_FRAME_LEN_def DATA_HEADER_LEN_def
      split: if_splits option.splits)

lemma writer_send_inbound: "writer_send A p ch = (r, ch') \<Longrightarrow> dc_inbound ch' = dc_inbound ch \<and> dc_reader ch' = dc_reader ch \<and> dc_buffer ch' = dc_buffer ch"
  by (auto simp: writer_send_def split: prod.splits sum.splits list.splits option.splits)

lemma dispatch_bound:
  "length (dc_inbound ch) \<le> INBOUND_QUEUE_DEPTH \<Longrightarrow> length (dc_inbound (dispatch L m ch)) \<le> INBOUND_QUEUE_DEPTH"
  "dc_reader (dispatch L m ch) = dc_reader ch"
  by (simp_all add: dispatch_def split: option.split)

lemma drain_bound:
  "drain L A ch = (Ok u, ch') \<Longrightarrow> length (dc_inbound ch) \<le> INBOUND_QUEUE_DEPTH \<Longrightarrow>
   data_decode (dc_buffer ch') = Ok None \<and> length (dc_inbound ch') \<le> INBOUND_QUEUE_DEPTH \<and> dc_reader ch' = dc_reader ch"
proof (induction "length (dc_buffer ch)" arbitrary: ch rule: less_induct)
  case less
  show ?case
  proof (cases "data_decode (dc_buffer ch)")
    case (Inl e)
    with less.prems(1) show ?thesis by (subst (asm) drain.simps) simp
  next
    case (Inr d)
    show ?thesis
    proof (cases d)
      case None
      with Inr less.prems show ?thesis by (subst (asm) drain.simps) simp
    next
      case (Some p)
      obtain m rest where p: "p = (m, rest)" by (cases p)
      let ?send = "if wants_reply (dm_header m) then writer_send A (data_reply (dh_seqno (dm_header m))) (ch\<lparr>dc_buffer := rest\<rparr>)
                 else (Ok (), ch\<lparr>dc_buffer := rest\<rparr>)"
      obtain r c where w: "?send = (r, c)" by (cases ?send)
      then have c: "dc_inbound c = dc_inbound ch" "dc_reader c = dc_reader ch" "dc_buffer c = rest"
        by (auto split: if_splits dest: writer_send_inbound)
      have step: "drain L A ch = (case r of Err e \<Rightarrow> (Err e, c) | Ok _ \<Rightarrow> drain L A (if dm_payload m \<noteq> [] then dispatch L m c else c))"
        by (subst drain.simps) (simp add: Inr Some p w split: sum.split)
      show ?thesis
      proof (cases r)
        case (Inl e)
        with step less.prems(1) show ?thesis by simp
      next
        case r: (Inr v)
        let ?c = "if dm_payload m \<noteq> [] then dispatch L m c else c"
        have "drain L A ?c = (Ok u, ch')" using step less.prems(1) r by simp
        moreover have q: "length (dc_inbound ?c) \<le> INBOUND_QUEUE_DEPTH" "dc_reader ?c = dc_reader ch" "dc_buffer ?c = rest"
          using c less.prems(2) dispatch_bound by simp_all
        moreover have "length rest < length (dc_buffer ch)" using data_decode_Some [of "dc_buffer ch" m rest] Inr Some p by auto
        ultimately show ?thesis using less.hyps [of ?c] by simp
      qed
    qed
  qed
qed

lemma hap_More_bound: "hap_step A c b = More \<Longrightarrow> length b < 65553"
proof -
  assume m: "hap_step A c b = More"
  show ?thesis
  proof (cases "length b < 2")
    case False
    then have l: "get_range b 0 2 = Some (take 2 b)" by (simp add: get_range_def)
    have "length (take 2 b) = 2" using False by simp
    then have "le_nat (take 2 b) < 256 ^ 2" using le_nat_bound [of "take 2 b"] by simp
    then have "le_nat (take 2 b) < 65536" by simp
    with m l show ?thesis
      by (auto simp: hap_step_def Let_def LENGTH_PREFIX_LEN_def AUTH_TAG_LENGTH_def get_range_def split: if_splits prod.splits sum.splits)
  qed simp
qed

definition channel_bounded :: "data_channel \<Rightarrow> bool" where
  "channel_bounded ch \<longleftrightarrow> length (dc_buffer ch) < DATA_MAX_FRAME_LEN \<and> length (dc_inbound ch) \<le> INBOUND_QUEUE_DEPTH
     \<and> length (hap_buffer (dc_reader ch)) < 65553"

lemma event_bounded:
  assumes "channel_bounded ch" "dc_open (channel_event L A ev ch)"
  shows "channel_bounded (channel_event L A ev ch)"
proof (cases ev)
  case (Segment bs)
  show ?thesis
  proof (cases "dc_open ch")
    case True
    obtain r s where d: "hap_decrypt A bs (dc_reader ch) = (r, s)" by (cases "hap_decrypt A bs (dc_reader ch)")
    with assms(2) True Segment obtain plain where r: "r = Ok plain" by (cases r) (auto simp: channel_event_def)
    let ?c = "ch\<lparr>dc_reader := s, dc_buffer := dc_buffer ch @ plain\<rparr>"
    obtain v ch' where v: "drain L A ?c = (v, ch')" by (cases "drain L A ?c")
    with assms(2) True Segment d r obtain u where u: "v = Ok u" "channel_event L A ev ch = ch'"
      by (cases v) (auto simp: channel_event_def)
    have "hap_step A (hap_cipher s) (hap_buffer s) = More"
      using d r by (auto simp: hap_decrypt_def Let_def split: prod.splits option.splits dest: hap.loop_rest)
    with drain_bound [OF v [unfolded u]] assms(1) show ?thesis
      using hap_More_bound decode_None_bound by (auto simp: channel_bounded_def u)
  qed (use assms in \<open>simp add: channel_event_def\<close>)
next
  case WriteNext
  with assms show ?thesis
    by (auto simp: channel_event_def channel_bounded_def split: list.splits prod.splits sum.splits if_splits
        dest!: writer_send_inbound)
qed (use assms in \<open>auto simp: channel_event_def channel_bounded_def split: if_splits\<close>)

lemma closed_stays: "\<not> dc_open ch \<Longrightarrow> channel_run L A evs ch = ch"
  by (induction evs arbitrary: ch) (simp_all add: channel_run_def channel_event_def)

text \<open>
  C32: A peer cannot make the channel grow. Whatever bytes arrive in whatever cuts, and whatever is written in
  between, as long as the channel is open it holds less than the eight mebibytes of the largest frame in its
  reassembly buffer, at most 64 payloads nobody has read, and less than one sealed block that is not complete.
\<close>

theorem channel_memory_bounded:
  assumes "dc_buffer ch = []" and "dc_inbound ch = []" and "hap_buffer (dc_reader ch) = []"
    and "dc_open (channel_run L A evs ch)"
  shows "length (dc_buffer (channel_run L A evs ch)) < 8 * 1024 * 1024
    \<and> length (dc_inbound (channel_run L A evs ch)) \<le> 64
    \<and> length (hap_buffer (dc_reader (channel_run L A evs ch))) < 65553"
proof -
  have "channel_bounded ch" using assms(1-3) by (simp add: channel_bounded_def DATA_MAX_FRAME_LEN_def)
  then have "channel_bounded (channel_run L A evs ch)" using assms(4)
  proof (induction evs arbitrary: ch)
    case (Cons ev evs)
    have "dc_open (channel_event L A ev ch)"
      using Cons.prems(2) closed_stays [of "channel_event L A ev ch" L A evs] by (cases "dc_open (channel_event L A ev ch)") (auto simp: channel_run_def)
    with Cons event_bounded show ?case by (simp add: channel_run_def)
  qed (simp add: channel_run_def)
  then show ?thesis by (simp add: channel_bounded_def DATA_MAX_FRAME_LEN_def INBOUND_QUEUE_DEPTH_def)
qed

section \<open>Examples\<close>

definition toy_plist :: plist_api where
  "toy_plist = \<lparr>
     plist_write = (\<lambda>v. case v of
        PlDictionary [(k, PlDictionary [(k', PlData d)])] \<Rightarrow>
          if k = lit ''params'' \<and> k' = lit ''data'' then Some (1 # d) else None
      | _ \<Rightarrow> None),
     plist_read = (\<lambda>bs. case bs of
        b # d \<Rightarrow> if b = 1 then Some (PlDictionary [(lit ''params'', PlDictionary [(lit ''data'', PlData d)])]) else None
      | [] \<Rightarrow> None)\<rparr>"

lemma toy_plist_ok: "plist_ok toy_plist"
  by (auto simp: plist_ok_def toy_plist_def split: plist_value.splits list.splits prod.splits if_splits)

definition demo_channel :: data_channel where
  "demo_channel = \<lparr>dc_reader = hap_new [1] [2], dc_writer = hap_new [1] [2], dc_buffer = [], dc_inbound = [], dc_outbound = [],
     dc_pending = [], dc_seqno = 4294967296, dc_policy = SeqnoFixed, dc_open = True, dc_written = [], dc_faults = []\<rparr>"

definition demo_parcel :: parcel where
  "demo_parcel = (7, [[8, 1], [8, 2, 3]], 1 # encode_messages [[8, 1], [8, 2, 3]])"

lemma demo_good: "list_all (good_parcel toy_plist) [demo_parcel]"
proof -
  have "length (encode_messages [[8, 1], [8, 2, 3]]) \<le> 25"
    using length_variant_write [of 2] length_variant_write [of 3] by (simp add: encode_messages_def write_variant_eq VARINT_MAX_LEN_def)
  then show ?thesis
    by (simp add: demo_parcel_def good_parcel_def encode_envelope_def toy_plist_def ok_or_def DATA_HEADER_LEN_def DATA_MAX_FRAME_LEN_def
        get_at_def PROTOCOL_MESSAGE_TAG_def MAX_MESSAGE_LEN_def)
qed

lemma demo_frame: "encode_sync 7 (snd (snd demo_parcel)) \<noteq> []" "length (encode_sync 7 (snd (snd demo_parcel))) \<le> 1024"
proof -
  have "length (snd (snd demo_parcel)) \<le> 26"
    using length_variant_write [of 2] length_variant_write [of 3]
    by (simp add: demo_parcel_def encode_messages_def write_variant_eq VARINT_MAX_LEN_def)
  then show "encode_sync 7 (snd (snd demo_parcel)) \<noteq> []" "length (encode_sync 7 (snd (snd demo_parcel))) \<le> 1024"
    by (simp_all add: encode_sync_def data_encode_def data_header_encode_def sync_header_def MESSAGE_TYPE_SYNC_def
        COMMAND_COMM_def lit_def)
qed

lemma demo_ack: "\<exists>out w. hap_send toy_aead (dc_writer demo_channel) [data_reply 7] = Ok (out, w) \<and> out \<noteq> []"
  by (rule toy_seals) (simp_all add: data_reply_def data_encode_def data_header_encode_def reply_header_def MESSAGE_TYPE_REPLY_def
      COMMAND_NONE_def lit_def demo_channel_def hap_new_def cipher_new_def)

lemma demo_wire: "\<exists>wire peer'. hap_send toy_aead (hap_new [2] [1]) [encode_sync 7 (snd (snd demo_parcel))] = Ok (wire, peer') \<and> wire \<noteq> []"
  by (rule toy_seals [OF demo_frame]) (simp add: hap_new_def cipher_new_def)

lemma channel_memory_bounded_witness:
  "length (dc_buffer (channel_run toy_plist toy_aead [WriteNext, Segment [1]] demo_channel)) < 8 * 1024 * 1024"
proof -
  have "hap_decrypt toy_aead [1] (hap_new [1] [2]) = (Ok [], hap_new [1] [2]\<lparr>hap_buffer := [1]\<rparr>)"
    by (simp add: hap_decrypt_def hap_new_def hap_loop.simps hap_step_More_bytes Let_def)
  then have "dc_open (channel_run toy_plist toy_aead [WriteNext, Segment [1]] demo_channel)"
    by (simp add: channel_run_def channel_event_def demo_channel_def drain.simps data_decode_def DATA_HEADER_LEN_def)
  with channel_memory_bounded [of demo_channel toy_plist toy_aead "[WriteNext, Segment [1]]"] show ?thesis
    by (simp add: demo_channel_def hap_new_def)
qed

lemma tunnel_delivers_witness:
  "\<exists>reads. 1 < length reads \<and> recv_many 2 (channel_run toy_plist toy_aead (map Segment reads) demo_channel)
     = [Some (Ok [8, 1]), Some (Ok [8, 2, 3])]"
proof -
  from demo_wire obtain wire peer' where w: "hap_send toy_aead (hap_new [2] [1]) [encode_sync 7 (snd (snd demo_parcel))] = Ok (wire, peer')" by blast
  from demo_ack obtain out w' where a: "hap_send toy_aead (dc_writer demo_channel) [data_reply 7] = Ok (out, w')" by blast
  have "facing (hap_cipher (hap_new [2] [1])) (hap_cipher (dc_reader demo_channel))"
    by (simp add: demo_channel_def hap_new_def facing_new)
  with tunnel_delivers [OF toy_aead_ok toy_plist_ok demo_good _ _ _ this, of wire peer' "[take 7 wire, drop 7 wire]" out w'] w a
  have "recv_many 2 (channel_run toy_plist toy_aead (map Segment [take 7 wire, drop 7 wire]) demo_channel)
     = [Some (Ok [8, 1]), Some (Ok [8, 2, 3])]"
    by (simp add: demo_parcel_def demo_channel_def hap_new_def numeral_2_eq_2)
  then show ?thesis by (intro exI [of _ "[take 7 wire, drop 7 wire]"]) simp
qed

text \<open>A queue that is full: the frame is acknowledged all the same, and its payload is lost.\<close>

lemma acks_never_wait_witness:
  "\<exists>reads. let ch = channel_run toy_plist toy_aead (map Segment reads) (demo_channel\<lparr>dc_inbound := replicate 64 []\<rparr>) in
     concat (dc_written ch) \<noteq> [] \<and> dc_inbound ch = replicate 64 [] \<and> dc_open ch"
proof -
  let ?ch = "demo_channel\<lparr>dc_inbound := replicate 64 []\<rparr>"
  from demo_wire obtain wire peer' where w: "hap_send toy_aead (hap_new [2] [1]) [encode_sync 7 (snd (snd demo_parcel))] = Ok (wire, peer')" by blast
  have f: "facing (hap_cipher (hap_new [2] [1])) (hap_cipher (dc_reader ?ch))" "hap_buffer (dc_reader ?ch) = []"
    by (simp_all add: demo_channel_def hap_new_def facing_new)
  from hap_stream_delivers [OF toy_aead_ok w f, of "[take 7 wire, drop 7 wire]"] obtain r where
    h: "hap_feed toy_aead (dc_reader ?ch) [take 7 wire, drop 7 wire] = Ok (encode_sync 7 (snd (snd demo_parcel)), r)" by auto
  have l: "data_loop () (encode_sync 7 (snd (snd demo_parcel))) = ([parcel_message demo_parcel], (), [], None)"
    using parcels_decode [OF demo_good] by (simp add: parcel_frame_def demo_parcel_def)
  have k: "map (\<lambda>m. data_reply (dh_seqno (dm_header m))) (filter (wants_reply o dm_header) [parcel_message demo_parcel]) = [data_reply 7]"
    using parcel_acks [of "[demo_parcel]"] by (simp add: acks_def demo_parcel_def)
  from demo_ack obtain out w' where a: "hap_send toy_aead (dc_writer ?ch) [data_reply 7] = Ok (out, w')" "out \<noteq> []" by auto
  have s: "dc_open ?ch" "dc_faults ?ch = []" "dc_buffer ?ch = []" by (simp_all add: demo_channel_def)
  from acks_never_wait [OF s h l, unfolded k, OF a(1), of toy_plist] a(2) show ?thesis
    by (intro exI [of _ "[take 7 wire, drop 7 wire]"]) (auto simp: Let_def demo_channel_def)
qed

end
