(* ===== verification/Airplay_Codec.thy ===== *)
theory Airplay_Codec
  imports Rust_Str Framing Airplay_Error
begin

text \<open>
  The RTSP/HTTP codec of the AirPlay client (\<open>pyatv-proto-airplay\<close>: \<open>codec.rs\<close>, \<open>codec/parse.rs\<close>,
  \<open>http/request.rs\<close>): both roles' messages, the encoder, the parser that works on whatever has arrived, and
  the order of the headers of a request. Strings are their UTF-8 bytes; the text of a UTF-8 error is left out.
\<close>

section \<open>Messages\<close>

definition CONTENT_LENGTH :: bytes where "CONTENT_LENGTH = lit ''Content-Length''"
definition CONTENT_TYPE :: bytes where "CONTENT_TYPE = lit ''Content-Type''"
definition BPLIST_CONTENT_TYPE :: bytes where "BPLIST_CONTENT_TYPE = lit ''application/x-apple-binary-plist''"
definition USER_AGENT :: bytes where "USER_AGENT = lit ''AirPlay/550.10''"
definition HTTP_1_1 :: bytes where "HTTP_1_1 = lit ''HTTP/1.1''"
definition RTSP_1_0 :: bytes where "RTSP_1_0 = lit ''RTSP/1.0''"
definition AIR_MAX_BODY_LEN :: nat where "AIR_MAX_BODY_LEN = 8 * 1024 * 1024"

type_synonym headers = "(bytes \<times> bytes) list"

record air_request =
  aq_method :: bytes
  aq_uri :: bytes
  aq_protocol :: bytes
  aq_headers :: headers
  aq_body :: bytes

record air_response =
  ar_protocol :: bytes
  ar_status :: u16
  ar_reason :: bytes
  ar_headers :: headers
  ar_body :: bytes

definition header_lookup :: "bytes \<Rightarrow> headers \<Rightarrow> bytes option" where
  "header_lookup name hs = map_option snd (find (\<lambda>(key, _). eq_ignore_ascii_case key name) hs)"

definition response_header :: "air_response \<Rightarrow> bytes \<Rightarrow> bytes option" where
  "response_header r name = header_lookup name (ar_headers r)"

definition response_is_success :: "air_response \<Rightarrow> bool" where
  "response_is_success r \<longleftrightarrow> 200 \<le> ar_status r \<and> ar_status r < 300"

datatype air_frame = FRequest air_request | FResponse air_response

fun frame_headers :: "air_frame \<Rightarrow> headers" where
  "frame_headers (FRequest q) = aq_headers q"
| "frame_headers (FResponse r) = ar_headers r"

fun frame_body :: "air_frame \<Rightarrow> bytes" where
  "frame_body (FRequest q) = aq_body q"
| "frame_body (FResponse r) = ar_body r"

fun start_line :: "air_frame \<Rightarrow> bytes" where
  "start_line (FRequest q) = aq_method q @ [32] @ aq_uri q @ [32] @ aq_protocol q"
| "start_line (FResponse r) = ar_protocol r @ [32] @ decimal (unat (ar_status r)) @ [32] @ ar_reason r"

definition encode_air_frame :: "air_frame \<Rightarrow> bytes" where
  "encode_air_frame f = start_line f @ concat (map (\<lambda>(name, content). crlf @ name @ lit '': '' @ content) (frame_headers f))
     @ crlf2 @ frame_body f"

section \<open>Parsing\<close>

datatype start_line_shape = LineResponse bytes u16 bytes | LineRequest bytes bytes bytes

text \<open>\<open>splitn(3, ' ')\<close> is two splits at the first space.\<close>

definition parse_start_line :: "bytes \<Rightarrow> airplay_error + start_line_shape" where
  "parse_start_line line = (case split_once 32 line of
     None \<Rightarrow> Err (AMalformed (lit ''bad start line: '' @ line))
   | Some (first, tail) \<Rightarrow>
       let (second, rest) = (case split_once 32 tail of None \<Rightarrow> (tail, []) | Some p \<Rightarrow> p) in
       if 47 \<in> set first \<and> second \<noteq> [] \<and> list_all is_digit second
       then (case parse_radix 10 65535 second of
           None \<Rightarrow> Err (AMalformed (lit ''status code out of range: '' @ second))
         | Some status \<Rightarrow> Ok (LineResponse first (word_of_nat status) rest))
       else if rest = [] then Err (AMalformed (lit ''bad start line: '' @ line))
       else Ok (LineRequest first second rest))"

definition parse_header :: "bytes \<Rightarrow> airplay_error + bytes \<times> bytes" where
  "parse_header line = (case split_once 58 line of
     None \<Rightarrow> Err (AMalformed (lit ''header line has no colon: '' @ line))
   | Some (name, content) \<Rightarrow> Ok (trim name, trim_start content))"

definition content_length :: "headers \<Rightarrow> airplay_error + nat" where
  "content_length hs = (case header_lookup CONTENT_LENGTH hs of
     None \<Rightarrow> Ok 0
   | Some content \<Rightarrow> (case parse_usize (trim content) of
       None \<Rightarrow> Err (AMalformed (lit ''bad Content-Length: '' @ content))
     | Some len \<Rightarrow>
         if len > AIR_MAX_BODY_LEN
         then Err (AMalformed (lit ''Content-Length '' @ decimal len @ lit '' exceeds the '' @ decimal AIR_MAX_BODY_LEN @ lit '' byte limit''))
         else Ok len))"

fun shaped_frame :: "start_line_shape \<Rightarrow> headers \<Rightarrow> bytes \<Rightarrow> air_frame" where
  "shaped_frame (LineResponse p s r) hs body = FResponse \<lparr>ar_protocol = p, ar_status = s, ar_reason = r, ar_headers = hs, ar_body = body\<rparr>"
| "shaped_frame (LineRequest m u p) hs body = FRequest \<lparr>aq_method = m, aq_uri = u, aq_protocol = p, aq_headers = hs, aq_body = body\<rparr>"

definition parse_frame :: "bytes \<Rightarrow> airplay_error + (air_frame \<times> nat) option" where
  "parse_frame input = (case find_sub crlf2 input of
     None \<Rightarrow> Ok None
   | Some boundary \<Rightarrow>
       let body_start = boundary + length crlf2; block = take boundary input in
       if \<not> utf8_valid block then Err (AMalformed (lit ''header block is not UTF-8''))
       else let lines = split_sub crlf block in
         rbind (collect_results (map parse_header (filter (\<lambda>l. l \<noteq> []) (tl lines)))) (\<lambda>hs.
         rbind (content_length hs) (\<lambda>len.
         case checked_add body_start len of
           None \<Rightarrow> Err (AMalformed (lit ''Content-Length overflows the buffer''))
         | Some body_end \<Rightarrow> (case get_range input body_start body_end of
             None \<Rightarrow> Ok None
           | Some body \<Rightarrow> rbind (parse_start_line (hd lines)) (\<lambda>line. Ok (Some (shaped_frame line hs body, body_end)))))))"

section \<open>Requests\<close>

record request_spec =
  rs_method :: bytes
  rs_uri :: bytes
  rs_protocol :: bytes
  rs_user_agent :: "bytes option"
  rs_content_type :: "bytes option"
  rs_headers :: headers
  rs_body :: bytes
  rs_allow_error :: bool

definition spec_default :: request_spec where
  "spec_default = \<lparr>rs_method = lit ''POST'', rs_uri = lit ''/'', rs_protocol = HTTP_1_1, rs_user_agent = None, rs_content_type = None,
     rs_headers = [], rs_body = [], rs_allow_error = False\<rparr>"

text \<open>The default agent names the version of the crate, which the build supplies.\<close>

definition build_request :: "bytes \<Rightarrow> request_spec \<Rightarrow> air_request" where
  "build_request default_agent spec = \<lparr>aq_method = rs_method spec, aq_uri = rs_uri spec, aq_protocol = rs_protocol spec,
     aq_headers =
       (if list_ex (\<lambda>(name, _). eq_ignore_ascii_case name (lit ''User-Agent'')) (rs_headers spec) then []
        else [(lit ''User-Agent'', case rs_user_agent spec of None \<Rightarrow> default_agent | Some a \<Rightarrow> a)])
       @ (case rs_content_type spec of None \<Rightarrow> [] | Some t \<Rightarrow> [(CONTENT_TYPE, t)])
       @ (if rs_body spec = [] then [] else [(CONTENT_LENGTH, decimal (length (rs_body spec)))])
       @ rs_headers spec,
     aq_body = rs_body spec\<rparr>"

section \<open>Round trip\<close>

text \<open>Text that can stand in a line: UTF-8 without a carriage return.\<close>

definition line_text :: "bytes \<Rightarrow> bool" where
  "line_text s \<longleftrightarrow> utf8_valid s \<and> 13 \<notin> set s"

definition clean_header :: "bytes \<times> bytes \<Rightarrow> bool" where
  "clean_header = (\<lambda>(name, content). line_text name \<and> line_text content \<and> 58 \<notin> set name \<and> trim name = name
     \<and> trim_start content = content)"

fun clean_start :: "air_frame \<Rightarrow> bool" where
  "clean_start (FRequest q) \<longleftrightarrow> line_text (aq_method q) \<and> line_text (aq_uri q) \<and> line_text (aq_protocol q)
     \<and> 32 \<notin> set (aq_method q) \<and> 32 \<notin> set (aq_uri q) \<and> aq_protocol q \<noteq> []
     \<and> \<not> (47 \<in> set (aq_method q) \<and> aq_uri q \<noteq> [] \<and> list_all is_digit (aq_uri q))"
| "clean_start (FResponse r) \<longleftrightarrow> line_text (ar_protocol r) \<and> line_text (ar_reason r) \<and> 32 \<notin> set (ar_protocol r)
     \<and> 47 \<in> set (ar_protocol r)"

definition clean_frame :: "air_frame \<Rightarrow> bool" where
  "clean_frame f \<longleftrightarrow> clean_start f \<and> list_all clean_header (frame_headers f)
     \<and> content_length (frame_headers f) = Ok (length (frame_body f)) \<and> length (encode_air_frame f) \<le> usize_max"

definition header_line' :: "bytes \<times> bytes \<Rightarrow> bytes" where
  "header_line' = (\<lambda>(name, content). name @ lit '': '' @ content)"

definition head_lines :: "air_frame \<Rightarrow> bytes list" where
  "head_lines f = start_line f # map header_line' (frame_headers f)"

lemma encode_air_frame_lines: "encode_air_frame f = join crlf (head_lines f) @ crlf2 @ frame_body f"
proof -
  have "concat (map (\<lambda>(name, content). crlf @ name @ lit '': '' @ content) hs) = concat (map (\<lambda>h. crlf @ header_line' h) hs)" for hs
    by (induction hs) (auto simp: header_line'_def)
  moreover have "join crlf (w # ws) = w @ concat (map (\<lambda>v. crlf @ v) ws)" for w and ws :: "bytes list"
    by (induction ws arbitrary: w) simp_all
  ultimately show ?thesis by (simp add: encode_air_frame_def head_lines_def comp_def)
qed

lemma utf8_valid_concat: "list_all utf8_valid ws \<Longrightarrow> utf8_valid (concat ws)"
  by (induction ws) (simp_all add: utf8_valid_append)

lemma utf8_valid_joined: "list_all utf8_valid ws \<Longrightarrow> utf8_valid sep \<Longrightarrow> utf8_valid (join sep ws)"
  by (induction sep ws rule: join.induct) (simp_all add: utf8_valid_append)

lemma decimal_clean: "line_text (decimal n) \<and> 32 \<notin> set (decimal n) \<and> list_all is_digit (decimal n) \<and> decimal n \<noteq> []"
proof -
  have "b \<in> set (decimal n) \<Longrightarrow> is_digit b" for b using decimal_digits [of n] by (simp add: list_all_iff)
  then have "ascii (decimal n)" "13 \<notin> set (decimal n)" "32 \<notin> set (decimal n)"
    by (force simp: ascii_def is_digit_def word_le_nat_alt)+
  then show ?thesis using decimal_digits decimal_not_Nil by (simp add: line_text_def utf8_valid_ascii)
qed

lemma start_line_clean: "clean_start f \<Longrightarrow> line_text (start_line f) \<and> start_line f \<noteq> []"
  using decimal_clean by (cases f) (auto simp: line_text_def utf8_valid_append)

lemma header_line_clean: "clean_header h \<Longrightarrow> line_text (header_line' h) \<and> header_line' h \<noteq> []"
  by (auto simp: clean_header_def header_line'_def line_text_def utf8_valid_append)

lemma trim_start_space: "trim_start content = content \<Longrightarrow> trim_start (32 # content) = content"
  unfolding trim_start_def by (subst trim_with.simps) (simp add: white_space_def prefix_def)

lemma header_parses: "clean_header h \<Longrightarrow> parse_header (header_line' h) = Ok h"
  by (auto simp: clean_header_def parse_header_def header_line'_def split_once_first trim_start_space)

lemma start_line_parses:
  "clean_start f \<Longrightarrow> \<exists>line. parse_start_line (start_line f) = Ok line \<and> shaped_frame line (frame_headers f) (frame_body f) = f"
proof (cases f)
  case (FRequest q)
  assume c: "clean_start f"
  with FRequest have "parse_start_line (start_line f) = Ok (LineRequest (aq_method q) (aq_uri q) (aq_protocol q))"
    by (auto simp: parse_start_line_def split_once_first)
  with FRequest show ?thesis by auto
next
  case (FResponse r)
  assume c: "clean_start f"
  let ?d = "decimal (unat (ar_status r))"
  have "unat (ar_status r) \<le> 65535" using unat_u16_bound [of "ar_status r"] by simp
  with c FResponse decimal_clean [of "unat (ar_status r)"]
  have "parse_start_line (start_line f) = Ok (LineResponse (ar_protocol r) (ar_status r) (ar_reason r))"
    by (simp add: parse_start_line_def split_once_first parse_decimal)
  with FResponse show ?thesis by auto
qed

lemma clean_frame_parses:
  assumes "clean_frame f"
  shows "parse_frame (encode_air_frame f @ rest) = Ok (Some (f, length (encode_air_frame f)))"
proof -
  let ?ws = "head_lines f" and ?n = "length (join crlf (head_lines f))"
  from assms have c: "clean_start f" "list_all clean_header (frame_headers f)"
    "content_length (frame_headers f) = Ok (length (frame_body f))" by (simp_all add: clean_frame_def)
  have ws: "\<forall>w \<in> set ?ws. w \<noteq> [] \<and> 13 \<notin> set w" "list_all utf8_valid ?ws" "?ws \<noteq> []"
    using start_line_clean [OF c(1)] c(2) header_line_clean by (auto simp: head_lines_def list_all_iff line_text_def)
  have e: "encode_air_frame f @ rest = join crlf ?ws @ crlf2 @ frame_body f @ rest" by (simp add: encode_air_frame_lines)
  have f: "find_sub crlf2 (encode_air_frame f @ rest) = Some ?n" unfolding e by (rule find_head_end_lines [OF ws(3,1)])
  have u: "utf8_valid (join crlf ?ws)" by (rule utf8_valid_joined [OF ws(2)]) (simp add: crlf_def)
  have s: "split_sub crlf (join crlf ?ws) = ?ws" using ws by (intro split_sub_join) (auto simp: crlf_def)
  have fl: "filter (\<lambda>l. l \<noteq> []) (tl ?ws) = map header_line' (frame_headers f)"
    using c(2) header_line_clean by (auto simp: head_lines_def list_all_iff intro!: filter_True)
  have h: "collect_results (map (parse_header o header_line') (frame_headers f)) = Ok (frame_headers f)"
  proof -
    have "map (parse_header o header_line') (frame_headers f) = map Ok (frame_headers f)"
      using c(2) header_parses by (auto simp: list_all_iff)
    then show ?thesis by (simp only: collect_results_Ok)
  qed
  have n: "?n + 4 + length (frame_body f) \<le> usize_max"
    using assms by (simp add: clean_frame_def encode_air_frame_lines crlf2_def)
  obtain line where "parse_start_line (start_line f) = Ok line" "shaped_frame line (frame_headers f) (frame_body f) = f"
    using start_line_parses [OF c(1)] by blast
  moreover have "get_range (encode_air_frame f @ rest) (?n + 4) (?n + 4 + length (frame_body f)) = Some (frame_body f)"
    by (simp add: encode_air_frame_lines get_range_def crlf2_def)
  moreover have "take ?n (encode_air_frame f @ rest) = join crlf ?ws" by (simp add: e)
  moreover have "hd ?ws = start_line f" by (simp add: head_lines_def)
  moreover have "length (encode_air_frame f) = ?n + 4 + length (frame_body f)" by (simp add: encode_air_frame_lines crlf2_def)
  moreover have "length crlf2 = 4" by (simp add: crlf2_def)
  ultimately show ?thesis
    using n by (simp add: parse_frame_def f u s fl h c(3) Let_def checked_add_def)
qed

end
