(* ===== verification/Airplay_Http.thy ===== *)
theory Airplay_Http
  imports Airplay_Codec Hap_Session
begin

text \<open>
  The connection of the AirPlay client (\<open>pyatv-proto-airplay\<close>: \<open>http.rs\<close>): one request at a time, in
  clear or through a HAP session, and the response read out of whatever the receiver sends. A read is what one
  \<open>read\<close> of the socket returns; when the reads run out before a response, the request times out.
\<close>

section \<open>The parser on a stream\<close>

definition air_step :: "unit \<Rightarrow> bytes \<Rightarrow> (airplay_error, air_frame, unit) frame_step" where
  "air_step u b = (case parse_frame b of Err e \<Rightarrow> Bad e () | Ok None \<Rightarrow> More | Ok (Some (f, n)) \<Rightarrow> Frame f () n)"

lemma parse_frame_consumed: "parse_frame b = Ok (Some (f, n)) \<Longrightarrow> 0 < n \<and> n \<le> length b"
  by (auto simp: parse_frame_def Let_def rbind_Ok_iff crlf2_def checked_add_def get_range_def split: option.splits if_splits)

lemma parse_frame_stable:
  assumes "parse_frame b \<noteq> Ok None"
  shows "parse_frame (b @ x) = parse_frame b"
proof -
  from assms obtain k where k: "find_sub crlf2 b = Some k" by (cases "find_sub crlf2 b") (auto simp: parse_frame_def)
  from find_sub_Some [OF k] have t: "take k (b @ x) = take k b" "k - length b = 0" by simp_all
  let ?hs = "collect_results (map parse_header (filter (\<lambda>l. l \<noteq> []) (tl (split_sub crlf (take k b)))))"
  note unfold = parse_frame_def [of "b @ x"] parse_frame_def [of b] find_sub_append [OF k] k t
  show ?thesis
  proof (cases "utf8_valid (take k b)")
    case u: True
    show ?thesis
    proof (cases ?hs)
      case (Inl e)
      with u show ?thesis by (simp add: unfold Let_def)
    next
      case h: (Inr hs)
      show ?thesis
      proof (cases "content_length hs")
        case (Inl e)
        with u h show ?thesis by (simp add: unfold Let_def)
      next
        case l: (Inr len)
        show ?thesis
        proof (cases "checked_add (k + length crlf2) len")
          case None
          with u h l show ?thesis by (simp add: unfold Let_def)
        next
          case e: (Some finish)
          from assms u h l e obtain body where "get_range b (k + length crlf2) finish = Some body"
            by (cases "get_range b (k + length crlf2) finish") (simp_all add: unfold Let_def)
          with u h l e get_range_append [OF this, of x] show ?thesis by (simp add: unfold Let_def)
        qed
      qed
    qed
  qed (simp add: unfold Let_def)
qed

function air_loop :: "unit \<Rightarrow> bytes \<Rightarrow> (airplay_error, air_frame, unit) drained" where
  "air_loop () b = (case air_step () b of
     More \<Rightarrow> ([], (), b, None)
   | Bad e u' \<Rightarrow> ([], u', b, Some e)
   | Frame f u' n \<Rightarrow> add_frame f (air_loop u' (drop n b)))"
  by pat_completeness auto
termination
  by (relation "measure (\<lambda>(_, b). length b)")
    (auto simp: air_step_def split: sum.splits option.splits prod.splits dest!: parse_frame_consumed)

declare air_loop.simps [simp del]

interpretation air: stream_codec air_step air_loop
proof unfold_locales
  show "air_loop s b = (case air_step s b of More \<Rightarrow> ([], s, b, None) | Bad e s' \<Rightarrow> ([], s', b, Some e)
       | Frame a s' n \<Rightarrow> add_frame a (air_loop s' (drop n b)))" for s b
    by (cases s) (simp only: air_loop.simps [of b])
qed (auto simp: air_step_def parse_frame_stable split: sum.splits option.splits prod.splits dest: parse_frame_consumed)

definition air_put :: "unit \<Rightarrow> air_frame \<Rightarrow> unit + bytes \<times> unit" where
  "air_put u f = Ok (encode_air_frame f, ())"

interpretation air_pair: framed_pair air_step air_loop air_put "\<lambda>f. f" "\<lambda>_ _. True" clean_frame
  by unfold_locales (auto simp: air_put_def air_step_def clean_frame_parses, simp add: parse_frame_def crlf2_def)

section \<open>The connection\<close>

text \<open>
  What arrives on the socket, in order: the bytes of a read, none when the receiver has closed, an error of the
  socket, or the moment the deadline of the request passes. \<open>hc_faults\<close> are the errors of the writes.
\<close>

datatype http_read = HttpRead bytes | HttpReadError airplay_error | HttpDeadline

record http_connection =
  hc_buffer :: bytes
  hc_session :: "hap_session option"
  hc_local_ip :: bytes
  hc_remote_ip :: bytes
  hc_incoming :: "http_read list"
  hc_written :: "bytes list"
  hc_faults :: "airplay_error option list"

definition http_enable_encryption :: "hap_session \<Rightarrow> http_connection \<Rightarrow> http_connection" where
  "http_enable_encryption s c = c\<lparr>hc_session := Some s\<rparr>"

text \<open>The inner loop of \<open>http_read_response\<close>: requests of the receiver are dropped.\<close>

function next_response :: "bytes \<Rightarrow> (airplay_error + air_response option) \<times> bytes" where
  "next_response b = (case parse_frame b of
     Err e \<Rightarrow> (Err e, b)
   | Ok None \<Rightarrow> (Ok None, b)
   | Ok (Some (f, n)) \<Rightarrow> (case f of FResponse r \<Rightarrow> (Ok (Some r), drop n b) | FRequest q \<Rightarrow> next_response (drop n b)))"
  by pat_completeness auto
termination by (relation "measure length") (auto dest!: parse_frame_consumed)

declare next_response.simps [simp del]

text \<open>A read is decrypted when the session is up.\<close>

definition read_plain :: "aead \<Rightarrow> hap_session option \<Rightarrow> bytes \<Rightarrow> (airplay_error + bytes) \<times> hap_session option" where
  "read_plain A session bs = (case session of
     None \<Rightarrow> (Ok bs, None)
   | Some s \<Rightarrow> (case hap_decrypt A bs s of
       (Err e, s') \<Rightarrow> (Err (APairing (hap_of_pairing e)), Some s')
     | (Ok plain, s') \<Rightarrow> (Ok plain, Some s')))"

text \<open>\<open>None\<close> when the deadline comes first.\<close>

function http_read_response :: "aead \<Rightarrow> http_connection \<Rightarrow> (airplay_error + air_response) option \<times> http_connection" where
  "http_read_response A c = (case next_response (hc_buffer c) of
     (Err e, b) \<Rightarrow> (Some (Err e), c\<lparr>hc_buffer := b\<rparr>)
   | (Ok (Some r), b) \<Rightarrow> (Some (Ok r), c\<lparr>hc_buffer := b\<rparr>)
   | (Ok None, b) \<Rightarrow> (case hc_incoming c of
       [] \<Rightarrow> (None, c\<lparr>hc_buffer := b\<rparr>)
     | HttpDeadline # rs \<Rightarrow> (None, c\<lparr>hc_buffer := b, hc_incoming := rs\<rparr>)
     | HttpReadError e # rs \<Rightarrow> (Some (Err e), c\<lparr>hc_buffer := b, hc_incoming := rs\<rparr>)
     | HttpRead bs # rs \<Rightarrow>
         if bs = [] then (Some (Err (AIo AUnexpectedEof (lit ''closed the connection''))), c\<lparr>hc_buffer := b, hc_incoming := rs\<rparr>)
         else (case read_plain A (hc_session c) bs of
           (Err e, s) \<Rightarrow> (Some (Err e), c\<lparr>hc_buffer := b, hc_session := s, hc_incoming := rs\<rparr>)
         | (Ok plain, s) \<Rightarrow> http_read_response A (c\<lparr>hc_buffer := b @ plain, hc_session := s, hc_incoming := rs\<rparr>))))"
  by pat_completeness auto
termination by (relation "measure (\<lambda>(_, c). length (hc_incoming c))") auto

declare http_read_response.simps [simp del]

definition seal_wire :: "aead \<Rightarrow> hap_session option \<Rightarrow> bytes \<Rightarrow> (airplay_error + bytes) \<times> hap_session option" where
  "seal_wire A session wire = (case session of
     None \<Rightarrow> (Ok wire, None)
   | Some s \<Rightarrow> (case hap_encrypt A wire s of
       (Err e, s') \<Rightarrow> (Err (APairing (hap_of_pairing e)), Some s')
     | (Ok sealed, s') \<Rightarrow> (Ok sealed, Some s')))"

definition send_and_receive :: "aead \<Rightarrow> air_request \<Rightarrow> http_connection \<Rightarrow> (airplay_error + air_response) \<times> http_connection" where
  "send_and_receive A request c = (case seal_wire A (hc_session c) (encode_air_frame (FRequest request)) of
     (Err e, s) \<Rightarrow> (Err e, c\<lparr>hc_session := s\<rparr>)
   | (Ok outbound, s) \<Rightarrow> (case hc_faults c of
       Some e # faults \<Rightarrow> (Err e, c\<lparr>hc_session := s, hc_faults := faults\<rparr>)
     | faults \<Rightarrow> (case http_read_response A (c\<lparr>hc_session := s, hc_faults := tl faults, hc_written := hc_written c @ [outbound]\<rparr>) of
         (None, c') \<Rightarrow> (Err (AIo ATimedOut (lit ''no response to '' @ aq_method request @ [32] @ aq_uri request)), c')
       | (Some r, c') \<Rightarrow> (r, c'))))"

definition check_status :: "bool \<Rightarrow> air_response \<Rightarrow> airplay_error + air_response" where
  "check_status allow_error r =
     (if allow_error then Ok r
      else if ar_status r = 401 \<or> ar_status r = 403 then Err (ANotAuthenticated (ar_status r))
      else if \<not> response_is_success r then Err (AStatus (ar_status r) (ar_reason r))
      else Ok r)"

definition http_send :: "aead \<Rightarrow> bytes \<Rightarrow> request_spec \<Rightarrow> http_connection \<Rightarrow> (airplay_error + air_response) \<times> http_connection" where
  "http_send A default_agent spec c = (case send_and_receive A (build_request default_agent spec) c of
     (Err e, c') \<Rightarrow> (Err e, c')
   | (Ok r, c') \<Rightarrow> (check_status (rs_allow_error spec) r, c'))"

definition http_post :: "aead \<Rightarrow> bytes \<Rightarrow> bytes \<Rightarrow> headers \<Rightarrow> bytes \<Rightarrow> http_connection
    \<Rightarrow> (airplay_error + air_response) \<times> http_connection" where
  "http_post A default_agent path hs body c =
     http_send A default_agent (spec_default\<lparr>rs_method := lit ''POST'', rs_uri := path, rs_headers := hs, rs_body := body\<rparr>) c"

section \<open>What a request is answered with\<close>

text \<open>The plaintext of the reads, and the session after them.\<close>

fun plain_reads :: "aead \<Rightarrow> hap_session option \<Rightarrow> bytes list \<Rightarrow> (bytes \<times> hap_session option) option" where
  "plain_reads A s [] = Some ([], s)"
| "plain_reads A s (bs # rs) = (case read_plain A s bs of
     (Err e, s') \<Rightarrow> None
   | (Ok p, s') \<Rightarrow> map_option (\<lambda>(q, s''). (p @ q, s'')) (plain_reads A s' rs))"

lemma plain_reads_clear: "plain_reads A None rs = Some (concat rs, None)"
  by (induction rs) (simp_all add: read_plain_def)

lemma plain_reads_sealed: "hap_feed A s rs = Ok (p, s') \<Longrightarrow> plain_reads A (Some s) rs = Some (p, Some s')"
  by (induction rs arbitrary: s p) (auto simp: read_plain_def rbind_Ok_iff split: prod.splits sum.splits)

text \<open>Only a part of a message is not yet a message.\<close>

lemma part_waits:
  assumes "clean_frame f" and "b @ t = encode_air_frame f @ rest" and "length b < length (encode_air_frame f)"
  shows "parse_frame b = Ok None"
proof (rule ccontr)
  assume n: "parse_frame b \<noteq> Ok None"
  from parse_frame_stable [OF this, of t] clean_frame_parses [OF assms(1), of rest]
  have "parse_frame b = Ok (Some (f, length (encode_air_frame f)))" by (simp add: assms(2))
  with parse_frame_consumed assms(3) show False by fastforce
qed

lemma whole_first: "b @ t = x @ y \<Longrightarrow> \<not> length b < length x \<Longrightarrow> \<exists>b'. b = x @ b' \<and> b' @ t = y"
  by (fastforce simp: append_eq_append_conv2)

lemma next_response_on_stream:
  assumes "list_all clean_frame (map FRequest qs)" "clean_frame (FResponse r)"
    and "b @ t = concat (map (\<lambda>q. encode_air_frame (FRequest q)) qs) @ encode_air_frame (FResponse r) @ rest"
  shows "(\<exists>b'. next_response b = (Ok (Some r), b') \<and> b' @ t = rest)
    \<or> (\<exists>b' qs'. next_response b = (Ok None, b') \<and> list_all clean_frame (map FRequest qs')
        \<and> b' @ t = concat (map (\<lambda>q. encode_air_frame (FRequest q)) qs') @ encode_air_frame (FResponse r) @ rest)"
  using assms
proof (induction qs arbitrary: b)
  case Nil
  show ?case
  proof (cases "length b < length (encode_air_frame (FResponse r))")
    case True
    with part_waits [OF Nil(2), of b t rest] Nil(3) have "parse_frame b = Ok None" by simp
    then have "next_response b = (Ok None, b)" by (subst next_response.simps) simp
    with Nil show ?thesis by (intro disjI2 exI [of _ b] exI [of _ "[]"]) simp
  next
    case False
    then obtain b' where b: "b = encode_air_frame (FResponse r) @ b'" using whole_first [of b t "encode_air_frame (FResponse r)" rest] Nil(3) by auto
    then have "next_response b = (Ok (Some r), b')"
      by (subst next_response.simps) (simp add: clean_frame_parses [OF Nil(2)])
    with b Nil(3) show ?thesis by auto
  qed
next
  case (Cons q qs)
  let ?f = "FRequest q" and ?rest = "concat (map (\<lambda>q. encode_air_frame (FRequest q)) qs) @ encode_air_frame (FResponse r) @ rest"
  have c: "clean_frame ?f" and e: "b @ t = encode_air_frame ?f @ ?rest" using Cons.prems by simp_all
  show ?case
  proof (cases "length b < length (encode_air_frame ?f)")
    case True
    from part_waits [OF c e this] have "next_response b = (Ok None, b)" by (subst next_response.simps) simp
    with Cons.prems show ?thesis by (intro disjI2 exI [of _ b] exI [of _ "q # qs"]) simp
  next
    case False
    then obtain b' where b: "b = encode_air_frame ?f @ b'" using whole_first [OF e] by auto
    then have "next_response b = next_response b'" by (subst next_response.simps) (simp add: clean_frame_parses [OF c])
    moreover have "b' @ t = ?rest" using b e by simp
    ultimately show ?thesis using Cons.IH [of b'] Cons.prems by simp
  qed
qed

lemma next_waits: "next_response b = (Ok None, b') \<Longrightarrow> parse_frame b' = Ok None"
proof (induction b rule: next_response.induct)
  case (1 b)
  show ?case
  proof (cases "parse_frame b")
    case (Inl e)
    with 1(2) show ?thesis by (subst (asm) next_response.simps) simp
  next
    case (Inr m)
    with 1 show ?thesis
      by (cases m) (auto simp: next_response.simps [of b] split: air_frame.splits)
  qed
qed

lemma response_read:
  assumes "list_all clean_frame (map FRequest qs)" "clean_frame (FResponse r)" and "[] \<notin> set reads"
    and "hc_incoming c = map HttpRead reads @ later" and "plain_reads A (hc_session c) reads = Some (plain, s)"
    and "hc_buffer c @ plain = concat (map (\<lambda>q. encode_air_frame (FRequest q)) qs) @ encode_air_frame (FResponse r) @ rest"
  shows "\<exists>c' unread p. http_read_response A c = (Some (Ok r), c') \<and> hc_incoming c' = map HttpRead unread @ later
    \<and> [] \<notin> set unread \<and> plain_reads A (hc_session c') unread = Some (p, s) \<and> hc_buffer c' @ p = rest
    \<and> hc_written c' = hc_written c \<and> hc_faults c' = hc_faults c"
  using assms
proof (induction reads arbitrary: c qs plain)
  case Nil
  have b: "hc_buffer c @ [] = concat (map (\<lambda>q. encode_air_frame (FRequest q)) qs) @ encode_air_frame (FResponse r) @ rest"
    using Nil(5,6) by simp
  from next_response_on_stream [OF Nil(1,2) b] have "next_response (hc_buffer c) = (Ok (Some r), rest)"
  proof (elim disjE exE conjE)
    fix b' qs'
    assume n: "next_response (hc_buffer c) = (Ok None, b')" and b: "list_all clean_frame (map FRequest qs')"
      "b' @ [] = concat (map (\<lambda>q. encode_air_frame (FRequest q)) qs') @ encode_air_frame (FResponse r) @ rest"
    have "parse_frame b' = Ok None" by (rule next_waits [OF n])
    moreover have "parse_frame b' \<noteq> Ok None"
      using b Nil(2) by (cases qs') (simp_all add: clean_frame_parses)
    ultimately show ?thesis by simp
  qed auto
  then have "http_read_response A c = (Some (Ok r), c\<lparr>hc_buffer := rest\<rparr>)" by (subst http_read_response.simps) simp
  with Nil show ?case by (auto intro!: exI [of _ "c\<lparr>hc_buffer := rest\<rparr>"] exI [of _ "[]"])
next
  case (Cons bs reads)
  from Cons.prems(5) obtain p1 s1 p2 where d: "read_plain A (hc_session c) bs = (Ok p1, s1)"
    and f: "plain_reads A s1 reads = Some (p2, s)" and p: "plain = p1 @ p2"
    by (auto split: prod.splits sum.splits)
  have b: "bs \<noteq> []" using Cons.prems(3) by auto
  from next_response_on_stream [OF Cons.prems(1,2,6)]
  show ?case
  proof (elim disjE exE conjE)
    fix b'
    assume n: "next_response (hc_buffer c) = (Ok (Some r), b')" "b' @ plain = rest"
    then have "http_read_response A c = (Some (Ok r), c\<lparr>hc_buffer := b'\<rparr>)" by (subst http_read_response.simps) simp
    with Cons.prems n show ?thesis by (auto intro!: exI [of _ "c\<lparr>hc_buffer := b'\<rparr>"] exI [of _ "bs # reads"])
  next
    fix b' qs'
    assume n: "next_response (hc_buffer c) = (Ok None, b')" and q: "list_all clean_frame (map FRequest qs')"
      and e: "b' @ plain = concat (map (\<lambda>q. encode_air_frame (FRequest q)) qs') @ encode_air_frame (FResponse r) @ rest"
    let ?c = "c\<lparr>hc_buffer := b' @ p1, hc_session := s1, hc_incoming := map HttpRead reads @ later\<rparr>"
    have "http_read_response A c = http_read_response A ?c"
      using n b d Cons.prems(4) by (subst http_read_response.simps) simp
    with Cons.IH [OF q Cons.prems(2), of ?c p2] Cons.prems(3) f e p show ?thesis by simp
  qed
qed

text \<open>Bytes without a carriage return are kept, however many: the head of a message has no limit.\<close>

lemma endless_head_kept:
  assumes "13 \<notin> set (hc_buffer c @ concat reads)" and "[] \<notin> set reads" and "hc_session c = None" and "hc_incoming c = map HttpRead reads"
  shows "http_read_response A c = (None, c\<lparr>hc_buffer := hc_buffer c @ concat reads, hc_incoming := []\<rparr>)"
  using assms
proof (induction reads arbitrary: c)
  case Nil
  then have "next_response (hc_buffer c) = (Ok None, hc_buffer c)"
    by (subst next_response.simps) (simp add: parse_frame_def find_sub_None crlf2_def)
  with Nil show ?case by (subst http_read_response.simps) (cases c; simp)
next
  case (Cons bs reads)
  let ?c = "c\<lparr>hc_buffer := hc_buffer c @ bs, hc_incoming := map HttpRead reads\<rparr>"
  have "next_response (hc_buffer c) = (Ok None, hc_buffer c)"
    using Cons.prems(1) by (subst next_response.simps) (simp add: parse_frame_def find_sub_None crlf2_def)
  then have "http_read_response A c = http_read_response A ?c"
    using Cons.prems by (subst http_read_response.simps) (cases c; auto simp: read_plain_def)
  with Cons.IH [of ?c] Cons.prems show ?case by simp
qed

end
