(* ===== verification/Airplay_Rtsp.thy ===== *)
theory Airplay_Rtsp
  imports Airplay_Http Data_Payload
begin

text \<open>
  The RTSP session (\<open>pyatv-proto-airplay\<close>: \<open>rtsp.rs\<close>, \<open>rtsp/digest.rs\<close>, \<open>rtsp/bodies.rs\<close>)
  and the verbs of RAOP on it (\<open>raop/rtsp.rs\<close>, \<open>raop/protocol_v1.rs\<close>). MD5 is a parameter, as is the
  version of the crate in the default agent, which no verb uses.
\<close>

section \<open>Digest authentication\<close>

definition DIGEST_USERNAME :: bytes where "DIGEST_USERNAME = lit ''pyatv''"

record digest_info =
  di_username :: bytes
  di_realm :: bytes
  di_password :: bytes
  di_nonce :: bytes

definition digest_new :: "bytes \<Rightarrow> bytes \<Rightarrow> bytes \<Rightarrow> digest_info" where
  "digest_new realm password once =
     \<lparr>di_username = DIGEST_USERNAME, di_realm = realm, di_password = password, di_nonce = once\<rparr>"

definition parse_challenge :: "bytes \<Rightarrow> (bytes \<times> bytes) option" where
  "parse_challenge www_authenticate = (case split_on 34 www_authenticate of
     [_, realm, _, once, _] \<Rightarrow> Some (realm, once)
   | _ \<Rightarrow> None)"

definition md5_hex :: "(bytes \<Rightarrow> bytes) \<Rightarrow> bytes \<Rightarrow> bytes" where
  "md5_hex md5 input = hex_encode (md5 input)"

definition digest_response :: "(bytes \<Rightarrow> bytes) \<Rightarrow> bytes \<Rightarrow> bytes \<Rightarrow> bytes \<Rightarrow> bytes \<Rightarrow> bytes \<Rightarrow> bytes \<Rightarrow> bytes" where
  "digest_response md5 verb uri username realm password once = (let
     ha1 = md5_hex md5 (username @ [58] @ realm @ [58] @ password);
     ha2 = md5_hex md5 (verb @ [58] @ uri);
     response = md5_hex md5 (ha1 @ [58] @ once @ [58] @ ha2) in
     lit ''Digest username='' @ [34] @ username @ [34] @ lit '', realm='' @ [34] @ realm @ [34] @ lit '', nonce='' @ [34] @ once @ [34]
       @ lit '', uri='' @ [34] @ uri @ [34] @ lit '', response='' @ [34] @ response @ [34])"

definition digest_authorization :: "(bytes \<Rightarrow> bytes) \<Rightarrow> digest_info \<Rightarrow> bytes \<Rightarrow> bytes \<Rightarrow> bytes" where
  "digest_authorization md5 d verb uri = digest_response md5 verb uri (di_username d) (di_realm d) (di_password d) (di_nonce d)"

section \<open>The ANNOUNCE body\<close>

record announce_format =
  af_bits_per_channel :: u32
  af_channels :: u32
  af_sample_rate :: u32

definition announce_sdp :: "u32 \<Rightarrow> bytes \<Rightarrow> bytes \<Rightarrow> announce_format \<Rightarrow> bytes" where
  "announce_sdp session_id local_ip remote_ip f =
     lit ''v=0'' @ crlf
     @ lit ''o=iTunes '' @ decimal (unat session_id) @ lit '' 0 IN IP4 '' @ local_ip @ crlf
     @ lit ''s=iTunes'' @ crlf
     @ lit ''c=IN IP4 '' @ remote_ip @ crlf
     @ lit ''t=0 0'' @ crlf
     @ lit ''m=audio 0 RTP/AVP 96'' @ crlf
     @ lit ''a=rtpmap:96 L16/44100/2'' @ crlf
     @ lit ''a=fmtp:96 352 0 '' @ decimal (unat (af_bits_per_channel f)) @ lit '' 40 10 14 '' @ decimal (unat (af_channels f))
     @ lit '' 255 0 0 '' @ decimal (unat (af_sample_rate f)) @ crlf"

section \<open>The session\<close>

record rtsp_session =
  rt_session_id :: u32
  rt_dacp_id :: bytes
  rt_active_remote :: u32
  rt_cseq :: u32
  rt_digest :: "digest_info option"

fun hex_upper_of :: "nat \<Rightarrow> bytes" where
  "hex_upper_of n = (if n < 16 then [hex_upper n] else hex_upper_of (n div 16) @ [hex_upper (n mod 16)])"

declare hex_upper_of.simps [simp del]

definition with_identifiers :: "u32 \<Rightarrow> u64 \<Rightarrow> u32 \<Rightarrow> rtsp_session" where
  "with_identifiers session_id dacp_id active_remote = \<lparr>rt_session_id = session_id, rt_dacp_id = hex_upper_of (unat dacp_id),
     rt_active_remote = active_remote, rt_cseq = 0, rt_digest = None\<rparr>"

definition set_digest :: "digest_info \<Rightarrow> rtsp_session \<Rightarrow> rtsp_session" where
  "set_digest d s = s\<lparr>rt_digest := Some d\<rparr>"

definition rtsp_uri :: "bytes \<Rightarrow> rtsp_session \<Rightarrow> bytes" where
  "rtsp_uri local_ip s = lit ''rtsp://'' @ local_ip @ lit ''/'' @ decimal (unat (rt_session_id s))"

record exchange =
  ex_method :: bytes
  ex_uri :: "bytes option"
  ex_content_type :: "bytes option"
  ex_headers :: headers
  ex_body :: bytes
  ex_allow_error :: bool
  ex_protocol :: bytes

definition exchange_default :: exchange where
  "exchange_default = \<lparr>ex_method = lit ''POST'', ex_uri = None, ex_content_type = None, ex_headers = [], ex_body = [],
     ex_allow_error = False, ex_protocol = RTSP_1_0\<rparr>"

record raop_connection =
  rc_http :: http_connection
  rc_rtsp :: rtsp_session

text \<open>The request of one exchange, and \<open>send\<close>; a CSeq that does not match is only logged.\<close>

definition rtsp_target :: "bytes \<Rightarrow> exchange \<Rightarrow> rtsp_session \<Rightarrow> bytes" where
  "rtsp_target local_ip ex s = (case ex_uri ex of Some u \<Rightarrow> u | None \<Rightarrow> rtsp_uri local_ip s)"

definition rtsp_headers :: "(bytes \<Rightarrow> bytes) \<Rightarrow> bytes \<Rightarrow> exchange \<Rightarrow> rtsp_session \<Rightarrow> headers" where
  "rtsp_headers md5 target ex s =
     [(lit ''CSeq'', decimal (unat (rt_cseq s))), (lit ''DACP-ID'', rt_dacp_id s),
      (lit ''Active-Remote'', decimal (unat (rt_active_remote s))), (lit ''Client-Instance'', rt_dacp_id s)]
     @ (case rt_digest s of None \<Rightarrow> [] | Some d \<Rightarrow> [(lit ''Authorization'', digest_authorization md5 d (ex_method ex) target)])
     @ ex_headers ex"

definition rtsp_spec :: "(bytes \<Rightarrow> bytes) \<Rightarrow> bytes \<Rightarrow> exchange \<Rightarrow> rtsp_session \<Rightarrow> request_spec" where
  "rtsp_spec md5 local_ip ex s = (let target = rtsp_target local_ip ex s in
     \<lparr>rs_method = ex_method ex, rs_uri = target, rs_protocol = ex_protocol ex, rs_user_agent = Some USER_AGENT,
      rs_content_type = ex_content_type ex, rs_headers = rtsp_headers md5 target ex s, rs_body = ex_body ex,
      rs_allow_error = ex_allow_error ex\<rparr>)"

type_synonym 'a rtsp_call = "raop_connection \<Rightarrow> (airplay_error + 'a) \<times> raop_connection"

definition rtsp_send :: "aead \<Rightarrow> (bytes \<Rightarrow> bytes) \<Rightarrow> exchange \<Rightarrow> air_response rtsp_call" where
  "rtsp_send A md5 ex rc = (let s = rc_rtsp rc in
     case http_send A [] (rtsp_spec md5 (hc_local_ip (rc_http rc)) ex s) (rc_http rc) of
       (r, c') \<Rightarrow> (r, rc\<lparr>rc_http := c', rc_rtsp := s\<lparr>rt_cseq := rt_cseq s + 1\<rparr>\<rparr>))"

definition rtsp_exchange :: "plist_api \<Rightarrow> aead \<Rightarrow> (bytes \<Rightarrow> bytes) \<Rightarrow> bytes \<Rightarrow> bytes option \<Rightarrow> plist_value option \<Rightarrow> bool \<Rightarrow> air_response rtsp_call" where
  "rtsp_exchange L A md5 verb uri body allow_error rc =
     (case (case body of None \<Rightarrow> Ok None | Some v \<Rightarrow> map_err APlist (rbind (ok_or (plist_write L v) []) (\<lambda>bs. Ok (Some bs)))) of
        Err e \<Rightarrow> (Err e, rc)
      | Ok encoded \<Rightarrow> rtsp_send A md5 (exchange_default\<lparr>ex_method := verb, ex_uri := uri,
          ex_headers := (if encoded = None then [] else [(CONTENT_TYPE, BPLIST_CONTENT_TYPE)]),
          ex_body := (case encoded of None \<Rightarrow> [] | Some bs \<Rightarrow> bs), ex_allow_error := allow_error\<rparr>) rc)"

definition decode_plist :: "plist_api \<Rightarrow> bytes \<Rightarrow> airplay_error + plist_value" where
  "decode_plist L body = ok_or (plist_read L body) (APlist [])"

definition rtsp_info :: "plist_api \<Rightarrow> aead \<Rightarrow> (bytes \<Rightarrow> bytes) \<Rightarrow> plist_value rtsp_call" where
  "rtsp_info L A md5 rc = (case rtsp_exchange L A md5 (lit ''GET'') (Some (lit ''/info'')) None True rc of
     (Err e, rc') \<Rightarrow> (Err e, rc')
   | (Ok r, rc') \<Rightarrow> (if \<not> response_is_success r then Ok (PlDictionary []) else decode_plist L (ar_body r), rc'))"

definition rtsp_setup :: "plist_api \<Rightarrow> aead \<Rightarrow> (bytes \<Rightarrow> bytes) \<Rightarrow> plist_value \<Rightarrow> plist_value rtsp_call" where
  "rtsp_setup L A md5 body rc = (case rtsp_exchange L A md5 (lit ''SETUP'') None (Some body) False rc of
     (Err e, rc') \<Rightarrow> (Err e, rc') | (Ok r, rc') \<Rightarrow> (decode_plist L (ar_body r), rc'))"

definition rtsp_record :: "plist_api \<Rightarrow> aead \<Rightarrow> (bytes \<Rightarrow> bytes) \<Rightarrow> air_response rtsp_call" where
  "rtsp_record L A md5 = rtsp_exchange L A md5 (lit ''RECORD'') None None False"

definition rtsp_feedback :: "plist_api \<Rightarrow> aead \<Rightarrow> (bytes \<Rightarrow> bytes) \<Rightarrow> bool \<Rightarrow> air_response rtsp_call" where
  "rtsp_feedback L A md5 allow_error = rtsp_exchange L A md5 (lit ''POST'') (Some (lit ''/feedback'')) None allow_error"

section \<open>The verbs of RAOP\<close>

definition CURVE25519_PUB_KEY :: bytes where
  "CURVE25519_PUB_KEY =
    [0x59, 0x02, 0xed, 0xe9, 0x0d, 0x4e, 0xf2, 0xbd, 0x4c, 0xb6, 0x8a, 0x63, 0x30, 0x03, 0x82, 0x07,
     0xa9, 0x4d, 0xbd, 0x50, 0xd8, 0xaa, 0x46, 0x5b, 0x5d, 0x8c, 0x01, 0x2a, 0x0c, 0x7e, 0x1d, 0x4e]"

text \<open>A verb whose response only matters when it is an error.\<close>

definition ok_unit :: "(airplay_error + 'a) \<times> raop_connection \<Rightarrow> (airplay_error + unit) \<times> raop_connection" where
  "ok_unit = apfst (\<lambda>r. rbind r (\<lambda>_. Ok ()))"

definition auth_setup :: "aead \<Rightarrow> (bytes \<Rightarrow> bytes) \<Rightarrow> unit rtsp_call" where
  "auth_setup A md5 rc = ok_unit (rtsp_send A md5 (exchange_default\<lparr>ex_method := lit ''POST'', ex_uri := Some (lit ''/auth-setup''),
     ex_content_type := Some (lit ''application/octet-stream''), ex_body := 1 # CURVE25519_PUB_KEY, ex_protocol := HTTP_1_1\<rparr>) rc)"

definition announce :: "aead \<Rightarrow> (bytes \<Rightarrow> bytes) \<Rightarrow> announce_format \<Rightarrow> bytes option \<Rightarrow> unit rtsp_call" where
  "announce A md5 f password rc = (let
     body = announce_sdp (rt_session_id (rc_rtsp rc)) (hc_local_ip (rc_http rc)) (hc_remote_ip (rc_http rc)) f;
     request = (\<lambda>allow_error. exchange_default\<lparr>ex_method := lit ''ANNOUNCE'', ex_content_type := Some (lit ''application/sdp''),
       ex_body := body, ex_allow_error := allow_error\<rparr>) in
     case password of
       None \<Rightarrow> ok_unit (rtsp_send A md5 (request False) rc)
     | Some password \<Rightarrow> (case rtsp_send A md5 (request True) rc of
         (Err e, rc') \<Rightarrow> (Err e, rc')
       | (Ok response, rc') \<Rightarrow>
           if ar_status response \<noteq> 401 then (Ok (), rc')
           else (case Option.bind (response_header response (lit ''WWW-Authenticate'')) parse_challenge of
               None \<Rightarrow> (Err APasswordRequired, rc')
             | Some (realm, once) \<Rightarrow>
                 ok_unit (rtsp_send A md5 (request False) (rc'\<lparr>rc_rtsp := set_digest (digest_new realm password once) (rc_rtsp rc')\<rparr>)))))"

definition setup_transport :: "aead \<Rightarrow> (bytes \<Rightarrow> bytes) \<Rightarrow> bytes \<Rightarrow> (bytes \<times> bytes option) rtsp_call" where
  "setup_transport A md5 transport rc =
     (case rtsp_send A md5 (exchange_default\<lparr>ex_method := lit ''SETUP'', ex_headers := [(lit ''Transport'', transport)]\<rparr>) rc of
        (Err e, rc') \<Rightarrow> (Err e, rc')
      | (Ok r, rc') \<Rightarrow> (case response_header r (lit ''Transport'') of
          None \<Rightarrow> (Err (AMalformed (lit ''SETUP reply carries no Transport header'')), rc')
        | Some t \<Rightarrow> (Ok (t, response_header r (lit ''Session'')), rc')))"

record rtp_info =
  ri_session :: u32
  ri_seqno :: u16
  ri_rtptime :: u32

definition rtp_info_value :: "u16 \<Rightarrow> u32 \<Rightarrow> bytes" where
  "rtp_info_value seqno rtptime = lit ''seq='' @ decimal (unat seqno) @ lit '';rtptime='' @ decimal (unat rtptime)"

definition rtp_info_headers :: "rtp_info \<Rightarrow> headers" where
  "rtp_info_headers info = [(lit ''Session'', decimal (unat (ri_session info))), (lit ''RTP-Info'', rtp_info_value (ri_seqno info) (ri_rtptime info))]"

definition rtsp_flush :: "aead \<Rightarrow> (bytes \<Rightarrow> bytes) \<Rightarrow> u32 \<Rightarrow> u16 \<Rightarrow> u32 \<Rightarrow> unit rtsp_call" where
  "rtsp_flush A md5 session seqno rtptime rc = ok_unit (rtsp_send A md5 (exchange_default\<lparr>ex_method := lit ''FLUSH'',
     ex_headers := [(lit ''Range'', lit ''npt=0-''), (lit ''Session'', decimal (unat session)), (lit ''RTP-Info'', rtp_info_value seqno rtptime)]\<rparr>) rc)"

definition rtsp_teardown :: "aead \<Rightarrow> (bytes \<Rightarrow> bytes) \<Rightarrow> u32 \<Rightarrow> unit rtsp_call" where
  "rtsp_teardown A md5 session rc = ok_unit (rtsp_send A md5 (exchange_default\<lparr>ex_method := lit ''TEARDOWN'',
     ex_headers := [(lit ''Session'', decimal (unat session))]\<rparr>) rc)"

definition set_parameter :: "aead \<Rightarrow> (bytes \<Rightarrow> bytes) \<Rightarrow> bytes \<Rightarrow> bytes \<Rightarrow> unit rtsp_call" where
  "set_parameter A md5 parameter content rc = ok_unit (rtsp_send A md5 (exchange_default\<lparr>ex_method := lit ''SET_PARAMETER'',
     ex_content_type := Some (lit ''text/parameters''), ex_body := parameter @ lit '': '' @ content\<rparr>) rc)"

text \<open>\<open>set_metadata\<close> on the encoded metadata, and \<open>set_artwork\<close>.\<close>

definition set_metadata :: "aead \<Rightarrow> (bytes \<Rightarrow> bytes) \<Rightarrow> rtp_info \<Rightarrow> bytes \<Rightarrow> unit rtsp_call" where
  "set_metadata A md5 info daap rc = ok_unit (rtsp_send A md5 (exchange_default\<lparr>ex_method := lit ''SET_PARAMETER'',
     ex_content_type := Some (lit ''application/x-dmap-tagged''), ex_headers := rtp_info_headers info, ex_body := daap\<rparr>) rc)"

definition set_artwork :: "aead \<Rightarrow> (bytes \<Rightarrow> bytes) \<Rightarrow> rtp_info \<Rightarrow> bytes \<Rightarrow> unit rtsp_call" where
  "set_artwork A md5 info artwork rc = ok_unit (rtsp_send A md5 (exchange_default\<lparr>ex_method := lit ''SET_PARAMETER'',
     ex_content_type := Some (lit ''image/jpeg''), ex_headers := rtp_info_headers info, ex_body := artwork\<rparr>) rc)"

section \<open>The transport of AirPlay 1\<close>

record transport_ports =
  tp_server_port :: u16
  tp_control_port :: u16
  tp_timing_port :: u16

text \<open>A later option replaces an earlier one of the same name.\<close>

definition parse_transport :: "bytes \<Rightarrow> bytes list \<times> (bytes \<rightharpoonup> bytes)" where
  "parse_transport transport =
     foldl (\<lambda>(params, options) option. case split_once 61 option of
         Some (key, content) \<Rightarrow> (params, options(key \<mapsto> content))
       | None \<Rightarrow> (params @ [option], options)) ([], Map.empty) (split_on 59 transport)"

definition read_port :: "(bytes \<rightharpoonup> bytes) \<Rightarrow> bytes \<Rightarrow> u16 option" where
  "read_port options key = map_option word_of_nat (Option.bind (options key) (parse_radix 10 65535))"

definition transport_ports_of :: "bytes \<Rightarrow> airplay_error + transport_ports" where
  "transport_ports_of transport = (let options = snd (parse_transport transport);
     port = (\<lambda>key. ok_or (read_port options key) (AMalformed (lit ''SETUP reply has no usable '' @ key))) in
     rbind (port (lit ''server_port'')) (\<lambda>server.
     rbind (port (lit ''control_port'')) (\<lambda>control.
     Ok \<lparr>tp_server_port = server, tp_control_port = control,
       tp_timing_port = (case read_port options (lit ''timing_port'') of Some p \<Rightarrow> p | None \<Rightarrow> 0)\<rparr>)))"

definition transport_header :: "u16 \<Rightarrow> u16 \<Rightarrow> bytes" where
  "transport_header control_port timing_port =
     lit ''RTP/AVP/UDP;unicast;interleaved=0-1;mode=record;control_port='' @ decimal (unat control_port)
     @ lit '';timing_port='' @ decimal (unat timing_port)"

end
