(* ===== verification/Airplay_Exchange.thy ===== *)
theory Airplay_Exchange
  imports Airplay_Rtsp
begin

text \<open>
  What one RTSP exchange does over a connection whose bytes arrive in any cuts, in clear or sealed: the request
  that goes out, the response that is returned, and the responses that go to the wrong request.
\<close>

section \<open>Responses\<close>

lemma received:
  assumes "seal_wire A (hc_session c) (encode_air_frame (FRequest request)) = (Ok outbound, session)"
    and "hc_faults c = []" "hc_buffer c = []" "hc_incoming c = map HttpRead reads @ later" "[] \<notin> set reads"
    and "plain_reads A session reads = Some (concat (map (\<lambda>q. encode_air_frame (FRequest q)) qs) @ encode_air_frame (FResponse r) @ rest, s')"
    and "list_all clean_frame (map FRequest qs)" "clean_frame (FResponse r)"
  shows "\<exists>c' unread p. send_and_receive A request c = (Ok r, c') \<and> hc_written c' = hc_written c @ [outbound]
    \<and> hc_incoming c' = map HttpRead unread @ later \<and> plain_reads A (hc_session c') unread = Some (p, s') \<and> hc_buffer c' @ p = rest"
proof -
  let ?c = "c\<lparr>hc_session := session, hc_faults := [], hc_written := hc_written c @ [outbound]\<rparr>"
  from response_read [OF assms(7,8,5), of ?c later A _ s' rest] assms(3,4,6) obtain c' unread p where
    "http_read_response A ?c = (Some (Ok r), c')" "hc_incoming c' = map HttpRead unread @ later" "plain_reads A (hc_session c') unread = Some (p, s')"
    "hc_buffer c' @ p = rest" "hc_written c' = hc_written ?c" by auto
  with assms(1,2) show ?thesis
    by (intro exI [of _ c'] exI [of _ unread] exI [of _ p]) (simp add: send_and_receive_def)
qed

definition exchange_request :: "(bytes \<Rightarrow> bytes) \<Rightarrow> exchange \<Rightarrow> raop_connection \<Rightarrow> air_request" where
  "exchange_request md5 ex rc = build_request [] (rtsp_spec md5 (hc_local_ip (rc_http rc)) ex (rc_rtsp rc))"

lemma rtsp_received:
  assumes "seal_wire A (hc_session (rc_http rc)) (encode_air_frame (FRequest (exchange_request md5 ex rc))) = (Ok outbound, session)"
    and "hc_faults (rc_http rc) = []" "hc_buffer (rc_http rc) = []" "hc_incoming (rc_http rc) = map HttpRead reads @ later" "[] \<notin> set reads"
    and "plain_reads A session reads = Some (concat (map (\<lambda>q. encode_air_frame (FRequest q)) qs) @ encode_air_frame (FResponse r) @ rest, s')"
    and "list_all clean_frame (map FRequest qs)" "clean_frame (FResponse r)"
  shows "\<exists>c' unread p. rtsp_send A md5 ex rc = (check_status (ex_allow_error ex) r,
      rc\<lparr>rc_http := c', rc_rtsp := (rc_rtsp rc)\<lparr>rt_cseq := rt_cseq (rc_rtsp rc) + 1\<rparr>\<rparr>)
    \<and> hc_written c' = hc_written (rc_http rc) @ [outbound] \<and> hc_incoming c' = map HttpRead unread @ later
    \<and> plain_reads A (hc_session c') unread = Some (p, s') \<and> hc_buffer c' @ p = rest"
proof -
  from received [OF assms(1) [unfolded exchange_request_def] assms(2-8)] obtain c' unread p where
    "send_and_receive A (build_request [] (rtsp_spec md5 (hc_local_ip (rc_http rc)) ex (rc_rtsp rc))) (rc_http rc) = (Ok r, c')"
    "hc_written c' = hc_written (rc_http rc) @ [outbound]"
    "hc_incoming c' = map HttpRead unread @ later" "plain_reads A (hc_session c') unread = Some (p, s')" "hc_buffer c' @ p = rest" by blast
  then show ?thesis
    by (intro exI [of _ c'] exI [of _ unread] exI [of _ p]) (simp add: rtsp_send_def http_send_def Let_def rtsp_spec_def)
qed

text \<open>
  C34: An exchange returns the response. However the receiver's bytes are cut into reads, in clear or sealed, and
  whatever requests of its own it sends before, the exchange is answered by the first response: as it is when
  errors are allowed, else by its status, 401 and 403 as an authentication error. What follows stays for the
  next exchange.
\<close>

theorem exchange_returns_response:
  assumes "seal_wire A (hc_session (rc_http rc)) (encode_air_frame (FRequest (exchange_request md5 ex rc))) = (Ok outbound, session)"
    and "hc_faults (rc_http rc) = []" and "hc_buffer (rc_http rc) = []" and "hc_incoming (rc_http rc) = map HttpRead reads @ later"
    and "[] \<notin> set reads"
    and "plain_reads A session reads = Some (concat (map (\<lambda>q. encode_air_frame (FRequest q)) qs) @ encode_air_frame (FResponse r) @ rest, s')"
    and "list_all clean_frame (map FRequest qs)" and "clean_frame (FResponse r)"
  shows "fst (rtsp_send A md5 ex rc) =
      (if ex_allow_error ex \<or> 200 \<le> ar_status r \<and> ar_status r < 300 then Ok r
       else if ar_status r = 401 \<or> ar_status r = 403 then Err (ANotAuthenticated (ar_status r))
       else Err (AStatus (ar_status r) (ar_reason r)))
    \<and> (let c' = rc_http (snd (rtsp_send A md5 ex rc)) in
       hc_written c' = hc_written (rc_http rc) @ [outbound]
       \<and> (\<exists>unread p. hc_incoming c' = map HttpRead unread @ later \<and> plain_reads A (hc_session c') unread = Some (p, s')
           \<and> hc_buffer c' @ p = rest))"
proof -
  have "check_status (ex_allow_error ex) r =
      (if ex_allow_error ex \<or> 200 \<le> ar_status r \<and> ar_status r < 300 then Ok r
       else if ar_status r = 401 \<or> ar_status r = 403 then Err (ANotAuthenticated (ar_status r))
       else Err (AStatus (ar_status r) (ar_reason r)))"
    by (auto simp: check_status_def response_is_success_def)
  with rtsp_received [OF assms] show ?thesis by (auto simp: Let_def)
qed

section \<open>A late response\<close>

text \<open>
  C36: A late response answers the next request. When a request times out and its response arrives afterwards, the
  next exchange on the connection takes that response for its own, whatever \<open>CSeq\<close> it carries, and the
  response that belongs to it is left for the one after.
\<close>

theorem late_response_misattributed:
  assumes "hc_session (rc_http rc) = None" and "hc_faults (rc_http rc) = []" and "hc_buffer (rc_http rc) = []"
    and "hc_incoming (rc_http rc) = HttpDeadline # map HttpRead reads" and "[] \<notin> set reads"
    and "concat reads = encode_air_frame (FResponse late) @ encode_air_frame (FResponse own)"
    and "clean_frame (FResponse late)" and "clean_frame (FResponse own)"
  shows "\<exists>msg rc' c' unread. rtsp_send A md5 first rc = (Err (AIo ATimedOut msg), rc')
    \<and> rtsp_send A md5 second rc' = (check_status (ex_allow_error second) late, rc'\<lparr>rc_http := c', rc_rtsp := (rc_rtsp rc')\<lparr>rt_cseq := rt_cseq (rc_rtsp rc') + 1\<rparr>\<rparr>)
    \<and> hc_incoming c' = map HttpRead unread \<and> hc_buffer c' @ concat unread = encode_air_frame (FResponse own)"
proof -
  let ?w = "encode_air_frame (FRequest (exchange_request md5 first rc))"
  have n: "next_response [] = (Ok None, [])" by (subst next_response.simps) (simp add: parse_frame_def crlf2_def)
  let ?c = "(rc_http rc)\<lparr>hc_incoming := map HttpRead reads, hc_written := hc_written (rc_http rc) @ [?w]\<rparr>"
  have "http_read_response A ((rc_http rc)\<lparr>hc_session := None, hc_faults := [], hc_written := hc_written (rc_http rc) @ [?w]\<rparr>) = (None, ?c)"
    using assms(1-4) n by (subst http_read_response.simps) (cases "rc_http rc"; simp)
  then obtain msg where t: "rtsp_send A md5 first rc = (Err (AIo ATimedOut msg),
      rc\<lparr>rc_http := ?c, rc_rtsp := (rc_rtsp rc)\<lparr>rt_cseq := rt_cseq (rc_rtsp rc) + 1\<rparr>\<rparr>)"
    using assms(1,2) by (simp add: rtsp_send_def http_send_def send_and_receive_def seal_wire_def exchange_request_def Let_def)
  let ?rc = "rc\<lparr>rc_http := ?c, rc_rtsp := (rc_rtsp rc)\<lparr>rt_cseq := rt_cseq (rc_rtsp rc) + 1\<rparr>\<rparr>"
  have "\<exists>c' unread p. rtsp_send A md5 second ?rc = (check_status (ex_allow_error second) late,
      ?rc\<lparr>rc_http := c', rc_rtsp := (rc_rtsp ?rc)\<lparr>rt_cseq := rt_cseq (rc_rtsp ?rc) + 1\<rparr>\<rparr>)
    \<and> hc_written c' = hc_written (rc_http ?rc) @ [encode_air_frame (FRequest (exchange_request md5 second ?rc))]
    \<and> hc_incoming c' = map HttpRead unread @ [] \<and> plain_reads A (hc_session c') unread = Some (p, None) \<and> hc_buffer c' @ p = encode_air_frame (FResponse own)"
    by (rule rtsp_received [where session = None and qs = "[]" and reads = reads])
      (simp_all add: assms seal_wire_def plain_reads_clear)
  then obtain c' unread p where s: "rtsp_send A md5 second ?rc = (check_status (ex_allow_error second) late,
      ?rc\<lparr>rc_http := c', rc_rtsp := (rc_rtsp ?rc)\<lparr>rt_cseq := rt_cseq (rc_rtsp ?rc) + 1\<rparr>\<rparr>)"
    and i: "hc_incoming c' = map HttpRead unread" "plain_reads A (hc_session c') unread = Some (p, None)" "hc_buffer c' @ p = encode_air_frame (FResponse own)"
    by auto
  have "p = concat unread"
  proof (cases "hc_session c'")
    case None
    with i(2) show ?thesis by (simp add: plain_reads_clear)
  next
    case (Some s)
    have "plain_reads A (Some s) rs \<noteq> Some (q, None)" for s rs q
      by (induction rs arbitrary: s q) (auto simp: read_plain_def split: prod.splits sum.splits)
    with Some i(2) show ?thesis by simp
  qed
  with t s i show ?thesis by blast
qed

section \<open>A refused announcement\<close>

definition announce_exchange :: "announce_format \<Rightarrow> bool \<Rightarrow> raop_connection \<Rightarrow> exchange" where
  "announce_exchange f allow_error rc = exchange_default\<lparr>ex_method := lit ''ANNOUNCE'', ex_content_type := Some (lit ''application/sdp''),
     ex_body := announce_sdp (rt_session_id (rc_rtsp rc)) (hc_local_ip (rc_http rc)) (hc_remote_ip (rc_http rc)) f,
     ex_allow_error := allow_error\<rparr>"

lemma ex_allow_announce: "ex_allow_error (announce_exchange f a rc) = a"
  by (simp add: announce_exchange_def)

lemma headers_not_sent: "rtsp_headers md5 target (ex\<lparr>ex_allow_error := a\<rparr>) session = rtsp_headers md5 target ex session"
  by (cases "rt_digest session") (simp_all add: rtsp_headers_def)

lemma allowing_not_sent: "exchange_request md5 (ex\<lparr>ex_allow_error := a\<rparr>) rc = exchange_request md5 ex rc"
  by (simp add: exchange_request_def build_request_def rtsp_spec_def rtsp_target_def headers_not_sent Let_def)

lemma announce_not_sent: "exchange_request md5 (announce_exchange f a rc) rc = exchange_request md5 (announce_exchange f True rc) rc"
  using allowing_not_sent [of md5 a "announce_exchange f True rc" rc] by (simp add: announce_exchange_def)

lemma announce_alt:
  "announce A md5 f None rc = ok_unit (rtsp_send A md5 (announce_exchange f False rc) rc)"
  "announce A md5 f (Some password) rc = (case rtsp_send A md5 (announce_exchange f True rc) rc of
         (Err e, rc') \<Rightarrow> (Err e, rc')
       | (Ok response, rc') \<Rightarrow>
           if ar_status response \<noteq> 401 then (Ok (), rc')
           else (case Option.bind (response_header response (lit ''WWW-Authenticate'')) parse_challenge of
               None \<Rightarrow> (Err APasswordRequired, rc')
             | Some (realm, once) \<Rightarrow>
                 ok_unit (rtsp_send A md5 (announce_exchange f False rc) (rc'\<lparr>rc_rtsp := set_digest (digest_new realm password once) (rc_rtsp rc')\<rparr>))))"
  unfolding announce_def announce_exchange_def Let_def by (rule option.case(1), rule option.case(2))

text \<open>
  C37: With a password, a refused announcement is a success. When the receiver answers \<open>ANNOUNCE\<close> with a
  response that is neither a success nor a 401, the call fails without a password, and with one it returns as
  if the stream had been accepted.
\<close>

theorem announce_refusal_ignored:
  assumes "seal_wire A (hc_session (rc_http rc)) (encode_air_frame (FRequest (exchange_request md5 (announce_exchange f True rc) rc))) = (Ok outbound, session)"
    and "hc_faults (rc_http rc) = []" and "hc_buffer (rc_http rc) = []" and "hc_incoming (rc_http rc) = map HttpRead reads @ later"
    and "[] \<notin> set reads" and "plain_reads A session reads = Some (encode_air_frame (FResponse r) @ rest, s')"
    and "clean_frame (FResponse r)" and "ar_status r \<noteq> 401" and "\<not> response_is_success r"
  shows "fst (announce A md5 f (Some password) rc) = Ok () \<and> (\<exists>e. fst (announce A md5 f None rc) = Err e)"
proof
  have a: "\<exists>rc'. rtsp_send A md5 (announce_exchange f allow rc) rc = (check_status allow r, rc')" for allow
  proof -
    have "seal_wire A (hc_session (rc_http rc)) (encode_air_frame (FRequest (exchange_request md5 (announce_exchange f allow rc) rc))) = (Ok outbound, session)"
      using assms(1) by (simp add: announce_not_sent [where a = allow])
    from rtsp_received [where qs = "[]" and rest = rest, OF this assms(2-5)] assms(6,7) show ?thesis by (auto simp: ex_allow_announce)
  qed
  from a [of True] assms(8) show "fst (announce A md5 f (Some password) rc) = Ok ()"
    by (auto simp: announce_alt check_status_def)
  from a [of False] assms(8,9) show "\<exists>e. fst (announce A md5 f None rc) = Err e"
    by (auto simp: announce_alt check_status_def ok_unit_def)
qed

section \<open>On a connection\<close>

definition busy :: "u16 \<Rightarrow> air_response" where
  "busy status = \<lparr>ar_protocol = RTSP_1_0, ar_status = status, ar_reason = lit ''Busy'', ar_headers = [], ar_body = []\<rparr>"

definition clear_connection :: "http_read list \<Rightarrow> raop_connection" where
  "clear_connection incoming = \<lparr>rc_http = \<lparr>hc_buffer = [], hc_session = None, hc_local_ip = [49], hc_remote_ip = [50],
     hc_incoming = incoming, hc_written = [], hc_faults = []\<rparr>, rc_rtsp = with_identifiers 1 2 3\<rparr>"

definition cut_busy :: "u16 \<Rightarrow> bytes \<Rightarrow> bytes list" where
  "cut_busy status rest = [take 5 (encode_air_frame (FResponse (busy status))), drop 5 (encode_air_frame (FResponse (busy status))) @ rest]"

lemma busy_clean:
  assumes "length (decimal (unat status)) < 100"
  shows "clean_frame (FResponse (busy status))"
proof -
  have "line_text RTSP_1_0" "32 \<notin> set RTSP_1_0" "47 \<in> set RTSP_1_0" "length RTSP_1_0 = 8" "line_text (lit ''Busy'')"
    by (simp_all add: RTSP_1_0_def line_text_def utf8_valid_ascii ascii_def)
  with assms show ?thesis
    by (simp add: clean_frame_def busy_def content_length_def header_lookup_def encode_air_frame_def crlf2_def usize_max_def)
qed

lemma busy_200: "clean_frame (FResponse (busy 200))"
  by (rule busy_clean) (simp add: decimal.simps)

lemma busy_453: "clean_frame (FResponse (busy 453))"
  by (rule busy_clean) (simp add: decimal.simps)

lemma busy_response_simps [simp]: "ar_status (busy s) = s" "ar_reason (busy s) = lit ''Busy''"
  by (simp_all add: busy_def)

lemma clear_facts [simp]:
  "hc_session (rc_http (clear_connection reads)) = None" "hc_faults (rc_http (clear_connection reads)) = []"
  "hc_buffer (rc_http (clear_connection reads)) = []" "hc_incoming (rc_http (clear_connection reads)) = reads"
  by (simp_all add: clear_connection_def)

lemma cut_busy_reads [simp]: "[] \<notin> set (cut_busy s rest)" "concat (cut_busy s rest) = encode_air_frame (FResponse (busy s)) @ rest"
  by (simp_all add: cut_busy_def encode_air_frame_def busy_def RTSP_1_0_def)

theorem exchange_returns_response_witness:
  "fst (rtsp_send toy_aead (\<lambda>b. b) exchange_default (clear_connection (map HttpRead (cut_busy 453 [79, 75])))) = Err (AStatus 453 (lit ''Busy''))"
proof -
  let ?rc = "clear_connection (map HttpRead (cut_busy 453 [79, 75]))"
  have "fst (rtsp_send toy_aead (\<lambda>b. b) exchange_default ?rc) =
      (if ex_allow_error exchange_default \<or> 200 \<le> ar_status (busy 453) \<and> ar_status (busy 453) < 300 then Ok (busy 453)
       else if ar_status (busy 453) = 401 \<or> ar_status (busy 453) = 403 then Err (ANotAuthenticated (ar_status (busy 453)))
       else Err (AStatus (ar_status (busy 453)) (ar_reason (busy 453))))"
    by (rule exchange_returns_response [where session = None and qs = "[]" and later = "[]" and s' = None and reads = "cut_busy 453 [79, 75]"
          and rest = "[79, 75]" and outbound = "encode_air_frame (FRequest (exchange_request (\<lambda>b. b) exchange_default ?rc))", THEN conjunct1])
      (simp_all add: seal_wire_def plain_reads_clear busy_453)
  then show ?thesis by (simp add: exchange_default_def)
qed

theorem late_response_misattributed_witness:
  "\<exists>msg rc' rc''. rtsp_send toy_aead (\<lambda>b. b) exchange_default
        (clear_connection (HttpDeadline # map HttpRead (cut_busy 200 (encode_air_frame (FResponse (busy 453)))))) = (Err (AIo ATimedOut msg), rc')
    \<and> rtsp_send toy_aead (\<lambda>b. b) exchange_default rc' = (Ok (busy 200), rc'')"
proof -
  let ?reads = "cut_busy 200 (encode_air_frame (FResponse (busy 453)))"
  let ?rc = "clear_connection (HttpDeadline # map HttpRead ?reads)"
  have "\<exists>msg rc' c' unread. rtsp_send toy_aead (\<lambda>b. b) exchange_default ?rc = (Err (AIo ATimedOut msg), rc')
    \<and> rtsp_send toy_aead (\<lambda>b. b) exchange_default rc' = (check_status (ex_allow_error exchange_default) (busy 200),
        rc'\<lparr>rc_http := c', rc_rtsp := (rc_rtsp rc')\<lparr>rt_cseq := rt_cseq (rc_rtsp rc') + 1\<rparr>\<rparr>)
    \<and> hc_incoming c' = map HttpRead unread \<and> hc_buffer c' @ concat unread = encode_air_frame (FResponse (busy 453))"
    by (rule late_response_misattributed [where reads = ?reads]) (simp_all add: busy_200 busy_453)
  moreover have "check_status (ex_allow_error exchange_default) (busy 200) = Ok (busy 200)"
    by (simp add: check_status_def response_is_success_def exchange_default_def)
  ultimately show ?thesis by auto
qed

theorem announce_refusal_ignored_witness:
  "fst (announce toy_aead (\<lambda>b. b) \<lparr>af_bits_per_channel = 16, af_channels = 2, af_sample_rate = 44100\<rparr> (Some [112])
      (clear_connection (map HttpRead (cut_busy 453 [])))) = Ok ()"
proof -
  let ?f = "\<lparr>af_bits_per_channel = 16, af_channels = 2, af_sample_rate = 44100\<rparr>" and ?rc = "clear_connection (map HttpRead (cut_busy 453 []))"
  show ?thesis
    by (rule announce_refusal_ignored [where session = None and later = "[]" and s' = None and reads = "cut_busy 453 []" and r = "busy 453" and rest = "[]"
          and outbound = "encode_air_frame (FRequest (exchange_request (\<lambda>b. b) (announce_exchange ?f True ?rc) ?rc))", THEN conjunct1])
      (simp_all add: seal_wire_def plain_reads_clear busy_453 response_is_success_def)
qed

end
