(* ===== verification/Airplay_Events.thy ===== *)
theory Airplay_Events
  imports Airplay_Http
begin

text \<open>
  The event channel of AirPlay 2 (\<open>pyatv-proto-airplay\<close>: \<open>ap2/event_channel.rs\<close>): the receiver
  sends requests over a HAP channel, and each is answered \<open>200 OK\<close> before it is offered to a consumer that
  need not read. The task is a step per outcome of its reads; the errors of the socket's writes are a list the
  environment gives.
\<close>

section \<open>Replies\<close>

definition EVENT_QUEUE_DEPTH :: nat where "EVENT_QUEUE_DEPTH = 32"

text \<open>The name of the server ends in the version of the crate, which the build supplies.\<close>

definition SERVER_NAME :: "bytes \<Rightarrow> bytes" where
  "SERVER_NAME version = lit ''pyatv-rs-www/'' @ version"

definition request_header :: "air_request \<Rightarrow> bytes \<Rightarrow> bytes option" where
  "request_header q name = header_lookup name (aq_headers q)"

definition event_reply :: "bytes \<Rightarrow> air_request \<Rightarrow> air_response" where
  "event_reply version q = (let server = request_header q (lit ''Server'') in
     \<lparr>ar_protocol = aq_protocol q, ar_status = 200, ar_reason = lit ''OK'',
      ar_headers =
        (if server = None then [(lit ''Server'', SERVER_NAME version)] else [])
        @ [(lit ''Content-Length'', lit ''0''), (lit ''Audio-Latency'', lit ''0'')]
        @ (case server of None \<Rightarrow> [] | Some s \<Rightarrow> [(lit ''Server'', s)])
        @ (case request_header q (lit ''CSeq'') of None \<Rightarrow> [] | Some c \<Rightarrow> [(lit ''CSeq'', c)]),
      ar_body = []\<rparr>)"

definition encode_reply :: "bytes \<Rightarrow> air_request \<Rightarrow> bytes" where
  "encode_reply version q = encode_air_frame (FResponse (event_reply version q))"

section \<open>The channel\<close>

record event_channel =
  ec_reader :: hap_session
  ec_writer :: hap_session
  ec_buffer :: bytes
  ec_queue :: "air_request list"
  ec_open :: bool
  ec_written :: "bytes list"
  ec_faults :: "airplay_error option list"

text \<open>Sealing and writing a reply, and \<open>try_send\<close>: a request that finds the queue full is lost.\<close>

definition event_send :: "aead \<Rightarrow> bytes \<Rightarrow> event_channel \<Rightarrow> (airplay_error + unit) \<times> event_channel" where
  "event_send A plaintext ch = (case hap_encrypt A plaintext (ec_writer ch) of
     (Err e, w) \<Rightarrow> (Err (APairing (hap_of_pairing e)), ch\<lparr>ec_writer := w\<rparr>)
   | (Ok framed, w) \<Rightarrow> (case ec_faults ch of
       Some e # faults \<Rightarrow> (Err e, ch\<lparr>ec_writer := w, ec_faults := faults\<rparr>)
     | faults \<Rightarrow> (Ok (), ch\<lparr>ec_writer := w, ec_faults := tl faults, ec_written := ec_written ch @ [framed]\<rparr>)))"

definition event_offer :: "air_request \<Rightarrow> event_channel \<Rightarrow> event_channel" where
  "event_offer q ch = (if length (ec_queue ch) < EVENT_QUEUE_DEPTH then ch\<lparr>ec_queue := ec_queue ch @ [q]\<rparr> else ch)"

lemma event_send_buffer: "event_send A p ch = (r, ch') \<Longrightarrow> ec_buffer ch' = ec_buffer ch"
  by (auto simp: event_send_def split: prod.splits sum.splits list.splits option.splits)

lemma event_offer_buffer [simp]: "ec_buffer (event_offer q ch) = ec_buffer ch"
  by (simp add: event_offer_def)

function event_drain :: "bytes \<Rightarrow> aead \<Rightarrow> event_channel \<Rightarrow> (airplay_error + unit) \<times> event_channel" where
  "event_drain version A ch =
     (case parse_frame (ec_buffer ch) of
        Err e \<Rightarrow> (Err e, ch)
      | Ok None \<Rightarrow> (Ok (), ch)
      | Ok (Some (f, consumed)) \<Rightarrow> (let ch' = ch\<lparr>ec_buffer := drop consumed (ec_buffer ch)\<rparr> in
          case f of
            FResponse r \<Rightarrow> event_drain version A ch'
          | FRequest q \<Rightarrow> (case event_send A (encode_reply version q) ch' of
              (Err e, ch'') \<Rightarrow> (Err e, ch'')
            | (Ok _, ch'') \<Rightarrow> event_drain version A (event_offer q ch''))))"
  by pat_completeness auto
termination
  by (relation "measure (\<lambda>(_, _, ch). length (ec_buffer ch))")
    (auto dest!: parse_frame_consumed event_send_buffer [OF sym])

declare event_drain.simps [simp del]

text \<open>What the task's loop sees: the bytes of a read, the end of the stream, an error of the read, or \<open>close\<close>.\<close>

datatype event_input = EventSegment bytes | EventEnd | EventReadError | EventClose

definition event_input :: "bytes \<Rightarrow> aead \<Rightarrow> event_input \<Rightarrow> event_channel \<Rightarrow> event_channel" where
  "event_input version A ev ch =
     (if \<not> ec_open ch then ch
      else case ev of
        EventSegment bs \<Rightarrow> (case hap_decrypt A bs (ec_reader ch) of
            (Err e, r) \<Rightarrow> ch\<lparr>ec_reader := r, ec_open := False\<rparr>
          | (Ok plaintext, r) \<Rightarrow> (case event_drain version A (ch\<lparr>ec_reader := r, ec_buffer := ec_buffer ch @ plaintext\<rparr>) of
              (Err e, ch') \<Rightarrow> ch'\<lparr>ec_open := False\<rparr>
            | (Ok _, ch') \<Rightarrow> ch'))
      | _ \<Rightarrow> ch\<lparr>ec_open := False\<rparr>)"

text \<open>\<open>recv\<close>: \<open>None\<close> while it waits, and the end when the task is gone.\<close>

definition event_recv :: "event_channel \<Rightarrow> air_request option option \<times> event_channel" where
  "event_recv ch = (case ec_queue ch of
     q # qs \<Rightarrow> (Some (Some q), ch\<lparr>ec_queue := qs\<rparr>)
   | [] \<Rightarrow> (if ec_open ch then None else Some None, ch))"

definition event_run :: "bytes \<Rightarrow> aead \<Rightarrow> event_input list \<Rightarrow> event_channel \<Rightarrow> event_channel" where
  "event_run version A evs ch = fold (event_input version A) evs ch"

section \<open>Every request is answered\<close>

fun requests_of :: "air_frame list \<Rightarrow> air_request list" where
  "requests_of [] = []"
| "requests_of (FRequest q # fs) = q # requests_of fs"
| "requests_of (FResponse r # fs) = requests_of fs"

definition offered :: "air_request list \<Rightarrow> air_request list \<Rightarrow> air_request list" where
  "offered queue qs = queue @ take (EVENT_QUEUE_DEPTH - length queue) qs"

lemma offered_simps: "offered queue [] = queue" "offered (offered queue qs) qs' = offered queue (qs @ qs')"
  by (cases "length qs \<le> EVENT_QUEUE_DEPTH - length queue"; simp add: offered_def)+

lemma event_offer_offered: "event_offer q ch = ch\<lparr>ec_queue := offered (ec_queue ch) [q]\<rparr>"
  by (simp add: event_offer_def offered_def)

lemma event_sends:
  "ec_faults ch = [] \<Longrightarrow> hap_encrypt A p (ec_writer ch) = (Ok framed, w) \<Longrightarrow>
   event_send A p ch = (Ok (), ch\<lparr>ec_writer := w, ec_written := ec_written ch @ [framed]\<rparr>)"
  by (cases ch) (simp add: event_send_def)

lemma requests_append: "requests_of (fs @ gs) = requests_of fs @ requests_of gs"
  by (induction fs rule: requests_of.induct) simp_all

lemma air_loop_cases:
  assumes "air_loop () b = (fs, (), rest, None)"
  obtains "parse_frame b = Ok None" "fs = []" "rest = b"
    | f gs n where "parse_frame b = Ok (Some (f, n))" "fs = f # gs" "air_loop () (drop n b) = (gs, (), rest, None)"
proof (cases "air_step () b")
  case More
  then have "parse_frame b = Ok None" by (simp add: air_step_def split: sum.splits option.splits prod.splits)
  moreover have "fs = []" "rest = b" using assms air.loop_More [OF More] by simp_all
  ultimately show thesis by (rule that(1))
next
  case (Bad e u)
  with assms show thesis by (simp add: air.loop_Bad [OF Bad])
next
  case (Frame f u n)
  then have "parse_frame b = Ok (Some (f, n))" by (auto simp: air_step_def split: sum.splits option.splits prod.splits)
  with assms that(2) show thesis
    by (cases "air_loop u (drop n b)") (auto simp: air.loop_Frame [OF Frame])
qed

lemma event_drained:
  assumes "ec_faults ch = []" and "air_loop () (ec_buffer ch) = (fs, (), rest, None)"
    and "hap_send A (ec_writer ch) (map (encode_reply version) (requests_of fs)) = Ok (out, w)"
  shows "\<exists>outs. concat outs = out \<and> event_drain version A ch = (Ok (), ch\<lparr>ec_buffer := rest, ec_writer := w,
    ec_written := ec_written ch @ outs, ec_queue := offered (ec_queue ch) (requests_of fs)\<rparr>)"
  using assms
proof (induction fs arbitrary: ch out)
  case Nil
  from Nil(2) have p: "parse_frame (ec_buffer ch) = Ok None \<and> rest = ec_buffer ch"
    by (rule air_loop_cases) simp_all
  from p have "event_drain version A ch = (Ok (), ch)" by (simp only: event_drain.simps [of version A ch] sum.case option.case)
  with p show ?case using Nil(3)
    by (intro exI [of _ "[]"]) (simp add: offered_simps)
next
  case (Cons f fs)
  from Cons.prems(2) obtain n where p: "parse_frame (ec_buffer ch) = Ok (Some (f, n))"
    and l: "air_loop () (drop n (ec_buffer ch)) = (fs, (), rest, None)"
    by (rule air_loop_cases) auto
  let ?b = "drop n (ec_buffer ch)"
  show ?case
  proof (cases f)
    case (FResponse r)
    from p have "event_drain version A ch = event_drain version A (ch\<lparr>ec_buffer := ?b\<rparr>)"
      by (subst event_drain.simps) (simp add: FResponse)
    with Cons.IH [of "ch\<lparr>ec_buffer := ?b\<rparr>" out] Cons.prems(1,3) l show ?thesis by (simp add: FResponse)
  next
    case (FRequest q)
    from Cons.prems(3) obtain o1 w1 o2 where e: "hap_encrypt A (encode_reply version q) (ec_writer ch) = (Ok o1, w1)"
      and s: "hap_send A w1 (map (encode_reply version) (requests_of fs)) = Ok (o2, w)" and o: "out = o1 @ o2"
      by (auto simp: FRequest rbind_Ok_iff split: prod.splits sum.splits)
    let ?c = "ch\<lparr>ec_buffer := ?b, ec_writer := w1, ec_written := ec_written ch @ [o1], ec_queue := offered (ec_queue ch) [q]\<rparr>"
    have "event_drain version A ch = event_drain version A ?c"
      using p e event_sends [of "ch\<lparr>ec_buffer := ?b\<rparr>"] Cons.prems(1)
      by (subst event_drain.simps) (simp add: FRequest event_offer_offered)
    moreover from Cons.IH [of ?c o2] Cons.prems(1) l s obtain outs where "concat outs = o2"
      "event_drain version A ?c = (Ok (), ?c\<lparr>ec_buffer := rest, ec_writer := w, ec_written := ec_written ?c @ outs,
         ec_queue := offered (ec_queue ?c) (requests_of fs)\<rparr>)" by auto
    ultimately show ?thesis
      unfolding FRequest o requests_of.simps offered_simps(2) [of "ec_queue ch" "[q]" "requests_of fs", simplified, symmetric]
      by (intro exI [of _ "o1 # outs"]) simp
  qed
qed

lemma events_read:
  assumes "ec_open ch" "ec_faults ch = []" "air_step () (ec_buffer ch) = More"
    and "hap_feed A (ec_reader ch) reads = Ok (plain, r)" "air_loop () (ec_buffer ch @ plain) = (fs, (), rest, None)"
    and "hap_send A (ec_writer ch) (map (encode_reply version) (requests_of fs)) = Ok (out, w)"
  shows "\<exists>outs. concat outs = out \<and> event_run version A (map EventSegment reads) ch = ch\<lparr>ec_reader := r, ec_buffer := rest, ec_writer := w,
    ec_written := ec_written ch @ outs, ec_queue := offered (ec_queue ch) (requests_of fs)\<rparr>"
  using assms
proof (induction reads arbitrary: ch plain fs out)
  case Nil
  then have "plain = []" "r = ec_reader ch" "fs = []" "rest = ec_buffer ch" by (simp_all add: air.loop_More)
  with Nil show ?case
    by (intro exI [of _ "[]"]) (simp add: event_run_def offered_simps)
next
  case (Cons bs reads)
  from Cons.prems(4) obtain p1 r1 p2 where d: "hap_decrypt A bs (ec_reader ch) = (Ok p1, r1)"
    and f: "hap_feed A r1 reads = Ok (p2, r)" and p: "plain = p1 @ p2"
    by (auto simp: rbind_Ok_iff split: prod.splits sum.splits)
  from air.loop_prefix [OF Cons.prems(5) [unfolded p append_assoc [symmetric]]] obtain fs1 b1 fs2 where
    l1: "air_loop () (ec_buffer ch @ p1) = (fs1, (), b1, None)" and l2: "air_loop () (b1 @ p2) = (fs2, (), rest, None)" and fs: "fs = fs1 @ fs2"
    by auto
  from Cons.prems(6) obtain o1 w1 o2 where s1: "hap_send A (ec_writer ch) (map (encode_reply version) (requests_of fs1)) = Ok (o1, w1)"
    and s2: "hap_send A w1 (map (encode_reply version) (requests_of fs2)) = Ok (o2, w)" and o: "out = o1 @ o2"
    by (auto simp: fs requests_append hap_send_append rbind_Ok_iff)
  let ?c = "ch\<lparr>ec_reader := r1, ec_buffer := ec_buffer ch @ p1\<rparr>"
  from event_drained [of ?c fs1 b1 A version o1 w1] Cons.prems(2) l1 s1 obtain outs1 where o1: "concat outs1 = o1"
    and e: "event_drain version A ?c = (Ok (), ?c\<lparr>ec_buffer := b1, ec_writer := w1, ec_written := ec_written ?c @ outs1,
      ec_queue := offered (ec_queue ?c) (requests_of fs1)\<rparr>)" by auto
  let ?c1 = "ch\<lparr>ec_reader := r1, ec_buffer := b1, ec_writer := w1, ec_written := ec_written ch @ outs1,
    ec_queue := offered (ec_queue ch) (requests_of fs1)\<rparr>"
  have e: "event_input version A (EventSegment bs) ch = ?c1" using d e Cons.prems(1) by (simp add: event_input_def)
  have "air_step () b1 = More" using air.loop_rest [OF l1] .
  with Cons.IH [of ?c1 p2 fs2 o2] Cons.prems(1,2) f l2 s2 obtain outs2 where "concat outs2 = o2"
    "event_run version A (map EventSegment reads) ?c1 = ?c1\<lparr>ec_reader := r, ec_buffer := rest, ec_writer := w,
      ec_written := ec_written ?c1 @ outs2, ec_queue := offered (ec_queue ?c1) (requests_of fs2)\<rparr>" by auto
  with e o o1 show ?case
    by (intro exI [of _ "outs1 @ outs2"]) (simp add: event_run_def fs requests_append offered_simps)
qed

section \<open>What the receiver reads\<close>

text \<open>A request whose protocol can stand at the head of a response.\<close>

definition good_event :: "air_request \<Rightarrow> bool" where
  "good_event q \<longleftrightarrow> clean_frame (FRequest q) \<and> 47 \<in> set (aq_protocol q) \<and> 32 \<notin> set (aq_protocol q)
     \<and> length (encode_air_frame (FRequest q)) \<le> 2 ^ 32"

lemma frames_loop:
  assumes "list_all clean_frame fs"
  shows "air_loop () (concat (map encode_air_frame fs)) = (fs, (), [], None)"
proof -
  have "send_all air_put () fs = Ok (concat (map encode_air_frame fs), ())"
    by (induction fs) (simp_all add: air_put_def)
  from air_pair.send_all_received [OF this] assms show ?thesis by (simp add: list_all_iff)
qed

lemma header_found: "header_lookup name hs = Some content \<Longrightarrow> (\<exists>n. (n, content) \<in> set hs)"
  by (auto simp: header_lookup_def find_Some_iff) (metis nth_mem)

lemma header_within: "header_lookup name (aq_headers q) = Some content \<Longrightarrow> length content \<le> length (encode_air_frame (FRequest q))"
proof -
  assume "header_lookup name (aq_headers q) = Some content"
  then obtain n where "(n, content) \<in> set (aq_headers q)" using header_found by blast
  then obtain xs ys where "aq_headers q = xs @ (n, content) # ys" by (auto simp: in_set_conv_decomp)
  then show ?thesis by (simp add: encode_air_frame_def)
qed

lemma header_clean: "list_all clean_header hs \<Longrightarrow> header_lookup name hs = Some content \<Longrightarrow> line_text content \<and> trim_start content = content"
  using header_found by (fastforce simp: list_all_iff clean_header_def)

lemma printable_start: "s \<noteq> [] \<Longrightarrow> printable (hd s) \<Longrightarrow> trim_start s = s"
  unfolding trim_start_def using white_space_ends by (intro trim_with_id) (fastforce simp: prefix_def)

lemma reply_names: "clean_header (lit ''Server'', content) \<longleftrightarrow> line_text content \<and> trim_start content = content"
  "clean_header (lit ''CSeq'', content) \<longleftrightarrow> line_text content \<and> trim_start content = content"
  "clean_header (lit ''Content-Length'', lit ''0'')" "clean_header (lit ''Audio-Latency'', lit ''0'')"
  by (simp_all add: clean_header_def line_text_def utf8_valid_ascii ascii_def trim_id printable_start printable_def)

lemma server_name_clean: "line_text version \<Longrightarrow> line_text (SERVER_NAME version) \<and> trim_start (SERVER_NAME version) = SERVER_NAME version"
proof -
  assume "line_text version"
  moreover have "line_text (lit ''pyatv-rs-www/'')" by (simp add: line_text_def utf8_valid_ascii ascii_def)
  moreover have "trim_start (SERVER_NAME version) = SERVER_NAME version"
    by (rule printable_start) (simp_all add: SERVER_NAME_def printable_def)
  ultimately show ?thesis by (auto simp: SERVER_NAME_def line_text_def utf8_valid_append)
qed

lemma reply_length: "header_lookup CONTENT_LENGTH (ar_headers (event_reply version q)) = Some (lit ''0'')"
  by (simp add: event_reply_def header_lookup_def CONTENT_LENGTH_def Let_def eq_ignore_ascii_case_def ascii_lowercase_def split: option.split)

lemma reply_CSeq: "response_header (event_reply version q) (lit ''CSeq'') = request_header q (lit ''CSeq'')"
  by (simp add: response_header_def event_reply_def header_lookup_def Let_def eq_ignore_ascii_case_def ascii_lowercase_def split: option.split)

lemma reply_clean:
  assumes "good_event q" and "line_text version" and "length version \<le> 1000"
  shows "clean_frame (FResponse (event_reply version q))"
proof -
  let ?hs = "ar_headers (event_reply version q)"
  from assms(1) have q: "list_all clean_header (aq_headers q)" "line_text (aq_protocol q)" "47 \<in> set (aq_protocol q)" "32 \<notin> set (aq_protocol q)"
    by (simp_all add: good_event_def clean_frame_def)
  note found = header_clean [OF q(1), folded request_header_def] header_within [folded request_header_def]
  have hs: "list_all clean_header ?hs"
    using found(1) server_name_clean [OF assms(2)] reply_names
    by (auto simp: event_reply_def Let_def split: option.split)
  have "content_length ?hs = Ok 0"
    using parse_decimal [of 0 usize_max] by (simp add: content_length_def reply_length trim_id printable_def parse_usize_def decimal.simps AIR_MAX_BODY_LEN_def)
  moreover have "length (encode_air_frame (FResponse (event_reply version q))) \<le> usize_max"
  proof -
    have "length (encode_air_frame (FRequest q)) \<le> 2 ^ 32" using assms(1) by (simp add: good_event_def)
    then have "length content \<le> 2 ^ 32" if "request_header q name = Some content" for name content
      using found(2) [OF that] by (rule order_trans [rotated])
    moreover have "length (aq_protocol q) \<le> 2 ^ 32" using assms(1) by (simp add: good_event_def encode_air_frame_def)
    ultimately have b: "length (aq_protocol q) \<le> 2 ^ 32" "\<forall>c \<in> set_option (request_header q (lit ''Server'')). length c \<le> 2 ^ 32"
      "\<forall>c \<in> set_option (request_header q (lit ''CSeq'')). length c \<le> 2 ^ 32" by auto
    show ?thesis
      by (cases "request_header q (lit ''Server'')"; cases "request_header q (lit ''CSeq'')"; insert b assms(3))
        (simp_all add: encode_air_frame_def event_reply_def SERVER_NAME_def crlf_def crlf2_def usize_max_def decimal.simps)
  qed
  moreover have "clean_start (FResponse (event_reply version q))"
    using q by (simp add: event_reply_def Let_def line_text_def utf8_valid_ascii ascii_def)
  ultimately show ?thesis using hs by (simp add: clean_frame_def event_reply_def Let_def)
qed

text \<open>
  C35: Every event is answered. However the receiver's bytes are cut, each of its requests is answered once and in
  order, whether or not anything reads the queue: the receiver opens a \<open>200\<close> with the \<open>CSeq\<close> of
  each request. Of the requests the queue keeps the first that fit, 32 in all, and the channel stays open.
\<close>

theorem events_answered:
  assumes "aead_ok A" and "list_all good_event qs" and "line_text version" and "length version \<le> 1000"
    and "hap_send A peer plains = Ok (wire, peer')" and "concat plains = concat (map (\<lambda>q. encode_air_frame (FRequest q)) qs)" and "concat reads = wire"
    and "facing (hap_cipher peer) (hap_cipher (ec_reader ch))" and "hap_buffer (ec_reader ch) = []"
    and "ec_open ch" and "ec_faults ch = []" and "ec_buffer ch = []"
    and "hap_send A (ec_writer ch) (map (encode_reply version) qs) = Ok (out, w)"
    and "facing (hap_cipher (ec_writer ch)) (hap_cipher d)" and "hap_buffer d = []"
  shows "let ch' = event_run version A (map EventSegment reads) ch in
    ec_open ch' \<and> ec_queue ch' = ec_queue ch @ take (32 - length (ec_queue ch)) qs
    \<and> (\<exists>outs p d' rs. ec_written ch' = ec_written ch @ outs \<and> hap_feed A d outs = Ok (p, d')
        \<and> air_loop () p = (map FResponse rs, (), [], None) \<and> map ar_status rs = map (\<lambda>q. 200) qs
        \<and> map (\<lambda>r. response_header r (lit ''CSeq'')) rs = map (\<lambda>q. request_header q (lit ''CSeq'')) qs)"
proof -
  from hap_stream_delivers [OF assms(1,5,8,9,7)] obtain r where
    f: "hap_feed A (ec_reader ch) reads = Ok (concat (map encode_air_frame (map FRequest qs)), r)" by (auto simp: assms(6) comp_def)
  have l: "air_loop () (ec_buffer ch @ concat (map encode_air_frame (map FRequest qs))) = (map FRequest qs, (), [], None)"
    using frames_loop [of "map FRequest qs"] assms(2,12) by (auto simp: good_event_def list_all_iff)
  have q: "requests_of (map FRequest qs) = qs" by (induction qs) simp_all
  have m: "air_step () (ec_buffer ch) = More" using assms(12) by (simp add: air_step_def parse_frame_def crlf2_def)
  from events_read [OF assms(10,11) m f l, unfolded q, OF assms(13)] obtain outs where o: "concat outs = out"
    and e: "event_run version A (map EventSegment reads) ch = ch\<lparr>ec_reader := r, ec_buffer := [], ec_writer := w,
      ec_written := ec_written ch @ outs, ec_queue := offered (ec_queue ch) qs\<rparr>" by blast
  let ?rs = "map (event_reply version) qs"
  from hap_stream_delivers [OF assms(1,13,14,15) o] obtain d' where
    "hap_feed A d outs = Ok (concat (map (encode_reply version) qs), d')" by auto
  moreover have "map (encode_reply version) qs = map encode_air_frame (map FResponse ?rs)" by (simp add: encode_reply_def)
  ultimately have "hap_feed A d outs = Ok (concat (map encode_air_frame (map FResponse ?rs)), d')" by simp
  moreover have "air_loop () (concat (map encode_air_frame (map FResponse ?rs))) = (map FResponse ?rs, (), [], None)"
    using assms(2-4) by (intro frames_loop) (auto simp: list_all_iff reply_clean)
  moreover have "map ar_status ?rs = map (\<lambda>q. 200) qs" by (simp add: event_reply_def Let_def)
  moreover have "map (\<lambda>r. response_header r (lit ''CSeq'')) ?rs = map (\<lambda>q. request_header q (lit ''CSeq'')) qs"
    using reply_CSeq by simp
  ultimately have "\<exists>p d' rs. hap_feed A d outs = Ok (p, d') \<and> air_loop () p = (map FResponse rs, (), [], None)
      \<and> map ar_status rs = map (\<lambda>q. 200) qs
      \<and> map (\<lambda>r. response_header r (lit ''CSeq'')) rs = map (\<lambda>q. request_header q (lit ''CSeq'')) qs" by blast
  with assms(10) show ?thesis by (auto simp: e Let_def offered_def EVENT_QUEUE_DEPTH_def)
qed

definition demo_event :: air_request where
  "demo_event = \<lparr>aq_method = lit ''POST'', aq_uri = lit ''/event'', aq_protocol = RTSP_1_0,
     aq_headers = [(lit ''CSeq'', lit ''7'')], aq_body = []\<rparr>"

definition demo_events :: event_channel where
  "demo_events = \<lparr>ec_reader = hap_new [1] [2], ec_writer = hap_new [1] [2], ec_buffer = [], ec_queue = [], ec_open = True,
     ec_written = [], ec_faults = []\<rparr>"

lemma demo_event_good: "list_all good_event [demo_event]"
  using reply_names
  by (simp add: good_event_def clean_frame_def demo_event_def line_text_def utf8_valid_ascii ascii_def RTSP_1_0_def content_length_def
      header_lookup_def CONTENT_LENGTH_def eq_ignore_ascii_case_def ascii_lowercase_def lower_def encode_air_frame_def usize_max_def crlf_def crlf2_def printable_start printable_def)

lemma demo_event_wire: "\<exists>wire peer'. hap_send toy_aead (hap_new [2] [1]) [encode_air_frame (FRequest demo_event)] = Ok (wire, peer') \<and> wire \<noteq> []"
  by (rule toy_seals) (simp_all add: hap_new_def cipher_new_def encode_air_frame_def demo_event_def RTSP_1_0_def crlf_def crlf2_def)

lemma demo_event_out: "\<exists>out w. hap_send toy_aead (hap_new [1] [2]) [encode_reply [] demo_event] = Ok (out, w) \<and> out \<noteq> []"
  by (rule toy_seals) (simp_all add: hap_new_def cipher_new_def encode_reply_def event_reply_def encode_air_frame_def demo_event_def RTSP_1_0_def
      crlf_def crlf2_def SERVER_NAME_def decimal.simps Let_def request_header_def header_lookup_def eq_ignore_ascii_case_def ascii_lowercase_def lower_def)

theorem events_answered_witness:
  "\<exists>reads. 1 < length reads \<and> (let ch' = event_run [] toy_aead (map EventSegment reads) demo_events in
     ec_queue ch' = [demo_event] \<and> (\<exists>p d' r. hap_feed toy_aead (hap_new [2] [1]) (ec_written ch') = Ok (p, d')
        \<and> air_loop () p = ([FResponse r], (), [], None) \<and> response_header r (lit ''CSeq'') = Some (lit ''7'')))"
proof -
  from demo_event_wire obtain wire peer' where w: "hap_send toy_aead (hap_new [2] [1]) [encode_air_frame (FRequest demo_event)] = Ok (wire, peer')" by blast
  from demo_event_out obtain out s where o: "hap_send toy_aead (hap_new [1] [2]) [encode_reply [] demo_event] = Ok (out, s)" by blast
  have c: "request_header demo_event (lit ''CSeq'') = Some (lit ''7'')"
    by (simp add: request_header_def header_lookup_def demo_event_def eq_ignore_ascii_case_def)
  have f: "facing (hap_cipher (hap_new [2] [1])) (hap_cipher (ec_reader demo_events))"
    "facing (hap_cipher (ec_writer demo_events)) (hap_cipher (hap_new [2] [1]))"
    by (simp_all add: demo_events_def hap_new_def facing_new)
  from events_answered [OF toy_aead_ok demo_event_good _ _ w _ _ f(1), of "[]" "[take 7 wire, drop 7 wire]", OF _ _ _ _ _ _ _ _ _ f(2)] o c
  show ?thesis
    by (intro exI [of _ "[take 7 wire, drop 7 wire]"])
      (auto simp: demo_events_def hap_new_def line_text_def utf8_valid_ascii ascii_def Let_def map_eq_Cons_conv)
qed

end
