(* ===== verification/Raop_Metadata.thy ===== *)
theory Raop_Metadata
  imports Dmap_Grammar
begin

text \<open>
  The metadata of a RAOP stream (\<open>pyatv-proto-airplay\<close>: \<open>raop/metadata.rs\<close>): what is known of the
  track, the identity a stream without any reports, the caller's values over the source's, and the \<open>mlit\<close>
  container of \<open>SET_PARAMETER\<close>, in the crate's own copy of the DMAP framing. A duration is the bits of its
  double.
\<close>

section \<open>Tracks\<close>

definition MISSING_TITLE :: bytes where "MISSING_TITLE = lit ''Streaming with pyatv''"
definition MISSING_ARTIST :: bytes where "MISSING_ARTIST = lit ''pyatv''"
definition MISSING_ALBUM :: bytes where "MISSING_ALBUM = lit ''AirPlay''"

record track_metadata =
  tm_title :: "bytes option"
  tm_artist :: "bytes option"
  tm_album :: "bytes option"
  tm_duration :: "u64 option"
  tm_artwork :: "bytes option"

definition track_default :: track_metadata where
  "track_default = \<lparr>tm_title = None, tm_artist = None, tm_album = None, tm_duration = None, tm_artwork = None\<rparr>"

definition track_is_empty :: "track_metadata \<Rightarrow> bool" where
  "track_is_empty m \<longleftrightarrow> m = track_default"

definition or_placeholder :: "track_metadata \<Rightarrow> track_metadata" where
  "or_placeholder m =
     (if \<not> track_is_empty m then m
      else \<lparr>tm_title = Some MISSING_TITLE, tm_artist = Some MISSING_ARTIST, tm_album = Some MISSING_ALBUM, tm_duration = Some 0, tm_artwork = None\<rparr>)"

definition or_else :: "'a option \<Rightarrow> 'a option \<Rightarrow> 'a option" where
  "or_else a b = (if a = None then b else a)"

definition merged_over :: "track_metadata \<Rightarrow> track_metadata \<Rightarrow> track_metadata" where
  "merged_over m base = \<lparr>tm_title = or_else (tm_title m) (tm_title base), tm_artist = or_else (tm_artist m) (tm_artist base),
     tm_album = or_else (tm_album m) (tm_album base), tm_duration = or_else (tm_duration m) (tm_duration base),
     tm_artwork = or_else (tm_artwork m) (tm_artwork base)\<rparr>"

section \<open>DAAP\<close>

definition raop_raw_tag :: "bytes \<Rightarrow> bytes \<Rightarrow> bytes" where
  "raop_raw_tag key data = key @ be_bytes 4 (if length data < 2 ^ 32 then length data else 2 ^ 32 - 1) @ data"

definition raop_string_tag :: "bytes \<Rightarrow> bytes \<Rightarrow> bytes" where
  "raop_string_tag key s = raop_raw_tag key s"

definition to_daap :: "track_metadata \<Rightarrow> bytes" where
  "to_daap m = raop_raw_tag (lit ''mlit'') (concat (map
     (\<lambda>(key, content). case content of None \<Rightarrow> [] | Some s \<Rightarrow> if s = [] then [] else raop_string_tag key s)
     [(lit ''minm'', tm_title m), (lit ''asal'', tm_album m), (lit ''asar'', tm_artist m)]))"

section \<open>What is shown\<close>

text \<open>An empty text is not sent, so it reads as one that is not known.\<close>

definition shown :: "bytes option \<Rightarrow> bytes option" where
  "shown content = (if content = Some [] then None else content)"

definition known_tags :: "track_metadata \<Rightarrow> dtag list" where
  "known_tags m = List.map_filter (\<lambda>(key, content). map_option (TStr key) (shown content))
     [(lit ''minm'', tm_title m), (lit ''asal'', tm_album m), (lit ''asar'', tm_artist m)]"

definition sendable_track :: "track_metadata \<Rightarrow> bool" where
  "sendable_track m \<longleftrightarrow> (\<forall>content \<in> {tm_title m, tm_artist m, tm_album m}. \<forall>s \<in> set_option content. utf8_valid s \<and> length s < 2 ^ 28)"

text \<open>The two copies of the framing, of this crate and of the DMAP crate, write the same bytes.\<close>

lemma raop_tags: "raop_raw_tag = raw_tag" "raop_string_tag = string_tag"
  by (simp_all add: fun_eq_iff raop_raw_tag_def raw_tag_def raop_string_tag_def string_tag_def)

lemma to_daap_written: "to_daap m = write_tags [TCont (lit ''mlit'') (known_tags m)]"
  by (simp add: to_daap_def write_tags_def known_tags_def map_filter_simps shown_def raop_tags container_tag_def
      split: option.split del: lit_eval)

lemma daap_types: "tag_type (lookup_tag (lit ''mlit'')) = TagContainer" "tag_type (lookup_tag (lit ''minm'')) = TagString"
  "tag_type (lookup_tag (lit ''asal'')) = TagString" "tag_type (lookup_tag (lit ''asar'')) = TagString"
  unfolding lookup_tag_def lookup_row_lit tag_table_def by (simp_all add: UNKNOWN_TAG_def tag_def_def del: lit_eval)

lemma daap_keys: "wire_key (lit ''mlit'')" "wire_key (lit ''minm'')" "wire_key (lit ''asal'')" "wire_key (lit ''asar'')"
  by (simp_all add: wire_key_def)

lemma known_writable:
  assumes "sendable_track m"
  shows "list_all (writable lookup_tag MAX_DEPTH) [TCont (lit ''mlit'') (known_tags m)]"
proof -
  have t: "set_option (tm_title m) \<subseteq> {s. utf8_valid s \<and> length s < 2 ^ 28}" "set_option (tm_artist m) \<subseteq> {s. utf8_valid s \<and> length s < 2 ^ 28}"
    "set_option (tm_album m) \<subseteq> {s. utf8_valid s \<and> length s < 2 ^ 28}" using assms by (auto simp: sendable_track_def)
  then have "list_all (writable lookup_tag (MAX_DEPTH - 1)) (known_tags m)"
    by (auto simp: known_tags_def map_filter_simps shown_def daap_types daap_keys split: option.split simp del: lit_eval)
  moreover have "length (write_tags (known_tags m)) < 2 ^ 32"
    using t by (auto simp: known_tags_def map_filter_simps shown_def write_tags_def string_tag_def length_raw_tag length_lit
        split: option.split simp del: lit_eval)
  ultimately show ?thesis by (simp add: daap_types daap_keys MAX_DEPTH_def del: lit_eval)
qed

text \<open>
  The metadata reads back. The body a stream sends parses, by the crate that reads DAAP, as one listing item in
  which the title, the album and the artist are found exactly as they were given, an empty text being as good as
  none.
\<close>

theorem metadata_reads_back:
  assumes "sendable_track m"
  shows "\<exists>es. parse_dmap plist (to_daap m) = Ok es
    \<and> first_str es [lit ''mlit'', lit ''minm''] = shown (tm_title m)
    \<and> first_str es [lit ''mlit'', lit ''asal''] = shown (tm_album m)
    \<and> first_str es [lit ''mlit'', lit ''asar''] = shown (tm_artist m)"
proof -
  let ?es = "map (read_back lookup_tag) [TCont (lit ''mlit'') (known_tags m)]"
  have "parse_dmap plist (to_daap m) = Ok ?es"
    using parse_written [OF known_writable [OF assms]] by (simp add: parse_dmap_def to_daap_written)
  moreover have "first_str ?es [lit ''mlit'', lit ''minm''] = shown (tm_title m)"
    "first_str ?es [lit ''mlit'', lit ''asal''] = shown (tm_album m)" "first_str ?es [lit ''mlit'', lit ''asar''] = shown (tm_artist m)"
    by (auto simp: first_str_def known_tags_def map_filter_simps shown_def split: option.split)
  ultimately show ?thesis by blast
qed

theorem metadata_reads_back_witness:
  "\<exists>es. parse_dmap (\<lambda>_. Err [] :: bytes + unit) (to_daap (or_placeholder track_default)) = Ok es
    \<and> first_str es [lit ''mlit'', lit ''minm''] = Some MISSING_TITLE"
proof -
  have "sendable_track (or_placeholder track_default)"
    by (simp add: sendable_track_def or_placeholder_def track_is_empty_def MISSING_TITLE_def MISSING_ARTIST_def MISSING_ALBUM_def
        utf8_valid_ascii ascii_def)
  moreover have "MISSING_TITLE \<noteq> []" by (simp add: MISSING_TITLE_def lit_def)
  ultimately show ?thesis using metadata_reads_back [of "or_placeholder track_default" "\<lambda>_. Err [] :: bytes + unit"]
    by (auto simp: or_placeholder_def track_is_empty_def shown_def)
qed

end
