(* ===== verification/Mdns_Parser.thy ===== *)
theory Mdns_Parser
  imports Dns_Message
begin

text \<open>
  From mDNS answers to services (\<open>pyatv-mdns\<close>: \<open>service.rs\<close>, \<open>mdns/parser.rs\<close>,
  \<open>mdns/query.rs\<close>, \<open>mdns/mod.rs\<close>): the records of the datagrams filed by owner name, the
  services read out of them, and the queries a scan sends. Addresses are their four octets.
\<close>

section \<open>Services\<close>

definition DEVICE_INFO_SERVICE :: bytes where "DEVICE_INFO_SERVICE = lit ''_device-info._tcp.local''"
definition SLEEP_PROXY_SERVICE :: bytes where "SLEEP_PROXY_SERVICE = lit ''_sleep-proxy._udp.local''"

record mdns_service =
  sv_type :: bytes
  sv_name :: bytes
  sv_address :: "bytes option"
  sv_port :: u16
  sv_properties :: "bytes ci_map"

record mdns_response =
  re_services :: "mdns_service list"
  re_deep_sleep :: bool
  re_model :: "bytes option"

section \<open>The parser\<close>

text \<open>Assignment to a key of a Python \<open>dict\<close>: an old key keeps its place.\<close>

fun upsert :: "(bytes \<times> 'v) list \<Rightarrow> bytes \<Rightarrow> 'v \<Rightarrow> (bytes \<times> 'v) list" where
  "upsert [] key v = [(key, v)]"
| "upsert ((k, w) # es) key v = (if k = key then (k, v) # es else (k, w) # upsert es key v)"

lemma upsert_keys: "map fst (upsert es k v) = (if k \<in> set (map fst es) then map fst es else map fst es @ [k])"
  by (induction es k v rule: upsert.induct) auto

lemma upsert_map_of: "map_of (upsert es k v) l = (if l = k then Some v else map_of es l)"
  by (induction es k v rule: upsert.induct) auto

interpretation ups: ordered_store "\<lambda>k. k" upsert map_of "map fst"
  by unfold_locales (simp_all only: upsert_keys upsert_map_of)

type_synonym owners = "(bytes \<times> resource list) list"

record service_parser =
  sp_table :: owners
  sp_ptrs :: "(bytes \<times> bytes) list"

definition service_parser_new :: service_parser where
  "service_parser_new = \<lparr>sp_table = [], sp_ptrs = []\<rparr>"

definition first_rr :: "resource list \<Rightarrow> u16 \<Rightarrow> resource option" where
  "first_rr rs t = find (\<lambda>a. rr_type a = t) rs"

text \<open>The owner's records, and this one among them.\<close>

fun file_record :: "owners \<Rightarrow> resource \<Rightarrow> owners" where
  "file_record [] a = [(rr_name a, [a])]"
| "file_record ((name, rs) # os) a =
     (if name = rr_name a then (name, if a \<in> set rs then rs else rs @ [a]) # os else (name, rs) # file_record os a)"

definition type_pointer :: "resource \<Rightarrow> bool" where
  "type_pointer a \<longleftrightarrow> rr_type a = QT_PTR \<and> rr_name a \<noteq> [] \<and> hd (rr_name a) = 95"

definition add_record :: "service_parser \<Rightarrow> resource \<Rightarrow> service_parser" where
  "add_record p a =
     (if type_pointer a
      then (case as_ptr_name (rr_rd a) of None \<Rightarrow> p | Some target \<Rightarrow> p\<lparr>sp_ptrs := upsert (sp_ptrs p) (rr_name a) target\<rparr>)
      else p\<lparr>sp_table := file_record (sp_table p) a\<rparr>)"

definition add_message :: "service_parser \<Rightarrow> dns_message \<Rightarrow> service_parser" where
  "add_message p m = foldl add_record p (dm_answers m @ dm_resources m)"

definition is_link_local :: "bytes \<Rightarrow> bool" where
  "is_link_local a \<longleftrightarrow> take 2 a = [169, 254]"

definition v4_address :: "resource \<Rightarrow> bytes option" where
  "v4_address a = (if rr_type a = QT_A then (case rr_rd a of RD_A octets \<Rightarrow> Some octets | _ \<Rightarrow> None) else None)"

definition routable_address :: "owners \<Rightarrow> bytes \<Rightarrow> bytes option" where
  "routable_address table target = (case map_of table target of
     None \<Rightarrow> None
   | Some rs \<Rightarrow> find (\<lambda>a. \<not> is_link_local a) (List.map_filter v4_address rs))"

definition owner_service :: "owners \<Rightarrow> bytes \<times> resource list \<Rightarrow> mdns_service option" where
  "owner_service table = (\<lambda>(qname, rs). case split_name qname of
     Err e \<Rightarrow> None
   | Ok name \<Rightarrow> (let srv = Option.bind (first_rr rs QT_SRV) (\<lambda>a. as_srv (rr_rd a)) in
       Some \<lparr>sv_type = ptr_name name, sv_name = (case sn_instance name of None \<Rightarrow> [] | Some i \<Rightarrow> i),
         sv_address = Option.bind srv (\<lambda>s. routable_address table (srv_target s)),
         sv_port = (case srv of None \<Rightarrow> 0 | Some s \<Rightarrow> srv_port s),
         sv_properties = (case Option.bind (first_rr rs QT_TXT) (\<lambda>a. as_txt (rr_rd a)) of
           None \<Rightarrow> [] | Some m \<Rightarrow> decode_properties m)\<rparr>))"

definition placeholder_service :: "bytes \<times> bytes \<Rightarrow> mdns_service" where
  "placeholder_service = (\<lambda>(qname, target). \<lparr>sv_type = qname, sv_name = hd (split_on dot target), sv_address = None, sv_port = 0,
     sv_properties = []\<rparr>)"

definition owner_step :: "owners \<Rightarrow> (bytes \<times> mdns_service) list \<Rightarrow> bytes \<times> resource list \<Rightarrow> (bytes \<times> mdns_service) list" where
  "owner_step table results owner = (case owner_service table owner of None \<Rightarrow> results | Some s \<Rightarrow> upsert results (fst owner) s)"

definition pointer_step :: "(bytes \<times> mdns_service) list \<Rightarrow> bytes \<times> bytes \<Rightarrow> (bytes \<times> mdns_service) list" where
  "pointer_step results p =
     (if list_ex (\<lambda>(key, _). key = snd p) results then results else upsert results (snd p) (placeholder_service p))"

definition parsed_services :: "service_parser \<Rightarrow> mdns_service list" where
  "parsed_services p = map snd (foldl pointer_step (foldl (owner_step (sp_table p)) [] (sp_table p)) (sp_ptrs p))"

definition get_model :: "mdns_service list \<Rightarrow> bytes option" where
  "get_model services = Option.bind (find (\<lambda>s. sv_type s = DEVICE_INFO_SERVICE) services) (\<lambda>s. ci_get (sv_properties s) (lit ''model''))"

definition to_response :: "service_parser \<Rightarrow> bool \<Rightarrow> mdns_response" where
  "to_response p deep_sleep = (let services = parsed_services p in
     \<lparr>re_services = services, re_deep_sleep = deep_sleep, re_model = get_model services\<rparr>)"

definition parse_services :: "dns_message \<Rightarrow> mdns_service list" where
  "parse_services m = parsed_services (add_message service_parser_new m)"

section \<open>Queries\<close>

definition SERVICES_PER_MSG :: nat where "SERVICES_PER_MSG = 3"

definition service_query :: "bytes list \<Rightarrow> u16 \<Rightarrow> nat \<Rightarrow> dns_message" where
  "service_query services qtype round = (let start = round * SERVICES_PER_MSG; finish = min (start + 4) (length services) in
     (dns_message_new DEFAULT_QUERY_ID)\<lparr>dm_questions :=
       map (\<lambda>service. question_new service qtype) (take (finish - start) (drop start services))
       @ [question_new SLEEP_PROXY_SERVICE qtype]\<rparr>)"

definition create_service_queries :: "bytes list \<Rightarrow> u16 \<Rightarrow> dns_message list" where
  "create_service_queries services qtype =
     map (service_query services qtype) [0..<(length services + 2) div SERVICES_PER_MSG]"

text \<open>A duration is its seconds and nanoseconds.\<close>

definition resend_rounds :: "u64 \<times> u32 \<Rightarrow> u32" where
  "resend_rounds = (\<lambda>(secs, nanos). let rounds = (if nanos > 0 then min (unat secs + 1) (2 ^ 64 - 1) else unat secs) in
     if rounds < 2 ^ 32 then word_of_nat rounds else 0xFFFFFFFF)"

section \<open>Filing\<close>

text \<open>A record is filed when its owner holds it.\<close>

definition filed :: "owners \<Rightarrow> resource \<Rightarrow> bool" where
  "filed table a \<longleftrightarrow> (\<exists>rs. map_of table (rr_name a) = Some rs \<and> a \<in> set rs)"

lemma file_record_map_of:
  "map_of (file_record os a) n = (if n = rr_name a then Some (case map_of os n of None \<Rightarrow> [a] | Some rs \<Rightarrow> if a \<in> set rs then rs else rs @ [a])
     else map_of os n)"
  by (induction os a rule: file_record.induct) auto

lemma filed_file: "filed (file_record os a) b \<longleftrightarrow> b = a \<or> filed os b"
  by (auto simp: filed_def file_record_map_of split: option.splits if_splits)

lemma file_filed: "filed os a \<Longrightarrow> file_record os a = os"
  by (induction os a rule: file_record.induct) (auto simp: filed_def split: if_splits)

definition pointers :: "resource list \<Rightarrow> (bytes \<times> bytes) list" where
  "pointers rs = List.map_filter (\<lambda>a. if type_pointer a then map_option (Pair (rr_name a)) (as_ptr_name (rr_rd a)) else None) rs"

definition plain_records :: "resource list \<Rightarrow> resource list" where
  "plain_records rs = filter (\<lambda>a. \<not> type_pointer a) rs"

lemma add_records:
  "foldl add_record p rs = \<lparr>sp_table = foldl file_record (sp_table p) (plain_records rs), sp_ptrs = ups.build (sp_ptrs p) (pointers rs)\<rparr>"
  by (induction rs arbitrary: p) (auto simp: add_record_def plain_records_def pointers_def map_filter_simps split: option.split)

lemma add_message_parts:
  "sp_table (add_message p m) = foldl file_record (sp_table p) (plain_records (dm_answers m @ dm_resources m))"
  "sp_ptrs (add_message p m) = ups.build (sp_ptrs p) (pointers (dm_answers m @ dm_resources m))"
  unfolding add_message_def add_records by simp_all

lemma filed_fold: "filed (foldl file_record os rs) b \<longleftrightarrow> b \<in> set rs \<or> filed os b"
  by (induction rs arbitrary: os) (auto simp: filed_file)

lemma file_fold_filed: "\<forall>a \<in> set rs. filed os a \<Longrightarrow> foldl file_record os rs = os"
  by (induction rs) (auto simp: file_filed)

lemma keyed_list_eq: "distinct (map fst xs) \<Longrightarrow> map fst xs = map fst ys \<Longrightarrow> map_of xs = map_of ys \<Longrightarrow> xs = ys"
proof (induction xs arbitrary: ys)
  case (Cons x xs)
  then obtain y ys' where y: "ys = y # ys'" by (cases ys) auto
  have "snd x = snd y" using fun_cong [OF Cons.prems(3), of "fst x"] Cons.prems(2) by (simp add: y)
  moreover have "map_of xs k = map_of ys' k" for k
  proof (cases "k = fst x")
    case True
    with Cons.prems(1,2) show ?thesis by (metis list.set_map list.simps(9) map_of_eq_None_iff distinct.simps(2) y list.inject)
  next
    case False
    with fun_cong [OF Cons.prems(3), of k] Cons.prems(2) show ?thesis by (simp add: y)
  qed
  ultimately show ?case using Cons y by (auto intro: prod_eqI)
qed simp

lemma build_twice:
  assumes "distinct (map fst es)"
  shows "ups.build (ups.build es kvs) kvs = ups.build es kvs"
proof (rule keyed_list_eq)
  show "distinct (map fst (ups.build (ups.build es kvs) kvs))" using assms by (intro ups.distinct_build)
  have "set (map fst (ups.build es kvs)) \<supseteq> fst ` set kvs" using ups.set_order_build [of es kvs] by auto
  then show "map fst (ups.build (ups.build es kvs) kvs) = map fst (ups.build es kvs)"
  proof -
    have "fst ` set qs \<subseteq> set (map fst fs) \<Longrightarrow> map fst (ups.build fs qs) = map fst fs" for fs and qs :: "(bytes \<times> 'a) list"
    proof (induction qs arbitrary: fs)
      case (Cons q qs)
      then have "map fst (upsert fs (fst q) (snd q)) = map fst fs" by (simp add: upsert_keys)
      moreover from this have "fst ` set (upsert fs (fst q) (snd q)) = fst ` set fs" by (metis list.set_map)
      with Cons have "map fst (ups.build (upsert fs (fst q) (snd q)) qs) = map fst (upsert fs (fst q) (snd q))" by simp
      ultimately show ?case by (cases q) simp
    qed simp
    with \<open>set (map fst (ups.build es kvs)) \<supseteq> fst ` set kvs\<close> show ?thesis by blast
  qed
  show "map_of (ups.build (ups.build es kvs) kvs) = map_of (ups.build es kvs)"
    by (rule ext) (simp add: ups.lookup_build split: option.split)
qed

lemma pointers_distinct: "distinct (map fst (sp_ptrs (foldl add_message service_parser_new ms)))"
  by (induction ms rule: rev_induct) (simp_all add: service_parser_new_def add_message_parts ups.distinct_build)

text \<open>
  Resending is harmless. A parser that has read a datagram is not changed by reading it again, whatever it had
  read before, duplicated and contradictory records included.
\<close>

theorem resend_idempotent:
  "foldl add_message service_parser_new (ms @ [m, m]) = foldl add_message service_parser_new (ms @ [m])"
proof -
  let ?p = "foldl add_message service_parser_new ms"
  have "add_message (add_message ?p m) m = add_message ?p m"
    using pointers_distinct [of ms]
    by (intro service_parser.equality) (simp_all add: add_message_parts build_twice file_fold_filed filed_fold)
  then show ?thesis by simp
qed

section \<open>What is found is backed by records\<close>

definition records_of :: "dns_message list \<Rightarrow> resource set" where
  "records_of ms = (\<Union>m \<in> set ms. set (dm_answers m @ dm_resources m))"

text \<open>Every record of an owner came in a message, under that name.\<close>

lemma file_fold_sound:
  "map_of (foldl file_record os rs) n = Some as \<Longrightarrow> a \<in> set as \<Longrightarrow> (rr_name a = n \<and> a \<in> set rs) \<or> (\<exists>bs. map_of os n = Some bs \<and> a \<in> set bs)"
proof (induction rs arbitrary: os)
  case (Cons r rs)
  from Cons.IH [of "file_record os r"] Cons.prems show ?case
    by (auto simp: file_record_map_of split: if_splits option.splits)
qed simp

lemma table_sound:
  assumes "map_of (sp_table (foldl add_message service_parser_new ms)) n = Some as" and "a \<in> set as"
  shows "rr_name a = n \<and> a \<in> records_of ms"
  using assms
proof (induction ms arbitrary: as rule: rev_induct)
  case (snoc m ms)
  let ?t = "sp_table (foldl add_message service_parser_new ms)"
  have "map_of (foldl file_record ?t (plain_records (dm_answers m @ dm_resources m))) n = Some as"
    using snoc.prems(1) by (simp add: add_message_parts)
  from file_fold_sound [OF this snoc.prems(2)] snoc.IH show ?case
    by (auto simp: plain_records_def records_of_def)
qed (simp add: service_parser_new_def)

lemma table_distinct_names: "distinct (map fst (sp_table (foldl add_message service_parser_new ms)))"
proof -
  have f: "map fst (file_record os a) = (if rr_name a \<in> set (map fst os) then map fst os else map fst os @ [rr_name a])" for os a
    by (induction os a rule: file_record.induct) auto
  have "distinct (map fst os) \<Longrightarrow> distinct (map fst (foldl file_record os rs))" for os rs
    by (induction rs arbitrary: os) (simp_all add: f)
  then show ?thesis
    by (induction ms rule: rev_induct) (simp_all add: service_parser_new_def add_message_parts)
qed

lemma upsert_snd: "s \<in> set (upsert es k v) \<Longrightarrow> s \<in> set es \<or> s = (k, v)"
  by (induction es k v rule: upsert.induct) (auto split: if_splits)

lemma parsed_origin:
  assumes "s \<in> set (parsed_services p)"
  shows "(\<exists>owner \<in> set (sp_table p). owner_service (sp_table p) owner = Some s) \<or> (\<exists>ptr \<in> set (sp_ptrs p). s = placeholder_service ptr)"
proof -
  let ?t = "sp_table p"
  have o: "x \<in> set (foldl (owner_step ?t) res os) \<Longrightarrow> x \<in> set res \<or> (\<exists>owner \<in> set os. owner_service ?t owner = Some (snd x))" for x res os
    by (induction os arbitrary: res) (fastforce simp: owner_step_def split: option.splits dest: upsert_snd)+
  have q: "x \<in> set (foldl pointer_step res ps) \<Longrightarrow> x \<in> set res \<or> (\<exists>ptr \<in> set ps. snd x = placeholder_service ptr)" for x res ps
    by (induction ps arbitrary: res) (fastforce simp: pointer_step_def split: if_splits dest: upsert_snd)+
  from assms obtain k where "(k, s) \<in> set (foldl pointer_step (foldl (owner_step ?t) [] ?t) (sp_ptrs p))"
    by (auto simp: parsed_services_def)
  from q [OF this] o [of "(k, s)" "[]" ?t] show ?thesis by auto
qed

text \<open>
  No service is made up. Whatever datagrams arrived, a service with an address comes from an SRV record of an
  instance of its type and name, its port is that record's, and the address is that of an A record of the host the
  record names; it is never link-local and never merely where the datagram came from.
\<close>

theorem services_backed:
  assumes "s \<in> set (parsed_services (foldl add_message service_parser_new ms))" and "sv_address s = Some a"
  shows "\<not> is_link_local a \<and> (\<exists>srv host d name. srv \<in> records_of ms \<and> host \<in> records_of ms
    \<and> split_name (rr_name srv) = Ok name \<and> sv_type s = ptr_name name \<and> sv_name s = (case sn_instance name of None \<Rightarrow> [] | Some i \<Rightarrow> i)
    \<and> rr_type srv = QT_SRV \<and> rr_rd srv = RD_Srv d \<and> sv_port s = srv_port d
    \<and> rr_name host = srv_target d \<and> rr_type host = QT_A \<and> rr_rd host = RD_A a)"
proof -
  let ?p = "foldl add_message service_parser_new ms"
  let ?t = "sp_table ?p"
  from parsed_origin [OF assms(1)] assms(2) obtain qname rs where o: "(qname, rs) \<in> set ?t" "owner_service ?t (qname, rs) = Some s"
    by (auto simp: placeholder_service_def)
  then have t: "map_of ?t qname = Some rs" using table_distinct_names [of ms] by (simp add: map_of_is_SomeI)
  from o(2) assms(2) obtain name srv d where n: "split_name qname = Ok name" "sv_type s = ptr_name name"
      "sv_name s = (case sn_instance name of None \<Rightarrow> [] | Some i \<Rightarrow> i)"
    and f: "first_rr rs QT_SRV = Some srv" "as_srv (rr_rd srv) = Some d" "sv_port s = srv_port d"
    and r: "routable_address ?t (srv_target d) = Some a"
    by (auto simp: owner_service_def Let_def bind_eq_Some_conv split: sum.splits)
  from f(1) have srv: "srv \<in> set rs" "rr_type srv = QT_SRV" by (auto simp: first_rr_def find_Some_iff)
  from f(2) have d: "rr_rd srv = RD_Srv d" by (cases "rr_rd srv") auto
  from r obtain hs where h: "map_of ?t (srv_target d) = Some hs" "find (\<lambda>a. \<not> is_link_local a) (List.map_filter v4_address hs) = Some a"
    by (auto simp: routable_address_def split: option.splits)
  then have "\<not> is_link_local a" "a \<in> set (List.map_filter v4_address hs)" by (auto simp: find_Some_iff)
  then obtain host where "host \<in> set hs" "v4_address host = Some a" by (auto simp: List.map_filter_def)
  then have host: "host \<in> set hs" "rr_type host = QT_A" "rr_rd host = RD_A a"
    by (auto simp: v4_address_def split: if_splits record_data.splits)
  from table_sound [OF t srv(1)] table_sound [OF h(1) host(1)] n f(3) srv d host \<open>\<not> is_link_local a\<close>
  show ?thesis by (intro conjI exI [of _ srv] exI [of _ host] exI [of _ d] exI [of _ name]) simp_all
qed

text \<open>One datagram with the SRV record, another with the host's addresses, the first of them link-local.\<close>

definition toy_srv :: dns_message where
  "toy_srv = (dns_message_new 0)\<lparr>dm_answers := [\<lparr>rr_name = lit ''i._x._tcp.a'', rr_type = QT_SRV, rr_class = CLASS_IN, rr_ttl = 120,
     rr_rd = RD_Srv \<lparr>srv_priority = 0, srv_weight = 0, srv_port = 80, srv_target = lit ''h''\<rparr>\<rparr>]\<rparr>"

definition toy_hosts :: dns_message where
  "toy_hosts = (dns_message_new 0)\<lparr>dm_answers := map (\<lambda>a. \<lparr>rr_name = lit ''h'', rr_type = QT_A, rr_class = CLASS_IN, rr_ttl = 120, rr_rd = RD_A a\<rparr>)
     [[169, 254, 0, 1], [10, 0, 0, 1]]\<rparr>"

theorem services_backed_witness:
  "parsed_services (foldl add_message service_parser_new [toy_srv, toy_hosts])
     = [\<lparr>sv_type = lit ''_x._tcp.a'', sv_name = lit ''i'', sv_address = Some [10, 0, 0, 1], sv_port = 80, sv_properties = []\<rparr>]
   \<and> \<not> is_link_local [10, 0, 0, 1]"
proof -
  have p: "parsed_services (foldl add_message service_parser_new [toy_srv, toy_hosts])
     = [\<lparr>sv_type = lit ''_x._tcp.a'', sv_name = lit ''i'', sv_address = Some [10, 0, 0, 1], sv_port = 80, sv_properties = []\<rparr>]"
    by (simp add: parsed_services_def toy_srv_def toy_hosts_def dns_message_new_def service_parser_new_def add_message_def add_record_def
        type_pointer_def owner_step_def owner_service_def split_name_def ptr_name_def Let_def first_rr_def routable_address_def
        v4_address_def is_link_local_def query_types eq_ignore_ascii_case_def ascii_lowercase_def lower_def map_filter_simps)
  from services_backed [of "\<lparr>sv_type = lit ''_x._tcp.a'', sv_name = lit ''i'', sv_address = Some [10, 0, 0, 1], sv_port = 80, sv_properties = []\<rparr>"
      "[toy_srv, toy_hosts]" "[10, 0, 0, 1]"] p
  show ?thesis by (simp only: p) simp
qed

text \<open>
  A scan asks for every service. Three services make a message, each message holds at most five questions and
  ends with the one for sleep proxies, and every service is asked for in some message.
\<close>

lemma query_shape:
  assumes "q \<in> set (create_service_queries services qtype)"
  shows "length (dm_questions q) \<le> 5 \<and> last (dm_questions q) = question_new SLEEP_PROXY_SERVICE qtype
    \<and> dm_answers q = [] \<and> dm_authorities q = [] \<and> dm_resources q = [] \<and> dm_flags q = DEFAULT_FLAGS
    \<and> (\<forall>r \<in> set (dm_questions q). \<exists>n \<in> set (SLEEP_PROXY_SERVICE # services). r = question_new n qtype)"
  using assms by (fastforce simp: create_service_queries_def service_query_def Let_def SERVICES_PER_MSG_def dns_message_new_def
      dest: in_set_takeD in_set_dropD)

lemma asked_for:
  assumes "service \<in> set services"
  shows "\<exists>q \<in> set (create_service_queries services qtype). question_new service qtype \<in> set (dm_questions q)"
proof -
  from assms obtain i where i: "i < length services" "services ! i = service" by (auto simp: in_set_conv_nth)
  let ?start = "i div 3 * 3" and ?n = "length services"
  have "i - ?start < min (?start + 4) ?n - ?start" using i(1) by (auto simp: min_def)
  moreover have s: "?start \<le> i" by simp
  moreover from s have "drop ?start services ! (i - ?start) = services ! i" using i(1) by (subst nth_drop) auto
  moreover have "i - ?start < ?n - ?start" using i(1) s by simp
  ultimately have "service \<in> set (take (min (?start + 4) ?n - ?start) (drop ?start services))"
    using i by (auto simp: in_set_conv_nth nth_drop intro!: exI [of _ "i - ?start"])
  then have "question_new service qtype \<in> set (dm_questions (service_query services qtype (i div 3)))"
    by (auto simp: service_query_def Let_def SERVICES_PER_MSG_def)
  moreover have "i div 3 < (?n + 2) div 3" using i(1) by auto
  ultimately show "\<exists>q \<in> set (create_service_queries services qtype). question_new service qtype \<in> set (dm_questions q)"
    by (auto simp: create_service_queries_def SERVICES_PER_MSG_def)
qed

end
