(* ===== verification/Mdns_Publish.thy ===== *)
theory Mdns_Publish
  imports Dns_Message
begin

unbundle bit_operations_syntax

text \<open>
  The publishing half of DNS-SD (\<open>pyatv-mdns\<close>: \<open>publish/registration.rs\<close>): one service instance, the
  records it owns, its announcement and goodbye, and the answer to a query, with the capped form for one-shot
  resolvers and the suppression of answers the querier already holds.
\<close>

section \<open>The registration\<close>

definition CACHE_FLUSH :: u16 where "CACHE_FLUSH = UNICAST_RESPONSE"
definition HOST_TTL :: u32 where "HOST_TTL = 120"
definition SERVICE_TTL :: u32 where "SERVICE_TTL = 4500"
definition GOODBYE_TTL :: u32 where "GOODBYE_TTL = 0"
definition LEGACY_UNICAST_TTL :: u32 where "LEGACY_UNICAST_TTL = 10"
definition RESPONSE_FLAGS :: u16 where "RESPONSE_FLAGS = 0x8400"
definition ANNOUNCE_COUNT :: nat where "ANNOUNCE_COUNT = 3"

record service_registration =
  rg_service_type :: bytes
  rg_instance :: bytes
  rg_host :: bytes
  rg_port :: u16
  rg_addresses :: "bytes list"
  rg_properties :: "(bytes \<times> bytes) list"

definition registration_new :: "bytes \<Rightarrow> bytes \<Rightarrow> bytes \<Rightarrow> u16 \<Rightarrow> service_registration" where
  "registration_new service_type inst host port = \<lparr>rg_service_type = service_type, rg_instance = inst, rg_host = host, rg_port = port,
     rg_addresses = [], rg_properties = []\<rparr>"

definition with_address :: "service_registration \<Rightarrow> bytes \<Rightarrow> service_registration" where
  "with_address g a = g\<lparr>rg_addresses := rg_addresses g @ [a]\<rparr>"

definition with_property :: "service_registration \<Rightarrow> bytes \<Rightarrow> bytes \<Rightarrow> service_registration" where
  "with_property g key v = g\<lparr>rg_properties := rg_properties g @ [(key, v)]\<rparr>"

definition instance_name :: "service_registration \<Rightarrow> bytes" where
  "instance_name g = rg_instance g @ [dot] @ rg_service_type g"

definition txt_rdata :: "service_registration \<Rightarrow> bytes" where
  "txt_rdata g =
     (let out = concat (map (\<lambda>(key, v). if length key + 1 + length v > 255 then []
            else word_of_nat (length key + 1 + length v) # key @ [61] @ v) (rg_properties g)) in
      if out = [] then [0] else out)"

definition ptr_record :: "service_registration \<Rightarrow> u32 \<Rightarrow> resource" where
  "ptr_record g ttl = \<lparr>rr_name = rg_service_type g, rr_type = QT_PTR, rr_class = CLASS_IN, rr_ttl = ttl, rr_rd = RD_Ptr (instance_name g)\<rparr>"

definition srv_record :: "service_registration \<Rightarrow> u32 \<Rightarrow> resource" where
  "srv_record g ttl = \<lparr>rr_name = instance_name g, rr_type = QT_SRV, rr_class = CLASS_IN OR CACHE_FLUSH, rr_ttl = ttl,
     rr_rd = RD_Srv \<lparr>srv_priority = 0, srv_weight = 0, srv_port = rg_port g, srv_target = rg_host g\<rparr>\<rparr>"

definition txt_record :: "service_registration \<Rightarrow> u32 \<Rightarrow> resource" where
  "txt_record g ttl = \<lparr>rr_name = instance_name g, rr_type = QT_TXT, rr_class = CLASS_IN OR CACHE_FLUSH, rr_ttl = ttl,
     rr_rd = RD_Other (txt_rdata g)\<rparr>"

definition address_records :: "service_registration \<Rightarrow> u32 \<Rightarrow> resource list" where
  "address_records g ttl = map (\<lambda>a. \<lparr>rr_name = rg_host g, rr_type = QT_A, rr_class = CLASS_IN OR CACHE_FLUSH, rr_ttl = ttl, rr_rd = RD_A a\<rparr>)
     (rg_addresses g)"

definition all_records :: "service_registration \<Rightarrow> bool \<Rightarrow> resource list" where
  "all_records g goodbye = (let (host_ttl, service_ttl) = (if goodbye then (GOODBYE_TTL, GOODBYE_TTL) else (HOST_TTL, SERVICE_TTL)) in
     [ptr_record g service_ttl, srv_record g host_ttl, txt_record g service_ttl] @ address_records g host_ttl)"

definition unsolicited :: "service_registration \<Rightarrow> bool \<Rightarrow> dns_message" where
  "unsolicited g goodbye = \<lparr>dm_id = 0, dm_flags = RESPONSE_FLAGS, dm_questions = [], dm_answers = all_records g goodbye,
     dm_authorities = [], dm_resources = []\<rparr>"

definition announcement :: "service_registration \<Rightarrow> dns_message" where
  "announcement g = unsolicited g False"

definition goodbye :: "service_registration \<Rightarrow> dns_message" where
  "goodbye g = unsolicited g True"

section \<open>Answers\<close>

definition trim_dots :: "bytes \<Rightarrow> bytes" where
  "trim_dots s = rev (dropWhile (\<lambda>b. b = dot) (rev s))"

definition ttl_cap :: "u32 option \<Rightarrow> u32 \<Rightarrow> u32" where
  "ttl_cap cap ttl = (case cap of None \<Rightarrow> ttl | Some c \<Rightarrow> min ttl c)"

text \<open>The answers and the additional records.\<close>

definition answer_question :: "service_registration \<Rightarrow> question \<Rightarrow> u32 option \<Rightarrow> resource list \<times> resource list" where
  "answer_question g q cap = (let
     matches = (\<lambda>candidate. eq_ignore_ascii_case (trim_dots (q_name q)) candidate);
     wanted = (\<lambda>t. q_type q = t \<or> q_type q = QT_ANY) in
     if matches (rg_service_type g) \<and> wanted QT_PTR then
       ([ptr_record g (ttl_cap cap SERVICE_TTL)],
        [srv_record g (ttl_cap cap HOST_TTL), txt_record g (ttl_cap cap SERVICE_TTL)] @ address_records g (ttl_cap cap HOST_TTL))
     else if matches (instance_name g) then
       ((if wanted QT_SRV then [srv_record g (ttl_cap cap HOST_TTL)] else [])
          @ (if wanted QT_TXT then [txt_record g (ttl_cap cap SERVICE_TTL)] else []),
        if wanted QT_SRV then address_records g (ttl_cap cap HOST_TTL) else [])
     else if matches (rg_host g) \<and> wanted QT_A then (address_records g (ttl_cap cap HOST_TTL), [])
     else ([], []))"

definition extend_unique :: "resource list \<Rightarrow> resource list \<Rightarrow> resource list" where
  "extend_unique target rs = foldl (\<lambda>t a. if a \<in> set t then t else t @ [a]) target rs"

definition clear_cache_flush :: "resource list \<Rightarrow> resource list" where
  "clear_cache_flush rs = map (\<lambda>a. a\<lparr>rr_class := rr_class a AND NOT CACHE_FLUSH\<rparr>) rs"

definition is_known_answer :: "dns_message \<Rightarrow> resource \<Rightarrow> bool" where
  "is_known_answer query a \<longleftrightarrow> list_ex (\<lambda>known.
     eq_ignore_ascii_case (trim_dots (rr_name known)) (trim_dots (rr_name a)) \<and> rr_type known = rr_type a
     \<and> rr_class known AND NOT CACHE_FLUSH = rr_class a AND NOT CACHE_FLUSH \<and> rr_rd known = rr_rd a \<and> rr_ttl known \<ge> rr_ttl a div 2)
     (dm_answers query)"

text \<open>The loop over the questions: the questions repeated, the answers and the additional records.\<close>

definition respond_question :: "service_registration \<Rightarrow> bool \<Rightarrow> dns_message \<Rightarrow> question \<Rightarrow> dns_message" where
  "respond_question g legacy m q = (case answer_question g q (if legacy then Some LEGACY_UNICAST_TTL else None) of
     (answers, additionals) \<Rightarrow>
       if answers = [] then m
       else m\<lparr>dm_questions := (if legacy then dm_questions m @ [q] else dm_questions m),
         dm_answers := extend_unique (dm_answers m) answers, dm_resources := extend_unique (dm_resources m) additionals\<rparr>)"

definition respond :: "service_registration \<Rightarrow> dns_message \<Rightarrow> bool \<Rightarrow> dns_message option" where
  "respond g query legacy =
     (if is_response (message_header query) then None
      else let
        start = \<lparr>dm_id = (if legacy then dm_id query else 0), dm_flags = RESPONSE_FLAGS, dm_questions = [], dm_answers = [],
          dm_authorities = [], dm_resources = []\<rparr>;
        asked = foldl (respond_question g legacy) start (dm_questions query);
        answers = (if legacy then dm_answers asked else filter (\<lambda>a. \<not> is_known_answer query a) (dm_answers asked));
        resources = filter (\<lambda>a. a \<notin> set answers) (dm_resources asked) in
        if answers = [] then None
        else Some (if legacy then asked\<lparr>dm_answers := clear_cache_flush answers, dm_resources := clear_cache_flush resources\<rparr>
          else asked\<lparr>dm_answers := answers, dm_resources := resources\<rparr>))"

definition wants_unicast :: "service_registration \<Rightarrow> dns_message \<Rightarrow> bool" where
  "wants_unicast g query \<longleftrightarrow> list_ex (\<lambda>q. wants_unicast_response q \<and> fst (answer_question g q None) \<noteq> []) (dm_questions query)"

section \<open>What a querier already holds\<close>

lemma parsed_txt: "resource_unpack r = Ok (a, r') \<Longrightarrow> rr_type a = QT_TXT \<Longrightarrow> \<exists>m. rr_rd a = RD_Txt m"
  by (auto simp: resource_unpack_def rbind_Ok_iff Let_def parse_rdata_def query_types split: if_splits)

lemma read_many_all: "(\<And>r a r'. get r = Ok (a, r') \<Longrightarrow> P a) \<Longrightarrow> read_many get n r = Ok (as, r') \<Longrightarrow> \<forall>a \<in> set as. P a"
  by (induction n arbitrary: r as) (auto simp: rbind_Ok_iff)

text \<open>
  C40: The TXT record is never suppressed. A query that came off the wire names the records its sender holds, and a
  held TXT record has been decoded into its properties, while the responder's own is raw bytes: the two are never
  equal, so the TXT record is sent again however fresh the querier's copy is.
\<close>

theorem known_txt_repeated:
  assumes "dns_unpack datagram = Ok query"
  shows "\<not> is_known_answer query (txt_record g ttl)"
proof -
  from assms obtain n r r' where "read_many resource_unpack n r = Ok (dm_answers query, r')"
    by (auto simp: dns_unpack_def rbind_Ok_iff)
  from read_many_all [OF _ this, of "\<lambda>a. rr_type a = QT_TXT \<longrightarrow> (\<exists>m. rr_rd a = RD_Txt m)"] parsed_txt
  have "\<forall>a \<in> set (dm_answers query). rr_type a = QT_TXT \<longrightarrow> (\<exists>m. rr_rd a = RD_Txt m)" by blast
  then show ?thesis by (auto simp: is_known_answer_def list_ex_iff txt_record_def)
qed

text \<open>The querier repeats the TXT record it was sent, as its parser reads it, and names all of its TTL.\<close>

definition toy_held :: dns_message where
  "toy_held = (dns_query 0 [[98, 46, 97]] QT_TXT)\<lparr>dm_answers :=
     [\<lparr>rr_name = [98, 46, 97], rr_type = QT_TXT, rr_class = CLASS_IN OR CACHE_FLUSH, rr_ttl = SERVICE_TTL, rr_rd = RD_Txt [([107], [118])]\<rparr>]\<rparr>"

theorem known_txt_repeated_witness:
  "dns_unpack (dns_pack (\<lambda>l. l) toy_held) = Ok toy_held
   \<and> \<not> is_known_answer toy_held (txt_record (with_property (registration_new [97] [98] [99] 80) [107] [118]) SERVICE_TTL)"
proof -
  have "message_ok (\<lambda>l. l) toy_held"
    using toy_names_ok by (simp add: message_ok_def toy_held_def dns_query_def dns_message_new_def question_new_def
        question_ok_def resource_ok_def rdata_ok_def txt_ok_def ascii_lowercase_def lower_def survives_def txt_encode_def txt_entry_def)
  then have "dns_unpack (dns_pack (\<lambda>l. l) toy_held) = Ok toy_held"
    using message_ok_wire [of "\<lambda>l. l" toy_held] pack_reads [of "\<lambda>l. l" toy_held None] by (simp add: dns_pack_def writer_ok_def)
  with known_txt_repeated [OF this] show ?thesis by simp
qed

end
