(* ===== verification/Mdns_Found.thy ===== *)
theory Mdns_Found
  imports Mdns_Parser Mdns_Publish
begin

unbundle bit_operations_syntax

text \<open>
  The publishing and the browsing half of \<open>pyatv-mdns\<close> against each other, with the packed messages in between:
  what \<open>Mdns_Publish\<close> answers to the queries of \<open>Mdns_Parser\<close>, and the services that are read out of it.
\<close>

section \<open>What can be published\<close>

text \<open>
  A type, an instance and a host that read as what they are, addresses of four octets, and property keys TXT allows. An
  instance may hold dots.
\<close>

definition publishable :: "(bytes \<Rightarrow> bytes) \<Rightarrow> service_registration \<Rightarrow> bool" where
  "publishable nfc g \<longleftrightarrow>
     name_ok nfc (rg_service_type g) \<and> name_ok nfc (instance_name g) \<and> name_ok nfc (rg_host g)
     \<and> rg_service_type g \<noteq> [] \<and> hd (rg_service_type g) = 95
     \<and> (case split_name (instance_name g) of Ok n \<Rightarrow> sn_instance n = Some (rg_instance g) \<and> ptr_name n = rg_service_type g | Err _ \<Rightarrow> False)
     \<and> (case split_name (rg_host g) of Ok n \<Rightarrow> False | Err _ \<Rightarrow> True)
     \<and> list_all (\<lambda>a. length a = 4) (rg_addresses g) \<and> length (rg_addresses g) \<le> 1000
     \<and> list_all (\<lambda>(k, v). ascii k \<and> 61 \<notin> set k) (rg_properties g) \<and> length (txt_rdata g) \<le> 65535"

text \<open>The properties as the wire carries them: no bytes at all are one empty string, which is read as an empty key.\<close>

definition carried :: "service_registration \<Rightarrow> bytes ci_map" where
  "carried g = (if txt_encode (rg_properties g) = [] then [([], [])] else ci_from_iter (filter survives (rg_properties g)))"

definition published_service :: "service_registration \<Rightarrow> mdns_service" where
  "published_service g = \<lparr>sv_type = rg_service_type g, sv_name = rg_instance g,
     sv_address = find (\<lambda>a. \<not> is_link_local a) (rg_addresses g), sv_port = rg_port g, sv_properties = decode_properties (carried g)\<rparr>"

lemma txt_rdata_encode: "txt_rdata g = (if txt_encode (rg_properties g) = [] then [0] else txt_encode (rg_properties g))"
proof -
  have "concat (map (\<lambda>(key, v). if length key + 1 + length v > 255 then []
            else word_of_nat (length key + 1 + length v) # key @ [61] @ v) kvs) = txt_encode kvs" for kvs :: "(bytes \<times> bytes) list"
    unfolding txt_encode_def by (rule arg_cong [where f = concat], rule map_cong) (auto simp: txt_entry_def Let_def)
  then show ?thesis by (simp add: txt_rdata_def Let_def)
qed

lemma empty_txt_reads: "txt_reads [0] [([], [])]"
proof (unfold txt_reads_def, intro allI impI)
  fix r out x
  assume "placed r out [0] x"
  then have p: "reader_ok r" "rd_data r = out @ [0] @ x" "rd_pos r = length out" by (simp_all add: placed_def)
  let ?r1 = "r\<lparr>rd_pos := Suc (length out)\<rparr>"
  have u: "read_u8 r = Ok (0, ?r1)" using read_u8_mid [OF p(1), of out 0 x] p by simp
  have sl: "read_slice 0 ?r1 = Ok ([], ?r1)"
    using read_slice_mid [of ?r1 "out @ [0]" "[]" x] p by (simp add: reader_ok_def)
  have c: "txt_chunk [] [] = Ok [([], [])]" by (simp add: txt_chunk_def ci_insert_def ascii_lowercase_def)
  have "txt_loop (Suc (length out)) [] r = txt_loop (Suc (length out)) [([], [])] ?r1"
    using p by (subst txt_loop.simps) (simp add: u sl c)
  then have "txt_loop (Suc (length out)) [] r = Ok ([([], [])], ?r1)"
    by (subst (asm) (2) txt_loop.simps) simp
  with p show "parse_txt r (length [0 :: u8]) = Ok ([([], [])], r\<lparr>rd_pos := length (out @ [0])\<rparr>)"
    by (simp add: parse_txt_def checked_add_def reader_ok_def)
qed

lemma carried_reads: "publishable nfc g \<Longrightarrow> txt_reads (txt_rdata g) (carried g)"
proof (cases "txt_encode (rg_properties g) = []")
  case True
  then show ?thesis using empty_txt_reads by (simp add: txt_rdata_encode carried_def)
next
  case False
  assume "publishable nfc g"
  then have "\<forall>e \<in> set (rg_properties g). ascii (fst e) \<and> 61 \<notin> set (fst e)" by (auto simp: publishable_def list_all_iff)
  with False parse_txt_entries [of "rg_properties g"] show ?thesis
    by (auto simp: txt_reads_def txt_rdata_encode carried_def placed_def)
qed

section \<open>The answer to a browser\<close>

text \<open>The records a browser is sent, with the TTLs and classes of either kind of answer.\<close>

definition browse_records :: "service_registration \<Rightarrow> u32 option \<Rightarrow> resource list" where
  "browse_records g cap = [srv_record g (ttl_cap cap HOST_TTL), txt_record g (ttl_cap cap SERVICE_TTL)] @ address_records g (ttl_cap cap HOST_TTL)"

lemma trim_ok: "name_ok nfc n \<Longrightarrow> trim_dots n = n"
  by (cases n rule: rev_cases) (auto simp: name_ok_def trim_dots_def)

lemma host_apart:
  assumes "publishable nfc g"
  shows "rg_host g \<noteq> instance_name g"
  using assms by (auto simp: publishable_def split: sum.splits)

lemma unique_Cons: "extend_unique t (a # as) = extend_unique (if a \<in> set t then t else t @ [a]) as"
  by (simp add: extend_unique_def)

lemma unique_Nil: "extend_unique t [] = t"
  by (simp add: extend_unique_def)

lemma unique_known: "set as \<subseteq> set t \<Longrightarrow> extend_unique t as = t"
  by (induction as) (simp_all add: unique_Nil unique_Cons)

lemma unique_set: "set (extend_unique t as) = set t \<union> set as"
  by (induction as arbitrary: t) (auto simp: unique_Nil unique_Cons)

lemma unique_length: "length (extend_unique t as) \<le> length t + length as"
proof (induction as arbitrary: t)
  case (Cons a as)
  from Cons [of t] Cons [of "t @ [a]"] show ?case by (simp add: unique_Cons)
qed (simp add: unique_Nil)

text \<open>A question for pointers is answered when it names the type, and not otherwise.\<close>

lemma pointer_answer:
  assumes "q_type q = QT_PTR"
  shows "answer_question g q cap =
    (if eq_ignore_ascii_case (trim_dots (q_name q)) (rg_service_type g) then ([ptr_record g (ttl_cap cap SERVICE_TTL)], browse_records g cap) else ([], []))"
  using assms by (simp add: answer_question_def Let_def query_types browse_records_def)

definition sent_one :: "bool \<Rightarrow> resource \<Rightarrow> resource" where
  "sent_one legacy a = (if legacy then a\<lparr>rr_class := rr_class a AND NOT CACHE_FLUSH\<rparr> else a)"

abbreviation sent_as :: "bool \<Rightarrow> resource list \<Rightarrow> resource list" where
  "sent_as legacy \<equiv> map (sent_one legacy)"

lemma sent_as_flush: "sent_as legacy as = (if legacy then clear_cache_flush as else as)"
  by (induction as) (simp_all add: sent_one_def clear_cache_flush_def)

definition response_cap :: "bool \<Rightarrow> u32 option" where
  "response_cap legacy = (if legacy then Some LEGACY_UNICAST_TTL else None)"

lemma respond_fold:
  assumes "\<forall>q \<in> set qs. q_type q = QT_PTR"
    and "dm_answers m = [] \<and> dm_resources m = [] \<or> dm_answers m = [ptr_record g (ttl_cap (response_cap legacy) SERVICE_TTL)]
      \<and> dm_resources m = extend_unique [] (browse_records g (response_cap legacy))"
  shows "\<exists>ask. set ask \<subseteq> set qs \<and> length ask \<le> length qs \<and> foldl (respond_question g legacy) m qs =
    (if \<exists>q \<in> set qs. eq_ignore_ascii_case (trim_dots (q_name q)) (rg_service_type g)
     then m\<lparr>dm_questions := dm_questions m @ ask, dm_answers := [ptr_record g (ttl_cap (response_cap legacy) SERVICE_TTL)],
       dm_resources := extend_unique [] (browse_records g (response_cap legacy))\<rparr> else m)"
  using assms
proof (induction qs arbitrary: m)
  case (Cons q qs)
  let ?named = "eq_ignore_ascii_case (trim_dots (q_name q)) (rg_service_type g)"
  let ?m = "respond_question g legacy m q"
  let ?p = "[ptr_record g (ttl_cap (response_cap legacy) SERVICE_TTL)]" and ?b = "browse_records g (response_cap legacy)"
  show ?case
  proof (cases ?named)
    case True
    have "extend_unique [] ?p = ?p" by (simp add: unique_Cons unique_Nil)
    moreover have "extend_unique ?p ?p = ?p" "extend_unique (extend_unique [] ?b) ?b = extend_unique [] ?b"
      by (simp_all add: unique_known unique_set)
    ultimately have m: "?m = m\<lparr>dm_questions := (if legacy then dm_questions m @ [q] else dm_questions m), dm_answers := ?p,
        dm_resources := extend_unique [] ?b\<rparr>"
      using True Cons.prems by (auto simp: respond_question_def pointer_answer response_cap_def)
    from Cons.IH [of ?m] Cons.prems(1) m obtain ask where a: "set ask \<subseteq> set qs" "length ask \<le> length qs"
      "foldl (respond_question g legacy) ?m qs = (if \<exists>q \<in> set qs. eq_ignore_ascii_case (trim_dots (q_name q)) (rg_service_type g)
        then ?m\<lparr>dm_questions := dm_questions ?m @ ask, dm_answers := ?p, dm_resources := extend_unique [] ?b\<rparr> else ?m)" by auto
    define ask' where "ask' = (if legacy then [q] else []) @ (if \<exists>q \<in> set qs. eq_ignore_ascii_case (trim_dots (q_name q)) (rg_service_type g) then ask else [])"
    have e: "foldl (respond_question g legacy) m (q # qs) = m\<lparr>dm_questions := dm_questions m @ ask', dm_answers := ?p, dm_resources := extend_unique [] ?b\<rparr>"
      unfolding foldl_Cons a(3) ask'_def by (simp add: m)
    have s: "set ask' \<subseteq> set (q # qs)" "length ask' \<le> length (q # qs)" using a(1,2) by (auto simp: ask'_def)
    have "\<exists>r \<in> set (q # qs). eq_ignore_ascii_case (trim_dots (q_name r)) (rg_service_type g)" using True by simp
    with e s show ?thesis by (metis (no_types, lifting))
  next
    case False
    with Cons.prems have "?m = m" by (simp add: respond_question_def pointer_answer split: prod.split)
    from Cons.IH [of m] Cons.prems obtain ask where "set ask \<subseteq> set qs" "length ask \<le> length qs"
      "foldl (respond_question g legacy) m qs = (if \<exists>q \<in> set qs. eq_ignore_ascii_case (trim_dots (q_name q)) (rg_service_type g)
        then m\<lparr>dm_questions := dm_questions m @ ask, dm_answers := ?p, dm_resources := extend_unique [] ?b\<rparr> else m)" by auto
    with False \<open>?m = m\<close> show ?thesis by (intro exI [of _ ask]) auto
  qed
qed auto

lemma browse_types: "a \<in> set (browse_records g cap) \<Longrightarrow> rr_type a \<noteq> QT_PTR"
  by (auto simp: browse_records_def srv_record_def txt_record_def address_records_def query_types)

lemma browse_response:
  assumes "\<not> is_response (message_header query)" and "dm_answers query = []" and "\<forall>q \<in> set (dm_questions query). q_type q = QT_PTR"
    and "\<exists>q \<in> set (dm_questions query). eq_ignore_ascii_case (trim_dots (q_name q)) (rg_service_type g)"
  shows "\<exists>ask i. set ask \<subseteq> set (dm_questions query) \<and> length ask \<le> length (dm_questions query) \<and> respond g query legacy = Some
    \<lparr>dm_id = i, dm_flags = RESPONSE_FLAGS, dm_questions = ask,
     dm_answers = sent_as legacy [ptr_record g (ttl_cap (response_cap legacy) SERVICE_TTL)], dm_authorities = [],
     dm_resources = sent_as legacy (extend_unique [] (browse_records g (response_cap legacy)))\<rparr>"
proof -
  let ?p = "ptr_record g (ttl_cap (response_cap legacy) SERVICE_TTL)" and ?b = "extend_unique [] (browse_records g (response_cap legacy))"
  let ?start = "\<lparr>dm_id = (if legacy then dm_id query else 0), dm_flags = RESPONSE_FLAGS, dm_questions = [], dm_answers = [],
    dm_authorities = [], dm_resources = []\<rparr>"
  from respond_fold [OF assms(3), of ?start g legacy] assms(4) obtain ask where ask: "set ask \<subseteq> set (dm_questions query)"
    "length ask \<le> length (dm_questions query)"
    "foldl (respond_question g legacy) ?start (dm_questions query) = ?start\<lparr>dm_questions := ask, dm_answers := [?p], dm_resources := ?b\<rparr>"
    by auto
  have "a \<noteq> ?p" if "a \<in> set ?b" for a
    using that browse_types [of a g "response_cap legacy"] by (auto simp: unique_set ptr_record_def simp del: not_None_eq)
  then have f: "filter (\<lambda>a. a \<notin> set [?p]) ?b = ?b" by (simp add: filter_id_conv)
  have k: "filter (\<lambda>a. \<not> is_known_answer query a) [?p] = [?p]" using assms(2) by (simp add: is_known_answer_def)
  have "respond g query legacy = Some \<lparr>dm_id = (if legacy then dm_id query else 0), dm_flags = RESPONSE_FLAGS, dm_questions = ask,
      dm_answers = sent_as legacy [?p], dm_authorities = [], dm_resources = sent_as legacy ?b\<rparr>"
    unfolding respond_def Let_def ask(3) using assms(1) f by (simp only: k dns_message.simps sent_as_flush) (cases legacy; simp)
  with ask(1,2) show ?thesis by blast
qed

section \<open>The service read out of the answer\<close>

text \<open>Records of one name that is not the first's are filed together.\<close>

lemma file_hosts:
  assumes "\<forall>a \<in> set as. rr_name a = host" and "host \<noteq> inst"
  shows "foldl file_record [(inst, rs), (host, hs)] as = [(inst, rs), (host, extend_unique hs as)]"
  using assms by (induction as arbitrary: hs) (auto simp: unique_Nil unique_Cons)

lemma file_first_hosts:
  assumes "\<forall>a \<in> set as. rr_name a = host" and "host \<noteq> inst"
  shows "foldl file_record [(inst, rs)] as = (if as = [] then [(inst, rs)] else [(inst, rs), (host, extend_unique [] as)])"
proof (cases as)
  case (Cons a as')
  with assms file_hosts [of as' host inst rs "[a]"] show ?thesis by (simp add: unique_Cons)
qed simp

lemma unique_apart: "set t \<inter> set as = {} \<Longrightarrow> extend_unique (t @ u) as = t @ extend_unique u as"
proof (induction as arbitrary: u)
  case (Cons a as)
  from Cons.prems Cons.IH [of u] Cons.IH [of "u @ [a]"] show ?case by (simp add: unique_Cons)
qed (simp add: unique_Nil)

lemma map_filter_app: "List.map_filter h (xs @ ys) = List.map_filter h xs @ List.map_filter h ys"
  by (induction xs) (auto simp: map_filter_simps split: option.split)

lemma find_append: "find P (xs @ ys) = (case find P xs of None \<Rightarrow> find P ys | Some x \<Rightarrow> Some x)"
  by (induction xs) auto

lemma find_map_filter_unique:
  "find P (List.map_filter h (extend_unique t as)) = find P (List.map_filter h (t @ as))"
proof (induction as arbitrary: t)
  case (Cons a as)
  show ?case
  proof (cases "a \<in> set t")
    case True
    have "find P (List.map_filter h t) = None \<Longrightarrow> (case h a of None \<Rightarrow> True | Some b \<Rightarrow> \<not> P b)"
      using True by (auto simp: find_None_iff List.map_filter_def split: option.splits)
    then have "find P (List.map_filter h (t @ as)) = find P (List.map_filter h (t @ a # as))"
      by (auto simp: map_filter_app map_filter_simps find_append split: option.splits)
    with Cons [of t] True show ?thesis by (simp add: unique_Cons)
  next
    case False
    with Cons [of "t @ [a]"] show ?thesis by (simp add: unique_Cons)
  qed
qed (simp add: unique_Nil)

text \<open>A response as the browser sees it: the classes and TTLs of its records do not matter.\<close>

definition pointer_seen :: "service_registration \<Rightarrow> resource \<Rightarrow> bool" where
  "pointer_seen g a \<longleftrightarrow> rr_name a = rg_service_type g \<and> rr_type a = QT_PTR \<and> rr_rd a = RD_Ptr (instance_name g)"

definition srv_seen :: "service_registration \<Rightarrow> resource \<Rightarrow> bool" where
  "srv_seen g a \<longleftrightarrow> rr_name a = instance_name g \<and> rr_type a = QT_SRV
     \<and> rr_rd a = RD_Srv \<lparr>srv_priority = 0, srv_weight = 0, srv_port = rg_port g, srv_target = rg_host g\<rparr>"

definition txt_seen :: "service_registration \<Rightarrow> resource \<Rightarrow> bool" where
  "txt_seen g a \<longleftrightarrow> rr_name a = instance_name g \<and> rr_type a = QT_TXT \<and> rr_rd a = RD_Txt (carried g)"

definition address_seen :: "service_registration \<Rightarrow> resource \<Rightarrow> bytes \<Rightarrow> bool" where
  "address_seen g a octets \<longleftrightarrow> rr_name a = rg_host g \<and> rr_type a = QT_A \<and> rr_rd a = RD_A octets"

lemma addresses_seen:
  "list_all2 (address_seen g) as octets \<Longrightarrow> List.map_filter v4_address as = octets \<and> (\<forall>a \<in> set as. rr_name a = rg_host g \<and> rr_type a = QT_A)"
  by (induction rule: list_all2_induct) (auto simp: map_filter_simps address_seen_def v4_address_def)

lemma published_read:
  assumes g: "publishable nfc g"
    and "dm_answers m = [ptr]" and "dm_resources m = srv # txr # as"
    and "pointer_seen g ptr" and "srv_seen g srv" and "txt_seen g txr" and "list_all2 (address_seen g) as octets"
    and "find (\<lambda>a. \<not> is_link_local a) octets = find (\<lambda>a. \<not> is_link_local a) (rg_addresses g)"
  shows "parse_services m = [published_service g]"
proof -
  let ?inst = "instance_name g" and ?host = "rg_host g" and ?p = "add_message service_parser_new m"
  note v4 = addresses_seen [OF assms(7)]
  from g obtain n where n: "split_name ?inst = Ok n" "sn_instance n = Some (rg_instance g)" "ptr_name n = rg_service_type g"
    by (auto simp: publishable_def split: sum.splits)
  from g obtain e where host: "split_name ?host = Err e" by (auto simp: publishable_def split: sum.splits)
  have ne: "?host \<noteq> ?inst" by (rule host_apart [OF g])
  have types: "\<not> type_pointer a" if "a \<in> set (srv # txr # as)" for a
    using that v4 assms(5,6) by (auto simp: type_pointer_def srv_seen_def txt_seen_def query_types)
  have tp: "type_pointer ptr" using g assms(4) by (auto simp: type_pointer_def pointer_seen_def publishable_def)
  have plain: "filter (\<lambda>a. \<not> type_pointer a) (dm_resources m) = dm_resources m" unfolding assms(3) filter_id_conv using types by blast
  have "foldl file_record [] (dm_resources m) = foldl file_record [(?inst, [srv, txr])] as"
    using assms(3,5,6) by (auto simp: srv_seen_def txt_seen_def query_types)
  then have table: "sp_table ?p = (if as = [] then [(?inst, [srv, txr])] else [(?inst, [srv, txr]), (?host, extend_unique [] as)])"
    using file_first_hosts [of as ?host ?inst "[srv, txr]"] v4 ne assms(2) plain tp
    by (simp add: add_message_parts plain_records_def service_parser_new_def)
  have "pointers (dm_resources m) = []" using assms(3) types by (auto simp: pointers_def List.map_filter_def filter_empty_conv)
  then have ptrs: "sp_ptrs ?p = [(rg_service_type g, ?inst)]"
    using assms(2,4) tp by (simp add: add_message_parts service_parser_new_def pointers_def map_filter_simps pointer_seen_def)
  have addr: "routable_address (sp_table ?p) ?host = find (\<lambda>a. \<not> is_link_local a) (rg_addresses g)"
    using table ne v4 assms(7,8) find_map_filter_unique [of _ v4_address "[]" as] by (auto simp: routable_address_def)
  have svc: "owner_service (sp_table ?p) (?inst, [srv, txr]) = Some (published_service g)"
    using n addr assms(5,6) by (simp add: owner_service_def first_rr_def srv_seen_def txt_seen_def query_types published_service_def)
  have none: "owner_service (sp_table ?p) (?host, hs) = None" for hs using host by (simp add: owner_service_def)
  from svc have "foldl (owner_step (sp_table ?p)) [] (sp_table ?p) = [(?inst, published_service g)]"
    using none by (subst (2) table) (simp add: owner_step_def)
  then show ?thesis by (simp add: parse_services_def parsed_services_def ptrs pointer_step_def)
qed

section \<open>Over the wire\<close>

lemma address_records_seen:
  assumes "a \<in> set (extend_unique [] (address_records g ttl))"
  shows "\<exists>octets. v4_address a = Some octets \<and> octets \<in> set (rg_addresses g) \<and> rr_name a = rg_host g \<and> rr_type a = QT_A \<and> rr_rd a = RD_A octets"
  using assms by (auto simp: unique_set address_records_def v4_address_def)

lemma unique_browse:
  "extend_unique [] (browse_records g cap) = srv_record g (ttl_cap cap HOST_TTL) # txt_record g (ttl_cap cap SERVICE_TTL)
     # extend_unique [] (address_records g (ttl_cap cap HOST_TTL))"
proof -
  let ?s = "srv_record g (ttl_cap cap HOST_TTL)" and ?t = "txt_record g (ttl_cap cap SERVICE_TTL)" and ?a = "address_records g (ttl_cap cap HOST_TTL)"
  have "?s \<noteq> ?t" by (simp add: srv_record_def txt_record_def query_types)
  then have "extend_unique [] (browse_records g cap) = extend_unique ([?s, ?t] @ []) ?a" by (simp add: browse_records_def unique_Cons)
  also have "\<dots> = [?s, ?t] @ extend_unique [] ?a"
    by (rule unique_apart) (auto simp: srv_record_def txt_record_def address_records_def query_types)
  finally show ?thesis by simp
qed

lemma sent_seen:
  assumes "publishable nfc g"
  shows "pointer_seen g (resource_seen (sent_one legacy (ptr_record g ttl)))"
    and "srv_seen g (resource_seen (sent_one legacy (srv_record g ttl)))"
    and "txt_seen g (resource_seen (sent_one legacy (txt_record g ttl)))"
  using txt_reads_seen [OF carried_reads [OF assms]] assms
  by (simp_all add: sent_one_def resource_seen_def rdata_seen_def ptr_record_def srv_record_def txt_record_def
      pointer_seen_def srv_seen_def txt_seen_def publishable_def)

lemma sent_wire:
  assumes "publishable nfc g" and "a \<in> set (ptr_record g ttl # browse_records g cap)"
  shows "resource_wire nfc (sent_one legacy a)"
proof -
  have "resource_wire nfc (sent_one legacy a) = resource_wire nfc a" by (simp add: resource_wire_def sent_one_def)
  with assms carried_reads [OF assms(1)] show ?thesis
    by (auto simp: browse_records_def resource_wire_def rdata_wire_def rdata_ok_def ptr_record_def srv_record_def txt_record_def
        address_records_def publishable_def query_types list_all_iff)
qed

lemma sent_addresses:
  assumes "\<forall>a \<in> set as. \<exists>octets. v4_address a = Some octets \<and> rr_name a = rg_host g \<and> rr_type a = QT_A \<and> rr_rd a = RD_A octets"
  shows "list_all2 (address_seen g) (map resource_seen (sent_as legacy as)) (List.map_filter v4_address as)"
  using assms by (induction as) (auto simp: map_filter_simps sent_one_def resource_seen_def rdata_seen_def address_seen_def)

lemma published_addresses: "List.map_filter v4_address (address_records g t) = rg_addresses g"
proof -
  have "List.map_filter v4_address (map (\<lambda>a. \<lparr>rr_name = n, rr_type = QT_A, rr_class = c, rr_ttl = t, rr_rd = RD_A a\<rparr>) as) = as" for n c as
    by (induction as) (simp_all add: map_filter_simps v4_address_def)
  then show ?thesis by (simp add: address_records_def)
qed

lemma response_found:
  assumes g: "publishable nfc g" and q: "list_all (question_ok nfc) ask" "length ask \<le> 65535"
    and m: "m = \<lparr>dm_id = i, dm_flags = RESPONSE_FLAGS, dm_questions = ask, dm_answers = sent_as legacy [ptr_record g ttl], dm_authorities = [],
      dm_resources = sent_as legacy (extend_unique [] (browse_records g cap))\<rparr>"
  shows "dns_unpack (dns_pack nfc m) = Ok (message_seen m) \<and> parse_services (message_seen m) = [published_service g]"
proof
  let ?as = "extend_unique [] (address_records g (ttl_cap cap HOST_TTL))"
  have "length (extend_unique [] (browse_records g cap)) \<le> 1002"
    using unique_length [of "[]" "address_records g (ttl_cap cap HOST_TTL)"] g by (simp add: unique_browse address_records_def publishable_def)
  then have "message_wire nfc m"
    using q sent_wire [OF g, of _ ttl cap legacy] by (auto simp: message_wire_def m list_all_iff unique_set)
  then show "dns_unpack (dns_pack nfc m) = Ok (message_seen m)"
    by (simp add: dns_pack_def pack_reads writer_ok_def)
  have a: "list_all2 (address_seen g) (map resource_seen (sent_as legacy ?as)) (List.map_filter v4_address ?as)"
    by (rule sent_addresses) (use address_records_seen in blast)
  have f: "find (\<lambda>a. \<not> is_link_local a) (List.map_filter v4_address ?as) = find (\<lambda>a. \<not> is_link_local a) (rg_addresses g)"
    by (simp add: find_map_filter_unique published_addresses)
  show "parse_services (message_seen m) = [published_service g]"
    by (rule published_read [OF g _ _ sent_seen [OF g] a f]) (simp_all add: m message_seen_def unique_browse)
qed

text \<open>The query of a scan that asks for the type, and the answer to it.\<close>

lemma browse_query:
  assumes "publishable nfc g" and "rg_service_type g \<in> set services" and "\<forall>s \<in> set (SLEEP_PROXY_SERVICE # services). name_ok nfc s"
  shows "\<exists>query \<in> set (create_service_queries services QT_PTR). dns_unpack (dns_pack nfc query) = Ok query
    \<and> question_new (rg_service_type g) QT_PTR \<in> set (dm_questions query)
    \<and> (\<forall>legacy. \<exists>ask i. list_all (question_ok nfc) ask \<and> length ask \<le> 65535 \<and> respond g query legacy = Some
      \<lparr>dm_id = i, dm_flags = RESPONSE_FLAGS, dm_questions = ask,
       dm_answers = sent_as legacy [ptr_record g (ttl_cap (response_cap legacy) SERVICE_TTL)], dm_authorities = [],
       dm_resources = sent_as legacy (extend_unique [] (browse_records g (response_cap legacy)))\<rparr>)"
proof -
  from asked_for [OF assms(2)] obtain query where q: "query \<in> set (create_service_queries services QT_PTR)"
    "question_new (rg_service_type g) QT_PTR \<in> set (dm_questions query)" by blast
  from query_shape [OF q(1)] have s: "length (dm_questions query) \<le> 5" "dm_answers query = []" "dm_authorities query = []"
    "dm_resources query = []" "dm_flags query = DEFAULT_FLAGS"
    and qs: "\<And>r. r \<in> set (dm_questions query) \<Longrightarrow> \<exists>n \<in> set (SLEEP_PROXY_SERVICE # services). r = question_new n QT_PTR" by blast+
  have ok: "question_ok nfc r" if "r \<in> set (dm_questions query)" for r
    using qs [OF that] assms(3) by (auto simp: question_ok_def question_new_def)
  with s have w: "message_wire nfc query \<and> message_seen query = query"
    by (intro message_ok_wire) (simp add: message_ok_def)
  then have u: "dns_unpack (dns_pack nfc query) = Ok query" by (simp add: dns_pack_def pack_reads writer_ok_def)
  have "trim_dots (rg_service_type g) = rg_service_type g" using assms(1) trim_ok by (auto simp: publishable_def)
  with q(2) have named: "\<exists>r \<in> set (dm_questions query). eq_ignore_ascii_case (trim_dots (q_name r)) (rg_service_type g)"
    by (intro bexI [OF _ q(2)]) (simp add: question_new_def eq_ignore_ascii_case_def)
  have "q_type r = QT_PTR" if "r \<in> set (dm_questions query)" for r using qs [OF that] by (auto simp: question_new_def)
  moreover have "\<not> is_response (message_header query)"
    using s(5) by (simp add: is_response_def message_header_def DEFAULT_FLAGS_def)
  ultimately have a: "\<exists>ask i. set ask \<subseteq> set (dm_questions query) \<and> length ask \<le> length (dm_questions query) \<and> respond g query legacy = Some
    \<lparr>dm_id = i, dm_flags = RESPONSE_FLAGS, dm_questions = ask,
     dm_answers = sent_as legacy [ptr_record g (ttl_cap (response_cap legacy) SERVICE_TTL)], dm_authorities = [],
     dm_resources = sent_as legacy (extend_unique [] (browse_records g (response_cap legacy)))\<rparr>" for legacy
    using browse_response [OF _ s(2) _ named, of legacy] by blast
  have "list_all (question_ok nfc) ask \<and> length ask \<le> 65535" if "set ask \<subseteq> set (dm_questions query)" "length ask \<le> length (dm_questions query)" for ask
    using that ok s(1) by (auto simp: list_all_iff)
  with a show ?thesis by (intro bexI [OF _ q(1)] conjI u q(2) allI) blast
qed

section \<open>Properties\<close>

text \<open>
  C38: What is published is found. A scan that asks for the type of a published service, among any other services, sends
  a query that reaches the responder as it was sent; the responder answers it, and from the packed answer, whether
  in the form for a full mDNS host or the one for a one-shot resolver, the browser reads exactly that service: its type,
  its instance (dots included), its port, its first address that is not link-local, and its properties. A service
  without properties is read as one with an empty key.
\<close>

theorem published_found:
  assumes "publishable nfc g" and "rg_service_type g \<in> set services" and "\<forall>s \<in> set (SLEEP_PROXY_SERVICE # services). name_ok nfc s"
  shows "\<exists>query \<in> set (create_service_queries services QT_PTR). \<exists>m seen. dns_unpack (dns_pack nfc query) = Ok query
    \<and> respond g query legacy = Some m \<and> dns_unpack (dns_pack nfc m) = Ok seen \<and> parse_services seen = [published_service g]"
proof -
  from browse_query [OF assms] obtain query ask i where q: "query \<in> set (create_service_queries services QT_PTR)"
    "dns_unpack (dns_pack nfc query) = Ok query" "list_all (question_ok nfc) ask" "length ask \<le> 65535"
    and r: "respond g query legacy = Some \<lparr>dm_id = i, dm_flags = RESPONSE_FLAGS, dm_questions = ask,
       dm_answers = sent_as legacy [ptr_record g (ttl_cap (response_cap legacy) SERVICE_TTL)], dm_authorities = [],
       dm_resources = sent_as legacy (extend_unique [] (browse_records g (response_cap legacy)))\<rparr>" by blast
  from response_found [OF assms(1) q(3,4) refl] q(2) r show ?thesis by (intro bexI [OF _ q(1)]) blast
qed

definition toy_registration :: service_registration where
  "toy_registration = with_property (with_address (registration_new (lit ''_t._tcp.local'') (lit ''a.b'') (lit ''h.local'') 80) [10, 0, 0, 1])
     (lit ''Key'') (lit ''v'')"

lemma toy_published: "publishable (\<lambda>l. l) toy_registration"
  by (simp add: publishable_def toy_registration_def with_property_def with_address_def registration_new_def instance_name_def
      name_ok_def name_to_labels_def split_name_def ptr_name_def Let_def MAX_LABEL_LENGTH_def MAX_POINTER_JUMPS_def ACE_PREFIX_def
      txt_rdata_def eq_ignore_ascii_case_def ascii_lowercase_def lower_def utf8_valid_ascii)

lemma toy_services_ok: "\<forall>s \<in> set [SLEEP_PROXY_SERVICE, lit ''_t._tcp.local'']. name_ok (\<lambda>l. l) s"
  by (simp add: SLEEP_PROXY_SERVICE_def name_ok_def name_to_labels_def split_name_def ptr_name_def Let_def MAX_LABEL_LENGTH_def
      MAX_POINTER_JUMPS_def ACE_PREFIX_def eq_ignore_ascii_case_def ascii_lowercase_def lower_def utf8_valid_ascii)

lemma toy_asked: "rg_service_type toy_registration \<in> set [lit ''_t._tcp.local'']"
  by (simp add: toy_registration_def with_property_def with_address_def registration_new_def)

theorem published_found_witness:
  "\<exists>query \<in> set (create_service_queries [lit ''_t._tcp.local''] QT_PTR). \<exists>m seen. respond toy_registration query True = Some m
    \<and> dns_unpack (dns_pack (\<lambda>l. l) m) = Ok seen
    \<and> parse_services seen = [\<lparr>sv_type = lit ''_t._tcp.local'', sv_name = lit ''a.b'', sv_address = Some [10, 0, 0, 1], sv_port = 80,
      sv_properties = [(lit ''key'', lit ''v'')]\<rparr>]"
proof -
  have s: "published_service toy_registration = \<lparr>sv_type = lit ''_t._tcp.local'', sv_name = lit ''a.b'', sv_address = Some [10, 0, 0, 1],
      sv_port = 80, sv_properties = [(lit ''key'', lit ''v'')]\<rparr>"
    by (simp add: published_service_def toy_registration_def with_property_def with_address_def registration_new_def is_link_local_def
        carried_def txt_encode_def txt_entry_def Let_def survives_def ci_from_iter_def ci_insert_def ascii_lowercase_def lower_def
        decode_properties_def decode_txt_value_def utf8_valid_ascii)
  from published_found [OF toy_published toy_asked toy_services_ok, of True] show ?thesis unfolding s by blast
qed

end
