(* ===== verification/Mdns_Responder.thy ===== *)
theory Mdns_Responder
  imports Mdns_Found
begin

text \<open>
  When a published service is multicast (\<open>pyatv-mdns\<close>: \<open>publish/responder.rs\<close>): the log of what went out, the
  answer to one datagram, and the task that reads datagrams, interleaved with the one that announces. A time is the
  nanoseconds of an \<open>Instant\<close>; the readings of the clock are arguments, one per record whose age is asked.
\<close>

section \<open>The log of multicasts\<close>

definition MULTICAST_RATE_LIMIT :: nat where "MULTICAST_RATE_LIMIT = 1000000000"
definition QU_RECENT_TTL_FRACTION :: u32 where "QU_RECENT_TTL_FRACTION = 4"
definition MDNS_PORT :: u16 where "MDNS_PORT = 5353"

type_synonym sent_key = "bytes \<times> u16 \<times> record_data"

definition record_key :: "resource \<Rightarrow> sent_key" where
  "record_key a = (ascii_lowercase (trim_dots (rr_name a)), rr_type a, rr_rd a)"

type_synonym multicast_log = "(sent_key \<times> nat) list"

fun note_time :: "multicast_log \<Rightarrow> sent_key \<Rightarrow> nat \<Rightarrow> multicast_log" where
  "note_time [] key now = [(key, now)]"
| "note_time ((k, at) # log) key now = (if k = key then (k, now) # log else (k, at) # note_time log key now)"

definition log_record :: "multicast_log \<Rightarrow> resource list \<Rightarrow> nat \<Rightarrow> multicast_log" where
  "log_record log rs now = foldl (\<lambda>l a. note_time l (record_key a) now) log rs"

text \<open>\<open>Instant::elapsed\<close> saturates at zero.\<close>

definition since :: "multicast_log \<Rightarrow> resource \<Rightarrow> nat \<Rightarrow> nat option" where
  "since log a now = map_option (\<lambda>at. now - at) (map_of log (record_key a))"

definition all_recent :: "multicast_log \<Rightarrow> (resource \<Rightarrow> nat) \<Rightarrow> resource list \<Rightarrow> bool" where
  "all_recent log clock rs = list_all (\<lambda>a. case since log a (clock a) of None \<Rightarrow> False
     | Some elapsed \<Rightarrow> elapsed < unat (rr_ttl a div QU_RECENT_TTL_FRACTION) * 1000000000) rs"

definition rested :: "multicast_log \<Rightarrow> (resource \<Rightarrow> nat) \<Rightarrow> resource \<Rightarrow> bool" where
  "rested log clock a = (case since log a (clock a) of None \<Rightarrow> True | Some elapsed \<Rightarrow> elapsed \<ge> MULTICAST_RATE_LIMIT)"

definition drop_rate_limited :: "multicast_log \<Rightarrow> (resource \<Rightarrow> nat) \<Rightarrow> dns_message \<Rightarrow> dns_message" where
  "drop_rate_limited log clock m = m\<lparr>dm_answers := filter (rested log clock) (dm_answers m), dm_resources := filter (rested log clock) (dm_resources m)\<rparr>"

definition exclude_loopback :: "bytes list \<Rightarrow> bytes list" where
  "exclude_loopback addresses = filter (\<lambda>a. take 1 a \<noteq> [127]) addresses"

section \<open>One datagram\<close>

datatype reply = Quiet | ToSender dns_message | ToGroup dns_message

definition handle_datagram :: "service_registration \<Rightarrow> multicast_log \<Rightarrow> (resource \<Rightarrow> nat) \<Rightarrow> (resource \<Rightarrow> nat) \<Rightarrow> bytes \<Rightarrow> u16 \<Rightarrow> reply" where
  "handle_datagram g log asked clock datagram port = (case dns_unpack datagram of
     Err e \<Rightarrow> Quiet
   | Ok query \<Rightarrow> (let legacy = port \<noteq> MDNS_PORT in case respond g query legacy of
       None \<Rightarrow> Quiet
     | Some response \<Rightarrow>
         if legacy then ToSender response
         else if wants_unicast g query \<and> all_recent log asked (dm_answers response) then ToSender response
         else let limited = drop_rate_limited log clock response in
           if dm_answers limited = [] then Quiet else ToGroup limited))"

section \<open>The tasks\<close>

text \<open>
  The two tasks share the log. \<open>rs_pending\<close> is the answer whose multicast the serving task awaits, with the readings
  at which its records were found rested; \<open>rs_now\<close> is the last reading of the clock, and \<open>rs_sent\<close> what has
  been multicast and noted, an answer with its readings, an announcement without.
\<close>

record responder =
  rs_log :: multicast_log
  rs_pending :: "(dns_message \<times> (resource \<Rightarrow> nat)) option"
  rs_now :: nat
  rs_sent :: "(dns_message \<times> (resource \<Rightarrow> nat) option \<times> nat) list"

definition responder_new :: responder where
  "responder_new = \<lparr>rs_log = [], rs_pending = None, rs_now = 0, rs_sent = []\<rparr>"

definition message_records :: "dns_message \<Rightarrow> resource list" where
  "message_records m = dm_answers m @ dm_resources m"

text \<open>
  \<open>multicast\<close>, once the socket has answered: what was sent is noted, what failed is not. The source reads the
  clock just before it takes the log's lock; here the reading and the note are one step.
\<close>

definition multicast_done :: "dns_message \<Rightarrow> (resource \<Rightarrow> nat) option \<Rightarrow> bool \<Rightarrow> nat \<Rightarrow> responder \<Rightarrow> responder" where
  "multicast_done m clock sent now s = (if sent
     then s\<lparr>rs_log := log_record (rs_log s) (message_records m) now, rs_now := now, rs_sent := rs_sent s @ [(m, clock, now)]\<rparr> else s)"

text \<open>
  A step of the serving task is a datagram it has read or the end of its multicast; a step of the others is the end of
  theirs: an announcement, or the goodbye of \<open>unregister\<close>. Clock readings do not go back.
\<close>

inductive responder_step :: "service_registration \<Rightarrow> responder \<Rightarrow> responder \<Rightarrow> bool" for g where
  Answers: "rs_pending s = None \<Longrightarrow> handle_datagram g (rs_log s) asked clock datagram port = ToGroup m
    \<Longrightarrow> \<forall>a. rs_now s \<le> clock a \<and> clock a \<le> now \<Longrightarrow> responder_step g s (s\<lparr>rs_pending := Some (m, clock), rs_now := now\<rparr>)"
| Silent: "rs_pending s = None \<Longrightarrow> \<forall>m. handle_datagram g (rs_log s) asked clock datagram port \<noteq> ToGroup m
    \<Longrightarrow> rs_now s \<le> now \<Longrightarrow> responder_step g s (s\<lparr>rs_now := now\<rparr>)"
| Answered: "rs_pending s = Some (m, clock) \<Longrightarrow> rs_now s \<le> now
    \<Longrightarrow> responder_step g s ((multicast_done m (Some clock) sent now s)\<lparr>rs_pending := None\<rparr>)"
| Announced: "m = announcement g \<or> m = goodbye g \<Longrightarrow> rs_now s \<le> now \<Longrightarrow> responder_step g s (multicast_done m None sent now s)"

inductive responder_reach :: "service_registration \<Rightarrow> responder \<Rightarrow> bool" for g where
  Start: "responder_reach g responder_new"
| Step: "responder_reach g s \<Longrightarrow> responder_step g s t \<Longrightarrow> responder_reach g t"

section \<open>What the log holds\<close>

lemma note_time_map_of: "map_of (note_time log k now) l = (if l = k then Some now else map_of log l)"
  by (induction log k now rule: note_time.induct) auto

lemma log_record_map_of: "map_of (log_record log rs now) k = (if k \<in> record_key ` set rs then Some now else map_of log k)"
  by (induction rs arbitrary: log) (auto simp: log_record_def note_time_map_of)

text \<open>An entry of the log is the time of a multicast of its record, and none is later.\<close>

definition log_true :: "responder \<Rightarrow> bool" where
  "log_true s \<longleftrightarrow>
     (\<forall>k t. map_of (rs_log s) k = Some t \<longrightarrow> (\<exists>(m, c, u) \<in> set (rs_sent s). u = t \<and> k \<in> record_key ` set (message_records m)))
     \<and> (\<forall>(m, c, u) \<in> set (rs_sent s). u \<le> rs_now s \<and> (\<forall>a \<in> set (message_records m). \<exists>t \<ge> u. map_of (rs_log s) (record_key a) = Some t))"

lemma log_true_step:
  assumes "responder_step g s t" and "log_true s"
  shows "log_true t \<and> rs_now s \<le> rs_now t"
proof -
  have noted: "log_true (multicast_done m c sent now s)" if "rs_now s \<le> now" for m c sent now
    using assms(2) that unfolding log_true_def
    by (fastforce simp: multicast_done_def log_record_map_of split: if_splits)
  have pend: "log_true (u\<lparr>rs_pending := p\<rparr>) = log_true u" for u p by (simp add: log_true_def)
  have now: "log_true (s\<lparr>rs_now := now\<rparr>)" if "rs_now s \<le> now" for now
    using assms(2) that unfolding log_true_def by fastforce
  from assms(1) show ?thesis
  proof cases
    case (Answers asked clock datagram port m now)
    from Answers(4) have "rs_now s \<le> now" using order_trans by blast
    moreover have "log_true (s\<lparr>rs_pending := p, rs_now := now\<rparr>) = log_true (s\<lparr>rs_now := now\<rparr>)" for p by (simp add: log_true_def)
    ultimately show ?thesis using now Answers(1) by simp
  qed (use noted pend now in \<open>auto simp: multicast_done_def\<close>)
qed

lemma log_true_reach: "responder_reach g s \<Longrightarrow> log_true s"
proof (induction rule: responder_reach.induct)
  case Start
  show ?case by (simp add: log_true_def responder_new_def)
next
  case (Step s t)
  then show ?case using log_true_step by blast
qed

section \<open>A record rests between two answers\<close>

text \<open>\<open>apart\<close>: an answer was found rested a second after the earlier answer that held one of its records was sent.\<close>

definition apart :: "dns_message \<times> (resource \<Rightarrow> nat) option \<times> nat \<Rightarrow> dns_message \<times> (resource \<Rightarrow> nat) option \<times> nat \<Rightarrow> bool" where
  "apart x y = (case (x, y) of ((m, Some c, t), (m', Some c', t')) \<Rightarrow> (\<forall>a \<in> set (message_records m'). c' a \<le> t'
       \<and> (\<forall>b \<in> set (message_records m). record_key b = record_key a \<longrightarrow> t + MULTICAST_RATE_LIMIT \<le> c' a))
     | _ \<Rightarrow> True)"

definition spaced :: "responder \<Rightarrow> bool" where
  "spaced s \<longleftrightarrow> sorted_wrt apart (rs_sent s)
     \<and> (case rs_pending s of None \<Rightarrow> True | Some (m, c) \<Rightarrow> (\<forall>x \<in> set (rs_sent s). apart x (m, Some c, rs_now s)))"

lemma group_rested:
  assumes "handle_datagram g log asked clock datagram port = ToGroup m" and "a \<in> set (message_records m)"
  shows "rested log clock a"
  using assms by (auto simp: handle_datagram_def Let_def message_records_def drop_rate_limited_def split: sum.splits option.splits if_splits)

lemma rested_apart:
  assumes "log_true s" and "(m, c, t) \<in> set (rs_sent s)" and "b \<in> set (message_records m)" and "rested (rs_log s) clock a"
    and "record_key b = record_key a"
  shows "t + MULTICAST_RATE_LIMIT \<le> clock a"
proof -
  from assms(1-3,5) obtain u where "t \<le> u" "map_of (rs_log s) (record_key a) = Some u" unfolding log_true_def by fastforce
  with assms(4) show ?thesis by (simp add: rested_def since_def MULTICAST_RATE_LIMIT_def)
qed

lemma apart_later: "apart x (m, c, t) \<Longrightarrow> t \<le> u \<Longrightarrow> apart x (m, c, u)"
  by (auto simp: apart_def split: prod.splits option.splits intro: order_trans)

lemma spaced_step:
  assumes "responder_step g s t" and "log_true s" and "spaced s"
  shows "spaced t"
  using assms(1)
proof cases
  case (Answers asked clock datagram port m now)
  have "apart x (m, Some clock, now)" if "x \<in> set (rs_sent s)" for x
  proof (cases x)
    case (fields m0 c0 t0)
    with that rested_apart [OF assms(2), of m0 c0 t0] group_rested [OF Answers(3)] Answers(4)
    show ?thesis by (auto simp: apart_def split: option.splits)
  qed
  with assms(3) show ?thesis unfolding Answers(1) by (simp add: spaced_def)
next
  case Silent
  with assms(3) show ?thesis by (simp add: spaced_def)
next
  case (Answered m clock now sent)
  with assms(3) apart_later [of _ m "Some clock" "rs_now s" now] show ?thesis
    by (auto simp: spaced_def multicast_done_def sorted_wrt_append)
next
  case (Announced m now sent)
  have "apart x (m, None, u)" "apart (m, None, u) x" for x u by (auto simp: apart_def split: prod.splits option.splits)
  with assms(3) Announced apart_later show ?thesis
    by (fastforce simp: spaced_def multicast_done_def sorted_wrt_append split: option.splits)
qed

lemma spaced_reach: "responder_reach g s \<Longrightarrow> spaced s"
proof (induction rule: responder_reach.induct)
  case Start
  show ?case by (simp add: spaced_def responder_new_def)
next
  case (Step s t)
  then show ?case using spaced_step log_true_reach by blast
qed

text \<open>
  C39: A record rests a second between two answers. Whatever datagrams arrive and whenever announcements go out in
  between, a record that has been multicast in an answer is multicast in a later one only if its age was read to be a
  second or more, and not before that reading.
\<close>

theorem multicasts_rest:
  assumes "responder_reach g s" and "i < j" and "j < length (rs_sent s)"
    and "rs_sent s ! i = (m, Some c, t)" and "rs_sent s ! j = (m', Some c', t')"
    and "b \<in> set (message_records m)" and "a \<in> set (message_records m')" and "record_key b = record_key a"
  shows "t + MULTICAST_RATE_LIMIT \<le> c' a \<and> c' a \<le> t'"
proof -
  have "sorted_wrt apart (rs_sent s)" using spaced_reach [OF assms(1)] by (simp add: spaced_def)
  from sorted_wrt_nth_less [OF this assms(2,3)] assms(4-8) show ?thesis by (auto simp: apart_def)
qed

text \<open>
  A question for a unicast reply gets one only while every cache is fresh: each of its answers has been multicast,
  in an answer or an announcement, less than a quarter of its TTL before its age was read.
\<close>

theorem unicast_only_fresh:
  assumes "responder_reach g s" and "handle_datagram g (rs_log s) asked clock datagram MDNS_PORT = ToSender m" and "a \<in> set (dm_answers m)"
  shows "\<exists>(m', c, t) \<in> set (rs_sent s). record_key a \<in> record_key ` set (message_records m')
    \<and> asked a < t + unat (rr_ttl a div QU_RECENT_TTL_FRACTION) * 1000000000"
proof -
  from assms(2) have "all_recent (rs_log s) asked (dm_answers m)"
    by (auto simp: handle_datagram_def Let_def split: sum.splits option.splits if_splits)
  with assms(3) obtain t where t: "map_of (rs_log s) (record_key a) = Some t"
    "asked a - t < unat (rr_ttl a div QU_RECENT_TTL_FRACTION) * 1000000000"
    by (auto simp: all_recent_def list_all_iff since_def split: option.splits)
  from log_true_reach [OF assms(1)] t(1)
  have "\<exists>(m', c, u) \<in> set (rs_sent s). u = t \<and> record_key a \<in> record_key ` set (message_records m')"
    unfolding log_true_def by blast
  then obtain m' c where s: "(m', c, t) \<in> set (rs_sent s)" "record_key a \<in> record_key ` set (message_records m')" by auto
  from t(2) have "asked a < t + unat (rr_ttl a div QU_RECENT_TTL_FRACTION) * 1000000000" by linarith
  with s show ?thesis by (intro bexI [OF _ s(1)]) simp
qed

text \<open>A responder asked twice, half an hour apart.\<close>

lemma toy_browse:
  "\<exists>query m. dns_unpack (dns_pack (\<lambda>l. l) query) = Ok query \<and> wants_unicast toy_registration query \<and> respond toy_registration query False = Some m
     \<and> dm_answers m = [ptr_record toy_registration SERVICE_TTL]"
proof -
  from browse_query [OF toy_published toy_asked toy_services_ok] obtain query ask i where
    q: "dns_unpack (dns_pack (\<lambda>l. l) query) = Ok query" "question_new (rg_service_type toy_registration) QT_PTR \<in> set (dm_questions query)"
    "respond toy_registration query False = Some \<lparr>dm_id = i, dm_flags = RESPONSE_FLAGS, dm_questions = ask,
       dm_answers = sent_as False [ptr_record toy_registration (ttl_cap (response_cap False) SERVICE_TTL)], dm_authorities = [],
       dm_resources = sent_as False (extend_unique [] (browse_records toy_registration (response_cap False)))\<rparr>" by blast
  have "trim_dots (rg_service_type toy_registration) = rg_service_type toy_registration" using toy_published trim_ok by (auto simp: publishable_def)
  then have "wants_unicast toy_registration query"
    unfolding wants_unicast_def list_ex_iff
    by (intro bexI [OF _ q(2)]) (simp add: question_new_def wants_unicast_response_def QCLASS_IN_UNICAST_def pointer_answer eq_ignore_ascii_case_def
        UNICAST_RESPONSE_def)
  moreover have "\<exists>m. respond toy_registration query False = Some m \<and> dm_answers m = [ptr_record toy_registration SERVICE_TTL]"
    using q(3) by (simp add: sent_one_def response_cap_def ttl_cap_def)
  ultimately show ?thesis using q(1) by blast
qed

lemma handle_group:
  assumes "dns_unpack d = Ok query" and "respond g query False = Some m" and "dm_answers m \<noteq> []"
    and "\<not> all_recent log asked (dm_answers m)" and "\<forall>a. rested log clock a"
  shows "handle_datagram g log asked clock d MDNS_PORT = ToGroup m"
proof -
  have "drop_rate_limited log clock m = m" using assms(5) by (simp add: drop_rate_limited_def)
  with assms show ?thesis by (simp add: handle_datagram_def)
qed

lemma answered_once:
  assumes "responder_reach g s" and "rs_pending s = None" and "rs_now s \<le> now"
    and "handle_datagram g (rs_log s) asked (\<lambda>_. now) d MDNS_PORT = ToGroup m"
  shows "responder_reach g (s\<lparr>rs_log := log_record (rs_log s) (message_records m) now, rs_now := now,
    rs_sent := rs_sent s @ [(m, Some (\<lambda>_. now), now)], rs_pending := None\<rparr>)"
proof -
  have "responder_step g s (s\<lparr>rs_pending := Some (m, \<lambda>_. now), rs_now := now\<rparr>)"
    by (rule responder_step.Answers [OF assms(2,4)]) (simp add: assms(3))
  from responder_reach.Step [OF assms(1) this]
  have "responder_reach g (s\<lparr>rs_pending := Some (m, \<lambda>_. now), rs_now := now\<rparr>)" .
  moreover have "responder_step g (s\<lparr>rs_pending := Some (m, \<lambda>_. now), rs_now := now\<rparr>)
      ((multicast_done m (Some (\<lambda>_. now)) True now (s\<lparr>rs_pending := Some (m, \<lambda>_. now), rs_now := now\<rparr>))\<lparr>rs_pending := None\<rparr>)"
    by (rule responder_step.Answered) simp_all
  ultimately show ?thesis by (auto simp: multicast_done_def dest: responder_reach.Step)
qed

lemma toy_twice:
  "\<exists>query m s. dns_unpack (dns_pack (\<lambda>l. l) query) = Ok query \<and> wants_unicast toy_registration query \<and> respond toy_registration query False = Some m
     \<and> dm_answers m = [ptr_record toy_registration SERVICE_TTL] \<and> responder_reach toy_registration s
     \<and> rs_sent s = [(m, Some (\<lambda>_. 0), 0), (m, Some (\<lambda>_. 2000000000000), 2000000000000)]
     \<and> map_of (rs_log s) (record_key (ptr_record toy_registration SERVICE_TTL)) = Some 2000000000000"
proof -
  let ?p = "ptr_record toy_registration SERVICE_TTL"
  from toy_browse obtain query m where q: "dns_unpack (dns_pack (\<lambda>l. l) query) = Ok query" "wants_unicast toy_registration query"
    "respond toy_registration query False = Some m" "dm_answers m = [?p]" by blast
  have r: "?p \<in> set (message_records m)" using q(4) by (simp add: message_records_def)
  have "handle_datagram toy_registration (rs_log responder_new) (\<lambda>_. 0) (\<lambda>_. 0) (dns_pack (\<lambda>l. l) query) MDNS_PORT = ToGroup m"
    by (rule handle_group [OF q(1,3)]) (simp_all add: q(4) all_recent_def rested_def since_def responder_new_def)
  from answered_once [OF responder_reach.Start _ _ this] obtain s where s: "responder_reach toy_registration s" "rs_pending s = None" "rs_now s = 0"
    "rs_sent s = [(m, Some (\<lambda>_. 0), 0)]" "rs_log s = log_record [] (message_records m) 0" by (simp add: responder_new_def)
  have l: "since (rs_log s) a now = (if record_key a \<in> record_key ` set (message_records m) then Some now else None)" for a now
    using s(5) by (simp add: since_def log_record_map_of)
  have "handle_datagram toy_registration (rs_log s) (\<lambda>_. 2000000000000) (\<lambda>_. 2000000000000) (dns_pack (\<lambda>l. l) query) MDNS_PORT = ToGroup m"
    by (rule handle_group [OF q(1,3)])
      (use r in \<open>auto simp: q(4) all_recent_def rested_def l MULTICAST_RATE_LIMIT_def ptr_record_def SERVICE_TTL_def QU_RECENT_TTL_FRACTION_def\<close>)
  from answered_once [OF s(1,2) _ this] s(3,4) r q show ?thesis
    by (intro exI [of _ query] exI [of _ m]) (auto simp: log_record_map_of)
qed

theorem multicasts_rest_witness:
  "\<exists>s m. responder_reach toy_registration s \<and> ptr_record toy_registration SERVICE_TTL \<in> set (message_records m)
     \<and> rs_sent s = [(m, Some (\<lambda>_. 0), 0), (m, Some (\<lambda>_. 2000000000000), 2000000000000)]
     \<and> 0 + MULTICAST_RATE_LIMIT \<le> 2000000000000"
proof -
  from toy_twice obtain m s where s: "responder_reach toy_registration s" "dm_answers m = [ptr_record toy_registration SERVICE_TTL]"
    "rs_sent s = [(m, Some (\<lambda>_. 0), 0), (m, Some (\<lambda>_. 2000000000000), 2000000000000)]" by blast
  let ?p = "ptr_record toy_registration SERVICE_TTL"
  have p: "?p \<in> set (message_records m)" using s(2) by (simp add: message_records_def)
  from multicasts_rest [OF s(1), of 0 1 m "\<lambda>_. 0" 0 m "\<lambda>_. 2000000000000" 2000000000000 ?p ?p] s(3) p
  have "0 + MULTICAST_RATE_LIMIT \<le> 2000000000000" by simp
  with s p show ?thesis by blast
qed

theorem unicast_only_fresh_witness:
  "\<exists>s. responder_reach toy_registration s
     \<and> (\<exists>(m, c, t) \<in> set (rs_sent s). 2000000000007 < t + unat (SERVICE_TTL div QU_RECENT_TTL_FRACTION) * 1000000000)"
proof -
  let ?p = "ptr_record toy_registration SERVICE_TTL"
  from toy_twice obtain query m s where q: "dns_unpack (dns_pack (\<lambda>l. l) query) = Ok query" "wants_unicast toy_registration query"
    "respond toy_registration query False = Some m" "dm_answers m = [?p]" and s: "responder_reach toy_registration s"
    "map_of (rs_log s) (record_key ?p) = Some 2000000000000" by blast
  have "all_recent (rs_log s) (\<lambda>_. 2000000000007) (dm_answers m)"
    by (simp add: all_recent_def q(4) since_def s(2)) (simp add: ptr_record_def SERVICE_TTL_def QU_RECENT_TTL_FRACTION_def)
  with q(1-3) have "handle_datagram toy_registration (rs_log s) (\<lambda>_. 2000000000007) (\<lambda>_. 2000000000007) (dns_pack (\<lambda>l. l) query) MDNS_PORT = ToSender m"
    by (simp add: handle_datagram_def)
  from unicast_only_fresh [OF s(1) this, of ?p] q(4) s(1) show ?thesis by (auto simp: ptr_record_def)
qed

end
