(* ===== verification/Spec2Isabelle.thy ===== *)
theory Spec2Isabelle
  imports Opack_Roundtrip Hap_Session Companion_Exchange Mrp_Direct Mrp_Updates Dns_Message Daap_Client Daap_Relogin Pairing_Order Raop_Ending Data_Tunnel Airplay_Exchange Airplay_Events Raop_Metadata Mdns_Responder
begin

text \<open>
  \<^bold>\<open>The program.\<close> \<open>pyatv-rs\<close> (a Rust workspace under \<open>src/crates/\<close>) finds Apple TVs and other
  receivers on the network, pairs with them and controls them over five protocols. \<open>pyatv-core\<close> is the
  device the caller sees: a facade that asks, per feature, the protocol with the highest priority
  (\<open>relayer.rs\<close>), lets one protocol own an interface for a while (\<open>facade/takeover.rs\<close>), and gathers
  listeners and facts. \<open>pyatv-mdns\<close> speaks DNS to find and to publish services. \<open>pyatv-pairing\<close> holds HAP
  pair-setup and pair-verify, the record cipher and the TLV8 and HAP framings. Four protocol crates sit on these:
  Companion (\<open>pyatv-proto-companion\<close>, OPACK messages from \<open>pyatv-opack\<close>), MRP (\<open>pyatv-proto-mrp\<close>,
  protobuf messages, directly over TCP or inside AirPlay), DMAP/DAAP (\<open>pyatv-proto-dmap\<close>, HTTP), and AirPlay
  with RAOP (\<open>pyatv-proto-airplay\<close>, RTSP, a HAP data stream, an event channel and UDP audio).

  \<^bold>\<open>Reading guide.\<close> Every definition that models code keeps the source's name (with a prefix or suffix where HOL
  has it already) and its order of checks. An operation of a \<open>&mut self\<close> method is a function to the result and
  the state it leaves; a \<open>Result\<close> is a value of a sum type (\<open>Err\<close>, \<open>Ok\<close>; \<open>?\<close> is the bind of \<open>Prelude\<close>);
  an \<open>async\<close> task is a step per outcome of its awaits. A string is its UTF-8 bytes. \<open>u8\<close> to \<open>u64\<close> are words,
  with the wrap-around of a release build where the source does not check; lengths and offsets (\<open>usize\<close>,
  64 bits) are natural numbers, compared with \<open>usize_max\<close> where the source checks; \<open>f32\<close> and \<open>f64\<close> are bit
  patterns (\<open>Float32\<close>, \<open>Float_Arith\<close>).

  \<^bold>\<open>Shared theories.\<close>
  \<^item> \<open>Prelude\<close>: machine types, the result monad, byte order, slices, UTF-8, and the collections
    \<open>res_simps\<close> and \<open>byte_simps\<close>. \<open>Rust_Str\<close>: searching, trimming, parsing and printing of \<open>str\<close>.
  \<^item> \<open>Ordered_Store\<close>: the locale of a store that keeps the order of first insertion, interpreted on the TLV8
    message (\<open>Tlv8\<close>), the TXT map (\<open>Dns_Txt\<close>) and the record tables of the browser (\<open>Mdns_Parser\<close>).
  \<^item> \<open>Framing\<close>: the locale of a decoder of a stream that takes complete frames off a buffer (\<open>stream_codec\<close>:
    what is decoded does not depend on how the bytes are cut) and, with a writer, \<open>framed_pair\<close> (what one end
    writes the other reads). Interpreted on the HAP session, the Companion connection, the direct MRP transport,
    the data stream of AirPlay and the RTSP connection.
  \<^item> \<open>Dns_Written\<close> declares \<open>wire_codec\<close>, the interface on which the DNS message codec rests (a writer at a
    position of a message, a reader that gives back what the message keeps of it); names, questions and resource
    records interpret it. \<open>Takeover\<close> declares \<open>claimable\<close>, the trait of that name, interpreted on \<open>Relayer\<close>.

  \<^bold>\<open>OPACK\<close> (\<open>pyatv-opack\<close>). \<open>Opack_Value\<close>: values, tags, errors, the two back-reference tables
  (\<open>value.rs\<close>, \<open>tags.rs\<close>, \<open>objects.rs\<close>); \<open>Opack_Ser\<close> (\<open>ser.rs\<close>); \<open>Opack_De\<close> (\<open>de.rs\<close>);
  \<open>Opack_Safety\<close>: the decoder ends on every input, within its depth and its budget; \<open>Opack_Roundtrip\<close>: what packs
  unpacks to its canonical form, the two tables numbered alike. The decoder runs on fuel: a value takes its tag byte
  before anything else, so twice the bytes left plus one is enough, which is what \<open>unpack_with_budget\<close> gives it, and
  \<open>unpack_total\<close> shows that it never runs out.

  \<^bold>\<open>Pairing and records\<close> (\<open>pyatv-pairing\<close>). \<open>Tlv8\<close>, \<open>Chacha\<close> (\<open>chacha.rs\<close>: no two counter-based
  encryptions seal under the same nonce), \<open>Hap_Session\<close> (\<open>session.rs\<close>: what was sealed is delivered however it is cut), \<open>Hap_Credentials\<close>
  (\<open>credentials.rs\<close>), \<open>Pairing_Crypto\<close> (\<open>hkdf_derive.rs\<close>, \<open>srp_hap/\<close>), \<open>Pair_Setup\<close>,
  \<open>Pair_Verify\<close> (the controller's machines, \<open>pairing/\<close>), \<open>Pair_Accessory\<close> (\<open>server/\<close>). \<open>Pairing_Run\<close>
  composes both ends, \<open>Pairing_Agreement\<close> shows that devices that pair can verify each other and that a wrong PIN
  is refused, \<open>Pairing_Order\<close> what must have been received before any order of calls gives keys or credentials.

  \<^bold>\<open>Companion\<close> (\<open>pyatv-proto-companion\<close>). \<open>Companion_Frame\<close>, \<open>Companion_Codec\<close>,
  \<open>Companion_Message\<close> are \<open>frame.rs\<close>, \<open>codec.rs\<close>, \<open>message.rs\<close>; \<open>Companion_Protocol\<close> is the driver
  (\<open>protocol.rs\<close> on \<open>connection.rs\<close>), with the socket as the list of what its reads and writes do;
  \<open>Companion_Exchange\<close> shows the bookkeeping of transactions, and when an exchange is answered.

  \<^bold>\<open>The device\<close> (\<open>pyatv-core\<close>). \<open>Features\<close>, \<open>Device_Info\<close>, \<open>Playing_Model\<close>,
  \<open>Relayer\<close>, \<open>Takeover\<close>, \<open>Facade\<close>, \<open>Facade_Calls\<close>, \<open>Listener_Hub\<close>: the files of these names.
  An \<open>Arc\<close> is a handle into a store, so two interfaces may share a relayer. Shown: a claim is all or nothing and
  no interface has two owners, a call goes to the instance that declared the feature, and updates are pushed of
  the main protocol only.

  \<^bold>\<open>MRP\<close> (\<open>pyatv-proto-mrp\<close>). \<open>Mrp_Varint\<close>, \<open>Mrp_Wire\<close>, \<open>Mrp_Message\<close>, \<open>Mrp_Direct\<close>
  carry a message (\<open>variant.rs\<close>, \<open>protobuf/wire.rs\<close>, \<open>message.rs\<close>, \<open>transport/direct.rs\<close>);
  \<open>Mrp_Players\<close>, \<open>Mrp_Playing\<close>, \<open>Mrp_State\<close> are the state a message changes (\<open>player_state.rs\<close>,
  \<open>playing.rs\<close>, \<open>state.rs\<close>); \<open>Mrp_Updates\<close> shows that the state stays consistent and that a change of what is
  playing is pushed to the listener.

  \<^bold>\<open>DNS and service discovery\<close> (\<open>pyatv-mdns\<close>). \<open>Dns_Reader\<close>, \<open>Punycode\<close>, \<open>Dns_Name\<close>,
  \<open>Dns_Txt\<close>, \<open>Dns_Record\<close>, \<open>Dns_Message\<close> are \<open>dns/\<close>. The parser of a name follows at most
  64 pointers, to anywhere; \<open>spells\<close> says what a name at an offset is, and the parser answers exactly that; \<open>rfc_name\<close> is
  RFC 1035's own set, which lies within it (no forward pointers, at most 255 octets). A message that is packed
  unpacks to what it keeps (\<open>message_seen\<close>: a TXT or an unknown record comes back in the form the parser has for it).
  \<open>Mdns_Parser\<close> is the browser's side (\<open>mdns/parser.rs\<close>, \<open>mdns/query.rs\<close>, \<open>service.rs\<close>):
  collecting records into services, and the queries it sends; \<open>Mdns_Publish\<close> is \<open>publish/registration.rs\<close>: the
  records of a published service and its answers; \<open>Mdns_Found\<close> lets the two meet: what is published is found.
  \<open>Mdns_Responder\<close> is \<open>publish/responder.rs\<close>: no record is multicast in two answers within a second.

  \<^bold>\<open>DMAP and DAAP\<close> (\<open>pyatv-proto-dmap\<close>). \<open>Dmap_Tags\<close>, \<open>Dmap_Parser\<close>, \<open>Dmap_Grammar\<close>: the
  tag format and its grammar, the parser's exact specification; \<open>Dmap_Response\<close>, \<open>Dmap_Client\<close> (\<open>http/\<close>,
  \<open>http.rs\<close>): response heads, bodies by length, chunks or end of stream, the same however the bytes arrive, and
  requests that no argument can split; \<open>Dmap_Playing\<close>, \<open>Daap\<close>, \<open>Daap_Client\<close>: the requester and the
  client on it; \<open>Daap_Relogin\<close>: the interleavings of refused requests,
  step by step: the lock keeps the stale session id in force until it is replaced, and only a device that hands an id out
  again makes two tasks log in for one reading of it.

  \<^bold>\<open>AirPlay and RAOP\<close> (\<open>pyatv-proto-airplay\<close>). \<open>Airplay_Codec\<close>, \<open>Airplay_Http\<close>,
  \<open>Airplay_Rtsp\<close>, \<open>Airplay_Exchange\<close>, \<open>Airplay_Error\<close>: the RTSP/HTTP codec (\<open>codec.rs\<close>), the connection, the session
  with its digest authentication and the verbs of RAOP, and what an exchange returns. \<open>Airplay_Events\<close>: the event
  channel. \<open>Data_Payload\<close>, \<open>Data_Stream\<close>, \<open>Data_Tunnel\<close>:
  the data stream (\<open>ap2/data_stream/\<close>) and the MRP tunnel's copy of its framing. \<open>Raop_Packets\<close>,
  \<open>Raop_Clock\<close>, \<open>Raop_Stream\<close>: the UDP packets, clocks, pacing and the streaming loop;
  \<open>Raop_Session\<close>, \<open>Raop_Receiver\<close>, \<open>Raop_Ending\<close>: what a receiver gets
  (packets numbered without a gap, lost ones sent again), and that a stream ends by itself; \<open>Raop_Metadata\<close>: the
  track's values and their \<open>mlit\<close> payload.

  \<^bold>\<open>Parameters.\<close> Code that is not in the repository is an argument, with what is relied on as a hypothesis that has an
  instance beside it: the AEAD (record \<open>aead\<close>, \<open>aead_ok\<close>, instance \<open>toy_aead\<close>), the other primitives of
  pairing (record \<open>crypto\<close>, \<open>crypto_ok\<close>, \<open>toy_crypto\<close>), \<open>prost\<close> and the generated protobuf tables
  (\<open>prost_api\<close>, \<open>prost_ok\<close>; \<open>mrp_api\<close>), binary property lists (\<open>plist_api\<close>, \<open>plist_ok\<close>), the
  gzip decoder, MD5, SHA-256, the Unicode normalisation \<open>nfc\<close>, the randomly keyed hash of a table, the \<open>Debug\<close> text
  of a value, and the crate's version. Random draws, clock readings and the outcomes of reads and writes are
  arguments as well, so a statement holds for all of them.

  \<^bold>\<open>Loops.\<close> Apart from the OPACK decoder, loops are recursive functions with their measures: the bytes of a buffer that
  are left, the jumps a name has left, the requests left of a retry, the queue of read outcomes.
  A connection whose reads run out has met its deadline or its end; what is shown to succeed is shown to succeed from
  what the peer sends (\<open>exchange_answered\<close>, \<open>exchange_returns_response\<close>, \<open>stream_ends\<close>).

  \<^bold>\<open>What modelling showed.\<close> Behaviour that is surely not meant is stated as a theorem where it can be:
  \<open>transient_rekeyed_unverified\<close> (a second M2 replaces a verified key), \<open>late_response_misattributed\<close>,
  \<open>announce_refusal_ignored\<close>, \<open>default_removal_unreported\<close>, \<open>known_txt_repeated\<close>; the manifest lists these
  and the places where a comment and the code differ.

  \<^bold>\<open>Not modelled.\<close> Sockets, timers and the runtime (the tasks' steps are, their scheduling is not, but where a
  theory says so); the command line and the graphical client; storage and settings files; audio decoding and
  resampling; the setup of AirPlay sessions, the players, and the RAOP manager; the legacy AirPlay pairing; the
  DMAP pairing server; the Companion, MRP and RAOP facades over the drivers; test support and generated code. The
  manifest says so file by file.
\<close>

end
